(* ===== verification/Prelude.thy ===== *)
theory Prelude
  imports Complex_Main
begin

text \<open>
  Shared vocabulary of the development: tables with an auto-increment key (what the SQL
  statements of \<open>database/queries/crud.py\<close> and \<open>services/\<close> select from, update, insert
  into and delete from), Python's naive and aware datetimes, and the generic list lemmas
  the component theories rewrite with.  A \<open>SELECT ... WHERE\<close> is a \<open>filter\<close> (or a \<open>find\<close>,
  for \<open>scalar_one_or_none\<close> on a unique key), an \<open>UPDATE ... WHERE\<close> is \<open>upd_where\<close>, and
  its \<open>rowcount\<close> is the number of rows the condition selects.
\<close>

named_theorems table_simps "rewriting of lookups after table updates"
named_theorems ledger_intros "operations that keep the coin ledger"

section \<open>Lists keyed by a field\<close>

definition find_key :: "('r \<Rightarrow> 'k) \<Rightarrow> 'k \<Rightarrow> 'r list \<Rightarrow> 'r option" where
  "find_key key k xs = find (\<lambda>r. key r = k) xs"

definition upd_list :: "('r \<Rightarrow> bool) \<Rightarrow> ('r \<Rightarrow> 'r) \<Rightarrow> 'r list \<Rightarrow> 'r list" where
  "upd_list P f xs = map (\<lambda>r. if P r then f r else r) xs"

lemma find_key_Nil [simp]: "find_key key k [] = None"
  by (simp add: find_key_def)

lemma find_key_Cons [simp]:
  "find_key key k (x # xs) = (if key x = k then Some x else find_key key k xs)"
  by (simp add: find_key_def)

lemma upd_list_Nil [simp]: "upd_list P f [] = []"
  by (simp add: upd_list_def)

lemma upd_list_Cons [simp]:
  "upd_list P f (x # xs) = (if P x then f x else x) # upd_list P f xs"
  by (simp add: upd_list_def)

lemma length_upd_list [simp]: "length (upd_list P f xs) = length xs"
  by (simp add: upd_list_def)

lemma find_key_SomeD: "find_key key k xs = Some r \<Longrightarrow> r \<in> set xs \<and> key r = k"
  by (induction xs) (auto split: if_splits)

lemma find_key_None_iff: "find_key key k xs = None \<longleftrightarrow> k \<notin> key ` set xs"
  by (induction xs) auto

lemma find_key_append:
  "find_key key k (xs @ ys) =
     (case find_key key k xs of None \<Rightarrow> find_key key k ys | Some r \<Rightarrow> Some r)"
  by (induction xs) auto

lemma find_key_upd [table_simps]:
  assumes "\<And>r. key (f r) = key r"
  shows "find_key key k' (upd_list (\<lambda>r. key r = k) f xs) =
    (if k' = k then map_option f (find_key key k xs) else find_key key k' xs)"
  using assms by (induction xs) auto

lemma find_key_upd_other:
  assumes "\<And>r. P r \<Longrightarrow> key (f r) = key r"
  shows "find_key key k (upd_list P f xs) =
    map_option (\<lambda>r. if P r then f r else r) (find_key key k xs)"
  using assms by (induction xs) auto

lemma upd_list_keys:
  assumes "\<And>r. P r \<Longrightarrow> key (f r) = key r"
  shows "map key (upd_list P f xs) = map key xs"
  using assms by (induction xs) auto

lemma set_upd_list: "set (upd_list P f xs) = (\<lambda>r. if P r then f r else r) ` set xs"
  by (simp add: upd_list_def)

lemma upd_list_none: "(\<And>r. r \<in> set xs \<Longrightarrow> \<not> P r) \<Longrightarrow> upd_list P f xs = xs"
  by (induction xs) auto

lemma find_key_distinct:
  "distinct (map key xs) \<Longrightarrow> r \<in> set xs \<Longrightarrow> find_key key (key r) xs = Some r"
  by (induction xs) force+

lemma distinct_key_eq:
  "distinct (map key xs) \<Longrightarrow> r \<in> set xs \<Longrightarrow> s \<in> set xs \<Longrightarrow> key r = key s \<Longrightarrow> r = s"
  by (metis find_key_distinct option.inject)

lemma distinct_key_tail:
  "distinct (map key (x # xs)) \<Longrightarrow> r \<in> set xs \<Longrightarrow> key r \<noteq> key x"
  by (simp add: image_iff) metis

section \<open>Tables\<close>

text \<open>Rows in insertion order and the next value of the auto-increment column.\<close>

record 'r tbl =
  rows :: "'r list"
  next_id :: int

definition empty_tbl :: "'r tbl" where
  "empty_tbl = \<lparr>rows = [], next_id = 1\<rparr>"

definition sel_where :: "('r \<Rightarrow> bool) \<Rightarrow> 'r tbl \<Rightarrow> 'r list" where
  "sel_where P t = filter P (rows t)"

definition first_where :: "('r \<Rightarrow> bool) \<Rightarrow> 'r tbl \<Rightarrow> 'r option" where
  "first_where P t = find P (rows t)"

definition by_key :: "('r \<Rightarrow> 'k) \<Rightarrow> 'k \<Rightarrow> 'r tbl \<Rightarrow> 'r option" where
  "by_key key k t = find_key key k (rows t)"

definition upd_where :: "('r \<Rightarrow> bool) \<Rightarrow> ('r \<Rightarrow> 'r) \<Rightarrow> 'r tbl \<Rightarrow> 'r tbl" where
  "upd_where P f t = t\<lparr>rows := upd_list P f (rows t)\<rparr>"

definition rowcount :: "('r \<Rightarrow> bool) \<Rightarrow> 'r tbl \<Rightarrow> nat" where
  "rowcount P t = length (filter P (rows t))"

definition insert_row :: "(int \<Rightarrow> 'r) \<Rightarrow> 'r tbl \<Rightarrow> 'r tbl" where
  "insert_row mk t = t\<lparr>rows := rows t @ [mk (next_id t)], next_id := next_id t + 1\<rparr>"

definition del_where :: "('r \<Rightarrow> bool) \<Rightarrow> 'r tbl \<Rightarrow> 'r tbl" where
  "del_where P t = t\<lparr>rows := filter (\<lambda>r. \<not> P r) (rows t)\<rparr>"

lemma rows_upd_where [simp]: "rows (upd_where P f t) = upd_list P f (rows t)"
  by (simp add: upd_where_def)

lemma next_id_upd_where [simp]: "next_id (upd_where P f t) = next_id t"
  by (simp add: upd_where_def)

lemma rows_insert_row [simp]: "rows (insert_row mk t) = rows t @ [mk (next_id t)]"
  by (simp add: insert_row_def)

lemma rows_del_where [simp]: "rows (del_where P t) = filter (\<lambda>r. \<not> P r) (rows t)"
  by (simp add: del_where_def)

lemma by_key_upd [table_simps]:
  assumes "\<And>r. key (f r) = key r"
  shows "by_key key k' (upd_where (\<lambda>r. key r = k) f t) =
    (if k' = k then map_option f (by_key key k t) else by_key key k' t)"
  by (simp add: by_key_def find_key_upd [of key f] assms)

lemma by_key_SomeD: "by_key key k t = Some r \<Longrightarrow> r \<in> set (rows t) \<and> key r = k"
  by (auto simp: by_key_def dest: find_key_SomeD)

lemma by_key_insert:
  "by_key key k (insert_row mk t) =
    (case by_key key k t of
       None \<Rightarrow> (if key (mk (next_id t)) = k then Some (mk (next_id t)) else None)
     | Some r \<Rightarrow> Some r)"
  by (simp add: by_key_def find_key_append split: option.splits)

lemma rowcount_key_pos:
  "0 < rowcount (\<lambda>r. key r = k) t \<longleftrightarrow> by_key key k t \<noteq> None"
  by (auto simp: rowcount_def by_key_def find_key_None_iff filter_empty_conv image_iff)

section \<open>Python datetimes\<close>

text \<open>
  A Python \<open>datetime\<close> is naive or aware; here both carry an instant in microseconds since
  the epoch (UTC).  Comparing a naive with an aware one raises \<open>TypeError\<close>.
\<close>

datatype pydt = is_Naive: Naive int | Aware int

datatype py_error = TypeError | ValueError | KeyError | NameError | IndexError | OtherError

fun instant :: "pydt \<Rightarrow> int" where
  "instant (Naive t) = t"
| "instant (Aware t) = t"

fun dt_gt :: "pydt \<Rightarrow> pydt \<Rightarrow> py_error + bool" where
  "dt_gt (Naive a) (Naive b) = Inr (a > b)"
| "dt_gt (Aware a) (Aware b) = Inr (a > b)"
| "dt_gt _ _ = Inl TypeError"

text \<open>\<open>x.replace(tzinfo=timezone.utc)\<close> and \<open>x.replace(tzinfo=None)\<close> on UTC instants.\<close>

definition as_utc :: "pydt \<Rightarrow> pydt" where
  "as_utc d = Aware (instant d)"

definition strip_tz :: "pydt \<Rightarrow> pydt" where
  "strip_tz d = Naive (instant d)"

definition day_us :: int where
  "day_us = 86400 * 1000000"

fun add_us :: "pydt \<Rightarrow> int \<Rightarrow> pydt" where
  "add_us (Naive t) d = Naive (t + d)"
| "add_us (Aware t) d = Aware (t + d)"

lemma instant_as_utc [simp]: "instant (as_utc d) = instant d"
  by (simp add: as_utc_def)

lemma instant_strip_tz [simp]: "instant (strip_tz d) = instant d"
  by (simp add: strip_tz_def)

lemma instant_add_us [simp]: "instant (add_us d n) = instant d + n"
  by (cases d) simp_all

lemma dt_gt_TypeError_iff:
  "dt_gt a b = Inl e \<longleftrightarrow> e = TypeError \<and> (is_Naive a \<noteq> is_Naive b)"
  by (cases a; cases b) auto

lemma dt_gt_Inr: "dt_gt a b = Inr r \<Longrightarrow> r = (instant a > instant b)"
  by (cases a; cases b) auto

section \<open>Truthiness\<close>

text \<open>Python's \<open>if s\<close> on an optional string: neither \<open>None\<close> nor empty.\<close>

definition truthy :: "string option \<Rightarrow> bool" where
  "truthy s = (s \<noteq> None \<and> s \<noteq> Some [])"

lemma truthy_simps [simp]: "\<not> truthy None" "truthy (Some s) \<longleftrightarrow> s \<noteq> []"
  by (simp_all add: truthy_def)

text \<open>A list summed by a weight, after appending or updating one element.\<close>

lemma sum_list_filter_append [simp]:
  "sum_list (map f (filter P (xs @ [x]))) =
     sum_list (map f (filter P xs)) + (if P x then f x else (0::int))"
  by simp

lemma sum_upd_key:
  fixes w :: "'r \<Rightarrow> int"
  assumes "distinct (map key xs)" and "find_key key k xs = Some r"
    and "\<And>s. key (f s) = key s"
  shows "sum_list (map w (upd_list (\<lambda>s. key s = k) f xs)) =
    sum_list (map w xs) - w r + w (f r)"
  using assms(1,2)
proof (induction xs)
  case Nil
  then show ?case by simp
next
  case (Cons x xs)
  show ?case
  proof (cases "key x = k")
    case True
    with Cons.prems have "upd_list (\<lambda>s. key s = k) f xs = xs"
      by (intro upd_list_none) (metis distinct_key_tail)
    with True Cons.prems show ?thesis by simp
  next
    case False
    with Cons show ?thesis by simp
  qed
qed

end
