(* ===== verification/Database.thy ===== *)
theory Database
  imports Prelude
begin

text \<open>
  The tables of \<open>database/models/models.py\<close>: one record per model class, one field per
  column, in the order the class declares them, each field prefixed with a short name of
  its table.  A nullable column is an \<open>option\<close>; a \<open>DateTime\<close> column is a \<open>pydt\<close>; the
  coordinates are rationals.  The strings the code only compares with literals (order,
  report and forward status) are datatypes with one constructor per literal; the Persian
  texts of \<open>coin_transactions.description\<close> are a datatype with one constructor per format
  string of the source.  The defaults of the columns are the
  \<open>new_...\<close> definitions.  The \<open>onupdate\<close> stamps of \<open>users.updated_at\<close> and
  \<open>user_gifts.updated_at\<close>, which no code reads, are not tracked: they keep the value of the
  insert.
\<close>

datatype status =
    Pending | PendingReceipt | Approved | Completed | Rejected | Failed | Expired

datatype tx_text =
    TxWelcome | TxRegistered | TxInviteReward int | TxInvitedBonus
  | TxTransferTo string | TxTransferFrom string
  | TxGiftBuy int string | TxGiftSell int string | TxGiftGateway int string int
  | TxCommission int | TxReportReward int | TxBanner int | TxProfileDone
  | TxOnlinePackage int int | TxCardPackage int | TxLootbox | TxMatchCost
  | TxLikes int | TxRequest bool | TxAnonReward | TxDirectReserve | TxDirectRefund | TxSearch
  | TxReengaged | TxEvent tx_text rat | TxOther string

datatype note_text =
    NoteApproved | NoteFalseReport | NoteBannerApproved int | NoteBannerRejected int string

datatype warn_text = WarnReportApproved string | WarnFalseReport | WarnOther string

section \<open>Users\<close>

record deleted_account =
  da_id :: int
  da_tg_id :: int
  da_deleted_at :: pydt

record user =
  u_id :: int
  u_tg_id :: int
  u_public_id :: "string option"
  u_username :: "string option"
  u_first_name :: string
  u_age :: "int option"
  u_gender :: "string option"
  u_province :: "string option"
  u_city :: "string option"
  u_tags :: "string option"
  u_profile_photo_file_id :: "string option"
  u_profile_voice_file_id :: "string option"
  u_coin_balance :: int
  u_total_earned_coins :: int
  u_total_spent_coins :: int
  u_xp_points :: int
  u_level :: int
  u_lootbox_count :: int
  u_is_vip :: bool
  u_vip_quota :: int
  u_vip_expires_at :: "pydt option"
  u_is_banned :: bool
  u_report_count :: int
  u_trust_score :: int
  u_warning_count :: int
  u_invisible_mode :: bool
  u_silent_until :: "pydt option"
  u_comments_disabled :: bool
  u_bio :: "string option"
  u_interests :: "string option"
  u_likes_count :: int
  u_is_online :: bool
  u_last_active :: pydt
  u_re_engaged_at :: "pydt option"
  u_re_engage_blocked :: bool
  u_shard_index :: "int option"
  u_referrer_id :: "int option"
  u_referral_code :: "string option"
  u_referral_earnings :: int
  u_completed_registration :: bool
  u_created_at :: pydt
  u_updated_at :: pydt
  u_pref_min_age :: "int option"
  u_pref_max_age :: "int option"
  u_pref_province :: "string option"
  u_marital_status :: "string option"
  u_location_lat :: "rat option"
  u_location_lng :: "rat option"
  u_location_point :: "(rat \<times> rat) option"
  u_profile_completion_pct :: int
  u_profile_completion_rewarded :: bool
  u_last_profile_reminder_at :: "pydt option"
  u_rules_accepted_at :: "pydt option"

definition new_user :: "int \<Rightarrow> int \<Rightarrow> string \<Rightarrow> string \<Rightarrow> int \<Rightarrow> user" where
  "new_user now tg public_id first_name uid = \<lparr>
     u_id = uid, u_tg_id = tg, u_public_id = Some public_id, u_username = None,
     u_first_name = first_name, u_age = None, u_gender = None, u_province = None,
     u_city = None, u_tags = None, u_profile_photo_file_id = None,
     u_profile_voice_file_id = None,
     u_coin_balance = 3, u_total_earned_coins = 3, u_total_spent_coins = 0,
     u_xp_points = 0, u_level = 1, u_lootbox_count = 0,
     u_is_vip = False, u_vip_quota = 0, u_vip_expires_at = None, u_is_banned = False,
     u_report_count = 0, u_trust_score = 100, u_warning_count = 0,
     u_invisible_mode = False, u_silent_until = None, u_comments_disabled = False,
     u_bio = None, u_interests = None, u_likes_count = 0, u_is_online = False,
     u_last_active = Aware now, u_re_engaged_at = None, u_re_engage_blocked = False,
     u_shard_index = None, u_referrer_id = None, u_referral_code = None,
     u_referral_earnings = 0, u_completed_registration = False,
     u_created_at = Aware now, u_updated_at = Aware now,
     u_pref_min_age = Some 18, u_pref_max_age = Some 99, u_pref_province = None,
     u_marital_status = None, u_location_lat = None, u_location_lng = None,
     u_location_point = None, u_profile_completion_pct = 0,
     u_profile_completion_rewarded = False, u_last_profile_reminder_at = None,
     u_rules_accepted_at = None\<rparr>"

record coin_transaction =
  ct_id :: int
  ct_user_id :: int
  ct_amount :: int
  ct_description :: tx_text
  ct_reference_id :: "int option"
  ct_tx_type :: string
  ct_created_at :: pydt

definition new_coin_tx ::
  "int \<Rightarrow> int \<Rightarrow> int \<Rightarrow> tx_text \<Rightarrow> int option \<Rightarrow> string \<Rightarrow> int \<Rightarrow> coin_transaction" where
  "new_coin_tx now user_id amount descr ref tx_type txid = \<lparr>ct_id = txid,
     ct_user_id = user_id, ct_amount = amount, ct_description = descr,
     ct_reference_id = ref, ct_tx_type = tx_type, ct_created_at = Aware now\<rparr>"

section \<open>Social tables\<close>

record friend_list =
  fl_id :: int
  fl_user_id :: int
  fl_friend_id :: int
  fl_created_at :: pydt

record block_list =
  bl_id :: int
  bl_blocker_id :: int
  bl_blocked_id :: int
  bl_created_at :: pydt

record question =
  q_id :: int
  q_question_text :: string
  q_option_a :: string
  q_option_b :: string
  q_option_c :: "string option"
  q_option_d :: "string option"
  q_category :: string
  q_short_label :: "string option"

record match_history =
  mh_id :: int
  mh_user_one_id :: int
  mh_user_two_id :: int
  mh_is_active :: bool
  mh_questionnaire_completed :: bool
  mh_user_one_approved :: bool
  mh_user_two_approved :: bool
  mh_chat_approved :: bool
  mh_match_type :: "string option"
  mh_created_at :: pydt
  mh_ended_at :: "pydt option"

definition new_match :: "int \<Rightarrow> int \<Rightarrow> int \<Rightarrow> int \<Rightarrow> match_history" where
  "new_match now one two mid = \<lparr>mh_id = mid, mh_user_one_id = one, mh_user_two_id = two,
     mh_is_active = True, mh_questionnaire_completed = False, mh_user_one_approved = False,
     mh_user_two_approved = False, mh_chat_approved = False, mh_match_type = None,
     mh_created_at = Aware now, mh_ended_at = None\<rparr>"

record user_answer =
  ua_id :: int
  ua_user_id :: int
  ua_question_id :: int
  ua_match_history_id :: int
  ua_selected_option :: string
  ua_answered_at :: pydt

record user_like =
  ul_id :: int
  ul_liker_id :: int
  ul_liked_id :: int
  ul_is_pass :: bool
  ul_created_at :: pydt

record user_report =
  ur_id :: int
  ur_reporter_id :: int
  ur_reported_id :: int
  ur_reason :: string
  ur_match_history_id :: "int option"
  ur_status :: status
  ur_admin_note :: "note_text option"
  ur_resolved_at :: "pydt option"
  ur_created_at :: pydt

section \<open>Packages and orders\<close>

record coin_package =
  cp_id :: int
  cp_coin_amount :: int
  cp_price_toman :: int
  cp_is_active :: bool
  cp_created_at :: pydt

text \<open>
  \<open>order_payload\<close> is JSON text; what the code reads of it are five optional keys.
  \<open>BadJson\<close> is a text \<open>json.loads\<close> rejects.
\<close>

record payload =
  pl_price_toman_snapshot :: "int option"
  pl_price_toman :: "int option"
  pl_plan_code :: "string option"
  pl_gift_code :: "string option"
  pl_quantity :: "int option"

datatype payload_text = BadJson | Json payload

definition empty_payload :: payload where
  "empty_payload = \<lparr>pl_price_toman_snapshot = None, pl_price_toman = None,
     pl_plan_code = None, pl_gift_code = None, pl_quantity = None\<rparr>"

record purchase_order =
  po_id :: int
  po_user_tg_id :: int
  po_package_id :: "int option"
  po_payment_method :: string
  po_order_type :: string
  po_order_payload :: "payload_text option"
  po_status :: status
  po_receipt_photo_file_id :: "string option"
  po_gateway_authority :: "string option"
  po_created_at :: pydt
  po_resolved_at :: "pydt option"

record profile_comment =
  pc_id :: int
  pc_author_tg_id :: int
  pc_target_tg_id :: int
  pc_text :: string
  pc_created_at :: pydt
  pc_updated_at :: pydt

section \<open>Gifts, subscriptions, warnings, commissions\<close>

record gift_type =
  gt_id :: int
  gt_code :: string
  gt_display_name :: string
  gt_emoji :: string
  gt_price_coins :: int
  gt_description :: "string option"
  gt_is_active :: bool
  gt_sort_order :: int

record user_gift =
  ug_id :: int
  ug_owner_tg_id :: int
  ug_gift_type_id :: int
  ug_quantity :: int
  ug_last_source :: string
  ug_updated_at :: pydt

record gift_transaction =
  gx_id :: int
  gx_sender_tg_id :: int
  gx_receiver_tg_id :: int
  gx_gift_type_id :: int
  gx_quantity :: int
  gx_tx_kind :: string
  gx_coins_spent :: int
  gx_created_at :: pydt

record vip_subscription =
  vs_id :: int
  vs_user_tg_id :: int
  vs_plan_code :: string
  vs_started_at :: pydt
  vs_expires_at :: pydt
  vs_payment_order_id :: "int option"
  vs_is_active :: bool
  vs_created_at :: pydt

record user_warning =
  uw_id :: int
  uw_user_tg_id :: int
  uw_reason :: warn_text
  uw_issued_by :: string
  uw_report_id :: "int option"
  uw_issued_by_admin_tg_id :: "int option"
  uw_issued_at :: pydt

record referral_commission =
  rc_id :: int
  rc_referrer_tg_id :: int
  rc_referred_tg_id :: int
  rc_purchase_order_id :: int
  rc_commission_pct :: int
  rc_commission_coins :: int
  rc_created_at :: pydt

section \<open>Messages, banners, tags, channels\<close>

record direct_message =
  dm_id :: int
  dm_sender_tg_id :: int
  dm_receiver_tg_id :: int
  dm_body :: string
  dm_sent_at :: pydt
  dm_is_read :: bool
  dm_read_at :: "pydt option"

record banner_campaign =
  bc_id :: int
  bc_banner_photo_file_id :: string
  bc_caption_text :: string
  bc_reward_coins :: int
  bc_is_active :: bool
  bc_created_at :: pydt

record banner_forward =
  bf_id :: int
  bf_user_tg_id :: int
  bf_campaign_id :: int
  bf_forward_msg_id :: "int option"
  bf_forward_chat_id :: "int option"
  bf_status :: status
  bf_awarded_coins :: int
  bf_admin_note :: "note_text option"
  bf_forwarded_at :: pydt
  bf_resolved_at :: "pydt option"

record tag_catalog =
  tc_id :: int
  tc_code :: string
  tc_display_name :: string
  tc_emoji :: "string option"
  tc_category :: string
  tc_is_active :: bool
  tc_sort_order :: int

record user_tag =
  ut_id :: int
  ut_user_tg_id :: int
  ut_tag_code :: string
  ut_assigned_at :: pydt

record completion_log =
  cl_id :: int
  cl_user_tg_id :: int
  cl_step_code :: string
  cl_completed_at :: pydt

record admin_channel =
  ac_id :: int
  ac_channel_id :: int
  ac_channel_username :: "string option"
  ac_invite_link :: "string option"
  ac_is_active :: bool
  ac_sort_order :: int
  ac_created_at :: pydt

record anonymous_message =
  am_id :: int
  am_sender_tg_id :: int
  am_target_tg_id :: int
  am_text :: "string option"
  am_is_media :: bool
  am_media_type :: "string option"
  am_file_id :: "string option"
  am_is_read :: bool
  am_created_at :: pydt

section \<open>The database\<close>

record db =
  deleted_accounts :: "deleted_account tbl"
  users :: "user tbl"
  coin_txs :: "coin_transaction tbl"
  friends :: "friend_list tbl"
  blocks :: "block_list tbl"
  questions :: "question tbl"
  matches :: "match_history tbl"
  answers :: "user_answer tbl"
  likes :: "user_like tbl"
  reports :: "user_report tbl"
  packages :: "coin_package tbl"
  orders :: "purchase_order tbl"
  comments :: "profile_comment tbl"
  gift_types :: "gift_type tbl"
  user_gifts :: "user_gift tbl"
  gift_txs :: "gift_transaction tbl"
  vip_subs :: "vip_subscription tbl"
  warnings :: "user_warning tbl"
  commissions :: "referral_commission tbl"
  direct_messages :: "direct_message tbl"
  campaigns :: "banner_campaign tbl"
  forwards :: "banner_forward tbl"
  tag_catalogs :: "tag_catalog tbl"
  user_tags :: "user_tag tbl"
  completion_logs :: "completion_log tbl"
  admin_channels :: "admin_channel tbl"
  anonymous_messages :: "anonymous_message tbl"

definition empty_db :: db where
  "empty_db = \<lparr>deleted_accounts = empty_tbl, users = empty_tbl, coin_txs = empty_tbl,
     friends = empty_tbl, blocks = empty_tbl, questions = empty_tbl, matches = empty_tbl,
     answers = empty_tbl, likes = empty_tbl, reports = empty_tbl, packages = empty_tbl,
     orders = empty_tbl, comments = empty_tbl, gift_types = empty_tbl,
     user_gifts = empty_tbl, gift_txs = empty_tbl, vip_subs = empty_tbl,
     warnings = empty_tbl, commissions = empty_tbl, direct_messages = empty_tbl,
     campaigns = empty_tbl, forwards = empty_tbl, tag_catalogs = empty_tbl,
     user_tags = empty_tbl, completion_logs = empty_tbl, admin_channels = empty_tbl,
     anonymous_messages = empty_tbl\<rparr>"

section \<open>Users by Telegram id, and coin transactions\<close>

text \<open>
  \<open>users.tg_id\<close> carries the unique constraint \<open>uq_users_tg_id\<close>, so a select on it returns
  at most one row and an update on it changes at most one.
\<close>

definition get_user :: "db \<Rightarrow> int \<Rightarrow> user option" where
  "get_user d tg = by_key u_tg_id tg (users d)"

definition upd_user :: "int \<Rightarrow> (user \<Rightarrow> user) \<Rightarrow> db \<Rightarrow> db" where
  "upd_user tg f d = d\<lparr>users := upd_where (\<lambda>u. u_tg_id u = tg) f (users d)\<rparr>"

definition add_coin_tx ::
  "int \<Rightarrow> int \<Rightarrow> int \<Rightarrow> tx_text \<Rightarrow> int option \<Rightarrow> string \<Rightarrow> db \<Rightarrow> db" where
  "add_coin_tx now user_id amount descr ref tx_type d =
     d\<lparr>coin_txs := insert_row (new_coin_tx now user_id amount descr ref tx_type) (coin_txs d)\<rparr>"

definition users_unique :: "db \<Rightarrow> bool" where
  "users_unique d = distinct (map u_tg_id (rows (users d)))"

lemma get_upd_user [table_simps]:
  assumes "\<And>u. u_tg_id (f u) = u_tg_id u"
  shows "get_user (upd_user tg f d) tg' =
    (if tg' = tg then map_option f (get_user d tg) else get_user d tg')"
  by (simp add: get_user_def upd_user_def by_key_upd [of u_tg_id f] assms)

lemma get_user_add_coin_tx [simp]: "get_user (add_coin_tx n k a t r x d) tg = get_user d tg"
  by (simp add: get_user_def add_coin_tx_def)

lemma get_user_tg: "get_user d tg = Some u \<Longrightarrow> u_tg_id u = tg"
  by (auto simp: get_user_def dest: by_key_SomeD)

lemma get_user_in: "get_user d tg = Some u \<Longrightarrow> u \<in> set (rows (users d))"
  by (auto simp: get_user_def dest: by_key_SomeD)

lemma get_user_unique:
  "users_unique d \<Longrightarrow> u \<in> set (rows (users d)) \<Longrightarrow> get_user d (u_tg_id u) = Some u"
  by (simp add: get_user_def by_key_def users_unique_def find_key_distinct)

lemma users_unique_upd_user:
  assumes "\<And>u. u_tg_id (f u) = u_tg_id u"
  shows "users_unique (upd_user tg f d) = users_unique d"
  using assms by (simp add: users_unique_def upd_user_def upd_list_keys)

lemma users_unique_cong: "users d' = users d \<Longrightarrow> users_unique d' = users_unique d"
  by (simp add: users_unique_def)

lemma coin_txs_upd_user [simp]: "coin_txs (upd_user tg f d) = coin_txs d"
  by (simp add: upd_user_def)

lemma users_add_coin_tx [simp]: "users (add_coin_tx n k a t r x d) = users d"
  by (simp add: add_coin_tx_def)

end
