(* ===== verification/Ledger.thy ===== *)
theory Ledger
  imports Database
begin

text \<open>
  The coin ledger as an interface.  The code keeps a running balance per user and a log of
  signed amounts (\<open>coin_transactions\<close>); what ties the two together is that every movement
  changes the balance and appends the same amount to the log.  The locale states that
  contract of one movement; its lemmas hold for any run of movements.
\<close>

locale ledger =
  fixes accounts :: "'s \<Rightarrow> 'k set"
    and balance :: "'s \<Rightarrow> 'k \<Rightarrow> int"
    and logged :: "'s \<Rightarrow> 'k \<Rightarrow> int"
    and move :: "'k \<Rightarrow> int \<Rightarrow> 's \<Rightarrow> 's"
    and valid :: "'s \<Rightarrow> bool"
  assumes accounts_move: "valid s \<Longrightarrow> accounts (move k n s) = accounts s"
    and balance_move: "valid s \<Longrightarrow> k \<in> accounts s \<Longrightarrow>
      balance (move k n s) k' = (if k' = k then balance s k + n else balance s k')"
    and logged_move: "valid s \<Longrightarrow>
      logged (move k n s) k' = (if k' = k then logged s k + n else logged s k')"
    and valid_move: "valid s \<Longrightarrow> valid (move k n s)"
    and accounts_finite: "finite (accounts s)"
begin

definition consistent :: "'s \<Rightarrow> bool" where
  "consistent s \<longleftrightarrow> (\<forall>k\<in>accounts s. balance s k = logged s k)"

definition total :: "'s \<Rightarrow> int" where
  "total s = (\<Sum>k\<in>accounts s. balance s k)"

primrec moves :: "('k \<times> int) list \<Rightarrow> 's \<Rightarrow> 's" where
  "moves [] s = s"
| "moves (m # ms) s = moves ms (move (fst m) (snd m) s)"

lemma consistent_move:
  "valid s \<Longrightarrow> k \<in> accounts s \<Longrightarrow> consistent s \<Longrightarrow> consistent (move k n s)"
  by (simp add: consistent_def accounts_move balance_move logged_move)

lemma total_move:
  assumes "valid s" and "k \<in> accounts s"
  shows "total (move k n s) = total s + n"
proof -
  have "total (move k n s) =
      (\<Sum>k'\<in>accounts s. balance s k' + (if k' = k then n else 0))"
    unfolding total_def using assms
    by (auto simp: accounts_move balance_move intro!: sum.cong)
  also have "\<dots> = total s + n"
    using assms(2) by (simp add: total_def sum.distrib accounts_finite sum.delta)
  finally show ?thesis .
qed

lemma valid_moves: "valid s \<Longrightarrow> valid (moves ms s)"
  by (induction ms arbitrary: s) (simp_all add: valid_move)

lemma accounts_moves: "valid s \<Longrightarrow> accounts (moves ms s) = accounts s"
  by (induction ms arbitrary: s) (simp_all add: valid_move accounts_move)

lemma consistent_moves:
  "valid s \<Longrightarrow> fst ` set ms \<subseteq> accounts s \<Longrightarrow> consistent s \<Longrightarrow> consistent (moves ms s)"
  by (induction ms arbitrary: s) (simp_all add: valid_move accounts_move consistent_move)

lemma total_moves:
  "valid s \<Longrightarrow> fst ` set ms \<subseteq> accounts s \<Longrightarrow> total (moves ms s) = total s + sum_list (map snd ms)"
  by (induction ms arbitrary: s) (simp_all add: valid_move accounts_move total_move)

lemma transfer_conserves:
  assumes "valid s" and "a \<in> accounts s" and "b \<in> accounts s"
  shows "total (move b n (move a (- n) s)) = total s"
  using assms by (simp add: total_move accounts_move valid_move)

end

section \<open>The ledger of the database\<close>

definition account_ids :: "db \<Rightarrow> int set" where
  "account_ids d = u_tg_id ` set (rows (users d))"

definition coin_balance :: "db \<Rightarrow> int \<Rightarrow> int" where
  "coin_balance d tg = (case get_user d tg of None \<Rightarrow> 0 | Some u \<Rightarrow> u_coin_balance u)"

definition logged_coins :: "db \<Rightarrow> int \<Rightarrow> int" where
  "logged_coins d tg =
     sum_list (map ct_amount (filter (\<lambda>t. ct_user_id t = tg) (rows (coin_txs d))))"

definition total_coins :: "db \<Rightarrow> int" where
  "total_coins d = (\<Sum>tg\<in>account_ids d. coin_balance d tg)"

text \<open>Every user's balance is the sum of the logged amounts.\<close>

definition ledger_ok :: "db \<Rightarrow> bool" where
  "ledger_ok d \<longleftrightarrow> (\<forall>tg\<in>account_ids d. coin_balance d tg = logged_coins d tg)"

text \<open>A balance is what was earned less what was spent.\<close>

definition totals_ok :: "db \<Rightarrow> bool" where
  "totals_ok d \<longleftrightarrow> (\<forall>u\<in>set (rows (users d)).
     u_coin_balance u = u_total_earned_coins u - u_total_spent_coins u)"

definition coin_move ::
  "(int \<Rightarrow> user \<Rightarrow> user) \<Rightarrow> int \<Rightarrow> tx_text \<Rightarrow> int option \<Rightarrow> string \<Rightarrow> int \<Rightarrow> int \<Rightarrow> db \<Rightarrow> db" where
  "coin_move f now text ref ty tg n d = add_coin_tx now tg n text ref ty (upd_user tg (f n) d)"

definition moves_balance :: "(int \<Rightarrow> user \<Rightarrow> user) \<Rightarrow> bool" where
  "moves_balance f \<longleftrightarrow>
     (\<forall>n u. u_tg_id (f n u) = u_tg_id u \<and> u_coin_balance (f n u) = u_coin_balance u + n)"

lemma account_ids_iff: "tg \<in> account_ids d \<longleftrightarrow> get_user d tg \<noteq> None"
  by (auto simp: account_ids_def get_user_def by_key_def find_key_None_iff)

lemma account_ids_upd_user [simp]:
  assumes "\<And>u. u_tg_id (f u) = u_tg_id u"
  shows "account_ids (upd_user tg f d) = account_ids d"
proof -
  have "map u_tg_id (upd_list (\<lambda>u. u_tg_id u = tg) f (rows (users d)))
      = map u_tg_id (rows (users d))"
    using assms by (intro upd_list_keys) simp
  then have "set (map u_tg_id (upd_list (\<lambda>u. u_tg_id u = tg) f (rows (users d))))
      = set (map u_tg_id (rows (users d)))" by simp
  then show ?thesis by (simp add: account_ids_def upd_user_def)
qed

lemma account_ids_cong: "users d' = users d \<Longrightarrow> account_ids d' = account_ids d"
  by (simp add: account_ids_def)

lemma coin_balance_cong: "users d' = users d \<Longrightarrow> coin_balance d' tg = coin_balance d tg"
  by (simp add: coin_balance_def get_user_def)

lemma logged_coins_cong: "coin_txs d' = coin_txs d \<Longrightarrow> logged_coins d' tg = logged_coins d tg"
  by (simp add: logged_coins_def)

lemma ledger_ok_cong:
  "users d' = users d \<Longrightarrow> coin_txs d' = coin_txs d \<Longrightarrow> ledger_ok d' = ledger_ok d"
  by (simp add: ledger_ok_def account_ids_def coin_balance_def get_user_def logged_coins_def)

lemma totals_ok_cong: "users d' = users d \<Longrightarrow> totals_ok d' = totals_ok d"
  by (simp add: totals_ok_def)

lemma coin_balance_Some: "get_user d tg = Some u \<Longrightarrow> coin_balance d tg = u_coin_balance u"
  by (simp add: coin_balance_def)

lemma logged_add_coin_tx [simp]:
  "logged_coins (add_coin_tx now k n text ref ty d) tg =
     (if k = tg then logged_coins d tg + n else logged_coins d tg)"
  by (simp add: logged_coins_def add_coin_tx_def new_coin_tx_def)

lemma balance_upd_user:
  assumes "\<And>u. u_tg_id (f u) = u_tg_id u" and "\<And>u. u_coin_balance (f u) = u_coin_balance u + n"
    and "k \<in> account_ids d"
  shows "coin_balance (upd_user k f d) tg =
    (if tg = k then coin_balance d tg + n else coin_balance d tg)"
  using assms by (auto simp: coin_balance_def get_upd_user account_ids_iff)

lemma coin_move_ledger:
  assumes "moves_balance f"
  shows "ledger account_ids coin_balance logged_coins (coin_move f now text ref ty) users_unique"
proof
  show "account_ids (coin_move f now text ref ty k n s) = account_ids s" for s k n
    using assms account_ids_cong [of "add_coin_tx now k n text ref ty (upd_user k (f n) s)"
        "upd_user k (f n) s"]
    by (simp add: coin_move_def moves_balance_def)
  show "k \<in> account_ids s \<Longrightarrow> coin_balance (coin_move f now text ref ty k n s) k' =
      (if k' = k then coin_balance s k + n else coin_balance s k')" for s k n k'
    using assms balance_upd_user [of "f n" n k s k']
    by (simp add: coin_move_def moves_balance_def coin_balance_def)
  show "logged_coins (coin_move f now text ref ty k n s) k' =
      (if k' = k then logged_coins s k + n else logged_coins s k')" for s k n k'
    using logged_coins_cong [of "upd_user k (f n) s" s] by (simp add: coin_move_def)
  show "users_unique s \<Longrightarrow> users_unique (coin_move f now text ref ty k n s)" for s k n
    using assms users_unique_upd_user [of "f n" k s]
    by (simp add: coin_move_def moves_balance_def users_unique_def)
  show "finite (account_ids s)" for s
    by (simp add: account_ids_def)
qed

lemma totals_ok_upd_user:
  assumes "totals_ok d"
    and "\<And>u. u_coin_balance u = u_total_earned_coins u - u_total_spent_coins u \<Longrightarrow>
      u_coin_balance (f u) = u_total_earned_coins (f u) - u_total_spent_coins (f u)"
  shows "totals_ok (upd_user tg f d)"
  using assms by (auto simp: totals_ok_def upd_user_def set_upd_list)

section \<open>A small database for concrete instances\<close>

definition alice :: user where
  "alice = new_user 0 1 ''user_aaaaaa'' ''A'' 1"

definition bob :: user where
  "bob = new_user 0 2 ''user_bbbbbb'' ''B'' 2"

definition demo_db :: db where
  "demo_db = empty_db\<lparr>users := \<lparr>rows = [alice, bob], next_id = 3\<rparr>,
     coin_txs := \<lparr>rows = [new_coin_tx 0 1 3 TxWelcome None ''generic'' 1,
                         new_coin_tx 0 2 3 TxWelcome None ''generic'' 2], next_id = 3\<rparr>\<rparr>"

lemma alice_sel [simp]:
  "u_tg_id alice = 1" "u_coin_balance alice = 3" "u_total_earned_coins alice = 3"
  "u_total_spent_coins alice = 0" "u_is_vip alice = False" "u_vip_quota alice = 0"
  "u_completed_registration alice = False" "u_referrer_id alice = None"
  "u_public_id alice = Some ''user_aaaaaa''" "u_level alice = 1" "u_xp_points alice = 0"
  "u_lootbox_count alice = 0" "u_warning_count alice = 0" "u_is_banned alice = False"
  "u_vip_expires_at alice = None" "u_profile_completion_rewarded alice = False"
  "u_city alice = None" "u_referral_earnings alice = 0" "u_report_count alice = 0"
  by (simp_all add: alice_def new_user_def)

lemma bob_sel [simp]:
  "u_tg_id bob = 2" "u_coin_balance bob = 3" "u_total_earned_coins bob = 3"
  "u_total_spent_coins bob = 0" "u_is_vip bob = False" "u_vip_quota bob = 0"
  "u_completed_registration bob = False" "u_referrer_id bob = None"
  "u_public_id bob = Some ''user_bbbbbb''" "u_warning_count bob = 0" "u_is_banned bob = False"
  "u_report_count bob = 0"
  by (simp_all add: bob_def new_user_def)

lemma demo_users [simp]: "users demo_db = \<lparr>rows = [alice, bob], next_id = 3\<rparr>"
  by (simp add: demo_db_def)

lemma demo_get [simp]:
  "get_user demo_db tg = (if tg = 1 then Some alice else if tg = 2 then Some bob else None)"
  by (simp add: get_user_def by_key_def)

lemma demo_unique [simp]: "users_unique demo_db"
  by (simp add: users_unique_def)

lemma demo_ids [simp]: "account_ids demo_db = {1, 2}"
  by (simp add: account_ids_def)

lemma demo_logged [simp]:
  "logged_coins demo_db tg = (if tg = 1 \<or> tg = 2 then 3 else 0)"
  by (auto simp: logged_coins_def demo_db_def new_coin_tx_def)

lemma demo_ledger [simp]: "ledger_ok demo_db"
  by (simp add: ledger_ok_def coin_balance_def)

lemma demo_totals [simp]: "totals_ok demo_db"
  by (simp add: totals_ok_def)

lemma demo_balance [simp]: "coin_balance demo_db tg = (if tg = 1 \<or> tg = 2 then 3 else 0)"
  by (simp add: coin_balance_def)

lemma demo_blocks [simp]: "blocks demo_db = empty_tbl"
  by (simp add: demo_db_def empty_db_def)

end
