(* ===== verification/Economy.thy ===== *)
theory Economy
  imports Ledger
begin

text \<open>
  The coin economy: \<open>process_coin_transaction\<close>, user creation and registration rewards,
  transfers, quota consumption and XP (\<open>database/queries/crud.py\<close>), and the interactive
  transfer of \<open>bot/handlers/transfer.py\<close>.  A session object (the ORM instance a handler
  holds) is a \<open>user\<close> record beside the database; \<open>flush_user\<close> is the unit of work writing
  it back.  The float product of an event multiplier is rounded by a parameter \<open>fl\<close>.
\<close>

section \<open>Session objects\<close>

definition spend :: "int \<Rightarrow> user \<Rightarrow> user" where
  "spend n u = u\<lparr>u_coin_balance := u_coin_balance u - n,
                 u_total_spent_coins := u_total_spent_coins u + n\<rparr>"

definition earn :: "int \<Rightarrow> user \<Rightarrow> user" where
  "earn n u = u\<lparr>u_coin_balance := u_coin_balance u + n,
                u_total_earned_coins := u_total_earned_coins u + n\<rparr>"

lemma spend_sel [simp]:
  "u_tg_id (spend n u) = u_tg_id u" "u_coin_balance (spend n u) = u_coin_balance u - n"
  "u_total_spent_coins (spend n u) = u_total_spent_coins u + n"
  "u_total_earned_coins (spend n u) = u_total_earned_coins u"
  "u_referrer_id (spend n u) = u_referrer_id u" "u_public_id (spend n u) = u_public_id u"
  by (simp_all add: spend_def)

lemma earn_sel [simp]:
  "u_tg_id (earn n u) = u_tg_id u" "u_coin_balance (earn n u) = u_coin_balance u + n"
  "u_total_spent_coins (earn n u) = u_total_spent_coins u"
  "u_total_earned_coins (earn n u) = u_total_earned_coins u + n"
  "u_referrer_id (earn n u) = u_referrer_id u" "u_public_id (earn n u) = u_public_id u"
  "u_completed_registration (earn n u) = u_completed_registration u"
  by (simp_all add: earn_def)

text \<open>Flushing an object writes its attributes over the row with its key.\<close>

definition flush_user :: "user \<Rightarrow> db \<Rightarrow> db" where
  "flush_user obj d = upd_user (u_tg_id obj) (\<lambda>_. obj) d"

text \<open>The attributes a coin movement made dirty: the balance and one of the totals.\<close>

definition flush_coins :: "int \<Rightarrow> user \<Rightarrow> db \<Rightarrow> db" where
  "flush_coins amount obj d = upd_user (u_tg_id obj)
     (\<lambda>u. if amount < 0
          then u\<lparr>u_coin_balance := u_coin_balance obj,
                 u_total_spent_coins := u_total_spent_coins obj\<rparr>
          else u\<lparr>u_coin_balance := u_coin_balance obj,
                 u_total_earned_coins := u_total_earned_coins obj\<rparr>) d"

section \<open>Coin transactions\<close>

text \<open>Python's \<open>int(x)\<close> on a float: truncation towards zero.\<close>

definition py_trunc :: "rat \<Rightarrow> int" where
  "py_trunc x = (if x < 0 then - \<lfloor>- x\<rfloor> else \<lfloor>x\<rfloor>)"

definition event_amount :: "(rat \<Rightarrow> rat) \<Rightarrow> rat option \<Rightarrow> bool \<Rightarrow> int \<Rightarrow> int" where
  "event_amount fl event ignore_multiplier amount =
     (if ignore_multiplier then amount else
      case event of None \<Rightarrow> amount | Some m \<Rightarrow> py_trunc (fl (of_int amount * m)))"

definition event_text :: "rat option \<Rightarrow> bool \<Rightarrow> tx_text \<Rightarrow> tx_text" where
  "event_text event ignore_multiplier descr =
     (if ignore_multiplier then descr else
      case event of None \<Rightarrow> descr | Some m \<Rightarrow> if m > 1 then TxEvent descr m else descr)"

text \<open>
  \<open>event\<close> is the value of \<open>bot:active_event_multiplier\<close> (\<open>None\<close>: absent, unreadable or not
  a number).  The result is the database, the session object after the in-memory update,
  and the returned flag.
\<close>

definition process_coin_transaction ::
  "int \<Rightarrow> (rat \<Rightarrow> rat) \<Rightarrow> rat option \<Rightarrow> user \<Rightarrow> int \<Rightarrow> tx_text \<Rightarrow> bool \<Rightarrow> int option \<Rightarrow> db
     \<Rightarrow> db \<times> user \<times> bool" where
  "process_coin_transaction now fl event obj amount descr ignore_multiplier ref d =
     (if amount < 0 then
        let deduction = \<bar>amount\<bar>;
            cond = (\<lambda>u. u_tg_id u = u_tg_id obj \<and> u_coin_balance u \<ge> deduction)
        in if rowcount cond (users d) = 0 then (d, obj, False)
           else let d1 = d\<lparr>users := upd_where cond (spend deduction) (users d)\<rparr>
                in (add_coin_tx now (u_tg_id obj) amount descr ref ''generic'' d1,
                    spend deduction obj, True)
      else
        let final_amount = event_amount fl event ignore_multiplier amount;
            text = event_text event ignore_multiplier descr;
            d1 = upd_user (u_tg_id obj) (earn final_amount) d
        in (add_coin_tx now (u_tg_id obj) final_amount text ref ''generic'' d1,
            earn final_amount obj, True))"

lemma rowcount_guard:
  assumes "users_unique d" and "get_user d tg = Some u"
  shows "(rowcount (\<lambda>u. u_tg_id u = tg \<and> u_coin_balance u \<ge> n) (users d) = 0)
    \<longleftrightarrow> u_coin_balance u < n"
proof -
  have in_u: "u \<in> set (rows (users d))" "u_tg_id u = tg"
    using assms(2) by (auto dest: get_user_in get_user_tg)
  have "\<And>v. v \<in> set (rows (users d)) \<Longrightarrow> u_tg_id v = tg \<Longrightarrow> v = u"
    using assms get_user_unique by fastforce
  with in_u show ?thesis by (fastforce simp: rowcount_def filter_empty_conv)
qed

lemma upd_list_guard:
  assumes "distinct (map u_tg_id xs)" and "find_key u_tg_id tg xs = Some u" and "Q u"
  shows "upd_list (\<lambda>u. u_tg_id u = tg \<and> Q u) f xs = upd_list (\<lambda>u. u_tg_id u = tg) f xs"
  using assms
proof (induction xs)
  case Nil
  then show ?case by simp
next
  case (Cons x xs)
  show ?case
  proof (cases "u_tg_id x = tg")
    case True
    with Cons.prems(1) have "\<And>r. r \<in> set xs \<Longrightarrow> u_tg_id r \<noteq> tg"
      by (metis distinct_key_tail)
    then have "upd_list (\<lambda>u. u_tg_id u = tg \<and> Q u) f xs = xs"
      and "upd_list (\<lambda>u. u_tg_id u = tg) f xs = xs"
      by (auto intro!: upd_list_none)
    with True Cons.prems show ?thesis by simp
  next
    case False
    with Cons show ?thesis by simp
  qed
qed

text \<open>Under the unique key, the guarded update is the plain one when the guard holds.\<close>

lemma guarded_upd_user:
  assumes "users_unique d" and "get_user d tg = Some u" and "u_coin_balance u \<ge> n"
  shows "d\<lparr>users := upd_where (\<lambda>u. u_tg_id u = tg \<and> u_coin_balance u \<ge> n) f (users d)\<rparr>
    = upd_user tg f d"
  using assms
  by (simp add: upd_user_def upd_where_def users_unique_def get_user_def by_key_def
      upd_list_guard [where Q = "\<lambda>u. u_coin_balance u \<ge> n"])

lemma process_debit:
  assumes "users_unique d" and "get_user d (u_tg_id obj) = Some u" and "amount < 0"
  shows "process_coin_transaction now fl event obj amount descr ig ref d =
    (if u_coin_balance u < - amount then (d, obj, False)
     else (add_coin_tx now (u_tg_id obj) amount descr ref ''generic''
             (upd_user (u_tg_id obj) (spend (- amount)) d), spend (- amount) obj, True))"
proof -
  have abs: "\<bar>amount\<bar> = - amount" using assms(3) by simp
  show ?thesis
  proof (cases "u_coin_balance u < - amount")
    case True
    then show ?thesis
      using assms(3) rowcount_guard [OF assms(1,2), of "- amount"]
      by (simp add: process_coin_transaction_def Let_def abs)
  next
    case False
    then have "u_coin_balance u \<ge> - amount" by simp
    then show ?thesis
      using False assms(3) rowcount_guard [OF assms(1,2), of "- amount"]
        guarded_upd_user [OF assms(1,2), of "- amount" "spend (- amount)"]
      by (simp add: process_coin_transaction_def Let_def abs)
  qed
qed

lemma process_credit:
  assumes "0 \<le> amount"
  shows "process_coin_transaction now fl event obj amount descr ig ref d =
    (add_coin_tx now (u_tg_id obj) (event_amount fl event ig amount)
       (event_text event ig descr) ref ''generic''
       (upd_user (u_tg_id obj) (earn (event_amount fl event ig amount)) d),
     earn (event_amount fl event ig amount) obj, True)"
  using assms by (simp add: process_coin_transaction_def Let_def)

section \<open>The movements of the economy keep the ledger\<close>

lemma moves_balance_earn: "moves_balance earn"
  by (simp add: moves_balance_def)

lemma moves_balance_spend: "moves_balance (\<lambda>n. spend (- n))"
  by (simp add: moves_balance_def)

interpretation earning: ledger account_ids coin_balance logged_coins
  "coin_move earn now descr ref ty" users_unique for now descr ref ty
  by (rule coin_move_ledger [OF moves_balance_earn])

interpretation spending: ledger account_ids coin_balance logged_coins
  "coin_move (\<lambda>n. spend (- n)) now descr ref ty" users_unique for now descr ref ty
  by (rule coin_move_ledger [OF moves_balance_spend])

lemma consistent_ledger_ok: "earning.consistent d = ledger_ok d"
  by (simp add: earning.consistent_def ledger_ok_def)

lemma total_total_coins: "earning.total d = total_coins d"
  by (simp add: earning.total_def total_coins_def)

lemma ledger_ok_move [ledger_intros]:
  assumes "moves_balance f" and "users_unique d" and "ledger_ok d" and "tg \<in> account_ids d"
  shows "ledger_ok (coin_move f now text ref ty tg n d)"
proof -
  have "ledger account_ids coin_balance logged_coins
      (coin_move f now text ref ty) users_unique"
    using assms(1) by (rule coin_move_ledger)
  from ledger.consistent_move [OF this assms(2,4)] show ?thesis
    using assms(3) by (simp add: consistent_ledger_ok)
qed

section \<open>Process\<close>

lemma process_keeps_ledger:
  assumes "users_unique d" and "ledger_ok d" and "u_tg_id obj \<in> account_ids d"
    and "process_coin_transaction now fl event obj amount descr ig ref d = (d', obj', r)"
  shows "ledger_ok d' \<and> users_unique d' \<and> account_ids d' = account_ids d"
proof (cases "amount < 0")
  case True
  obtain u where u: "get_user d (u_tg_id obj) = Some u"
    using assms(3) by (auto simp: account_ids_iff)
  show ?thesis
  proof (cases "u_coin_balance u < - amount")
    case True
    then show ?thesis
      using assms process_debit [OF assms(1) u \<open>amount < 0\<close>] by simp
  next
    case False
    then have "d' = coin_move (\<lambda>n. spend (- n)) now descr ref ''generic'' (u_tg_id obj) amount d"
      using assms(4) process_debit [OF assms(1) u \<open>amount < 0\<close>] by (simp add: coin_move_def)
    then show ?thesis
      using assms(1-3) ledger_ok_move [OF moves_balance_spend]
        spending.valid_move spending.accounts_move by simp
  qed
next
  case False
  then have "d' = coin_move earn now (event_text event ig descr) ref ''generic'' (u_tg_id obj)
      (event_amount fl event ig amount) d"
    using assms(4) process_credit [of amount] by (simp add: coin_move_def)
  then show ?thesis
    using assms(1-3) ledger_ok_move [OF moves_balance_earn]
      earning.valid_move earning.accounts_move by simp
qed

section \<open>Algebra of row updates and flushes\<close>

lemma upd_user_cong:
  assumes "users_unique d" and "get_user d tg = Some u" and "f u = g u"
  shows "upd_user tg f d = upd_user tg g d"
proof -
  have "\<And>v. v \<in> set (rows (users d)) \<Longrightarrow> u_tg_id v = tg \<Longrightarrow> v = u"
    using assms(1,2) get_user_unique by fastforce
  then have "upd_list (\<lambda>v. u_tg_id v = tg) f (rows (users d))
      = upd_list (\<lambda>v. u_tg_id v = tg) g (rows (users d))"
    using assms(3) by (auto simp: upd_list_def)
  then show ?thesis by (simp add: upd_user_def upd_where_def)
qed

lemma upd_user_upd_user:
  assumes "\<And>u. u_tg_id (g u) = u_tg_id u"
  shows "upd_user tg f (upd_user tg g d) = upd_user tg (\<lambda>u. f (g u)) d"
proof -
  have "upd_list (\<lambda>u. u_tg_id u = tg) f (upd_list (\<lambda>u. u_tg_id u = tg) g xs)
      = upd_list (\<lambda>u. u_tg_id u = tg) (\<lambda>u. f (g u)) xs" for xs
    using assms by (induction xs) auto
  then show ?thesis by (simp add: upd_user_def upd_where_def)
qed

lemma upd_user_commute:
  assumes "a \<noteq> b" and "\<And>u. u_tg_id (f u) = u_tg_id u" and "\<And>u. u_tg_id (g u) = u_tg_id u"
  shows "upd_user a f (upd_user b g d) = upd_user b g (upd_user a f d)"
proof -
  have "upd_list (\<lambda>u. u_tg_id u = a) f (upd_list (\<lambda>u. u_tg_id u = b) g xs)
      = upd_list (\<lambda>u. u_tg_id u = b) g (upd_list (\<lambda>u. u_tg_id u = a) f xs)" for xs
    using assms by (induction xs) auto
  then show ?thesis by (simp add: upd_user_def upd_where_def)
qed

lemma upd_user_add_coin_tx:
  "upd_user tg f (add_coin_tx n k a t r x d) = add_coin_tx n k a t r x (upd_user tg f d)"
  by (simp add: upd_user_def add_coin_tx_def)

lemma flush_user_eq:
  assumes "users_unique d" and "get_user d tg = Some u" and "u_tg_id (f u) = tg"
  shows "flush_user (f u) d = upd_user tg f d"
  unfolding flush_user_def assms(3) by (rule upd_user_cong [OF assms(1,2)]) simp

lemma flush_user_in_step:
  assumes "users_unique d" and "get_user d (u_tg_id obj) = Some obj"
  shows "flush_user obj d = d"
proof -
  have "flush_user obj d = upd_user (u_tg_id obj) (\<lambda>u. u) d"
    unfolding flush_user_def by (rule upd_user_cong [OF assms]) simp
  also have "\<dots> = d"
  proof -
    have "upd_list P (\<lambda>u. u) xs = xs" for P and xs :: "user list"
      by (induction xs) simp_all
    then show ?thesis by (simp add: upd_user_def upd_where_def)
  qed
  finally show ?thesis .
qed

lemma users_unique_add_coin_tx [simp]:
  "users_unique (add_coin_tx n k a t r x d) = users_unique d"
  by (simp add: users_unique_def)

lemma flush_user_add_coin_tx:
  "flush_user obj (add_coin_tx n k a t r x d) = add_coin_tx n k a t r x (flush_user obj d)"
  by (simp add: flush_user_def upd_user_add_coin_tx)

text \<open>An object in step with its row stays in step through a coin movement.\<close>

lemma process_in_step:
  assumes "users_unique d" and "get_user d (u_tg_id obj) = Some u"
    and "u_coin_balance obj = u_coin_balance u"
    and "u_total_earned_coins obj = u_total_earned_coins u"
    and "u_total_spent_coins obj = u_total_spent_coins u"
    and "process_coin_transaction now fl event obj amount descr ig ref d = (d', obj', r)"
  shows "\<exists>u'. get_user d' (u_tg_id obj) = Some u' \<and>
    u_coin_balance obj' = u_coin_balance u' \<and>
    u_total_earned_coins obj' = u_total_earned_coins u' \<and>
    u_total_spent_coins obj' = u_total_spent_coins u'"
proof (cases "amount < 0")
  case True
  from process_debit [OF assms(1,2) this] assms show ?thesis
    by (auto simp: get_upd_user split: if_splits)
next
  case False
  with assms process_credit [of amount] show ?thesis
    by (auto simp: get_upd_user)
qed

section \<open>Properties\<close>

text \<open>C5: \<open>process_coin_transaction\<close> on an existing user is refused exactly when a deduction
  exceeds the row's balance, and then the database is unchanged; otherwise the row's balance
  and the user's logged total both move by the final amount (the deduction, or the credit
  after the event multiplier), and no other user's balance or log changes.\<close>

theorem process_coin_transaction_effect:
  assumes "users_unique d" and "get_user d (u_tg_id obj) = Some u"
    and "process_coin_transaction now fl event obj amount descr ig ref d = (d', obj', r)"
  defines "n \<equiv> (if amount < 0 then amount else event_amount fl event ig amount)"
  shows "r = (0 \<le> amount \<or> - amount \<le> u_coin_balance u) \<and> (\<not> r \<longrightarrow> d' = d) \<and>
    coin_balance d' k = coin_balance d k + (if r \<and> k = u_tg_id obj then n else 0) \<and>
    logged_coins d' k = logged_coins d k + (if r \<and> k = u_tg_id obj then n else 0)"
proof -
  have tg: "u_tg_id obj \<in> account_ids d" using assms(2) by (simp add: account_ids_iff)
  have neg: "k = u_tg_id obj \<Longrightarrow> coin_balance d k = u_coin_balance u"
    using assms(2) by (simp add: coin_balance_Some)
  consider "0 \<le> amount" | "amount < 0" "u_coin_balance u < - amount"
    | "amount < 0" "- amount \<le> u_coin_balance u" by linarith
  then show ?thesis
  proof cases
    case 1
    then have "d' = coin_move earn now (event_text event ig descr) ref ''generic''
        (u_tg_id obj) n d" "r" "0 \<le> amount"
      using assms(3) process_credit [of amount] by (simp_all add: coin_move_def n_def)
    then show ?thesis
      using assms(1) tg by (simp add: earning.balance_move earning.logged_move)
  next
    case 2
    then show ?thesis
      using assms(3) process_debit [OF assms(1,2)] by simp
  next
    case 3
    then have "d' = coin_move (\<lambda>n. spend (- n)) now descr ref ''generic'' (u_tg_id obj) n d" "r"
      using assms(3) process_debit [OF assms(1,2)] by (simp_all add: coin_move_def n_def)
    then show ?thesis
      using 3 assms(1) tg by (simp add: spending.balance_move spending.logged_move)
  qed
qed

lemma process_demo:
  "process_coin_transaction 9 id None (alice\<lparr>u_coin_balance := b\<rparr>) (- 2) TxMatchCost False None demo_db
   = (add_coin_tx 9 1 (- 2) TxMatchCost None ''generic'' (upd_user 1 (spend 2) demo_db),
      spend 2 (alice\<lparr>u_coin_balance := b\<rparr>), True)"
  using process_debit [OF demo_unique, of "alice\<lparr>u_coin_balance := b\<rparr>" alice "- 2"] by simp

lemma process_coin_transaction_effect_witness:
  "coin_balance (add_coin_tx 9 1 (- 2) TxMatchCost None ''generic'' (upd_user 1 (spend 2) demo_db)) 1 = 1"
proof -
  have g: "get_user demo_db (u_tg_id (alice\<lparr>u_coin_balance := 7\<rparr>)) = Some alice" by simp
  from process_coin_transaction_effect [OF demo_unique g process_demo, where k = 1,
      THEN conjunct2, THEN conjunct2, THEN conjunct1]
  show ?thesis by simp
qed

text \<open>The unit of work writes the balance of the session object, not of the row: after a
  successful deduction and the flush, the stored balance is the object's balance less the
  amount, so the guarded \<open>UPDATE\<close> takes effect only if the object was in step with its row.\<close>

theorem deduction_flush_overwrites:
  assumes "users_unique d" and "get_user d (u_tg_id obj) = Some u" and "amount < 0"
    and "- amount \<le> u_coin_balance u"
    and "process_coin_transaction now fl event obj amount descr ig ref d = (d', obj', r)"
  shows "coin_balance (flush_coins amount obj' d') (u_tg_id obj) = u_coin_balance obj + amount \<and>
    (coin_balance (flush_coins amount obj' d') (u_tg_id obj)
        = coin_balance d (u_tg_id obj) + amount \<longleftrightarrow> u_coin_balance obj = u_coin_balance u)"
proof -
  have d': "d' = add_coin_tx now (u_tg_id obj) amount descr ref ''generic''
        (upd_user (u_tg_id obj) (spend (- amount)) d)"
    and o': "obj' = spend (- amount) obj"
    using assms(4,5) process_debit [OF assms(1-3)] by simp_all
  have "get_user d' (u_tg_id obj) = Some (spend (- amount) u)"
    using assms(2) by (simp add: d' get_upd_user)
  then have "coin_balance (flush_coins amount obj' d') (u_tg_id obj) = u_coin_balance obj + amount"
    using assms(3) by (simp add: flush_coins_def o' get_upd_user coin_balance_def)
  then show ?thesis
    using assms(2) by (auto simp: coin_balance_Some)
qed

lemma deduction_flush_overwrites_witness:
  "coin_balance (flush_coins (- 2) (spend 2 (alice\<lparr>u_coin_balance := 10\<rparr>))
     (add_coin_tx 9 1 (- 2) TxMatchCost None ''generic'' (upd_user 1 (spend 2) demo_db))) 1 = 8"
  using deduction_flush_overwrites [OF demo_unique _ _ _ process_demo [of 10], where u = alice,
      THEN conjunct1] by simp

end
