(* ===== verification/Orders.thy ===== *)
theory Orders
  imports Economy
begin

text \<open>
  Coin packages, purchase orders and the transaction history
  (\<open>database/queries/crud.py\<close>).
\<close>

section \<open>Packages\<close>

definition get_active_coin_packages :: "db \<Rightarrow> coin_package list" where
  "get_active_coin_packages d = sort_key cp_coin_amount (sel_where cp_is_active (packages d))"

definition get_all_coin_packages :: "db \<Rightarrow> coin_package list" where
  "get_all_coin_packages d = sort_key cp_coin_amount (rows (packages d))"

definition create_coin_package :: "int \<Rightarrow> int \<Rightarrow> int \<Rightarrow> db \<Rightarrow> db" where
  "create_coin_package now coin_amount price d = d\<lparr>packages := insert_row
     (\<lambda>i. \<lparr>cp_id = i, cp_coin_amount = coin_amount, cp_price_toman = price, cp_is_active = True,
           cp_created_at = Aware now\<rparr>) (packages d)\<rparr>"

definition get_package :: "int option \<Rightarrow> db \<Rightarrow> coin_package option" where
  "get_package pid d = (case pid of None \<Rightarrow> None | Some i \<Rightarrow> by_key cp_id i (packages d))"

definition update_coin_package_price :: "int \<Rightarrow> int \<Rightarrow> db \<Rightarrow> db \<times> bool" where
  "update_coin_package_price pid price d =
     (case by_key cp_id pid (packages d) of
        None \<Rightarrow> (d, False)
      | Some _ \<Rightarrow> (d\<lparr>packages := upd_where (\<lambda>p. cp_id p = pid)
                     (\<lambda>p. p\<lparr>cp_price_toman := price\<rparr>) (packages d)\<rparr>, True))"

definition toggle_coin_package :: "int \<Rightarrow> db \<Rightarrow> db \<times> bool option" where
  "toggle_coin_package pid d =
     (case by_key cp_id pid (packages d) of
        None \<Rightarrow> (d, None)
      | Some p \<Rightarrow> (d\<lparr>packages := upd_where (\<lambda>p. cp_id p = pid)
                     (\<lambda>q. q\<lparr>cp_is_active := \<not> cp_is_active p\<rparr>) (packages d)\<rparr>,
                   Some (\<not> cp_is_active p)))"

section \<open>Orders\<close>

definition create_purchase_order ::
  "int \<Rightarrow> int \<Rightarrow> int option \<Rightarrow> string \<Rightarrow> string option \<Rightarrow> db \<Rightarrow> db \<times> purchase_order" where
  "create_purchase_order now tg pid payment_method receipt d =
     (let row = (\<lambda>i. \<lparr>po_id = i, po_user_tg_id = tg, po_package_id = pid,
            po_payment_method = payment_method, po_order_type = ''coins'', po_order_payload = None,
            po_status = Pending, po_receipt_photo_file_id = receipt, po_gateway_authority = None,
            po_created_at = Aware now, po_resolved_at = None\<rparr>)
      in (d\<lparr>orders := insert_row row (orders d)\<rparr>, row (next_id (orders d))))"

definition get_purchase_order :: "int \<Rightarrow> db \<Rightarrow> purchase_order option" where
  "get_purchase_order oid d = by_key po_id oid (orders d)"

definition abandoned :: "int \<Rightarrow> purchase_order \<Rightarrow> bool" where
  "abandoned threshold p \<longleftrightarrow>
     po_payment_method p = ''gateway'' \<and> instant (po_created_at p) < threshold"

definition hour_us :: int where
  "hour_us = 3600 * 1000000"

definition get_pending_orders :: "int \<Rightarrow> nat \<Rightarrow> db \<Rightarrow> purchase_order list" where
  "get_pending_orders now limit d = take limit (sort_key (\<lambda>p. - instant (po_created_at p))
     (sel_where (\<lambda>p. po_status p = Pending \<and> \<not> abandoned (now - 24 * hour_us) p) (orders d)))"

definition expire_abandoned_orders :: "int \<Rightarrow> int \<Rightarrow> db \<Rightarrow> db \<times> nat" where
  "expire_abandoned_orders now hours d =
     (let cond = (\<lambda>p. po_status p = Pending \<and> abandoned (now - hours * hour_us) p)
      in (d\<lparr>orders := upd_where cond (\<lambda>p. p\<lparr>po_status := Expired\<rparr>) (orders d)\<rparr>,
          rowcount cond (orders d)))"

definition get_order_with_details ::
  "int \<Rightarrow> db \<Rightarrow> (purchase_order \<times> coin_package \<times> user) option" where
  "get_order_with_details oid d =
     (case [(p, c, u). p \<leftarrow> rows (orders d), c \<leftarrow> rows (packages d), u \<leftarrow> rows (users d),
              po_package_id p = Some (cp_id c), po_user_tg_id p = u_tg_id u, po_id p = oid] of
        [] \<Rightarrow> None | x # _ \<Rightarrow> Some x)"

definition get_user_orders :: "int \<Rightarrow> nat \<Rightarrow> db \<Rightarrow> purchase_order list" where
  "get_user_orders tg limit d = take limit (sort_key (\<lambda>p. - instant (po_created_at p))
     (sel_where (\<lambda>p. po_user_tg_id p = tg) (orders d)))"

definition set_order :: "int \<Rightarrow> (purchase_order \<Rightarrow> purchase_order) \<Rightarrow> db \<Rightarrow> db" where
  "set_order oid f d = d\<lparr>orders := upd_where (\<lambda>p. po_id p = oid) f (orders d)\<rparr>"

section \<open>Transaction history\<close>

text \<open>
  The category filter compares descriptions with the Persian prefix of the card-to-card
  purchase.  The other texts the code writes start differently; free texts of admins
  (\<open>TxOther\<close>) are judged by a parameter.  An event suffix does not change a prefix.
\<close>

fun like_package :: "(string \<Rightarrow> bool) \<Rightarrow> tx_text \<Rightarrow> bool" where
  "like_package other (TxCardPackage _) = True"
| "like_package other (TxEvent t _) = like_package other t"
| "like_package other (TxOther s) = other s"
| "like_package other _ = False"

datatype tx_category = CatAll | CatPurchase | CatReceived | CatSpent

definition tx_in_category :: "(string \<Rightarrow> bool) \<Rightarrow> tx_category \<Rightarrow> coin_transaction \<Rightarrow> bool" where
  "tx_in_category other cat t = (case cat of
     CatAll \<Rightarrow> True
   | CatPurchase \<Rightarrow> like_package other (ct_description t)
   | CatReceived \<Rightarrow> ct_amount t > 0 \<and> \<not> like_package other (ct_description t)
   | CatSpent \<Rightarrow> ct_amount t < 0)"

definition get_user_transactions ::
  "(string \<Rightarrow> bool) \<Rightarrow> int \<Rightarrow> tx_category \<Rightarrow> nat \<Rightarrow> nat \<Rightarrow> db \<Rightarrow> coin_transaction list \<times> nat" where
  "get_user_transactions other tg cat limit offset d =
     (let cond = (\<lambda>t. ct_user_id t = tg \<and> tx_in_category other cat t)
      in (take limit (drop offset (sort_key (\<lambda>t. - instant (ct_created_at t))
            (sel_where cond (coin_txs d)))), rowcount cond (coin_txs d)))"

section \<open>Lemmas\<close>

lemma order_frames [simp]:
  "users (set_order i f d) = users d" "coin_txs (set_order i f d) = coin_txs d"
  "packages (set_order i f d) = packages d" "get_user (set_order i f d) k = get_user d k"
  "vip_subs (set_order i f d) = vip_subs d" "user_gifts (set_order i f d) = user_gifts d"
  by (simp_all add: set_order_def get_user_def)

lemma get_set_order:
  assumes "\<And>p. po_id (f p) = po_id p"
  shows "get_purchase_order j (set_order i f d) =
    (if j = i then map_option f (get_purchase_order i d) else get_purchase_order j d)"
  using assms by (simp add: get_purchase_order_def set_order_def by_key_upd)

text \<open>Expiry touches exactly the pending gateway orders older than the given hours: they
  become expired and are counted, so none is left to expire, every other order keeps its
  status, and an order the admins' list still shows is never among those expired at 24 hours.\<close>

theorem expire_abandoned_exact:
  assumes "expire_abandoned_orders now h d = (d', n)"
  shows "map po_status (rows (orders d')) = map (\<lambda>p. if po_status p = Pending \<and>
        po_payment_method p = ''gateway'' \<and> instant (po_created_at p) < now - h * hour_us
      then Expired else po_status p) (rows (orders d)) \<and>
    map po_id (rows (orders d')) = map po_id (rows (orders d)) \<and>
    snd (expire_abandoned_orders now h d') = 0 \<and>
    (h = 24 \<longrightarrow> get_pending_orders now limit d' = get_pending_orders now limit d)"
proof -
  let ?c = "\<lambda>p. po_status p = Pending \<and> abandoned (now - h * hour_us) p"
  let ?e = "upd_list ?c (\<lambda>p. p\<lparr>po_status := Expired\<rparr>)"
  have r: "rows (orders d') = ?e (rows (orders d))"
    using assms by (auto simp: expire_abandoned_orders_def Let_def)
  have ab: "abandoned t (p\<lparr>po_status := s\<rparr>) = abandoned t p" for t p s by (simp add: abandoned_def)
  have "filter ?c (?e xs) = []" for xs by (induction xs) (simp_all add: ab)
  then have "snd (expire_abandoned_orders now h d') = 0"
    by (simp add: expire_abandoned_orders_def Let_def rowcount_def r)
  moreover have "filter (\<lambda>p. po_status p = Pending \<and> \<not> abandoned (now - h * hour_us) p) (?e xs)
      = filter (\<lambda>p. po_status p = Pending \<and> \<not> abandoned (now - h * hour_us) p) xs" for xs
    by (induction xs) (simp_all add: ab)
  then have "h = 24 \<longrightarrow> get_pending_orders now limit d' = get_pending_orders now limit d"
    by (auto simp: get_pending_orders_def sel_where_def r)
  moreover have "map po_status (?e xs) = map (\<lambda>p. if po_status p = Pending \<and>
        po_payment_method p = ''gateway'' \<and> instant (po_created_at p) < now - h * hour_us
      then Expired else po_status p) xs" for xs
    by (induction xs) (simp_all add: abandoned_def)
  moreover have "map po_id (?e xs) = map po_id xs" for xs
    by (rule upd_list_keys) simp
  ultimately show ?thesis by (simp add: r)
qed

lemma expire_abandoned_exact_witness:
  "snd (expire_abandoned_orders (25 * hour_us) 24
     (fst (create_purchase_order 0 1 (Some 1) ''gateway'' None demo_db))) = 1 \<and>
   map po_status (rows (orders (fst (expire_abandoned_orders (25 * hour_us) 24
     (fst (create_purchase_order 0 1 (Some 1) ''gateway'' None demo_db)))))) = [Expired]"
proof -
  let ?d = "fst (create_purchase_order 0 1 (Some 1) ''gateway'' None demo_db)"
  have "rows (orders demo_db) = []" by (simp add: demo_db_def empty_db_def empty_tbl_def)
  then have "map po_status (rows (orders ?d)) = [Pending] \<and> length (rows (orders ?d)) = 1 \<and>
      (\<forall>p\<in>set (rows (orders ?d)). po_status p = Pending \<and> abandoned hour_us p)"
    by (simp add: create_purchase_order_def Let_def abandoned_def hour_us_def)
  moreover from this have "snd (expire_abandoned_orders (25 * hour_us) 24 ?d) = 1"
    by (cases "rows (orders ?d)")
      (auto simp: expire_abandoned_orders_def Let_def rowcount_def hour_us_def)
  moreover obtain d' n where "expire_abandoned_orders (25 * hour_us) 24 ?d = (d', n)"
    by (metis surj_pair)
  ultimately show ?thesis
    using expire_abandoned_exact [of "25 * hour_us" 24 ?d d' n 1]
    by (cases "rows (orders ?d)") (auto simp: abandoned_def hour_us_def)
qed

text \<open>A coin package bought through the online gateway is never listed among the purchases
  of the history: its description does not have the prefix the filter looks for, so it shows
  as received coins instead; only card-to-card purchases are listed.\<close>

theorem online_purchase_not_listed:
  assumes "ct_description t = TxOnlinePackage coins oid \<or> ct_description t = TxEvent (TxOnlinePackage coins oid) m"
    and "0 < ct_amount t"
  shows "\<not> tx_in_category other CatPurchase t \<and> tx_in_category other CatReceived t \<and>
    t \<notin> set (fst (get_user_transactions other tg CatPurchase limit offset d))"
proof -
  have "\<not> like_package other (ct_description t)" using assms(1) by auto
  moreover have "set (take limit (drop offset xs)) \<subseteq> set xs" for xs :: "coin_transaction list"
    by (meson set_drop_subset set_take_subset subset_trans)
  then have "set (fst (get_user_transactions other tg CatPurchase limit offset d)) \<subseteq>
      {t. like_package other (ct_description t)}"
    by (auto simp: get_user_transactions_def Let_def tx_in_category_def sel_where_def) fastforce
  ultimately show ?thesis using assms(2) by (auto simp: tx_in_category_def)
qed

lemma online_purchase_not_listed_witness:
  "\<not> tx_in_category (\<lambda>_. False) CatPurchase (new_coin_tx 0 1 50 (TxOnlinePackage 50 7) None ''generic'' 9)"
  using online_purchase_not_listed [of "new_coin_tx 0 1 50 (TxOnlinePackage 50 7) None ''generic'' 9" 50 7]
  by (simp add: new_coin_tx_def)

end
