(* ===== verification/Matches.thy ===== *)
theory Matches
  imports Ledger
begin

text \<open>
  Match records and the question bank (\<open>database/queries/crud.py\<close>): creation and lookup of a
  match, ending it when a user is banned, answers and questions.
\<close>

definition create_match_history :: "int \<Rightarrow> int \<Rightarrow> int \<Rightarrow> db \<Rightarrow> db \<times> match_history" where
  "create_match_history now one two d =
     (d\<lparr>matches := insert_row (new_match now one two) (matches d)\<rparr>,
      new_match now one two (next_id (matches d)))"

definition in_match :: "int \<Rightarrow> match_history \<Rightarrow> bool" where
  "in_match tg m \<longleftrightarrow> mh_user_one_id m = tg \<or> mh_user_two_id m = tg"

definition get_active_match :: "int \<Rightarrow> db \<Rightarrow> match_history option" where
  "get_active_match tg d = first_where (\<lambda>m. mh_is_active m \<and> in_match tg m) (matches d)"

definition is_active_match_partner :: "int \<Rightarrow> int \<Rightarrow> db \<Rightarrow> bool" where
  "is_active_match_partner viewer target d =
     (if viewer = target then False
      else case get_active_match viewer d of
             None \<Rightarrow> False
           | Some m \<Rightarrow> target \<in> {mh_user_one_id m, mh_user_two_id m})"

definition partner_in :: "match_history \<Rightarrow> int \<Rightarrow> int" where
  "partner_in m tg = (if mh_user_one_id m = tg then mh_user_two_id m else mh_user_one_id m)"

definition end_match :: "int \<Rightarrow> int \<Rightarrow> db \<Rightarrow> db" where
  "end_match now mid d = d\<lparr>matches := upd_where (\<lambda>m. mh_id m = mid)
     (\<lambda>m. m\<lparr>mh_is_active := False, mh_ended_at := Some (Naive now)\<rparr>) (matches d)\<rparr>"

text \<open>The clean-up of a banned user's date: the match and the partner to tell.\<close>

definition terminate_active_match :: "int \<Rightarrow> int \<Rightarrow> db \<Rightarrow> db \<times> int option" where
  "terminate_active_match now tg d =
     (case get_active_match tg d of
        None \<Rightarrow> (d, None)
      | Some m \<Rightarrow> (end_match now (mh_id m) d, Some (partner_in m tg)))"

section \<open>Questions and answers\<close>

text \<open>\<open>ORDER BY RAND()\<close>: the permutation drawn is an argument.\<close>

definition get_random_questions :: "(question list \<Rightarrow> question list) \<Rightarrow> nat \<Rightarrow> db \<Rightarrow> question list" where
  "get_random_questions shuffle limit d = take limit (shuffle (rows (questions d)))"

definition get_question_count :: "db \<Rightarrow> nat" where
  "get_question_count d = length (rows (questions d))"

definition add_question ::
  "string \<Rightarrow> string \<Rightarrow> string \<Rightarrow> string \<Rightarrow> string option \<Rightarrow> string option \<Rightarrow> db \<Rightarrow> db" where
  "add_question txt a b category c e d = d\<lparr>questions := insert_row
     (\<lambda>i. \<lparr>q_id = i, q_question_text = txt, q_option_a = a, q_option_b = b, q_option_c = c,
           q_option_d = e, q_category = category, q_short_label = None\<rparr>) (questions d)\<rparr>"

text \<open>A second answer of the same user to the same question of a match violates
  \<open>uq_user_question_match\<close>.\<close>

definition same_answer :: "int \<Rightarrow> int \<Rightarrow> int \<Rightarrow> user_answer \<Rightarrow> bool" where
  "same_answer uid qid mid a \<longleftrightarrow>
     ua_user_id a = uid \<and> ua_question_id a = qid \<and> ua_match_history_id a = mid"

definition save_user_answer :: "int \<Rightarrow> int \<Rightarrow> int \<Rightarrow> int \<Rightarrow> string \<Rightarrow> db \<Rightarrow> db option" where
  "save_user_answer now uid qid mid opt d =
     (if sel_where (same_answer uid qid mid) (answers d) \<noteq> [] then None
      else Some (d\<lparr>answers := insert_row
        (\<lambda>i. \<lparr>ua_id = i, ua_user_id = uid, ua_question_id = qid, ua_match_history_id = mid,
              ua_selected_option = opt, ua_answered_at = Aware now\<rparr>) (answers d)\<rparr>))"

definition check_question_status :: "int \<Rightarrow> int \<Rightarrow> db \<Rightarrow> user_answer list" where
  "check_question_status mid qid d =
     sel_where (\<lambda>a. ua_match_history_id a = mid \<and> ua_question_id a = qid) (answers d)"

definition get_referral_count :: "int \<Rightarrow> db \<Rightarrow> nat" where
  "get_referral_count tg d = rowcount (\<lambda>u. u_referrer_id u = Some tg) (users d)"

section \<open>Lemmas\<close>

text \<open>A user is in at most one active match, and match ids are unique and used.\<close>

definition matches_ok :: "db \<Rightarrow> bool" where
  "matches_ok d \<longleftrightarrow> distinct (map mh_id (rows (matches d))) \<and>
     (\<forall>m\<in>set (rows (matches d)). mh_id m < next_id (matches d)) \<and>
     (\<forall>m1\<in>set (rows (matches d)). \<forall>m2\<in>set (rows (matches d)). \<forall>tg.
        mh_is_active m1 \<and> mh_is_active m2 \<and> in_match tg m1 \<and> in_match tg m2 \<longrightarrow> mh_id m1 = mh_id m2)"

lemma active_match_SomeD:
  "get_active_match tg d = Some m \<Longrightarrow> m \<in> set (rows (matches d)) \<and> mh_is_active m \<and> in_match tg m"
  by (auto simp: get_active_match_def first_where_def find_Some_iff)

lemma active_match_NoneD:
  "get_active_match tg d = None \<Longrightarrow> m \<in> set (rows (matches d)) \<Longrightarrow> mh_is_active m \<Longrightarrow> \<not> in_match tg m"
  by (auto simp: get_active_match_def first_where_def find_None_iff)

lemma rows_end_match: "set (rows (matches (end_match now mid d))) =
    (\<lambda>m. if mh_id m = mid then m\<lparr>mh_is_active := False, mh_ended_at := Some (Naive now)\<rparr> else m)
      ` set (rows (matches d))"
  by (simp add: end_match_def set_upd_list)

lemma in_match_upd [simp]:
  "in_match tg (m\<lparr>mh_is_active := a, mh_ended_at := e\<rparr>) = in_match tg m"
  by (simp add: in_match_def)

lemma end_match_frames [simp]:
  "users (end_match now mid d) = users d" "coin_txs (end_match now mid d) = coin_txs d"
  "warnings (end_match now mid d) = warnings d" "reports (end_match now mid d) = reports d"
  by (simp_all add: end_match_def)

lemma terminate_frames [simp]:
  "users (fst (terminate_active_match now tg d)) = users d"
  "coin_txs (fst (terminate_active_match now tg d)) = coin_txs d"
  "warnings (fst (terminate_active_match now tg d)) = warnings d"
  "reports (fst (terminate_active_match now tg d)) = reports d"
  by (simp_all add: terminate_active_match_def split: option.split)

text \<open>Ending the match of a user leaves them without one, under the invariant.\<close>

lemma terminate_clears:
  assumes "matches_ok d"
  shows "get_active_match tg (fst (terminate_active_match now tg d)) = None"
proof (cases "get_active_match tg d")
  case None
  then show ?thesis by (simp add: terminate_active_match_def)
next
  case (Some m)
  have "\<not> (mh_is_active r \<and> in_match tg r)"
    if r: "r \<in> set (rows (matches (end_match now (mh_id m) d)))" for r
  proof -
    from r obtain r0 where r0: "r0 \<in> set (rows (matches d))"
      and e: "r = (if mh_id r0 = mh_id m
        then r0\<lparr>mh_is_active := False, mh_ended_at := Some (Naive now)\<rparr> else r0)"
      by (auto simp: rows_end_match)
    show ?thesis
    proof (cases "mh_id r0 = mh_id m")
      case True
      then show ?thesis by (simp add: e)
    next
      case False
      then show ?thesis
        using assms r0 active_match_SomeD [OF Some] by (auto simp: e matches_ok_def)
    qed
  qed
  then have "get_active_match tg (end_match now (mh_id m) d) = None"
    by (auto simp: get_active_match_def first_where_def find_None_iff)
  then show ?thesis by (simp add: terminate_active_match_def Some)
qed

end
