(* ===== verification/Accounts.thy ===== *)
theory Accounts
  imports Economy
begin

text \<open>
  Account operations of \<open>database/queries/crud.py\<close>: creation with its retry loop, the
  deleted-accounts ledger, registration with the referral reward, profile updates, quota
  consumption and XP.  \<open>Inl\<close> is an exception that leaves the function; then the session
  is rolled back and the database is the one before the call.
\<close>

section \<open>User creation\<close>

datatype violated = PublicIdTaken | TgIdTaken

datatype create_error = IntegrityError violated | RuntimeError

text \<open>
  The flush of the new row inside a savepoint: it fails on one of the two unique keys.
  \<open>mentions v\<close> is whether the text of that \<open>IntegrityError\<close> contains \<open>public_id\<close>.
\<close>

definition insert_violation :: "int \<Rightarrow> string \<Rightarrow> db \<Rightarrow> violated option" where
  "insert_violation tg pid d =
     (if \<exists>u\<in>set (rows (users d)). u_public_id u = Some pid then Some PublicIdTaken
      else if \<exists>u\<in>set (rows (users d)). u_tg_id u = tg then Some TgIdTaken
      else None)"

fun create_attempts ::
  "(violated \<Rightarrow> bool) \<Rightarrow> (string \<Rightarrow> int \<Rightarrow> user) \<Rightarrow> int \<Rightarrow> string list \<Rightarrow> db
     \<Rightarrow> create_error + (db \<times> user)" where
  "create_attempts mentions mk tg [] d = Inl RuntimeError"
| "create_attempts mentions mk tg (pid # pids) d =
     (case insert_violation tg pid d of
        None \<Rightarrow> Inr (d\<lparr>users := insert_row (mk pid) (users d)\<rparr>, mk pid (next_id (users d)))
      | Some v \<Rightarrow> if mentions v then create_attempts mentions mk tg pids d
                  else Inl (IntegrityError v))"

definition create_user ::
  "(violated \<Rightarrow> bool) \<Rightarrow> int \<Rightarrow> int \<Rightarrow> string list \<Rightarrow> int \<Rightarrow> string \<Rightarrow> string option \<Rightarrow> int option
     \<Rightarrow> db \<Rightarrow> create_error + (db \<times> user)" where
  "create_user mentions now initial_shard draws tg first_name username referrer d =
     (let mk = (\<lambda>pid uid. (new_user now tg pid first_name uid)\<lparr>u_username := username,
           u_referrer_id := referrer, u_shard_index := Some initial_shard,
           u_completed_registration := False, u_coin_balance := 3,
           u_total_earned_coins := 3\<rparr>)
      in case create_attempts mentions mk tg (take 5 draws) d of
           Inl e \<Rightarrow> Inl e
         | Inr (d1, u) \<Rightarrow> Inr (add_coin_tx now tg 3 TxWelcome None ''generic'' d1, u))"

section \<open>Deleted accounts\<close>

definition has_deleted_account :: "int \<Rightarrow> db \<Rightarrow> bool" where
  "has_deleted_account tg d = (by_key da_tg_id tg (deleted_accounts d) \<noteq> None)"

definition mark_account_deleted :: "int \<Rightarrow> int \<Rightarrow> db \<Rightarrow> db" where
  "mark_account_deleted now tg d =
     (if by_key da_tg_id tg (deleted_accounts d) = None
      then d\<lparr>deleted_accounts := insert_row
             (\<lambda>i. \<lparr>da_id = i, da_tg_id = tg, da_deleted_at = Aware now\<rparr>) (deleted_accounts d)\<rparr>
      else d)"

section \<open>Registration and the referral reward\<close>

record registration =
  rg_gender :: string
  rg_age :: int
  rg_province :: string
  rg_city :: string
  rg_first_name :: "string option"
  rg_tags :: "string option"
  rg_photo :: "string option"

definition fill_profile :: "registration \<Rightarrow> user \<Rightarrow> user" where
  "fill_profile rg u =
     (let u1 = (if truthy (rg_first_name rg)
                then u\<lparr>u_first_name := the (rg_first_name rg)\<rparr> else u)
      in u1\<lparr>u_gender := Some (rg_gender rg), u_age := Some (rg_age rg),
            u_province := Some (rg_province rg), u_city := Some (rg_city rg),
            u_tags := rg_tags rg, u_profile_photo_file_id := rg_photo rg,
            u_completed_registration := True\<rparr>)"

text \<open>
  The session's identity map: selecting the row of an object the session already holds
  returns that object, with its pending changes.
\<close>

definition session_get :: "user \<Rightarrow> int \<Rightarrow> db \<Rightarrow> user option" where
  "session_get obj tg d = (if tg = u_tg_id obj then Some obj else get_user d tg)"

definition complete_user_registration ::
  "int \<Rightarrow> (rat \<Rightarrow> rat) \<Rightarrow> rat option \<Rightarrow> int \<Rightarrow> registration \<Rightarrow> db \<Rightarrow> db \<times> bool \<times> int option" where
  "complete_user_registration now fl event tg rg d =
     (case get_user d tg of
        None \<Rightarrow> (d, False, None)
      | Some user0 \<Rightarrow>
          if u_completed_registration user0 then (d, False, None)
          else
            let user1 = fill_profile rg user0;
                (d1, user2, _) =
                  process_coin_transaction now fl event user1 5 TxRegistered False None d;
                is_returning_user = has_deleted_account tg d1
            in case u_referrer_id user2 of
                 None \<Rightarrow> (flush_user user2 d1, True, None)
               | Some rid \<Rightarrow>
                   if rid = 0 \<or> is_returning_user then (flush_user user2 d1, True, None)
                   else (case session_get user2 rid d1 of
                      None \<Rightarrow> (flush_user user2 d1, True, None)
                    | Some referrer \<Rightarrow>
                        let (d2, referrer1, _) = process_coin_transaction now fl event
                               referrer 5 (TxInviteReward tg) False None d1;
                            user3 = (if u_tg_id referrer = tg then referrer1 else user2);
                            (d3, user4, _) = process_coin_transaction now fl event
                               user3 5 TxInvitedBonus False None d2
                        in (flush_user user4 (if u_tg_id referrer = tg then d3
                                              else flush_user referrer1 d3),
                            True, Some (u_tg_id referrer))))"

section \<open>Profile updates\<close>

definition set_opt :: "('a \<Rightarrow> user \<Rightarrow> user) \<Rightarrow> 'a option \<Rightarrow> user \<Rightarrow> user" where
  "set_opt f x u = (case x of None \<Rightarrow> u | Some v \<Rightarrow> f v u)"

definition update_user_profile ::
  "int \<Rightarrow> string option \<Rightarrow> string option \<Rightarrow> string option \<Rightarrow> int option \<Rightarrow> bool option
     \<Rightarrow> bool option \<Rightarrow> int option \<Rightarrow> db \<Rightarrow> db \<times> bool" where
  "update_user_profile tg first_name bio interests trust_score invisible_mode is_banned
      report_count d =
     (case get_user d tg of
        None \<Rightarrow> (d, False)
      | Some u \<Rightarrow>
          let u1 = set_opt (\<lambda>v u. u\<lparr>u_first_name := v\<rparr>) first_name u;
              u2 = set_opt (\<lambda>v u. u\<lparr>u_bio := Some v\<rparr>) bio u1;
              u3 = set_opt (\<lambda>v u. u\<lparr>u_interests := Some v\<rparr>) interests u2;
              u4 = set_opt (\<lambda>v u. u\<lparr>u_trust_score := v\<rparr>) trust_score u3;
              u5 = set_opt (\<lambda>v u. u\<lparr>u_invisible_mode := v\<rparr>) invisible_mode u4;
              u6 = set_opt (\<lambda>v u. u\<lparr>u_is_banned := v\<rparr>) is_banned u5;
              u7 = set_opt (\<lambda>v u. u\<lparr>u_report_count := v\<rparr>) report_count u6
          in (flush_user u7 d, True))"

definition update_silent_mode :: "int \<Rightarrow> pydt option \<Rightarrow> db \<Rightarrow> db \<times> bool" where
  "update_silent_mode tg silent_until d =
     (upd_user tg (\<lambda>u. u\<lparr>u_silent_until := silent_until\<rparr>) d,
      rowcount (\<lambda>u. u_tg_id u = tg) (users d) > 0)"

text \<open>
  Comparisons with the coordinate bounds; the spatial point is stored (longitude, latitude).
\<close>

definition update_user_location :: "int \<Rightarrow> rat \<Rightarrow> rat \<Rightarrow> db \<Rightarrow> db \<times> bool" where
  "update_user_location tg lat lng d =
     (if \<not> (- 90 \<le> lat \<and> lat \<le> 90) \<or> \<not> (- 180 \<le> lng \<and> lng \<le> 180) then (d, False)
      else (upd_user tg (\<lambda>u. u\<lparr>u_location_lat := Some lat, u_location_lng := Some lng,
                               u_location_point := Some (lng, lat)\<rparr>) d,
            rowcount (\<lambda>u. u_tg_id u = tg) (users d) > 0))"

definition toggle_comments_disabled :: "int \<Rightarrow> db \<Rightarrow> db \<times> bool option" where
  "toggle_comments_disabled tg d =
     (case get_user d tg of
        None \<Rightarrow> (d, None)
      | Some u \<Rightarrow> (upd_user tg (\<lambda>v. v\<lparr>u_comments_disabled := \<not> u_comments_disabled u\<rparr>) d,
                   Some (\<not> u_comments_disabled u)))"

definition are_comments_disabled :: "int \<Rightarrow> db \<Rightarrow> bool" where
  "are_comments_disabled tg d =
     (case get_user d tg of None \<Rightarrow> False | Some u \<Rightarrow> u_comments_disabled u)"

section \<open>Quota and coins\<close>

text \<open>
  \<open>is_vip\<close> and an expiry that is absent or later than now; \<open>now\<close> is made naive, so an
  aware expiry raises.  A zero-valued datetime does not exist: every expiry is truthy.
\<close>

definition vip_flag_active :: "pydt \<Rightarrow> user \<Rightarrow> py_error + bool" where
  "vip_flag_active now u =
     (if \<not> u_is_vip u then Inr False
      else case u_vip_expires_at u of None \<Rightarrow> Inr True | Some e \<Rightarrow> dt_gt e now)"

definition consume_vip_quota_or_coin ::
  "int \<Rightarrow> int \<Rightarrow> int \<Rightarrow> tx_text \<Rightarrow> int option \<Rightarrow> db \<Rightarrow> py_error + (db \<times> bool)" where
  "consume_vip_quota_or_coin now tg cost descr ref d =
     (if cost \<le> 0 then Inr (d, True)
      else case get_user d tg of
        None \<Rightarrow> Inr (d, False)
      | Some u \<Rightarrow>
          (case vip_flag_active (Naive now) u of
             Inl e \<Rightarrow> Inl e
           | Inr active \<Rightarrow>
               if active then Inr (d, True)
               else if u_vip_quota u \<ge> cost then
                 Inr (upd_user tg (\<lambda>v. v\<lparr>u_vip_quota := u_vip_quota u - cost\<rparr>) d, True)
               else if u_coin_balance u \<ge> cost then
                 Inr (add_coin_tx now tg (- cost) descr ref ''generic''
                        (upd_user tg (spend cost) d), True)
               else Inr (d, False)))"

section \<open>XP\<close>

function level_up :: "int \<Rightarrow> int \<Rightarrow> int \<Rightarrow> bool \<Rightarrow> int \<times> int \<times> int \<times> bool" where
  "level_up level xp boxes leveled =
     (if xp \<ge> level * 100
      then level_up (level + 1) (xp - level * 100) (boxes + 1) True
      else (level, xp, boxes, leveled))"
  by pat_completeness auto
termination
  by (relation "measures [\<lambda>(l, x, b, v). nat (1 - l), \<lambda>(l, x, b, v). nat x]") auto

declare level_up.simps [simp del]

definition add_xp_to_user :: "int \<Rightarrow> int \<Rightarrow> db \<Rightarrow> db \<times> bool" where
  "add_xp_to_user tg amount d =
     (case get_user d tg of
        None \<Rightarrow> (d, False)
      | Some u \<Rightarrow>
          let level = (if u_level u < 1 then 1 else u_level u);
              (level', xp', boxes', leveled_up) =
                level_up level (u_xp_points u + amount) (u_lootbox_count u) False
          in (upd_user tg (\<lambda>v. v\<lparr>u_level := level', u_xp_points := xp',
                                 u_lootbox_count := boxes'\<rparr>) d, leveled_up))"

section \<open>Properties\<close>

lemma create_attempts_Inr:
  assumes "create_attempts mentions mk tg draws d = Inr (d', u)"
  shows "\<exists>pid\<in>set draws. insert_violation tg pid d = None \<and>
    d' = d\<lparr>users := insert_row (mk pid) (users d)\<rparr> \<and> u = mk pid (next_id (users d))"
  using assms
  by (induction mentions mk tg draws d rule: create_attempts.induct)
    (auto split: option.splits if_splits)

lemma create_attempts_taken:
  assumes "tg \<in> account_ids d"
  shows "\<exists>e. create_attempts mentions mk tg draws d = Inl e"
  using assms
  by (induction draws)
    (auto simp: insert_violation_def account_ids_def split: option.splits)

lemma get_user_insert_row:
  assumes "tg \<notin> account_ids d" and "\<And>i. u_tg_id (mk i) = tg"
  shows "get_user (d\<lparr>users := insert_row mk (users d)\<rparr>) k =
    (if k = tg then Some (mk (next_id (users d))) else get_user d k)"
  using assms by (auto simp: get_user_def by_key_insert account_ids_iff split: option.splits)

text \<open>A successful \<open>create_user\<close> adds exactly one user: the id was free, the new row
  starts with three coins whose gift is logged, every other user is unchanged, and both
  unique keys survive, for any generated public ids and any of the five attempts.\<close>

theorem create_user_fresh_account:
  assumes "users_unique d" and "ledger_ok d" and "logged_coins d tg = 0"
    and "create_user mentions now shard draws tg name uname referrer d = Inr (d', u)"
  shows "tg \<notin> account_ids d \<and> get_user d' tg = Some u \<and> u_coin_balance u = 3 \<and>
    \<not> u_completed_registration u \<and>
    (\<forall>v\<in>set (rows (users d)). u_public_id v \<noteq> u_public_id u) \<and>
    (\<forall>k. k \<noteq> tg \<longrightarrow> get_user d' k = get_user d k) \<and> users_unique d' \<and> ledger_ok d'"
proof -
  let ?mk = "\<lambda>pid uid. (new_user now tg pid name uid)\<lparr>u_username := uname,
           u_referrer_id := referrer, u_shard_index := Some shard,
           u_completed_registration := False, u_coin_balance := 3, u_total_earned_coins := 3\<rparr>"
  obtain d1 where d1: "create_attempts mentions ?mk tg (take 5 draws) d = Inr (d1, u)"
    and d': "d' = add_coin_tx now tg 3 TxWelcome None ''generic'' d1"
    using assms(4) by (auto simp: create_user_def Let_def split: sum.splits)
  from create_attempts_Inr [OF d1] obtain pid where
    v: "insert_violation tg pid d = None"
    and d1_eq: "d1 = d\<lparr>users := insert_row (?mk pid) (users d)\<rparr>"
    and u: "u = ?mk pid (next_id (users d))" by blast
  have free: "tg \<notin> account_ids d"
    using create_attempts_taken [of tg d mentions ?mk "take 5 draws"] d1 by force
  have sel: "u_tg_id u = tg" "u_coin_balance u = 3" "u_public_id u = Some pid"
      "\<not> u_completed_registration u"
    by (simp_all add: u new_user_def)
  have get: "get_user d' k = (if k = tg then Some u else get_user d k)" for k
    using get_user_insert_row [OF free, of "?mk pid" k] u
    by (simp add: d' d1_eq new_user_def)
  have pid: "\<forall>v\<in>set (rows (users d)). u_public_id v \<noteq> Some pid"
    using v by (auto simp: insert_violation_def split: if_splits)
  have uniq: "users_unique d'"
    using assms(1) free by (simp add: d' d1_eq users_unique_def account_ids_def new_user_def)
  have ids: "account_ids d' = insert tg (account_ids d)"
    by (simp add: d' d1_eq account_ids_def new_user_def add_coin_tx_def)
  have "coin_txs d1 = coin_txs d" by (simp add: d1_eq)
  then have logged: "logged_coins d' k = (if k = tg then 3 else logged_coins d k)" for k
    using assms(3) logged_coins_cong [of d1 d k] by (auto simp: d')
  have "ledger_ok d'"
    using assms(2) free by (auto simp: ledger_ok_def ids logged coin_balance_def get sel)
  with free get sel pid uniq show ?thesis by simp
qed

lemma create_user_fresh_account_witness:
  "\<exists>d' u. create_user (\<lambda>_. True) 9 0 [''user_aaaaaa'', ''user_cccccc''] 3 ''C'' None None demo_db
     = Inr (d', u) \<and> get_user d' 3 = Some u \<and> u_coin_balance u = 3"
proof -
  obtain d' u where c: "create_user (\<lambda>_. True) 9 0 [''user_aaaaaa'', ''user_cccccc''] 3 ''C''
      None None demo_db = Inr (d', u)"
    by (simp add: create_user_def insert_violation_def Let_def)
  with create_user_fresh_account [OF demo_unique demo_ledger _ c] show ?thesis by simp
qed

text \<open>\<open>create_user\<close> never creates a second account for a Telegram id.  If the text of
  the \<open>tg_id\<close> violation also contains the word \<open>public_id\<close>, the loop takes it for a
  collision of public ids, spends all its attempts, and the error that leaves the function is
  the \<open>RuntimeError\<close> about collisions.\<close>

theorem create_user_duplicate_id:
  assumes "tg \<in> account_ids d"
  shows "(\<exists>e. create_user mentions now shard draws tg name uname referrer d = Inl e) \<and>
    (mentions PublicIdTaken \<and> mentions TgIdTaken \<longrightarrow>
     create_user mentions now shard draws tg name uname referrer d = Inl RuntimeError)"
proof -
  have all: "create_attempts m mk tg ps d = Inl RuntimeError"
    if "m PublicIdTaken \<and> m TgIdTaken" for m mk ps
    using that assms
    by (induction ps) (auto simp: insert_violation_def account_ids_def split: option.splits)
  have "\<exists>e. create_user mentions now shard draws tg name uname referrer d = Inl e"
    using create_attempts_taken [OF assms] by (simp add: create_user_def Let_def split: sum.splits)
      (metis Inl_Inr_False)
  then show ?thesis by (simp add: create_user_def Let_def all)
qed

lemma create_user_duplicate_id_witness:
  "create_user (\<lambda>_. True) 9 0 [''user_xxxxxx'', ''user_yyyyyy''] 1 ''A'' None None demo_db
     = Inl RuntimeError"
  using create_user_duplicate_id [of 1 demo_db "\<lambda>_. True" 9 0 "[''user_xxxxxx'', ''user_yyyyyy'']"
      "''A''" None None] by simp


section \<open>Quota and XP\<close>

text \<open>\<open>consume_vip_quota_or_coin\<close> for a positive cost on an existing user: an active VIP
  pays nothing, otherwise the quota pays, otherwise the balance pays and the charge is
  logged, otherwise nothing changes and the answer is no; exactly one of these happens, and
  no balance or quota becomes negative.\<close>

theorem consume_priority:
  assumes "get_user d tg = Some u" and "0 < cost"
    and "consume_vip_quota_or_coin now tg cost descr ref d = Inr (d', ok)"
  defines "active \<equiv> (u_is_vip u \<and> (\<forall>e. u_vip_expires_at u = Some e \<longrightarrow> now < instant e))"
  shows "if active then ok \<and> d' = d
     else if cost \<le> u_vip_quota u then ok \<and> coin_txs d' = coin_txs d \<and>
       get_user d' tg = Some (u\<lparr>u_vip_quota := u_vip_quota u - cost\<rparr>)
     else if cost \<le> u_coin_balance u then ok \<and> get_user d' tg = Some (spend cost u) \<and>
       logged_coins d' tg = logged_coins d tg - cost
     else \<not> ok \<and> d' = d"
proof -
  obtain a where a: "vip_flag_active (Naive now) u = Inr a"
    using assms(1-3) by (auto simp: consume_vip_quota_or_coin_def split: sum.splits)
  have act: "a = active"
    using a by (auto simp: vip_flag_active_def active_def dest!: dt_gt_Inr
        split: if_splits option.splits)
  have lg: "logged_coins (upd_user tg f d) tg = logged_coins d tg" for f
    by (rule logged_coins_cong) simp
  show ?thesis
    using assms(1-3) a
    by (auto simp: consume_vip_quota_or_coin_def act get_upd_user lg split: if_splits)
qed

lemma consume_priority_witness:
  "\<exists>d'. consume_vip_quota_or_coin 9 1 2 TxMatchCost None demo_db = Inr (d', True) \<and>
     get_user d' 1 = Some (spend 2 alice)"
proof -
  obtain d' where c: "consume_vip_quota_or_coin 9 1 2 TxMatchCost None demo_db = Inr (d', True)"
    by (simp add: consume_vip_quota_or_coin_def vip_flag_active_def)
  have g: "get_user demo_db 1 = Some alice" by simp
  from consume_priority [OF g _ c] c show ?thesis by auto
qed

lemma level_up_invariant:
  assumes "level_up l x b v = (l', x', b', v')" and "1 \<le> l"
  shows "l \<le> l' \<and> b' - b = l' - l \<and> 50 * (l' * (l' - 1)) + x' = 50 * (l * (l - 1)) + x \<and>
    x' < 100 * l' \<and> v' = (v \<or> l < l') \<and> (0 \<le> x \<longrightarrow> 0 \<le> x')"
  using assms
proof (induction l x b v rule: level_up.induct)
  case (1 l x b v)
  show ?case
  proof (cases "x \<ge> l * 100")
    case True
    with 1(2) have "level_up (l + 1) (x - l * 100) (b + 1) True = (l', x', b', v')"
      by (simp add: level_up.simps [of l x b v])
    from 1(1) [OF True this] 1(3) True show ?thesis by (auto simp: algebra_simps)
  next
    case False
    with 1(2) show ?thesis by (simp add: level_up.simps [of l x b v])
  qed
qed

text \<open>The level-up loop ends, and it neither loses nor invents XP: counting every level
  passed at its price of a hundred XP per level, the total after is the total before plus the
  amount; what remains is below the price of the next level; each level passed gives exactly
  one lootbox, and the answer says whether any was passed.\<close>

theorem add_xp_conserves:
  assumes "get_user d tg = Some u" and "add_xp_to_user tg amount d = (d', up)"
  defines "l \<equiv> max 1 (u_level u)"
  shows "\<exists>u'. get_user d' tg = Some u' \<and>
    50 * (u_level u' * (u_level u' - 1)) + u_xp_points u' =
      50 * (l * (l - 1)) + u_xp_points u + amount \<and>
    u_xp_points u' < 100 * u_level u' \<and> l \<le> u_level u' \<and>
    u_lootbox_count u' = u_lootbox_count u + (u_level u' - l) \<and> up = (l < u_level u')"
proof -
  have l: "l = (if u_level u < 1 then 1 else u_level u)" by (simp add: l_def)
  obtain l' x' b' v' where r: "level_up l (u_xp_points u + amount) (u_lootbox_count u) False
      = (l', x', b', v')" by (metis prod_cases4)
  have d': "d' = upd_user tg (\<lambda>v. v\<lparr>u_level := l', u_xp_points := x', u_lootbox_count := b'\<rparr>) d"
    and up: "up = v'"
    using assms(1,2) r by (simp_all add: add_xp_to_user_def flip: l)
  have "1 \<le> l" by (simp add: l_def)
  from level_up_invariant [OF r this] show ?thesis
    using assms(1) up by (simp add: d' get_upd_user)
qed

lemma add_xp_conserves_witness:
  "\<exists>u'. get_user (fst (add_xp_to_user 1 350 demo_db)) 1 = Some u' \<and> u_level u' = 3 \<and>
     u_xp_points u' = 50 \<and> u_lootbox_count u' = 2"
proof -
  have g: "get_user demo_db 1 = Some alice" by simp
  obtain d' up where a: "add_xp_to_user 1 350 demo_db = (d', up)" by fastforce
  have "level_up 1 350 0 False = (3, 50, 2, True)" by (simp add: level_up.simps)
  with a add_xp_conserves [OF g a] show ?thesis
    by (auto simp: add_xp_to_user_def get_upd_user)
qed

section \<open>Registration\<close>

lemma fill_profile_sel [simp]:
  "u_tg_id (fill_profile rg u) = u_tg_id u"
  "u_coin_balance (fill_profile rg u) = u_coin_balance u"
  "u_referrer_id (fill_profile rg u) = u_referrer_id u"
  "u_completed_registration (fill_profile rg u)"
  by (simp_all add: fill_profile_def Let_def)

lemma fill_profile_earn: "fill_profile rg (earn n u) = earn n (fill_profile rg u)"
  by (simp add: fill_profile_def earn_def Let_def)

definition referral_due :: "int \<Rightarrow> user \<Rightarrow> db \<Rightarrow> int option" where
  "referral_due tg u d = (case u_referrer_id u of
     None \<Rightarrow> None
   | Some rid \<Rightarrow> if rid \<noteq> 0 \<and> \<not> has_deleted_account tg d \<and> get_user d rid \<noteq> None
                 then Some rid else None)"

text \<open>The database a registration leaves, written as row updates and log entries.\<close>

lemma registration_result:
  fixes fl :: "rat \<Rightarrow> rat" and event :: "rat option"
  assumes "users_unique d" and "get_user d tg = Some u" and "\<not> u_completed_registration u"
    and "u_referrer_id u \<noteq> Some tg"
  defines "n \<equiv> event_amount fl event False 5" and "t \<equiv> event_text event False"
  shows "complete_user_registration now fl event tg rg d =
    (case referral_due tg u d of
       None \<Rightarrow> (add_coin_tx now tg n (t TxRegistered) None ''generic''
                 (upd_user tg (\<lambda>v. fill_profile rg (earn n v)) d), True, None)
     | Some rid \<Rightarrow>
        (add_coin_tx now tg n (t TxInvitedBonus) None ''generic''
          (add_coin_tx now rid n (t (TxInviteReward tg)) None ''generic''
            (add_coin_tx now tg n (t TxRegistered) None ''generic''
              (upd_user tg (\<lambda>v. fill_profile rg (earn n (earn n v)))
                (upd_user rid (earn n) d)))), True, Some rid))"
proof -
  let ?d1 = "add_coin_tx now tg n (t TxRegistered) None ''generic'' (upd_user tg (earn n) d)"
  let ?u2 = "fill_profile rg (earn n u)"
  have tg: "u_tg_id u = tg" using assms(2) by (rule get_user_tg)
  have p1: "process_coin_transaction now fl event (fill_profile rg u) 5 TxRegistered False None d
      = (?d1, ?u2, True)"
    by (simp add: process_credit tg n_def t_def fill_profile_earn)
  have del: "has_deleted_account tg ?d1 = has_deleted_account tg d"
    by (simp add: has_deleted_account_def add_coin_tx_def upd_user_def)
  have u1: "users_unique ?d1"
    using assms(1) by (simp add: users_unique_upd_user)
  have g1: "get_user ?d1 k = (if k = tg then Some (earn n u) else get_user d k)" for k
    using assms(2) by (simp add: get_upd_user)
  have flush1: "flush_user ?u2 ?d1 = add_coin_tx now tg n (t TxRegistered) None ''generic''
      (upd_user tg (\<lambda>v. fill_profile rg (earn n v)) d)"
    using flush_user_eq [OF u1, of tg "earn n u" "fill_profile rg"] g1 tg
    by (simp add: upd_user_add_coin_tx upd_user_upd_user)
  show ?thesis
  proof (cases "referral_due tg u d")
    case None
    then show ?thesis
      using assms(2-4) tg
      by (auto simp: complete_user_registration_def p1 del flush1 referral_due_def g1
          session_get_def get_upd_user split: option.splits if_splits)
  next
    case (Some rid)
    then obtain r where due: "u_referrer_id u = Some rid" "rid \<noteq> 0" "rid \<noteq> tg"
        "\<not> has_deleted_account tg d" "get_user d rid = Some r"
      using assms(4) by (auto simp: referral_due_def split: option.splits if_splits)
    have rid: "u_tg_id r = rid" using due(5) by (rule get_user_tg)
    let ?d2 = "add_coin_tx now rid n (t (TxInviteReward tg)) None ''generic''
        (upd_user rid (earn n) ?d1)"
    let ?d3 = "add_coin_tx now tg n (t TxInvitedBonus) None ''generic''
        (upd_user tg (earn n) ?d2)"
    let ?u4 = "fill_profile rg (earn n (earn n u))"
    have p2: "process_coin_transaction now fl event r 5 (TxInviteReward tg) False None ?d1
        = (?d2, earn n r, True)"
      by (simp add: process_credit rid n_def t_def)
    have p3: "process_coin_transaction now fl event ?u2 5 TxInvitedBonus False None ?d2
        = (?d3, ?u4, True)"
      by (simp add: process_credit tg n_def t_def fill_profile_earn)
    have u3: "users_unique ?d3"
      using assms(1) by (simp add: users_unique_upd_user)
    have g3: "get_user ?d3 rid = Some (earn n r)" "get_user ?d3 tg = Some (earn n (earn n u))"
      using assms(2) due(3,5) by (simp_all add: get_upd_user)
    have f3: "flush_user (earn n r) ?d3 = ?d3"
      using flush_user_in_step [OF u3, of "earn n r"] g3(1) rid by simp
    have f4: "flush_user ?u4 ?d3 = upd_user tg (fill_profile rg) ?d3"
      using flush_user_eq [OF u3 g3(2), of "fill_profile rg"] tg by simp
    have "complete_user_registration now fl event tg rg d
        = (flush_user ?u4 (flush_user (earn n r) ?d3), True, Some rid)"
      using assms(2,3) due tg rid
      by (simp add: complete_user_registration_def p1 del session_get_def get_upd_user p2 p3)
    also have "flush_user ?u4 (flush_user (earn n r) ?d3) = upd_user tg (fill_profile rg) ?d3"
      by (simp only: f3 f4)
    finally show ?thesis
      using due(3)
      by (simp add: Some upd_user_add_coin_tx upd_user_upd_user upd_user_commute [of tg rid])
  qed
qed

text \<open>C32: completing a registration pays the user the registration reward; if the user was
  invited by an existing account and never deleted an account before, the referrer and the
  user are each paid once more; nobody else's balance moves, every payment is logged, and a
  second call changes nothing, so no reward is paid twice.\<close>

theorem registration_rewards_once:
  fixes fl :: "rat \<Rightarrow> rat" and event :: "rat option"
  assumes "users_unique d" and "get_user d tg = Some u" and "\<not> u_completed_registration u"
    and "u_referrer_id u \<noteq> Some tg"
    and "complete_user_registration now fl event tg rg d = (d', ok, referrer)"
  defines "n \<equiv> event_amount fl event False 5"
  defines "paid \<equiv> (\<lambda>k. (if k = tg then n else 0) +
     (case referral_due tg u d of None \<Rightarrow> 0
      | Some rid \<Rightarrow> (if k = tg then n else 0) + (if k = rid then n else 0)))"
  shows "ok \<and> referrer = referral_due tg u d \<and>
    coin_balance d' k = coin_balance d k + paid k \<and>
    logged_coins d' k = logged_coins d k + paid k \<and>
    complete_user_registration now' fl' event' tg rg' d' = (d', False, None)"
proof -
  have lg: "logged_coins (upd_user a f s) j = logged_coins s j" for a f s j
    by (rule logged_coins_cong) simp
  have due: "referral_due tg u d = Some rid \<Longrightarrow> rid \<noteq> tg \<and> get_user d rid \<noteq> None" for rid
    using assms(4) by (auto simp: referral_due_def split: option.splits if_splits)
  note res = registration_result [OF assms(1-4), of now fl event rg] assms(5)
  have d': "d' = fst (complete_user_registration now fl event tg rg d)"
    and o: "ok" and r: "referrer = referral_due tg u d"
    using res by (auto split: option.splits)
  have bal: "coin_balance d' k = coin_balance d k + paid k"
    using registration_result [OF assms(1-4), of now fl event rg] assms(2) due
    by (auto simp: d' paid_def n_def coin_balance_def get_upd_user split: option.splits)
  have log: "logged_coins d' k = logged_coins d k + paid k"
    using registration_result [OF assms(1-4), of now fl event rg]
    by (auto simp: d' paid_def n_def lg split: option.splits)
  have "\<exists>u'. get_user d' tg = Some u' \<and> u_completed_registration u'"
    using registration_result [OF assms(1-4), of now fl event rg] assms(2) due
    by (auto simp: d' get_upd_user split: option.splits)
  then show ?thesis
    using o r bal log by (auto simp: complete_user_registration_def)
qed

definition carol :: user where
  "carol = alice\<lparr>u_referrer_id := Some 2\<rparr>"

lemma registration_rewards_once_witness:
  "let d = demo_db\<lparr>users := \<lparr>rows = [carol, bob], next_id = 3\<rparr>\<rparr>;
       rg = \<lparr>rg_gender = ''male'', rg_age = 20, rg_province = ''p'', rg_city = ''c'',
             rg_first_name = None, rg_tags = None, rg_photo = None\<rparr>;
       d' = fst (complete_user_registration 9 id None 1 rg d)
   in coin_balance d' 1 = 13 \<and> coin_balance d' 2 = 8"
proof -
  let ?d = "demo_db\<lparr>users := \<lparr>rows = [carol, bob], next_id = 3\<rparr>\<rparr>"
  let ?rg = "\<lparr>rg_gender = ''male'', rg_age = 20, rg_province = ''p'', rg_city = ''c'',
             rg_first_name = None, rg_tags = None, rg_photo = None\<rparr>"
  have c: "u_tg_id carol = 1" "\<not> u_completed_registration carol" "u_coin_balance carol = 3"
    "u_referrer_id carol = Some 2"
    by (simp_all add: carol_def)
  have uq: "users_unique ?d" by (simp add: users_unique_def c)
  have gt: "get_user ?d k = (if k = 1 then Some carol else if k = 2 then Some bob else None)" for k
    by (simp add: get_user_def by_key_def c)
  have g1: "get_user ?d 1 = Some carol" by (simp add: gt)
  have "\<not> has_deleted_account 1 ?d"
    by (simp add: has_deleted_account_def demo_db_def empty_db_def empty_tbl_def by_key_def)
  then have due: "referral_due 1 carol ?d = Some 2"
    by (simp add: referral_due_def c gt)
  obtain d' ok r where e: "complete_user_registration 9 id None 1 ?rg ?d = (d', ok, r)"
    by (metis prod_cases3)
  have "u_referrer_id carol \<noteq> Some 1" by (simp add: c)
  from registration_rewards_once [OF uq g1 c(2) this e, of 1]
    registration_rewards_once [OF uq g1 c(2) this e, of 2] e
  show ?thesis
    by (simp add: due event_amount_def coin_balance_def gt c Let_def)
qed

end
