(* ===== verification/Social.thy ===== *)
theory Social
  imports Matches Accounts
begin

text \<open>
  The social tables of \<open>database/queries/crud.py\<close>: likes, friends, blocks, comments, tags,
  messages, force-join channels and reports.  \<open>INSERT ... ON DUPLICATE KEY UPDATE\<close> is an
  update of the row with the unique key, or an insert.  Ordering by a timestamp keeps the
  insertion order of equal values.
\<close>

section \<open>Likes\<close>

definition like_key :: "user_like \<Rightarrow> int \<times> int" where
  "like_key l = (ul_liker_id l, ul_liked_id l)"

definition new_like :: "int \<Rightarrow> int \<Rightarrow> int \<Rightarrow> bool \<Rightarrow> int \<Rightarrow> user_like" where
  "new_like now liker liked is_pass i = \<lparr>ul_id = i, ul_liker_id = liker, ul_liked_id = liked,
     ul_is_pass = is_pass, ul_created_at = Aware now\<rparr>"

text \<open>A plain insert: an existing pair violates \<open>uq_liker_liked\<close>.\<close>

definition create_user_like :: "int \<Rightarrow> int \<Rightarrow> int \<Rightarrow> bool \<Rightarrow> db \<Rightarrow> db option" where
  "create_user_like now liker liked is_pass d =
     (if by_key like_key (liker, liked) (likes d) \<noteq> None then None
      else Some (d\<lparr>likes := insert_row (new_like now liker liked is_pass) (likes d)\<rparr>))"

definition add_likes_count :: "int \<Rightarrow> int \<Rightarrow> db \<Rightarrow> db" where
  "add_likes_count tg n d = upd_user tg (\<lambda>u. u\<lparr>u_likes_count := u_likes_count u + n\<rparr>) d"

definition save_like :: "int \<Rightarrow> int \<Rightarrow> int \<Rightarrow> bool \<Rightarrow> db \<Rightarrow> db" where
  "save_like now liker liked is_pass d =
     (let prior = by_key like_key (liker, liked) (likes d);
          prior_was_like = (case prior of None \<Rightarrow> False | Some l \<Rightarrow> \<not> ul_is_pass l);
          d1 = (case prior of
             None \<Rightarrow> d\<lparr>likes := insert_row (new_like now liker liked is_pass) (likes d)\<rparr>
           | Some _ \<Rightarrow> d\<lparr>likes := upd_where (\<lambda>l. like_key l = (liker, liked))
                           (\<lambda>l. l\<lparr>ul_is_pass := is_pass\<rparr>) (likes d)\<rparr>);
          new_is_like = (\<not> is_pass)
      in if new_is_like \<and> \<not> prior_was_like then add_likes_count liked 1 d1
         else if \<not> new_is_like \<and> prior_was_like then add_likes_count liked (- 1) d1
         else d1)"

definition check_mutual_like :: "int \<Rightarrow> int \<Rightarrow> db \<Rightarrow> bool" where
  "check_mutual_like a b d = (rowcount (\<lambda>l.
     (ul_liker_id l = a \<and> ul_liked_id l = b \<and> \<not> ul_is_pass l) \<or>
     (ul_liker_id l = b \<and> ul_liked_id l = a \<and> \<not> ul_is_pass l)) (likes d) = 2)"

definition get_received_like_count :: "int \<Rightarrow> db \<Rightarrow> nat" where
  "get_received_like_count tg d =
     rowcount (\<lambda>l. ul_liked_id l = tg \<and> \<not> ul_is_pass l) (likes d)"

definition get_users_who_liked_me :: "int \<Rightarrow> nat \<Rightarrow> db \<Rightarrow> user list" where
  "get_users_who_liked_me tg limit d =
     (let blocked_by_me = bl_blocked_id ` set (sel_where (\<lambda>b. bl_blocker_id b = tg) (blocks d));
          blocked_me = bl_blocker_id ` set (sel_where (\<lambda>b. bl_blocked_id b = tg) (blocks d))
      in map snd (take limit (sort_key (\<lambda>(l, u). - instant (ul_created_at l))
           [(l, u). l \<leftarrow> rows (likes d), u \<leftarrow> rows (users d),
              ul_liker_id l = u_tg_id u, ul_liked_id l = tg, \<not> ul_is_pass l, \<not> u_is_banned u,
              u_tg_id u \<notin> blocked_by_me, u_tg_id u \<notin> blocked_me])))"

section \<open>Friends and blocks\<close>

definition friend_key :: "friend_list \<Rightarrow> int \<times> int" where
  "friend_key f = (fl_user_id f, fl_friend_id f)"

text \<open>
  A duplicate leaves the row as it is; the count the driver then reports is 1 when it asks for
  found rows and 0 when it asks for changed ones.
\<close>

definition add_friend :: "bool \<Rightarrow> int \<Rightarrow> int \<Rightarrow> int \<Rightarrow> db \<Rightarrow> db \<times> bool" where
  "add_friend found_rows now uid fid d =
     (case by_key friend_key (uid, fid) (friends d) of
        Some _ \<Rightarrow> (d, found_rows)
      | None \<Rightarrow> (d\<lparr>friends := insert_row (\<lambda>i. \<lparr>fl_id = i, fl_user_id = uid, fl_friend_id = fid,
                   fl_created_at = Aware now\<rparr>) (friends d)\<rparr>, True))"

definition remove_friend :: "int \<Rightarrow> int \<Rightarrow> db \<Rightarrow> db \<times> bool" where
  "remove_friend uid fid d =
     (d\<lparr>friends := del_where (\<lambda>f. friend_key f = (uid, fid)) (friends d)\<rparr>,
      rowcount (\<lambda>f. friend_key f = (uid, fid)) (friends d) > 0)"

definition is_friend :: "int \<Rightarrow> int \<Rightarrow> db \<Rightarrow> bool" where
  "is_friend uid fid d = (by_key friend_key (uid, fid) (friends d) \<noteq> None)"

definition get_user_friends :: "int \<Rightarrow> db \<Rightarrow> user list" where
  "get_user_friends tg d = [u. f \<leftarrow> rows (friends d), u \<leftarrow> rows (users d),
     fl_friend_id f = u_tg_id u, fl_user_id f = tg]"

definition get_friends :: "int \<Rightarrow> db \<Rightarrow> user list" where
  "get_friends tg d = [u. f \<leftarrow> rows (friends d), u \<leftarrow> rows (users d),
     fl_friend_id f = u_tg_id u, fl_user_id f = tg]"

definition is_blocked :: "int \<Rightarrow> int \<Rightarrow> db \<Rightarrow> bool" where
  "is_blocked blocker blocked d =
     (first_where (\<lambda>b. bl_blocker_id b = blocker \<and> bl_blocked_id b = blocked) (blocks d) \<noteq> None)"

definition get_blocked_users :: "int \<Rightarrow> nat \<Rightarrow> nat \<Rightarrow> db \<Rightarrow> user list \<times> nat" where
  "get_blocked_users tg limit offset d =
     (map snd (take limit (drop offset (sort_key (\<lambda>(b, u). - bl_id b)
        [(b, u). b \<leftarrow> rows (blocks d), u \<leftarrow> rows (users d),
           bl_blocked_id b = u_tg_id u, bl_blocker_id b = tg]))),
      rowcount (\<lambda>b. bl_blocker_id b = tg) (blocks d))"

section \<open>Comments\<close>

definition comment_key :: "profile_comment \<Rightarrow> int \<times> int" where
  "comment_key c = (pc_author_tg_id c, pc_target_tg_id c)"

definition upsert_profile_comment :: "int \<Rightarrow> int \<Rightarrow> int \<Rightarrow> string \<Rightarrow> db \<Rightarrow> db" where
  "upsert_profile_comment now author target txt d = d\<lparr>comments :=
     (case by_key comment_key (author, target) (comments d) of
        None \<Rightarrow> insert_row (\<lambda>i. \<lparr>pc_id = i, pc_author_tg_id = author, pc_target_tg_id = target,
                  pc_text = txt, pc_created_at = Aware now, pc_updated_at = Aware now\<rparr>) (comments d)
      | Some _ \<Rightarrow> upd_where (\<lambda>c. comment_key c = (author, target))
                    (\<lambda>c. c\<lparr>pc_text := txt, pc_updated_at := Aware now\<rparr>) (comments d))\<rparr>"

definition get_profile_comments :: "nat \<Rightarrow> int \<Rightarrow> nat \<Rightarrow> db \<Rightarrow> profile_comment list \<times> nat" where
  "get_profile_comments per_page target page d =
     (take per_page (drop (page * per_page) (sort_key (\<lambda>c. - instant (pc_created_at c))
        (sel_where (\<lambda>c. pc_target_tg_id c = target) (comments d)))),
      rowcount (\<lambda>c. pc_target_tg_id c = target) (comments d))"

definition get_my_comment_on_profile :: "int \<Rightarrow> int \<Rightarrow> db \<Rightarrow> profile_comment option" where
  "get_my_comment_on_profile author target d = by_key comment_key (author, target) (comments d)"

definition delete_profile_comment :: "int \<Rightarrow> int \<Rightarrow> db \<Rightarrow> db \<times> bool" where
  "delete_profile_comment cid requester d =
     (case by_key pc_id cid (comments d) of
        None \<Rightarrow> (d, False)
      | Some c \<Rightarrow>
          if requester \<notin> {pc_target_tg_id c, pc_author_tg_id c} then (d, False)
          else (d\<lparr>comments := del_where (\<lambda>c. pc_id c = cid) (comments d)\<rparr>, True))"

section \<open>Tags\<close>

definition get_user_tags :: "int \<Rightarrow> db \<Rightarrow> string list" where
  "get_user_tags tg d = map ut_tag_code (sel_where (\<lambda>t. ut_user_tg_id t = tg) (user_tags d))"

datatype tags_reply = TooManyTags nat | InvalidTags "string set" | TagsSaved

text \<open>Repeated codes violate \<open>uq_user_tag\<close> when the new rows are flushed (\<open>None\<close>).\<close>

definition insert_tags :: "int \<Rightarrow> int \<Rightarrow> string list \<Rightarrow> user_tag tbl \<Rightarrow> user_tag tbl" where
  "insert_tags now tg codes t = fold (\<lambda>c. insert_row (\<lambda>i. \<lparr>ut_id = i, ut_user_tg_id = tg,
     ut_tag_code = c, ut_assigned_at = Aware now\<rparr>)) codes t"

definition set_user_tags ::
  "int \<Rightarrow> int \<Rightarrow> string list \<Rightarrow> nat \<Rightarrow> db \<Rightarrow> (db \<times> bool \<times> tags_reply) option" where
  "set_user_tags now tg tag_codes max_tags d =
     (if length tag_codes > max_tags then Some (d, False, TooManyTags max_tags)
      else
        let valid_codes = tc_code ` set (sel_where (\<lambda>t. tc_code t \<in> set tag_codes) (tag_catalogs d));
            invalid = set tag_codes - valid_codes
        in if invalid \<noteq> {} then Some (d, False, InvalidTags invalid)
           else if \<not> distinct tag_codes then None
           else Some (d\<lparr>user_tags := insert_tags now tg tag_codes
                        (del_where (\<lambda>t. ut_user_tg_id t = tg) (user_tags d))\<rparr>, True, TagsSaved))"

section \<open>Messages\<close>

definition get_user_unread_dm_count :: "int \<Rightarrow> db \<Rightarrow> nat" where
  "get_user_unread_dm_count tg d =
     rowcount (\<lambda>m. dm_receiver_tg_id m = tg \<and> \<not> dm_is_read m) (direct_messages d)"

definition get_recent_direct_messages :: "int \<Rightarrow> nat \<Rightarrow> db \<Rightarrow> (direct_message \<times> user) list" where
  "get_recent_direct_messages tg limit d = take limit
     (sort_key (\<lambda>(m, u). - instant (dm_sent_at m))
       [(m, u). m \<leftarrow> rows (direct_messages d), u \<leftarrow> rows (users d),
          dm_sender_tg_id m = u_tg_id u, dm_receiver_tg_id m = tg])"

definition save_anonymous_message ::
  "int \<Rightarrow> int \<Rightarrow> int \<Rightarrow> string option \<Rightarrow> bool \<Rightarrow> string option \<Rightarrow> string option \<Rightarrow> db \<Rightarrow> db" where
  "save_anonymous_message now sender target txt is_media media_type file_id d =
     d\<lparr>anonymous_messages := insert_row (\<lambda>i. \<lparr>am_id = i, am_sender_tg_id = sender,
         am_target_tg_id = target, am_text = txt, am_is_media = is_media,
         am_media_type = media_type, am_file_id = file_id, am_is_read = False,
         am_created_at = Aware now\<rparr>) (anonymous_messages d)\<rparr>"

definition get_unread_anonymous_messages :: "int \<Rightarrow> db \<Rightarrow> anonymous_message list" where
  "get_unread_anonymous_messages tg d = take 50 (sort_key (\<lambda>m. - instant (am_created_at m))
     (sel_where (\<lambda>m. am_target_tg_id m = tg \<and> \<not> am_is_read m) (anonymous_messages d)))"

definition mark_anonymous_message_as_read :: "int \<Rightarrow> db \<Rightarrow> db" where
  "mark_anonymous_message_as_read mid d = d\<lparr>anonymous_messages :=
     upd_where (\<lambda>m. am_id m = mid) (\<lambda>m. m\<lparr>am_is_read := True\<rparr>) (anonymous_messages d)\<rparr>"

text \<open>The counts of the reminder sent after a date; \<open>None\<close> when none is sent.\<close>

definition notify_missed_messages :: "int \<Rightarrow> db \<Rightarrow> (nat \<times> nat) option" where
  "notify_missed_messages tg d =
     (let unread_dms = get_user_unread_dm_count tg d;
          unread_anons = length (get_unread_anonymous_messages tg d)
      in if unread_dms > 0 \<or> unread_anons > 0 then Some (unread_dms, unread_anons) else None)"

definition batch_update_users_last_active :: "(int \<times> pydt) list \<Rightarrow> db \<Rightarrow> db \<times> nat" where
  "batch_update_users_last_active updates d =
     (if updates = [] then (d, 0)
      else (d\<lparr>users := upd_where (\<lambda>u. u_tg_id u \<in> fst ` set updates)
              (\<lambda>u. u\<lparr>u_last_active := (case map_of updates (u_tg_id u) of
                       Some ts \<Rightarrow> ts | None \<Rightarrow> u_last_active u), u_is_online := True\<rparr>) (users d)\<rparr>,
            rowcount (\<lambda>u. u_tg_id u \<in> fst ` set updates) (users d)))"

section \<open>Force-join channels\<close>

record channel_info =
  ci_id :: int
  ci_channel_id :: int
  ci_channel_username :: "string option"
  ci_invite_link :: "string option"
  ci_is_active :: bool
  ci_sort_order :: int

text \<open>The Redis key \<open>cache:admin_channels\<close>: the list and when it expires.\<close>

type_synonym channel_cache = "(channel_info list \<times> int) option"

definition cache_get :: "int \<Rightarrow> channel_cache \<Rightarrow> channel_info list option" where
  "cache_get now c = (case c of None \<Rightarrow> None
     | Some (xs, expires) \<Rightarrow> if now < expires then Some xs else None)"

definition channel_info_of :: "admin_channel \<Rightarrow> channel_info" where
  "channel_info_of c = \<lparr>ci_id = ac_id c, ci_channel_id = ac_channel_id c,
     ci_channel_username = ac_channel_username c, ci_invite_link = ac_invite_link c,
     ci_is_active = ac_is_active c, ci_sort_order = ac_sort_order c\<rparr>"

definition get_active_admin_channels ::
  "int \<Rightarrow> int \<Rightarrow> db \<Rightarrow> channel_cache \<Rightarrow> channel_cache \<times> channel_info list" where
  "get_active_admin_channels now ttl d c =
     (case cache_get now c of
        Some cached \<Rightarrow> (c, cached)
      | None \<Rightarrow>
          let channels_data = map channel_info_of (take 5
                (sort_key ac_sort_order (sort_key ac_id (sel_where ac_is_active (admin_channels d)))))
          in (Some (channels_data, now + ttl), channels_data))"

datatype channel_reply = ChannelLimit | ChannelDuplicate | ChannelAdded

definition add_admin_channel ::
  "int \<Rightarrow> int \<Rightarrow> int \<Rightarrow> string option \<Rightarrow> string option \<Rightarrow> db \<times> channel_cache
     \<Rightarrow> (db \<times> channel_cache) \<times> bool \<times> channel_reply" where
  "add_admin_channel now ttl cid username link = (\<lambda>(d, c).
     let (c1, existing) = get_active_admin_channels now ttl d c
     in if length existing \<ge> 5 then ((d, c1), False, ChannelLimit)
        else if first_where (\<lambda>r. ac_channel_id r = cid) (admin_channels d) \<noteq> None
        then ((d, c1), False, ChannelDuplicate)
        else ((d\<lparr>admin_channels := insert_row (\<lambda>i. \<lparr>ac_id = i, ac_channel_id = cid,
                   ac_channel_username = username, ac_invite_link = link, ac_is_active = True,
                   ac_sort_order = 0, ac_created_at = Aware now\<rparr>) (admin_channels d)\<rparr>, c1),
              True, ChannelAdded))"

definition remove_admin_channel :: "int \<Rightarrow> db \<Rightarrow> db \<times> bool" where
  "remove_admin_channel cid d =
     (case first_where (\<lambda>r. ac_channel_id r = cid) (admin_channels d) of
        None \<Rightarrow> (d, False)
      | Some r \<Rightarrow> (d\<lparr>admin_channels := del_where (\<lambda>x. ac_id x = ac_id r) (admin_channels d)\<rparr>, True))"

section \<open>Reports\<close>

text \<open>
  \<open>notice_sent\<close>: the Redis flag and the message to the banned user went through; otherwise the
  exception skips the rest of the block, which ends the date.
\<close>

definition create_user_report ::
  "int \<Rightarrow> bool \<Rightarrow> int \<Rightarrow> int \<Rightarrow> string \<Rightarrow> int option \<Rightarrow> db \<Rightarrow> db" where
  "create_user_report now notice_sent reporter reported reason mid d =
     (let d1 = d\<lparr>reports := insert_row (\<lambda>i. \<lparr>ur_id = i, ur_reporter_id = reporter,
            ur_reported_id = reported, ur_reason = reason, ur_match_history_id = mid,
            ur_status = Pending, ur_admin_note = None, ur_resolved_at = None,
            ur_created_at = Aware now\<rparr>) (reports d)\<rparr>
      in case get_user d reported of
           None \<Rightarrow> d1
         | Some u \<Rightarrow>
             let count = u_report_count u + 1
             in if count = 5 then
                  let d2 = upd_user reported
                        (\<lambda>v. v\<lparr>u_report_count := count, u_is_banned := True\<rparr>) d1
                  in if notice_sent then fst (terminate_active_match now reported d2) else d2
                else upd_user reported (\<lambda>v. v\<lparr>u_report_count := count\<rparr>) d1)"

section \<open>Lemmas\<close>

text \<open>A pair is stored once, and every user's counter is the number of likes received.\<close>

definition likes_ok :: "db \<Rightarrow> bool" where
  "likes_ok d \<longleftrightarrow> distinct (map like_key (rows (likes d))) \<and>
     (\<forall>tg u. get_user d tg = Some u \<longrightarrow> u_likes_count u = int (get_received_like_count tg d))"

lemma rowcount_upd_key:
  assumes "distinct (map key xs)" and "find_key key k xs = Some r" and "\<And>x. key (f x) = key x"
  shows "int (length (filter P (upd_list (\<lambda>x. key x = k) f xs))) =
    int (length (filter P xs)) + (if P (f r) then 1 else 0) - (if P r then 1 else 0)"
  using assms
proof (induction xs)
  case Nil
  then show ?case by simp
next
  case (Cons x xs)
  show ?case
  proof (cases "key x = k")
    case True
    then have "upd_list (\<lambda>x. key x = k) f xs = xs"
      using Cons.prems(1) by (intro upd_list_none) (metis distinct_key_tail)
    with True Cons.prems show ?thesis by simp
  next
    case False
    with Cons show ?thesis by (auto simp del: upd_list_Cons simp: upd_list_Cons)
  qed
qed

lemma received_add_likes [simp]: "get_received_like_count k (add_likes_count tg n d) = get_received_like_count k d"
  "likes (add_likes_count tg n d) = likes d"
  by (simp_all add: get_received_like_count_def add_likes_count_def upd_user_def)

lemma get_user_add_likes: "get_user (add_likes_count tg n d) k =
    (if k = tg then map_option (\<lambda>u. u\<lparr>u_likes_count := u_likes_count u + n\<rparr>) (get_user d k)
     else get_user d k)"
  by (simp add: add_likes_count_def get_upd_user)

lemma like_key_new [simp]: "like_key (new_like now a b p i) = (a, b)"
  by (simp add: like_key_def new_like_def)

text \<open>The stored likes after saving one.\<close>

definition likes_after :: "int \<Rightarrow> int \<Rightarrow> int \<Rightarrow> bool \<Rightarrow> db \<Rightarrow> user_like tbl" where
  "likes_after now a b p d = (case by_key like_key (a, b) (likes d) of
     None \<Rightarrow> insert_row (new_like now a b p) (likes d)
   | Some _ \<Rightarrow> upd_where (\<lambda>l. like_key l = (a, b)) (\<lambda>l. l\<lparr>ul_is_pass := p\<rparr>) (likes d))"

definition was_like :: "int \<Rightarrow> int \<Rightarrow> db \<Rightarrow> bool" where
  "was_like a b d = (case by_key like_key (a, b) (likes d) of None \<Rightarrow> False | Some l \<Rightarrow> \<not> ul_is_pass l)"

lemma likes_save_like: "likes (save_like now a b p d) = likes_after now a b p d"
  by (simp add: save_like_def Let_def likes_after_def split: option.split)

lemma get_user_save_like:
  "get_user (save_like now a b p d) k =
    (if k = b then map_option (\<lambda>u. u\<lparr>u_likes_count := u_likes_count u +
       ((if p then 0 else 1) - (if was_like a b d then 1 else 0))\<rparr>) (get_user d k)
     else get_user d k)"
proof -
  have *: "get_user (d\<lparr>likes := t\<rparr>) j = get_user d j" for t j by (simp add: get_user_def)
  show ?thesis
    by (cases "by_key like_key (a, b) (likes d)"; cases p)
      (simp_all add: save_like_def Let_def was_like_def get_user_add_likes * option.map_ident)
qed

lemma received_after:
  assumes "distinct (map like_key (rows (likes d)))"
  shows "int (length (filter (\<lambda>l. ul_liked_id l = k \<and> \<not> ul_is_pass l) (rows (likes_after now a b p d)))) =
    int (length (filter (\<lambda>l. ul_liked_id l = k \<and> \<not> ul_is_pass l) (rows (likes d)))) +
    (if k = b then (if p then 0 else 1) - (if was_like a b d then 1 else 0) else 0)"
proof (cases "by_key like_key (a, b) (likes d)")
  case None
  then show ?thesis by (simp add: likes_after_def was_like_def new_like_def)
next
  case (Some l)
  then have "ul_liked_id l = b" by (auto dest: by_key_SomeD simp: like_key_def)
  with Some assms show ?thesis
    using rowcount_upd_key [of like_key "rows (likes d)" "(a, b)" l "\<lambda>l. l\<lparr>ul_is_pass := p\<rparr>"
        "\<lambda>l. ul_liked_id l = k \<and> \<not> ul_is_pass l"]
    by (auto simp: likes_after_def was_like_def by_key_def like_key_def)
qed

lemma distinct_after:
  assumes "distinct (map like_key (rows (likes d)))"
  shows "distinct (map like_key (rows (likes_after now a b p d)))"
proof (cases "by_key like_key (a, b) (likes d)")
  case None
  then show ?thesis
    using assms find_key_None_iff [of like_key "(a, b)" "rows (likes d)"]
    by (simp add: likes_after_def by_key_def)
next
  case (Some l)
  have "map like_key (upd_list P (\<lambda>l. l\<lparr>ul_is_pass := p\<rparr>) xs) = map like_key xs" for P xs
    by (rule upd_list_keys) (simp add: like_key_def)
  then show ?thesis using assms Some by (simp add: likes_after_def)
qed

section \<open>Properties\<close>

text \<open>Saving a like or a pass keeps every user's like counter equal to the number of likes
  they received, whatever the earlier answer of the same liker was, and stores the pair once.\<close>

theorem save_like_keeps_counter:
  assumes "likes_ok d"
  shows "likes_ok (save_like now a b p d) \<and>
    map_option ul_is_pass (by_key like_key (a, b) (likes (save_like now a b p d))) = Some p"
proof
  have dist: "distinct (map like_key (rows (likes d)))" using assms by (simp add: likes_ok_def)
  have "u_likes_count u = int (get_received_like_count k (save_like now a b p d))"
    if "get_user (save_like now a b p d) k = Some u" for k u
    using that assms received_after [OF dist, of k now a b p]
    by (auto simp: get_user_save_like get_received_like_count_def rowcount_def likes_save_like
        likes_ok_def split: if_splits)
  then show "likes_ok (save_like now a b p d)"
    using distinct_after [OF dist] by (simp add: likes_ok_def likes_save_like)
  show "map_option ul_is_pass (by_key like_key (a, b) (likes (save_like now a b p d))) = Some p"
  proof (cases "by_key like_key (a, b) (likes d)")
    case None
    then show ?thesis
      by (simp add: likes_save_like likes_after_def by_key_insert new_like_def like_key_def)
  next
    case (Some l)
    have "by_key like_key (a, b) (upd_where (\<lambda>l. like_key l = (a, b)) (\<lambda>l. l\<lparr>ul_is_pass := p\<rparr>) (likes d))
        = map_option (\<lambda>l. l\<lparr>ul_is_pass := p\<rparr>) (by_key like_key (a, b) (likes d))"
      by (subst by_key_upd) (simp_all add: like_key_def)
    then show ?thesis by (simp add: likes_save_like likes_after_def Some)
  qed
qed

lemma count_key:
  assumes "distinct (map key xs)"
  shows "length (filter (\<lambda>x. key x = k \<and> P x) xs) =
    (case find_key key k xs of None \<Rightarrow> 0 | Some r \<Rightarrow> if P r then 1 else 0)"
  using assms
proof (induction xs)
  case Nil
  then show ?case by simp
next
  case (Cons x xs)
  show ?case
  proof (cases "key x = k")
    case True
    then have "filter (\<lambda>x. key x = k \<and> P x) xs = []"
      using distinct_key_tail [OF Cons.prems] True by (auto simp: filter_empty_conv)
    with True show ?thesis by simp
  next
    case False
    with Cons show ?thesis by simp
  qed
qed

lemma length_filter_disj:
  "(\<And>x. \<not> (P x \<and> Q x)) \<Longrightarrow>
   length (filter (\<lambda>x. P x \<or> Q x) xs) = length (filter P xs) + length (filter Q xs)"
  by (induction xs) auto

text \<open>Two different users match on likes exactly when each one's stored answer to the other
  is a like; a pass in either direction, or a missing answer, is not a mutual like.\<close>

theorem check_mutual_like_iff:
  assumes "likes_ok d" and "a \<noteq> b"
  shows "check_mutual_like a b d = (was_like a b d \<and> was_like b a d)"
proof -
  have dist: "distinct (map like_key (rows (likes d)))" using assms(1) by (simp add: likes_ok_def)
  have one: "length (filter (\<lambda>l. ul_liker_id l = x \<and> ul_liked_id l = y \<and> \<not> ul_is_pass l) (rows (likes d)))
      = (if was_like x y d then 1 else 0)" for x y
    using count_key [OF dist, of "(x, y)" "\<lambda>l. \<not> ul_is_pass l"]
    by (simp add: like_key_def was_like_def by_key_def conj_assoc split: option.splits)
  have "check_mutual_like a b d \<longleftrightarrow>
      (if was_like a b d then 1 else 0) + (if was_like b a d then 1 else 0) = (2::nat)"
    unfolding check_mutual_like_def rowcount_def one [symmetric]
    by (subst length_filter_disj) (use assms(2) in auto)
  then show ?thesis by simp
qed

lemma report_frames [simp]:
  "get_active_match k (upd_user tg f d) = get_active_match k d"
  "get_active_match k (d\<lparr>reports := t\<rparr>) = get_active_match k d"
  "matches (upd_user tg f d) = matches d"
  "get_user (d\<lparr>reports := t\<rparr>) k = get_user d k"
  by (simp_all add: get_active_match_def upd_user_def get_user_def)

text \<open>A report counts against the reported user only, and bans them exactly when it is the
  fifth (a later report never re-bans, none lifts a ban).  The banned user's date is ended
  only if the ban notice went out: when it could not be delivered, the exception leaves the
  match of a banned user active.\<close>

theorem create_user_report_autoban:
  assumes "get_user d b = Some u" and "matches_ok d"
    and "d' = create_user_report now notice_sent a b reason mid d"
  shows "get_user d' b = Some (u\<lparr>u_report_count := u_report_count u + 1,
      u_is_banned := u_is_banned u \<or> u_report_count u = 4\<rparr>) \<and>
    (\<forall>k. k \<noteq> b \<longrightarrow> get_user d' k = get_user d k) \<and>
    get_active_match b d' =
      (if u_report_count u = 4 \<and> notice_sent then None else get_active_match b d)"
proof -
  have t: "get_user (fst (terminate_active_match now tg e)) k = get_user e k" for tg e k
    by (simp add: get_user_def)
  have five: "u_report_count u + 1 = 5 \<longleftrightarrow> u_report_count u = 4" by arith
  have ban: "u\<lparr>u_report_count := n, u_is_banned := u_is_banned u\<rparr> = u\<lparr>u_report_count := n\<rparr>" for n
    by simp
  show ?thesis
  proof (cases "u_report_count u = 4")
    case True
    have m: "matches_ok (upd_user b f (d\<lparr>reports := t\<rparr>))" for f t
      using assms(2) by (simp add: matches_ok_def)
    show ?thesis
      by (simp add: assms(1,3) create_user_report_def Let_def five True t get_upd_user
          terminate_clears [OF m])
  next
    case False
    then show ?thesis
      by (simp add: assms(1,3) create_user_report_def Let_def five get_upd_user)
  qed
qed

text \<open>Adding a channel counts the cached list, which nothing invalidates: while a cached
  list of fewer than five channels is fresh, every new channel is accepted, so the number of
  stored channels exceeds any bound although the limit is five.\<close>

theorem channel_limit_bypassed:
  assumes "cache_get now c = Some cached" and "length cached < 5" and "distinct ids"
    and "\<forall>i\<in>set ids. i \<notin> ac_channel_id ` set (rows (admin_channels d))"
  shows "length (rows (admin_channels (fst (fold
      (\<lambda>i s. fst (add_admin_channel now ttl i None None s)) ids (d, c)))))
    = length (rows (admin_channels d)) + length ids"
  using assms(3,4)
proof (induction ids arbitrary: d)
  case Nil
  then show ?case by simp
next
  case (Cons i ids)
  have new: "first_where (\<lambda>r. ac_channel_id r = i) (admin_channels d) = None"
    using Cons.prems(2) by (auto simp: first_where_def find_None_iff)
  define d1 where "d1 = d\<lparr>admin_channels := insert_row (\<lambda>k. \<lparr>ac_id = k, ac_channel_id = i,
      ac_channel_username = None, ac_invite_link = None, ac_is_active = True,
      ac_sort_order = 0, ac_created_at = Aware now\<rparr>) (admin_channels d)\<rparr>"
  have s: "fst (add_admin_channel now ttl i None None (d, c)) = (d1, c)"
    using assms(1,2) new
    by (simp add: add_admin_channel_def get_active_admin_channels_def d1_def)
  have "\<forall>j\<in>set ids. j \<notin> ac_channel_id ` set (rows (admin_channels d1))"
    using Cons.prems by (auto simp: d1_def)
  then show ?case using Cons.IH [of d1] Cons.prems(1) s by (simp add: d1_def)
qed

section \<open>Concrete instances\<close>

definition like_db :: db where
  "like_db = demo_db\<lparr>likes := \<lparr>rows = [new_like 0 1 2 True 1, new_like 0 2 1 False 2], next_id = 3\<rparr>,
     users := \<lparr>rows = [alice\<lparr>u_likes_count := 1\<rparr>, bob], next_id = 3\<rparr>\<rparr>"

lemma like_db_ok: "likes_ok like_db"
proof -
  have "get_user like_db k = (if k = 1 then Some (alice\<lparr>u_likes_count := 1\<rparr>)
      else if k = 2 then Some bob else None)" for k
    by (simp add: get_user_def by_key_def like_db_def)
  moreover have "u_likes_count bob = 0" by (simp add: bob_def new_user_def)
  moreover have "rows (likes like_db) = [new_like 0 1 2 True 1, new_like 0 2 1 False 2]"
    by (simp add: like_db_def)
  ultimately show ?thesis
    by (auto simp: likes_ok_def get_received_like_count_def rowcount_def new_like_def like_key_def)
qed

lemma save_like_keeps_counter_witness: "likes_ok (save_like 5 1 2 False like_db)"
  using save_like_keeps_counter [OF like_db_ok] by blast

lemma check_mutual_like_iff_witness:
  "\<not> check_mutual_like 1 2 like_db \<and> check_mutual_like 1 2 (save_like 5 1 2 False like_db)"
proof -
  have r: "rows (likes like_db) = [new_like 0 1 2 True 1, new_like 0 2 1 False 2]"
    by (simp add: like_db_def)
  have "\<not> check_mutual_like 1 2 like_db"
    using check_mutual_like_iff [OF like_db_ok, of 1 2]
    by (simp add: was_like_def by_key_def r like_key_def new_like_def)
  moreover have "check_mutual_like 1 2 (save_like 5 1 2 False like_db)"
    by (simp add: check_mutual_like_def rowcount_def likes_save_like likes_after_def by_key_def r
        like_key_def new_like_def)
  ultimately show ?thesis by blast
qed

lemma create_user_report_autoban_witness:
  "map_option u_is_banned (get_user (create_user_report 1 False 1 2 ''spam'' None demo_db) 2) = Some False"
proof -
  have "matches_ok demo_db" by (simp add: matches_ok_def demo_db_def empty_db_def empty_tbl_def)
  then show ?thesis
    using create_user_report_autoban [of demo_db 2 bob _ 1 False 1 "''spam''" None] by simp
qed

lemma channel_limit_bypassed_witness:
  "length (rows (admin_channels (fst (fold (\<lambda>i s. fst (add_admin_channel 0 300 i None None s))
     [11, 12, 13, 14, 15, 16, 17] (demo_db, Some ([], 300)))))) = 7"
proof -
  have "rows (admin_channels demo_db) = []" by (simp add: demo_db_def empty_db_def empty_tbl_def)
  then show ?thesis
    using channel_limit_bypassed [of 0 "Some ([], 300)" "[]" "[11, 12, 13, 14, 15, 16, 17]" demo_db 300]
    by (simp add: cache_get_def)
qed

end
