(* ===== verification/Transfers.thy ===== *)
theory Transfers
  imports Accounts
begin

text \<open>
  Coin transfers: \<open>transfer_coins\<close> and \<open>ensure_public_id_exists\<close> of
  \<open>database/queries/crud.py\<close>, and the interactive transfer of
  \<open>bot/handlers/transfer.py\<close> (\<open>_execute_atomic_transfer\<close> and the database part of
  \<open>confirm_transfer\<close>).  Replies are constructors, one per text of the source.
\<close>

datatype session_error = PendingRollback | MultipleResultsFound | NoResultFound

datatype transfer_reply =
    MustBePositive | SenderNotFound | ReceiverNotFound | Insufficient int | TransferFailed
  | TransferDone int | SelfTransfer | TooLarge | Blocked | NegativeBalance | WalletFull
  | SessionExpired | Unauthorized | SystemError

section \<open>Public ids\<close>

text \<open>
  A flush that violates \<open>uq_users_public_id\<close> leaves the session rolled back.  Whether it can
  be used again without a rollback is \<open>usable\<close>: when it cannot, the next flush raises an
  error that is not an \<open>IntegrityError\<close> and leaves the function.
\<close>

fun public_id_attempts :: "bool \<Rightarrow> int \<Rightarrow> string list \<Rightarrow> db \<Rightarrow> session_error + (db \<times> string)" where
  "public_id_attempts usable tg [] d = Inr (d, [])"
| "public_id_attempts usable tg (new_id # draws) d =
     (if \<exists>v\<in>set (rows (users d)). u_tg_id v \<noteq> tg \<and> u_public_id v = Some new_id
      then (if usable \<or> draws = [] then public_id_attempts usable tg draws d
            else Inl PendingRollback)
      else Inr (upd_user tg (\<lambda>u. u\<lparr>u_public_id := Some new_id\<rparr>) d, new_id))"

definition ensure_public_id_exists ::
  "bool \<Rightarrow> string list \<Rightarrow> int \<Rightarrow> db \<Rightarrow> session_error + (db \<times> string)" where
  "ensure_public_id_exists usable draws tg d =
     (case get_user d tg of
        None \<Rightarrow> Inr (d, [])
      | Some u \<Rightarrow>
          (case u_public_id u of
             Some pid \<Rightarrow> if pid \<noteq> [] then Inr (d, pid)
                         else public_id_attempts usable tg (take 5 draws) d
           | None \<Rightarrow> public_id_attempts usable tg (take 5 draws) d))"

definition ensure_if_missing ::
  "bool \<Rightarrow> string list \<Rightarrow> int \<Rightarrow> db \<Rightarrow> session_error + db" where
  "ensure_if_missing usable draws tg d =
     (case get_user d tg of
        None \<Rightarrow> Inr d
      | Some u \<Rightarrow> if truthy (u_public_id u) then Inr d
                  else map_sum id fst (ensure_public_id_exists usable draws tg d))"

definition shown_id :: "user \<Rightarrow> string" where
  "shown_id u = (case u_public_id u of None \<Rightarrow> ''None'' | Some p \<Rightarrow> p)"

section \<open>\<open>crud.transfer_coins\<close>\<close>

definition move_between ::
  "int \<Rightarrow> (rat \<Rightarrow> rat) \<Rightarrow> rat option \<Rightarrow> user \<Rightarrow> user \<Rightarrow> int \<Rightarrow> db \<Rightarrow> db \<times> bool \<times> transfer_reply" where
  "move_between now fl event sender receiver amount d =
     (let (d1, sender1, success) = process_coin_transaction now fl event sender (- amount)
             (TxTransferTo (shown_id receiver)) True None d
      in if \<not> success then (d1, False, TransferFailed)
         else let same = (u_tg_id receiver = u_tg_id sender);
                  receiver0 = (if same then sender1 else receiver);
                  (d2, receiver1, _) = process_coin_transaction now fl event receiver0 amount
                     (TxTransferFrom (shown_id sender)) True None d1
              in (flush_user receiver1 (if same then d2 else flush_user sender1 d2),
                  True, TransferDone amount))"

definition transfer_coins ::
  "int \<Rightarrow> (rat \<Rightarrow> rat) \<Rightarrow> rat option \<Rightarrow> bool \<Rightarrow> string list \<Rightarrow> string list \<Rightarrow> int \<Rightarrow> int \<Rightarrow> int
     \<Rightarrow> db \<Rightarrow> session_error + (db \<times> bool \<times> transfer_reply)" where
  "transfer_coins now fl event usable draws1 draws2 from_id to_id amount d =
     (if amount \<le> 0 then Inr (d, False, MustBePositive)
      else case get_user d from_id of
        None \<Rightarrow> Inr (d, False, SenderNotFound)
      | Some sender \<Rightarrow>
         (case get_user d to_id of
            None \<Rightarrow> Inr (d, False, ReceiverNotFound)
          | Some receiver \<Rightarrow>
              if u_coin_balance sender < amount
              then Inr (d, False, Insufficient (u_coin_balance sender))
              else (case ensure_if_missing usable draws1 from_id d of
                 Inl e \<Rightarrow> Inl e
               | Inr d1 \<Rightarrow>
                   (case ensure_if_missing usable draws2 to_id d1 of
                      Inl e \<Rightarrow> Inl e
                    | Inr d2 \<Rightarrow>
                        (case (get_user d2 from_id, get_user d2 to_id) of
                           (Some s, Some r) \<Rightarrow> Inr (move_between now fl event s r amount d2)
                         | _ \<Rightarrow> Inl NoResultFound)))))"

section \<open>The interactive transfer\<close>

definition db_bigint_max :: int where
  "db_bigint_max = 2 ^ 63 - 1"

definition block_between :: "int \<Rightarrow> int \<Rightarrow> block_list \<Rightarrow> bool" where
  "block_between a b r = ((bl_blocker_id r = a \<and> bl_blocked_id r = b) \<or>
                          (bl_blocker_id r = b \<and> bl_blocked_id r = a))"

text \<open>\<open>scalar_one_or_none\<close>: \<open>None\<close>, the row, or an exception when there are several.\<close>

fun scalar_one_or_none :: "'r list \<Rightarrow> session_error + 'r option" where
  "scalar_one_or_none [] = Inr None"
| "scalar_one_or_none [r] = Inr (Some r)"
| "scalar_one_or_none _ = Inl MultipleResultsFound"

definition execute_atomic_transfer ::
  "int \<Rightarrow> int \<Rightarrow> int \<Rightarrow> db \<Rightarrow> session_error + (db \<times> bool \<times> transfer_reply)" where
  "execute_atomic_transfer sender_id receiver_id amount d =
     (if sender_id = receiver_id then Inr (d, False, SelfTransfer)
      else if amount \<le> 0 then Inr (d, False, MustBePositive)
      else if amount > db_bigint_max then Inr (d, False, TooLarge)
      else case get_user d sender_id of
        None \<Rightarrow> Inr (d, False, SenderNotFound)
      | Some sender \<Rightarrow>
         (case get_user d receiver_id of
            None \<Rightarrow> Inr (d, False, ReceiverNotFound)
          | Some receiver \<Rightarrow>
             (case scalar_one_or_none (sel_where (block_between sender_id receiver_id) (blocks d)) of
                Inl e \<Rightarrow> Inl e
              | Inr (Some b) \<Rightarrow> Inr (d, False, Blocked)
              | Inr None \<Rightarrow>
                  if u_coin_balance sender < amount
                  then Inr (d, False, Insufficient (u_coin_balance sender))
                  else
                    let new_sender_balance = u_coin_balance sender - amount;
                        new_receiver_balance = u_coin_balance receiver + amount
                    in if new_sender_balance < 0 then Inr (d, False, NegativeBalance)
                       else if new_receiver_balance > db_bigint_max
                       then Inr (d, False, WalletFull)
                       else Inr (upd_user receiver_id
                                   (\<lambda>u. u\<lparr>u_coin_balance := new_receiver_balance\<rparr>)
                                   (upd_user sender_id
                                      (\<lambda>u. u\<lparr>u_coin_balance := new_sender_balance\<rparr>) d),
                                 True, TransferDone amount))))"

text \<open>
  \<open>confirm_transfer\<close>: the data of the FSM session (\<open>None\<close> or 0 is falsy), then the
  transfer, committed on success and rolled back otherwise or on any exception.
\<close>

definition falsy_int :: "int option \<Rightarrow> bool" where
  "falsy_int x = (x = None \<or> x = Some 0)"

definition confirm_transfer ::
  "int \<Rightarrow> int option \<Rightarrow> int option \<Rightarrow> int option \<Rightarrow> db \<Rightarrow> db \<times> transfer_reply" where
  "confirm_transfer caller target_id amount sender_tg_id d =
     (if falsy_int target_id \<or> falsy_int amount \<or> falsy_int sender_tg_id
      then (d, SessionExpired)
      else if the sender_tg_id \<noteq> caller then (d, Unauthorized)
      else case execute_atomic_transfer caller (the target_id) (the amount) d of
             Inl e \<Rightarrow> (d, SystemError)
           | Inr (d', success, reply) \<Rightarrow> if success then (d', reply) else (d, reply))"

section \<open>Properties of the interactive transfer\<close>

lemma execute_success:
  assumes "execute_atomic_transfer a b n d = Inr (d', ok, rep)" and ok
  shows "\<exists>ua ub. a \<noteq> b \<and> 0 < n \<and> get_user d a = Some ua \<and> get_user d b = Some ub \<and>
    sel_where (block_between a b) (blocks d) = [] \<and> n \<le> u_coin_balance ua \<and> rep = TransferDone n \<and>
    d' = upd_user b (\<lambda>u. u\<lparr>u_coin_balance := u_coin_balance ub + n\<rparr>)
           (upd_user a (\<lambda>u. u\<lparr>u_coin_balance := u_coin_balance ua - n\<rparr>) d)"
  using assms
  by (auto simp: execute_atomic_transfer_def Let_def split: if_splits option.splits sum.splits
      elim: scalar_one_or_none.elims)

lemma confirm_success:
  assumes "confirm_transfer c t n s d = (d', rep)" and "d' \<noteq> d \<or> rep = TransferDone m"
  shows "\<exists>b k ub ua. t = Some b \<and> n = Some k \<and> s = Some c \<and> rep = TransferDone k \<and>
    c \<noteq> b \<and> 0 < k \<and> get_user d c = Some ua \<and> get_user d b = Some ub \<and>
    sel_where (block_between c b) (blocks d) = [] \<and> k \<le> u_coin_balance ua \<and>
    d' = upd_user b (\<lambda>u. u\<lparr>u_coin_balance := u_coin_balance ub + k\<rparr>)
           (upd_user c (\<lambda>u. u\<lparr>u_coin_balance := u_coin_balance ua - k\<rparr>) d)"
proof -
  have nf: "\<not> falsy_int t" "\<not> falsy_int n" "\<not> falsy_int s" "the s = c"
    using assms by (auto simp: confirm_transfer_def split: if_splits)
  then obtain b k where tn: "t = Some b" "n = Some k" "s = Some c"
    by (cases t; cases n; cases s) (simp_all add: falsy_int_def)
  obtain ok where e: "execute_atomic_transfer c b k d = Inr (d', ok, rep)" and ok: ok
    using assms nf tn
    by (auto simp: confirm_transfer_def execute_atomic_transfer_def Let_def
        split: if_splits sum.splits option.splits)
  from execute_success [OF e ok] tn show ?thesis by blast
qed


text \<open>The two balances a successful transfer writes are the movements of the two accounts.\<close>

lemma transfer_balances:
  fixes n :: int
  assumes "a \<noteq> b" and "get_user d a = Some ua" and "get_user d b = Some ub"
  defines "d' \<equiv> upd_user b (\<lambda>u. u\<lparr>u_coin_balance := u_coin_balance ub + n\<rparr>)
           (upd_user a (\<lambda>u. u\<lparr>u_coin_balance := u_coin_balance ua - n\<rparr>) d)"
  shows "coin_balance d' k = coin_balance d k + (if k = b then n else 0) - (if k = a then n else 0)"
    and "account_ids d' = account_ids d" and "users_unique d' = users_unique d"
    and "coin_txs d' = coin_txs d"
  using assms by (simp_all add: coin_balance_def get_upd_user users_unique_upd_user)

lemma total_coins_transfer:
  assumes "account_ids d' = account_ids d" and "a \<in> account_ids d" and "b \<in> account_ids d"
    and "\<And>k. coin_balance d' k = coin_balance d k + (if k = b then n else 0) - (if k = a then n else 0)"
  shows "total_coins d' = total_coins d"
proof -
  have fin: "finite (account_ids d)" by (simp add: account_ids_def)
  have "total_coins d' = (\<Sum>k\<in>account_ids d. coin_balance d k) +
      (\<Sum>k\<in>account_ids d. if k = b then n else 0) - (\<Sum>k\<in>account_ids d. if k = a then n else 0)"
    unfolding total_coins_def assms(1) by (simp add: assms(4) sum.distrib sum_subtractf)
  also have "\<dots> = total_coins d"
    using fin assms(2,3) by (simp add: total_coins_def sum.delta)
  finally show ?thesis .
qed

text \<open>C7: \<open>confirm_transfer\<close> neither creates nor destroys coins and never overdraws: the sum of
  all balances is the same for every outcome, and balances that were not negative stay so.\<close>

theorem confirm_transfer_conserves:
  assumes "\<forall>k. 0 \<le> coin_balance d k"
    and "confirm_transfer caller target amount sender d = (d', reply)"
  shows "total_coins d' = total_coins d \<and> (\<forall>k. 0 \<le> coin_balance d' k)"
proof (cases "d' = d")
  case True
  with assms(1) show ?thesis by simp
next
  case False
  from confirm_success [OF assms(2) disjI1, OF this] obtain b k ua ub where
    f: "caller \<noteq> b" "get_user d caller = Some ua" "get_user d b = Some ub" "0 < k"
      "k \<le> u_coin_balance ua" and
    d': "d' = upd_user b (\<lambda>u. u\<lparr>u_coin_balance := u_coin_balance ub + k\<rparr>)
           (upd_user caller (\<lambda>u. u\<lparr>u_coin_balance := u_coin_balance ua - k\<rparr>) d)" by blast
  note b = transfer_balances [OF f(1-3), of k, folded d']
  have "total_coins d' = total_coins d"
    using f by (intro total_coins_transfer [OF b(2) _ _ b(1)]) (simp_all add: account_ids_iff)
  moreover have "0 \<le> coin_balance d' j" for j
    using assms(1) [rule_format, of j] f by (auto simp: b(1) coin_balance_Some)
  ultimately show ?thesis by blast
qed

lemma confirm_demo:
  "confirm_transfer 1 (Some 2) (Some 2) (Some 1) demo_db =
    (upd_user 2 (\<lambda>u. u\<lparr>u_coin_balance := 5\<rparr>) (upd_user 1 (\<lambda>u. u\<lparr>u_coin_balance := 1\<rparr>) demo_db),
     TransferDone 2)"
  by (simp add: confirm_transfer_def execute_atomic_transfer_def falsy_int_def db_bigint_max_def
      sel_where_def empty_tbl_def Let_def)

lemma confirm_transfer_conserves_witness:
  "total_coins (fst (confirm_transfer 1 (Some 2) (Some 2) (Some 1) demo_db)) = total_coins demo_db"
proof -
  have "\<forall>k. 0 \<le> coin_balance demo_db k" by simp
  from confirm_transfer_conserves [OF this confirm_demo] show ?thesis by (simp add: confirm_demo)
qed

text \<open>The interactive transfer moves coins without writing \<open>coin_transactions\<close>: after a
  transfer that succeeds from a database whose balances agree with the log, the balances of
  both parties disagree with it, by the amount transferred.\<close>

theorem confirm_transfer_unlogged:
  assumes "ledger_ok d" and "confirm_transfer caller target amount sender d = (d', TransferDone n)"
  shows "coin_txs d' = coin_txs d \<and> \<not> ledger_ok d' \<and>
    coin_balance d' caller = logged_coins d' caller - n \<and>
    coin_balance d' (the target) = logged_coins d' (the target) + n"
proof -
  from confirm_success [OF assms(2) disjI2, OF refl] obtain b ua ub where
    f: "caller \<noteq> b" "get_user d caller = Some ua" "get_user d b = Some ub" "0 < n"
      "target = Some b" and
    d': "d' = upd_user b (\<lambda>u. u\<lparr>u_coin_balance := u_coin_balance ub + n\<rparr>)
           (upd_user caller (\<lambda>u. u\<lparr>u_coin_balance := u_coin_balance ua - n\<rparr>) d)" by auto
  note b = transfer_balances [OF f(1-3), of n, folded d']
  have ids: "caller \<in> account_ids d" "b \<in> account_ids d"
    using f by (simp_all add: account_ids_iff)
  have lg: "logged_coins d' k = logged_coins d k" for k
    by (rule logged_coins_cong) (rule b(4))
  have "coin_balance d' caller = logged_coins d' caller - n"
    and "coin_balance d' b = logged_coins d' b + n"
    using assms(1) ids f(1) by (auto simp: b(1) lg ledger_ok_def)
  moreover from this(1) f(4) have "coin_balance d' caller \<noteq> logged_coins d' caller" by simp
  then have "\<not> ledger_ok d'" using ids(1) by (auto simp: ledger_ok_def b(2))
  ultimately show ?thesis using b(4) f(5) by simp
qed

lemma confirm_transfer_unlogged_witness:
  "\<not> ledger_ok (fst (confirm_transfer 1 (Some 2) (Some 2) (Some 1) demo_db))"
  using confirm_transfer_unlogged [OF demo_ledger confirm_demo] by (simp add: confirm_demo)

text \<open>The block check of the interactive transfer: with one block between the two users
  the sender is told so; when each has blocked the other, the query for a single row raises,
  and the sender gets the system error instead.  Either way nothing changes.\<close>

theorem confirm_transfer_blocked:
  assumes "caller \<noteq> b" and "0 < n" and "n \<le> db_bigint_max" and "b \<noteq> 0" and "caller \<noteq> 0"
    and "get_user d caller \<noteq> None" and "get_user d b \<noteq> None"
    and "length (sel_where (block_between caller b) (blocks d)) = m" and "0 < m"
  shows "confirm_transfer caller (Some b) (Some n) (Some caller) d =
    (d, if m = 1 then Blocked else SystemError)"
  using assms
  by (cases "sel_where (block_between caller b) (blocks d)" rule: scalar_one_or_none.cases)
    (auto simp: confirm_transfer_def execute_atomic_transfer_def falsy_int_def)

lemma confirm_transfer_blocked_witness:
  "let d = demo_db\<lparr>blocks := \<lparr>rows = [\<lparr>bl_id = 1, bl_blocker_id = 1, bl_blocked_id = 2, bl_created_at = Naive 0\<rparr>,
       \<lparr>bl_id = 2, bl_blocker_id = 2, bl_blocked_id = 1, bl_created_at = Naive 0\<rparr>], next_id = 3\<rparr>\<rparr>
   in confirm_transfer 1 (Some 2) (Some 2) (Some 1) d = (d, SystemError)"
proof -
  let ?d = "demo_db\<lparr>blocks := \<lparr>rows = [\<lparr>bl_id = 1, bl_blocker_id = 1, bl_blocked_id = 2, bl_created_at = Naive 0\<rparr>,
       \<lparr>bl_id = 2, bl_blocker_id = 2, bl_blocked_id = 1, bl_created_at = Naive 0\<rparr>], next_id = 3\<rparr>\<rparr>"
  have g: "get_user ?d k = get_user demo_db k" for k by (simp add: get_user_def)
  have "length (sel_where (block_between 1 2) (blocks ?d)) = 2"
    by (simp add: sel_where_def block_between_def)
  from confirm_transfer_blocked [of 1 2 2 ?d 2, OF _ _ _ _ _ _ _ this] show ?thesis
    by (simp add: g db_bigint_max_def Let_def)
qed

section \<open>Properties of \<open>transfer_coins\<close>\<close>

lemma public_id_attempts_frame:
  assumes "public_id_attempts usable tg draws d = Inr (d1, p)"
  shows "(\<forall>k. coin_balance d1 k = coin_balance d k) \<and> account_ids d1 = account_ids d \<and>
    users_unique d1 = users_unique d \<and> coin_txs d1 = coin_txs d"
  using assms
proof (induction usable tg draws d rule: public_id_attempts.induct)
  case (1 usable tg d)
  then show ?case by simp
next
  case (2 usable tg new_id draws d)
  show ?case
  proof (cases "\<exists>v\<in>set (rows (users d)). u_tg_id v \<noteq> tg \<and> u_public_id v = Some new_id")
    case True
    with 2 show ?thesis by (auto split: if_splits)
  next
    case False
    then have "public_id_attempts usable tg (new_id # draws) d
        = Inr (upd_user tg (\<lambda>u. u\<lparr>u_public_id := Some new_id\<rparr>) d, new_id)"
      by (simp only: public_id_attempts.simps if_False)
    with 2(2) have "d1 = upd_user tg (\<lambda>u. u\<lparr>u_public_id := Some new_id\<rparr>) d" by simp
    then show ?thesis
      by (simp add: coin_balance_def get_upd_user users_unique_upd_user split: option.split)
  qed
qed

lemma ensure_public_frame:
  assumes "ensure_public_id_exists usable draws tg d = Inr (d1, p)"
  shows "(\<forall>k. coin_balance d1 k = coin_balance d k) \<and> account_ids d1 = account_ids d \<and>
    users_unique d1 = users_unique d \<and> coin_txs d1 = coin_txs d"
proof -
  have "d1 = d \<or> public_id_attempts usable tg (take 5 draws) d = Inr (d1, p)"
    using assms by (simp add: ensure_public_id_exists_def split: option.splits if_splits)
  then show ?thesis using public_id_attempts_frame by fastforce
qed

lemma ensure_frame:
  assumes "ensure_if_missing usable draws tg d = Inr d1"
  shows "(\<forall>k. coin_balance d1 k = coin_balance d k) \<and> account_ids d1 = account_ids d \<and>
    users_unique d1 = users_unique d \<and> coin_txs d1 = coin_txs d"
proof -
  have "d1 = d \<or> map_sum id fst (ensure_public_id_exists usable draws tg d) = Inr d1"
    using assms by (simp add: ensure_if_missing_def split: option.splits if_splits)
  then consider "d1 = d" | p where "ensure_public_id_exists usable draws tg d = Inr (d1, p)"
    by (cases "ensure_public_id_exists usable draws tg d") auto
  then show ?thesis using ensure_public_frame by cases simp_all
qed

lemma move_between_result:
  assumes "users_unique d" and "get_user d a = Some s" and "get_user d b = Some r"
    and "0 < n" and "n \<le> u_coin_balance s"
  shows "\<exists>t1 t2. move_between now fl event s r n d =
    (coin_move earn now t2 None ''generic'' b n
      (coin_move (\<lambda>n. spend (- n)) now t1 None ''generic'' a (- n) d), True, TransferDone n)"
proof -
  let ?t1 = "TxTransferTo (shown_id r)" and ?t2 = "TxTransferFrom (shown_id s)"
  let ?d1 = "coin_move (\<lambda>n. spend (- n)) now ?t1 None ''generic'' a (- n) d"
  let ?d2 = "coin_move earn now ?t2 None ''generic'' b n ?d1"
  have tg: "u_tg_id s = a" "u_tg_id r = b" using assms(2,3) by (auto dest: get_user_tg)
  have p1: "process_coin_transaction now fl event s (- n) ?t1 True None d = (?d1, spend n s, True)"
    using process_debit [OF assms(1), of s s "- n"] assms tg by (simp add: coin_move_def)
  have g1: "get_user ?d1 k = (if k = a then Some (spend n s) else get_user d k)" for k
    using assms(2) by (simp add: coin_move_def get_upd_user)
  have u2: "users_unique ?d2"
    using assms(1) by (simp add: coin_move_def users_unique_upd_user)
  have g2: "get_user ?d2 k = (if k = b then map_option (earn n) (get_user ?d1 b) else get_user ?d1 k)" for k
    by (simp add: coin_move_def get_upd_user)
  show ?thesis
  proof (cases "b = a")
    case True
    have p2: "process_coin_transaction now fl event (spend n s) n ?t2 True None ?d1
        = (?d2, earn n (spend n s), True)"
      using assms(4) tg True by (simp add: process_credit coin_move_def event_amount_def event_text_def)
    have "flush_user (earn n (spend n s)) ?d2 = ?d2"
      by (rule flush_user_in_step [OF u2]) (use g2 [of a] g1 [of a] True tg in simp)
    then show ?thesis
      using True tg by (intro exI [of _ ?t1] exI [of _ ?t2]) (simp add: move_between_def p1 p2)
  next
    case False
    have p2: "process_coin_transaction now fl event r n ?t2 True None ?d1 = (?d2, earn n r, True)"
      using assms(4) tg by (simp add: process_credit coin_move_def event_amount_def event_text_def)
    have f1: "flush_user (spend n s) ?d2 = ?d2"
      by (rule flush_user_in_step [OF u2]) (use False tg in \<open>simp add: g2 g1\<close>)
    have f2: "flush_user (earn n r) ?d2 = ?d2"
      by (rule flush_user_in_step [OF u2]) (use False tg assms(3) in \<open>simp add: g2 g1\<close>)
    show ?thesis
      using False tg f1 f2
      by (intro exI [of _ ?t1] exI [of _ ?t2]) (simp add: move_between_def p1 p2)
  qed
qed

text \<open>\<open>transfer_coins\<close> keeps the ledger and the sum of all balances on every outcome, and
  when it succeeds it debits the sender and credits the receiver by exactly the amount, each
  with a log entry (a transfer to oneself is accepted and changes no balance).\<close>

theorem transfer_coins_keeps_ledger:
  assumes "users_unique d" and "ledger_ok d"
    and "transfer_coins now fl event usable draws1 draws2 a b n d = Inr (d', ok, reply)"
  shows "ledger_ok d' \<and> users_unique d' \<and> total_coins d' = total_coins d \<and>
    coin_balance d' k = coin_balance d k +
      (if ok then (if k = b then n else 0) - (if k = a then n else 0) else 0)"
proof (cases "\<exists>s r. 0 < n \<and> get_user d a = Some s \<and> get_user d b = Some r \<and> n \<le> u_coin_balance s")
  case False
  then have "d' = d \<and> \<not> ok"
    using assms(3) by (auto simp: transfer_coins_def split: if_splits option.splits)
  with assms show ?thesis by simp
next
  case True
  then obtain s r where sr: "0 < n" "get_user d a = Some s" "get_user d b = Some r"
    "n \<le> u_coin_balance s" by blast
  with assms(3) obtain d1 d2 where e1: "ensure_if_missing usable draws1 a d = Inr d1"
    and e2: "ensure_if_missing usable draws2 b d1 = Inr d2"
    by (auto simp: transfer_coins_def split: sum.splits)
  have fr: "coin_balance d2 j = coin_balance d j" "account_ids d2 = account_ids d" "users_unique d2"
      "coin_txs d2 = coin_txs d" for j
    using ensure_frame [OF e1] ensure_frame [OF e2] assms(1) by auto
  have ids: "a \<in> account_ids d2" "b \<in> account_ids d2"
    using sr fr(2) by (auto simp: account_ids_iff)
  then obtain s2 r2 where g: "get_user d2 a = Some s2" "get_user d2 b = Some r2"
    by (auto simp: account_ids_iff)
  have "u_coin_balance s2 = u_coin_balance s"
    using fr(1) [of a] g sr by (simp add: coin_balance_Some)
  with move_between_result [OF fr(3) g, of n now fl event] sr obtain t1 t2 where
    m: "move_between now fl event s2 r2 n d2 =
      (coin_move earn now t2 None ''generic'' b n
        (coin_move (\<lambda>n. spend (- n)) now t1 None ''generic'' a (- n) d2), True, TransferDone n)"
    by auto
  let ?d1 = "coin_move (\<lambda>n. spend (- n)) now t1 None ''generic'' a (- n) d2"
  have d': "d' = coin_move earn now t2 None ''generic'' b n ?d1" and ok
    using assms(3) sr g e1 e2 m by (simp_all add: transfer_coins_def)
  have v1: "users_unique ?d1" "b \<in> account_ids ?d1"
    using fr(3) ids spending.valid_move spending.accounts_move by auto
  have l2: "ledger_ok d2"
    using assms(2) by (simp add: ledger_ok_def fr logged_coins_cong [OF fr(4)])
  have led: "ledger_ok d'"
    unfolding d' using v1 ids fr(3) l2
    by (intro ledger_ok_move moves_balance_earn moves_balance_spend)
  have bal: "coin_balance d' k = coin_balance d k + (if k = b then n else 0) - (if k = a then n else 0)"
    for k
    using v1 ids fr by (simp add: d' earning.balance_move spending.balance_move)
  have acc: "account_ids d' = account_ids d"
    using v1 fr earning.accounts_move spending.accounts_move by (simp add: d')
  have "total_coins d' = total_coins d"
    using ids fr(2) by (intro total_coins_transfer [OF acc _ _ bal]) simp_all
  moreover have "users_unique d'" using v1 earning.valid_move by (simp add: d')
  ultimately show ?thesis using led bal \<open>ok\<close> by simp
qed

lemma transfer_coins_keeps_ledger_witness:
  "\<exists>d'. transfer_coins 9 id None False [] [] 1 2 2 demo_db = Inr (d', True, TransferDone 2) \<and>
     ledger_ok d' \<and> coin_balance d' 2 = 5"
proof -
  have g: "get_user demo_db 1 = Some alice" "get_user demo_db 2 = Some bob" by simp_all
  obtain t1 t2 where "move_between 9 id None alice bob 2 demo_db =
    (coin_move earn 9 t2 None ''generic'' 2 2
      (coin_move (\<lambda>n. spend (- n)) 9 t1 None ''generic'' 1 (- 2) demo_db), True, TransferDone 2)"
    using move_between_result [OF demo_unique g, of 2 9 id None] by auto
  then obtain d' where t: "transfer_coins 9 id None False [] [] 1 2 2 demo_db
      = Inr (d', True, TransferDone 2)"
    by (simp add: transfer_coins_def ensure_if_missing_def)
  from transfer_coins_keeps_ledger [OF demo_unique demo_ledger t, of 2] t show ?thesis by simp
qed

end
