(* ===== verification/Gifts.thy ===== *)
theory Gifts
  imports Transfers
begin

text \<open>
  \<open>services/gift_engine.py\<close>: the catalog, purchase with coins, credit after a gateway
  payment, transfer between users and sale back to the system, with the gift helpers of
  \<open>database/queries/crud.py\<close>.  An inventory row is unique per owner and gift type
  (\<open>uq_owner_gift_type\<close>), a gift type per code.  Each operation commits at its end.
\<close>

datatype gift_reply =
    BadQuantity | GiftNotFound | NotEnoughToSell string | UserNotFound
  | Sold int string int | NotAvailable | NotEnoughCoins int | Added int string string
  | GiftToSelf | NotEnoughGifts string | Sent int string string

section \<open>Catalog\<close>

definition get_gift_type_by_code :: "string \<Rightarrow> db \<Rightarrow> gift_type option" where
  "get_gift_type_by_code code d = by_key gt_code code (gift_types d)"

text \<open>\<open>ORDER BY a, b\<close>: a stable sort by the pair of keys.\<close>

definition get_all_active_gift_types :: "db \<Rightarrow> gift_type list" where
  "get_all_active_gift_types d =
     sort_key gt_sort_order (sort_key gt_id (sel_where gt_is_active (gift_types d)))"

definition get_user_inventory :: "int \<Rightarrow> db \<Rightarrow> (user_gift \<times> gift_type) list" where
  "get_user_inventory tg d = sort_key (\<lambda>(ug, gt). gt_sort_order gt)
     [(ug, gt). ug \<leftarrow> rows (user_gifts d), gt \<leftarrow> rows (gift_types d),
        ug_gift_type_id ug = gt_id gt, ug_owner_tg_id ug = tg]"

text \<open>A dict comprehension keyed by emoji: a later row with the same emoji wins.\<close>

definition get_user_gifts_summary :: "int \<Rightarrow> db \<Rightarrow> string \<rightharpoonup> int" where
  "get_user_gifts_summary tg d =
     map_of (rev [(gt_emoji gt, ug_quantity ug). (ug, gt) \<leftarrow> get_user_inventory tg d,
                    ug_quantity ug > 0])"

definition to_upper :: "string \<Rightarrow> string" where
  "to_upper s = map (\<lambda>c. if 97 \<le> (of_char c :: nat) \<and> of_char c \<le> (122 :: nat)
                         then char_of (of_char c - (32 :: nat)) else c) s"

definition check_gift_code_exists :: "string \<Rightarrow> db \<Rightarrow> bool" where
  "check_gift_code_exists code d = (by_key gt_code (to_upper code) (gift_types d) \<noteq> None)"

definition max_sort_order :: "db \<Rightarrow> int" where
  "max_sort_order d = (case rows (gift_types d) of [] \<Rightarrow> 0
     | g # gs \<Rightarrow> foldl (\<lambda>m x. max m (gt_sort_order x)) (gt_sort_order g) gs)"

definition add_gift_type ::
  "string \<Rightarrow> string \<Rightarrow> string \<Rightarrow> int \<Rightarrow> string option \<Rightarrow> db \<Rightarrow> db" where
  "add_gift_type code display_name emoji price description d =
     d\<lparr>gift_types := insert_row (\<lambda>i. \<lparr>gt_id = i, gt_code = to_upper code,
         gt_display_name = display_name, gt_emoji = emoji, gt_price_coins = price,
         gt_description = description, gt_is_active = True,
         gt_sort_order = max_sort_order d + 1\<rparr>) (gift_types d)\<rparr>"

section \<open>Inventory rows and the gift log\<close>

definition inv_key :: "user_gift \<Rightarrow> int \<times> int" where
  "inv_key r = (ug_owner_tg_id r, ug_gift_type_id r)"

definition inventory_row :: "int \<Rightarrow> int \<Rightarrow> db \<Rightarrow> user_gift option" where
  "inventory_row owner gid d = by_key inv_key (owner, gid) (user_gifts d)"

definition set_quantity :: "int \<Rightarrow> int \<Rightarrow> int \<Rightarrow> string \<Rightarrow> db \<Rightarrow> db" where
  "set_quantity owner gid q src d = d\<lparr>user_gifts :=
     upd_where (\<lambda>r. inv_key r = (owner, gid))
       (\<lambda>r. r\<lparr>ug_quantity := q, ug_last_source := src\<rparr>) (user_gifts d)\<rparr>"

text \<open>Add to the existing row, or insert one.\<close>

definition add_to_inventory :: "int \<Rightarrow> int \<Rightarrow> int \<Rightarrow> int \<Rightarrow> string \<Rightarrow> db \<Rightarrow> db" where
  "add_to_inventory now owner gid quantity src d =
     (case inventory_row owner gid d of
        Some r \<Rightarrow> set_quantity owner gid (ug_quantity r + quantity) src d
      | None \<Rightarrow> d\<lparr>user_gifts := insert_row
          (\<lambda>i. \<lparr>ug_id = i, ug_owner_tg_id = owner, ug_gift_type_id = gid,
                ug_quantity = quantity, ug_last_source = src, ug_updated_at = Aware now\<rparr>)
          (user_gifts d)\<rparr>)"

definition log_gift :: "int \<Rightarrow> int \<Rightarrow> int \<Rightarrow> int \<Rightarrow> int \<Rightarrow> string \<Rightarrow> int \<Rightarrow> db \<Rightarrow> db" where
  "log_gift now sender receiver gid quantity kind coins d = d\<lparr>gift_txs := insert_row
     (\<lambda>i. \<lparr>gx_id = i, gx_sender_tg_id = sender, gx_receiver_tg_id = receiver,
           gx_gift_type_id = gid, gx_quantity = quantity, gx_tx_kind = kind,
           gx_coins_spent = coins, gx_created_at = Aware now\<rparr>) (gift_txs d)\<rparr>"

section \<open>Operations\<close>

definition sell_gift :: "int \<Rightarrow> int \<Rightarrow> string \<Rightarrow> int \<Rightarrow> db \<Rightarrow> db \<times> bool \<times> gift_reply" where
  "sell_gift now tg code quantity d =
     (if quantity < 1 then (d, False, BadQuantity)
      else case get_gift_type_by_code code d of
        None \<Rightarrow> (d, False, GiftNotFound)
      | Some gt \<Rightarrow>
         (case inventory_row tg (gt_id gt) d of
            None \<Rightarrow> (d, False, NotEnoughToSell (gt_display_name gt))
          | Some r \<Rightarrow>
              if ug_quantity r < quantity
              then (d, False, NotEnoughToSell (gt_display_name gt))
              else case get_user d tg of
                None \<Rightarrow> (d, False, UserNotFound)
              | Some u \<Rightarrow>
                  let sell_price_per_unit = (gt_price_coins gt * 80) div 100;
                      total_earned = sell_price_per_unit * quantity;
                      d1 = set_quantity tg (gt_id gt) (ug_quantity r - quantity) ''sell'' d;
                      d2 = upd_user tg (\<lambda>v. v\<lparr>u_coin_balance := u_coin_balance v + total_earned\<rparr>) d1;
                      txid = next_id (gift_txs d2);
                      d3 = log_gift now tg tg (gt_id gt) quantity ''sell'' (- total_earned) d2;
                      d4 = add_coin_tx now tg total_earned
                             (TxGiftSell quantity (gt_display_name gt)) (Some txid) ''gift_sell'' d3
                  in (d4, True, Sold quantity (gt_display_name gt) total_earned)))"

definition purchase_gift :: "int \<Rightarrow> int \<Rightarrow> string \<Rightarrow> int \<Rightarrow> db \<Rightarrow> db \<times> bool \<times> gift_reply" where
  "purchase_gift now buyer code quantity d =
     (if quantity < 1 \<or> quantity > 100 then (d, False, BadQuantity)
      else case get_user d buyer of
        None \<Rightarrow> (d, False, UserNotFound)
      | Some u \<Rightarrow>
         (case get_gift_type_by_code code d of
            None \<Rightarrow> (d, False, NotAvailable)
          | Some gt \<Rightarrow>
              if \<not> gt_is_active gt then (d, False, NotAvailable)
              else
                let total_cost = gt_price_coins gt * quantity
                in if u_coin_balance u < total_cost then (d, False, NotEnoughCoins total_cost)
                   else
                     let d1 = upd_user buyer (spend total_cost) d;
                         d2 = add_to_inventory now buyer (gt_id gt) quantity ''purchase'' d1;
                         txid = next_id (gift_txs d2);
                         d3 = log_gift now buyer buyer (gt_id gt) quantity ''purchase'' total_cost d2;
                         d4 = add_coin_tx now buyer (- total_cost)
                                (TxGiftBuy quantity (gt_display_name gt)) (Some txid)
                                ''gift_purchase'' d3
                     in (d4, True, Added quantity (gt_emoji gt) (gt_display_name gt))))"

definition credit_gift ::
  "int \<Rightarrow> int \<Rightarrow> string \<Rightarrow> int \<Rightarrow> int option \<Rightarrow> db \<Rightarrow> db \<times> bool \<times> gift_reply" where
  "credit_gift now buyer code quantity payment_order_id d =
     (if quantity < 1 \<or> quantity > 100 then (d, False, BadQuantity)
      else case get_gift_type_by_code code d of
        None \<Rightarrow> (d, False, NotAvailable)
      | Some gt \<Rightarrow>
          if \<not> gt_is_active gt then (d, False, NotAvailable)
          else
            let d1 = add_to_inventory now buyer (gt_id gt) quantity ''gateway_purchase'' d;
                txid = next_id (gift_txs d1);
                d2 = log_gift now buyer buyer (gt_id gt) quantity ''gateway_purchase'' 0 d1;
                d3 = (case payment_order_id of
                        None \<Rightarrow> d2
                      | Some oid \<Rightarrow> add_coin_tx now buyer 0
                          (TxGiftGateway quantity (gt_display_name gt) oid) (Some txid)
                          ''gift_gateway_purchase'' d2)
            in (d3, True, Added quantity (gt_emoji gt) (gt_display_name gt)))"

definition transfer_gift ::
  "int \<Rightarrow> int \<Rightarrow> int \<Rightarrow> string \<Rightarrow> int \<Rightarrow> db \<Rightarrow> db \<times> bool \<times> gift_reply" where
  "transfer_gift now sender receiver code quantity d =
     (if sender = receiver then (d, False, GiftToSelf)
      else if quantity < 1 then (d, False, BadQuantity)
      else case get_gift_type_by_code code d of
        None \<Rightarrow> (d, False, GiftNotFound)
      | Some gt \<Rightarrow>
         (case inventory_row sender (gt_id gt) d of
            None \<Rightarrow> (d, False, NotEnoughGifts (gt_display_name gt))
          | Some r \<Rightarrow>
              if ug_quantity r < quantity
              then (d, False, NotEnoughGifts (gt_display_name gt))
              else
                let d1 = set_quantity sender (gt_id gt) (ug_quantity r - quantity)
                           ''transfer_out'' d;
                    d2 = add_to_inventory now receiver (gt_id gt) quantity ''transfer_in'' d1;
                    d3 = log_gift now sender receiver (gt_id gt) quantity ''transfer'' 0 d2
                in (d3, True, Sent quantity (gt_emoji gt) (gt_display_name gt))))"

definition get_recent_gift_transactions ::
  "int \<Rightarrow> nat \<Rightarrow> db \<Rightarrow> (gift_transaction \<times> gift_type) list" where
  "get_recent_gift_transactions tg limit d = take limit
     (sort_key (\<lambda>(gx, gt). - instant (gx_created_at gx))
       [(gx, gt). gx \<leftarrow> rows (gift_txs d), gt \<leftarrow> rows (gift_types d),
          gx_gift_type_id gx = gt_id gt, gx_sender_tg_id gx = tg \<or> gx_receiver_tg_id gx = tg])"

section \<open>Lemmas\<close>

text \<open>How many of a gift type an owner has: 0 when there is no row.\<close>

definition holding :: "db \<Rightarrow> int \<Rightarrow> int \<Rightarrow> int" where
  "holding d owner gid =
     (case inventory_row owner gid d of None \<Rightarrow> 0 | Some r \<Rightarrow> ug_quantity r)"

lemma inv_key_quantity [simp]: "inv_key (r\<lparr>ug_quantity := q, ug_last_source := src\<rparr>) = inv_key r"
  by (simp add: inv_key_def)

lemma inventory_set_quantity:
  "inventory_row o' g' (set_quantity owner gid q src d) =
    (if (o', g') = (owner, gid)
     then map_option (\<lambda>r. r\<lparr>ug_quantity := q, ug_last_source := src\<rparr>) (inventory_row owner gid d)
     else inventory_row o' g' d)"
  by (simp add: inventory_row_def set_quantity_def
      by_key_upd [of inv_key "\<lambda>r. r\<lparr>ug_quantity := q, ug_last_source := src\<rparr>"])

lemma holding_set_quantity:
  "inventory_row owner gid d \<noteq> None \<Longrightarrow> holding (set_quantity owner gid q src d) o' g' =
    (if o' = owner \<and> g' = gid then q else holding d o' g')"
  by (auto simp: holding_def inventory_set_quantity)

lemma holding_add_to_inventory:
  "holding (add_to_inventory now owner gid n src d) o' g' =
    holding d o' g' + (if o' = owner \<and> g' = gid then n else 0)"
proof (cases "inventory_row owner gid d")
  case None
  then show ?thesis
    by (auto simp: add_to_inventory_def holding_def inventory_row_def by_key_insert inv_key_def
        split: option.splits)
next
  case (Some r)
  then have h: "holding d owner gid = ug_quantity r" by (simp add: holding_def)
  have "add_to_inventory now owner gid n src d
      = set_quantity owner gid (ug_quantity r + n) src d"
    by (simp add: add_to_inventory_def Some)
  then show ?thesis
    using Some h holding_set_quantity [of owner gid d "ug_quantity r + n" src o' g'] by auto
qed

lemma gift_frames [simp]:
  "users (set_quantity o' g q s d) = users d" "coin_txs (set_quantity o' g q s d) = coin_txs d"
  "gift_txs (set_quantity o' g q s d) = gift_txs d"
  "users (add_to_inventory now o' g q s d) = users d"
  "coin_txs (add_to_inventory now o' g q s d) = coin_txs d"
  "gift_txs (add_to_inventory now o' g q s d) = gift_txs d"
  "users (log_gift now a b g q k c d) = users d" "coin_txs (log_gift now a b g q k c d) = coin_txs d"
  "user_gifts (log_gift now a b g q k c d) = user_gifts d"
  "user_gifts (upd_user tg f d) = user_gifts d" "gift_txs (upd_user tg f d) = gift_txs d"
  "user_gifts (add_coin_tx n i a t r x d) = user_gifts d"
  "gift_txs (add_coin_tx n i a t r x d) = gift_txs d"
  by (simp_all add: set_quantity_def add_to_inventory_def log_gift_def upd_user_def
      add_coin_tx_def split: option.split)

lemma holding_cong: "user_gifts d' = user_gifts d \<Longrightarrow> holding d' o' g = holding d o' g"
  by (simp add: holding_def inventory_row_def)

lemma holding_frames [simp]:
  "holding (log_gift now a b g q k c d) = holding d" "holding (upd_user tg f d) = holding d"
  "holding (add_coin_tx n i a t r x d) = holding d"
  by (intro ext holding_cong; simp)+

lemma get_user_cong: "users d' = users d \<Longrightarrow> get_user d' k = get_user d k"
  by (simp add: get_user_def)

lemma purchase_cases:
  assumes "purchase_gift now b code q d = (d', ok, rep)"
  obtains (refused) "\<not> ok" "d' = d"
  | (bought) u gt where "ok" "1 \<le> q" "q \<le> 100" "get_user d b = Some u"
      "get_gift_type_by_code code d = Some gt" "gt_is_active gt"
      "gt_price_coins gt * q \<le> u_coin_balance u"
      "d' = add_coin_tx now b (- (gt_price_coins gt * q)) (TxGiftBuy q (gt_display_name gt))
        (Some (next_id (gift_txs d))) ''gift_purchase''
        (log_gift now b b (gt_id gt) q ''purchase'' (gt_price_coins gt * q)
          (add_to_inventory now b (gt_id gt) q ''purchase''
            (upd_user b (spend (gt_price_coins gt * q)) d)))"
proof (cases ok)
  case False
  with assms have "d' = d"
    by (simp add: purchase_gift_def Let_def split: if_splits option.splits)
  with False show ?thesis by (rule refused)
next
  case True
  with assms obtain u gt where g: "get_user d b = Some u" "get_gift_type_by_code code d = Some gt"
    by (cases "get_user d b"; cases "get_gift_type_by_code code d")
      (simp_all add: purchase_gift_def split: if_splits)
  with True assms show ?thesis
    by (intro bought [of u gt]) (simp_all add: purchase_gift_def Let_def split: if_splits)
qed

lemma sell_cases:
  assumes "sell_gift now b code q d = (d', ok, rep)"
  obtains (refused) "\<not> ok" "d' = d"
  | (sold) gt where "ok" "1 \<le> q" "get_user d b \<noteq> None"
      "get_gift_type_by_code code d = Some gt" "inventory_row b (gt_id gt) d \<noteq> None"
      "q \<le> holding d b (gt_id gt)"
      "d' = add_coin_tx now b (gt_price_coins gt * 80 div 100 * q)
        (TxGiftSell q (gt_display_name gt)) (Some (next_id (gift_txs d))) ''gift_sell''
        (log_gift now b b (gt_id gt) q ''sell'' (- (gt_price_coins gt * 80 div 100 * q))
          (upd_user b (\<lambda>v. v\<lparr>u_coin_balance :=
              u_coin_balance v + gt_price_coins gt * 80 div 100 * q\<rparr>)
            (set_quantity b (gt_id gt) (holding d b (gt_id gt) - q) ''sell'' d)))"
proof (cases ok)
  case False
  with assms have "d' = d" by (simp add: sell_gift_def Let_def split: if_splits option.splits)
  with False show ?thesis by (rule refused)
next
  case True
  with assms obtain gt where g: "get_gift_type_by_code code d = Some gt"
    by (cases "get_gift_type_by_code code d") (simp_all add: sell_gift_def split: if_splits)
  with True assms obtain r u where "inventory_row b (gt_id gt) d = Some r" "get_user d b = Some u"
    by (cases "inventory_row b (gt_id gt) d"; cases "get_user d b")
      (simp_all add: sell_gift_def split: if_splits)
  with g True assms show ?thesis
    by (intro sold [of gt]) (simp_all add: sell_gift_def holding_def Let_def split: if_splits)
qed

lemma transfer_cases:
  assumes "transfer_gift now a b code q d = (d', ok, rep)"
  obtains (refused) "\<not> ok" "d' = d"
  | (sent) gt where "ok" "1 \<le> q" "a \<noteq> b" "get_gift_type_by_code code d = Some gt"
      "inventory_row a (gt_id gt) d \<noteq> None" "q \<le> holding d a (gt_id gt)"
      "d' = log_gift now a b (gt_id gt) q ''transfer'' 0
        (add_to_inventory now b (gt_id gt) q ''transfer_in''
          (set_quantity a (gt_id gt) (holding d a (gt_id gt) - q) ''transfer_out'' d))"
proof (cases ok)
  case False
  with assms have "d' = d" by (simp add: transfer_gift_def Let_def split: if_splits option.splits)
  with False show ?thesis by (rule refused)
next
  case True
  with assms obtain gt where g: "get_gift_type_by_code code d = Some gt"
    by (cases "get_gift_type_by_code code d") (simp_all add: transfer_gift_def split: if_splits)
  with True assms obtain r where "inventory_row a (gt_id gt) d = Some r"
    by (cases "inventory_row a (gt_id gt) d") (simp_all add: transfer_gift_def split: if_splits)
  with g True assms show ?thesis
    by (intro sent [of gt]) (simp_all add: transfer_gift_def holding_def Let_def split: if_splits)
qed

lemma gift_type_frames [simp]:
  "get_gift_type_by_code c (set_quantity o' g q s d) = get_gift_type_by_code c d"
  "get_gift_type_by_code c (add_to_inventory now o' g q s d) = get_gift_type_by_code c d"
  "get_gift_type_by_code c (log_gift now a b g n k i d) = get_gift_type_by_code c d"
  "get_gift_type_by_code c (upd_user tg f d) = get_gift_type_by_code c d"
  "get_gift_type_by_code c (add_coin_tx n i a t r x d) = get_gift_type_by_code c d"
  by (simp_all add: get_gift_type_by_code_def set_quantity_def add_to_inventory_def log_gift_def
      upd_user_def add_coin_tx_def split: option.split)

text \<open>A gift operation moves coins the way its user update and log entry do.\<close>

lemma moves_balance_plain:
  "moves_balance (\<lambda>n v. v\<lparr>u_coin_balance := u_coin_balance v + n\<rparr>)"
  by (simp add: moves_balance_def)

interpretation sale: ledger account_ids coin_balance logged_coins
  "coin_move (\<lambda>n v. v\<lparr>u_coin_balance := u_coin_balance v + n\<rparr>) now descr ref ty" users_unique
  for now descr ref ty
  by (rule coin_move_ledger [OF moves_balance_plain])

lemma coin_move_view:
  assumes "users d' = users (upd_user tg (f n) d)"
    and "coin_txs d' = coin_txs (coin_move f now descr ref ty tg n d)"
  shows "account_ids d' = account_ids (coin_move f now descr ref ty tg n d)"
    and "coin_balance d' = coin_balance (coin_move f now descr ref ty tg n d)"
    and "ledger_ok d' = ledger_ok (coin_move f now descr ref ty tg n d)"
    and "totals_ok d' = totals_ok (upd_user tg (f n) d)"
proof -
  have u: "users d' = users (coin_move f now descr ref ty tg n d)"
    by (simp add: assms(1) coin_move_def)
  show "account_ids d' = account_ids (coin_move f now descr ref ty tg n d)"
    by (rule account_ids_cong [OF u])
  show "coin_balance d' = coin_balance (coin_move f now descr ref ty tg n d)"
    by (rule ext) (rule coin_balance_cong [OF u])
  show "ledger_ok d' = ledger_ok (coin_move f now descr ref ty tg n d)"
    by (rule ledger_ok_cong [OF u assms(2)])
  show "totals_ok d' = totals_ok (upd_user tg (f n) d)"
    by (rule totals_ok_cong [OF assms(1)])
qed

text \<open>The coins a refused or accepted sale leaves, through the ledger's interface.\<close>

lemma sale_ledger:
  assumes "users_unique d" and "ledger_ok d" and "get_user d b \<noteq> None"
    and "users d' = users (upd_user b (\<lambda>v. v\<lparr>u_coin_balance := u_coin_balance v + n\<rparr>) d)"
    and "coin_txs d' = coin_txs (add_coin_tx now b n descr ref ty d)"
  shows "ledger_ok d'" and "total_coins d' = total_coins d + n"
    and "coin_balance d' k = coin_balance d k + (if k = b then n else 0)"
proof -
  let ?m = "coin_move (\<lambda>n v. v\<lparr>u_coin_balance := u_coin_balance v + n\<rparr>) now descr ref ty b n d"
  have t: "coin_txs d' = coin_txs ?m"
    using assms(5) by (simp add: coin_move_def add_coin_tx_def)
  have b: "b \<in> account_ids d" using assms(3) by (simp add: account_ids_iff)
  note v = coin_move_view [where f = "\<lambda>n v. v\<lparr>u_coin_balance := u_coin_balance v + n\<rparr>", OF assms(4) t]
  have "ledger_ok ?m"
    using ledger_ok_move [OF moves_balance_plain assms(1,2) b] .
  then show "ledger_ok d'" by (simp add: v(3))
  have "total_coins ?m = total_coins d + n"
    using sale.total_move [OF assms(1) b] by (simp add: sale.total_def total_coins_def)
  then show "total_coins d' = total_coins d + n" by (simp add: total_coins_def v(1,2))
  show "coin_balance d' k = coin_balance d k + (if k = b then n else 0)"
    using sale.balance_move [OF assms(1) b, of now descr ref ty n k] by (simp add: v(2))
qed

lemma purchase_ledger:
  assumes "users_unique d" and "ledger_ok d" and "get_user d b \<noteq> None"
    and "users d' = users (upd_user b (spend n) d)"
    and "coin_txs d' = coin_txs (add_coin_tx now b (- n) descr ref ty d)"
  shows "ledger_ok d'" and "coin_balance d' k = coin_balance d k - (if k = b then n else 0)"
    and "totals_ok d \<Longrightarrow> totals_ok d'"
proof -
  let ?m = "coin_move (\<lambda>n. spend (- n)) now descr ref ty b (- n) d"
  have u: "users d' = users (upd_user b (spend (- (- n))) d)" using assms(4) by simp
  have t: "coin_txs d' = coin_txs ?m"
    using assms(5) by (simp add: coin_move_def add_coin_tx_def)
  have b: "b \<in> account_ids d" using assms(3) by (simp add: account_ids_iff)
  note v = coin_move_view [where f = "\<lambda>n. spend (- n)", OF u t]
  have "ledger_ok ?m" using ledger_ok_move [OF moves_balance_spend assms(1,2) b] .
  then show "ledger_ok d'" by (simp add: v(3))
  show "coin_balance d' k = coin_balance d k - (if k = b then n else 0)"
    using spending.balance_move [OF assms(1) b, of now descr ref ty "- n" k] by (simp add: v(2))
  show "totals_ok d'" if "totals_ok d"
    using totals_ok_upd_user [OF that, of "spend n" b] v(4) by simp
qed

lemma get_upd_simple: "get_user (upd_user b f d) b = None \<longleftrightarrow> get_user d b = None"
  if "\<And>u. u_tg_id (f u) = u_tg_id u"
  using that by (simp add: get_upd_user)

text \<open>What an accepted purchase and an accepted sale leave behind.\<close>

lemma purchase_view:
  assumes "purchase_gift now b code q d = (d', True, rep)"
    and "users_unique d" and "ledger_ok d" and "get_gift_type_by_code code d = Some gt"
  shows "gt_is_active gt \<and> 1 \<le> q \<and> q \<le> 100 \<and> gt_price_coins gt * q \<le> coin_balance d b"
    and "coin_balance d' k = coin_balance d k - (if k = b then gt_price_coins gt * q else 0)"
    and "holding d' k g = holding d k g + (if k = b \<and> g = gt_id gt then q else 0)"
    and "users_unique d'" and "ledger_ok d'" and "totals_ok d \<Longrightarrow> totals_ok d'"
    and "get_user d' b \<noteq> None" and "get_gift_type_by_code c d' = get_gift_type_by_code c d"
proof -
  let ?n = "gt_price_coins gt * q"
  obtain u where p: "gt_is_active gt" "1 \<le> q" "q \<le> 100" "get_user d b = Some u" "?n \<le> u_coin_balance u"
    and d': "d' = add_coin_tx now b (- ?n) (TxGiftBuy q (gt_display_name gt))
        (Some (next_id (gift_txs d))) ''gift_purchase''
        (log_gift now b b (gt_id gt) q ''purchase'' ?n
          (add_to_inventory now b (gt_id gt) q ''purchase'' (upd_user b (spend ?n) d)))"
    using assms(1)
  proof (cases rule: purchase_cases)
    case (bought u gt')
    then show thesis using that [of u] assms(4) by simp
  qed simp
  have us: "users d' = users (upd_user b (spend ?n) d)" using d' by simp
  have tx: "coin_txs d' = coin_txs (add_coin_tx now b (- ?n) (TxGiftBuy q (gt_display_name gt))
      (Some (next_id (gift_txs d))) ''gift_purchase'' d)"
    using d' by (simp add: add_coin_tx_def)
  have some: "get_user d b \<noteq> None" using p by simp
  note l = purchase_ledger [OF assms(2,3) some us tx]
  show "gt_is_active gt \<and> 1 \<le> q \<and> q \<le> 100 \<and> ?n \<le> coin_balance d b"
    using p by (simp add: coin_balance_Some)
  show "coin_balance d' k = coin_balance d k - (if k = b then ?n else 0)" by (rule l(2))
  show "holding d' k g = holding d k g + (if k = b \<and> g = gt_id gt then q else 0)"
    by (simp add: d' holding_add_to_inventory)
  show "users_unique d'"
    using users_unique_cong [OF us] users_unique_upd_user [of "spend ?n" b d] assms(2) by simp
  show "ledger_ok d'" by (rule l(1))
  show "totals_ok d \<Longrightarrow> totals_ok d'" by (rule l(3))
  show "get_user d' b \<noteq> None"
    using some get_user_cong [OF us] get_upd_simple [of "spend ?n" b d] by simp
  show "get_gift_type_by_code c d' = get_gift_type_by_code c d" by (simp add: d')
qed

lemma sell_view:
  assumes "sell_gift now b code q d = (d', True, rep)"
    and "users_unique d" and "ledger_ok d" and "get_gift_type_by_code code d = Some gt"
  shows "1 \<le> q \<and> q \<le> holding d b (gt_id gt) \<and> get_user d b \<noteq> None"
    and "coin_balance d' k =
      coin_balance d k + (if k = b then gt_price_coins gt * 80 div 100 * q else 0)"
    and "total_coins d' = total_coins d + gt_price_coins gt * 80 div 100 * q"
    and "holding d' k g = holding d k g - (if k = b \<and> g = gt_id gt then q else 0)"
    and "ledger_ok d'"
    and "users d' = users (upd_user b (\<lambda>v. v\<lparr>u_coin_balance :=
          u_coin_balance v + gt_price_coins gt * 80 div 100 * q\<rparr>) d)"
proof -
  let ?s = "gt_price_coins gt * 80 div 100 * q"
  have p: "1 \<le> q" "get_user d b \<noteq> None" "inventory_row b (gt_id gt) d \<noteq> None" "q \<le> holding d b (gt_id gt)"
    and d': "d' = add_coin_tx now b ?s
        (TxGiftSell q (gt_display_name gt)) (Some (next_id (gift_txs d))) ''gift_sell''
        (log_gift now b b (gt_id gt) q ''sell'' (- ?s)
          (upd_user b (\<lambda>v. v\<lparr>u_coin_balance := u_coin_balance v + ?s\<rparr>)
            (set_quantity b (gt_id gt) (holding d b (gt_id gt) - q) ''sell'' d)))"
    using assms(1)
    by (atomize (full), cases rule: sell_cases) (simp_all add: assms(4))
  show us: "users d' = users (upd_user b (\<lambda>v. v\<lparr>u_coin_balance := u_coin_balance v + ?s\<rparr>) d)"
    by (simp add: d' upd_user_def)
  have tx: "coin_txs d' = coin_txs (add_coin_tx now b ?s
      (TxGiftSell q (gt_display_name gt)) (Some (next_id (gift_txs d))) ''gift_sell'' d)"
    by (simp add: d' add_coin_tx_def)
  note l = sale_ledger [OF assms(2,3) p(2) us tx]
  show "1 \<le> q \<and> q \<le> holding d b (gt_id gt) \<and> get_user d b \<noteq> None" using p by simp
  show "coin_balance d' k = coin_balance d k + (if k = b then ?s else 0)" by (rule l(3))
  show "total_coins d' = total_coins d + ?s" by (rule l(2))
  show "holding d' k g = holding d k g - (if k = b \<and> g = gt_id gt then q else 0)"
    using p(3) by (auto simp: d' holding_set_quantity)
  show "ledger_ok d'" by (rule l(1))
qed

lemma sell_accepted:
  assumes "get_gift_type_by_code code d = Some gt" and "get_user d b \<noteq> None"
    and "1 \<le> q" and "q \<le> holding d b (gt_id gt)"
  shows "fst (snd (sell_gift now b code q d))"
  using assms by (auto simp: sell_gift_def holding_def Let_def split: option.splits)

text \<open>Buying a gift with coins either changes nothing or, for a known buyer and an
  active gift of at most 100 pieces whose price the balance covers, moves exactly the price
  out of the balance (which stays non-negative), puts the pieces into the buyer's inventory
  and leaves every other balance and holding alone; the log and the spending total follow.\<close>

theorem purchase_gift_effect:
  assumes "purchase_gift now b code q d = (d', ok, rep)"
    and "users_unique d" and "ledger_ok d" and "totals_ok d"
  shows "if ok then \<exists>gt. get_gift_type_by_code code d = Some gt \<and> gt_is_active gt \<and>
      1 \<le> q \<and> q \<le> 100 \<and> 0 \<le> coin_balance d' b \<and>
      (\<forall>k. coin_balance d' k = coin_balance d k - (if k = b then gt_price_coins gt * q else 0)) \<and>
      (\<forall>k g. holding d' k g = holding d k g + (if k = b \<and> g = gt_id gt then q else 0)) \<and>
      ledger_ok d' \<and> totals_ok d'
    else d' = d"
  using assms(1)
proof (cases rule: purchase_cases)
  case refused
  then show ?thesis by simp
next
  case (bought u gt)
  then have t: "purchase_gift now b code q d = (d', True, rep)" using assms(1) by simp
  note v = purchase_view [OF t assms(2,3) bought(5)]
  show ?thesis using bought(1,5) v(1) v(2) v(3,5) v(6) [OF assms(4)] by simp
qed

text \<open>Sending a gift moves pieces: the two holdings change by the quantity, which the
  sender owned, so no holding that was non-negative turns negative; every other holding, all
  users and the coin log are untouched, and a refused transfer changes nothing.\<close>

theorem transfer_gift_conserves:
  assumes "transfer_gift now a b code q d = (d', ok, rep)" and "\<And>k g. 0 \<le> holding d k g"
  shows "users d' = users d \<and> coin_txs d' = coin_txs d \<and> (\<forall>k g. 0 \<le> holding d' k g) \<and>
    (if ok then \<exists>gt. get_gift_type_by_code code d = Some gt \<and> 1 \<le> q \<and>
       (\<forall>k g. holding d' k g = holding d k g +
          (if g = gt_id gt then (if k = b then q else if k = a then - q else 0) else 0))
     else d' = d)"
  using assms(1)
proof (cases rule: transfer_cases)
  case refused
  then show ?thesis using assms(2) by simp
next
  case (sent gt)
  have h: "holding d' k g = holding d k g +
      (if g = gt_id gt then (if k = b then q else if k = a then - q else 0) else 0)" for k g
    using sent(3) holding_set_quantity [OF sent(5)]
    by (simp add: sent(7) holding_add_to_inventory)
  have "0 \<le> holding d' k g" for k g
    using assms(2) [of k g] sent(2,6) by (auto simp: h)
  then show ?thesis using sent h by (auto simp: sent(7))
qed

text \<open>Selling back what was just bought always succeeds and never gains coins: the buyer
  gets 80 percent of the price, rounded down per piece, so the round trip costs at least a
  fifth of the price and at most all of it, and leaves every holding as it was.\<close>

theorem buy_then_sell_loses:
  assumes "purchase_gift now b code q d = (d1, True, r1)" and "sell_gift now b code q d1 = (d2, ok, r2)"
    and "users_unique d" and "ledger_ok d" and "get_gift_type_by_code code d = Some gt"
    and "0 \<le> gt_price_coins gt" and "0 \<le> holding d b (gt_id gt)"
  shows "ok \<and> ledger_ok d2 \<and> (\<forall>k g. holding d2 k g = holding d k g) \<and>
    5 * (coin_balance d b - coin_balance d2 b) \<ge> gt_price_coins gt * q \<and>
    coin_balance d b - coin_balance d2 b \<le> gt_price_coins gt * q"
proof -
  note v1 = purchase_view [OF assms(1,3,4,5)]
  have gt1: "get_gift_type_by_code code d1 = Some gt" using assms(5) v1(8) by simp
  have "q \<le> holding d1 b (gt_id gt)" using v1(3) [of b "gt_id gt"] assms(7) by simp
  then have ok: ok using sell_accepted [OF gt1 v1(7)] v1(1) assms(2) by (metis fst_conv snd_conv)
  then have s: "sell_gift now b code q d1 = (d2, True, r2)" using assms(2) by simp
  note v2 = sell_view [OF s v1(4,5) gt1]
  let ?s = "gt_price_coins gt * 80 div 100"
  have "5 * ?s \<le> 4 * gt_price_coins gt" and "0 \<le> ?s" using assms(6) by auto
  then have "5 * ?s * q \<le> 4 * gt_price_coins gt * q" and "0 \<le> ?s * q"
    using v1(1) by (auto intro!: mult_right_mono)
  then show ?thesis
    using ok v2(5) v2(4) v1(3) v1(2) [of b] v2(2) [of b] by (simp add: algebra_simps)
qed

text \<open>A sale credits the balance and logs it, so the ledger stays consistent, but it does
  not add the proceeds to \<open>total_earned_coins\<close>: when the balance was the difference of
  the user's totals, it no longer is after any sale that paid something.\<close>

theorem sell_gift_skips_total:
  assumes "sell_gift now b code q d = (d', True, rep)"
    and "users_unique d" and "ledger_ok d" and "totals_ok d"
    and "get_gift_type_by_code code d = Some gt" and "2 \<le> gt_price_coins gt"
  shows "ledger_ok d' \<and> \<not> totals_ok d'"
proof -
  note v = sell_view [OF assms(1-3,5)]
  let ?n = "gt_price_coins gt * 80 div 100 * q"
  obtain u where u: "get_user d b = Some u" using v(1) by auto
  let ?u = "u\<lparr>u_coin_balance := u_coin_balance u + ?n\<rparr>"
  have "get_user d' b = Some ?u"
    using u get_user_cong [OF v(6)] by (simp add: get_upd_user)
  then have "?u \<in> set (rows (users d'))" by (rule get_user_in)
  moreover have "u \<in> set (rows (users d))" using u by (rule get_user_in)
  moreover have "0 < gt_price_coins gt * 80 div 100" using assms(6) by simp
  then have "0 < ?n" using v(1) by simp
  ultimately have "\<not> totals_ok d'" using assms(4) unfolding totals_ok_def by fastforce
  then show ?thesis using v(5) by simp
qed

section \<open>Concrete instances\<close>

definition rose :: gift_type where
  "rose = \<lparr>gt_id = 1, gt_code = ''ROSE'', gt_display_name = ''Rose'', gt_emoji = ''r'',
     gt_price_coins = 2, gt_description = None, gt_is_active = True, gt_sort_order = 1\<rparr>"

definition gift_db :: db where
  "gift_db = demo_db\<lparr>gift_types := \<lparr>rows = [rose], next_id = 2\<rparr>,
     user_gifts := \<lparr>rows = [\<lparr>ug_id = 1, ug_owner_tg_id = 2, ug_gift_type_id = 1, ug_quantity = 3,
        ug_last_source = ''purchase'', ug_updated_at = Aware 0\<rparr>], next_id = 2\<rparr>\<rparr>"

lemma gift_db_facts [simp]:
  "users gift_db = users demo_db" "users_unique gift_db" "ledger_ok gift_db" "totals_ok gift_db"
  "get_user gift_db = get_user demo_db" "coin_balance gift_db k = coin_balance demo_db k"
  "get_gift_type_by_code ''ROSE'' gift_db = Some rose"
  "inventory_row k g gift_db = (if k = 2 \<and> g = 1 then Some \<lparr>ug_id = 1, ug_owner_tg_id = 2,
     ug_gift_type_id = 1, ug_quantity = 3, ug_last_source = ''purchase'', ug_updated_at = Aware 0\<rparr>
     else None)"
  "holding gift_db k g = (if k = 2 \<and> g = 1 then 3 else 0)"
  by (auto simp: gift_db_def rose_def get_gift_type_by_code_def by_key_def holding_def
      inventory_row_def inv_key_def get_user_def coin_balance_def
      ledger_ok_def account_ids_def totals_ok_def users_unique_def logged_coins_def demo_db_def
      new_coin_tx_def)

lemma rose_sel [simp]:
  "gt_id rose = 1" "gt_price_coins rose = 2" "gt_is_active rose" "gt_display_name rose = ''Rose''"
  by (simp_all add: rose_def)

lemma purchase_gift_effect_witness:
  "\<exists>gt. get_gift_type_by_code ''ROSE'' gift_db = Some gt \<and>
     ledger_ok (fst (purchase_gift 0 1 ''ROSE'' 1 gift_db))"
proof -
  obtain d' ok rep where p: "purchase_gift 0 1 ''ROSE'' 1 gift_db = (d', ok, rep)"
    by (metis prod_cases3)
  then have "ok" by (auto simp: purchase_gift_def Let_def)
  then show ?thesis using purchase_gift_effect [OF p] p by auto
qed

lemma transfer_gift_conserves_witness:
  "\<exists>d' rep. transfer_gift 0 2 1 ''ROSE'' 2 gift_db = (d', True, rep) \<and>
     holding d' 1 1 = 2 \<and> holding d' 2 1 = 1"
proof -
  obtain d' ok rep where p: "transfer_gift 0 2 1 ''ROSE'' 2 gift_db = (d', ok, rep)"
    by (metis prod_cases3)
  moreover from p have "ok" by (auto simp: transfer_gift_def Let_def)
  ultimately show ?thesis using transfer_gift_conserves [OF p] by auto
qed

lemma buy_then_sell_loses_witness:
  "\<exists>d2 r2. snd (purchase_gift 0 1 ''ROSE'' 1 gift_db) = (True, Added 1 ''r'' ''Rose'') \<and>
     sell_gift 0 1 ''ROSE'' 1 (fst (purchase_gift 0 1 ''ROSE'' 1 gift_db)) = (d2, True, r2) \<and>
     coin_balance d2 1 < coin_balance gift_db 1"
proof -
  obtain d1 o1 r1 where p: "purchase_gift 0 1 ''ROSE'' 1 gift_db = (d1, o1, r1)"
    by (metis prod_cases3)
  then have o1: "o1 \<and> r1 = Added 1 ''r'' ''Rose''"
    by (auto simp: purchase_gift_def Let_def rose_def)
  obtain d2 o2 r2 where s: "sell_gift 0 1 ''ROSE'' 1 d1 = (d2, o2, r2)" by (metis prod_cases3)
  have "o2 \<and> 5 * (coin_balance gift_db 1 - coin_balance d2 1) \<ge> 2"
    using buy_then_sell_loses [of 0 1 "''ROSE''" 1 gift_db d1 r1 d2 o2 r2 rose] p s o1 by simp
  then show ?thesis using p o1 s by simp
qed

lemma sell_gift_skips_total_witness:
  "\<not> totals_ok (fst (sell_gift 0 2 ''ROSE'' 1 gift_db))"
proof -
  obtain d' ok rep where p: "sell_gift 0 2 ''ROSE'' 1 gift_db = (d', ok, rep)"
    by (metis prod_cases3)
  then have "ok" by (auto simp: sell_gift_def Let_def)
  then show ?thesis using sell_gift_skips_total [of 0 2 "''ROSE''" 1 gift_db d' rep rose] p by simp
qed

end
