(* ===== verification/Vip.thy ===== *)
theory Vip
  imports Gifts
begin

text \<open>
  \<open>services/vip_subscription.py\<close>: the plan file and its cache, activation, expiry.  An expiry
  read back from the database is naive on the configured MySQL driver and on SQLite; the
  model keeps the representation in the value, so a comparison can raise.  Labels of plans
  are display text and left out.
\<close>

section \<open>The plan file\<close>

record vip_plan =
  vp_code :: string
  vp_duration_days :: int
  vp_price_toman :: int

type_synonym plans = "(string \<times> vip_plan) list"

datatype plan_file = NoFile | BadFile | PlanFile plans

record plan_cache =
  pc_plans :: plans
  pc_loaded_at :: "int option"

definition default_plans :: plans where
  "default_plans =
     [(''1w'', \<lparr>vp_code = ''1w'', vp_duration_days = 7, vp_price_toman = 30000\<rparr>),
      (''2w'', \<lparr>vp_code = ''2w'', vp_duration_days = 14, vp_price_toman = 55000\<rparr>),
      (''1m'', \<lparr>vp_code = ''1m'', vp_duration_days = 30, vp_price_toman = 95000\<rparr>)]"

text \<open>An absent and an empty cache are the same to the guard: both are falsy.\<close>

definition load_vip_plans :: "int \<Rightarrow> plan_file \<Rightarrow> plan_cache \<Rightarrow> plan_cache \<times> plans" where
  "load_vip_plans now file c =
     (if pc_plans c \<noteq> [] \<and> (case pc_loaded_at c of None \<Rightarrow> False | Some t \<Rightarrow> now - t < 300 * 1000000)
      then (c, pc_plans c)
      else let plans = (case file of NoFile \<Rightarrow> default_plans | BadFile \<Rightarrow> [] | PlanFile p \<Rightarrow> p)
           in (\<lparr>pc_plans = plans, pc_loaded_at = Some now\<rparr>, plans))"

section \<open>Activation\<close>

text \<open>The base of the extension; the comparison is made on the value as it was read.\<close>

definition extended_expiry :: "int \<Rightarrow> int \<Rightarrow> user \<Rightarrow> py_error + pydt" where
  "extended_expiry now duration_days u =
     (let fresh = Aware (now + duration_days * day_us) in
      if \<not> u_is_vip u then Inr fresh
      else case u_vip_expires_at u of
        None \<Rightarrow> Inr fresh
      | Some e \<Rightarrow> (case dt_gt e (Aware now) of
            Inl err \<Rightarrow> Inl err
          | Inr live \<Rightarrow> Inr (if live then add_us (as_utc e) (duration_days * day_us) else fresh)))"

definition active_sub_of :: "int \<Rightarrow> vip_subscription \<Rightarrow> bool" where
  "active_sub_of tg s \<longleftrightarrow> vs_user_tg_id s = tg \<and> vs_is_active s"

definition activate_subscription ::
  "int \<Rightarrow> plans \<Rightarrow> int \<Rightarrow> string \<Rightarrow> int option \<Rightarrow> db \<Rightarrow> py_error + (db \<times> vip_subscription)" where
  "activate_subscription now plans tg plan_code payment_order_id d =
     (case map_of plans plan_code of
        None \<Rightarrow> Inl ValueError
      | Some plan \<Rightarrow>
         (case get_user d tg of
            None \<Rightarrow> Inl ValueError
          | Some u \<Rightarrow>
             (case extended_expiry now (vp_duration_days plan) u of
                Inl err \<Rightarrow> Inl err
              | Inr expires_at \<Rightarrow>
                  let off = upd_where (active_sub_of tg) (\<lambda>s. s\<lparr>vs_is_active := False\<rparr>) (vip_subs d);
                      sub = (\<lambda>i. \<lparr>vs_id = i, vs_user_tg_id = tg, vs_plan_code = plan_code,
                        vs_started_at = Aware now, vs_expires_at = expires_at,
                        vs_payment_order_id = payment_order_id, vs_is_active = True,
                        vs_created_at = Aware now\<rparr>);
                      d1 = d\<lparr>vip_subs := insert_row sub off\<rparr>
                  in Inr (upd_user tg (\<lambda>v. v\<lparr>u_is_vip := True, u_vip_expires_at := Some expires_at,
                            u_vip_quota := 5\<rparr>) d1,
                          sub (next_id (vip_subs d))))))"

section \<open>Status queries\<close>

definition is_vip_active :: "int \<Rightarrow> int \<Rightarrow> db \<Rightarrow> bool" where
  "is_vip_active now tg d =
     (case get_user d tg of
        None \<Rightarrow> False
      | Some u \<Rightarrow> u_is_vip u \<and>
          (case u_vip_expires_at u of
             None \<Rightarrow> False
           | Some e \<Rightarrow> (case dt_gt (as_utc e) (Aware now) of Inl _ \<Rightarrow> False | Inr r \<Rightarrow> r)))"

text \<open>\<open>timedelta.days\<close> is the floor of the difference.\<close>

definition get_remaining_days :: "int \<Rightarrow> int \<Rightarrow> db \<Rightarrow> int" where
  "get_remaining_days now tg d =
     (case get_user d tg of
        None \<Rightarrow> 0
      | Some u \<Rightarrow> (case u_vip_expires_at u of
            None \<Rightarrow> 0
          | Some e \<Rightarrow> max 0 ((instant e - now) div day_us)))"

definition get_subscription_history :: "int \<Rightarrow> nat \<Rightarrow> db \<Rightarrow> vip_subscription list" where
  "get_subscription_history tg limit d = take limit
     (sort_key (\<lambda>s. - instant (vs_created_at s))
       (sel_where (\<lambda>s. vs_user_tg_id s = tg) (vip_subs d)))"

section \<open>Expiry\<close>

text \<open>
  The session does not flush before queries (\<open>autoflush=False\<close>): the lookup of another active
  subscription sees the table without the loop's pending \<open>is_active = False\<close>, which the
  final commit writes.
\<close>

definition due :: "int \<Rightarrow> vip_subscription \<Rightarrow> bool" where
  "due now s \<longleftrightarrow> vs_is_active s \<and> instant (vs_expires_at s) < now"

definition other_active :: "vip_subscription \<Rightarrow> db \<Rightarrow> bool" where
  "other_active sub d \<longleftrightarrow> sel_where
     (\<lambda>s. vs_user_tg_id s = vs_user_tg_id sub \<and> vs_is_active s \<and> vs_id s \<noteq> vs_id sub) (vip_subs d) \<noteq> []"

definition drop_vip :: "user \<Rightarrow> user" where
  "drop_vip u = u\<lparr>u_is_vip := False, u_vip_quota := 0\<rparr>"

definition expire_step :: "vip_subscription \<Rightarrow> db \<times> int list \<Rightarrow> db \<times> int list" where
  "expire_step sub = (\<lambda>(d, gone).
     if other_active sub d then (d, gone)
     else (upd_user (vs_user_tg_id sub) drop_vip d, gone @ [vs_user_tg_id sub]))"

definition expire_due_subscriptions :: "int \<Rightarrow> db \<Rightarrow> db \<times> int list \<times> nat" where
  "expire_due_subscriptions now d =
     (let expired_subs = sel_where (due now) (vip_subs d);
          (d1, expired_user_ids) = fold expire_step expired_subs (d, []);
          pending = vs_id ` set expired_subs
      in (d1\<lparr>vip_subs := upd_where (\<lambda>s. vs_id s \<in> pending)
                (\<lambda>s. s\<lparr>vs_is_active := False\<rparr>) (vip_subs d1)\<rparr>,
          expired_user_ids, length expired_subs))"

section \<open>Lemmas\<close>

definition active_subs :: "int \<Rightarrow> db \<Rightarrow> vip_subscription list" where
  "active_subs tg d = sel_where (active_sub_of tg) (vip_subs d)"

text \<open>Ids are unique and below the counter, and a user has at most one active subscription.\<close>

definition subs_ok :: "db \<Rightarrow> bool" where
  "subs_ok d \<longleftrightarrow> distinct (map vs_id (rows (vip_subs d))) \<and>
     (\<forall>s\<in>set (rows (vip_subs d)). vs_id s < next_id (vip_subs d)) \<and>
     (\<forall>tg. length (active_subs tg d) \<le> 1)"

lemma vip_frames [simp]:
  "vip_subs (upd_user tg f d) = vip_subs d" "other_active s (upd_user tg f d) = other_active s d"
  by (simp_all add: upd_user_def other_active_def)

lemma expire_step_simp [simp]:
  "expire_step s (d, g) = (if other_active s d then (d, g)
     else (upd_user (vs_user_tg_id s) drop_vip d, g @ [vs_user_tg_id s]))"
  by (simp add: expire_step_def)

lemma fold_expire_subs [simp]: "vip_subs (fst (fold expire_step xs (d, g))) = vip_subs d"
  by (induction xs arbitrary: d g) simp_all

lemma drop_vip_sel [simp]: "u_tg_id (drop_vip u) = u_tg_id u" "drop_vip (drop_vip u) = drop_vip u"
  by (simp_all add: drop_vip_def)

text \<open>Which user rows the loop changes: those of a due subscription without another.\<close>

lemma fold_expire_user:
  "get_user (fst (fold expire_step xs (d, g))) tg =
    (if \<exists>s\<in>set xs. vs_user_tg_id s = tg \<and> \<not> other_active s d
     then map_option drop_vip (get_user d tg) else get_user d tg)"
  by (induction xs arbitrary: d g)
    (auto simp: get_upd_user option.map_comp comp_def)

lemma expire_view:
  assumes "expire_due_subscriptions now d = (d', gone, n)"
  shows "get_user d' tg = get_user (fst (fold expire_step (sel_where (due now) (vip_subs d)) (d, []))) tg"
    and "vip_subs d' = upd_where (\<lambda>s. vs_id s \<in> vs_id ` set (sel_where (due now) (vip_subs d)))
          (\<lambda>s. s\<lparr>vs_is_active := False\<rparr>) (vip_subs d)"
    and "n = length (sel_where (due now) (vip_subs d))"
proof -
  obtain d1 g where f: "fold expire_step (sel_where (due now) (vip_subs d)) (d, []) = (d1, g)"
    by (cases "fold expire_step (sel_where (due now) (vip_subs d)) (d, [])")
  then have v: "vip_subs d1 = vip_subs d" using fold_expire_subs by (metis fst_conv)
  from assms f show "get_user d' tg =
      get_user (fst (fold expire_step (sel_where (due now) (vip_subs d)) (d, []))) tg"
    and "vip_subs d' = upd_where (\<lambda>s. vs_id s \<in> vs_id ` set (sel_where (due now) (vip_subs d)))
          (\<lambda>s. s\<lparr>vs_is_active := False\<rparr>) (vip_subs d)"
    and "n = length (sel_where (due now) (vip_subs d))"
    by (auto simp: expire_due_subscriptions_def Let_def get_user_def v)
qed

lemma key_in_filter:
  assumes "distinct (map key xs)" and "s \<in> set xs"
  shows "key s \<in> key ` set (filter P xs) \<longleftrightarrow> P s"
proof
  assume "key s \<in> key ` set (filter P xs)"
  then obtain r where "r \<in> set xs" "P r" "key r = key s" by auto
  then show "P s" using assms distinct_key_eq by metis
next
  assume "P s"
  then show "key s \<in> key ` set (filter P xs)" using assms(2) by auto
qed

lemma in_active_subs: "s \<in> set (active_subs tg d) \<longleftrightarrow>
    s \<in> set (rows (vip_subs d)) \<and> vs_user_tg_id s = tg \<and> vs_is_active s"
  by (auto simp: active_subs_def active_sub_of_def sel_where_def)

lemma no_other_active:
  assumes "subs_ok d" and "s \<in> set (rows (vip_subs d))" and "vs_is_active s"
  shows "\<not> other_active s d"
proof
  assume "other_active s d"
  then obtain r where r: "r \<in> set (active_subs (vs_user_tg_id s) d)" "vs_id r \<noteq> vs_id s"
    by (auto simp: other_active_def sel_where_def filter_empty_conv in_active_subs)
  moreover have "s \<in> set (active_subs (vs_user_tg_id s) d)"
    using assms by (simp add: in_active_subs)
  moreover have "length (active_subs (vs_user_tg_id s) d) \<le> 1"
    using assms(1) by (simp add: subs_ok_def)
  ultimately show False
    by (cases "active_subs (vs_user_tg_id s) d" rule: list.exhaust) auto
qed

text \<open>Switching rows off keeps the invariant.\<close>

lemma filter_upd_list_off:
  assumes "\<And>s. P s \<Longrightarrow> vs_is_active s"
  shows "filter P (upd_list Q (\<lambda>s. s\<lparr>vs_is_active := False\<rparr>) xs) = filter (\<lambda>s. P s \<and> \<not> Q s) xs"
  using assms by (induction xs) (fastforce simp: upd_list_def)+

lemma subs_off:
  assumes "vip_subs d' = upd_where Q (\<lambda>s. s\<lparr>vs_is_active := False\<rparr>) (vip_subs d)"
  shows "active_subs tg d' = filter (\<lambda>s. \<not> Q s) (active_subs tg d)"
    and "map vs_id (rows (vip_subs d')) = map vs_id (rows (vip_subs d))"
    and "next_id (vip_subs d') = next_id (vip_subs d)"
proof -
  show "active_subs tg d' = filter (\<lambda>s. \<not> Q s) (active_subs tg d)"
    using filter_upd_list_off [of "active_sub_of tg" Q "rows (vip_subs d)"]
    by (simp add: active_subs_def sel_where_def assms active_sub_of_def conj_commute)
  show "map vs_id (rows (vip_subs d')) = map vs_id (rows (vip_subs d))"
    by (simp add: assms upd_list_keys)
  show "next_id (vip_subs d') = next_id (vip_subs d)" by (simp add: assms)
qed

lemma subs_ok_off:
  assumes "vip_subs d' = upd_where Q (\<lambda>s. s\<lparr>vs_is_active := False\<rparr>) (vip_subs d)" and "subs_ok d"
  shows "subs_ok d'"
proof -
  have m: "vs_id ` set (rows (vip_subs d')) = vs_id ` set (rows (vip_subs d))"
    using subs_off(2) [OF assms(1)] by (metis set_map)
  have "\<forall>s\<in>set (rows (vip_subs d')). vs_id s < next_id (vip_subs d')"
  proof
    fix s assume "s \<in> set (rows (vip_subs d'))"
    then have "vs_id s \<in> vs_id ` set (rows (vip_subs d))" unfolding m [symmetric] by (rule imageI)
    then show "vs_id s < next_id (vip_subs d')"
      using assms(2) subs_off(3) [OF assms(1)] by (auto simp: subs_ok_def)
  qed
  moreover have "length (active_subs tg d') \<le> 1" for tg
    using assms(2) by (auto simp: subs_off(1) [OF assms(1)] subs_ok_def intro: le_trans [OF length_filter_le])
  ultimately show ?thesis using assms(2) subs_off(2) [OF assms(1)] by (simp add: subs_ok_def)
qed

section \<open>Properties\<close>

text \<open>Expiry, as long as a user has at most one active subscription (which activation
  guarantees): exactly the due subscriptions are switched off and counted, their owners lose
  the VIP flag and quota, every other user and subscription is left alone, and the condition
  holds again.\<close>

theorem expire_due_complete:
  assumes "subs_ok d" and "expire_due_subscriptions now d = (d', gone, n)"
  shows "get_user d' tg = (if \<exists>s\<in>set (active_subs tg d). instant (vs_expires_at s) < now
           then map_option drop_vip (get_user d tg) else get_user d tg) \<and>
    active_subs tg d' = filter (\<lambda>s. \<not> instant (vs_expires_at s) < now) (active_subs tg d) \<and>
    subs_ok d' \<and> n = length (filter (due now) (rows (vip_subs d)))"
proof -
  let ?D = "sel_where (due now) (vip_subs d)"
  note v = expire_view [OF assms(2)]
  have due: "s \<in> set ?D \<longleftrightarrow> s \<in> set (rows (vip_subs d)) \<and> due now s" for s
    by (auto simp: sel_where_def)
  have ids: "vs_id s \<in> vs_id ` set ?D \<longleftrightarrow> due now s" if "s \<in> set (rows (vip_subs d))" for s
    using key_in_filter [OF _ that, of vs_id "due now"] assms(1)
    by (simp only: subs_ok_def sel_where_def)
  have "(\<exists>s\<in>set ?D. vs_user_tg_id s = tg \<and> \<not> other_active s d) \<longleftrightarrow>
      (\<exists>s\<in>set (active_subs tg d). instant (vs_expires_at s) < now)"
    using no_other_active [OF assms(1)] by (auto simp: due in_active_subs due_def)
  moreover have "active_subs tg d' = filter (\<lambda>s. \<not> instant (vs_expires_at s) < now) (active_subs tg d)"
    unfolding subs_off(1) [OF v(2)]
  proof (rule filter_cong)
    fix s assume "s \<in> set (active_subs tg d)"
    then have "s \<in> set (rows (vip_subs d))" "vs_is_active s" by (simp_all add: in_active_subs)
    with ids [of s] show "(\<not> vs_id s \<in> vs_id ` set ?D) = (\<not> instant (vs_expires_at s) < now)"
      by (simp add: due_def)
  qed simp
  ultimately show ?thesis
    using subs_ok_off [OF v(2) assms(1)] v(3)
    by (simp add: v(1) fold_expire_user) (simp add: sel_where_def)
qed

text \<open>A user with two due subscriptions is never downgraded: each is spared because the
  other still reads as active, both are switched off, and the next run does not look at them
  again, so the VIP flag stays for ever.\<close>

theorem expire_two_subs_keeps_vip:
  assumes "expire_due_subscriptions now d = (d', gone, n)"
    and "\<forall>s\<in>set (active_subs tg d). instant (vs_expires_at s) < now"
    and "s1 \<in> set (active_subs tg d)" and "s2 \<in> set (active_subs tg d)" and "vs_id s1 \<noteq> vs_id s2"
    and "expire_due_subscriptions later d' = (d'', gone', m)"
  shows "get_user d' tg = get_user d tg \<and> active_subs tg d' = [] \<and> get_user d'' tg = get_user d tg"
proof -
  note v = expire_view [OF assms(1)] and w = expire_view [OF assms(6)]
  have other: "other_active s d" if "s \<in> set (rows (vip_subs d))" "vs_user_tg_id s = tg" for s
    using that assms(3-5)
    by (cases "vs_id s = vs_id s1")
      (auto simp: other_active_def sel_where_def filter_empty_conv in_active_subs)
  then have one: "get_user d' tg = get_user d tg"
    by (auto simp: v(1) fold_expire_user sel_where_def)
  have none: "active_subs tg d' = []"
    using assms(2) by (auto simp: subs_off(1) [OF v(2)] filter_empty_conv sel_where_def due_def in_active_subs)
  then have "\<not> (\<exists>s\<in>set (sel_where (due later) (vip_subs d')). vs_user_tg_id s = tg)"
    by (auto simp: sel_where_def due_def active_subs_def active_sub_of_def filter_empty_conv)
  then have "get_user d'' tg = get_user d' tg"
    by (auto simp: w(1) fold_expire_user)
  with one none show ?thesis by simp
qed

lemma activate_cases:
  assumes "activate_subscription now plans tg code oid d = Inr (d', sub)"
  obtains plan u where "map_of plans code = Some plan" "get_user d tg = Some u"
    "extended_expiry now (vp_duration_days plan) u = Inr (vs_expires_at sub)"
    "sub = \<lparr>vs_id = next_id (vip_subs d), vs_user_tg_id = tg, vs_plan_code = code,
       vs_started_at = Aware now, vs_expires_at = vs_expires_at sub,
       vs_payment_order_id = oid, vs_is_active = True, vs_created_at = Aware now\<rparr>"
    "vip_subs d' = insert_row (\<lambda>i. sub\<lparr>vs_id := i\<rparr>)
       (upd_where (active_sub_of tg) (\<lambda>s. s\<lparr>vs_is_active := False\<rparr>) (vip_subs d))"
    "users d' = users (upd_user tg (\<lambda>v. v\<lparr>u_is_vip := True,
       u_vip_expires_at := Some (vs_expires_at sub), u_vip_quota := 5\<rparr>) d)"
proof -
  obtain plan u where p: "map_of plans code = Some plan" "get_user d tg = Some u"
    using assms by (auto simp: activate_subscription_def split: option.splits)
  with assms obtain e where e: "extended_expiry now (vp_duration_days plan) u = Inr e"
    by (cases "extended_expiry now (vp_duration_days plan) u")
      (simp_all add: activate_subscription_def)
  from assms show thesis
    by (intro that [of plan u])
      (auto simp: activate_subscription_def p e Let_def upd_user_def)
qed

lemma extended_expiry_instant:
  "extended_expiry now n u = Inr e \<Longrightarrow> instant e =
    (case u_vip_expires_at u of
       Some x \<Rightarrow> if u_is_vip u then max now (instant x) else now
     | None \<Rightarrow> now) + n * day_us"
  by (auto simp: extended_expiry_def Let_def dest!: dt_gt_Inr
      split: if_splits option.splits sum.splits)

text \<open>A successful activation adds the plan's days to the later of now and the running
  expiry, sets the flag and a quota of five, and leaves exactly the new subscription active
  for this user; other users and their subscriptions are untouched, and the condition that
  expiry relies on (at most one active subscription each) is kept.\<close>

theorem activate_subscription_effect:
  assumes "activate_subscription now plans tg code oid d = Inr (d', sub)" and "subs_ok d"
  shows "\<exists>plan u. map_of plans code = Some plan \<and> get_user d tg = Some u \<and>
    instant (vs_expires_at sub) = (case u_vip_expires_at u of
        Some x \<Rightarrow> if u_is_vip u then max now (instant x) else now
      | None \<Rightarrow> now) + vp_duration_days plan * day_us \<and>
    get_user d' tg = Some (u\<lparr>u_is_vip := True, u_vip_expires_at := Some (vs_expires_at sub),
      u_vip_quota := 5\<rparr>) \<and>
    is_vip_active now tg d' = (now < instant (vs_expires_at sub)) \<and>
    active_subs tg d' = [sub] \<and> subs_ok d' \<and>
    (\<forall>k. k \<noteq> tg \<longrightarrow> get_user d' k = get_user d k \<and> active_subs k d' = active_subs k d)"
  using assms(1)
proof (cases rule: activate_cases)
  case (1 plan u)
  define off where "off = d\<lparr>vip_subs :=
    upd_where (active_sub_of tg) (\<lambda>s. s\<lparr>vs_is_active := False\<rparr>) (vip_subs d)\<rparr>"
  have vo: "vip_subs off = upd_where (active_sub_of tg) (\<lambda>s. s\<lparr>vs_is_active := False\<rparr>) (vip_subs d)"
    by (simp add: off_def)
  have sub: "vs_user_tg_id sub = tg" "vs_is_active sub" "vs_id sub = next_id (vip_subs d)"
    using 1(4) by (metis vip_subscription.select_convs)+
  have subi: "sub\<lparr>vs_id := next_id (vip_subs d)\<rparr> = sub" using sub(3) by (cases sub) simp
  have act: "active_subs k d' = (if k = tg then [sub] else active_subs k d)" for k
  proof -
    have "active_subs k off = (if k = tg then [] else active_subs k d)"
      unfolding subs_off(1) [OF vo]
      by (auto simp: in_active_subs active_sub_of_def filter_empty_conv intro!: filter_True)
    then show ?thesis
      using sub by (simp add: active_subs_def sel_where_def active_sub_of_def 1(5) vo subi)
  qed
  have us: "get_user d' k = (if k = tg then Some (u\<lparr>u_is_vip := True,
      u_vip_expires_at := Some (vs_expires_at sub), u_vip_quota := 5\<rparr>) else get_user d k)" for k
    using get_user_cong [OF 1(6), of k] by (simp add: get_upd_user 1(2))
  have "subs_ok off" by (rule subs_ok_off [OF vo assms(2)])
  moreover have r: "rows (vip_subs d') = rows (vip_subs off) @ [sub]"
    "next_id (vip_subs d') = next_id (vip_subs off) + 1" "vs_id sub = next_id (vip_subs off)"
    using subi sub(3) by (simp_all add: 1(5) vo insert_row_def)
  moreover have "length (active_subs k d') \<le> 1" for k
    using assms(2) by (simp add: act subs_ok_def)
  ultimately have "subs_ok d'" by (auto simp: subs_ok_def)
  moreover have "is_vip_active now tg d' = (now < instant (vs_expires_at sub))"
    by (simp add: is_vip_active_def us as_utc_def)
  ultimately show ?thesis
    using 1(1,2) us act extended_expiry_instant [OF 1(3)] by auto
qed

text \<open>Whatever the representation of a live VIP user's stored expiry, one of the two code
  paths that compare it raises: charging for a match compares with a naive now, renewing the
  subscription with an aware one.  On a driver that reads naive values every renewal fails.\<close>

theorem vip_expiry_representation_clash:
  assumes "get_user d tg = Some u" and "u_is_vip u" and "u_vip_expires_at u = Some e"
    and "0 < cost" and "map_of plans code = Some plan"
  shows "(consume_vip_quota_or_coin now tg cost descr ref d = Inl TypeError) = (\<not> is_Naive e) \<and>
    (activate_subscription now' plans tg code oid d = Inl TypeError) = is_Naive e"
  using assms by (cases e)
    (simp_all add: consume_vip_quota_or_coin_def vip_flag_active_def activate_subscription_def
      extended_expiry_def Let_def)

section \<open>Concrete instances\<close>

definition sub_of :: "int \<Rightarrow> int \<Rightarrow> int \<Rightarrow> vip_subscription" where
  "sub_of i tg expires = \<lparr>vs_id = i, vs_user_tg_id = tg, vs_plan_code = ''1w'',
     vs_started_at = Naive 0, vs_expires_at = Naive expires, vs_payment_order_id = None,
     vs_is_active = True, vs_created_at = Naive 0\<rparr>"

definition vip_db :: "vip_subscription list \<Rightarrow> db" where
  "vip_db subs = demo_db\<lparr>users := \<lparr>rows = [alice\<lparr>u_is_vip := True,
      u_vip_expires_at := Some (Naive 50)\<rparr>, bob], next_id = 3\<rparr>,
     vip_subs := \<lparr>rows = subs, next_id = 9\<rparr>\<rparr>"

lemma vip_db_facts [simp]:
  "vip_subs (vip_db subs) = \<lparr>rows = subs, next_id = 9\<rparr>"
  "get_user (vip_db subs) 1 = Some (alice\<lparr>u_is_vip := True, u_vip_expires_at := Some (Naive 50)\<rparr>)"
  "get_user (vip_db subs) 2 = Some bob"
  by (simp_all add: vip_db_def get_user_def by_key_def)

lemma vip_db_ok: "subs_ok (vip_db [sub_of 1 1 50])" "subs_ok (vip_db [])"
  by (simp_all add: subs_ok_def active_subs_def active_sub_of_def sel_where_def sub_of_def)

lemma expire_due_complete_witness:
  "get_user (fst (expire_due_subscriptions 60 (vip_db [sub_of 1 1 50]))) 1
    = Some (drop_vip (alice\<lparr>u_is_vip := True, u_vip_expires_at := Some (Naive 50)\<rparr>))"
proof -
  obtain d' g n where "expire_due_subscriptions 60 (vip_db [sub_of 1 1 50]) = (d', g, n)"
    by (metis prod_cases3)
  then show ?thesis
    using expire_due_complete [OF vip_db_ok(1), of 60 d' g n 1]
    by (simp add: active_subs_def active_sub_of_def sel_where_def sub_of_def)
qed

lemma expire_two_subs_keeps_vip_witness:
  "map_option u_is_vip (get_user (fst (expire_due_subscriptions 99
     (fst (expire_due_subscriptions 60 (vip_db [sub_of 1 1 50, sub_of 2 1 40]))))) 1) = Some True"
proof -
  let ?d = "vip_db [sub_of 1 1 50, sub_of 2 1 40]"
  obtain d' g n where a: "expire_due_subscriptions 60 ?d = (d', g, n)" by (metis prod_cases3)
  obtain d'' g' m where b: "expire_due_subscriptions 99 d' = (d'', g', m)" by (metis prod_cases3)
  have "get_user d'' 1 = get_user ?d 1"
    using expire_two_subs_keeps_vip [OF a _ _ _ _ b, of 1 "sub_of 1 1 50" "sub_of 2 1 40"]
    by (simp add: active_subs_def active_sub_of_def sel_where_def sub_of_def)
  then show ?thesis using a b by simp
qed

lemma activate_subscription_effect_witness:
  "\<exists>d' sub. activate_subscription 60 default_plans 2 ''1w'' None (vip_db []) = Inr (d', sub) \<and>
     is_vip_active 60 2 d' \<and> instant (vs_expires_at sub) = 60 + 7 * day_us"
proof -
  obtain d' sub where a: "activate_subscription 60 default_plans 2 ''1w'' None (vip_db [])
      = Inr (d', sub)"
    by (simp add: activate_subscription_def default_plans_def extended_expiry_def Let_def)
  have "map_of default_plans ''1w'' = Some \<lparr>vp_code = ''1w'', vp_duration_days = 7, vp_price_toman = 30000\<rparr>"
    by (simp add: default_plans_def)
  with activate_subscription_effect [OF a vip_db_ok(2)] a show ?thesis
    by (auto simp: day_us_def split: option.splits)
qed

lemma vip_expiry_representation_clash_witness:
  "activate_subscription 10 default_plans 1 ''1m'' (Some 4) (vip_db []) = Inl TypeError"
  using vip_expiry_representation_clash [of "vip_db []" 1 "alice\<lparr>u_is_vip := True,
      u_vip_expires_at := Some (Naive 50)\<rparr>" "Naive 50" 1 default_plans "''1m''"
      "\<lparr>vp_code = ''1m'', vp_duration_days = 30, vp_price_toman = 95000\<rparr>" 10 TxMatchCost None 10 "Some 4"]
  by (simp add: default_plans_def)

end
