(* ===== verification/Referral.thy ===== *)
theory Referral
  imports Vip
begin

text \<open>
  \<open>services/referral_engine.py\<close>: referral codes, attribution of a new user to a referrer, the
  commission on a purchase and the referrer's statistics.  Random draws are an argument: the
  codes \<open>generate_referral_code\<close> returns, in order.
\<close>

section \<open>Codes\<close>

text \<open>\<open>ascii_uppercase + digits\<close> with O, 0, I and 1 removed.\<close>

definition code_alphabet :: string where
  "code_alphabet = filter (\<lambda>c. c \<notin> set ''O0I1'') (''ABCDEFGHIJKLMNOPQRSTUVWXYZ'' @ ''0123456789'')"

text \<open>\<open>secrets.choice\<close> takes the character at a random index below the length.\<close>

definition generate_referral_code :: "nat list \<Rightarrow> string" where
  "generate_referral_code draws = map (\<lambda>i. code_alphabet ! (i mod length code_alphabet)) draws"

definition build_referral_link :: "string \<Rightarrow> string \<Rightarrow> string" where
  "build_referral_link code bot_username = ''https://t.me/'' @ bot_username @ ''?start=ref_'' @ code"

definition set_code :: "int \<Rightarrow> string \<Rightarrow> db \<Rightarrow> db" where
  "set_code tg code d = upd_user tg (\<lambda>u. u\<lparr>u_referral_code := Some code\<rparr>) d"

definition code_taken :: "string \<Rightarrow> db \<Rightarrow> bool" where
  "code_taken code d \<longleftrightarrow> sel_where (\<lambda>u. u_referral_code u = Some code) (users d) \<noteq> []"

text \<open>Up to five draws, then the fallback, which is not checked.\<close>

definition ensure_referral_code :: "string \<Rightarrow> string list \<Rightarrow> int \<Rightarrow> db \<Rightarrow> db \<times> string" where
  "ensure_referral_code fallback draws tg d =
     (let code = (case get_user d tg of None \<Rightarrow> None | Some u \<Rightarrow> u_referral_code u)
      in if truthy code then (d, the code)
         else case find (\<lambda>c. \<not> code_taken c d) (take 5 draws) of
                Some c \<Rightarrow> (set_code tg c d, c)
              | None \<Rightarrow> (set_code tg fallback d, fallback))"

section \<open>Attribution\<close>

definition strip_ref_prefix :: "string \<Rightarrow> string" where
  "strip_ref_prefix s = (if take 4 s = ''ref_'' then drop 4 s else s)"

definition attribute_referral :: "int \<Rightarrow> string \<Rightarrow> db \<Rightarrow> db \<times> bool" where
  "attribute_referral new_tg code d =
     (if code = [] then (d, False)
      else case first_where (\<lambda>u. u_referral_code u = Some (strip_ref_prefix code)) (users d) of
             None \<Rightarrow> (d, False)
           | Some referrer \<Rightarrow>
               if u_tg_id referrer = new_tg then (d, False)
               else (upd_user new_tg (\<lambda>u. u\<lparr>u_referrer_id := Some (u_tg_id referrer)\<rparr>) d, True))"

section \<open>Commission\<close>

definition earn_commission :: "int \<Rightarrow> user \<Rightarrow> user" where
  "earn_commission n u = (earn n u)\<lparr>u_referral_earnings := u_referral_earnings u + n\<rparr>"

definition process_commission_on_purchase ::
  "int \<Rightarrow> int \<Rightarrow> int \<Rightarrow> int \<Rightarrow> int \<Rightarrow> db \<Rightarrow> db \<times> referral_commission option" where
  "process_commission_on_purchase now pct order_id buyer coins d =
     (if coins \<le> 0 then (d, None)
      else case get_user d buyer of
        None \<Rightarrow> (d, None)
      | Some b \<Rightarrow>
         (case u_referrer_id b of
            None \<Rightarrow> (d, None)
          | Some rid \<Rightarrow>
              if rid = 0 then (d, None)
              else
                let commission = (coins * pct) div 100
                in if commission \<le> 0 then (d, None)
                   else case get_user d rid of
                     None \<Rightarrow> (d, None)
                   | Some r \<Rightarrow>
                       let row = (\<lambda>i. \<lparr>rc_id = i, rc_referrer_tg_id = rid, rc_referred_tg_id = buyer,
                             rc_purchase_order_id = order_id, rc_commission_pct = pct,
                             rc_commission_coins = commission, rc_created_at = Aware now\<rparr>);
                           d1 = upd_user rid (earn_commission commission) d;
                           d2 = d1\<lparr>commissions := insert_row row (commissions d1)\<rparr>;
                           d3 = add_coin_tx now rid commission (TxCommission pct) (Some order_id)
                                  ''referral_commission'' d2
                       in (d3, Some (row (next_id (commissions d))))))"

record referral_stats =
  rs_total_referred :: nat
  rs_total_commission :: int
  rs_recent :: "referral_commission list"

definition get_referral_stats :: "int \<Rightarrow> db \<Rightarrow> referral_stats" where
  "get_referral_stats tg d =
     (let mine = sel_where (\<lambda>c. rc_referrer_tg_id c = tg) (commissions d)
      in \<lparr>rs_total_referred = length (sel_where (\<lambda>u. u_referrer_id u = Some tg) (users d)),
          rs_total_commission = sum_list (map rc_commission_coins mine),
          rs_recent = take 10 (sort_key (\<lambda>c. - instant (rc_created_at c)) mine)\<rparr>)"

section \<open>Lemmas\<close>

text \<open>No two users share a code.  (The column is unique.)\<close>

definition codes_unique :: "db \<Rightarrow> bool" where
  "codes_unique d \<longleftrightarrow> (\<forall>u\<in>set (rows (users d)). \<forall>v\<in>set (rows (users d)).
     u_referral_code u \<noteq> None \<and> u_referral_code u = u_referral_code v \<longrightarrow> u_tg_id u = u_tg_id v)"

definition no_self_referral :: "db \<Rightarrow> bool" where
  "no_self_referral d \<longleftrightarrow> (\<forall>u\<in>set (rows (users d)). u_referrer_id u \<noteq> Some (u_tg_id u))"

text \<open>A referrer's recorded earnings are the sum of the commission rows.\<close>

definition earnings_match :: "db \<Rightarrow> bool" where
  "earnings_match d \<longleftrightarrow> (\<forall>tg u. get_user d tg = Some u \<longrightarrow>
     u_referral_earnings u = rs_total_commission (get_referral_stats tg d))"

lemma earn_commission_sel [simp]:
  "u_tg_id (earn_commission n u) = u_tg_id u"
  "u_coin_balance (earn_commission n u) = u_coin_balance u + n"
  "u_total_earned_coins (earn_commission n u) = u_total_earned_coins u + n"
  "u_total_spent_coins (earn_commission n u) = u_total_spent_coins u"
  "u_referral_earnings (earn_commission n u) = u_referral_earnings u + n"
  by (simp_all add: earn_commission_def)

lemma moves_balance_commission: "moves_balance earn_commission"
  by (simp add: moves_balance_def)

interpretation commission: ledger account_ids coin_balance logged_coins
  "coin_move earn_commission now descr ref ty" users_unique for now descr ref ty
  by (rule coin_move_ledger [OF moves_balance_commission])

lemma commission_cases:
  assumes "process_commission_on_purchase now pct oid buyer coins d = (d', res)"
  obtains (none) "res = None" "d' = d"
  | (paid) b r rid where "0 < coins" "get_user d buyer = Some b" "u_referrer_id b = Some rid"
      "get_user d rid = Some r" "0 < coins * pct div 100"
      "res = Some \<lparr>rc_id = next_id (commissions d), rc_referrer_tg_id = rid,
         rc_referred_tg_id = buyer, rc_purchase_order_id = oid, rc_commission_pct = pct,
         rc_commission_coins = coins * pct div 100, rc_created_at = Aware now\<rparr>"
      "users d' = users (upd_user rid (earn_commission (coins * pct div 100)) d)"
      "coin_txs d' = coin_txs (coin_move earn_commission now (TxCommission pct) (Some oid)
         ''referral_commission'' rid (coins * pct div 100) d)"
      "rows (commissions d') = rows (commissions d) @ [the res]"
proof (cases res)
  case None
  with assms have "d' = d"
    by (simp add: process_commission_on_purchase_def Let_def split: if_splits option.splits)
  with None show ?thesis by (rule none)
next
  case (Some c)
  with assms obtain b where b: "get_user d buyer = Some b"
    by (cases "get_user d buyer") (simp_all add: process_commission_on_purchase_def split: if_splits)
  with Some assms obtain rid where rid: "u_referrer_id b = Some rid"
    by (cases "u_referrer_id b") (simp_all add: process_commission_on_purchase_def split: if_splits)
  with Some assms b obtain r where "get_user d rid = Some r"
    by (cases "get_user d rid")
      (simp_all add: process_commission_on_purchase_def Let_def split: if_splits)
  with Some assms b rid show ?thesis
    by (intro paid [of b rid r])
      (auto simp: process_commission_on_purchase_def Let_def coin_move_def upd_user_def
        add_coin_tx_def split: if_splits)
qed

lemma stats_total:
  "rs_total_commission (get_referral_stats tg d) = sum_list
     (map rc_commission_coins (filter (\<lambda>c. rc_referrer_tg_id c = tg) (rows (commissions d))))"
  by (simp add: get_referral_stats_def Let_def sel_where_def)

section \<open>Properties\<close>

text \<open>The commission on a purchase either changes nothing or pays the buyer's referrer the
  given share of the coins, rounded down, and only the referrer: the ledger and the totals
  stay consistent, and the referrer's earnings stay equal to what the statistics sum up.\<close>

theorem commission_effect:
  assumes "process_commission_on_purchase now pct oid buyer coins d = (d', res)"
    and "users_unique d" and "ledger_ok d" and "totals_ok d" and "earnings_match d"
  shows "ledger_ok d' \<and> totals_ok d' \<and> earnings_match d' \<and>
    (case res of
       None \<Rightarrow> d' = d
     | Some c \<Rightarrow> 0 < rc_commission_coins c \<and> 100 * rc_commission_coins c \<le> coins * pct \<and>
         coins * pct < 100 * (rc_commission_coins c + 1) \<and>
         map_option u_referrer_id (get_user d buyer) = Some (Some (rc_referrer_tg_id c)) \<and>
         total_coins d' = total_coins d + rc_commission_coins c \<and>
         (\<forall>k. coin_balance d' k = coin_balance d k +
            (if k = rc_referrer_tg_id c then rc_commission_coins c else 0)))"
  using assms(1)
proof (cases rule: commission_cases)
  case none
  then show ?thesis using assms by simp
next
  case (paid b r rid)
  let ?n = "coins * pct div 100"
  let ?m = "coin_move earn_commission now (TxCommission pct) (Some oid) ''referral_commission'' rid ?n d"
  have rid: "rid \<in> account_ids d" using paid(4) by (simp add: account_ids_iff)
  note v = coin_move_view [where f = earn_commission, OF paid(7,8)]
  have "ledger_ok d'"
    using ledger_ok_move [OF moves_balance_commission assms(2,3) rid] v(3) by simp
  moreover have "totals_ok d'"
    using totals_ok_upd_user [OF assms(4), of "earn_commission ?n" rid] v(4) by simp
  moreover have "earnings_match d'"
    using assms(5) unfolding earnings_match_def stats_total
    by (auto simp: get_user_cong [OF paid(7)] get_upd_user paid(4,6,9) split: if_splits)
  moreover have "total_coins d' = total_coins d + ?n"
    using commission.total_move [OF assms(2) rid, of now "TxCommission pct" "Some oid"
        "''referral_commission''" ?n] v(1,2) by (simp add: commission.total_def total_coins_def)
  moreover have "coin_balance d' k = coin_balance d k + (if k = rid then ?n else 0)" for k
    using commission.balance_move [OF assms(2) rid] v(2) by simp
  moreover have "100 * ?n \<le> coins * pct" "coins * pct < 100 * (?n + 1)" by simp_all
  ultimately show ?thesis using paid(2,3,5,6) by simp
qed

lemma find_SomeD: "find P xs = Some x \<Longrightarrow> x \<in> set xs \<and> P x"
  by (auto simp: find_Some_iff)

lemma code_takenI: "u \<in> set (rows (users d)) \<Longrightarrow> u_referral_code u = Some c \<Longrightarrow> code_taken c d"
  by (auto simp: code_taken_def sel_where_def filter_empty_conv)

lemma codes_unique_set:
  assumes "codes_unique d" and "\<not> code_taken c d"
  shows "codes_unique (set_code tg c d)"
proof -
  have t: "u_referral_code v \<noteq> Some c" if "v \<in> set (rows (users d))" for v
    using assms(2) that code_takenI by blast
  show ?thesis
    unfolding codes_unique_def
  proof (intro ballI impI)
    fix u v
    assume "u \<in> set (rows (users (set_code tg c d)))" "v \<in> set (rows (users (set_code tg c d)))"
    then obtain u0 v0 where o: "u0 \<in> set (rows (users d))" "v0 \<in> set (rows (users d))"
      and uv: "u = (if u_tg_id u0 = tg then u0\<lparr>u_referral_code := Some c\<rparr> else u0)"
        "v = (if u_tg_id v0 = tg then v0\<lparr>u_referral_code := Some c\<rparr> else v0)"
      by (auto simp: set_code_def upd_user_def set_upd_list)
    assume "u_referral_code u \<noteq> None \<and> u_referral_code u = u_referral_code v"
    then show "u_tg_id u = u_tg_id v"
      using bspec [OF bspec [OF assms(1) [unfolded codes_unique_def] o(1)] o(2)] t [OF o(1)] t [OF o(2)]
      by (cases "u_tg_id u0 = tg"; cases "u_tg_id v0 = tg") (simp_all add: uv)
  qed
qed

text \<open>A user who has a referral code keeps it; otherwise the returned code is stored, it is
  the first of the five draws nobody has (or the fallback), and codes stay unique across
  users provided nobody has the fallback, which the code does not check.\<close>

theorem ensure_referral_code_unique:
  assumes "ensure_referral_code fallback draws tg d = (d', c)" and "get_user d tg = Some u"
    and "codes_unique d" and "\<not> code_taken fallback d"
  shows "codes_unique d' \<and> map_option u_referral_code (get_user d' tg) = Some (Some c) \<and>
    (truthy (u_referral_code u) \<longrightarrow> d' = d) \<and>
    (\<not> truthy (u_referral_code u) \<longrightarrow> \<not> code_taken c d \<and> (c \<in> set (take 5 draws) \<or> c = fallback)) \<and>
    (\<forall>k. k \<noteq> tg \<longrightarrow> get_user d' k = get_user d k)"
proof (cases "truthy (u_referral_code u)")
  case True
  then obtain x where "u_referral_code u = Some x" by (auto simp: truthy_def)
  with True show ?thesis using assms by (simp add: ensure_referral_code_def)
next
  case False
  have c: "d' = set_code tg c d \<and> \<not> code_taken c d \<and> (c \<in> set (take 5 draws) \<or> c = fallback)"
    using assms(1,2,4) False
    by (auto simp: ensure_referral_code_def dest!: find_SomeD split: option.splits)
  then have "codes_unique d'" using codes_unique_set [OF assms(3)] by simp
  then show ?thesis using c False assms(2) by (simp add: set_code_def get_upd_user)
qed

text \<open>Attribution succeeds exactly when the code, with its link prefix removed, is another
  user's; it then records that user as the referrer, touches nobody else, never makes a user
  their own referrer, and moves no coins.\<close>

theorem attribute_referral_effect:
  assumes "attribute_referral tg code d = (d', ok)" and "get_user d tg = Some u"
    and "no_self_referral d"
  shows "no_self_referral d' \<and> coin_txs d' = coin_txs d \<and>
    (if ok then \<exists>r\<in>set (rows (users d)). u_referral_code r = Some (strip_ref_prefix code) \<and>
       u_tg_id r \<noteq> tg \<and> get_user d' tg = Some (u\<lparr>u_referrer_id := Some (u_tg_id r)\<rparr>) \<and>
       (\<forall>k. k \<noteq> tg \<longrightarrow> get_user d' k = get_user d k)
     else d' = d)"
proof (cases ok)
  case False
  then have "d' = d"
    using assms(1) by (auto simp: attribute_referral_def split: if_splits option.splits)
  then show ?thesis using False assms(3) by simp
next
  case True
  then obtain r where r: "first_where (\<lambda>u. u_referral_code u = Some (strip_ref_prefix code)) (users d) = Some r"
    using assms(1)
    by (cases "first_where (\<lambda>u. u_referral_code u = Some (strip_ref_prefix code)) (users d)")
      (simp_all add: attribute_referral_def split: if_splits)
  then have mem: "r \<in> set (rows (users d))" "u_referral_code r = Some (strip_ref_prefix code)"
    by (auto simp: first_where_def find_Some_iff)
  have ne: "u_tg_id r \<noteq> tg"
    and d': "d' = upd_user tg (\<lambda>u. u\<lparr>u_referrer_id := Some (u_tg_id r)\<rparr>) d"
    using assms(1) True r by (auto simp: attribute_referral_def split: if_splits)
  have "no_self_referral d'"
    using assms(3) ne by (auto simp: no_self_referral_def d' upd_user_def set_upd_list)
  then show ?thesis using True mem ne assms(2) by (auto simp: d' get_upd_user)
qed

section \<open>Concrete instances\<close>

definition referral_db :: db where
  "referral_db = demo_db\<lparr>users := \<lparr>rows = [alice\<lparr>u_referrer_id := Some 2\<rparr>,
     bob\<lparr>u_referral_code := Some ''ABCD2345''\<rparr>], next_id = 3\<rparr>\<rparr>"

lemma referral_db_get [simp]:
  "get_user referral_db k = (if k = 1 then Some (alice\<lparr>u_referrer_id := Some 2\<rparr>)
     else if k = 2 then Some (bob\<lparr>u_referral_code := Some ''ABCD2345''\<rparr>) else None)"
  by (simp add: referral_db_def get_user_def by_key_def)

lemma bob_code: "u_referral_code alice = None" "u_referral_code bob = None"
  "u_referral_earnings bob = 0"
  by (simp_all add: alice_def bob_def new_user_def)

lemma referral_db_ok:
  "users_unique referral_db" "ledger_ok referral_db" "totals_ok referral_db"
  "earnings_match referral_db" "codes_unique referral_db" "no_self_referral referral_db"
  "\<not> code_taken ''R1'' referral_db"
proof -
  have u: "rows (users referral_db) = [alice\<lparr>u_referrer_id := Some 2\<rparr>,
     bob\<lparr>u_referral_code := Some ''ABCD2345''\<rparr>]" by (simp add: referral_db_def)
  have c2: "rows (commissions referral_db) = []"
    by (simp add: referral_db_def demo_db_def empty_db_def empty_tbl_def)
  have c: "coin_txs referral_db = coin_txs demo_db" by (simp add: referral_db_def)
  show "users_unique referral_db" by (simp add: users_unique_def referral_db_def)
  show "ledger_ok referral_db"
    using demo_ledger logged_coins_cong [OF c]
    by (simp add: ledger_ok_def account_ids_def coin_balance_def u)
  show "totals_ok referral_db" by (simp add: totals_ok_def referral_db_def)
  show "earnings_match referral_db"
    by (simp add: earnings_match_def stats_total bob_code c2)
  show "codes_unique referral_db" by (simp add: codes_unique_def referral_db_def bob_code)
  show "no_self_referral referral_db" by (simp add: no_self_referral_def referral_db_def)
  show "\<not> code_taken ''R1'' referral_db"
    by (simp add: code_taken_def sel_where_def referral_db_def bob_code)
qed

lemma commission_effect_witness:
  "\<exists>d' c. process_commission_on_purchase 0 20 7 1 50 referral_db = (d', Some c) \<and>
     rc_commission_coins c = 10 \<and> coin_balance d' 2 = coin_balance referral_db 2 + 10"
proof -
  obtain d' res where p: "process_commission_on_purchase 0 20 7 1 50 referral_db = (d', res)"
    by (metis surj_pair)
  then obtain c where c: "res = Some c"
    by (auto simp: process_commission_on_purchase_def Let_def)
  have "100 * rc_commission_coins c \<le> 1000 \<and> 1000 < 100 * (rc_commission_coins c + 1) \<and>
      rc_referrer_tg_id c = 2 \<and> coin_balance d' 2 = coin_balance referral_db 2 +
        (if 2 = rc_referrer_tg_id c then rc_commission_coins c else 0)"
    using commission_effect [OF p referral_db_ok(1-4)] c by simp
  then show ?thesis using p c by simp
qed

lemma ensure_referral_code_unique_witness:
  "\<exists>d'. ensure_referral_code ''R1'' [''ABCD2345'', ''WXYZ6789''] 1 referral_db = (d', ''WXYZ6789'') \<and>
     codes_unique d'"
proof -
  obtain d' c where e: "ensure_referral_code ''R1'' [''ABCD2345'', ''WXYZ6789''] 1 referral_db = (d', c)"
    by (metis surj_pair)
  then have "c = ''WXYZ6789''"
    by (simp add: ensure_referral_code_def code_taken_def sel_where_def bob_code)
      (simp add: referral_db_def bob_code)
  then show ?thesis
    using e ensure_referral_code_unique [OF e _ referral_db_ok(5,7), of "alice\<lparr>u_referrer_id := Some 2\<rparr>"]
    by simp
qed

lemma attribute_referral_effect_witness:
  "\<exists>d'. attribute_referral 1 ''ref_ABCD2345'' referral_db = (d', True) \<and> no_self_referral d'"
proof -
  obtain d' ok where a: "attribute_referral 1 ''ref_ABCD2345'' referral_db = (d', ok)"
    by (metis surj_pair)
  then have ok
    by (simp add: attribute_referral_def strip_ref_prefix_def first_where_def referral_db_def bob_code)
  then show ?thesis
    using a attribute_referral_effect [OF a _ referral_db_ok(6), of "alice\<lparr>u_referrer_id := Some 2\<rparr>"]
    by simp
qed

end
