(* ===== verification/Warnings.thy ===== *)
theory Warnings
  imports Referral Matches
begin

text \<open>
  \<open>services/warning_engine.py\<close>: the three-strike warnings and the review of reports.  The
  limit and the reporter's reward are settings (\<open>MAX_WARNINGS_BEFORE_BAN\<close>,
  \<open>REPORT_REWARD_COINS\<close>).  Telegram messages and the conversation state of the two users of
  an ended match are not part of the state.
\<close>

section \<open>The contract of a review\<close>

text \<open>
  Reports and banner forwards wait for an admin's decision.  What both reviews promise: a
  decision on an item that is not pending changes nothing, a decision that changes anything
  gives the item its outcome, which is not pending, and pays out at most once, for that item
  only.  \<open>'a\<close> is a decision (who, when, approve or reject).
\<close>

locale review =
  fixes status_of :: "'s \<Rightarrow> int \<Rightarrow> status option"
    and act :: "'a \<Rightarrow> int \<Rightarrow> 's \<Rightarrow> 's"
    and outcome :: "'a \<Rightarrow> status"
    and payouts :: "'s \<Rightarrow> int \<Rightarrow> nat"
  assumes not_pending: "status_of s i \<noteq> Some Pending \<Longrightarrow> act a i s = s"
    and resolves: "act a i s \<noteq> s \<Longrightarrow> status_of (act a i s) i = Some (outcome a)"
    and others: "j \<noteq> i \<Longrightarrow> status_of (act a i s) j = status_of s j"
    and final: "outcome a \<noteq> Pending"
    and pays: "payouts (act a i s) j \<le> payouts s j + (if j = i then 1 else 0)"
begin

primrec run :: "('a \<times> int) list \<Rightarrow> 's \<Rightarrow> 's" where
  "run [] s = s"
| "run (x # xs) s = run xs (act (fst x) (snd x) s)"

lemma act_resolved: "act a i s \<noteq> s \<Longrightarrow> act b i (act a i s) = act a i s"
  using resolves [of a i s] final [of a] by (auto intro: not_pending)

lemma act_status:
  "status_of (act a i s) j = status_of s j \<or> j = i \<and> status_of (act a i s) j = Some (outcome a)"
  using resolves [of a i s] others [of j i a s] by (cases "act a i s = s"; cases "j = i") auto

lemma resolved_stays:
  assumes "status_of s i \<noteq> Some Pending"
  shows "status_of (run xs s) i = status_of s i \<and> payouts (run xs s) i \<le> payouts s i"
  using assms
proof (induction xs arbitrary: s)
  case Nil
  then show ?case by simp
next
  case (Cons x xs)
  let ?s = "act (fst x) (snd x) s"
  have st: "status_of ?s i = status_of s i"
    using Cons.prems not_pending others by (cases "i = snd x") auto
  have "payouts ?s i \<le> payouts s i"
    using Cons.prems not_pending pays [of "fst x" "snd x" s i] by (cases "i = snd x") auto
  with Cons.IH [of ?s] Cons.prems st show ?case by simp
qed

lemma paid_once:
  "payouts (run xs s) i \<le> payouts s i + (if status_of s i = Some Pending then 1 else 0)"
proof (induction xs arbitrary: s)
  case Nil
  then show ?case by simp
next
  case (Cons x xs)
  let ?s = "act (fst x) (snd x) s"
  show ?case
  proof (cases "status_of s i = Some Pending \<and> status_of ?s i \<noteq> Some Pending")
    case True
    then have "payouts (run xs ?s) i \<le> payouts ?s i" using resolved_stays by blast
    moreover have "payouts ?s i \<le> payouts s i + 1"
      using pays [of "fst x" "snd x" s i] by (simp split: if_splits)
    ultimately show ?thesis using True by simp
  next
    case False
    have "payouts ?s i \<le> payouts s i"
    proof (cases "i = snd x")
      case True
      then have "?s = s"
        using False resolves [of "fst x" i s] not_pending [of s i "fst x"] final [of "fst x"]
        by (metis option.inject)
      then show ?thesis by simp
    next
      case False
      then show ?thesis using pays [of "fst x" "snd x" s i] by simp
    qed
    moreover have "status_of ?s i = Some Pending \<Longrightarrow> status_of s i = Some Pending"
      using act_status [of "fst x" "snd x" s i] final [of "fst x"] by auto
    ultimately show ?thesis using Cons.IH [of ?s] by (auto split: if_splits)
  qed
qed

lemma first_decision_wins:
  "act a i s \<noteq> s \<Longrightarrow> status_of (run ((a, i) # xs) s) i = Some (outcome a)"
  using resolved_stays [of "act a i s" i xs] resolves [of a i s] final [of a] by simp

end

section \<open>Warnings\<close>

definition issue_warning ::
  "int \<Rightarrow> int \<Rightarrow> int \<Rightarrow> warn_text \<Rightarrow> string \<Rightarrow> int option \<Rightarrow> int option \<Rightarrow> db \<Rightarrow> db \<times> (int \<times> bool) option" where
  "issue_warning now max_warnings tg reason issued_by report_id admin d =
     (case get_user d tg of
        None \<Rightarrow> (d, None)
      | Some u \<Rightarrow>
          let d1 = d\<lparr>warnings := insert_row (\<lambda>i. \<lparr>uw_id = i, uw_user_tg_id = tg, uw_reason = reason,
                uw_issued_by = issued_by, uw_report_id = report_id,
                uw_issued_by_admin_tg_id = admin, uw_issued_at = Aware now\<rparr>) (warnings d)\<rparr>;
              new_count = u_warning_count u + 1;
              is_banned = (new_count \<ge> max_warnings);
              d2 = upd_user tg (\<lambda>v. if is_banned
                     then v\<lparr>u_warning_count := new_count, u_is_banned := True\<rparr>
                     else v\<lparr>u_warning_count := new_count\<rparr>) d1;
              d3 = (if is_banned then fst (terminate_active_match now tg d2) else d2)
          in (d3, Some (new_count, is_banned)))"

definition get_user_warnings :: "int \<Rightarrow> nat \<Rightarrow> db \<Rightarrow> user_warning list" where
  "get_user_warnings tg limit d = take limit
     (sort_key (\<lambda>w. - instant (uw_issued_at w)) (sel_where (\<lambda>w. uw_user_tg_id w = tg) (warnings d)))"

section \<open>Reports\<close>

datatype review_reply =
    ReviewError string | AlreadyResolved status
  | ReviewDone "(int \<times> bool) option" int int int

definition set_report :: "int \<Rightarrow> status \<Rightarrow> note_text \<Rightarrow> int \<Rightarrow> db \<Rightarrow> db" where
  "set_report rid st note now d = d\<lparr>reports := upd_where (\<lambda>r. ur_id r = rid)
     (\<lambda>r. r\<lparr>ur_status := st, ur_resolved_at := Some (Aware now), ur_admin_note := Some note\<rparr>)
     (reports d)\<rparr>"

definition reward_reporter :: "int \<Rightarrow> int \<Rightarrow> int \<Rightarrow> int \<Rightarrow> db \<Rightarrow> db" where
  "reward_reporter now reward rid reporter d =
     (case get_user d reporter of
        None \<Rightarrow> d
      | Some _ \<Rightarrow> add_coin_tx now reporter reward (TxReportReward rid) (Some rid) ''report_reward''
                    (upd_user reporter (earn reward) d))"

definition approve_report :: "int \<Rightarrow> int \<Rightarrow> int \<Rightarrow> int \<Rightarrow> int \<Rightarrow> db \<Rightarrow> db \<times> review_reply" where
  "approve_report now max_warnings reward admin rid d =
     (case by_key ur_id rid (reports d) of
        None \<Rightarrow> (d, ReviewError ''Report not found'')
      | Some r \<Rightarrow>
          if ur_status r \<noteq> Pending then (d, AlreadyResolved (ur_status r))
          else
            let d1 = set_report rid Approved NoteApproved now d;
                (d2, w) = issue_warning now max_warnings (ur_reported_id r)
                  (WarnReportApproved (ur_reason r)) ''admin_action'' (Some rid) (Some admin) d1;
                d3 = reward_reporter now reward rid (ur_reporter_id r) d2
            in (d3, ReviewDone w reward (ur_reporter_id r) (ur_reported_id r)))"

definition reject_report :: "int \<Rightarrow> int \<Rightarrow> int \<Rightarrow> int \<Rightarrow> db \<Rightarrow> db \<times> review_reply" where
  "reject_report now max_warnings admin rid d =
     (case by_key ur_id rid (reports d) of
        None \<Rightarrow> (d, ReviewError ''Report not found'')
      | Some r \<Rightarrow>
          if ur_status r \<noteq> Pending then (d, AlreadyResolved (ur_status r))
          else
            let d1 = set_report rid Rejected NoteFalseReport now d;
                (d2, w) = issue_warning now max_warnings (ur_reporter_id r)
                  WarnFalseReport ''false_report'' (Some rid) (Some admin) d1
            in (d2, ReviewDone w 0 (ur_reporter_id r) (ur_reported_id r)))"

definition get_pending_reports :: "nat \<Rightarrow> db \<Rightarrow> user_report list" where
  "get_pending_reports limit d = take limit
     (sort_key (\<lambda>r. instant (ur_created_at r)) (sel_where (\<lambda>r. ur_status r = Pending) (reports d)))"

section \<open>Lemmas\<close>

datatype decision = ApproveBy int int | RejectBy int int

definition decide_report :: "int \<Rightarrow> int \<Rightarrow> decision \<Rightarrow> int \<Rightarrow> db \<Rightarrow> db" where
  "decide_report max_warnings reward dec rid d = (case dec of
     ApproveBy admin now \<Rightarrow> fst (approve_report now max_warnings reward admin rid d)
   | RejectBy admin now \<Rightarrow> fst (reject_report now max_warnings admin rid d))"

fun outcome_of :: "decision \<Rightarrow> status" where
  "outcome_of (ApproveBy _ _) = Approved"
| "outcome_of (RejectBy _ _) = Rejected"

definition report_status :: "db \<Rightarrow> int \<Rightarrow> status option" where
  "report_status d rid = map_option ur_status (by_key ur_id rid (reports d))"

text \<open>The rewards paid for a report, and the warnings issued for it.\<close>

definition rewards_for :: "db \<Rightarrow> int \<Rightarrow> nat" where
  "rewards_for d rid = length (filter (\<lambda>t. ct_tx_type t = ''report_reward'' \<and>
     ct_reference_id t = Some rid) (rows (coin_txs d)))"

definition warnings_for :: "db \<Rightarrow> int \<Rightarrow> nat" where
  "warnings_for d rid = length (filter (\<lambda>w. uw_report_id w = Some rid) (rows (warnings d)))"

lemma issue_warning_frames [simp]:
  "coin_txs (fst (issue_warning now m tg r by i a d)) = coin_txs d"
  "reports (fst (issue_warning now m tg r by i a d)) = reports d"
  by (simp_all add: issue_warning_def Let_def upd_user_def split: option.split)

lemma warnings_issue:
  "rows (warnings (fst (issue_warning now m tg r by (Some i) a d))) = rows (warnings d) @
    (if get_user d tg = None then [] else [\<lparr>uw_id = next_id (warnings d), uw_user_tg_id = tg,
       uw_reason = r, uw_issued_by = by, uw_report_id = Some i, uw_issued_by_admin_tg_id = a,
       uw_issued_at = Aware now\<rparr>])"
  by (simp add: issue_warning_def Let_def upd_user_def split: option.split)

lemma get_user_issue:
  "get_user (fst (issue_warning now m tg r by i a d)) k =
    (if k = tg then map_option (\<lambda>u. u\<lparr>u_warning_count := u_warning_count u + 1,
        u_is_banned := u_is_banned u \<or> u_warning_count u + 1 \<ge> m\<rparr>) (get_user d tg)
     else get_user d k)"
proof (cases "get_user d tg")
  case None
  then show ?thesis by (simp add: issue_warning_def)
next
  case (Some u)
  let ?f = "\<lambda>v. if u_warning_count u + 1 \<ge> m
      then v\<lparr>u_warning_count := u_warning_count u + 1, u_is_banned := True\<rparr>
      else v\<lparr>u_warning_count := u_warning_count u + 1\<rparr>"
  have "users (fst (issue_warning now m tg r by i a d)) = users (upd_user tg ?f d)"
    by (simp add: issue_warning_def Some Let_def) (simp add: upd_user_def)
  then have "get_user (fst (issue_warning now m tg r by i a d)) k = get_user (upd_user tg ?f d) k"
    by (rule get_user_cong)
  also have "\<dots> = (if k = tg then Some (?f u) else get_user d k)"
    by (simp add: get_upd_user [of ?f] Some)
  finally show ?thesis by (cases "k = tg") (simp_all add: Some)
qed

lemma reward_frames [simp]:
  "reports (reward_reporter now n i k d) = reports d"
  "warnings (reward_reporter now n i k d) = warnings d"
  by (simp_all add: reward_reporter_def add_coin_tx_def upd_user_def split: option.split)

lemma set_report_frames [simp]:
  "users (set_report i st note now d) = users d" "coin_txs (set_report i st note now d) = coin_txs d"
  "warnings (set_report i st note now d) = warnings d"
  "get_user (set_report i st note now d) k = get_user d k"
  by (simp_all add: set_report_def get_user_def)

lemma report_status_set:
  "report_status (set_report i st note now d) j =
    (if j = i then map_option (\<lambda>_. st) (report_status d i) else report_status d j)"
  by (simp add: report_status_def set_report_def option.map_comp comp_def
      by_key_upd [of ur_id "\<lambda>r. r\<lparr>ur_status := st, ur_resolved_at := Some (Aware now), ur_admin_note := Some note\<rparr>"])

lemma report_status_cong: "reports d' = reports d \<Longrightarrow> report_status d' = report_status d"
  by (simp add: report_status_def fun_eq_iff)

lemma rewards_for_reward:
  "rewards_for (reward_reporter now n i k d) j =
    rewards_for d j + (if j = i \<and> get_user d k \<noteq> None then 1 else 0)"
  by (simp add: rewards_for_def reward_reporter_def add_coin_tx_def new_coin_tx_def split: option.split)

lemma warnings_for_issue:
  "warnings_for (fst (issue_warning now m tg r by (Some i) a d)) j =
    warnings_for d j + (if j = i \<and> get_user d tg \<noteq> None then 1 else 0)"
  by (simp add: warnings_for_def warnings_issue)

lemma approve_report_cases:
  "fst (approve_report now m n admin rid d) =
    (case by_key ur_id rid (reports d) of
       None \<Rightarrow> d
     | Some r \<Rightarrow> if ur_status r \<noteq> Pending then d
         else reward_reporter now n rid (ur_reporter_id r)
           (fst (issue_warning now m (ur_reported_id r) (WarnReportApproved (ur_reason r))
              ''admin_action'' (Some rid) (Some admin) (set_report rid Approved NoteApproved now d))))"
  by (simp add: approve_report_def Let_def case_prod_beta split: option.split)

lemma reject_report_cases:
  "fst (reject_report now m admin rid d) =
    (case by_key ur_id rid (reports d) of
       None \<Rightarrow> d
     | Some r \<Rightarrow> if ur_status r \<noteq> Pending then d
         else fst (issue_warning now m (ur_reporter_id r) WarnFalseReport ''false_report''
              (Some rid) (Some admin) (set_report rid Rejected NoteFalseReport now d)))"
  by (simp add: reject_report_def Let_def case_prod_beta split: option.split)

text \<open>A decision on a pending report, and on any other.\<close>

lemma decide_pending:
  assumes "by_key ur_id i (reports d) = Some r" and "ur_status r = Pending"
  shows "report_status (decide_report m n a i d) j =
      (if j = i then Some (outcome_of a) else report_status d j)"
    and "rewards_for (decide_report m n a i d) j \<le> rewards_for d j + (if j = i then 1 else 0)"
    and "warnings_for (decide_report m n a i d) j \<le> warnings_for d j + (if j = i then 1 else 0)"
proof -
  have c: "rewards_for d' = rewards_for d" if "coin_txs d' = coin_txs d" for d' d
    using that by (simp add: rewards_for_def fun_eq_iff)
  have w: "warnings_for d' = warnings_for d" if "warnings d' = warnings d" for d' d
    using that by (simp add: warnings_for_def fun_eq_iff)
  have st: "report_status d i = Some (ur_status r)" by (simp add: report_status_def assms(1))
  show "report_status (decide_report m n a i d) j =
      (if j = i then Some (outcome_of a) else report_status d j)"
    by (cases a) (simp_all add: decide_report_def approve_report_cases reject_report_cases assms
        report_status_cong [of "reward_reporter _ _ _ _ _"] report_status_set st
        report_status_cong [of "fst (issue_warning _ _ _ _ _ _ _ _)"])
  show "rewards_for (decide_report m n a i d) j \<le> rewards_for d j + (if j = i then 1 else 0)"
    by (cases a) (simp_all add: decide_report_def approve_report_cases reject_report_cases assms
        rewards_for_reward c [of "fst (issue_warning _ _ _ _ _ _ _ _)"] c [of "set_report _ _ _ _ _"])
  show "warnings_for (decide_report m n a i d) j \<le> warnings_for d j + (if j = i then 1 else 0)"
    by (cases a) (simp_all add: decide_report_def approve_report_cases reject_report_cases assms
        warnings_for_issue w [of "reward_reporter _ _ _ _ _"] w [of "set_report _ _ _ _ _"])
qed

lemma decide_not_pending:
  "report_status d i \<noteq> Some Pending \<Longrightarrow> decide_report m n a i d = d"
  by (cases a) (auto simp: decide_report_def approve_report_cases reject_report_cases
      report_status_def split: option.splits)

lemma pending_report:
  assumes "decide_report m n a i d \<noteq> d"
  obtains r where "by_key ur_id i (reports d) = Some r" "ur_status r = Pending"
  using assms decide_not_pending [of d i m n a] by (auto simp: report_status_def)

lemma outcome_not_pending: "outcome_of a \<noteq> Pending"
  by (cases a) simp_all

lemma report_review_laws:
  assumes "\<And>i r d a j. by_key ur_id i (reports d) = Some r \<Longrightarrow> ur_status r = Pending \<Longrightarrow>
    count (decide_report m n a i d) j \<le> count d j + (if j = i then 1 else 0)"
  shows "review report_status (decide_report m n) outcome_of count"
proof
  fix d i j and a :: decision
  show "report_status d i \<noteq> Some Pending \<Longrightarrow> decide_report m n a i d = d"
    by (rule decide_not_pending)
  show "outcome_of a \<noteq> Pending" by (rule outcome_not_pending)
  show "report_status (decide_report m n a i d) i = Some (outcome_of a)" if "decide_report m n a i d \<noteq> d"
    using that by (rule pending_report) (simp add: decide_pending(1))
  show "report_status (decide_report m n a i d) j = report_status d j" if "j \<noteq> i"
  proof (cases "decide_report m n a i d = d")
    case False
    then show ?thesis using that by (elim pending_report) (simp add: decide_pending(1))
  qed simp
  show "count (decide_report m n a i d) j \<le> count d j + (if j = i then 1 else 0)"
  proof (cases "decide_report m n a i d = d")
    case False
    then obtain r where "by_key ur_id i (reports d) = Some r" "ur_status r = Pending"
      by (rule pending_report)
    then show ?thesis by (rule assms)
  qed simp
qed

interpretation report_reward: review report_status "decide_report m n" outcome_of rewards_for for m n
  by (rule report_review_laws) (rule decide_pending(2))

interpretation report_warning: review report_status "decide_report m n" outcome_of warnings_for for m n
  by (rule report_review_laws) (rule decide_pending(3))

definition decide_reports :: "int \<Rightarrow> int \<Rightarrow> (decision \<times> int) list \<Rightarrow> db \<Rightarrow> db" where
  "decide_reports m n xs d = fold (\<lambda>x. decide_report m n (fst x) (snd x)) xs d"

lemma run_fold: "report_reward.run m n xs d = decide_reports m n xs d"
  unfolding decide_reports_def by (induction xs arbitrary: d) simp_all

section \<open>Properties\<close>

text \<open>C30: However many admins decide on however many reports, in any order, a report pays its
  reporter at most once and causes at most one warning, neither once it is resolved, and its
  resolution never changes.\<close>

theorem reports_resolved_once:
  "rewards_for (decide_reports m n xs d) i
     \<le> rewards_for d i + (if report_status d i = Some Pending then 1 else 0) \<and>
   warnings_for (decide_reports m n xs d) i
     \<le> warnings_for d i + (if report_status d i = Some Pending then 1 else 0) \<and>
   (report_status d i = Some Pending \<or>
     report_status (decide_reports m n xs d) i = report_status d i)"
  using report_reward.paid_once [of m n xs d i] report_warning.paid_once [of m n xs d i]
    report_reward.resolved_stays [of d i m n xs]
  by (auto simp: run_fold)

text \<open>A warning and a resolution leave coins, log and the unique key alone.\<close>

lemma users_issue:
  "users (fst (issue_warning now m tg r by i a d)) = users d \<or>
   (\<exists>u. get_user d tg = Some u \<and> users (fst (issue_warning now m tg r by i a d)) =
     users (upd_user tg (\<lambda>v. if u_warning_count u + 1 \<ge> m
      then v\<lparr>u_warning_count := u_warning_count u + 1, u_is_banned := True\<rparr>
      else v\<lparr>u_warning_count := u_warning_count u + 1\<rparr>) d))"
  by (cases "get_user d tg") (simp_all add: issue_warning_def Let_def upd_user_def)

lemma issue_keeps:
  shows "coin_balance (fst (issue_warning now m tg r by i a d)) k = coin_balance d k"
    and "account_ids (fst (issue_warning now m tg r by i a d)) = account_ids d"
    and "users_unique (fst (issue_warning now m tg r by i a d)) = users_unique d"
    and "totals_ok d \<Longrightarrow> totals_ok (fst (issue_warning now m tg r by i a d))"
proof -
  show "coin_balance (fst (issue_warning now m tg r by i a d)) k = coin_balance d k"
    by (auto simp: coin_balance_def get_user_issue split: option.split)
  show "account_ids (fst (issue_warning now m tg r by i a d)) = account_ids d"
    by (rule set_eqI) (simp add: account_ids_iff get_user_issue)
  show "users_unique (fst (issue_warning now m tg r by i a d)) = users_unique d"
    using users_issue [of now m tg r "by" i a d]
  proof (elim disjE exE conjE)
    fix u
    assume us: "users (fst (issue_warning now m tg r by i a d)) =
     users (upd_user tg (\<lambda>v. if u_warning_count u + 1 \<ge> m
      then v\<lparr>u_warning_count := u_warning_count u + 1, u_is_banned := True\<rparr>
      else v\<lparr>u_warning_count := u_warning_count u + 1\<rparr>) d)"
    show ?thesis unfolding users_unique_cong [OF us] by (rule users_unique_upd_user) simp
  qed (rule users_unique_cong)
  show "totals_ok (fst (issue_warning now m tg r by i a d))" if t: "totals_ok d"
    using users_issue [of now m tg r "by" i a d]
  proof (elim disjE exE conjE)
    fix u
    assume us: "users (fst (issue_warning now m tg r by i a d)) =
     users (upd_user tg (\<lambda>v. if u_warning_count u + 1 \<ge> m
      then v\<lparr>u_warning_count := u_warning_count u + 1, u_is_banned := True\<rparr>
      else v\<lparr>u_warning_count := u_warning_count u + 1\<rparr>) d)"
    show ?thesis unfolding totals_ok_cong [OF us] by (rule totals_ok_upd_user [OF t]) simp
  qed (use t totals_ok_cong in blast)
qed

lemma issue_ledger: "ledger_ok (fst (issue_warning now m tg r by i a d)) = ledger_ok d"
  by (simp add: ledger_ok_def issue_keeps logged_coins_def)

lemma reward_ledger:
  assumes "users_unique d" and "ledger_ok d" and "totals_ok d"
  shows "ledger_ok (reward_reporter now n i k d) \<and> totals_ok (reward_reporter now n i k d)"
proof (cases "get_user d k")
  case None
  then show ?thesis using assms by (simp add: reward_reporter_def)
next
  case (Some u)
  then have "k \<in> account_ids d" by (simp add: account_ids_iff)
  moreover have "reward_reporter now n i k d =
      coin_move earn now (TxReportReward i) (Some i) ''report_reward'' k n d"
    by (simp add: reward_reporter_def Some coin_move_def)
  moreover have "totals_ok (upd_user k (earn n) d)" by (rule totals_ok_upd_user [OF assms(3)]) simp
  ultimately show ?thesis
    using ledger_ok_move [OF moves_balance_earn assms(1,2)]
      totals_ok_cong [of "coin_move earn now (TxReportReward i) (Some i) ''report_reward'' k n d"
        "upd_user k (earn n) d"] by (simp add: coin_move_def)
qed

lemma get_user_reward:
  "get_user (reward_reporter now n i k d) j =
    (if j = k then map_option (earn n) (get_user d k) else get_user d j)"
  by (auto simp: reward_reporter_def get_upd_user split: option.split)

text \<open>Approving a pending report credits the reporter with exactly the reward, through the
  ledger, gives the reported user one more strike, bans them at the limit (and never lifts a
  ban), and changes no other user.\<close>

theorem approve_report_effect:
  assumes "by_key ur_id rid (reports d) = Some r" and "ur_status r = Pending"
    and "users_unique d" and "ledger_ok d" and "totals_ok d"
    and "ur_reporter_id r \<noteq> ur_reported_id r"
    and "get_user d (ur_reporter_id r) = Some p" and "get_user d (ur_reported_id r) = Some q"
    and "d' = fst (approve_report now m n admin rid d)"
  shows "ledger_ok d' \<and> totals_ok d' \<and> report_status d' rid = Some Approved \<and>
    get_user d' (ur_reporter_id r) = Some (earn n p) \<and>
    get_user d' (ur_reported_id r) = Some (q\<lparr>u_warning_count := u_warning_count q + 1,
      u_is_banned := u_is_banned q \<or> u_warning_count q + 1 \<ge> m\<rparr>) \<and>
    (\<forall>k. k \<notin> {ur_reporter_id r, ur_reported_id r} \<longrightarrow> get_user d' k = get_user d k)"
proof -
  let ?s = "set_report rid Approved NoteApproved now d"
  let ?w = "fst (issue_warning now m (ur_reported_id r) (WarnReportApproved (ur_reason r))
    ''admin_action'' (Some rid) (Some admin) ?s)"
  have d': "d' = reward_reporter now n rid (ur_reporter_id r) ?w"
    by (simp add: assms(1,2,9) approve_report_cases)
  have s: "users_unique ?s" "ledger_ok ?s" "totals_ok ?s"
    using assms(3-5) users_unique_cong [of ?s d] ledger_ok_cong [of ?s d] totals_ok_cong [of ?s d]
    by simp_all
  have "ledger_ok d' \<and> totals_ok d'"
    unfolding d' by (rule reward_ledger) (simp_all add: issue_keeps issue_ledger s)
  moreover have "report_status d' rid = Some Approved"
    using decide_pending(1) [OF assms(1,2), of m n "ApproveBy admin now" rid]
    by (simp add: decide_report_def assms(9))
  moreover have "get_user d' k = (if k = ur_reporter_id r then Some (earn n p)
      else if k = ur_reported_id r then Some (q\<lparr>u_warning_count := u_warning_count q + 1,
        u_is_banned := u_is_banned q \<or> u_warning_count q + 1 \<ge> m\<rparr>) else get_user d k)" for k
    by (simp add: d' get_user_reward get_user_issue assms(6-8))
  ultimately show ?thesis using assms(6) by simp
qed

text \<open>The strike that reaches the limit bans the user and ends their date: no active match
  of theirs is left, where a user is in at most one; before the limit nothing is banned.\<close>

theorem last_strike_ends_date:
  assumes "get_user d tg = Some u" and "matches_ok d"
    and "issue_warning now m tg r by rid admin d = (d', Some (c, banned))"
  shows "c = u_warning_count u + 1 \<and> banned = (m \<le> c) \<and>
    map_option u_is_banned (get_user d' tg) = Some (u_is_banned u \<or> banned) \<and>
    get_active_match tg d' = (if banned then None else get_active_match tg d)"
proof -
  have cb: "c = u_warning_count u + 1" "banned = (m \<le> c)"
    using assms(1,3) by (auto simp: issue_warning_def Let_def)
  have d': "d' = fst (issue_warning now m tg r by rid admin d)" by (simp add: assms(3))
  have am: "get_active_match k d1 = get_active_match k d2" if "matches d1 = matches d2" for k d1 d2
    using that by (simp add: get_active_match_def)
  have "get_active_match tg d' = (if banned then None else get_active_match tg d)"
  proof (cases "m \<le> u_warning_count u + 1")
    case True
    let ?d = "upd_user tg (\<lambda>v. v\<lparr>u_warning_count := u_warning_count u + 1, u_is_banned := True\<rparr>)
      (d\<lparr>warnings := insert_row (\<lambda>i. \<lparr>uw_id = i, uw_user_tg_id = tg, uw_reason = r,
        uw_issued_by = by, uw_report_id = rid, uw_issued_by_admin_tg_id = admin,
        uw_issued_at = Aware now\<rparr>) (warnings d)\<rparr>)"
    have "d' = fst (terminate_active_match now tg ?d)"
      using assms(1) True by (simp add: d' issue_warning_def Let_def)
    moreover have "matches_ok ?d"
      using assms(2) by (simp add: matches_ok_def upd_user_def)
    ultimately show ?thesis using terminate_clears cb True by simp
  next
    case False
    then show ?thesis
      using assms(1) cb
      by (simp add: d' issue_warning_def Let_def) (rule am, simp add: upd_user_def)
  qed
  then show ?thesis using cb by (simp add: d' get_user_issue assms(1))
qed

section \<open>Concrete instances\<close>

definition the_report :: user_report where
  "the_report = \<lparr>ur_id = 4, ur_reporter_id = 1, ur_reported_id = 2, ur_reason = ''spam'',
     ur_match_history_id = None, ur_status = Pending, ur_admin_note = None, ur_resolved_at = None,
     ur_created_at = Naive 0\<rparr>"

definition report_db :: db where
  "report_db = demo_db\<lparr>reports := \<lparr>rows = [the_report], next_id = 5\<rparr>,
     matches := \<lparr>rows = [new_match 0 2 1 7], next_id = 8\<rparr>\<rparr>"

lemma report_db_facts [simp]:
  "users report_db = users demo_db" "coin_txs report_db = coin_txs demo_db"
  "by_key ur_id 4 (reports report_db) = Some the_report"
  "get_user report_db k = get_user demo_db k"
  "rows (matches report_db) = [new_match 0 2 1 7]" "next_id (matches report_db) = 8"
  by (simp_all add: report_db_def by_key_def the_report_def get_user_def)

lemma report_db_ok: "users_unique report_db" "ledger_ok report_db" "totals_ok report_db"
  "matches_ok report_db"
  using users_unique_cong [of report_db demo_db] ledger_ok_cong [of report_db demo_db]
    totals_ok_cong [of report_db demo_db]
  by (simp_all add: matches_ok_def new_match_def)

lemma the_report_sel [simp]:
  "ur_reporter_id the_report = 1" "ur_reported_id the_report = 2" "ur_status the_report = Pending"
  by (simp_all add: the_report_def)

lemma approve_report_effect_witness:
  "get_user (fst (approve_report 9 3 5 77 4 report_db)) 1 = Some (earn 5 alice) \<and>
   map_option u_warning_count (get_user (fst (approve_report 9 3 5 77 4 report_db)) 2) = Some 1"
  using approve_report_effect [of 4 report_db the_report alice bob
      "fst (approve_report 9 3 5 77 4 report_db)" 9 3 5 77] report_db_ok
  by simp

lemma last_strike_ends_date_witness:
  "get_active_match 2 report_db \<noteq> None \<and>
   get_active_match 2 (fst (issue_warning 9 1 2 WarnFalseReport ''x'' None None report_db)) = None"
proof -
  obtain d' c b where i: "issue_warning 9 1 2 WarnFalseReport ''x'' None None report_db = (d', Some (c, b))"
    by (simp add: issue_warning_def Let_def)
  have "b \<and> get_active_match 2 d' = (if b then None else get_active_match 2 report_db)"
    using last_strike_ends_date [OF _ report_db_ok(4) i, of bob] by simp
  then show ?thesis
    using i by (simp add: get_active_match_def first_where_def new_match_def in_match_def)
qed

end
