(* ===== verification/Banners.thy ===== *)
theory Banners
  imports Warnings
begin

text \<open>
  \<open>services/free_coin_banner.py\<close>: campaigns, the forward a user records as proof, and its review.
  A forward row is unique per user and campaign (\<open>uq_user_campaign\<close>); recording one is MySQL's
  \<open>INSERT ... ON DUPLICATE KEY UPDATE\<close>.
\<close>

datatype banner_error = ForwardNotFound | ForwardAlready status | CampaignNotFound | BannerUserNotFound

datatype forward_reply = CampaignInactive | ProofReplaced | ProofRecorded

section \<open>Campaigns\<close>

definition get_active_campaign :: "db \<Rightarrow> banner_campaign option" where
  "get_active_campaign d = (case sort_key (\<lambda>c. - instant (bc_created_at c))
       (sel_where bc_is_active (campaigns d)) of [] \<Rightarrow> None | c # _ \<Rightarrow> Some c)"

definition get_campaign :: "int \<Rightarrow> db \<Rightarrow> banner_campaign option" where
  "get_campaign cid d = by_key bc_id cid (campaigns d)"

definition create_campaign :: "int \<Rightarrow> string \<Rightarrow> string \<Rightarrow> int \<Rightarrow> db \<Rightarrow> db" where
  "create_campaign now photo caption reward d = d\<lparr>campaigns := insert_row
     (\<lambda>i. \<lparr>bc_id = i, bc_banner_photo_file_id = photo, bc_caption_text = caption,
           bc_reward_coins = reward, bc_is_active = True, bc_created_at = Aware now\<rparr>) (campaigns d)\<rparr>"

section \<open>Recording a forward\<close>

definition forward_key :: "banner_forward \<Rightarrow> int \<times> int" where
  "forward_key f = (bf_user_tg_id f, bf_campaign_id f)"

definition has_user_forwarded :: "int \<Rightarrow> int \<Rightarrow> db \<Rightarrow> bool" where
  "has_user_forwarded tg cid d =
     (case by_key forward_key (tg, cid) (forwards d) of
        None \<Rightarrow> False
      | Some f \<Rightarrow> bf_status f \<noteq> Rejected)"

text \<open>
  MySQL counts 2 for an updated row; when every assigned value equals the stored one the count
  is 1, as for an insert, because the driver asks for found rows.
\<close>

definition record_forward ::
  "int \<Rightarrow> int \<Rightarrow> int \<Rightarrow> int option \<Rightarrow> int option \<Rightarrow> db \<Rightarrow> db \<times> bool \<times> forward_reply \<times> int option" where
  "record_forward now tg cid msg chat d =
     (case get_campaign cid d of
        None \<Rightarrow> (d, False, CampaignInactive, None)
      | Some c \<Rightarrow>
          if \<not> bc_is_active c then (d, False, CampaignInactive, None)
          else (case by_key forward_key (tg, cid) (forwards d) of
             None \<Rightarrow>
               (d\<lparr>forwards := insert_row (\<lambda>i. \<lparr>bf_id = i, bf_user_tg_id = tg, bf_campaign_id = cid,
                   bf_forward_msg_id = msg, bf_forward_chat_id = chat, bf_status = Pending,
                   bf_awarded_coins = 0, bf_admin_note = None, bf_forwarded_at = Aware now,
                   bf_resolved_at = None\<rparr>) (forwards d)\<rparr>,
                True, ProofRecorded, Some (next_id (forwards d)))
           | Some f \<Rightarrow>
               (d\<lparr>forwards := upd_where (\<lambda>f. forward_key f = (tg, cid))
                   (\<lambda>f. f\<lparr>bf_forward_msg_id := msg, bf_forward_chat_id := chat,
                          bf_status := Pending\<rparr>) (forwards d)\<rparr>,
                True,
                if bf_forward_msg_id f = msg \<and> bf_forward_chat_id f = chat \<and> bf_status f = Pending
                then ProofRecorded else ProofReplaced,
                Some (bf_id f))))"

section \<open>Review\<close>

definition set_forward :: "int \<Rightarrow> (banner_forward \<Rightarrow> banner_forward) \<Rightarrow> db \<Rightarrow> db" where
  "set_forward fid f d = d\<lparr>forwards := upd_where (\<lambda>r. bf_id r = fid) f (forwards d)\<rparr>"

definition approve_forward ::
  "int \<Rightarrow> int \<Rightarrow> int \<Rightarrow> db \<Rightarrow> db \<times> (banner_error + int \<times> int)" where
  "approve_forward now admin fid d =
     (case by_key bf_id fid (forwards d) of
        None \<Rightarrow> (d, Inl ForwardNotFound)
      | Some f \<Rightarrow>
          if bf_status f \<noteq> Pending then (d, Inl (ForwardAlready (bf_status f)))
          else (case get_campaign (bf_campaign_id f) d of
             None \<Rightarrow> (d, Inl CampaignNotFound)
           | Some c \<Rightarrow>
              (case get_user d (bf_user_tg_id f) of
                 None \<Rightarrow> (d, Inl BannerUserNotFound)
               | Some u \<Rightarrow>
                   let reward = bc_reward_coins c;
                       d1 = upd_user (u_tg_id u) (earn reward) d;
                       d2 = set_forward fid (\<lambda>r. r\<lparr>bf_status := Approved, bf_awarded_coins := reward,
                              bf_resolved_at := Some (Aware now),
                              bf_admin_note := Some (NoteBannerApproved admin)\<rparr>) d1;
                       d3 = add_coin_tx now (u_tg_id u) reward (TxBanner (bc_id c)) (Some fid)
                              ''free_banner'' d2
                   in (d3, Inr (reward, u_tg_id u)))))"

definition reject_forward :: "int \<Rightarrow> int \<Rightarrow> string \<Rightarrow> int \<Rightarrow> db \<Rightarrow> db \<times> (banner_error + unit)" where
  "reject_forward now admin note fid d =
     (case by_key bf_id fid (forwards d) of
        None \<Rightarrow> (d, Inl ForwardNotFound)
      | Some f \<Rightarrow>
          if bf_status f \<noteq> Pending then (d, Inl (ForwardAlready (bf_status f)))
          else (set_forward fid (\<lambda>r. r\<lparr>bf_status := Rejected, bf_resolved_at := Some (Aware now),
                  bf_admin_note := Some (NoteBannerRejected admin note)\<rparr>) d, Inr ()))"

definition get_pending_forwards :: "nat \<Rightarrow> db \<Rightarrow> (banner_forward \<times> banner_campaign) list" where
  "get_pending_forwards limit d = take limit
     (sort_key (\<lambda>(f, c). instant (bf_forwarded_at f))
       [(f, c). f \<leftarrow> rows (forwards d), c \<leftarrow> rows (campaigns d),
          bf_campaign_id f = bc_id c, bf_status f = Pending])"

section \<open>Lemmas\<close>

definition decide_forward :: "decision \<times> string \<Rightarrow> int \<Rightarrow> db \<Rightarrow> db" where
  "decide_forward a fid d = (case fst a of
     ApproveBy admin now \<Rightarrow> fst (approve_forward now admin fid d)
   | RejectBy admin now \<Rightarrow> fst (reject_forward now admin (snd a) fid d))"

definition decide_forwards :: "((decision \<times> string) \<times> int) list \<Rightarrow> db \<Rightarrow> db" where
  "decide_forwards xs d = fold (\<lambda>x. decide_forward (fst x) (snd x)) xs d"

definition forward_status :: "db \<Rightarrow> int \<Rightarrow> status option" where
  "forward_status d fid = map_option bf_status (by_key bf_id fid (forwards d))"

definition banner_rewards :: "db \<Rightarrow> int \<Rightarrow> nat" where
  "banner_rewards d fid = length (filter (\<lambda>t. ct_tx_type t = ''free_banner'' \<and>
     ct_reference_id t = Some fid) (rows (coin_txs d)))"

lemma approve_forward_cases:
  assumes "fst (approve_forward now admin fid d) \<noteq> d"
  obtains f c u where "by_key bf_id fid (forwards d) = Some f" "bf_status f = Pending"
    "get_campaign (bf_campaign_id f) d = Some c" "get_user d (bf_user_tg_id f) = Some u"
    "approve_forward now admin fid d = (add_coin_tx now (bf_user_tg_id f) (bc_reward_coins c)
       (TxBanner (bc_id c)) (Some fid) ''free_banner''
       (set_forward fid (\<lambda>r. r\<lparr>bf_status := Approved, bf_awarded_coins := bc_reward_coins c,
          bf_resolved_at := Some (Aware now), bf_admin_note := Some (NoteBannerApproved admin)\<rparr>)
         (upd_user (bf_user_tg_id f) (earn (bc_reward_coins c)) d)),
       Inr (bc_reward_coins c, bf_user_tg_id f))"
proof -
  obtain f where f: "by_key bf_id fid (forwards d) = Some f"
    using assms by (cases "by_key bf_id fid (forwards d)") (simp_all add: approve_forward_def)
  moreover have p: "bf_status f = Pending"
    using assms f by (auto simp: approve_forward_def split: if_splits)
  moreover obtain c where c: "get_campaign (bf_campaign_id f) d = Some c"
    using assms f by (cases "get_campaign (bf_campaign_id f) d") (simp_all add: approve_forward_def split: if_splits)
  moreover obtain u where u: "get_user d (bf_user_tg_id f) = Some u"
    using assms f p c by (cases "get_user d (bf_user_tg_id f)") (simp_all add: approve_forward_def)
  moreover have "u_tg_id u = bf_user_tg_id f" using u by (rule get_user_tg)
  ultimately show thesis by (intro that [of f c u]) (simp_all add: approve_forward_def Let_def)
qed

lemma by_key_set_forward:
  assumes "\<And>r. bf_id (f r) = bf_id r"
  shows "by_key bf_id j (forwards (set_forward i f d)) =
    (if j = i then map_option f (by_key bf_id i (forwards d)) else by_key bf_id j (forwards d))"
  using assms by (simp add: set_forward_def by_key_upd)

lemma banner_frames [simp]:
  "users (set_forward i f d) = users d" "coin_txs (set_forward i f d) = coin_txs d"
  "campaigns (set_forward i f d) = campaigns d"
  "forwards (upd_user k g d) = forwards d" "forwards (add_coin_tx n k a t r x d) = forwards d"
  "campaigns (upd_user k g d) = campaigns d" "campaigns (add_coin_tx n k a t r x d) = campaigns d"
  by (simp_all add: set_forward_def upd_user_def add_coin_tx_def)

lemma decide_forward_changes:
  assumes "decide_forward a i d \<noteq> d"
  shows "forward_status d i = Some Pending"
    and "forward_status (decide_forward a i d) j =
      (if j = i then Some (outcome_of (fst a)) else forward_status d j)"
    and "banner_rewards (decide_forward a i d) j \<le> banner_rewards d j + (if j = i then 1 else 0)"
proof (atomize (full), cases "fst a")
  case (ApproveBy admin now)
  then have "fst (approve_forward now admin i d) \<noteq> d"
    using assms by (simp add: decide_forward_def)
  then show "forward_status d i = Some Pending \<and>
    forward_status (decide_forward a i d) j =
      (if j = i then Some (outcome_of (fst a)) else forward_status d j) \<and>
    banner_rewards (decide_forward a i d) j \<le> banner_rewards d j + (if j = i then 1 else 0)"
    by (rule approve_forward_cases)
      (simp add: decide_forward_def ApproveBy forward_status_def by_key_set_forward
        banner_rewards_def, simp add: add_coin_tx_def new_coin_tx_def)
next
  case (RejectBy admin now)
  then show "forward_status d i = Some Pending \<and>
    forward_status (decide_forward a i d) j =
      (if j = i then Some (outcome_of (fst a)) else forward_status d j) \<and>
    banner_rewards (decide_forward a i d) j \<le> banner_rewards d j + (if j = i then 1 else 0)"
    using assms
    by (cases "by_key bf_id i (forwards d)")
      (auto simp: decide_forward_def reject_forward_def forward_status_def by_key_set_forward
        banner_rewards_def split: if_splits)
qed

interpretation banner_review: review forward_status decide_forward "\<lambda>a. outcome_of (fst a)" banner_rewards
proof
  fix d i j and a :: "decision \<times> string"
  show "forward_status d i \<noteq> Some Pending \<Longrightarrow> decide_forward a i d = d"
    using decide_forward_changes(1) by blast
  show "outcome_of (fst a) \<noteq> Pending" by (rule outcome_not_pending)
  show "forward_status (decide_forward a i d) i = Some (outcome_of (fst a))" if "decide_forward a i d \<noteq> d"
    using decide_forward_changes(2) [OF that, of i] by simp
  show "forward_status (decide_forward a i d) j = forward_status d j" if "j \<noteq> i"
    using decide_forward_changes(2) [of a i d j] that by (cases "decide_forward a i d = d") simp_all
  show "banner_rewards (decide_forward a i d) j \<le> banner_rewards d j + (if j = i then 1 else 0)"
    using decide_forward_changes(3) [of a i d j] by (cases "decide_forward a i d = d") simp_all
qed

lemma banner_run_fold: "banner_review.run xs d = decide_forwards xs d"
  unfolding decide_forwards_def by (induction xs arbitrary: d) simp_all

section \<open>Properties\<close>

text \<open>However many decisions admins take on recorded forwards, a forward is paid at most once
  and its resolution is final, as long as it is not recorded again.\<close>

theorem forwards_paid_once:
  "banner_rewards (decide_forwards xs d) i
     \<le> banner_rewards d i + (if forward_status d i = Some Pending then 1 else 0) \<and>
   (forward_status d i = Some Pending \<or> forward_status (decide_forwards xs d) i = forward_status d i)"
  using banner_review.paid_once [of xs d i] banner_review.resolved_stays [of d i xs]
  by (auto simp: banner_run_fold)

text \<open>The two unique keys of the forwards, and lookups of one row by either.\<close>

definition forwards_ok :: "db \<Rightarrow> bool" where
  "forwards_ok d \<longleftrightarrow> distinct (map bf_id (rows (forwards d))) \<and>
     distinct (map forward_key (rows (forwards d)))"

lemma forward_lookup:
  assumes "forwards_ok d" and "f \<in> set (rows (forwards d))"
  shows "by_key bf_id (bf_id f) (forwards d) = Some f"
    and "by_key forward_key (forward_key f) (forwards d) = Some f"
  using assms by (simp_all add: forwards_ok_def by_key_def find_key_distinct)

lemma forwards_upd:
  assumes "forwards_ok d" and "forwards d' = upd_where P g (forwards d)"
    and "\<And>f. bf_id (g f) = bf_id f" and "\<And>f. forward_key (g f) = forward_key f"
  shows "forwards_ok d'"
    and "f \<in> set (rows (forwards d)) \<Longrightarrow> P f \<Longrightarrow> g f \<in> set (rows (forwards d'))"
proof -
  show "forwards_ok d'"
    using assms by (simp add: forwards_ok_def upd_list_keys)
  show "g f \<in> set (rows (forwards d'))" if "f \<in> set (rows (forwards d))" "P f"
    using that assms(2) by (auto simp: set_upd_list)
qed

lemma forward_key_sel [simp]:
  "forward_key (f\<lparr>bf_status := s, bf_awarded_coins := n, bf_admin_note := a, bf_resolved_at := t\<rparr>) = forward_key f"
  "forward_key (f\<lparr>bf_forward_msg_id := m, bf_forward_chat_id := c, bf_status := s\<rparr>) = forward_key f"
  by (simp_all add: forward_key_def)

lemma approve_pending:
  assumes "forwards_ok d" and "f \<in> set (rows (forwards d))" and "bf_status f = Pending"
    and "get_campaign (bf_campaign_id f) d = Some c" and "get_user d (bf_user_tg_id f) = Some u"
    and "approve_forward now admin (bf_id f) d = (d', r)"
  shows "r = Inr (bc_reward_coins c, bf_user_tg_id f)" and "forwards_ok d'"
    and "\<exists>f'\<in>set (rows (forwards d')). bf_id f' = bf_id f \<and> forward_key f' = forward_key f \<and> bf_status f' = Approved"
    and "get_user d' (bf_user_tg_id f) = Some (earn (bc_reward_coins c) u)"
    and "campaigns d' = campaigns d"
proof -
  have k: "by_key bf_id (bf_id f) (forwards d) = Some f" by (rule forward_lookup [OF assms(1,2)])
  have tg: "u_tg_id u = bf_user_tg_id f" using assms(5) by (rule get_user_tg)
  let ?g = "\<lambda>r. r\<lparr>bf_status := Approved, bf_awarded_coins := bc_reward_coins c,
    bf_resolved_at := Some (Aware now), bf_admin_note := Some (NoteBannerApproved admin)\<rparr>"
  have e: "approve_forward now admin (bf_id f) d = (add_coin_tx now (bf_user_tg_id f) (bc_reward_coins c)
       (TxBanner (bc_id c)) (Some (bf_id f)) ''free_banner''
       (set_forward (bf_id f) ?g (upd_user (bf_user_tg_id f) (earn (bc_reward_coins c)) d)),
       Inr (bc_reward_coins c, bf_user_tg_id f))"
    by (simp add: approve_forward_def k assms(3-5) Let_def tg)
  then show "r = Inr (bc_reward_coins c, bf_user_tg_id f)" using assms(6) by simp
  have fw: "forwards d' = upd_where (\<lambda>r. bf_id r = bf_id f) ?g (forwards d)"
    using e assms(6) by (auto simp: set_forward_def)
  note v = forwards_upd [where g = ?g, OF assms(1) fw]
  show "forwards_ok d'" by (rule v(1)) (simp_all add: forward_key_def)
  have "?g f \<in> set (rows (forwards d'))" by (rule v(2)) (simp_all add: forward_key_def assms(2))
  then show "\<exists>f'\<in>set (rows (forwards d')). bf_id f' = bf_id f \<and> forward_key f' = forward_key f \<and> bf_status f' = Approved"
    by (intro bexI [of _ "?g f"]) (simp_all add: forward_key_def)
  have "users d' = users (upd_user (bf_user_tg_id f) (earn (bc_reward_coins c)) d)"
    using e assms(6) by (auto simp: set_forward_def)
  then show "get_user d' (bf_user_tg_id f) = Some (earn (bc_reward_coins c) u)"
    by (simp add: get_user_cong [of d'] get_upd_user assms(5))
  show "campaigns d' = campaigns d" using e assms(6) by auto
qed

lemma record_again:
  assumes "forwards_ok d" and "f \<in> set (rows (forwards d))"
    and "get_campaign (bf_campaign_id f) d = Some c" and "bc_is_active c"
    and "record_forward now (bf_user_tg_id f) (bf_campaign_id f) msg chat d = (d', ok, rep, fid)"
  shows "ok" and "fid = Some (bf_id f)" and "forwards_ok d'"
    and "\<exists>f'\<in>set (rows (forwards d')). bf_id f' = bf_id f \<and> forward_key f' = forward_key f \<and> bf_status f' = Pending"
    and "users d' = users d" and "campaigns d' = campaigns d"
proof -
  have k: "by_key forward_key (bf_user_tg_id f, bf_campaign_id f) (forwards d) = Some f"
    using forward_lookup(2) [OF assms(1,2)] by (simp add: forward_key_def)
  let ?g = "\<lambda>f. f\<lparr>bf_forward_msg_id := msg, bf_forward_chat_id := chat, bf_status := Pending\<rparr>"
  have e: "ok" "fid = Some (bf_id f)" "users d' = users d" "campaigns d' = campaigns d"
    and fw: "forwards d' = upd_where (\<lambda>r. forward_key r = (bf_user_tg_id f, bf_campaign_id f)) ?g (forwards d)"
    using assms(5) by (auto simp: record_forward_def assms(3,4) k)
  show "ok" "fid = Some (bf_id f)" "users d' = users d" "campaigns d' = campaigns d" by (fact e)+
  note v = forwards_upd [where g = ?g, OF assms(1) fw]
  show "forwards_ok d'" by (rule v(1)) simp_all
  have "?g f \<in> set (rows (forwards d'))" by (rule v(2)) (simp_all add: forward_key_def assms(2))
  then show "\<exists>f'\<in>set (rows (forwards d')). bf_id f' = bf_id f \<and> forward_key f' = forward_key f \<and> bf_status f' = Pending"
    by (intro bexI [of _ "?g f"]) simp_all
qed

text \<open>Recording a forward again re-opens it even after it was approved and paid, since the
  duplicate update always resets the status: approving it a second time pays a second reward,
  although the model promises one reward per user and campaign.  (\<open>has_user_forwarded\<close> is
  only consulted when the menu is opened.)\<close>

theorem recorded_again_paid_again:
  assumes "forwards_ok d" and "f \<in> set (rows (forwards d))" and "bf_status f = Pending"
    and "get_campaign (bf_campaign_id f) d = Some c" and "bc_is_active c"
    and "get_user d (bf_user_tg_id f) = Some u"
    and "approve_forward t1 a1 (bf_id f) d = (d1, r1)"
    and "record_forward t2 (bf_user_tg_id f) (bf_campaign_id f) msg chat d1 = (d2, ok, rep, fid)"
    and "approve_forward t3 a2 (bf_id f) d2 = (d3, r2)"
  shows "r1 = Inr (bc_reward_coins c, bf_user_tg_id f) \<and> has_user_forwarded (bf_user_tg_id f) (bf_campaign_id f) d1 \<and>
    ok \<and> fid = Some (bf_id f) \<and> r2 = Inr (bc_reward_coins c, bf_user_tg_id f) \<and>
    coin_balance d3 (bf_user_tg_id f) = coin_balance d (bf_user_tg_id f) + 2 * bc_reward_coins c"
proof -
  note a = approve_pending [OF assms(1-4,6,7)]
  obtain f1 where f1: "f1 \<in> set (rows (forwards d1))" "bf_id f1 = bf_id f"
      "forward_key f1 = forward_key f" "bf_status f1 = Approved" using a(3) by blast
  then have k1: "bf_user_tg_id f1 = bf_user_tg_id f" "bf_campaign_id f1 = bf_campaign_id f"
    by (simp_all add: forward_key_def)
  have c1: "get_campaign (bf_campaign_id f1) d1 = Some c"
    using assms(4) a(5) k1 by (simp add: get_campaign_def)
  note b = record_again [OF a(2) f1(1) c1 assms(5), unfolded k1, OF assms(8)]
  obtain f2 where f2: "f2 \<in> set (rows (forwards d2))" "bf_id f2 = bf_id f"
      "forward_key f2 = forward_key f" "bf_status f2 = Pending" using b(4) f1(2,3) by auto
  then have k2: "bf_user_tg_id f2 = bf_user_tg_id f" "bf_campaign_id f2 = bf_campaign_id f"
    by (simp_all add: forward_key_def)
  have c2: "get_campaign (bf_campaign_id f2) d2 = Some c"
    using c1 b(6) k1 k2 by (simp add: get_campaign_def)
  have u2: "get_user d2 (bf_user_tg_id f2) = Some (earn (bc_reward_coins c) u)"
    using a(4) b(5) k2 by (simp add: get_user_def)
  note c = approve_pending [OF b(3) f2(1,4) c2 u2, unfolded f2(2), OF assms(9)]
  have "has_user_forwarded (bf_user_tg_id f) (bf_campaign_id f) d1"
    using forward_lookup(2) [OF a(2) f1(1)] f1(3,4)
    by (simp add: has_user_forwarded_def forward_key_def)
  then show ?thesis
    using a(1) b(1,2) c(1,4) k2 f1(2) assms(6) by (simp add: coin_balance_Some)
qed

section \<open>Concrete instances\<close>

definition banner_db :: db where
  "banner_db = demo_db\<lparr>campaigns := \<lparr>rows = [\<lparr>bc_id = 1, bc_banner_photo_file_id = ''f'',
      bc_caption_text = ''c'', bc_reward_coins = 2, bc_is_active = True, bc_created_at = Naive 0\<rparr>], next_id = 2\<rparr>,
    forwards := \<lparr>rows = [\<lparr>bf_id = 5, bf_user_tg_id = 1, bf_campaign_id = 1, bf_forward_msg_id = None,
      bf_forward_chat_id = None, bf_status = Pending, bf_awarded_coins = 0, bf_admin_note = None,
      bf_forwarded_at = Naive 0, bf_resolved_at = None\<rparr>], next_id = 6\<rparr>\<rparr>"

lemma recorded_again_paid_again_witness:
  "\<exists>d1 d2 d3 r1 r2 rep. approve_forward 1 77 5 banner_db = (d1, r1) \<and>
     record_forward 2 1 1 None None d1 = (d2, True, rep, Some 5) \<and>
     approve_forward 3 77 5 d2 = (d3, r2) \<and> coin_balance d3 1 = coin_balance banner_db 1 + 4"
proof -
  let ?f = "hd (rows (forwards banner_db))"
  let ?c = "hd (rows (campaigns banner_db))"
  obtain d1 r1 where 1: "approve_forward 1 77 5 banner_db = (d1, r1)" by (metis surj_pair)
  obtain d2 ok rep fid where 2: "record_forward 2 1 1 None None d1 = (d2, ok, rep, fid)"
    by (metis prod_cases4)
  obtain d3 r2 where 3: "approve_forward 3 77 5 d2 = (d3, r2)" by (metis surj_pair)
  have f: "forwards_ok banner_db" "?f \<in> set (rows (forwards banner_db))" "bf_status ?f = Pending"
    "get_campaign (bf_campaign_id ?f) banner_db = Some ?c" "bc_is_active ?c"
    "get_user banner_db (bf_user_tg_id ?f) = Some alice" "bf_id ?f = 5" "bf_user_tg_id ?f = 1"
    "bf_campaign_id ?f = 1" "bc_reward_coins ?c = 2"
    by (simp_all add: banner_db_def forwards_ok_def get_campaign_def by_key_def get_user_def)
  show ?thesis
    using recorded_again_paid_again [OF f(1-6), unfolded f(7-10), OF 1 2 3] 1 2 3 by auto
qed

end
