(* ===== verification/ProfileCompletion.thy ===== *)
theory ProfileCompletion
  imports Economy
begin

text \<open>
  \<open>services/profile_completion.py\<close>: the steps of a profile, what counts as done, the
  percentage and the one-time reward (\<open>PROFILE_COMPLETION_REWARD\<close>).
\<close>

definition REQUIRED_STEPS :: "string list" where
  "REQUIRED_STEPS = [''city'', ''photo'', ''gps'', ''tags'', ''bio'']"

definition OPTIONAL_STEPS :: "string list" where
  "OPTIONAL_STEPS = [''voice'']"

definition ALL_STEPS :: "string list" where
  "ALL_STEPS = REQUIRED_STEPS @ OPTIONAL_STEPS"

definition step_key :: "completion_log \<Rightarrow> int \<times> string" where
  "step_key l = (cl_user_tg_id l, cl_step_code l)"

definition mark_step_done :: "int \<Rightarrow> int \<Rightarrow> string \<Rightarrow> db \<Rightarrow> db" where
  "mark_step_done now tg step d =
     (case by_key step_key (tg, step) (completion_logs d) of
        Some _ \<Rightarrow> d\<lparr>completion_logs := upd_where (\<lambda>l. step_key l = (tg, step))
                    (\<lambda>l. l\<lparr>cl_completed_at := Aware now\<rparr>) (completion_logs d)\<rparr>
      | None \<Rightarrow> d\<lparr>completion_logs := insert_row (\<lambda>i. \<lparr>cl_id = i, cl_user_tg_id = tg,
                    cl_step_code = step, cl_completed_at = Aware now\<rparr>) (completion_logs d)\<rparr>)"

definition is_step_done :: "int \<Rightarrow> string \<Rightarrow> db \<Rightarrow> bool" where
  "is_step_done tg step d = (by_key step_key (tg, step) (completion_logs d) \<noteq> None)"

record completion_state =
  cs_done :: "string set"
  cs_pct :: int
  cs_next_step :: "string option"
  cs_is_complete :: bool

text \<open>The steps shown by the user's own fields.\<close>

definition derived_steps :: "user \<Rightarrow> string set" where
  "derived_steps u =
     (if truthy (u_city u) then {''city''} else {}) \<union>
     (if truthy (u_profile_photo_file_id u) then {''photo''} else {}) \<union>
     (if u_location_lat u \<noteq> None \<and> u_location_lng u \<noteq> None then {''gps''} else {}) \<union>
     (if truthy (u_tags u) then {''tags''} else {}) \<union>
     (if truthy (u_bio u) then {''bio''} else {}) \<union>
     (if truthy (u_profile_voice_file_id u) then {''voice''} else {})"

text \<open>
  For a missing user the dict has no \<open>is_complete\<close>: its only reader has found the user.  The
  float \<open>(n / 5) * 100\<close> is exact for the six possible n.
\<close>

definition get_completion_state :: "int \<Rightarrow> db \<Rightarrow> completion_state" where
  "get_completion_state tg d =
     (case get_user d tg of
        None \<Rightarrow> \<lparr>cs_done = {}, cs_pct = 0, cs_next_step = Some ''city'', cs_is_complete = False\<rparr>
      | Some u \<Rightarrow>
          let done_steps = set (map cl_step_code
                (sel_where (\<lambda>l. cl_user_tg_id l = tg) (completion_logs d))) \<union> derived_steps u;
              required_done = length (filter (\<lambda>s. s \<in> done_steps) REQUIRED_STEPS)
          in \<lparr>cs_done = done_steps,
              cs_pct = int required_done * 100 div int (length REQUIRED_STEPS),
              cs_next_step = find (\<lambda>s. s \<notin> done_steps) ALL_STEPS,
              cs_is_complete = (required_done = length REQUIRED_STEPS)\<rparr>)"

definition refresh_completion_pct :: "int \<Rightarrow> db \<Rightarrow> db \<times> int" where
  "refresh_completion_pct tg d =
     (let pct = cs_pct (get_completion_state tg d)
      in (upd_user tg (\<lambda>u. u\<lparr>u_profile_completion_pct := pct\<rparr>) d, pct))"

definition earn_completion :: "int \<Rightarrow> user \<Rightarrow> user" where
  "earn_completion n u =
     (earn n u)\<lparr>u_profile_completion_rewarded := True, u_profile_completion_pct := 100\<rparr>"

definition try_award_completion_reward :: "int \<Rightarrow> int \<Rightarrow> int \<Rightarrow> db \<Rightarrow> db \<times> int option" where
  "try_award_completion_reward now reward tg d =
     (case get_user d tg of
        None \<Rightarrow> (d, None)
      | Some u \<Rightarrow>
          if u_profile_completion_rewarded u then (d, None)
          else if \<not> cs_is_complete (get_completion_state tg d) then (d, None)
          else (add_coin_tx now tg reward TxProfileDone None ''profile_completion''
                  (upd_user tg (earn_completion reward) d), Some reward))"

definition get_users_with_incomplete_profile :: "nat \<Rightarrow> db \<Rightarrow> (int \<times> string \<times> pydt option) list" where
  "get_users_with_incomplete_profile limit d =
     map (\<lambda>u. (u_tg_id u, u_first_name u, u_last_profile_reminder_at u))
       (take limit (sort_key (\<lambda>u. - instant (u_last_active u))
         (sel_where (\<lambda>u. u_completed_registration u \<and> \<not> u_profile_completion_rewarded u \<and>
                         \<not> u_is_banned u) (users d))))"

section \<open>Lemmas\<close>

lemma earn_completion_sel [simp]:
  "u_tg_id (earn_completion n u) = u_tg_id u"
  "u_coin_balance (earn_completion n u) = u_coin_balance u + n"
  "u_total_earned_coins (earn_completion n u) = u_total_earned_coins u + n"
  "u_total_spent_coins (earn_completion n u) = u_total_spent_coins u"
  "u_profile_completion_rewarded (earn_completion n u)"
  by (simp_all add: earn_completion_def)

lemma moves_balance_completion: "moves_balance earn_completion"
  by (simp add: moves_balance_def)

interpretation completion: ledger account_ids coin_balance logged_coins
  "coin_move earn_completion now descr ref ty" users_unique for now descr ref ty
  by (rule coin_move_ledger [OF moves_balance_completion])

lemma length_filter_all: "length (filter P xs) = length xs \<longleftrightarrow> (\<forall>x\<in>set xs. P x)"
proof (induction xs)
  case (Cons x xs)
  have "length (filter P xs) \<noteq> Suc (length xs)" using length_filter_le [of P xs] by linarith
  with Cons show ?case by auto
qed simp

lemma required_count:
  "length (filter (\<lambda>s. s \<in> D) REQUIRED_STEPS) = length REQUIRED_STEPS \<longleftrightarrow> set REQUIRED_STEPS \<subseteq> D"
  by (auto simp: length_filter_all)

lemma completion_state_user:
  assumes "get_user d tg = Some u"
  shows "cs_is_complete (get_completion_state tg d) \<longleftrightarrow>
      set REQUIRED_STEPS \<subseteq> cs_done (get_completion_state tg d)"
    and "cs_done (get_completion_state tg d) = {s. is_step_done tg s d} \<union> derived_steps u"
proof -
  show "cs_is_complete (get_completion_state tg d) \<longleftrightarrow>
      set REQUIRED_STEPS \<subseteq> cs_done (get_completion_state tg d)"
    by (simp add: get_completion_state_def assms Let_def required_count)
  have "s \<in> cl_step_code ` {l \<in> set (rows (completion_logs d)). cl_user_tg_id l = tg} \<longleftrightarrow>
      is_step_done tg s d" for s
    by (auto simp: is_step_done_def by_key_def find_key_None_iff step_key_def)
  then show "cs_done (get_completion_state tg d) = {s. is_step_done tg s d} \<union> derived_steps u"
    by (auto simp: get_completion_state_def assms Let_def sel_where_def)
qed

text \<open>Nothing takes the reward flag back: not a step, a refresh or another award.\<close>

lemma award_frame:
  "get_user (fst (try_award_completion_reward now n tg d)) k =
    (if k = tg \<and> snd (try_award_completion_reward now n tg d) \<noteq> None
     then map_option (earn_completion n) (get_user d k) else get_user d k)"
  by (auto simp: try_award_completion_reward_def get_upd_user split: option.split)

lemma mark_frames [simp]:
  "users (mark_step_done now tg s d) = users d" "coin_txs (mark_step_done now tg s d) = coin_txs d"
  by (simp_all add: mark_step_done_def split: option.split)

lemma is_step_done_mark:
  "is_step_done k s' (mark_step_done now tg s d) \<longleftrightarrow> k = tg \<and> s' = s \<or> is_step_done k s' d"
proof (cases "by_key step_key (tg, s) (completion_logs d)")
  case None
  then show ?thesis
    by (auto simp: is_step_done_def mark_step_done_def by_key_insert step_key_def split: option.splits)
next
  case (Some l)
  have "by_key step_key (k, s') (upd_where (\<lambda>l. step_key l = (tg, s))
      (\<lambda>l. l\<lparr>cl_completed_at := Aware now\<rparr>) (completion_logs d)) =
      (if (k, s') = (tg, s) then map_option (\<lambda>l. l\<lparr>cl_completed_at := Aware now\<rparr>)
         (by_key step_key (tg, s) (completion_logs d)) else by_key step_key (k, s') (completion_logs d))"
    by (rule by_key_upd) (simp add: step_key_def)
  then show ?thesis using Some by (auto simp: is_step_done_def mark_step_done_def)
qed

section \<open>Properties\<close>

text \<open>The reward is paid exactly when the user exists, was not rewarded and every required
  step is logged or shown by their fields; it is credited through the ledger, nobody else
  changes, and a second attempt, whatever steps are marked in between, pays nothing.\<close>

theorem completion_reward_once:
  assumes "try_award_completion_reward now n tg d = (d', r)" and "get_user d tg = Some u"
    and "users_unique d" and "ledger_ok d" and "totals_ok d"
  shows "(r = Some n) = (\<not> u_profile_completion_rewarded u \<and>
      (\<forall>s\<in>set REQUIRED_STEPS. is_step_done tg s d \<or> s \<in> derived_steps u)) \<and>
    (if r = None then d' = d else r = Some n \<and> coin_balance d' tg = coin_balance d tg + n) \<and>
    ledger_ok d' \<and> totals_ok d' \<and> (\<forall>k. k \<noteq> tg \<longrightarrow> get_user d' k = get_user d k) \<and>
    (r \<noteq> None \<longrightarrow> snd (try_award_completion_reward later n tg
       (fold (\<lambda>s. mark_step_done later tg s) steps d')) = None)"
proof (cases "r = None")
  case True
  then show ?thesis
    using assms completion_state_user [OF assms(2)]
    by (auto simp: try_award_completion_reward_def split: if_splits)
next
  case False
  then have c: "\<not> u_profile_completion_rewarded u" "cs_is_complete (get_completion_state tg d)"
    "r = Some n"
    and d': "d' = coin_move earn_completion now TxProfileDone None ''profile_completion'' tg n d"
    using assms(1,2) by (auto simp: try_award_completion_reward_def coin_move_def split: if_splits)
  have "tg \<in> account_ids d" using assms(2) by (simp add: account_ids_iff)
  then have l: "ledger_ok d'" "coin_balance d' tg = coin_balance d tg + n"
    using ledger_ok_move [OF moves_balance_completion assms(3,4)]
      completion.balance_move [OF assms(3)] by (simp_all add: d')
  have "totals_ok (upd_user tg (earn_completion n) d)" by (rule totals_ok_upd_user [OF assms(5)]) simp
  then have "totals_ok d'"
    using totals_ok_cong [of d' "upd_user tg (earn_completion n) d"] by (simp add: d' coin_move_def)
  moreover have g: "get_user d' k = (if k = tg then Some (earn_completion n u) else get_user d k)" for k
    by (simp add: d' coin_move_def get_upd_user assms(2))
  moreover have "users (fold (\<lambda>s. mark_step_done later tg s) steps d') = users d'"
    by (induction steps arbitrary: d') simp_all
  then have "get_user (fold (\<lambda>s. mark_step_done later tg s) steps d') tg = Some (earn_completion n u)"
    using g [of tg] by (simp add: get_user_def)
  then have "snd (try_award_completion_reward later n tg
      (fold (\<lambda>s. mark_step_done later tg s) steps d')) = None"
    by (simp add: try_award_completion_reward_def)
  ultimately show ?thesis using c l completion_state_user [OF assms(2)] by auto
qed

text \<open>The percentage counts the required steps only: it is 20 per step done, 100 exactly
  when the profile is complete, and marking a step done never lowers it.\<close>

theorem completion_pct_counts:
  assumes "get_user d tg = Some u"
  shows "cs_pct (get_completion_state tg d)
      = 20 * int (card {s \<in> set REQUIRED_STEPS. s \<in> cs_done (get_completion_state tg d)}) \<and>
    (cs_pct (get_completion_state tg d) = 100) = cs_is_complete (get_completion_state tg d) \<and>
    cs_pct (get_completion_state tg d) \<le> cs_pct (get_completion_state tg (mark_step_done now tg s d))"
proof -
  have five: "distinct REQUIRED_STEPS" "length REQUIRED_STEPS = 5" by (simp_all add: REQUIRED_STEPS_def)
  have pct: "cs_pct (get_completion_state tg d')
      = 20 * int (card {s \<in> set REQUIRED_STEPS. s \<in> cs_done (get_completion_state tg d')})"
    if "get_user d' tg = Some u" for d'
  proof -
    let ?D = "cs_done (get_completion_state tg d')"
    have "distinct (filter (\<lambda>s. s \<in> ?D) REQUIRED_STEPS)" using five by simp
    from distinct_card [OF this]
    have "length (filter (\<lambda>s. s \<in> ?D) REQUIRED_STEPS) = card {s \<in> set REQUIRED_STEPS. s \<in> ?D}" by simp
    moreover have "cs_pct (get_completion_state tg d')
        = 20 * int (length (filter (\<lambda>s. s \<in> ?D) REQUIRED_STEPS))"
      by (simp add: get_completion_state_def that Let_def five)
    ultimately show ?thesis by simp
  qed
  have "(cs_pct (get_completion_state tg d) = 100) = cs_is_complete (get_completion_state tg d)"
    by (auto simp: get_completion_state_def assms Let_def five)
  moreover have m: "get_user (mark_step_done now tg s d) tg = Some u"
    using assms by (simp add: get_user_def)
  have "cs_done (get_completion_state tg d) \<subseteq> cs_done (get_completion_state tg (mark_step_done now tg s d))"
    by (auto simp: completion_state_user(2) [OF assms] completion_state_user(2) [OF m] is_step_done_mark)
  then have "card {s \<in> set REQUIRED_STEPS. s \<in> cs_done (get_completion_state tg d)}
      \<le> card {x \<in> set REQUIRED_STEPS. x \<in> cs_done (get_completion_state tg (mark_step_done now tg s d))}"
    by (intro card_mono) auto
  ultimately show ?thesis using pct [OF assms] pct [OF m] by simp
qed

section \<open>Concrete instances\<close>

definition ready :: user where
  "ready = alice\<lparr>u_city := Some ''Rasht'', u_profile_photo_file_id := Some ''p'',
     u_location_lat := Some 37, u_location_lng := Some 49, u_tags := Some ''t'', u_bio := Some ''b''\<rparr>"

definition ready_db :: db where
  "ready_db = demo_db\<lparr>users := \<lparr>rows = [ready, bob], next_id = 3\<rparr>\<rparr>"

lemma ready_sel: "u_tg_id ready = 1" "u_profile_completion_rewarded ready = False"
  "u_coin_balance ready = 3" "u_total_earned_coins ready = 3" "u_total_spent_coins ready = 0"
  "derived_steps ready = {''city'', ''photo'', ''gps'', ''tags'', ''bio''} \<union>
     (if truthy (u_profile_voice_file_id alice) then {''voice''} else {})"
  by (auto simp: ready_def derived_steps_def)

lemma ready_db_ok: "get_user ready_db 1 = Some ready" "users_unique ready_db" "ledger_ok ready_db"
  "totals_ok ready_db"
proof -
  have c: "coin_txs ready_db = coin_txs demo_db" by (simp add: ready_db_def)
  have u: "rows (users ready_db) = [ready, bob]" by (simp add: ready_db_def)
  show g: "get_user ready_db 1 = Some ready" by (simp add: get_user_def by_key_def u ready_sel)
  have h: "get_user ready_db 2 = Some bob" by (simp add: get_user_def by_key_def u ready_sel)
  show "users_unique ready_db" by (simp add: users_unique_def u ready_sel)
  show "totals_ok ready_db" by (simp add: totals_ok_def u ready_sel)
  show "ledger_ok ready_db"
    using logged_coins_cong [OF c]
    by (simp add: ledger_ok_def account_ids_def coin_balance_def u g h ready_sel)
qed

lemma completion_reward_once_witness:
  "\<exists>d'. try_award_completion_reward 0 10 1 ready_db = (d', Some 10) \<and> coin_balance d' 1 = 13"
proof -
  obtain d' r where t: "try_award_completion_reward 0 10 1 ready_db = (d', r)" by (metis surj_pair)
  note c = completion_reward_once [OF t ready_db_ok, of 0 "[]"]
  have "\<forall>s\<in>set REQUIRED_STEPS. s \<in> derived_steps ready" by (simp add: ready_sel REQUIRED_STEPS_def)
  then have r: "r = Some 10" using c [THEN conjunct1] ready_sel(2) by blast
  moreover have "coin_balance ready_db 1 = 3" by (simp add: coin_balance_Some [OF ready_db_ok(1)] ready_sel(3))
  ultimately show ?thesis using c [THEN conjunct2, THEN conjunct1] t by simp
qed

lemma completion_pct_counts_witness:
  "cs_pct (get_completion_state 1 ready_db) = 100"
proof -
  have "set REQUIRED_STEPS \<subseteq> derived_steps ready" by (simp add: ready_sel REQUIRED_STEPS_def)
  then show ?thesis
    using completion_pct_counts [OF ready_db_ok(1), of 0 "''bio''"]
      completion_state_user [OF ready_db_ok(1)] by blast
qed

end
