(* ===== verification/Payments.thy ===== *)
theory Payments
  imports Orders Social Banners ProfileCompletion
begin

text \<open>
  The payment path: \<open>services/zarinpal.py\<close>, the gateway callback of
  \<open>api/routes/payment.py\<close> and the admin's receipt review of \<open>bot/handlers/payments.py\<close>.
  The gateway's answer to a request is an argument.  A VIP activation and a gift credit commit
  inside the callback, so the callback is modelled as two transactions, delivery and final
  approval, between which another request may run.
\<close>

section \<open>The gateway\<close>

text \<open>What \<open>resp.json()\<close> gives: an exception, a value that is no dict, or the dict's fields.\<close>

datatype gateway_reply =
    NetworkError | NotADict
  | Reply "int option" "string option" "string option" string

datatype verify_result = Verified string int | NotVerified string "int option"

definition request_payment :: "(int \<Rightarrow> gateway_reply) \<Rightarrow> int \<Rightarrow> string + string" where
  "request_payment post amount_toman =
     (case post (amount_toman * 10) of
        NetworkError \<Rightarrow> Inl ''network''
      | NotADict \<Rightarrow> Inl ''invalid reply''
      | Reply code authority ref err \<Rightarrow>
          if code = Some 100 \<and> truthy authority then Inr (the authority) else Inl err)"

definition authority_ok :: "string \<Rightarrow> bool" where
  "authority_ok a \<longleftrightarrow> length a = 36 \<and> take 1 a = ''A''"

definition verify_payment :: "(int \<Rightarrow> string \<Rightarrow> gateway_reply) \<Rightarrow> int \<Rightarrow> string \<Rightarrow> verify_result" where
  "verify_payment post amount_toman authority =
     (if \<not> authority_ok authority then NotVerified ''authority'' None
      else if amount_toman \<le> 0 then NotVerified ''amount'' None
      else case post (amount_toman * 10) authority of
        NetworkError \<Rightarrow> NotVerified ''network'' None
      | NotADict \<Rightarrow> NotVerified ''invalid reply'' None
      | Reply code _ ref err \<Rightarrow>
          if code = Some 100 \<or> code = Some 101
          then Verified (case ref of None \<Rightarrow> [] | Some r \<Rightarrow> r) (the code)
          else NotVerified err code)"

section \<open>Callers and their limit\<close>

record request =
  rq_forwarded_for :: "string option"
  rq_real_ip :: "string option"
  rq_client :: "string option"

definition strip :: "string \<Rightarrow> string" where
  "strip s = rev (dropWhile (\<lambda>c. c = CHR '' '') (rev (dropWhile (\<lambda>c. c = CHR '' '') s)))"

definition get_client_ip :: "request \<Rightarrow> string" where
  "get_client_ip r =
     (if truthy (rq_forwarded_for r)
      then strip (takeWhile (\<lambda>c. c \<noteq> CHR '','') (the (rq_forwarded_for r)))
      else if truthy (rq_real_ip r) then strip (the (rq_real_ip r))
      else case rq_client r of None \<Rightarrow> ''unknown'' | Some h \<Rightarrow> h)"

text \<open>The Redis counters with their expiry, in microseconds.\<close>

record limiter =
  lm_attempts :: "string \<rightharpoonup> int \<times> int"
  lm_blocked :: "string \<rightharpoonup> int"

definition second_us :: int where
  "second_us = 1000000"

definition check_callback_brute_force :: "int \<Rightarrow> request \<Rightarrow> limiter \<Rightarrow> bool" where
  "check_callback_brute_force now r l =
     (case lm_blocked l (get_client_ip r) of None \<Rightarrow> False | Some expires \<Rightarrow> now < expires)"

definition record_callback_attempt :: "int \<Rightarrow> request \<Rightarrow> limiter \<Rightarrow> limiter" where
  "record_callback_attempt now r l =
     (let ip = get_client_ip r;
          (count, expires) = (case lm_attempts l ip of
              None \<Rightarrow> (1, now + 300 * second_us)
            | Some (n, e) \<Rightarrow> if now < e then (n + 1, e) else (1, now + 300 * second_us));
          l1 = l\<lparr>lm_attempts := (lm_attempts l)(ip \<mapsto> (count, expires))\<rparr>
      in if count > 20 then l1\<lparr>lm_blocked := (lm_blocked l)(ip \<mapsto> now + 900 * second_us)\<rparr> else l1)"

section \<open>The callback\<close>

datatype page =
    PageBlocked | PageNotFound | PageAlready bool | PageAuthority | PageCancelled
  | PageNoPackage | PageIncomplete | PageUnknownType | PageNotVerified | PageNoUser
  | PageSuccess string

text \<open>What is known when the gateway has confirmed and the goods are delivered.\<close>

record delivery =
  dl_order :: int
  dl_user :: int
  dl_ref :: string

definition order_payload_of :: "purchase_order \<Rightarrow> payload" where
  "order_payload_of p = (case po_order_payload p of
     Some (Json pl) \<Rightarrow> pl | _ \<Rightarrow> empty_payload)"

definition order_type_of :: "purchase_order \<Rightarrow> string" where
  "order_type_of p = (if po_order_type p = [] then ''coins'' else po_order_type p)"

definition falsy_amount :: "int option \<Rightarrow> bool" where
  "falsy_amount x \<longleftrightarrow> x = None \<or> x = Some 0"

text \<open>The amount to verify, or the page of the early return.\<close>

definition verify_amount_of :: "purchase_order \<Rightarrow> db \<Rightarrow> page + int" where
  "verify_amount_of p d =
     (let pl = order_payload_of p in
      if order_type_of p = ''coins'' then
        (case get_package (po_package_id p) d of
           None \<Rightarrow> Inl PageNoPackage
         | Some c \<Rightarrow> Inr (if falsy_amount (pl_price_toman_snapshot pl) then cp_price_toman c
                          else the (pl_price_toman_snapshot pl)))
      else if order_type_of p = ''vip_subscription'' \<or> order_type_of p = ''gift_purchase'' then
        (if falsy_amount (pl_price_toman pl) then Inl PageIncomplete
         else Inr (the (pl_price_toman pl)))
      else Inl PageUnknownType)"

definition settle :: "int \<Rightarrow> status \<Rightarrow> db \<Rightarrow> db" where
  "settle oid st d = set_order oid (\<lambda>p. p\<lparr>po_status := st\<rparr>) d"

definition settle_at :: "int \<Rightarrow> int \<Rightarrow> status \<Rightarrow> db \<Rightarrow> db" where
  "settle_at now oid st d =
     set_order oid (\<lambda>p. p\<lparr>po_status := st, po_resolved_at := Some (Aware now)\<rparr>) d"

text \<open>
  The goods.  A failed VIP activation and a failed gift credit are swallowed: the database is
  as it was.  A missing gift code selects no gift.
\<close>

definition deliver_coins ::
  "int \<Rightarrow> (rat \<Rightarrow> rat) \<Rightarrow> rat option \<Rightarrow> int \<Rightarrow> purchase_order \<Rightarrow> user \<Rightarrow> coin_package \<Rightarrow> db \<Rightarrow> db" where
  "deliver_coins now fl event pct p u c d =
     (let (d1, _, _) = process_coin_transaction now fl event u (cp_coin_amount c)
            (TxOnlinePackage (cp_coin_amount c) (po_id p)) False None d
      in fst (process_commission_on_purchase now pct (po_id p) (u_tg_id u) (cp_coin_amount c) d1))"

definition deliver_vip :: "int \<Rightarrow> plans \<Rightarrow> purchase_order \<Rightarrow> user \<Rightarrow> db \<Rightarrow> db" where
  "deliver_vip now plans p u d =
     (case pl_plan_code (order_payload_of p) of
        None \<Rightarrow> d
      | Some code \<Rightarrow> (case activate_subscription now plans (u_tg_id u) code (Some (po_id p)) d of
            Inl _ \<Rightarrow> d | Inr (d1, _) \<Rightarrow> d1))"

definition deliver_gift :: "int \<Rightarrow> purchase_order \<Rightarrow> user \<Rightarrow> db \<Rightarrow> db" where
  "deliver_gift now p u d =
     (case pl_gift_code (order_payload_of p) of
        None \<Rightarrow> d
      | Some code \<Rightarrow> fst (credit_gift now (u_tg_id u) code
          (case pl_quantity (order_payload_of p) of None \<Rightarrow> 1 | Some q \<Rightarrow> q) (Some (po_id p)) d))"

record settings =
  st_round :: "rat \<Rightarrow> rat"
  st_event :: "rat option"
  st_commission_pct :: int
  st_plans :: plans

definition deliver_goods :: "settings \<Rightarrow> int \<Rightarrow> purchase_order \<Rightarrow> user \<Rightarrow> db \<Rightarrow> db" where
  "deliver_goods st now p u d =
     (if order_type_of p = ''coins''
      then deliver_coins now (st_round st) (st_event st) (st_commission_pct st)
             p u (the (get_package (po_package_id p) d)) d
      else if order_type_of p = ''vip_subscription'' then deliver_vip now (st_plans st) p u d
      else deliver_gift now p u d)"

text \<open>
  Up to the goods: the order row is locked, so two callbacks run one after the other until the
  first commit.  \<open>Inl\<close> is a finished request with its page.
\<close>

definition callback_deliver ::
  "settings \<Rightarrow> int \<Rightarrow> (int \<Rightarrow> string \<Rightarrow> gateway_reply) \<Rightarrow> int \<Rightarrow> string \<Rightarrow> string \<Rightarrow> db
     \<Rightarrow> db \<times> (page + delivery)" where
  "callback_deliver st now post oid Authority Status d =
     (case get_purchase_order oid d of
        None \<Rightarrow> (d, Inl PageNotFound)
      | Some p \<Rightarrow>
          if po_status p \<noteq> Pending then (d, Inl (PageAlready (po_status p = Approved)))
          else if Authority = [] \<or> po_gateway_authority p \<noteq> Some Authority
          then (settle oid Failed d, Inl PageAuthority)
          else if Status \<noteq> ''OK'' then (settle oid Rejected d, Inl PageCancelled)
          else (case verify_amount_of p d of
             Inl page \<Rightarrow> (settle oid Failed d, Inl page)
           | Inr amount \<Rightarrow>
              (case verify_payment post amount Authority of
                 NotVerified _ _ \<Rightarrow> (settle oid Rejected d, Inl PageNotVerified)
               | Verified ref _ \<Rightarrow>
                  (case get_user d (po_user_tg_id p) of
                     None \<Rightarrow> (settle_at now oid Failed d, Inl PageNoUser)
                   | Some u \<Rightarrow>
                       (deliver_goods st now p u d,
                        Inr \<lparr>dl_order = oid, dl_user = u_tg_id u, dl_ref = ref\<rparr>)))))"

definition callback_finish :: "int \<Rightarrow> delivery \<Rightarrow> db \<Rightarrow> db \<times> page" where
  "callback_finish now dl d = (settle_at now (dl_order dl) Approved d, PageSuccess (dl_ref dl))"

definition zarinpal_callback ::
  "settings \<Rightarrow> int \<Rightarrow> (int \<Rightarrow> string \<Rightarrow> gateway_reply) \<Rightarrow> request \<Rightarrow> int \<Rightarrow> string \<Rightarrow> string
     \<Rightarrow> db \<times> limiter \<Rightarrow> (db \<times> limiter) \<times> page" where
  "zarinpal_callback st now post rq oid Authority Status = (\<lambda>(d, l).
     if check_callback_brute_force now rq l then ((d, l), PageBlocked)
     else
       let l1 = record_callback_attempt now rq l
       in case callback_deliver st now post oid Authority Status d of
            (d1, Inl page) \<Rightarrow> ((d1, l1), page)
          | (d1, Inr dl) \<Rightarrow> (let (d2, page) = callback_finish now dl d1 in ((d2, l1), page)))"

section \<open>Receipts\<close>

datatype receipt_reply =
    ReceiptGone | ReceiptVipDone | ReceiptVipError | ReceiptNoPackage | ReceiptNoUser
  | ReceiptCoinsDone | ReceiptUnknownType | ReceiptRejected | ReceiptException

text \<open>The handler reads the order without a lock; it does not ask who presses the button.\<close>

definition receipt_open :: "purchase_order \<Rightarrow> bool" where
  "receipt_open p \<longleftrightarrow> po_status p = Pending \<or> po_status p = PendingReceipt"

definition apply_receipt :: "settings \<Rightarrow> int \<Rightarrow> purchase_order \<Rightarrow> db \<Rightarrow> db \<times> receipt_reply" where
  "apply_receipt st now p d =
     (if po_order_type p = ''vip_subscription'' then
        (case po_order_payload p of
           Some BadJson \<Rightarrow> (d, ReceiptException)
         | _ \<Rightarrow>
            (case pl_plan_code (order_payload_of p) of
               None \<Rightarrow> (d, ReceiptVipError)
             | Some code \<Rightarrow>
                (case activate_subscription now (st_plans st) (po_user_tg_id p) code (Some (po_id p)) d of
                   Inl _ \<Rightarrow> (d, ReceiptVipError)
                 | Inr (d1, _) \<Rightarrow> (settle_at now (po_id p) Completed d1, ReceiptVipDone))))
      else if po_order_type p = ''coins'' then
        (case get_package (po_package_id p) d of
           None \<Rightarrow> (d, ReceiptNoPackage)
         | Some c \<Rightarrow>
            (case get_user d (po_user_tg_id p) of
               None \<Rightarrow> (d, ReceiptNoUser)
             | Some u \<Rightarrow>
                 let (d1, _, _) = process_coin_transaction now (st_round st) (st_event st) u
                       (cp_coin_amount c) (TxCardPackage (cp_coin_amount c)) False None d;
                     d2 = fst (process_commission_on_purchase now (st_commission_pct st) (po_id p)
                       (u_tg_id u) (cp_coin_amount c) d1)
                 in (settle_at now (po_id p) Completed d2, ReceiptCoinsDone)))
      else (d, ReceiptUnknownType))"

definition admin_verify_receipt :: "settings \<Rightarrow> int \<Rightarrow> int \<Rightarrow> db \<Rightarrow> db \<times> receipt_reply" where
  "admin_verify_receipt st now oid d =
     (case get_purchase_order oid d of
        None \<Rightarrow> (d, ReceiptGone)
      | Some p \<Rightarrow> if \<not> receipt_open p then (d, ReceiptGone) else apply_receipt st now p d)"

definition admin_reject_receipt :: "int \<Rightarrow> int \<Rightarrow> db \<Rightarrow> db \<times> receipt_reply" where
  "admin_reject_receipt now oid d =
     (case get_purchase_order oid d of
        None \<Rightarrow> (d, ReceiptGone)
      | Some p \<Rightarrow> if \<not> receipt_open p then (d, ReceiptGone)
                  else (settle_at now oid Rejected d, ReceiptRejected))"

section \<open>Lemmas\<close>

lemma settle_frames [simp]:
  "users (settle i s d) = users d" "coin_txs (settle i s d) = coin_txs d"
  "users (settle_at n i s d) = users d" "coin_txs (settle_at n i s d) = coin_txs d"
  "vip_subs (settle_at n i s d) = vip_subs d" "user_gifts (settle_at n i s d) = user_gifts d"
  "vip_subs (settle i s d) = vip_subs d" "user_gifts (settle i s d) = user_gifts d"
  by (simp_all add: settle_def settle_at_def)

lemma get_settle [simp]:
  "get_purchase_order j (settle i s d) =
    (if j = i then map_option (\<lambda>p. p\<lparr>po_status := s\<rparr>) (get_purchase_order i d)
     else get_purchase_order j d)"
  "get_purchase_order j (settle_at n i s d) =
    (if j = i then map_option (\<lambda>p. p\<lparr>po_status := s, po_resolved_at := Some (Aware n)\<rparr>)
       (get_purchase_order i d) else get_purchase_order j d)"
  by (simp_all add: settle_def settle_at_def get_set_order)

text \<open>Delivering does not touch orders.\<close>

lemma process_orders [simp]:
  "orders (fst (process_coin_transaction now fl ev u n t ig r d)) = orders d"
  by (simp add: process_coin_transaction_def Let_def add_coin_tx_def upd_user_def)

lemma commission_orders [simp]:
  "orders (fst (process_commission_on_purchase now pct oid b n d)) = orders d"
  by (simp add: process_commission_on_purchase_def Let_def add_coin_tx_def upd_user_def
      split: option.split)

lemma deliver_orders [simp]:
  "orders (deliver_coins now fl ev pct p u c d) = orders d"
  "orders (deliver_vip now plans p u d) = orders d"
  "orders (deliver_gift now p u d) = orders d"
proof -
  show "orders (deliver_coins now fl ev pct p u c d) = orders d"
    by (simp add: deliver_coins_def case_prod_beta)
  have "orders d1 = orders d" if "activate_subscription now plans tg code oid d = Inr (d1, s)" for code oid d1 s tg
    using that by (auto simp: activate_subscription_def Let_def upd_user_def split: option.splits sum.splits)
  then show "orders (deliver_vip now plans p u d) = orders d"
    by (auto simp: deliver_vip_def split: option.splits sum.splits)
  have "orders (fst (credit_gift now b code q oid d)) = orders d" for b code q oid
    by (simp add: credit_gift_def Let_def add_to_inventory_def set_quantity_def log_gift_def
        add_coin_tx_def split: option.split)
  then show "orders (deliver_gift now p u d) = orders d"
    by (simp add: deliver_gift_def split: option.split)
qed

lemma deliver_goods_orders [simp]: "orders (deliver_goods st now p u d) = orders d"
  by (simp add: deliver_goods_def)

lemma deliver_cases:
  assumes "callback_deliver st now post oid au sta d = (d1, r)"
  obtains (ended) page where "r = Inl page" "users d1 = users d" "coin_txs d1 = coin_txs d"
      "vip_subs d1 = vip_subs d" "user_gifts d1 = user_gifts d"
      "page = PageNotFound \<and> d1 = d \<and> get_purchase_order oid d = None \<or>
       (\<exists>p. get_purchase_order oid d1 = Some p \<and> po_status p \<noteq> Pending)"
  | (paid) p u amount ref code where "get_purchase_order oid d = Some p" "po_status p = Pending"
      "au \<noteq> []" "po_gateway_authority p = Some au" "sta = ''OK''" "verify_amount_of p d = Inr amount"
      "verify_payment post amount au = Verified ref code" "get_user d (po_user_tg_id p) = Some u"
      "r = Inr \<lparr>dl_order = oid, dl_user = u_tg_id u, dl_ref = ref\<rparr>"
      "d1 = deliver_goods st now p u d"
proof (cases r)
  case (Inl page)
  show ?thesis
  proof (rule ended [OF Inl])
    show "users d1 = users d" "coin_txs d1 = coin_txs d" "vip_subs d1 = vip_subs d"
      "user_gifts d1 = user_gifts d"
      using assms Inl
      by (auto simp: callback_deliver_def Let_def split: option.splits if_splits sum.splits verify_result.splits)
    show "page = PageNotFound \<and> d1 = d \<and> get_purchase_order oid d = None \<or>
       (\<exists>p. get_purchase_order oid d1 = Some p \<and> po_status p \<noteq> Pending)"
      using assms Inl
      by (auto simp: callback_deliver_def Let_def split: option.splits if_splits sum.splits verify_result.splits)
  qed
next
  case (Inr dl)
  with assms obtain p where p: "get_purchase_order oid d = Some p"
    by (cases "get_purchase_order oid d") (simp_all add: callback_deliver_def)
  with assms Inr have g: "po_status p = Pending" "au \<noteq> []" "po_gateway_authority p = Some au" "sta = ''OK''"
    by (auto simp: callback_deliver_def split: if_splits)
  with assms Inr p obtain amount where a: "verify_amount_of p d = Inr amount"
    by (cases "verify_amount_of p d") (simp_all add: callback_deliver_def)
  with assms Inr p g obtain ref code where v: "verify_payment post amount au = Verified ref code"
    by (cases "verify_payment post amount au") (simp_all add: callback_deliver_def)
  with assms Inr p g a obtain u where u: "get_user d (po_user_tg_id p) = Some u"
    by (cases "get_user d (po_user_tg_id p)") (simp_all add: callback_deliver_def)
  show ?thesis
    using assms Inr p g a v u by (intro paid) (auto simp: callback_deliver_def)
qed

lemma verified_iff:
  "verify_payment post amount au = Verified ref code \<longleftrightarrow>
    authority_ok au \<and> 0 < amount \<and> (code = 100 \<or> code = 101) \<and>
    (\<exists>x y e. post (amount * 10) au = Reply (Some code) x y e \<and> ref = (case y of None \<Rightarrow> [] | Some r \<Rightarrow> r))"
  by (auto simp: verify_payment_def split: gateway_reply.splits option.splits)

lemma callback_cases:
  assumes "zarinpal_callback st now post rq oid au sta (d, l) = ((d2, l2), page)"
  obtains (blocked) "page = PageBlocked" "d2 = d"
  | (stopped) pg where "callback_deliver st now post oid au sta d = (d2, Inl pg)" "page = pg" "pg \<noteq> PageBlocked"
  | (paid) d1 dl where "callback_deliver st now post oid au sta d = (d1, Inr dl)"
      "d2 = settle_at now (dl_order dl) Approved d1" "page = PageSuccess (dl_ref dl)"
proof (cases "check_callback_brute_force now rq l")
  case True
  then show ?thesis using assms blocked by (simp add: zarinpal_callback_def)
next
  case False
  obtain d1 r where c: "callback_deliver st now post oid au sta d = (d1, r)" by (metis surj_pair)
  show ?thesis
  proof (cases r)
    case (Inl pg)
    have "pg \<noteq> PageBlocked"
      using c Inl
      by (auto simp: callback_deliver_def Let_def verify_amount_of_def
          split: option.splits if_splits sum.splits verify_result.splits)
    then show ?thesis
      using assms c Inl False by (intro stopped [of pg]) (simp_all add: zarinpal_callback_def Let_def)
  next
    case (Inr dl)
    then show ?thesis
      using assms c False
      by (intro paid [of d1 dl]) (simp_all add: zarinpal_callback_def Let_def callback_finish_def)
  qed
qed

section \<open>Properties\<close>

text \<open>C1: Nothing is delivered without a confirmed payment: if a callback changes a user, the coin
  log, a subscription or an inventory, then the order was pending, the caller presented the
  non-empty authority stored with it, the status said OK, and the gateway confirmed (code 100
  or 101) exactly ten times the order's toman amount, which is positive.\<close>

theorem callback_delivers_only_verified:
  assumes "zarinpal_callback st now post rq oid au sta (d, l) = ((d2, l2), page)"
    and "users d2 \<noteq> users d \<or> coin_txs d2 \<noteq> coin_txs d \<or> vip_subs d2 \<noteq> vip_subs d \<or>
      user_gifts d2 \<noteq> user_gifts d"
  shows "\<exists>p amount code x y e. get_purchase_order oid d = Some p \<and> po_status p = Pending \<and>
    au \<noteq> [] \<and> po_gateway_authority p = Some au \<and> sta = ''OK'' \<and>
    verify_amount_of p d = Inr amount \<and> 0 < amount \<and>
    post (amount * 10) au = Reply (Some code) x y e \<and> (code = 100 \<or> code = 101)"
  using assms(1)
proof (cases rule: callback_cases)
  case blocked
  then show ?thesis using assms(2) by simp
next
  case (stopped pg)
  from stopped(1) show ?thesis
    by (cases rule: deliver_cases) (use assms(2) in simp_all)
next
  case (paid d1 dl)
  from paid(1) show ?thesis
  proof (cases rule: deliver_cases)
    case (paid p u amount ref code)
    from paid(7) have "0 < amount" "code = 100 \<or> code = 101"
      "\<exists>x y e. post (amount * 10) au = Reply (Some code) x y e"
      by (auto simp: verified_iff)
    then show ?thesis using paid(1-6) by blast
  qed simp
qed

text \<open>One callback settles an order: whatever page it ended with, unless the caller was
  blocked, no later callback for the same order changes the database at all, whoever sends it
  and whatever the gateway says.\<close>

theorem callback_settles_order:
  assumes "zarinpal_callback st now post rq oid au sta (d, l) = ((d2, l2), page)"
    and "page \<noteq> PageBlocked"
    and "zarinpal_callback st' now' post' rq' oid au' sta' (d2, l') = ((d3, l3), page')"
  shows "d3 = d2"
proof -
  have "get_purchase_order oid d2 = None \<or>
      (\<exists>p. get_purchase_order oid d2 = Some p \<and> po_status p \<noteq> Pending)"
    using assms(1)
  proof (cases rule: callback_cases)
    case blocked
    then show ?thesis using assms(2) by simp
  next
    case (stopped pg)
    from stopped(1) show ?thesis
      by (cases rule: deliver_cases) (auto simp: callback_deliver_def split: option.splits if_splits)
  next
    case (paid d1 dl)
    from paid(1) show ?thesis
    proof (cases rule: deliver_cases)
      case (paid p u amount ref code)
      have "orders d1 = orders d" by (simp add: paid(10))
      then have "get_purchase_order oid d1 = Some p"
        using paid(1) by (simp add: get_purchase_order_def)
      then show ?thesis using \<open>d2 = _\<close> paid(9) by simp
    qed simp
  qed
  then have quiet: "fst (callback_deliver st' now' post' oid au' sta' d2) = d2 \<and>
      (\<exists>pg. snd (callback_deliver st' now' post' oid au' sta' d2) = Inl pg)"
    by (auto simp: callback_deliver_def)
  from assms(3) show ?thesis
    by (cases rule: callback_cases) (use quiet in auto)
qed

lemma commission_view:
  assumes "process_commission_on_purchase now pct oid buyer coins d = (d', res)"
    and "users_unique d" and "ledger_ok d" and "totals_ok d"
  shows "ledger_ok d' \<and> totals_ok d' \<and> (\<exists>n. (n = 0 \<or> n = coins * pct div 100) \<and>
    total_coins d' = total_coins d + n \<and>
    (\<forall>k. coin_balance d' k = coin_balance d k +
       (if map_option u_referrer_id (get_user d buyer) = Some (Some k) then n else 0)))"
  using assms(1)
proof (cases rule: commission_cases)
  case none
  then show ?thesis using assms(3,4) by (auto intro!: exI [of _ 0])
next
  case (paid b r rid)
  let ?n = "coins * pct div 100"
  have rid: "rid \<in> account_ids d" using paid(4) by (simp add: account_ids_iff)
  note v = coin_move_view [where f = earn_commission, OF paid(7,8)]
  have "ledger_ok d'"
    using ledger_ok_move [OF moves_balance_commission assms(2,3) rid] v(3) by simp
  moreover have "totals_ok d'"
    using totals_ok_upd_user [OF assms(4), of "earn_commission ?n" rid] v(4) by simp
  moreover have "total_coins d' = total_coins d + ?n"
    using commission.total_move [OF assms(2) rid, of now "TxCommission pct" "Some oid"
        "''referral_commission''" ?n] v(1,2) by (simp add: commission.total_def total_coins_def)
  moreover have "coin_balance d' k = coin_balance d k + (if k = rid then ?n else 0)" for k
    using commission.balance_move [OF assms(2) rid] v(2) by simp
  ultimately show ?thesis using paid(2,3) by (intro conjI exI [of _ ?n]) auto
qed

lemma deliver_coins_view:
  assumes "get_user d (u_tg_id u) = Some u" and "0 \<le> cp_coin_amount c"
    and "users_unique d" and "ledger_ok d" and "totals_ok d"
    and "d1 = deliver_coins now fl None pct p u c d"
  shows "ledger_ok d1 \<and> totals_ok d1 \<and> (\<exists>n. (n = 0 \<or> n = cp_coin_amount c * pct div 100) \<and>
    total_coins d1 = total_coins d + cp_coin_amount c + n \<and>
    (\<forall>k. coin_balance d1 k = coin_balance d k + (if k = u_tg_id u then cp_coin_amount c else 0) +
       (if u_referrer_id u = Some k then n else 0)))"
proof -
  let ?t = "TxOnlinePackage (cp_coin_amount c) (po_id p)" and ?n = "cp_coin_amount c"
  let ?m = "coin_move earn now ?t None ''generic'' (u_tg_id u) ?n d"
  have d1: "d1 = fst (process_commission_on_purchase now pct (po_id p) (u_tg_id u) ?n ?m)"
    using process_credit [OF assms(2), of now fl None u ?t False None d] assms(6)
    by (simp add: deliver_coins_def coin_move_def event_amount_def event_text_def)
  have b: "u_tg_id u \<in> account_ids d" using assms(1) by (simp add: account_ids_iff)
  have m: "users_unique ?m" "ledger_ok ?m"
    using earning.valid_move [OF assms(3)] ledger_ok_move [OF moves_balance_earn assms(3,4) b] by simp_all
  have "totals_ok (upd_user (u_tg_id u) (earn ?n) d)" by (rule totals_ok_upd_user [OF assms(5)]) simp
  then have mt: "totals_ok ?m"
    using totals_ok_cong [of ?m "upd_user (u_tg_id u) (earn ?n) d"] by (simp add: coin_move_def)
  have tot: "total_coins ?m = total_coins d + ?n"
    using earning.total_move [OF assms(3) b, of now ?t None "''generic''" ?n] by (simp add: total_total_coins)
  have bal: "coin_balance ?m k = coin_balance d k + (if k = u_tg_id u then ?n else 0)" for k
    using earning.balance_move [OF assms(3) b, of now ?t None "''generic''" ?n k] by simp
  have ref: "map_option u_referrer_id (get_user ?m (u_tg_id u)) = Some (u_referrer_id u)"
    by (simp add: coin_move_def get_upd_user assms(1))
  obtain e res where e: "process_commission_on_purchase now pct (po_id p) (u_tg_id u) ?n ?m = (e, res)"
    by (metis surj_pair)
  from commission_view [OF e m mt] show ?thesis
    by (simp only: d1 e fst_conv ref tot bal option.inject)
qed


text \<open>The callback reports success although nothing was delivered: when the activation of a
  paid VIP order fails, as it does for every running subscription whose expiry reads back
  naive, the order is approved, the success page is shown, and the user and their
  subscriptions are what they were.\<close>

theorem paid_vip_renewal_lost:
  assumes "get_purchase_order oid d = Some p" and "po_status p = Pending"
    and "order_type_of p = ''vip_subscription''" and "pl_plan_code (order_payload_of p) = Some code"
    and "map_of (st_plans st) code = Some plan"
    and "verify_amount_of p d = Inr amount" and "po_gateway_authority p = Some au" and "au \<noteq> []"
    and "verify_payment post amount au = Verified ref n"
    and "get_user d (po_user_tg_id p) = Some u" and "u_is_vip u" and "u_vip_expires_at u = Some (Naive e)"
    and "\<not> check_callback_brute_force now rq l"
  shows "\<exists>d2 l2. zarinpal_callback st now post rq oid au ''OK'' (d, l) = ((d2, l2), PageSuccess ref) \<and>
    map_option po_status (get_purchase_order oid d2) = Some Approved \<and>
    users d2 = users d \<and> vip_subs d2 = vip_subs d"
proof -
  have tg: "u_tg_id u = po_user_tg_id p" using assms(10) by (rule get_user_tg)
  have "activate_subscription now (st_plans st) (u_tg_id u) code (Some (po_id p)) d = Inl TypeError"
    by (simp add: activate_subscription_def assms(5,10-12) tg extended_expiry_def Let_def)
  then have "deliver_goods st now p u d = d"
    by (simp add: deliver_goods_def deliver_vip_def assms(3,4))
  then have "callback_deliver st now post oid au ''OK'' d
      = (d, Inr \<lparr>dl_order = oid, dl_user = u_tg_id u, dl_ref = ref\<rparr>)"
    using assms by (simp add: callback_deliver_def)
  then show ?thesis
    using assms(1,13) by (simp add: zarinpal_callback_def callback_finish_def Let_def)
qed

text \<open>C39: A paid gift can be credited twice: crediting commits while the order is still pending,
  which releases its lock, so a second callback that runs before the first one's final
  approval passes every check and credits the gift again.\<close>

theorem gift_credited_twice:
  assumes "callback_deliver st t1 post oid au sta d = (d1, Inr dl1)"
    and "callback_deliver st t2 post oid au sta d1 = (d2, r)"
    and "get_purchase_order oid d = Some p" and "order_type_of p = ''gift_purchase''"
    and "pl_gift_code (order_payload_of p) = Some code" and "pl_quantity (order_payload_of p) = Some q"
    and "get_gift_type_by_code code d = Some gt" and "gt_is_active gt" and "1 \<le> q" and "q \<le> 100"
  shows "holding d1 (po_user_tg_id p) (gt_id gt) = holding d (po_user_tg_id p) (gt_id gt) + q \<and>
    r = Inr dl1 \<and> holding d2 (po_user_tg_id p) (gt_id gt) = holding d (po_user_tg_id p) (gt_id gt) + 2 * q"
proof -
  have credit: "holding (deliver_goods st t p u e) (u_tg_id u) (gt_id gt) = holding e (u_tg_id u) (gt_id gt) + q \<and>
      users (deliver_goods st t p u e) = users e \<and>
      get_gift_type_by_code code (deliver_goods st t p u e) = Some gt"
    if "get_gift_type_by_code code e = Some gt" for t u e
    using that assms(4-6,8-10)
    by (simp add: deliver_goods_def deliver_gift_def credit_gift_def Let_def holding_add_to_inventory)
  obtain u amount ref n where p: "po_status p = Pending" "au \<noteq> []" "po_gateway_authority p = Some au"
      "sta = ''OK''" "verify_amount_of p d = Inr amount" "verify_payment post amount au = Verified ref n"
      "get_user d (po_user_tg_id p) = Some u"
    and dl1: "dl1 = \<lparr>dl_order = oid, dl_user = u_tg_id u, dl_ref = ref\<rparr>"
    and d1: "d1 = deliver_goods st t1 p u d"
    using assms(1) by (cases rule: deliver_cases) (use assms(3) in auto)
  have tg: "u_tg_id u = po_user_tg_id p" using p(7) by (rule get_user_tg)
  note c1 = credit [OF assms(7), of t1 u, folded d1]
  have "orders d1 = orders d" by (simp add: d1)
  then have "get_purchase_order oid d1 = Some p" using assms(3) by (simp add: get_purchase_order_def)
  moreover have "verify_amount_of p d1 = Inr amount"
    using p(5) assms(4) by (simp add: verify_amount_of_def Let_def)
  moreover have "get_user d1 (po_user_tg_id p) = Some u" using p(7) c1 by (simp add: get_user_def)
  ultimately have "callback_deliver st t2 post oid au sta d1 = (deliver_goods st t2 p u d1, Inr dl1)"
    using p by (simp add: callback_deliver_def dl1)
  then show ?thesis
    using assms(2) c1 credit [of d1 t2 u] tg by simp
qed

section \<open>Concrete instances\<close>

text \<open>A gateway that confirms the authority it issued.\<close>

definition gateway :: "int \<Rightarrow> string \<Rightarrow> gateway_reply" where
  "gateway rial au = (if au = CHR ''A'' # replicate 35 (CHR ''0'') \<and> rial = 500000
     then Reply (Some 100) None (Some ''77'') [] else Reply (Some (- 51)) None None ''x'')"

definition issued :: string where
  "issued = CHR ''A'' # replicate 35 (CHR ''0'')"

definition shop :: settings where
  "shop = \<lparr>st_round = (\<lambda>x. x), st_event = None, st_commission_pct = 20, st_plans = default_plans\<rparr>"

definition order_of :: "string \<Rightarrow> payload \<Rightarrow> int option \<Rightarrow> purchase_order" where
  "order_of ty pl pid = \<lparr>po_id = 6, po_user_tg_id = 1, po_package_id = pid,
     po_payment_method = ''gateway'', po_order_type = ty, po_order_payload = Some (Json pl),
     po_status = Pending, po_receipt_photo_file_id = None, po_gateway_authority = Some issued,
     po_created_at = Naive 0, po_resolved_at = None\<rparr>"

definition caller :: request where
  "caller = \<lparr>rq_forwarded_for = None, rq_real_ip = None, rq_client = Some ''9.9.9.9''\<rparr>"

definition no_limits :: limiter where
  "no_limits = \<lparr>lm_attempts = (\<lambda>_. None), lm_blocked = (\<lambda>_. None)\<rparr>"

definition pack :: coin_package where
  "pack = \<lparr>cp_id = 3, cp_coin_amount = 100, cp_price_toman = 50000, cp_is_active = True, cp_created_at = Naive 0\<rparr>"

definition coins_db :: db where
  "coins_db = referral_db\<lparr>orders := \<lparr>rows = [order_of ''coins'' empty_payload (Some 3)], next_id = 7\<rparr>,
     packages := \<lparr>rows = [pack], next_id = 4\<rparr>\<rparr>"

lemma gateway_ok: "verify_payment gateway 50000 issued = Verified ''77'' 100"
  by (simp add: verify_payment_def gateway_def issued_def authority_ok_def)

lemma issued_nonempty: "issued \<noteq> []"
  by (simp add: issued_def)

lemma order_of_sel [simp]:
  "po_status (order_of t pl i) = Pending" "po_user_tg_id (order_of t pl i) = 1"
  "po_gateway_authority (order_of t pl i) = Some issued" "po_package_id (order_of t pl i) = i"
  "order_payload_of (order_of t pl i) = pl" "t \<noteq> [] \<Longrightarrow> order_type_of (order_of t pl i) = t"
  by (simp_all add: order_of_def order_payload_of_def order_type_of_def)

lemma coins_db_facts:
  "get_purchase_order 6 coins_db = Some (order_of ''coins'' empty_payload (Some 3))"
  "get_package (Some 3) coins_db = Some pack" "get_user coins_db k = get_user referral_db k"
  "users_unique coins_db" "ledger_ok coins_db" "totals_ok coins_db" "no_self_referral coins_db"
  "verify_amount_of (order_of ''coins'' empty_payload (Some 3)) coins_db = Inr 50000"
proof -
  have us: "users coins_db = users referral_db" "coin_txs coins_db = coin_txs referral_db"
    by (simp_all add: coins_db_def)
  show "get_purchase_order 6 coins_db = Some (order_of ''coins'' empty_payload (Some 3))"
    by (simp add: get_purchase_order_def coins_db_def by_key_def order_of_def)
  show p: "get_package (Some 3) coins_db = Some pack"
    by (simp add: get_package_def coins_db_def by_key_def pack_def)
  show "get_user coins_db k = get_user referral_db k" by (rule get_user_cong [OF us(1)])
  show "users_unique coins_db" "ledger_ok coins_db" "totals_ok coins_db" "no_self_referral coins_db"
    using referral_db_ok users_unique_cong [OF us(1)] ledger_ok_cong [OF us] totals_ok_cong [OF us(1)]
    by (simp_all add: no_self_referral_def us)
  show "verify_amount_of (order_of ''coins'' empty_payload (Some 3)) coins_db = Inr 50000"
    by (simp add: verify_amount_of_def p falsy_amount_def empty_payload_def pack_def)
qed

lemma coins_callback:
  obtains d2 l2 where "zarinpal_callback shop 5 gateway caller 6 issued ''OK'' (coins_db, no_limits)
    = ((d2, l2), PageSuccess ''77'')"
proof -
  have "\<exists>d1 dl. callback_deliver shop 5 gateway 6 issued ''OK'' coins_db = (d1, Inr dl) \<and> dl_ref dl = ''77''"
    by (simp add: callback_deliver_def coins_db_facts issued_nonempty gateway_ok)
  then show thesis
    using that by (auto simp: zarinpal_callback_def check_callback_brute_force_def no_limits_def
        Let_def callback_finish_def)
qed


lemma callback_settles_order_witness:
  "\<exists>d2 l2. zarinpal_callback shop 5 gateway caller 6 issued ''OK'' (coins_db, no_limits)
     = ((d2, l2), PageSuccess ''77'') \<and>
     fst (fst (zarinpal_callback shop 6 gateway caller 6 issued ''OK'' (d2, l2))) = d2"
proof -
  obtain d2 l2 where z: "zarinpal_callback shop 5 gateway caller 6 issued ''OK'' (coins_db, no_limits)
    = ((d2, l2), PageSuccess ''77'')" by (rule coins_callback)
  obtain d3 l3 page where y: "zarinpal_callback shop 6 gateway caller 6 issued ''OK'' (d2, l2)
    = ((d3, l3), page)" by (metis surj_pair)
  from callback_settles_order [OF z _ y] show ?thesis using z y by simp
qed

lemma callback_delivers_only_verified_witness:
  "\<exists>d2 l2 amount. zarinpal_callback shop 5 gateway caller 6 issued ''OK'' (coins_db, no_limits)
     = ((d2, l2), PageSuccess ''77'') \<and> users d2 \<noteq> users coins_db \<and> (0::int) < amount \<and>
     gateway (amount * 10) issued \<noteq> NetworkError"
proof -
  obtain d2 l2 where z: "zarinpal_callback shop 5 gateway caller 6 issued ''OK'' (coins_db, no_limits)
    = ((d2, l2), PageSuccess ''77'')" by (rule coins_callback)
  have "\<exists>d1. callback_deliver shop 5 gateway 6 issued ''OK'' coins_db = (d1, Inr \<lparr>dl_order = 6, dl_user = 1, dl_ref = ''77''\<rparr>)
      \<and> coin_balance d1 1 = 103"
  proof -
    let ?p = "order_of ''coins'' empty_payload (Some 3)" and ?u = "alice\<lparr>u_referrer_id := Some 2\<rparr>"
    let ?d = "deliver_coins 5 (\<lambda>x. x) None 20 ?p ?u pack coins_db"
    have g: "get_user coins_db (u_tg_id ?u) = Some ?u" by (simp add: coins_db_facts(3))
    have n: "0 \<le> cp_coin_amount pack" by (simp add: pack_def)
    obtain n where "\<forall>k. coin_balance ?d k = coin_balance coins_db k +
        (if k = u_tg_id ?u then cp_coin_amount pack else 0) + (if u_referrer_id ?u = Some k then n else 0)"
      using deliver_coins_view [OF g n coins_db_facts(4-6) refl, of 5 "\<lambda>x. x" 20 ?p] by blast
    then have "coin_balance ?d 1 = coin_balance coins_db 1 + 100" by (simp add: pack_def)
    moreover have "coin_balance coins_db 1 = 3" by (simp add: coin_balance_def coins_db_facts(3))
    ultimately have "coin_balance ?d 1 = 103" by simp
    then show ?thesis
      by (simp add: callback_deliver_def coins_db_facts issued_nonempty gateway_ok deliver_goods_def
          shop_def)
  qed
  then have "coin_balance d2 1 = 103"
    using z by (auto simp: zarinpal_callback_def check_callback_brute_force_def no_limits_def
        Let_def callback_finish_def coin_balance_def get_user_def)
  moreover have "coin_balance coins_db 1 = 3" by (simp add: coin_balance_def coins_db_facts(3))
  ultimately have ne: "users d2 \<noteq> users coins_db" using coin_balance_cong [of d2 coins_db 1] by auto
  then obtain amount :: int where "0 < amount" "gateway (amount * 10) issued \<noteq> NetworkError"
    using callback_delivers_only_verified [OF z] by (metis gateway_reply.distinct(3))
  with z ne show ?thesis by blast
qed

definition vip_order :: purchase_order where
  "vip_order = order_of ''vip_subscription'' (empty_payload\<lparr>pl_price_toman := Some 50000,
     pl_plan_code := Some ''1m''\<rparr>) None"

definition vip_order_db :: db where
  "vip_order_db = (vip_db [sub_of 1 1 50])\<lparr>orders := \<lparr>rows = [vip_order], next_id = 7\<rparr>\<rparr>"

lemma paid_vip_renewal_lost_witness:
  "\<exists>d2 l2. zarinpal_callback shop 10 gateway caller 6 issued ''OK'' (vip_order_db, no_limits)
     = ((d2, l2), PageSuccess ''77'') \<and>
   map_option u_vip_expires_at (get_user d2 1) = Some (Some (Naive 50))"
proof -
  have o: "get_purchase_order 6 vip_order_db = Some vip_order"
    by (simp add: get_purchase_order_def vip_order_db_def by_key_def vip_order_def order_of_def)
  have u: "get_user vip_order_db 1 = Some (alice\<lparr>u_is_vip := True, u_vip_expires_at := Some (Naive 50)\<rparr>)"
    by (simp add: vip_order_db_def get_user_def by_key_def vip_db_def)
  have p: "po_status vip_order = Pending" "order_type_of vip_order = ''vip_subscription''"
    "pl_plan_code (order_payload_of vip_order) = Some ''1m''" "po_gateway_authority vip_order = Some issued"
    "po_user_tg_id vip_order = 1" "verify_amount_of vip_order vip_order_db = Inr 50000"
    by (simp_all add: vip_order_def verify_amount_of_def falsy_amount_def)
  have m: "map_of (st_plans shop) ''1m'' = Some \<lparr>vp_code = ''1m'', vp_duration_days = 30, vp_price_toman = 95000\<rparr>"
    by (simp add: shop_def default_plans_def)
  obtain d2 l2 where z: "zarinpal_callback shop 10 gateway caller 6 issued ''OK'' (vip_order_db, no_limits)
      = ((d2, l2), PageSuccess ''77'')" and us: "users d2 = users vip_order_db"
    using paid_vip_renewal_lost [OF o p(1-3) m p(6,4) issued_nonempty gateway_ok, of
        "alice\<lparr>u_is_vip := True, u_vip_expires_at := Some (Naive 50)\<rparr>" 50 10 caller no_limits]
    by (auto simp: p(5) u check_callback_brute_force_def no_limits_def)
  then show ?thesis using u get_user_cong [OF us, of 1] by auto
qed

definition gift_order :: purchase_order where
  "gift_order = order_of ''gift_purchase'' (empty_payload\<lparr>pl_price_toman := Some 50000,
     pl_gift_code := Some ''ROSE'', pl_quantity := Some 2\<rparr>) None"

definition gift_order_db :: db where
  "gift_order_db = gift_db\<lparr>orders := \<lparr>rows = [gift_order], next_id = 7\<rparr>\<rparr>"

lemma gift_credited_twice_witness:
  "\<exists>d1 dl d2. callback_deliver shop 10 gateway 6 issued ''OK'' gift_order_db = (d1, Inr dl) \<and>
     callback_deliver shop 11 gateway 6 issued ''OK'' d1 = (d2, Inr dl) \<and>
     holding gift_order_db 1 1 = 0 \<and> holding d2 1 1 = 4"
proof -
  have o: "get_purchase_order 6 gift_order_db = Some gift_order"
    by (simp add: get_purchase_order_def gift_order_db_def by_key_def gift_order_def order_of_def)
  have p: "order_type_of gift_order = ''gift_purchase''"
    "pl_gift_code (order_payload_of gift_order) = Some ''ROSE''"
    "pl_quantity (order_payload_of gift_order) = Some 2" "po_user_tg_id gift_order = 1"
    "po_status gift_order = Pending" "po_gateway_authority gift_order = Some issued"
    "verify_amount_of gift_order gift_order_db = Inr 50000"
    by (simp_all add: gift_order_def verify_amount_of_def falsy_amount_def)
  have u: "get_user gift_order_db 1 = Some alice"
    by (simp add: gift_order_db_def get_user_def by_key_def gift_db_def)
  have g: "get_gift_type_by_code ''ROSE'' gift_order_db = Some rose"
    by (simp add: gift_order_db_def get_gift_type_by_code_def by_key_def gift_db_def rose_def)
  have h: "holding gift_order_db 1 1 = 0"
    using holding_cong [of gift_order_db gift_db 1 1] by (simp add: gift_order_db_def)
  obtain d1 dl where a: "callback_deliver shop 10 gateway 6 issued ''OK'' gift_order_db = (d1, Inr dl)"
    by (simp add: callback_deliver_def o p u issued_nonempty gateway_ok)
  obtain d2 r where b: "callback_deliver shop 11 gateway 6 issued ''OK'' d1 = (d2, r)" by (metis surj_pair)
  show ?thesis
    using gift_credited_twice [OF a b o p(1-3) g] a b h by (simp add: p(4))
qed

end
