(* ===== verification/Texts.thy ===== *)
theory Texts
  imports Prelude
begin

text \<open>
  Text a user types.  A Python \<open>str\<close> is the list of its code points; \<open>str.strip\<close>,
  \<open>str.isdigit\<close>, \<open>int()\<close> and \<open>str()\<close> are those of Python's Unicode database 14, with
  \<open>bot/core/normalizers.py\<close> over them.  A literal of the source in ASCII is \<open>lit\<close> of its
  characters.  Telegram caps a message at 4096 characters, so the limit of \<open>int()\<close> on 4300
  digits is out of reach.
\<close>

type_synonym ustr = "nat list"

definition lit :: "string \<Rightarrow> ustr" where
  "lit s = map of_char s"

definition starts_with :: "'a list \<Rightarrow> 'a list \<Rightarrow> bool" where
  "starts_with p s \<longleftrightarrow> take (length p) s = p"

section \<open>Python's character classes\<close>

text \<open>The zero of each block of ten decimal digits, category \<open>Nd\<close>.\<close>

definition nd_zeros :: "nat list" where
  "nd_zeros = [48, 1632, 1776, 1984, 2406, 2534, 2662, 2790, 2918, 3046, 3174, 3302, 3430, 3558,
     3664, 3792, 3872, 4160, 4240, 6112, 6160, 6470, 6608, 6784, 6800, 6992, 7088, 7232, 7248,
     42528, 43216, 43264, 43472, 43504, 43600, 44016, 65296, 66720, 68912, 69734, 69872, 69942,
     70096, 70384, 70736, 70864, 71248, 71360, 71472, 71904, 72016, 72784, 73040, 73120, 92768,
     92864, 93008, 120782, 120792, 120802, 120812, 120822, 123200, 123632, 125264, 130032]"

text \<open>Code points \<open>isdigit\<close> accepts and \<open>int()\<close> does not: superscripts, circled digits.\<close>

definition other_digits :: "(nat \<times> nat) list" where
  "other_digits = [(178, 179), (185, 185), (4969, 4977), (6618, 6618), (8304, 8304), (8308, 8313),
     (8320, 8329), (9312, 9320), (9332, 9340), (9352, 9360), (9450, 9450), (9461, 9469),
     (9471, 9471), (10102, 10110), (10112, 10120), (10122, 10130), (68160, 68163),
     (69216, 69224), (69714, 69722), (127232, 127242)]"

definition digit_val :: "nat \<Rightarrow> nat option" where
  "digit_val c = map_option (\<lambda>z. c - z) (find (\<lambda>z. z \<le> c \<and> c < z + 10) nd_zeros)"

definition is_digit_char :: "nat \<Rightarrow> bool" where
  "is_digit_char c \<longleftrightarrow> digit_val c \<noteq> None \<or> (\<exists>(a, b)\<in>set other_digits. a \<le> c \<and> c \<le> b)"

definition is_space :: "nat \<Rightarrow> bool" where
  "is_space c \<longleftrightarrow> 9 \<le> c \<and> c \<le> 13 \<or> 28 \<le> c \<and> c \<le> 32 \<or> c \<in> {133, 160, 5760} \<or>
     8192 \<le> c \<and> c \<le> 8202 \<or> c \<in> {8232, 8233, 8239, 8287, 12288}"

definition isdigit :: "ustr \<Rightarrow> bool" where
  "isdigit s \<longleftrightarrow> s \<noteq> [] \<and> list_all is_digit_char s"

definition strip :: "ustr \<Rightarrow> ustr" where
  "strip s = rev (dropWhile is_space (rev (dropWhile is_space s)))"

section \<open>Reading and writing numbers\<close>

text \<open>Digits with single underscores between them.\<close>

fun read_digits :: "nat \<Rightarrow> bool \<Rightarrow> ustr \<Rightarrow> nat option" where
  "read_digits n after_digit [] = (if after_digit then Some n else None)"
| "read_digits n after_digit (c # cs) =
     (if c = 95 then (if after_digit then read_digits n False cs else None)
      else case digit_val c of None \<Rightarrow> None | Some v \<Rightarrow> read_digits (10 * n + v) True cs)"

text \<open>\<open>int(s)\<close>; \<open>None\<close> stands for the \<open>ValueError\<close>.\<close>

definition py_int :: "ustr \<Rightarrow> int option" where
  "py_int s = (case strip s of
     [] \<Rightarrow> None
   | c # cs \<Rightarrow> if c = 43 then map_option int (read_digits 0 False cs)
               else if c = 45 then map_option (\<lambda>n. - int n) (read_digits 0 False cs)
               else map_option int (read_digits 0 False (c # cs)))"

text \<open>\<open>str(n)\<close>.\<close>

fun nat_str :: "nat \<Rightarrow> ustr" where
  "nat_str n = (if n < 10 then [48 + n] else nat_str (n div 10) @ [48 + n mod 10])"

declare nat_str.simps [simp del]

definition py_str :: "int \<Rightarrow> ustr" where
  "py_str i = (if i < 0 then 45 # nat_str (nat (- i)) else nat_str (nat i))"

section \<open>The normalizers\<close>

definition normalize_char :: "nat \<Rightarrow> nat" where
  "normalize_char c = (if 1776 \<le> c \<and> c \<le> 1785 then c - 1776 + 48
     else if 1632 \<le> c \<and> c \<le> 1641 then c - 1632 + 48 else c)"

definition normalize_digits :: "ustr \<Rightarrow> ustr" where
  "normalize_digits s = (if s = [] then s else map normalize_char s)"

definition parse_int_normalized :: "ustr \<Rightarrow> int option \<Rightarrow> int option" where
  "parse_int_normalized s dflt = (if s = [] then dflt
     else case py_int (strip (normalize_digits s)) of None \<Rightarrow> dflt | Some i \<Rightarrow> Some i)"

text \<open>\<open>s.replace(p, '')\<close> for a \<open>p\<close> that is not empty.\<close>

function remove_word :: "ustr \<Rightarrow> ustr \<Rightarrow> ustr" where
  "remove_word p [] = []"
| "remove_word p (x # xs) = (if p \<noteq> [] \<and> starts_with p (x # xs) then remove_word p (drop (length p) (x # xs))
     else x # remove_word p xs)"
  by pat_completeness auto
termination by (relation "measure (\<lambda>(p, s). length s)") auto

section \<open>Lemmas\<close>

lemma digit_val_ascii [simp]: "d < 10 \<Longrightarrow> digit_val (48 + d) = Some d"
  by (simp add: digit_val_def nd_zeros_def)

lemma not_space_ascii [simp]: "d < 10 \<Longrightarrow> \<not> is_space (48 + d)" "\<not> is_space 45"
  by (auto simp: is_space_def)

lemma read_digits_append:
  assumes "xs \<noteq> []" and "\<forall>x\<in>set xs. digit_val x \<noteq> None \<and> x \<noteq> 95"
    and "read_digits n b xs = Some m"
  shows "read_digits n b (xs @ ys) = read_digits m True ys"
  using assms
proof (induction xs arbitrary: n b)
  case (Cons x xs)
  then obtain v where v: "digit_val x = Some v" "x \<noteq> 95" by auto
  show ?case
  proof (cases "xs = []")
    case True
    with Cons.prems v show ?thesis by simp
  next
    case False
    with Cons v show ?thesis by simp
  qed
qed simp

text \<open>The characters \<open>str\<close> writes.\<close>

lemma nat_str_chars: "c \<in> set (nat_str n) \<Longrightarrow> \<exists>d<10. c = 48 + d"
proof (induction n rule: nat_str.induct)
  case (1 n)
  show ?case
  proof (cases "n < 10")
    case True
    with 1 show ?thesis by (subst (asm) (2) nat_str.simps) auto
  next
    case False
    with 1 have "c \<in> set (nat_str (n div 10)) \<or> c = 48 + n mod 10"
      by (subst (asm) (2) nat_str.simps) auto
    then show ?thesis
    proof
      assume "c = 48 + n mod 10"
      then show ?thesis by (intro exI [of _ "n mod 10"]) simp
    qed (use 1 False in blast)
  qed
qed

lemma nat_str_nonempty [simp]: "nat_str n \<noteq> []"
  by (subst nat_str.simps) simp

lemma read_nat_str: "read_digits 0 False (nat_str n) = Some n"
proof (induction n rule: nat_str.induct)
  case (1 n)
  show ?case
  proof (cases "n < 10")
    case True
    then show ?thesis by (subst nat_str.simps) simp
  next
    case False
    have "\<forall>x\<in>set (nat_str (n div 10)). digit_val x \<noteq> None \<and> x \<noteq> 95"
      using nat_str_chars by fastforce
    then show ?thesis
      using 1 False by (subst nat_str.simps) (simp add: read_digits_append [OF nat_str_nonempty])
  qed
qed

lemma strip_id: "(\<forall>c\<in>set s. \<not> is_space c) \<Longrightarrow> strip s = s"
proof -
  have nosp: "dropWhile is_space xs = xs" if "\<forall>c\<in>set xs. \<not> is_space c" for xs
    using that by (cases xs) auto
  assume "\<forall>c\<in>set s. \<not> is_space c"
  then show ?thesis by (simp add: strip_def nosp)
qed

lemma py_str_chars: "c \<in> set (py_str i) \<Longrightarrow> c = 45 \<or> (\<exists>d<10. c = 48 + d)"
  by (auto simp: py_str_def split: if_splits dest: nat_str_chars)

lemma strip_py_str [simp]: "strip (py_str i) = py_str i"
  by (rule strip_id) (use py_str_chars not_space_ascii in blast)

text \<open>\<open>int(str(i)) = i\<close>.\<close>

lemma py_int_str: "py_int (py_str i) = Some i"
proof (cases "i < 0")
  case True
  then show ?thesis by (simp add: py_int_def) (simp add: py_str_def read_nat_str)
next
  case False
  obtain c cs where c: "nat_str (nat i) = c # cs" by (cases "nat_str (nat i)") auto
  then obtain d where "d < 10" "c = 48 + d" using nat_str_chars [of c "nat i"] by auto
  then have "\<not> is_space c" "c \<noteq> 43" "c \<noteq> 45" by (auto simp: is_space_def)
  with False c show ?thesis
    using read_nat_str [of "nat i"] strip_py_str [of i]
    by (simp add: py_int_def py_str_def del: read_digits.simps)
qed

lemma py_str_inj: "py_str i = py_str j \<longleftrightarrow> i = j"
  by (metis py_int_str option.inject)

lemma py_str_nonempty [simp]: "py_str i \<noteq> []"
  by (simp add: py_str_def)

lemma nat_str_isdigit: "isdigit (nat_str n)"
  by (auto simp: isdigit_def list_all_iff is_digit_char_def dest!: nat_str_chars)

lemma remove_char: "remove_word [c] s = filter (\<lambda>x. x \<noteq> c) s"
  by (induction s) (auto simp: starts_with_def)

section \<open>Properties\<close>

text \<open>The digits of a number as a Persian keyboard and as an Arabic one type them.\<close>

definition persian :: "ustr \<Rightarrow> ustr" where
  "persian = map (\<lambda>c. if 48 \<le> c \<and> c \<le> 57 then c - 48 + 1776 else c)"

definition arabic :: "ustr \<Rightarrow> ustr" where
  "arabic = map (\<lambda>c. if 48 \<le> c \<and> c \<le> 57 then c - 48 + 1632 else c)"

lemma normalize_map: "normalize_digits s = map normalize_char s"
  by (simp add: normalize_digits_def)

lemma normalize_persian:
  assumes "\<forall>c\<in>set s. c = 45 \<or> (\<exists>d<10. c = 48 + d)"
  shows "normalize_digits (persian s) = s" "normalize_digits (arabic s) = s" "normalize_digits s = s"
  using assms
  by (auto simp: normalize_map persian_def arabic_def normalize_char_def intro!: map_idI)

text \<open>A number read back from what a user types is the number, whether the digits come from
  a Persian, an Arabic or a Latin keyboard, and whatever the default is.\<close>

theorem typed_number_roundtrip:
  "parse_int_normalized (persian (py_str i)) dflt = Some i \<and>
   parse_int_normalized (arabic (py_str i)) dflt = Some i \<and>
   parse_int_normalized (py_str i) dflt = Some i"
proof -
  have n: "normalize_digits (persian (py_str i)) = py_str i"
    "normalize_digits (arabic (py_str i)) = py_str i" "normalize_digits (py_str i) = py_str i"
    using normalize_persian py_str_chars by metis+
  have e: "persian (py_str i) \<noteq> []" "arabic (py_str i) \<noteq> []"
    by (simp_all add: persian_def arabic_def)
  show ?thesis by (simp add: parse_int_normalized_def n e py_int_str)
qed

end
