(* ===== verification/States.thy ===== *)
theory States
  imports Texts
begin

text \<open>
  What the update handlers share: the dialogue states of \<open>bot/states/states.py\<close>, the reply
  keyboard labels of \<open>bot/core/constants.py\<close>, a user's dialogue context (aiogram's
  \<open>FSMContext\<close>: the state's name and a dictionary), the updates a middleware sees, and what a
  middleware decides.  aiogram names the state \<open>s\<close> of the group \<open>G\<close> \<open>G:s\<close>.
\<close>

section \<open>Dialogue states\<close>

definition states_groups :: "(string \<times> string list) list" where
  "states_groups = [
    (''OnboardingStates'',
      [''waiting_for_terms_acceptance'', ''waiting_for_name'', ''waiting_for_gender'',
       ''waiting_for_age'', ''waiting_for_province'', ''waiting_for_city'']),
    (''MatchingStates'',
      [''waiting_in_queue'', ''matched_active'']),
    (''QuestionnaireStates'',
      [''waiting_for_questions_to_start'', ''answering_questions'',
       ''waiting_for_partner_answer'']),
    (''ChatStates'',
      [''waiting_for_approval'', ''anonymous_chat_active'']),
    (''DirectMessageStates'',
      [''typing_message'', ''viewing_inbox'', ''viewing_message'', ''replying'']),
    (''SupportStates'',
      [''waiting_for_support_message'']),
    (''AdminStates'',
      [''waiting_for_support_reply'', ''waiting_for_broadcast_message'',
       ''waiting_for_card_number'', ''waiting_for_card_holder'', ''confirming_card_change'']),
    (''ProfileEditStates'',
      [''editing_bio'', ''selecting_interests'', ''waiting_for_photo'', ''editing_name'',
       ''updating_age'', ''updating_province'', ''updating_city'', ''waiting_for_voice'',
       ''waiting_for_gps'']),
    (''DiscoveryStates'',
      [''choosing_province'', ''choosing_interests'', ''choosing_age_range'',
       ''showing_results'', ''navigating'', ''choosing_distance'', ''choosing_search_type'']),
    (''ReportStates'',
      [''selecting_reason'', ''waiting_for_report_description'',
       ''waiting_for_evidence_before_reason'']),
    (''VIPStates'',
      [''waiting_for_age_filter'', ''choosing_plan'', ''choosing_payment_method'',
       ''waiting_for_receipt'']),
    (''EventStates'',
      [''waiting_for_name'', ''waiting_for_description'', ''waiting_for_duration'',
       ''waiting_for_multiplier'', ''confirming'']),
    (''PBroadcastStates'',
      [''waiting_for_filter'', ''waiting_for_message'', ''confirming'']),
    (''CoinTransferStates'',
      [''waiting_for_amount'', ''confirming'']),
    (''PaymentStates'',
      [''choosing_package'', ''choosing_method'', ''waiting_for_receipt_photo'']),
    (''QuestionAddStates'',
      [''choosing_type'', ''entering_text'', ''entering_option_a'', ''entering_option_b'',
       ''entering_option_c'', ''entering_option_d'', ''entering_category'', ''confirming'',
       ''waiting_for_excel'', ''confirming_bulk'']),
    (''ProfileCommentStates'',
      [''waiting_for_comment_text'']),
    (''GiftStates'',
      [''choosing_gift'', ''choosing_quantity'', ''confirming_purchase'',
       ''waiting_for_recipient'', ''confirming_transfer'', ''choosing_sell_gift'',
       ''choosing_sell_quantity'']),
    (''HelpStates'',
      [''viewing_main_menu'', ''viewing_sub_topic'']),
    (''ReferralStates'',
      [''viewing_dashboard'']),
    (''CoinsMenuStates'',
      [''viewing_history'', ''choosing_package'', ''choosing_payment'']),
    (''ProfileCompletionStates'',
      [''setting_photo'', ''setting_gps'', ''setting_tags'', ''setting_bio'', ''setting_city'',
       ''setting_voice'', ''completed'']),
    (''TagSelectionStates'',
      [''selecting_tags'']),
    (''BannerForwardStates'',
      [''forwarding_banner'']),
    (''WarningReviewStates'',
      [''reviewing_report'', ''reviewing_banner'']),
    (''GiftAddStates'',
      [''waiting_for_code'', ''waiting_for_name'', ''waiting_for_emoji'',
       ''waiting_for_price'', ''waiting_for_description'', ''confirming'']),
    (''AnonymousLinkStates'',
      [''waiting_for_message'']),
    (''BannerAddStates'',
      [''waiting_for_photo'', ''waiting_for_caption'', ''waiting_for_reward'', ''confirming'']),
    (''ManualTransferStates'',
      [''waiting_for_target_id''])]"

definition state_name :: "string \<Rightarrow> string \<Rightarrow> string" where
  "state_name g s = g @ '':'' @ s"

definition all_states :: "string list" where
  "all_states = concat (map (\<lambda>(g, ss). map (state_name g) ss) states_groups)"

section \<open>Reply keyboard labels\<close>

definition ReplyBtn :: "(string \<times> ustr) list" where
  "ReplyBtn = [
    (''START_DATE'',
     [1588, 1585, 1608, 1593, 32, 1583, 1740, 1578, 32, 1606, 1575, 1588, 1606, 1575, 1587]),
    (''MY_PROFILE'',
     [1662, 1585, 1608, 1601, 1575, 1740, 1604, 32, 1605, 1606]),
    (''DISCOVER'',
     [1705, 1588, 1601, 32, 1705, 1575, 1585, 1576, 1585, 1575, 1606]),
    (''MY_COINS'',
     [1587, 1705, 1607]),
    (''VIP_SUBSCRIPTION'',
     [1575, 1705, 1575, 1606, 1578, 32, 86, 73, 80, 32, 40, 1662, 1585, 1740, 1605, 1740, 1608,
      1605, 41]),
    (''GIFTS'',
     [127873, 32, 1711, 1740, 1601, 1578, 8204, 1607, 1575]),
    (''SUPPORT'',
     [1662, 1588, 1578, 1740, 1576, 1575, 1606, 1740]),
    (''HELP'',
     [1585, 1575, 1607, 1606, 1605, 1575]),
    (''LOOTBOX'',
     [127873, 32, 1604, 1608, 1578, 8204, 1576, 1575, 1705, 1587, 32, 1608, 32, 1580, 1608,
      1575, 1740, 1586]),
    (''NEARBY'',
     [1606, 1586, 1583, 1740, 1705, 32, 1605, 1606]),
    (''REFERRAL_VIP'',
     [1586, 1740, 1585, 1605, 1580, 1605, 1608, 1593, 1607, 8204, 1711, 1740, 1585, 1740, 32,
      38, 32, 86, 73, 80]),
    (''SEARCH_USERS'',
     [1580, 1587, 1578, 1580, 1608, 1740, 32, 1705, 1575, 1585, 1576, 1585, 1575, 1606]),
    (''MY_FRIENDS'',
     [1583, 1608, 1587, 1578, 1575, 1606, 32, 1605, 1606]),
    (''BLOCKED_USERS'',
     [1705, 1575, 1585, 1576, 1585, 1575, 1606, 32, 1576, 1604, 1575, 1705, 32, 1588, 1583, 1607]),
    (''RULES'',
     [1602, 1608, 1575, 1606, 1740, 1606]),
    (''CANCEL'',
     [1575, 1606, 1589, 1585, 1575, 1601, 32, 1608, 32, 1605, 1606, 1608, 1740, 32, 1575, 1589,
      1604, 1740]),
    (''CANCEL_SHORT'',
     [1575, 1606, 1589, 1585, 1575, 1601]),
    (''BACK_TO_MENU'',
     [1576, 1585, 1711, 1588, 1578, 32, 1576, 1607, 32, 1605, 1606, 1608, 1740, 32, 1575, 1589,
      1604, 1740]),
    (''PHASE_USER_PROFILE'',
     [1662, 1585, 1608, 1601, 1575, 1740, 1604, 32, 1705, 1575, 1585, 1576, 1585]),
    (''END_DATE'',
     [1575, 1578, 1605, 1575, 1605, 32, 1583, 1740, 1578]),
    (''END_CHAT'',
     [1575, 1578, 1605, 1575, 1605, 32, 1670, 1578]),
    (''ACCEPT_TERMS'',
     [1602, 1608, 1575, 1606, 1740, 1606, 32, 1585, 1575, 32, 1605, 1740, 8204, 1662, 1584,
      1740, 1585, 1605]),
    (''SHOW_RULES'',
     [1606, 1605, 1575, 1740, 1588, 32, 1602, 1608, 1575, 1606, 1740, 1606]),
    (''DATE_PHASE_END_DATE'',
     [1575, 1578, 1605, 1575, 1605, 32, 1583, 1740, 1578]),
    (''CHAT_PHASE_END_CHAT'',
     [1575, 1578, 1605, 1575, 1605, 32, 1670, 1578])]"

definition btn :: "string \<Rightarrow> ustr" where
  "btn n = the (map_of ReplyBtn n)"

section \<open>A dialogue context\<close>

datatype fval = FInt int | FStr string | FText ustr | FDict "(string \<times> fval) list"

record fsm =
  fsm_state :: "string option"
  fsm_data :: "string \<rightharpoonup> fval"

definition set_state :: "string option \<Rightarrow> fsm \<Rightarrow> fsm" where
  "set_state s c = c\<lparr>fsm_state := s\<rparr>"

definition update_data :: "string \<Rightarrow> fval \<Rightarrow> fsm \<Rightarrow> fsm" where
  "update_data k v c = c\<lparr>fsm_data := (fsm_data c)(k \<mapsto> v)\<rparr>"

definition clear_fsm :: "fsm \<Rightarrow> fsm" where
  "clear_fsm c = \<lparr>fsm_state = None, fsm_data = Map.empty\<rparr>"

section \<open>Updates and decisions\<close>

datatype content_type = CText | CPinned | CNewMembers | CLeftMember | CMedia

record tuser =
  tu_id :: int
  tu_is_bot :: bool

record tmessage =
  tm_from :: "tuser option"
  tm_text :: "ustr option"
  tm_content :: content_type

record tcallback =
  tc_from :: tuser
  tc_data :: "string option"

datatype event = Message tmessage | Callback tcallback | OtherEvent "tuser option"
  | UpdMessage tmessage | UpdCallback tcallback | UpdMyChatMember tuser | UpdEdited tmessage
  | UpdOther "tuser option"

datatype gate_notice = Maintenance | SlowDown | LikeLimit | BannedNotice | JoinChannels
  | ProcessActive | ExitDone

text \<open>A middleware passes an update on or stops it, with a notice to the user or none.\<close>

datatype decision = Handle | Stop "gate_notice option"

fun has_text :: "tmessage \<Rightarrow> bool" where
  "has_text m = (tm_text m \<noteq> None \<and> tm_text m \<noteq> Some [])"

definition cb_data :: "tcallback \<Rightarrow> string" where
  "cb_data c = (case tc_data c of None \<Rightarrow> [] | Some s \<Rightarrow> s)"

fun sender :: "event \<Rightarrow> tuser option" where
  "sender (Message m) = tm_from m"
| "sender (UpdMessage m) = tm_from m"
| "sender (Callback c) = Some (tc_from c)"
| "sender (UpdCallback c) = Some (tc_from c)"
| "sender (UpdMyChatMember u) = Some u"
| "sender (UpdEdited m) = tm_from m"
| "sender (UpdOther u) = u"
| "sender (OtherEvent u) = u"

section \<open>Lemmas\<close>

lemma clear_fsm_simps [simp]: "fsm_state (clear_fsm c) = None" "fsm_data (clear_fsm c) = Map.empty"
  by (simp_all add: clear_fsm_def)

lemma update_data_simps [simp]:
  "fsm_state (update_data k v c) = fsm_state c"
  "fsm_data (update_data k v c) = (fsm_data c)(k \<mapsto> v)"
  by (simp_all add: update_data_def)

lemma set_state_simps [simp]:
  "fsm_state (set_state s c) = s" "fsm_data (set_state s c) = fsm_data c"
  by (simp_all add: set_state_def)

end
