(* ===== verification/Matching.thy ===== *)
theory Matching
  imports Prelude
begin

text \<open>
  \<open>services/matching_engine.py\<close> over its Redis keys: the hash \<open>user:state:<id>\<close>, the lists
  \<open>match:queue:...\<close>, the marker \<open>match:queue_started:<id>\<close> and the set
  \<open>user:<id>:blocks\<close>.  A field a hash does not have is \<open>None\<close>; the empty string stored for a
  missing coordinate is \<open>None\<close> too, the code treats both alike.  Requests run one after the
  other, so the watched transaction of a match always goes through; the expiry of a state hash
  is an operation of its own.  Text is ASCII: lower-casing and stripping other letters and
  blanks is left out.
\<close>

section \<open>The store\<close>

datatype queue_status = Queuing | Matched | Chatting | InChat | InDate

record ustate =
  us_gender :: "string option"
  us_target_gender :: "string option"
  us_province :: "string option"
  us_interests :: "string option"
  us_age :: "int option"
  us_min_age_filter :: "int option"
  us_max_age_filter :: "int option"
  us_lat :: "rat option"
  us_lng :: "rat option"
  us_queue_key :: "string option"
  us_status :: "queue_status option"
  us_matched_with :: "int option"

record mstore =
  ms_state :: "int \<rightharpoonup> ustate"
  ms_queue :: "string \<Rightarrow> int list"
  ms_started :: "int \<rightharpoonup> int"
  ms_blocks :: "int \<Rightarrow> int set"

definition empty_state :: ustate where
  "empty_state = \<lparr>us_gender = None, us_target_gender = None, us_province = None,
     us_interests = None, us_age = None, us_min_age_filter = None, us_max_age_filter = None,
     us_lat = None, us_lng = None, us_queue_key = None, us_status = None, us_matched_with = None\<rparr>"

text \<open>Redis commands: \<open>LREM key 0\<close>, \<open>LREM key 1\<close>, \<open>LPUSH\<close>, \<open>HSET\<close>, \<open>DEL\<close>.\<close>

definition lrem_all :: "string \<Rightarrow> int \<Rightarrow> mstore \<Rightarrow> mstore" where
  "lrem_all k v s = s\<lparr>ms_queue := (ms_queue s)(k := removeAll v (ms_queue s k))\<rparr>"

definition lrem_one :: "string \<Rightarrow> int \<Rightarrow> mstore \<Rightarrow> mstore" where
  "lrem_one k v s = s\<lparr>ms_queue := (ms_queue s)(k := remove1 v (ms_queue s k))\<rparr>"

definition lpush :: "string \<Rightarrow> int \<Rightarrow> mstore \<Rightarrow> mstore" where
  "lpush k v s = s\<lparr>ms_queue := (ms_queue s)(k := v # ms_queue s k)\<rparr>"

definition hset :: "int \<Rightarrow> (ustate \<Rightarrow> ustate) \<Rightarrow> mstore \<Rightarrow> mstore" where
  "hset tg f s = s\<lparr>ms_state := (ms_state s)(tg \<mapsto>
     f (case ms_state s tg of None \<Rightarrow> empty_state | Some u \<Rightarrow> u))\<rparr>"

definition del_state :: "int \<Rightarrow> mstore \<Rightarrow> mstore" where
  "del_state tg s = s\<lparr>ms_state := (ms_state s)(tg := None)\<rparr>"

section \<open>Queue keys\<close>

definition lower_char :: "char \<Rightarrow> char" where
  "lower_char c = (if 65 \<le> (of_char c :: nat) \<and> of_char c \<le> (90 :: nat)
                   then char_of (of_char c + (32 :: nat)) else c)"

definition strip_blanks :: "string \<Rightarrow> string" where
  "strip_blanks s = rev (dropWhile (\<lambda>c. c = CHR '' '') (rev (dropWhile (\<lambda>c. c = CHR '' '') s)))"

definition norm :: "string \<Rightarrow> string" where
  "norm s = map lower_char (strip_blanks s)"

definition norm_or :: "string \<Rightarrow> string option \<Rightarrow> string" where
  "norm_or dflt s = (if truthy s then norm (the s) else dflt)"

definition underscored :: "string \<Rightarrow> string" where
  "underscored s = map (\<lambda>c. if c = CHR '' '' then CHR ''_'' else c) s"

definition norm_province :: "string \<Rightarrow> string option \<Rightarrow> string" where
  "norm_province dflt s = (if truthy s then underscored (norm (the s)) else dflt)"

definition queue_key_of :: "string \<Rightarrow> string \<Rightarrow> string \<Rightarrow> string" where
  "queue_key_of p g w = ''match:queue:'' @ p @ '':'' @ g @ '':wants_'' @ w"

definition get_queue_key :: "string option \<Rightarrow> string option \<Rightarrow> string option \<Rightarrow> string" where
  "get_queue_key gender target_gender province =
     queue_key_of (norm_province ''global'' province) (norm_or ''unknown'' gender)
       (norm_or ''any'' target_gender)"

definition get_target_queue_keys :: "string option \<Rightarrow> string option \<Rightarrow> string option \<Rightarrow> string list" where
  "get_target_queue_keys gender target_gender province =
     (let norm_gender = norm_or ''unknown'' gender;
          norm_target = norm_or ''any'' target_gender;
          norm_prov = norm_province ''global'' province;
          target_genders = (if norm_target \<noteq> ''any'' then [norm_target] else [''male'', ''female'']);
          allowed_wants = [norm_gender, ''any''];
          provinces_to_search = (if norm_prov \<noteq> ''global'' then [norm_prov, ''global''] else [norm_prov])
      in [queue_key_of p t w. p \<leftarrow> provinces_to_search, t \<leftarrow> target_genders, w \<leftarrow> allowed_wants])"

section \<open>Queue operations\<close>

definition remove_from_queue :: "int \<Rightarrow> mstore \<Rightarrow> mstore \<times> bool" where
  "remove_from_queue tg s =
     (case ms_state s tg of
        None \<Rightarrow> (s, False)
      | Some u \<Rightarrow>
          let s1 = (if truthy (us_queue_key u) then lrem_all (the (us_queue_key u)) tg s else s)
          in (del_state tg s1, True))"

definition set_queue_ttl :: "int \<Rightarrow> int \<Rightarrow> mstore \<Rightarrow> mstore" where
  "set_queue_ttl now tg s = s\<lparr>ms_started := (ms_started s)(tg \<mapsto> now + 300)\<rparr>"

record search =
  sr_gender :: string
  sr_target_gender :: "string option"
  sr_province :: "string option"
  sr_is_vip :: bool
  sr_age :: int
  sr_min_age :: int
  sr_max_age :: int
  sr_interests :: "string option"
  sr_lat :: "rat option"
  sr_lng :: "rat option"
  sr_nearby :: bool

definition add_to_queue :: "int \<Rightarrow> int \<Rightarrow> search \<Rightarrow> mstore \<Rightarrow> mstore" where
  "add_to_queue now tg q s =
     (let s1 = fst (remove_from_queue tg s);
          queue_key = get_queue_key (Some (sr_gender q)) (sr_target_gender q) (sr_province q);
          s2 = lrem_all queue_key tg s1;
          s3 = hset tg (\<lambda>u. u\<lparr>us_gender := Some (sr_gender q),
                 us_target_gender := Some (norm_or [] (sr_target_gender q)),
                 us_province := Some (norm_province [] (sr_province q)),
                 us_interests := Some (case sr_interests q of None \<Rightarrow> [] | Some i \<Rightarrow> i),
                 us_age := Some (sr_age q), us_min_age_filter := Some (sr_min_age q),
                 us_max_age_filter := Some (if sr_max_age q = 0 then 99 else sr_max_age q),
                 us_lat := sr_lat q, us_lng := sr_lng q, us_queue_key := Some queue_key,
                 us_status := Some Queuing\<rparr>) s2
      in set_queue_ttl now tg (lpush queue_key tg s3))"

text \<open>The users whose marker is gone while the state still says queuing; \<open>SCAN\<close> visits the
  state keys in some order, given as a list.\<close>

definition get_expired_queue_users :: "int \<Rightarrow> int list \<Rightarrow> nat \<Rightarrow> mstore \<Rightarrow> int list" where
  "get_expired_queue_users now scan_order limit s = take limit
     (filter (\<lambda>tg. (case ms_state s tg of None \<Rightarrow> False | Some u \<Rightarrow> us_status u = Some Queuing) \<and>
        (case ms_started s tg of None \<Rightarrow> True | Some e \<Rightarrow> e \<le> now)) scan_order)"

definition get_user_match_partner :: "int \<Rightarrow> mstore \<Rightarrow> int option" where
  "get_user_match_partner tg s = (case ms_state s tg of None \<Rightarrow> None | Some u \<Rightarrow> us_matched_with u)"

section \<open>Finding a match\<close>

fun split_comma :: "string \<Rightarrow> string list" where
  "split_comma [] = [[]]"
| "split_comma (c # cs) = (if c = CHR '','' then [] # split_comma cs
     else (c # hd (split_comma cs)) # tl (split_comma cs))"

definition interest_set :: "string option \<Rightarrow> string set" where
  "interest_set s = (if truthy s then set (split_comma (the s)) else {}) - {[]}"

datatype verdict = Accept | Skip | Raise py_error

text \<open>
  The filters on a queuing candidate.  The distance is asked of \<open>_haversine_distance\<close>, a
  function of the class body that a method does not see under its bare name: the call raises
  \<open>NameError\<close>, which the handler for \<open>ValueError\<close> does not catch.
\<close>

definition near_check :: "search \<Rightarrow> ustate \<Rightarrow> verdict" where
  "near_check q u =
     (if sr_nearby q \<and> sr_lat q \<noteq> None \<and> sr_lng q \<noteq> None then
        if us_lat u = None \<or> us_lng u = None then Skip else Raise NameError
      else Accept)"

definition dflt :: "'a \<Rightarrow> 'a option \<Rightarrow> 'a" where
  "dflt x y = (case y of None \<Rightarrow> x | Some v \<Rightarrow> v)"

definition ages_ok :: "search \<Rightarrow> ustate \<Rightarrow> bool" where
  "ages_ok q u \<longleftrightarrow>
     sr_min_age q \<le> dflt 0 (us_age u) \<and>
     dflt 0 (us_age u) \<le> (if sr_max_age q = 0 then 99 else sr_max_age q) \<and>
     dflt 0 (us_min_age_filter u) \<le> sr_age q \<and> sr_age q \<le> dflt 99 (us_max_age_filter u)"

definition interests_ok :: "search \<Rightarrow> ustate \<Rightarrow> bool" where
  "interests_ok q u \<longleftrightarrow>
     \<not> (sr_is_vip q \<and> interest_set (sr_interests q) \<noteq> {} \<and> interest_set (us_interests u) \<noteq> {} \<and>
        interest_set (sr_interests q) \<inter> interest_set (us_interests u) = {})"

definition blocked_pair :: "int \<Rightarrow> int \<Rightarrow> mstore \<Rightarrow> bool" where
  "blocked_pair a b s \<longleftrightarrow> b \<in> ms_blocks s a \<or> a \<in> ms_blocks s b"

definition judge :: "search \<Rightarrow> int \<Rightarrow> int \<Rightarrow> ustate \<Rightarrow> mstore \<Rightarrow> verdict" where
  "judge q tg c u s = (case near_check q u of
     Accept \<Rightarrow> if ages_ok q u \<and> interests_ok q u \<and> \<not> blocked_pair tg c s then Accept else Skip
   | v \<Rightarrow> v)"

definition own_key :: "search \<Rightarrow> string" where
  "own_key q = get_queue_key (Some (sr_gender q)) (sr_target_gender q) (sr_province q)"

definition commit_match :: "search \<Rightarrow> int \<Rightarrow> int \<Rightarrow> string \<Rightarrow> mstore \<Rightarrow> mstore" where
  "commit_match q tg c key s =
     (let s1 = hset tg (\<lambda>u. u\<lparr>us_gender := Some (sr_gender q),
            us_target_gender := Some (norm_or ''any'' (sr_target_gender q)),
            us_province := Some (norm_province ''global'' (sr_province q)),
            us_queue_key := Some (own_key q), us_status := Some Matched,
            us_matched_with := Some c\<rparr>) s;
          s2 = hset c (\<lambda>u. u\<lparr>us_status := Some Matched, us_matched_with := Some tg\<rparr>) s1
      in lrem_all (own_key q) tg (lrem_one key c s2))"

datatype scan_result = Hit int | Crash py_error | Next nat

fun scan_batch :: "search \<Rightarrow> int \<Rightarrow> string \<Rightarrow> int list \<Rightarrow> nat \<Rightarrow> mstore \<Rightarrow> mstore \<times> scan_result" where
  "scan_batch q tg key [] n s = (s, Next n)"
| "scan_batch q tg key (c # cs) n s =
     (if c = tg then scan_batch q tg key cs n (lrem_all key tg s)
      else case ms_state s c of
        None \<Rightarrow> scan_batch q tg key cs n (lrem_all key c s)
      | Some u \<Rightarrow>
          if us_status u \<noteq> Some Queuing then scan_batch q tg key cs n (lrem_all key c s)
          else (case judge q tg c u s of
             Raise e \<Rightarrow> (s, Crash e)
           | Skip \<Rightarrow> scan_batch q tg key cs (n + 1) s
           | Accept \<Rightarrow> (commit_match q tg c key s, Hit c)))"

text \<open>Batches of 50 at growing offsets of a list that shrinks under the scan; a batch is not
  started once 100 queuing candidates were looked at.\<close>

fun scan_offsets :: "search \<Rightarrow> int \<Rightarrow> string \<Rightarrow> nat list \<Rightarrow> nat \<Rightarrow> mstore \<Rightarrow> mstore \<times> scan_result" where
  "scan_offsets q tg key [] n s = (s, Next n)"
| "scan_offsets q tg key (off # offs) n s =
     (if n \<ge> 100 then (s, Next n)
      else let batch = take 50 (drop off (ms_queue s key)) in
        if batch = [] then (s, Next n)
        else case scan_batch q tg key batch n s of
               (s1, Next m) \<Rightarrow> scan_offsets q tg key offs m s1
             | r \<Rightarrow> r)"

definition offsets :: "nat \<Rightarrow> nat list" where
  "offsets queue_len = filter (\<lambda>i. i < min queue_len 1000) (map (\<lambda>i. 50 * i) [0..<20])"

fun scan_keys :: "search \<Rightarrow> int \<Rightarrow> string list \<Rightarrow> mstore \<Rightarrow> mstore \<times> scan_result" where
  "scan_keys q tg [] s = (s, Next 0)"
| "scan_keys q tg (key # keys) s =
     (if ms_queue s key = [] then scan_keys q tg keys s
      else case scan_offsets q tg key (offsets (length (ms_queue s key))) 0 s of
             (s1, Next _) \<Rightarrow> scan_keys q tg keys s1
           | r \<Rightarrow> r)"

definition find_match :: "int \<Rightarrow> int \<Rightarrow> search \<Rightarrow> mstore \<Rightarrow> mstore \<times> (py_error + int option)" where
  "find_match now tg q s =
     (case scan_keys q tg
         (get_target_queue_keys (Some (sr_gender q)) (sr_target_gender q) (sr_province q)) s of
        (s1, Hit c) \<Rightarrow> (s1, Inr (Some c))
      | (s1, Crash e) \<Rightarrow> (s1, Inl e)
      | (s1, Next _) \<Rightarrow> (add_to_queue now tg q s1, Inr None))"

section \<open>Lemmas\<close>

definition waiting :: "mstore \<Rightarrow> int \<Rightarrow> bool" where
  "waiting s tg \<longleftrightarrow> (case ms_state s tg of None \<Rightarrow> False | Some u \<Rightarrow> us_status u = Some Queuing)"

text \<open>What a scan may do to the store: drop the searcher and users who are not waiting.\<close>

definition pruned :: "int \<Rightarrow> mstore \<Rightarrow> mstore \<Rightarrow> bool" where
  "pruned tg s s' \<longleftrightarrow> ms_state s' = ms_state s \<and> ms_blocks s' = ms_blocks s \<and> ms_started s' = ms_started s \<and>
     (\<forall>k. \<exists>P. ms_queue s' k = filter P (ms_queue s k) \<and> (\<forall>x. \<not> P x \<longrightarrow> x = tg \<or> \<not> waiting s x))"

lemma lrem_frames [simp]:
  "ms_state (lrem_all k v s) = ms_state s" "ms_blocks (lrem_all k v s) = ms_blocks s"
  "ms_started (lrem_all k v s) = ms_started s"
  "ms_state (lrem_one k v s) = ms_state s" "ms_blocks (lrem_one k v s) = ms_blocks s"
  "ms_started (lrem_one k v s) = ms_started s"
  "ms_queue (hset tg f s) = ms_queue s" "ms_blocks (hset tg f s) = ms_blocks s"
  by (simp_all add: lrem_all_def lrem_one_def hset_def)

lemma ms_queue_lrem_all: "ms_queue (lrem_all k v s) k' =
    (if k' = k then filter (\<lambda>x. x \<noteq> v) (ms_queue s k) else ms_queue s k')"
  by (simp add: lrem_all_def removeAll_filter_not_eq) (metis (mono_tags) filter_cong)

lemma pruned_refl: "pruned tg s s"
  unfolding pruned_def by (auto intro!: exI [of _ "\<lambda>_. True"])

lemma waiting_cong: "ms_state s' = ms_state s \<Longrightarrow> waiting s' x = waiting s x"
  by (simp add: waiting_def)

lemma pruned_trans: "pruned tg s s1 \<Longrightarrow> pruned tg s1 s2 \<Longrightarrow> pruned tg s s2"
  unfolding pruned_def
proof (elim conjE, intro conjI allI)
  fix k
  assume a: "\<forall>k. \<exists>P. ms_queue s1 k = filter P (ms_queue s k) \<and> (\<forall>x. \<not> P x \<longrightarrow> x = tg \<or> \<not> waiting s x)"
    and b: "\<forall>k. \<exists>P. ms_queue s2 k = filter P (ms_queue s1 k) \<and> (\<forall>x. \<not> P x \<longrightarrow> x = tg \<or> \<not> waiting s1 x)"
    and c: "ms_state s1 = ms_state s"
  obtain P where P: "ms_queue s1 k = filter P (ms_queue s k)" "\<forall>x. \<not> P x \<longrightarrow> x = tg \<or> \<not> waiting s x"
    using a by blast
  obtain Q where Q: "ms_queue s2 k = filter Q (ms_queue s1 k)" "\<forall>x. \<not> Q x \<longrightarrow> x = tg \<or> \<not> waiting s1 x"
    using b by blast
  have "ms_queue s2 k = filter (\<lambda>x. P x \<and> Q x) (ms_queue s k)"
    by (simp add: P(1) Q(1))
  then show "\<exists>P. ms_queue s2 k = filter P (ms_queue s k) \<and> (\<forall>x. \<not> P x \<longrightarrow> x = tg \<or> \<not> waiting s x)"
    using P(2) Q(2) waiting_cong [OF c] by (intro exI [of _ "\<lambda>x. P x \<and> Q x"]) auto
qed simp_all

lemma pruned_lrem: "v = tg \<or> \<not> waiting s v \<Longrightarrow> pruned tg s (lrem_all k v s)"
  unfolding pruned_def ms_queue_lrem_all
  by (auto intro: exI [of _ "\<lambda>x. x \<noteq> v"] exI [of _ "\<lambda>_. True"])

lemma pruned_subset: "pruned tg s s' \<Longrightarrow> set (ms_queue s' k) \<subseteq> set (ms_queue s k)"
  unfolding pruned_def by (metis filter_is_subset)

lemma pruned_keeps: "pruned tg s s' \<Longrightarrow> x \<in> set (ms_queue s k) \<Longrightarrow> x \<noteq> tg \<Longrightarrow> waiting s x \<Longrightarrow>
    x \<in> set (ms_queue s' k)"
  unfolding pruned_def by (elim conjE, elim allE [of _ k]) auto

lemma judge_cong: "ms_blocks s' = ms_blocks s \<Longrightarrow> judge q tg c u s' = judge q tg c u s"
  by (cases "near_check q u") (simp_all add: judge_def blocked_pair_def)

text \<open>The outcome of a scan that started in \<open>s\<close>.\<close>

definition scan_ok :: "search \<Rightarrow> int \<Rightarrow> string set \<Rightarrow> mstore \<Rightarrow> mstore \<times> scan_result \<Rightarrow> bool" where
  "scan_ok q tg ks s r \<longleftrightarrow> (case snd r of
     Hit c \<Rightarrow> \<exists>s1 u key. pruned tg s s1 \<and> key \<in> ks \<and> c \<in> set (ms_queue s key) \<and> c \<noteq> tg \<and>
        ms_state s c = Some u \<and> us_status u = Some Queuing \<and> judge q tg c u s = Accept \<and>
        fst r = commit_match q tg c key s1
   | Crash e \<Rightarrow> pruned tg s (fst r) \<and> e = NameError
   | Next n \<Rightarrow> pruned tg s (fst r))"

lemma scan_ok_step:
  assumes "pruned tg s s1" and "scan_ok q tg ks s1 r"
  shows "scan_ok q tg ks s r"
proof -
  have "ms_state s1 = ms_state s" "ms_blocks s1 = ms_blocks s" using assms(1) by (simp_all add: pruned_def)
  then show ?thesis
    using assms judge_cong [of s1 s] pruned_trans [OF assms(1)] pruned_subset [OF assms(1)]
    by (auto simp: scan_ok_def split: scan_result.splits) (metis subsetD)
qed

lemma scan_ok_mono: "scan_ok q tg ks s r \<Longrightarrow> ks \<subseteq> ks' \<Longrightarrow> scan_ok q tg ks' s r"
  by (auto simp: scan_ok_def split: scan_result.splits)

lemma judge_raise: "judge q tg c u s = Raise e \<Longrightarrow> e = NameError"
  by (auto simp: judge_def near_check_def split: if_splits)

lemma scan_batch_ok:
  "pruned tg s0 s \<Longrightarrow> set cs \<subseteq> set (ms_queue s0 key) \<Longrightarrow> scan_ok q tg {key} s0 (scan_batch q tg key cs n s)"
proof (induction q tg key cs n s rule: scan_batch.induct)
  case (1 q tg key n s)
  then show ?case by (simp add: scan_ok_def)
next
  case (2 q tg key c cs n s)
  have st: "ms_state s = ms_state s0" "ms_blocks s = ms_blocks s0" using "2.prems"(1) by (simp_all add: pruned_def)
  show ?case
  proof (cases "c = tg")
    case True
    then show ?thesis
      using 2 pruned_trans [OF "2.prems"(1) pruned_lrem [of tg tg s key]] by simp
  next
    case c: False
    show ?thesis
    proof (cases "ms_state s c")
      case None
      then have "pruned tg s (lrem_all key c s)" by (intro pruned_lrem) (simp add: waiting_def)
      then show ?thesis using 2 c None pruned_trans [OF "2.prems"(1)] by simp
    next
      case (Some u)
      show ?thesis
      proof (cases "us_status u = Some Queuing")
        case False
        then have "pruned tg s (lrem_all key c s)"
          by (intro pruned_lrem) (simp add: waiting_def Some)
        then show ?thesis using 2 c Some False pruned_trans [OF "2.prems"(1)] by simp
      next
        case q: True
        show ?thesis
        proof (cases "judge q tg c u s")
          case Accept
          then have "judge q tg c u s0 = Accept" using judge_cong [OF st(2)] by simp
          then show ?thesis
            using 2 c Some q Accept st by (simp add: scan_ok_def) blast
        next
          case Skip
          then show ?thesis using 2 c Some q by simp
        next
          case (Raise e)
          then show ?thesis using 2 c Some q judge_raise [OF Raise] by (simp add: scan_ok_def)
        qed
      qed
    qed
  qed
qed

lemma scan_offsets_ok: "scan_ok q tg {key} s (scan_offsets q tg key offs n s)"
proof (induction offs arbitrary: n s)
  case Nil
  then show ?case by (simp add: scan_ok_def pruned_refl)
next
  case (Cons off offs)
  let ?b = "take 50 (drop off (ms_queue s key))"
  have sub: "set ?b \<subseteq> set (ms_queue s key)" by (meson set_drop_subset set_take_subset subset_trans)
  obtain s1 r where r: "scan_batch q tg key ?b n s = (s1, r)" by (metis surj_pair)
  have ok: "scan_ok q tg {key} s (s1, r)" using scan_batch_ok [OF pruned_refl sub] r by metis
  show ?case
  proof (cases "n \<ge> 100 \<or> ?b = []")
    case True
    then show ?thesis by (auto simp: scan_ok_def pruned_refl Let_def)
  next
    case False
    show ?thesis
    proof (cases r)
      case (Next m)
      then have "pruned tg s s1" using ok by (simp add: scan_ok_def)
      then show ?thesis using False Next r scan_ok_step [OF _ Cons.IH] by (simp add: Let_def)
    qed (use False r ok in \<open>simp_all add: Let_def\<close>)
  qed
qed

lemma scan_keys_ok: "scan_ok q tg (set keys) s (scan_keys q tg keys s)"
proof (induction keys arbitrary: s)
  case Nil
  then show ?case by (simp add: scan_ok_def pruned_refl)
next
  case (Cons key keys)
  obtain s1 r where r: "scan_offsets q tg key (offsets (length (ms_queue s key))) 0 s = (s1, r)"
    by (metis surj_pair)
  have ok: "scan_ok q tg {key} s (s1, r)" using scan_offsets_ok [of q tg key s] r by metis
  show ?case
  proof (cases "ms_queue s key = []")
    case True
    then show ?thesis using scan_ok_mono [OF Cons.IH [of s], of "set (key # keys)"] by auto
  next
    case False
    show ?thesis
    proof (cases r)
      case (Next m)
      then have "pruned tg s s1" using ok by (simp add: scan_ok_def)
      then have "scan_ok q tg (set keys) s (scan_keys q tg keys s1)" by (rule scan_ok_step [OF _ Cons.IH])
      then have "scan_ok q tg (set (key # keys)) s (scan_keys q tg keys s1)"
        by (rule scan_ok_mono) auto
      then show ?thesis using False Next r by simp
    qed (use False r scan_ok_mono [OF ok, of "set (key # keys)"] in auto)
  qed
qed

lemma commit_match_view:
  assumes "c \<noteq> tg"
  shows "ms_state (commit_match q tg c key s) k =
      (if k = tg then Some ((case ms_state s tg of None \<Rightarrow> empty_state | Some u \<Rightarrow> u)
           \<lparr>us_gender := Some (sr_gender q), us_target_gender := Some (norm_or ''any'' (sr_target_gender q)),
            us_province := Some (norm_province ''global'' (sr_province q)),
            us_queue_key := Some (own_key q), us_status := Some Matched, us_matched_with := Some c\<rparr>)
       else if k = c then Some ((case ms_state s c of None \<Rightarrow> empty_state | Some u \<Rightarrow> u)
           \<lparr>us_status := Some Matched, us_matched_with := Some tg\<rparr>)
       else ms_state s k)"
    and "tg \<notin> set (ms_queue (commit_match q tg c key s) (own_key q))"
    and "ms_blocks (commit_match q tg c key s) = ms_blocks s"
  using assms by (auto simp: commit_match_def Let_def hset_def lrem_all_def lrem_one_def)

lemma judge_Accept:
  "judge q tg c u s = Accept \<longleftrightarrow> \<not> (sr_nearby q \<and> sr_lat q \<noteq> None \<and> sr_lng q \<noteq> None) \<and>
    ages_ok q u \<and> interests_ok q u \<and> \<not> blocked_pair tg c s"
  by (auto simp: judge_def near_check_def)

section \<open>Properties\<close>

text \<open>C18: A match is mutual and acceptable to both: the partner is another user who was waiting in
  one of the searched queues, accepted the searcher's age as the searcher accepted theirs, and
  neither blocks the other; afterwards both states say matched and name each other, the
  searcher is out of their own queue, and no third user's state changed.\<close>

theorem match_mutual:
  assumes "find_match now tg q s = (s', Inr (Some c))"
  shows "c \<noteq> tg \<and> waiting s c \<and> \<not> blocked_pair tg c s \<and>
    (\<exists>u key. ms_state s c = Some u \<and> ages_ok q u \<and> interests_ok q u \<and>
       key \<in> set (get_target_queue_keys (Some (sr_gender q)) (sr_target_gender q) (sr_province q)) \<and>
       c \<in> set (ms_queue s key)) \<and>
    get_user_match_partner tg s' = Some c \<and> get_user_match_partner c s' = Some tg \<and>
    \<not> waiting s' c \<and> \<not> waiting s' tg \<and> tg \<notin> set (ms_queue s' (own_key q)) \<and>
    (\<forall>k. k \<noteq> tg \<and> k \<noteq> c \<longrightarrow> ms_state s' k = ms_state s k)"
proof -
  let ?ks = "get_target_queue_keys (Some (sr_gender q)) (sr_target_gender q) (sr_province q)"
  have r: "scan_keys q tg ?ks s = (s', Hit c)"
    using assms by (auto simp: find_match_def split: prod.splits scan_result.splits)
  then obtain s1 u key where h: "pruned tg s s1" "key \<in> set ?ks" "c \<in> set (ms_queue s key)" "c \<noteq> tg"
      "ms_state s c = Some u" "us_status u = Some Queuing" "judge q tg c u s = Accept"
      "s' = commit_match q tg c key s1"
    using scan_keys_ok [of q tg ?ks s] by (auto simp: scan_ok_def)
  have st: "ms_state s1 = ms_state s" using h(1) by (simp add: pruned_def)
  note v = commit_match_view [OF h(4), of q key s1, folded h(8), unfolded st]
  show ?thesis
    using h(2-7) v(2) by (auto simp: waiting_def get_user_match_partner_def v(1) judge_Accept)
qed

text \<open>A search that finds nobody queues the searcher: exactly once, at the head of their own
  queue, waiting; it changes no other user's state and removes from the queues only entries of
  users who are not waiting, so nobody who waits is lost.\<close>

theorem no_match_queues:
  assumes "find_match now tg q s = (s', Inr None)"
  shows "waiting s' tg \<and> ms_queue s' (own_key q) = tg # filter (\<lambda>x. x \<noteq> tg) (ms_queue s' (own_key q)) \<and>
    ms_started s' tg = Some (now + 300) \<and>
    (\<forall>k. k \<noteq> tg \<longrightarrow> ms_state s' k = ms_state s k) \<and>
    (\<forall>key x. x \<in> set (ms_queue s key) \<and> x \<noteq> tg \<and> waiting s x \<longrightarrow> x \<in> set (ms_queue s' key))"
proof -
  let ?ks = "get_target_queue_keys (Some (sr_gender q)) (sr_target_gender q) (sr_province q)"
  obtain s1 n where r: "scan_keys q tg ?ks s = (s1, Next n)" and s': "s' = add_to_queue now tg q s1"
    using assms by (auto simp: find_match_def split: prod.splits scan_result.splits)
  then have p: "pruned tg s s1" using scan_keys_ok [of q tg ?ks s] by (simp add: scan_ok_def)
  have st: "ms_state s1 = ms_state s" using p by (simp add: pruned_def)
  have rq: "ms_queue (fst (remove_from_queue tg s1)) key = ms_queue s1 key \<or>
      ms_queue (fst (remove_from_queue tg s1)) key = filter (\<lambda>x. x \<noteq> tg) (ms_queue s1 key)" for key
    by (auto simp: remove_from_queue_def Let_def del_state_def ms_queue_lrem_all split: option.split)
  have q': "ms_queue s' key = (if key = own_key q
      then tg # filter (\<lambda>x. x \<noteq> tg) (ms_queue (fst (remove_from_queue tg s1)) key)
      else ms_queue (fst (remove_from_queue tg s1)) key)" for key
    by (simp add: s' add_to_queue_def Let_def set_queue_ttl_def lpush_def own_key_def ms_queue_lrem_all)
  have "x \<in> set (ms_queue s' key)" if "x \<in> set (ms_queue s key)" "x \<noteq> tg" "waiting s x" for x key
    using pruned_keeps [OF p that] rq [of key] that(2) by (auto simp: q')
  moreover have "ms_state (fst (remove_from_queue tg s1)) k = (if k = tg then None else ms_state s1 k)" for k
    by (auto simp: remove_from_queue_def Let_def del_state_def split: option.split)
  then have state: "k \<noteq> tg \<longrightarrow> ms_state s' k = ms_state s k" for k
    by (simp add: s' add_to_queue_def Let_def set_queue_ttl_def lpush_def hset_def st)
  moreover have "waiting s' tg" "ms_started s' tg = Some (now + 300)"
    by (simp_all add: s' add_to_queue_def Let_def set_queue_ttl_def lpush_def hset_def waiting_def)
  ultimately show ?thesis by (simp add: q' filter_id_conv)
qed

text \<open>A nearby search by a user whose position is known never finds anyone: the first waiting
  candidate with a position makes it raise, every other candidate is skipped or dropped.\<close>

theorem nearby_search_never_matches:
  assumes "sr_nearby q" and "sr_lat q \<noteq> None" and "sr_lng q \<noteq> None"
    and "find_match now tg q s = (s', r)"
  shows "r = Inl NameError \<or> r = Inr None"
proof -
  let ?ks = "get_target_queue_keys (Some (sr_gender q)) (sr_target_gender q) (sr_province q)"
  obtain s1 x where x: "scan_keys q tg ?ks s = (s1, x)" by (metis surj_pair)
  then have "scan_ok q tg (set ?ks) s (s1, x)" using scan_keys_ok [of q tg ?ks s] by simp
  then show ?thesis
    using assms x by (cases x) (auto simp: find_match_def scan_ok_def judge_Accept)
qed

text \<open>The scan's offsets ignore that it shrinks the list it walks: if the first fifty entries
  of a queue are stale, they are removed, the next batch starts fifty places further in the
  shortened list, and up to fifty users waiting right behind them are not even looked at.\<close>

theorem stale_prefix_hides_waiting:
  assumes "ms_queue s key = stale @ fresh" and "length stale = 50" and "0 < length fresh" and "length fresh \<le> 50"
    and "\<forall>x\<in>set stale. ms_state s x = None \<and> x \<noteq> tg" and "\<forall>x\<in>set fresh. x \<notin> set stale"
  shows "\<exists>s'. scan_offsets q tg key (offsets (length (ms_queue s key))) 0 s = (s', Next 0) \<and>
    ms_queue s' key = fresh \<and> ms_state s' = ms_state s"
proof -
  have clear: "\<exists>s'. scan_batch q tg key cs n s0 = (s', Next n) \<and> ms_state s' = ms_state s0 \<and>
      ms_queue s' key = filter (\<lambda>x. x \<notin> set cs) (ms_queue s0 key)"
    if "\<forall>x\<in>set cs. ms_state s0 x = None \<and> x \<noteq> tg" for cs n s0
    using that
  proof (induction cs arbitrary: s0)
    case Nil
    then show ?case by simp
  next
    case (Cons c cs)
    from Cons.IH [of "lrem_all key c s0"] Cons.prems
    obtain s' where "scan_batch q tg key cs n (lrem_all key c s0) = (s', Next n)"
      "ms_state s' = ms_state s0"
      "ms_queue s' key = filter (\<lambda>x. x \<notin> set cs) (filter (\<lambda>x. x \<noteq> c) (ms_queue s0 key))"
      by (auto simp: ms_queue_lrem_all)
    then show ?case using Cons.prems by (auto intro!: filter_cong)
  qed
  have off: "offsets (length (ms_queue s key)) = [0, 50]"
  proof -
    have "min (length (ms_queue s key)) 1000 = 50 + length fresh" using assms(1,2,4) by simp
    then have "offsets (length (ms_queue s key)) = filter (\<lambda>i. i < 50 + length fresh)
        [0, 50, 100, 150, 200, 250, 300, 350, 400, 450, 500, 550, 600, 650, 700, 750, 800, 850, 900, 950]"
      by (simp add: offsets_def upt_rec)
    then show ?thesis using assms(3,4) by simp
  qed
  obtain s' where s': "scan_batch q tg key stale 0 s = (s', Next 0)" "ms_state s' = ms_state s"
      "ms_queue s' key = filter (\<lambda>x. x \<notin> set stale) (ms_queue s key)"
    using clear [OF assms(5), of 0] by blast
  have "filter (\<lambda>x. x \<notin> set stale) (ms_queue s key) = fresh"
    using assms(6) by (simp add: assms(1) filter_empty_conv filter_id_conv)
  then have f: "ms_queue s' key = fresh" using s'(3) by simp
  have "take 50 (drop 0 (ms_queue s key)) = stale" using assms(1,2) by simp
  moreover have "stale \<noteq> []" using assms(2) by auto
  moreover have "take 50 (drop 50 (ms_queue s' key)) = []" using f assms(4) by simp
  ultimately show ?thesis using s'(1,2) f by (simp add: off Let_def)
qed

lemma split_at_colon:
  assumes "CHR '':'' \<notin> set p" and "CHR '':'' \<notin> set p'"
  shows "p @ CHR '':'' # r = p' @ CHR '':'' # r' \<longleftrightarrow> p = p' \<and> r = r'"
  using assms
proof (induction p arbitrary: p')
  case Nil
  then show ?case by (cases p') auto
next
  case (Cons c p)
  then show ?case by (cases p') auto
qed

lemma queue_key_inj:
  assumes "CHR '':'' \<notin> set p" and "CHR '':'' \<notin> set p'" and "CHR '':'' \<notin> set g" and "CHR '':'' \<notin> set g'"
  shows "queue_key_of p g w = queue_key_of p' g' w' \<longleftrightarrow> p = p' \<and> g = g' \<and> w = w'"
proof -
  have "queue_key_of p g w = queue_key_of p' g' w' \<longleftrightarrow>
      p @ CHR '':'' # (g @ CHR '':'' # (''wants_'' @ w)) = p' @ CHR '':'' # (g' @ CHR '':'' # (''wants_'' @ w'))"
    by (simp add: queue_key_of_def)
  also have "\<dots> \<longleftrightarrow> p = p' \<and> g = g' \<and> ''wants_'' @ w = ''wants_'' @ w'"
    by (simp only: split_at_colon [OF assms(1,2)] split_at_colon [OF assms(3,4)])
  finally show ?thesis by simp
qed

text \<open>Who sees whom: a waiting user's queue is among those a searcher looks at exactly when
  each one's wish is open or names the other's gender, and the waiting user is in the
  searcher's province or waits in the global queue.  So a user waiting in a province is not
  seen by a global search from there, although they would see that searcher.\<close>

theorem queue_visible_iff:
  assumes "norm_or ''unknown'' gA \<in> {''male'', ''female''}" and "norm_or ''unknown'' gB \<in> {''male'', ''female''}"
    and "norm_or ''any'' tA \<in> {''male'', ''female'', ''any''}" and "norm_or ''any'' tB \<in> {''male'', ''female'', ''any''}"
    and "CHR '':'' \<notin> set (norm_province ''global'' pA)" and "CHR '':'' \<notin> set (norm_province ''global'' pB)"
  shows "get_queue_key gA tA pA \<in> set (get_target_queue_keys gB tB pB) \<longleftrightarrow>
    (norm_or ''any'' tB = ''any'' \<or> norm_or ''any'' tB = norm_or ''unknown'' gA) \<and>
    (norm_or ''any'' tA = ''any'' \<or> norm_or ''any'' tA = norm_or ''unknown'' gB) \<and>
    (norm_province ''global'' pA = norm_province ''global'' pB \<or> norm_province ''global'' pA = ''global'')"
proof -
  define p g w p' g' w' where d: "p = norm_province ''global'' pA" "g = norm_or ''unknown'' gA"
    "w = norm_or ''any'' tA" "p' = norm_province ''global'' pB" "g' = norm_or ''unknown'' gB"
    "w' = norm_or ''any'' tB"
  have gw: "g \<in> {''male'', ''female''}" and w': "w' \<noteq> ''any'' \<Longrightarrow> w' \<in> {''male'', ''female''}"
    using assms(1,4) d by auto
  have inj: "queue_key_of p g w = queue_key_of x y z \<longleftrightarrow> p = x \<and> g = y \<and> w = z"
    if "x = p' \<or> x = ''global''" "y \<in> {''male'', ''female''}" for x y z
    using that assms d by (intro queue_key_inj) auto
  have "get_queue_key gA tA pA \<in> set (get_target_queue_keys gB tB pB) \<longleftrightarrow>
      (\<exists>x\<in>set (if p' \<noteq> ''global'' then [p', ''global''] else [p']).
       \<exists>y\<in>set (if w' \<noteq> ''any'' then [w'] else [''male'', ''female'']).
       \<exists>z\<in>{g', ''any''}. queue_key_of p g w = queue_key_of x y z)"
    by (simp add: get_queue_key_def get_target_queue_keys_def Let_def flip: d)
  also have "\<dots> \<longleftrightarrow> (\<exists>x\<in>set (if p' \<noteq> ''global'' then [p', ''global''] else [p']).
       \<exists>y\<in>set (if w' \<noteq> ''any'' then [w'] else [''male'', ''female'']).
       \<exists>z\<in>{g', ''any''}. p = x \<and> g = y \<and> w = z)"
    using inj assms(4) d by (intro bex_cong) (auto split: if_splits)
  finally show ?thesis
    unfolding d [symmetric] using gw by (cases "p' = ''global''"; cases "w' = ''any''") (simp_all, blast+)
qed

text \<open>A concrete store: user 2 waits for anyone in the global queue.\<close>

definition demo_waiting :: ustate where
  "demo_waiting = empty_state\<lparr>us_gender := Some ''female'', us_target_gender := Some ''any'',
     us_age := Some 25, us_min_age_filter := Some 18, us_max_age_filter := Some 40,
     us_queue_key := Some ''match:queue:global:female:wants_any'', us_status := Some Queuing\<rparr>"

definition demo_store :: mstore where
  "demo_store = \<lparr>ms_state = [2 \<mapsto> demo_waiting],
     ms_queue = (\<lambda>k. if k = ''match:queue:global:female:wants_any'' then [2] else []),
     ms_started = Map.empty, ms_blocks = (\<lambda>_. {})\<rparr>"

definition demo_search :: search where
  "demo_search = \<lparr>sr_gender = ''male'', sr_target_gender = Some ''female'', sr_province = None,
     sr_is_vip = False, sr_age = 30, sr_min_age = 18, sr_max_age = 40, sr_interests = None,
     sr_lat = None, sr_lng = None, sr_nearby = False\<rparr>"

lemma demo_keys: "get_target_queue_keys (Some ''male'') (Some ''female'') None =
    [''match:queue:global:female:wants_male'', ''match:queue:global:female:wants_any'']"
  by code_simp

lemma demo_offsets: "offsets (Suc 0) = [0]"
  by code_simp

lemma demo_judge: "judge demo_search 1 2 demo_waiting demo_store = Accept"
  by (simp add: judge_Accept demo_search_def ages_ok_def interests_ok_def blocked_pair_def demo_waiting_def
      empty_state_def dflt_def demo_store_def)

lemma demo_found: "find_match 0 1 demo_search demo_store =
    (commit_match demo_search 1 2 ''match:queue:global:female:wants_any'' demo_store, Inr (Some 2))"
proof -
  have "us_status demo_waiting = Some Queuing" by (simp add: demo_waiting_def)
  then show ?thesis using demo_judge
    by (simp add: find_match_def demo_search_def demo_keys demo_offsets demo_store_def)
qed

theorem match_mutual_witness: "\<exists>s'. find_match 0 1 demo_search demo_store = (s', Inr (Some 2)) \<and>
    get_user_match_partner 1 s' = Some 2 \<and> get_user_match_partner 2 s' = Some 1"
  using match_mutual [OF demo_found] demo_found by blast

definition empty_store :: mstore where
  "empty_store = \<lparr>ms_state = Map.empty, ms_queue = (\<lambda>_. []), ms_started = Map.empty, ms_blocks = (\<lambda>_. {})\<rparr>"

lemma demo_not_found: "find_match 0 1 demo_search empty_store = (add_to_queue 0 1 demo_search empty_store, Inr None)"
  by (simp add: find_match_def demo_search_def demo_keys empty_store_def)

theorem no_match_queues_witness: "waiting (add_to_queue 0 1 demo_search empty_store) 1"
  using no_match_queues [OF demo_not_found] by blast

definition near_search :: search where
  "near_search = demo_search\<lparr>sr_lat := Some 35, sr_lng := Some 51, sr_nearby := True\<rparr>"

definition near_store :: mstore where
  "near_store = demo_store\<lparr>ms_state := [2 \<mapsto> demo_waiting\<lparr>us_lat := Some 35, us_lng := Some 51\<rparr>]\<rparr>"

lemma near_raises: "snd (find_match 0 1 near_search near_store) = Inl NameError"
proof -
  have "us_status demo_waiting = Some Queuing" by (simp add: demo_waiting_def)
  then show ?thesis
    by (simp add: find_match_def near_search_def demo_search_def demo_keys demo_offsets near_store_def
        demo_store_def judge_def near_check_def)
qed

theorem nearby_search_never_matches_witness: "\<exists>s' r. find_match 0 1 near_search near_store = (s', r) \<and>
    r = Inl NameError \<and> (r = Inl NameError \<or> r = Inr None)"
proof -
  obtain s' where r: "find_match 0 1 near_search near_store = (s', Inl NameError)"
    using near_raises by (metis surj_pair snd_conv)
  then have "Inl NameError = (Inl NameError :: py_error + int option) \<or> Inl NameError = (Inr None :: py_error + int option)"
    by (intro nearby_search_never_matches [of near_search 0 1 near_store s']) (simp_all add: near_search_def)
  then show ?thesis using r by blast
qed

definition stale_users :: "int list" where
  "stale_users = map int [100..<150]"

definition stale_store :: mstore where
  "stale_store = demo_store\<lparr>ms_queue := (\<lambda>k. if k = ''match:queue:global:female:wants_any'' then stale_users @ [2] else [])\<rparr>"

theorem stale_prefix_hides_waiting_witness:
  "waiting stale_store 2 \<and> (\<exists>s'. scan_offsets demo_search 1 ''match:queue:global:female:wants_any''
     (offsets (length (ms_queue stale_store ''match:queue:global:female:wants_any''))) 0 stale_store = (s', Next 0) \<and>
     ms_queue s' ''match:queue:global:female:wants_any'' = [2] \<and> ms_state s' = ms_state stale_store)"
proof (intro conjI stale_prefix_hides_waiting [of _ _ stale_users])
  show "waiting stale_store 2"
    by (simp add: waiting_def stale_store_def demo_store_def demo_waiting_def)
qed (auto simp: stale_store_def demo_store_def stale_users_def)

lemma demo_norms: "norm_or ''unknown'' (Some ''male'') = ''male''" "norm_or ''unknown'' (Some ''Female '') = ''female''"
    "norm_or ''any'' None = ''any''" "norm_province ''global'' None = ''global''"
    "norm_province ''global'' (Some ''Tehran'') = ''tehran''"
  by code_simp+

theorem queue_visible_iff_witness:
  "get_queue_key (Some ''male'') None None \<in> set (get_target_queue_keys (Some ''Female '') None (Some ''Tehran'')) \<and>
   get_queue_key (Some ''Female '') None (Some ''Tehran'') \<notin> set (get_target_queue_keys (Some ''male'') None None)"
  using queue_visible_iff [of "Some ''male''" "Some ''Female ''" None None None "Some ''Tehran''"]
    queue_visible_iff [of "Some ''Female ''" "Some ''male''" None None "Some ''Tehran''" None]
  by (simp add: demo_norms)

end
