(* ===== verification/StateLock.thy ===== *)
theory StateLock
  imports States Matching Matches
begin

text \<open>
  \<open>bot/middlewares/state_lock.py\<close>: a user inside a dialogue is kept in it until it ends, its
  time runs out, or the user leaves it by force.  Times are in microseconds.  The calls that can
  fail (Redis, the database) are marked by \<open>faults\<close>.  \<open>run.py\<close> has the registration of this
  middleware commented out: what follows is about the class.
\<close>

section \<open>The tables\<close>

definition REPLY_BTN_VALUES :: "ustr list" where
  "REPLY_BTN_VALUES = map snd ReplyBtn"

definition GLOBAL_ALLOWED_TEXTS :: "ustr list" where
  "GLOBAL_ALLOWED_TEXTS = [btn ''CANCEL'', btn ''BACK_TO_MENU'']"

definition GLOBAL_ALLOWED_CALLBACK_PREFIXES :: "string list" where
  "GLOBAL_ALLOWED_CALLBACK_PREFIXES =
    [''view_profile_'', ''prof_page:'', ''ignore'', ''req_direct_'', ''block_user_'',
     ''unblock_user_'', ''report_user_'', ''add_friend_'', ''remove_friend_'',
     ''transfer_coin_'', ''view_comments:'']"

definition LOCKED_STATE_TTL :: int where
  "LOCKED_STATE_TTL = 15 * 60 * 1000000"

definition REAL_MATCH_STATES :: "string list" where
  "REAL_MATCH_STATES =
    [''ChatStates:anonymous_chat_active'', ''ChatStates:waiting_for_approval'',
     ''MatchingStates:waiting_in_queue'', ''QuestionnaireStates:answering_questions'',
     ''QuestionnaireStates:waiting_for_partner_answer'',
     ''QuestionnaireStates:waiting_for_questions_to_start'']"

definition LOCKED_STATES :: "string list" where
  "LOCKED_STATES =
    [''ChatStates:anonymous_chat_active'', ''ChatStates:waiting_for_approval'',
     ''DirectMessageStates:typing_message'', ''MatchingStates:waiting_in_queue'',
     ''QuestionnaireStates:answering_questions'',
     ''QuestionnaireStates:waiting_for_partner_answer'',
     ''ReportStates:waiting_for_report_description'',
     ''ReportStates:waiting_for_evidence_before_reason'', ''ReportStates:selecting_reason'',
     ''VIPStates:waiting_for_age_filter'', ''ProfileEditStates:editing_bio'',
     ''ProfileEditStates:selecting_interests'', ''ProfileEditStates:waiting_for_photo'',
     ''ProfileEditStates:editing_name'', ''ProfileEditStates:updating_age'',
     ''ProfileEditStates:updating_province'', ''ProfileEditStates:updating_city'',
     ''ProfileEditStates:waiting_for_voice'', ''ProfileEditStates:waiting_for_gps'',
     ''DiscoveryStates:choosing_province'', ''DiscoveryStates:choosing_interests'',
     ''DiscoveryStates:choosing_age_range'', ''DiscoveryStates:showing_results'',
     ''DiscoveryStates:navigating'', ''CoinTransferStates:waiting_for_amount'',
     ''CoinTransferStates:confirming'', ''PaymentStates:choosing_package'',
     ''PaymentStates:choosing_method'', ''PaymentStates:waiting_for_receipt_photo'',
     ''AdminStates:waiting_for_support_reply'', ''AdminStates:waiting_for_broadcast_message'',
     ''EventStates:waiting_for_name'', ''EventStates:waiting_for_description'',
     ''EventStates:waiting_for_duration'', ''EventStates:waiting_for_multiplier'',
     ''EventStates:confirming'', ''PBroadcastStates:waiting_for_filter'',
     ''PBroadcastStates:waiting_for_message'', ''PBroadcastStates:confirming'',
     ''QuestionAddStates:choosing_type'', ''QuestionAddStates:entering_text'',
     ''QuestionAddStates:entering_option_a'', ''QuestionAddStates:entering_option_b'',
     ''QuestionAddStates:entering_option_c'', ''QuestionAddStates:entering_option_d'',
     ''QuestionAddStates:entering_category'', ''QuestionAddStates:confirming'',
     ''QuestionAddStates:waiting_for_excel'', ''QuestionAddStates:confirming_bulk'',
     ''ProfileCommentStates:waiting_for_comment_text'',
     ''SupportStates:waiting_for_support_message'']"

record actions =
  ac_texts :: "ustr list"
  ac_callback_prefixes :: "string list"
  ac_other_texts :: bool
  ac_media :: bool

definition actions :: "ustr list \<Rightarrow> string list \<Rightarrow> bool \<Rightarrow> bool \<Rightarrow> actions" where
  "actions ts ps other media = \<lparr>ac_texts = ts, ac_callback_prefixes = ps,
     ac_other_texts = other, ac_media = media\<rparr>"

definition STATE_ALLOWED_ACTIONS :: "(string \<times> actions) list" where
  "STATE_ALLOWED_ACTIONS = [
    (''ChatStates:anonymous_chat_active'',
     actions [btn ''PHASE_USER_PROFILE'', btn ''END_CHAT'', btn ''END_DATE'']
       [''end_active_chat'', ''confirm_end_chat'', ''cancel_end_chat'', ''confirm_end_date'', ''cancel_end_date'', ''trigger_report_'', ''safety_reason_'', ''report_cancel''] True True),
    (''ChatStates:waiting_for_approval'',
     actions []
       [''approve_chat_yes'', ''approve_chat_no''] False False),
    (''DirectMessageStates:typing_message'',
     actions []
       [] True False),
    (''MatchingStates:waiting_in_queue'',
     actions []
       [] False False),
    (''QuestionnaireStates:answering_questions'',
     actions []
       [''ans_''] False False),
    (''QuestionnaireStates:waiting_for_partner_answer'',
     actions []
       [''ans_''] False False),
    (''ReportStates:waiting_for_report_description'',
     actions []
       [''report_cancel''] True True),
    (''ReportStates:waiting_for_evidence_before_reason'',
     actions []
       [''report_cancel''] True False),
    (''ReportStates:selecting_reason'',
     actions []
       [''safety_reason_'', ''report_cancel''] False False),
    (''VIPStates:waiting_for_age_filter'',
     actions [btn ''BACK_TO_MENU'']
       [''vip_age_''] False False),
    (''ProfileEditStates:editing_bio'',
     actions []
       [] True False),
    (''ProfileEditStates:selecting_interests'',
     actions []
       [''interest_'', ''save_interests''] True False),
    (''ProfileEditStates:waiting_for_photo'',
     actions []
       [] False True),
    (''ProfileEditStates:editing_name'',
     actions []
       [] True False),
    (''ProfileEditStates:updating_age'',
     actions []
       [] True False),
    (''ProfileEditStates:updating_province'',
     actions []
       [] True False),
    (''ProfileEditStates:updating_city'',
     actions []
       [] True False),
    (''ProfileEditStates:waiting_for_voice'',
     actions []
       [] False True),
    (''ProfileEditStates:waiting_for_gps'',
     actions []
       [] False True),
    (''DiscoveryStates:choosing_province'',
     actions []
       [''disc_cancel''] True False),
    (''DiscoveryStates:choosing_interests'',
     actions []
       [''disc_cancel'', ''disc_int_''] True False),
    (''DiscoveryStates:choosing_age_range'',
     actions []
       [''disc_cancel'', ''disc_age_''] True False),
    (''DiscoveryStates:showing_results'',
     actions [btn ''MY_PROFILE'']
       [''disc_'', ''view_profile_'', ''like_'', ''pass_''] False False),
    (''DiscoveryStates:navigating'',
     actions [btn ''MY_PROFILE'']
       [''disc_'', ''view_profile_'', ''like_'', ''pass_''] False False),
    (''CoinTransferStates:waiting_for_amount'',
     actions []
       [] True False),
    (''CoinTransferStates:confirming'',
     actions []
       [''transfer_confirm_'', ''transfer_cancel''] False False),
    (''PaymentStates:choosing_package'',
     actions []
       [''buy_package_'', ''cancel_payment''] False False),
    (''PaymentStates:choosing_method'',
     actions []
       [''pay_method_'', ''cancel_payment''] False False),
    (''PaymentStates:waiting_for_receipt_photo'',
     actions []
       [''cancel_payment''] True True),
    (''AdminStates:waiting_for_support_reply'',
     actions []
       [''cancel_admin_reply''] True True),
    (''AdminStates:waiting_for_broadcast_message'',
     actions []
       [''cancel_broadcast''] True True),
    (''EventStates:waiting_for_name'',
     actions []
       [''cancel_event''] True False),
    (''EventStates:waiting_for_description'',
     actions []
       [''cancel_event''] True False),
    (''EventStates:waiting_for_duration'',
     actions []
       [''cancel_event''] True False),
    (''EventStates:waiting_for_multiplier'',
     actions []
       [''cancel_event''] True False),
    (''EventStates:confirming'',
     actions []
       [''event_confirm'', ''cancel_event''] False False),
    (''PBroadcastStates:waiting_for_filter'',
     actions []
       [''cancel_pbroadcast''] True False),
    (''PBroadcastStates:waiting_for_message'',
     actions []
       [''cancel_pbroadcast''] True True),
    (''PBroadcastStates:confirming'',
     actions []
       [''pbroadcast_confirm'', ''cancel_pbroadcast''] False False),
    (''QuestionAddStates:choosing_type'',
     actions []
       [''qtype:''] True False),
    (''QuestionAddStates:entering_text'',
     actions []
       [] True False),
    (''QuestionAddStates:entering_option_a'',
     actions []
       [] True False),
    (''QuestionAddStates:entering_option_b'',
     actions []
       [] True False),
    (''QuestionAddStates:entering_option_c'',
     actions []
       [] True False),
    (''QuestionAddStates:entering_option_d'',
     actions []
       [] True False),
    (''QuestionAddStates:entering_category'',
     actions []
       [] True False),
    (''QuestionAddStates:confirming'',
     actions []
       [''qconfirm:''] False False),
    (''QuestionAddStates:waiting_for_excel'',
     actions []
       [] False True),
    (''QuestionAddStates:confirming_bulk'',
     actions []
       [''qbulk:''] False False),
    (''ProfileCommentStates:waiting_for_comment_text'',
     actions []
       [] True False),
    (''SupportStates:waiting_for_support_message'',
     actions []
       [] True False)]"

definition actions_of :: "string \<Rightarrow> actions" where
  "actions_of s = (case map_of STATE_ALLOWED_ACTIONS s of
     None \<Rightarrow> actions [] [] False False | Some a \<Rightarrow> a)"

section \<open>The middleware\<close>

text \<open>Which calls go through: leaving the queue, deleting the Redis hash, reading the database.\<close>

record faults =
  queue_up :: bool
  redis_up :: bool
  db_up :: bool

definition entered_key :: string where "entered_key = ''_state_lock_entered_at''"
definition tracked_key :: string where "tracked_key = ''_state_lock_state_name''"

fun unwrap :: "event \<Rightarrow> event option" where
  "unwrap (UpdMessage m) = Some (Message m)"
| "unwrap (UpdCallback c) = Some (Callback c)"
| "unwrap (UpdMyChatMember u) = None"
| "unwrap (UpdEdited m) = None"
| "unwrap (UpdOther u) = None"
| "unwrap e = Some e"

definition quit_queue :: "bool \<Rightarrow> int \<Rightarrow> mstore \<Rightarrow> mstore" where
  "quit_queue up tg r = (if up then fst (remove_from_queue tg r) else r)"

definition drop_hash :: "bool \<Rightarrow> int \<Rightarrow> mstore \<Rightarrow> mstore" where
  "drop_hash up tg r = (if up then del_state tg r else r)"

definition handle_force_exit :: "faults \<Rightarrow> int \<Rightarrow> fsm \<times> mstore \<Rightarrow> fsm \<times> mstore" where
  "handle_force_exit f tg w = (clear_fsm (set_state None (fst w)),
     drop_hash (redis_up f) tg (quit_queue (queue_up f) tg (snd w)))"

text \<open>The expiry of the dialogue: one \<open>try\<close> around both calls, so the first failure skips the
  second.\<close>

definition expire_lock :: "faults \<Rightarrow> int option \<Rightarrow> fsm \<times> mstore \<Rightarrow> fsm \<times> mstore" where
  "expire_lock f tg w = (clear_fsm (set_state None (fst w)),
     (case tg of None \<Rightarrow> snd w
      | Some i \<Rightarrow> if queue_up f then drop_hash (redis_up f) i (quit_queue True i (snd w))
                  else snd w))"

definition try_auto_heal :: "faults \<Rightarrow> db \<Rightarrow> int \<Rightarrow> fsm \<times> mstore \<Rightarrow> (fsm \<times> mstore) \<times> bool" where
  "try_auto_heal f d tg w =
     (if \<not> db_up f then (w, False)
      else if get_active_match tg d \<noteq> None then (w, False)
      else ((clear_fsm (set_state None (fst w)),
             drop_hash (redis_up f) tg (quit_queue (queue_up f) tg (snd w))), True))"

definition touch :: "int \<Rightarrow> fsm \<times> mstore \<Rightarrow> fsm \<times> mstore" where
  "touch now w = (update_data entered_key (FInt now) (fst w), snd w)"

text \<open>Step 3: is the update allowed in this state?\<close>

definition check_allowed ::
  "int \<Rightarrow> string \<Rightarrow> event \<Rightarrow> fsm \<times> mstore \<Rightarrow> (fsm \<times> mstore) \<times> decision" where
  "check_allowed now s ev w =
     (let a = actions_of s;
          texts = ac_texts a @ GLOBAL_ALLOWED_TEXTS;
          prefixes = ac_callback_prefixes a @ GLOBAL_ALLOWED_CALLBACK_PREFIXES
      in case ev of
           Message m \<Rightarrow>
             if \<not> has_text m then
               (if ac_media a then (touch now w, Handle) else (w, Stop (Some ProcessActive)))
             else let t = the (tm_text m) in
               if starts_with [47] t then (w, Handle)
               else if t \<in> set texts then (touch now w, Handle)
               else if t \<in> set REPLY_BTN_VALUES then (w, Stop (Some ProcessActive))
               else if ac_other_texts a then (touch now w, Handle)
               else (w, Stop (Some ProcessActive))
         | Callback c \<Rightarrow>
             if list_ex (\<lambda>p. starts_with p (cb_data c)) prefixes then (touch now w, Handle)
             else (w, Stop (Some ProcessActive))
         | _ \<Rightarrow> (w, Handle))"

text \<open>Step 2: the time limit (the timer restarts when the state changes), then the check that a
  match, chat or questionnaire state has a match behind it.\<close>

definition lock_timer :: "fsm \<Rightarrow> string \<Rightarrow> int option" where
  "lock_timer c s = (case (fsm_data c entered_key, fsm_data c tracked_key) of
     (Some (FInt e), Some (FStr t)) \<Rightarrow> if t = s then Some e else None | _ \<Rightarrow> None)"

definition start_timer :: "int \<Rightarrow> string \<Rightarrow> fsm \<times> mstore \<Rightarrow> fsm \<times> mstore" where
  "start_timer now s w =
     (update_data tracked_key (FStr s) (update_data entered_key (FInt now) (fst w)), snd w)"

definition heal_or_check ::
  "int \<Rightarrow> faults \<Rightarrow> db \<Rightarrow> string \<Rightarrow> event \<Rightarrow> fsm \<times> mstore \<Rightarrow> (fsm \<times> mstore) \<times> decision" where
  "heal_or_check now f d s ev w =
     (case map_option tu_id (sender ev) of
        Some tg \<Rightarrow>
          if s \<in> set REAL_MATCH_STATES then
            (case try_auto_heal f d tg w of
               (w', True) \<Rightarrow> (w', Handle)
             | (w', False) \<Rightarrow> check_allowed now s ev w')
          else check_allowed now s ev w
      | None \<Rightarrow> check_allowed now s ev w)"

definition is_force_exit :: "event \<Rightarrow> bool" where
  "is_force_exit ev = (case ev of Callback c \<Rightarrow> tc_data c = Some ''force_exit_state'' | _ \<Rightarrow> False)"

definition state_lock ::
  "int \<Rightarrow> faults \<Rightarrow> db \<Rightarrow> event \<Rightarrow> fsm \<times> mstore \<Rightarrow> (fsm \<times> mstore) \<times> decision" where
  "state_lock now f d event w =
     (case unwrap event of
        None \<Rightarrow> (w, Handle)
      | Some ev \<Rightarrow>
          if is_force_exit ev
          then (handle_force_exit f (tu_id (the (sender ev))) w, Stop (Some ExitDone))
          else (case fsm_state (fst w) of
                  None \<Rightarrow> (w, Handle)
                | Some s \<Rightarrow>
                    if s \<notin> set LOCKED_STATES then (w, Handle)
                    else (case lock_timer (fst w) s of
                            None \<Rightarrow> heal_or_check now f d s ev (start_timer now s w)
                          | Some e \<Rightarrow>
                              if now - e > LOCKED_STATE_TTL
                              then (expire_lock f (map_option tu_id (sender ev)) w, Handle)
                              else heal_or_check now f d s ev w)))"

section \<open>Properties\<close>

text \<open>Every locked state has its row, and only locked states have one.\<close>

lemma allowed_iff_locked: "map fst STATE_ALLOWED_ACTIONS = LOCKED_STATES"
  by (simp add: STATE_ALLOWED_ACTIONS_def LOCKED_STATES_def)

lemma queue_state_locked: "''MatchingStates:waiting_in_queue'' \<in> set LOCKED_STATES"
  "''MatchingStates:waiting_in_queue'' \<in> set REAL_MATCH_STATES"
  by (simp_all add: LOCKED_STATES_def REAL_MATCH_STATES_def)

lemma try_auto_heal_cases:
  obtains (healed) "try_auto_heal f d tg w = ((clear_fsm (set_state None (fst w)),
             drop_hash (redis_up f) tg (quit_queue (queue_up f) tg (snd w))), True)"
      "db_up f" "get_active_match tg d = None"
  | (kept) "try_auto_heal f d tg w = (w, False)" "db_up f \<longrightarrow> get_active_match tg d \<noteq> None"
  by (cases "db_up f"; cases "get_active_match tg d") (simp_all add: try_auto_heal_def)

text \<open>A menu button the state does not list stops in the check, and changes nothing.\<close>

lemma check_menu_button:
  assumes "tm_text m = Some t" and "t \<in> set REPLY_BTN_VALUES"
    and "t \<notin> set (ac_texts (actions_of s) @ GLOBAL_ALLOWED_TEXTS)" and "\<not> starts_with [47] t" and "t \<noteq> []"
  shows "check_allowed now s (Message m) w = (w, Stop (Some ProcessActive))"
  using assms by (simp add: check_allowed_def Let_def)

lemma check_keeps_fsm_state:
  "fsm_state (fst (fst (check_allowed now s ev w))) = fsm_state (fst w) \<and>
   snd (fst (check_allowed now s ev w)) = snd w"
  by (cases ev) (simp_all add: check_allowed_def Let_def touch_def)

text \<open>A user inside a dialogue does not leave it by the menu: a press of a menu button that
  the state does not list stops at the middleware, and the dialogue keeps its state, unless its
  time has run out, or it is a match state with no match behind it.\<close>

theorem menu_is_locked:
  assumes "fsm_state c = Some s" and "s \<in> set LOCKED_STATES"
    and "\<And>e. lock_timer c s = Some e \<Longrightarrow> now \<le> e + LOCKED_STATE_TTL"
    and "tm_text m = Some (btn b)" and "b \<in> fst ` set ReplyBtn"
    and "btn b \<notin> set (ac_texts (actions_of s) @ GLOBAL_ALLOWED_TEXTS)"
    and "s \<in> set REAL_MATCH_STATES \<Longrightarrow> tm_from m \<noteq> None \<Longrightarrow>
      get_active_match (tu_id (the (tm_from m))) d \<noteq> None"
  shows "\<exists>c'. state_lock now f d (Message m) (c, r) = ((c', r), Stop (Some ProcessActive)) \<and>
    fsm_state c' = Some s"
proof -
  have b: "btn b \<in> set REPLY_BTN_VALUES"
  proof -
    from assms(5) obtain t where "map_of ReplyBtn b = Some t"
      by (metis map_of_eq_None_iff not_None_eq)
    then show ?thesis by (force simp: btn_def REPLY_BTN_VALUES_def dest: map_of_SomeD)
  qed
  have "\<forall>t\<in>set REPLY_BTN_VALUES. t \<noteq> [] \<and> \<not> starts_with [47] t"
    by (simp add: REPLY_BTN_VALUES_def ReplyBtn_def starts_with_def)
  with b have t: "btn b \<noteq> []" "\<not> starts_with [47] (btn b)" by auto
  have chk: "heal_or_check now f d s (Message m) w = (w, Stop (Some ProcessActive))" for w
  proof -
    have "heal_or_check now f d s (Message m) w = check_allowed now s (Message m) w"
      using assms(7) by (auto simp: heal_or_check_def try_auto_heal_def split: option.split)
    with check_menu_button [OF assms(4) b assms(6) t(2,1)] show ?thesis by simp
  qed
  show ?thesis
  proof (cases "lock_timer c s")
    case None
    then show ?thesis
      using assms(1,2) by (simp add: state_lock_def is_force_exit_def chk start_timer_def)
  next
    case (Some e)
    with assms(3) have "\<not> now - e > LOCKED_STATE_TTL" by fastforce
    with Some show ?thesis using assms(1,2) by (simp add: state_lock_def is_force_exit_def chk)
  qed
qed

definition typing_bio :: fsm where
  "typing_bio = \<lparr>fsm_state = Some ''ProfileEditStates:editing_bio'', fsm_data = Map.empty\<rparr>"

definition says :: "int \<Rightarrow> ustr \<Rightarrow> tmessage" where
  "says tg t = \<lparr>tm_from = Some \<lparr>tu_id = tg, tu_is_bot = False\<rparr>, tm_text = Some t, tm_content = CText\<rparr>"

theorem menu_is_locked_witness:
  "\<exists>c'. state_lock 5 \<lparr>queue_up = True, redis_up = True, db_up = True\<rparr> empty_db
     (Message (says 1 (btn ''MY_PROFILE''))) (typing_bio, empty_store) =
     ((c', empty_store), Stop (Some ProcessActive)) \<and>
     fsm_state c' = Some ''ProfileEditStates:editing_bio''"
proof (rule menu_is_locked)
  show "btn ''MY_PROFILE'' \<notin> set (ac_texts (actions_of ''ProfileEditStates:editing_bio'') @ GLOBAL_ALLOWED_TEXTS)"
    by (simp add: btn_def ReplyBtn_def actions_of_def STATE_ALLOWED_ACTIONS_def actions_def GLOBAL_ALLOWED_TEXTS_def)
qed (simp_all add: typing_bio_def LOCKED_STATES_def lock_timer_def says_def ReplyBtn_def REAL_MATCH_STATES_def)

text \<open>No dialogue locks a user for ever: once a state has been tracked for longer than its
  limit with no allowed action, whatever the user sends next (a press of the exit button aside,
  which frees them too) reaches its handler, in no state and with no data.\<close>

theorem lock_expires:
  assumes "fsm_state c = Some s" and "lock_timer c s = Some e" and "now > e + LOCKED_STATE_TTL"
    and "unwrap ev \<noteq> None" and "s \<in> set LOCKED_STATES"
  shows "fsm_state (fst (fst (state_lock now f d ev (c, r)))) = None \<and>
    fsm_data (fst (fst (state_lock now f d ev (c, r)))) = Map.empty \<and>
    (\<not> is_force_exit (the (unwrap ev)) \<longrightarrow> snd (state_lock now f d ev (c, r)) = Handle)"
proof -
  have "now - e > LOCKED_STATE_TTL" using assms(3) by simp
  with assms show ?thesis
    by (auto simp: state_lock_def expire_lock_def handle_force_exit_def)
qed

definition stuck :: fsm where
  "stuck = update_data tracked_key (FStr ''ProfileEditStates:editing_bio'')
     (update_data entered_key (FInt 0) typing_bio)"

theorem lock_expires_witness:
  "snd (state_lock (16 * 60 * 1000000) \<lparr>queue_up = False, redis_up = False, db_up = True\<rparr> empty_db
     (Message (says 1 [98])) (stuck, empty_store)) = Handle"
proof -
  have t: "lock_timer stuck ''ProfileEditStates:editing_bio'' = Some 0"
    by (simp add: stuck_def lock_timer_def tracked_key_def entered_key_def)
  show ?thesis
    using lock_expires [of stuck _ 0, OF _ t, of "16 * 60 * 1000000" "Message (says 1 [98])"
        "\<lparr>queue_up = False, redis_up = False, db_up = True\<rparr>" empty_db empty_store]
    by (simp add: stuck_def typing_bio_def LOCKED_STATE_TTL_def LOCKED_STATES_def is_force_exit_def)
qed

text \<open>The lock of the search queue locks nothing: a user who waits there has no match yet,
  so any message or press of theirs clears their state and takes them out of the queue, and
  goes on to its handler.\<close>

theorem queue_lock_heals_everyone:
  assumes "fsm_state c = Some ''MatchingStates:waiting_in_queue''"
    and "lock_timer c ''MatchingStates:waiting_in_queue'' = Some e" and "now \<le> e + LOCKED_STATE_TTL"
    and "unwrap ev = Some ev'" and "\<not> is_force_exit ev'" and "sender ev' = Some u"
    and "get_active_match (tu_id u) d = None"
  shows "state_lock now \<lparr>queue_up = True, redis_up = True, db_up = True\<rparr> d ev (c, r) =
    ((clear_fsm c, del_state (tu_id u) (fst (remove_from_queue (tu_id u) r))), Handle)"
proof -
  have "\<not> now - e > LOCKED_STATE_TTL" using assms(3) by simp
  with assms(1,2,4-7) show ?thesis
    using queue_state_locked
    by (simp add: state_lock_def heal_or_check_def try_auto_heal_def drop_hash_def quit_queue_def
        set_state_def clear_fsm_def)
qed

definition in_queue :: fsm where
  "in_queue = update_data tracked_key (FStr ''MatchingStates:waiting_in_queue'')
     (update_data entered_key (FInt 0)
        \<lparr>fsm_state = Some ''MatchingStates:waiting_in_queue'', fsm_data = Map.empty\<rparr>)"

theorem queue_lock_heals_everyone_witness:
  "snd (state_lock 1 \<lparr>queue_up = True, redis_up = True, db_up = True\<rparr> empty_db
     (Message (says 1 (btn ''MY_PROFILE''))) (in_queue, empty_store)) = Handle"
  using queue_lock_heals_everyone [of in_queue 0 1 "Message (says 1 (btn ''MY_PROFILE''))" _
      "\<lparr>tu_id = 1, tu_is_bot = False\<rparr>" empty_db empty_store]
  by (simp add: in_queue_def lock_timer_def tracked_key_def entered_key_def LOCKED_STATE_TTL_def
      says_def is_force_exit_def get_active_match_def first_where_def empty_db_def empty_tbl_def)

text \<open>The states of a match are checked against the database only when they are locked; this
  one is not.\<close>

lemma waiting_to_start_unlocked:
  "''QuestionnaireStates:waiting_for_questions_to_start'' \<in> set REAL_MATCH_STATES - set LOCKED_STATES"
  by (simp add: REAL_MATCH_STATES_def LOCKED_STATES_def)

end
