(* ===== verification/Guards.thy ===== *)
theory Guards
  imports States Matching
begin

text \<open>
  The gates every update passes before its handler: the maintenance lock and its operators
  (\<open>bot/middlewares/system_guard.py\<close>), the two rate limiters
  (\<open>bot/middlewares/anti_spam.py\<close>), the chat annotation (\<open>direct_message_privacy.py\<close>) and
  the filters of \<open>bot/filters/custom.py\<close>.  A Redis key that expires is the instant of its
  expiry; \<open>up\<close> tells whether a call to Redis succeeds.  SHA-256 is a parameter.
\<close>

section \<open>Keys that expire\<close>

definition unexpired :: "int \<Rightarrow> int option \<Rightarrow> bool" where
  "unexpired now e = (case e of None \<Rightarrow> False | Some t \<Rightarrow> now < t)"

text \<open>\<open>SET key 1 NX EX ttl\<close>: set when absent; whether it was.\<close>

definition set_nx :: "int \<Rightarrow> int \<Rightarrow> 'k \<Rightarrow> ('k \<rightharpoonup> int) \<Rightarrow> ('k \<rightharpoonup> int) \<times> bool" where
  "set_nx now ttl k m = (if unexpired now (m k) then (m, False) else (m(k \<mapsto> now + ttl), True))"

section \<open>The maintenance lock\<close>

record guard =
  g_primary :: int
  g_secret :: string
  g_lock :: "int option"
  g_nodes :: "ustr set"

definition MAINTENANCE_LOCK_TTL :: int where
  "MAINTENANCE_LOCK_TTL = 3600"

definition is_authorized_node :: "bool \<Rightarrow> guard \<Rightarrow> int option \<Rightarrow> bool" where
  "is_authorized_node up g uid = (case uid of
     None \<Rightarrow> False
   | Some i \<Rightarrow> if i = 0 then False else if i = g_primary g then True
               else up \<and> py_str i \<in> g_nodes g)"

definition guard_command :: "event \<Rightarrow> bool" where
  "guard_command ev = (case ev of
     Message m \<Rightarrow> has_text m \<and> (starts_with (lit ''/sys_diag'') (the (tm_text m)) \<or>
       starts_with (lit ''/sys_node'') (the (tm_text m)))
   | Callback c \<Rightarrow> starts_with ''sys_confirm:'' (cb_data c) \<or> starts_with ''node_'' (cb_data c)
   | _ \<Rightarrow> False)"

definition system_guard :: "bool \<Rightarrow> bool \<Rightarrow> int \<Rightarrow> guard \<Rightarrow> event \<Rightarrow> decision" where
  "system_guard up_nodes up_lock now g ev =
     (let is_auth = is_authorized_node up_nodes g (map_option tu_id (sender ev))
      in if is_auth \<and> guard_command ev then Handle
         else if up_lock \<and> unexpired now (g_lock g) then
           (case ev of Message m \<Rightarrow> Stop (Some Maintenance) | Callback c \<Rightarrow> Stop (Some Maintenance)
            | _ \<Rightarrow> Stop None)
         else Handle)"

text \<open>\<open>str.split()\<close> and \<open>str.split(sep)\<close>.\<close>

fun split_ws :: "ustr \<Rightarrow> ustr \<Rightarrow> ustr list" where
  "split_ws cur [] = (if cur = [] then [] else [rev cur])"
| "split_ws cur (c # cs) =
     (if is_space c then (if cur = [] then split_ws [] cs else rev cur # split_ws [] cs)
      else split_ws (c # cur) cs)"

fun split_on :: "'a \<Rightarrow> 'a list \<Rightarrow> 'a list \<Rightarrow> 'a list list" where
  "split_on sep cur [] = [rev cur]"
| "split_on sep cur (c # cs) =
     (if c = sep then rev cur # split_on sep [] cs else split_on sep (c # cur) cs)"

text \<open>The panel: what it offers, when it opens.\<close>

datatype lock_action = Lock | Unlock

definition cmd_sys_diag ::
  "(ustr \<Rightarrow> string) \<Rightarrow> bool \<Rightarrow> bool \<Rightarrow> int \<Rightarrow> guard \<Rightarrow> tmessage \<Rightarrow> lock_action option" where
  "cmd_sys_diag sha up_nodes up_lock now g m =
     (if tm_from m = None \<or> \<not> is_authorized_node up_nodes g (map_option tu_id (tm_from m)) then None
      else let args = split_ws [] (case tm_text m of None \<Rightarrow> [] | Some t \<Rightarrow> t)
      in if length args \<noteq> 2 then None
         else if sha (args ! 1) \<noteq> g_secret g then None
         else Some (if up_lock \<and> unexpired now (g_lock g) then Unlock else Lock))"

datatype confirm_reply = AccessError | MalformedRequest | Cancelled | LockedNow | UnlockedNow
  | InvalidAction | ServerError

definition cq_sys_confirm ::
  "bool \<Rightarrow> bool \<Rightarrow> int \<Rightarrow> tcallback \<Rightarrow> guard \<Rightarrow> guard \<times> confirm_reply" where
  "cq_sys_confirm up_nodes up now c g =
     (if \<not> is_authorized_node up_nodes g (Some (tu_id (tc_from c))) then (g, AccessError)
      else let parts = split_on CHR '':'' [] (cb_data c)
      in if length parts < 2 \<or> parts ! 1 = [] then (g, MalformedRequest)
         else if parts ! 1 = ''cancel'' then (g, Cancelled)
         else if parts ! 1 = ''lock'' then
           (if up then (g\<lparr>g_lock := Some (now + MAINTENANCE_LOCK_TTL)\<rparr>, LockedNow) else (g, ServerError))
         else if parts ! 1 = ''unlock'' then
           (if up then (g\<lparr>g_lock := None\<rparr>, UnlockedNow) else (g, ServerError))
         else (g, InvalidAction))"

text \<open>Who may operate the lock.\<close>

datatype node_reply = Silent | Usage | NodeList "ustr set" | BadUid | IsMaster | NodeAdded
  | MasterKept | NodeRemoved | NotANode | BadNodeAction | NodeError

definition lower_ascii :: "ustr \<Rightarrow> ustr" where
  "lower_ascii = map (\<lambda>c. if 65 \<le> c \<and> c \<le> 90 then c + 32 else c)"

definition cmd_sys_node ::
  "(ustr \<Rightarrow> string) \<Rightarrow> bool \<Rightarrow> bool \<Rightarrow> tmessage \<Rightarrow> guard \<Rightarrow> guard \<times> node_reply" where
  "cmd_sys_node sha up_nodes up m g =
     (if tm_from m = None \<or> \<not> is_authorized_node up_nodes g (map_option tu_id (tm_from m)) then (g, Silent)
      else let args = split_ws [] (case tm_text m of None \<Rightarrow> [] | Some t \<Rightarrow> t)
      in if length args < 3 then (g, Usage)
      else if sha (args ! 1) \<noteq> g_secret g then (g, Silent)
      else let action = lower_ascii (args ! 2)
      in if action = lit ''list'' then (if up then (g, NodeList (g_nodes g)) else (g, NodeError))
      else if length args \<noteq> 4 \<or> \<not> isdigit (args ! 3) then (g, BadUid)
      else let target_uid = args ! 3
      in if action = lit ''add'' then
           (case py_int target_uid of
              None \<Rightarrow> (g, NodeError)
            | Some i \<Rightarrow> if i = g_primary g then (g, IsMaster)
                else if up then (g\<lparr>g_nodes := insert target_uid (g_nodes g)\<rparr>, NodeAdded)
                else (g, NodeError))
         else if action \<in> {lit ''del'', lit ''remove'', lit ''rm''} then
           (case py_int target_uid of
              None \<Rightarrow> (g, NodeError)
            | Some i \<Rightarrow> if i = g_primary g then (g, MasterKept)
                else if \<not> up then (g, NodeError)
                else if target_uid \<in> g_nodes g
                then (g\<lparr>g_nodes := g_nodes g - {target_uid}\<rparr>, NodeRemoved)
                else (g, NotANode))
         else (g, BadNodeAction))"

section \<open>Rate limiters\<close>

text \<open>One key per user and kind of update, in milliseconds; one key per liking user, in
  seconds.\<close>

type_synonym throttles = "int \<times> string \<rightharpoonup> int"
type_synonym likes_limit = "int \<rightharpoonup> int"

definition system_message :: "tmessage \<Rightarrow> bool" where
  "system_message m \<longleftrightarrow> tm_content m \<in> {CPinned, CNewMembers, CLeftMember}"

text \<open>The kind an update is counted under; \<open>None\<close> when it is not counted at all.\<close>

fun event_type :: "event \<Rightarrow> string option" where
  "event_type (UpdMessage m) = (if system_message m then None else Some ''message'')"
| "event_type (UpdCallback c) = Some ''callback''"
| "event_type (UpdMyChatMember u) = None"
| "event_type (UpdEdited m) = Some ''edited_message''"
| "event_type (UpdOther u) = Some ''unknown''"
| "event_type (Message m) = (if system_message m then None else Some ''message'')"
| "event_type (Callback c) = Some ''callback''"
| "event_type (OtherEvent u) = Some ''message''"

definition throttle_notice :: "event \<Rightarrow> gate_notice option" where
  "throttle_notice ev = (case ev of
     UpdCallback c \<Rightarrow> Some SlowDown | Callback c \<Rightarrow> Some SlowDown
   | UpdMessage m \<Rightarrow> Some SlowDown | Message m \<Rightarrow> Some SlowDown | _ \<Rightarrow> None)"

definition throttle_key :: "event \<Rightarrow> (int \<times> string) option" where
  "throttle_key ev = (case sender ev of
     None \<Rightarrow> None
   | Some u \<Rightarrow> if tu_is_bot u then None else map_option (\<lambda>t. (tu_id u, t)) (event_type ev))"

definition throttling :: "bool \<Rightarrow> int \<Rightarrow> int \<Rightarrow> event \<Rightarrow> throttles \<Rightarrow> throttles \<times> decision" where
  "throttling up limit_ms now ev s = (case throttle_key ev of
     None \<Rightarrow> (s, Handle)
   | Some k \<Rightarrow> if \<not> up then (s, Handle)
       else (case set_nx now limit_ms k s of
               (s', True) \<Rightarrow> (s', Handle)
             | (s', False) \<Rightarrow> (s', Stop (throttle_notice ev))))"

definition liker_key :: "event \<Rightarrow> int option" where
  "liker_key ev = (case ev of
     Callback c \<Rightarrow> if starts_with ''like_user_'' (cb_data c) then Some (tu_id (tc_from c)) else None
   | _ \<Rightarrow> None)"

definition like_rate_limit :: "bool \<Rightarrow> int \<Rightarrow> int \<Rightarrow> event \<Rightarrow> likes_limit \<Rightarrow> likes_limit \<times> decision" where
  "like_rate_limit up cooldown now ev s = (case liker_key ev of
     None \<Rightarrow> (s, Handle)
   | Some k \<Rightarrow> if \<not> up then (s, Handle)
       else (case set_nx now cooldown k s of
               (s', True) \<Rightarrow> (s', Handle)
             | (s', False) \<Rightarrow> (s', Stop (Some LikeLimit))))"

section \<open>Chat annotation and filters\<close>

definition chat_status :: "ustate \<Rightarrow> bool" where
  "chat_status u \<longleftrightarrow> us_status u = Some Chatting \<or> us_status u = Some Matched"

text \<open>What the handlers find in their data: whether the user is in a chat, and with whom.\<close>

definition dm_privacy :: "bool \<Rightarrow> int \<Rightarrow> mstore \<Rightarrow> bool \<times> int option" where
  "dm_privacy up tg r = (case (if up then ms_state r tg else None) of
     None \<Rightarrow> (False, None)
   | Some u \<Rightarrow> if chat_status u \<and> us_matched_with u \<noteq> None then (True, us_matched_with u)
               else (False, None))"

definition is_user_in_active_chat :: "bool \<Rightarrow> int \<Rightarrow> mstore \<Rightarrow> bool" where
  "is_user_in_active_chat up tg r = (case (if up then ms_state r tg else None) of
     None \<Rightarrow> False | Some u \<Rightarrow> chat_status u)"

definition get_active_chat_partner :: "bool \<Rightarrow> int \<Rightarrow> mstore \<Rightarrow> int option" where
  "get_active_chat_partner up tg r = (case (if up then ms_state r tg else None) of
     None \<Rightarrow> None | Some u \<Rightarrow> if chat_status u then us_matched_with u else None)"

definition chat_active_filter :: "bool \<Rightarrow> int option \<Rightarrow> mstore \<Rightarrow> bool" where
  "chat_active_filter up tg r = (case tg of
     None \<Rightarrow> False
   | Some i \<Rightarrow> (case (if up then ms_state r i else None) of None \<Rightarrow> False | Some u \<Rightarrow> chat_status u))"

text \<open>\<open>settings.parsed_admin_ids\<close>: one entry that is no number empties the list.\<close>

definition parsed_admin_ids :: "ustr \<Rightarrow> int list" where
  "parsed_admin_ids s = (let ids = map (\<lambda>x. py_int (strip x)) (filter (\<lambda>x. strip x \<noteq> []) (split_on 44 [] s))
     in if None \<in> set ids then [] else map the ids)"

definition is_admin_filter :: "ustr \<Rightarrow> tuser option \<Rightarrow> bool" where
  "is_admin_filter setting u = (case u of None \<Rightarrow> False | Some t \<Rightarrow> tu_id t \<in> set (parsed_admin_ids setting))"

section \<open>A key that expires limits a rate\<close>

text \<open>When a key's updates go through in a run of timed updates.\<close>

fun accepted :: "(int \<Rightarrow> 'e \<Rightarrow> 's \<Rightarrow> 's \<times> decision) \<Rightarrow> ('e \<Rightarrow> 'k option) \<Rightarrow> 'k \<Rightarrow>
    (int \<times> 'e) list \<Rightarrow> 's \<Rightarrow> int list" where
  "accepted step key k [] s = []"
| "accepted step key k ((t, e) # es) s =
     (if key e = Some k \<and> snd (step t e s) = Handle then [t] else []) @
     accepted step key k es (fst (step t e s))"

text \<open>What the two limiters promise: an update with no key passes and is not counted, one with a
  key passes exactly when it sets the key.\<close>

locale rate_limiter =
  fixes step :: "int \<Rightarrow> 'e \<Rightarrow> ('k \<rightharpoonup> int) \<Rightarrow> ('k \<rightharpoonup> int) \<times> decision"
    and key :: "'e \<Rightarrow> 'k option"
    and window :: int
  assumes uncounted: "key e = None \<Longrightarrow> step now e s = (s, Handle)"
    and counted: "key e = Some k \<Longrightarrow> fst (step now e s) = fst (set_nx now window k s) \<and>
      (snd (step now e s) = Handle \<longleftrightarrow> snd (set_nx now window k s))"
    and window: "0 \<le> window"
begin

lemma other_key: "key e \<noteq> Some k \<Longrightarrow> fst (step now e s) k = s k"
  by (cases "key e") (use counted in \<open>auto simp: uncounted set_nx_def\<close>)

lemma blocked_or_set:
  assumes "key e = Some k"
  shows "if unexpired now (s k) then step now e s = (s, snd (step now e s)) \<and> snd (step now e s) \<noteq> Handle
    else fst (step now e s) k = Some (now + window) \<and> snd (step now e s) = Handle"
  using counted [OF assms, of now s] by (auto simp: set_nx_def prod_eq_iff)

lemma accepted_late:
  "s k = Some t \<Longrightarrow> a \<in> set (accepted step key k es s) \<Longrightarrow> t \<le> a"
proof (induction es arbitrary: s t)
  case (Cons te es)
  obtain now e where te: "te = (now, e)" by (cases te)
  show ?case
  proof (cases "key e = Some k")
    case False
    with Cons.IH [of "fst (step now e s)" t] Cons.prems te show ?thesis
      by (simp add: other_key)
  next
    case True
    show ?thesis
    proof (cases "unexpired now (s k)")
      case True
      with blocked_or_set [OF \<open>key e = Some k\<close>, of now s] Cons te show ?thesis
        by (auto simp: prod_eq_iff)
    next
      case False
      with Cons.prems(1) have t: "t \<le> now" by (simp add: unexpired_def)
      from False blocked_or_set [OF \<open>key e = Some k\<close>, of now s]
      have s: "fst (step now e s) k = Some (now + window)" by simp
      from Cons.prems(2) te consider "a = now" | "a \<in> set (accepted step key k es (fst (step now e s)))"
        by (auto split: if_splits)
      then show ?thesis
      proof cases
        case 2
        from Cons.IH [OF s 2] t window show ?thesis by simp
      qed (use t in simp)
    qed
  qed
qed simp

lemma accepted_spaced: "sorted_wrt (\<lambda>a b. a + window \<le> b) (accepted step key k es s)"
proof (induction es arbitrary: s)
  case (Cons te es)
  obtain now e where te: "te = (now, e)" by (cases te)
  show ?case
  proof (cases "key e = Some k \<and> snd (step now e s) = Handle")
    case True
    with blocked_or_set [of e k now s] have "fst (step now e s) k = Some (now + window)"
      by (auto split: if_splits)
    from accepted_late [of "fst (step now e s)" k, OF this] True Cons show ?thesis by (simp add: te)
  next
    case False
    with Cons show ?thesis by (auto simp: te)
  qed
qed simp

lemma first_accepted: "key e = Some k \<Longrightarrow> \<not> unexpired now (s k) \<Longrightarrow> snd (step now e s) = Handle"
  using blocked_or_set [of e k now s] by simp

end

interpretation likes: rate_limiter "like_rate_limit True (int n)" liker_key "int n" for n
  by unfold_locales (auto simp: like_rate_limit_def set_nx_def split: if_splits)

interpretation throttle: rate_limiter "throttling True (int n)" throttle_key "int n" for n
  by unfold_locales (auto simp: throttling_def set_nx_def split: if_splits)

section \<open>Properties\<close>

text \<open>Likes are rationed: in any run of presses, in any order and from any keys left over,
  two likes of one user that go through are at least the cooldown apart.\<close>

theorem likes_spaced:
  assumes "0 \<le> cooldown"
  shows "sorted_wrt (\<lambda>a b. a + cooldown \<le> b) (accepted (like_rate_limit True cooldown) liker_key k es s)"
  using likes.accepted_spaced [of "nat cooldown" k es s] assms by simp

definition like_press :: event where
  "like_press = Callback \<lparr>tc_from = \<lparr>tu_id = 7, tu_is_bot = False\<rparr>, tc_data = Some ''like_user_3''\<rparr>"

theorem likes_spaced_witness:
  "accepted (like_rate_limit True 60) liker_key 7 [(0, like_press), (30, like_press), (61, like_press)]
     Map.empty = [0, 61] \<and> sorted_wrt (\<lambda>a b. a + 60 \<le> b) [0, 61 :: int]"
proof -
  have a: "accepted (like_rate_limit True 60) liker_key 7 [(0, like_press), (30, like_press), (61, like_press)]
     Map.empty = [0, 61]"
    by (simp add: like_rate_limit_def liker_key_def like_press_def starts_with_def cb_data_def set_nx_def unexpired_def)
  with likes_spaced [of 60 7 "[(0, like_press), (30, like_press), (61, like_press)]" Map.empty]
  show ?thesis by simp
qed

text \<open>No flood: two updates of one kind of one user that are not stopped are at least the
  limit apart, and an update is stopped only while the one before still counts.\<close>

theorem throttling_spaced:
  assumes "0 \<le> limit_ms"
  shows "sorted_wrt (\<lambda>a b. a + limit_ms \<le> b) (accepted (throttling True limit_ms) throttle_key k es s) \<and>
    (\<forall>now e. throttle_key e = Some k \<and> \<not> unexpired now (s k) \<longrightarrow> snd (throttling True limit_ms now e s) = Handle)"
  using throttle.accepted_spaced [of "nat limit_ms" k es s] throttle.first_accepted [of _ k _ s "nat limit_ms"] assms
  by auto

theorem throttling_spaced_witness:
  "sorted_wrt (\<lambda>a b. a + 600 \<le> b) (accepted (throttling True 600) throttle_key (7, ''callback'')
     [(0, like_press), (30, like_press), (900, like_press)] Map.empty)"
  by (rule throttling_spaced [THEN conjunct1]) simp

text \<open>In maintenance nothing gets through but the guard's own commands from an authorised
  operator.\<close>

theorem maintenance_blocks:
  assumes "unexpired now (g_lock g)"
  shows "system_guard up_nodes True now g ev = Handle \<longleftrightarrow>
    is_authorized_node up_nodes g (map_option tu_id (sender ev)) \<and> guard_command ev"
  using assms by (auto simp: system_guard_def Let_def split: event.split)

definition locked_guard :: guard where
  "locked_guard = \<lparr>g_primary = 9, g_secret = ''h'', g_lock = Some 3600, g_nodes = {}\<rparr>"

theorem maintenance_blocks_witness:
  "system_guard True True 100 locked_guard like_press = Stop (Some Maintenance)"
proof -
  have "\<not> guard_command like_press"
    by (simp add: guard_command_def like_press_def cb_data_def starts_with_def)
  then have "system_guard True True 100 locked_guard like_press \<noteq> Handle"
    using maintenance_blocks [of 100 locked_guard True like_press]
    by (simp add: locked_guard_def unexpired_def)
  then show ?thesis by (simp add: system_guard_def Let_def like_press_def split: if_splits)
qed

text \<open>Maintenance always ends: whatever an operator confirms, from an hour later on every
  update passes; and an operator's unlock, which passes the guard even while locked, opens at
  once.\<close>

theorem maintenance_ends:
  assumes "g_lock g = None \<or> (\<exists>e. g_lock g = Some e \<and> e \<le> now + MAINTENANCE_LOCK_TTL)"
    and "later \<ge> now + MAINTENANCE_LOCK_TTL"
  shows "system_guard up1 up2 later (fst (cq_sys_confirm upn upc now c g)) ev = Handle \<and>
    (is_authorized_node True g (Some (tu_id (tc_from c))) \<and> tc_data c = Some ''sys_confirm:unlock'' \<longrightarrow>
       system_guard True True now g (Callback c) = Handle \<and>
       system_guard up1 up2 now (fst (cq_sys_confirm True True now c g)) ev = Handle)"
proof
  have "\<not> unexpired later (g_lock (fst (cq_sys_confirm upn upc now c g)))"
    using assms by (auto simp: cq_sys_confirm_def Let_def unexpired_def MAINTENANCE_LOCK_TTL_def)
  then show "system_guard up1 up2 later (fst (cq_sys_confirm upn upc now c g)) ev = Handle"
    by (simp add: system_guard_def Let_def)
  show "is_authorized_node True g (Some (tu_id (tc_from c))) \<and> tc_data c = Some ''sys_confirm:unlock'' \<longrightarrow>
       system_guard True True now g (Callback c) = Handle \<and>
       system_guard up1 up2 now (fst (cq_sys_confirm True True now c g)) ev = Handle"
    by (simp add: system_guard_def guard_command_def cb_data_def starts_with_def cq_sys_confirm_def unexpired_def)
qed

theorem maintenance_ends_witness:
  "system_guard True True 9000 (fst (cq_sys_confirm True True 100
     \<lparr>tc_from = \<lparr>tu_id = 9, tu_is_bot = False\<rparr>, tc_data = Some ''sys_confirm:lock''\<rparr> locked_guard)) like_press = Handle"
  using maintenance_ends [of locked_guard 100 9000 True True True True _ like_press]
  by (simp add: locked_guard_def MAINTENANCE_LOCK_TTL_def)

text \<open>Only an operator who knows the secret changes who the operators are; the primary stays
  one; and with no secret configured nobody can, nor opens the panel.\<close>

theorem nodes_guarded:
  assumes "\<And>s. sha s \<noteq> []"
  shows "(fst (cmd_sys_node sha upn up m g) \<noteq> g \<longrightarrow>
      is_authorized_node upn g (map_option tu_id (tm_from m)) \<and>
      (\<exists>w \<in> set (split_ws [] (the (tm_text m))). sha w = g_secret g) \<and> g_secret g \<noteq> []) \<and>
    g_primary (fst (cmd_sys_node sha upn up m g)) = g_primary g \<and>
    (g_secret g = [] \<longrightarrow> cmd_sys_diag sha upn up now g m = None)"
proof -
  let ?args = "split_ws [] (case tm_text m of None \<Rightarrow> [] | Some t \<Rightarrow> t)"
  have d: "g_secret g = [] \<longrightarrow> cmd_sys_diag sha upn up now g m = None"
    using assms by (simp add: cmd_sys_diag_def Let_def)
  have p: "g_primary (fst (cmd_sys_node sha upn up m g)) = g_primary g"
    by (simp add: cmd_sys_node_def Let_def split: option.split)
  have "is_authorized_node upn g (map_option tu_id (tm_from m)) \<and> \<not> length ?args < 3 \<and>
      sha (?args ! 1) = g_secret g" if "fst (cmd_sys_node sha upn up m g) \<noteq> g"
    using that by (rule contrapos_np) (auto simp: cmd_sys_node_def Let_def)
  moreover have "\<not> length ?args < 3 \<longrightarrow> ?args ! 1 \<in> set (split_ws [] (the (tm_text m)))"
    by (cases "tm_text m") simp_all
  ultimately show ?thesis using d p assms by metis
qed

theorem nodes_guarded_witness:
  "cmd_sys_diag (\<lambda>s. ''x'') True True 0 (locked_guard\<lparr>g_secret := []\<rparr>)
     \<lparr>tm_from = Some \<lparr>tu_id = 9, tu_is_bot = False\<rparr>, tm_text = Some (lit ''/sys_diag p''), tm_content = CText\<rparr> = None"
  using nodes_guarded [of "\<lambda>s. ''x''" True True _ "locked_guard\<lparr>g_secret := []\<rparr>" 0] by simp

text \<open>An operator added by a number that is not written the way Python writes it, in Persian
  digits or with a leading zero, is reported as added and is not one.\<close>

theorem node_added_without_effect:
  assumes "tm_from m = Some u" and "tu_id u = g_primary g" and "tu_id u \<noteq> 0"
    and "split_ws [] (the (tm_text m)) = [c, p, lit ''add'', t]" and "tm_text m \<noteq> None"
    and "sha p = g_secret g" and "isdigit t" and "py_int t = Some i" and "t \<noteq> py_str i"
    and "i \<noteq> g_primary g" and "py_str i \<notin> g_nodes g"
  shows "snd (cmd_sys_node sha True True m g) = NodeAdded \<and>
    \<not> is_authorized_node True (fst (cmd_sys_node sha True True m g)) (Some i)"
proof -
  have l: "lower_ascii (lit ''add'') = lit ''add''" "lit ''add'' \<noteq> lit ''list''"
    by (simp_all add: lower_ascii_def lit_def)
  have "cmd_sys_node sha True True m g = (g\<lparr>g_nodes := insert t (g_nodes g)\<rparr>, NodeAdded)"
    using assms l by (auto simp: cmd_sys_node_def Let_def is_authorized_node_def)
  with assms show ?thesis by (auto simp: is_authorized_node_def)
qed

theorem node_added_without_effect_witness:
  "snd (cmd_sys_node (\<lambda>s. ''h'') True True
     \<lparr>tm_from = Some \<lparr>tu_id = 9, tu_is_bot = False\<rparr>, tm_text = Some (lit ''/sys_node p add 007''),
      tm_content = CText\<rparr> locked_guard) = NodeAdded"
proof (rule node_added_without_effect [of _ "\<lparr>tu_id = 9, tu_is_bot = False\<rparr>", THEN conjunct1])
  show "split_ws [] (the (tm_text \<lparr>tm_from = Some \<lparr>tu_id = 9, tu_is_bot = False\<rparr>,
      tm_text = Some (lit ''/sys_node p add 007''), tm_content = CText\<rparr>)) =
      [lit ''/sys_node'', lit ''p'', lit ''add'', lit ''007'']"
    by (simp add: lit_def is_space_def)
  have d: "lit ''007'' = [48, 48, 55]" "digit_val 48 = Some 0" "digit_val 55 = Some 7"
    using digit_val_ascii [of 0] digit_val_ascii [of 7] by (simp_all add: lit_def)
  then show "isdigit (lit ''007'')"
    by (simp add: isdigit_def is_digit_char_def)
  show "py_int (lit ''007'') = Some 7"
    using d by (simp add: py_int_def Texts.strip_def is_space_def)
  show "lit ''007'' \<noteq> py_str 7"
    by (simp add: py_str_def nat_str.simps lit_def)
qed (simp_all add: locked_guard_def)

end
