(* ===== verification/ForceJoin.thy ===== *)
theory ForceJoin
  imports Guards Matches
begin

text \<open>
  \<open>bot/middlewares/force_join.py\<close>: an update of a user who is not in every sponsor channel is
  stopped.  Redis keys that expire hold their expiry, in seconds; \<open>up\<close> tells whether Redis
  answers during the update (the dialogue contexts are in Redis too); \<open>None\<close> for the database
  is no session, or one that fails.  The prompt is taken to be delivered.  Telegram's \<open>get_chat_member\<close> is the parameter \<open>member_of\<close>
  (\<open>None\<close> when the call fails).
\<close>

record fj_store =
  fj_banned :: "int set"
  fj_pending_ref :: "int \<rightharpoonup> ustr \<times> int"
  fj_pending_anon :: "int \<rightharpoonup> ustr \<times> int"
  fj_sponsors :: "(ustr \<times> ustr) list"
  fj_version :: "ustr option"
  fj_joined :: "int \<times> ustr \<rightharpoonup> int"
  fj_bad :: "ustr \<rightharpoonup> int"
  fj_prompted :: "int \<rightharpoonup> int"

record fj_settings =
  st_admin_ids :: ustr
  st_required_channel :: ustr
  st_invite_link :: ustr

definition ALLOWED_STATUSES :: "string list" where
  "ALLOWED_STATUSES = [''creator'', ''administrator'', ''member'', ''restricted'']"

definition PROMPT_COOLDOWN :: int where
  "PROMPT_COOLDOWN = 20"

text \<open>The links a new user comes by are remembered for an hour.\<close>

definition after_underscore :: "ustr \<Rightarrow> ustr" where
  "after_underscore t = tl (dropWhile (\<lambda>c. c \<noteq> 95) t)"

definition is_anon_link :: "event \<Rightarrow> bool" where
  "is_anon_link ev = (case ev of
     Message m \<Rightarrow> has_text m \<and> \<not> starts_with (lit ''/start ref_'') (the (tm_text m)) \<and>
       starts_with (lit ''/start anon_'') (the (tm_text m))
   | _ \<Rightarrow> False)"

definition capture_link :: "bool \<Rightarrow> int \<Rightarrow> int \<Rightarrow> event \<Rightarrow> fj_store \<Rightarrow> fj_store" where
  "capture_link up now uid ev s = (case ev of
     Message m \<Rightarrow>
       if \<not> up \<or> \<not> has_text m then s
       else let t = the (tm_text m) in
         if starts_with (lit ''/start ref_'') t
         then s\<lparr>fj_pending_ref := (fj_pending_ref s)(uid \<mapsto> (after_underscore t, now + 3600))\<rparr>
         else if starts_with (lit ''/start anon_'') t
         then s\<lparr>fj_pending_anon := (fj_pending_anon s)(uid \<mapsto> (after_underscore t, now + 3600))\<rparr>
         else s
   | _ \<Rightarrow> s)"

text \<open>A user whose dialogue or Redis status is a match and who has one in the database, and a
  user typing an anonymous message, are let through.\<close>

definition contains :: "string \<Rightarrow> string \<Rightarrow> bool" where
  "contains p s \<longleftrightarrow> (\<exists>i\<in>set [0..<Suc (length s)]. starts_with p (drop i s))"

definition pipeline_state :: "string option \<Rightarrow> bool" where
  "pipeline_state s = (case s of
     None \<Rightarrow> False
   | Some n \<Rightarrow> n \<noteq> [] \<and> list_ex (\<lambda>p. contains p (map lower_char n))
       [''chat'', ''matching'', ''questionnaire''])"

definition typing_anonymous :: "string option \<Rightarrow> bool" where
  "typing_anonymous s = (case s of
     None \<Rightarrow> False
   | Some n \<Rightarrow> n \<noteq> [] \<and> \<not> pipeline_state s \<and> contains ''anonymouslinkstates'' (map lower_char n))"

definition busy_status :: "ustate \<Rightarrow> bool" where
  "busy_status u \<longleftrightarrow> us_status u \<in> {Some Matched, Some Chatting, Some InChat, Some InDate}"

definition pipeline_bypass ::
  "bool \<Rightarrow> db option \<Rightarrow> mstore \<Rightarrow> fsm option \<Rightarrow> int \<Rightarrow> bool" where
  "pipeline_bypass up d r c uid =
     (let st = (case c of None \<Rightarrow> None | Some f \<Rightarrow> fsm_state f)
      in if \<not> up then False
         else if typing_anonymous st then True
         else if pipeline_state st \<or> (case ms_state r uid of None \<Rightarrow> False | Some u \<Rightarrow> busy_status u)
         then (case d of None \<Rightarrow> False | Some db' \<Rightarrow> get_active_match uid db' \<noteq> None)
         else False)"

text \<open>The sponsors of the moment, and what Telegram says of the user in each.\<close>

definition current_sponsors :: "bool \<Rightarrow> fj_settings \<Rightarrow> fj_store \<Rightarrow> (ustr \<times> ustr) list" where
  "current_sponsors up cfg s =
     (let sp = (if up then fj_sponsors s else []); ch = st_required_channel cfg
      in if ch \<noteq> [] \<and> ch \<notin> fst ` set sp then sp @ [(ch, st_invite_link cfg)] else sp)"

datatype membership = Joined | Missing | Broken

text \<open>The key a failing channel is remembered under: its number written by Python, or its name.\<close>

definition channel_key :: "ustr \<Rightarrow> ustr" where
  "channel_key ch = (case py_int ch of None \<Rightarrow> ch | Some i \<Rightarrow> py_str i)"

definition check_one ::
  "(ustr \<Rightarrow> string option) \<Rightarrow> bool \<Rightarrow> int \<Rightarrow> fj_store \<Rightarrow> ustr \<Rightarrow> membership" where
  "check_one member_of up now s ch =
     (if up \<and> unexpired now (fj_bad s ch) then Broken
      else case member_of (channel_key ch) of
             None \<Rightarrow> Broken
           | Some status \<Rightarrow> if status \<in> set ALLOWED_STATUSES then Joined else Missing)"

definition note_broken ::
  "(ustr \<Rightarrow> string option) \<Rightarrow> bool \<Rightarrow> int \<Rightarrow> (ustr \<times> ustr) list \<Rightarrow> fj_store \<Rightarrow> fj_store" where
  "note_broken member_of up now sps s =
     (if \<not> up then s
      else s\<lparr>fj_bad := (\<lambda>k. if list_ex (\<lambda>(ch, link). channel_key ch = k \<and> \<not> unexpired now (fj_bad s ch) \<and>
               member_of (channel_key ch) = None) sps then Some (now + 900) else fj_bad s k)\<rparr>)"

definition sponsors_version :: "bool \<Rightarrow> fj_store \<Rightarrow> ustr" where
  "sponsors_version up s = (case (if up then fj_version s else None) of
     None \<Rightarrow> [48] | Some v \<Rightarrow> if v = [] then [48] else v)"

text \<open>The unexpired check and what it leaves: the cache of a user who is in every channel, the prompt
  of one who is not.  Without Redis the prompt raises: the update is lost, with no notice.\<close>

definition live_check ::
  "(ustr \<Rightarrow> string option) \<Rightarrow> bool \<Rightarrow> int \<Rightarrow> int \<Rightarrow> event \<Rightarrow> (ustr \<times> ustr) list \<Rightarrow> fj_store \<Rightarrow>
     fj_store \<times> decision" where
  "live_check member_of up now uid ev sps s =
     (let res = map (\<lambda>(ch, link). check_one member_of up now s ch) sps;
          s1 = note_broken member_of up now sps s
      in if Broken \<in> set res \<and> list_all (\<lambda>x. x = Broken) res then (s1, Handle)
         else if Missing \<notin> set res then
           (if up then s1\<lparr>fj_joined := (fj_joined s1)((uid, sponsors_version up s) \<mapsto> now + 300)\<rparr> else s1,
            Handle)
         else (if up \<and> \<not> unexpired now (fj_prompted s uid)
               then s1\<lparr>fj_prompted := (fj_prompted s1)(uid \<mapsto> now + PROMPT_COOLDOWN)\<rparr> else s1,
               Stop (if up \<and> (\<not> unexpired now (fj_prompted s uid) \<or> (case ev of Callback _ \<Rightarrow> True | _ \<Rightarrow> False))
                     then Some JoinChannels else None)))"

definition force_join ::
  "fj_settings \<Rightarrow> (ustr \<Rightarrow> string option) \<Rightarrow> bool \<Rightarrow> db option \<Rightarrow> mstore \<Rightarrow> fsm option \<Rightarrow> int \<Rightarrow>
     event \<Rightarrow> fj_store \<Rightarrow> fj_store \<times> decision" where
  "force_join cfg member_of up d r c now ev s =
     (case sender ev of
        None \<Rightarrow> (s, Handle)
      | Some u \<Rightarrow>
          let uid = tu_id u in
          if up \<and> uid \<in> fj_banned s then
            (s, Stop (case ev of Callback _ \<Rightarrow> Some BannedNotice | _ \<Rightarrow> None))
          else let s1 = capture_link up now uid ev s in
          if is_anon_link ev then (s1, Handle)
          else if uid \<in> set (parsed_admin_ids (st_admin_ids cfg)) then (s1, Handle)
          else if (case ev of Callback cb \<Rightarrow> tc_data cb = Some ''check_membership'' | _ \<Rightarrow> False)
          then (s1, Handle)
          else if pipeline_bypass up d r c uid then (s1, Handle)
          else let sps = current_sponsors up cfg s1 in
          if sps = [] then (s1, Handle)
          else if up \<and> unexpired now (fj_joined s1 (uid, sponsors_version up s1)) then (s1, Handle)
          else live_check member_of up now uid ev sps s1)"

text \<open>A user who leaves a channel, or is removed from it, loses every cached entry.\<close>

definition on_chat_member_updated :: "string \<Rightarrow> bool \<Rightarrow> int \<Rightarrow> fj_store \<Rightarrow> fj_store" where
  "on_chat_member_updated new_status is_member uid s =
     (if new_status \<notin> {''left'', ''kicked''} \<and> (new_status \<noteq> ''restricted'' \<or> is_member) then s
      else if uid = 0 then s
      else s\<lparr>fj_joined := (\<lambda>(i, v). if i = uid then None else fj_joined s (i, v))\<rparr>)"

section \<open>Properties\<close>

text \<open>What lets a user through without a check.\<close>

definition exempt ::
  "fj_settings \<Rightarrow> bool \<Rightarrow> db option \<Rightarrow> mstore \<Rightarrow> fsm option \<Rightarrow> event \<Rightarrow> int \<Rightarrow> bool" where
  "exempt cfg up d r c ev uid \<longleftrightarrow> is_anon_link ev \<or> uid \<in> set (parsed_admin_ids (st_admin_ids cfg)) \<or>
     (\<exists>cb. ev = Callback cb \<and> tc_data cb = Some ''check_membership'') \<or> pipeline_bypass up d r c uid"

lemma capture_frames [simp]:
  "fj_joined (capture_link up now uid ev s) = fj_joined s" "fj_bad (capture_link up now uid ev s) = fj_bad s"
  "fj_sponsors (capture_link up now uid ev s) = fj_sponsors s" "fj_version (capture_link up now uid ev s) = fj_version s"
  "fj_banned (capture_link up now uid ev s) = fj_banned s"
  by (cases ev; simp add: capture_link_def Let_def)+

lemma capture_derived [simp]:
  "current_sponsors up cfg (capture_link up' now uid ev s) = current_sponsors up cfg s"
  "sponsors_version up (capture_link up' now uid ev s) = sponsors_version up s"
  "check_one mo up now (capture_link up' now' uid ev s) ch = check_one mo up now s ch"
  by (simp_all add: current_sponsors_def sponsors_version_def check_one_def)

lemma live_check_stops:
  "(\<exists>n. snd (live_check mo up now uid ev sps s) = Stop n) \<longleftrightarrow>
     (\<exists>(ch, link)\<in>set sps. check_one mo up now s ch = Missing)"
  by (auto simp: live_check_def Let_def list_all_iff split: prod.splits) (force simp: image_iff)+

lemma force_join_step:
  assumes "sender ev = Some u" and "\<not> (up \<and> tu_id u \<in> fj_banned s)"
  shows "force_join cfg mo up d r c now ev s =
    (let s1 = capture_link up now (tu_id u) ev s; sps = current_sponsors up cfg s in
     if exempt cfg up d r c ev (tu_id u) \<or> sps = [] \<or>
        up \<and> unexpired now (fj_joined s (tu_id u, sponsors_version up s)) then (s1, Handle)
     else live_check mo up now (tu_id u) ev sps s1)"
  using assms by (cases ev) (auto simp: force_join_def exempt_def Let_def)

lemma force_join_checked:
  assumes "sender ev = Some u" and "\<not> (up \<and> tu_id u \<in> fj_banned s)"
    and "\<not> (exempt cfg up d r c ev (tu_id u) \<or> current_sponsors up cfg s = [] \<or>
        up \<and> unexpired now (fj_joined s (tu_id u, sponsors_version up s)))"
  shows "force_join cfg mo up d r c now ev s =
    live_check mo up now (tu_id u) ev (current_sponsors up cfg s) (capture_link up now (tu_id u) ev s)"
  by (simp only: force_join_step [OF assms(1,2)] Let_def assms(3) if_False)

text \<open>Membership is enforced, and only that: an update of a user who is not banned is stopped
  exactly when nothing exempts it, no check of the last five minutes covers it, and one of the
  sponsor channels answers that the user is not in it.\<close>

theorem stopped_iff_missing:
  assumes "sender ev = Some u" and "\<not> (up \<and> tu_id u \<in> fj_banned s)"
  shows "(\<exists>n. snd (force_join cfg mo up d r c now ev s) = Stop n) \<longleftrightarrow>
    \<not> exempt cfg up d r c ev (tu_id u) \<and>
    \<not> (up \<and> unexpired now (fj_joined s (tu_id u, sponsors_version up s))) \<and>
    (\<exists>(ch, link)\<in>set (current_sponsors up cfg s). check_one mo up now s ch = Missing)"
proof (cases "exempt cfg up d r c ev (tu_id u) \<or> current_sponsors up cfg s = [] \<or>
    up \<and> unexpired now (fj_joined s (tu_id u, sponsors_version up s))")
  case True
  then show ?thesis by (auto simp: force_join_step [OF assms] Let_def)
next
  case False
  then show ?thesis
    by (simp only: force_join_checked [OF assms False] live_check_stops capture_derived) blast
qed

definition one_sponsor :: fj_store where
  "one_sponsor = \<lparr>fj_banned = {}, fj_pending_ref = Map.empty, fj_pending_anon = Map.empty,
     fj_sponsors = [([64, 97], [116])], fj_version = None, fj_joined = Map.empty,
     fj_bad = Map.empty, fj_prompted = Map.empty\<rparr>"

definition no_settings :: fj_settings where
  "no_settings = \<lparr>st_admin_ids = [], st_required_channel = [], st_invite_link = []\<rparr>"

lemma one_sponsor_simps:
  "current_sponsors True no_settings one_sponsor = [([64, 97], [116])]"
  "channel_key [64, 97] = [64, 97]" "parsed_admin_ids [] = []"
  by (simp_all add: current_sponsors_def one_sponsor_def no_settings_def channel_key_def py_int_def
      Texts.strip_def is_space_def digit_val_def nd_zeros_def parsed_admin_ids_def)

lemma like_press_plain:
  "sender like_press = Some \<lparr>tu_id = 7, tu_is_bot = False\<rparr>" "\<not> is_anon_link like_press"
  "like_press = Callback cb \<Longrightarrow> tc_data cb \<noteq> Some ''check_membership''"
  by (auto simp: like_press_def is_anon_link_def)

lemma like_press_not_exempt: "\<not> exempt no_settings True None empty_store None like_press 7"
  using like_press_plain
  by (auto simp: exempt_def no_settings_def one_sponsor_simps pipeline_bypass_def typing_anonymous_def
      pipeline_state_def empty_store_def)

theorem stopped_iff_missing_witness:
  "\<exists>n. snd (force_join no_settings (\<lambda>ch. Some ''left'') True None empty_store None 0 like_press one_sponsor) = Stop n"
  using stopped_iff_missing [of like_press "\<lparr>tu_id = 7, tu_is_bot = False\<rparr>" True one_sponsor
      no_settings "\<lambda>ch. Some ''left''" None empty_store None 0] like_press_not_exempt
  by (simp add: like_press_plain one_sponsor_simps check_one_def unexpired_def)
    (simp add: one_sponsor_def ALLOWED_STATUSES_def)

text \<open>A user who leaves a channel is asked again at once: the cached checks are dropped, so
  the next update that nothing exempts is stopped if a channel says they are not in it.\<close>

theorem leaving_stops:
  assumes "new_status = ''left'' \<or> new_status = ''kicked''" and "sender ev = Some u" and "tu_id u \<noteq> 0"
    and "\<not> exempt cfg up d r c ev (tu_id u)" and "(ch, link) \<in> set (current_sponsors up cfg s)"
    and "\<not> unexpired now (fj_bad s ch)" and "mo (channel_key ch) = Some status"
    and "status \<notin> set ALLOWED_STATUSES"
  shows "\<exists>n. snd (force_join cfg mo up d r c now ev (on_chat_member_updated new_status is_member (tu_id u) s)) = Stop n"
proof -
  let ?s = "on_chat_member_updated new_status is_member (tu_id u) s"
  have s: "fj_joined ?s (tu_id u, v) = None" "fj_bad ?s = fj_bad s"
    "current_sponsors up cfg ?s = current_sponsors up cfg s" for v
    using assms(1,3) by (auto simp: on_chat_member_updated_def current_sponsors_def)
  have m: "check_one mo up now ?s ch = Missing"
    using assms(6-8) by (simp add: check_one_def s)
  show ?thesis
  proof (cases "up \<and> tu_id u \<in> fj_banned ?s")
    case True
    then show ?thesis using assms(2) by (simp add: force_join_def)
  next
    case False
    have "\<not> exempt cfg up d r c ev (tu_id u) \<and> \<not> (up \<and> unexpired now (fj_joined ?s (tu_id u, sponsors_version up ?s))) \<and>
        current_sponsors up cfg ?s \<noteq> []"
      using assms(4,5) by (auto simp: s unexpired_def)
    then have "force_join cfg mo up d r c now ev ?s = live_check mo up now (tu_id u) ev
        (current_sponsors up cfg ?s) (capture_link up now (tu_id u) ev ?s)"
      by (intro force_join_checked [OF assms(2) False]) blast
    moreover have "\<exists>(ch, link)\<in>set (current_sponsors up cfg ?s). check_one mo up now ?s ch = Missing"
      using assms(5) m by (auto simp: s)
    ultimately show ?thesis by (simp add: live_check_stops)
  qed
qed

theorem leaving_stops_witness:
  "\<exists>n. snd (force_join no_settings (\<lambda>ch. Some ''left'') True None empty_store None 5 like_press
     (on_chat_member_updated ''left'' False 7 (one_sponsor\<lparr>fj_joined := [(7, [48]) \<mapsto> 300]\<rparr>))) = Stop n"
proof -
  have "current_sponsors True no_settings (one_sponsor\<lparr>fj_joined := [(7, [48]) \<mapsto> 300]\<rparr>) = [([64, 97], [116])]"
    by (simp add: current_sponsors_def one_sponsor_def no_settings_def)
  then show ?thesis
    using leaving_stops [of "''left''" like_press "\<lparr>tu_id = 7, tu_is_bot = False\<rparr>" no_settings True None
        empty_store None "[64, 97]" "[116]" "one_sponsor\<lparr>fj_joined := [(7, [48]) \<mapsto> 300]\<rparr>" 5
        "\<lambda>ch. Some ''left''" "''left''" False] like_press_not_exempt
    by (simp add: like_press_plain ALLOWED_STATUSES_def unexpired_def) (simp add: one_sponsor_def)
qed

text \<open>One entry of the administrators' setting that is not a number leaves no administrator
  at all.\<close>

theorem one_bad_id_no_admins:
  assumes "x \<in> set (split_on 44 [] setting)" and "Texts.strip x \<noteq> []" and "py_int (Texts.strip x) = None"
  shows "\<not> is_admin_filter setting u"
proof -
  have "parsed_admin_ids setting = []"
    using assms by (force simp: parsed_admin_ids_def Let_def image_iff)
  then show ?thesis by (simp add: is_admin_filter_def split: option.split)
qed

theorem one_bad_id_no_admins_witness:
  "\<not> is_admin_filter [55, 44, 97] (Some \<lparr>tu_id = 7, tu_is_bot = False\<rparr>)"
  by (rule one_bad_id_no_admins [of "[97]"])
    (simp_all add: Texts.strip_def is_space_def py_int_def digit_val_def nd_zeros_def)

end
