(* ===== verification/Scheduler.thy ===== *)
theory Scheduler
  imports Social Matching
begin

text \<open>
  \<open>services/scheduler.py\<close>: the timers of the dates, the termination pipeline with its Redis
  lock, and the workers that clean up Redis states, queues and online flags.  A Redis key is
  its value with the instant it expires, in microseconds.  A lock is tried at the listed
  instants; nothing else runs between two tries.  \<open>up\<close> says whether the database answers: if
  not, the update raises, and the raised error is \<open>None\<close>.
\<close>

section \<open>The store\<close>

record timer =
  tm_last_activity :: int
  tm_user_one_id :: int
  tm_user_two_id :: int
  tm_warned :: "string option"

datatype notice = IdleWarning | TargetFree int

record sched =
  sc_timers :: "int \<rightharpoonup> timer \<times> int"
  sc_locks :: "int \<rightharpoonup> string \<times> int"
  sc_claims :: "int \<rightharpoonup> unit \<times> int"
  sc_waitlists :: "int \<rightharpoonup> int list \<times> int"
  sc_sent :: "(int \<times> notice) list"

definition live :: "int \<Rightarrow> ('k \<rightharpoonup> 'v \<times> int) \<Rightarrow> 'k \<Rightarrow> 'v option" where
  "live now m k = (case m k of None \<Rightarrow> None | Some (v, e) \<Rightarrow> if now < e then Some v else None)"

definition WARN_AFTER :: int where
  "WARN_AFTER = 12 * 3600 * 1000000"

definition CLOSE_AFTER :: int where
  "CLOSE_AFTER = 24 * 3600 * 1000000"

definition KEY_TTL :: int where
  "KEY_TTL = CLOSE_AFTER + 3600 * 1000000"

definition register_match_timeout :: "int \<Rightarrow> int \<Rightarrow> int \<Rightarrow> int \<Rightarrow> sched \<Rightarrow> sched" where
  "register_match_timeout now mid one two s = s\<lparr>sc_timers := (sc_timers s)(mid \<mapsto>
     (\<lparr>tm_last_activity = now, tm_user_one_id = one, tm_user_two_id = two, tm_warned = Some ''0''\<rparr>,
      now + KEY_TTL))\<rparr>"

definition update_user_activity :: "int \<Rightarrow> int \<Rightarrow> sched \<Rightarrow> sched" where
  "update_user_activity now mid s = (case live now (sc_timers s) mid of
     None \<Rightarrow> s
   | Some t \<Rightarrow> s\<lparr>sc_timers := (sc_timers s)(mid \<mapsto>
        (t\<lparr>tm_last_activity := now, tm_warned := Some ''0''\<rparr>, now + KEY_TTL))\<rparr>)"

section \<open>Termination\<close>

fun try_acquire_match_lock :: "int list \<Rightarrow> string \<Rightarrow> int \<Rightarrow> sched \<Rightarrow> sched \<times> bool" where
  "try_acquire_match_lock [] token mid s = (s, False)"
| "try_acquire_match_lock (t # ts) token mid s =
     (if live t (sc_locks s) mid = None
      then (s\<lparr>sc_locks := (sc_locks s)(mid \<mapsto> (token, t + 10 * 1000000))\<rparr>, True)
      else try_acquire_match_lock ts token mid s)"

definition release_match_lock :: "int \<Rightarrow> string \<Rightarrow> int \<Rightarrow> sched \<Rightarrow> sched" where
  "release_match_lock now token mid s =
     (if live now (sc_locks s) mid = Some token
      then s\<lparr>sc_locks := (sc_locks s)(mid := None)\<rparr> else s)"

definition atomic_deactivate_match :: "int \<Rightarrow> int \<Rightarrow> db \<Rightarrow> db \<times> match_history option" where
  "atomic_deactivate_match now mid d =
     (let cond = (\<lambda>m. mh_id m = mid \<and> mh_is_active m) in
      if rowcount cond (matches d) = 0 then (d, None)
      else let d1 = d\<lparr>matches := upd_where cond
             (\<lambda>m. m\<lparr>mh_is_active := False, mh_ended_at := Some (Aware now)\<rparr>) (matches d)\<rparr>
           in (d1, by_key mh_id mid (matches d1)))"

definition notify_waitlist :: "int \<Rightarrow> int \<Rightarrow> sched \<Rightarrow> sched" where
  "notify_waitlist now uid s = (case live now (sc_waitlists s) uid of
     None \<Rightarrow> s
   | Some ws \<Rightarrow> if ws = [] then s
       else s\<lparr>sc_waitlists := (sc_waitlists s)(uid := None),
              sc_sent := sc_sent s @ map (\<lambda>w. (w, TargetFree uid)) ws\<rparr>)"

definition post_termination_side_effects :: "int \<Rightarrow> match_history \<Rightarrow> sched \<Rightarrow> sched" where
  "post_termination_side_effects now m s =
     notify_waitlist now (mh_user_two_id m) (notify_waitlist now (mh_user_one_id m) s)"

definition terminate_match_unified ::
  "bool \<Rightarrow> int list \<Rightarrow> int \<Rightarrow> string \<Rightarrow> int \<Rightarrow> db \<times> sched \<Rightarrow> (db \<times> sched) \<times> bool option" where
  "terminate_match_unified up tries now token mid = (\<lambda>(d, s).
     case try_acquire_match_lock tries token mid s of
       (s1, False) \<Rightarrow> ((d, s1), Some False)
     | (s1, True) \<Rightarrow>
         if \<not> up then ((d, release_match_lock now token mid s1), None)
         else (case atomic_deactivate_match now mid d of
            (d1, None) \<Rightarrow> ((d1, release_match_lock now token mid s1), Some False)
          | (d1, Some m) \<Rightarrow>
              ((d1, release_match_lock now token mid (post_termination_side_effects now m s1)), Some True)))"

section \<open>The polling loop\<close>

text \<open>A key that is due: the claim, the close, and the keys that go with it.\<close>

definition poll_close :: "bool \<Rightarrow> int \<Rightarrow> string \<Rightarrow> int \<Rightarrow> db \<times> sched \<Rightarrow> db \<times> sched" where
  "poll_close up now token mid = (\<lambda>(d, s).
     if live now (sc_claims s) mid \<noteq> None then (d, s)
     else let s1 = s\<lparr>sc_claims := (sc_claims s)(mid \<mapsto> ((), now + 300 * 1000000))\<rparr>
          in (case terminate_match_unified up [now] now token mid (d, s1) of
                ((d2, s2), None) \<Rightarrow> (d2, s2\<lparr>sc_claims := (sc_claims s2)(mid := None)\<rparr>)
              | ((d2, s2), Some _) \<Rightarrow> (d2, s2\<lparr>sc_timers := (sc_timers s2)(mid := None)\<rparr>)))"

text \<open>\<open>HSETNX warned 1\<close>, and the warning if the field was set.\<close>

definition poll_warn :: "int \<Rightarrow> timer \<Rightarrow> sched \<Rightarrow> sched" where
  "poll_warn mid t s =
     (if tm_warned t \<noteq> None then s
      else s\<lparr>sc_timers := (sc_timers s)(mid := map_option (\<lambda>(u, e). (u\<lparr>tm_warned := Some ''1''\<rparr>, e)) (sc_timers s mid)),
             sc_sent := sc_sent s @ [(tm_user_one_id t, IdleWarning), (tm_user_two_id t, IdleWarning)]\<rparr>)"

definition poll_key :: "bool \<Rightarrow> int \<Rightarrow> string \<Rightarrow> int \<Rightarrow> db \<times> sched \<Rightarrow> db \<times> sched" where
  "poll_key up now token mid = (\<lambda>(d, s).
     case live now (sc_timers s) mid of
       None \<Rightarrow> (d, s)
     | Some t \<Rightarrow>
         let idle = now - tm_last_activity t
         in if idle \<ge> CLOSE_AFTER then poll_close up now token mid (d, s)
            else if idle \<ge> WARN_AFTER \<and> tm_warned t \<noteq> Some ''1'' then (d, poll_warn mid t s)
            else (d, s))"

definition verify_timeouts :: "bool \<Rightarrow> int \<Rightarrow> (string \<times> int) list \<Rightarrow> db \<times> sched \<Rightarrow> db \<times> sched" where
  "verify_timeouts up now keys = fold (\<lambda>(token, mid). poll_key up now token mid) keys"

text \<open>Everything that touches the scheduler's keys.\<close>

inductive reachable :: "db \<times> sched \<Rightarrow> bool" where
  start: "reachable (d, \<lparr>sc_timers = Map.empty, sc_locks = Map.empty, sc_claims = Map.empty,
     sc_waitlists = Map.empty, sc_sent = []\<rparr>)"
| database: "reachable (d, s) \<Longrightarrow> reachable (d', s)"
| registered: "reachable (d, s) \<Longrightarrow> reachable (d, register_match_timeout now mid one two s)"
| activity: "reachable (d, s) \<Longrightarrow> reachable (d, update_user_activity now mid s)"
| waiting_for: "reachable (d, s) \<Longrightarrow> reachable (d, s\<lparr>sc_waitlists := (sc_waitlists s)(uid \<mapsto> (ws, e))\<rparr>)"
| terminated: "reachable x \<Longrightarrow> reachable (fst (terminate_match_unified up tries now token mid x))"
| polled: "reachable x \<Longrightarrow> reachable (verify_timeouts up now keys x)"

section \<open>The workers\<close>

text \<open>States that claim a date no active match backs.\<close>

definition in_date :: "ustate \<Rightarrow> bool" where
  "in_date u \<longleftrightarrow> us_status u \<in> {Some Matched, Some Chatting, Some InChat, Some InDate}"

definition pending_users :: "int list \<Rightarrow> mstore \<Rightarrow> int list" where
  "pending_users keys s = filter (\<lambda>tg. case ms_state s tg of None \<Rightarrow> False | Some u \<Rightarrow> in_date u) keys"

definition valid_users :: "int list \<Rightarrow> db \<Rightarrow> int set" where
  "valid_users ids d = (\<Union>m\<in>set (sel_where (\<lambda>m. mh_is_active m \<and>
      (mh_user_one_id m \<in> set ids \<or> mh_user_two_id m \<in> set ids)) (matches d)).
     {mh_user_one_id m, mh_user_two_id m})"

definition clean_batch :: "db \<Rightarrow> int list \<Rightarrow> mstore \<times> nat \<Rightarrow> mstore \<times> nat" where
  "clean_batch d keys = (\<lambda>(s, n).
     let pending = pending_users keys s;
         zombies = filter (\<lambda>tg. tg \<notin> valid_users pending d) pending;
         s1 = fold (\<lambda>tg s. fst (remove_from_queue tg s)) zombies s
     in (fold del_state zombies s1, n + length zombies))"

definition clean_zombie_states :: "db \<Rightarrow> int list list \<Rightarrow> mstore \<Rightarrow> mstore \<times> nat" where
  "clean_zombie_states d batches s = fold (clean_batch d) batches (s, 0)"

definition process_timeouts :: "int \<Rightarrow> int list \<Rightarrow> mstore \<Rightarrow> mstore \<times> int list" where
  "process_timeouts now scan_order s =
     (let expired = get_expired_queue_users now scan_order 50 s
      in (fold (\<lambda>tg s. fst (remove_from_queue tg s)) expired s, expired))"

fun chunks :: "nat \<Rightarrow> 'a list \<Rightarrow> 'a list list" where
  "chunks n xs = (if n = 0 \<or> xs = [] then [] else take n xs # chunks n (drop n xs))"

declare chunks.simps [simp del]

definition flush_chunk :: "(int \<times> pydt) list \<Rightarrow> db \<Rightarrow> db" where
  "flush_chunk chunk d = d\<lparr>users := upd_where (\<lambda>u. u_tg_id u \<in> fst ` set chunk)
     (\<lambda>u. u\<lparr>u_last_active := (case map_of chunk (u_tg_id u) of Some ts \<Rightarrow> ts | None \<Rightarrow> u_last_active u),
            u_is_online := True\<rparr>) (users d)\<rparr>"

definition batch_flush_last_active :: "(int \<times> pydt) list \<Rightarrow> db \<Rightarrow> db" where
  "batch_flush_last_active updates d = fold flush_chunk (chunks 100 updates) d"

definition sync_offline_users :: "int \<Rightarrow> int \<Rightarrow> db \<Rightarrow> db" where
  "sync_offline_users now idle_minutes d = d\<lparr>users := upd_where
     (\<lambda>u. u_is_online u \<and> instant (u_last_active u) < now - idle_minutes * 60 * 1000000)
     (\<lambda>u. u\<lparr>u_is_online := False\<rparr>) (users d)\<rparr>"

section \<open>Lemmas\<close>

definition match_active :: "int \<Rightarrow> db \<Rightarrow> bool" where
  "match_active mid d \<longleftrightarrow> (\<exists>m\<in>set (rows (matches d)). mh_id m = mid \<and> mh_is_active m)"

text \<open>The database with one match ended, and nothing else changed.\<close>

definition ended_at :: "int \<Rightarrow> int \<Rightarrow> db \<Rightarrow> db" where
  "ended_at now mid d = d\<lparr>matches := upd_where (\<lambda>m. mh_id m = mid \<and> mh_is_active m)
     (\<lambda>m. m\<lparr>mh_is_active := False, mh_ended_at := Some (Aware now)\<rparr>) (matches d)\<rparr>"

lemma match_active_ended [simp]: "match_active k (ended_at now mid d) \<longleftrightarrow> k \<noteq> mid \<and> match_active k d"
  by (auto simp: match_active_def ended_at_def set_upd_list)

lemma deactivate_view:
  "match_active mid d \<Longrightarrow> \<exists>m. atomic_deactivate_match now mid d = (ended_at now mid d, Some m) \<and> mh_id m = mid"
  "\<not> match_active mid d \<Longrightarrow> atomic_deactivate_match now mid d = (d, None)"
proof -
  let ?c = "\<lambda>m. mh_id m = mid \<and> mh_is_active m"
  have c: "rowcount ?c (matches d) = 0 \<longleftrightarrow> \<not> match_active mid d"
    by (auto simp: rowcount_def match_active_def filter_empty_conv)
  show "atomic_deactivate_match now mid d = (d, None)" if "\<not> match_active mid d"
    using that c by (simp add: atomic_deactivate_match_def Let_def)
  show "\<exists>m. atomic_deactivate_match now mid d = (ended_at now mid d, Some m) \<and> mh_id m = mid" if a: "match_active mid d"
  proof -
    have "mid \<in> mh_id ` set (rows (matches d))" using a by (auto simp: match_active_def)
    moreover have "map mh_id (rows (matches (ended_at now mid d))) = map mh_id (rows (matches d))"
      by (simp add: ended_at_def upd_list_keys)
    ultimately have "mid \<in> mh_id ` set (rows (matches (ended_at now mid d)))"
      by (metis set_map)
    then obtain m where "by_key mh_id mid (matches (ended_at now mid d)) = Some m"
      using find_key_None_iff [of mh_id mid] by (auto simp: by_key_def)
    moreover from this have "mh_id m = mid" using find_key_SomeD by (fastforce simp: by_key_def)
    ultimately show ?thesis using a c by (simp add: atomic_deactivate_match_def Let_def ended_at_def)
  qed
qed

lemma acquire_cases:
  "try_acquire_match_lock tries token mid s = (s, False) \<or>
   (\<exists>t. t \<in> set tries \<and> live t (sc_locks s) mid = None \<and>
     try_acquire_match_lock tries token mid s =
       (s\<lparr>sc_locks := (sc_locks s)(mid \<mapsto> (token, t + 10 * 1000000))\<rparr>, True))"
proof (induction tries)
  case Nil
  then show ?case by simp
next
  case (Cons a ts)
  show ?case
  proof (cases "live a (sc_locks s) mid = None")
    case True
    then have "a \<in> set (a # ts) \<and> try_acquire_match_lock (a # ts) token mid s =
        (s\<lparr>sc_locks := (sc_locks s)(mid \<mapsto> (token, a + 10 * 1000000))\<rparr>, True)" by simp
    then show ?thesis using True by blast
  next
    case False
    then have "try_acquire_match_lock (a # ts) token mid s = try_acquire_match_lock ts token mid s"
      by (simp only: try_acquire_match_lock.simps if_False)
    then show ?thesis using Cons by (metis list.set_intros(2))
  qed
qed

lemma acquire_frames [simp]:
  "sc_timers (fst (try_acquire_match_lock tries token mid s)) = sc_timers s"
  "sc_claims (fst (try_acquire_match_lock tries token mid s)) = sc_claims s"
  "sc_waitlists (fst (try_acquire_match_lock tries token mid s)) = sc_waitlists s"
  "sc_sent (fst (try_acquire_match_lock tries token mid s)) = sc_sent s"
  by (induction tries) auto

lemma release_frames [simp]:
  "sc_timers (release_match_lock now token mid s) = sc_timers s"
  "sc_claims (release_match_lock now token mid s) = sc_claims s"
  "sc_waitlists (release_match_lock now token mid s) = sc_waitlists s"
  "sc_sent (release_match_lock now token mid s) = sc_sent s"
  by (simp_all add: release_match_lock_def)

lemma notify_frames [simp]:
  "sc_timers (notify_waitlist now uid s) = sc_timers s"
  "sc_claims (notify_waitlist now uid s) = sc_claims s"
  "sc_locks (notify_waitlist now uid s) = sc_locks s"
  by (simp_all add: notify_waitlist_def split: option.split)

lemma effects_frames [simp]:
  "sc_timers (post_termination_side_effects now m s) = sc_timers s"
  "sc_claims (post_termination_side_effects now m s) = sc_claims s"
  "sc_locks (post_termination_side_effects now m s) = sc_locks s"
  by (simp_all add: post_termination_side_effects_def)

text \<open>Messages go to waiting lists only.\<close>

lemma notify_sent: "set (sc_sent (notify_waitlist now uid s)) \<subseteq> set (sc_sent s) \<union> {(w, TargetFree uid) | w. True}"
  by (auto simp: notify_waitlist_def split: option.split)

lemma effects_sent: "(u, n) \<in> set (sc_sent (post_termination_side_effects now m s)) \<Longrightarrow>
    (u, n) \<in> set (sc_sent s) \<or> n = TargetFree (mh_user_one_id m) \<or> n = TargetFree (mh_user_two_id m)"
  unfolding post_termination_side_effects_def
  using notify_sent [of now "mh_user_two_id m" "notify_waitlist now (mh_user_one_id m) s"]
    notify_sent [of now "mh_user_one_id m" s] by auto

text \<open>The three ways a termination ends.\<close>

lemma terminate_cases:
  obtains (denied) "terminate_match_unified up tries now token mid (d, s) = ((d, s), Some False)"
      "try_acquire_match_lock tries token mid s = (s, False)"
  | (failed) s1 where "\<not> up" "terminate_match_unified up tries now token mid (d, s) =
        ((d, release_match_lock now token mid s1), None)"
      "try_acquire_match_lock tries token mid s = (s1, True)"
  | (lost) s1 where "up" "\<not> match_active mid d" "terminate_match_unified up tries now token mid (d, s) =
        ((d, release_match_lock now token mid s1), Some False)"
      "try_acquire_match_lock tries token mid s = (s1, True)"
  | (won) s1 m where "up" "match_active mid d" "mh_id m = mid"
      "terminate_match_unified up tries now token mid (d, s) =
        ((ended_at now mid d, release_match_lock now token mid (post_termination_side_effects now m s1)), Some True)"
      "try_acquire_match_lock tries token mid s = (s1, True)"
proof (cases "snd (try_acquire_match_lock tries token mid s)")
  case False
  then have "try_acquire_match_lock tries token mid s = (s, False)"
    using acquire_cases [of tries token mid s] by auto
  then show thesis by (intro denied) (simp_all add: terminate_match_unified_def)
next
  case True
  then obtain s1 where s1: "try_acquire_match_lock tries token mid s = (s1, True)"
    by (metis prod.collapse)
  consider "\<not> up" | "up" "\<not> match_active mid d" | "up" "match_active mid d" by blast
  then show thesis
  proof cases
    case 1
    then show thesis using s1 by (intro failed [of s1]) (simp_all add: terminate_match_unified_def)
  next
    case 2
    then show thesis using s1 deactivate_view(2) [OF 2(2), of now]
      by (intro lost [of s1]) (simp_all add: terminate_match_unified_def)
  next
    case 3
    then show thesis using s1 deactivate_view(1) [OF 3(2), of now] won
      by (auto simp: terminate_match_unified_def)
  qed
qed

lemma terminate_keeps:
  "sc_timers (snd (fst (terminate_match_unified up tries now token mid (d, s)))) = sc_timers s"
  "sc_claims (snd (fst (terminate_match_unified up tries now token mid (d, s)))) = sc_claims s"
  by (rule terminate_cases [of up tries now token mid d s],
      use acquire_frames [of tries token mid s] in simp_all)+

lemma terminate_sent:
  "(u, IdleWarning) \<in> set (sc_sent (snd (fst (terminate_match_unified up tries now token mid (d, s))))) \<Longrightarrow>
    (u, IdleWarning) \<in> set (sc_sent s)"
  by (rule terminate_cases [of up tries now token mid d s])
    (use acquire_frames(4) [of tries token mid s] effects_sent in \<open>fastforce+\<close>)


lemma lock_released:
  assumes "try_acquire_match_lock [now] token mid s = (s1, True)"
  shows "live now (sc_locks (release_match_lock now token mid s1)) mid = None"
  using assms by (auto simp: release_match_lock_def live_def split: if_splits)

lemma lock_released_after:
  assumes "try_acquire_match_lock [now] token mid s = (s1, True)"
  shows "live now (sc_locks (release_match_lock now token mid (post_termination_side_effects now m s1))) mid = None"
  using assms by (auto simp: release_match_lock_def live_def split: if_splits)

lemma release_unlocks: "sc_locks (release_match_lock now token mid s) mid = sc_locks s mid \<or>
    sc_locks (release_match_lock now token mid s) mid = None"
  by (simp add: release_match_lock_def)

section \<open>Ending a match\<close>

text \<open>Several callers try to end the same match, one after the other.\<close>

fun attempts :: "int \<Rightarrow> (bool \<times> int list \<times> int \<times> string) list \<Rightarrow> db \<times> sched \<Rightarrow> (db \<times> sched) \<times> bool option list" where
  "attempts mid [] x = (x, [])"
| "attempts mid ((up, tries, now, token) # as) x =
     (let (x1, r) = terminate_match_unified up tries now token mid x;
          (x2, rs) = attempts mid as x1
      in (x2, r # rs))"

lemma terminate_outcome:
  assumes "terminate_match_unified up tries now token mid (d, s) = ((d', s'), r)"
  shows "(r = Some True \<longleftrightarrow> match_active mid d \<and> \<not> match_active mid d') \<and>
    (match_active mid d' \<longrightarrow> match_active mid d) \<and> (\<forall>k. k \<noteq> mid \<longrightarrow> match_active k d' = match_active k d)"
  by (rule terminate_cases [of up tries now token mid d s]) (use assms in auto)

text \<open>C31: However many callers try to end a match, in whatever order and whether or not the lock or
  the database let them, at most one is told that it ended it, one is exactly if the match was
  active and no longer is, and no other match is touched.\<close>

theorem terminate_once:
  assumes "attempts mid as (d, s) = ((d', s'), rs)"
  shows "count_list rs (Some True) = (if match_active mid d \<and> \<not> match_active mid d' then 1 else 0) \<and>
    (match_active mid d' \<longrightarrow> match_active mid d) \<and> (\<forall>k. k \<noteq> mid \<longrightarrow> match_active k d' = match_active k d)"
  using assms
proof (induction as arbitrary: d s rs)
  case Nil
  then show ?case by simp
next
  case (Cons a as)
  obtain up tries now token where a: "a = (up, tries, now, token)" by (metis prod_cases4)
  obtain d1 s1 r where t: "terminate_match_unified up tries now token mid (d, s) = ((d1, s1), r)"
    by (metis surj_pair)
  obtain rs' where rest: "attempts mid as (d1, s1) = ((d', s'), rs')" "rs = r # rs'"
    using Cons.prems by (auto simp: a t Let_def split: prod.splits)
  note h = terminate_outcome [OF t] Cons.IH [OF rest(1)]
  have "count_list rs (Some True) = (if match_active mid d \<and> \<not> match_active mid d' then 1 else 0)"
    using h by (cases "match_active mid d"; cases "match_active mid d1"; cases "match_active mid d'")
      (simp_all add: rest(2))
  then show ?case using h by simp
qed

section \<open>The polling loop\<close>

lemma poll_close_view:
  assumes "live now (sc_claims s) mid = None" and "live now (sc_locks s) mid = None"
  shows "\<exists>s'. poll_close True now token mid (d, s) = (if match_active mid d then ended_at now mid d else d, s') \<and>
    sc_timers s' = (sc_timers s)(mid := None) \<and> live now (sc_locks s') mid = None \<and>
    (\<forall>u. (u, IdleWarning) \<in> set (sc_sent s') \<longrightarrow> (u, IdleWarning) \<in> set (sc_sent s))"
proof -
  let ?s = "s\<lparr>sc_claims := (sc_claims s)(mid \<mapsto> ((), now + 300 * 1000000))\<rparr>"
  have free: "live now (sc_locks ?s) mid = None" using assms(2) by simp
  obtain d2 s2 r where t: "terminate_match_unified True [now] now token mid (d, ?s) = ((d2, s2), r)"
    by (metis surj_pair)
  have tm: "sc_timers s2 = sc_timers s"
    using terminate_keeps(1) [of True "[now]" now token mid d ?s] t by simp
  have sent: "(u, IdleWarning) \<in> set (sc_sent s2) \<longrightarrow> (u, IdleWarning) \<in> set (sc_sent s)" for u
    using terminate_sent [of u True "[now]" now token mid d ?s] t by simp
  have "r \<noteq> None \<and> d2 = (if match_active mid d then ended_at now mid d else d) \<and> live now (sc_locks s2) mid = None"
  proof (cases rule: terminate_cases [of True "[now]" now token mid d ?s])
    case denied
    then show ?thesis using free by simp
  next
    case (lost s1)
    have "r = Some False" "d2 = d" "s2 = release_match_lock now token mid s1" using lost(3) t by simp_all
    then show ?thesis using lost(2) lock_released [OF lost(4)] by simp
  next
    case (won s1 m)
    have "r = Some True" "d2 = ended_at now mid d"
      "s2 = release_match_lock now token mid (post_termination_side_effects now m s1)" using won(4) t by simp_all
    then show ?thesis using won(2) lock_released_after [OF won(5)] by simp
  qed simp
  then show ?thesis using t tm sent assms(1) by (auto simp: poll_close_def Let_def)
qed

text \<open>With the lock and the claim free and the database up, a poll ends a tracked match exactly
  if it was idle for a day, and then forgets its timer and holds no lock; every other match and
  every other timer stay.\<close>

theorem poll_closes_exactly_idle:
  assumes "live now (sc_timers s) mid = Some t"
    and "live now (sc_claims s) mid = None" and "live now (sc_locks s) mid = None"
    and "poll_key True now token mid (d, s) = (d', s')"
  shows "(match_active k d' \<longleftrightarrow> match_active k d \<and> \<not> (k = mid \<and> now - tm_last_activity t \<ge> CLOSE_AFTER)) \<and>
    (sc_timers s' mid = None \<longleftrightarrow> now - tm_last_activity t \<ge> CLOSE_AFTER) \<and>
    (k \<noteq> mid \<longrightarrow> sc_timers s' k = sc_timers s k) \<and> live now (sc_locks s') mid = None"
proof (cases "now - tm_last_activity t \<ge> CLOSE_AFTER")
  case True
  obtain s2 where v: "poll_close True now token mid (d, s) = (if match_active mid d then ended_at now mid d else d, s2)"
      "sc_timers s2 = (sc_timers s)(mid := None)" "live now (sc_locks s2) mid = None"
    using poll_close_view [OF assms(2,3), of token d] by blast
  then have "d' = (if match_active mid d then ended_at now mid d else d)" "s' = s2"
    using True assms(1,4) by (simp_all add: poll_key_def Let_def)
  then show ?thesis using True v by auto
next
  case False
  have "sc_timers s mid \<noteq> None" using assms(1) by (auto simp: live_def split: option.splits)
  then show ?thesis
    using False assms(1,3,4) by (auto simp: poll_key_def Let_def poll_warn_def split: if_splits)
qed

text \<open>A close that fails because the database is down changes nothing but is not lost: claim
  and lock are given back and the timer stays, so the next poll, with the database up, ends the
  match.\<close>

theorem failed_close_retried:
  assumes "live now (sc_timers s) mid = Some t" and "now - tm_last_activity t \<ge> CLOSE_AFTER"
    and "live now (sc_claims s) mid = None" and "live now (sc_locks s) mid = None"
    and "poll_key False now token mid (d, s) = (d1, s1)"
    and "now \<le> later" and "live later (sc_timers s) mid = Some t"
    and "poll_key True later token2 mid (d1, s1) = (d2, s2)"
  shows "d1 = d \<and> sc_timers s1 = sc_timers s \<and> \<not> match_active mid d2"
proof -
  let ?s = "s\<lparr>sc_claims := (sc_claims s)(mid \<mapsto> ((), now + 300 * 1000000))\<rparr>"
  have free: "live now (sc_locks ?s) mid = None" using assms(4) by simp
  obtain s3 where l: "try_acquire_match_lock [now] token mid ?s = (s3, True)"
      "terminate_match_unified False [now] now token mid (d, ?s) = ((d, release_match_lock now token mid s3), None)"
    using free by (rule_tac terminate_cases [of False "[now]" now token mid d ?s]) auto
  then have s1: "d1 = d" "s1 = (release_match_lock now token mid s3)\<lparr>sc_claims :=
      (sc_claims (release_match_lock now token mid s3))(mid := None)\<rparr>"
    using assms(1,2,3,5) by (simp_all add: poll_key_def poll_close_def Let_def)
  have f: "sc_timers s3 = sc_timers s" using acquire_frames(1) [of "[now]" token mid ?s] l(1) by simp
  then have t1: "sc_timers s1 = sc_timers s" using s1 by simp
  have "s3 = ?s\<lparr>sc_locks := (sc_locks ?s)(mid \<mapsto> (token, now + 10 * 1000000))\<rparr>"
    using l(1) by (auto split: if_splits)
  then have "sc_locks s1 mid = None"
    by (simp add: s1(2) release_match_lock_def live_def)
  then have "live later (sc_claims s1) mid = None" "live later (sc_locks s1) mid = None"
    using s1(2) by (simp_all add: live_def)
  moreover have "later - tm_last_activity t \<ge> CLOSE_AFTER" using assms(2,6) by simp
  ultimately obtain s4 where "poll_key True later token2 mid (d1, s1) =
      (if match_active mid d1 then ended_at later mid d1 else d1, s4)"
    using poll_close_view [of later s1 mid token2 d1] assms(7) t1 by (auto simp: poll_key_def Let_def)
  then have "d2 = (if match_active mid d1 then ended_at later mid d1 else d1)" using assms(8) by simp
  then show ?thesis using s1(1) t1 by simp
qed

text \<open>A close that is denied the lock counts as done: the timer is deleted although the match is
  still active, and no later poll ever looks at it again.\<close>

theorem denied_close_untracks:
  assumes "live now (sc_timers s) mid = Some t" and "now - tm_last_activity t \<ge> CLOSE_AFTER"
    and "live now (sc_claims s) mid = None" and "live now (sc_locks s) mid = Some holder"
    and "poll_key up now token mid (d, s) = (d1, s1)"
  shows "d1 = d \<and> sc_timers s1 mid = None \<and> poll_key up2 later token2 mid (d1, s1) = (d1, s1)"
  using assms by (auto simp: poll_key_def poll_close_def terminate_match_unified_def Let_def live_def)

section \<open>Warnings\<close>

definition quiet :: "sched \<Rightarrow> bool" where
  "quiet s \<longleftrightarrow> (\<forall>u. (u, IdleWarning) \<notin> set (sc_sent s)) \<and>
     (\<forall>x\<in>ran (sc_timers s). tm_warned (fst x) \<noteq> None)"

lemma ran_del: "x \<in> ran (m(k := None)) \<Longrightarrow> x \<in> ran m"
  by (auto simp: ran_def split: if_splits)

lemma ran_put: "x \<in> ran (m(k \<mapsto> v)) \<Longrightarrow> x = v \<or> x \<in> ran m"
  by (auto simp: ran_def split: if_splits)

lemma quiet_frames:
  assumes "quiet s" and "\<And>x. x \<in> ran (sc_timers s') \<Longrightarrow> x \<in> ran (sc_timers s)"
    and "\<And>u. (u, IdleWarning) \<in> set (sc_sent s') \<Longrightarrow> (u, IdleWarning) \<in> set (sc_sent s)"
  shows "quiet s'"
  using assms unfolding quiet_def by blast

lemma quiet_warned: "quiet s \<Longrightarrow> live now (sc_timers s) mid = Some t \<Longrightarrow> tm_warned t \<noteq> None"
  by (fastforce simp: quiet_def live_def ran_def split: option.splits if_splits)

lemma quiet_put: "quiet s \<Longrightarrow> tm_warned t \<noteq> None \<Longrightarrow> quiet (s\<lparr>sc_timers := (sc_timers s)(mid \<mapsto> (t, e))\<rparr>)"
proof -
  assume q: "quiet s" and t: "tm_warned t \<noteq> None"
  have "tm_warned (fst x) \<noteq> None" if "x \<in> ran ((sc_timers s)(mid \<mapsto> (t, e)))" for x
    using ran_put [OF that] q t by (metis fst_conv quiet_def)
  then show ?thesis using q by (simp add: quiet_def)
qed

lemma quiet_terminate:
  assumes "quiet s"
  shows "quiet (snd (fst (terminate_match_unified up tries now token mid (d, s))))"
  by (rule quiet_frames [OF assms]) (simp only: terminate_keeps(1), rule terminate_sent)

lemma quiet_poll_close:
  assumes "quiet s"
  shows "quiet (snd (poll_close up now token mid (d, s)))"
proof -
  let ?s = "s\<lparr>sc_claims := (sc_claims s)(mid \<mapsto> ((), now + 300 * 1000000))\<rparr>"
  have "quiet ?s" using assms by (simp add: quiet_def)
  obtain d2 s2 r where t: "terminate_match_unified up [now] now token mid (d, ?s) = ((d2, s2), r)"
    by (metis surj_pair)
  have q2: "quiet s2" using quiet_terminate [OF \<open>quiet ?s\<close>, of up "[now]" now token mid d] t by simp
  have "quiet (s2\<lparr>sc_timers := (sc_timers s2)(mid := None)\<rparr>)"
    by (rule quiet_frames [OF q2]) (auto dest: ran_del)
  moreover have "quiet (s2\<lparr>sc_claims := (sc_claims s2)(mid := None)\<rparr>)"
    by (rule quiet_frames [OF q2]) simp_all
  ultimately show ?thesis
    using assms t by (cases r) (simp_all add: poll_close_def Let_def)
qed

lemma quiet_poll_key: "quiet s \<Longrightarrow> quiet (snd (poll_key up now token mid (d, s)))"
proof -
  assume q: "quiet s"
  show ?thesis
  proof (cases "live now (sc_timers s) mid")
    case None
    then show ?thesis using q by (simp add: poll_key_def)
  next
    case (Some t)
    then show ?thesis
      using q quiet_warned [OF q Some] quiet_poll_close [OF q, of up now token mid d]
      by (simp add: poll_key_def Let_def poll_warn_def)
  qed
qed

lemma quiet_verify: "quiet (snd x) \<Longrightarrow> quiet (snd (verify_timeouts up now keys x))"
proof (induction keys arbitrary: x)
  case Nil
  then show ?case by (simp add: verify_timeouts_def)
next
  case (Cons k keys)
  obtain d s where x: "x = (d, s)" by fastforce
  obtain token mid where k: "k = (token, mid)" by fastforce
  have "quiet (snd (poll_key up now token mid x))" using quiet_poll_key Cons.prems by (simp add: x)
  from Cons.IH [OF this] show ?case by (simp add: verify_timeouts_def k)
qed

lemma reachable_quiet: "reachable x \<Longrightarrow> quiet (snd x)"
proof (induction rule: reachable.induct)
  case (registered d s now mid one two)
  then show ?case by (simp add: register_match_timeout_def quiet_put)
next
  case (activity d s now mid)
  then show ?case by (simp add: update_user_activity_def quiet_put split: option.split)
next
  case (terminated x up tries now token mid)
  obtain d s where "x = (d, s)" by fastforce
  then show ?case using terminated quiet_terminate by simp
next
  case (polled x up now keys)
  then show ?case by (simp add: quiet_verify)
qed (simp_all add: quiet_def)

text \<open>The twelve-hour warning is never sent: a timer is registered, and reset by every activity,
  with the field that the poll may only set if it is absent.\<close>

theorem warning_never_sent:
  assumes "reachable (d, s)"
  shows "(u, IdleWarning) \<notin> set (sc_sent s)"
  using reachable_quiet [OF assms] by (simp add: quiet_def)

section \<open>Cleaning up\<close>

lemma remove_state: "ms_state (fst (remove_from_queue tg s)) k = (if k = tg then None else ms_state s k)"
  by (auto simp: remove_from_queue_def Let_def del_state_def split: option.split)

lemma remove_queue: "ms_queue (fst (remove_from_queue tg s)) key = ms_queue s key \<or>
    ms_queue (fst (remove_from_queue tg s)) key = filter (\<lambda>x. x \<noteq> tg) (ms_queue s key)"
  by (auto simp: remove_from_queue_def Let_def del_state_def ms_queue_lrem_all split: option.split)

lemma remove_queue_own:
  "ms_state s tg = Some u \<Longrightarrow> us_queue_key u = Some key \<Longrightarrow> key \<noteq> [] \<Longrightarrow>
   tg \<notin> set (ms_queue (fst (remove_from_queue tg s)) key)"
  by (simp add: remove_from_queue_def Let_def del_state_def ms_queue_lrem_all)

abbreviation remove_all :: "int list \<Rightarrow> mstore \<Rightarrow> mstore" where
  "remove_all tgs s \<equiv> fold (\<lambda>tg s. fst (remove_from_queue tg s)) tgs s"

lemma remove_all_state: "ms_state (remove_all tgs s) k = (if k \<in> set tgs then None else ms_state s k)"
  by (induction tgs arbitrary: s) (auto simp: remove_state)

lemma remove_all_subset: "set (ms_queue (remove_all tgs s) key) \<subseteq> set (ms_queue s key)"
proof (induction tgs arbitrary: s)
  case Nil
  then show ?case by simp
next
  case (Cons tg tgs)
  have "set (ms_queue (fst (remove_from_queue tg s)) key) \<subseteq> set (ms_queue s key)"
    using remove_queue [of tg s key] by auto
  then show ?case using Cons [of "fst (remove_from_queue tg s)"] by simp
qed

lemma remove_all_keeps: "x \<in> set (ms_queue s key) \<Longrightarrow> x \<notin> set tgs \<Longrightarrow> x \<in> set (ms_queue (remove_all tgs s) key)"
proof (induction tgs arbitrary: s)
  case (Cons tg tgs)
  have "x \<in> set (ms_queue (fst (remove_from_queue tg s)) key)"
    using remove_queue [of tg s key] Cons.prems by auto
  then show ?case using Cons by simp
qed simp

lemma remove_all_own:
  "tg \<in> set tgs \<Longrightarrow> ms_state s tg = Some u \<Longrightarrow> us_queue_key u = Some key \<Longrightarrow> key \<noteq> [] \<Longrightarrow>
   tg \<notin> set (ms_queue (remove_all tgs s) key)"
proof (induction tgs arbitrary: s)
  case (Cons x tgs)
  show ?case
  proof (cases "x = tg")
    case True
    then have "tg \<notin> set (ms_queue (fst (remove_from_queue x s)) key)"
      using Cons.prems remove_queue_own by simp
    then show ?thesis using remove_all_subset [of tgs "fst (remove_from_queue x s)" key] by auto
  next
    case False
    then show ?thesis using Cons by (simp add: remove_state)
  qed
qed simp

lemma del_all_state: "ms_state (fold del_state tgs s) k = (if k \<in> set tgs then None else ms_state s k)"
  by (induction tgs arbitrary: s) (auto simp: del_state_def)

lemma del_all_queue [simp]: "ms_queue (fold del_state tgs s) = ms_queue s"
  by (induction tgs arbitrary: s) (auto simp: del_state_def)

definition zombie :: "db \<Rightarrow> mstore \<Rightarrow> int \<Rightarrow> bool" where
  "zombie d s tg \<longleftrightarrow> (case ms_state s tg of None \<Rightarrow> False | Some u \<Rightarrow> in_date u) \<and> get_active_match tg d = None"

lemma valid_users_iff: "tg \<in> set ids \<Longrightarrow> tg \<in> valid_users ids d \<longleftrightarrow> get_active_match tg d \<noteq> None"
proof
  assume t: "tg \<in> set ids" and "tg \<in> valid_users ids d"
  then obtain m where "m \<in> set (rows (matches d))" "mh_is_active m" "in_match tg m"
    by (auto simp: valid_users_def sel_where_def in_match_def)
  then show "get_active_match tg d \<noteq> None" using active_match_NoneD by blast
next
  assume t: "tg \<in> set ids" and "get_active_match tg d \<noteq> None"
  then obtain m where "get_active_match tg d = Some m" by blast
  from active_match_SomeD [OF this] t show "tg \<in> valid_users ids d"
    by (fastforce simp: valid_users_def sel_where_def in_match_def)
qed

lemma clean_batch_state:
  "ms_state (fst (clean_batch d keys (s, n))) k = (if k \<in> set keys \<and> zombie d s k then None else ms_state s k)"
proof -
  let ?p = "pending_users keys s"
  have "k \<in> set (filter (\<lambda>tg. tg \<notin> valid_users ?p d) ?p) \<longleftrightarrow> k \<in> set keys \<and> zombie d s k"
    using valid_users_iff [of k ?p d] by (auto simp: pending_users_def zombie_def)
  then show ?thesis by (simp add: clean_batch_def Let_def del_all_state remove_all_state)
qed

lemma clean_batch_queue:
  "x \<in> set (ms_queue s key) \<Longrightarrow> \<not> zombie d s x \<Longrightarrow> x \<in> set (ms_queue (fst (clean_batch d keys (s, n))) key)"
proof -
  assume x: "x \<in> set (ms_queue s key)" and z: "\<not> zombie d s x"
  let ?p = "pending_users keys s"
  have "x \<notin> set (filter (\<lambda>tg. tg \<notin> valid_users ?p d) ?p)"
    using z valid_users_iff [of x ?p d] by (auto simp: pending_users_def zombie_def)
  then show ?thesis using remove_all_keeps [OF x] by (simp add: clean_batch_def Let_def)
qed

text \<open>The zombie cleaner deletes the state of a scanned user exactly if it says that they are in
  a date while no active match has them; all other states stay, and nobody else leaves a queue.\<close>

theorem zombies_cleaned_exactly:
  "ms_state (fst (clean_zombie_states d batches s)) k =
     (if k \<in> set (concat batches) \<and> zombie d s k then None else ms_state s k) \<and>
   (\<not> zombie d s k \<and> k \<in> set (ms_queue s key) \<longrightarrow> k \<in> set (ms_queue (fst (clean_zombie_states d batches s)) key))"
proof -
  have "ms_state (fst (fold (clean_batch d) batches (s, n))) k =
       (if k \<in> set (concat batches) \<and> zombie d s k then None else ms_state s k) \<and>
     (\<not> zombie d s k \<and> k \<in> set (ms_queue s key) \<longrightarrow> k \<in> set (ms_queue (fst (fold (clean_batch d) batches (s, n))) key))" for n
  proof (induction batches arbitrary: s n)
    case Nil
    then show ?case by simp
  next
    case (Cons keys batches)
    obtain s1 n1 where b: "clean_batch d keys (s, n) = (s1, n1)" by (metis surj_pair)
    have st: "ms_state s1 k = (if k \<in> set keys \<and> zombie d s k then None else ms_state s k)"
      using clean_batch_state [of d keys s n k] b by simp
    then have z: "zombie d s1 k \<longleftrightarrow> zombie d s k \<and> k \<notin> set keys" by (auto simp: zombie_def)
    have q: "\<not> zombie d s k \<and> k \<in> set (ms_queue s key) \<longrightarrow> k \<in> set (ms_queue s1 key)"
      using clean_batch_queue [of k s key d keys n] b by simp
    show ?case using Cons [of s1 n1] st z q by (auto simp: b)
  qed
  then show ?thesis by (simp add: clean_zombie_states_def)
qed

text \<open>One run of the queue-timeout worker removes every user it took from the store and from the
  queue their state names, leaves all others' states alone, and, if fewer than fifty waited
  too long, leaves nobody who did.\<close>

theorem timeouts_processed:
  assumes "process_timeouts now order s = (s', expired)"
  shows "(\<forall>k. ms_state s' k = (if k \<in> set expired then None else ms_state s k)) \<and>
    (\<forall>tg\<in>set expired. \<forall>u key. ms_state s tg = Some u \<and> us_queue_key u = Some key \<and> key \<noteq> [] \<longrightarrow>
       tg \<notin> set (ms_queue s' key)) \<and>
    (length expired < 50 \<longrightarrow> get_expired_queue_users now order 50 s' = [])"
proof -
  let ?over = "\<lambda>s tg. (case ms_state s tg of None \<Rightarrow> False | Some u \<Rightarrow> us_status u = Some Queuing) \<and>
        (case ms_started s tg of None \<Rightarrow> True | Some e \<Rightarrow> e \<le> now)"
  have e: "expired = take 50 (filter (?over s) order)" and s': "s' = remove_all expired s"
    using assms by (auto simp: process_timeouts_def Let_def get_expired_queue_users_def)
  have st: "ms_state s' k = (if k \<in> set expired then None else ms_state s k)" for k
    by (simp add: s' remove_all_state)
  have started: "ms_started (remove_all xs t) = ms_started t" for xs t
    by (induction xs arbitrary: t) (auto simp: remove_from_queue_def Let_def del_state_def split: option.split)
  have "get_expired_queue_users now order 50 s' = []" if "length expired < 50"
  proof -
    have "expired = filter (?over s) order" using that e by (simp add: take_all_iff)
    then have all: "set expired = set (filter (?over s) order)" by simp
    have "\<not> ?over s' tg" if t: "tg \<in> set order" for tg
    proof (cases "tg \<in> set expired")
      case True
      then show ?thesis by (simp add: st)
    next
      case False
      then have "\<not> ?over s tg" using all t by auto
      moreover have "ms_state s' tg = ms_state s tg" using False st by simp
      moreover have "ms_started s' = ms_started s" by (simp add: s' started)
      ultimately show ?thesis by (simp only:) simp
    qed
    then show ?thesis by (simp add: get_expired_queue_users_def filter_empty_conv)
  qed
  then show ?thesis using st remove_all_own by (auto simp: s')
qed

section \<open>Online flags\<close>

lemma flush_append:
  assumes "distinct (map fst (xs @ ys))"
  shows "flush_chunk ys (flush_chunk xs d) = flush_chunk (xs @ ys) d"
proof -
  let ?f = "\<lambda>c u. if u_tg_id u \<in> fst ` set c then u\<lparr>u_last_active := (case map_of c (u_tg_id u) of
       Some ts \<Rightarrow> ts | None \<Rightarrow> u_last_active u), u_is_online := True\<rparr> else (u :: user)"
  have "?f ys (?f xs u) = ?f (xs @ ys) u" for u
  proof (cases "u_tg_id u \<in> fst ` set xs")
    case True
    then have "u_tg_id u \<notin> fst ` set ys" using assms by auto
    then show ?thesis using True by (auto simp: map_add_def map_of_eq_None_iff split: option.split)
  next
    case False
    then have "map_of xs (u_tg_id u) = None" by (simp add: map_of_eq_None_iff)
    then show ?thesis using False by (simp add: map_add_def image_Un split: option.split)
  qed
  then show ?thesis
    by (simp add: flush_chunk_def upd_where_def upd_list_def comp_def)
qed

lemma flush_Nil: "flush_chunk [] d = d"
  by (simp add: flush_chunk_def upd_where_def upd_list_none)

lemma fold_chunks:
  "0 < n \<Longrightarrow> distinct (map fst us) \<Longrightarrow> fold flush_chunk (chunks n us) d = flush_chunk us d"
proof (induction n us arbitrary: d rule: chunks.induct)
  case (1 n us)
  show ?case
  proof (cases "us = []")
    case True
    then show ?thesis by (simp add: chunks.simps flush_Nil)
  next
    case False
    have "distinct (map fst (take n us @ drop n us))" using "1.prems"(2) by simp
    moreover have "fold flush_chunk (chunks n (drop n us)) (flush_chunk (take n us) d)
        = flush_chunk (drop n us) (flush_chunk (take n us) d)"
      using 1 False by (simp add: drop_map [symmetric] distinct_drop)
    ultimately show ?thesis
      using False "1.prems"(1) flush_append [of "take n us" "drop n us" d] by (subst chunks.simps) simp
  qed
qed

text \<open>C36: The worker's flush in chunks of a hundred is the single update of
  \<open>batch_update_users_last_active\<close>.\<close>

theorem flush_is_batch_update:
  assumes "distinct (map fst updates)"
  shows "batch_flush_last_active updates d = fst (batch_update_users_last_active updates d)"
proof (cases "updates = []")
  case True
  then show ?thesis by (simp add: batch_flush_last_active_def batch_update_users_last_active_def chunks.simps)
next
  case False
  then show ?thesis
    using fold_chunks [OF _ assms, of 100 d]
    by (simp add: batch_flush_last_active_def batch_update_users_last_active_def flush_chunk_def)
qed

text \<open>After a round of the online worker a user is online exactly if they were, or were active
  since the last round, and their last activity is recent enough.\<close>

theorem online_after_round:
  assumes "users_unique d" and "get_user d tg = Some u" and "distinct (map fst updates)"
  shows "\<exists>v. get_user (sync_offline_users now idle (batch_flush_last_active updates d)) tg = Some v \<and>
    u_last_active v = (case map_of updates tg of Some ts \<Rightarrow> ts | None \<Rightarrow> u_last_active u) \<and>
    (u_is_online v \<longleftrightarrow> (u_is_online u \<or> tg \<in> fst ` set updates) \<and>
       now - idle * 60 * 1000000 \<le> instant (u_last_active v))"
proof -
  have tg: "u_tg_id u = tg" using get_user_tg [OF assms(2)] .
  have b: "batch_flush_last_active updates d = flush_chunk updates d"
    using fold_chunks [OF _ assms(3), of 100 d] by (simp add: batch_flush_last_active_def)
  have "map_of updates tg = None \<longleftrightarrow> tg \<notin> fst ` set updates" by (simp add: map_of_eq_None_iff)
  then show ?thesis
    using assms(2) tg
    by (auto simp: b get_user_def by_key_def sync_offline_users_def flush_chunk_def find_key_upd_other
        split: option.split)
qed

text \<open>A store with the timer of one match, idle for two days.\<close>

definition old_timer :: timer where
  "old_timer = \<lparr>tm_last_activity = 0, tm_user_one_id = 2, tm_user_two_id = 1, tm_warned = Some ''0''\<rparr>"

definition two_days :: int where
  "two_days = 2 * CLOSE_AFTER"

definition idle_sched :: sched where
  "idle_sched = \<lparr>sc_timers = [7 \<mapsto> (old_timer, two_days + CLOSE_AFTER)], sc_locks = Map.empty,
     sc_claims = Map.empty, sc_waitlists = [1 \<mapsto> ([3], two_days + 1)], sc_sent = []\<rparr>"

definition match_db :: db where
  "match_db = demo_db\<lparr>matches := \<lparr>rows = [new_match 0 2 1 7], next_id = 8\<rparr>\<rparr>"

lemma match_db_active [simp]: "match_active k match_db \<longleftrightarrow> k = 7"
  by (auto simp: match_active_def match_db_def new_match_def)

lemma idle_sched_live [simp]:
  "live two_days (sc_timers idle_sched) 7 = Some old_timer"
  "live (two_days + 60) (sc_timers idle_sched) 7 = Some old_timer"
  "live t (sc_claims idle_sched) 7 = None" "live t (sc_locks idle_sched) 7 = None"
  "two_days - tm_last_activity old_timer \<ge> CLOSE_AFTER"
  by (simp_all add: live_def idle_sched_def old_timer_def two_days_def CLOSE_AFTER_def)

lemma terminate_once_witness:
  "count_list (snd (attempts 7 [(True, [5], 5, ''a''), (True, [6], 6, ''b'')] (match_db, idle_sched))) (Some True) = 1"
proof -
  obtain d' s' rs where a: "attempts 7 [(True, [5], 5, ''a''), (True, [6], 6, ''b'')] (match_db, idle_sched) = ((d', s'), rs)"
    by (metis surj_pair)
  have "\<exists>s1. terminate_match_unified True [5] 5 ''a'' 7 (match_db, idle_sched) = ((ended_at 5 7 match_db, s1), Some True)"
    by (rule terminate_cases [of True "[5]" 5 "''a''" 7 match_db idle_sched]) simp_all
  then obtain s1 where t: "terminate_match_unified True [5] 5 ''a'' 7 (match_db, idle_sched) = ((ended_at 5 7 match_db, s1), Some True)"
    by blast
  obtain d2 s2 r2 where "terminate_match_unified True [6] 6 ''b'' 7 (ended_at 5 7 match_db, s1) = ((d2, s2), r2)"
    by (metis surj_pair)
  then have "\<not> match_active 7 d'"
    using a t terminate_outcome [of True "[6]" 6 "''b''" 7 "ended_at 5 7 match_db" s1 d2 s2 r2] by simp
  then show ?thesis using terminate_once [OF a] a by simp
qed

lemma poll_closes_exactly_idle_witness:
  "\<not> match_active 7 (fst (poll_key True two_days ''a'' 7 (match_db, idle_sched)))"
proof -
  obtain d' s' where p: "poll_key True two_days ''a'' 7 (match_db, idle_sched) = (d', s')" by (metis surj_pair)
  show ?thesis
    using poll_closes_exactly_idle [OF idle_sched_live(1) idle_sched_live(3) idle_sched_live(4) p, of 7] p by simp
qed

lemma failed_close_retried_witness:
  "\<not> match_active 7 (fst (poll_key True (two_days + 60) ''b'' 7 (poll_key False two_days ''a'' 7 (match_db, idle_sched))))"
proof -
  obtain d1 s1 where p: "poll_key False two_days ''a'' 7 (match_db, idle_sched) = (d1, s1)" by (metis surj_pair)
  obtain d2 s2 where q: "poll_key True (two_days + 60) ''b'' 7 (d1, s1) = (d2, s2)" by (metis surj_pair)
  have "\<not> match_active 7 d2"
    using failed_close_retried [OF idle_sched_live(1) _ idle_sched_live(3) idle_sched_live(4) p _ idle_sched_live(2) q] by simp
  then show ?thesis by (simp add: p q)
qed

lemma denied_close_untracks_witness:
  "\<exists>s1. poll_key True two_days ''a'' 7 (match_db, idle_sched\<lparr>sc_locks := [7 \<mapsto> (''z'', two_days + 1)]\<rparr>) = (match_db, s1) \<and>
     match_active 7 match_db \<and> poll_key True (two_days + 60) ''b'' 7 (match_db, s1) = (match_db, s1)"
proof -
  let ?s = "idle_sched\<lparr>sc_locks := [7 \<mapsto> (''z'', two_days + 1)]\<rparr>"
  obtain d1 s1 where p: "poll_key True two_days ''a'' 7 (match_db, ?s) = (d1, s1)" by (metis surj_pair)
  have l: "live two_days (sc_locks ?s) 7 = Some ''z''" by (simp add: live_def)
  have t: "live two_days (sc_timers ?s) 7 = Some old_timer" and c: "live two_days (sc_claims ?s) 7 = None"
    by simp_all
  note h = denied_close_untracks [OF t idle_sched_live(5) c l p, of True "two_days + 60" "''b''"]
  have d: "d1 = match_db" using h by (rule conjunct1)
  show ?thesis using p h unfolding d by (intro exI [of _ s1]) simp
qed

lemma warning_never_sent_witness:
  "(2, IdleWarning) \<notin> set (sc_sent (snd (verify_timeouts True (13 * 3600 * 1000000) [(''a'', 7)]
     (match_db, register_match_timeout 0 7 2 1 \<lparr>sc_timers = Map.empty, sc_locks = Map.empty, sc_claims = Map.empty,
        sc_waitlists = Map.empty, sc_sent = []\<rparr>))))"
proof -
  have "reachable (match_db, register_match_timeout 0 7 2 1 \<lparr>sc_timers = Map.empty, sc_locks = Map.empty,
      sc_claims = Map.empty, sc_waitlists = Map.empty, sc_sent = []\<rparr>)"
    by (intro registered start)
  from polled [OF this] show ?thesis
    using warning_never_sent by (metis surj_pair snd_conv)
qed

definition ghost_store :: mstore where
  "ghost_store = empty_store\<lparr>ms_state := [1 \<mapsto> empty_state\<lparr>us_status := Some Chatting\<rparr>, 9 \<mapsto> empty_state\<lparr>us_status := Some Matched\<rparr>]\<rparr>"

lemma zombies_cleaned_exactly_witness:
  "ms_state (fst (clean_zombie_states match_db [[1], [9]] ghost_store)) 9 = None \<and>
   ms_state (fst (clean_zombie_states match_db [[1], [9]] ghost_store)) 1 \<noteq> None"
proof -
  have "zombie match_db ghost_store 9" "\<not> zombie match_db ghost_store 1"
    by (simp_all add: zombie_def ghost_store_def in_date_def get_active_match_def first_where_def match_db_def new_match_def in_match_def)
  then show ?thesis
    using zombies_cleaned_exactly [of match_db "[[1], [9]]" ghost_store 9 "[]"]
      zombies_cleaned_exactly [of match_db "[[1], [9]]" ghost_store 1 "[]"] by (simp add: ghost_store_def)
qed

lemma timeouts_processed_witness:
  "\<exists>s'. process_timeouts 9 [2] demo_store = (s', [2]) \<and> 2 \<notin> set (ms_queue s' ''match:queue:global:female:wants_any'')"
proof -
  obtain s' e where p: "process_timeouts 9 [2] demo_store = (s', e)" by (metis surj_pair)
  have e: "e = [2]"
    using p by (auto simp: process_timeouts_def Let_def get_expired_queue_users_def demo_store_def demo_waiting_def)
  moreover have "ms_state demo_store 2 = Some demo_waiting"
    "us_queue_key demo_waiting = Some ''match:queue:global:female:wants_any''"
    by (simp_all add: demo_store_def demo_waiting_def)
  ultimately show ?thesis using timeouts_processed [OF p] p by auto
qed

lemma flush_is_batch_update_witness:
  "batch_flush_last_active [(1, Aware 5), (2, Aware 6)] demo_db =
   fst (batch_update_users_last_active [(1, Aware 5), (2, Aware 6)] demo_db)"
  by (rule flush_is_batch_update) simp

lemma online_after_round_witness:
  "\<exists>v. get_user (sync_offline_users 9 5 (batch_flush_last_active [(1, Aware 5)] demo_db)) 1 = Some v \<and> u_is_online v"
  using online_after_round [of demo_db 1 alice "[(1, Aware 5)]" 9 5] by auto

end
