(* ===== verification/Discovery.thy ===== *)
theory Discovery
  imports Social Matching
begin

text \<open>
  Who is shown to whom (\<open>database/queries/crud.py\<close>, "Discovery & Matching"): the conditions of
  the four queries, the ranking of a search and its score.  A comparison with a NULL column is
  not true, but \<open>column == None\<close> is written \<open>IS NULL\<close> by the library, so that equality of two
  nullable values is equality of options.  Scores are exact rationals rounded as Python does,
  distances exact reals; the error of float arithmetic is left out.  MySQL's spherical distance
  is an argument.  An \<open>ORDER BY\<close> that leaves ties keeps insertion order.
\<close>

section \<open>Texts and places\<close>

definition interest_list :: "string \<Rightarrow> string list" where
  "interest_list s = filter (\<lambda>i. i \<noteq> []) (map strip_blanks (split_comma s))"

definition interests_of :: "string option \<Rightarrow> string set" where
  "interests_of s = (if truthy s then set (interest_list (the s)) else {})"

text \<open>\<open>FIND_IN_SET(i, s) > 0\<close> and \<open>s LIKE '%i%'\<close> with \<open>i\<close> escaped; \<open>i\<close> has no comma.\<close>

definition find_in_set :: "string \<Rightarrow> string option \<Rightarrow> bool" where
  "find_in_set i s = (case s of None \<Rightarrow> False | Some t \<Rightarrow> i \<in> set (split_comma t))"

definition contains :: "string \<Rightarrow> string option \<Rightarrow> bool" where
  "contains i s = (case s of None \<Rightarrow> False
     | Some t \<Rightarrow> \<exists>n\<in>{..length t}. take (length i) (drop n t) = i)"

definition same_text :: "string option \<Rightarrow> string \<Rightarrow> bool" where
  "same_text s t = (case s of None \<Rightarrow> False | Some v \<Rightarrow> map lower_char v = map lower_char t)"

text \<open>Python's \<open>round(x, n)\<close>: ties go to the even neighbour.\<close>

definition half_even :: "'a::floor_ceiling \<Rightarrow> int" where
  "half_even x = (let n = \<lfloor>x\<rfloor>; r = x - of_int n in
     if 2 * r < 1 then n else if 2 * r > 1 then n + 1 else if even n then n else n + 1)"

definition py_round :: "'a::floor_ceiling \<Rightarrow> nat \<Rightarrow> 'a" where
  "py_round x n = of_int (half_even (x * 10 ^ n)) / 10 ^ n"

definition radians :: "real \<Rightarrow> real" where
  "radians x = x * pi / 180"

definition haversine :: "real \<Rightarrow> real \<Rightarrow> real \<Rightarrow> real \<Rightarrow> real" where
  "haversine lat1 lon1 lat2 lon2 =
     (sin (radians (lat2 - lat1) / 2))\<^sup>2 +
     cos (radians lat1) * cos (radians lat2) * (sin (radians (lon2 - lon1) / 2))\<^sup>2"

definition atan2_pos :: "real \<Rightarrow> real \<Rightarrow> real" where
  "atan2_pos y x = (if x = 0 then if y = 0 then 0 else pi / 2 else arctan (y / x))"

text \<open>Both arguments of \<open>atan2\<close> are square roots, so only its first quadrant is written out.\<close>

definition calculate_distance_km :: "real \<Rightarrow> real \<Rightarrow> real \<Rightarrow> real \<Rightarrow> real" where
  "calculate_distance_km lat1 lon1 lat2 lon2 =
     (let a = haversine lat1 lon1 lat2 lon2;
          c = 2 * atan2_pos (sqrt a) (sqrt (1 - a))
      in py_round (6371 * c) 1)"

text \<open>The distance a filtered search computes in SQL.\<close>

definition sql_distance :: "rat \<Rightarrow> rat \<Rightarrow> rat \<Rightarrow> rat \<Rightarrow> real" where
  "sql_distance lat0 lng0 lat lng = 6371 * 2 * arcsin (sqrt
     (haversine (of_rat lat0) (of_rat lng0) (of_rat lat) (of_rat lng)))"

section \<open>Conditions\<close>

definition acted_on :: "int \<Rightarrow> int \<Rightarrow> db \<Rightarrow> bool" where
  "acted_on me tg d \<longleftrightarrow> (\<exists>l\<in>set (rows (likes d)). ul_liker_id l = me \<and> ul_liked_id l = tg)"

definition likes_me :: "int \<Rightarrow> int \<Rightarrow> db \<Rightarrow> bool" where
  "likes_me me tg d \<longleftrightarrow> (\<exists>l\<in>set (rows (likes d)).
     ul_liker_id l = tg \<and> ul_liked_id l = me \<and> \<not> ul_is_pass l)"

definition block_exists :: "int \<Rightarrow> int \<Rightarrow> db \<Rightarrow> bool" where
  "block_exists a b d \<longleftrightarrow> (\<exists>r\<in>set (rows (blocks d)). bl_blocker_id r = a \<and> bl_blocked_id r = b)"

definition chatted :: "int \<Rightarrow> int \<Rightarrow> db \<Rightarrow> bool" where
  "chatted me tg d \<longleftrightarrow> (\<exists>m\<in>set (rows (matches d)).
     mh_user_one_id m = me \<and> mh_user_two_id m = tg \<or> mh_user_two_id m = me \<and> mh_user_one_id m = tg)"

definition listed :: "int \<Rightarrow> user \<Rightarrow> bool" where
  "listed me v \<longleftrightarrow> u_tg_id v \<noteq> me \<and> u_completed_registration v \<and> \<not> u_is_banned v \<and>
     \<not> u_re_engage_blocked v \<and> \<not> u_invisible_mode v"

definition discovery_ok :: "string option \<Rightarrow> int \<Rightarrow> user option \<Rightarrow> db \<Rightarrow> user \<Rightarrow> bool" where
  "discovery_ok flt me caller d v =
     (if flt = Some ''same_city'' then
        (case caller of None \<Rightarrow> True | Some c \<Rightarrow> truthy (u_city c) \<longrightarrow> u_city v = u_city c)
      else if flt = Some ''same_province'' then
        (case caller of None \<Rightarrow> True | Some c \<Rightarrow> truthy (u_province c) \<longrightarrow> u_province v = u_province c)
      else if flt = Some ''same_interests'' then
        (case caller of None \<Rightarrow> True
         | Some c \<Rightarrow> interests_of (u_interests c) \<noteq> {} \<longrightarrow>
             (\<exists>i\<in>interests_of (u_interests c). find_in_set i (u_interests v)))
      else if flt = Some ''no_chat'' then \<not> chatted me (u_tg_id v) d
      else True)"

definition by_activity :: "user list \<Rightarrow> user list" where
  "by_activity us = sort_key (\<lambda>u. - instant (u_last_active u)) (sort_key u_tg_id us)"

section \<open>The four queries\<close>

definition opposite_gender :: "string \<Rightarrow> string" where
  "opposite_gender g = (let l = map lower_char g in
     if l = ''male'' then ''female'' else if l = ''female'' then ''male''
     else if l = ''boy'' then ''girl'' else if l = ''girl'' then ''boy'' else ''female'')"

definition bucket_ok :: "string \<Rightarrow> 'a::linordered_idom \<Rightarrow> 'a \<Rightarrow> bool" where
  "bucket_ok b k x = (if b = ''0_50'' then x \<le> 50 * k
     else if b = ''50_100'' then 50 * k \<le> x \<and> x \<le> 100 * k
     else if b = ''100_200'' then 100 * k \<le> x \<and> x \<le> 200 * k else True)"

definition has_bucket :: "string option \<Rightarrow> bool" where
  "has_bucket b \<longleftrightarrow> truthy b \<and> b \<noteq> Some ''any''"

definition get_discovery_candidate ::
  "(rat \<times> rat \<Rightarrow> rat \<times> rat \<Rightarrow> rat) \<Rightarrow> int \<Rightarrow> string \<Rightarrow> string option \<Rightarrow> string option \<Rightarrow> db \<Rightarrow> user option" where
  "get_discovery_candidate sphere me gender bucket flt d =
     (let caller = (if truthy bucket \<or> truthy flt then get_user d me else None);
          here = (case caller of None \<Rightarrow> None | Some c \<Rightarrow>
                    (case (u_location_lng c, u_location_lat c) of
                       (Some x, Some y) \<Rightarrow> Some (x, y) | _ \<Rightarrow> None))
      in if has_bucket bucket \<and> here = None then None
         else
           let near = has_bucket bucket;
               dist = (\<lambda>v. sphere (the (u_location_point v)) (the here));
               ok = (\<lambda>v. listed me v \<and> u_gender v = Some (opposite_gender gender) \<and>
                 \<not> acted_on me (u_tg_id v) d \<and> \<not> block_exists me (u_tg_id v) d \<and>
                 \<not> block_exists (u_tg_id v) me d \<and> discovery_ok flt me caller d v \<and>
                 (near \<longrightarrow> u_location_point v \<noteq> None \<and> bucket_ok (the bucket) 1000 (dist v)));
               found = sort_key (\<lambda>v. - instant (u_last_active v)) (sel_where ok (users d));
               closest = (if near then sort_key dist found else found);
               ranked = sort_key (\<lambda>v. if likes_me me (u_tg_id v) d then 0 else 1 :: nat) closest
           in (case ranked of [] \<Rightarrow> None | v # _ \<Rightarrow> Some v))"

definition get_nearby_candidates :: "user \<Rightarrow> string option \<Rightarrow> nat \<Rightarrow> db \<Rightarrow> user list" where
  "get_nearby_candidates me gender_filter limit d =
     (let g = (if truthy gender_filter then map lower_char (the gender_filter) else []);
          ok = (\<lambda>v. listed (u_tg_id me) v \<and> u_province v = u_province me \<and> u_city v = u_city me \<and>
                (g = ''male'' \<or> g = ''female'' \<longrightarrow> u_gender v = Some g))
      in take limit (by_activity (sel_where ok (users d))))"

definition shared_count :: "string list \<Rightarrow> user \<Rightarrow> nat" where
  "shared_count wanted v = (if truthy (u_interests v)
     then card (set (split_comma (the (u_interests v))) \<inter> set wanted) else 0)"

definition find_interest_match_candidates ::
  "int \<Rightarrow> string option \<Rightarrow> string option \<Rightarrow> nat \<Rightarrow> db \<Rightarrow> user list" where
  "find_interest_match_candidates me interests target_gender limit d =
     (let wanted = (if truthy interests then interest_list (the interests) else []);
          ok = (\<lambda>v. listed me v \<and> \<not> block_exists me (u_tg_id v) d \<and> \<not> block_exists (u_tg_id v) me d \<and>
                (\<exists>i\<in>set wanted. contains i (u_interests v)) \<and>
                (truthy target_gender \<longrightarrow> same_text (u_gender v) (the target_gender)))
      in if wanted = [] then []
         else take limit (sort_key (\<lambda>v. - int (shared_count wanted v))
                (take 100 (by_activity (sel_where ok (users d))))))"

section \<open>The score\<close>

definition interest_score :: "string set \<Rightarrow> user \<Rightarrow> rat" where
  "interest_score wanted v =
     (let cand = interests_of (u_interests v);
          shared = card (wanted \<inter> cand)
      in if wanted = {} \<or> cand = {} then 0
         else of_nat shared / of_nat (card (wanted \<union> cand)) * 45 + of_nat (min shared 5) * 2)"

definition activity_score :: "int \<Rightarrow> user \<Rightarrow> rat" where
  "activity_score now v =
     (let idle = max (now - instant (u_last_active v)) 0; hour = 3600 * 1000000 in
      if idle \<le> hour then 20 else if idle \<le> 24 * hour then 15
      else if idle \<le> 24 * 7 * hour then 8 else if idle \<le> 24 * 30 * hour then 3 else 0)"

definition place_score :: "user \<Rightarrow> bool \<Rightarrow> user \<Rightarrow> rat" where
  "place_score c same_province_bonus v =
     (case (u_location_lat c, u_location_lng c, u_location_lat v, u_location_lng v) of
        (Some a, Some b, Some x, Some y) \<Rightarrow>
          (let km = calculate_distance_km (of_rat a) (of_rat b) (of_rat x) (of_rat y) in
           if km \<le> 5 then 20 else if km \<le> 20 then 14 else if km \<le> 50 then 8
           else if km \<le> 150 then 3 else 0)
      | _ \<Rightarrow>
          if same_province_bonus \<and> truthy (u_province c) \<and> u_province v = u_province c
          then 10 + (if truthy (u_city c) \<and> u_city v = u_city c then 6 else 0) else 0)"

definition trust_bonus :: "user \<Rightarrow> rat" where
  "trust_bonus v = of_int (min (max (u_trust_score v) 0) 100) / 100 * 5"

definition score_discovery_candidate :: "int \<Rightarrow> string set \<Rightarrow> user \<Rightarrow> bool \<Rightarrow> user \<Rightarrow> rat" where
  "score_discovery_candidate now wanted c same_province_bonus v = py_round
     (interest_score wanted v + activity_score now v + place_score c same_province_bonus v +
      trust_bonus v) 3"

section \<open>The filtered search\<close>

record filters =
  df_province :: "string option"
  df_interests :: "string list"
  df_min_age :: int
  df_max_age :: int
  df_distance :: "string option"
  df_exclude :: "int list"
  df_gender :: "string option"
  df_online_only :: bool
  df_discovery :: "string option"

definition matches_filters :: "int \<Rightarrow> filters \<Rightarrow> user \<Rightarrow> db \<Rightarrow> user \<Rightarrow> bool" where
  "matches_filters now q c d v \<longleftrightarrow>
     discovery_ok (df_discovery q) (u_tg_id c) (Some c) d v \<and>
     (truthy (df_gender q) \<longrightarrow> same_text (u_gender v) (the (df_gender q))) \<and>
     (df_online_only q \<longrightarrow> instant (u_last_active v) \<ge> now - 600 * 1000000) \<and>
     (truthy (df_province q) \<longrightarrow> u_province v = df_province q) \<and>
     (df_min_age q > 0 \<longrightarrow> (case u_age v of None \<Rightarrow> False | Some a \<Rightarrow> a \<ge> df_min_age q)) \<and>
     (df_max_age q < 99 \<longrightarrow> (case u_age v of None \<Rightarrow> False | Some a \<Rightarrow> a \<le> df_max_age q)) \<and>
     u_tg_id v \<notin> set (df_exclude q) \<and>
     (has_bucket (df_distance q) \<longrightarrow> (case (u_location_lat v, u_location_lng v) of
        (Some x, Some y) \<Rightarrow> bucket_ok (the (df_distance q)) 1
           (sql_distance (the (u_location_lat c)) (the (u_location_lng c)) x y)
      | _ \<Rightarrow> False))"

definition eligible :: "int \<Rightarrow> filters \<Rightarrow> user \<Rightarrow> db \<Rightarrow> user \<Rightarrow> bool" where
  "eligible now q c d v \<longleftrightarrow> listed (u_tg_id c) v \<and> \<not> acted_on (u_tg_id c) (u_tg_id v) d \<and>
     \<not> block_exists (u_tg_id c) (u_tg_id v) d \<and> \<not> block_exists (u_tg_id v) (u_tg_id c) d \<and>
     matches_filters now q c d v"

definition interest_filter :: "filters \<Rightarrow> string set" where
  "interest_filter q = set (filter (\<lambda>i. i \<noteq> []) (map strip_blanks (df_interests q)))"

definition shares_filter :: "filters \<Rightarrow> user \<Rightarrow> bool" where
  "shares_filter q v \<longleftrightarrow> interest_filter q = {} \<or>
     interest_filter q \<inter> (if truthy (u_interests v)
       then set (map strip_blanks (split_comma (the (u_interests v)))) else {}) \<noteq> {}"

definition score_of :: "int \<Rightarrow> filters \<Rightarrow> user \<Rightarrow> user \<Rightarrow> rat" where
  "score_of now q c v = score_discovery_candidate now
     (if interest_filter q \<noteq> {} then interest_filter q else interests_of (u_interests c))
     c (\<not> truthy (df_province q)) v"

definition search_pool :: "int \<Rightarrow> filters \<Rightarrow> user \<Rightarrow> nat \<Rightarrow> db \<Rightarrow> user list" where
  "search_pool now q c pool_size d =
     take pool_size (by_activity (sel_where (eligible now q c d) (users d)))"

definition get_filtered_discovery_candidates ::
  "int \<Rightarrow> int \<Rightarrow> filters \<Rightarrow> nat \<Rightarrow> nat \<Rightarrow> db \<Rightarrow> user list" where
  "get_filtered_discovery_candidates now me q limit pool_size d =
     (case get_user d me of
        None \<Rightarrow> []
      | Some c \<Rightarrow>
          if has_bucket (df_distance q) \<and> (u_location_lat c = None \<or> u_location_lng c = None) then []
          else take limit (sort_key (\<lambda>v. - score_of now q c v)
                 (filter (shares_filter q) (search_pool now q c pool_size d))))"

section \<open>Lemmas\<close>

lemma set_by_activity [simp]: "set (by_activity us) = set us"
  by (simp add: by_activity_def)

lemma length_by_activity [simp]: "length (by_activity us) = length us"
  by (simp add: by_activity_def)

lemma distinct_by_activity [simp]: "distinct (by_activity us) = distinct us"
  by (simp add: by_activity_def)

lemma half_even_bounds:
  assumes "of_int a \<le> x" and "x \<le> of_int b"
  shows "a \<le> half_even x \<and> half_even x \<le> b"
proof -
  have "a \<le> \<lfloor>x\<rfloor>" using assms(1) by (simp add: le_floor_iff)
  moreover have "\<lfloor>x\<rfloor> \<le> b" using assms(2) floor_le_iff [of x b] by linarith
  moreover have "x = of_int b" if "\<lfloor>x\<rfloor> = b" using that assms(2) of_int_floor_le [of x] by simp
  ultimately show ?thesis by (cases "\<lfloor>x\<rfloor> = b") (auto simp: half_even_def Let_def)
qed

lemma py_round_bounds:
  fixes x :: rat
  assumes "of_int a \<le> x" and "x \<le> of_int b"
  shows "of_int a \<le> py_round x n \<and> py_round x n \<le> of_int b"
proof -
  have "of_int (a * 10 ^ n) \<le> x * 10 ^ n" "x * 10 ^ n \<le> of_int (b * 10 ^ n)"
    using assms by simp_all
  from half_even_bounds [OF this]
  have h: "a * 10 ^ n \<le> half_even (x * 10 ^ n)" "half_even (x * 10 ^ n) \<le> b * 10 ^ n" by simp_all
  have "(of_int (a * 10 ^ n) :: rat) \<le> of_int (half_even (x * 10 ^ n))"
    using h(1) by (simp only: of_int_le_iff)
  moreover have "(of_int (half_even (x * 10 ^ n)) :: rat) \<le> of_int (b * 10 ^ n)"
    using h(2) by (simp only: of_int_le_iff)
  ultimately show ?thesis by (simp add: py_round_def field_simps)
qed

lemma finite_interests [simp]: "finite (interests_of s)"
  by (simp add: interests_of_def)

lemma interest_score_bounds:
  assumes "finite w"
  shows "0 \<le> interest_score w v \<and> interest_score w v \<le> 55"
proof -
  let ?c = "interests_of (u_interests v)"
  have le: "card (w \<inter> ?c) \<le> card (w \<union> ?c)" using assms by (intro card_mono) auto
  define j m :: rat where j: "j = of_nat (card (w \<inter> ?c)) / of_nat (card (w \<union> ?c))"
    and m: "m = of_nat (min (card (w \<inter> ?c)) 5)"
  have jm: "0 \<le> j" "0 \<le> m" by (simp_all add: j m)
  have "m \<le> of_nat 5" unfolding m by (simp only: of_nat_le_iff)
  moreover have "j \<le> 1" if "w \<noteq> {}"
  proof -
    have "card (w \<union> ?c) \<noteq> 0" using that assms by auto
    then show ?thesis using le by (simp add: j divide_le_eq_1)
  qed
  moreover have "interest_score w v = (if w = {} \<or> ?c = {} then 0 else j * 45 + m * 2)"
    by (simp add: interest_score_def Let_def j m)
  ultimately show ?thesis using jm
    by (cases "w = {} \<or> ?c = {}") (simp_all del: Un_empty, linarith?)
qed

lemma activity_score_bounds: "0 \<le> activity_score now v \<and> activity_score now v \<le> 20"
  by (simp add: activity_score_def Let_def)

lemma place_score_bounds: "0 \<le> place_score c b v \<and> place_score c b v \<le> 20"
  by (auto simp: place_score_def Let_def split: option.split)

lemma trust_bonus_bounds: "0 \<le> trust_bonus v \<and> trust_bonus v \<le> 5"
proof -
  have "(0 :: rat) \<le> of_int (min (max (u_trust_score v) 0) 100)" by (simp only: of_int_0_le_iff)
  moreover have "(of_int (min (max (u_trust_score v) 0) 100) :: rat) \<le> of_int 100"
    by (simp only: of_int_le_iff)
  ultimately show ?thesis by (simp add: trust_bonus_def)
qed

lemma search_view:
  assumes "get_user d me = Some c"
    and "\<not> (has_bucket (df_distance q) \<and> (u_location_lat c = None \<or> u_location_lng c = None))"
  shows "get_filtered_discovery_candidates now me q limit pool_size d =
    take limit (sort_key (\<lambda>v. - score_of now q c v)
      (filter (shares_filter q) (search_pool now q c pool_size d)))"
  using assms(1) assms(2) by (auto simp: get_filtered_discovery_candidates_def)

section \<open>Properties\<close>

text \<open>Whatever the profiles say, the score of a candidate lies between 0 and 100.\<close>

theorem score_bounds:
  "0 \<le> score_discovery_candidate now (interests_of s) c b v \<and>
   score_discovery_candidate now (interests_of s) c b v \<le> 100"
proof -
  note b = interest_score_bounds [of "interests_of s" v, OF finite_interests]
    activity_score_bounds [of now v] place_score_bounds [of c b v] trust_bonus_bounds [of v]
  have "of_int 0 \<le> interest_score (interests_of s) v + activity_score now v + place_score c b v + trust_bonus v"
    using b by simp
  moreover have "interest_score (interests_of s) v + activity_score now v + place_score c b v + trust_bonus v
      \<le> of_int 100"
    using b by simp
  ultimately show ?thesis
    using py_round_bounds [of 0 _ 100 3] by (fastforce simp: score_discovery_candidate_def)
qed

text \<open>A search shows only registered, visible, unbanned users other than the searcher whom they
  have not judged yet and with whom no block exists in either direction, who pass every filter;
  nobody twice, at most as many as asked, and in falling order of score.\<close>

theorem discovery_sound:
  assumes "users_unique d" and "get_user d me = Some c" and "v \<in> set us"
    and "us = get_filtered_discovery_candidates now me q limit pool_size d"
  shows "v \<in> set (rows (users d)) \<and> u_tg_id v \<noteq> me \<and> u_completed_registration v \<and> \<not> u_is_banned v \<and>
    \<not> u_invisible_mode v \<and> \<not> acted_on me (u_tg_id v) d \<and>
    \<not> block_exists me (u_tg_id v) d \<and> \<not> block_exists (u_tg_id v) me d \<and>
    matches_filters now q c d v \<and> shares_filter q v \<and>
    distinct us \<and> length us \<le> limit \<and> sorted_wrt (\<lambda>x y. score_of now q c y \<le> score_of now q c x) us"
proof -
  let ?p = "filter (shares_filter q) (search_pool now q c pool_size d)"
  have n: "\<not> (has_bucket (df_distance q) \<and> (u_location_lat c = None \<or> u_location_lng c = None))"
  proof (rule notI)
    assume "has_bucket (df_distance q) \<and> (u_location_lat c = None \<or> u_location_lng c = None)"
    then have "us = []" by (simp add: assms(2,4) get_filtered_discovery_candidates_def)
    then show False using assms(3) by simp
  qed
  note us = assms(4) [unfolded search_view [OF assms(2) n]]
  have "v \<in> set ?p" using assms(3) us by (auto dest!: in_set_takeD)
  then have e: "v \<in> set (rows (users d))" "eligible now q c d v" "shares_filter q v"
    by (auto simp: search_pool_def sel_where_def dest!: in_set_takeD)
  have "distinct (map u_tg_id (rows (users d)))" using assms(1) by (simp add: users_unique_def)
  then have "distinct us"
    by (simp add: us search_pool_def sel_where_def distinct_map)
  moreover have "sorted_wrt (\<lambda>x y. - score_of now q c x \<le> - score_of now q c y) (sort_key (\<lambda>v. - score_of now q c v) ?p)"
    using sorted_sort_key [of "\<lambda>v. - score_of now q c v" ?p] by (simp only: sorted_wrt_map)
  then have "sorted_wrt (\<lambda>x y. score_of now q c y \<le> score_of now q c x) us"
    unfolding us by (intro sorted_wrt_take) simp
  moreover have "u_tg_id c = me" using get_user_tg [OF assms(2)] .
  ultimately show ?thesis using e us by (auto simp: eligible_def listed_def)
qed

text \<open>With room for all of them, a search shows every eligible user: none is lost in the pool,
  the ranking or the cut.\<close>

theorem discovery_complete:
  assumes "get_user d me = Some c"
    and "\<not> has_bucket (df_distance q) \<or> (u_location_lat c \<noteq> None \<and> u_location_lng c \<noteq> None)"
    and "rowcount (eligible now q c d) (users d) \<le> pool_size"
    and "rowcount (eligible now q c d) (users d) \<le> limit"
  shows "set (get_filtered_discovery_candidates now me q limit pool_size d) =
    {v \<in> set (rows (users d)). eligible now q c d v \<and> shares_filter q v}"
proof -
  let ?e = "sel_where (eligible now q c d) (users d)"
  have n: "length ?e \<le> pool_size" "length ?e \<le> limit"
    using assms(3,4) by (simp_all add: rowcount_def sel_where_def)
  then have p: "search_pool now q c pool_size d = by_activity ?e" by (simp add: search_pool_def)
  moreover have "length (filter (shares_filter q) (by_activity ?e)) \<le> limit"
    using n(2) length_filter_le [of "shares_filter q" "by_activity ?e"] by simp
  moreover have "get_filtered_discovery_candidates now me q limit pool_size d =
      take limit (sort_key (\<lambda>v. - score_of now q c v) (filter (shares_filter q) (search_pool now q c pool_size d)))"
    using assms(2) by (intro search_view [OF assms(1)]) auto
  ultimately show ?thesis by (auto simp: sel_where_def)
qed

text \<open>The wanted interests are looked for after the cut to the most recently active: if
  none of those shares one, the search is empty although eligible users further down do.\<close>

theorem interests_after_cut:
  assumes "get_user d me = Some c" and "\<not> has_bucket (df_distance q)"
    and "by_activity (sel_where (eligible now q c d) (users d)) = recent @ v # rest"
    and "length recent = pool_size" and "\<forall>r\<in>set recent. \<not> shares_filter q r" and "shares_filter q v"
  shows "get_filtered_discovery_candidates now me q limit pool_size d = [] \<and>
    eligible now q c d v \<and> v \<in> set (rows (users d))"
proof -
  have "set (by_activity (sel_where (eligible now q c d) (users d))) = set (recent @ v # rest)"
    by (simp add: assms(3))
  then have "v \<in> set (sel_where (eligible now q c d) (users d))" by auto
  moreover have "search_pool now q c pool_size d = recent"
    using assms(3,4) by (simp add: search_pool_def)
  moreover have "filter (shares_filter q) recent = []" using assms(5) by (simp add: filter_empty_conv)
  ultimately show ?thesis
    using assms(2) search_view [OF assms(1), of q now limit pool_size] by (simp add: sel_where_def)
qed

definition seeker :: user where
  "seeker = alice\<lparr>u_completed_registration := True, u_interests := Some ''art''\<rparr>"

definition shown :: user where
  "shown = bob\<lparr>u_completed_registration := True, u_age := Some 30, u_interests := Some ''art, sport''\<rparr>"

definition idle :: user where
  "idle = shown\<lparr>u_tg_id := 3, u_interests := Some ''chess'', u_last_active := Aware (- 1)\<rparr>"

definition search_db :: db where
  "search_db = demo_db\<lparr>users := \<lparr>rows = [seeker, shown, idle], next_id = 4\<rparr>\<rparr>"

definition plain :: filters where
  "plain = \<lparr>df_province = None, df_interests = [], df_min_age = 18, df_max_age = 99,
     df_distance = None, df_exclude = [], df_gender = None, df_online_only = False, df_discovery = None\<rparr>"

lemma search_db_rows [simp]:
  "rows (users search_db) = [seeker, shown, idle]" "users_unique search_db"
  "get_user search_db 1 = Some seeker" "likes search_db = empty_tbl" "blocks search_db = empty_tbl"
  by (simp_all add: search_db_def seeker_def shown_def idle_def users_unique_def get_user_def by_key_def demo_db_def
      empty_db_def)

lemma search_eligible: "eligible 5 (plain\<lparr>df_interests := is\<rparr>) seeker search_db v \<longleftrightarrow>
    listed 1 v \<and> (case u_age v of None \<Rightarrow> False | Some a \<Rightarrow> a \<ge> 18)"
  by (auto simp: eligible_def matches_filters_def plain_def acted_on_def block_exists_def discovery_ok_def
      has_bucket_def empty_tbl_def seeker_def split: option.split)

lemma search_users: "\<not> listed 1 seeker" "listed 1 shown" "listed 1 idle" "u_age shown = Some 30" "u_age idle = Some 30"
  by (simp_all add: listed_def seeker_def shown_def idle_def bob_def new_user_def)

lemma search_listed: "sel_where (eligible 5 (plain\<lparr>df_interests := is\<rparr>) seeker search_db) (users search_db) = [shown, idle]"
  by (simp add: sel_where_def search_eligible search_users)

lemma search_order: "by_activity [shown, idle] = [shown, idle]"
  by (simp add: by_activity_def shown_def idle_def bob_def new_user_def sort_key_def)

lemma plain_same: "plain\<lparr>df_interests := []\<rparr> = plain"
  by (simp add: plain_def)

theorem discovery_complete_witness:
  "set (get_filtered_discovery_candidates 5 1 plain 10 100 search_db) = {shown, idle}"
proof -
  have "rowcount (eligible 5 plain seeker search_db) (users search_db) = 2"
    using search_listed [of "[]"] by (simp add: rowcount_def sel_where_def plain_same)
  then have "set (get_filtered_discovery_candidates 5 1 plain 10 100 search_db) =
      {v \<in> set (rows (users search_db)). eligible 5 plain seeker search_db v \<and> shares_filter plain v}"
    by (intro discovery_complete) (simp_all add: plain_def has_bucket_def)
  also have "\<dots> = set (sel_where (eligible 5 plain seeker search_db) (users search_db))"
    by (auto simp: sel_where_def shares_filter_def interest_filter_def plain_def)
  finally show ?thesis using search_listed [of "[]"] by (simp add: plain_same)
qed

theorem discovery_sound_witness:
  "\<exists>v. v \<in> set (get_filtered_discovery_candidates 5 1 plain 1 100 search_db) \<and> u_completed_registration v \<and> u_tg_id v \<noteq> 1"
proof -
  have "get_filtered_discovery_candidates 5 1 plain 1 100 search_db \<noteq> []"
    using search_view [of search_db 1 seeker plain 5 1 100] search_listed [of "[]"]
    by (simp add: has_bucket_def plain_same search_pool_def search_order shares_filter_def interest_filter_def
        plain_def flip: length_greater_0_conv)
  then obtain v where v: "v \<in> set (get_filtered_discovery_candidates 5 1 plain 1 100 search_db)"
    by (meson last_in_set)
  then show ?thesis
    using discovery_sound [of search_db 1 seeker v _ 5 plain 1 100, OF _ _ v refl] by auto
qed

theorem interests_after_cut_witness:
  "get_filtered_discovery_candidates 5 1 (plain\<lparr>df_interests := [''chess'']\<rparr>) 10 1 search_db = [] \<and>
   eligible 5 (plain\<lparr>df_interests := [''chess'']\<rparr>) seeker search_db idle"
proof -
  let ?q = "plain\<lparr>df_interests := [''chess'']\<rparr>"
  have i: "interest_filter ?q = {''chess''}" by (simp add: interest_filter_def strip_blanks_def)
  have "\<not> shares_filter ?q shown" "shares_filter ?q idle"
    by (simp_all add: shares_filter_def i shown_def idle_def strip_blanks_def)
  then show ?thesis
    using interests_after_cut [of search_db 1 seeker ?q 5 "[shown]" idle "[]" 1 10] search_listed [of "[''chess'']"]
    by (simp add: search_order has_bucket_def plain_def)
qed

end
