(* ===== verification/Dates.thy ===== *)
theory Dates
  imports Scheduler Discovery Guards
begin

text \<open>
  A date, from the search to the chat: \<open>bot/handlers/matching.py\<close> (the search and the start of a
  date), \<open>bot/handlers/questionnaire.py\<close> (twenty questions answered in step) and the consent of
  \<open>bot/handlers/anonymous_chat.py\<close>.  Commits and Redis calls succeed; what Telegram says to a
  message is the parameter \<open>deliver\<close>.  Times are in microseconds; a Redis key that expires holds
  the instant of its expiry.  A handler that sleeps is split at its sleep.  Texts and keyboards
  are left out, except the summary of the partner's answers.
\<close>

section \<open>The world of a date\<close>

record dworld =
  dw_db :: db
  dw_sched :: sched
  dw_store :: mstore
  dw_fsm :: "int \<Rightarrow> fsm"
  dw_pool :: "int \<rightharpoonup> ustr"
  dw_sync :: "int \<times> int \<rightharpoonup> int set \<times> int option"
  dw_skip :: "int \<rightharpoonup> int"
  dw_cooldown :: "int \<rightharpoonup> int"
  dw_last :: "int \<rightharpoonup> int \<times> int"

datatype delivery = Delivered | Forbidden | Undelivered

definition WAITING_IN_QUEUE :: string where
  "WAITING_IN_QUEUE = ''MatchingStates:waiting_in_queue''"
definition AGE_FILTER :: string where
  "AGE_FILTER = ''VIPStates:waiting_for_age_filter''"
definition WAITING_TO_START :: string where
  "WAITING_TO_START = ''QuestionnaireStates:waiting_for_questions_to_start''"
definition ANSWERING :: string where
  "ANSWERING = ''QuestionnaireStates:answering_questions''"
definition WAITING_PARTNER :: string where
  "WAITING_PARTNER = ''QuestionnaireStates:waiting_for_partner_answer''"
definition WAITING_APPROVAL :: string where
  "WAITING_APPROVAL = ''ChatStates:waiting_for_approval''"
definition CHAT_ACTIVE :: string where
  "CHAT_ACTIVE = ''ChatStates:anonymous_chat_active''"

lemmas date_states = WAITING_IN_QUEUE_def AGE_FILTER_def WAITING_TO_START_def ANSWERING_def
  WAITING_PARTNER_def WAITING_APPROVAL_def CHAT_ACTIVE_def

definition second_us :: int where
  "second_us = 1000000"

definition fsm_int :: "string \<Rightarrow> fsm \<Rightarrow> int option" where
  "fsm_int k c = (case fsm_data c k of Some (FInt i) \<Rightarrow> Some i | _ \<Rightarrow> None)"

definition on_fsm :: "int \<Rightarrow> (fsm \<Rightarrow> fsm) \<Rightarrow> dworld \<Rightarrow> dworld" where
  "on_fsm uid f w = w\<lparr>dw_fsm := (dw_fsm w)(uid := f (dw_fsm w uid))\<rparr>"

definition leave :: "int \<Rightarrow> dworld \<Rightarrow> dworld" where
  "leave uid = on_fsm uid clear_fsm"

definition on_db :: "(db \<Rightarrow> db) \<Rightarrow> dworld \<Rightarrow> dworld" where
  "on_db f w = w\<lparr>dw_db := f (dw_db w)\<rparr>"

definition on_match :: "int \<Rightarrow> (match_history \<Rightarrow> match_history) \<Rightarrow> dworld \<Rightarrow> dworld" where
  "on_match mid f = on_db (\<lambda>d. d\<lparr>matches := upd_where (\<lambda>m. mh_id m = mid) f (matches d)\<rparr>)"

definition match_row :: "int \<Rightarrow> dworld \<Rightarrow> match_history option" where
  "match_row mid w = by_key mh_id mid (matches (dw_db w))"

definition skip_locked :: "int \<Rightarrow> int \<Rightarrow> dworld \<Rightarrow> bool" where
  "skip_locked now mid w = unexpired now (dw_skip w mid)"

definition lock_skip :: "int \<Rightarrow> int \<Rightarrow> dworld \<Rightarrow> dworld" where
  "lock_skip now mid w = w\<lparr>dw_skip := (dw_skip w)(mid \<mapsto> now + 5 * second_us)\<rparr>"

definition remember_partner :: "int \<Rightarrow> int \<Rightarrow> int \<Rightarrow> dworld \<Rightarrow> dworld" where
  "remember_partner now uid peer w = w\<lparr>dw_last := (dw_last w)(uid \<mapsto> (peer, now + 86400 * second_us))\<rparr>"

section \<open>The question pool as Redis keeps it\<close>

fun join_comma :: "ustr list \<Rightarrow> ustr" where
  "join_comma [] = []"
| "join_comma [x] = x"
| "join_comma (x # xs) = x @ [44] @ join_comma xs"

definition pool_text :: "int list \<Rightarrow> ustr" where
  "pool_text ids = join_comma (map py_str ids)"

definition fetch_question_pool :: "int \<Rightarrow> dworld \<Rightarrow> int list option" where
  "fetch_question_pool mid w = (case dw_pool w mid of
     None \<Rightarrow> None
   | Some raw \<Rightarrow> if raw = [] then None
       else let ids = map py_int (split_on 44 [] raw)
            in if None \<in> set ids then None else Some (map the ids))"

section \<open>Starting a date\<close>

datatype start_result = NotStarted | StartError py_error | Started int "int list"

definition block_rows :: "int \<Rightarrow> int \<Rightarrow> db \<Rightarrow> block_list list" where
  "block_rows one two d = sel_where (\<lambda>b. bl_blocker_id b = one \<and> bl_blocked_id b = two \<or>
     bl_blocker_id b = two \<and> bl_blocked_id b = one) (blocks d)"

definition abort_match_initialisation :: "int \<Rightarrow> int \<Rightarrow> int \<Rightarrow> int \<Rightarrow> dworld \<Rightarrow> dworld" where
  "abort_match_initialisation now mid one two w = leave two (leave one
     (on_match mid (\<lambda>m. m\<lparr>mh_is_active := False, mh_ended_at := Some (Naive now)\<rparr>) w))"

definition wait_to_start :: "int \<Rightarrow> fsm \<Rightarrow> fsm" where
  "wait_to_start mid c = update_data ''match_history_id'' (FInt mid) (set_state (Some WAITING_TO_START) c)"

text \<open>Both paths start alike: no second date for either, and no block between them.  The query of
  the block raises when each has blocked the other.\<close>

definition may_start :: "int \<Rightarrow> int \<Rightarrow> db \<Rightarrow> start_result option" where
  "may_start one two d =
     (if get_active_match one d \<noteq> None \<or> get_active_match two d \<noteq> None then Some NotStarted
      else case block_rows one two d of
             [] \<Rightarrow> None | [_] \<Rightarrow> Some NotStarted | _ \<Rightarrow> Some (StartError OtherError))"

definition handle_successful_match ::
  "(question list \<Rightarrow> question list) \<Rightarrow> (int \<Rightarrow> delivery) \<Rightarrow> int \<Rightarrow> int \<Rightarrow> int \<Rightarrow> dworld \<Rightarrow> dworld \<times> start_result" where
  "handle_successful_match shuffle deliver now one two w =
     (case may_start one two (dw_db w) of
        Some r \<Rightarrow> (w, r)
      | None \<Rightarrow>
          let (d1, m) = create_match_history now one two (dw_db w);
              mid = mh_id m;
              w1 = w\<lparr>dw_db := d1, dw_sched := register_match_timeout now mid one two (dw_sched w)\<rparr>;
              pool = get_random_questions shuffle 20 d1
          in if pool = [] then (abort_match_initialisation now mid one two w1, NotStarted)
             else let w2 = w1\<lparr>dw_pool := (dw_pool w1)(mid \<mapsto> pool_text (map q_id pool))\<rparr>
             in if deliver one \<noteq> Delivered \<or> deliver two \<noteq> Delivered
                then (abort_match_initialisation now mid one two w2, NotStarted)
                else (lock_skip now mid (on_fsm two (wait_to_start mid) (on_fsm one (wait_to_start mid) w2)),
                      Started mid (map q_id pool)))"

text \<open>The direct chat of the same function names a class that its module does not import, after
  the match is committed.\<close>

definition start_direct_chat :: "int \<Rightarrow> int \<Rightarrow> int \<Rightarrow> dworld \<Rightarrow> dworld \<times> start_result" where
  "start_direct_chat now one two w =
     (case may_start one two (dw_db w) of
        Some r \<Rightarrow> (w, r)
      | None \<Rightarrow>
          let (d1, m) = create_match_history now one two (dw_db w);
              w1 = on_match (mh_id m) (\<lambda>m. m\<lparr>mh_chat_approved := True, mh_user_one_approved := True,
                     mh_user_two_approved := True\<rparr>) (w\<lparr>dw_db := d1\<rparr>)
          in (lock_skip now (mh_id m) w1, StartError NameError))"

text \<open>After the countdown: the date may have been ended meanwhile.\<close>

definition leave_if_waiting :: "int \<Rightarrow> dworld \<Rightarrow> dworld" where
  "leave_if_waiting uid w =
     (if fsm_state (dw_fsm w uid) = Some WAITING_TO_START then leave uid w else w)"

definition first_question :: "fsm \<Rightarrow> fsm" where
  "first_question c = update_data ''current_question_index'' (FInt 0) (set_state (Some ANSWERING) c)"

definition after_countdown :: "int \<Rightarrow> int \<Rightarrow> int \<Rightarrow> int \<Rightarrow> dworld \<Rightarrow> dworld" where
  "after_countdown now mid one two w =
     (case match_row mid w of
        None \<Rightarrow> w
      | Some m \<Rightarrow>
          if \<not> mh_is_active m then leave_if_waiting two (leave_if_waiting one w)
          else remember_partner now two one (remember_partner now one two
                 (on_fsm two first_question (on_fsm one first_question w))))"

section \<open>The search\<close>

record match_config =
  mc_cost :: int
  mc_target_gender :: "string option"
  mc_uses_province :: bool

definition MATCH_TYPE_CONFIG :: "(string \<times> match_config) list" where
  "MATCH_TYPE_CONFIG = [
     (''random'', \<lparr>mc_cost = 0, mc_target_gender = None, mc_uses_province = False\<rparr>),
     (''boy'', \<lparr>mc_cost = 1, mc_target_gender = Some ''Male'', mc_uses_province = False\<rparr>),
     (''girl'', \<lparr>mc_cost = 1, mc_target_gender = Some ''Female'', mc_uses_province = False\<rparr>),
     (''nearby'', \<lparr>mc_cost = 1, mc_target_gender = None, mc_uses_province = True\<rparr>),
     (''same_age'', \<lparr>mc_cost = 1, mc_target_gender = None, mc_uses_province = False\<rparr>)]"

text \<open>Cost, gender and province of a search.\<close>

definition resolve_match_params ::
  "string \<Rightarrow> user \<Rightarrow> (int \<times> string option \<times> string option) option" where
  "resolve_match_params ty u = map_option (\<lambda>c. (mc_cost c, mc_target_gender c,
     if mc_uses_province c then u_province u else None)) (map_of MATCH_TYPE_CONFIG ty)"

definition vip_row_active :: "int \<Rightarrow> user \<Rightarrow> bool" where
  "vip_row_active now u = (u_is_vip u \<and>
     (case u_vip_expires_at u of None \<Rightarrow> True | Some e \<Rightarrow> instant e > now))"

text \<open>The charge after a date has started; an error of the deduction is logged.\<close>

definition settle_coins :: "int \<Rightarrow> int \<Rightarrow> int \<Rightarrow> dworld \<Rightarrow> dworld" where
  "settle_coins now tg cost w =
     (if cost \<le> 0 then w
      else case consume_vip_quota_or_coin now tg cost TxMatchCost None (dw_db w) of
             Inl e \<Rightarrow> w | Inr (d, deducted) \<Rightarrow> w\<lparr>dw_db := d\<rparr>)"

datatype search_reply = AlreadyInQueue | AlreadyInMatch | BlockCooldown | NoUser | SilentMode
  | NoGender | NoProvince | UnknownType | NoLocation | NotEnoughCoins | AskAgeFilter | NoAge
  | GhostMatch | StillWaiting | NotStartedReply | Counting int "int list" int int | Raised py_error

text \<open>What follows the engine's answer: both dialogues are cleared, then the date starts.  A date
  that counts down is finished five seconds later by \<open>finish_search\<close>.\<close>

definition after_find ::
  "(question list \<Rightarrow> question list) \<Rightarrow> (int \<Rightarrow> delivery) \<Rightarrow> int \<Rightarrow> int \<Rightarrow> int \<Rightarrow> int option \<Rightarrow> dworld \<Rightarrow>
     dworld \<times> search_reply" where
  "after_find shuffle deliver now tg cost found w =
     (case found of
        None \<Rightarrow> (w, StillWaiting)
      | Some p \<Rightarrow>
          if p = tg then (leave tg (w\<lparr>dw_store := fst (remove_from_queue tg (dw_store w))\<rparr>), GhostMatch)
          else if p = 0 then (w, StillWaiting)
          else (case handle_successful_match shuffle deliver now tg p (leave tg (leave p w)) of
                  (w1, Started mid pool) \<Rightarrow> (w1, Counting mid pool p cost)
                | (w1, NotStarted) \<Rightarrow> (w1, NotStartedReply)
                | (w1, StartError e) \<Rightarrow> (w1, Raised e)))"

definition finish_search :: "int \<Rightarrow> int \<Rightarrow> search_reply \<Rightarrow> dworld \<Rightarrow> dworld" where
  "finish_search now tg r w = (case r of
     Counting mid pool p cost \<Rightarrow> settle_coins now tg cost (after_countdown now mid tg p w)
   | _ \<Rightarrow> w)"

definition SAME_AGE_RANGE :: int where
  "SAME_AGE_RANGE = 3"

text \<open>The search itself, once the state is locked.\<close>

definition run_search ::
  "(question list \<Rightarrow> question list) \<Rightarrow> (int \<Rightarrow> delivery) \<Rightarrow> int \<Rightarrow> int \<Rightarrow> int \<Rightarrow> search \<Rightarrow> dworld \<Rightarrow>
     dworld \<times> search_reply" where
  "run_search shuffle deliver now tg cost q w =
     (case find_match now tg q (dw_store w) of
        (s, Inl e) \<Rightarrow> (w\<lparr>dw_store := s\<rparr>, Raised e)
      | (s, Inr found) \<Rightarrow> after_find shuffle deliver now tg cost found (w\<lparr>dw_store := s\<rparr>))"

definition search_of :: "user \<Rightarrow> string option \<Rightarrow> string option \<Rightarrow> bool \<Rightarrow> int \<Rightarrow> int \<Rightarrow> search" where
  "search_of u target prov vip lo hi = \<lparr>sr_gender = the (u_gender u), sr_target_gender = target,
     sr_province = prov, sr_is_vip = vip, sr_age = (case u_age u of None \<Rightarrow> 0 | Some a \<Rightarrow> a),
     sr_min_age = lo, sr_max_age = hi, sr_interests = u_interests u, sr_lat = None, sr_lng = None,
     sr_nearby = False\<rparr>"

text \<open>The guards of a press of \<open>match_<type>\<close>, in the code's order.\<close>

definition search_refused :: "int \<Rightarrow> int \<Rightarrow> string \<Rightarrow> dworld \<Rightarrow> search_reply option" where
  "search_refused now tg ty w =
     (if fsm_state (dw_fsm w tg) = Some WAITING_IN_QUEUE then Some AlreadyInQueue
      else if get_active_match tg (dw_db w) \<noteq> None then Some AlreadyInMatch
      else if unexpired now (dw_cooldown w tg) then Some BlockCooldown
      else case get_user (dw_db w) tg of
        None \<Rightarrow> Some NoUser
      | Some u \<Rightarrow>
          (case (case u_silent_until u of None \<Rightarrow> Inr False | Some t \<Rightarrow> dt_gt t (Naive now)) of
             Inl e \<Rightarrow> Some (Raised e)
           | Inr True \<Rightarrow> Some SilentMode
           | Inr False \<Rightarrow>
               if \<not> truthy (u_gender u) then Some NoGender
               else if ty = ''nearby'' \<and> \<not> truthy (u_province u) then Some NoProvince
               else (case resolve_match_params ty u of
                 None \<Rightarrow> Some UnknownType
               | Some (cost, target, prov) \<Rightarrow>
                   if ty = ''nearby'' \<and> (u_location_lat u = None \<or> u_location_lng u = None)
                   then Some NoLocation
                   else if \<not> vip_row_active now u \<and> cost > 0 \<and> u_vip_quota u < cost \<and> u_coin_balance u < cost
                   then Some NotEnoughCoins
                   else None)))"

definition ask_age_filter :: "string \<Rightarrow> string option \<Rightarrow> string option \<Rightarrow> int \<Rightarrow> fsm \<Rightarrow> fsm" where
  "ask_age_filter ty target prov cost c =
     (let c1 = update_data ''match_type'' (FStr ty) (set_state (Some AGE_FILTER) c);
          c2 = (case target of None \<Rightarrow> c1\<lparr>fsm_data := (fsm_data c1)(''target_gender'' := None)\<rparr>
                | Some g \<Rightarrow> update_data ''target_gender'' (FStr g) c1);
          c3 = (case prov of None \<Rightarrow> c2\<lparr>fsm_data := (fsm_data c2)(''province'' := None)\<rparr>
                | Some g \<Rightarrow> update_data ''province'' (FStr g) c2)
      in update_data ''cost'' (FInt cost) c3)"

definition enter_match_queue ::
  "(question list \<Rightarrow> question list) \<Rightarrow> (int \<Rightarrow> delivery) \<Rightarrow> int \<Rightarrow> int \<Rightarrow> string \<Rightarrow> dworld \<Rightarrow> dworld \<times> search_reply" where
  "enter_match_queue shuffle deliver now tg ty w =
     (case search_refused now tg ty w of
        Some r \<Rightarrow> (w, r)
      | None \<Rightarrow>
          let u = the (get_user (dw_db w) tg);
              (cost0, target, prov) = the (resolve_match_params ty u);
              vip = vip_row_active now u;
              cost = (if vip \<and> cost0 > 0 then 0 else cost0)
          in if vip \<and> ty \<notin> {''nearby'', ''same_age''}
             then (on_fsm tg (ask_age_filter ty target prov cost) w, AskAgeFilter)
             else
               let w1 = on_fsm tg (set_state (Some WAITING_IN_QUEUE)) w;
                   age = (case u_age u of None \<Rightarrow> 0 | Some a \<Rightarrow> a)
               in if ty = ''same_age'' \<and> age = 0 then (leave tg w1, NoAge)
                  else
                    let (lo, hi) = (if ty = ''same_age''
                           then (max 18 (age - SAME_AGE_RANGE), min 75 (age + SAME_AGE_RANGE)) else (0, 99));
                        q = (search_of u target prov vip lo hi)\<lparr>sr_lat := u_location_lat u,
                              sr_lng := u_location_lng u, sr_nearby := (ty = ''nearby'')\<rparr>
                    in run_search shuffle deliver now tg cost q w1)"

text \<open>The VIP's age filter: \<open>all\<close>, or two numbers, then the type, split at underscores.\<close>

definition fsm_str :: "string \<Rightarrow> fsm \<Rightarrow> string option" where
  "fsm_str k c = (case fsm_data c k of Some (FStr s) \<Rightarrow> Some s | _ \<Rightarrow> None)"

definition parse_age_filter :: "string list \<Rightarrow> py_error + (int \<times> int)" where
  "parse_age_filter parts = (case parts of
     [] \<Rightarrow> Inl IndexError
   | p # ps \<Rightarrow> if p = ''all'' then Inr (0, 99)
       else (case py_int (lit p) of
         None \<Rightarrow> Inl ValueError
       | Some lo \<Rightarrow> (case ps of
           [] \<Rightarrow> Inl IndexError
         | p2 # _ \<Rightarrow> (case py_int (lit p2) of None \<Rightarrow> Inl ValueError | Some hi \<Rightarrow> Inr (lo, hi)))))"

definition process_vip_age_filter ::
  "(question list \<Rightarrow> question list) \<Rightarrow> (int \<Rightarrow> delivery) \<Rightarrow> int \<Rightarrow> int \<Rightarrow> string \<Rightarrow> dworld \<Rightarrow> dworld \<times> search_reply" where
  "process_vip_age_filter shuffle deliver now tg data w =
     (case parse_age_filter (split_on CHR ''_'' [] data) of
        Inl e \<Rightarrow> (w, Raised e)
      | Inr (lo, hi) \<Rightarrow>
          let c = dw_fsm w tg; cost = (case fsm_int ''cost'' c of None \<Rightarrow> 0 | Some k \<Rightarrow> k)
          in (case get_user (dw_db w) tg of
                None \<Rightarrow> (leave tg w, NoUser)
              | Some u \<Rightarrow>
                  if \<not> truthy (u_gender u) then (leave tg w, NoGender)
                  else
                    let w1 = on_fsm tg (\<lambda>c. update_data ''max_age_filter'' (FInt hi)
                          (update_data ''min_age_filter'' (FInt lo) (set_state (Some WAITING_IN_QUEUE) c))) w
                    in run_search shuffle deliver now tg cost
                         (search_of u (fsm_str ''target_gender'' c) (fsm_str ''province'' c) True lo hi) w1))"

definition cancel_queue_operations :: "int \<Rightarrow> dworld \<Rightarrow> dworld" where
  "cancel_queue_operations tg w = leave tg
     (if fsm_state (dw_fsm w tg) \<in> {Some WAITING_IN_QUEUE, Some AGE_FILTER}
      then w\<lparr>dw_store := fst (remove_from_queue tg (dw_store w))\<rparr> else w)"

end
