(* ===== verification/Questionnaire.thy ===== *)
theory Questionnaire
  imports Dates
begin

text \<open>
  \<open>bot/handlers/questionnaire.py\<close>: the two users of a date answer the same question, wait for
  each other in a Redis set, and move on together; after the last question both are asked for
  their consent.
\<close>

definition TOTAL_QUESTIONS :: nat where
  "TOTAL_QUESTIONS = 20"

definition SYNC_KEY_TTL :: int where
  "SYNC_KEY_TTL = 3600 * second_us"

text \<open>The cells of the progress bar that are filled.\<close>

definition progress_cells :: "int \<Rightarrow> int \<Rightarrow> int" where
  "progress_cells current n = (if n > 0 then max 0 (min 10 (10 * current div n)) else 0)"

definition parse_answer_callback :: "string \<Rightarrow> (string \<times> int) option" where
  "parse_answer_callback data = (case split_on CHR ''_'' [] data of
     [p0, p1, p2] \<Rightarrow>
       if p1 \<notin> {''a'', ''b'', ''c'', ''d''} then None
       else (case py_int (lit p2) of None \<Rightarrow> None
             | Some qid \<Rightarrow> Some (if p1 = ''a'' then ''A'' else if p1 = ''b'' then ''B''
                                else if p1 = ''c'' then ''C'' else ''D'', qid))
   | _ \<Rightarrow> None)"

section \<open>The end of the questionnaire\<close>

definition answers_of :: "int \<Rightarrow> db \<Rightarrow> user_answer list" where
  "answers_of mid d = sel_where (\<lambda>a. ua_match_history_id a = mid) (answers d)"

definition options_for :: "user_answer list \<Rightarrow> int \<Rightarrow> string list" where
  "options_for as qid = map ua_selected_option (filter (\<lambda>a. ua_question_id a = qid) as)"

definition compared :: "user_answer list \<Rightarrow> int list" where
  "compared as = filter (\<lambda>q. length (options_for as q) = 2) (remdups (map ua_question_id as))"

definition identical :: "user_answer list \<Rightarrow> int list" where
  "identical as = filter (\<lambda>q. options_for as q ! 0 = options_for as q ! 1) (compared as)"

definition compatibility :: "user_answer list \<Rightarrow> int" where
  "compatibility as = (if compared as = [] then 50
     else half_even (rat_of_nat (length (identical as)) / rat_of_nat (length (compared as)) * 100))"

datatype tier = TierLow | TierMidLow | TierMidHigh | TierHigh

definition tier_of :: "int \<Rightarrow> tier" where
  "tier_of pct = (if pct < 30 then TierLow else if pct < 50 then TierMidLow
     else if pct < 70 then TierMidHigh else TierHigh)"

text \<open>The partner's first five answers, and how many more there are.\<close>

definition html_escape :: "string \<Rightarrow> string" where
  "html_escape s = concat (map (\<lambda>c. if c = CHR ''&'' then ''&amp;'' else if c = CHR ''<'' then ''&lt;''
     else if c = CHR ''>'' then ''&gt;'' else if c = CHR 0x22 then ''&quot;''
     else if c = CHR 0x27 then ''&#x27;'' else [c]) s)"

definition summary_label :: "question \<Rightarrow> string" where
  "summary_label q = html_escape
     (if truthy (q_short_label q) then the (q_short_label q)
      else if length (q_question_text q) > 30 then take 30 (q_question_text q) @ ''...''
      else q_question_text q)"

definition summary_option :: "string \<Rightarrow> question \<Rightarrow> string" where
  "summary_option opt q =
     (let t = (if opt = ''B'' then Some (q_option_b q) else if opt = ''C'' then q_option_c q
               else if opt = ''D'' then q_option_d q else Some (q_option_a q))
      in html_escape (if truthy t then the t else q_option_a q))"

record summary_line =
  sl_number :: nat
  sl_question :: int
  sl_label :: string
  sl_option :: string

definition build_partner_answer_summary :: "int \<Rightarrow> int \<Rightarrow> db \<Rightarrow> summary_line list \<times> nat" where
  "build_partner_answer_summary mid partner d =
     (let found = [(a, q). a \<leftarrow> answers_of mid d, ua_user_id a = partner,
                          q \<leftarrow> rows (questions d), q_id q = ua_question_id a]
      in (map (\<lambda>(i, a, q). \<lparr>sl_number = i + 1, sl_question = q_id q, sl_label = summary_label q,
                 sl_option = summary_option (ua_selected_option a) q\<rparr>)
            (enumerate 0 (take 5 found)), length found - 5))"

definition ask_consent :: "int \<Rightarrow> fsm \<Rightarrow> fsm" where
  "ask_consent pct c = set_state (Some WAITING_APPROVAL) (update_data ''compatibility_pct'' (FInt pct) c)"

definition finalize_questionnaire :: "(int \<Rightarrow> delivery) \<Rightarrow> int \<Rightarrow> match_history \<Rightarrow> dworld \<Rightarrow> dworld" where
  "finalize_questionnaire deliver mid m w =
     (let pct = compatibility (answers_of mid (dw_db w));
          one = mh_user_one_id m; two = mh_user_two_id m;
          w1 = on_fsm two (ask_consent pct) (on_fsm one (ask_consent pct) w)
      in if deliver one = Delivered \<and> deliver two = Delivered then w1
         else leave two (leave one (on_match (mh_id m) (\<lambda>m. m\<lparr>mh_is_active := False\<rparr>) w1)))"

section \<open>The next question\<close>

definition next_question :: "nat \<Rightarrow> fsm \<Rightarrow> fsm" where
  "next_question i c = set_state (Some ANSWERING) (update_data ''current_question_index'' (FInt (int i)) c)"

definition stop_date :: "int \<Rightarrow> int \<Rightarrow> dworld \<Rightarrow> dworld" where
  "stop_date now mid w = on_db (\<lambda>d. d\<lparr>matches := upd_where (\<lambda>m. mh_id m = mid \<and> mh_is_active m)
     (\<lambda>m. m\<lparr>mh_is_active := False, mh_ended_at := Some (Naive now)\<rparr>) (matches d)\<rparr>) w"

text \<open>A user who has blocked the bot ends the date on the spot; any other failure to deliver is
  logged.  An index outside the pool calls a function its import does not find, which is logged
  too.\<close>

definition deliver_next_question ::
  "(int \<Rightarrow> delivery) \<Rightarrow> int \<Rightarrow> int \<Rightarrow> nat \<Rightarrow> int list \<Rightarrow> int \<Rightarrow> int \<Rightarrow> dworld \<Rightarrow> dworld" where
  "deliver_next_question deliver now mid i pool one two w =
     (if length pool \<le> i then w
      else case by_key q_id (pool ! i) (questions (dw_db w)) of
             None \<Rightarrow> w
           | Some q \<Rightarrow>
               let w1 = on_fsm one (next_question i) w
               in if deliver one = Forbidden then leave two (leave one (stop_date now mid w1))
                  else let w2 = on_fsm two (next_question i) w1
                  in if deliver two = Forbidden then leave one (leave two (stop_date now mid w2))
                  else w2)"

section \<open>An answer\<close>

datatype answer_reply = Malformed | NoSession | NotSaved | AlreadyCounted | WaitForPartner
  | TooMany | NoPool | NoMatch | Advanced nat | Finished

definition sync_members :: "int \<Rightarrow> int \<times> int \<Rightarrow> dworld \<Rightarrow> int set" where
  "sync_members now k w = (case dw_sync w k of
     None \<Rightarrow> {}
   | Some (ms, e) \<Rightarrow> (case e of None \<Rightarrow> ms | Some t \<Rightarrow> if now < t then ms else {}))"

definition sync_expiry :: "int \<Rightarrow> int \<times> int \<Rightarrow> dworld \<Rightarrow> int option" where
  "sync_expiry now k w = (case dw_sync w k of
     None \<Rightarrow> None
   | Some (ms, e) \<Rightarrow> (case e of None \<Rightarrow> None | Some t \<Rightarrow> if now < t then Some t else None))"

definition sync_put :: "int \<times> int \<Rightarrow> int set \<Rightarrow> int option \<Rightarrow> dworld \<Rightarrow> dworld" where
  "sync_put k ms e w = w\<lparr>dw_sync := (dw_sync w)(k \<mapsto> (ms, e))\<rparr>"

text \<open>Both have answered: the next question, or the end.\<close>

definition advance :: "(int \<Rightarrow> delivery) \<Rightarrow> int \<Rightarrow> int \<Rightarrow> nat \<Rightarrow> dworld \<Rightarrow> dworld \<times> answer_reply" where
  "advance deliver now mid i w =
     (case fetch_question_pool mid w of
        None \<Rightarrow> (w, NoPool)
      | Some pool \<Rightarrow>
          (case match_row mid w of
             None \<Rightarrow> (w, NoMatch)
           | Some m \<Rightarrow>
               if i < TOTAL_QUESTIONS then
                 (deliver_next_question deliver now mid i pool (mh_user_one_id m) (mh_user_two_id m) w, Advanced i)
               else
                 (finalize_questionnaire deliver mid m
                    (on_match mid (\<lambda>m. m\<lparr>mh_questionnaire_completed := True\<rparr>) w), Finished)))"

definition register_question_response ::
  "(int \<Rightarrow> delivery) \<Rightarrow> int \<Rightarrow> int \<Rightarrow> string \<Rightarrow> dworld \<Rightarrow> dworld \<times> answer_reply" where
  "register_question_response deliver now tg data w =
     (case parse_answer_callback data of
        None \<Rightarrow> (w, Malformed)
      | Some (opt, qid) \<Rightarrow>
          let mid0 = fsm_int ''match_history_id'' (dw_fsm w tg);
              idx = (case fsm_int ''current_question_index'' (dw_fsm w tg) of None \<Rightarrow> 0 | Some i \<Rightarrow> i)
          in (if mid0 = None \<or> mid0 = Some 0 then (w, NoSession)
              else let mid = the mid0; w1 = on_fsm tg (set_state (Some WAITING_PARTNER)) w
              in (case save_user_answer now tg qid mid opt (dw_db w1) of
                    None \<Rightarrow> (on_fsm tg (set_state (Some ANSWERING)) w1, NotSaved)
                  | Some d \<Rightarrow>
                      let w2 = w1\<lparr>dw_db := d, dw_sched := update_user_activity now mid (dw_sched w1)\<rparr>;
                          ms = sync_members now (mid, qid) w2;
                          ms' = insert tg ms;
                          w3 = sync_put (mid, qid) ms' (sync_expiry now (mid, qid) w2) w2
                      in if tg \<in> ms then (w2, AlreadyCounted)
                         else if card ms' = 1 then
                           (sync_put (mid, qid) ms' (Some (now + SYNC_KEY_TTL)) w2, WaitForPartner)
                         else if card ms' > 2 then (w3, TooMany)
                         else advance deliver now mid (nat (idx + 1)) w3)))"

text \<open>The handler is registered for one state; in the other an answer changes nothing.\<close>

definition answer_pressed ::
  "(int \<Rightarrow> delivery) \<Rightarrow> int \<Rightarrow> int \<Rightarrow> string \<Rightarrow> dworld \<Rightarrow> dworld" where
  "answer_pressed deliver now tg data w =
     (if fsm_state (dw_fsm w tg) = Some ANSWERING \<and> starts_with ''ans_'' data
      then fst (register_question_response deliver now tg data w) else w)"

section \<open>The answer buttons\<close>

definition int_str :: "int \<Rightarrow> string" where
  "int_str i = map char_of (py_str i)"

text \<open>What \<open>get_question_reply_keyboard\<close> puts on the buttons.\<close>

definition answer_button :: "char \<Rightarrow> int \<Rightarrow> string" where
  "answer_button x qid = ''ans_'' @ [x] @ ''_'' @ int_str qid"

definition question_reply_buttons :: "int \<Rightarrow> bool \<Rightarrow> string list" where
  "question_reply_buttons qid four = map (\<lambda>x. answer_button x qid)
     (if four then ''abcd'' else ''ab'')"

lemma lit_int_str [simp]: "lit (int_str i) = py_str i"
proof -
  have "of_char (char_of c :: char) = c" if "c \<in> set (py_str i)" for c :: nat
    using py_str_chars [OF that] by (auto simp: of_char_of)
  then show ?thesis by (simp add: lit_def int_str_def map_idI)
qed

lemma split_on_none: "sep \<notin> set xs \<Longrightarrow> split_on sep cur xs = [rev cur @ xs]"
  by (induction xs arbitrary: cur) auto

lemma split_on_sep: "sep \<notin> set xs \<Longrightarrow> split_on sep cur (xs @ sep # ys) = (rev cur @ xs) # split_on sep [] ys"
  by (induction xs arbitrary: cur) auto

lemma int_str_chars: "CHR ''_'' \<notin> set (int_str i)"
proof
  assume "CHR ''_'' \<in> set (int_str i)"
  then have "of_char CHR ''_'' \<in> set (lit (int_str i))" unfolding lit_def by (simp only: set_map) blast
  then have "(95::nat) \<in> set (py_str i)" by simp
  then show False using py_str_chars by fastforce
qed

lemma parse_answer_button:
  assumes "(x, y) \<in> set (zip ''abcd'' ''ABCD'')"
  shows "parse_answer_callback (answer_button x qid) = Some ([y], qid)"
proof -
  have "split_on CHR ''_'' [] (answer_button x qid) = [''ans'', [x], int_str qid]"
    using assms split_on_none [OF int_str_chars, of "[]" qid] by (auto simp: answer_button_def)
  then show ?thesis
    using assms by (auto simp: parse_answer_callback_def py_int_str)
qed

lemma join_chars: "44 \<notin> \<Union> (set ` set xs) \<Longrightarrow> xs \<noteq> [] \<Longrightarrow> split_on 44 [] (join_comma xs) = xs"
proof (induction xs rule: join_comma.induct)
  case (3 x y zs)
  then show ?case using split_on_sep [of 44 x "[]" "join_comma (y # zs)"] by simp
qed (simp_all add: split_on_none)

lemma py_str_no_comma: "44 \<notin> set (py_str i)"
  using py_str_chars by fastforce

lemma join_nonempty: "xs \<noteq> [] \<Longrightarrow> [] \<notin> set xs \<Longrightarrow> join_comma xs \<noteq> []"
  by (induction xs rule: join_comma.induct) auto

lemma fetch_pool_text:
  assumes "dw_pool w mid = Some (pool_text ids)" and "ids \<noteq> []"
  shows "fetch_question_pool mid w = Some ids"
proof -
  have "split_on 44 [] (pool_text ids) = map py_str ids"
    unfolding pool_text_def by (rule join_chars) (use assms py_str_no_comma in auto)
  moreover have "pool_text ids \<noteq> []"
    unfolding pool_text_def by (rule join_nonempty) (use assms(2) in \<open>auto simp: image_iff dest: sym [of "[]"]\<close>)
  moreover have "map py_int (map py_str ids) = map Some ids" "map the (map Some ids) = ids"
    "None \<notin> set (map Some ids)"
    by (simp_all add: py_int_str map_idI)
  ultimately show ?thesis
    unfolding fetch_question_pool_def Let_def assms(1) by (simp del: map_map)
qed

section \<open>Texts and numbers\<close>

text \<open>The bot reads back what it wrote: every button of a question parses to its option, in
  capitals, and the question's id; and the question pool stored for a date is read back as the
  same ids in the same order.\<close>

theorem stored_text_roundtrip:
  "(\<forall>(x, y)\<in>set (zip (question_reply_buttons qid True) ''ABCD'').
      parse_answer_callback x = Some ([y], qid)) \<and>
   (ids \<noteq> [] \<longrightarrow> fetch_question_pool mid (w\<lparr>dw_pool := (dw_pool w)(mid \<mapsto> pool_text ids)\<rparr>) = Some ids)"
proof (intro conjI impI ballI)
  fix p assume "p \<in> set (zip (question_reply_buttons qid True) ''ABCD'')"
  then obtain x y where "p = (answer_button x qid, y)" "(x, y) \<in> set (zip ''abcd'' ''ABCD'')"
    by (auto simp: question_reply_buttons_def)
  then show "case p of (x, y) \<Rightarrow> parse_answer_callback x = Some ([y], qid)"
    using parse_answer_button by simp
next
  assume "ids \<noteq> []"
  then show "fetch_question_pool mid (w\<lparr>dw_pool := (dw_pool w)(mid \<mapsto> pool_text ids)\<rparr>) = Some ids"
    by (intro fetch_pool_text) simp_all
qed

theorem stored_text_roundtrip_witness:
  "\<forall>w :: dworld. fetch_question_pool 7 (w\<lparr>dw_pool := (dw_pool w)(7 \<mapsto> pool_text [12, 5])\<rparr>) = Some [12, 5]"
proof
  fix w :: dworld
  show "fetch_question_pool 7 (w\<lparr>dw_pool := (dw_pool w)(7 \<mapsto> pool_text [12, 5])\<rparr>) = Some [12, 5]"
    using stored_text_roundtrip [of 0 "[12, 5]" 7 w] by simp
qed

lemma quarter_even_bounds:
  fixes x :: rat
  assumes "0 \<le> x" and "x \<le> 100"
  shows "0 \<le> half_even x \<and> half_even x \<le> 100"
proof -
  have f: "0 \<le> \<lfloor>x\<rfloor>" "\<lfloor>x\<rfloor> \<le> 100" using assms by (simp_all add: floor_le_iff)
  show ?thesis
  proof (cases "\<lfloor>x\<rfloor> = 100")
    case True
    then have "x = 100" using assms(2) of_int_floor_le [of x] by simp
    then show ?thesis by (simp add: half_even_def)
  next
    case False
    define n where "n = \<lfloor>x\<rfloor>"
    from f False have "0 \<le> n" "n + 1 \<le> 100" unfolding n_def by linarith+
    then show ?thesis by (auto simp: half_even_def Let_def n_def [symmetric])
  qed
qed

lemma identical_le: "length (identical as) \<le> length (compared as)"
  by (simp add: identical_def)

lemma compatibility_bounds: "0 \<le> compatibility as \<and> compatibility as \<le> 100"
proof (cases "compared as = []")
  case False
  let ?x = "rat_of_nat (length (identical as)) / rat_of_nat (length (compared as)) * 100"
  have "0 \<le> ?x" "?x \<le> 100"
    using False identical_le [of as] by (simp_all add: field_simps)
  from quarter_even_bounds [OF this] show ?thesis by (simp add: compatibility_def False)
qed (simp add: compatibility_def)

text \<open>The compatibility shown to a couple is a percentage: between 0 and 100 whatever was
  answered, 50 when no question was answered by both, 100 when all common answers agree and 0
  when none does.\<close>

theorem compatibility_percentage:
  "0 \<le> compatibility as \<and> compatibility as \<le> 100 \<and>
   (compared as = [] \<longrightarrow> compatibility as = 50) \<and>
   (compared as \<noteq> [] \<and> identical as = compared as \<longrightarrow> compatibility as = 100) \<and>
   (compared as \<noteq> [] \<and> identical as = [] \<longrightarrow> compatibility as = 0)"
proof -
  note b = compatibility_bounds [of as]
  have "half_even (100 :: rat) = 100" "half_even (0 :: rat) = 0"
    by (simp_all add: half_even_def)
  with b show ?thesis by (simp add: compatibility_def)
qed

theorem compatibility_percentage_witness:
  "compatibility [] = 50"
  using compatibility_percentage [of "[]"] by (simp add: compared_def)

lemma html_escape_safe: "c \<in> set (html_escape s) \<Longrightarrow> c \<noteq> CHR ''<'' \<and> c \<noteq> CHR ''>'' \<and> c \<noteq> CHR 0x22"
  by (auto simp: html_escape_def split: if_splits)

text \<open>The summary a user sees of the partner's answers cannot carry markup: no line has an
  angle bracket or a quote from a question or option, and it has at most five lines, numbered
  from one, with the rest counted.\<close>

theorem summary_is_escaped:
  "\<forall>l\<in>set (fst (build_partner_answer_summary mid p d)).
      CHR ''<'' \<notin> set (sl_label l) \<union> set (sl_option l) \<and> CHR ''>'' \<notin> set (sl_label l) \<union> set (sl_option l) \<and>
      1 \<le> sl_number l \<and> sl_number l \<le> 5"
proof -
  let ?rows = "[(a, q). a \<leftarrow> answers_of mid d, ua_user_id a = p, q \<leftarrow> rows (questions d), q_id q = ua_question_id a]"
  have "length (take 5 ?rows) \<le> 5" by simp
  moreover have "x < length (take 5 ?rows)" if "(x, y) \<in> set (enumerate 0 (take 5 ?rows))" for x y
    using that by (auto simp: in_set_enumerate_eq)
  ultimately have "x < 5" if "(x, y) \<in> set (enumerate 0 (take 5 ?rows))" for x y
    using that by (meson less_le_trans)
  then show ?thesis
    by (auto simp: build_partner_answer_summary_def Let_def summary_label_def summary_option_def
        dest!: html_escape_safe) force
qed

section \<open>The questionnaire as a protocol of two\<close>

text \<open>The contract: both are asked question \<open>i\<close>; those in \<open>A\<close> have answered; when both have, both
  are asked the next one, and after the last they are asked for their consent.\<close>

datatype phase = Asking nat "int set" | Consenting

fun answer_step :: "int \<Rightarrow> int \<Rightarrow> int \<Rightarrow> phase \<Rightarrow> phase" where
  "answer_step one two u Consenting = Consenting"
| "answer_step one two u (Asking i A) =
     (if u \<in> A \<or> u \<notin> {one, two} then Asking i A
      else if A = {} then Asking i {u}
      else if i + 1 < TOTAL_QUESTIONS then Asking (i + 1) {} else Consenting)"

text \<open>The world of a date that goes well: who it is between, its pool of twenty questions.\<close>

definition date_world :: "int \<Rightarrow> int \<Rightarrow> int \<Rightarrow> int list \<Rightarrow> dworld \<Rightarrow> bool" where
  "date_world mid one two pool w \<longleftrightarrow> one \<noteq> two \<and> mid \<noteq> 0 \<and> TOTAL_QUESTIONS \<le> length pool \<and> distinct pool \<and>
     dw_pool w mid = Some (pool_text pool) \<and>
     (\<forall>q\<in>set pool. by_key q_id q (questions (dw_db w)) \<noteq> None) \<and>
     (\<exists>m. match_row mid w = Some m \<and> mh_user_one_id m = one \<and> mh_user_two_id m = two) \<and>
     (\<forall>u\<in>{one, two}. fsm_int ''match_history_id'' (dw_fsm w u) = Some mid)"

text \<open>Where it stands: \<open>t\<close> is when the one who waits answered.\<close>

definition asking :: "int \<Rightarrow> int \<Rightarrow> int \<Rightarrow> int list \<Rightarrow> nat \<Rightarrow> int set \<Rightarrow> int \<Rightarrow> dworld \<Rightarrow> bool" where
  "asking mid one two pool i A t w \<longleftrightarrow> i < TOTAL_QUESTIONS \<and> (A = {} \<or> A = {one} \<or> A = {two}) \<and>
     (\<forall>u\<in>{one, two}. fsm_int ''current_question_index'' (dw_fsm w u) = Some (int i) \<and>
        fsm_state (dw_fsm w u) = Some (if u \<in> A then WAITING_PARTNER else ANSWERING)) \<and>
     (\<forall>a\<in>set (rows (answers (dw_db w))). ua_match_history_id a = mid \<longrightarrow>
        (\<exists>j<i. ua_question_id a = pool ! j) \<or> ua_question_id a = pool ! i \<and> ua_user_id a \<in> A) \<and>
     (\<forall>j. i < j \<and> j < length pool \<longrightarrow> dw_sync w (mid, pool ! j) = None) \<and>
     dw_sync w (mid, pool ! i) = (if A = {} then None else Some (A, Some (t + SYNC_KEY_TTL)))"

definition consenting :: "int \<Rightarrow> int \<Rightarrow> int \<Rightarrow> dworld \<Rightarrow> bool" where
  "consenting mid one two w \<longleftrightarrow>
     (\<exists>pct. 0 \<le> pct \<and> pct \<le> 100 \<and> (\<forall>u\<in>{one, two}. fsm_state (dw_fsm w u) = Some WAITING_APPROVAL \<and>
        fsm_int ''compatibility_pct'' (dw_fsm w u) = Some pct)) \<and>
     (\<exists>m. match_row mid w = Some m \<and> mh_questionnaire_completed m)"

fun implements :: "int \<Rightarrow> int \<Rightarrow> int \<Rightarrow> int list \<Rightarrow> int \<Rightarrow> phase \<Rightarrow> dworld \<Rightarrow> bool" where
  "implements mid one two pool t (Asking i A) w \<longleftrightarrow> date_world mid one two pool w \<and> asking mid one two pool i A t w"
| "implements mid one two pool t Consenting w \<longleftrightarrow> consenting mid one two w"

section \<open>Lemmas\<close>

lemma fsm_int_simps [simp]:
  "fsm_int k (set_state s c) = fsm_int k c"
  "fsm_int k (update_data k' (FInt v) c) = (if k = k' then Some v else fsm_int k c)"
  by (simp_all add: fsm_int_def)

lemma on_fsm_simps [simp]:
  "dw_db (on_fsm u f w) = dw_db w" "dw_pool (on_fsm u f w) = dw_pool w" "dw_sync (on_fsm u f w) = dw_sync w"
  "dw_fsm (on_fsm u f w) v = (if v = u then f (dw_fsm w u) else dw_fsm w v)"
  "match_row mid (on_fsm u f w) = match_row mid w"
  by (simp_all add: on_fsm_def match_row_def)

lemma on_match_simps [simp]:
  "dw_pool (on_match mid f w) = dw_pool w" "dw_sync (on_match mid f w) = dw_sync w"
  "dw_fsm (on_match mid f w) = dw_fsm w"
  "answers (dw_db (on_match mid f w)) = answers (dw_db w)"
  "questions (dw_db (on_match mid f w)) = questions (dw_db w)"
  by (simp_all add: on_match_def on_db_def)

lemma match_row_on_match:
  "(\<And>m. mh_id (f m) = mh_id m) \<Longrightarrow> match_row k (on_match mid f w) =
     (if k = mid then map_option f (match_row k w) else match_row k w)"
  by (simp add: match_row_def on_match_def on_db_def by_key_upd)

lemma sync_put_simps [simp]:
  "dw_db (sync_put k ms e w) = dw_db w" "dw_pool (sync_put k ms e w) = dw_pool w"
  "dw_fsm (sync_put k ms e w) = dw_fsm w" "match_row mid (sync_put k ms e w) = match_row mid w"
  "dw_sync (sync_put k ms e w) = (dw_sync w)(k \<mapsto> (ms, e))"
  by (simp_all add: sync_put_def match_row_def)

text \<open>The world once an answer is saved.\<close>

definition answered :: "int \<Rightarrow> int \<Rightarrow> int \<Rightarrow> int \<Rightarrow> string \<Rightarrow> dworld \<Rightarrow> dworld" where
  "answered now u qid mid opt w = (on_fsm u (set_state (Some WAITING_PARTNER)) w)\<lparr>
     dw_db := (dw_db w)\<lparr>answers := insert_row (\<lambda>i. \<lparr>ua_id = i, ua_user_id = u, ua_question_id = qid,
       ua_match_history_id = mid, ua_selected_option = opt, ua_answered_at = Aware now\<rparr>) (answers (dw_db w))\<rparr>,
     dw_sched := update_user_activity now mid (dw_sched w)\<rparr>"

lemma answered_simps [simp]:
  "dw_pool (answered now u qid mid opt w) = dw_pool w" "dw_sync (answered now u qid mid opt w) = dw_sync w"
  "dw_fsm (answered now u qid mid opt w) v = (if v = u then set_state (Some WAITING_PARTNER) (dw_fsm w u) else dw_fsm w v)"
  "match_row k (answered now u qid mid opt w) = match_row k w"
  "questions (dw_db (answered now u qid mid opt w)) = questions (dw_db w)"
  "rows (answers (dw_db (answered now u qid mid opt w))) = rows (answers (dw_db w)) @
     [\<lparr>ua_id = next_id (answers (dw_db w)), ua_user_id = u, ua_question_id = qid,
       ua_match_history_id = mid, ua_selected_option = opt, ua_answered_at = Aware now\<rparr>]"
  by (simp_all add: answered_def match_row_def)

lemma register_saved:
  assumes "parse_answer_callback data = Some (opt, qid)" and "fsm_int ''match_history_id'' (dw_fsm w u) = Some mid"
    and "mid \<noteq> 0" and "fsm_int ''current_question_index'' (dw_fsm w u) = Some (int i)"
    and "\<forall>a\<in>set (rows (answers (dw_db w))). \<not> same_answer u qid mid a"
  shows "register_question_response deliver now u data w =
    (let w2 = answered now u qid mid opt w; ms = sync_members now (mid, qid) w; ms' = insert u ms in
     if u \<in> ms then (w2, AlreadyCounted)
     else if card ms' = 1 then (sync_put (mid, qid) ms' (Some (now + SYNC_KEY_TTL)) w2, WaitForPartner)
     else if card ms' > 2 then (sync_put (mid, qid) ms' (sync_expiry now (mid, qid) w) w2, TooMany)
     else advance deliver now mid (Suc i) (sync_put (mid, qid) ms' (sync_expiry now (mid, qid) w) w2))"
proof -
  have "sel_where (same_answer u qid mid) (answers (dw_db w)) = []"
    using assms(5) by (simp add: sel_where_def filter_empty_conv)
  moreover have "nat (int i + 1) = Suc i" by simp
  moreover have "sync_members now k (w'\<lparr>dw_db := d, dw_sched := s\<rparr>) = sync_members now k w'"
    "sync_expiry now k (w'\<lparr>dw_db := d, dw_sched := s\<rparr>) = sync_expiry now k w'"
    "sync_members now k (on_fsm u f w) = sync_members now k w"
    "sync_expiry now k (on_fsm u f w) = sync_expiry now k w" for k w' d s f
    by (simp_all add: sync_members_def sync_expiry_def on_fsm_def)
  ultimately show ?thesis
    using assms(1-4)
    by (simp add: register_question_response_def save_user_answer_def Let_def answered_def)
      (simp add: on_fsm_def)
qed

lemma asking_answers:
  "asking mid one two pool i A t w \<Longrightarrow> a \<in> set (rows (answers (dw_db w))) \<Longrightarrow> ua_match_history_id a = mid \<Longrightarrow>
    (\<exists>j<i. ua_question_id a = pool ! j) \<or> ua_question_id a = pool ! i \<and> ua_user_id a \<in> A"
  unfolding asking_def by blast

text \<open>The pressed button of the current question is saved.\<close>

lemma asking_register:
  assumes "date_world mid one two pool w" and "asking mid one two pool i A t w" and "u \<in> {one, two}" and "u \<notin> A"
    and "(x, y) \<in> set (zip ''abcd'' ''ABCD'')"
  shows "answer_pressed deliver now u (answer_button x (pool ! i)) w =
      fst (register_question_response deliver now u (answer_button x (pool ! i)) w)"
    and "parse_answer_callback (answer_button x (pool ! i)) = Some ([y], pool ! i)"
    and "fsm_int ''match_history_id'' (dw_fsm w u) = Some mid" and "mid \<noteq> 0"
    and "fsm_int ''current_question_index'' (dw_fsm w u) = Some (int i)"
    and "\<forall>a\<in>set (rows (answers (dw_db w))). \<not> same_answer u (pool ! i) mid a"
proof -
  have i: "i < length pool" "distinct pool" using assms(1,2) by (auto simp: date_world_def asking_def)
  show "fsm_int ''match_history_id'' (dw_fsm w u) = Some mid" "mid \<noteq> 0"
    "fsm_int ''current_question_index'' (dw_fsm w u) = Some (int i)"
    using assms(1,2,3) by (auto simp: date_world_def asking_def)
  have "fsm_state (dw_fsm w u) = Some ANSWERING" using assms(2,3,4) by (auto simp: asking_def)
  moreover have "starts_with ''ans_'' (answer_button x (pool ! i))"
    by (simp add: starts_with_def answer_button_def)
  ultimately show "answer_pressed deliver now u (answer_button x (pool ! i)) w =
      fst (register_question_response deliver now u (answer_button x (pool ! i)) w)"
    by (simp add: answer_pressed_def)
  show "parse_answer_callback (answer_button x (pool ! i)) = Some ([y], pool ! i)"
    by (rule parse_answer_button [OF assms(5)])
  show "\<forall>a\<in>set (rows (answers (dw_db w))). \<not> same_answer u (pool ! i) mid a"
  proof
    fix a assume a: "a \<in> set (rows (answers (dw_db w)))"
    show "\<not> same_answer u (pool ! i) mid a"
    proof
      assume s: "same_answer u (pool ! i) mid a"
      with asking_answers [OF assms(2) a] have "(\<exists>j<i. ua_question_id a = pool ! j) \<or> ua_user_id a \<in> A"
        by (auto simp: same_answer_def)
      with s assms(4) i show False by (auto simp: same_answer_def nth_eq_iff_index_eq)
    qed
  qed
qed

lemma date_world_answered:
  assumes "date_world mid one two pool w"
  shows "date_world mid one two pool (sync_put k ms e (answered now u qid mid' opt w))"
  using assms by (auto simp: date_world_def)

text \<open>The first of the two to answer waits.\<close>

lemma first_answer:
  assumes w: "date_world mid one two pool w" "asking mid one two pool i {} t w" "u \<in> {one, two}"
    and x: "(x, y) \<in> set (zip ''abcd'' ''ABCD'')"
  shows "date_world mid one two pool (answer_pressed deliver now u (answer_button x (pool ! i)) w) \<and>
    asking mid one two pool i {u} now (answer_pressed deliver now u (answer_button x (pool ! i)) w)"
proof -
  note r = asking_register [OF w _ x]
  have s: "sync_members now (mid, pool ! i) w = {}"
    using w(2) by (simp add: asking_def sync_members_def)
  have e: "answer_pressed deliver now u (answer_button x (pool ! i)) w =
      sync_put (mid, pool ! i) {u} (Some (now + SYNC_KEY_TTL)) (answered now u (pool ! i) mid [y] w)"
    using register_saved [OF r(2-6)] s by (simp add: r(1) Let_def)
  have d: "pool ! j \<noteq> pool ! i" if "i < j" "j < length pool" for j
    using w(1) that by (auto simp: date_world_def nth_eq_iff_index_eq)
  have "asking mid one two pool i {u} now
      (sync_put (mid, pool ! i) {u} (Some (now + SYNC_KEY_TTL)) (answered now u (pool ! i) mid [y] w))"
    using w(2,3) d by (auto simp: asking_def)
  then show ?thesis by (simp add: e date_world_answered [OF w(1)])
qed

text \<open>The second one takes both to the next question.\<close>

lemma second_register:
  assumes w: "date_world mid one two pool w" "asking mid one two pool i {v} t w"
    and u: "u \<in> {one, two}" "v \<in> {one, two}" "u \<noteq> v" and x: "(x, y) \<in> set (zip ''abcd'' ''ABCD'')"
    and "now < t + SYNC_KEY_TTL"
  shows "answer_pressed deliver now u (answer_button x (pool ! i)) w =
    fst (advance deliver now mid (Suc i) (sync_put (mid, pool ! i) {u, v} (Some (t + SYNC_KEY_TTL))
       (answered now u (pool ! i) mid [y] w)))"
proof -
  have "u \<notin> {v}" using u by simp
  note r = asking_register [OF w u(1) this x]
  have s: "sync_members now (mid, pool ! i) w = {v}" "sync_expiry now (mid, pool ! i) w = Some (t + SYNC_KEY_TTL)"
    using w(2) assms(7) by (simp_all add: asking_def sync_members_def sync_expiry_def)
  show ?thesis
    using register_saved [OF r(2-6)] s u by (simp add: r(1) Let_def)
qed

lemma advance_next:
  assumes w: "date_world mid one two pool w" and i: "Suc i < TOTAL_QUESTIONS" and "\<forall>v. deliver v = Delivered"
  shows "fst (advance deliver now mid (Suc i) w) = on_fsm two (next_question (Suc i)) (on_fsm one (next_question (Suc i)) w)"
proof -
  have l: "Suc i < length pool" using w i by (simp add: date_world_def)
  then have "pool \<noteq> []" by auto
  with w have f: "fetch_question_pool mid w = Some pool" by (intro fetch_pool_text) (auto simp: date_world_def)
  obtain q where "by_key q_id (pool ! Suc i) (questions (dw_db w)) = Some q"
    using w l by (fastforce simp: date_world_def)
  moreover obtain m where "match_row mid w = Some m" "mh_user_one_id m = one" "mh_user_two_id m = two"
    using w by (auto simp: date_world_def)
  ultimately show ?thesis
    using f l i assms(3) by (simp add: advance_def deliver_next_question_def Let_def)
qed

lemma advance_end:
  assumes w: "date_world mid one two pool w" and i: "\<not> Suc i < TOTAL_QUESTIONS" and "\<forall>v. deliver v = Delivered"
  shows "consenting mid one two (fst (advance deliver now mid (Suc i) w))"
proof -
  have "pool \<noteq> []" using w by (auto simp: date_world_def TOTAL_QUESTIONS_def)
  with w have f: "fetch_question_pool mid w = Some pool" by (intro fetch_pool_text) (auto simp: date_world_def)
  obtain m where m: "match_row mid w = Some m" "mh_user_one_id m = one" "mh_user_two_id m = two"
    using w by (auto simp: date_world_def)
  have n: "one \<noteq> two" using w by (simp add: date_world_def)
  show ?thesis
    using f m i assms(3) n compatibility_bounds
    by (simp add: advance_def finalize_questionnaire_def Let_def consenting_def ask_consent_def match_row_on_match)
qed

lemma asking_advanced:
  assumes w: "date_world mid one two pool w" "asking mid one two pool i {v} t w"
    and u: "u \<in> {one, two}" "v \<in> {one, two}" "u \<noteq> v" and i: "Suc i < TOTAL_QUESTIONS"
    and w2: "w2 = sync_put (mid, pool ! i) {u, v} e (answered now u (pool ! i) mid [y] w)"
  shows "date_world mid one two pool (on_fsm two (next_question (Suc i)) (on_fsm one (next_question (Suc i)) w2)) \<and>
    asking mid one two pool (Suc i) {} t' (on_fsm two (next_question (Suc i)) (on_fsm one (next_question (Suc i)) w2))"
proof
  have n: "one \<noteq> two" using w(1) by (simp add: date_world_def)
  show "date_world mid one two pool (on_fsm two (next_question (Suc i)) (on_fsm one (next_question (Suc i)) w2))"
    using date_world_answered [OF w(1), of "(mid, pool ! i)" "{u, v}" e now u "pool ! i" mid "[y]"] n
    by (auto simp: date_world_def w2 next_question_def)
  have d: "pool ! j \<noteq> pool ! i" if "i < j" "j < length pool" for j
    using w(1) that by (auto simp: date_world_def nth_eq_iff_index_eq)
  have l: "Suc i < length pool" using w(1) i by (simp add: date_world_def)
  show "asking mid one two pool (Suc i) {} t' (on_fsm two (next_question (Suc i)) (on_fsm one (next_question (Suc i)) w2))"
    using w(2) i n d l asking_answers [OF w(2)]
    by (auto simp: asking_def w2 next_question_def less_Suc_eq)
qed

lemma answer_simulates:
  assumes w: "implements mid one two pool t p w" and u: "u \<in> {one, two}"
    and x: "(x, y) \<in> set (zip ''abcd'' ''ABCD'')" and del: "\<forall>v. deliver v = Delivered"
    and tm: "\<And>i A. p = Asking i A \<Longrightarrow> A \<noteq> {} \<Longrightarrow> now < t + SYNC_KEY_TTL"
    and data: "\<And>i A. p = Asking i A \<Longrightarrow> data = answer_button x (pool ! i)"
  shows "implements mid one two pool (case p of Consenting \<Rightarrow> t | Asking i A \<Rightarrow> if u \<in> A then t else now)
    (answer_step one two u p) (answer_pressed deliver now u data w)"
proof (cases p)
  case Consenting
  with w u have "fsm_state (dw_fsm w u) = Some WAITING_APPROVAL" by (auto simp: consenting_def)
  then have "answer_pressed deliver now u data w = w" by (simp add: answer_pressed_def date_states)
  with w Consenting show ?thesis by simp
next
  case (Asking i A)
  with w have d: "date_world mid one two pool w" and a: "asking mid one two pool i A t w" by simp_all
  note dat = data [OF Asking]
  from a consider (again) "u \<in> A" | (first) "A = {}"
    | (second) v where "A = {v}" "v \<in> {one, two}" "u \<noteq> v" by (auto simp: asking_def)
  then show ?thesis
  proof cases
    case again
    with a u have "fsm_state (dw_fsm w u) = Some WAITING_PARTNER" by (auto simp: asking_def)
    then have "answer_pressed deliver now u data w = w" by (simp add: answer_pressed_def date_states)
    with again Asking w show ?thesis by simp
  next
    case first
    then show ?thesis using first_answer [OF d _ u x, of i t deliver now] a u Asking dat by simp
  next
    case second
    note s = second_register [OF d _ u second(2,3) x, of i t now deliver]
    let ?w2 = "sync_put (mid, pool ! i) {u, v} (Some (t + SYNC_KEY_TTL)) (answered now u (pool ! i) mid [y] w)"
    have e: "answer_pressed deliver now u data w = fst (advance deliver now mid (Suc i) ?w2)"
      using s a second(1) tm [OF Asking] dat by simp
    note d2 = date_world_answered [OF d, of "(mid, pool ! i)" "{u, v}" "Some (t + SYNC_KEY_TTL)" now u "pool ! i" mid "[y]"]
    show ?thesis
    proof (cases "Suc i < TOTAL_QUESTIONS")
      case True
      have "asking mid one two pool i {v} t w" using a second(1) by simp
      note n = asking_advanced [OF d this u second(2,3) True refl,
          where e = "Some (t + SYNC_KEY_TTL)" and now = now and y = y and t' = now]
      show ?thesis using n second u Asking True by (simp add: e advance_next [OF d2 True del])
    next
      case False
      then show ?thesis using advance_end [OF d2 False del] second u Asking by (simp add: e)
    qed
  qed
qed

section \<open>The protocol's properties\<close>


text \<open>A round: one user and then the other presses a button of the question they are asked.\<close>

definition press :: "(int \<Rightarrow> delivery) \<Rightarrow> int list \<Rightarrow> int \<times> int \<times> char \<Rightarrow> dworld \<Rightarrow> dworld" where
  "press deliver pool = (\<lambda>(now, u, x) w. answer_pressed deliver now u
     (answer_button x (pool ! nat (the (fsm_int ''current_question_index'' (dw_fsm w u))))) w)"

definition couple_round :: "int \<Rightarrow> int \<Rightarrow> (int \<times> int \<times> char) \<times> (int \<times> int \<times> char) \<Rightarrow> bool" where
  "couple_round one two = (\<lambda>((t1, u, x), (t2, v, y)). {u, v} = {one, two} \<and> t2 < t1 + SYNC_KEY_TTL \<and>
     x \<in> set ''abcd'' \<and> y \<in> set ''abcd'')"

definition play :: "(int \<Rightarrow> delivery) \<Rightarrow> int list \<Rightarrow> ((int \<times> int \<times> char) \<times> (int \<times> int \<times> char)) list \<Rightarrow> dworld \<Rightarrow> dworld" where
  "play deliver pool = fold (\<lambda>(a, b) w. press deliver pool b (press deliver pool a w))"

lemma press_simulates:
  assumes "implements mid one two pool t (Asking i A) w" and "u \<in> {one, two}" and "x \<in> set ''abcd''"
    and "\<forall>v. deliver v = Delivered" and "A \<noteq> {} \<Longrightarrow> now < t + SYNC_KEY_TTL"
  shows "implements mid one two pool (if u \<in> A then t else now) (answer_step one two u (Asking i A))
    (press deliver pool (now, u, x) w)"
proof -
  obtain y where y: "(x, y) \<in> set (zip ''abcd'' ''ABCD'')" using assms(3) by auto
  have "fsm_int ''current_question_index'' (dw_fsm w u) = Some (int i)"
    using assms(1,2) by (auto simp: asking_def)
  with answer_simulates [OF assms(1,2) y assms(4), of now "answer_button x (pool ! i)"] assms(5)
  show ?thesis by (simp add: press_def)
qed

lemma round_simulates:
  assumes "implements mid one two pool t (Asking i {}) w" and "couple_round one two (a, b)" and "\<forall>v. deliver v = Delivered"
  shows "\<exists>t'. implements mid one two pool t' (if i + 1 < TOTAL_QUESTIONS then Asking (i + 1) {} else Consenting)
    (press deliver pool b (press deliver pool a w))"
proof -
  obtain t1 u x t2 v y where ab: "a = (t1, u, x)" "b = (t2, v, y)" by (metis prod_cases3)
  have n: "one \<noteq> two" using assms(1) by (simp add: date_world_def)
  with assms(2) have r: "u \<in> {one, two}" "v \<in> {one, two}" "u \<noteq> v" "t2 < t1 + SYNC_KEY_TTL" "x \<in> set ''abcd''" "y \<in> set ''abcd''"
    by (auto simp: couple_round_def ab doubleton_eq_iff)
  have "implements mid one two pool t1 (Asking i {u}) (press deliver pool a w)"
    using press_simulates [OF assms(1) r(1) r(5) assms(3), of t1] r(1) by (auto simp: ab)
  from press_simulates [OF this r(2) r(6) assms(3), of t2] r
  show ?thesis by (auto simp: ab)
qed


text \<open>A couple whose second answer comes more than an hour after the first is stuck: the set
  that counts the answers has expired, so both wait for the other, and no press of either
  changes anything any more.\<close>

theorem late_answer_deadlocks:
  assumes "implements mid one two pool t (Asking i {v}) w" and "u \<in> {one, two}" and "u \<noteq> v"
    and "x \<in> set ''abcd''" and "now \<ge> t + SYNC_KEY_TTL"
  shows "\<forall>p\<in>{one, two}. \<forall>later data. answer_pressed deliver later p data
      (answer_pressed deliver now u (answer_button x (pool ! i)) w) =
    answer_pressed deliver now u (answer_button x (pool ! i)) w"
proof -
  from assms(1) have d: "date_world mid one two pool w" and a: "asking mid one two pool i {v} t w" by simp_all
  obtain y where y: "(x, y) \<in> set (zip ''abcd'' ''ABCD'')" using assms(4) by auto
  have "u \<notin> {v}" using assms(3) by simp
  note r = asking_register [OF d a assms(2) this y]
  have s: "sync_members now (mid, pool ! i) w = {}" using a assms(5) by (simp add: asking_def sync_members_def)
  have "answer_pressed deliver now u (answer_button x (pool ! i)) w =
      sync_put (mid, pool ! i) {u} (Some (now + SYNC_KEY_TTL)) (answered now u (pool ! i) mid [y] w)"
    using register_saved [OF r(2-6)] s by (simp add: r(1) Let_def)
  moreover have "v \<in> {one, two}" "fsm_state (dw_fsm w v) = Some WAITING_PARTNER" using a by (auto simp: asking_def)
  ultimately show ?thesis
    using assms(2,3) by (auto simp: answer_pressed_def date_states)
qed

section \<open>A date\<close>

definition demo_question :: "int \<Rightarrow> question" where
  "demo_question i = \<lparr>q_id = i, q_question_text = ''Tea or coffee?'', q_option_a = ''tea'',
     q_option_b = ''coffee'', q_option_c = None, q_option_d = None, q_category = ''x'', q_short_label = None\<rparr>"

definition demo_fsm :: fsm where
  "demo_fsm = \<lparr>fsm_state = Some ANSWERING,
     fsm_data = [''match_history_id'' \<mapsto> FInt 7, ''current_question_index'' \<mapsto> FInt 0]\<rparr>"

definition demo_date :: dworld where
  "demo_date = \<lparr>dw_db = empty_db\<lparr>questions := \<lparr>rows = map demo_question [1..20], next_id = 21\<rparr>,
       matches := \<lparr>rows = [new_match 0 1 2 7], next_id = 8\<rparr>\<rparr>,
     dw_sched = idle_sched, dw_store = empty_store, dw_fsm = (\<lambda>_. demo_fsm),
     dw_pool = [7 \<mapsto> pool_text [1..20]], dw_sync = Map.empty, dw_skip = Map.empty,
     dw_cooldown = Map.empty, dw_last = Map.empty\<rparr>"

lemma demo_question_found:
  assumes "q \<in> set [1..20]"
  shows "by_key q_id q (questions (dw_db demo_date)) \<noteq> None"
proof -
  have "q \<in> q_id ` set (rows (questions (dw_db demo_date)))"
    using assms by (auto simp: demo_date_def demo_question_def image_image)
  then show ?thesis by (simp add: by_key_def find_key_None_iff)
qed

lemma demo_implements: "implements 7 1 2 [1..20] 0 (Asking 0 {}) demo_date"
proof -
  have "date_world 7 1 2 [1..20] demo_date"
    unfolding date_world_def using demo_question_found
    by (simp add: TOTAL_QUESTIONS_def) (simp add: demo_date_def demo_fsm_def fsm_int_def match_row_def by_key_def new_match_def)
  moreover have "asking 7 1 2 [1..20] 0 {} 0 demo_date"
    by (simp add: asking_def demo_date_def demo_fsm_def fsm_int_def TOTAL_QUESTIONS_def empty_db_def empty_tbl_def)
  ultimately show ?thesis by simp
qed


definition demo_round :: "(int \<times> int \<times> char) \<times> (int \<times> int \<times> char)" where
  "demo_round = ((0, 2, CHR ''b''), (60, 1, CHR ''a''))"


theorem late_answer_deadlocks_witness:
  "\<exists>w. fsm_state (dw_fsm w 1) = Some ANSWERING \<and> (\<forall>later data.
     answer_pressed (\<lambda>_. Delivered) later 1 data
       (answer_pressed (\<lambda>_. Delivered) (3601 * second_us) 1 (answer_button CHR ''a'' ([1..20] ! 0)) w) =
     answer_pressed (\<lambda>_. Delivered) (3601 * second_us) 1 (answer_button CHR ''a'' ([1..20] ! 0)) w)"
proof -
  have w: "implements 7 1 2 [1..20] 0 (Asking 0 {2})
      (answer_pressed (\<lambda>_. Delivered) 0 2 (answer_button CHR ''b'' ([1..20] ! 0)) demo_date)" (is "implements _ _ _ _ _ _ ?w")
    using answer_simulates [OF demo_implements, of 2 "CHR ''b''" "CHR ''B''" "\<lambda>_. Delivered" 0
        "answer_button CHR ''b'' ([1..20] ! 0)"] by simp
  have "fsm_state (dw_fsm ?w 1) = Some ANSWERING" using w by (simp add: asking_def)
  moreover note late_answer_deadlocks [OF w, of 1 "CHR ''a''" "3601 * second_us" "\<lambda>_. Delivered"]
  ultimately show ?thesis by (intro exI [of _ ?w]) (simp add: SYNC_KEY_TTL_def second_us_def)
qed

end
