(* ===== verification/ChatFilter.thy ===== *)
theory ChatFilter
  imports Texts
begin

text \<open>
  What a chat message may not contain (\<open>bot/handlers/anonymous_chat.py\<close>): the three patterns of
  the security filter, over the part of Python's \<open>re\<close> they use.  A match is an end position; the
  end positions of an expression at a position are listed in the order Python tries them, so the
  first one is the match.  What a word character is (for \<open>\b\<close>: a letter, digit or underscore of
  Unicode) is a parameter.
\<close>

section \<open>Regular expressions\<close>

datatype rx =
    Chars "nat \<Rightarrow> bool"
  | Rep "nat \<Rightarrow> bool" nat "nat option"
  | Boundary
  | Then rx rx
  | Or rx rx
  | Maybe rx

definition run :: "(nat \<Rightarrow> bool) \<Rightarrow> ustr \<Rightarrow> nat" where
  "run P s = length (takeWhile P s)"

definition at_boundary :: "(nat \<Rightarrow> bool) \<Rightarrow> ustr \<Rightarrow> nat \<Rightarrow> bool" where
  "at_boundary w s i \<longleftrightarrow> (0 < i \<and> i \<le> length s \<and> w (s ! (i - 1))) \<noteq> (i < length s \<and> w (s ! i))"

fun ends :: "(nat \<Rightarrow> bool) \<Rightarrow> ustr \<Rightarrow> rx \<Rightarrow> nat \<Rightarrow> nat list" where
  "ends w s (Chars P) i = (if i < length s \<and> P (s ! i) then [Suc i] else [])"
| "ends w s (Rep P lo hi) i =
     (let m = (case hi of None \<Rightarrow> run P (drop i s) | Some h \<Rightarrow> min h (run P (drop i s)))
      in if m < lo then [] else map (\<lambda>k. i + k) (rev [lo..<Suc m]))"
| "ends w s Boundary i = (if at_boundary w s i then [i] else [])"
| "ends w s (Then a b) i = concat (map (ends w s b) (ends w s a i))"
| "ends w s (Or a b) i = ends w s a i @ ends w s b i"
| "ends w s (Maybe a) i = ends w s a i @ [i]"

definition search :: "(nat \<Rightarrow> bool) \<Rightarrow> rx \<Rightarrow> ustr \<Rightarrow> bool" where
  "search w r s \<longleftrightarrow> list_ex (\<lambda>i. ends w s r i \<noteq> []) [0..<Suc (length s)]"

text \<open>\<open>re.sub\<close> for expressions that match no empty text: matches are replaced from the left and
  do not overlap.\<close>

function sub_from :: "(nat \<Rightarrow> bool) \<Rightarrow> rx \<Rightarrow> ustr \<Rightarrow> ustr \<Rightarrow> nat \<Rightarrow> ustr" where
  "sub_from w r repl s i =
     (if length s \<le> i then []
      else case ends w s r i of
             [] \<Rightarrow> s ! i # sub_from w r repl s (Suc i)
           | e # es \<Rightarrow> repl @ sub_from w r repl s (max e (Suc i)))"
  by pat_completeness auto
termination by (relation "measure (\<lambda>(w, r, repl, s, i). length s - i)") auto

declare sub_from.simps [simp del]

definition sub :: "(nat \<Rightarrow> bool) \<Rightarrow> rx \<Rightarrow> ustr \<Rightarrow> ustr \<Rightarrow> ustr" where
  "sub w r repl s = sub_from w r repl s 0"

fun literally :: "ustr \<Rightarrow> rx" where
  "literally [] = Rep (\<lambda>_. False) 0 None"
| "literally [c] = Chars (\<lambda>x. x = c)"
| "literally (c # cs) = Then (Chars (\<lambda>x. x = c)) (literally cs)"

fun one_of :: "rx list \<Rightarrow> rx" where
  "one_of [] = Chars (\<lambda>_. False)"
| "one_of [r] = r"
| "one_of (r # rs) = Or r (one_of rs)"

section \<open>The patterns\<close>

definition ascii_word :: "nat \<Rightarrow> bool" where
  "ascii_word c \<longleftrightarrow> 97 \<le> c \<and> c \<le> 122 \<or> 65 \<le> c \<and> c \<le> 90 \<or> 48 \<le> c \<and> c \<le> 57 \<or> c = 95"

definition USERNAME_REGEX :: rx where
  "USERNAME_REGEX = Then (Chars (\<lambda>c. c = 64)) (Rep ascii_word 5 (Some 32))"

text \<open>Under \<open>IGNORECASE\<close> a Latin letter also matches its other case; the dotted and the dotless
  i, the long s and the Kelvin sign are the further characters Python folds into \<open>[a-z]\<close>.\<close>

definition fold_case :: "nat \<Rightarrow> nat" where
  "fold_case c = (if 65 \<le> c \<and> c \<le> 90 then c + 32 
     else if c = 304 \<or> c = 305 then 105 else if c = 383 then 115 else if c = 8490 then 107 else c)"

definition url_char :: "nat \<Rightarrow> bool" where
  "url_char c \<longleftrightarrow> 97 \<le> fold_case c \<and> fold_case c \<le> 122 \<or> 48 \<le> c \<and> c \<le> 57"

definition non_space :: "nat \<Rightarrow> bool" where
  "non_space c \<longleftrightarrow> \<not> is_space c"

fun caseless :: "ustr \<Rightarrow> rx" where
  "caseless [] = Rep (\<lambda>_. False) 0 None"
| "caseless [c] = Chars (\<lambda>x. fold_case x = c)"
| "caseless (c # cs) = Then (Chars (\<lambda>x. fold_case x = c)) (caseless cs)"

definition tlds :: "string list" where
  "tlds =
    [''com'', ''ir'', ''org'', ''net'', ''info'', ''me'', ''co'', ''io'', ''app'', ''dev'',
     ''xyz'', ''click'', ''page'', ''link'', ''site'', ''online'', ''store'', ''shop'', ''tech'',
     ''cloud'', ''fun'', ''world'', ''life'', ''live'', ''news'', ''blog'', ''agency'',
     ''digital'', ''media'', ''network'', ''solutions'', ''systems'', ''academy'',
     ''consulting'', ''engineering'', ''ventures'', ''partners'', ''capital'', ''holdings'',
     ''group'', ''company'', ''limited'', ''international'', ''global'', ''worldwide'', ''pro'',
     ''biz'', ''name'', ''tv'', ''cc'', ''ws'', ''us'', ''uk'', ''ca'', ''au'', ''de'', ''fr'',
     ''jp'', ''cn'', ''in'', ''br'', ''ru'', ''kr'', ''tw'', ''hk'', ''sg'', ''my'', ''th'',
     ''vn'', ''id'', ''ph'', ''nz'', ''ie'', ''es'', ''it'', ''nl'', ''be'', ''se'', ''no'',
     ''fi'', ''dk'', ''pl'', ''cz'', ''hu'', ''gr'', ''pt'', ''ro'', ''bg'', ''hr'', ''si'',
     ''sk'', ''lt'', ''lv'', ''ee'', ''cy'', ''lu'', ''mt'', ''is'', ''li'', ''mc'', ''ad'',
     ''sm'', ''va'', ''tr'', ''il'', ''ae'', ''sa'', ''qa'', ''kw'', ''bh'', ''om'', ''jo'',
     ''lb'', ''iq'', ''sy'', ''ye'', ''eg'', ''ly'', ''tn'', ''dz'', ''ma'', ''sd'', ''so'',
     ''dj'', ''km'', ''sc'', ''mu'', ''re'', ''yt'', ''mayotte'']"

definition URL_REGEX :: rx where
  "URL_REGEX = one_of [
     Then (caseless (lit ''http'')) (Then (Maybe (caseless (lit ''s''))) (Then (literally (lit ''://''))
       (Rep non_space 1 None))),
     Then (caseless (lit ''www'')) (Then (literally [46]) (Rep non_space 1 None)),
     Then Boundary (Then (Chars url_char) (Then
       (Maybe (Then (Rep (\<lambda>c. url_char c \<or> c = 45) 0 (Some 61)) (Chars url_char)))
       (Then (literally [46]) (Then (one_of (map (\<lambda>t. caseless (lit t)) tlds)) Boundary))))]"

text \<open>\<open>\d\<close> of a Python string is any decimal digit of Unicode; the leading 9 is the ASCII one.\<close>

definition decimal :: "nat \<Rightarrow> bool" where
  "decimal c \<longleftrightarrow> digit_val c \<noteq> None"

definition PHONE_REGEX :: rx where
  "PHONE_REGEX = Then (Maybe (Or (literally (lit ''+98'')) (literally [48])))
     (Then (Chars (\<lambda>c. c = 57)) (Rep decimal 9 (Some 9)))"

definition REDACTED :: ustr where
  "REDACTED = [1601, 1740, 1604, 1578, 1585, 32, 1588, 1583, 32, 58, 40]"

definition apply_security_filters :: "(nat \<Rightarrow> bool) \<Rightarrow> ustr \<Rightarrow> ustr \<times> bool" where
  "apply_security_filters w t0 =
     (let (t1, f1) = (if search w USERNAME_REGEX t0 then (sub w USERNAME_REGEX REDACTED t0, True) else (t0, False));
          (t2, f2) = (if search w URL_REGEX t1 then (sub w URL_REGEX REDACTED t1, True) else (t1, f1));
          (t3, f3) = (if search w PHONE_REGEX t2 then (sub w PHONE_REGEX REDACTED t2, True) else (t2, f2))
      in (t3, f3))"

section \<open>Lemmas\<close>

text \<open>A marker with a run of \<open>n\<close> characters after it, which is what a username and a phone number
  are.\<close>

fun has_run :: "nat \<Rightarrow> (nat \<Rightarrow> bool) \<Rightarrow> nat \<Rightarrow> ustr \<Rightarrow> bool" where
  "has_run c P n [] = False"
| "has_run c P n (x # xs) = (x = c \<and> n \<le> run P xs \<or> has_run c P n xs)"

lemma run_Nil [simp]: "run P [] = 0"
  by (simp add: run_def)

lemma run_Cons [simp]: "run P (x # xs) = (if P x then Suc (run P xs) else 0)"
  by (simp add: run_def)

lemma has_run_skip: "c \<notin> set r \<Longrightarrow> has_run c P n (r @ t) = has_run c P n t"
  by (induction r) auto

lemma has_run_nth: "has_run c P n (drop i s) \<Longrightarrow> \<exists>j\<ge>i. j < length s \<and> s ! j = c \<and> n \<le> run P (drop (Suc j) s)"
proof (induction "length s - i" arbitrary: i)
  case (Suc k)
  then have i: "i < length s" by simp
  then have d: "drop i s = s ! i # drop (Suc i) s" by (simp add: Cons_nth_drop_Suc)
  from Suc.prems consider "s ! i = c" "n \<le> run P (drop (Suc i) s)" | "has_run c P n (drop (Suc i) s)"
    by (auto simp: d)
  then show ?case
  proof cases
    case 2
    have "k = length s - Suc i" using Suc.hyps(2) by simp
    from Suc.hyps(1) [OF this 2] obtain j where "Suc i \<le> j" "j < length s" "s ! j = c"
      "n \<le> run P (drop (Suc j) s)" by blast
    then show ?thesis by (intro exI [of _ j]) simp
  qed (use i in blast)
qed simp

text \<open>A replacement that starts outside the class and has no marker creates no new run.\<close>

lemma run_sub_from:
  assumes "repl \<noteq> []" and "\<not> P (hd repl)"
  shows "run P (sub_from w r repl s i) \<le> run P (drop i s)"
proof (induction w r repl\<equiv>repl s i rule: sub_from.induct)
  case (1 w r s i)
  show ?case
  proof (cases "length s \<le> i")
    case False
    then have d: "drop i s = s ! i # drop (Suc i) s" by (simp add: Cons_nth_drop_Suc)
    show ?thesis
    proof (cases "ends w s r i")
      case Nil
      with 1(1) False show ?thesis by (subst sub_from.simps) (simp add: d)
    next
      case (Cons e es)
      with assms False show ?thesis by (subst sub_from.simps) (cases repl; simp)
    qed
  qed (subst sub_from.simps, simp)
qed

lemma sub_from_clean:
  assumes "repl \<noteq> []" and "\<not> P (hd repl)" and "c \<notin> set repl"
    and "\<And>j. j < length s \<Longrightarrow> ends w s r j = [] \<Longrightarrow> s ! j = c \<Longrightarrow> run P (drop (Suc j) s) < n"
  shows "\<not> has_run c P n (sub_from w r repl s i)"
  using assms(4)
proof (induction w r repl\<equiv>repl s i rule: sub_from.induct)
  case (1 w r s i)
  show ?case
  proof (cases "length s \<le> i")
    case False
    show ?thesis
    proof (cases "ends w s r i")
      case Nil
      have "\<not> (s ! i = c \<and> n \<le> run P (sub_from w r repl s (Suc i)))"
        using 1(3) [of i] Nil False run_sub_from [of repl P, OF assms(1,2), of w r s "Suc i"] by auto
      moreover have "\<not> has_run c P n (sub_from w r repl s (Suc i))"
        using 1(1) False Nil 1(3) by blast
      ultimately show ?thesis using Nil False by (subst sub_from.simps) simp
    next
      case (Cons e es)
      then have "\<not> has_run c P n (sub_from w r repl s (max e (Suc i)))"
        using 1(2) False 1(3) by blast
      with Cons False show ?thesis by (subst sub_from.simps) (simp add: has_run_skip [of c repl, OF assms(3)])
    qed
  qed (subst sub_from.simps, simp)
qed

lemma sub_keeps_clean:
  assumes "repl \<noteq> []" and "\<not> P (hd repl)" and "c \<notin> set repl" and "\<not> has_run c P n s"
  shows "\<not> has_run c P n (sub w r repl s)"
  unfolding sub_def
proof (rule sub_from_clean [of repl P c, OF assms(1-3)])
  fix j assume j: "j < length s" "s ! j = c"
  have "has_run c P n s" if "n \<le> run P (drop (Suc j) s)"
  proof -
    have s: "take j s @ s ! j # drop (Suc j) s = s" by (simp add: id_take_nth_drop [symmetric] j(1))
    have "has_run c P n (us @ c # v)" if "n \<le> run P v" for us v
      using that by (induction us) auto
    with that j(2) s show ?thesis by metis
  qed
  with assms(4) show "run P (drop (Suc j) s) < n" by (meson not_less)
qed

lemma search_None: "\<not> search w r s \<Longrightarrow> j \<le> length s \<Longrightarrow> ends w s r j = []"
  by (auto simp: search_def list_ex_iff)

section \<open>The patterns\<close>

lemma username_ends:
  "ends w s USERNAME_REGEX j = [] \<Longrightarrow> j < length s \<Longrightarrow> s ! j = 64 \<Longrightarrow> run ascii_word (drop (Suc j) s) < 5"
  by (auto simp: USERNAME_REGEX_def Let_def split: if_splits)

lemma phone_ends:
  "ends w s PHONE_REGEX j = [] \<Longrightarrow> j < length s \<Longrightarrow> s ! j = 57 \<Longrightarrow> run decimal (drop (Suc j) s) < 9"
  by (auto simp: PHONE_REGEX_def Let_def split: if_splits)

lemma redacted_inert:
  "REDACTED \<noteq> []" "\<not> ascii_word (hd REDACTED)" "\<not> decimal (hd REDACTED)" "64 \<notin> set REDACTED" "57 \<notin> set REDACTED"
  by (simp_all add: REDACTED_def ascii_word_def decimal_def digit_val_def nd_zeros_def)

lemmas username_clean = sub_keeps_clean [of REDACTED ascii_word 64 5, OF redacted_inert(1,2,4)]

lemma sub_username_clean: "\<not> has_run 64 ascii_word 5 (sub w USERNAME_REGEX REDACTED s)"
  unfolding sub_def by (rule sub_from_clean [of REDACTED ascii_word 64, OF redacted_inert(1,2,4)]) (rule username_ends)

lemma sub_phone_clean: "\<not> has_run 57 decimal 9 (sub w PHONE_REGEX REDACTED s)"
  unfolding sub_def by (rule sub_from_clean [of REDACTED decimal 57, OF redacted_inert(1,3,5)]) (rule phone_ends)

lemma unsearched_clean:
  assumes "\<not> search w r s" and "\<And>j. ends w s r j = [] \<Longrightarrow> j < length s \<Longrightarrow> s ! j = c \<Longrightarrow> run P (drop (Suc j) s) < n"
  shows "\<not> has_run c P n s"
proof
  assume "has_run c P n s"
  from has_run_nth [of c P n 0 s] this obtain j where "j < length s" "s ! j = c" "n \<le> run P (drop (Suc j) s)"
    by auto
  with assms(2) [OF search_None [OF assms(1)]] show False by force
qed

lemma unsearched_username: "\<not> search w USERNAME_REGEX s \<Longrightarrow> \<not> has_run 64 ascii_word 5 s"
  by (erule unsearched_clean) (rule username_ends)

lemma unsearched_phone: "\<not> search w PHONE_REGEX s \<Longrightarrow> \<not> has_run 57 decimal 9 s"
  by (erule unsearched_clean) (rule phone_ends)

lemma non_ascii_unmatched:
  assumes "\<forall>c\<in>set s. 128 \<le> c"
  shows "ends w s USERNAME_REGEX j = []" "ends w s PHONE_REGEX j = []" "ends w s URL_REGEX j = []"
proof -
  have n: "128 \<le> s ! i" if "i < length s" for i
    using assms that by simp
  have c [simp]: "(i < length s \<and> s ! i = k) = False" if "k < 128" for i k
    using n [of i] that by auto
  have h [simp]: "(i < length s \<and> fold_case (s ! i) = 104) = False"
      "(i < length s \<and> fold_case (s ! i) = 119) = False" for i
    using n [of i] by (auto simp: fold_case_def)
  show "ends w s USERNAME_REGEX j = []" by (simp add: USERNAME_REGEX_def)
  show "ends w s PHONE_REGEX j = []"
    by (simp add: PHONE_REGEX_def lit_def)
  have dot: "ends w s (Then (literally [46]) r) i = []" for r i by simp
  have http: "ends w s (Then (caseless (lit ''http'')) r) i = []" for r i by (simp add: lit_def)
  have www: "ends w s (Then (caseless (lit ''www'')) r) i = []" for r i by (simp add: lit_def)
  have last: "ends w s (Then a (Then b (Then m (Then (literally [46]) r)))) i = []" for a b m r i
    by (simp add: dot)
  show "ends w s URL_REGEX j = []"
    unfolding URL_REGEX_def one_of.simps ends.simps(5) http www last by simp
qed

lemma filter_view:
  "\<not> has_run 64 ascii_word 5 (fst (apply_security_filters w s)) \<and>
   \<not> has_run 57 decimal 9 (fst (apply_security_filters w s)) \<and>
   (\<not> snd (apply_security_filters w s) \<longrightarrow> fst (apply_security_filters w s) = s)"
proof -
  define t1 where "t1 = (if search w USERNAME_REGEX s then sub w USERNAME_REGEX REDACTED s else s)"
  define t2 where "t2 = (if search w URL_REGEX t1 then sub w URL_REGEX REDACTED t1 else t1)"
  define t3 where "t3 = (if search w PHONE_REGEX t2 then sub w PHONE_REGEX REDACTED t2 else t2)"
  have t: "fst (apply_security_filters w s) = t3"
    by (simp add: apply_security_filters_def Let_def t1_def t2_def t3_def)
  have u1: "\<not> has_run 64 ascii_word 5 t1"
    using sub_username_clean unsearched_username by (auto simp: t1_def)
  then have u2: "\<not> has_run 64 ascii_word 5 t2" by (simp add: t2_def username_clean)
  then have "\<not> has_run 64 ascii_word 5 t3" by (simp add: t3_def username_clean)
  moreover have "\<not> has_run 57 decimal 9 t3"
    using sub_phone_clean unsearched_phone by (auto simp: t3_def)
  ultimately show ?thesis
    unfolding t by (auto simp: apply_security_filters_def Let_def t1_def t2_def t3_def split: if_splits)
qed

section \<open>Properties\<close>

text \<open>No text that leaves the filter has a Telegram username (an at sign and five characters of
  one) or an Iranian mobile number (a 9 and nine digits) in it, and a text the filter does not
  flag is left as it was.\<close>

theorem filtered_text_clean:
  "\<not> has_run 64 ascii_word 5 (fst (apply_security_filters w s)) \<and>
   \<not> has_run 57 decimal 9 (fst (apply_security_filters w s)) \<and>
   (\<not> snd (apply_security_filters w s) \<longrightarrow> fst (apply_security_filters w s) = s)"
  by (rule filter_view)

text \<open>A phone number that is stopped in Latin digits goes through in Persian ones: the pattern
  wants an ASCII 9 and the filter does not normalise digits.\<close>

theorem persian_phone_unfiltered:
  assumes "length ds = 9" and "\<forall>c\<in>set ds. 48 \<le> c \<and> c \<le> 57"
  shows "snd (apply_security_filters w (57 # ds)) \<and>
    apply_security_filters w (persian (57 # ds)) = (persian (57 # ds), False)"
proof
  have d: "decimal c" if "c \<in> set ds" for c
  proof -
    have "c - 48 < 10" "c = 48 + (c - 48)" using assms(2) that by auto
    then show ?thesis by (metis decimal_def digit_val_ascii option.distinct(1))
  qed
  then have "run decimal ds = 9" using assms(1) by (simp add: run_def takeWhile_eq_all_conv [THEN iffD2])
  then have "has_run 57 decimal 9 (57 # ds)" by simp
  then have "search w PHONE_REGEX (57 # ds)"
    using unsearched_phone by blast
  then show "snd (apply_security_filters w (57 # ds))"
    by (auto simp: apply_security_filters_def Let_def)
  have "\<forall>c\<in>set (persian (57 # ds)). 128 \<le> c" using assms(2) by (auto simp: persian_def)
  from non_ascii_unmatched [OF this]
  show "apply_security_filters w (persian (57 # ds)) = (persian (57 # ds), False)"
    by (simp add: apply_security_filters_def search_def list_ex_iff)
qed

theorem persian_phone_unfiltered_witness:
  "apply_security_filters (\<lambda>_. False) (persian (57 # replicate 9 49)) = (persian (57 # replicate 9 49), False)"
  using persian_phone_unfiltered [of "replicate 9 49" "\<lambda>_. False"] by simp

end
