(* ===== verification/Chat.thy ===== *)
theory Chat
  imports Questionnaire ChatFilter
begin

text \<open>
  The chat after a date (\<open>bot/handlers/anonymous_chat.py\<close>): the consent of both, the relay of
  messages, and the ways a date or chat is ended by a button
  (\<open>bot/handlers/interactions.py\<close>).  Commits and Redis calls succeed.  The ids of relayed messages
  are kept in Redis sets, for two days.
\<close>

section \<open>Consent\<close>

definition open_chat :: "int \<Rightarrow> int \<Rightarrow> fsm \<Rightarrow> fsm" where
  "open_chat mid peer c = update_data ''partner_id'' (FInt peer)
     (update_data ''match_history_id'' (FInt mid) (set_state (Some CHAT_ACTIVE) c))"

definition chatting_with :: "int \<Rightarrow> ustate \<Rightarrow> ustate" where
  "chatting_with peer u = u\<lparr>us_status := Some Chatting, us_matched_with := Some peer\<rparr>"

definition activate_anonymous_chat_session :: "int \<Rightarrow> int \<Rightarrow> int \<Rightarrow> int \<Rightarrow> dworld \<Rightarrow> dworld" where
  "activate_anonymous_chat_session now mid one two w =
     (let w1 = on_match mid (\<lambda>m. m\<lparr>mh_chat_approved := True, mh_questionnaire_completed := True,
                 mh_user_one_approved := True, mh_user_two_approved := True\<rparr>) w;
          w2 = w1\<lparr>dw_sched := (dw_sched w1)\<lparr>sc_timers := (sc_timers (dw_sched w1))(mid := None)\<rparr>,
                  dw_store := hset two (chatting_with one) (hset one (chatting_with two) (dw_store w1))\<rparr>
      in on_fsm two (open_chat mid one) (on_fsm one (open_chat mid two) (lock_skip now mid w2)))"

text \<open>Called without a match, it creates one; the code does this from an accepted chat request.\<close>

definition open_new_chat :: "int \<Rightarrow> int \<Rightarrow> int \<Rightarrow> dworld \<Rightarrow> dworld" where
  "open_new_chat now one two w =
     (let (d, m) = create_match_history now one two (dw_db w)
      in activate_anonymous_chat_session now (mh_id m) one two (w\<lparr>dw_db := d\<rparr>))"

definition register_chat_consent :: "int \<Rightarrow> int \<Rightarrow> bool \<Rightarrow> dworld \<Rightarrow> dworld" where
  "register_chat_consent now tg yes w =
     (let mid0 = fsm_int ''match_history_id'' (dw_fsm w tg) in
      if mid0 = None \<or> mid0 = Some 0 then leave tg w
      else let mid = the mid0 in
      (case match_row mid w of
         None \<Rightarrow> leave tg w
       | Some m \<Rightarrow>
           if \<not> mh_is_active m then leave tg w
           else if mh_chat_approved m then w
           else
             let is_one = (mh_user_one_id m = tg);
                 partner = (if is_one then mh_user_two_id m else mh_user_one_id m)
             in if \<not> yes then
                  leave partner (leave tg (on_match mid (\<lambda>m. m\<lparr>mh_is_active := False\<rparr>) w))
                else
                  let w1 = on_match mid (if is_one then (\<lambda>m. m\<lparr>mh_user_one_approved := True\<rparr>)
                                         else (\<lambda>m. m\<lparr>mh_user_two_approved := True\<rparr>)) w;
                      both = (if is_one then mh_user_two_approved m else mh_user_one_approved m)
                  in if both
                     then activate_anonymous_chat_session now mid (mh_user_one_id m) (mh_user_two_id m) w1
                     else w1))"

definition consent_pressed :: "int \<Rightarrow> int \<Rightarrow> bool \<Rightarrow> dworld \<Rightarrow> dworld" where
  "consent_pressed now tg yes w =
     (if fsm_state (dw_fsm w tg) = Some WAITING_APPROVAL then register_chat_consent now tg yes w else w)"

section \<open>The relay\<close>

definition FORBIDDEN_CONTENT_TYPES :: "string list" where
  "FORBIDDEN_CONTENT_TYPES = [''contact'', ''location'', ''venue'', ''poll'', ''dice'', ''story'',
     ''invoice'', ''successful_payment'']"

record chat_message =
  cm_content_type :: string
  cm_text :: "ustr option"
  cm_caption :: "ustr option"

type_synonym msg_ids = "int \<times> int \<rightharpoonup> int set \<times> int"

datatype sent = SentAs int | PartnerBlocked | SendFailed

datatype relay = SessionLost | TypeBlocked | TextBlocked | CaptionBlocked
  | RelayText int ustr | RelayMedia int "ustr option"

definition recover_chat_session :: "int \<Rightarrow> dworld \<Rightarrow> dworld \<times> int option" where
  "recover_chat_session tg w =
     (case (case ms_state (dw_store w) tg of None \<Rightarrow> None | Some u \<Rightarrow> us_matched_with u) of
        None \<Rightarrow> (w, None)
      | Some p \<Rightarrow> if p = 0 then (w, Some 0) else (on_fsm tg (update_data ''partner_id'' (FInt p)) w, Some p))"

definition nonzero :: "int option \<Rightarrow> bool" where
  "nonzero i \<longleftrightarrow> i \<noteq> None \<and> i \<noteq> Some 0"

definition has_content :: "ustr option \<Rightarrow> bool" where
  "has_content t \<longleftrightarrow> t \<noteq> None \<and> t \<noteq> Some []"

text \<open>What is sent to whom, if anything.\<close>

definition decide_relay :: "(nat \<Rightarrow> bool) \<Rightarrow> int option \<Rightarrow> chat_message \<Rightarrow> relay" where
  "decide_relay word partner m =
     (if \<not> nonzero partner then SessionLost
      else if cm_content_type m \<in> set FORBIDDEN_CONTENT_TYPES then TypeBlocked
      else if has_content (cm_text m) then
        (case apply_security_filters word (the (cm_text m)) of
           (t, True) \<Rightarrow> TextBlocked
         | (t, False) \<Rightarrow> RelayText (the partner) (take 4090 t))
      else if has_content (cm_caption m) then
        (case apply_security_filters word (the (cm_caption m)) of
           (t, True) \<Rightarrow> CaptionBlocked
         | (t, False) \<Rightarrow> RelayMedia (the partner) (Some (take 1024 t)))
      else RelayMedia (the partner) None)"

definition note_message :: "int \<Rightarrow> int option \<Rightarrow> int \<Rightarrow> int \<Rightarrow> msg_ids \<Rightarrow> msg_ids" where
  "note_message now mid partner msg ids =
     (if \<not> nonzero mid then ids
      else ids((the mid, partner) \<mapsto> (insert msg (case ids (the mid, partner) of
             None \<Rightarrow> {} | Some (s, e) \<Rightarrow> if now < e then s else {}), now + 172800 * second_us)))"

text \<open>The partner has blocked the bot: the sender leaves and the match is closed.\<close>

definition close_blocked :: "int \<Rightarrow> int option \<Rightarrow> dworld \<Rightarrow> dworld" where
  "close_blocked tg mid w =
     (if nonzero mid then on_match (the mid) (\<lambda>m. m\<lparr>mh_is_active := False\<rparr>) (leave tg w) else leave tg w)"

definition route_anonymous_chat_message ::
  "(nat \<Rightarrow> bool) \<Rightarrow> (int \<Rightarrow> sent) \<Rightarrow> int \<Rightarrow> int \<Rightarrow> chat_message \<Rightarrow> dworld \<times> msg_ids \<Rightarrow> (dworld \<times> msg_ids) \<times> relay" where
  "route_anonymous_chat_message word send now tg m = (\<lambda>(w, ids).
     let p0 = fsm_int ''partner_id'' (dw_fsm w tg);
         mid = fsm_int ''match_history_id'' (dw_fsm w tg);
         (w1, p) = (if nonzero p0 then (w, p0) else recover_chat_session tg w);
         r = decide_relay word p m
     in case r of
          SessionLost \<Rightarrow> ((leave tg w1, ids), r)
        | RelayText partner t \<Rightarrow>
            (case send partner of
               SentAs i \<Rightarrow> ((w1, note_message now mid partner i ids), r)
             | PartnerBlocked \<Rightarrow> ((close_blocked tg mid w1, ids), r)
             | SendFailed \<Rightarrow> ((w1, ids), r))
        | RelayMedia partner t \<Rightarrow>
            (case send partner of
               SentAs i \<Rightarrow> ((w1, note_message now mid partner i ids), r)
             | PartnerBlocked \<Rightarrow> ((close_blocked tg mid w1, ids), r)
             | SendFailed \<Rightarrow> ((w1, ids), r))
        | _ \<Rightarrow> ((w1, ids), r))"

text \<open>Deleting what was relayed: only a participant may.\<close>

definition cmd_delete_match_history :: "int \<Rightarrow> int \<Rightarrow> int \<Rightarrow> dworld \<times> msg_ids \<Rightarrow> msg_ids \<times> (int \<times> int set) list" where
  "cmd_delete_match_history now tg mid = (\<lambda>(w, ids).
     case match_row mid w of
       None \<Rightarrow> (ids, [])
     | Some m \<Rightarrow>
         if tg \<notin> {mh_user_one_id m, mh_user_two_id m} then (ids, [])
         else let partner = (if mh_user_one_id m = tg then mh_user_two_id m else mh_user_one_id m);
                  of_user = (\<lambda>u. case ids (mid, u) of None \<Rightarrow> {} | Some (s, e) \<Rightarrow> if now < e then s else {})
              in if of_user tg = {} \<and> of_user partner = {} then (ids, [])
                 else (ids((mid, tg) := None, (mid, partner) := None),
                       [(tg, of_user tg), (partner, of_user partner)]))"

section \<open>Ending by a button\<close>

definition other_of :: "int \<Rightarrow> match_history \<Rightarrow> int" where
  "other_of tg m = (if mh_user_one_id m = tg then mh_user_two_id m else mh_user_one_id m)"

text \<open>\<open>end_active_chat\<close>: the partner and the match from the dialogue, else Redis, else the
  database.\<close>

definition end_active_anonymous_chat :: "int \<Rightarrow> int \<Rightarrow> dworld \<Rightarrow> dworld" where
  "end_active_anonymous_chat now tg w =
     (let p0 = fsm_int ''partner_id'' (dw_fsm w tg);
          mid0 = fsm_int ''match_history_id'' (dw_fsm w tg);
          (w1, p1) = (if nonzero p0 \<and> nonzero mid0 then (w, p0)
                      else let (w', r) = recover_chat_session tg w in (w', if nonzero p0 then p0 else r));
          (p, mid) = (if nonzero p1 then (p1, mid0)
                      else case get_active_match tg (dw_db w1) of
                             None \<Rightarrow> (p1, mid0)
                           | Some m \<Rightarrow> (Some (other_of tg m), if nonzero mid0 then mid0 else Some (mh_id m)))
      in if nonzero mid \<and> skip_locked now (the mid) w1 then w1
         else
           let w2 = (if nonzero mid then on_match (the mid) (\<lambda>m. m\<lparr>mh_is_active := False\<rparr>) w1 else w1);
               w3 = w2\<lparr>dw_store := del_state tg (dw_store w2)\<rparr>;
               w4 = (if nonzero p then remember_partner now tg (the p) w3 else w3);
               w5 = (if nonzero mid then w4\<lparr>dw_sched := (dw_sched w4)\<lparr>sc_timers :=
                       (sc_timers (dw_sched w4))(the mid := None)\<rparr>\<rparr> else w4);
               w6 = leave tg w5
           in if \<not> nonzero p then w6
              else leave (the p) (remember_partner now (the p) tg
                     (w6\<lparr>dw_store := del_state (the p) (dw_store w6)\<rparr>)))"

definition execute_chat_termination :: "int list \<Rightarrow> int \<Rightarrow> string \<Rightarrow> int \<Rightarrow> dworld \<Rightarrow> dworld \<times> bool" where
  "execute_chat_termination tries now token mid w =
     (case terminate_match_unified True tries now token mid (dw_db w, dw_sched w) of
        ((d, s), r) \<Rightarrow> (w\<lparr>dw_db := d, dw_sched := s\<rparr>, r = Some True))"

text \<open>The match the dialogue remembers, and the partner in it.\<close>

definition remembered_partner :: "int \<Rightarrow> dworld \<Rightarrow> int option" where
  "remembered_partner tg w = (let mid = fsm_int ''match_history_id'' (dw_fsm w tg) in
     if nonzero mid then map_option (other_of tg) (match_row (the mid) w) else None)"

definition leave_partner :: "int option \<Rightarrow> dworld \<Rightarrow> dworld" where
  "leave_partner p w = (if nonzero p then leave (the p) w else w)"

definition request_end :: "int \<Rightarrow> dworld \<Rightarrow> dworld" where
  "request_end tg w = (if get_active_match tg (dw_db w) \<noteq> None then w
     else leave tg (case remembered_partner tg w of None \<Rightarrow> w | Some p \<Rightarrow> leave p w))"

text \<open>\<open>confirm_end_date\<close> and \<open>confirm_end_chat\<close> are the same steps.\<close>

definition confirm_end :: "int list \<Rightarrow> int \<Rightarrow> string \<Rightarrow> int \<Rightarrow> dworld \<Rightarrow> dworld" where
  "confirm_end tries now token tg w =
     (let p = remembered_partner tg w in
      case get_active_match tg (dw_db w) of
        None \<Rightarrow> leave tg (leave_partner p w)
      | Some m \<Rightarrow>
          if skip_locked now (mh_id m) w then w
          else leave_partner p (leave tg (fst (execute_chat_termination tries now token (mh_id m) w))))"

definition confirm_end_chat :: "int list \<Rightarrow> int \<Rightarrow> string \<Rightarrow> int \<Rightarrow> dworld \<Rightarrow> dworld" where
  "confirm_end_chat tries now token tg w =
     (if fsm_state (dw_fsm w tg) = Some CHAT_ACTIVE then confirm_end tries now token tg w else w)"

text \<open>\<open>end_date_<id>\<close>: the button carries the match.\<close>

definition end_date_early :: "int list \<Rightarrow> int \<Rightarrow> string \<Rightarrow> int \<Rightarrow> int \<Rightarrow> dworld \<Rightarrow> dworld" where
  "end_date_early tries now token tg mid w =
     (if skip_locked now mid w then w
      else let p = map_option (other_of tg) (match_row mid w)
           in leave_partner p (leave tg (fst (execute_chat_termination tries now token mid w))))"

section \<open>Consent as a protocol of two\<close>

datatype consent = Pending "int set" | ChatOpen | Refused

fun consent_step :: "int \<Rightarrow> int \<Rightarrow> int \<times> bool \<Rightarrow> consent \<Rightarrow> consent" where
  "consent_step one two (u, yes) (Pending S) =
     (if \<not> yes then Refused else if insert u S = {one, two} then ChatOpen else Pending (insert u S))"
| "consent_step one two p ChatOpen = ChatOpen"
| "consent_step one two p Refused = Refused"

definition between :: "int \<Rightarrow> int \<Rightarrow> int \<Rightarrow> match_history \<Rightarrow> dworld \<Rightarrow> bool" where
  "between mid one two m w \<longleftrightarrow> one \<noteq> two \<and> mid \<noteq> 0 \<and> match_row mid w = Some m \<and>
     mh_user_one_id m = one \<and> mh_user_two_id m = two"

fun consents :: "int \<Rightarrow> int \<Rightarrow> int \<Rightarrow> consent \<Rightarrow> dworld \<Rightarrow> bool" where
  "consents mid one two (Pending S) w \<longleftrightarrow> S \<subseteq> {one, two} \<and> S \<noteq> {one, two} \<and>
     (\<exists>m. between mid one two m w \<and> mh_is_active m \<and> \<not> mh_chat_approved m \<and>
        mh_user_one_approved m = (one \<in> S) \<and> mh_user_two_approved m = (two \<in> S)) \<and>
     (\<forall>u\<in>{one, two}. fsm_state (dw_fsm w u) = Some WAITING_APPROVAL \<and>
        fsm_int ''match_history_id'' (dw_fsm w u) = Some mid)"
| "consents mid one two ChatOpen w \<longleftrightarrow>
     (\<exists>m. between mid one two m w \<and> mh_is_active m \<and> mh_chat_approved m \<and>
        mh_user_one_approved m \<and> mh_user_two_approved m) \<and>
     (\<forall>(u, v)\<in>{(one, two), (two, one)}. fsm_state (dw_fsm w u) = Some CHAT_ACTIVE \<and>
        fsm_int ''partner_id'' (dw_fsm w u) = Some v \<and> fsm_int ''match_history_id'' (dw_fsm w u) = Some mid)"
| "consents mid one two Refused w \<longleftrightarrow>
     (\<exists>m. between mid one two m w \<and> \<not> mh_is_active m \<and> \<not> mh_chat_approved m) \<and>
     (\<forall>u\<in>{one, two}. fsm_state (dw_fsm w u) = None)"

lemma leave_simps [simp]:
  "dw_fsm (leave u w) v = (if v = u then clear_fsm (dw_fsm w u) else dw_fsm w v)"
  "match_row mid (leave u w) = match_row mid w" "dw_db (leave u w) = dw_db w"
  by (simp_all add: leave_def)

lemma match_row_update [simp]:
  "match_row mid (w\<lparr>dw_sched := s\<rparr>) = match_row mid w" "match_row mid (w\<lparr>dw_store := r\<rparr>) = match_row mid w"
  "match_row mid (lock_skip now k w) = match_row mid w"
  "dw_fsm (lock_skip now k w) = dw_fsm w" "dw_db (lock_skip now k w) = dw_db w"
  by (simp_all add: match_row_def lock_skip_def)

lemma activate_view:
  assumes "match_row mid w = Some m" and "one \<noteq> two"
  shows "match_row mid (activate_anonymous_chat_session now mid one two w) = Some (m\<lparr>mh_chat_approved := True,
       mh_questionnaire_completed := True, mh_user_one_approved := True, mh_user_two_approved := True\<rparr>)"
    and "dw_fsm (activate_anonymous_chat_session now mid one two w) one = open_chat mid two (dw_fsm w one)"
    and "dw_fsm (activate_anonymous_chat_session now mid one two w) two = open_chat mid one (dw_fsm w two)"
  using assms by (simp_all add: activate_anonymous_chat_session_def Let_def match_row_on_match)

lemma consent_simulates:
  assumes "consents mid one two p w" and u: "u \<in> {one, two}"
  shows "consents mid one two (consent_step one two (u, yes) p) (consent_pressed now u yes w)"
proof (cases p)
  case Refused
  with assms have "consent_pressed now u yes w = w" by (auto simp: consent_pressed_def)
  with Refused assms(1) show ?thesis by simp
next
  case ChatOpen
  with assms have "consent_pressed now u yes w = w" by (auto simp: consent_pressed_def date_states)
  with ChatOpen assms(1) show ?thesis by simp
next
  case (Pending S)
  with assms(1) obtain m where m: "between mid one two m w" "mh_is_active m" "\<not> mh_chat_approved m"
    "mh_user_one_approved m = (one \<in> S)" "mh_user_two_approved m = (two \<in> S)" by auto
  have S: "S \<subseteq> {one, two}" "S \<noteq> {one, two}" using assms(1) Pending by auto
  have f: "fsm_state (dw_fsm w v) = Some WAITING_APPROVAL" "fsm_int ''match_history_id'' (dw_fsm w v) = Some mid"
    if "v \<in> {one, two}" for v using assms(1) Pending that by auto
  from m(1) have b: "one \<noteq> two" "mid \<noteq> 0" "match_row mid w = Some m" "mh_user_one_id m = one" "mh_user_two_id m = two"
    by (auto simp: between_def)
  have e: "consent_pressed now u yes w = register_chat_consent now u yes w"
    using f(1) [OF u] by (simp add: consent_pressed_def)
  show ?thesis
  proof (cases yes)
    case False
    then have "consent_pressed now u yes w =
        leave (if u = one then two else one) (leave u (on_match mid (\<lambda>m. m\<lparr>mh_is_active := False\<rparr>) w))"
      using e f(2) [OF u] b m by (auto simp: register_chat_consent_def Let_def)
    with False Pending b m u show ?thesis by (auto simp: between_def match_row_on_match)
  next
    case True
    define w1 where "w1 = on_match mid (if u = one then (\<lambda>m. m\<lparr>mh_user_one_approved := True\<rparr>)
        else (\<lambda>m. m\<lparr>mh_user_two_approved := True\<rparr>)) w"
    define m1 where "m1 = (if u = one then m\<lparr>mh_user_one_approved := True\<rparr> else m\<lparr>mh_user_two_approved := True\<rparr>)"
    have w1: "match_row mid w1 = Some m1" "dw_fsm w1 = dw_fsm w"
      using b by (simp_all add: w1_def m1_def match_row_on_match)
    have both: "(if u = one then mh_user_two_approved m else mh_user_one_approved m) \<longleftrightarrow> insert u S = {one, two}"
      using u b(1) m(4,5) S by auto
    have r: "consent_pressed now u yes w =
        (if insert u S = {one, two} then activate_anonymous_chat_session now mid one two w1 else w1)"
      using e f(2) [OF u] b m(2,3) True both
      by (auto simp: register_chat_consent_def Let_def w1_def)
    show ?thesis
    proof (cases "insert u S = {one, two}")
      case True
      then show ?thesis
        using r Pending \<open>yes\<close> b activate_view [OF w1(1) b(1), of now] m(2)
        by (auto simp: between_def m1_def open_chat_def)
    next
      case False
      then show ?thesis
        using r Pending \<open>yes\<close> b m u S f w1 by (auto simp: between_def m1_def)
    qed
  qed
qed

definition consent_run :: "(int \<times> int \<times> bool) list \<Rightarrow> dworld \<Rightarrow> dworld" where
  "consent_run = fold (\<lambda>(now, u, yes). consent_pressed now u yes)"

lemma consent_run_simulates:
  assumes "consents mid one two p w" and "\<forall>(now, u, yes)\<in>set ps. u \<in> {one, two}"
  shows "consents mid one two (fold (consent_step one two) (map snd ps) p) (consent_run ps w)"
  using assms
proof (induction ps arbitrary: p w)
  case (Cons x ps)
  obtain now u yes where x: "x = (now, u, yes)" by (metis prod_cases3)
  have "consents mid one two (consent_step one two (u, yes) p) (consent_pressed now u yes w)"
    using Cons.prems x by (intro consent_simulates) auto
  from Cons.IH [OF this] Cons.prems(2) show ?case by (simp add: consent_run_def x)
qed (simp add: consent_run_def)

lemma consent_open_needs:
  "fold (consent_step one two) ps (Pending S) = ChatOpen \<Longrightarrow> {one, two} \<subseteq> S \<union> {u. (u, True) \<in> set ps}"
proof (induction ps arbitrary: S)
  case (Cons x ps)
  obtain u yes where x: "x = (u, yes)" by (cases x)
  have stay: "fold (consent_step one two) ps Refused = Refused" for ps by (induction ps) auto
  show ?case
  proof (cases yes)
    case True
    then show ?thesis using Cons.prems Cons.IH [of "insert u S"] by (auto simp: x split: if_splits)
  next
    case False
    with Cons.prems stay show ?thesis by (simp add: x)
  qed
qed simp

section \<open>Properties\<close>

text \<open>C19: A chat opens for two only when both have agreed: whatever the two press, and however
  often, their world is where the protocol of consent stands, and if either is in the chat then
  each of them has pressed yes, both are in it, with each other, and the match says so.\<close>

theorem chat_needs_both:
  assumes "consents mid one two (Pending {}) w" and "\<forall>(now, u, yes)\<in>set ps. u \<in> {one, two}"
  shows "consents mid one two (fold (consent_step one two) (map snd ps) (Pending {})) (consent_run ps w) \<and>
    ((\<exists>u\<in>{one, two}. fsm_state (dw_fsm (consent_run ps w) u) = Some CHAT_ACTIVE) \<longrightarrow>
       consents mid one two ChatOpen (consent_run ps w) \<and>
       (\<exists>t. (t, one, True) \<in> set ps) \<and> (\<exists>t. (t, two, True) \<in> set ps))"
proof -
  let ?p = "fold (consent_step one two) (map snd ps) (Pending {})"
  note sim = consent_run_simulates [OF assms]
  have "?p = ChatOpen" if "u \<in> {one, two}" "fsm_state (dw_fsm (consent_run ps w) u) = Some CHAT_ACTIVE" for u
    using sim that by (cases ?p) (auto simp: date_states)
  moreover have "(\<exists>t. (t, one, True) \<in> set ps) \<and> (\<exists>t. (t, two, True) \<in> set ps)" if "?p = ChatOpen"
    using consent_open_needs [OF that] by force
  ultimately show ?thesis using sim by metis
qed

definition asked_date :: dworld where
  "asked_date = demo_date\<lparr>dw_fsm := (\<lambda>_. demo_fsm\<lparr>fsm_state := Some WAITING_APPROVAL\<rparr>)\<rparr>"

lemma asked_date_pending: "consents 7 1 2 (Pending {}) asked_date"
  by (simp add: asked_date_def demo_date_def demo_fsm_def between_def match_row_def by_key_def new_match_def fsm_int_def)

theorem chat_needs_both_witness:
  "consents 7 1 2 ChatOpen (consent_run [(0, 1, True), (5, 1, True), (9, 2, True)] asked_date)"
  using chat_needs_both [OF asked_date_pending, of "[(0, 1, True), (5, 1, True), (9, 2, True)]"]
  by (simp add: insert_commute)


definition chat_date :: dworld where
  "chat_date = demo_date\<lparr>dw_fsm := (\<lambda>u. open_chat 7 (3 - u) demo_fsm)\<rparr>"


section \<open>One date at a time\<close>

lemma clear_fsm_const: "clear_fsm c = clear_fsm c'"
  by (simp add: clear_fsm_def)

lemma on_match_rows: "set (rows (matches (dw_db (on_match mid f w)))) =
    (\<lambda>m. if mh_id m = mid then f m else m) ` set (rows (matches (dw_db w)))"
  by (simp add: on_match_def on_db_def set_upd_list)

lemma on_match_others:
  "dw_sched (on_match mid f w) = dw_sched w" "dw_store (on_match mid f w) = dw_store w"
  "dw_fsm (on_match mid f w) = dw_fsm w" "dw_last (on_match mid f w) = dw_last w"
  by (simp_all add: on_match_def on_db_def)

lemma matches_ok_on_match:
  assumes "matches_ok (dw_db w)" and "\<And>m. mh_id (f m) = mh_id m" and "\<And>m. mh_is_active (f m) \<longrightarrow> mh_is_active m"
    and "\<And>m tg. in_match tg (f m) = in_match tg m"
  shows "matches_ok (dw_db (on_match mid f w))"
proof -
  have ids: "map mh_id (rows (matches (dw_db (on_match mid f w)))) = map mh_id (rows (matches (dw_db w)))"
    by (simp add: on_match_def on_db_def upd_list_keys assms(2))
  have n: "next_id (matches (dw_db (on_match mid f w))) = next_id (matches (dw_db w))"
    by (simp add: on_match_def on_db_def)
  have "\<exists>r0\<in>set (rows (matches (dw_db w))). mh_id r = mh_id r0 \<and> (mh_is_active r \<longrightarrow> mh_is_active r0) \<and>
      (\<forall>tg. in_match tg r = in_match tg r0)" if "r \<in> set (rows (matches (dw_db (on_match mid f w))))" for r
    using that assms(2-4) by (auto simp: on_match_rows)
  then show ?thesis
    using assms(1) unfolding matches_ok_def ids n by metis
qed

lemma matches_ok_create:
  assumes "matches_ok d" and "get_active_match one d = None" and "get_active_match two d = None"
  shows "matches_ok (fst (create_match_history now one two d))"
proof -
  let ?m = "new_match now one two (next_id (matches d))"
  have r: "rows (matches (fst (create_match_history now one two d))) = rows (matches d) @ [?m]"
    "next_id (matches (fst (create_match_history now one two d))) = next_id (matches d) + 1"
    by (simp_all add: create_match_history_def insert_row_def)
  have i: "mh_id ?m = next_id (matches d)" "in_match tg ?m \<longleftrightarrow> tg = one \<or> tg = two" for tg
    by (auto simp: new_match_def in_match_def)
  have "\<not> in_match one x \<and> \<not> in_match two x" if "x \<in> set (rows (matches d))" "mh_is_active x" for x
    using active_match_NoneD [OF assms(2) that] active_match_NoneD [OF assms(3) that] by blast
  with assms(1) show ?thesis
    by (auto simp: matches_ok_def r i)
qed

lemma abort_matches_ok:
  "matches_ok (dw_db w) \<Longrightarrow> matches_ok (dw_db (abort_match_initialisation now mid one two w))"
  by (simp add: abort_match_initialisation_def matches_ok_on_match)

lemma find_snoc: "find P xs = None \<Longrightarrow> find P (xs @ [x]) = (if P x then Some x else None)"
  by (induction xs) (auto split: if_splits)

text \<open>The ways a start ends.\<close>

lemma start_cases:
  obtains (refused) r where "handle_successful_match shuffle deliver now one two w = (w, r)" "\<forall>mid pool. r \<noteq> Started mid pool"
  | (begun) w1 where "get_active_match one (dw_db w) = None" "get_active_match two (dw_db w) = None"
      "block_rows one two (dw_db w) = []"
      "matches (dw_db w1) = matches (fst (create_match_history now one two (dw_db w)))"
      "users (dw_db w1) = users (dw_db w)"
      "handle_successful_match shuffle deliver now one two w =
         (abort_match_initialisation now (next_id (matches (dw_db w))) one two w1, NotStarted) \<or>
       deliver one = Delivered \<and> deliver two = Delivered \<and>
       (\<exists>pool. pool \<noteq> [] \<and> length pool \<le> 20 \<and> handle_successful_match shuffle deliver now one two w =
         (lock_skip now (next_id (matches (dw_db w))) (on_fsm two (wait_to_start (next_id (matches (dw_db w))))
            (on_fsm one (wait_to_start (next_id (matches (dw_db w)))) w1)), Started (next_id (matches (dw_db w))) pool))"
proof (cases "may_start one two (dw_db w)")
  case (Some r)
  then have "\<forall>mid pool. r \<noteq> Started mid pool"
    by (auto simp: may_start_def split: if_splits list.splits)
  with Some refused [of r] show thesis by (simp add: handle_successful_match_def)
next
  case None
  then have g: "get_active_match one (dw_db w) = None" "get_active_match two (dw_db w) = None" "block_rows one two (dw_db w) = []"
    by (auto simp: may_start_def split: if_splits list.splits)
  obtain d1 m where c: "create_match_history now one two (dw_db w) = (d1, m)" by (metis surj_pair)
  then have m: "mh_id m = next_id (matches (dw_db w))" "matches d1 = matches (fst (create_match_history now one two (dw_db w)))"
    "users d1 = users (dw_db w)"
    by (auto simp: create_match_history_def new_match_def)
  let ?mid = "next_id (matches (dw_db w))"
  let ?w1 = "w\<lparr>dw_db := d1, dw_sched := register_match_timeout now ?mid one two (dw_sched w)\<rparr>"
  let ?pool = "get_random_questions shuffle 20 d1"
  have len: "length ?pool \<le> 20" by (simp add: get_random_questions_def)
  show thesis
  proof (cases "?pool = []")
    case True
    then show thesis
      using None c m g begun [of ?w1] by (simp add: handle_successful_match_def Let_def)
  next
    case False
    let ?w2 = "?w1\<lparr>dw_pool := (dw_pool ?w1)(?mid \<mapsto> pool_text (map q_id ?pool))\<rparr>"
    show thesis
    proof (cases "deliver one = Delivered \<and> deliver two = Delivered")
      case True
      then show thesis
        using None c m g False len begun [of ?w2] by (auto simp: handle_successful_match_def Let_def)
    next
      case False': False
      then show thesis
        using None c m g False begun [of ?w2] by (auto simp: handle_successful_match_def Let_def)
    qed
  qed
qed

text \<open>A date starts only for two users who are both free and have not blocked each other, and
  only when both could be told; then it is the one active match of each, both wait for the same
  first question, and in every case nobody is in two active matches.\<close>

theorem date_starts_only_for_the_free:
  assumes "matches_ok (dw_db w)" and "one \<noteq> two"
  shows "matches_ok (dw_db (fst (handle_successful_match shuffle deliver now one two w))) \<and>
    (\<forall>mid pool. snd (handle_successful_match shuffle deliver now one two w) = Started mid pool \<longrightarrow>
       get_active_match one (dw_db w) = None \<and> get_active_match two (dw_db w) = None \<and>
       block_rows one two (dw_db w) = [] \<and> deliver one = Delivered \<and> deliver two = Delivered \<and>
       pool \<noteq> [] \<and> length pool \<le> 20 \<and>
       (\<forall>u\<in>{one, two}. map_option mh_id (get_active_match u (dw_db (fst (handle_successful_match shuffle deliver now one two w)))) = Some mid \<and>
          fsm_state (dw_fsm (fst (handle_successful_match shuffle deliver now one two w)) u) = Some WAITING_TO_START \<and>
          fsm_int ''match_history_id'' (dw_fsm (fst (handle_successful_match shuffle deliver now one two w)) u) = Some mid))"
proof (rule start_cases [of shuffle deliver now one two w])
  fix r assume "handle_successful_match shuffle deliver now one two w = (w, r)" "\<forall>mid pool. r \<noteq> Started mid pool"
  with assms show ?thesis by simp
next
  fix w1 assume g: "get_active_match one (dw_db w) = None" "get_active_match two (dw_db w) = None"
      "block_rows one two (dw_db w) = []"
    and m: "matches (dw_db w1) = matches (fst (create_match_history now one two (dw_db w)))"
    and r: "handle_successful_match shuffle deliver now one two w =
         (abort_match_initialisation now (next_id (matches (dw_db w))) one two w1, NotStarted) \<or>
       deliver one = Delivered \<and> deliver two = Delivered \<and>
       (\<exists>pool. pool \<noteq> [] \<and> length pool \<le> 20 \<and> handle_successful_match shuffle deliver now one two w =
         (lock_skip now (next_id (matches (dw_db w))) (on_fsm two (wait_to_start (next_id (matches (dw_db w))))
            (on_fsm one (wait_to_start (next_id (matches (dw_db w)))) w1)), Started (next_id (matches (dw_db w))) pool))"
  have ok: "matches_ok (dw_db w1)" using matches_ok_create [OF assms(1) g(1,2), of now] m by (simp add: matches_ok_def)
  have "find (\<lambda>m. mh_is_active m \<and> in_match u m) (rows (matches (dw_db w))) = None" if "u \<in> {one, two}" for u
    using g(1,2) that by (auto simp: get_active_match_def first_where_def)
  then have a: "map_option mh_id (get_active_match u (dw_db w1)) = Some (next_id (matches (dw_db w)))" if "u \<in> {one, two}" for u
    using that by (auto simp: get_active_match_def first_where_def m create_match_history_def find_snoc)
      (auto simp: new_match_def in_match_def)
  from r show ?thesis
  proof
    assume "handle_successful_match shuffle deliver now one two w =
         (abort_match_initialisation now (next_id (matches (dw_db w))) one two w1, NotStarted)"
    then show ?thesis using abort_matches_ok [OF ok] by simp
  next
    assume "deliver one = Delivered \<and> deliver two = Delivered \<and>
       (\<exists>pool. pool \<noteq> [] \<and> length pool \<le> 20 \<and> handle_successful_match shuffle deliver now one two w =
         (lock_skip now (next_id (matches (dw_db w))) (on_fsm two (wait_to_start (next_id (matches (dw_db w))))
            (on_fsm one (wait_to_start (next_id (matches (dw_db w)))) w1)), Started (next_id (matches (dw_db w))) pool))"
    then obtain pool where p: "pool \<noteq> []" "length pool \<le> 20" "deliver one = Delivered" "deliver two = Delivered"
      and h: "handle_successful_match shuffle deliver now one two w =
         (lock_skip now (next_id (matches (dw_db w))) (on_fsm two (wait_to_start (next_id (matches (dw_db w))))
            (on_fsm one (wait_to_start (next_id (matches (dw_db w)))) w1)), Started (next_id (matches (dw_db w))) pool)"
      by blast
    show ?thesis unfolding h using ok a g p assms(2) by (simp add: wait_to_start_def)
  qed
qed

definition free_date :: dworld where
  "free_date = demo_date\<lparr>dw_db := (dw_db demo_date)\<lparr>matches := \<lparr>rows = [], next_id = 8\<rparr>\<rparr>,
     dw_fsm := (\<lambda>_. \<lparr>fsm_state = None, fsm_data = Map.empty\<rparr>)\<rparr>"

lemma free_date_starts:
  "snd (handle_successful_match id (\<lambda>_. Delivered) 0 1 2 free_date) = Started 8 [1..20]"
  by (simp add: handle_successful_match_def may_start_def free_date_def demo_date_def get_active_match_def
      first_where_def block_rows_def sel_where_def create_match_history_def Let_def get_random_questions_def
      new_match_def empty_db_def empty_tbl_def demo_question_def o_def)

theorem date_starts_only_for_the_free_witness:
  "map_option mh_id (get_active_match 1 (dw_db (fst (handle_successful_match id (\<lambda>_. Delivered) 0 1 2 free_date)))) = Some 8"
proof -
  have "matches_ok (dw_db free_date)" by (simp add: matches_ok_def free_date_def demo_date_def)
  from date_starts_only_for_the_free [OF this, of 1 2 id "\<lambda>_. Delivered" 0] free_date_starts
  show ?thesis by simp
qed

section \<open>Ending a chat\<close>

text \<open>The end button closes a chat completely: unless the first five seconds are not over, the
  match is inactive, its timer is gone, both are out of their dialogue and of Redis, and each is
  remembered as the other's last partner for a day.\<close>

theorem end_button_closes_chat:
  assumes "fsm_int ''partner_id'' (dw_fsm w tg) = Some p" and "fsm_int ''match_history_id'' (dw_fsm w tg) = Some mid"
    and "p \<noteq> 0" and "mid \<noteq> 0" and "p \<noteq> tg" and "w' = end_active_anonymous_chat now tg w"
  shows "(skip_locked now mid w \<longrightarrow> w' = w) \<and> (\<not> skip_locked now mid w \<longrightarrow>
    \<not> match_active mid (dw_db w') \<and> sc_timers (dw_sched w') mid = None \<and>
    (\<forall>u\<in>{tg, p}. fsm_state (dw_fsm w' u) = None \<and> ms_state (dw_store w') u = None) \<and>
    dw_last w' tg = Some (p, now + 86400 * second_us) \<and> dw_last w' p = Some (tg, now + 86400 * second_us))"
proof -
  have n: "nonzero (Some p)" "nonzero (Some mid)" using assms(3,4) by (simp_all add: nonzero_def)
  define w2 where "w2 = on_match mid (\<lambda>m. m\<lparr>mh_is_active := False\<rparr>) w"
  have ma: "\<not> match_active mid (dw_db w2)"
  proof
    assume "match_active mid (dw_db w2)"
    then obtain r0 :: match_history where "mh_id (if mh_id r0 = mid then r0\<lparr>mh_is_active := False\<rparr> else r0) = mid"
      "mh_is_active (if mh_id r0 = mid then r0\<lparr>mh_is_active := False\<rparr> else r0)"
      unfolding match_active_def w2_def on_match_rows by (elim bexE imageE conjE) simp
    then show False by (cases "mh_id r0 = mid") simp_all
  qed
  have keep: "dw_sched w2 = dw_sched w" "dw_store w2 = dw_store w" "dw_last w2 = dw_last w"
    by (simp_all add: w2_def on_match_others)
  define w5 where "w5 = (remember_partner now tg p (w2\<lparr>dw_store := del_state tg (dw_store w2)\<rparr>))
      \<lparr>dw_sched := (dw_sched w2)\<lparr>sc_timers := (sc_timers (dw_sched w2))(mid := None)\<rparr>\<rparr>"
  have r: "w' = (if skip_locked now mid w then w else leave p (remember_partner now p tg
      ((leave tg w5)\<lparr>dw_store := del_state p (dw_store (leave tg w5))\<rparr>)))"
    unfolding assms(6) end_active_anonymous_chat_def assms(1,2)
    by (simp only: n option.sel prod.case Let_def if_True simp_thms w2_def [symmetric])
      (simp add: w5_def remember_partner_def)
  show ?thesis
    using assms(5) unfolding r
    by (simp add: ma w5_def leave_def on_fsm_def remember_partner_def del_state_def clear_fsm_def)
qed

theorem end_button_closes_chat_witness:
  "\<not> match_active 7 (dw_db (end_active_anonymous_chat 0 1 chat_date))"
proof -
  have "\<not> skip_locked 0 7 chat_date"
    by (simp add: skip_locked_def chat_date_def demo_date_def unexpired_def)
  then show ?thesis
    using end_button_closes_chat [of chat_date 1 2 7 _ 0, OF _ _ _ _ _ refl] by (simp add: chat_date_def open_chat_def)
qed

text \<open>The end button of a date that is over still works on whoever was in it: a press of it
  throws the former partner out of the dialogue they are in now, a chat with somebody else
  included, while the database keeps that chat active.\<close>

theorem stale_end_button_evicts:
  assumes "match_row old w = Some m" and "\<not> match_active old (dw_db w)" and "other_of tg m = p" and "p \<noteq> 0"
    and "\<not> skip_locked now old w"
  shows "fsm_state (dw_fsm (end_date_early tries now token tg old w) p) = None \<and>
    fsm_data (dw_fsm (end_date_early tries now token tg old w) p) = Map.empty \<and>
    dw_db (end_date_early tries now token tg old w) = dw_db w"
proof -
  have "dw_db (fst (execute_chat_termination tries now token old w)) = dw_db w"
    by (rule terminate_cases [of True tries now token old "dw_db w" "dw_sched w"])
      (use assms(2) in \<open>simp_all add: execute_chat_termination_def\<close>)
  with assms show ?thesis by (simp add: end_date_early_def leave_partner_def nonzero_def)
qed

definition next_chat :: dworld where
  "next_chat = chat_date\<lparr>dw_db := (dw_db chat_date)\<lparr>matches := \<lparr>rows = [(new_match 0 1 2 7)\<lparr>mh_is_active := False\<rparr>,
     new_match 0 2 3 8], next_id = 9\<rparr>\<rparr>, dw_fsm := (\<lambda>u. open_chat 8 (5 - u) demo_fsm)\<rparr>"

theorem stale_end_button_evicts_witness:
  "fsm_state (dw_fsm next_chat 2) = Some CHAT_ACTIVE \<and> get_active_match 2 (dw_db next_chat) \<noteq> None \<and>
   fsm_state (dw_fsm (end_date_early [0] 0 ''t'' 1 7 next_chat) 2) = None"
proof -
  have "match_row 7 next_chat = Some ((new_match 0 1 2 7)\<lparr>mh_is_active := False\<rparr>)"
    "\<not> match_active 7 (dw_db next_chat)" "\<not> skip_locked 0 7 next_chat"
    by (simp_all add: match_row_def by_key_def next_chat_def new_match_def match_active_def skip_locked_def
        chat_date_def demo_date_def unexpired_def)
  from stale_end_button_evicts [OF this(1,2) _ _ this(3), of 1 2 "[0]" "''t''"]
  have "fsm_state (dw_fsm (end_date_early [0] 0 ''t'' 1 7 next_chat) 2) = None"
    by (simp add: other_of_def new_match_def)
  then show ?thesis
    by (simp add: next_chat_def open_chat_def get_active_match_def first_where_def new_match_def in_match_def)
qed

text \<open>Only the two of a date can have its messages deleted, and only those: an outsider's
  command changes nothing, and nobody's command touches another date.\<close>

theorem delete_needs_participant:
  shows "(\<forall>m. match_row mid w = Some m \<longrightarrow> tg \<notin> {mh_user_one_id m, mh_user_two_id m} \<longrightarrow>
      cmd_delete_match_history now tg mid (w, ids) = (ids, [])) \<and>
    (\<forall>k u. k \<noteq> mid \<longrightarrow> fst (cmd_delete_match_history now tg mid (w, ids)) (k, u) = ids (k, u))"
  by (auto simp: cmd_delete_match_history_def Let_def split: option.split)

theorem delete_needs_participant_witness:
  "cmd_delete_match_history 0 9 7 (chat_date, [(7, 1) \<mapsto> ({4}, 10)]) = ([(7, 1) \<mapsto> ({4}, 10)], [])"
proof -
  have "match_row 7 chat_date = Some (new_match 0 1 2 7)"
    by (simp add: match_row_def by_key_def chat_date_def demo_date_def new_match_def)
  moreover have "9 \<notin> {mh_user_one_id (new_match 0 1 2 7), mh_user_two_id (new_match 0 1 2 7)}"
    by (simp add: new_match_def)
  ultimately show ?thesis
    using delete_needs_participant [THEN conjunct1, rule_format, of 7 chat_date "new_match 0 1 2 7" 9] by blast
qed

end
