(* ===== verification/Healing.thy ===== *)
theory Healing
  imports Chat ForceJoin
begin

text \<open>
  Recovery from broken dialogues (\<open>bot/handlers/start.py\<close>): the emergency reset of \<open>/reset\<close>,
  \<open>/fix\<close>, \<open>/cancel\<close> and of the inline button, the smart healer that runs before \<open>/start\<close>,
  before a search and before a request to another user, and the two gates of the search menu.
  \<open>dating_scheduler\<close> has no \<open>cancel_match_timeout\<close>, so the \<open>hasattr\<close> test of the code is false.
  Redis calls and commits succeed.
\<close>

section \<open>Steps\<close>

definition end_now :: "int \<Rightarrow> int \<Rightarrow> dworld \<Rightarrow> dworld" where
  "end_now now mid = on_db (end_match now mid)"

definition drop_timer :: "int \<Rightarrow> dworld \<Rightarrow> dworld" where
  "drop_timer mid w = w\<lparr>dw_sched := (dw_sched w)\<lparr>sc_timers := (sc_timers (dw_sched w))(mid := None)\<rparr>\<rparr>"

definition drop_state :: "int \<Rightarrow> dworld \<Rightarrow> dworld" where
  "drop_state uid w = w\<lparr>dw_store := del_state uid (dw_store w)\<rparr>"

definition leave_queue :: "int \<Rightarrow> dworld \<Rightarrow> dworld" where
  "leave_queue uid w = w\<lparr>dw_store := fst (remove_from_queue uid (dw_store w))\<rparr>"

section \<open>The emergency reset\<close>

definition execute_emergency_reset :: "int \<Rightarrow> int \<Rightarrow> dworld \<Rightarrow> dworld" where
  "execute_emergency_reset now tg w =
     (let w1 = (case get_active_match tg (dw_db w) of
             None \<Rightarrow> w
           | Some m \<Rightarrow> drop_state (other_of tg m) (leave (other_of tg m) (drop_timer (mh_id m) (end_now now (mh_id m) w))))
      in leave tg (drop_state tg (leave_queue tg w1)))"

section \<open>The smart healer\<close>

definition auto_heal_ghost_state :: "int \<Rightarrow> int \<Rightarrow> dworld \<Rightarrow> dworld \<times> bool" where
  "auto_heal_ghost_state now tg w =
     (if pipeline_state (fsm_state (dw_fsm w tg)) then
        (case get_active_match tg (dw_db w) of
           None \<Rightarrow> (drop_state tg (leave_queue tg (leave tg w)), True)
         | Some m \<Rightarrow>
             let partner = fsm_int ''partner_id'' (dw_fsm w tg) in
             if nonzero partner then
               if get_active_match (the partner) (dw_db w) = None \<or>
                  \<not> pipeline_state (fsm_state (dw_fsm w (the partner)))
               then (drop_timer (mh_id m) (drop_state tg (leave_queue tg (leave tg (end_now now (mh_id m) w)))), True)
               else (w, False)
             else (drop_timer (mh_id m) (drop_state tg (leave tg (end_now now (mh_id m) w))), True))
      else
        let (w1, healed) = (case get_active_match tg (dw_db w) of
               None \<Rightarrow> (w, False)
             | Some m \<Rightarrow> (drop_timer (mh_id m) (end_now now (mh_id m) w), True))
        in if ms_state (dw_store w1) tg \<noteq> None then (drop_state tg (leave_queue tg w1), True)
           else (w1, healed))"

section \<open>The search menu\<close>

datatype menu_reply = NotRegistered | ReadRules | BusyDate | MatchTypes

definition offer_match_types :: "int \<Rightarrow> int \<Rightarrow> dworld \<Rightarrow> dworld \<times> menu_reply" where
  "offer_match_types now tg w =
     (let w1 = fst (auto_heal_ghost_state now tg w)
      in (w1, if pipeline_state (fsm_state (dw_fsm w1 tg)) then BusyDate else MatchTypes))"

definition start_anonymous_dating :: "int \<Rightarrow> int \<Rightarrow> dworld \<Rightarrow> dworld \<times> menu_reply" where
  "start_anonymous_dating now tg w =
     (case get_user (dw_db w) tg of
        None \<Rightarrow> (w, NotRegistered)
      | Some u \<Rightarrow> if \<not> u_completed_registration u then (w, NotRegistered)
          else if u_rules_accepted_at u = None then (w, ReadRules)
          else offer_match_types now tg w)"

definition accept_rules_and_start :: "int \<Rightarrow> int \<Rightarrow> dworld \<Rightarrow> dworld \<times> menu_reply" where
  "accept_rules_and_start now tg w =
     offer_match_types now tg (on_db (upd_user tg (\<lambda>u. u\<lparr>u_rules_accepted_at := Some (Aware now)\<rparr>)) w)"

section \<open>Lemmas\<close>

lemma healing_frames [simp]:
  "dw_fsm (end_now now mid w) = dw_fsm w" "dw_store (end_now now mid w) = dw_store w"
  "dw_sched (end_now now mid w) = dw_sched w"
  "dw_fsm (drop_timer mid w) = dw_fsm w" "dw_store (drop_timer mid w) = dw_store w" "dw_db (drop_timer mid w) = dw_db w"
  "dw_fsm (drop_state u w) = dw_fsm w" "dw_db (drop_state u w) = dw_db w" "dw_sched (drop_state u w) = dw_sched w"
  "dw_fsm (leave_queue u w) = dw_fsm w" "dw_db (leave_queue u w) = dw_db w" "dw_sched (leave_queue u w) = dw_sched w"
  "dw_store (leave u w) = dw_store w" "dw_sched (leave u w) = dw_sched w"
  by (simp_all add: end_now_def on_db_def drop_timer_def drop_state_def leave_queue_def leave_def on_fsm_def)

lemma drop_timer_gone [simp]: "sc_timers (dw_sched (drop_timer mid w)) k = (if k = mid then None else sc_timers (dw_sched w) k)"
  by (simp add: drop_timer_def)

lemma state_gone [simp]:
  "ms_state (dw_store (drop_state u w)) v = (if v = u then None else ms_state (dw_store w) v)"
  "ms_state (dw_store (leave_queue u w)) v = (if v = u then None else ms_state (dw_store w) v)"
  by (auto simp: drop_state_def leave_queue_def del_state_def remove_from_queue_def Let_def split: option.split)

lemma end_now_db [simp]: "dw_db (end_now now mid w) = end_match now mid (dw_db w)"
  by (simp add: end_now_def on_db_def)

lemma matches_ok_end: "matches_ok d \<Longrightarrow> matches_ok (end_match now mid d)"
  using matches_ok_on_match [of "w\<lparr>dw_db := d\<rparr>" "\<lambda>m. m\<lparr>mh_is_active := False, mh_ended_at := Some (Naive now)\<rparr>" mid for w]
  by (simp add: on_match_def on_db_def end_match_def)

text \<open>Ending the one active match of a user leaves them, and their partner, with none.\<close>

lemma end_match_frees:
  assumes "matches_ok d" and "get_active_match tg d = Some m" and "in_match u m"
  shows "get_active_match u (end_match now (mh_id m) d) = None"
proof -
  have m: "m \<in> set (rows (matches d))" "mh_is_active m" using active_match_SomeD [OF assms(2)] by auto
  have "\<not> (mh_is_active r \<and> in_match u r)" if r: "r \<in> set (rows (matches (end_match now (mh_id m) d)))" for r
  proof -
    from r obtain r0 where r0: "r0 \<in> set (rows (matches d))" and e: "r = (if mh_id r0 = mh_id m
        then r0\<lparr>mh_is_active := False, mh_ended_at := Some (Naive now)\<rparr> else r0)"
      by (auto simp: rows_end_match)
    show ?thesis
      using assms(1,3) r0 m by (cases "mh_id r0 = mh_id m") (auto simp: e matches_ok_def)
  qed
  then show ?thesis
    by (auto simp: get_active_match_def first_where_def find_None_iff)
qed

lemma other_in_match: "in_match tg m \<Longrightarrow> in_match (other_of tg m) m"
  by (auto simp: in_match_def other_of_def)

section \<open>Properties\<close>

text \<open>The emergency reset always works: afterwards the caller has no dialogue, no Redis state and
  no active match, and whoever they were with is free as well, with the match's timer gone.\<close>

theorem reset_frees_both:
  assumes "matches_ok (dw_db w)" and "w' = execute_emergency_reset now tg w"
  shows "matches_ok (dw_db w') \<and> get_active_match tg (dw_db w') = None \<and>
    fsm_state (dw_fsm w' tg) = None \<and> fsm_data (dw_fsm w' tg) = Map.empty \<and> ms_state (dw_store w') tg = None \<and>
    (\<forall>m. get_active_match tg (dw_db w) = Some m \<longrightarrow> sc_timers (dw_sched w') (mh_id m) = None \<and>
       get_active_match (other_of tg m) (dw_db w') = None \<and> fsm_state (dw_fsm w' (other_of tg m)) = None \<and>
       ms_state (dw_store w') (other_of tg m) = None)"
proof (cases "get_active_match tg (dw_db w)")
  case None
  then show ?thesis using assms by (simp add: execute_emergency_reset_def)
next
  case (Some m)
  have "in_match tg m" using active_match_SomeD [OF Some] by blast
  then have free: "get_active_match tg (end_match now (mh_id m) (dw_db w)) = None"
    "get_active_match (other_of tg m) (end_match now (mh_id m) (dw_db w)) = None"
    using end_match_frees [OF assms(1) Some] other_in_match by blast+
  have r: "w' = leave tg (drop_state tg (leave_queue tg (drop_state (other_of tg m) (leave (other_of tg m)
      (drop_timer (mh_id m) (end_now now (mh_id m) w))))))"
    by (simp add: assms(2) execute_emergency_reset_def Some)
  show ?thesis
    unfolding r Some using free assms(1) by (simp add: matches_ok_end)
qed

text \<open>A user whose dialogue, Redis state and match agree.\<close>

definition coherent :: "int \<Rightarrow> dworld \<Rightarrow> bool" where
  "coherent tg w \<longleftrightarrow> (case get_active_match tg (dw_db w) of
     None \<Rightarrow> \<not> pipeline_state (fsm_state (dw_fsm w tg)) \<and> ms_state (dw_store w) tg = None
   | Some m \<Rightarrow> pipeline_state (fsm_state (dw_fsm w tg)) \<and>
       (\<exists>p. fsm_int ''partner_id'' (dw_fsm w tg) = Some p \<and> p \<noteq> 0 \<and> get_active_match p (dw_db w) \<noteq> None \<and>
          pipeline_state (fsm_state (dw_fsm w p))))"

lemma healer_coherent:
  assumes "matches_ok (dw_db w)" and "auto_heal_ghost_state now tg w = (w', healed)"
  shows "matches_ok (dw_db w') \<and> coherent tg w' \<and> (\<not> healed \<longrightarrow> w' = w) \<and>
    (get_active_match tg (dw_db w') \<noteq> None \<longrightarrow> \<not> healed)"
proof (cases "get_active_match tg (dw_db w)")
  case None
  then show ?thesis
    using assms by (auto simp: auto_heal_ghost_state_def coherent_def pipeline_state_def split: if_splits)
next
  case (Some m)
  have free: "get_active_match tg (end_match now (mh_id m) (dw_db w)) = None"
    using end_match_frees [OF assms(1) Some] active_match_SomeD [OF Some] by blast
  have none: "\<not> pipeline_state None" by (simp add: pipeline_state_def)
  show ?thesis
  proof (cases "pipeline_state (fsm_state (dw_fsm w tg))")
    case True
    then show ?thesis
      using assms Some free none by (auto simp: auto_heal_ghost_state_def coherent_def Let_def nonzero_def matches_ok_end split: if_splits)
  next
    case False
    then show ?thesis
      using assms Some free by (auto simp: auto_heal_ghost_state_def coherent_def matches_ok_end split: if_splits)
  qed
qed

text \<open>The healer leaves a coherent user: afterwards their dialogue is a date's or a chat's only
  if they have an active match, and a match they still have is one the healer did not touch, whose partner
  is in a match and in such a dialogue too; without one they have no state in Redis either.\<close>

theorem healer_leaves_coherent:
  assumes "matches_ok (dw_db w)" and "auto_heal_ghost_state now tg w = (w', healed)"
  shows "matches_ok (dw_db w') \<and> coherent tg w' \<and> (\<not> healed \<longrightarrow> w' = w) \<and>
    (get_active_match tg (dw_db w') \<noteq> None \<longrightarrow> \<not> healed)"
  using healer_coherent [OF assms] .

text \<open>What a start leaves in the dialogues and in the database.\<close>

lemma started_view:
  assumes "handle_successful_match shuffle deliver now one two (leave one (leave two w)) = (w1, Started mid pool)"
  shows "get_active_match one (dw_db w) = None" "get_active_match two (dw_db w) = None"
    "matches (dw_db w1) = matches (fst (create_match_history now one two (dw_db w)))" "mid = next_id (matches (dw_db w))"
    "dw_fsm w1 = (dw_fsm w)(one := wait_to_start mid (clear_fsm (dw_fsm w one)), two := wait_to_start mid
       (if one = two then wait_to_start mid (clear_fsm (dw_fsm w one)) else clear_fsm (dw_fsm w two)))"
proof -
  let ?w = "leave one (leave two w)"
  have s: "may_start one two (dw_db ?w) = None"
    using assms by (auto simp: handle_successful_match_def may_start_def split: option.splits if_splits list.splits)
  then show "get_active_match one (dw_db w) = None" "get_active_match two (dw_db w) = None"
    by (auto simp: may_start_def split: if_splits)
  from s assms show "matches (dw_db w1) = matches (fst (create_match_history now one two (dw_db w)))" "mid = next_id (matches (dw_db w))"
    "dw_fsm w1 = (dw_fsm w)(one := wait_to_start mid (clear_fsm (dw_fsm w one)), two := wait_to_start mid
       (if one = two then wait_to_start mid (clear_fsm (dw_fsm w one)) else clear_fsm (dw_fsm w two)))"
    by (auto simp: handle_successful_match_def Let_def create_match_history_def new_match_def lock_skip_def on_fsm_def
        leave_def clear_fsm_def fun_eq_iff split: if_splits)
qed

lemma created_active:
  assumes "get_active_match one d = None" and "get_active_match two d = None" and "u \<in> {one, two}"
  shows "get_active_match u (fst (create_match_history now one two d)) = Some (new_match now one two (next_id (matches d)))"
proof -
  have "find (\<lambda>m. mh_is_active m \<and> in_match u m) (rows (matches d)) = None"
    using assms by (auto simp: get_active_match_def first_where_def)
  then show ?thesis
    using assms(3) by (auto simp: get_active_match_def first_where_def create_match_history_def find_snoc)
      (auto simp: new_match_def in_match_def)
qed

lemma waiting_in_pipeline: "pipeline_state (Some WAITING_TO_START)"
  by code_simp

text \<open>The healer takes every running questionnaire for a broken one, since only a chat stores the
  partner in the dialogue: as soon as a date found by the search has started, the healer called for
  either of the two ends it and reports a repair, and the other stays in the dialogue of a date
  that is over.\<close>

theorem healer_ends_questionnaire:
  assumes "matches_ok (dw_db w)" and "one \<noteq> two" and "{u, v} = {one, two}"
    and "handle_successful_match shuffle deliver now one two (leave one (leave two w)) = (w1, Started mid pool)"
    and "auto_heal_ghost_state later u w1 = (w2, healed)"
  shows "healed \<and> get_active_match u (dw_db w2) = None \<and> get_active_match v (dw_db w2) = None \<and>
    fsm_state (dw_fsm w2 u) = None \<and> fsm_state (dw_fsm w2 v) = Some WAITING_TO_START"
proof -
  note v = started_view [OF assms(4)]
  have uv: "u \<in> {one, two}" "v \<in> {one, two}" "u \<noteq> v" using assms(2,3) by (auto simp: doubleton_eq_iff)
  have m: "get_active_match x (dw_db w1) = Some (new_match now one two mid)" if "x \<in> {one, two}" for x
    using created_active [OF v(1,2), of x now] that v(3,4) by (simp add: get_active_match_def)
  have st: "fsm_state (dw_fsm w1 x) = Some WAITING_TO_START" "fsm_int ''partner_id'' (dw_fsm w1 x) = None"
    if "x \<in> {one, two}" for x
    using that v(5) assms(2) by (auto simp: wait_to_start_def fsm_int_def)
  have ok: "matches_ok (dw_db w1)"
    using matches_ok_create [OF assms(1) v(1,2), of now] unfolding matches_ok_def v(3) .
  have p: "pipeline_state (Some WAITING_TO_START)"
    by (simp add: waiting_in_pipeline)
  have id: "mh_id (new_match now one two mid) = mid" by (simp add: new_match_def)
  have free: "get_active_match x (end_match later mid (dw_db w1)) = None" if "x \<in> {one, two}" for x
  proof -
    have "in_match x (new_match now one two mid)" using that by (auto simp: new_match_def in_match_def)
    from end_match_frees [OF ok m [OF uv(1)] this] show ?thesis by (simp add: id)
  qed
  have "auto_heal_ghost_state later u w1 = (drop_timer mid (drop_state u (leave u (end_now later mid w1))), True)"
    unfolding auto_heal_ghost_state_def m [OF uv(1)] st [OF uv(1)]
    by (simp add: p nonzero_def id)
  with assms(5) have "w2 = drop_timer mid (drop_state u (leave u (end_now later mid w1)))" "healed" by simp_all
  then show ?thesis using free uv st [OF uv(2)] by simp
qed

lemma chat_date_ok: "matches_ok (dw_db chat_date)" "get_active_match 1 (dw_db chat_date) = Some (new_match 0 1 2 7)"
  "get_active_match 2 (dw_db chat_date) = Some (new_match 0 1 2 7)"
  by (simp_all add: matches_ok_def chat_date_def demo_date_def get_active_match_def first_where_def new_match_def in_match_def)

theorem reset_frees_both_witness:
  "get_active_match 1 (dw_db (execute_emergency_reset 5 1 chat_date)) = None \<and>
   fsm_state (dw_fsm (execute_emergency_reset 5 1 chat_date) 2) = None"
proof -
  have "other_of 1 (new_match 0 1 2 7) = 2" by (simp add: other_of_def new_match_def)
  with reset_frees_both [OF chat_date_ok(1) refl, of 5 1] chat_date_ok(2) show ?thesis by auto
qed

lemma chat_date_heals: "auto_heal_ghost_state now 1 chat_date = (chat_date, False)"
proof -
  have "pipeline_state (Some CHAT_ACTIVE)" by code_simp
  then show ?thesis
    unfolding auto_heal_ghost_state_def chat_date_ok(2)
    by (simp add: chat_date_def open_chat_def fsm_int_def nonzero_def chat_date_ok(3) [unfolded chat_date_def open_chat_def, simplified])
qed

theorem healer_leaves_coherent_witness:
  "coherent 1 chat_date \<and> auto_heal_ghost_state 5 1 chat_date = (chat_date, False)"
  using healer_leaves_coherent [OF chat_date_ok(1) chat_date_heals] chat_date_heals by simp

theorem healer_ends_questionnaire_witness:
  "snd (auto_heal_ghost_state 9 2 (fst (handle_successful_match id (\<lambda>_. Delivered) 0 1 2 free_date)))"
proof -
  have "leave 1 (leave 2 free_date) = free_date"
    by (simp add: leave_def on_fsm_def clear_fsm_def free_date_def fun_eq_iff)
  moreover have "handle_successful_match id (\<lambda>_. Delivered) 0 1 2 free_date =
      (fst (handle_successful_match id (\<lambda>_. Delivered) 0 1 2 free_date), Started 8 [1..20])"
    using free_date_starts by (metis prod.collapse)
  ultimately have h: "handle_successful_match id (\<lambda>_. Delivered) 0 1 2 (leave 1 (leave 2 free_date)) =
      (fst (handle_successful_match id (\<lambda>_. Delivered) 0 1 2 free_date), Started 8 [1..20])"
    by simp
  have ok: "matches_ok (dw_db free_date)" by (simp add: matches_ok_def free_date_def demo_date_def)
  show ?thesis
    using healer_ends_questionnaire [OF ok _ insert_commute h prod.collapse [symmetric], of 9] by simp
qed

end
