(* ===== verification/Utf8.thy ===== *)
theory Utf8
  imports Texts
begin

text \<open>
  How a text is stored: the database and Redis keep a \<open>str\<close> as its UTF-8 bytes, which the model
  writes as a \<open>string\<close>; a text of the model's handlers is a list of code points.  Also
  \<open>html.escape\<close> of a text.
\<close>

section \<open>UTF-8\<close>

definition utf8_char :: "nat \<Rightarrow> nat list" where
  "utf8_char c =
     (if c < 128 then [c]
      else if c < 2048 then [192 + c div 64, 128 + c mod 64]
      else if c < 65536 then [224 + c div 4096, 128 + c div 64 mod 64, 128 + c mod 64]
      else [240 + c div 262144, 128 + c div 4096 mod 64, 128 + c div 64 mod 64, 128 + c mod 64])"

definition utf8 :: "ustr \<Rightarrow> string" where
  "utf8 t = map char_of (concat (map utf8_char t))"

text \<open>The decoder, on what the encoder writes.\<close>

fun utf8_decode :: "nat list \<Rightarrow> ustr option" where
  "utf8_decode [] = Some []"
| "utf8_decode (a # bs) =
     (if a < 128 then map_option (Cons a) (utf8_decode bs)
      else if a < 224 then (case bs of
          b # cs \<Rightarrow> map_option (Cons ((a - 192) * 64 + (b - 128))) (utf8_decode cs)
        | _ \<Rightarrow> None)
      else if a < 240 then (case bs of
          b # c # cs \<Rightarrow> map_option (Cons ((a - 224) * 4096 + (b - 128) * 64 + (c - 128))) (utf8_decode cs)
        | _ \<Rightarrow> None)
      else (case bs of
          b # c # d # cs \<Rightarrow> map_option (Cons ((a - 240) * 262144 + (b - 128) * 4096 + (c - 128) * 64 + (d - 128)))
            (utf8_decode cs)
        | _ \<Rightarrow> None))"

lemma utf8_char_decode:
  assumes "c < 1114112"
  shows "utf8_decode (utf8_char c @ bs) = map_option (Cons c) (utf8_decode bs)"
proof -
  define x y z r where v: "x = c div 262144" "y = c div 4096 mod 64" "z = c div 64 mod 64" "r = c mod 64"
  have b: "y < 64" "z < 64" "r < 64" by (simp_all add: v)
  have d3: "c div 4096 = x * 64 + y"
    using div_mult_mod_eq [of "c div 4096" 64] by (simp add: v div_mult2_eq [symmetric])
  have "c div 64 = c div 4096 * 64 + z"
    using div_mult_mod_eq [of "c div 64" 64] by (simp add: v div_mult2_eq [symmetric])
  then have d2: "c div 64 = x * 4096 + y * 64 + z" using d3 by simp
  have c: "c = x * 262144 + y * 4096 + z * 64 + r" using div_mult_mod_eq [of c 64] d2 by (simp add: v(4))
  consider "c < 128" | "128 \<le> c" "c < 2048" | "2048 \<le> c" "c < 65536" | "65536 \<le> c" by linarith
  then show ?thesis
  proof cases
    case 1
    then show ?thesis by (simp add: utf8_char_def)
  next
    case 2
    then have xy: "x = 0" "y = 0" using c by linarith+
    then have e: "c = z * 64 + r" "z < 32" using c 2 by simp_all
    have "utf8_char c = [192 + z, 128 + r]" using 2 d2 xy by (simp add: utf8_char_def v(4) [symmetric])
    then show ?thesis using e by simp
  next
    case 3
    then have x: "x = 0" using c by linarith
    then have e: "c = y * 4096 + z * 64 + r" "y < 16" "x = 0" using c 3 by simp_all
    have "utf8_char c = [224 + y, 128 + z, 128 + r]"
      using 3 d3 e(3) by (simp add: utf8_char_def v(3,4) [symmetric])
    then show ?thesis using e by simp
  next
    case 4
    then have x: "x < 8" using c assms by linarith
    have "utf8_char c = [240 + x, 128 + y, 128 + z, 128 + r]"
      using 4 by (simp add: utf8_char_def v [symmetric])
    then show ?thesis using x c by simp
  qed
qed

lemma utf8_char_byte:
  assumes "c < 1114112" and "b \<in> set (utf8_char c)"
  shows "b < 256"
proof -
  have "c div 262144 \<le> 4" "c < 65536 \<Longrightarrow> c div 4096 < 16" "c < 2048 \<Longrightarrow> c div 64 < 32"
    using assms(1) by linarith+
  moreover have "c mod 64 < 64" "c div 64 mod 64 < 64" "c div 4096 mod 64 < 64" by simp_all
  ultimately show ?thesis using assms(2) by (auto simp: utf8_char_def split: if_splits)
qed

text \<open>Storing loses nothing, so texts that differ are stored differently.\<close>

lemma utf8_roundtrip:
  assumes "\<forall>c\<in>set t. c < 1114112"
  shows "utf8_decode (map of_char (utf8 t)) = Some t"
proof -
  have "map of_char (utf8 t) = concat (map utf8_char t)"
  proof -
    have "\<forall>b\<in>set (concat (map utf8_char t)). b < 256"
      using assms utf8_char_byte by auto
    then have "map (\<lambda>x. x mod 256) (concat (map utf8_char t)) = concat (map utf8_char t)"
      by (intro map_idI mod_less) auto
    then show ?thesis by (simp add: utf8_def o_def)
  qed
  moreover have "utf8_decode (concat (map utf8_char t)) = Some t"
    using assms by (induction t) (simp_all add: utf8_char_decode)
  ultimately show ?thesis by simp
qed

lemma utf8_inj:
  assumes "utf8 s = utf8 t" and "\<forall>c\<in>set s. c < 1114112" and "\<forall>c\<in>set t. c < 1114112"
  shows "s = t"
  using utf8_roundtrip [OF assms(2)] utf8_roundtrip [OF assms(3)] unfolding assms(1) by simp

section \<open>Escaping\<close>

definition escape_char :: "nat \<Rightarrow> ustr" where
  "escape_char c = (if c = 38 then [38, 97, 109, 112, 59] else if c = 60 then [38, 108, 116, 59]
     else if c = 62 then [38, 103, 116, 59] else if c = 34 then [38, 113, 117, 111, 116, 59]
     else if c = 39 then [38, 35, 120, 50, 55, 59] else [c])"

definition escape_text :: "ustr \<Rightarrow> ustr" where
  "escape_text t = concat (map escape_char t)"

lemma escape_char_length: "1 \<le> length (escape_char c)" "length (escape_char c) \<le> 6"
  by (simp_all add: escape_char_def)

lemma escape_text_length: "length t \<le> length (escape_text t) \<and> length (escape_text t) \<le> 6 * length t"
proof (induction t)
  case (Cons c t)
  have "length (escape_text (c # t)) = length (escape_char c) + length (escape_text t)"
    by (simp add: escape_text_def)
  then show ?case using Cons.IH escape_char_length [of c] by simp
qed (simp add: escape_text_def)

lemma escape_char_safe: "x \<in> set (escape_char c) \<Longrightarrow> x \<notin> {60, 62, 34, 39}"
  by (auto simp: escape_char_def split: if_splits)

lemma escape_text_safe: "x \<in> set (escape_text t) \<Longrightarrow> x \<notin> {60, 62, 34, 39}"
  using escape_char_safe by (auto simp: escape_text_def)

end
