(* ===== verification/Interactions.thy ===== *)
theory Interactions
  imports Healing Social Utf8
begin

text \<open>
  What a user does to another one through a profile's buttons (\<open>bot/handlers/interactions.py\<close>):
  block and unblock, like, friend, report, ask for a chat or a date and accept, and watch for a
  former partner.  The rest of that file, the buttons that end a date, is theory Chat.  Redis and
  commits work; what Telegram says to a message is \<open>deliver\<close>.  Foreign keys of a block are checked
  when it is inserted.
\<close>

record iworld =
  iw_world :: dworld
  iw_blocked_today :: "int \<rightharpoonup> nat \<times> int"
  iw_watchers :: "int \<rightharpoonup> int set \<times> int"

definition in_world :: "(dworld \<Rightarrow> dworld) \<Rightarrow> iworld \<Rightarrow> iworld" where
  "in_world f s = s\<lparr>iw_world := f (iw_world s)\<rparr>"

section \<open>Blocking\<close>

definition block_key :: "block_list \<Rightarrow> int \<times> int" where
  "block_key b = (bl_blocker_id b, bl_blocked_id b)"

text \<open>\<open>None\<close>: the commit raises \<open>IntegrityError\<close>.\<close>

definition add_block :: "int \<Rightarrow> int \<Rightarrow> int \<Rightarrow> db \<Rightarrow> db option" where
  "add_block now blocker blocked d =
     (if by_key block_key (blocker, blocked) (blocks d) \<noteq> None \<or> get_user d blocker = None \<or> get_user d blocked = None
      then None
      else Some (d\<lparr>blocks := insert_row (\<lambda>i. \<lparr>bl_id = i, bl_blocker_id = blocker, bl_blocked_id = blocked,
             bl_created_at = Aware now\<rparr>) (blocks d)\<rparr>))"

definition redis_block :: "int \<Rightarrow> int \<Rightarrow> dworld \<Rightarrow> dworld" where
  "redis_block blocker blocked w = w\<lparr>dw_store := (dw_store w)\<lparr>ms_blocks :=
     (ms_blocks (dw_store w))(blocker := insert blocked (ms_blocks (dw_store w) blocker))\<rparr>\<rparr>"

definition redis_unblock :: "int \<Rightarrow> int \<Rightarrow> dworld \<Rightarrow> dworld" where
  "redis_unblock blocker blocked w = w\<lparr>dw_store := (dw_store w)\<lparr>ms_blocks :=
     (ms_blocks (dw_store w))(blocker := ms_blocks (dw_store w) blocker - {blocked})\<rparr>\<rparr>"

text \<open>The active matches of the two with each other.\<close>

definition matches_between :: "int \<Rightarrow> int \<Rightarrow> db \<Rightarrow> match_history list" where
  "matches_between a b d = sel_where (\<lambda>m. mh_is_active m \<and>
     (mh_user_one_id m = a \<and> mh_user_two_id m = b \<or> mh_user_one_id m = b \<and> mh_user_two_id m = a)) (matches d)"

datatype block_reply = BlockSelf | Blocked | AlreadyBlocked | BlockFailed | BlockRaised

text \<open>The query after the insert raises when there are two such matches; the block stays.\<close>

definition part :: "int \<Rightarrow> int \<Rightarrow> dworld \<Rightarrow> dworld" where
  "part a b w = drop_state a (drop_state b (leave a (leave b w)))"

definition execute_user_blocking ::
  "int list \<Rightarrow> int \<Rightarrow> string \<Rightarrow> int \<Rightarrow> int \<Rightarrow> dworld \<Rightarrow> dworld \<times> block_reply" where
  "execute_user_blocking tries now token blocker blocked w =
     (if blocker = blocked then (w, BlockSelf)
      else case add_block now blocker blocked (dw_db w) of
        None \<Rightarrow> (w, AlreadyBlocked)
      | Some d \<Rightarrow>
          let w1 = redis_block blocker blocked (w\<lparr>dw_db := d\<rparr>) in
          (case matches_between blocker blocked d of
             [] \<Rightarrow> (w1, Blocked)
           | [m] \<Rightarrow> (part blocker blocked (fst (execute_chat_termination tries now token (mh_id m) w1)), Blocked)
           | _ \<Rightarrow> (w1, BlockFailed)))"

text \<open>The counter of a day ends at the next midnight; a third block bars the blocked from the search
  for a day.\<close>

definition midnight_after :: "int \<Rightarrow> int" where
  "midnight_after now = now + (day_us - now mod day_us) div second_us * second_us"

definition count_block :: "int \<Rightarrow> int \<Rightarrow> iworld \<Rightarrow> iworld" where
  "count_block now target s =
     (let n = (case live now (iw_blocked_today s) target of None \<Rightarrow> 1 | Some k \<Rightarrow> Suc k);
          e = (case live now (iw_blocked_today s) target of
                 None \<Rightarrow> midnight_after now | Some k \<Rightarrow> snd (the (iw_blocked_today s target)));
          s1 = s\<lparr>iw_blocked_today := (iw_blocked_today s)(target \<mapsto> (n, e))\<rparr>
      in if n \<ge> 3 then in_world (\<lambda>w. w\<lparr>dw_cooldown := (dw_cooldown w)(target \<mapsto> now + 86400 * second_us)\<rparr>) s1 else s1)"

definition block_user ::
  "int list \<Rightarrow> int \<Rightarrow> string \<Rightarrow> int \<Rightarrow> int \<Rightarrow> iworld \<Rightarrow> iworld \<times> block_reply" where
  "block_user tries now token caller target s =
     (let active = matches_between caller target (dw_db (iw_world s)) in
      if length active > 1 then (s, BlockRaised)
      else case execute_user_blocking tries now token caller target (iw_world s) of
        (w, Blocked) \<Rightarrow>
          (count_block now target (s\<lparr>iw_world := (if active \<noteq> [] then leave caller w else w)\<rparr>), Blocked)
      | (w, r) \<Rightarrow> (s\<lparr>iw_world := w\<rparr>, r))"

definition unblock_user :: "int \<Rightarrow> int \<Rightarrow> dworld \<Rightarrow> dworld" where
  "unblock_user caller target w = redis_unblock caller target
     (on_db (\<lambda>d. d\<lparr>blocks := del_where (\<lambda>b. block_key b = (caller, target)) (blocks d)\<rparr>) w)"

section \<open>The list of the blocked\<close>

definition BLOCKED_PER_PAGE :: nat where
  "BLOCKED_PER_PAGE = 5"

definition pages :: "nat \<Rightarrow> nat" where
  "pages n = max 1 ((n + BLOCKED_PER_PAGE - 1) div BLOCKED_PER_PAGE)"

record blocked_page =
  bp_users :: "user list"
  bp_total :: nat
  bp_prev :: "nat option"
  bp_next :: "nat option"

definition render_blocked_list :: "int \<Rightarrow> nat \<Rightarrow> db \<Rightarrow> blocked_page" where
  "render_blocked_list tg page d =
     (let (us, n) = get_blocked_users tg BLOCKED_PER_PAGE (page * BLOCKED_PER_PAGE) d
      in \<lparr>bp_users = us, bp_total = n, bp_prev = (if page > 0 then Some (page - 1) else None),
          bp_next = (if page + 1 < pages n then Some (page + 1) else None)\<rparr>)"

definition unblock_user_from_list :: "int \<Rightarrow> int \<Rightarrow> nat \<Rightarrow> dworld \<Rightarrow> dworld \<times> blocked_page" where
  "unblock_user_from_list caller target page w =
     (let w1 = unblock_user caller target w;
          total_after = snd (get_blocked_users caller 1 (page * BLOCKED_PER_PAGE) (dw_db w1))
      in (w1, render_blocked_list caller (min page (pages total_after - 1)) (dw_db w1)))"

section \<open>Likes\<close>

datatype like_reply = LikeSelf | AlreadyLiked | Liked nat

definition handle_like_user ::
  "int \<Rightarrow> (rat \<Rightarrow> rat) \<Rightarrow> rat option \<Rightarrow> int \<Rightarrow> int \<Rightarrow> db \<Rightarrow> db \<times> like_reply" where
  "handle_like_user now fl event caller target d =
     (if target = caller then (d, LikeSelf)
      else if first_where (\<lambda>l. ul_liker_id l = caller \<and> ul_liked_id l = target \<and> \<not> ul_is_pass l) (likes d) \<noteq> None
      then (d, AlreadyLiked)
      else
        let d1 = save_like now caller target False d;
            n = get_received_like_count target d1
        in (if n > 0 \<and> n mod 20 = 0 then
              (case get_user d1 target of
                 None \<Rightarrow> (d1, Liked n)
               | Some u \<Rightarrow> (fst (process_coin_transaction now fl event u 5 (TxLikes (int n)) False None d1), Liked n))
            else (d1, Liked n)))"

section \<open>Requests\<close>

datatype request_reply = RequestNoCoins | RequesterSilent | AlreadyTogether | Waitlisted | RequesterBusy | RequestNoUser
  | TargetSilent | YouBlocked | TheyBlocked | RequestSent | RequestUndelivered | RequestRaised py_error

definition vip_of :: "int \<Rightarrow> user option \<Rightarrow> bool" where
  "vip_of now u = (case u of None \<Rightarrow> False | Some v \<Rightarrow> vip_row_active now v)"

definition can_pay :: "int \<Rightarrow> user option \<Rightarrow> bool" where
  "can_pay now u = (vip_of now u \<or> (case u of None \<Rightarrow> False | Some v \<Rightarrow> u_coin_balance v \<ge> 1))"

definition silent :: "int \<Rightarrow> user \<Rightarrow> py_error + bool" where
  "silent now u = (case u_silent_until u of None \<Rightarrow> Inr False | Some t \<Rightarrow> dt_gt t (Naive now))"

definition join_waitlist :: "int \<Rightarrow> int \<Rightarrow> int \<Rightarrow> sched \<Rightarrow> sched" where
  "join_waitlist now target caller s =
     (let ws = (case live now (sc_waitlists s) target of None \<Rightarrow> [] | Some xs \<Rightarrow> xs)
      in s\<lparr>sc_waitlists := (sc_waitlists s)(target \<mapsto>
           (if caller \<in> set ws then ws else ws @ [caller], now + 86400 * second_us))\<rparr>)"

text \<open>After the healer: the guards in the code's order.\<close>

definition decide_request :: "(int \<Rightarrow> delivery) \<Rightarrow> int \<Rightarrow> int \<Rightarrow> int \<Rightarrow> dworld \<Rightarrow> request_reply" where
  "decide_request deliver now caller target w =
     (let d = dw_db w in
      if \<not> can_pay now (get_user d caller) then RequestNoCoins
      else case silent now (the (get_user d caller)) of
        Inl e \<Rightarrow> RequestRaised e
      | Inr True \<Rightarrow> RequesterSilent
      | Inr False \<Rightarrow>
          if is_active_match_partner caller target d then AlreadyTogether
          else if get_active_match target d \<noteq> None then Waitlisted
          else if get_active_match caller d \<noteq> None then RequesterBusy
          else case get_user d target of
            None \<Rightarrow> RequestNoUser
          | Some t \<Rightarrow> (case silent now t of
              Inl e \<Rightarrow> RequestRaised e
            | Inr True \<Rightarrow> TargetSilent
            | Inr False \<Rightarrow> (case block_rows caller target d of
                [] \<Rightarrow> if deliver target = Delivered then RequestSent else RequestUndelivered
              | [b] \<Rightarrow> if bl_blocker_id b = caller then YouBlocked else TheyBlocked
              | _ \<Rightarrow> RequestRaised OtherError)))"

definition handle_requests_to_users ::
  "(int \<Rightarrow> delivery) \<Rightarrow> int \<Rightarrow> int \<Rightarrow> int \<Rightarrow> dworld \<Rightarrow> dworld \<times> request_reply" where
  "handle_requests_to_users deliver now caller target w =
     (let w1 = fst (auto_heal_ghost_state now caller w);
          r = decide_request deliver now caller target w1
      in (if r = Waitlisted then w1\<lparr>dw_sched := join_waitlist now target caller (dw_sched w1)\<rparr> else w1, r))"

datatype accept_reply = SenderPoor | SenderBusy | AccepterBusy | ChatOpened | DateStarted "int list"
  | DateNotStarted | AcceptRaised py_error

text \<open>The charge is committed before the chat or the date is tried.\<close>

definition charge_request :: "int \<Rightarrow> (rat \<Rightarrow> rat) \<Rightarrow> rat option \<Rightarrow> bool \<Rightarrow> int \<Rightarrow> dworld \<Rightarrow> dworld" where
  "charge_request now fl event is_chat caller w =
     (case get_user (dw_db w) caller of
        None \<Rightarrow> w
      | Some u \<Rightarrow> if vip_row_active now u then w
          else w\<lparr>dw_db := fst (process_coin_transaction now fl event u (- 1) (TxRequest is_chat) False None (dw_db w))\<rparr>)"

definition accept_user_request ::
  "(question list \<Rightarrow> question list) \<Rightarrow> (int \<Rightarrow> delivery) \<Rightarrow> int \<Rightarrow> (rat \<Rightarrow> rat) \<Rightarrow> rat option \<Rightarrow> bool \<Rightarrow>
     int \<Rightarrow> int \<Rightarrow> dworld \<Rightarrow> dworld \<times> accept_reply" where
  "accept_user_request shuffle deliver now fl event is_chat caller target w =
     (if \<not> can_pay now (get_user (dw_db w) caller) then (w, SenderPoor)
      else if get_active_match caller (dw_db w) \<noteq> None then (w, SenderBusy)
      else if get_active_match target (dw_db w) \<noteq> None then (w, AccepterBusy)
      else
        let w1 = charge_request now fl event is_chat caller w in
        if is_chat then (open_new_chat now caller target w1, ChatOpened)
        else (case handle_successful_match shuffle deliver now caller target w1 of
                (w2, Started mid pool) \<Rightarrow> (w2, DateStarted pool)
              | (w2, NotStarted) \<Rightarrow> (w2, DateNotStarted)
              | (w2, StartError e) \<Rightarrow> (w2, AcceptRaised e)))"

section \<open>Watching for a former partner\<close>

definition process_online_warning :: "int \<Rightarrow> int \<Rightarrow> iworld \<Rightarrow> iworld \<times> bool" where
  "process_online_warning now tg s =
     (case live now (dw_last (iw_world s)) tg of
        None \<Rightarrow> (s, False)
      | Some p \<Rightarrow>
          let ws = (case live now (iw_watchers s) p of None \<Rightarrow> {} | Some xs \<Rightarrow> xs)
          in (s\<lparr>iw_watchers := (iw_watchers s)(p \<mapsto> (insert tg ws, now + 259200 * second_us))\<rparr>, True))"

section \<open>Reports\<close>

definition REPORT_TEXT :: string where
  "REPORT_TEXT = ''ReportStates:waiting_for_report_description''"

definition preserve_current_state :: "fsm \<Rightarrow> fsm" where
  "preserve_current_state c = (case fsm_state c of
     None \<Rightarrow> c\<lparr>fsm_data := (fsm_data c)(''__prev_state__'' := None)\<rparr>
   | Some s \<Rightarrow> update_data ''__prev_state__'' (FStr s) c)"

definition process_report_reason :: "int \<Rightarrow> string \<Rightarrow> fsm \<Rightarrow> fsm" where
  "process_report_reason reported reason c = set_state (Some REPORT_TEXT)
     (update_data ''reason_code'' (FStr reason) (update_data ''reported_id'' (FInt reported) (preserve_current_state c)))"

text \<open>A state that is \<open>None\<close> is not set again.\<close>

definition restore_previous_state :: "int \<Rightarrow> dworld \<Rightarrow> dworld \<times> string option" where
  "restore_previous_state tg w =
     (let c = dw_fsm w tg;
          previous = fsm_str ''__prev_state__'' c;
          data = (fsm_data c)(''__prev_state__'' := None, ''target_direct_id'' := None, ''reported_id'' := None, ''reason_code'' := None)
      in if pipeline_state previous \<and> get_active_match tg (dw_db w) = None then (leave tg w, None)
         else (on_fsm tg (\<lambda>c. (if truthy previous then set_state previous else id) (c\<lparr>fsm_data := data\<rparr>)) w, previous))"

definition show_report_reasons :: "int \<Rightarrow> int \<Rightarrow> db \<Rightarrow> bool" where
  "show_report_reasons caller reported d = (case get_active_match caller d of
     None \<Rightarrow> True | Some m \<Rightarrow> partner_in m caller = reported)"

datatype report_reply = ReportExpired | ReportEndsDate | ReportKept "string option" | ReportRaised

definition handle_report_evidence ::
  "int list \<Rightarrow> int \<Rightarrow> string \<Rightarrow> bool \<Rightarrow> (string \<Rightarrow> string) \<Rightarrow> int \<Rightarrow> dworld \<Rightarrow> dworld \<times> report_reply" where
  "handle_report_evidence tries now token notice_sent reason_text tg w =
     (let reported = fsm_int ''reported_id'' (dw_fsm w tg); reason = fsm_str ''reason_code'' (dw_fsm w tg) in
      if \<not> nonzero reported \<or> \<not> truthy reason then (fst (restore_previous_state tg w), ReportExpired)
      else
        let r = the reported;
            w1 = on_db (create_user_report now notice_sent tg r (reason_text (the reason)) None) w
        in (case matches_between tg r (dw_db w1) of
              [] \<Rightarrow> let (w2, prev) = restore_previous_state tg w1 in (w2, ReportKept prev)
            | [m] \<Rightarrow> (leave r (leave tg (fst (execute_chat_termination tries now token (mh_id m) w1))), ReportEndsDate)
            | _ \<Rightarrow> (w1, ReportRaised)))"

definition cancel_report_from_profile :: "int \<Rightarrow> dworld \<Rightarrow> dworld" where
  "cancel_report_from_profile tg w = fst (restore_previous_state tg w)"

section \<open>Buttons of a date that is over\<close>

datatype stale_reply = OtherOperation | Resynchronised | AnswersOver | DateOver

definition stale_questionnaire_button :: "int \<Rightarrow> dworld \<Rightarrow> dworld \<times> stale_reply" where
  "stale_questionnaire_button tg w =
     (let st = fsm_state (dw_fsm w tg) in
      if truthy st \<and> (contains ''Gift'' (the st) \<or> contains ''Transfer'' (the st)) then (w, OtherOperation)
      else case get_active_match tg (dw_db w) of
        Some m \<Rightarrow> if \<not> mh_questionnaire_completed m
                  then (on_fsm tg (set_state (Some ANSWERING)) w, Resynchronised) else (w, AnswersOver)
      | None \<Rightarrow> (w, DateOver))"

section \<open>Lemmas\<close>

lemma logged_upd_user: "logged_coins (upd_user b f d) k = logged_coins d k"
  by (rule logged_coins_cong) simp

lemma in_world_view [simp]: "iw_world (in_world f s) = f (iw_world s)"
  "iw_blocked_today (in_world f s) = iw_blocked_today s" "iw_watchers (in_world f s) = iw_watchers s"
  by (simp_all add: in_world_def)

lemma redis_view [simp]:
  "dw_db (redis_block a b w) = dw_db w" "dw_fsm (redis_block a b w) = dw_fsm w" "dw_sched (redis_block a b w) = dw_sched w"
  "dw_cooldown (redis_block a b w) = dw_cooldown w"
  "dw_db (redis_unblock a b w) = dw_db w" "dw_fsm (redis_unblock a b w) = dw_fsm w" "dw_sched (redis_unblock a b w) = dw_sched w"
  "dw_cooldown (redis_unblock a b w) = dw_cooldown w"
  by (simp_all add: redis_block_def redis_unblock_def)

lemma terminated_world [simp]:
  "dw_fsm (fst (execute_chat_termination tries now token mid w)) = dw_fsm w"
  "dw_store (fst (execute_chat_termination tries now token mid w)) = dw_store w"
  "dw_cooldown (fst (execute_chat_termination tries now token mid w)) = dw_cooldown w"
  by (simp_all add: execute_chat_termination_def split: prod.split)

text \<open>A termination whose lock is free ends the match, and touches nothing else in the database.\<close>

lemma terminated_db:
  "dw_db (fst (execute_chat_termination tries now token mid w)) =
     (if snd (try_acquire_match_lock tries token mid (dw_sched w)) \<and> match_active mid (dw_db w)
      then ended_at now mid (dw_db w) else dw_db w)"
  by (rule terminate_cases [of True tries now token mid "dw_db w" "dw_sched w"])
    (simp_all add: execute_chat_termination_def)

lemma part_view [simp]:
  "dw_db (part a b w) = dw_db w" "dw_cooldown (part a b w) = dw_cooldown w"
  "ms_blocks (dw_store (part a b w)) = ms_blocks (dw_store w)"
  "ms_state (dw_store (part a b w)) u = (if u = a \<or> u = b then None else ms_state (dw_store w) u)"
  "dw_fsm (part a b w) u = (if u = a \<or> u = b then clear_fsm (dw_fsm w u) else dw_fsm w u)"
  by (simp_all add: part_def drop_state_def leave_def on_fsm_def del_state_def clear_fsm_def)

lemma add_block_view:
  assumes "add_block now a b d = Some d'"
  shows "matches d' = matches d" "users d' = users d" "by_key block_key (a, b) (blocks d') \<noteq> None"
    "\<exists>r. blocks d' = insert_row r (blocks d) \<and> (\<forall>i. block_key (r i) = (a, b))" "a \<in> account_ids d" "b \<in> account_ids d"
    "by_key block_key (a, b) (blocks d) = None"
  using assms by (auto simp: add_block_def block_key_def by_key_def find_key_append account_ids_iff split: if_splits option.split)

lemma between_unique:
  assumes "matches_ok d"
  shows "length (matches_between a b d) \<le> 1"
proof -
  let ?P = "\<lambda>m. mh_is_active m \<and> (mh_user_one_id m = a \<and> mh_user_two_id m = b \<or> mh_user_one_id m = b \<and> mh_user_two_id m = a)"
  have d: "distinct (map mh_id (rows (matches d)))" using assms by (simp add: matches_ok_def)
  then have d: "distinct (map mh_id (filter ?P (rows (matches d))))" by (simp add: distinct_map_filter)
  have e: "mh_id x = mh_id y" if "x \<in> set (filter ?P (rows (matches d)))" "y \<in> set (filter ?P (rows (matches d)))" for x y
    using that assms unfolding matches_ok_def in_match_def by fastforce
  show ?thesis
  proof (cases "filter ?P (rows (matches d))" rule: remdups_adj.cases)
    case (3 x y zs)
    then have "mh_id x = mh_id y" "mh_id x \<noteq> mh_id y" using e [of x y] d by (simp_all add: 3)
    then show ?thesis by simp
  qed (simp_all add: matches_between_def sel_where_def)
qed

lemma between_cong: "matches d' = matches d \<Longrightarrow> matches_between a b d' = matches_between a b d"
  by (simp add: matches_between_def sel_where_def)

lemma between_ended:
  assumes "matches_between a b d = [m]"
  shows "matches_between a b (ended_at now (mh_id m) d) = []" "match_active (mh_id m) d"
proof -
  have "m \<in> set (matches_between a b d)" using assms by simp
  then show "match_active (mh_id m) d" by (auto simp: matches_between_def sel_where_def match_active_def)
  show "matches_between a b (ended_at now (mh_id m) d) = []"
  proof (rule ccontr)
    assume "matches_between a b (ended_at now (mh_id m) d) \<noteq> []"
    then obtain r where "r \<in> set (matches_between a b (ended_at now (mh_id m) d))" by (meson list.set_sel(1))
    then obtain r0 :: match_history where r0: "r0 \<in> set (rows (matches d))" and r: "r = (if mh_id r0 = mh_id m \<and> mh_is_active r0
        then r0\<lparr>mh_is_active := False, mh_ended_at := Some (Aware now)\<rparr> else r0)" and act: "mh_is_active r"
      and ends: "mh_user_one_id r = a \<and> mh_user_two_id r = b \<or> mh_user_one_id r = b \<and> mh_user_two_id r = a"
      by (auto simp: matches_between_def sel_where_def ended_at_def set_upd_list)
    from act r have rr: "r = r0" by (auto split: if_splits)
    then have "r0 \<in> set (matches_between a b d)" using r0 act ends by (simp add: matches_between_def sel_where_def)
    with assms have "r0 = m" by simp
    moreover from this act rr have "mh_is_active r0" by simp
    ultimately have "r = m\<lparr>mh_is_active := False, mh_ended_at := Some (Aware now)\<rparr>" using r by simp
    then have "\<not> mh_is_active r" by simp
    with act show False by simp
  qed
qed

lemma ended_others:
  assumes "matches_between a b d = [m]" and "u \<notin> {a, b}" and "matches_ok d"
  shows "get_active_match u (ended_at now (mh_id m) d) = get_active_match u d"
proof -
  have m: "m \<in> set (rows (matches d))" "mh_is_active m" "\<not> in_match u m"
  proof -
    have "m \<in> set (matches_between a b d)" using assms by simp
    then show "m \<in> set (rows (matches d))" "mh_is_active m" "\<not> in_match u m"
      using assms(2) by (auto simp: matches_between_def sel_where_def in_match_def)
  qed
  have "distinct (map mh_id (rows (matches d)))" using assms(3) by (simp add: matches_ok_def)
  then have same: "r = m" if "r \<in> set (rows (matches d))" "mh_id r = mh_id m" for r
    using that m(1) by (meson distinct_key_eq)
  have "find (\<lambda>m. mh_is_active m \<and> in_match u m) (map (\<lambda>r. if mh_id r = mh_id m \<and> mh_is_active r
      then r\<lparr>mh_is_active := False, mh_ended_at := Some (Aware now)\<rparr> else r) xs) = find (\<lambda>m. mh_is_active m \<and> in_match u m) xs"
    if "set xs \<subseteq> set (rows (matches d))" for xs
    using that
  proof (induction xs)
    case (Cons x xs)
    then show ?case using same [of x] m(2,3) by (cases "mh_id x = mh_id m") auto
  qed simp
  then show ?thesis by (simp add: get_active_match_def first_where_def ended_at_def upd_list_def)
qed

lemma blocked_refused:
  assumes "by_key block_key (a, b) (blocks d) \<noteq> None"
  shows "is_blocked a b d" "may_start a b d \<noteq> None" "may_start b a d \<noteq> None"
proof -
  obtain r where r: "r \<in> set (rows (blocks d))" "bl_blocker_id r = a" "bl_blocked_id r = b"
    using assms by (auto simp: block_key_def dest: by_key_SomeD)
  then show "is_blocked a b d" by (auto simp: is_blocked_def first_where_def find_None_iff)
  have "block_rows a b d \<noteq> []" "block_rows b a d \<noteq> []"
    using r by (auto simp: block_rows_def sel_where_def filter_empty_conv)
  then show "may_start a b d \<noteq> None" "may_start b a d \<noteq> None"
    by (auto simp: may_start_def split: list.split)
qed

lemma judge_blocked: "blocked_pair a b s \<Longrightarrow> judge q a b u s \<noteq> Accept"
  by (simp add: judge_def split: verdict.split)


text \<open>Unblocking undoes a block: if the pair was not blocked and no match of theirs was active, the
  rows of the block table, the rest of the database, Redis and the dialogues are what they were.\<close>

theorem unblock_undoes_block:
  assumes "execute_user_blocking tries now token a b w = (w1, Blocked)" and "unblock_user a b w1 = w2"
    and "matches_between a b (dw_db w) = []" and "b \<notin> ms_blocks (dw_store w) a"
  shows "rows (blocks (dw_db w2)) = rows (blocks (dw_db w)) \<and> dw_store w2 = dw_store w \<and> dw_fsm w2 = dw_fsm w \<and>
    dw_sched w2 = dw_sched w \<and> dw_db w2 = (dw_db w)\<lparr>blocks := blocks (dw_db w2)\<rparr>"
proof -
  obtain d where d: "add_block now a b (dw_db w) = Some d" and "a \<noteq> b"
    using assms(1) by (auto simp: execute_user_blocking_def split: if_splits option.splits)
  note v = add_block_view [OF d]
  have "matches_between a b d = []" using between_cong [OF v(1)] assms(3) by simp
  with assms(1) d have w1: "w1 = redis_block a b (w\<lparr>dw_db := d\<rparr>)"
    by (auto simp: execute_user_blocking_def Let_def split: if_splits)
  obtain r where r: "d = (dw_db w)\<lparr>blocks := insert_row r (blocks (dw_db w))\<rparr>" "\<forall>i. block_key (r i) = (a, b)"
    using d by (auto simp: add_block_def block_key_def split: if_splits)
  have "\<forall>x\<in>set (rows (blocks (dw_db w))). block_key x \<noteq> (a, b)"
    using v(7) unfolding by_key_def find_key_None_iff by (metis imageI)
  then have "filter (\<lambda>x. block_key x \<noteq> (a, b)) (rows (blocks (dw_db w))) = rows (blocks (dw_db w))"
    by (simp add: filter_id_conv)
  moreover have "(ms_blocks (dw_store w))(a := insert b (ms_blocks (dw_store w) a) - {b}) = ms_blocks (dw_store w)"
    using assms(4) by auto
  ultimately show ?thesis
    using assms(2) r by (auto simp: unblock_user_def w1 redis_block_def redis_unblock_def on_db_def)
qed

lemma block_user_counts:
  assumes "block_user tries now token a b s = (s', Blocked)"
  shows "iw_blocked_today s' b = Some (case live now (iw_blocked_today s) b of
      None \<Rightarrow> (1, midnight_after now) | Some k \<Rightarrow> (Suc k, snd (the (iw_blocked_today s b))))"
    and "(case live now (iw_blocked_today s) b of None \<Rightarrow> 1 | Some k \<Rightarrow> Suc k) \<ge> 3 \<Longrightarrow>
      dw_cooldown (iw_world s') b = Some (now + 86400 * second_us)"
proof -
  obtain w where s': "s' = count_block now b (s\<lparr>iw_world := w\<rparr>)"
    using assms by (auto simp: block_user_def Let_def split: if_splits prod.splits block_reply.splits)
  show "iw_blocked_today s' b = Some (case live now (iw_blocked_today s) b of
      None \<Rightarrow> (1, midnight_after now) | Some k \<Rightarrow> (Suc k, snd (the (iw_blocked_today s b))))"
    by (simp add: s' count_block_def Let_def split: option.split)
  show "(case live now (iw_blocked_today s) b of None \<Rightarrow> 1 | Some k \<Rightarrow> Suc k) \<ge> 3 \<Longrightarrow>
      dw_cooldown (iw_world s') b = Some (now + 86400 * second_us)"
    by (simp add: s' count_block_def Let_def)
qed

text \<open>Three blocks a day bar a user from the search, and they may all be by one and the same
  other user, who unblocks in between: the third bars the target for a day.\<close>

theorem one_user_bars_another:
  assumes "block_user tries1 t1 k1 a b s = (s1, Blocked)"
    and "block_user tries2 t2 k2 a b (in_world (unblock_user a b) s1) = (s2, Blocked)"
    and "block_user tries3 t3 k3 a b (in_world (unblock_user a b) s2) = (s3, Blocked)"
    and "t1 \<le> t2" and "t2 \<le> t3" and "t3 < midnight_after t1" and "live t1 (iw_blocked_today s) b = None"
  shows "unexpired now (dw_cooldown (iw_world s3) b) \<longleftrightarrow> now < t3 + 86400 * second_us"
proof -
  have "iw_blocked_today s1 b = Some (1, midnight_after t1)"
    using block_user_counts [OF assms(1)] assms(7) by simp
  then have "live t2 (iw_blocked_today (in_world (unblock_user a b) s1)) b = Some 1"
    and e1: "iw_blocked_today (in_world (unblock_user a b) s1) b = Some (1, midnight_after t1)"
    using assms(5,6) by (simp_all add: live_def)
  then have "iw_blocked_today s2 b = Some (2, midnight_after t1)"
    using block_user_counts [OF assms(2)] by simp
  then have "live t3 (iw_blocked_today (in_world (unblock_user a b) s2)) b = Some 2"
    using assms(6) by (simp add: live_def)
  then have "dw_cooldown (iw_world s3) b = Some (t3 + 86400 * second_us)"
    using block_user_counts(2) [OF assms(3)] by simp
  then show ?thesis by (simp add: unexpired_def)
qed

section \<open>The pages of the blocked\<close>

lemma pages_cover:
  assumes "length xs = n"
  shows "concat (map (\<lambda>p. take BLOCKED_PER_PAGE (drop (p * BLOCKED_PER_PAGE) xs)) [0..<pages n]) = xs"
proof -
  have k: "concat (map (\<lambda>p. take k (drop (p * k) xs)) [0..<j]) = take (j * k) xs" for j k
  proof (induction j)
    case (Suc j)
    have "take (j * k) xs @ take k (drop (j * k) xs) = take (j * k + k) xs" by (simp add: take_add)
    with Suc show ?case by (simp add: add.commute)
  qed simp
  have "n \<le> pages n * BLOCKED_PER_PAGE" by (auto simp: pages_def BLOCKED_PER_PAGE_def)
  with assms show ?thesis by (simp only: k) simp
qed

text \<open>The pages of the blocked list show everybody once: read in order, they are the whole list,
  most recent block first, if each blocked account still exists; each page but the last leads to the
  next, and unblocking from a page shows a page that exists.\<close>

theorem blocked_pages_complete:
  assumes "all = map snd (sort_key (\<lambda>(b, u). - bl_id b) [(b, u). b \<leftarrow> rows (blocks d), u \<leftarrow> rows (users d),
      bl_blocked_id b = u_tg_id u, bl_blocker_id b = tg])"
    and "length all = rowcount (\<lambda>b. bl_blocker_id b = tg) (blocks d)"
  shows "concat (map (\<lambda>p. bp_users (render_blocked_list tg p d)) [0..<pages (length all)]) = all \<and>
    (\<forall>p. bp_next (render_blocked_list tg p d) = (if p + 1 < pages (length all) then Some (p + 1) else None))"
proof -
  have r: "bp_users (render_blocked_list tg p d) = take BLOCKED_PER_PAGE (drop (p * BLOCKED_PER_PAGE) all)"
    "bp_next (render_blocked_list tg p d) = (if p + 1 < pages (length all) then Some (p + 1) else None)" for p
    unfolding assms(2) by (simp_all add: render_blocked_list_def get_blocked_users_def assms(1) take_map drop_map)
  show ?thesis unfolding r using pages_cover [OF refl, of all] by simp
qed

section \<open>Likes\<close>

lemma saved_like:
  assumes "likes_ok d"
  shows "coin_balance (save_like now a b False d) k = coin_balance d k" "logged_coins (save_like now a b False d) k = logged_coins d k"
    "users_unique (save_like now a b False d) = users_unique d"
    "get_user d b = Some u \<Longrightarrow> \<exists>v. get_user (save_like now a b False d) b = Some v \<and> u_tg_id v = b"
proof -
  have tx: "coin_txs (save_like now a b False d) = coin_txs d"
    by (simp add: save_like_def Let_def add_likes_count_def upd_user_def split: option.split)
  then show "logged_coins (save_like now a b False d) k = logged_coins d k" by (rule logged_coins_cong)
  show "coin_balance (save_like now a b False d) k = coin_balance d k"
    by (auto simp: coin_balance_def get_user_save_like split: option.split)
  show "users_unique (save_like now a b False d) = users_unique d"
    by (simp add: save_like_def Let_def users_unique_def add_likes_count_def upd_user_def upd_list_keys split: option.split)
  show "get_user d b = Some u \<Longrightarrow> \<exists>v. get_user (save_like now a b False d) b = Some v \<and> u_tg_id v = b"
    by (auto simp: get_user_save_like dest: get_user_tg)
qed

lemma rewarded_likes:
  "likes_ok (add_coin_tx now b m t None x (upd_user b (earn m) d)) = likes_ok d"
  "get_received_like_count k (add_coin_tx now b m t None x (upd_user b (earn m) d)) = get_received_like_count k d"
  "likes (add_coin_tx now b m t None x (upd_user b (earn m) d)) = likes d"
proof -
  show l: "likes (add_coin_tx now b m t None x (upd_user b (earn m) d)) = likes d"
    by (simp add: add_coin_tx_def upd_user_def)
  then show c: "get_received_like_count k (add_coin_tx now b m t None x (upd_user b (earn m) d)) = get_received_like_count k d" for k
    by (simp add: get_received_like_count_def)
  show "likes_ok (add_coin_tx now b m t None x (upd_user b (earn m) d)) = likes_ok d"
    unfolding likes_ok_def c l by (auto simp: get_upd_user earn_def split: if_splits)
qed

text \<open>A like counts once and pays by twenties: the first press stores it and brings the total to n;
  the liked user, and nobody else, is paid the reward exactly when n is a multiple of twenty, the log
  moves with the balance, and every later press of the same user changes nothing.\<close>

theorem like_pays_by_twenties:
  assumes "users_unique d" and "likes_ok d" and "handle_like_user now fl event a b d = (d', Liked n)" and "get_user d b = Some u"
  shows "n = get_received_like_count b d' \<and> likes_ok d' \<and>
    coin_balance d' k = coin_balance d k + (if k = b \<and> 20 dvd n then event_amount fl event False 5 else 0) \<and>
    logged_coins d' k = logged_coins d k + (if k = b \<and> 20 dvd n then event_amount fl event False 5 else 0) \<and>
    handle_like_user now' fl' event' a b d' = (d', AlreadyLiked)"
proof -
  let ?d1 = "save_like now a b False d" and ?m = "event_amount fl event False 5"
  have ab: "b \<noteq> a" and new: "handle_like_user now fl event a b d = (d', Liked n)"
    using assms(3) by (auto simp: handle_like_user_def split: if_splits)
  have k1: "likes_ok ?d1" and k2: "map_option ul_is_pass (by_key like_key (a, b) (likes ?d1)) = Some False"
    using save_like_keeps_counter [OF assms(2), of now a b False] by auto
  obtain v where v: "get_user ?d1 b = Some v" "u_tg_id v = b" using saved_like(4) [OF assms(2,4)] by blast
  have n: "n = get_received_like_count b ?d1"
    using assms(3) by (auto simp: handle_like_user_def Let_def split: if_splits option.splits)
  obtain l where l: "l \<in> set (rows (likes ?d1))" "ul_liker_id l = a" "ul_liked_id l = b" "\<not> ul_is_pass l"
    using k2 by (auto simp: like_key_def dest: by_key_SomeD)
  then have "l \<in> set (filter (\<lambda>l. ul_liked_id l = b \<and> \<not> ul_is_pass l) (rows (likes ?d1)))" by simp
  then have pos: "n > 0" unfolding n get_received_like_count_def rowcount_def by (metis length_pos_if_in_set)
  have d': "d' = (if 20 dvd n then add_coin_tx now b ?m (event_text event False (TxLikes (int n))) None ''generic'' (upd_user b (earn ?m) ?d1) else ?d1)"
    using assms(3) v pos by (auto simp: handle_like_user_def Let_def process_credit n dvd_eq_mod_eq_0 split: if_splits)
  have lk: "likes d' = likes ?d1" by (simp add: d' rewarded_likes)
  have "first_where (\<lambda>l. ul_liker_id l = a \<and> ul_liked_id l = b \<and> \<not> ul_is_pass l) (likes d') \<noteq> None"
    using l by (auto simp: lk first_where_def find_None_iff)
  then have "handle_like_user now' fl' event' a b d' = (d', AlreadyLiked)" using ab by (simp add: handle_like_user_def)
  moreover have "n = get_received_like_count b d'" "likes_ok d'" using n k1 by (simp_all add: d' rewarded_likes)
  moreover have "coin_balance d' k = coin_balance d k + (if k = b \<and> 20 dvd n then ?m else 0)"
    using v saved_like(1) [OF assms(2), of now a b k] by (auto simp: d' coin_balance_def get_upd_user split: option.splits)
  moreover have "logged_coins d' k = logged_coins d k + (if k = b \<and> 20 dvd n then ?m else 0)"
  proof -
    show ?thesis using saved_like(2) [OF assms(2), of now a b] by (simp add: d' logged_upd_user)
  qed
  ultimately show ?thesis by blast
qed

section \<open>Requests\<close>

lemma charged_view:
  assumes "users_unique (dw_db w)" and "get_user (dw_db w) caller = Some u" and "\<not> vip_row_active now u" and "u_coin_balance u \<ge> 1"
    and "w1 = charge_request now fl event is_chat caller w"
  shows "matches (dw_db w1) = matches (dw_db w)" "blocks (dw_db w1) = blocks (dw_db w)" "dw_fsm w1 = dw_fsm w"
    "dw_store w1 = dw_store w" "dw_sched w1 = dw_sched w"
    "coin_balance (dw_db w1) k = coin_balance (dw_db w) k - (if k = caller then 1 else 0)"
    "logged_coins (dw_db w1) k = logged_coins (dw_db w) k - (if k = caller then 1 else 0)"
proof -
  have tg: "u_tg_id u = caller" using assms(2) by (rule get_user_tg)
  have w1: "w1 = w\<lparr>dw_db := add_coin_tx now caller (- 1) (TxRequest is_chat) None ''generic'' (upd_user caller (spend 1) (dw_db w))\<rparr>"
    using assms process_debit [OF assms(1), of u u "- 1"] by (simp add: charge_request_def tg)
  show "logged_coins (dw_db w1) k = logged_coins (dw_db w) k - (if k = caller then 1 else 0)" by (simp add: w1 logged_upd_user)
  show "coin_balance (dw_db w1) k = coin_balance (dw_db w) k - (if k = caller then 1 else 0)"
    using assms(2) by (simp add: w1 coin_balance_def get_upd_user spend_def split: option.split)
qed (simp_all add: assms(5) charge_request_def process_coin_transaction_def Let_def add_coin_tx_def upd_user_def upd_list_def split: option.split)

lemma find_map_keep: "(\<And>x. P (f x) = P x) \<Longrightarrow> find P (map f xs) = map_option f (find P xs)"
  by (induction xs) auto

lemma activated_view:
  "map_option mh_id (get_active_match u (dw_db (activate_anonymous_chat_session now mid one two w))) = map_option mh_id (get_active_match u (dw_db w))"
  "blocks (dw_db (activate_anonymous_chat_session now mid one two w)) = blocks (dw_db w)"
  "users (dw_db (activate_anonymous_chat_session now mid one two w)) = users (dw_db w)"
proof -
  show "map_option mh_id (get_active_match u (dw_db (activate_anonymous_chat_session now mid one two w))) = map_option mh_id (get_active_match u (dw_db w))"
    by (auto simp: activate_anonymous_chat_session_def Let_def on_fsm_def lock_skip_def on_match_def on_db_def get_active_match_def
        first_where_def upd_where_def upd_list_def find_map_keep in_match_def option.map_comp o_def intro!: option.map_cong)
qed (simp_all add: activate_anonymous_chat_session_def Let_def on_fsm_def lock_skip_def on_match_def on_db_def)

text \<open>Accepting a chat request charges its sender one coin and opens the chat in the same press,
  the same match active for both and each in the chat with the other; a second press changes
  nothing.  Blocks are not looked at: the chat opens though either has blocked the other.\<close>

theorem accepted_chat_opens:
  assumes "users_unique (dw_db w)" and "get_user (dw_db w) caller = Some u" and "\<not> vip_row_active now u" and "u_coin_balance u \<ge> 1"
    and "get_active_match caller (dw_db w) = None" and "get_active_match target (dw_db w) = None" and "caller \<noteq> target"
    and "accept_user_request shuffle deliver now fl event True caller target w = (w', r)"
  shows "r = ChatOpened \<and> blocks (dw_db w') = blocks (dw_db w) \<and>
    coin_balance (dw_db w') k = coin_balance (dw_db w) k - (if k = caller then 1 else 0) \<and>
    (\<exists>mid. map_option mh_id (get_active_match caller (dw_db w')) = Some mid \<and> map_option mh_id (get_active_match target (dw_db w')) = Some mid \<and>
       dw_fsm w' = (dw_fsm w)(caller := open_chat mid target (dw_fsm w caller), target := open_chat mid caller (dw_fsm w target))) \<and>
    fst (accept_user_request shuffle' deliver' later fl' event' is_chat caller target w') = w'"
proof -
  let ?w1 = "charge_request now fl event True caller w" and ?mid = "next_id (matches (dw_db w))"
  note v = charged_view [OF assms(1-4) refl, of fl event True]
  have pay: "can_pay now (get_user (dw_db w) caller)" using assms(2,4) by (simp add: can_pay_def)
  have free: "get_active_match caller (dw_db ?w1) = None" "get_active_match target (dw_db ?w1) = None"
    using assms(5,6) v(1) by (simp_all add: get_active_match_def)
  have "accept_user_request shuffle deliver now fl event True caller target w = (open_new_chat now caller target ?w1, ChatOpened)"
    using assms(5,6) pay by (simp add: accept_user_request_def Let_def)
  then have r: "r = ChatOpened" "w' = activate_anonymous_chat_session now ?mid caller target (?w1\<lparr>dw_db := fst (create_match_history now caller target (dw_db ?w1))\<rparr>)"
    using assms(8) by (simp_all add: open_new_chat_def create_match_history_def new_match_def v(1))
  have both: "map_option mh_id (get_active_match x (dw_db w')) = Some ?mid" if "x \<in> {caller, target}" for x
    using created_active [OF free that, of now] v(1) by (simp add: r(2) activated_view new_match_def)
  have "dw_fsm w' = (dw_fsm w)(caller := open_chat ?mid target (dw_fsm w caller), target := open_chat ?mid caller (dw_fsm w target))"
    using assms(7) v(3) by (auto simp: r(2) activate_anonymous_chat_session_def Let_def on_fsm_def lock_skip_def on_match_def on_db_def)
  moreover have "get_active_match caller (dw_db w') \<noteq> None" using both [of caller] by auto
  then have "fst (accept_user_request shuffle' deliver' later fl' event' is_chat caller target w') = w'"
    by (simp add: accept_user_request_def)
  moreover have "blocks (dw_db w') = blocks (dw_db w)" "coin_balance (dw_db w') k = coin_balance (dw_db w) k - (if k = caller then 1 else 0)"
    using v(2) v(6) [of k] by (simp_all add: r(2) activated_view create_match_history_def coin_balance_def get_user_def)
  moreover have "map_option mh_id (get_active_match caller (dw_db w')) = Some ?mid" "map_option mh_id (get_active_match target (dw_db w')) = Some ?mid"
    using both by blast+
  ultimately show ?thesis using r(1) by blast
qed

text \<open>Accepting a date request between two users one of whom has blocked the other still costs its
  sender a coin, which the log confirms, and starts nothing: no match, no dialogue and no timer changes.\<close>

theorem blocked_date_is_charged:
  assumes "users_unique (dw_db w)" and "get_user (dw_db w) caller = Some u" and "\<not> vip_row_active now u" and "u_coin_balance u \<ge> 1"
    and "get_active_match caller (dw_db w) = None" and "get_active_match target (dw_db w) = None"
    and "is_blocked target caller (dw_db w)"
    and "accept_user_request shuffle deliver now fl event False caller target w = (w', r)"
  shows "r \<in> {DateNotStarted, AcceptRaised OtherError} \<and> matches (dw_db w') = matches (dw_db w) \<and>
    dw_fsm w' = dw_fsm w \<and> dw_sched w' = dw_sched w \<and>
    coin_balance (dw_db w') k = coin_balance (dw_db w) k - (if k = caller then 1 else 0) \<and>
    logged_coins (dw_db w') k = logged_coins (dw_db w) k - (if k = caller then 1 else 0)"
proof -
  let ?w1 = "charge_request now fl event False caller w"
  note v = charged_view [OF assms(1-4) refl, of fl event False]
  have pay: "can_pay now (get_user (dw_db w) caller)" using assms(2,4) by (simp add: can_pay_def)
  have "block_rows caller target (dw_db ?w1) \<noteq> []"
    using assms(7) v(2) by (auto simp: is_blocked_def block_rows_def sel_where_def first_where_def find_None_iff filter_empty_conv)
  then have "may_start caller target (dw_db ?w1) \<in> Some ` {NotStarted, StartError OtherError}"
    by (auto simp: may_start_def split: list.split)
  then obtain x where x: "may_start caller target (dw_db ?w1) = Some x" "x \<in> {NotStarted, StartError OtherError}" by blast
  have "w' = ?w1 \<and> r \<in> {DateNotStarted, AcceptRaised OtherError}"
    using assms(8) assms(5,6) pay x by (auto simp: accept_user_request_def Let_def handle_successful_match_def)
  then show ?thesis using v by simp
qed

section \<open>Reports\<close>

text \<open>A report started outside every dialogue cannot be left: cancelling it, or sending the
  evidence, files at most one report and keeps the user in the state that waits for evidence, where
  every further message is answered as expired and changes nothing.\<close>

theorem report_is_a_trap:
  assumes "fsm_state (dw_fsm w tg) = None" and "w1 = on_fsm tg (process_report_reason reported reason) w"
    and "w2 = cancel_report_from_profile tg w1"
  shows "fsm_state (dw_fsm w2 tg) = Some REPORT_TEXT \<and>
    snd (handle_report_evidence tries now token sent reasons tg w2) = ReportExpired \<and>
    fsm_state (dw_fsm (fst (handle_report_evidence tries now token sent reasons tg w2)) tg) = Some REPORT_TEXT \<and>
    dw_db (fst (handle_report_evidence tries now token sent reasons tg w2)) = dw_db w"
proof -
  have p: "\<not> pipeline_state None" by code_simp
  have d: "fsm_data (dw_fsm w2 tg) ''reported_id'' = None" "fsm_data (dw_fsm w2 tg) ''__prev_state__'' = None"
    "fsm_state (dw_fsm w2 tg) = Some REPORT_TEXT" "dw_db w2 = dw_db w"
    using assms(1) p by (simp_all add: assms(2,3) cancel_report_from_profile_def restore_previous_state_def Let_def on_fsm_def
        process_report_reason_def preserve_current_state_def fsm_str_def truthy_def update_data_def)
  then have n: "\<not> nonzero (fsm_int ''reported_id'' (dw_fsm w2 tg))" by (simp add: fsm_int_def nonzero_def)
  have h: "handle_report_evidence tries now token sent reasons tg w2 = (fst (restore_previous_state tg w2), ReportExpired)"
    using n by (simp add: handle_report_evidence_def Let_def)
  show ?thesis
    unfolding h using d p by (simp add: restore_previous_state_def Let_def fsm_str_def truthy_def on_fsm_def)
qed

section \<open>Witnesses\<close>

definition two_free :: dworld where
  "two_free = free_date\<lparr>dw_db := (dw_db free_date)\<lparr>users := users demo_db, likes := \<lparr>rows = [], next_id = 1\<rparr>,
     blocks := \<lparr>rows = [], next_id = 1\<rparr>, coin_txs := coin_txs demo_db\<rparr>\<rparr>"

definition blocked_free :: dworld where
  "blocked_free = fst (execute_user_blocking [] 0 [] 2 1 two_free)"

lemma two_free_view:
  "users (dw_db two_free) = users demo_db" "rows (matches (dw_db two_free)) = []" "rows (blocks (dw_db two_free)) = []"
  "get_user (dw_db two_free) k = get_user demo_db k" "get_active_match k (dw_db two_free) = None" "matches_ok (dw_db two_free)"
  "users_unique (dw_db two_free)" "ms_blocks (dw_store two_free) k = {}" "matches_between a b (dw_db two_free) = []"
  "fsm_state (dw_fsm two_free k) = None"
  by (auto simp: two_free_def free_date_def get_user_def get_active_match_def first_where_def matches_ok_def users_unique_def
      matches_between_def sel_where_def demo_date_def empty_store_def by_key_def)

lemma two_free_blocks:
  assumes "{a, b} = {1, 2}" and "rows (matches (dw_db w)) = []" and "rows (blocks (dw_db w)) = []" and "users (dw_db w) = users demo_db"
  shows "\<exists>w'. execute_user_blocking tries now token a b w = (w', Blocked)"
proof -
  have "get_user (dw_db w) 1 \<noteq> None" "get_user (dw_db w) 2 \<noteq> None" "a \<noteq> b" "a = 1 \<or> a = 2" "b = 1 \<or> b = 2"
    using assms by (auto simp: get_user_def by_key_def doubleton_eq_iff)
  then show ?thesis
    using assms by (auto simp: execute_user_blocking_def add_block_def by_key_def matches_between_def sel_where_def)
qed


theorem unblock_undoes_block_witness:
  "dw_store (unblock_user 1 2 (fst (execute_user_blocking [] 0 [] 1 2 two_free))) = dw_store two_free"
proof -
  obtain w' where w': "execute_user_blocking [] 0 [] 1 2 two_free = (w', Blocked)"
    using two_free_blocks [of 1 2 two_free "[]" 0 "[]"] two_free_view by auto
  from unblock_undoes_block [OF w' refl] w' two_free_view(8,9) show ?thesis by simp
qed

lemma two_free_reblock:
  assumes "rows (matches (dw_db (iw_world s))) = []" and "rows (blocks (dw_db (iw_world s))) = []"
    and "users (dw_db (iw_world s)) = users demo_db"
  obtains s' where "block_user [] now [] 1 2 s = (s', Blocked)" "rows (matches (dw_db (iw_world (in_world (unblock_user 1 2) s')))) = []"
    "rows (blocks (dw_db (iw_world (in_world (unblock_user 1 2) s')))) = []"
    "users (dw_db (iw_world (in_world (unblock_user 1 2) s'))) = users demo_db"
proof -
  obtain w' where w': "execute_user_blocking [] now [] 1 2 (iw_world s) = (w', Blocked)"
    using two_free_blocks [of 1 2 "iw_world s" "[]" now "[]"] assms by auto
  obtain d where d: "add_block now 1 2 (dw_db (iw_world s)) = Some d" using w' by (auto simp: execute_user_blocking_def split: option.splits)
  have m: "matches_between 1 2 d = []" "matches_between 1 2 (dw_db (iw_world s)) = []"
    using add_block_view(1) [OF d] assms by (simp_all add: matches_between_def sel_where_def)
  have w1: "w' = redis_block 1 2 ((iw_world s)\<lparr>dw_db := d\<rparr>)" using w' d m by (simp add: execute_user_blocking_def)
  obtain r where r: "blocks d = insert_row r (blocks (dw_db (iw_world s)))" "\<forall>i. block_key (r i) = (1, 2)"
    using add_block_view(4) [OF d] by blast
  show thesis
    by (rule that [of "count_block now 2 (s\<lparr>iw_world := w'\<rparr>)"])
      (use assms r add_block_view(1,2) [OF d] in \<open>simp_all add: block_user_def m w' w1 unblock_user_def on_db_def count_block_def
         Let_def insert_row_def redis_block_def redis_unblock_def in_world_def\<close>)
qed

theorem one_user_bars_another_witness:
  "\<exists>s :: iworld. unexpired 7 (dw_cooldown (iw_world s) 2)"
proof -
  define s :: iworld where "s = \<lparr>iw_world = two_free, iw_blocked_today = Map.empty, iw_watchers = Map.empty\<rparr>"
  have v: "rows (matches (dw_db (iw_world s))) = []" "rows (blocks (dw_db (iw_world s))) = []" "users (dw_db (iw_world s)) = users demo_db"
    by (simp_all add: s_def two_free_view)
  obtain s1 where s1: "block_user [] 0 [] 1 2 s = (s1, Blocked)" "rows (matches (dw_db (iw_world (in_world (unblock_user 1 2) s1)))) = []"
    "rows (blocks (dw_db (iw_world (in_world (unblock_user 1 2) s1)))) = []"
    "users (dw_db (iw_world (in_world (unblock_user 1 2) s1))) = users demo_db"
    by (rule two_free_reblock [OF v, of 0])
  obtain s2 where s2: "block_user [] 1 [] 1 2 (in_world (unblock_user 1 2) s1) = (s2, Blocked)" "rows (matches (dw_db (iw_world (in_world (unblock_user 1 2) s2)))) = []"
    "rows (blocks (dw_db (iw_world (in_world (unblock_user 1 2) s2)))) = []"
    "users (dw_db (iw_world (in_world (unblock_user 1 2) s2))) = users demo_db"
    by (rule two_free_reblock [OF s1(2-4), of 1])
  obtain s3 where s3: "block_user [] 2 [] 1 2 (in_world (unblock_user 1 2) s2) = (s3, Blocked)"
    by (rule two_free_reblock [OF s2(2-4), of 2])
  have "unexpired 7 (dw_cooldown (iw_world s3) 2)"
    using one_user_bars_another [OF s1(1) s2(1) s3, of 7]
    by (simp add: midnight_after_def day_us_def second_us_def s_def live_def)
  then show ?thesis by blast
qed

definition no_block_db :: db where
  "no_block_db = demo_db\<lparr>blocks := \<lparr>rows = [\<lparr>bl_id = 1, bl_blocker_id = 1, bl_blocked_id = 2, bl_created_at = Aware 0\<rparr>], next_id = 2\<rparr>\<rparr>"

theorem blocked_pages_complete_witness:
  "concat (map (\<lambda>p. bp_users (render_blocked_list 1 p no_block_db)) [0..<pages 1]) = [bob]"
proof -
  have "length [bob] = rowcount (\<lambda>b. bl_blocker_id b = 1) (blocks no_block_db)" by (simp add: no_block_db_def rowcount_def)
  from blocked_pages_complete [OF _ this] show ?thesis by (simp add: no_block_db_def)
qed

theorem like_pays_by_twenties_witness:
  "\<exists>d'. handle_like_user 0 id None 1 2 (dw_db two_free) = (d', Liked 1) \<and> coin_balance d' 2 = 3"
proof -
  let ?d = "dw_db two_free"
  have lk: "likes ?d = \<lparr>rows = [], next_id = 1\<rparr>" by (simp add: two_free_def)
  have ok: "likes_ok ?d"
    using two_free_view(4) by (auto simp: likes_ok_def lk get_received_like_count_def rowcount_def get_user_def by_key_def alice_def bob_def new_user_def split: if_splits)
  let ?d1 = "save_like 0 1 2 False ?d"
  have n: "get_received_like_count 2 ?d1 = 1" by (simp add: new_like_def save_like_def Let_def lk by_key_def get_received_like_count_def rowcount_def)
  have h: "handle_like_user 0 id None 1 2 ?d = (?d1, Liked 1)"
    by (simp add: handle_like_user_def Let_def n lk first_where_def)
  have g: "get_user ?d 2 = Some bob" by (simp add: two_free_view get_user_def by_key_def)
  from like_pays_by_twenties [OF two_free_view(7) ok h g, of 2] have "coin_balance ?d1 2 = coin_balance ?d 2" by simp
  moreover have "coin_balance ?d 2 = 3" by (simp add: coin_balance_def g)
  ultimately show ?thesis using h by simp
qed

theorem accepted_chat_opens_witness:
  "coin_balance (dw_db (fst (accept_user_request id (\<lambda>_. Delivered) 0 id None True 1 2 two_free))) 1 = 2"
proof -
  have g: "get_user (dw_db two_free) 1 = Some alice" by (simp add: two_free_view get_user_def by_key_def)
  from accepted_chat_opens [OF two_free_view(7) this _ _ two_free_view(5,5) _ prod.collapse [symmetric], of 0 2 id "\<lambda>_. Delivered" id None 1]
  show ?thesis by (simp add: vip_row_active_def coin_balance_def g)
qed

theorem blocked_date_is_charged_witness:
  "coin_balance (dw_db (fst (accept_user_request id (\<lambda>_. Delivered) 0 id None False 1 2 blocked_free))) 1 = 2"
proof -
  obtain w' where w': "execute_user_blocking [] 0 [] 2 1 two_free = (w', Blocked)"
    using two_free_blocks [of 2 1 two_free "[]" 0 "[]"] two_free_view by auto
  obtain d where d: "add_block 0 2 1 (dw_db two_free) = Some d" using w' by (auto simp: execute_user_blocking_def split: option.splits)
  note v = add_block_view [OF d]
  have "matches_between 2 1 d = []" using v(1) two_free_view(2) by (simp add: matches_between_def sel_where_def)
  then have b: "dw_db blocked_free = d" by (simp add: blocked_free_def execute_user_blocking_def d)
  have "users_unique d" "get_user d 1 = Some alice" "get_active_match k d = None" for k
    using v(1,2) two_free_view(1,2,7) by (simp_all add: users_unique_def get_user_def by_key_def get_active_match_def first_where_def)
  then show ?thesis
    using blocked_date_is_charged [of blocked_free 1 alice 0 2 id "\<lambda>_. Delivered" id None _ _ 1, OF _ _ _ _ _ _ _ prod.collapse [symmetric]] blocked_refused(1) [OF v(3)]
    by (simp add: b vip_row_active_def coin_balance_def)
qed

theorem report_is_a_trap_witness:
  "fsm_state (dw_fsm (cancel_report_from_profile 1 (on_fsm 1 (process_report_reason 2 ''spam'') two_free)) 1) = Some REPORT_TEXT"
  using report_is_a_trap [OF two_free_view(10) refl refl] by blast

end
