(* ===== verification/Onboarding.thy ===== *)
theory Onboarding
  imports Healing Utf8 Referral
begin

text \<open>
  \<open>/start\<close>, the registration dialogue and the membership button (\<open>bot/handlers/start.py\<close>).  The
  provinces of \<open>IRAN_DATA\<close> are read from a file and are the parameter \<open>provinces\<close>.  A user's
  Telegram name and user name are arguments, \<open>draws\<close> the random public ids, \<open>mentions\<close> what the
  text of an integrity error names (theory Accounts).  Redis answers; its keys with a pending link
  hold their expiry in seconds.
\<close>

section \<open>State\<close>

record sworld =
  sw_world :: dworld
  sw_links :: fj_store

definition on_world :: "(dworld \<Rightarrow> dworld) \<Rightarrow> sworld \<Rightarrow> sworld" where
  "on_world f s = s\<lparr>sw_world := f (sw_world s)\<rparr>"

definition ACTIVE_PIPELINE_STATES :: "string list" where
  "ACTIVE_PIPELINE_STATES = [CHAT_ACTIVE, WAITING_IN_QUEUE, ANSWERING, WAITING_PARTNER]"

definition TERMS :: string where "TERMS = ''OnboardingStates:waiting_for_terms_acceptance''"
definition NAME :: string where "NAME = ''OnboardingStates:waiting_for_name''"
definition GENDER :: string where "GENDER = ''OnboardingStates:waiting_for_gender''"
definition AGE :: string where "AGE = ''OnboardingStates:waiting_for_age''"
definition PROVINCE :: string where "PROVINCE = ''OnboardingStates:waiting_for_province''"
definition CITY :: string where "CITY = ''OnboardingStates:waiting_for_city''"
definition ANON_MESSAGE :: string where "ANON_MESSAGE = ''AnonymousLinkStates:waiting_for_message''"

lemmas onboarding_states = TERMS_def NAME_def GENDER_def AGE_def PROVINCE_def CITY_def ANON_MESSAGE_def

section \<open>Who invited a new user\<close>

text \<open>\<open>None\<close>: \<open>int()\<close> raised, which both handlers catch.\<close>

definition valid_referrer :: "int \<Rightarrow> user option \<Rightarrow> int option" where
  "valid_referrer tg r = (case r of None \<Rightarrow> None
     | Some u \<Rightarrow> if u_tg_id u \<noteq> tg then Some (u_tg_id u) else None)"

definition pending_referrer :: "int \<Rightarrow> ustr \<Rightarrow> db \<Rightarrow> int option option" where
  "pending_referrer tg candidate d =
     (let s = (if starts_with (lit ''ref_'') candidate then drop 4 candidate else candidate);
          code = takeWhile (\<lambda>c. c \<noteq> 95) s
      in if isdigit code then map_option (\<lambda>i. valid_referrer tg (get_user d i)) (py_int code)
         else Some (valid_referrer tg (first_where (\<lambda>u. u_referral_code u = Some (utf8 code)) (users d))))"

definition pending_link :: "int \<Rightarrow> (ustr \<times> int) option \<Rightarrow> ustr option" where
  "pending_link now k = (case k of None \<Rightarrow> None
     | Some (t, e) \<Rightarrow> if now div second_us < e \<and> t \<noteq> [] then Some t else None)"

definition forget_ref :: "int \<Rightarrow> sworld \<Rightarrow> sworld" where
  "forget_ref tg s = s\<lparr>sw_links := (sw_links s)\<lparr>fj_pending_ref := (fj_pending_ref (sw_links s))(tg := None)\<rparr>\<rparr>"

definition forget_anon :: "int \<Rightarrow> sworld \<Rightarrow> sworld" where
  "forget_anon tg s = s\<lparr>sw_links := (sw_links s)\<lparr>fj_pending_anon := (fj_pending_anon (sw_links s))(tg := None)\<rparr>\<rparr>"

text \<open>\<open>/start\<close> forgets the link only when its code could be read.\<close>

definition take_referrer :: "int \<Rightarrow> int \<Rightarrow> sworld \<Rightarrow> sworld \<times> int option" where
  "take_referrer now tg s =
     (case pending_link now (fj_pending_ref (sw_links s) tg) of
        None \<Rightarrow> (s, None)
      | Some t \<Rightarrow> (case pending_referrer tg t (dw_db (sw_world s)) of
            None \<Rightarrow> (s, None)
          | Some r \<Rightarrow> (forget_ref tg s, r)))"

section \<open>Accounts\<close>

record newcomer =
  nc_name :: string
  nc_username :: "string option"
  nc_shard :: int
  nc_draws :: "string list"

text \<open>An integrity error is rolled back; what is left of the draws' failure leaves the handler.\<close>

definition open_account ::
  "(violated \<Rightarrow> bool) \<Rightarrow> int \<Rightarrow> newcomer \<Rightarrow> int \<Rightarrow> int option \<Rightarrow> db \<Rightarrow> db option" where
  "open_account mentions now nc tg referrer d =
     (case create_user mentions now (nc_shard nc) (nc_draws nc) tg (nc_name nc) (nc_username nc) referrer d of
        Inr (d1, u) \<Rightarrow> Some d1
      | Inl (IntegrityError v) \<Rightarrow> Some d
      | Inl RuntimeError \<Rightarrow> None)"

definition write_anonymous :: "int \<Rightarrow> int \<Rightarrow> dworld \<Rightarrow> dworld" where
  "write_anonymous tg target = on_fsm tg (\<lambda>c. update_data ''target_anon_id'' (FInt target) (set_state (Some ANON_MESSAGE) c))"

section \<open>/start\<close>

datatype start_reply = ActiveProcess | AnonTargetGone | BannedReply | WriteAnonymous int
  | WelcomeBack | ShowTerms | NotJoined | AlreadyMember | StartRaised

definition user_by_public_id :: "ustr \<Rightarrow> db \<Rightarrow> user option" where
  "user_by_public_id t d = first_where (\<lambda>u. u_public_id u = Some (utf8 t)) (users d)"

definition start_anonymous ::
  "(violated \<Rightarrow> bool) \<Rightarrow> int \<Rightarrow> newcomer \<Rightarrow> int \<Rightarrow> ustr \<Rightarrow> sworld \<Rightarrow> sworld \<times> start_reply" where
  "start_anonymous mentions now nc tg target s =
     (let d = dw_db (sw_world s) in
      case user_by_public_id target d of
        None \<Rightarrow> (s, AnonTargetGone)
      | Some t \<Rightarrow>
          (case get_user d tg of
             Some u \<Rightarrow> if u_is_banned u
               then (s\<lparr>sw_links := (sw_links s)\<lparr>fj_banned := insert tg (fj_banned (sw_links s))\<rparr>\<rparr>, BannedReply)
               else (on_world (write_anonymous tg (u_tg_id t)) s, WriteAnonymous (u_tg_id t))
           | None \<Rightarrow>
               (case open_account mentions now nc tg None d of
                  None \<Rightarrow> (s, StartRaised)
                | Some d1 \<Rightarrow> (on_world (\<lambda>w. write_anonymous tg (u_tg_id t) (w\<lparr>dw_db := d1\<rparr>)) s,
                    WriteAnonymous (u_tg_id t)))))"

definition show_terms :: "int \<Rightarrow> dworld \<Rightarrow> dworld" where
  "show_terms tg = on_fsm tg (set_state (Some TERMS))"

definition start_plain ::
  "(violated \<Rightarrow> bool) \<Rightarrow> int \<Rightarrow> newcomer \<Rightarrow> int \<Rightarrow> sworld \<Rightarrow> sworld \<times> start_reply" where
  "start_plain mentions now nc tg s =
     (case get_user (dw_db (sw_world s)) tg of
        Some u \<Rightarrow> if u_completed_registration u then (s, WelcomeBack)
                  else (on_world (show_terms tg) s, ShowTerms)
      | None \<Rightarrow>
          let (s1, referrer) = take_referrer now tg s in
          (case open_account mentions now nc tg referrer (dw_db (sw_world s1)) of
             None \<Rightarrow> (s1, StartRaised)
           | Some d1 \<Rightarrow> (on_world (\<lambda>w. show_terms tg (w\<lparr>dw_db := d1\<rparr>)) s1, ShowTerms)))"

definition anon_argument :: "ustr option \<Rightarrow> ustr option" where
  "anon_argument args = (case args of None \<Rightarrow> None
     | Some a \<Rightarrow> if starts_with (lit ''anon_'') a then Some (drop 5 a) else None)"

definition handle_start_command ::
  "(violated \<Rightarrow> bool) \<Rightarrow> int \<Rightarrow> newcomer \<Rightarrow> int \<Rightarrow> ustr option \<Rightarrow> sworld \<Rightarrow> sworld \<times> start_reply" where
  "handle_start_command mentions now nc tg args s =
     (let (w1, healed) = auto_heal_ghost_state now tg (sw_world s);
          s1 = s\<lparr>sw_world := w1\<rparr>;
          st = fsm_state (dw_fsm w1 tg)
      in if \<not> healed \<and> st \<noteq> None \<and> the st \<in> set ACTIVE_PIPELINE_STATES then (s1, ActiveProcess)
         else
           let s2 = on_world (leave tg) s1;
               pending = pending_link now (fj_pending_anon (sw_links s2) tg);
               s3 = (if pending \<noteq> None then forget_anon tg s2 else s2);
               target = (case anon_argument args of Some t \<Rightarrow> Some t | None \<Rightarrow> pending)
           in (case target of
                 Some t \<Rightarrow> start_anonymous mentions now nc tg t s3
               | None \<Rightarrow> start_plain mentions now nc tg s3))"

section \<open>The membership button\<close>

text \<open>A channel that Telegram does not answer for counts as not joined here.\<close>

definition all_joined :: "fj_settings \<Rightarrow> (ustr \<Rightarrow> string option) \<Rightarrow> int \<Rightarrow> fj_store \<Rightarrow> bool" where
  "all_joined cfg member_of tg l = (tg \<in> set (parsed_admin_ids (st_admin_ids cfg)) \<or>
     list_all (\<lambda>(ch, link). case member_of (channel_key ch) of None \<Rightarrow> False | Some st \<Rightarrow> st \<in> set ALLOWED_STATUSES)
       (current_sponsors True cfg l))"

definition drop_join_cache :: "fj_settings \<Rightarrow> int \<Rightarrow> fj_store \<Rightarrow> fj_store" where
  "drop_join_cache cfg tg l = (if tg \<in> set (parsed_admin_ids (st_admin_ids cfg)) then l
     else l\<lparr>fj_joined := (fj_joined l)((tg, sponsors_version True l) := None)\<rparr>)"

text \<open>Here the link is forgotten in any case, and any failure to create the account is answered.\<close>

definition admit ::
  "(violated \<Rightarrow> bool) \<Rightarrow> int \<Rightarrow> newcomer \<Rightarrow> int \<Rightarrow> sworld \<Rightarrow> sworld option" where
  "admit mentions now nc tg s =
     (case get_user (dw_db (sw_world s)) tg of
        Some u \<Rightarrow> Some s
      | None \<Rightarrow>
          let (s1, referrer) = (case pending_link now (fj_pending_ref (sw_links s) tg) of
                 None \<Rightarrow> (s, None)
               | Some t \<Rightarrow> (forget_ref tg s, case pending_referrer tg t (dw_db (sw_world s)) of
                     None \<Rightarrow> None | Some r \<Rightarrow> r))
          in map_option (\<lambda>d1. on_world (\<lambda>w. w\<lparr>dw_db := d1\<rparr>) s1)
               (open_account mentions now nc tg referrer (dw_db (sw_world s1))))"

definition process_check_membership ::
  "fj_settings \<Rightarrow> (ustr \<Rightarrow> string option) \<Rightarrow> (violated \<Rightarrow> bool) \<Rightarrow> int \<Rightarrow> newcomer \<Rightarrow> int \<Rightarrow> sworld \<Rightarrow>
     sworld \<times> start_reply" where
  "process_check_membership cfg member_of mentions now nc tg s =
     (if \<not> all_joined cfg member_of tg (sw_links s) then (s, NotJoined)
      else
        let s1 = s\<lparr>sw_links := drop_join_cache cfg tg (sw_links s)\<rparr> in
        case admit mentions now nc tg s1 of
          None \<Rightarrow> (case pending_link now (fj_pending_ref (sw_links s1) tg) of
                     None \<Rightarrow> s1 | Some t \<Rightarrow> forget_ref tg s1, StartRaised)
        | Some s2 \<Rightarrow>
            (case pending_link now (fj_pending_anon (sw_links s2) tg) of
               Some t \<Rightarrow>
                 let s3 = forget_anon tg s2 in
                 (case user_by_public_id t (dw_db (sw_world s3)) of
                    None \<Rightarrow> (s3, AnonTargetGone)
                  | Some u \<Rightarrow> (on_world (write_anonymous tg (u_tg_id u)) s3, WriteAnonymous (u_tg_id u)))
             | None \<Rightarrow>
                 (case get_user (dw_db (sw_world s2)) tg of
                    Some u \<Rightarrow> if u_completed_registration u then (s2, AlreadyMember)
                              else (on_world (show_terms tg) s2, ShowTerms)
                  | None \<Rightarrow> (on_world (show_terms tg) s2, ShowTerms))))"

section \<open>The registration dialogue\<close>

definition MALE_LABEL :: ustr where
  "MALE_LABEL = [1570, 1602, 1575, 32, 128587, 8205, 9794, 65039]"

definition FEMALE_LABEL :: ustr where
  "FEMALE_LABEL = [1582, 1575, 1606, 1605, 32, 128587, 8205, 9792, 65039]"

datatype onboard_reply = AskName | BadName | AskGender | BadGender | AskAge | BadAge | AskProvince | BadProvince
  | AskCity | BadCity | Cancelled | SessionIncomplete | NotSaved | Registered "int option" | NotHandled

definition accept_terms :: "fsm \<Rightarrow> fsm \<times> onboard_reply" where
  "accept_terms c = (if fsm_state c = Some TERMS then (set_state (Some NAME) c, AskName) else (c, NotHandled))"

definition register_name :: "ustr \<Rightarrow> fsm \<Rightarrow> fsm \<times> onboard_reply" where
  "register_name t c =
     (let name = strip t
      in if name = [] \<or> length name < 2 \<or> length name > 50 then (c, BadName)
         else (set_state (Some GENDER) (update_data ''first_name'' (FText (escape_text name)) c), AskGender))"

definition register_gender :: "ustr \<Rightarrow> fsm \<Rightarrow> fsm \<times> onboard_reply" where
  "register_gender t c =
     (if t \<notin> {MALE_LABEL, FEMALE_LABEL} then (c, BadGender)
      else let gender = (if t = MALE_LABEL then ''Male'' else ''Female'')
           in (set_state (Some AGE) (update_data ''gender'' (FStr gender) c), AskAge))"

definition register_age :: "ustr \<Rightarrow> fsm \<Rightarrow> fsm \<times> onboard_reply" where
  "register_age t c =
     (if t = btn ''CANCEL'' then (clear_fsm c, Cancelled)
      else case py_int (normalize_digits (strip t)) of
             None \<Rightarrow> (c, BadAge)
           | Some age \<Rightarrow> if 18 \<le> age \<and> age \<le> 75
               then (set_state (Some PROVINCE) (update_data ''age'' (FInt age) c), AskProvince)
               else (c, BadAge))"

definition is_back :: "ustr \<Rightarrow> bool" where
  "is_back t \<longleftrightarrow> t \<in> {btn ''CANCEL'', btn ''BACK_TO_MENU''}"

definition register_province :: "ustr list \<Rightarrow> ustr \<Rightarrow> fsm \<Rightarrow> fsm \<times> onboard_reply" where
  "register_province provinces t c =
     (if is_back t then (clear_fsm c, Cancelled)
      else if strip t \<notin> set provinces then (c, BadProvince)
      else (set_state (Some CITY) (update_data ''province'' (FText (strip t)) c), AskCity))"

definition fsm_text :: "string \<Rightarrow> fsm \<Rightarrow> ustr option" where
  "fsm_text k c = (case fsm_data c k of Some (FText t) \<Rightarrow> Some t | _ \<Rightarrow> None)"

text \<open>What the dialogue collected, if it is all there.\<close>

definition collected :: "ustr \<Rightarrow> fsm \<Rightarrow> registration option" where
  "collected city c =
     (case (fsm_text ''first_name'' c, fsm_str ''gender'' c, fsm_int ''age'' c, fsm_text ''province'' c) of
        (Some n, Some g, Some a, Some p) \<Rightarrow>
          if n \<noteq> [] \<and> g \<noteq> [] \<and> p \<noteq> [] then
            Some \<lparr>rg_gender = g, rg_age = a, rg_province = utf8 p, rg_city = utf8 city,
                  rg_first_name = Some (utf8 n), rg_tags = None, rg_photo = None\<rparr>
          else None
      | _ \<Rightarrow> None)"

definition register_city ::
  "int \<Rightarrow> (rat \<Rightarrow> rat) \<Rightarrow> rat option \<Rightarrow> int \<Rightarrow> ustr \<Rightarrow> fsm \<times> db \<Rightarrow> (fsm \<times> db) \<times> onboard_reply" where
  "register_city now fl event tg t = (\<lambda>(c, d).
     if is_back t then ((clear_fsm c, d), Cancelled)
     else let city = strip t in
     if city = [] \<or> length city > 30 then ((c, d), BadCity)
     else case collected city c of
            None \<Rightarrow> ((clear_fsm c, d), SessionIncomplete)
          | Some rg \<Rightarrow>
              (case complete_user_registration now fl event tg rg d of
                 (d1, False, r) \<Rightarrow> ((c, d), NotSaved)
               | (d1, True, r) \<Rightarrow> ((clear_fsm c, d1), Registered r)))"

text \<open>A message without text counts as an empty one.\<close>

definition onboarding_message ::
  "ustr list \<Rightarrow> int \<Rightarrow> (rat \<Rightarrow> rat) \<Rightarrow> rat option \<Rightarrow> int \<Rightarrow> ustr option \<Rightarrow> fsm \<times> db \<Rightarrow> (fsm \<times> db) \<times> onboard_reply" where
  "onboarding_message provinces now fl event tg txt = (\<lambda>(c, d).
     let t = (case txt of None \<Rightarrow> [] | Some x \<Rightarrow> x);
         on = (\<lambda>(c', r). ((c', d), r))
     in if fsm_state c = Some NAME then on (register_name t c)
        else if fsm_state c = Some GENDER then on (register_gender t c)
        else if fsm_state c = Some AGE then on (register_age t c)
        else if fsm_state c = Some PROVINCE then on (register_province provinces t c)
        else if fsm_state c = Some CITY then register_city now fl event tg t (c, d)
        else ((c, d), NotHandled))"

section \<open>Support\<close>

definition SUPPORT :: string where "SUPPORT = ''SupportStates:waiting_for_support_message''"

datatype support_reply = SupportLeft | NeedText | SentToAdmins nat | NoAdminReached

text \<open>The escaped text goes to every administrator; \<open>deliver\<close> tells who can be reached.\<close>

definition receive_support_message ::
  "(int \<Rightarrow> bool) \<Rightarrow> int list \<Rightarrow> ustr option \<Rightarrow> fsm \<Rightarrow> fsm \<times> (int \<times> ustr) list \<times> support_reply" where
  "receive_support_message deliver admins txt c =
     (if txt = Some (btn ''CANCEL'') then (clear_fsm c, [], SupportLeft)
      else if txt = None \<or> txt = Some [] then (c, [], NeedText)
      else let sent = map (\<lambda>a. (a, escape_text (the txt))) (filter deliver admins)
           in (clear_fsm c, sent, if length sent > 0 then SentToAdmins (length sent) else NoAdminReached))"

section \<open>The registration dialogue keeps its data typed\<close>

definition name_ok :: "ustr \<Rightarrow> bool" where
  "name_ok n \<longleftrightarrow> (\<exists>t. 2 \<le> length t \<and> length t \<le> 50 \<and> n = escape_text t)"

definition onboard_ok :: "ustr list \<Rightarrow> fsm \<Rightarrow> bool" where
  "onboard_ok provinces c \<longleftrightarrow>
     (fsm_state c \<in> {Some GENDER, Some AGE, Some PROVINCE, Some CITY} \<longrightarrow>
        (\<exists>n. fsm_data c ''first_name'' = Some (FText n) \<and> name_ok n)) \<and>
     (fsm_state c \<in> {Some AGE, Some PROVINCE, Some CITY} \<longrightarrow>
        fsm_data c ''gender'' \<in> {Some (FStr ''Male''), Some (FStr ''Female'')}) \<and>
     (fsm_state c \<in> {Some PROVINCE, Some CITY} \<longrightarrow> (\<exists>a. fsm_data c ''age'' = Some (FInt a) \<and> 18 \<le> a \<and> a \<le> 75)) \<and>
     (fsm_state c = Some CITY \<longrightarrow> (\<exists>p\<in>set provinces. fsm_data c ''province'' = Some (FText p)))"

definition rg_ok :: "ustr list \<Rightarrow> registration \<Rightarrow> bool" where
  "rg_ok provinces rg \<longleftrightarrow> rg_gender rg \<in> {''Male'', ''Female''} \<and> 18 \<le> rg_age rg \<and> rg_age rg \<le> 75 \<and>
     rg_province rg \<in> utf8 ` set provinces \<and> rg_city rg \<in> utf8 ` {t. t \<noteq> [] \<and> length t \<le> 30} \<and>
     rg_first_name rg \<in> Some ` utf8 ` Collect name_ok"

definition profile_ok :: "ustr list \<Rightarrow> user \<Rightarrow> bool" where
  "profile_ok provinces u \<longleftrightarrow> u_completed_registration u \<and> u_gender u \<in> {Some ''Male'', Some ''Female''} \<and>
     (\<exists>a. u_age u = Some a \<and> 18 \<le> a \<and> a \<le> 75) \<and> u_province u \<in> Some ` utf8 ` set provinces \<and>
     u_city u \<in> Some ` utf8 ` {t. t \<noteq> [] \<and> length t \<le> 30} \<and> u_first_name u \<in> utf8 ` Collect name_ok"

lemma utf8_char_nonempty: "utf8_char c \<noteq> []"
  by (simp add: utf8_char_def)

lemma utf8_empty [simp]: "utf8 t = [] \<longleftrightarrow> t = []"
  using utf8_char_nonempty by (cases t) (auto simp: utf8_def)

lemma name_okI: "2 \<le> length t \<Longrightarrow> length t \<le> 50 \<Longrightarrow> name_ok (escape_text t)"
  by (auto simp: name_ok_def)

lemma name_ok_nonempty: "name_ok n \<Longrightarrow> n \<noteq> []"
  unfolding name_ok_def using escape_text_length by (metis le_trans list.size(3) not_numeral_le_zero)

lemma fill_profile_ok: "rg_ok provinces rg \<Longrightarrow> profile_ok provinces (fill_profile rg u)"
  unfolding rg_ok_def profile_ok_def
  by (auto simp: fill_profile_def Let_def dest: name_ok_nonempty)

lemma profile_ok_earn [simp]: "profile_ok provinces (earn n u) = profile_ok provinces u"
  by (simp add: profile_ok_def earn_def)

lemma states_distinct [simp]:
  "NAME \<noteq> TERMS" "GENDER \<noteq> TERMS" "GENDER \<noteq> NAME" "AGE \<noteq> TERMS" "AGE \<noteq> NAME" "AGE \<noteq> GENDER" "PROVINCE \<noteq> TERMS"
  "PROVINCE \<noteq> NAME" "PROVINCE \<noteq> GENDER" "PROVINCE \<noteq> AGE" "CITY \<noteq> TERMS" "CITY \<noteq> NAME" "CITY \<noteq> GENDER" "CITY \<noteq> AGE"
  "CITY \<noteq> PROVINCE"
  "TERMS \<noteq> NAME" "TERMS \<noteq> GENDER" "NAME \<noteq> GENDER" "TERMS \<noteq> AGE" "NAME \<noteq> AGE" "GENDER \<noteq> AGE" "TERMS \<noteq> PROVINCE"
  "NAME \<noteq> PROVINCE" "GENDER \<noteq> PROVINCE" "AGE \<noteq> PROVINCE" "TERMS \<noteq> CITY" "NAME \<noteq> CITY" "GENDER \<noteq> CITY" "AGE \<noteq> CITY"
  "PROVINCE \<noteq> CITY"
  by (simp_all add: onboarding_states)

lemma collected_ok:
  assumes "onboard_ok provinces c" and "fsm_state c = Some CITY" and "collected t c = Some rg"
    and "t \<noteq> []" and "length t \<le> 30"
  shows "rg_ok provinces rg"
  using assms by (auto simp: onboard_ok_def collected_def rg_ok_def fsm_text_def fsm_str_def fsm_int_def split: if_splits)

text \<open>What a registration that succeeds leaves of the user.\<close>

lemma registered_user:
  assumes "users_unique d" and "get_user d tg = Some u" and "\<not> u_completed_registration u" and "u_referrer_id u \<noteq> Some tg"
  obtains n where "get_user (fst (complete_user_registration now fl event tg rg d)) tg = Some (fill_profile rg (earn n u))"
    and "snd (complete_user_registration now fl event tg rg d) = (True, referral_due tg u d)"
proof -
  define k where "k = event_amount fl event False 5"
  have e: "earn k (earn k u) = earn (k + k) u" by (simp add: earn_def)
  note r = registration_result [OF assms, of now fl event rg, folded k_def]
  show thesis
  proof (cases "referral_due tg u d")
    case None
    with r that [of k] assms(2) show thesis by (simp add: get_upd_user)
  next
    case (Some rid)
    then have "rid \<noteq> tg" using assms(4) by (auto simp: referral_due_def split: option.splits if_splits)
    with Some r that [of "k + k"] assms(2) show thesis by (simp add: get_upd_user e)
  qed
qed

datatype onboard_event = Accept | Say int "ustr option"

definition onboard ::
  "ustr list \<Rightarrow> (rat \<Rightarrow> rat) \<Rightarrow> rat option \<Rightarrow> int \<Rightarrow> onboard_event \<Rightarrow> fsm \<times> db \<Rightarrow> fsm \<times> db" where
  "onboard provinces fl event tg e s = (case e of
     Accept \<Rightarrow> (fst (accept_terms (fst s)), snd s)
   | Say now txt \<Rightarrow> fst (onboarding_message provinces now fl event tg txt s))"

lemma onboard_ok_clear [simp]: "onboard_ok provinces (clear_fsm c)"
  by (simp add: onboard_ok_def)

lemma onboard_ok_terms:
  assumes "onboard_ok provinces c"
  shows "onboard_ok provinces (fst (accept_terms c))"
  using assms by (cases "fsm_state c = Some TERMS") (simp_all add: accept_terms_def onboard_ok_def)

lemma onboard_ok_name:
  assumes "onboard_ok provinces c" and "fsm_state c = Some NAME"
  shows "onboard_ok provinces (fst (register_name t c))"
proof (cases "snd (register_name t c) = BadName")
  case True
  then have "fst (register_name t c) = c" by (auto simp: register_name_def Let_def split: if_splits)
  with assms show ?thesis by simp
next
  case False
  then have "register_name t c = (set_state (Some GENDER) (update_data ''first_name'' (FText (escape_text (strip t))) c), AskGender)"
    and "name_ok (escape_text (strip t))"
    by (auto simp: register_name_def Let_def intro: name_okI split: if_splits)
  then show ?thesis by (simp add: onboard_ok_def)
qed

lemma onboard_ok_gender:
  assumes "onboard_ok provinces c" and "fsm_state c = Some GENDER"
  shows "onboard_ok provinces (fst (register_gender t c))"
  using assms by (cases "t \<in> {MALE_LABEL, FEMALE_LABEL}"; simp add: register_gender_def Let_def onboard_ok_def)

lemma onboard_ok_age:
  assumes "onboard_ok provinces c" and "fsm_state c = Some AGE"
  shows "onboard_ok provinces (fst (register_age t c))"
  using assms by (simp add: register_age_def onboard_ok_def split: option.split)

lemma onboard_ok_province:
  assumes "onboard_ok provinces c" and "fsm_state c = Some PROVINCE"
  shows "onboard_ok provinces (fst (register_province provinces t c))"
  using assms by (simp add: register_province_def onboard_ok_def)

text \<open>The database is the old one, or the user is registered with a sound profile.\<close>

definition saved_ok :: "ustr list \<Rightarrow> int \<Rightarrow> db \<Rightarrow> db \<Rightarrow> bool" where
  "saved_ok provinces tg d d' \<longleftrightarrow> d' = d \<or> (\<exists>u. get_user d' tg = Some u \<and> profile_ok provinces u)"

lemma onboard_ok_city:
  assumes "users_unique d" and "get_user d tg = Some u" and "\<not> u_completed_registration u" and "u_referrer_id u \<noteq> Some tg"
    and "onboard_ok provinces c" and "fsm_state c = Some CITY" and "saved_ok provinces tg d d'"
    and "register_city now fl event tg t (c, d') = ((c1, d1), r)"
  shows "onboard_ok provinces c1 \<and> saved_ok provinces tg d d1"
proof (cases "\<exists>rg. collected (strip t) c = Some rg \<and> \<not> is_back t \<and> strip t \<noteq> [] \<and> length (strip t) \<le> 30")
  case False
  then have "(c1 = c \<or> c1 = clear_fsm c) \<and> d1 = d'"
    using assms(8) by (auto simp: register_city_def Let_def split: if_splits option.splits)
  with assms show ?thesis by auto
next
  case True
  then obtain rg where rg: "collected (strip t) c = Some rg" "\<not> is_back t" "strip t \<noteq> []" "length (strip t) \<le> 30" by blast
  have ok: "rg_ok provinces rg" by (rule collected_ok [OF assms(5,6) rg(1,3,4)])
  show ?thesis
  proof (cases "d' = d")
    case True
    obtain n where n: "get_user (fst (complete_user_registration now fl event tg rg d)) tg = Some (fill_profile rg (earn n u))"
      "snd (complete_user_registration now fl event tg rg d) = (True, referral_due tg u d)"
      by (rule registered_user [OF assms(1-4)])
    obtain d2 where d2: "complete_user_registration now fl event tg rg d = (d2, True, referral_due tg u d)"
      using n(2) by (metis prod.collapse)
    then have "c1 = clear_fsm c" "d1 = d2"
      using assms(8) rg True by (auto simp: register_city_def Let_def)
    with n(1) d2 fill_profile_ok [OF ok] show ?thesis by (simp add: saved_ok_def)
  next
    case False
    then obtain v where "get_user d' tg = Some v" "u_completed_registration v"
      using assms(7) by (auto simp: saved_ok_def profile_ok_def)
    then have "c1 = c" "d1 = d'"
      using assms(8) rg by (auto simp: register_city_def Let_def complete_user_registration_def)
    with assms show ?thesis by simp
  qed
qed

lemma onboard_ok_step:
  assumes "users_unique d" and "get_user d tg = Some u" and "\<not> u_completed_registration u" and "u_referrer_id u \<noteq> Some tg"
    and "onboard_ok provinces c" and "saved_ok provinces tg d d'" and "onboard provinces fl event tg e (c, d') = (c1, d1)"
  shows "onboard_ok provinces c1 \<and> saved_ok provinces tg d d1"
proof (cases e)
  case Accept
  with assms onboard_ok_terms [OF assms(5)] show ?thesis by (auto simp: onboard_def)
next
  case (Say now msg)
  define t where "t = (case msg of None \<Rightarrow> [] | Some x \<Rightarrow> x)"
  have m: "fst (onboarding_message provinces now fl event tg msg (c, d')) = (c1, d1)"
    using assms(7) Say by (simp add: onboard_def)
  consider "fsm_state c = Some NAME" | "fsm_state c = Some GENDER" | "fsm_state c = Some AGE" | "fsm_state c = Some PROVINCE"
    | "fsm_state c = Some CITY" | "fsm_state c \<notin> {Some NAME, Some GENDER, Some AGE, Some PROVINCE, Some CITY}" by blast
  then show ?thesis
  proof cases
    case 1
    with m have "c1 = fst (register_name t c)" "d1 = d'"
      by (auto simp: onboarding_message_def t_def [symmetric] Let_def split: prod.splits)
    with onboard_ok_name [OF assms(5) 1] assms(6) show ?thesis by simp
  next
    case 2
    with m have "c1 = fst (register_gender t c)" "d1 = d'"
      by (auto simp: onboarding_message_def t_def [symmetric] Let_def split: prod.splits)
    with onboard_ok_gender [OF assms(5) 2] assms(6) show ?thesis by simp
  next
    case 3
    with m have "c1 = fst (register_age t c)" "d1 = d'"
      by (auto simp: onboarding_message_def t_def [symmetric] Let_def split: prod.splits)
    with onboard_ok_age [OF assms(5) 3] assms(6) show ?thesis by simp
  next
    case 4
    with m have "c1 = fst (register_province provinces t c)" "d1 = d'"
      by (auto simp: onboarding_message_def t_def [symmetric] Let_def split: prod.splits)
    with onboard_ok_province [OF assms(5) 4] assms(6) show ?thesis by simp
  next
    case 5
    with m have "fst (register_city now fl event tg t (c, d')) = (c1, d1)"
      by (simp add: onboarding_message_def t_def [symmetric] Let_def)
    then show ?thesis
      by (intro onboard_ok_city [OF assms(1-5) 5 assms(6), of now fl event t _ _ "snd (register_city now fl event tg t (c, d'))"])
        (metis prod.collapse)
  next
    case 6
    with m have "c1 = c" "d1 = d'" by (auto simp: onboarding_message_def Let_def)
    with assms(5,6) show ?thesis by simp
  qed
qed

text \<open>C28: whatever a newcomer types or presses, in whatever order, from the rules on: what the
  dialogue has stored is complete and valid for the question it is at, and the database is either
  untouched or has the user registered with an escaped name of 2 to 50 characters, a gender, an
  age from 18 to 75, a known province and a city of 1 to 30 characters.\<close>

theorem registration_typed:
  assumes "users_unique d" and "get_user d tg = Some u" and "\<not> u_completed_registration u" and "u_referrer_id u \<noteq> Some tg"
    and "fsm_state c = Some TERMS" and "fold (onboard provinces fl event tg) es (c, d) = (c', d')"
  shows "onboard_ok provinces c' \<and>
    (d' = d \<or> (\<exists>u. get_user d' tg = Some u \<and> profile_ok provinces u))"
proof -
  have run: "onboard_ok provinces c' \<and> saved_ok provinces tg d d'"
    if "onboard_ok provinces c" "saved_ok provinces tg d d0" "fold (onboard provinces fl event tg) es (c, d0) = (c', d')" for c d0
    using that
  proof (induction es arbitrary: c d0)
    case (Cons e es)
    obtain c1 d1 where s: "onboard provinces fl event tg e (c, d0) = (c1, d1)" by fastforce
    have "onboard_ok provinces c1 \<and> saved_ok provinces tg d d1"
      by (rule onboard_ok_step [OF assms(1-4) Cons.prems(1,2) s])
    with Cons.IH [of c1 d1] Cons.prems(3) s show ?case by simp
  qed simp
  have "onboard_ok provinces c" using assms(5) by (simp add: onboard_ok_def)
  then show ?thesis using run [of c d] assms(6) by (simp add: saved_ok_def)
qed


definition terms_fsm :: fsm where
  "terms_fsm = \<lparr>fsm_state = Some TERMS, fsm_data = Map.empty\<rparr>"

lemma sample_digits: "digit_val 50 = Some 2" "digit_val 53 = Some 5"
  by (simp_all add: digit_val_def nd_zeros_def)

lemma sample_strips: "strip [65, 98] = [65, 98]" "strip [1778, 1781] = [1778, 1781]" "strip [1602, 1605] = [1602, 1605]"
  "strip [50, 53] = [50, 53]"
  by (simp_all add: strip_def is_space_def)

lemma sample_cancel: "btn ''CANCEL'' \<noteq> [1778, 1781]" "\<not> is_back [1602, 1605]"
  by (simp_all add: is_back_def btn_def ReplyBtn_def)

lemma sample_answers:
  "2 \<le> length (strip [65, 98])" "length (strip [65, 98]) \<le> 50" "MALE_LABEL \<in> {MALE_LABEL, FEMALE_LABEL}"
  "[1778, 1781] \<noteq> btn ''CANCEL''" "py_int (normalize_digits (strip [1778, 1781])) = Some 25"
  "\<not> is_back [1602, 1605]" "strip [1602, 1605] \<in> set [[1602, 1605]]" "strip [1602, 1605] \<noteq> []" "length (strip [1602, 1605]) \<le> 30"
  using sample_cancel
  by (simp_all add: sample_strips normalize_digits_def normalize_char_def py_int_def sample_digits)

lemma newcomer_alice: "get_user demo_db 1 = Some alice" "\<not> u_completed_registration alice" "u_referrer_id alice \<noteq> Some 1"
  by (simp_all add: demo_db_def alice_def new_user_def get_user_def by_key_def empty_db_def empty_tbl_def)


theorem registration_typed_witness:
  "\<exists>c d. fold (onboard [] id None 1) [Say 1 (Some [65, 98]), Accept, Say 2 None] (terms_fsm, demo_db) = (c, d) \<and> onboard_ok [] c"
proof -
  have t: "fsm_state terms_fsm = Some TERMS" by (simp add: terms_fsm_def)
  obtain c d where r: "fold (onboard [] id None 1) [Say 1 (Some [65, 98]), Accept, Say 2 None] (terms_fsm, demo_db) = (c, d)"
    by fastforce
  from registration_typed [OF demo_unique newcomer_alice t this] r show ?thesis by blast
qed

section \<open>Starting\<close>

lemma create_user_view:
  assumes "create_user mentions now shard draws tg name uname referrer d = Inr (d', u)"
  obtains "tg \<notin> account_ids d" "get_user d' tg = Some u" "u_referrer_id u = referrer" "matches d' = matches d"
    "\<not> u_completed_registration u"
proof -
  let ?mk = "\<lambda>pid uid. (new_user now tg pid name uid)\<lparr>u_username := uname,
           u_referrer_id := referrer, u_shard_index := Some shard,
           u_completed_registration := False, u_coin_balance := 3, u_total_earned_coins := 3\<rparr>"
  obtain d1 where d1: "create_attempts mentions ?mk tg (take 5 draws) d = Inr (d1, u)"
    and d': "d' = add_coin_tx now tg 3 TxWelcome None ''generic'' d1"
    using assms by (auto simp: create_user_def Let_def split: sum.splits)
  from create_attempts_Inr [OF d1] obtain pid where
    d1_eq: "d1 = d\<lparr>users := insert_row (?mk pid) (users d)\<rparr>" and u: "u = ?mk pid (next_id (users d))" by blast
  have free: "tg \<notin> account_ids d"
    using create_attempts_taken [of tg d mentions ?mk "take 5 draws"] d1 by force
  have "get_user d' tg = Some u"
    using get_user_insert_row [OF free, of "?mk pid" tg] u by (simp add: d' d1_eq new_user_def)
  moreover have "matches d' = matches d" by (simp add: d' d1_eq add_coin_tx_def)
  moreover have "u_referrer_id u = referrer" "\<not> u_completed_registration u" by (simp_all add: u)
  ultimately show thesis using that free by blast
qed

lemma matches_open_account: "open_account mentions now nc tg r d = Some d1 \<Longrightarrow> matches d1 = matches d"
  by (auto simp: open_account_def split: sum.splits create_error.splits elim: create_user_view)

lemma on_world_view [simp]: "sw_world (on_world f s) = f (sw_world s)" "sw_links (on_world f s) = sw_links s"
  "sw_world (forget_ref tg s) = sw_world s" "sw_world (forget_anon tg s) = sw_world s"
  by (simp_all add: on_world_def forget_ref_def forget_anon_def)

lemma take_referrer_world [simp]: "sw_world (fst (take_referrer now tg s)) = sw_world s"
  by (simp add: take_referrer_def split: option.split)

lemma dialogue_set [simp]:
  "fsm_state (dw_fsm (write_anonymous tg x w) tg) = Some ANON_MESSAGE" "dw_db (write_anonymous tg x w) = dw_db w"
  "fsm_state (dw_fsm (show_terms tg w) tg) = Some TERMS" "dw_db (show_terms tg w) = dw_db w"
  by (simp_all add: write_anonymous_def show_terms_def on_fsm_def)

lemma start_anonymous_view:
  assumes "start_anonymous mentions now nc tg t s = (s', r)" and "fsm_state (dw_fsm (sw_world s) tg) = None"
  shows "matches (dw_db (sw_world s')) = matches (dw_db (sw_world s)) \<and> r \<noteq> ActiveProcess \<and>
    fsm_state (dw_fsm (sw_world s') tg) \<in> {None, Some ANON_MESSAGE}"
  using assms by (auto simp: start_anonymous_def Let_def matches_open_account split: option.splits if_splits)

lemma start_plain_view:
  assumes "start_plain mentions now nc tg s = (s', r)" and "fsm_state (dw_fsm (sw_world s) tg) = None"
  shows "matches (dw_db (sw_world s')) = matches (dw_db (sw_world s)) \<and> r \<noteq> ActiveProcess \<and>
    fsm_state (dw_fsm (sw_world s') tg) \<in> {None, Some TERMS}"
proof (cases "get_user (dw_db (sw_world s)) tg")
  case None
  obtain s1 q where q: "take_referrer now tg s = (s1, q)" by fastforce
  then have "sw_world s1 = sw_world s" using take_referrer_world [of now tg s] by simp
  with None q assms show ?thesis
    by (auto simp: start_plain_def matches_open_account split: option.splits)
next
  case (Some u)
  with assms show ?thesis by (auto simp: start_plain_def split: if_splits)
qed

lemma active_in_pipeline: "x \<in> set ACTIVE_PIPELINE_STATES \<Longrightarrow> pipeline_state (Some x)"
proof -
  have "pipeline_state (Some CHAT_ACTIVE)" "pipeline_state (Some WAITING_IN_QUEUE)"
    "pipeline_state (Some ANSWERING)" "pipeline_state (Some WAITING_PARTNER)" by code_simp+
  then show "x \<in> set ACTIVE_PIPELINE_STATES \<Longrightarrow> pipeline_state (Some x)" by (auto simp: ACTIVE_PIPELINE_STATES_def)
qed

text \<open>/start refuses exactly those in a genuine chat: if only a chat stores the partner in the
  dialogue, the answer is that a process is active just when the user is in the chat state, has an
  active match, and the partner is in a match and in such a dialogue too; then nothing changes.
  Otherwise the user ends in no active match and in no dialogue but the rules or an anonymous
  message.\<close>

theorem start_refuses_genuine_chats:
  assumes "matches_ok (dw_db (sw_world s))" and "handle_start_command mentions now nc tg args s = (s', r)"
    and "nonzero (fsm_int ''partner_id'' (dw_fsm (sw_world s) tg)) \<longrightarrow> fsm_state (dw_fsm (sw_world s) tg) \<in> {None, Some CHAT_ACTIVE}"
  shows "if r = ActiveProcess then s' = s \<and> coherent tg (sw_world s) \<and> get_active_match tg (dw_db (sw_world s)) \<noteq> None \<and>
      fsm_state (dw_fsm (sw_world s) tg) = Some CHAT_ACTIVE
    else get_active_match tg (dw_db (sw_world s')) = None \<and> fsm_state (dw_fsm (sw_world s') tg) \<in> {None, Some TERMS, Some ANON_MESSAGE}"
proof -
  obtain w1 healed where h: "auto_heal_ghost_state now tg (sw_world s) = (w1, healed)" by fastforce
  note hc = healer_coherent [OF assms(1) h]
  let ?st = "fsm_state (dw_fsm w1 tg)"
  let ?go = "\<not> healed \<and> ?st \<noteq> None \<and> the ?st \<in> set ACTIVE_PIPELINE_STATES"
  have genuine: "fsm_state (dw_fsm (sw_world s) tg) = Some CHAT_ACTIVE" if a: "get_active_match tg (dw_db w1) \<noteq> None"
  proof -
    have w: "w1 = sw_world s" "coherent tg (sw_world s)" using hc a by auto
    obtain m where "get_active_match tg (dw_db (sw_world s)) = Some m" using a w(1) by auto
    with w(2) obtain p where "pipeline_state (fsm_state (dw_fsm (sw_world s) tg))"
      "fsm_int ''partner_id'' (dw_fsm (sw_world s) tg) = Some p" "p \<noteq> 0"
      by (auto simp: coherent_def)
    then show ?thesis using assms(3) by (auto simp: nonzero_def pipeline_state_def)
  qed
  show ?thesis
  proof (cases ?go)
    case True
    then have r: "w1 = sw_world s" "s' = s" "r = ActiveProcess"
      using assms(2) h hc by (auto simp: handle_start_command_def Let_def)
    have "pipeline_state ?st" using True active_in_pipeline by auto
    then have m: "get_active_match tg (dw_db (sw_world s)) \<noteq> None" using hc r(1) by (auto simp: coherent_def split: option.splits)
    with r hc genuine show ?thesis by simp
  next
    case False
    have free: "get_active_match tg (dw_db w1) = None"
    proof (rule ccontr)
      assume a: "get_active_match tg (dw_db w1) \<noteq> None"
      then have "w1 = sw_world s" "\<not> healed" using hc by auto
      with genuine [OF a] False show False by (simp add: ACTIVE_PIPELINE_STATES_def)
    qed
    define s2 where "s2 = on_world (leave tg) (s\<lparr>sw_world := w1\<rparr>)"
    define pending where "pending = pending_link now (fj_pending_anon (sw_links s2) tg)"
    define s3 where "s3 = (if pending \<noteq> None then forget_anon tg s2 else s2)"
    have s3: "matches (dw_db (sw_world s3)) = matches (dw_db w1)" "fsm_state (dw_fsm (sw_world s3) tg) = None"
      by (simp_all add: s3_def s2_def)
    define target where "target = (case anon_argument args of Some t \<Rightarrow> Some t | None \<Rightarrow> pending)"
    have r: "(case target of Some t \<Rightarrow> start_anonymous mentions now nc tg t s3
        | None \<Rightarrow> start_plain mentions now nc tg s3) = (s', r)"
      unfolding assms(2) [symmetric] handle_start_command_def h prod.case Let_def if_not_P [OF False]
      by (simp only: s2_def pending_def s3_def target_def)
    have "matches (dw_db (sw_world s')) = matches (dw_db w1) \<and> r \<noteq> ActiveProcess \<and>
        fsm_state (dw_fsm (sw_world s') tg) \<in> {None, Some TERMS, Some ANON_MESSAGE}"
    proof (cases target)
      case None
      then show ?thesis using start_plain_view [OF _ s3(2), of mentions now nc s' r] r s3(1) by auto
    next
      case (Some t)
      then show ?thesis using start_anonymous_view [OF _ s3(2), of mentions now nc t s' r] r s3(1) by auto
    qed
    with free show ?thesis by (auto simp: get_active_match_def)
  qed
qed

section \<open>The invited\<close>

text \<open>An invitation reaches the account: a user who sends the link of a referral code and, with
  nothing sent in between, is a newcomer at the next plain /start within the hour gets the code's
  owner as referrer, if the code has no underscore and is not written in digits only; then the link
  is forgotten.\<close>

theorem invitation_reaches_account:
  assumes "tm_text m = Some (lit ''/start ref_'' @ code)" and "code \<noteq> []" and "95 \<notin> set code" and "\<not> isdigit code"
    and "get_user (dw_db (sw_world s)) tg = None"
    and "first_where (\<lambda>u. u_referral_code u = Some (utf8 code)) (users (dw_db (sw_world s))) = Some owner"
    and "u_tg_id owner \<noteq> tg" and "now div second_us < t0 + 3600"
    and "sw_links s = capture_link True t0 tg (Message m) l"
    and "start_plain mentions now nc tg s = (s', ShowTerms)"
    and "\<forall>v. mentions v"
  shows "\<exists>u. get_user (dw_db (sw_world s')) tg = Some u \<and> u_referrer_id u = Some (u_tg_id owner) \<and>
    \<not> u_completed_registration u \<and> fj_pending_ref (sw_links s') tg = None"
proof -
  have sp: "starts_with (lit ''/start ref_'') (lit ''/start ref_'' @ code)" by (simp add: starts_with_def)
  have au: "after_underscore (lit ''/start ref_'' @ code) = code"
    by (simp add: after_underscore_def lit_def dropWhile_append)
  have lk: "fj_pending_ref (sw_links s) tg = Some (code, t0 + 3600)"
    using assms(1,2,9) sp by (simp add: capture_link_def au)
  have nr: "\<not> starts_with (lit ''ref_'') code"
  proof
    assume "starts_with (lit ''ref_'') code"
    then have "take (length (lit ''ref_'')) code = lit ''ref_''" by (simp only: starts_with_def)
    moreover have "95 \<in> set (lit ''ref_'')" by (simp add: lit_def)
    ultimately show False using assms(3) by (metis in_set_takeD)
  qed
  have tw: "takeWhile (\<lambda>c. c \<noteq> 95) code = code" using assms(3) by (auto simp: takeWhile_eq_all_conv)
  have pr: "pending_referrer tg code (dw_db (sw_world s)) = Some (Some (u_tg_id owner))"
    using assms(4,6,7) by (simp add: pending_referrer_def valid_referrer_def Let_def nr tw)
  have tr: "take_referrer now tg s = (forget_ref tg s, Some (u_tg_id owner))"
    using assms(2,8) by (simp add: take_referrer_def lk pending_link_def pr)
  have never: "create_user mentions now (nc_shard nc) (nc_draws nc) tg (nc_name nc) (nc_username nc)
        (Some (u_tg_id owner)) (dw_db (sw_world s)) \<noteq> Inl (IntegrityError v)" for v
  proof -
    have "create_attempts mentions mk tg pids d = Inl (IntegrityError v) \<Longrightarrow> False" for mk pids d
      by (induction pids)
        (use assms(11) in \<open>auto split: option.splits if_splits\<close>)
    then show ?thesis by (auto simp: create_user_def Let_def split: sum.splits)
  qed
  show ?thesis
  proof (cases "open_account mentions now nc tg (Some (u_tg_id owner)) (dw_db (sw_world s))")
    case None
    with assms(5,10) tr show ?thesis by (simp add: start_plain_def)
  next
    case (Some d1)
    have s': "s' = on_world (\<lambda>w. show_terms tg (w\<lparr>dw_db := d1\<rparr>)) (forget_ref tg s)"
      using assms(5,10) tr Some by (simp add: start_plain_def)
    obtain u where "create_user mentions now (nc_shard nc) (nc_draws nc) tg (nc_name nc) (nc_username nc)
        (Some (u_tg_id owner)) (dw_db (sw_world s)) = Inr (d1, u)"
      using Some never by (auto simp: open_account_def split: sum.splits create_error.splits)
    then obtain "get_user d1 tg = Some u" "u_referrer_id u = Some (u_tg_id owner)" "\<not> u_completed_registration u"
      by (rule create_user_view)
    then show ?thesis by (simp add: s' on_world_def forget_ref_def)
  qed
qed

text \<open>The membership button is stricter than the gate: with one sponsor channel the bot cannot
  query and no other, the gate passes every update of a user who is no administrator, and the button tells the
  same user that they have not joined.\<close>

theorem membership_button_stricter:
  assumes "current_sponsors True cfg l = [(ch, link)]" and "member_of (channel_key ch) = None"
    and "tg \<notin> set (parsed_admin_ids (st_admin_ids cfg))"
    and "sender ev = Some tu" and "tu_id tu = tg" and "tg \<notin> fj_banned l"
  shows "snd (force_join cfg member_of True d r c now ev l) = Handle \<and>
    process_check_membership cfg member_of mentions now' nc tg \<lparr>sw_world = w, sw_links = l\<rparr> =
      (\<lparr>sw_world = w, sw_links = l\<rparr>, NotJoined)"
proof -
  have b: "check_one member_of True now l' ch = Broken" for l'
    using assms(2) by (simp add: check_one_def)
  have "snd (force_join cfg member_of True d r c now ev l) = Handle"
    using assms by (simp add: force_join_def Let_def live_check_def b)
  moreover have "\<not> all_joined cfg member_of tg l" using assms(1-3) by (simp add: all_joined_def)
  ultimately show ?thesis by (simp add: process_check_membership_def)
qed

section \<open>Witnesses\<close>

definition start_world :: sworld where
  "start_world = \<lparr>sw_world = chat_date, sw_links = \<lparr>fj_banned = {}, fj_pending_ref = Map.empty, fj_pending_anon = Map.empty,
     fj_sponsors = [], fj_version = None, fj_joined = Map.empty, fj_bad = Map.empty, fj_prompted = Map.empty\<rparr>\<rparr>"

definition somebody :: newcomer where
  "somebody = \<lparr>nc_name = ''N'', nc_username = None, nc_shard = 0, nc_draws = [''user_nnnnnn'']\<rparr>"

theorem start_refuses_genuine_chats_witness:
  "let r = handle_start_command (\<lambda>_. True) 9 somebody 1 None start_world in
   snd r = ActiveProcess \<and> fst r = start_world"
proof -
  obtain s' r where h: "handle_start_command (\<lambda>_. True) 9 somebody 1 None start_world = (s', r)" by fastforce
  have c: "fsm_state (dw_fsm (sw_world start_world) 1) = Some CHAT_ACTIVE" "get_active_match 1 (dw_db (sw_world start_world)) \<noteq> None"
    using chat_date_ok by (simp_all add: start_world_def chat_date_def open_chat_def)
  have ok: "matches_ok (dw_db (sw_world start_world))" using chat_date_ok by (simp add: start_world_def)
  have w: "sw_world start_world = chat_date" by (simp add: start_world_def)
  have "r = ActiveProcess"
    using h c chat_date_heals by (simp add: handle_start_command_def Let_def w ACTIVE_PIPELINE_STATES_def)
  with start_refuses_genuine_chats [OF ok h] c h show ?thesis by simp
qed

definition inviter :: user where
  "inviter = alice\<lparr>u_referral_code := Some (utf8 [65, 66])\<rparr>"

definition invited_world :: sworld where
  "invited_world = start_world\<lparr>sw_world := chat_date\<lparr>dw_db := demo_db\<lparr>users := \<lparr>rows = [inviter, bob], next_id = 3\<rparr>\<rparr>\<rparr>,
     sw_links := capture_link True 0 3 (Message \<lparr>tm_from = None, tm_text = Some (lit ''/start ref_'' @ [65, 66]), tm_content = CText\<rparr>)
       (sw_links start_world)\<rparr>"

theorem invitation_reaches_account_witness:
  "\<exists>u. get_user (dw_db (sw_world (fst (start_plain (\<lambda>_. True) 1000000 somebody 3 invited_world)))) 3 = Some u \<and>
    u_referrer_id u = Some 1"
proof -
  let ?m = "\<lparr>tm_from = None, tm_text = Some (lit ''/start ref_'' @ [65, 66]), tm_content = CText\<rparr>"
  have t: "tm_text ?m = Some (lit ''/start ref_'' @ [65, 66])" "sw_links invited_world = capture_link True 0 3 (Message ?m) (sw_links start_world)"
    by (simp_all add: invited_world_def)
  have w: "get_user (dw_db (sw_world invited_world)) 3 = None"
    "first_where (\<lambda>u. u_referral_code u = Some (utf8 [65, 66])) (users (dw_db (sw_world invited_world))) = Some inviter"
    by (simp_all add: invited_world_def get_user_def by_key_def first_where_def inviter_def alice_def bob_def new_user_def)
  have d: "\<not> isdigit [65, 66]" by (simp add: isdigit_def is_digit_char_def digit_val_def nd_zeros_def other_digits_def)
  have i: "u_tg_id inviter \<noteq> 3" "u_tg_id inviter = 1" by (simp_all add: inviter_def alice_def new_user_def)
  have now: "1000000 div second_us < 0 + 3600" by (simp add: second_us_def)
  obtain s' r where p: "start_plain (\<lambda>_. True) 1000000 somebody 3 invited_world = (s', r)" by fastforce
  have "open_account (\<lambda>_. True) 1000000 somebody 3 q (dw_db (sw_world invited_world)) \<noteq> None" for q
    by (simp add: open_account_def create_user_def Let_def somebody_def insert_violation_def invited_world_def inviter_def
        alice_def bob_def new_user_def)
  then obtain s1 q d1 where "take_referrer 1000000 3 invited_world = (s1, q)"
    "open_account (\<lambda>_. True) 1000000 somebody 3 q (dw_db (sw_world invited_world)) = Some d1"
    by (metis not_Some_eq prod.collapse)
  moreover have "sw_world s1 = sw_world invited_world"
    using take_referrer_world [of 1000000 3 invited_world] calculation(1) by simp
  ultimately have "r = ShowTerms" using p w(1) by (simp add: start_plain_def)
  with invitation_reaches_account [OF t(1) _ _ d w i(1) now t(2), of "\<lambda>_. True" somebody s'] p i(2) show ?thesis by auto
qed

definition one_channel :: fj_settings where
  "one_channel = \<lparr>st_admin_ids = [], st_required_channel = [64, 99], st_invite_link = []\<rparr>"

theorem membership_button_stricter_witness:
  "snd (process_check_membership one_channel (\<lambda>_. None) (\<lambda>_. True) 0 somebody 5 start_world) = NotJoined"
proof -
  let ?l = "sw_links start_world"
  have l: "current_sponsors True one_channel ?l = [([64, 99], [])]" "5 \<notin> fj_banned ?l"
    by (simp_all add: current_sponsors_def one_channel_def start_world_def)
  have a: "5 \<notin> set (parsed_admin_ids (st_admin_ids one_channel))"
    by (simp add: one_channel_def parsed_admin_ids_def strip_def)
  have "start_world = \<lparr>sw_world = sw_world start_world, sw_links = ?l\<rparr>" by simp
  with membership_button_stricter [OF l(1) _ a, of "\<lambda>_. None" "Message \<lparr>tm_from = Some \<lparr>tu_id = 5, tu_is_bot = False\<rparr>, tm_text = None, tm_content = CText\<rparr>"
      "\<lparr>tu_id = 5, tu_is_bot = False\<rparr>" _ _ _ _ "\<lambda>_. True" 0 somebody "sw_world start_world"] l(2)
  show ?thesis by simp
qed

end
