(* ===== verification/Soundness.thy ===== *)
theory Soundness
  imports Interactions Onboarding
begin

text \<open>
  What a handler may do to the bot's consistency: a \<open>gentle\<close> step moves no account and opens no match, an
  \<open>honest\<close> one moves a balance only with its log, a \<open>sound\<close> one keeps the whole world in order.  Each handler of
  theories Dates to Onboarding is shown to be one of these.  Theory World composes them.
\<close>

section \<open>What most steps leave alone\<close>

text \<open>The difference between a user's balance and the sum of their log.\<close>

definition drift :: "db \<Rightarrow> int \<Rightarrow> int" where
  "drift d k = coin_balance d k - logged_coins d k"

lemma drift_cong: "users d' = users d \<Longrightarrow> coin_txs d' = coin_txs d \<Longrightarrow> drift d' k = drift d k"
  unfolding drift_def using coin_balance_cong [of d' d k] logged_coins_cong [of d' d k] by metis

text \<open>Matches may be closed and marked, not opened.\<close>

definition marks :: "(match_history \<Rightarrow> match_history) \<Rightarrow> bool" where
  "marks f \<longleftrightarrow> (\<forall>m. mh_id (f m) = mh_id m \<and> mh_user_one_id (f m) = mh_user_one_id m \<and>
     mh_user_two_id (f m) = mh_user_two_id m \<and> (mh_is_active (f m) \<longrightarrow> mh_is_active m))"

definition closes :: "db \<Rightarrow> db \<Rightarrow> bool" where
  "closes d d' \<longleftrightarrow> next_id (matches d') = next_id (matches d) \<and>
     (\<exists>f. marks f \<and> rows (matches d') = map f (rows (matches d)))"

lemma closes_same:
  assumes "matches d' = matches d"
  shows "closes d d'"
proof -
  have "marks (\<lambda>m. m)" "rows (matches d') = map (\<lambda>m. m) (rows (matches d))" using assms by (simp_all add: marks_def)
  with assms show ?thesis unfolding closes_def by metis
qed

lemma closes_trans:
  assumes "closes a b" and "closes b c"
  shows "closes a c"
proof -
  obtain f where f: "marks f" "rows (matches b) = map f (rows (matches a))" using assms(1) by (auto simp: closes_def)
  obtain g where g: "marks g" "rows (matches c) = map g (rows (matches b))" using assms(2) by (auto simp: closes_def)
  have "marks (\<lambda>m. g (f m))" using f(1) g(1) unfolding marks_def by metis
  moreover have "rows (matches c) = map (\<lambda>m. g (f m)) (rows (matches a))" unfolding g(2) f(2) by simp
  moreover have "next_id (matches c) = next_id (matches a)" using assms by (simp add: closes_def)
  ultimately show ?thesis unfolding closes_def by blast
qed

lemma closes_upd:
  assumes "marks f"
  shows "closes d (d\<lparr>matches := upd_where P f (matches d)\<rparr>)"
proof -
  have "marks (\<lambda>r. if P r then f r else r)" using assms by (simp add: marks_def)
  moreover have "rows (upd_where P f (matches d)) = map (\<lambda>r. if P r then f r else r) (rows (matches d))"
    by (simp add: upd_where_def upd_list_def)
  ultimately show ?thesis unfolding closes_def by auto
qed

lemma closes_matches_ok:
  assumes "matches_ok d" and "closes d d'"
  shows "matches_ok d'"
proof -
  obtain f where n: "next_id (matches d') = next_id (matches d)" and r: "rows (matches d') = map f (rows (matches d))"
    and "marks f" using assms(2) by (auto simp: closes_def)
  then have f: "\<And>m. mh_id (f m) = mh_id m" "\<And>m u. in_match u (f m) = in_match u m" "\<And>m. mh_is_active (f m) \<Longrightarrow> mh_is_active m"
    by (simp_all add: marks_def in_match_def)
  have ids: "map mh_id (rows (matches d')) = map mh_id (rows (matches d))" by (simp add: r f(1))
  show ?thesis
    unfolding matches_ok_def ids n
  proof (intro conjI ballI allI impI)
    show "distinct (map mh_id (rows (matches d)))" using assms(1) by (simp add: matches_ok_def)
    show "mh_id m < next_id (matches d)" if "m \<in> set (rows (matches d'))" for m
      using that assms(1) by (auto simp: r f(1) matches_ok_def)
    fix m1 m2 tg
    assume a: "m1 \<in> set (rows (matches d'))" "m2 \<in> set (rows (matches d'))"
      and b: "mh_is_active m1 \<and> mh_is_active m2 \<and> in_match tg m1 \<and> in_match tg m2"
    from a obtain x y where "m1 = f x" "m2 = f y" "x \<in> set (rows (matches d))" "y \<in> set (rows (matches d))"
      by (auto simp: r)
    with b f(2,3) assms(1) show "mh_id m1 = mh_id m2" unfolding matches_ok_def by (metis f(1))
  qed
qed

definition gentle :: "dworld \<Rightarrow> dworld \<Rightarrow> bool" where
  "gentle w w' \<longleftrightarrow> closes (dw_db w) (dw_db w') \<and> users (dw_db w') = users (dw_db w) \<and>
     coin_txs (dw_db w') = coin_txs (dw_db w) \<and> blocks (dw_db w') = blocks (dw_db w) \<and>
     ms_blocks (dw_store w') = ms_blocks (dw_store w)"

named_theorems gentle

lemma gentle_refl [gentle]: "gentle w w"
  by (simp add: gentle_def closes_same)

lemma gentle_trans: "gentle a b \<Longrightarrow> gentle b c \<Longrightarrow> gentle a c"
  unfolding gentle_def using closes_trans by metis

lemma gentle_frame:
  assumes "gentle w w1" and "dw_db w2 = dw_db w1" and "ms_blocks (dw_store w2) = ms_blocks (dw_store w1)"
  shows "gentle w w2"
  using assms by (simp add: gentle_def)

lemma gentle_fsm [gentle]: "gentle w w1 \<Longrightarrow> gentle w (on_fsm u f w1)"
  by (rule gentle_frame) (simp_all add: on_fsm_def)

lemma gentle_leave [gentle]: "gentle w w1 \<Longrightarrow> gentle w (leave u w1)"
  by (simp add: leave_def gentle)

lemma gentle_frames [gentle]:
  "gentle w w1 \<Longrightarrow> gentle w (lock_skip now mid w1)"
  "gentle w w1 \<Longrightarrow> gentle w (remember_partner now u p w1)"
  "gentle w w1 \<Longrightarrow> gentle w (w1\<lparr>dw_sched := s\<rparr>)"
  "gentle w w1 \<Longrightarrow> gentle w (w1\<lparr>dw_pool := pl\<rparr>)"
  "gentle w w1 \<Longrightarrow> gentle w (sync_put k ms e w1)"
  "gentle w w1 \<Longrightarrow> gentle w (drop_timer mid w1)"
  by (simp_all add: gentle_def lock_skip_def remember_partner_def sync_put_def drop_timer_def)

lemma remove_blocks [simp]: "ms_blocks (fst (remove_from_queue tg s)) = ms_blocks s"
  by (auto simp: remove_from_queue_def Let_def del_state_def split: option.split)

lemma del_blocks [simp]: "ms_blocks (del_state tg s) = ms_blocks s" "ms_blocks (hset tg f s) = ms_blocks s"
  by (simp_all add: del_state_def hset_def)

lemma gentle_store [gentle]:
  "gentle w w1 \<Longrightarrow> ms_blocks s = ms_blocks (dw_store w1) \<Longrightarrow> gentle w (w1\<lparr>dw_store := s\<rparr>)"
  "gentle w w1 \<Longrightarrow> gentle w (drop_state u w1)"
  "gentle w w1 \<Longrightarrow> gentle w (Healing.leave_queue u w1)"
  by (simp_all add: gentle_def drop_state_def Healing.leave_queue_def)

lemma gentle_db:
  assumes "gentle w w1" and "closes (dw_db w1) (f (dw_db w1))" and "users (f (dw_db w1)) = users (dw_db w1)"
    and "coin_txs (f (dw_db w1)) = coin_txs (dw_db w1)" and "blocks (f (dw_db w1)) = blocks (dw_db w1)"
  shows "gentle w (on_db f w1)"
  by (rule gentle_trans [OF assms(1)]) (use assms(2-) in \<open>simp add: gentle_def on_db_def\<close>)

lemma gentle_match [gentle]: "gentle w w1 \<Longrightarrow> marks f \<Longrightarrow> gentle w (on_match mid f w1)"
  unfolding on_match_def by (rule gentle_db) (simp_all add: closes_upd)

lemma gentle_stop [gentle]: "gentle w w1 \<Longrightarrow> gentle w (stop_date now mid w1)"
  unfolding stop_date_def by (rule gentle_db) (auto intro: closes_upd simp: marks_def)

lemma gentle_end [gentle]: "gentle w w1 \<Longrightarrow> gentle w (end_now now mid w1)"
  unfolding end_now_def by (rule gentle_db) (auto intro: closes_upd simp: marks_def end_match_def)

lemma gentle_termination [gentle]:
  assumes "gentle w w1"
  shows "gentle w (fst (execute_chat_termination tries now token mid w1))"
proof (rule gentle_trans [OF assms])
  have "closes d (ended_at now mid d)" for d unfolding ended_at_def by (rule closes_upd) (simp add: marks_def)
  then show "gentle w1 (fst (execute_chat_termination tries now token mid w1))"
    by (simp add: gentle_def terminated_db closes_same ended_at_def)
qed

section \<open>Operations on accounts\<close>

text \<open>Accounts stay unique, nobody becomes their own referrer, and no balance moves without its log.\<close>

definition honest :: "db \<Rightarrow> db \<Rightarrow> bool" where
  "honest d d' \<longleftrightarrow> matches d' = matches d \<and> blocks d' = blocks d \<and>
     (users_unique d \<and> no_self_referral d \<longrightarrow>
        users_unique d' \<and> no_self_referral d' \<and> (\<forall>k. drift d' k = drift d k))"

named_theorems honest

lemma honest_refl [honest]: "honest d d"
  by (simp add: honest_def)

lemma honest_trans: "honest a b \<Longrightarrow> honest b c \<Longrightarrow> honest a c"
  by (simp add: honest_def)

lemma no_self_upd:
  assumes "\<And>u. u_referrer_id (f u) = u_referrer_id u" and "\<And>u. u_tg_id (f u) = u_tg_id u" and "no_self_referral d"
  shows "no_self_referral (upd_user k f d)"
  using assms by (auto simp: no_self_referral_def upd_user_def set_upd_list)

lemma no_self_cong: "users d' = users d \<Longrightarrow> no_self_referral d' = no_self_referral d"
  by (simp add: no_self_referral_def)

lemma honest_upd [honest]:
  assumes "\<And>u. u_referrer_id (f u) = u_referrer_id u" and "\<And>u. u_tg_id (f u) = u_tg_id u"
    and "\<And>u. u_coin_balance (f u) = u_coin_balance u"
  shows "honest d (upd_user k f d)"
proof -
  have "coin_balance (upd_user k f d) j = coin_balance d j" for j
    using assms(2,3) by (auto simp: coin_balance_def get_upd_user split: option.split)
  then show ?thesis
    using no_self_upd [of f d k] assms(1,2)
    by (simp add: honest_def users_unique_upd_user drift_def logged_upd_user) (simp add: upd_user_def)
qed

lemma honest_coin:
  assumes "\<And>u. u_referrer_id (f u) = u_referrer_id u" and "\<And>u. u_tg_id (f u) = u_tg_id u"
    and "\<And>u. u_coin_balance (f u) = u_coin_balance u + n" and "get_user d k \<noteq> None"
  shows "honest d (add_coin_tx now k n t r x (upd_user k f d))"
proof -
  let ?d = "add_coin_tx now k n t r x (upd_user k f d)"
  have u: "users ?d = users (upd_user k f d)" by simp
  have "coin_balance ?d j = coin_balance d j + (if j = k then n else 0)" for j
    using assms(2-4) by (auto simp: coin_balance_def get_upd_user)
  moreover have "logged_coins ?d j = logged_coins d j + (if j = k then n else 0)" for j
    by (simp add: logged_upd_user)
  ultimately have "drift ?d j = drift d j" for j by (simp add: drift_def)
  then show ?thesis
    using no_self_upd [of f d k] assms(1,2) no_self_cong [OF u]
    by (simp add: honest_def users_unique_add_coin_tx users_unique_upd_user) (simp add: upd_user_def add_coin_tx_def)
qed

lemma honest_process [honest]:
  assumes "get_user d (u_tg_id obj) \<noteq> None"
  shows "honest d (fst (process_coin_transaction now fl event obj amount descr ig ref d))"
proof (cases "users_unique d")
  case False
  then show ?thesis
    by (auto simp: honest_def process_coin_transaction_def Let_def add_coin_tx_def upd_user_def)
next
  case True
  obtain u where u: "get_user d (u_tg_id obj) = Some u" using assms by auto
  show ?thesis
  proof (cases "amount < 0")
    case True
    have "honest d (add_coin_tx now (u_tg_id obj) amount descr ref ''generic'' (upd_user (u_tg_id obj) (spend (- amount)) d))"
      by (rule honest_coin) (use assms in \<open>simp_all add: spend_def\<close>)
    then show ?thesis using process_debit [OF \<open>users_unique d\<close> u True] by (simp add: honest_refl)
  next
    case False
    then show ?thesis
      by (simp add: process_credit) (rule honest_coin, use assms in \<open>simp_all add: earn_def\<close>)
  qed
qed

lemma honest_quota:
  assumes "consume_vip_quota_or_coin now tg cost descr ref d = Inr (d', r)"
  shows "honest d d'"
proof -
  have "honest d (add_coin_tx now tg (- cost) descr ref ''generic'' (upd_user tg (spend cost) d))" if "get_user d tg \<noteq> None"
    by (rule honest_coin) (use that in \<open>simp_all add: spend_def\<close>)
  moreover have "honest d (upd_user tg (\<lambda>v. v\<lparr>u_vip_quota := q\<rparr>) d)" for q by (rule honest_upd) simp_all
  ultimately show ?thesis
    using assms by (auto simp: consume_vip_quota_or_coin_def honest_refl split: if_splits option.splits sum.splits)
qed

lemma honest_registration [honest]: "honest d (fst (complete_user_registration now fl event tg rg d))"
proof (cases "users_unique d \<and> no_self_referral d")
  case False
  then show ?thesis
    by (auto simp: honest_def complete_user_registration_def process_coin_transaction_def Let_def add_coin_tx_def upd_user_def
        flush_user_def split: option.splits)
next
  case ok: True
  show ?thesis
  proof (cases "\<exists>u. get_user d tg = Some u \<and> \<not> u_completed_registration u")
    case False
    then show ?thesis by (auto simp: complete_user_registration_def honest_refl split: option.splits)
  next
    case True
    then obtain u where u: "get_user d tg = Some u" "\<not> u_completed_registration u" by blast
    have "u_referrer_id u \<noteq> Some tg"
      using ok u(1) get_user_tg [OF u(1)] get_user_in [OF u(1)] by (auto simp: no_self_referral_def)
    note r = registration_result [OF _ u this]
    let ?n = "event_amount fl event False 5" and ?t = "event_text event False"
    have one: "honest d (add_coin_tx now tg ?n (?t TxRegistered) None ''generic'' (upd_user tg (\<lambda>v. fill_profile rg (earn ?n v)) d))"
      by (rule honest_coin) (simp_all add: u(1) earn_def)
    show ?thesis
    proof (cases "referral_due tg u d")
      case None
      then show ?thesis using r ok one by simp
    next
      case (Some rid)
      then have rid: "get_user d rid \<noteq> None" "rid \<noteq> tg"
        using \<open>u_referrer_id u \<noteq> Some tg\<close> by (auto simp: referral_due_def split: option.splits if_splits)
      let ?f = "\<lambda>v. fill_profile rg (earn ?n (earn ?n v))" and ?g = "earn ?n"
      let ?u = "upd_user tg ?f (upd_user rid ?g d)"
      let ?d = "add_coin_tx now tg ?n (?t TxInvitedBonus) None ''generic'' (add_coin_tx now rid ?n (?t (TxInviteReward tg)) None ''generic''
          (add_coin_tx now tg ?n (?t TxRegistered) None ''generic'' ?u))"
      have "no_self_referral (upd_user rid ?g d)" by (rule no_self_upd) (use ok in \<open>simp_all add: earn_def\<close>)
      then have "no_self_referral ?u" by (rule no_self_upd [rotated -1]) (simp_all add: earn_def)
      moreover have "users_unique ?u" using ok by (simp add: users_unique_upd_user)
      moreover have "coin_balance ?d j = coin_balance d j + (if j = tg then 2 * ?n else if j = rid then ?n else 0)" for j
        using rid u(1) by (auto simp: coin_balance_def get_upd_user)
      moreover have "logged_coins ?d j = logged_coins d j + (if j = tg then 2 * ?n else if j = rid then ?n else 0)" for j
        using rid by (simp add: logged_upd_user)
      ultimately have "honest d ?d"
        by (simp add: honest_def drift_def no_self_cong [of ?d ?u] users_unique_cong [of ?d ?u]) (simp add: upd_user_def add_coin_tx_def)
      then show ?thesis using r ok Some by simp
    qed
  qed
qed

lemma honest_created:
  assumes "create_user mentions now shard draws tg name uname referrer d = Inr (d', u)" and "referrer \<noteq> Some tg"
  shows "honest d d'"
proof -
  let ?mk = "\<lambda>pid uid. (new_user now tg pid name uid)\<lparr>u_username := uname,
           u_referrer_id := referrer, u_shard_index := Some shard,
           u_completed_registration := False, u_coin_balance := 3, u_total_earned_coins := 3\<rparr>"
  obtain d1 where d1: "create_attempts mentions ?mk tg (take 5 draws) d = Inr (d1, u)"
    and d': "d' = add_coin_tx now tg 3 TxWelcome None ''generic'' d1"
    using assms by (auto simp: create_user_def Let_def split: sum.splits)
  from create_attempts_Inr [OF d1] obtain pid where e: "d1 = d\<lparr>users := insert_row (?mk pid) (users d)\<rparr>" by blast
  have free: "tg \<notin> account_ids d"
    using create_attempts_taken [of tg d mentions ?mk "take 5 draws"] d1 by force
  have "coin_balance d' k = coin_balance d k + (if k = tg then 3 else 0)" for k
    using get_user_insert_row [OF free, of "?mk pid" k] free by (auto simp: d' e coin_balance_def new_user_def account_ids_iff)
  moreover have "logged_coins d1 k = logged_coins d k" for k by (rule logged_coins_cong) (simp add: e)
  then have "logged_coins d' k = logged_coins d k + (if k = tg then 3 else 0)" for k by (simp add: d')
  moreover have "users_unique d' = users_unique d"
    using free by (auto simp: users_unique_def d' e account_ids_def new_user_def)
  moreover have "no_self_referral d \<longrightarrow> no_self_referral d'"
    using assms(2) by (auto simp: no_self_referral_def d' e new_user_def)
  ultimately show ?thesis by (simp add: honest_def drift_def) (simp add: d' e add_coin_tx_def)
qed

lemma honest_opened [honest]:
  assumes "open_account mentions now nc tg referrer d = Some d'" and "referrer \<noteq> Some tg"
  shows "honest d d'"
  using assms honest_created by (auto simp: open_account_def honest_refl split: sum.splits create_error.splits)

lemma honest_likes [honest]: "honest d (save_like now a b p d)"
proof -
  have "honest d (d\<lparr>likes := l\<rparr>)" for l
    by (simp add: honest_def drift_def coin_balance_def get_user_def logged_coins_def users_unique_def no_self_referral_def)
  moreover have "honest d1 (add_likes_count b n d1)" for d1 n unfolding add_likes_count_def by (rule honest_upd) simp_all
  ultimately show ?thesis by (auto simp: save_like_def Let_def intro: honest_trans split: option.split)
qed

section \<open>Sound steps\<close>

text \<open>Nobody is in two active matches; accounts are unique and nobody is their own referrer; and whom the
  matching engine keeps apart is recorded as blocked in the database.\<close>

definition world_ok :: "dworld \<Rightarrow> bool" where
  "world_ok w \<longleftrightarrow> matches_ok (dw_db w) \<and> users_unique (dw_db w) \<and> no_self_referral (dw_db w) \<and>
     (\<forall>a b. b \<in> ms_blocks (dw_store w) a \<longrightarrow> by_key block_key (a, b) (blocks (dw_db w)) \<noteq> None)"

definition sound :: "dworld \<Rightarrow> dworld \<Rightarrow> bool" where
  "sound w w' \<longleftrightarrow> (world_ok w \<longrightarrow> world_ok w' \<and> (\<forall>k. drift (dw_db w') k = drift (dw_db w) k))"

lemma sound_refl: "sound w w"
  by (simp add: sound_def)

lemma sound_trans [trans]: "sound a b \<Longrightarrow> sound b c \<Longrightarrow> sound a c"
  by (simp add: sound_def)

lemma gentle_sound: "gentle w w' \<Longrightarrow> sound w w'"
  unfolding gentle_def sound_def world_ok_def
  using closes_matches_ok drift_cong users_unique_cong no_self_cong by metis

lemma sound_gentle: "sound w w1 \<Longrightarrow> gentle w1 w2 \<Longrightarrow> sound w w2"
  using sound_trans gentle_sound by blast

lemma honest_sound:
  assumes "honest (dw_db w) d"
  shows "sound w (w\<lparr>dw_db := d\<rparr>)"
proof -
  have "matches_ok d = matches_ok (dw_db w)" "blocks d = blocks (dw_db w)" using assms by (simp_all add: honest_def matches_ok_def)
  then show ?thesis using assms by (simp add: sound_def world_ok_def honest_def)
qed

lemma sound_created:
  assumes "get_active_match one (dw_db w) = None" and "get_active_match two (dw_db w) = None"
  shows "sound w (w\<lparr>dw_db := fst (create_match_history now one two (dw_db w))\<rparr>)"
proof -
  let ?d = "fst (create_match_history now one two (dw_db w))"
  have "users ?d = users (dw_db w)" "coin_txs ?d = coin_txs (dw_db w)" "blocks ?d = blocks (dw_db w)"
    by (simp_all add: create_match_history_def)
  then show ?thesis
    using matches_ok_create [OF _ assms] drift_cong [of ?d "dw_db w"]
    by (simp add: sound_def world_ok_def users_unique_def no_self_referral_def)
qed

section \<open>Each handler\<close>

lemma sound_start: "sound w (fst (handle_successful_match shuffle deliver now one two w))"
proof (cases "may_start one two (dw_db w)")
  case (Some r)
  then show ?thesis by (simp add: handle_successful_match_def sound_refl)
next
  case None
  then have g: "get_active_match one (dw_db w) = None" "get_active_match two (dw_db w) = None"
    by (auto simp: may_start_def split: if_splits)
  obtain d m where c: "create_match_history now one two (dw_db w) = (d, m)" by (metis surj_pair)
  have "sound w (w\<lparr>dw_db := d\<rparr>)" using sound_created [OF g, of now] c by simp
  moreover have "gentle (w\<lparr>dw_db := d\<rparr>) (fst (handle_successful_match shuffle deliver now one two w))"
  proof -
    let ?w1 = "w\<lparr>dw_db := d, dw_sched := register_match_timeout now (mh_id m) one two (dw_sched w)\<rparr>"
    have g1: "gentle (w\<lparr>dw_db := d\<rparr>) ?w1" using gentle_frames(3) [OF gentle_refl, of "w\<lparr>dw_db := d\<rparr>"] by simp
    have a: "gentle (w\<lparr>dw_db := d\<rparr>) (abort_match_initialisation now mid one two w2)" if "gentle (w\<lparr>dw_db := d\<rparr>) w2" for w2 mid
      unfolding abort_match_initialisation_def by (intro gentle that) (simp add: marks_def)
    note g2 = gentle_frames(4) [OF g1]
    show ?thesis
      using None by (simp add: handle_successful_match_def c Let_def) (intro conjI impI a g1 g2 gentle)
  qed
  ultimately show ?thesis by (rule sound_gentle)
qed

lemma find_match_blocks [simp]: "ms_blocks (fst (find_match now tg q s)) = ms_blocks s"
proof -
  let ?keys = "get_target_queue_keys (Some (sr_gender q)) (sr_target_gender q) (sr_province q)"
  obtain s1 r where r: "scan_keys q tg ?keys s = (s1, r)" by (metis surj_pair)
  have "ms_blocks s1 = ms_blocks s"
    using scan_keys_ok [of q tg ?keys s] r commit_match_view(3)
    by (auto simp: scan_ok_def pruned_def split: scan_result.splits)
  moreover have "ms_blocks (add_to_queue now tg q s1) = ms_blocks s1"
    by (simp add: add_to_queue_def Let_def lpush_def set_queue_ttl_def)
  ultimately show ?thesis by (simp add: find_match_def r split: scan_result.split)
qed

lemma sound_run_search: "sound w (fst (run_search shuffle deliver now tg cost q w))"
proof -
  obtain s r where f: "find_match now tg q (dw_store w) = (s, r)" by (metis surj_pair)
  have b: "ms_blocks s = ms_blocks (dw_store w)" using find_match_blocks [of now tg q "dw_store w"] f by simp
  then have g: "gentle w (w\<lparr>dw_store := s\<rparr>)" by (intro gentle)
  have "sound w (fst (after_find shuffle deliver now tg cost found (w\<lparr>dw_store := s\<rparr>)))" for found
  proof (cases "found = None \<or> found = Some tg \<or> found = Some 0")
    case True
    have "gentle w (fst (after_find shuffle deliver now tg cost found (w\<lparr>dw_store := s\<rparr>)))"
      using True b by (auto simp: after_find_def intro!: gentle split: option.split)
    then show ?thesis by (rule gentle_sound)
  next
    case False
    then obtain p where p: "found = Some p" "p \<noteq> tg" "p \<noteq> 0" by auto
    let ?w = "leave tg (leave p (w\<lparr>dw_store := s\<rparr>))"
    have "fst (after_find shuffle deliver now tg cost found (w\<lparr>dw_store := s\<rparr>)) = fst (handle_successful_match shuffle deliver now tg p ?w)"
      using p by (simp add: after_find_def split: prod.split start_result.split)
    moreover have "gentle w ?w" by (intro gentle g)
    ultimately show ?thesis using sound_start sound_trans gentle_sound by metis
  qed
  then show ?thesis using gentle_sound [OF g] by (simp add: run_search_def f split: sum.split)
qed

lemma sound_search:
  "sound w (fst (enter_match_queue shuffle deliver now tg ty w))"
proof (cases "search_refused now tg ty w")
  case None
  have g: "gentle w (on_fsm tg f w)" for f by (intro gentle)
  show ?thesis
    using gentle_sound [OF g] sound_trans [OF gentle_sound [OF g] sound_run_search]
    by (auto simp: enter_match_queue_def None Let_def intro: gentle gentle_sound split: prod.split)
qed (simp add: enter_match_queue_def sound_refl)

lemma sound_vip_search:
  "sound w (fst (process_vip_age_filter shuffle deliver now tg data w))"
proof -
  have g: "gentle w (on_fsm tg f w)" for f by (intro gentle)
  show ?thesis
    using sound_trans [OF gentle_sound [OF g] sound_run_search]
    by (auto simp: process_vip_age_filter_def Let_def sound_refl intro: gentle gentle_sound split: sum.split option.split)
qed

lemma sound_settle: "sound w (settle_coins now tg cost w)"
proof -
  have "sound w (w\<lparr>dw_db := d\<rparr>)" if "consume_vip_quota_or_coin now tg cost TxMatchCost None (dw_db w) = Inr (d, r)" for d r
    by (rule honest_sound) (rule honest_quota [OF that])
  then show ?thesis by (auto simp: settle_coins_def sound_refl split: sum.split)
qed

lemma sound_countdown: "sound w (finish_search now tg r w)"
proof -
  have "gentle w (after_countdown now mid tg p w)" for mid p
    by (auto simp: after_countdown_def leave_if_waiting_def intro!: gentle split: option.split)
  then show ?thesis
    using sound_settle sound_trans gentle_sound sound_refl by (auto simp: finish_search_def split: search_reply.split) metis
qed

lemma gentle_cancel: "gentle w (cancel_queue_operations tg w)"
  by (auto simp: cancel_queue_operations_def intro!: gentle)

lemma gentle_advance: "gentle w1 w \<Longrightarrow> gentle w1 (fst (advance deliver now mid i w))"
  by (auto simp: advance_def deliver_next_question_def finalize_questionnaire_def Let_def marks_def intro!: gentle split: option.split)

lemma gentle_saved:
  assumes "gentle w w1" and "save_user_answer now tg qid mid opt d0 = Some d" and "d0 = dw_db w1"
  shows "gentle w (w1\<lparr>dw_db := d\<rparr>)"
  by (rule gentle_trans [OF assms(1)]) (use assms(2,3) in \<open>auto simp: gentle_def closes_same save_user_answer_def split: if_splits\<close>)

lemma gentle_answer: "gentle w (answer_pressed deliver now tg data w)"
  by (auto simp: answer_pressed_def register_question_response_def Let_def intro!: gentle gentle_advance gentle_saved split: option.split)

lemma gentle_activate: "gentle w1 w \<Longrightarrow> gentle w1 (activate_anonymous_chat_session now mid one two w)"
  unfolding activate_anonymous_chat_session_def Let_def by (intro gentle) (simp_all add: marks_def)

lemma gentle_consent: "gentle w (consent_pressed now tg yes w)"
  by (auto simp: consent_pressed_def register_chat_consent_def Let_def marks_def intro!: gentle gentle_activate split: option.split)

lemma gentle_close_blocked: "gentle w w1 \<Longrightarrow> gentle w (close_blocked tg mid w1)"
  by (simp add: close_blocked_def marks_def gentle)

lemma gentle_relay: "gentle w (fst (fst (route_anonymous_chat_message word send now tg m (w, ids))))"
proof -
  define p0 where "p0 = fsm_int ''partner_id'' (dw_fsm w tg)"
  obtain w1 p where r: "(if nonzero p0 then (w, p0) else recover_chat_session tg w) = (w1, p)" by (metis surj_pair)
  then have g: "gentle w w1"
    by (auto simp: recover_chat_session_def intro: gentle split: if_splits option.splits)
  show ?thesis
    unfolding route_anonymous_chat_message_def prod.case Let_def p0_def [symmetric] r
    using g by (cases "decide_relay word p m") (auto intro: gentle gentle_close_blocked split: sent.split)
qed

lemma gentle_end_chat: "gentle w (end_active_anonymous_chat now tg w)"
proof -
  define p0 mid0 where "p0 = fsm_int ''partner_id'' (dw_fsm w tg)" and "mid0 = fsm_int ''match_history_id'' (dw_fsm w tg)"
  obtain w1 p1 where r: "(if nonzero p0 \<and> nonzero mid0 then (w, p0)
      else case recover_chat_session tg w of (w', r) \<Rightarrow> (w', if nonzero p0 then p0 else r)) = (w1, p1)" by (metis surj_pair)
  then have g: "gentle w w1"
    by (auto simp: recover_chat_session_def Let_def intro: gentle split: if_splits option.splits prod.splits)
  obtain p mid where m: "(if nonzero p1 then (p1, mid0) else case get_active_match tg (dw_db w1) of None \<Rightarrow> (p1, mid0)
      | Some m \<Rightarrow> (Some (other_of tg m), if nonzero mid0 then mid0 else Some (mh_id m))) = (p, mid)" by (metis surj_pair)
  have g2: "gentle w (if nonzero mid then on_match (the mid) (\<lambda>m. m\<lparr>mh_is_active := False\<rparr>) w1 else w1)"
    using g by (auto intro: gentle simp: marks_def)
  show ?thesis
    unfolding end_active_anonymous_chat_def p0_def [symmetric] mid0_def [symmetric] r prod.case m Let_def
    using g g2 by (auto intro!: gentle simp: marks_def)
qed

lemma gentle_leave_partner [gentle]: "gentle w w1 \<Longrightarrow> gentle w (leave_partner p w1)"
  by (simp add: leave_partner_def gentle)

lemma gentle_end_buttons:
  "gentle w (request_end tg w)" "gentle w (confirm_end tries now token tg w)"
  "gentle w (confirm_end_chat tries now token tg w)" "gentle w (end_date_early tries now token tg mid w)"
proof -
  show c: "gentle w (confirm_end tries now token tg w)"
    by (auto simp: confirm_end_def Let_def intro!: gentle split: option.split)
  then show "gentle w (confirm_end_chat tries now token tg w)" by (simp add: confirm_end_chat_def gentle)
qed (auto simp: request_end_def end_date_early_def Let_def intro!: gentle split: option.split)

lemma gentle_reset: "gentle w (execute_emergency_reset now tg w)"
  by (auto simp: execute_emergency_reset_def Let_def intro!: gentle split: option.split)

lemma gentle_heal [gentle]: "gentle w w1 \<Longrightarrow> gentle w (fst (auto_heal_ghost_state now tg w1))"
  by (auto simp: auto_heal_ghost_state_def Let_def intro!: gentle split: option.split)

lemma sound_menu:
  "sound w (fst (start_anonymous_dating now tg w))" "sound w (fst (accept_rules_and_start now tg w))"
proof -
  have o: "gentle w1 (fst (offer_match_types now tg w1))" for w1 by (simp add: offer_match_types_def Let_def gentle)
  then show "sound w (fst (start_anonymous_dating now tg w))"
    by (auto simp: start_anonymous_dating_def intro: gentle gentle_sound split: option.split)
  have "honest (dw_db w) (upd_user tg (\<lambda>u. u\<lparr>u_rules_accepted_at := t\<rparr>) (dw_db w))" for t by (rule honest_upd) simp_all
  from sound_gentle [OF honest_sound [OF this] o]
  show "sound w (fst (accept_rules_and_start now tg w))" by (simp add: accept_rules_and_start_def on_db_def)
qed

lemma sound_blocked:
  assumes "add_block now a b (dw_db w) = Some d"
  shows "sound w (redis_block a b (w\<lparr>dw_db := d\<rparr>))"
proof -
  note v = add_block_view [OF assms]
  obtain r where r: "blocks d = insert_row r (blocks (dw_db w))" using v(4) by blast
  have "coin_txs d = coin_txs (dw_db w)" using assms by (auto simp: add_block_def split: if_splits)
  then have dr: "drift d k = drift (dw_db w) k" for k using drift_cong v(2) by blast
  have keep: "by_key block_key k (blocks d) \<noteq> None" if "by_key block_key k (blocks (dw_db w)) \<noteq> None" for k
    using that by (auto simp: r by_key_def find_key_append split: option.split)
  have "matches_ok d = matches_ok (dw_db w)" using v(1) by (simp add: matches_ok_def)
  then show ?thesis
    using dr keep v(3) users_unique_cong [OF v(2)] no_self_cong [OF v(2)]
    by (auto simp: sound_def world_ok_def redis_block_def)
qed

lemma gentle_part [gentle]: "gentle w w1 \<Longrightarrow> gentle w (part a b w1)"
  by (simp add: part_def gentle)

lemma sound_execute_block: "sound w (fst (execute_user_blocking tries now token a b w))"
proof (cases "a = b \<or> add_block now a b (dw_db w) = None")
  case True
  then show ?thesis by (auto simp: execute_user_blocking_def sound_refl split: option.split)
next
  case False
  then obtain d where d: "add_block now a b (dw_db w) = Some d" and ab: "a \<noteq> b" by auto
  let ?w1 = "redis_block a b (w\<lparr>dw_db := d\<rparr>)"
  have "gentle ?w1 (fst (execute_user_blocking tries now token a b w))"
    using ab by (auto simp: execute_user_blocking_def d Let_def intro!: gentle split: list.split)
  then show ?thesis by (rule sound_gentle [OF sound_blocked [OF d]])
qed

lemma sound_block_user: "sound (iw_world s) (iw_world (fst (block_user tries now token caller target s)))"
proof -
  obtain w r where w: "execute_user_blocking tries now token caller target (iw_world s) = (w, r)" by (metis surj_pair)
  then have sw: "sound (iw_world s) w" using sound_execute_block by (metis fst_conv)
  have c: "gentle (iw_world s1) (iw_world (count_block now target s1))" for s1
    by (simp add: count_block_def Let_def in_world_def gentle_def closes_same)
  have "sound (iw_world s) (iw_world (count_block now target (s\<lparr>iw_world := w1\<rparr>)))" if "gentle w w1" for w1
    using sound_gentle [OF sw gentle_trans [OF that]] c [of "s\<lparr>iw_world := w1\<rparr>"] by simp
  then show ?thesis
    using sw by (auto simp: block_user_def Let_def w sound_refl gentle split: block_reply.split)
qed

lemma find_key_filter: "k \<noteq> k' \<Longrightarrow> find_key key k (filter (\<lambda>r. key r \<noteq> k') xs) = find_key key k xs"
  by (induction xs) auto

lemma sound_unblock: "sound w (unblock_user caller target w)"
proof -
  let ?w = "unblock_user caller target w"
  have k: "by_key block_key k (blocks (dw_db ?w)) = by_key block_key k (blocks (dw_db w))" if "k \<noteq> (caller, target)" for k
    using find_key_filter [OF that] by (simp add: by_key_def unblock_user_def on_db_def)
  have b: "(a, b) \<noteq> (caller, target) \<and> b \<in> ms_blocks (dw_store w) a" if "b \<in> ms_blocks (dw_store ?w) a" for a b
    using that by (auto simp: unblock_user_def on_db_def redis_unblock_def split: if_splits)
  have u: "users (dw_db ?w) = users (dw_db w)" "matches (dw_db ?w) = matches (dw_db w)" "coin_txs (dw_db ?w) = coin_txs (dw_db w)"
    by (simp_all add: unblock_user_def on_db_def)
  have "matches_ok (dw_db ?w) = matches_ok (dw_db w)" by (simp add: matches_ok_def u(2))
  moreover have "drift (dw_db ?w) k = drift (dw_db w) k" for k using drift_cong u by blast
  moreover have "by_key block_key (a, b) (blocks (dw_db ?w)) \<noteq> None"
    if "world_ok w" "b \<in> ms_blocks (dw_store ?w) a" for a b
    using b [OF that(2)] k [of "(a, b)"] that(1) unfolding world_ok_def by metis
  ultimately show ?thesis
    using users_unique_cong [OF u(1)] no_self_cong [OF u(1)] unfolding sound_def world_ok_def by blast
qed

lemma honest_like: "honest d (fst (handle_like_user now fl event a b d))"
proof -
  let ?d1 = "save_like now a b False d"
  have "honest ?d1 (fst (process_coin_transaction now fl event u m t ig r ?d1))" if "get_user ?d1 b = Some u" for u m t ig r
    by (rule honest_process) (use that get_user_tg [OF that] in simp)
  then show ?thesis
    using honest_trans [OF honest_likes [of d now a b False]] honest_likes [of d now a b False]
    by (auto simp: handle_like_user_def Let_def honest_refl split: option.split)
qed

lemma sound_on_db: "honest (dw_db w) (f (dw_db w)) \<Longrightarrow> sound w (on_db f w)"
  unfolding on_db_def by (rule honest_sound)

lemma gentle_request: "gentle w (fst (handle_requests_to_users deliver now caller target w))"
  by (simp add: handle_requests_to_users_def Let_def gentle)

lemma sound_accept: "sound w (fst (accept_user_request shuffle deliver now fl event is_chat caller target w))"
proof (cases "can_pay now (get_user (dw_db w) caller) \<and> get_active_match caller (dw_db w) = None \<and> get_active_match target (dw_db w) = None")
  case False
  then show ?thesis by (auto simp: accept_user_request_def sound_refl)
next
  case True
  let ?w1 = "charge_request now fl event is_chat caller w"
  have h: "honest (dw_db w) (dw_db ?w1)" and w1: "?w1 = w\<lparr>dw_db := dw_db ?w1\<rparr>"
    by (auto simp: charge_request_def honest_refl dest: get_user_tg intro!: honest_process split: option.split)
  then have s1: "sound w ?w1" using honest_sound by metis
  have free: "get_active_match caller (dw_db ?w1) = None" "get_active_match target (dw_db ?w1) = None"
    using True h by (simp_all add: honest_def get_active_match_def)
  have "sound ?w1 (open_new_chat now caller target ?w1)"
    using sound_gentle [OF sound_created [OF free, of now] gentle_activate [OF gentle_refl]]
    by (simp add: open_new_chat_def case_prod_unfold Let_def)
  moreover have "sound w x" if "handle_successful_match shuffle deliver now caller target ?w1 = (x, r)" for x r
    using sound_trans [OF s1 sound_start] that by (metis fst_conv)
  ultimately show ?thesis
    using True sound_trans [OF s1]
    by (auto simp: accept_user_request_def Let_def split: prod.split start_result.split)
qed

lemma sound_report: "sound w (on_db (create_user_report now sent a b reason mid) w)"
proof -
  have r: "honest d (d\<lparr>reports := rs\<rparr>)" for d rs
    by (simp add: honest_def drift_def coin_balance_def get_user_def logged_coins_def users_unique_def no_self_referral_def)
  have u: "honest (d\<lparr>reports := rs\<rparr>) (upd_user b (\<lambda>v. v\<lparr>u_report_count := c, u_is_banned := True\<rparr>) (d\<lparr>reports := rs\<rparr>))"
    "honest (d\<lparr>reports := rs\<rparr>) (upd_user b (\<lambda>v. v\<lparr>u_report_count := c\<rparr>) (d\<lparr>reports := rs\<rparr>))" for d c rs
    by (rule honest_upd; simp)+
  have t: "gentle (w\<lparr>dw_db := d\<rparr>) (w\<lparr>dw_db := fst (terminate_active_match now b d)\<rparr>)" for d
    by (auto simp: gentle_def terminate_active_match_def closes_same end_match_def marks_def intro!: closes_upd split: option.split)
  have h: "sound w (w\<lparr>dw_db := d\<rparr>)" if "honest (dw_db w) d" for d by (rule honest_sound [OF that])
  show ?thesis
    using h [OF r] h [OF honest_trans [OF r u(2)]] h [OF honest_trans [OF r u(1)]] sound_gentle [OF h [OF honest_trans [OF r u(1)]] t]
    by (simp add: on_db_def create_user_report_def Let_def split: option.split)
qed

lemma gentle_restore: "gentle w w1 \<Longrightarrow> gentle w (fst (restore_previous_state tg w1))"
  by (simp add: restore_previous_state_def Let_def gentle)

lemma sound_evidence: "sound w (fst (handle_report_evidence tries now token sent reasons tg w))"
proof (cases "\<not> nonzero (fsm_int ''reported_id'' (dw_fsm w tg)) \<or> \<not> truthy (fsm_str ''reason_code'' (dw_fsm w tg))")
  case True
  then show ?thesis
    using gentle_sound [OF gentle_restore [OF gentle_refl]] by (simp add: handle_report_evidence_def Let_def)
next
  case False
  let ?r = "the (fsm_int ''reported_id'' (dw_fsm w tg))"
  let ?w1 = "on_db (create_user_report now sent tg ?r (reasons (the (fsm_str ''reason_code'' (dw_fsm w tg)))) None) w"
  have "gentle ?w1 (fst (handle_report_evidence tries now token sent reasons tg w))"
    using False gentle_restore [OF gentle_refl, of ?w1 tg]
    by (auto simp: handle_report_evidence_def Let_def intro!: gentle split: list.split prod.split)
  then show ?thesis by (rule sound_gentle [OF sound_report])
qed

lemma gentle_poll:
  assumes "poll_key up now token mid (dw_db w, dw_sched w) = (d, s)"
  shows "gentle w (w\<lparr>dw_db := d, dw_sched := s\<rparr>)"
proof -
  have e: "closes d0 (ended_at now mid d0)" for d0 unfolding ended_at_def by (rule closes_upd) (simp add: marks_def)
  have "fst (fst (terminate_match_unified up ts now token mid (d0, s0))) \<in> {d0, ended_at now mid d0}" for d0 s0 ts
    by (rule terminate_cases [of up ts now token mid d0 s0]) simp_all
  then have "fst (poll_close up now token mid (d0, s0)) \<in> {d0, ended_at now mid d0}" for d0 s0
    by (auto simp: poll_close_def Let_def split: prod.split option.split bool.split) (metis fst_conv)+
  then have "fst (poll_key up now token mid (d0, s0)) \<in> {d0, ended_at now mid d0}" for d0 s0
    by (auto simp: poll_key_def Let_def split: option.split)
  then have "d \<in> {dw_db w, ended_at now mid (dw_db w)}" using assms by (metis fst_conv)
  then show ?thesis using e by (auto simp: gentle_def closes_same ended_at_def)
qed

section \<open>Accounts that come in\<close>

lemma referrer_other:
  "pending_referrer tg t d = Some r \<Longrightarrow> r \<noteq> Some tg"
  by (auto simp: pending_referrer_def valid_referrer_def Let_def split: if_splits option.splits)

lemma taken_referrer: "take_referrer now tg s = (s', r) \<Longrightarrow> r \<noteq> Some tg"
  by (auto simp: take_referrer_def dest: referrer_other split: option.splits)

lemma sound_opened:
  assumes "open_account mentions now nc tg r (dw_db w) = Some d" and "r \<noteq> Some tg" and "gentle (w\<lparr>dw_db := d\<rparr>) w'"
  shows "sound w w'"
  using sound_gentle [OF honest_sound [OF honest_opened [OF assms(1,2)]] assms(3)] .

lemma gentle_dialogue [gentle]:
  "gentle w w1 \<Longrightarrow> gentle w (write_anonymous tg x w1)" "gentle w w1 \<Longrightarrow> gentle w (show_terms tg w1)"
  by (simp_all add: write_anonymous_def show_terms_def gentle)

lemma sound_start_anonymous: "sound (sw_world s) (sw_world (fst (start_anonymous mentions now nc tg t s)))"
  by (auto simp: start_anonymous_def Let_def sound_refl intro: gentle_sound gentle sound_opened split: option.split)

lemma sound_start_plain: "sound (sw_world s) (sw_world (fst (start_plain mentions now nc tg s)))"
proof -
  obtain s1 r where r: "take_referrer now tg s = (s1, r)" by (metis surj_pair)
  then have s1: "sw_world s1 = sw_world s" by (metis take_referrer_world fst_conv)
  show ?thesis
    using taken_referrer [OF r]
    by (auto simp: start_plain_def r s1 sound_refl intro: gentle_sound gentle sound_opened split: option.split)
qed

lemma sound_start_command: "sound (sw_world s) (sw_world (fst (handle_start_command mentions now nc tg args s)))"
proof -
  obtain w1 h where w1: "auto_heal_ghost_state now tg (sw_world s) = (w1, h)" by (metis surj_pair)
  then have g: "gentle (sw_world s) w1" by (metis gentle_heal gentle_refl fst_conv)
  have sl: "sound (sw_world s) (leave tg w1)" by (intro gentle_sound gentle g)
  have a: "sound (sw_world s) (sw_world (fst (start_anonymous mentions now nc tg t s1)))"
    and p: "sound (sw_world s) (sw_world (fst (start_plain mentions now nc tg s1)))" if "sw_world s1 = leave tg w1" for t s1
    using sound_trans [OF sl] sound_start_anonymous [of s1] sound_start_plain [of s1] that by simp_all
  show ?thesis
    by (auto simp: handle_start_command_def Let_def w1 gentle_sound [OF g] intro!: a p split: option.split)
qed

lemma sound_membership:
  "sound (sw_world s) (sw_world (fst (process_check_membership cfg member_of mentions now nc tg s)))"
proof -
  have a: "sound (sw_world s1) (sw_world s2)" if t: "admit mentions now nc tg s1 = Some s2" for s1 s2
  proof (cases "get_user (dw_db (sw_world s1)) tg")
    case None
    obtain s3 r where p: "(case pending_link now (fj_pending_ref (sw_links s1) tg) of None \<Rightarrow> (s1, None)
        | Some t \<Rightarrow> (forget_ref tg s1, case pending_referrer tg t (dw_db (sw_world s1)) of None \<Rightarrow> None | Some r \<Rightarrow> r)) = (s3, r)"
      by (metis surj_pair)
    then have v: "sw_world s3 = sw_world s1" "r \<noteq> Some tg"
      by (auto dest: referrer_other split: option.splits)
    obtain d where "open_account mentions now nc tg r (dw_db (sw_world s3)) = Some d" "s2 = on_world (\<lambda>w. w\<lparr>dw_db := d\<rparr>) s3"
      using t unfolding admit_def None option.case p Let_def prod.case by auto
    then show ?thesis using sound_opened [OF _ v(2) gentle_refl] v(1) by simp
  qed (use t in \<open>simp add: admit_def sound_refl\<close>)
  let ?s1 = "s\<lparr>sw_links := drop_join_cache cfg tg (sw_links s)\<rparr>"
  show ?thesis
  proof (cases "all_joined cfg member_of tg (sw_links s)")
    case True
    show ?thesis
    proof (cases "admit mentions now nc tg ?s1")
      case None
      with True show ?thesis
        by (simp add: process_check_membership_def Let_def sound_refl split: option.split)
    next
      case (Some s2)
      have w: "gentle (sw_world s2) (write_anonymous tg x (sw_world s2))" "gentle (sw_world s2) (show_terms tg (sw_world s2))" for x
        by (intro gentle)+
      have "sound (sw_world s) (sw_world s2)" using a [OF Some] by simp
      note t = this sound_gentle [OF this w(1)] sound_gentle [OF this w(2)]
      show ?thesis
        using True Some t by (simp add: process_check_membership_def Let_def split: option.split)
    qed
  qed (simp add: process_check_membership_def sound_refl)
qed

lemma sound_onboarding:
  assumes "onboarding_message provinces now fl event tg txt (dw_fsm w tg, dw_db w) = ((c, d), r)"
  shows "sound w (on_fsm tg (\<lambda>_. c) (w\<lparr>dw_db := d\<rparr>))"
proof -
  have "honest (dw_db w) d"
    using assms honest_registration
    by (auto simp: onboarding_message_def register_city_def Let_def honest_refl split: if_splits option.splits prod.splits bool.splits)
      (metis fst_conv)+
  then show ?thesis by (rule sound_gentle [OF honest_sound]) (intro gentle)
qed

end
