(* ===== verification/Admin.thy ===== *)
theory Admin
  imports Healing ForceJoin Orders Accounts Utf8
begin

text \<open>
  The administrators' commands on users, coins, packages and the engine's state (\<open>bot/handlers/admin.py\<close>), the ban
  button of the web panel (\<open>api/routes/admin.py\<close>), and the two gates at which a ban is looked at:
  \<open>bot/middlewares/database.py\<close>, which reads the user's row, and the forced-membership middleware, which
  reads a Redis key.  The router of these handlers passes administrators' updates only.
\<close>

section \<open>Bans\<close>

text \<open>\<open>aw_banned\<close>: the ids with a key \<open>user:banned:\<close> in Redis.\<close>

record admin_world =
  aw_world :: dworld
  aw_banned :: "int set"

definition on_aw :: "(dworld \<Rightarrow> dworld) \<Rightarrow> admin_world \<Rightarrow> admin_world" where
  "on_aw f s = s\<lparr>aw_world := f (aw_world s)\<rparr>"

datatype gate = StopBanned | Pass bool

text \<open>What the session middleware does with an update of \<open>tg\<close>: stopped, or handled, where a known user is marked online.\<close>

definition db_session_gate :: "int option \<Rightarrow> db \<Rightarrow> gate" where
  "db_session_gate uid d =
     (case (case uid of None \<Rightarrow> None | Some i \<Rightarrow> if i = 0 then None else get_user d i) of
        None \<Rightarrow> Pass False
      | Some u \<Rightarrow> if u_is_banned u then StopBanned else Pass True)"

definition let_through :: "int \<Rightarrow> admin_world \<Rightarrow> bool" where
  "let_through tg s = (db_session_gate (Some tg) (dw_db (aw_world s)) \<noteq> StopBanned \<and> tg \<notin> aw_banned s)"

datatype admin_reply = Usage | NotInteger | NotPositive | UserMissing | NoCoins | NoUsers | IsAdmin | IsYourself
  | AdminDone | AdminTook int | AdminGave nat | PackageMissing

definition set_banned :: "bool \<Rightarrow> int \<Rightarrow> dworld \<Rightarrow> dworld" where
  "set_banned b tg = on_db (upd_user tg (\<lambda>u. u\<lparr>u_is_banned := b\<rparr>))"

definition end_date_of :: "int \<Rightarrow> int \<Rightarrow> dworld \<Rightarrow> dworld" where
  "end_date_of now tg w =
     (case get_active_match tg (dw_db w) of
        None \<Rightarrow> w
      | Some m \<Rightarrow> leave (other_of tg m)
          (on_match (mh_id m) (\<lambda>m. m\<lparr>mh_is_active := False, mh_ended_at := Some (Aware now)\<rparr>) w))"

definition ban_user :: "int \<Rightarrow> int \<Rightarrow> admin_world \<Rightarrow> admin_world" where
  "ban_user now tg s = (let w = aw_world s in
     \<lparr>aw_world = leave_queue tg (leave tg (end_date_of now tg (set_banned True tg w))), aw_banned = insert tg (aw_banned s)\<rparr>)"

definition cmd_banuser :: "int list \<Rightarrow> int \<Rightarrow> int \<Rightarrow> ustr \<Rightarrow> admin_world \<Rightarrow> admin_world \<times> admin_reply" where
  "cmd_banuser admins now me t s =
     (case split_ws [] t of
        [_, a] \<Rightarrow> (case py_int a of
            None \<Rightarrow> (s, NotInteger)
          | Some tg \<Rightarrow>
              if tg \<in> set admins then (s, IsAdmin)
              else if tg = me then (s, IsYourself)
              else if get_user (dw_db (aw_world s)) tg = None then (s, UserMissing)
              else (ban_user now tg s, AdminDone))
      | _ \<Rightarrow> (s, Usage))"

text \<open>\<open>rest\<close>: what follows the button's prefix.\<close>

definition admin_quick_ban :: "int list \<Rightarrow> int \<Rightarrow> int \<Rightarrow> ustr \<Rightarrow> admin_world \<Rightarrow> admin_world \<times> admin_reply" where
  "admin_quick_ban admins now me rest s =
     (case py_int rest of
        None \<Rightarrow> (s, NotInteger)
      | Some tg \<Rightarrow>
          if tg = me then (s, IsYourself)
          else if tg \<in> set admins then (s, IsAdmin)
          else if get_user (dw_db (aw_world s)) tg = None then (s, UserMissing)
          else (ban_user now tg s, AdminDone))"

definition admin_quick_unban :: "ustr \<Rightarrow> admin_world \<Rightarrow> admin_world \<times> admin_reply" where
  "admin_quick_unban rest s =
     (case py_int rest of
        None \<Rightarrow> (s, NotInteger)
      | Some tg \<Rightarrow>
          if get_user (dw_db (aw_world s)) tg = None then (s, UserMissing)
          else (\<lparr>aw_world = set_banned False tg (aw_world s), aw_banned = aw_banned s - {tg}\<rparr>, AdminDone))"

text \<open>The web panel's route writes the row only.\<close>

definition api_ban_user :: "int \<Rightarrow> bool \<Rightarrow> admin_world \<Rightarrow> admin_world \<times> admin_reply" where
  "api_ban_user tg ban s =
     (if get_user (dw_db (aw_world s)) tg = None then (s, UserMissing) else (on_aw (set_banned ban tg) s, AdminDone))"

section \<open>Coins\<close>

definition reward_user :: "int \<Rightarrow> int \<Rightarrow> string \<Rightarrow> int \<Rightarrow> db \<Rightarrow> db" where
  "reward_user now n descr tg d =
     (case get_user d tg of
        None \<Rightarrow> d
      | Some u \<Rightarrow> fst (process_coin_transaction now id None u n (TxOther descr) True None d))"

definition cmd_addcoins :: "int \<Rightarrow> ustr \<Rightarrow> db \<Rightarrow> db \<times> admin_reply" where
  "cmd_addcoins now t d =
     (case map py_int (split_ws [] t) of
        [_, Some tg, Some n] \<Rightarrow>
          if n \<le> 0 then (d, NotPositive)
          else if get_user d tg = None then (d, UserMissing)
          else (reward_user now n ''Admin added coins'' tg d, AdminDone)
      | [_, _, _] \<Rightarrow> (d, NotInteger)
      | _ \<Rightarrow> (d, Usage))"

definition cmd_removecoins :: "int \<Rightarrow> ustr \<Rightarrow> db \<Rightarrow> db \<times> admin_reply" where
  "cmd_removecoins now t d =
     (case map py_int (split_ws [] t) of
        [_, Some tg, Some n] \<Rightarrow>
          (case get_user d tg of
             None \<Rightarrow> (d, UserMissing)
           | Some u \<Rightarrow>
               if u_coin_balance u \<le> 0 then (d, NoCoins)
               else let actual = min (abs n) (u_coin_balance u) in
                 (reward_user now (- actual) ''Admin removed coins'' tg d, AdminTook actual))
      | [_, _, _] \<Rightarrow> (d, NotInteger)
      | _ \<Rightarrow> (d, Usage))"

text \<open>Everybody, in batches of a hundred, each in a session of its own.\<close>

definition reward_batches :: "int \<Rightarrow> int \<Rightarrow> string \<Rightarrow> int list \<Rightarrow> db \<Rightarrow> db" where
  "reward_batches now n descr ids d = fold (\<lambda>batch d. fold (reward_user now n descr) batch d) (chunks 100 ids) d"

definition reward_those :: "(user \<Rightarrow> bool) \<Rightarrow> int \<Rightarrow> string \<Rightarrow> ustr \<Rightarrow> db \<Rightarrow> db \<times> admin_reply" where
  "reward_those P now descr t d =
     (case map py_int (split_ws [] t) of
        [_, Some n] \<Rightarrow>
          if n \<le> 0 then (d, NotPositive)
          else let ids = map u_tg_id (sel_where P (users d)) in
            if ids = [] then (d, NoUsers) else (reward_batches now n descr ids d, AdminGave (length ids))
      | [_, _] \<Rightarrow> (d, NotInteger)
      | _ \<Rightarrow> (d, Usage))"

definition cmd_addcoinsall :: "int \<Rightarrow> ustr \<Rightarrow> db \<Rightarrow> db \<times> admin_reply" where
  "cmd_addcoinsall now = reward_those (\<lambda>u. \<not> u_re_engage_blocked u) now ''Global admin reward''"

definition cmd_addcoinsvip :: "int \<Rightarrow> ustr \<Rightarrow> db \<Rightarrow> db \<times> admin_reply" where
  "cmd_addcoinsvip now = reward_those (\<lambda>u. u_is_vip u \<and> \<not> u_re_engage_blocked u \<and>
     (case u_vip_expires_at u of None \<Rightarrow> True | Some e \<Rightarrow> instant e > now)) now ''VIP admin reward''"

section \<open>Profiles\<close>

definition cmd_setvip :: "int \<Rightarrow> ustr \<Rightarrow> db \<Rightarrow> db \<times> admin_reply" where
  "cmd_setvip now t d =
     (case map py_int (split_ws [] t) of
        [_, Some tg, Some days] \<Rightarrow>
          if days \<le> 0 then (d, NotPositive)
          else if get_user d tg = None then (d, UserMissing)
          else (upd_user tg (\<lambda>u. u\<lparr>u_is_vip := True, u_vip_expires_at := Some (Aware (now + days * 86400 * 1000000))\<rparr>) d,
                AdminDone)
      | [_, _, _] \<Rightarrow> (d, NotInteger)
      | _ \<Rightarrow> (d, Usage))"

definition cmd_resetprofile :: "ustr \<Rightarrow> db \<Rightarrow> db \<times> admin_reply" where
  "cmd_resetprofile t d =
     (case map py_int (split_ws [] t) of
        [_, Some tg] \<Rightarrow>
          if get_user d tg = None then (d, UserMissing)
          else (upd_user tg (\<lambda>u. u\<lparr>u_gender := None, u_age := None, u_province := None, u_completed_registration := False\<rparr>) d,
                AdminDone)
      | [_, _] \<Rightarrow> (d, NotInteger)
      | _ \<Rightarrow> (d, Usage))"

text \<open>The user's card: the row, how many matches, how many of them became chats.\<close>

definition cmd_userinfo :: "ustr \<Rightarrow> db \<Rightarrow> (user \<times> nat \<times> nat) option" where
  "cmd_userinfo t d =
     (case map py_int (split_ws [] t) of
        [_, Some tg] \<Rightarrow> (case get_user d tg of
            None \<Rightarrow> None
          | Some u \<Rightarrow> Some (u, rowcount (in_match tg) (matches d), rowcount (\<lambda>m. in_match tg m \<and> mh_chat_approved m) (matches d)))
      | _ \<Rightarrow> None)"

section \<open>Packages and orders\<close>

definition cmd_add_package :: "int \<Rightarrow> ustr \<Rightarrow> db \<Rightarrow> db \<times> admin_reply" where
  "cmd_add_package now t d =
     (case map py_int (split_ws [] t) of
        [_, Some coins, Some price] \<Rightarrow> (create_coin_package now coins price d, AdminDone)
      | [_, _, _] \<Rightarrow> (d, NotInteger)
      | _ \<Rightarrow> (d, Usage))"

definition cmd_edit_package :: "ustr \<Rightarrow> db \<Rightarrow> db \<times> admin_reply" where
  "cmd_edit_package t d =
     (case map py_int (split_ws [] t) of
        [_, Some i, Some price] \<Rightarrow> (case update_coin_package_price i price d of
            (d1, True) \<Rightarrow> (d1, AdminDone) | (d1, False) \<Rightarrow> (d, PackageMissing))
      | [_, _, _] \<Rightarrow> (d, NotInteger)
      | _ \<Rightarrow> (d, Usage))"

definition cmd_toggle_package :: "ustr \<Rightarrow> db \<Rightarrow> db \<times> admin_reply" where
  "cmd_toggle_package t d =
     (case map py_int (split_ws [] t) of
        [_, Some i] \<Rightarrow> (case toggle_coin_package i d of
            (d1, Some b) \<Rightarrow> (d1, AdminDone) | (d1, None) \<Rightarrow> (d, PackageMissing))
      | [_, _] \<Rightarrow> (d, NotInteger)
      | _ \<Rightarrow> (d, Usage))"

definition cmd_list_packages :: "db \<Rightarrow> (int \<times> int \<times> int \<times> bool) list" where
  "cmd_list_packages d = map (\<lambda>p. (cp_id p, cp_coin_amount p, cp_price_toman p, cp_is_active p)) (get_all_coin_packages d)"

definition cmd_list_pending_orders :: "int \<Rightarrow> db \<Rightarrow> (int \<times> int) list" where
  "cmd_list_pending_orders now d = map (\<lambda>p. (po_id p, po_user_tg_id p)) (get_pending_orders now 20 d)"

text \<open>The card of an order: whether it comes with its receipt, and whether with the two buttons.\<close>

definition cmd_get_order_details :: "ustr \<Rightarrow> db \<Rightarrow> (purchase_order \<times> bool \<times> bool) option" where
  "cmd_get_order_details t d =
     (case map py_int (split_ws [] t) of
        [_, Some i] \<Rightarrow> (case get_order_with_details i d of
            None \<Rightarrow> None
          | Some (p, c, u) \<Rightarrow> Some (p, po_status p = status.Pending \<and> truthy (po_receipt_photo_file_id p), po_status p = status.Pending))
      | _ \<Rightarrow> None)"

section \<open>Comparing Redis with the database\<close>

definition speaks_of_match :: "ustate \<Rightarrow> bool" where
  "speaks_of_match u \<longleftrightarrow> us_status u \<in> {Some Matched, Some Chatting, Some InChat, Some InDate}"

definition engine_zombie :: "int \<Rightarrow> ustate \<Rightarrow> db \<Rightarrow> bool" where
  "engine_zombie tg u d = (case get_active_match tg d of
     None \<Rightarrow> True
   | Some m \<Rightarrow> (case us_matched_with u of None \<Rightarrow> False | Some p \<Rightarrow> mh_user_one_id m \<noteq> p \<and> mh_user_two_id m \<noteq> p))"

text \<open>The state is deleted first, so that leaving the queue, which reads the queue from it, finds nothing to do.\<close>

definition sync_state :: "db \<Rightarrow> int \<Rightarrow> mstore \<Rightarrow> mstore" where
  "sync_state d tg s = (case ms_state s tg of
     None \<Rightarrow> s
   | Some u \<Rightarrow> if speaks_of_match u \<and> engine_zombie tg u d then fst (remove_from_queue tg (del_state tg s)) else s)"

definition sync_lock :: "db \<Rightarrow> int \<Rightarrow> (int \<rightharpoonup> int) \<Rightarrow> int \<rightharpoonup> int" where
  "sync_lock d mid locks =
     (case by_key mh_id mid (matches d) of
        None \<Rightarrow> locks(mid := None)
      | Some m \<Rightarrow> if mh_is_active m then locks else locks(mid := None))"

text \<open>\<open>keys\<close> and \<open>lock_keys\<close>: what the two scans return, each key at least once, negative numbers left out.\<close>

definition cmd_sync_states :: "int list \<Rightarrow> int list \<Rightarrow> dworld \<Rightarrow> dworld" where
  "cmd_sync_states keys lock_keys w =
     w\<lparr>dw_store := fold (sync_state (dw_db w)) (filter (\<lambda>k. 0 \<le> k) keys) (dw_store w),
       dw_skip := fold (sync_lock (dw_db w)) (filter (\<lambda>k. 0 \<le> k) lock_keys) (dw_skip w)\<rparr>"


section \<open>Coins: what the commands pay\<close>

lemma reward_user_effect:
  assumes "users_unique d" and "ledger_ok d" and "n < 0 \<longrightarrow> - n \<le> coin_balance d tg"
  shows "users_unique (reward_user now n descr tg d)" and "ledger_ok (reward_user now n descr tg d)"
    and "coin_balance (reward_user now n descr tg d) k = coin_balance d k + (if k = tg \<and> get_user d tg \<noteq> None then n else 0)"
    and "get_user (reward_user now n descr tg d) k = None \<longleftrightarrow> get_user d k = None"
proof -
  have "users_unique (reward_user now n descr tg d) \<and> ledger_ok (reward_user now n descr tg d) \<and>
    coin_balance (reward_user now n descr tg d) k = coin_balance d k + (if k = tg \<and> get_user d tg \<noteq> None then n else 0) \<and>
    (get_user (reward_user now n descr tg d) k = None \<longleftrightarrow> get_user d k = None)"
  proof (cases "get_user d tg")
    case None
    then show ?thesis using assms by (simp add: reward_user_def)
  next
    case (Some u)
    then have tg: "u_tg_id u = tg" by (rule get_user_tg)
    obtain d' o' r where p: "process_coin_transaction now id None u n (TxOther descr) True None d = (d', o', r)" by (metis prod_cases3)
    have "ledger_ok d' \<and> users_unique d' \<and> account_ids d' = account_ids d"
      by (rule process_keeps_ledger [OF assms(1,2) _ p]) (simp add: account_ids_iff tg Some)
    moreover have "coin_balance d' k = coin_balance d k + (if k = tg then n else 0) \<and>
      (get_user d' k = None \<longleftrightarrow> get_user d k = None)"
    proof (cases "n < 0")
      case True
      then have d': "d' = add_coin_tx now tg n (TxOther descr) None ''generic'' (upd_user tg (spend (- n)) d)"
        using process_debit [of d u u n now id None "TxOther descr" True None] assms(1,3) Some p tg by (simp add: coin_balance_Some)
      show ?thesis using Some by (auto simp: d' coin_balance_def get_upd_user spend_def)
    next
      case False
      then have d': "d' = add_coin_tx now tg n (TxOther descr) None ''generic'' (upd_user tg (earn n) d)"
        using process_credit [of n now id None u "TxOther descr" True None d] p tg by (simp add: event_amount_def event_text_def)
      show ?thesis using Some by (auto simp: d' coin_balance_def get_upd_user earn_def)
    qed
    ultimately show ?thesis using p Some by (simp add: reward_user_def)
  qed
  then show "users_unique (reward_user now n descr tg d)" and "ledger_ok (reward_user now n descr tg d)"
    and "coin_balance (reward_user now n descr tg d) k = coin_balance d k + (if k = tg \<and> get_user d tg \<noteq> None then n else 0)"
    and "get_user (reward_user now n descr tg d) k = None \<longleftrightarrow> get_user d k = None"
    by blast+
qed


lemma fold_rewards:
  assumes "users_unique d" and "ledger_ok d" and "0 \<le> n" and "distinct ids"
  shows "users_unique (fold (reward_user now n descr) ids d) \<and> ledger_ok (fold (reward_user now n descr) ids d) \<and>
    (\<forall>k. coin_balance (fold (reward_user now n descr) ids d) k =
       coin_balance d k + (if k \<in> set ids \<and> get_user d k \<noteq> None then n else 0))"
  using assms(1,2,4)
proof (induction ids arbitrary: d)
  case (Cons i ids)
  have z: "n < 0 \<longrightarrow> - n \<le> coin_balance d i" using assms(3) by simp
  note r = reward_user_effect [OF Cons.prems(1,2) z, of now descr]
  from Cons.IH [OF r(1,2)] Cons.prems(3) show ?case by (auto simp: r(3,4))
qed simp

lemma fold_batches: "0 < n \<Longrightarrow> fold (\<lambda>b d. fold f b d) (chunks n xs) d = fold f xs d"
proof (induction n xs arbitrary: d rule: chunks.induct)
  case (1 n xs)
  show ?case
  proof (cases "xs = []")
    case True
    then show ?thesis by (simp add: chunks.simps)
  next
    case False
    then have "fold (\<lambda>b d. fold f b d) (chunks n xs) d = fold f (drop n xs) (fold f (take n xs) d)"
      using 1 by (simp add: chunks.simps [of n xs])
    also have "\<dots> = fold f xs d" by (metis append_take_drop_id fold_append comp_apply)
    finally show ?thesis .
  qed
qed

text \<open>A reward for everybody, or for every VIP, reaches exactly those the command selects, each once and in full
  whatever event runs, however many batches it takes; every balance stays the sum of its log.\<close>

theorem rewards_reach_exactly:
  assumes "reward_those P now descr t d = (d', AdminGave count)" and "map py_int (split_ws [] t) = [c, Some n]"
    and "users_unique d" and "ledger_ok d"
  shows "0 < n \<and> ledger_ok d' \<and> count = card {k. \<exists>u. get_user d k = Some u \<and> P u} \<and>
    (\<forall>k. coin_balance d' k = coin_balance d k + (case get_user d k of None \<Rightarrow> 0 | Some u \<Rightarrow> if P u then n else 0))"
proof -
  let ?ids = "map u_tg_id (sel_where P (users d))"
  from assms(1,2) have n: "0 < n" and d': "d' = fold (reward_user now n descr) ?ids d" and count: "count = length ?ids"
    by (auto simp: reward_those_def Let_def reward_batches_def fold_batches split: if_splits)
  have "distinct (map u_tg_id (filter P xs))" if "distinct (map u_tg_id xs)" for xs
    using that by (induction xs) auto
  then have dist: "distinct ?ids" using assms(3) by (simp add: users_unique_def sel_where_def)
  have mem: "k \<in> set ?ids \<longleftrightarrow> (\<exists>u. get_user d k = Some u \<and> P u)" for k
    using get_user_unique [OF assms(3)] get_user_in [of d k] get_user_tg [of d k] by (auto simp: sel_where_def)
  then have "set ?ids = {k. \<exists>u. get_user d k = Some u \<and> P u}" by blast
  then have "count = card {k. \<exists>u. get_user d k = Some u \<and> P u}" using count distinct_card [OF dist] by simp
  with n fold_rewards [OF assms(3,4) _ dist, of n now descr] mem show ?thesis
    by (auto simp: d' split: option.split)
qed

text \<open>Taking coins takes what was asked or what there is, whichever is less, so that no balance goes below
  zero; the sign of the typed number does not matter, and the log follows.\<close>

theorem removecoins_takes:
  assumes "map py_int (split_ws [] t) = [c, Some tg, Some n]" and "users_unique d" and "ledger_ok d" and "cmd_removecoins now t d = (d', r)"
  shows "ledger_ok d' \<and> (\<forall>k. coin_balance d' k =
    (if k = tg \<and> 0 < coin_balance d tg then max 0 (coin_balance d tg - \<bar>n\<bar>) else coin_balance d k))"
proof (cases "get_user d tg")
  case None
  then show ?thesis using assms by (auto simp: cmd_removecoins_def coin_balance_def)
next
  case (Some u)
  note b = coin_balance_Some [OF Some]
  show ?thesis
  proof (cases "u_coin_balance u \<le> 0")
    case True
    then show ?thesis using assms Some b by (auto simp: cmd_removecoins_def)
  next
    case False
    let ?a = "min \<bar>n\<bar> (u_coin_balance u)"
    have d': "d' = reward_user now (- ?a) ''Admin removed coins'' tg d"
      using assms(1,4) Some False by (simp add: cmd_removecoins_def Let_def)
    have z: "- ?a < 0 \<longrightarrow> - (- ?a) \<le> coin_balance d tg" using b by simp
    note r = reward_user_effect [OF assms(2,3) z, of now "''Admin removed coins''"]
    show ?thesis using False b Some r(2,3) by (auto simp: d')
  qed
qed

text \<open>A profile that an administrator resets can be registered a second time, and the rewards of a registration
  are paid a second time.\<close>

theorem reset_pays_again:
  assumes "users_unique d" and "get_user d tg = Some u" and "u_completed_registration u" and "u_referrer_id u \<noteq> Some tg"
    and "map py_int (split_ws [] t) = [c, Some tg]"
  shows "coin_balance (fst (complete_user_registration now fl None tg rg (fst (cmd_resetprofile t d)))) tg
    = coin_balance d tg + (if referral_due tg u d = None then 5 else 10)"
proof -
  let ?f = "\<lambda>u :: user. u\<lparr>u_gender := None, u_age := None, u_province := None, u_completed_registration := False\<rparr>"
  define d1 where "d1 = upd_user tg ?f d"
  have r: "fst (cmd_resetprofile t d) = d1" using assms(2,5) by (simp add: cmd_resetprofile_def d1_def)
  have u1: "get_user d1 tg = Some (?f u)" using assms(2) by (simp add: d1_def get_upd_user)
  have same: "get_user d1 k = None \<longleftrightarrow> get_user d k = None" for k by (simp add: d1_def get_upd_user)
  have "has_deleted_account tg d1 = has_deleted_account tg d" by (simp add: has_deleted_account_def d1_def upd_user_def)
  then have due: "referral_due tg (?f u) d1 = referral_due tg u d"
    by (simp add: referral_due_def same split: option.split)
  have "users_unique d1" using assms(1) by (simp add: d1_def users_unique_upd_user)
  note reg = registration_result [OF this u1, of now fl None rg]
  have "coin_balance d1 tg = coin_balance d tg" using coin_balance_Some [OF assms(2)] coin_balance_Some [OF u1] by simp
  moreover have "rid \<noteq> tg" if "referral_due tg u d = Some rid" for rid
    using that assms(4) by (auto simp: referral_due_def split: option.splits if_splits)
  ultimately show ?thesis
    unfolding r using reg assms(4) due u1
    by (auto simp: coin_balance_def get_upd_user event_amount_def earn_def split: option.split)
qed


section \<open>Bans: who is stopped\<close>

lemma gate_passes: "db_session_gate (Some tg) d \<noteq> StopBanned \<longleftrightarrow>
    tg = 0 \<or> (\<forall>u. get_user d tg = Some u \<longrightarrow> \<not> u_is_banned u)"
  by (simp add: db_session_gate_def split: option.split)

lemma ban_view:
  "dw_fsm (aw_world (ban_user now tg s)) = (\<lambda>k. if k = tg \<or> (\<exists>m. get_active_match tg (dw_db (aw_world s)) = Some m \<and> k = other_of tg m)
     then clear_fsm (dw_fsm (aw_world s) k) else dw_fsm (aw_world s) k)"
  "users (dw_db (aw_world (ban_user now tg s))) = users (upd_user tg (\<lambda>u. u\<lparr>u_is_banned := True\<rparr>) (dw_db (aw_world s)))"
  "coin_txs (dw_db (aw_world (ban_user now tg s))) = coin_txs (dw_db (aw_world s))"
  "aw_banned (ban_user now tg s) = insert tg (aw_banned s)"
  "dw_store (aw_world (ban_user now tg s)) = fst (remove_from_queue tg (dw_store (aw_world s)))"
proof -
  have g: "get_active_match tg (upd_user tg f d) = get_active_match tg d" for f d
    by (simp add: get_active_match_def upd_user_def)
  show "dw_fsm (aw_world (ban_user now tg s)) = (\<lambda>k. if k = tg \<or> (\<exists>m. get_active_match tg (dw_db (aw_world s)) = Some m \<and> k = other_of tg m)
      then clear_fsm (dw_fsm (aw_world s) k) else dw_fsm (aw_world s) k)"
    by (auto simp: ban_user_def Let_def end_date_of_def set_banned_def g on_db_def on_match_def leave_def on_fsm_def clear_fsm_def
        Healing.leave_queue_def fun_eq_iff split: option.split)
qed (auto simp: ban_user_def Let_def end_date_of_def set_banned_def on_db_def on_match_def leave_def on_fsm_def Healing.leave_queue_def
    upd_user_def split: option.split)

lemma ban_user_row: "get_user (dw_db (aw_world (ban_user now tg s))) k =
    (if k = tg then map_option (\<lambda>u. u\<lparr>u_is_banned := True\<rparr>) (get_user (dw_db (aw_world s)) tg) else get_user (dw_db (aw_world s)) k)"
proof -
  have "get_user (dw_db (aw_world (ban_user now tg s))) k = get_user (upd_user tg (\<lambda>u. u\<lparr>u_is_banned := True\<rparr>) (dw_db (aw_world s))) k"
    by (simp add: get_user_def ban_view(2))
  then show ?thesis by (simp add: get_upd_user)
qed

lemma closed_frees:
  assumes "matches_ok (dw_db w)" and "get_active_match tg (dw_db w) = Some m" and "in_match u m"
    and "\<And>m. \<not> mh_is_active (f m)"
  shows "get_active_match u (dw_db (on_match (mh_id m) f w)) = None"
proof -
  have m: "m \<in> set (rows (matches (dw_db w)))" "mh_is_active m" using active_match_SomeD [OF assms(2)] by auto
  have "\<not> (mh_is_active r \<and> in_match u r)" if r: "r \<in> set (rows (matches (dw_db (on_match (mh_id m) f w))))" for r
  proof -
    from r obtain r0 where r0: "r0 \<in> set (rows (matches (dw_db w)))" and e: "r = (if mh_id r0 = mh_id m then f r0 else r0)"
      by (auto simp: on_match_rows)
    have "mh_id r0 = mh_id m" if "mh_is_active r0" "in_match u r0"
      using assms(1,3) r0 m that unfolding matches_ok_def by blast
    then show ?thesis using assms(4) by (auto simp: e)
  qed
  then show ?thesis by (auto simp: get_active_match_def first_where_def find_None_iff)
qed

lemma ban_matches:
  fixes now tg :: int
  assumes "matches_ok (dw_db (aw_world s))"
  defines "d' \<equiv> dw_db (aw_world (ban_user now tg s))"
  shows "matches_ok d'" and "get_active_match tg d' = None"
    and "get_active_match tg (dw_db (aw_world s)) = Some m \<Longrightarrow> get_active_match (other_of tg m) d' = None"
proof -
  let ?w = "set_banned True tg (aw_world s)" and ?f = "\<lambda>m. m\<lparr>mh_is_active := False, mh_ended_at := Some (Aware now)\<rparr>"
  have e: "matches (dw_db ?w) = matches (dw_db (aw_world s))" by (simp add: set_banned_def on_db_def upd_user_def)
  have g: "get_active_match k (dw_db ?w) = get_active_match k (dw_db (aw_world s))" for k by (simp add: get_active_match_def e)
  have ok: "matches_ok (dw_db ?w)" using assms(1) by (simp add: matches_ok_def e)
  have d': "d' = (case get_active_match tg (dw_db (aw_world s)) of None \<Rightarrow> dw_db ?w | Some m \<Rightarrow> dw_db (on_match (mh_id m) ?f ?w))"
    by (simp add: d'_def ban_user_def Let_def end_date_of_def g leave_def on_fsm_def Healing.leave_queue_def split: option.split)
  show "matches_ok d'"
    using ok by (auto simp: d' in_match_def intro: matches_ok_on_match split: option.split)
  have fr: "get_active_match k d' = None" if "get_active_match tg (dw_db (aw_world s)) = Some m" and "in_match k m" for k m
    using closed_frees [OF ok _ that(2), of tg ?f] that(1) g by (simp add: d')
  show "get_active_match tg d' = None"
  proof (cases "get_active_match tg (dw_db (aw_world s))")
    case None
    then show ?thesis using g by (simp add: d')
  next
    case (Some m)
    then show ?thesis using fr [OF Some] active_match_SomeD [OF Some] by simp
  qed
  show "get_active_match (other_of tg m) d' = None" if m: "get_active_match tg (dw_db (aw_world s)) = Some m"
    using fr [OF m other_in_match] active_match_SomeD [OF m] by simp
qed


text \<open>The bot's unban undoes its ban for the gates and the users' table; the web panel's does not: the key of the
  ban stays in Redis, the row reads as not banned, and the user is still stopped.\<close>

theorem api_unban_stays_stopped:
  assumes "get_user (dw_db (aw_world s)) tg = Some u" and "\<not> u_is_banned u" and "tg \<notin> aw_banned s"
  shows "let s1 = ban_user now tg s; s2 = fst (admin_quick_unban (py_str tg) s1); s3 = fst (api_ban_user tg False s1)
    in (\<forall>k. let_through k s2 = let_through k s) \<and> get_user (dw_db (aw_world s2)) tg = Some u \<and>
       get_user (dw_db (aw_world s3)) tg = Some u \<and> \<not> let_through tg s3"
proof -
  define s1 where "s1 = ban_user now tg s"
  have u1: "get_user (dw_db (aw_world s1)) k = (if k = tg then Some (u\<lparr>u_is_banned := True\<rparr>) else get_user (dw_db (aw_world s)) k)" for k
    using ban_user_row [of now tg s k] assms(1) by (simp add: s1_def)
  have undo: "u\<lparr>u_is_banned := True\<rparr>\<lparr>u_is_banned := False\<rparr> = u" using assms(2) by (cases u) simp
  have u2: "get_user (dw_db (set_banned False tg (aw_world s1))) k = get_user (dw_db (aw_world s)) k" for k
    using undo assms(1) by (simp add: set_banned_def on_db_def get_upd_user u1)
  show ?thesis
    using u2 u1 assms
    by (auto simp: admin_quick_unban_def py_int_str api_ban_user_def on_aw_def let_through_def gate_passes Let_def
        s1_def [symmetric] ban_view(4) [of now tg s, folded s1_def])
qed


section \<open>Synchronising\<close>

lemma sync_state_view:
  "ms_state (sync_state d tg s) k = (if k = tg then (case ms_state s tg of None \<Rightarrow> None
     | Some u \<Rightarrow> if speaks_of_match u \<and> engine_zombie tg u d then None else Some u) else ms_state s k)"
  "ms_queue (sync_state d tg s) = ms_queue s"
  by (auto simp: sync_state_def remove_from_queue_def del_state_def split: option.split)

lemma fold_sync_state:
  "ms_state (fold (sync_state d) ks s) k = (if k \<in> set ks then (case ms_state s k of None \<Rightarrow> None
     | Some u \<Rightarrow> if speaks_of_match u \<and> engine_zombie k u d then None else Some u) else ms_state s k)"
  "ms_queue (fold (sync_state d) ks s) = ms_queue s"
  by (induction ks arbitrary: s) (auto simp: sync_state_view split: option.split)

lemma fold_sync_lock:
  "fold (sync_lock d) ks locks k = (if k \<in> set ks \<and> (\<forall>m. by_key mh_id k (matches d) = Some m \<longrightarrow> \<not> mh_is_active m) then None else locks k)"
proof (induction ks arbitrary: locks)
  case (Cons x ks)
  show ?case by (simp add: Cons) (auto simp: sync_lock_def split: option.split)
qed simp

text \<open>After a synchronisation whose scans return every key, whatever the engine still says of a match is true of
  the user's active match, and a lock is left only on an active match; everything else the engine
  knows, the queues included, is as before.\<close>

theorem sync_leaves_truth:
  assumes "\<forall>k. ms_state (dw_store w) k \<noteq> None \<longrightarrow> 0 \<le> k \<and> k \<in> set keys" and "\<forall>k. dw_skip w k \<noteq> None \<longrightarrow> 0 \<le> k \<and> k \<in> set lock_keys"
  shows "let w' = cmd_sync_states keys lock_keys w in
    (\<forall>k u. ms_state (dw_store w') k = Some u \<longrightarrow> ms_state (dw_store w) k = Some u \<and>
       (speaks_of_match u \<longrightarrow> (\<exists>m. get_active_match k (dw_db w) = Some m \<and>
          (\<forall>p. us_matched_with u = Some p \<longrightarrow> in_match p m)))) \<and>
    (\<forall>k u. ms_state (dw_store w) k = Some u \<and> \<not> speaks_of_match u \<longrightarrow> ms_state (dw_store w') k = Some u) \<and>
    (\<forall>mid. dw_skip w' mid \<noteq> None \<longrightarrow> (\<exists>m. by_key mh_id mid (matches (dw_db w)) = Some m \<and> mh_is_active m)) \<and>
    ms_queue (dw_store w') = ms_queue (dw_store w) \<and> dw_db w' = dw_db w"
proof -
  let ?w = "cmd_sync_states keys lock_keys w"
  have st: "ms_state (dw_store ?w) k = (case ms_state (dw_store w) k of None \<Rightarrow> None
      | Some u \<Rightarrow> if speaks_of_match u \<and> engine_zombie k u (dw_db w) then None else Some u)" for k
    using assms(1) by (auto simp: cmd_sync_states_def fold_sync_state split: option.split)
  have ok: "\<exists>m. get_active_match k d = Some m \<and> (\<forall>p. us_matched_with u = Some p \<longrightarrow> in_match p m)" if "\<not> engine_zombie k u d" for k u d
    using that by (auto simp: engine_zombie_def in_match_def split: option.splits)
  have "dw_skip ?w mid = (if \<forall>m. by_key mh_id mid (matches (dw_db w)) = Some m \<longrightarrow> \<not> mh_is_active m then None else dw_skip w mid)" for mid
    using assms(2) by (auto simp: cmd_sync_states_def fold_sync_lock)
  moreover have "ms_queue (dw_store ?w) = ms_queue (dw_store w)" "dw_db ?w = dw_db w"
    by (simp_all add: cmd_sync_states_def fold_sync_state)
  ultimately show ?thesis using ok by (auto simp: st Let_def split: option.splits if_splits)
qed

section \<open>Messages to a chosen audience\<close>

record audience_filter =
  af_gender :: "ustr option"
  af_vip :: bool
  af_city :: "ustr option"
  af_min :: "int option"
  af_max :: "int option"

definition no_filter :: audience_filter where
  "no_filter = \<lparr>af_gender = None, af_vip = False, af_city = None, af_min = None, af_max = None\<rparr>"

definition lower_ascii :: "ustr \<Rightarrow> ustr" where
  "lower_ascii = map (\<lambda>c. if 65 \<le> c \<and> c \<le> 90 then c + 32 else c)"

text \<open>A token without an equals sign is skipped; of the two numbers of an age, the first is kept when the second
  is no number.\<close>

definition parse_filter_token :: "ustr \<Rightarrow> audience_filter \<Rightarrow> audience_filter" where
  "parse_filter_token t f =
     (if 61 \<notin> set t then f
      else let key = lower_ascii (takeWhile (\<lambda>c. c \<noteq> 61) t); v = drop 1 (dropWhile (\<lambda>c. c \<noteq> 61) t) in
      if key = lit ''gender'' \<and> v \<in> {lit ''male'', lit ''female'', [1605, 1585, 1583], [1586, 1606]} then f\<lparr>af_gender := Some v\<rparr>
      else if key = lit ''vip'' \<and> lower_ascii v \<in> {lit ''true'', lit ''yes'', lit ''1''} then f\<lparr>af_vip := True\<rparr>
      else if key = lit ''city'' then f\<lparr>af_city := Some v\<rparr>
      else if key = lit ''age'' then
        (case split_on 45 [] v of
           [a, b] \<Rightarrow> (case py_int a of
               None \<Rightarrow> f
             | Some lo \<Rightarrow> (case py_int b of None \<Rightarrow> f\<lparr>af_min := Some lo\<rparr> | Some hi \<Rightarrow> f\<lparr>af_min := Some lo, af_max := Some hi\<rparr>))
         | _ \<Rightarrow> f)
      else f)"

definition parse_filters :: "ustr \<Rightarrow> audience_filter" where
  "parse_filters t = fold parse_filter_token (split_ws [] t) no_filter"

text \<open>Whom a filter selects; \<open>None\<close>: the missing upper bound of an age raises \<open>KeyError\<close>, already at the preview.\<close>

definition pbroadcast_audience :: "audience_filter \<Rightarrow> db \<Rightarrow> int list option" where
  "pbroadcast_audience f d =
     (if af_min f \<noteq> None \<and> af_max f = None then None
      else Some (map u_tg_id (sel_where (\<lambda>u.
        (case af_gender f of None \<Rightarrow> True | Some g \<Rightarrow> map_option (map lower_char) (u_gender u) = Some (map lower_char (utf8 g))) \<and>
        (case af_city f of None \<Rightarrow> True | Some c \<Rightarrow> map_option (map lower_char) (u_city u) = Some (map lower_char (utf8 c))) \<and>
        (case (af_min f, u_age u) of (None, _) \<Rightarrow> True | (Some lo, None) \<Rightarrow> False
          | (Some lo, Some a) \<Rightarrow> lo \<le> a \<and> a \<le> the (af_max f)) \<and>
        (af_vip f \<longrightarrow> u_is_vip u)) (users d))))"

definition pbroadcast_get_filter :: "ustr \<Rightarrow> audience_filter" where
  "pbroadcast_get_filter t = (if strip t = [45] then no_filter else parse_filters (strip t))"

text \<open>Half an age is kept: a filter such as \<open>age=20-x\<close>, which the code means to ignore, has a lower bound without an
  upper one, and the broadcast ends in an exception instead of reaching anybody.\<close>

theorem half_an_age_raises:
  assumes "py_int a = Some lo" and "py_int b = None" and "45 \<notin> set a" and "45 \<notin> set b" and "\<forall>c\<in>set (a @ b). \<not> is_space c"
  shows "pbroadcast_audience (pbroadcast_get_filter (lit ''age='' @ a @ [45] @ b)) d = None"
proof -
  let ?t = "[97, 103, 101, 61] @ a @ [45] @ b"
  have t: "lit ''age='' @ a @ [45] @ b = ?t" by (simp add: lit_def)
  have sp: "\<forall>c\<in>set ?t. \<not> is_space c" using assms(5) by (auto simp: is_space_def)
  have word: "split_ws cur xs = [rev cur @ xs]" if "\<forall>c\<in>set xs. \<not> is_space c" "xs \<noteq> [] \<or> cur \<noteq> []" for cur xs
    using that by (induction xs arbitrary: cur) auto
  have "pbroadcast_get_filter ?t = parse_filter_token ?t no_filter"
    using word [of ?t "[]"] sp strip_id [OF sp] by (simp add: pbroadcast_get_filter_def parse_filters_def)
  also have "\<dots> = no_filter\<lparr>af_min := Some lo\<rparr>"
    using assms(1,2) split_on_sep [OF assms(3), of "[]" b] split_on_none [OF assms(4), of "[]"]
    by (simp add: parse_filter_token_def lower_ascii_def lit_def)
  finally show ?thesis unfolding t by (simp add: pbroadcast_audience_def no_filter_def)
qed


section \<open>Witnesses\<close>

text \<open>Alice and Bob are in a date.\<close>

definition office :: admin_world where
  "office = \<lparr>aw_world = free_date\<lparr>dw_db := demo_db\<lparr>matches := \<lparr>rows = [new_match 0 1 2 1], next_id = 2\<rparr>\<rparr>\<rparr>, aw_banned = {}\<rparr>"

definition cmd :: "string \<Rightarrow> int list \<Rightarrow> ustr" where
  "cmd c ns = lit c @ concat (map (\<lambda>n. 32 # py_str n) ns)"

lemma typed_digits: "py_str 1 = [49]" "py_str 2 = [50]" "py_str 5 = [53]" "py_str 7 = [55]" "py_str 20 = [50, 48]"
  by code_simp+

lemma cmd_words:
  "split_ws [] (cmd ''/banuser'' [2]) = [lit ''/banuser'', py_str 2]"
  "split_ws [] (cmd ''/addcoinsall'' [7]) = [lit ''/addcoinsall'', py_str 7]"
  "split_ws [] (cmd ''/removecoins'' [1, 5]) = [lit ''/removecoins'', py_str 1, py_str 5]"
  "split_ws [] (cmd ''/resetprofile'' [1]) = [lit ''/resetprofile'', py_str 1]"
  by (simp_all add: cmd_def typed_digits lit_def is_space_def)


theorem api_unban_stays_stopped_witness:
  "\<not> let_through 2 (fst (api_ban_user 2 False (ban_user 5 2 office)))"
proof -
  have "get_user (dw_db (aw_world office)) 2 = Some bob" by (simp add: office_def get_user_def by_key_def demo_db_def)
  then show ?thesis using api_unban_stays_stopped [of office 2 bob 5] by (simp add: office_def Let_def)
qed

theorem rewards_reach_exactly_witness:
  "\<exists>d'. cmd_addcoinsall 5 (cmd ''/addcoinsall'' [7]) demo_db = (d', AdminGave 2) \<and> coin_balance d' 1 = 10 \<and> ledger_ok d'"
proof -
  obtain d' where d: "cmd_addcoinsall 5 (cmd ''/addcoinsall'' [7]) demo_db = (d', AdminGave 2)"
    by (simp add: cmd_addcoinsall_def reward_those_def cmd_words py_int_str sel_where_def demo_db_def alice_def bob_def new_user_def)
  have "\<not> u_re_engage_blocked alice" by (simp add: alice_def new_user_def)
  then show ?thesis
    using rewards_reach_exactly [OF d [unfolded cmd_addcoinsall_def], of "py_int (lit ''/addcoinsall'')" 7] d
    by (simp add: cmd_words py_int_str coin_balance_def)
qed

theorem removecoins_takes_witness:
  "coin_balance (fst (cmd_removecoins 5 (cmd ''/removecoins'' [1, 5]) demo_db)) 1 = 0"
  using removecoins_takes [of "cmd ''/removecoins'' [1, 5]" "py_int (lit ''/removecoins'')" 1 5 demo_db 5]
  by (simp add: cmd_words py_int_str prod_eq_iff)

definition registered_db :: db where
  "registered_db = upd_user 1 (\<lambda>u. u\<lparr>u_completed_registration := True\<rparr>) demo_db"

theorem reset_pays_again_witness:
  "\<forall>rg. coin_balance (fst (complete_user_registration 5 id None 1 rg (fst (cmd_resetprofile (cmd ''/resetprofile'' [1]) registered_db)))) 1
    = coin_balance registered_db 1 + 5"
proof -
  let ?u = "alice\<lparr>u_completed_registration := True\<rparr>"
  have u: "get_user registered_db 1 = Some ?u" by (simp add: registered_db_def get_upd_user)
  have q: "users_unique registered_db" by (simp add: registered_db_def users_unique_upd_user)
  have "referral_due 1 ?u registered_db = None" by (simp add: referral_due_def)
  then show ?thesis using reset_pays_again [OF q u, of "cmd ''/resetprofile'' [1]" _ 5 id] by (simp add: cmd_words py_int_str)
qed

definition stale_office :: dworld where
  "stale_office = (aw_world office)\<lparr>dw_store := (dw_store (aw_world office))\<lparr>ms_state :=
     [3 \<mapsto> empty_state\<lparr>us_status := Some Matched\<rparr>]\<rparr>, dw_skip := [9 \<mapsto> 5]\<rparr>"

theorem sync_leaves_truth_witness:
  "ms_state (dw_store (cmd_sync_states [3] [9] stale_office)) 3 = None \<and> dw_skip (cmd_sync_states [3] [9] stale_office) 9 = None"
proof -
  have "\<forall>k. ms_state (dw_store stale_office) k \<noteq> None \<longrightarrow> 0 \<le> k \<and> k \<in> set [3]" "\<forall>k. dw_skip stale_office k \<noteq> None \<longrightarrow> 0 \<le> k \<and> k \<in> set [9]"
    by (auto simp: stale_office_def split: if_splits)
  note t = sync_leaves_truth [OF this, unfolded Let_def]
  let ?w = "cmd_sync_states [3] [9] stale_office"
  have none: "get_active_match 3 (dw_db stale_office) = None" "by_key mh_id 9 (matches (dw_db stale_office)) = None"
    by (simp_all add: stale_office_def office_def get_active_match_def first_where_def by_key_def new_match_def in_match_def)
  have "speaks_of_match u" if "ms_state (dw_store stale_office) 3 = Some u" for u
    using that by (auto simp: stale_office_def speaks_of_match_def)
  with t none have "ms_state (dw_store ?w) 3 \<noteq> Some u" for u by (metis option.distinct(1))
  moreover from t none have "dw_skip ?w 9 = None" by (metis option.distinct(1))
  ultimately show ?thesis by (metis option.exhaust)
qed

theorem half_an_age_raises_witness:
  "pbroadcast_audience (pbroadcast_get_filter (lit ''age='' @ py_str 20 @ [45] @ [])) demo_db = None"
proof -
  have "py_int [] = None" by (simp add: py_int_def strip_def)
  then show ?thesis using half_an_age_raises [OF py_int_str [of 20], of "[]" demo_db] by (simp add: typed_digits is_space_def)
qed

end
