(* ===== verification/TransferDialog.thy ===== *)
theory TransferDialog
  imports Transfers Onboarding
begin

text \<open>
  The dialogue of a coin transfer (\<open>bot/handlers/transfer.py\<close>): from a profile's button or a typed id
  to the amount, the confirmation and the return to whatever dialogue the user came from.  The
  transfer itself is theory Transfers.  Redis keeps the token of the sender's profile; it is not
  modelled.
\<close>

section \<open>Leaving and coming back\<close>

definition WAITING_AMOUNT :: string where "WAITING_AMOUNT = ''CoinTransferStates:waiting_for_amount''"
definition CONFIRMING :: string where "CONFIRMING = ''CoinTransferStates:confirming''"
definition WAITING_TARGET :: string where "WAITING_TARGET = ''ManualTransferStates:waiting_for_target_id''"

definition CHAT_METADATA_KEYS :: "string list" where
  "CHAT_METADATA_KEYS = [''partner_id'', ''match_history_id'', ''partner_tg_id'', ''match_type'', ''chat_started_at'', ''chat_role'']"

definition PREV_KEY :: string where "PREV_KEY = ''__transfer_prev_state__''"
definition SNAPSHOT_KEY :: string where "SNAPSHOT_KEY = ''__transfer_chat_meta_snapshot__''"

definition TRANSFER_TEMP_KEYS :: "string list" where
  "TRANSFER_TEMP_KEYS = [''target_id'', ''target_name'', ''amount'', ''sender_tg_id'', PREV_KEY, SNAPSHOT_KEY]"

definition TRANSFER_STATES :: "string list" where
  "TRANSFER_STATES = [WAITING_AMOUNT, CONFIRMING]"

definition chat_meta :: "(string \<rightharpoonup> fval) \<Rightarrow> (string \<times> fval) list" where
  "chat_meta m = [(k, v). k \<leftarrow> CHAT_METADATA_KEYS, v \<leftarrow> (case m k of None \<Rightarrow> [] | Some v \<Rightarrow> [v])]"

definition preserve_transfer :: "fsm \<Rightarrow> fsm" where
  "preserve_transfer c = c\<lparr>fsm_data := (fsm_data c)(PREV_KEY := map_option FStr (fsm_state c),
     SNAPSHOT_KEY \<mapsto> FDict (chat_meta (fsm_data c)))\<rparr>"

definition drop_keys :: "string list \<Rightarrow> (string \<rightharpoonup> fval) \<Rightarrow> string \<rightharpoonup> fval" where
  "drop_keys ks m = fold (\<lambda>k m. m(k := None)) ks m"

definition fill_missing :: "(string \<times> fval) list \<Rightarrow> (string \<rightharpoonup> fval) \<Rightarrow> string \<rightharpoonup> fval" where
  "fill_missing kvs m = fold (\<lambda>(k, v) m. if m k = None then m(k \<mapsto> v) else m) kvs m"

definition snapshot_of :: "fsm \<Rightarrow> (string \<times> fval) list" where
  "snapshot_of c = (case fsm_data c SNAPSHOT_KEY of Some (FDict kvs) \<Rightarrow> kvs | _ \<Rightarrow> [])"

definition restore_transfer :: "int \<Rightarrow> dworld \<Rightarrow> dworld \<times> string option" where
  "restore_transfer tg w =
     (let c = dw_fsm w tg;
          previous = fsm_str PREV_KEY c;
          data = fill_missing (snapshot_of c) (drop_keys TRANSFER_TEMP_KEYS (fsm_data c))
      in if pipeline_state previous \<and> get_active_match tg (dw_db w) = None then (leave tg w, None)
         else let p = (if previous \<noteq> None \<and> the previous \<in> set TRANSFER_STATES then None else previous)
              in (on_fsm tg (\<lambda>_. \<lparr>fsm_state = (if truthy p then p else None), fsm_data = data\<rparr>) w, p))"

definition was_in_anonymous_chat :: "string option \<Rightarrow> fsm \<Rightarrow> bool" where
  "was_in_anonymous_chat prev c = (prev = Some CHAT_ACTIVE \<or>
     nonzero (fsm_int ''partner_id'' c) \<or> nonzero (fsm_int ''match_history_id'' c))"

section \<open>The amount\<close>

definition MAX_TRANSFER :: int where
  "MAX_TRANSFER = 1000"

datatype amount_error = AskInteger | NotDigits | TooLong | InvalidNumber | NotPositive | OverCap

definition parse_and_validate_amount :: "ustr option \<Rightarrow> amount_error + int" where
  "parse_and_validate_amount raw =
     (if raw = None \<or> strip (the raw) = [] then Inl AskInteger
      else let normalized = normalize_digits (strip (the raw)) in
      if \<not> isdigit normalized then Inl NotDigits
      else if length normalized > 15 then Inl TooLong
      else case py_int normalized of
             None \<Rightarrow> Inl InvalidNumber
           | Some amount \<Rightarrow> if amount \<le> 0 then Inl NotPositive
               else if amount > MAX_TRANSFER then Inl OverCap
               else Inr amount)"

section \<open>The steps\<close>

datatype transfer_step = Elsewhere | BadTarget | ToSelf | ToBlocked | TargetGone | SenderGone | AskAmount | AskTarget
  | EmptyTarget | BadAmount amount_error | Poor int | AskConfirm int int | Left bool | Executed transfer_reply bool
  | NotForState | StepRaised

definition user_fallback :: ustr where "user_fallback = [1705, 1575, 1585, 1576, 1585]"
definition friend_fallback :: ustr where "friend_fallback = [1583, 1608, 1587, 1578, 1578]"

definition aim :: "int \<Rightarrow> user \<Rightarrow> ustr \<Rightarrow> dworld \<Rightarrow> dworld" where
  "aim tg target fallback = on_fsm tg (\<lambda>c. update_data ''sender_tg_id'' (FInt tg)
     (update_data ''target_name'' (FStr (if u_first_name target = [] then utf8 fallback else u_first_name target))
       (update_data ''target_id'' (FInt (u_tg_id target)) (set_state (Some WAITING_AMOUNT) c))))"

definition blocked_either :: "int \<Rightarrow> int \<Rightarrow> db \<Rightarrow> session_error + bool" where
  "blocked_either a b d = (case scalar_one_or_none (sel_where (block_between a b) (blocks d)) of
     Inl e \<Rightarrow> Inl e | Inr r \<Rightarrow> Inr (r \<noteq> None))"

definition start_coin_transfer :: "int \<Rightarrow> ustr \<Rightarrow> dworld \<Rightarrow> dworld \<times> transfer_step" where
  "start_coin_transfer tg suffix w =
     (if get_active_match tg (dw_db w) \<noteq> None then (w, Elsewhere)
      else if \<not> isdigit suffix then (w, BadTarget)
      else case py_int suffix of
        None \<Rightarrow> (w, StepRaised)
      | Some target \<Rightarrow>
          if target = tg then (w, ToSelf)
          else (case blocked_either tg target (dw_db w) of
            Inl e \<Rightarrow> (w, StepRaised)
          | Inr True \<Rightarrow> (w, ToBlocked)
          | Inr False \<Rightarrow>
              (case get_user (dw_db w) target of
                 None \<Rightarrow> (w, TargetGone)
               | Some u \<Rightarrow> if get_user (dw_db w) tg = None then (w, SenderGone)
                   else (aim tg u user_fallback (on_fsm tg preserve_transfer w), AskAmount))))"

definition leave_transfer :: "int \<Rightarrow> dworld \<Rightarrow> dworld \<times> transfer_step" where
  "leave_transfer tg w = (let (w1, prev) = restore_transfer tg w in (w1, Left (was_in_anonymous_chat prev (dw_fsm w1 tg))))"

text \<open>Without a target the code calls \<open>_restore_previous_state\<close> with two arguments missing.\<close>

definition receive_transfer_amount :: "int \<Rightarrow> ustr option \<Rightarrow> dworld \<Rightarrow> dworld \<times> transfer_step" where
  "receive_transfer_amount tg t w =
     (if t = Some (btn ''CANCEL'') then leave_transfer tg w
      else case parse_and_validate_amount t of
        Inl e \<Rightarrow> (w, BadAmount e)
      | Inr amount \<Rightarrow>
          let balance = (case get_user (dw_db w) tg of None \<Rightarrow> 0 | Some u \<Rightarrow> u_coin_balance u) in
          if get_user (dw_db w) tg = None \<or> balance < amount then (w, Poor balance)
          else let target = fsm_int ''target_id'' (dw_fsm w tg) in
          if \<not> nonzero target then (w, StepRaised)
          else (on_fsm tg (\<lambda>c. set_state (Some CONFIRMING) (update_data ''amount'' (FInt amount) c)) w,
                AskConfirm (the target) amount))"

definition confirm_pressed :: "int \<Rightarrow> dworld \<Rightarrow> dworld \<times> transfer_step" where
  "confirm_pressed tg w =
     (let c = dw_fsm w tg;
          (d, r) = confirm_transfer tg (fsm_int ''target_id'' c) (fsm_int ''amount'' c) (fsm_int ''sender_tg_id'' c) (dw_db w)
      in if r = Unauthorized then (w, Executed r False)
         else let (w1, prev) = restore_transfer tg (w\<lparr>dw_db := d\<rparr>)
              in (w1, Executed r (was_in_anonymous_chat prev (dw_fsm w1 tg))))"

section \<open>A typed receiver\<close>

definition manual_transfer_start :: "int \<Rightarrow> dworld \<Rightarrow> dworld \<times> transfer_step" where
  "manual_transfer_start tg w =
     (if get_active_match tg (dw_db w) \<noteq> None then (w, Elsewhere)
      else (on_fsm tg (\<lambda>c. set_state (Some WAITING_TARGET) (preserve_transfer c)) w, AskTarget))"

definition clean_public_id :: "ustr option \<Rightarrow> ustr" where
  "clean_public_id t =
     (let raw = strip (case t of None \<Rightarrow> [] | Some s \<Rightarrow> s);
          raw1 = (if starts_with [47] raw then drop 1 raw else raw)
      in strip (remove_word [35] raw1))"

definition typed_target :: "ustr \<Rightarrow> db \<Rightarrow> user option" where
  "typed_target pid d =
     (let pre = lit ''user_'';
          t0 = user_by_public_id pid d;
          t1 = (if t0 = None \<and> starts_with pre pid then user_by_public_id (remove_word pre pid) d else t0)
      in if t1 = None \<and> \<not> starts_with pre pid then user_by_public_id (pre @ pid) d else t1)"

definition manual_transfer_receive_id :: "int \<Rightarrow> ustr option \<Rightarrow> dworld \<Rightarrow> dworld \<times> transfer_step" where
  "manual_transfer_receive_id tg t w =
     (if t = Some (btn ''CANCEL'') then leave_transfer tg w
      else let pid = clean_public_id t in
      if pid = [] then (w, EmptyTarget)
      else case typed_target pid (dw_db w) of
        None \<Rightarrow> (w, TargetGone)
      | Some u \<Rightarrow>
          if u_tg_id u = tg then (w, ToSelf)
          else (case blocked_either tg (u_tg_id u) (dw_db w) of
            Inl e \<Rightarrow> (w, StepRaised)
          | Inr True \<Rightarrow> (w, ToBlocked)
          | Inr False \<Rightarrow> if get_user (dw_db w) tg = None then (aim tg u friend_fallback w, StepRaised)
              else (aim tg u friend_fallback w, AskAmount)))"

section \<open>The dialogue\<close>

text \<open>The cancel button under the question works in every state.\<close>

datatype transfer_event = PressTransfer ustr | PressManual | Typed "ustr option" | PressConfirm | PressCancel

definition transfer_event :: "int \<Rightarrow> transfer_event \<Rightarrow> dworld \<Rightarrow> dworld \<times> transfer_step" where
  "transfer_event tg e w = (let st = fsm_state (dw_fsm w tg) in case e of
     PressTransfer suffix \<Rightarrow> start_coin_transfer tg suffix w
   | PressManual \<Rightarrow> manual_transfer_start tg w
   | Typed t \<Rightarrow> if st = Some WAITING_AMOUNT then receive_transfer_amount tg t w
       else if st = Some WAITING_TARGET then manual_transfer_receive_id tg t w
       else if st = Some CONFIRMING \<and> t = Some (btn ''CANCEL'') then leave_transfer tg w
       else (w, NotForState)
   | PressConfirm \<Rightarrow> if st = Some CONFIRMING then confirm_pressed tg w else (w, NotForState)
   | PressCancel \<Rightarrow> leave_transfer tg w)"

text \<open>A user's events in turn; between two of them the others may change the database.\<close>

definition transfer_run :: "int \<Rightarrow> ((db \<Rightarrow> db) \<times> transfer_event) list \<Rightarrow> dworld \<Rightarrow> dworld" where
  "transfer_run tg es w = fold (\<lambda>(others, e) w. fst (transfer_event tg e (on_db others w))) es w"

section \<open>What a dialogue remembers\<close>

lemmas transfer_states = WAITING_AMOUNT_def CONFIRMING_def WAITING_TARGET_def

lemma transfer_states_distinct [simp]:
  "WAITING_AMOUNT \<noteq> CONFIRMING" "CONFIRMING \<noteq> WAITING_AMOUNT" "WAITING_TARGET \<noteq> WAITING_AMOUNT"
  "WAITING_AMOUNT \<noteq> WAITING_TARGET" "WAITING_TARGET \<noteq> CONFIRMING" "CONFIRMING \<noteq> WAITING_TARGET"
  by (simp_all add: transfer_states)

lemma in_transfer_states: "s \<in> set TRANSFER_STATES \<longleftrightarrow> s = WAITING_AMOUNT \<or> s = CONFIRMING"
  by (auto simp: TRANSFER_STATES_def)

text \<open>In the last two states the sender is who started, the receiver somebody else, and the
  amount of a confirmation one to a thousand.\<close>

definition transfer_ready :: "int \<Rightarrow> fsm \<Rightarrow> bool" where
  "transfer_ready tg c \<longleftrightarrow>
     (fsm_state c = Some WAITING_AMOUNT \<or> fsm_state c = Some CONFIRMING \<longrightarrow>
       fsm_int ''sender_tg_id'' c = Some tg \<and> fsm_int ''target_id'' c \<noteq> Some tg) \<and>
     (fsm_state c = Some CONFIRMING \<longrightarrow>
       (\<exists>n. fsm_int ''amount'' c = Some n \<and> 1 \<le> n \<and> n \<le> MAX_TRANSFER))"

lemma on_fsm_view [simp]:
  "dw_fsm (on_fsm tg f w) tg = f (dw_fsm w tg)" "dw_db (on_fsm tg f w) = dw_db w"
  by (simp_all add: on_fsm_def)

lemma on_fsm_other [simp]: "k \<noteq> tg \<Longrightarrow> dw_fsm (on_fsm tg f w) k = dw_fsm w k"
  by (simp add: on_fsm_def)

lemma on_db_view [simp]: "dw_fsm (on_db f w) = dw_fsm w" "dw_db (on_db f w) = f (dw_db w)"
  by (simp_all add: on_db_def)

lemma fsm_int_frame [simp]:
  "fsm_int k (set_state s c) = fsm_int k c" "fsm_state (set_state s c) = s"
  "fsm_int k (update_data k' v c) = (if k = k' then (case v of FInt i \<Rightarrow> Some i | _ \<Rightarrow> None) else fsm_int k c)"
  "fsm_state (update_data k' v c) = fsm_state c" "fsm_data (set_state s c) = fsm_data c"
  "fsm_data (update_data k' v c) = (fsm_data c)(k' \<mapsto> v)"
  by (simp_all add: fsm_int_def set_state_def update_data_def)

lemma amount_bounds: "parse_and_validate_amount t = Inr n \<Longrightarrow> 1 \<le> n \<and> n \<le> MAX_TRANSFER"
  by (auto simp: parse_and_validate_amount_def Let_def split: if_splits option.splits)

lemma ready_aim: "u_tg_id u \<noteq> tg \<Longrightarrow> transfer_ready tg (dw_fsm (aim tg u fb w) tg)"
  by (simp add: transfer_ready_def aim_def)

lemma ready_preserve: "fsm_state (preserve_transfer c) = fsm_state c"
  by (simp add: preserve_transfer_def)

lemma restore_ready:
  "transfer_ready tg (dw_fsm (fst (restore_transfer tg w)) tg)"
  by (auto simp: restore_transfer_def Let_def transfer_ready_def leave_def clear_fsm_def in_transfer_states)

lemma restore_db [simp]: "dw_db (fst (restore_transfer tg w)) = dw_db w"
  by (simp add: restore_transfer_def Let_def leave_def)

lemma leave_transfer_view [simp]: "fst (leave_transfer tg w) = fst (restore_transfer tg w)"
  by (simp add: leave_transfer_def split: prod.split)

lemma ready_step:
  assumes "transfer_ready tg (dw_fsm w tg)"
  shows "transfer_ready tg (dw_fsm (fst (transfer_event tg e w)) tg)"
proof (cases e)
  case (PressTransfer s)
  then show ?thesis
    using assms ready_aim
    by (auto simp: transfer_event_def start_coin_transfer_def ready_preserve
        dest!: get_user_tg split: option.split sum.split bool.split)
next
  case PressManual
  then show ?thesis using assms
    by (simp add: transfer_event_def manual_transfer_start_def transfer_ready_def)
next
  case (Typed t)
  have "transfer_ready tg (dw_fsm (fst (receive_transfer_amount tg t w)) tg)"
    if "fsm_state (dw_fsm w tg) = Some WAITING_AMOUNT"
    using assms that restore_ready amount_bounds
    by (auto simp: receive_transfer_amount_def Let_def transfer_ready_def [of _ "set_state _ _"]
        transfer_ready_def [of _ "dw_fsm w tg"] split: sum.split)
  moreover have "transfer_ready tg (dw_fsm (fst (manual_transfer_receive_id tg t w)) tg)"
    using assms restore_ready ready_aim
    by (auto simp: manual_transfer_receive_id_def Let_def split: option.split sum.split bool.split)
  ultimately show ?thesis
    using Typed assms restore_ready by (simp add: transfer_event_def Let_def)
next
  case PressConfirm
  then show ?thesis using assms restore_ready
    by (simp add: transfer_event_def confirm_pressed_def Let_def split_def)
next
  case PressCancel
  then show ?thesis using restore_ready by (simp add: transfer_event_def Let_def)
qed

lemma ready_run:
  "transfer_ready tg (dw_fsm w tg) \<Longrightarrow> transfer_ready tg (dw_fsm (transfer_run tg es w) tg)"
proof (induction es arbitrary: w)
  case (Cons oe es)
  then show ?case
    using ready_step [of tg "on_db (fst oe) w" "snd oe"]
    by (simp add: transfer_run_def split_def)
qed (simp add: transfer_run_def)

lemma typed_db:
  "dw_db (fst (receive_transfer_amount tg t w)) = dw_db w"
  "dw_db (fst (manual_transfer_receive_id tg t w)) = dw_db w"
  by (simp_all add: receive_transfer_amount_def manual_transfer_receive_id_def aim_def Let_def
      split: option.split sum.split bool.split)

lemma unauthorized_keeps: "snd (confirm_transfer c t n s d) = Unauthorized \<Longrightarrow> fst (confirm_transfer c t n s d) = d"
  using confirm_success [of c t n s d _ Unauthorized 0, OF prod_eqI] by auto

lemma confirm_event:
  assumes "e = PressConfirm" and "fsm_state (dw_fsm w tg) = Some CONFIRMING"
  shows "dw_db (fst (transfer_event tg e w)) =
    fst (confirm_transfer tg (fsm_int ''target_id'' (dw_fsm w tg)) (fsm_int ''amount'' (dw_fsm w tg))
      (fsm_int ''sender_tg_id'' (dw_fsm w tg)) (dw_db w))"
  using assms unauthorized_keeps by (simp add: transfer_event_def confirm_pressed_def Let_def split_def)

lemma other_events:
  assumes "\<not> (e = PressConfirm \<and> fsm_state (dw_fsm w tg) = Some CONFIRMING)"
  shows "dw_db (fst (transfer_event tg e w)) = dw_db w"
  using assms
  by (cases e) (auto simp: transfer_event_def Let_def typed_db start_coin_transfer_def manual_transfer_start_def
      aim_def split: option.split sum.split bool.split)

text \<open>C10: Whatever a user presses and types in the transfer dialogue, in whatever order, and
  whatever the others do to the database in between, an event leaves every balance as it was or moves
  one to a thousand coins, no more than the user owns, from the user to somebody else, with no
  block between the two.\<close>

theorem transfer_dialogue_moves:
  fixes tg :: int and w :: dworld
  assumes "transfer_ready tg (dw_fsm w tg)"
  shows "let w1 = transfer_run tg es w; d = dw_db w1; d' = dw_db (fst (transfer_event tg e w1))
    in d' = d \<or> (\<exists>b n. 1 \<le> n \<and> n \<le> MAX_TRANSFER \<and> n \<le> coin_balance d tg \<and> b \<noteq> tg \<and>
         sel_where (block_between tg b) (blocks d) = [] \<and>
         (\<forall>k. coin_balance d' k = coin_balance d k + (if k = b then n else 0) - (if k = tg then n else 0)))"
proof -
  define w1 where "w1 = transfer_run tg es w"
  define d where "d = dw_db w1"
  define d' where "d' = dw_db (fst (transfer_event tg e w1))"
  define c where "c = dw_fsm w1 tg"
  have r: "transfer_ready tg c" using ready_run [OF assms] by (simp add: c_def w1_def)
  have "\<exists>b n. 1 \<le> n \<and> n \<le> MAX_TRANSFER \<and> n \<le> coin_balance d tg \<and> b \<noteq> tg \<and>
         sel_where (block_between tg b) (blocks d) = [] \<and>
         (\<forall>k. coin_balance d' k = coin_balance d k + (if k = b then n else 0) - (if k = tg then n else 0))"
    if ne: "d' \<noteq> d"
  proof -
    have e: "e = PressConfirm" "fsm_state c = Some CONFIRMING"
      using ne other_events [of e w1 tg] by (auto simp: d_def d'_def c_def)
    obtain rep where cf: "confirm_transfer tg (fsm_int ''target_id'' c) (fsm_int ''amount'' c)
        (fsm_int ''sender_tg_id'' c) d = (d', rep)"
      using confirm_event [of e w1 tg] e by (auto simp: d_def d'_def c_def prod_eq_iff)
    from confirm_success [OF cf disjI1, OF ne] obtain b n ub ua where
      f: "fsm_int ''amount'' c = Some n" "tg \<noteq> b" "get_user d tg = Some ua" "get_user d b = Some ub"
        "sel_where (block_between tg b) (blocks d) = []" "n \<le> u_coin_balance ua" and
      d': "d' = upd_user b (\<lambda>u. u\<lparr>u_coin_balance := u_coin_balance ub + n\<rparr>)
             (upd_user tg (\<lambda>u. u\<lparr>u_coin_balance := u_coin_balance ua - n\<rparr>) d)" by blast
    have "1 \<le> n" "n \<le> MAX_TRANSFER" using r e(2) f(1) by (auto simp: transfer_ready_def)
    moreover have "n \<le> coin_balance d tg" using f(3,6) by (simp add: coin_balance_Some)
    ultimately show ?thesis
      using f(2,5) transfer_balances(1) [OF f(2-4), of n, folded d'] by metis
  qed
  then show ?thesis unfolding Let_def d_def d'_def w1_def by blast
qed

section \<open>Cancelling\<close>

lemma drop_keys_apply: "drop_keys ks m k = (if k \<in> set ks then None else m k)"
  by (induction ks arbitrary: m) (simp_all add: drop_keys_def)

lemma fill_missing_id: "(\<forall>(k, v)\<in>set kvs. m k = Some v) \<Longrightarrow> fill_missing kvs m = m"
  by (induction kvs) (auto simp: fill_missing_def)

lemma chat_meta_of: "(k, v) \<in> set (chat_meta m) \<Longrightarrow> m k = Some v"
  by (auto simp: chat_meta_def split: option.splits)

lemma temp_keys [simp]:
  "''target_id'' \<in> set TRANSFER_TEMP_KEYS" "''target_name'' \<in> set TRANSFER_TEMP_KEYS"
  "''amount'' \<in> set TRANSFER_TEMP_KEYS" "''sender_tg_id'' \<in> set TRANSFER_TEMP_KEYS"
  "PREV_KEY \<in> set TRANSFER_TEMP_KEYS" "SNAPSHOT_KEY \<in> set TRANSFER_TEMP_KEYS"
  by (simp_all add: TRANSFER_TEMP_KEYS_def)

lemma drop_keys_upd [simp]: "k \<in> set ks \<Longrightarrow> drop_keys ks (m(k := v)) = drop_keys ks m"
  by (auto simp: drop_keys_apply fun_eq_iff)

lemma key_names [simp]:
  "PREV_KEY \<noteq> SNAPSHOT_KEY" "SNAPSHOT_KEY \<noteq> PREV_KEY"
  "PREV_KEY \<noteq> ''target_id''" "PREV_KEY \<noteq> ''target_name''" "PREV_KEY \<noteq> ''amount''" "PREV_KEY \<noteq> ''sender_tg_id''"
  "SNAPSHOT_KEY \<noteq> ''target_id''" "SNAPSHOT_KEY \<noteq> ''target_name''" "SNAPSHOT_KEY \<noteq> ''amount''"
  "SNAPSHOT_KEY \<noteq> ''sender_tg_id''"
  by (simp_all add: PREV_KEY_def SNAPSHOT_KEY_def)

text \<open>A dialogue that came from the context \<open>c\<close>, and the contexts a dialogue can return to.\<close>

definition came_from :: "fsm \<Rightarrow> fsm \<Rightarrow> bool" where
  "came_from c c' \<longleftrightarrow> fsm_state c' \<in> {Some WAITING_AMOUNT, Some CONFIRMING, Some WAITING_TARGET} \<and>
     drop_keys TRANSFER_TEMP_KEYS (fsm_data c') = fsm_data c \<and>
     fsm_data c' PREV_KEY = map_option FStr (fsm_state c) \<and>
     fsm_data c' SNAPSHOT_KEY = Some (FDict (chat_meta (fsm_data c)))"

definition returnable :: "fsm \<Rightarrow> bool" where
  "returnable c \<longleftrightarrow> (\<forall>k\<in>set TRANSFER_TEMP_KEYS. fsm_data c k = None) \<and> fsm_state c \<noteq> Some [] \<and>
     fsm_state c \<noteq> Some WAITING_AMOUNT \<and> fsm_state c \<noteq> Some CONFIRMING \<and> \<not> pipeline_state (fsm_state c)"

lemma restore_came_from:
  assumes "returnable c" and "came_from c (dw_fsm w tg)"
  shows "dw_fsm (fst (restore_transfer tg w)) tg = c"
proof -
  have p: "fsm_str PREV_KEY (dw_fsm w tg) = fsm_state c"
    using assms(2) by (cases "fsm_state c") (simp_all add: came_from_def fsm_str_def)
  have "fill_missing (snapshot_of (dw_fsm w tg)) (drop_keys TRANSFER_TEMP_KEYS (fsm_data (dw_fsm w tg))) = fsm_data c"
    using assms(2) by (auto simp: came_from_def snapshot_of_def dest: chat_meta_of intro: fill_missing_id)
  then show ?thesis
    using assms(1) p
    by (cases "fsm_state c") (auto simp: restore_transfer_def returnable_def in_transfer_states Let_def)
qed

lemma came_from_preserve:
  assumes "returnable c"
  shows "came_from c (set_state (Some WAITING_TARGET) (preserve_transfer c))"
    and "came_from c (update_data ''sender_tg_id'' v1 (update_data ''target_name'' v2
      (update_data ''target_id'' v3 (set_state (Some WAITING_AMOUNT) (preserve_transfer c)))))"
  using assms
  by (auto simp: came_from_def preserve_transfer_def returnable_def drop_keys_apply fun_eq_iff)

lemma came_from_aim: "came_from c (dw_fsm w tg) \<Longrightarrow> came_from c (dw_fsm (aim tg u fb w) tg)"
  by (simp add: came_from_def aim_def)

lemma came_from_typed:
  assumes "came_from c (dw_fsm w tg)" and "t \<noteq> Some (btn ''CANCEL'')"
  shows "came_from c (dw_fsm (fst (transfer_event tg (Typed t) w)) tg)"
proof -
  have "came_from c (dw_fsm (fst (receive_transfer_amount tg t w)) tg)"
    using assms by (auto simp: receive_transfer_amount_def Let_def came_from_def split: sum.split)
  moreover have "came_from c (dw_fsm (fst (manual_transfer_receive_id tg t w)) tg)"
    using assms came_from_aim by (auto simp: manual_transfer_receive_id_def Let_def
      split: option.split sum.split bool.split)
  ultimately show ?thesis using assms by (simp add: transfer_event_def Let_def)
qed

lemma came_from_messages:
  "came_from c (dw_fsm w tg) \<Longrightarrow> Some (btn ''CANCEL'') \<notin> snd ` set ts \<Longrightarrow>
    came_from c (dw_fsm (transfer_run tg (map (\<lambda>(others, t). (others, Typed t)) ts) w) tg)"
proof (induction ts arbitrary: w)
  case (Cons ot ts)
  have "came_from c (dw_fsm (fst (transfer_event tg (Typed (snd ot)) (on_db (fst ot) w))) tg)"
    using Cons.prems by (intro came_from_typed) auto
  from Cons.IH [OF this] Cons.prems show ?case by (simp add: transfer_run_def split_def)
qed (simp add: transfer_run_def)

text \<open>Opening a transfer, from a profile or from the coins menu, and cancelling it after any
  messages, with the button or with the keyboard, puts the user's dialogue back: the same state
  and the same data, whatever the others do meanwhile.\<close>

theorem transfer_cancel_restores:
  fixes tg :: int and w :: dworld
  assumes opens: "e = PressManual \<or> (\<exists>suffix. e = PressTransfer suffix)"
    and asked: "snd (transfer_event tg e w) \<in> {AskAmount, AskTarget}"
    and plain: "returnable (dw_fsm w tg)"
    and msgs: "Some (btn ''CANCEL'') \<notin> snd ` set ts"
    and cancels: "stop = PressCancel \<or> stop = Typed (Some (btn ''CANCEL''))"
  shows "dw_fsm (transfer_run tg (((id, e) # map (\<lambda>(others, t). (others, Typed t)) ts) @ [(others, stop)]) w) tg
    = dw_fsm w tg"
proof -
  define w1 where "w1 = fst (transfer_event tg e w)"
  have "came_from (dw_fsm w tg) (dw_fsm w1 tg)"
    using opens asked came_from_preserve [OF plain]
    by (auto simp: w1_def transfer_event_def start_coin_transfer_def manual_transfer_start_def aim_def Let_def
        split: if_splits option.splits sum.splits bool.splits)
  note k = came_from_messages [OF this msgs]
  define w2 where "w2 = on_db others (transfer_run tg (map (\<lambda>(others, t). (others, Typed t)) ts) w1)"
  have k2: "came_from (dw_fsm w tg) (dw_fsm w2 tg)" using k by (simp add: w2_def)
  have "fst (transfer_event tg stop w2) = fst (restore_transfer tg w2)"
    using cancels k2
    by (auto simp: transfer_event_def receive_transfer_amount_def manual_transfer_receive_id_def came_from_def)
  moreover have "transfer_run tg (((id, e) # map (\<lambda>(others, t). (others, Typed t)) ts) @ [(others, stop)]) w
      = fst (transfer_event tg stop w2)"
    by (simp add: transfer_run_def w2_def w1_def on_db_def)
  ultimately show ?thesis using restore_came_from [OF plain k2] by simp
qed

section \<open>What may be typed\<close>

lemma typed_chars:
  assumes "c \<in> set (persian (py_str n)) \<union> set (arabic (py_str n)) \<union> set (py_str n)"
  shows "\<not> is_space c"
proof -
  consider "c = 45" | d where "d < 10" "c \<in> {48 + d, 1776 + d, 1632 + d}"
    using assms by (auto simp: persian_def arabic_def dest!: py_str_chars)
  then show ?thesis by cases (auto simp: is_space_def)
qed

lemma py_str_isdigit: "isdigit (py_str n) \<longleftrightarrow> 0 \<le> n"
proof -
  have "digit_val 45 = None" by (simp add: digit_val_def nd_zeros_def)
  then have "\<not> is_digit_char 45" by (simp add: is_digit_char_def other_digits_def)
  then show ?thesis using nat_str_isdigit by (auto simp: py_str_def isdigit_def)
qed

text \<open>A number typed with Persian, Arabic or Latin digits is taken as the amount when it is
  between one and the cap; a negative one is refused as not a number, zero as not positive, and a
  larger one as over the cap or, from sixteen digits on, as too long.\<close>

theorem typed_amount:
  fixes n :: int
  shows "\<forall>t\<in>{persian (py_str n), arabic (py_str n), py_str n}.
    parse_and_validate_amount (Some t) =
      (if n < 0 then Inl NotDigits else if 15 < length (py_str n) then Inl TooLong
       else if n = 0 then Inl NotPositive else if MAX_TRANSFER < n then Inl OverCap else Inr n)"
proof
  fix t assume t: "t \<in> {persian (py_str n), arabic (py_str n), py_str n}"
  then have "strip t = t" using typed_chars by (intro strip_id) auto
  moreover have "normalize_digits t = py_str n" using t normalize_persian py_str_chars by blast
  moreover have "t \<noteq> []" using t py_str_nonempty [of n] by (auto simp: persian_def arabic_def simp del: py_str_nonempty)
  ultimately show "parse_and_validate_amount (Some t) =
      (if n < 0 then Inl NotDigits else if 15 < length (py_str n) then Inl TooLong
       else if n = 0 then Inl NotPositive else if MAX_TRANSFER < n then Inl OverCap else Inr n)"
    by (simp add: parse_and_validate_amount_def py_str_isdigit py_int_str)
qed

definition id_word :: "ustr \<Rightarrow> bool" where
  "id_word y \<longleftrightarrow> y \<noteq> [] \<and> (\<forall>c\<in>set y. \<not> is_space c \<and> c \<noteq> 35 \<and> c \<noteq> 47)"

lemma strip_around:
  assumes "\<forall>c\<in>set sp1 \<union> set sp2. is_space c" and "\<forall>c\<in>set s. \<not> is_space c" and "s \<noteq> []"
  shows "strip (sp1 @ s @ sp2) = s"
proof -
  have "dropWhile is_space (sp1 @ s @ sp2) = s @ sp2"
    using assms by (cases s) (auto simp: dropWhile_append)
  moreover have "dropWhile is_space (rev sp2 @ rev s) = rev s"
    using assms by (cases "rev s") (auto simp: dropWhile_append)
  ultimately show ?thesis by (simp add: strip_def)
qed

lemma clean_typed:
  assumes y: "id_word y" and sp: "\<forall>c\<in>set sp1 \<union> set sp2. is_space c" and m: "m \<in> {[], [47], [35], [47, 35]}"
  shows "clean_public_id (Some (sp1 @ (m @ y) @ sp2)) = y"
proof -
  have sl: "\<not> is_space 47" "\<not> is_space 35" by (simp_all add: is_space_def)
  have st: "strip (sp1 @ (m @ y) @ sp2) = m @ y"
    using y m sl by (intro strip_around sp) (auto simp: id_word_def)
  have f: "filter (\<lambda>c. c \<noteq> 35) y = y" "strip y = y" "\<not> starts_with [47] y"
    using y by (auto simp: id_word_def filter_id_conv strip_id starts_with_def neq_Nil_conv)
  have h: "\<not> starts_with [47] (35 # y)" "starts_with [47] (47 # s)" for s :: ustr
    by (simp_all add: starts_with_def)
  show ?thesis using m unfolding clean_public_id_def option.case st Let_def
    by (elim insertE) (simp_all add: remove_char f h del: remove_word.simps)
qed

text \<open>A receiver is found by the profile's id however it is copied: with the prefix or without,
  with a slash or a number sign before it, with spaces around it.\<close>

theorem typed_id_finds:
  assumes found: "user_by_public_id (lit ''user_'' @ x) d = Some u"
    and free: "user_by_public_id x d = None"
    and word: "id_word x" "\<not> starts_with (lit ''user_'') x"
    and mark: "m \<in> {[], [47], [35], [47, 35]}" and sp: "\<forall>c\<in>set sp1 \<union> set sp2. is_space c"
  shows "typed_target (clean_public_id (Some (sp1 @ (m @ x) @ sp2))) d = Some u \<and>
    typed_target (clean_public_id (Some (sp1 @ (m @ lit ''user_'' @ x) @ sp2))) d = Some u"
proof -
  have "\<forall>c\<in>set (lit ''user_''). \<not> is_space c \<and> c \<noteq> 35 \<and> c \<noteq> 47"
    by (simp add: lit_def is_space_def)
  then have idw: "id_word (lit ''user_'' @ x)" using word(1) by (auto simp: id_word_def)
  have "starts_with (lit ''user_'') (lit ''user_'' @ x)" by (simp add: starts_with_def)
  then show ?thesis unfolding clean_typed [OF word(1) sp mark] clean_typed [OF idw sp mark]
    using found free word(2) by (simp add: typed_target_def Let_def)
qed

text \<open>The cancel button of an old question works in every state: it takes a user who is in
  another dialogue out of it, a date's questionnaire included, and drops that dialogue's receiver and amount.\<close>

theorem stale_cancel_leaves_dialogue:
  assumes "fsm_data (dw_fsm w tg) PREV_KEY = None" and "fsm_data (dw_fsm w tg) SNAPSHOT_KEY = None"
  shows "let (w1, r) = transfer_event tg PressCancel w in fsm_state (dw_fsm w1 tg) = None \<and> dw_db w1 = dw_db w \<and>
    fsm_data (dw_fsm w1 tg) = drop_keys TRANSFER_TEMP_KEYS (fsm_data (dw_fsm w tg)) \<and>
    (\<forall>k. k \<noteq> tg \<longrightarrow> dw_fsm w1 k = dw_fsm w k)"
proof -
  have "fsm_str PREV_KEY (dw_fsm w tg) = None" "snapshot_of (dw_fsm w tg) = []"
    using assms by (simp_all add: fsm_str_def snapshot_of_def)
  then show ?thesis
    by (simp add: transfer_event_def leave_transfer_def restore_transfer_def Let_def fill_missing_def
        pipeline_state_def)
qed

section \<open>Witnesses\<close>

definition quiet_world :: dworld where
  "quiet_world = free_date\<lparr>dw_db := demo_db\<rparr>"

lemma quiet_world_view [simp]:
  "dw_db quiet_world = demo_db" "fsm_state (dw_fsm quiet_world k) = None" "fsm_data (dw_fsm quiet_world k) = Map.empty"
  by (simp_all add: quiet_world_def free_date_def)

theorem transfer_dialogue_moves_witness:
  "\<forall>es e. let w1 = transfer_run 1 es quiet_world; d = dw_db w1; d' = dw_db (fst (transfer_event 1 e w1))
    in d' = d \<or> (\<exists>b n. 1 \<le> n \<and> n \<le> MAX_TRANSFER \<and> n \<le> coin_balance d 1 \<and> b \<noteq> 1 \<and>
         sel_where (block_between 1 b) (blocks d) = [] \<and>
         (\<forall>k. coin_balance d' k = coin_balance d k + (if k = b then n else 0) - (if k = 1 then n else 0)))"
proof -
  have "transfer_ready 1 (dw_fsm quiet_world 1)" by (simp add: transfer_ready_def)
  from transfer_dialogue_moves [OF this] show ?thesis by blast
qed

lemma quiet_opens: "snd (transfer_event 1 PressManual quiet_world) = AskTarget"
  by (simp add: transfer_event_def manual_transfer_start_def get_active_match_def first_where_def demo_db_def
      empty_db_def empty_tbl_def)

theorem transfer_cancel_restores_witness:
  "dw_fsm (transfer_run 1 [(id, PressManual), (id, Typed (Some [47, 98])), (id, PressCancel)] quiet_world) 1 =
    dw_fsm quiet_world 1"
proof -
  have "returnable (dw_fsm quiet_world 1)" by (simp add: returnable_def pipeline_state_def)
  moreover have "Some (btn ''CANCEL'') \<notin> snd ` set [(id :: db \<Rightarrow> db, Some [47, 98])]" by (simp add: btn_def ReplyBtn_def)
  ultimately show ?thesis
    using transfer_cancel_restores [of PressManual 1 quiet_world "[(id, Some [47, 98])]" PressCancel id]
    by (simp add: quiet_opens)
qed

theorem typed_id_finds_witness:
  "typed_target (clean_public_id (Some ([32] @ ([47] @ lit ''bbbbbb'') @ [10]))) demo_db = Some bob"
proof -
  have "utf8 (lit ''user_'' @ lit ''bbbbbb'') = ''user_bbbbbb''" "utf8 (lit ''bbbbbb'') = ''bbbbbb''"
    by code_simp+
  then have "user_by_public_id (lit ''user_'' @ lit ''bbbbbb'') demo_db = Some bob"
    "user_by_public_id (lit ''bbbbbb'') demo_db = None"
    by (simp_all add: user_by_public_id_def first_where_def)
  moreover have "id_word (lit ''bbbbbb'')" "\<not> starts_with (lit ''user_'') (lit ''bbbbbb'')"
    by (simp_all add: id_word_def starts_with_def lit_def is_space_def)
  moreover have "\<forall>c\<in>set [32] \<union> set [10]. is_space c" by (simp add: is_space_def)
  ultimately show ?thesis using typed_id_finds [of "lit ''bbbbbb''" demo_db bob "[47]" "[32]" "[10]"] by simp
qed

theorem stale_cancel_leaves_dialogue_witness:
  "fsm_state (dw_fsm (fst (transfer_event 1 PressCancel
     (on_fsm 1 (set_state (Some ANSWERING)) quiet_world))) 1) = None"
  using stale_cancel_leaves_dialogue [of "on_fsm 1 (set_state (Some ANSWERING)) quiet_world" 1]
  by (simp add: split_def Let_def)

end
