(* ===== verification/GiftDialog.thy ===== *)
theory GiftDialog
  imports TransferDialog Gifts
begin

text \<open>
  The gift menus (\<open>bot/handlers/gifts.py\<close>): buying, sending and selling gifts, from the menu, from a
  profile or in the middle of a date.  A dialogue of gifts keeps the dialogue it interrupts, all of its data
  included, and gives it back at the end.  The texts and the message to the receiver are not modelled.
\<close>

section \<open>The dialogue's frame\<close>

definition CHOOSING_QUANTITY :: string where "CHOOSING_QUANTITY = ''GiftStates:choosing_quantity''"
definition WAITING_RECIPIENT :: string where "WAITING_RECIPIENT = ''GiftStates:waiting_for_recipient''"
definition CONFIRMING_GIFT :: string where "CONFIRMING_GIFT = ''GiftStates:confirming_transfer''"
definition CHOOSING_SELL_GIFT :: string where "CHOOSING_SELL_GIFT = ''GiftStates:choosing_sell_gift''"
definition CHOOSING_SELL_QUANTITY :: string where "CHOOSING_SELL_QUANTITY = ''GiftStates:choosing_sell_quantity''"

definition GIFT_PREV :: string where "GIFT_PREV = ''__gift_prev_state__''"
definition GIFT_META :: string where "GIFT_META = ''__gift_chat_meta_snapshot__''"

definition GIFT_TEMP_KEYS :: "string list" where
  "GIFT_TEMP_KEYS = [''chosen_gift_code'', ''recipient_tg_id'', ''send_code'', ''send_recipient'', GIFT_PREV, GIFT_META]"

definition GIFT_STATES :: "string list" where
  "GIFT_STATES = [CHOOSING_QUANTITY, WAITING_RECIPIENT, CONFIRMING_GIFT]"

definition gift_state :: "fsm \<Rightarrow> bool" where
  "gift_state c \<longleftrightarrow> (case fsm_state c of None \<Rightarrow> False | Some s \<Rightarrow> s \<in> set GIFT_STATES)"

text \<open>\<open>data.items()\<close>: the entries of the data in the order in which they were stored, which the model's
  maps do not keep.  What restores them depends on the entries alone.\<close>

type_synonym items = "(string \<rightharpoonup> fval) \<Rightarrow> (string \<times> fval) list"

definition gift_snapshot :: "items \<Rightarrow> (string \<rightharpoonup> fval) \<Rightarrow> (string \<times> fval) list" where
  "gift_snapshot items m = filter (\<lambda>(k, v). k \<notin> set GIFT_TEMP_KEYS \<and> take 7 k \<noteq> ''__gift_'') (items m)"

definition preserve_gift :: "items \<Rightarrow> fsm \<Rightarrow> fsm" where
  "preserve_gift items c =
     (if gift_state c then c
      else c\<lparr>fsm_data := (fsm_data c)(GIFT_PREV := map_option FStr (fsm_state c),
        GIFT_META \<mapsto> FDict (gift_snapshot items (fsm_data c)))\<rparr>)"

definition gift_snapshot_of :: "fsm \<Rightarrow> (string \<times> fval) list" where
  "gift_snapshot_of c = (case fsm_data c GIFT_META of Some (FDict kvs) \<Rightarrow> kvs | _ \<Rightarrow> [])"

definition restore_gift :: "int \<Rightarrow> dworld \<Rightarrow> dworld \<times> string option" where
  "restore_gift tg w =
     (let c = dw_fsm w tg;
          previous = fsm_str GIFT_PREV c;
          data = fill_missing (gift_snapshot_of c) (drop_keys GIFT_TEMP_KEYS (fsm_data c))
      in if pipeline_state previous \<and> get_active_match tg (dw_db w) = None then (leave tg w, None)
         else let p = (if previous \<noteq> None \<and> the previous \<in> set GIFT_STATES then None else previous)
              in (on_fsm tg (\<lambda>_. \<lparr>fsm_state = (if truthy p then p else None), fsm_data = data\<rparr>) w, p))"

datatype phase = InDatePhase | InChatPhase

definition session_context :: "string option \<Rightarrow> fsm \<Rightarrow> phase option" where
  "session_context prev c =
     (if prev \<noteq> None \<and> ForceJoin.contains ''QuestionnaireStates'' (the prev) then Some InDatePhase
      else if prev \<noteq> None \<and> ForceJoin.contains ''ChatStates'' (the prev) then Some InChatPhase
      else if nonzero (fsm_int ''partner_id'' c) \<or> nonzero (fsm_int ''match_history_id'' c) then Some InChatPhase
      else None)"

section \<open>What the menus show\<close>

type_synonym shelf = "(string \<times> int) list"

definition owned_gifts :: "int \<Rightarrow> db \<Rightarrow> (string \<times> int) list" where
  "owned_gifts tg d = map (\<lambda>(ug, gt). (gt_code gt, ug_quantity ug))
     (filter (\<lambda>(ug, gt). ug_quantity ug > 0) (get_user_inventory tg d))"

definition empty_handed :: "int \<Rightarrow> db \<Rightarrow> bool" where
  "empty_handed tg d = list_all (\<lambda>(ug, gt). ug_quantity ug = 0) (get_user_inventory tg d)"

definition gifts_main_menu :: "int \<Rightarrow> db \<Rightarrow> (string \<times> int) list option" where
  "gifts_main_menu tg d = (case get_user d tg of None \<Rightarrow> None | Some u \<Rightarrow> Some (owned_gifts (u_tg_id u) d))"

definition gift_buy_picker :: "int \<Rightarrow> db \<Rightarrow> (string \<times> int \<times> int) list option" where
  "gift_buy_picker tg d =
     (case get_all_active_gift_types d of
        [] \<Rightarrow> None
      | gts \<Rightarrow> Some (map (\<lambda>gt. (gt_code gt, gt_price_coins gt,
            case get_user_gifts_summary tg d (gt_emoji gt) of None \<Rightarrow> 0 | Some n \<Rightarrow> n)) gts))"

definition gift_inventory_show :: "int \<Rightarrow> db \<Rightarrow> (string \<times> int) list option" where
  "gift_inventory_show tg d = (if empty_handed tg d then None else Some (owned_gifts tg d))"

section \<open>The handlers\<close>

datatype gift_step = GiftElsewhere | GiftBad | GiftSelf | GiftBlocked | GiftRaised | GiftNone | GiftNoMatch
  | AskHowMany string | AskRecipient | AskWhich shelf int | AskSendCount | AskSell shelf | AskSellCount string int int
  | GiftExpired | GiftDone bool gift_reply "phase option" | GiftSentTo bool gift_reply bool | GiftLeft "phase option"

definition active_gift :: "string \<Rightarrow> db \<Rightarrow> gift_type option" where
  "active_gift code d = List.find (\<lambda>gt. gt_code gt = code) (get_all_active_gift_types d)"

definition gift_pick_quantity :: "items \<Rightarrow> int \<Rightarrow> ustr \<Rightarrow> dworld \<Rightarrow> dworld \<times> gift_step" where
  "gift_pick_quantity items tg rest w =
     (let code = remove_word (lit ''gift_pick_'') rest in
      case active_gift (utf8 code) (dw_db w) of
        None \<Rightarrow> (w, GiftBad)
      | Some gt \<Rightarrow> (on_fsm tg (\<lambda>c. set_state (Some CHOOSING_QUANTITY)
            (update_data ''chosen_gift_code'' (FStr (utf8 code)) (preserve_gift items c))) w, AskHowMany (utf8 code)))"

definition finish_gift :: "int \<Rightarrow> bool \<times> gift_reply \<Rightarrow> dworld \<Rightarrow> dworld \<times> gift_step" where
  "finish_gift tg r w = (let (w1, prev) = restore_gift tg w in
     (w1, GiftDone (fst r) (snd r) (session_context prev (dw_fsm w1 tg))))"

text \<open>\<open>rest\<close>: what follows the button's prefix; \<open>ps\<close>: the same split at underscores.\<close>

definition gift_buy_confirm :: "int \<Rightarrow> int \<Rightarrow> ustr list \<Rightarrow> dworld \<Rightarrow> dworld \<times> gift_step" where
  "gift_buy_confirm now tg ps w =
     (case ps of
        code # n # _ \<Rightarrow> (case py_int n of
            None \<Rightarrow> (w, GiftBad)
          | Some qty \<Rightarrow> if qty < 1 \<or> qty > 100 then (w, GiftBad)
              else (case purchase_gift now tg (utf8 code) qty (dw_db w) of
                (d, r) \<Rightarrow> finish_gift tg r (w\<lparr>dw_db := d\<rparr>)))
      | _ \<Rightarrow> (w, GiftBad))"

definition gift_send_prompt :: "items \<Rightarrow> int \<Rightarrow> dworld \<Rightarrow> dworld \<times> gift_step" where
  "gift_send_prompt items tg w =
     (on_fsm tg (\<lambda>c. set_state (Some WAITING_RECIPIENT) (preserve_gift items c)) w, AskRecipient)"

definition aim_gift :: "items \<Rightarrow> int \<Rightarrow> int \<Rightarrow> dworld \<Rightarrow> dworld \<times> gift_step" where
  "aim_gift items tg target w =
     (case blocked_either tg target (dw_db w) of
        Inl e \<Rightarrow> (w, GiftRaised)
      | Inr True \<Rightarrow> (w, GiftBlocked)
      | Inr False \<Rightarrow>
          if empty_handed tg (dw_db w) then (w, GiftNone)
          else (on_fsm tg (\<lambda>c. update_data ''recipient_tg_id'' (FInt target)
                  (set_state (Some WAITING_RECIPIENT) (preserve_gift items c))) w,
                AskWhich (owned_gifts tg (dw_db w)) target))"

definition gift_send_direct :: "items \<Rightarrow> int \<Rightarrow> ustr \<Rightarrow> dworld \<Rightarrow> dworld \<times> gift_step" where
  "gift_send_direct items tg rest w =
     (case py_int (remove_word (lit ''gift_send_direct_'') rest) of
        None \<Rightarrow> (w, GiftBad)
      | Some target \<Rightarrow> if target = tg then (w, GiftSelf) else aim_gift items tg target w)"

definition gift_send_from_chat_or_date :: "items \<Rightarrow> int \<Rightarrow> dworld \<Rightarrow> dworld \<times> gift_step" where
  "gift_send_from_chat_or_date items tg w =
     (case get_active_match tg (dw_db w) of
        None \<Rightarrow> (w, GiftNoMatch)
      | Some m \<Rightarrow> aim_gift items tg (other_of tg m) w)"

text \<open>A message without text has no \<open>strip\<close>.\<close>

definition gift_send_choose_gift :: "int \<Rightarrow> ustr option \<Rightarrow> dworld \<Rightarrow> dworld \<times> gift_step" where
  "gift_send_choose_gift tg t w =
     (case t of
        None \<Rightarrow> (w, GiftRaised)
      | Some s \<Rightarrow> let tag = strip s in
          if \<not> starts_with (lit ''user_'') tag then (w, GiftBad)
          else (case user_by_public_id tag (dw_db w) of
            None \<Rightarrow> (w, GiftBad)
          | Some r \<Rightarrow>
              if u_tg_id r = tg then (w, GiftSelf)
              else if empty_handed tg (dw_db w) then (fst (restore_gift tg w), GiftNone)
              else (on_fsm tg (update_data ''recipient_tg_id'' (FInt (u_tg_id r))) w,
                    AskWhich (owned_gifts tg (dw_db w)) (u_tg_id r))))"

definition gift_send_execute :: "int \<Rightarrow> ustr list \<Rightarrow> dworld \<Rightarrow> dworld \<times> gift_step" where
  "gift_send_execute tg ps w =
     (case ps of
        code # r # _ \<Rightarrow> (case py_int r of
            None \<Rightarrow> (w, GiftBad)
          | Some recipient \<Rightarrow> (on_fsm tg (\<lambda>c. set_state (Some CONFIRMING_GIFT)
                (update_data ''send_recipient'' (FInt recipient) (update_data ''send_code'' (FStr (utf8 code)) c))) w,
              AskSendCount))
      | _ \<Rightarrow> (w, GiftBad))"

definition gift_send_qty_execute :: "int \<Rightarrow> int \<Rightarrow> ustr \<Rightarrow> dworld \<Rightarrow> dworld \<times> gift_step" where
  "gift_send_qty_execute now tg rest w =
     (case py_int (remove_word (lit ''gift_send_qty_'') rest) of
        None \<Rightarrow> (w, GiftBad)
      | Some qty \<Rightarrow>
          let code = fsm_str ''send_code'' (dw_fsm w tg); recipient = fsm_int ''send_recipient'' (dw_fsm w tg) in
          if \<not> truthy code \<or> \<not> nonzero recipient then (fst (restore_gift tg w), GiftExpired)
          else (case transfer_gift now tg (the recipient) (the code) qty (dw_db w) of
            (d, sent, r) \<Rightarrow> (fst (restore_gift tg (w\<lparr>dw_db := d\<rparr>)),
              GiftSentTo sent r (case get_active_match tg d of None \<Rightarrow> False | Some m \<Rightarrow> Some (other_of tg m) = recipient))))"

section \<open>Selling\<close>

definition gift_sell_start_flow :: "items \<Rightarrow> int \<Rightarrow> dworld \<Rightarrow> dworld \<times> gift_step" where
  "gift_sell_start_flow items tg w =
     (if empty_handed tg (dw_db w) then (w, GiftNone)
      else (on_fsm tg (\<lambda>c. set_state (Some CHOOSING_SELL_GIFT) (preserve_gift items c)) w,
            AskSell (owned_gifts tg (dw_db w))))"

definition gift_sell_pick_quantity :: "int \<Rightarrow> ustr \<Rightarrow> dworld \<Rightarrow> dworld \<times> gift_step" where
  "gift_sell_pick_quantity tg rest w =
     (let code = remove_word (lit ''gift_sell_pick_'') rest in
      case List.find (\<lambda>(ug, gt). gt_code gt = utf8 code \<and> ug_quantity ug > 0) (get_user_inventory tg (dw_db w)) of
        None \<Rightarrow> (w, GiftNone)
      | Some (ug, gt) \<Rightarrow> (on_fsm tg (\<lambda>c. set_state (Some CHOOSING_SELL_QUANTITY)
            (update_data ''sell_gift_code'' (FStr (utf8 code)) c)) w,
          AskSellCount (utf8 code) (ug_quantity ug) (gt_price_coins gt * 80 div 100)))"

definition gift_sell_execute :: "int \<Rightarrow> int \<Rightarrow> ustr list \<Rightarrow> dworld \<Rightarrow> dworld \<times> gift_step" where
  "gift_sell_execute now tg ps w =
     (case ps of
        code # n # _ \<Rightarrow> (case py_int n of
            None \<Rightarrow> (w, GiftBad)
          | Some qty \<Rightarrow> (case sell_gift now tg (utf8 code) qty (dw_db w) of
                (d, r) \<Rightarrow> finish_gift tg r (w\<lparr>dw_db := d\<rparr>)))
      | _ \<Rightarrow> (w, GiftBad))"

definition gift_cancel :: "int \<Rightarrow> dworld \<Rightarrow> dworld \<times> gift_step" where
  "gift_cancel tg w = (let (w1, prev) = restore_gift tg w in (w1, GiftLeft (session_context prev (dw_fsm w1 tg))))"


section \<open>The dialogue\<close>

datatype gift_event = GiftPick ustr | GiftBuy "ustr list" | GiftSend | GiftTo ustr | GiftText "ustr option"
  | GiftSendPick "ustr list" | GiftSendCount ustr | GiftSell | GiftSellPick ustr | GiftSellCount "ustr list" | GiftCancel

definition GIFT_SEND_BUTTON :: ustr where
  "GIFT_SEND_BUTTON = [127873, 32, 1575, 1585, 1587, 1575, 1604, 32, 1711, 1740, 1601, 1578]"

definition gift_event :: "items \<Rightarrow> int \<Rightarrow> int \<Rightarrow> gift_event \<Rightarrow> dworld \<Rightarrow> dworld \<times> gift_step" where
  "gift_event items now tg e w = (case e of
     GiftPick code \<Rightarrow> gift_pick_quantity items tg code w
   | GiftBuy ps \<Rightarrow> gift_buy_confirm now tg ps w
   | GiftSend \<Rightarrow> gift_send_prompt items tg w
   | GiftTo rest \<Rightarrow> gift_send_direct items tg rest w
   | GiftText t \<Rightarrow>
       if t = Some (btn ''GIFTS'') then (w, GiftElsewhere)
       else if fsm_state (dw_fsm w tg) = Some WAITING_RECIPIENT then gift_send_choose_gift tg t w
       else if t = Some GIFT_SEND_BUTTON then gift_send_from_chat_or_date items tg w
       else (w, GiftElsewhere)
   | GiftSendPick ps \<Rightarrow> gift_send_execute tg ps w
   | GiftSendCount rest \<Rightarrow> gift_send_qty_execute now tg rest w
   | GiftSell \<Rightarrow> gift_sell_start_flow items tg w
   | GiftSellPick code \<Rightarrow> gift_sell_pick_quantity tg code w
   | GiftSellCount ps \<Rightarrow> gift_sell_execute now tg ps w
   | GiftCancel \<Rightarrow> gift_cancel tg w)"

text \<open>Each entry of a run: the time, the user, what they do.\<close>

definition gift_run :: "items \<Rightarrow> (int \<times> int \<times> gift_event) list \<Rightarrow> dworld \<Rightarrow> dworld" where
  "gift_run items es w = fold (\<lambda>(now, tg, e) w. fst (gift_event items now tg e w)) es w"

section \<open>Coins and gifts\<close>

inductive gift_change :: "int \<Rightarrow> db \<Rightarrow> db \<Rightarrow> bool" for tg where
  kept: "gift_change tg d d"
| bought: "purchase_gift now tg code q d = (d', r) \<Longrightarrow> gift_change tg d d'"
| sent: "transfer_gift now tg b code q d = (d', r) \<Longrightarrow> gift_change tg d d'"
| sold: "sell_gift now tg code q d = (d', r) \<Longrightarrow> gift_change tg d d'"

lemma restore_gift_db [simp]: "dw_db (fst (restore_gift tg w)) = dw_db w"
  by (simp add: restore_gift_def leave_def Let_def)

lemma finish_gift_db [simp]: "dw_db (fst (finish_gift tg r w)) = dw_db w"
  unfolding finish_gift_def by (metis (mono_tags, lifting) case_prod_beta fst_conv restore_gift_db)

lemma gift_cancel_db [simp]: "dw_db (fst (gift_cancel tg w)) = dw_db w"
  unfolding gift_cancel_def by (metis (mono_tags, lifting) case_prod_beta fst_conv restore_gift_db)

lemma aim_gift_db [simp]: "dw_db (fst (aim_gift items tg b w)) = dw_db w"
  by (simp add: aim_gift_def split: sum.split bool.split)

lemma gift_event_change: "gift_change tg (dw_db w) (dw_db (fst (gift_event items now tg e w)))"
proof (cases e)
  case (GiftBuy ps)
  then show ?thesis
    by (auto simp: gift_event_def gift_buy_confirm_def intro: gift_change.intros
        split: list.split option.split prod.split)
next
  case (GiftSendCount rest)
  then show ?thesis
    by (auto simp: gift_event_def gift_send_qty_execute_def Let_def intro: gift_change.intros
        split: option.split prod.split)
next
  case (GiftSellCount ps)
  then show ?thesis
    by (auto simp: gift_event_def gift_sell_execute_def intro: gift_change.intros
        split: list.split option.split prod.split)
qed (auto simp: gift_event_def gift_pick_quantity_def gift_send_prompt_def gift_send_direct_def gift_send_choose_gift_def
    gift_send_from_chat_or_date_def gift_send_execute_def gift_sell_start_flow_def gift_sell_pick_quantity_def Let_def
    intro: kept split: list.split option.split)

definition price_of :: "int \<Rightarrow> db \<Rightarrow> int" where
  "price_of gid d = (case by_key gt_id gid (gift_types d) of None \<Rightarrow> 0 | Some gt \<Rightarrow> gt_price_coins gt)"

text \<open>What all gifts in the users' bags are worth at their price.\<close>

definition gift_value :: "db \<Rightarrow> int" where
  "gift_value d = sum_list (map (\<lambda>r. ug_quantity r * price_of (ug_gift_type_id r) d) (rows (user_gifts d)))"

definition gifts_ok :: "db \<Rightarrow> bool" where
  "gifts_ok d \<longleftrightarrow> users_unique d \<and> ledger_ok d \<and> distinct (map inv_key (rows (user_gifts d))) \<and>
     distinct (map gt_id (rows (gift_types d))) \<and> (\<forall>gt\<in>set (rows (gift_types d)). 0 \<le> gt_price_coins gt) \<and>
     (\<forall>r\<in>set (rows (user_gifts d)). 0 \<le> ug_quantity r)"

definition wealth :: "db \<Rightarrow> int" where
  "wealth d = total_coins d + gift_value d"

lemma gift_types_frames [simp]:
  "gift_types (set_quantity o' g q s d) = gift_types d" "gift_types (add_to_inventory now o' g q s d) = gift_types d"
  "gift_types (log_gift now a b g q k c d) = gift_types d" "gift_types (upd_user tg f d) = gift_types d"
  "gift_types (add_coin_tx n i a t r x d) = gift_types d"
  by (simp_all add: set_quantity_def add_to_inventory_def log_gift_def upd_user_def add_coin_tx_def split: option.split)

lemma price_cong: "gift_types d' = gift_types d \<Longrightarrow> price_of g d' = price_of g d"
  by (simp add: price_of_def)

lemma gift_value_cong: "gift_types d' = gift_types d \<Longrightarrow> user_gifts d' = user_gifts d \<Longrightarrow> gift_value d' = gift_value d"
  by (simp add: gift_value_def price_cong [of d' d])

lemma price_of_code:
  assumes "distinct (map gt_id (rows (gift_types d)))" and "get_gift_type_by_code code d = Some gt"
  shows "price_of (gt_id gt) d = gt_price_coins gt" and "gt \<in> set (rows (gift_types d))"
proof -
  show "gt \<in> set (rows (gift_types d))"
    using assms(2) by (auto simp: get_gift_type_by_code_def dest: by_key_SomeD)
  with assms(1) show "price_of (gt_id gt) d = gt_price_coins gt"
    by (simp add: price_of_def by_key_def find_key_distinct)
qed

text \<open>The bags after a change of one row.\<close>

lemma value_set_quantity:
  assumes "distinct (map inv_key (rows (user_gifts d)))" and "inventory_row b g d \<noteq> None"
  shows "gift_value (set_quantity b g q s d) = gift_value d + (q - holding d b g) * price_of g d"
proof -
  obtain r where r: "find_key inv_key (b, g) (rows (user_gifts d)) = Some r"
    using assms(2) by (auto simp: inventory_row_def by_key_def)
  then have g: "ug_gift_type_id r = g" by (auto simp: inv_key_def dest: find_key_SomeD)
  have "holding d b g = ug_quantity r" using r by (simp add: holding_def inventory_row_def by_key_def)
  then show ?thesis
    using sum_upd_key [OF assms(1) r, of "\<lambda>r. r\<lparr>ug_quantity := q, ug_last_source := s\<rparr>"
        "\<lambda>r. ug_quantity r * price_of (ug_gift_type_id r) d"] g
    by (simp add: gift_value_def price_cong [of "set_quantity b g q s d" d]) (simp add: set_quantity_def algebra_simps)
qed

lemma value_add_to_inventory:
  assumes "distinct (map inv_key (rows (user_gifts d)))"
  shows "gift_value (add_to_inventory now b g q s d) = gift_value d + q * price_of g d"
proof (cases "inventory_row b g d")
  case None
  have "price_of k (add_to_inventory now b g q s d) = price_of k d" for k by (rule price_cong) simp
  with None show ?thesis by (simp add: gift_value_def) (simp add: add_to_inventory_def)
next
  case (Some r)
  then have "holding d b g = ug_quantity r" by (simp add: holding_def)
  with Some show ?thesis
    using value_set_quantity [OF assms, of b g "ug_quantity r + q" s] by (simp add: add_to_inventory_def algebra_simps)
qed

lemma bags_set_quantity:
  assumes "distinct (map inv_key (rows (user_gifts d)))" and "\<forall>r\<in>set (rows (user_gifts d)). 0 \<le> ug_quantity r" and "0 \<le> q"
  shows "distinct (map inv_key (rows (user_gifts (set_quantity b g q s d))))"
    and "\<forall>r\<in>set (rows (user_gifts (set_quantity b g q s d))). 0 \<le> ug_quantity r"
  using assms by (auto simp: set_quantity_def upd_list_keys set_upd_list)

lemma bags_add_to_inventory:
  assumes "distinct (map inv_key (rows (user_gifts d)))" and "\<forall>r\<in>set (rows (user_gifts d)). 0 \<le> ug_quantity r" and "0 \<le> q"
  shows "distinct (map inv_key (rows (user_gifts (add_to_inventory now b g q s d))))"
    and "\<forall>r\<in>set (rows (user_gifts (add_to_inventory now b g q s d))). 0 \<le> ug_quantity r"
proof -
  have "distinct (map inv_key (rows (user_gifts (add_to_inventory now b g q s d)))) \<and>
    (\<forall>r\<in>set (rows (user_gifts (add_to_inventory now b g q s d))). 0 \<le> ug_quantity r)"
  proof (cases "inventory_row b g d")
    case None
    then have "(b, g) \<notin> inv_key ` set (rows (user_gifts d))"
      by (simp add: inventory_row_def by_key_def find_key_None_iff)
    with None assms show ?thesis by (auto simp: add_to_inventory_def inv_key_def)
  next
    case (Some r)
    then have "0 \<le> ug_quantity r" using assms(2) by (auto simp: inventory_row_def dest: by_key_SomeD)
    with Some bags_set_quantity [OF assms(1,2), of "ug_quantity r + q" b g s] assms(3) show ?thesis
      by (simp add: add_to_inventory_def)
  qed
  then show "distinct (map inv_key (rows (user_gifts (add_to_inventory now b g q s d))))"
    and "\<forall>r\<in>set (rows (user_gifts (add_to_inventory now b g q s d))). 0 \<le> ug_quantity r" by blast+
qed


lemma total_coins_spent:
  assumes "get_user d b \<noteq> None" and "users d' = users (upd_user b (spend n) d)"
    and "\<And>k. coin_balance d' k = coin_balance d k - (if k = b then n else 0)"
  shows "total_coins d' = total_coins d - n"
proof -
  have "account_ids d' = account_ids d"
    using account_ids_cong [OF assms(2)] account_ids_upd_user [of "spend n" b d] by simp
  moreover have "finite (account_ids d)" by (simp add: account_ids_def)
  moreover have "b \<in> account_ids d" using assms(1) by (simp add: account_ids_iff)
  ultimately show ?thesis by (simp add: total_coins_def assms(3) sum_subtractf)
qed

lemma bought_ok:
  assumes b: "purchase_gift now tg code q d = (d', yes, rep)" and ok: "gifts_ok d"
  shows "gifts_ok d' \<and> wealth d' \<le> wealth d"
proof -
  from ok have u: "users_unique d" "ledger_ok d" and g: "distinct (map inv_key (rows (user_gifts d)))"
      "\<forall>r\<in>set (rows (user_gifts d)). 0 \<le> ug_quantity r" and t: "distinct (map gt_id (rows (gift_types d)))"
    by (simp_all add: gifts_ok_def)
  show ?thesis
    using b
  proof (cases rule: purchase_cases)
    case refused
    with ok show ?thesis by simp
  next
    case (bought u gt)
    let ?n = "gt_price_coins gt * q"
    note v = purchase_view [OF b [unfolded eqTrueI [OF bought(1)]] u bought(5)]
    have us: "users d' = users (upd_user tg (spend ?n) d)" by (simp add: bought(8))
    have "total_coins d' = total_coins d - ?n"
      by (rule total_coins_spent [OF _ us v(2)]) (simp add: bought(4))
    moreover
    let ?d1 = "upd_user tg (spend ?n) d"
    have e: "user_gifts d' = user_gifts (add_to_inventory now tg (gt_id gt) q ''purchase'' ?d1)" "gift_types d' = gift_types d"
      by (simp_all add: bought(8))
    have "gift_value ?d1 = gift_value d" by (rule gift_value_cong) simp_all
    moreover have "price_of (gt_id gt) ?d1 = gt_price_coins gt"
      using price_cong [of ?d1 d] price_of_code [OF t bought(5)] by simp
    moreover have "gift_value d' = gift_value (add_to_inventory now tg (gt_id gt) q ''purchase'' ?d1)"
      by (rule gift_value_cong) (simp_all add: e)
    moreover have "gift_value (add_to_inventory now tg (gt_id gt) q ''purchase'' ?d1)
        = gift_value ?d1 + q * price_of (gt_id gt) ?d1"
      by (rule value_add_to_inventory) (simp add: g)
    ultimately have "wealth d' = wealth d" by (simp add: wealth_def mult.commute)
    moreover have "gifts_ok d'"
      using ok v(4,5) bags_add_to_inventory [of ?d1 q now tg "gt_id gt" "''purchase''"] bought(2)
      by (simp add: gifts_ok_def e)
    ultimately show ?thesis by simp
  qed
qed

lemma sent_ok:
  assumes b: "transfer_gift now tg b code q d = (d', yes, rep)" and ok: "gifts_ok d"
  shows "gifts_ok d' \<and> wealth d' \<le> wealth d"
proof -
  from ok have g: "distinct (map inv_key (rows (user_gifts d)))" "\<forall>r\<in>set (rows (user_gifts d)). 0 \<le> ug_quantity r"
    by (simp_all add: gifts_ok_def)
  show ?thesis
    using b
  proof (cases rule: transfer_cases)
    case refused
    with ok show ?thesis by simp
  next
    case (sent gt)
    let ?d1 = "set_quantity tg (gt_id gt) (holding d tg (gt_id gt) - q) ''transfer_out'' d"
    let ?d2 = "add_to_inventory now b (gt_id gt) q ''transfer_in'' ?d1"
    have nn: "0 \<le> holding d tg (gt_id gt) - q" using sent by simp
    note b1 = bags_set_quantity [OF g nn, of tg "gt_id gt" "''transfer_out''"]
    have us: "users d' = users d" "coin_txs d' = coin_txs d" and e: "user_gifts d' = user_gifts ?d2" "gift_types d' = gift_types d"
      by (simp_all add: sent(7))
    have "gift_value d' = gift_value ?d2" by (rule gift_value_cong) (simp_all add: e)
    also have "\<dots> = gift_value ?d1 + q * price_of (gt_id gt) ?d1" by (rule value_add_to_inventory) (rule b1)
    also have "price_of (gt_id gt) ?d1 = price_of (gt_id gt) d" by (rule price_cong) simp
    also have "gift_value ?d1 = gift_value d + (holding d tg (gt_id gt) - q - holding d tg (gt_id gt)) * price_of (gt_id gt) d"
      by (rule value_set_quantity) (use g sent in simp_all)
    finally have "gift_value d' = gift_value d" by (simp add: algebra_simps)
    moreover have "total_coins d' = total_coins d"
      using account_ids_cong [OF us(1)] coin_balance_cong [OF us(1)] by (simp add: total_coins_def)
    moreover have "gifts_ok d'"
      using ok bags_add_to_inventory [OF b1, of q now b "gt_id gt" "''transfer_in''"] sent(2)
        users_unique_cong [OF us(1)] ledger_ok_cong [OF us]
      by (simp add: gifts_ok_def e)
    ultimately show ?thesis by (simp add: wealth_def)
  qed
qed

lemma sold_ok:
  assumes b: "sell_gift now tg code q d = (d', yes, rep)" and ok: "gifts_ok d"
  shows "gifts_ok d' \<and> wealth d' \<le> wealth d"
proof -
  from ok have u: "users_unique d" "ledger_ok d" and g: "distinct (map inv_key (rows (user_gifts d)))"
      "\<forall>r\<in>set (rows (user_gifts d)). 0 \<le> ug_quantity r" and t: "distinct (map gt_id (rows (gift_types d)))"
    by (simp_all add: gifts_ok_def)
  show ?thesis
    using b
  proof (cases rule: sell_cases)
    case refused
    with ok show ?thesis by simp
  next
    case (sold gt)
    note v = sell_view [OF b [unfolded eqTrueI [OF sold(1)]] u sold(4)]
    let ?p = "gt_price_coins gt" and ?d1 = "set_quantity tg (gt_id gt) (holding d tg (gt_id gt) - q) ''sell'' d"
    have nn: "0 \<le> holding d tg (gt_id gt) - q" using sold by simp
    note b1 = bags_set_quantity [OF g nn, of tg "gt_id gt" "''sell''"]
    have e: "user_gifts d' = user_gifts ?d1" "gift_types d' = gift_types d" by (simp_all add: sold(7))
    have "gift_value d' = gift_value ?d1" by (rule gift_value_cong) (simp_all add: e)
    also have "\<dots> = gift_value d + (holding d tg (gt_id gt) - q - holding d tg (gt_id gt)) * price_of (gt_id gt) d"
      by (rule value_set_quantity) (use g sold in simp_all)
    finally have "gift_value d' = gift_value d - q * ?p" using price_of_code(1) [OF t sold(4)] by (simp add: algebra_simps)
    moreover have p: "0 \<le> ?p" using price_of_code(2) [OF t sold(4)] ok by (simp add: gifts_ok_def)
    have "?p * 80 div 100 \<le> ?p" using p by simp
    then have "?p * 80 div 100 * q \<le> ?p * q" using sold(2) by (intro mult_right_mono) simp_all
    ultimately have "wealth d' \<le> wealth d" by (simp add: wealth_def v(3) mult.commute)
    moreover have "users_unique d'"
      using users_unique_cong [OF v(6)] u(1) by (simp add: users_unique_upd_user)
    then have "gifts_ok d'" using ok b1 v(5) by (simp add: gifts_ok_def e)
    ultimately show ?thesis by simp
  qed
qed

lemma gift_change_ok:
  assumes "gift_change tg d d'" and "gifts_ok d"
  shows "gifts_ok d' \<and> wealth d' \<le> wealth d"
  using assms by cases (metis order_refl, metis bought_ok surj_pair, metis sent_ok surj_pair, metis sold_ok surj_pair)

text \<open>C11: Whatever users buy, send and sell in the gift menus, in whatever order and with whatever numbers, the
  coins of all users and the value of all gifts together never grow, no bag goes negative, and every
  balance stays the sum of its log.\<close>

theorem gifts_never_enrich:
  fixes w :: dworld
  assumes "gifts_ok (dw_db w)"
  shows "gifts_ok (dw_db (gift_run items es w)) \<and> wealth (dw_db (gift_run items es w)) \<le> wealth (dw_db w)"
  using assms
proof (induction es arbitrary: w)
  case (Cons x es)
  obtain now tg e where x: "x = (now, tg, e)" by (metis surj_pair)
  let ?w = "fst (gift_event items now tg e w)"
  have c: "gifts_ok (dw_db ?w) \<and> wealth (dw_db ?w) \<le> wealth (dw_db w)"
    using gift_change_ok [OF gift_event_change Cons.prems] by blast
  with Cons.IH [of ?w] have "gifts_ok (dw_db (gift_run items es ?w)) \<and> wealth (dw_db (gift_run items es ?w)) \<le> wealth (dw_db ?w)"
    by blast
  moreover have "gift_run items (x # es) w = gift_run items es ?w" by (simp add: gift_run_def x)
  ultimately show ?case using c by simp
qed (simp add: gift_run_def)


section \<open>The way back\<close>

definition faithful_items :: "items \<Rightarrow> bool" where
  "faithful_items items \<longleftrightarrow> (\<forall>m k v. (k, v) \<in> set (items m) \<longrightarrow> m k = Some v)"

text \<open>A dialogue of gifts that interrupts the context \<open>c\<close>, and what it can interrupt.\<close>

definition interrupts :: "items \<Rightarrow> fsm \<Rightarrow> fsm \<Rightarrow> bool" where
  "interrupts items c c' \<longleftrightarrow> gift_state c' \<and> drop_keys GIFT_TEMP_KEYS (fsm_data c') = fsm_data c \<and>
     fsm_data c' GIFT_PREV = map_option FStr (fsm_state c) \<and>
     fsm_data c' GIFT_META = Some (FDict (gift_snapshot items (fsm_data c)))"

definition interruptible :: "int \<Rightarrow> dworld \<Rightarrow> bool" where
  "interruptible tg w \<longleftrightarrow> \<not> gift_state (dw_fsm w tg) \<and> fsm_state (dw_fsm w tg) \<noteq> Some [] \<and>
     (\<forall>k\<in>set GIFT_TEMP_KEYS. fsm_data (dw_fsm w tg) k = None) \<and>
     (pipeline_state (fsm_state (dw_fsm w tg)) \<longrightarrow> get_active_match tg (dw_db w) \<noteq> None)"

text \<open>Buttons that lead on or end are pressed while a dialogue of gifts runs; gifts are not sold.\<close>

definition orderly :: "gift_event \<Rightarrow> fsm \<Rightarrow> bool" where
  "orderly e c = (case e of
     GiftPick code \<Rightarrow> True | GiftSend \<Rightarrow> True | GiftTo rest \<Rightarrow> True | GiftText t \<Rightarrow> True
   | GiftSell \<Rightarrow> False | GiftSellPick code \<Rightarrow> False | GiftSellCount ps \<Rightarrow> False
   | _ \<Rightarrow> gift_state c)"

inductive gift_walk :: "items \<Rightarrow> int \<Rightarrow> dworld \<Rightarrow> dworld \<Rightarrow> bool" for items tg w where
  here: "gift_walk items tg w w"
| press: "gift_walk items tg w w1 \<Longrightarrow> orderly e (dw_fsm w1 tg) \<Longrightarrow> gift_walk items tg w (fst (gift_event items now tg e w1))"
| others: "gift_walk items tg w w1 \<Longrightarrow> dw_fsm w2 tg = dw_fsm w1 tg \<Longrightarrow>
    (get_active_match tg (dw_db w1) \<noteq> None \<longrightarrow> get_active_match tg (dw_db w2) \<noteq> None) \<Longrightarrow> gift_walk items tg w w2"

lemma gift_keys [simp]:
  "''chosen_gift_code'' \<in> set GIFT_TEMP_KEYS" "''recipient_tg_id'' \<in> set GIFT_TEMP_KEYS" "''send_code'' \<in> set GIFT_TEMP_KEYS"
  "''send_recipient'' \<in> set GIFT_TEMP_KEYS" "GIFT_PREV \<in> set GIFT_TEMP_KEYS" "GIFT_META \<in> set GIFT_TEMP_KEYS"
  "GIFT_PREV \<noteq> GIFT_META" "GIFT_META \<noteq> GIFT_PREV" "''chosen_gift_code'' \<noteq> GIFT_PREV" "''recipient_tg_id'' \<noteq> GIFT_PREV"
  "''send_code'' \<noteq> GIFT_PREV" "''send_recipient'' \<noteq> GIFT_PREV" "''chosen_gift_code'' \<noteq> GIFT_META"
  "''recipient_tg_id'' \<noteq> GIFT_META" "''send_code'' \<noteq> GIFT_META" "''send_recipient'' \<noteq> GIFT_META"
  by (simp_all add: GIFT_TEMP_KEYS_def GIFT_PREV_def GIFT_META_def)

lemma gift_states [simp]:
  "gift_state c \<Longrightarrow> gift_state (update_data k v c)"
  "gift_state (set_state (Some CHOOSING_QUANTITY) c)" "gift_state (set_state (Some WAITING_RECIPIENT) c)"
  "gift_state (set_state (Some CONFIRMING_GIFT) c)"
  by (simp_all add: gift_state_def GIFT_STATES_def update_data_def set_state_def)

lemma interrupts_update:
  assumes "interrupts items c c'" and "k \<in> set GIFT_TEMP_KEYS" and "k \<noteq> GIFT_PREV" and "k \<noteq> GIFT_META"
  shows "interrupts items c (update_data k v c')"
  using assms by (simp add: interrupts_def update_data_def gift_state_def)

lemma interrupts_state:
  assumes "interrupts items c c'" and "gift_state (set_state s c')"
  shows "interrupts items c (set_state s c')"
  using assms by (simp add: interrupts_def set_state_def)

text \<open>Opening a dialogue, from the context itself or from a dialogue that interrupts it.\<close>

lemma interrupts_preserve:
  assumes "\<not> gift_state c" and "\<forall>k\<in>set GIFT_TEMP_KEYS. fsm_data c k = None"
    and "c' = c \<or> interrupts items c c'" and "gift_state (set_state s c')"
  shows "interrupts items c (set_state s (preserve_gift items c'))"
proof (cases "gift_state c'")
  case True
  then have "interrupts items c c'" using assms(1,3) by blast
  with True assms(4) show ?thesis by (simp add: preserve_gift_def interrupts_state)
next
  case False
  then have "c' = c" using assms(3) by (auto simp: interrupts_def)
  with False assms(2,4) show ?thesis
    by (auto simp: interrupts_def preserve_gift_def set_state_def gift_state_def drop_keys_apply fun_eq_iff)
qed

lemma restore_interrupted:
  assumes "faithful_items items" and "interrupts items c (dw_fsm w tg)" and "\<not> gift_state c" and "fsm_state c \<noteq> Some []"
    and "pipeline_state (fsm_state c) \<longrightarrow> get_active_match tg (dw_db w) \<noteq> None"
  shows "dw_fsm (fst (restore_gift tg w)) tg = c"
proof -
  have p: "fsm_str GIFT_PREV (dw_fsm w tg) = fsm_state c"
    using assms(2) by (cases "fsm_state c") (simp_all add: interrupts_def fsm_str_def)
  have "fill_missing (gift_snapshot_of (dw_fsm w tg)) (drop_keys GIFT_TEMP_KEYS (fsm_data (dw_fsm w tg))) = fsm_data c"
    using assms(1,2)
    by (auto simp: interrupts_def gift_snapshot_of_def gift_snapshot_def faithful_items_def intro: fill_missing_id)
  then show ?thesis
    using assms(3-5) p by (cases "fsm_state c") (auto simp: restore_gift_def gift_state_def Let_def)
qed


lemma gift_matches:
  "matches (fst (purchase_gift now tg code q d)) = matches d" "matches (fst (transfer_gift now tg b code q d)) = matches d"
  "matches (fst (sell_gift now tg code q d)) = matches d"
  by (auto simp: purchase_gift_def transfer_gift_def sell_gift_def Let_def add_to_inventory_def set_quantity_def log_gift_def add_coin_tx_def
      upd_user_def split: option.split)

lemma change_matches: "gift_change tg d d' \<Longrightarrow> matches d' = matches d"
  by (induction rule: gift_change.induct) (metis gift_matches fst_conv)+

lemma set_update: "set_state s (update_data k v c) = update_data k v (set_state s c)"
  by (simp add: set_state_def update_data_def)

lemma finish_gift_fst: "fst (finish_gift tg r w) = fst (restore_gift tg w)" "fst (gift_cancel tg w) = fst (restore_gift tg w)"
  by (simp_all add: finish_gift_def gift_cancel_def split_beta Let_def)

text \<open>Each kind of press, from the context itself or from a dialogue that interrupts it.\<close>

lemma press_returns:
  assumes items: "faithful_items items" and c: "\<not> gift_state c" "fsm_state c \<noteq> Some []" "\<forall>k\<in>set GIFT_TEMP_KEYS. fsm_data c k = None"
    and am: "pipeline_state (fsm_state c) \<longrightarrow> get_active_match tg (dw_db w) \<noteq> None"
    and cur: "dw_fsm w tg = c \<or> interrupts items c (dw_fsm w tg)" and ev: "orderly e (dw_fsm w tg)"
  shows "dw_fsm (fst (gift_event items now tg e w)) tg = c \<or> interrupts items c (dw_fsm (fst (gift_event items now tg e w)) tg)"
proof -
  have opened: "interrupts items c (set_state s (preserve_gift items (dw_fsm w tg)))"
    if "gift_state (set_state s (dw_fsm w tg))" for s
    using interrupts_preserve [OF c(1,3) cur that] .
  have aimed: "dw_fsm (fst (aim_gift items tg b w)) tg = c \<or> interrupts items c (dw_fsm (fst (aim_gift items tg b w)) tg)" for b
    using opened cur by (auto simp: aim_gift_def intro: interrupts_update split: sum.split bool.split)
  have inside: "interrupts items c (dw_fsm w tg)" if "gift_state (dw_fsm w tg)"
    using cur c(1) that by auto
  have home: "dw_fsm (fst (restore_gift tg (w\<lparr>dw_db := d\<rparr>))) tg = c"
    if "gift_state (dw_fsm w tg)" and "matches d = matches (dw_db w)" for d
    using restore_interrupted [OF items _ c(1,2), of "w\<lparr>dw_db := d\<rparr>" tg] inside [OF that(1)] am that(2)
    by (simp add: get_active_match_def)
  have bw: "dw_fsm (fst (restore_gift tg w)) tg = c" if "gift_state (dw_fsm w tg)"
    using restore_interrupted [OF items inside [OF that] c(1,2) am] .
  show ?thesis
  proof (cases e)
    case (GiftPick code)
    then show ?thesis using opened [of "Some CHOOSING_QUANTITY"] cur
      by (auto simp: gift_event_def gift_pick_quantity_def set_update Let_def intro: interrupts_update split: option.split)
  next
    case (GiftBuy ps)
    have "gift_state (dw_fsm w tg)" using ev GiftBuy by (simp add: orderly_def)
    then have "dw_fsm (fst (finish_gift tg r (w\<lparr>dw_db := fst (purchase_gift now tg code q (dw_db w))\<rparr>))) tg = c" for r code q
      using home gift_matches(1) by (simp add: finish_gift_fst)
    then show ?thesis using GiftBuy cur
      by (auto simp: gift_event_def gift_buy_confirm_def split_beta split: list.split option.split)
  next
    case GiftSend
    then show ?thesis using opened by (simp add: gift_event_def gift_send_prompt_def)
  next
    case (GiftTo rest)
    then show ?thesis using aimed cur
      by (simp add: gift_event_def gift_send_direct_def split: option.split)
  next
    case (GiftText t)
    have "dw_fsm (fst (gift_send_choose_gift tg t w)) tg = c \<or> interrupts items c (dw_fsm (fst (gift_send_choose_gift tg t w)) tg)"
      if "gift_state (dw_fsm w tg)"
      using inside [OF that] bw [OF that]
      by (auto simp: gift_send_choose_gift_def Let_def intro: interrupts_update split: option.split)
    moreover have "gift_state (dw_fsm w tg)" if "fsm_state (dw_fsm w tg) = Some WAITING_RECIPIENT"
      using that by (simp add: gift_state_def GIFT_STATES_def)
    moreover have "dw_fsm (fst (gift_send_from_chat_or_date items tg w)) tg = c \<or>
        interrupts items c (dw_fsm (fst (gift_send_from_chat_or_date items tg w)) tg)"
      using aimed cur by (simp add: gift_send_from_chat_or_date_def split: option.split)
    ultimately show ?thesis using GiftText cur by (simp add: gift_event_def)
  next
    case (GiftSendPick ps)
    then show ?thesis using ev inside cur
      by (auto simp: gift_event_def gift_send_execute_def orderly_def intro!: interrupts_state interrupts_update split: list.split option.split)
  next
    case (GiftSendCount rest)
    have g: "gift_state (dw_fsm w tg)" using ev GiftSendCount by (simp add: orderly_def)
    then have "dw_fsm (fst (restore_gift tg (w\<lparr>dw_db := fst (transfer_gift now tg b code q (dw_db w))\<rparr>))) tg = c" for b code q
      using home gift_matches(2) by simp
    then show ?thesis using GiftSendCount cur bw [OF g]
      by (auto simp: gift_event_def gift_send_qty_execute_def Let_def split_beta split: option.split)
  next
    case GiftCancel
    then show ?thesis using ev bw by (simp add: gift_event_def orderly_def finish_gift_fst)
  qed (use ev in \<open>simp_all add: orderly_def\<close>)
qed


text \<open>C12: Whoever opens the gift menus in the middle of something (a date, a chat, another dialogue) and uses them
  in any order, as long as they sell nothing and press the menus' buttons while these are running, is at
  any moment either back in what they were doing, with all its data, or in a dialogue of gifts that
  the cancel button leaves for it; for a date or a chat, as long as it is not ended meanwhile.\<close>

theorem gift_dialogue_returns:
  fixes w w' :: dworld
  assumes "gift_walk items tg w w'" and "faithful_items items" and "interruptible tg w"
  shows "dw_fsm w' tg = dw_fsm w tg \<or>
    gift_state (dw_fsm w' tg) \<and> dw_fsm (fst (gift_event items now tg GiftCancel w')) tg = dw_fsm w tg"
proof -
  let ?c = "dw_fsm w tg"
  have c: "\<not> gift_state ?c" "fsm_state ?c \<noteq> Some []" "\<forall>k\<in>set GIFT_TEMP_KEYS. fsm_data ?c k = None"
    using assms(3) by (auto simp: interruptible_def)
  from assms(1) have "(dw_fsm w' tg = ?c \<or> interrupts items ?c (dw_fsm w' tg)) \<and>
      (pipeline_state (fsm_state ?c) \<longrightarrow> get_active_match tg (dw_db w') \<noteq> None)"
  proof induction
    case here
    show ?case using assms(3) by (simp add: interruptible_def)
  next
    case (press w1 e now)
    have "matches (dw_db (fst (gift_event items now tg e w1))) = matches (dw_db w1)"
      using gift_event_change [of tg w1 items now e] by (rule change_matches)
    then have "get_active_match tg (dw_db (fst (gift_event items now tg e w1))) = get_active_match tg (dw_db w1)"
      by (simp add: get_active_match_def)
    with press press_returns [OF assms(2) c _ _ press.hyps(2)] show ?case by metis
  next
    case (others w1 w2)
    then show ?case by metis
  qed
  then show ?thesis using restore_interrupted [OF assms(2) _ c(1,2), of w' tg]
    by (auto simp: gift_event_def finish_gift_fst interrupts_def)
qed


section \<open>Two ways around the dialogue\<close>

lemma sell_state: "\<not> gift_state (set_state (Some CHOOSING_SELL_GIFT) c)" "\<not> pipeline_state (Some CHOOSING_SELL_GIFT)"
  "CHOOSING_SELL_GIFT \<notin> set GIFT_STATES" "truthy (Some CHOOSING_SELL_GIFT)"
  by (simp add: gift_state_def set_state_def) code_simp+

text \<open>The states of a sale are missing from the states whose dialogue is not saved again: pressing the sale
  button twice saves the sale's own state over the one it interrupted, so that cancelling leaves the user in
  the sale instead of in the chat or date, which a single press and a cancel lead back to.\<close>

theorem second_sell_forgets:
  fixes w :: dworld
  assumes "\<not> empty_handed tg (dw_db w)" and "interruptible tg w"
  shows "fsm_state (dw_fsm (gift_run items [(t1, tg, GiftSell), (t2, tg, GiftCancel)] w) tg) = fsm_state (dw_fsm w tg) \<and>
    fsm_state (dw_fsm (gift_run items [(t1, tg, GiftSell), (t2, tg, GiftSell), (t3, tg, GiftCancel)] w) tg)
      = Some CHOOSING_SELL_GIFT"
proof -
  let ?open = "\<lambda>w. on_fsm tg (\<lambda>c. set_state (Some CHOOSING_SELL_GIFT) (preserve_gift items c)) w"
  have sell: "fst (gift_event items t tg GiftSell w1) = ?open w1" if "dw_db w1 = dw_db w" for t w1
    using assms(1) that by (simp add: gift_event_def gift_sell_start_flow_def)
  have stop: "fst (gift_event items t tg GiftCancel w1) = fst (restore_gift tg w1)" for t w1
    by (simp add: gift_event_def finish_gift_fst)
  have prev: "fsm_str GIFT_PREV (dw_fsm (?open w1) tg) = fsm_state (dw_fsm w1 tg)" if "\<not> gift_state (dw_fsm w1 tg)" for w1
    using that by (cases "fsm_state (dw_fsm w1 tg)") (simp_all add: fsm_str_def preserve_gift_def set_state_def)
  have "fsm_state (dw_fsm (fst (restore_gift tg (?open w))) tg) = fsm_state (dw_fsm w tg)"
    using prev [of w] assms(2)
    by (cases "fsm_state (dw_fsm w tg)") (auto simp: restore_gift_def Let_def interruptible_def gift_state_def)
  moreover have "fsm_state (dw_fsm (fst (restore_gift tg (?open (?open w)))) tg) = Some CHOOSING_SELL_GIFT"
    using prev [of "?open w"] sell_state by (simp add: restore_gift_def Let_def set_state_def gift_state_def)
  ultimately show ?thesis by (simp add: gift_run_def sell stop)
qed

lemma blocked_found:
  assumes "is_blocked b a d"
  shows "blocked_either a b d \<noteq> Inr False"
proof -
  obtain r where "r \<in> set (rows (blocks d))" "bl_blocker_id r = b" "bl_blocked_id r = a"
    using assms by (auto simp: is_blocked_def first_where_def find_Some_iff in_set_conv_nth)
  then have "r \<in> set (sel_where (block_between a b) (blocks d))" by (simp add: sel_where_def block_between_def)
  then have "sel_where (block_between a b) (blocks d) \<noteq> []" by auto
  then show ?thesis
    by (cases "sel_where (block_between a b) (blocks d)" rule: remdups_adj.cases)
      (simp_all add: blocked_either_def)
qed

text \<open>Who has blocked a user gets no gifts from them through a profile or a date, but does when the user
  types their tag: the block is looked at neither when the tag is read nor when the gift is sent.\<close>

theorem tag_reaches_blocker:
  fixes w :: dworld
  assumes "fsm_state (dw_fsm w tg) = Some WAITING_RECIPIENT" and "user_by_public_id tag (dw_db w) = Some r"
    and "starts_with (lit ''user_'') tag" and "strip tag = tag" and "tag \<noteq> btn ''GIFTS''" and "u_tg_id r \<noteq> tg" and "u_tg_id r \<noteq> 0"
    and "is_blocked (u_tg_id r) tg (dw_db w)"
    and "get_gift_type_by_code (utf8 code) (dw_db w) = Some gt" and "utf8 code \<noteq> []"
    and "1 \<le> holding (dw_db w) tg (gt_id gt)" and "\<not> empty_handed tg (dw_db w)"
  shows "snd (aim_gift items tg (u_tg_id r) w) \<in> {GiftBlocked, GiftRaised} \<and>
    (let w1 = gift_run items [(t1, tg, GiftText (Some tag)), (t2, tg, GiftSendPick [code, py_str (u_tg_id r)]),
        (t3, tg, GiftSendCount (py_str 1))] w
      in holding (dw_db w1) (u_tg_id r) (gt_id gt) = holding (dw_db w) (u_tg_id r) (gt_id gt) + 1)"
proof -
  have "blocked_either tg (u_tg_id r) (dw_db w) \<noteq> Inr False" using assms(8) by (rule blocked_found)
  then have "snd (aim_gift items tg (u_tg_id r) w) \<in> {GiftBlocked, GiftRaised}"
    by (auto simp: aim_gift_def split: sum.split bool.split)
  moreover have "py_str 1 = [49]" by code_simp
  then have one: "py_int (remove_word (lit ''gift_send_qty_'') (py_str 1)) = Some 1"
    using py_int_str [of 1] by (simp add: starts_with_def lit_def)
  define w1 where "w1 = fst (gift_event items t1 tg (GiftText (Some tag)) w)"
  have w1: "w1 = on_fsm tg (update_data ''recipient_tg_id'' (FInt (u_tg_id r))) w"
    using assms by (simp add: w1_def gift_event_def gift_send_choose_gift_def Let_def)
  define w2 where "w2 = fst (gift_event items t2 tg (GiftSendPick [code, py_str (u_tg_id r)]) w1)"
  have w2: "dw_db w2 = dw_db w" "fsm_str ''send_code'' (dw_fsm w2 tg) = Some (utf8 code)"
      "fsm_int ''send_recipient'' (dw_fsm w2 tg) = Some (u_tg_id r)"
    by (simp_all add: w2_def w1 gift_event_def gift_send_execute_def py_int_str) (simp add: fsm_str_def set_state_def)
  have db: "dw_db (fst (gift_event items t3 tg (GiftSendCount (py_str 1)) w2))
      = fst (transfer_gift t3 tg (u_tg_id r) (utf8 code) 1 (dw_db w))"
    using assms(7,10) w2 one by (simp add: nonzero_def gift_event_def gift_send_qty_execute_def Let_def split_beta)
  obtain ok rep d where t: "transfer_gift t3 tg (u_tg_id r) (utf8 code) 1 (dw_db w) = (d, ok, rep)" by (metis surj_pair)
  have ok: "ok"
    using t assms(6,9,11) by (auto simp: transfer_gift_def holding_def Let_def split: option.splits)
  from t have "holding d (u_tg_id r) (gt_id gt) = holding (dw_db w) (u_tg_id r) (gt_id gt) + 1"
  proof (cases rule: transfer_cases)
    case (sent gt')
    then have "gt' = gt" using assms(9) by simp
    then show ?thesis using sent holding_set_quantity [OF sent(5)] assms(6) by (simp add: holding_add_to_inventory)
  qed (use ok in simp)
  ultimately show ?thesis using db t by (simp add: gift_run_def w1_def [symmetric] w2_def [symmetric])
qed


section \<open>Witnesses\<close>

text \<open>Bob chats with Alice, who has blocked him, and has three roses.\<close>

definition bag_world :: dworld where
  "bag_world = quiet_world\<lparr>dw_db := gift_db\<lparr>blocks := \<lparr>rows = [\<lparr>bl_id = 1, bl_blocker_id = 1, bl_blocked_id = 2,
       bl_created_at = Aware 0\<rparr>], next_id = 2\<rparr>,
     matches := \<lparr>rows = [new_match 0 1 2 1], next_id = 2\<rparr>\<rparr>,
     dw_fsm := (\<lambda>_. \<lparr>fsm_state = Some CHAT_ACTIVE, fsm_data = [''partner_id'' \<mapsto> FInt 1]\<rparr>)\<rparr>"

lemma bag_world_view [simp]:
  "users (dw_db bag_world) = users demo_db" "user_gifts (dw_db bag_world) = user_gifts gift_db"
  "gift_types (dw_db bag_world) = gift_types gift_db" "fsm_state (dw_fsm bag_world k) = Some CHAT_ACTIVE"
  "fsm_data (dw_fsm bag_world k) = [''partner_id'' \<mapsto> FInt 1]" "coin_txs (dw_db bag_world) = coin_txs gift_db"
  by (simp_all add: bag_world_def gift_db_def)

lemma bag_world_ok: "gifts_ok (dw_db bag_world)"
  using users_unique_cong [of "dw_db bag_world" gift_db] ledger_ok_cong [of "dw_db bag_world" gift_db]
  by (simp add: gifts_ok_def) (simp add: gift_db_def rose_def inv_key_def)

lemma bag_world_interruptible: "interruptible 2 bag_world"
  by (simp add: interruptible_def gift_state_def GIFT_STATES_def GIFT_TEMP_KEYS_def CHAT_ACTIVE_def CHOOSING_QUANTITY_def
      WAITING_RECIPIENT_def CONFIRMING_GIFT_def GIFT_PREV_def GIFT_META_def)
    (simp add: bag_world_def get_active_match_def first_where_def new_match_def in_match_def)

lemma bag_world_bag: "\<not> empty_handed 2 (dw_db bag_world)"
  by (simp add: empty_handed_def get_user_inventory_def gift_db_def rose_def)

theorem gifts_never_enrich_witness:
  "\<forall>items es. wealth (dw_db (gift_run items es bag_world)) \<le> wealth (dw_db bag_world)"
  using gifts_never_enrich [OF bag_world_ok] by blast

theorem gift_dialogue_returns_witness:
  "\<exists>w'. gift_walk chat_meta 2 bag_world w' \<and> dw_fsm (fst (gift_event chat_meta 0 2 GiftCancel w')) 2 = dw_fsm bag_world 2"
proof -
  let ?w = "fst (gift_event chat_meta 0 2 GiftSend bag_world)"
  have walk: "gift_walk chat_meta 2 bag_world ?w"
    by (rule gift_walk.press [OF gift_walk.here]) (simp add: orderly_def)
  have items: "faithful_items chat_meta" using chat_meta_of by (simp add: faithful_items_def)
  have "fsm_state (dw_fsm ?w 2) = Some WAITING_RECIPIENT" by (simp add: gift_event_def gift_send_prompt_def)
  then have "dw_fsm ?w 2 \<noteq> dw_fsm bag_world 2" by (auto simp: WAITING_RECIPIENT_def CHAT_ACTIVE_def)
  with gift_dialogue_returns [OF walk items bag_world_interruptible, of 0] walk show ?thesis by blast
qed

theorem second_sell_forgets_witness:
  "fsm_state (dw_fsm (gift_run chat_meta [(0, 2, GiftSell), (1, 2, GiftCancel)] bag_world) 2) = Some CHAT_ACTIVE \<and>
   fsm_state (dw_fsm (gift_run chat_meta [(0, 2, GiftSell), (1, 2, GiftSell), (2, 2, GiftCancel)] bag_world) 2)
     = Some CHOOSING_SELL_GIFT"
  using second_sell_forgets [OF bag_world_bag bag_world_interruptible, of chat_meta 0 1 2] by simp

definition tag_world :: dworld where
  "tag_world = fst (gift_event chat_meta 0 2 GiftSend bag_world)"

theorem tag_reaches_blocker_witness:
  "let w1 = gift_run chat_meta [(0, 2, GiftText (Some (lit ''user_aaaaaa''))), (1, 2, GiftSendPick [lit ''ROSE'', py_str 1]),
        (2, 2, GiftSendCount (py_str 1))] tag_world
   in holding (dw_db w1) 1 1 = 1"
proof -
  have ascii: "utf8 (lit ''user_aaaaaa'') = ''user_aaaaaa''" "utf8 (lit ''ROSE'') = ''ROSE''" by code_simp+
  have word: "starts_with (lit ''user_'') (lit ''user_aaaaaa'')" by (simp add: starts_with_def lit_def)
  have strip: "strip (lit ''user_aaaaaa'') = lit ''user_aaaaaa''" by (rule strip_id) (simp add: lit_def is_space_def)
  have menu: "lit ''user_aaaaaa'' \<noteq> btn ''GIFTS''" by (simp add: lit_def btn_def ReplyBtn_def)
  have state: "fsm_state (dw_fsm tag_world 2) = Some WAITING_RECIPIENT" and db: "dw_db tag_world = dw_db bag_world"
    by (simp_all add: tag_world_def gift_event_def gift_send_prompt_def)
  have alice: "user_by_public_id (lit ''user_aaaaaa'') (dw_db tag_world) = Some alice"
    by (simp add: user_by_public_id_def ascii db first_where_def demo_users)
  have blocked: "is_blocked (u_tg_id alice) 2 (dw_db tag_world)"
    by (simp add: db is_blocked_def first_where_def bag_world_def)
  have gift: "get_gift_type_by_code (utf8 (lit ''ROSE'')) (dw_db tag_world) = Some rose"
    by (simp add: ascii db get_gift_type_by_code_def) (simp add: gift_db_def rose_def by_key_def)
  have held: "holding (dw_db tag_world) k g = (if k = 2 \<and> g = 1 then 3 else 0)" for k g
    using holding_cong [of "dw_db bag_world" gift_db k g] by (simp add: db)
  show ?thesis
    using tag_reaches_blocker [OF state alice word strip menu _ _ blocked gift, of chat_meta 0 1 2] bag_world_bag
    by (simp add: db held [unfolded db] ascii Let_def)
qed

end
