(* ===== verification/Gacha.thy ===== *)
theory Gacha
  imports Accounts Scheduler
begin

text \<open>
  The lootboxes (\<open>bot/handlers/gacha.py\<close>): opening one takes it from the user's account, draws a reward of
  \<open>gacha_config.json\<close> and grants it.  \<open>fl\<close> rounds a result to a double; \<open>draw\<close> is \<open>secrets.randbelow\<close>.
\<close>

section \<open>The drawing\<close>

record reward =
  rw_chance :: rat
  rw_type :: string
  rw_amount :: int

definition RNG_SCALE :: nat where
  "RNG_SCALE = 10 ^ 9"

fun drop_reward :: "(rat \<Rightarrow> rat) \<Rightarrow> rat \<Rightarrow> rat \<Rightarrow> 'r list \<Rightarrow> ('r \<Rightarrow> rat) \<Rightarrow> 'r option" where
  "drop_reward fl v acc [] chance = None"
| "drop_reward fl v acc (r # rs) chance =
     (let acc' = fl (acc + chance r) in if v < acc' then Some r else drop_reward fl v acc' rs chance)"

definition select_reward :: "(rat \<Rightarrow> rat) \<Rightarrow> nat \<Rightarrow> 'r list \<Rightarrow> ('r \<Rightarrow> rat) \<Rightarrow> 'r" where
  "select_reward fl draw rewards chance =
     (case drop_reward fl (fl (of_nat draw / of_nat RNG_SCALE)) 0 rewards chance of Some r \<Rightarrow> r | None \<Rightarrow> last rewards)"

section \<open>Opening a box\<close>

datatype gacha_step = GachaWait | GachaNoUser | GachaNoBox | GachaNoRewards | GachaWon reward

definition take_box :: "int \<Rightarrow> db \<Rightarrow> db" where
  "take_box tg d = d\<lparr>users := upd_where (\<lambda>u. u_tg_id u = tg \<and> u_lootbox_count u > 0)
     (\<lambda>u. u\<lparr>u_lootbox_count := u_lootbox_count u - 1\<rparr>) (users d)\<rparr>"

definition grant_reward ::
  "int \<Rightarrow> (rat \<Rightarrow> rat) \<Rightarrow> rat option \<Rightarrow> int \<Rightarrow> reward \<Rightarrow> db \<Rightarrow> db" where
  "grant_reward now fl event tg r d =
     (let t = map lower_char (rw_type r) in
      if t = ''coins'' then
        (case get_user d tg of None \<Rightarrow> d
         | Some u \<Rightarrow> fst (process_coin_transaction now fl event u (rw_amount r) TxLootbox False None d))
      else if t = ''vip_quota'' then upd_user tg (\<lambda>u. u\<lparr>u_vip_quota := u_vip_quota u + rw_amount r\<rparr>) d
      else if t = ''xp'' then fst (add_xp_to_user tg (rw_amount r) d)
      else d)"

type_synonym cooldowns = "int \<rightharpoonup> unit \<times> int"

definition process_open_lootbox ::
  "int \<Rightarrow> (rat \<Rightarrow> rat) \<Rightarrow> rat option \<Rightarrow> nat \<Rightarrow> reward list \<Rightarrow> int \<Rightarrow> db \<times> cooldowns \<Rightarrow> (db \<times> cooldowns) \<times> gacha_step" where
  "process_open_lootbox now fl event draw rewards tg = (\<lambda>(d, cd).
     if live now cd tg \<noteq> None then ((d, cd), GachaWait)
     else let cd1 = cd(tg \<mapsto> ((), now + 2000000)) in
     (case get_user d tg of
        None \<Rightarrow> ((d, cd1), GachaNoUser)
      | Some u \<Rightarrow>
          if u_lootbox_count u \<le> 0 then ((d, cd1), GachaNoBox)
          else if rowcount (\<lambda>u. u_tg_id u = tg \<and> u_lootbox_count u > 0) (users d) = 0 then ((d, cd1), GachaNoBox)
          else let d1 = take_box tg d in
          if rewards = [] then ((d1, cd1), GachaNoRewards)
          else let r = select_reward fl draw rewards rw_chance in ((grant_reward now fl event tg r d1, cd1), GachaWon r)))"

text \<open>What the menu shows: level, filled blocks, XP, XP of the level, boxes, and whether there is a button to open one.\<close>

definition show_gacha_panel :: "(rat \<Rightarrow> rat) \<Rightarrow> int \<Rightarrow> db \<Rightarrow> (int \<times> int \<times> int \<times> int \<times> int \<times> bool) option" where
  "show_gacha_panel fl tg d =
     (case get_user d tg of
        None \<Rightarrow> None
      | Some u \<Rightarrow>
          let level = max 1 (u_level u); required = level * 100;
              ratio = min (fl (of_int (u_xp_points u) / of_int required)) 1
          in Some (level, py_trunc (fl (ratio * 10)), u_xp_points u, required, u_lootbox_count u, u_lootbox_count u > 0))"

section \<open>The chances\<close>

text \<open>With exact arithmetic, of the draws below the scale each reward gets as many as its chance says; the last one
  also gets what the chances leave.\<close>

lemma drop_exact:
  assumes "0 < n" and "j \<le> length ks" and "a \<le> m"
  shows "drop_reward id (of_nat m / of_nat n) (of_nat a / of_nat n) [j..<length ks] (\<lambda>i. of_nat (ks ! i) / of_nat n) =
    (if a + sum_list (drop j ks) \<le> m then None
     else Some (j + (LEAST i. m < a + sum_list (take (Suc i) (drop j ks)))))"
proof -
  have lt: "(of_nat m / of_nat n :: rat) < of_nat a / of_nat n + of_nat k / of_nat n \<longleftrightarrow> m < a + k" for m a k :: nat
    using assms(1) by (simp add: add_divide_distrib [symmetric] divide_less_cancel flip: of_nat_add)
  show ?thesis
    using assms(2,3)
  proof (induction "length ks - j" arbitrary: j a)
    case 0
    then show ?case by simp
  next
    case (Suc x)
    then have j: "j < length ks" by simp
    then have u: "[j..<length ks] = j # [Suc j..<length ks]" by (simp add: upt_conv_Cons)
    have d: "drop j ks = ks ! j # drop (Suc j) ks" using j by (simp add: Cons_nth_drop_Suc)
    show ?case
    proof (cases "m < a + ks ! j")
      case True
      then have "(LEAST i. m < a + sum_list (take (Suc i) (drop j ks))) = 0" by (intro Least_eq_0) (simp add: d)
      with True show ?thesis by (simp add: u lt d)
    next
      case False
      have ih: "drop_reward id (of_nat m / of_nat n) (of_nat (a + ks ! j) / of_nat n) [Suc j..<length ks] (\<lambda>i. of_nat (ks ! i) / of_nat n) =
        (if a + ks ! j + sum_list (drop (Suc j) ks) \<le> m then None
         else Some (Suc j + (LEAST i. m < a + ks ! j + sum_list (take (Suc i) (drop (Suc j) ks)))))"
        using Suc.hyps(1) [of "Suc j" "a + ks ! j"] Suc.hyps(2) j False by simp
      have "(LEAST i. m < a + sum_list (take (Suc i) (drop j ks))) =
          Suc (LEAST i. m < a + sum_list (take (Suc (Suc i)) (drop j ks)))"
        if "\<not> a + ks ! j + sum_list (drop (Suc j) ks) \<le> m"
      proof (rule Least_Suc)
        show "m < a + sum_list (take (Suc (length ks)) (drop j ks))" using that by (simp add: d)
        show "\<not> m < a + sum_list (take (Suc 0) (drop j ks))" using False by (simp add: d)
      qed
      then show ?thesis
        using ih False by (simp add: u lt d add_divide_distrib add.assoc)
    qed
  qed
qed

lemma least_sum:
  fixes ks :: "nat list"
  assumes "m < sum_list ks"
  shows "(LEAST i. m < sum_list (take (Suc i) ks)) = i \<longleftrightarrow> sum_list (take i ks) \<le> m \<and> m < sum_list (take (Suc i) ks)"
proof -
  have mono: "sum_list (take a ks) \<le> sum_list (take b ks)" if "a \<le> b" for a b
  proof -
    obtain c where "b = a + c" using \<open>a \<le> b\<close> by (metis le_Suc_ex)
    then show ?thesis by (simp add: take_add)
  qed
  have ex: "m < sum_list (take (Suc (length ks)) ks)" using assms by simp
  let ?l = "LEAST i. m < sum_list (take (Suc i) ks)"
  have l: "m < sum_list (take (Suc ?l) ks)" by (rule LeastI [of "\<lambda>i. m < sum_list (take (Suc i) ks)", OF ex])
  have low: "sum_list (take ?l ks) \<le> m"
  proof (cases ?l)
    case (Suc k)
    then show ?thesis using not_less_Least [of k "\<lambda>i. m < sum_list (take (Suc i) ks)"] by simp
  qed simp
  show ?thesis
  proof
    assume "sum_list (take i ks) \<le> m \<and> m < sum_list (take (Suc i) ks)"
    then show "?l = i"
      using l low mono [of "Suc ?l" i] mono [of "Suc i" ?l] by (cases rule: linorder_cases [of ?l i]) auto
  qed (use l low in blast)
qed

text \<open>Over all draws of the generator, every reward is drawn exactly as often as its chance says, and the last
  one also when the chances do not add up to one (in exact arithmetic).\<close>

theorem gacha_draws_are_fair:
  fixes ks :: "nat list"
  assumes "sum_list ks \<le> RNG_SCALE" and "i < length ks"
  shows "card {m. m < RNG_SCALE \<and> select_reward id m [0..<length ks] (\<lambda>j. of_nat (ks ! j) / of_nat RNG_SCALE) = i} =
    ks ! i + (if Suc i = length ks then RNG_SCALE - sum_list ks else 0)"
proof -
  let ?S = "\<lambda>i. sum_list (take i ks)"
  let ?sel = "\<lambda>m. select_reward id m [0..<length ks] (\<lambda>j. of_nat (ks ! j) / of_nat RNG_SCALE)"
  have n: "0 < RNG_SCALE" by (simp add: RNG_SCALE_def)
  have lst: "last [0..<length ks] = length ks - 1" using assms(2) by (cases "length ks") auto
  have sel: "?sel m = i \<longleftrightarrow> (if sum_list ks \<le> m then Suc i = length ks else ?S i \<le> m \<and> m < ?S (Suc i))" for m
    using drop_exact [OF n, of 0 ks 0 m] least_sum [of m ks i] assms(2)
    by (auto simp: select_reward_def lst)
  have S: "?S (Suc i) = ?S i + ks ! i" using assms(2) by (simp add: take_Suc_conv_app_nth)
  have le: "?S (Suc i) \<le> sum_list ks" by (metis append_take_drop_id le_add1 sum_list_append)
  have "{m. m < RNG_SCALE \<and> ?sel m = i} = {?S i..<?S (Suc i)} \<union> (if Suc i = length ks then {sum_list ks..<RNG_SCALE} else {})"
    using assms(1) le by (auto simp: sel split: if_splits)
  moreover have "{?S i..<?S (Suc i)} \<inter> {sum_list ks..<RNG_SCALE} = {}" using le by auto
  ultimately show ?thesis by (simp add: S card_Un_disjoint)
qed

section \<open>What opening a box does\<close>

lemma take_box_upd:
  assumes "users_unique d" and "get_user d tg = Some u" and "u_lootbox_count u > 0"
  shows "take_box tg d = upd_user tg (\<lambda>v. v\<lparr>u_lootbox_count := u_lootbox_count v - 1\<rparr>) d"
  using assms
  by (simp add: take_box_def upd_user_def upd_where_def users_unique_def get_user_def by_key_def
      upd_list_guard [where Q = "\<lambda>u. u_lootbox_count u > 0"])

definition reward_coins :: "(rat \<Rightarrow> rat) \<Rightarrow> rat option \<Rightarrow> reward \<Rightarrow> int" where
  "reward_coins fl event r = (if map lower_char (rw_type r) = ''coins'' then event_amount fl event False (rw_amount r) else 0)"

lemma grant_effect:
  assumes "get_user d tg = Some u" and "1 \<le> u_level u" and "0 \<le> rw_amount r"
  shows "\<exists>u'. get_user (grant_reward now fl event tg r d) tg = Some u' \<and> 1 \<le> u_level u' \<and>
    u_lootbox_count u' - u_level u' = u_lootbox_count u - u_level u \<and> u_lootbox_count u \<le> u_lootbox_count u' \<and>
    u_coin_balance u' = u_coin_balance u + reward_coins fl event r"
proof -
  let ?t = "map lower_char (rw_type r)"
  have tg: "u_tg_id u = tg" using assms(1) by (rule get_user_tg)
  consider "?t = ''coins''" | "?t = ''vip_quota''" | "?t = ''xp''" | "?t \<notin> {''coins'', ''vip_quota'', ''xp''}" by blast
  then show ?thesis
  proof cases
    case 1
    then show ?thesis using assms tg
      by (simp add: grant_reward_def reward_coins_def process_credit get_upd_user earn_def)
  next
    case 3
    obtain l x b v where r: "level_up (u_level u) (u_xp_points u + rw_amount r) (u_lootbox_count u) False = (l, x, b, v)"
      by (metis prod_cases4)
    from level_up_invariant [OF r assms(2)] show ?thesis
      using 3 assms r by (simp add: grant_reward_def reward_coins_def add_xp_to_user_def get_upd_user)
  qed (use assms in \<open>simp_all add: grant_reward_def reward_coins_def get_upd_user\<close>)
qed

lemma grant_others: "k \<noteq> tg \<Longrightarrow> 0 \<le> rw_amount r \<Longrightarrow> get_user (grant_reward now fl event tg r d) k = get_user d k"
  by (auto simp: grant_reward_def Let_def add_xp_to_user_def get_upd_user process_credit earn_def dest: get_user_tg
      split: option.split prod.split)

definition opened :: "gacha_step \<Rightarrow> bool" where
  "opened r \<longleftrightarrow> (case r of GachaWon w \<Rightarrow> True | GachaNoRewards \<Rightarrow> True | _ \<Rightarrow> False)"

text \<open>Pressing the button takes one box or none; boxes come from levels only, one for each; the balance rises by the
  coins won, and nobody else's account changes.  A box is gone also when the list of rewards is empty.\<close>

theorem lootbox_accounts:
  assumes "users_unique d" and "get_user d tg = Some u" and "1 \<le> u_level u" and "0 \<le> u_lootbox_count u"
    and "\<forall>r\<in>set rewards. 0 \<le> rw_amount r"
    and "process_open_lootbox now fl event draw rewards tg (d, cd) = ((d', cd'), r)"
  shows "\<exists>u'. get_user d' tg = Some u' \<and> (\<forall>k. k \<noteq> tg \<longrightarrow> get_user d' k = get_user d k) \<and> 0 \<le> u_lootbox_count u' \<and>
    u_lootbox_count u' - u_level u' = u_lootbox_count u - u_level u - (if opened r then 1 else 0) \<and>
    u_coin_balance u' = u_coin_balance u + (case r of GachaWon w \<Rightarrow> reward_coins fl event w | _ \<Rightarrow> 0)"
proof (cases "opened r")
  case False
  then have "d' = d" "\<forall>w. r \<noteq> GachaWon w"
    using assms(6) by (auto simp: process_open_lootbox_def Let_def opened_def split: if_splits option.splits)
  with False assms(2,4) show ?thesis by (auto split: gacha_step.split)
next
  case True
  let ?v = "u\<lparr>u_lootbox_count := u_lootbox_count u - 1\<rparr>"
  have n: "0 < u_lootbox_count u"
    using True assms(2,6) by (auto simp: process_open_lootbox_def Let_def opened_def split: if_splits)
  then have v: "get_user (take_box tg d) tg = Some ?v" "\<And>k. k \<noteq> tg \<Longrightarrow> get_user (take_box tg d) k = get_user d k"
    using assms(2) by (simp_all add: take_box_upd [OF assms(1,2)] get_upd_user)
  consider "r = GachaNoRewards" "d' = take_box tg d"
    | w where "r = GachaWon w" "w \<in> set rewards" "d' = grant_reward now fl event tg w (take_box tg d)"
  proof -
    have "select_reward fl draw rewards rw_chance \<in> set rewards" if "rewards \<noteq> []"
    proof -
      have "drop_reward fl v a rs chance = Some w \<Longrightarrow> w \<in> set rs" for v a w and rs :: "reward list" and chance
        by (induction rs arbitrary: a) (auto simp: Let_def split: if_splits)
      then show ?thesis using that by (auto simp: select_reward_def split: option.split)
    qed
    then show thesis
      using that True assms(2,6) by (auto simp: process_open_lootbox_def Let_def opened_def split: if_splits)
  qed
  then show ?thesis
  proof cases
    case 1
    then show ?thesis using v n by (simp add: opened_def)
  next
    case (2 w)
    from grant_effect [OF v(1), of w now fl event] 2 v(2) assms(3,5) n show ?thesis
      by (auto simp: opened_def grant_others)
  qed
qed

text \<open>Boxes come from levels, levels from XP and XP from boxes: the code gives XP nowhere else, so users who have no
  box never get one.\<close>

theorem first_box_needs_a_box:
  fixes d :: db and presses :: "(int \<times> rat option \<times> nat \<times> int) list"
  assumes "\<forall>u\<in>set (rows (users d)). u_lootbox_count u \<le> 0"
  shows "fst (fold (\<lambda>(now, event, draw, tg) s. fst (process_open_lootbox now fl event draw rewards tg s)) presses (d, cd)) = d"
proof (induction presses arbitrary: cd)
  case (Cons p ps)
  obtain now event draw tg where p: "p = (now, event, draw, tg)" by (metis prod_cases4)
  have "fst (fst (process_open_lootbox now fl event draw rewards tg (d, cd))) = d"
    using assms get_user_in [of d tg] by (auto simp: process_open_lootbox_def Let_def split: option.split)
  then obtain cd' where "fst (process_open_lootbox now fl event draw rewards tg (d, cd)) = (d, cd')" by (metis prod.collapse)
  with Cons.IH show ?case by (simp add: p)
qed simp

section \<open>Witnesses\<close>

theorem gacha_draws_are_fair_witness:
  "card {m. m < RNG_SCALE \<and> select_reward id m [0..<4] (\<lambda>j. of_nat ([50000000, 200000000, 350000000, 400000000] ! j) / of_nat RNG_SCALE) = 1} = 200000000"
proof -
  have "length [50000000, 200000000, 350000000, 400000000 :: nat] = 4" by simp
  from gacha_draws_are_fair [of "[50000000, 200000000, 350000000, 400000000]" 1, unfolded this] show ?thesis
    by (simp add: RNG_SCALE_def del: upt_conv_Cons upt_rec_numeral)
qed

definition boxed :: user where
  "boxed = alice\<lparr>u_lootbox_count := 1\<rparr>"

theorem lootbox_accounts_witness:
  "\<exists>u'. get_user (fst (fst (process_open_lootbox 0 id None 7 [\<lparr>rw_chance = 1, rw_type = ''coins'', rw_amount = 5\<rparr>] 1
      (demo_db\<lparr>users := \<lparr>rows = [boxed], next_id = 2\<rparr>\<rparr>, Map.empty)))) 1 = Some u' \<and> u_lootbox_count u' - u_level u' = - 1 \<and> u_coin_balance u' = 8"
proof -
  let ?d = "demo_db\<lparr>users := \<lparr>rows = [boxed], next_id = 2\<rparr>\<rparr>" and ?w = "\<lparr>rw_chance = 1, rw_type = ''coins'', rw_amount = 5\<rparr>"
  have "users_unique ?d" "get_user ?d 1 = Some boxed" "1 \<le> u_level boxed" "0 \<le> u_lootbox_count boxed"
    by (simp_all add: users_unique_def get_user_def by_key_def boxed_def)
  moreover obtain d' cd' r where p: "process_open_lootbox 0 id None 7 [?w] 1 (?d, Map.empty) = ((d', cd'), r)" by (metis surj_pair)
  moreover have "r = GachaWon ?w"
    using p by (auto simp: process_open_lootbox_def live_def get_user_def by_key_def boxed_def rowcount_def Let_def
        select_reward_def RNG_SCALE_def)
  moreover have "map lower_char ''coins'' = ''coins''" by code_simp
  ultimately show ?thesis
    using lootbox_accounts [of ?d 1 boxed "[?w]" 0 id None 7 Map.empty d' cd' r]
    by (auto simp: opened_def reward_coins_def event_amount_def boxed_def)
qed

end
