(* ===== verification/Inbox.thy ===== *)
theory Inbox
  imports TransferDialog
begin

text \<open>
  Private messages: direct messages between users (\<open>bot/handlers/direct_messages.py\<close>) and the
  anonymous link (\<open>bot/handlers/anonymous_link.py\<close>).  A dialogue's boolean is stored as the integer it
  is in Python; a key written as \<open>None\<close> is absent, since the code reads keys with \<open>get\<close>.
\<close>

section \<open>Direct messages\<close>

definition TYPING_DM :: string where "TYPING_DM = ''DirectMessageStates:typing_message''"
definition DM_TO :: string where "DM_TO = ''dm_recipient_tg_id''"
definition DM_PREV :: string where "DM_PREV = ''__prev_dm_state__''"
definition DM_REPLY_TO :: string where "DM_REPLY_TO = ''reply_to_msg_id''"
definition DM_FREE :: string where "DM_FREE = ''is_vip_free''"

datatype dm_step = BadRequest | Busy | NoAccount | InSilence | DmBlocked | NoCoins | AskDm bool | AskReply
  | DmCancelled | EmptyBody | LongBody | DmExpired | DmSent int bool | DmRaised | DmNotFound | NotYours
  | DmShown string | DmDeleted | NotTyping

text \<open>Times without a zone are read as UTC.\<close>

definition dm_silent :: "int \<Rightarrow> user \<Rightarrow> bool" where
  "dm_silent now u = (case u_silent_until u of None \<Rightarrow> False | Some t \<Rightarrow> now < instant t)"

definition dm_vip :: "int \<Rightarrow> user \<Rightarrow> bool" where
  "dm_vip now u = (u_is_vip u \<and> (case u_vip_expires_at u of None \<Rightarrow> True | Some t \<Rightarrow> now < instant t))"

definition open_dm :: "int \<Rightarrow> bool \<Rightarrow> fsm \<Rightarrow> fsm" where
  "open_dm target vip c = \<lparr>fsm_state = Some TYPING_DM, fsm_data = (fsm_data c)(DM_TO \<mapsto> FInt target,
     DM_PREV := map_option FStr (fsm_state c), DM_FREE \<mapsto> FInt (of_bool vip))\<rparr>"

definition req_direct_message ::
  "int \<Rightarrow> (rat \<Rightarrow> rat) \<Rightarrow> rat option \<Rightarrow> int \<Rightarrow> ustr \<Rightarrow> dworld \<Rightarrow> dworld \<times> dm_step" where
  "req_direct_message now fl event tg rest w =
     (let d = dw_db w in
      case py_int (remove_word (lit ''req_direct_'') rest) of
        None \<Rightarrow> (w, BadRequest)
      | Some target \<Rightarrow>
          if get_active_match tg d \<noteq> None then (w, Busy)
          else (case get_user d tg of
            None \<Rightarrow> (w, NoAccount)
          | Some u \<Rightarrow>
              if dm_silent now u then (w, InSilence)
              else (case blocked_either target tg d of
                Inl e \<Rightarrow> (w, DmRaised)
              | Inr True \<Rightarrow> (w, DmBlocked)
              | Inr False \<Rightarrow>
                  if dm_vip now u then (on_fsm tg (open_dm target True) w, AskDm True)
                  else (case process_coin_transaction now fl event u (-1) TxDirectReserve False None d of
                    (d1, u1, ok) \<Rightarrow> if ok then (on_fsm tg (open_dm target False) (w\<lparr>dw_db := d1\<rparr>), AskDm False)
                                    else (w, NoCoins)))))"

definition on_dms :: "(direct_message tbl \<Rightarrow> direct_message tbl) \<Rightarrow> dworld \<Rightarrow> dworld" where
  "on_dms f = on_db (\<lambda>d. d\<lparr>direct_messages := f (direct_messages d)\<rparr>)"

definition new_dm :: "int \<Rightarrow> int \<Rightarrow> int \<Rightarrow> ustr \<Rightarrow> int \<Rightarrow> direct_message" where
  "new_dm now from_id to_id body i = \<lparr>dm_id = i, dm_sender_tg_id = from_id, dm_receiver_tg_id = to_id,
     dm_body = utf8 body, dm_sent_at = Aware now, dm_is_read = False, dm_read_at = None\<rparr>"

definition refund_dm :: "int \<Rightarrow> (rat \<Rightarrow> rat) \<Rightarrow> rat option \<Rightarrow> int \<Rightarrow> fsm \<Rightarrow> db \<Rightarrow> db" where
  "refund_dm now fl event tg c d =
     (case get_user d tg of
        None \<Rightarrow> d
      | Some u \<Rightarrow> if nonzero (fsm_int DM_TO c) \<and> \<not> nonzero (fsm_int DM_FREE c)
          then fst (process_coin_transaction now fl event u 1 TxDirectRefund False None d) else d)"

definition close_dm :: "fsm \<Rightarrow> fsm" where
  "close_dm c = (let prev = fsm_str DM_PREV c in
     \<lparr>fsm_state = (if truthy prev then prev else None),
      fsm_data = drop_keys [DM_TO, DM_PREV, DM_REPLY_TO, DM_FREE] (fsm_data c)\<rparr>)"

text \<open>After a message \<open>is_vip_free\<close> and \<open>reply_to_msg_id\<close> stay in the data.\<close>

definition sent_dm :: "fsm \<Rightarrow> fsm" where
  "sent_dm c = \<lparr>fsm_state = fsm_str DM_PREV c, fsm_data = drop_keys [DM_TO, DM_PREV] (fsm_data c)\<rparr>"

definition send_direct_message ::
  "(nat \<Rightarrow> bool) \<Rightarrow> int \<Rightarrow> (rat \<Rightarrow> rat) \<Rightarrow> rat option \<Rightarrow> int \<Rightarrow> ustr \<Rightarrow> dworld \<Rightarrow> dworld \<times> dm_step" where
  "send_direct_message word now fl event tg t w =
     (let c = dw_fsm w tg; d = dw_db w; recipient = fsm_int DM_TO c in
      if t = btn ''CANCEL'' then (on_fsm tg close_dm (on_db (refund_dm now fl event tg c) w), DmCancelled)
      else let body = strip t in
      if body = [] then (w, EmptyBody)
      else if length body > 1000 then (w, LongBody)
      else if \<not> nonzero recipient then (on_fsm tg (set_state (fsm_str DM_PREV c)) w, DmExpired)
      else let r = the recipient in
      if get_user d tg = None \<or> get_user d r = None then (w, DmRaised)
      else (on_fsm tg sent_dm (on_dms (insert_row (new_dm now tg r (fst (apply_security_filters word body)))) w),
            DmSent r (get_active_match r d = None)))"

text \<open>\<open>ps\<close>: the parts of the button's data after \<open>dm_reply\<close>.\<close>

definition dm_reply :: "int \<Rightarrow> ustr list \<Rightarrow> dworld \<Rightarrow> dworld \<times> dm_step" where
  "dm_reply tg ps w =
     (if get_active_match tg (dw_db w) \<noteq> None then (w, Busy)
      else case ps of
        m # s # _ \<Rightarrow> (case (py_int m, py_int s) of
            (Some msg, Some from_id) \<Rightarrow> (on_fsm tg (\<lambda>c. \<lparr>fsm_state = Some TYPING_DM, fsm_data = (fsm_data c)
                (DM_TO \<mapsto> FInt from_id, DM_REPLY_TO \<mapsto> FInt msg, DM_PREV := map_option FStr (fsm_state c))\<rparr>) w, AskReply)
          | _ \<Rightarrow> (w, BadRequest))
      | _ \<Rightarrow> (w, BadRequest))"

definition dm_row :: "int \<Rightarrow> db \<Rightarrow> direct_message option" where
  "dm_row i d = first_where (\<lambda>m. dm_id m = i) (direct_messages d)"

definition dm_view_message :: "int \<Rightarrow> int \<Rightarrow> ustr \<Rightarrow> dworld \<Rightarrow> dworld \<times> dm_step" where
  "dm_view_message now tg rest w =
     (case py_int (remove_word (lit ''dm_view_'') rest) of
        None \<Rightarrow> (w, BadRequest)
      | Some i \<Rightarrow> (case dm_row i (dw_db w) of
          None \<Rightarrow> (w, DmNotFound)
        | Some m \<Rightarrow>
            if get_user (dw_db w) (dm_sender_tg_id m) = None then (w, DmNotFound)
            else if dm_receiver_tg_id m \<noteq> tg then (w, NotYours)
            else (if dm_is_read m then w
                  else on_dms (upd_where (\<lambda>m. dm_id m = i) (\<lambda>m. m\<lparr>dm_is_read := True, dm_read_at := Some (Aware now)\<rparr>)) w,
                  DmShown (dm_body m))))"

definition dm_delete :: "int \<Rightarrow> ustr \<Rightarrow> dworld \<Rightarrow> dworld \<times> dm_step" where
  "dm_delete tg rest w =
     (case py_int (remove_word (lit ''dm_delete_'') rest) of
        None \<Rightarrow> (w, BadRequest)
      | Some i \<Rightarrow> (case dm_row i (dw_db w) of
          None \<Rightarrow> (w, DmNotFound)
        | Some m \<Rightarrow> if dm_receiver_tg_id m \<noteq> tg then (w, NotYours)
                    else (on_dms (del_where (\<lambda>m. dm_id m = i)) w, DmDeleted)))"

text \<open>
  The file defines \<open>dm_inbox\<close> twice.  The button reaches the first, registered first; the call after a
  deletion the second, which puts unread messages before the others.
\<close>

definition dm_inbox_button :: "int \<Rightarrow> db \<Rightarrow> (int \<times> string option \<times> bool) list" where
  "dm_inbox_button tg d = map (\<lambda>(m, u). (dm_id m, u_public_id u, dm_is_read m)) (get_recent_direct_messages tg 10 d)"

definition dm_inbox :: "int \<Rightarrow> db \<Rightarrow> (int \<times> string option \<times> bool) list" where
  "dm_inbox tg d = map (\<lambda>(m, u). (dm_id m, u_public_id u, dm_is_read m)) (take 10
     (sort_key (\<lambda>(m, u). (of_bool (dm_is_read m) :: nat)) (sort_key (\<lambda>(m, u). - instant (dm_sent_at m))
       [(m, u). m \<leftarrow> rows (direct_messages d), u \<leftarrow> rows (users d),
          dm_sender_tg_id m = u_tg_id u, dm_receiver_tg_id m = tg])))"

definition unified_inbox_dashboard :: "int \<Rightarrow> db \<Rightarrow> (nat \<times> nat) option" where
  "unified_inbox_dashboard tg d =
     (if get_active_match tg d \<noteq> None then None
      else Some (get_user_unread_dm_count tg d, length (get_unread_anonymous_messages tg d)))"

section \<open>The anonymous link\<close>

definition generate_my_anon_link :: "int \<Rightarrow> db \<Rightarrow> string option" where
  "generate_my_anon_link tg d =
     (case get_user d tg of
        None \<Rightarrow> None
      | Some u \<Rightarrow> if u_completed_registration u
          then Some (''anon_'' @ (case u_public_id u of None \<Rightarrow> ''None'' | Some p \<Rightarrow> p)) else None)"

record anon_message =
  an_text :: "ustr option"
  an_caption :: "ustr option"
  an_unsupported :: bool
  an_media :: "(string \<times> string) option"

datatype anon_step = AnonCancelled | AnonUnsupported | AnonNoTarget | AnonBarred | AnonFiltered | AnonFailed
  | AnonSent bool bool | AnonBusy | AnonBad | AnonSelf | AnonBlockedNow | AnonAsk | NotWriting

definition or_empty :: "ustr option \<Rightarrow> ustr" where
  "or_empty t = (case t of None \<Rightarrow> [] | Some s \<Rightarrow> s)"

text \<open>
  \<open>rewarded\<close>: the pairs of receiver and sender with a reward key in Redis, which has no expiry.
  \<open>AnonSent rewarded notified\<close>; a message to an account that is gone fails on its foreign key.
\<close>

definition receive_anonymous_message ::
  "(nat \<Rightarrow> bool) \<Rightarrow> int \<Rightarrow> (rat \<Rightarrow> rat) \<Rightarrow> rat option \<Rightarrow> int \<Rightarrow> anon_message \<Rightarrow>
   dworld \<times> (int \<times> int) set \<Rightarrow> (dworld \<times> (int \<times> int) set) \<times> anon_step" where
  "receive_anonymous_message word now fl event tg m = (\<lambda>(w, rewarded).
     let d = dw_db w; target0 = fsm_int ''target_anon_id'' (dw_fsm w tg) in
     if an_text m \<noteq> None \<and> starts_with [47] (the (an_text m)) then ((leave tg w, rewarded), AnonCancelled)
     else if an_unsupported m then ((w, rewarded), AnonUnsupported)
     else if \<not> nonzero target0 then ((leave tg w, rewarded), AnonNoTarget)
     else let target = the target0 in
     if is_blocked target tg d then ((leave tg w, rewarded), AnonBarred)
     else let t = (if has_content (an_text m) then the (an_text m) else or_empty (an_caption m));
              (filtered, was_filtered) = apply_security_filters word t in
     if was_filtered then ((leave tg w, rewarded), AnonFiltered)
     else if get_user d tg = None \<or> get_user d target = None then ((leave tg w, rewarded), AnonFailed)
     else let d1 = save_anonymous_message now tg target (Some (utf8 filtered)) (an_media m \<noteq> None)
                     (map_option fst (an_media m)) (map_option snd (an_media m)) d;
              first = ((target, tg) \<notin> rewarded);
              d2 = (if first then fst (process_coin_transaction now fl event (the (get_user d1 target)) 3 TxAnonReward False None d1)
                    else d1)
          in ((leave tg (w\<lparr>dw_db := d2\<rparr>), if first then insert (target, tg) rewarded else rewarded),
              AnonSent first (get_active_match target d2 = None)))"

text \<open>The messages shown are marked read; \<open>accepts\<close> says which ones Telegram takes.\<close>

definition open_anonymous_inbox :: "(int \<Rightarrow> bool) \<Rightarrow> int \<Rightarrow> dworld \<Rightarrow> dworld \<times> int list option" where
  "open_anonymous_inbox accepts tg w =
     (if get_active_match tg (dw_db w) \<noteq> None then (w, None)
      else let ids = filter accepts (map am_id (get_unread_anonymous_messages tg (dw_db w)))
           in (on_db (fold mark_anonymous_message_as_read ids) w, Some ids))"

definition process_anon_block :: "int \<Rightarrow> int \<Rightarrow> ustr \<Rightarrow> dworld \<Rightarrow> dworld \<times> anon_step" where
  "process_anon_block now tg rest w =
     (case py_int (remove_word (lit ''anon_block_'') rest) of
        None \<Rightarrow> (w, AnonBad)
      | Some blocked \<Rightarrow>
          if blocked = tg then (w, AnonSelf)
          else if is_blocked tg blocked (dw_db w) then (w, AnonBlockedNow)
          else if get_user (dw_db w) tg = None \<or> get_user (dw_db w) blocked = None then (w, AnonFailed)
          else (on_db (\<lambda>d. d\<lparr>blocks := insert_row (\<lambda>i. \<lparr>bl_id = i, bl_blocker_id = tg, bl_blocked_id = blocked,
                       bl_created_at = Aware now\<rparr>) (blocks d)\<rparr>) w, AnonBlockedNow))"

definition process_anon_reply :: "int \<Rightarrow> ustr \<Rightarrow> dworld \<Rightarrow> dworld \<times> anon_step" where
  "process_anon_reply tg rest w =
     (if get_active_match tg (dw_db w) \<noteq> None then (w, AnonBusy)
      else case py_int (remove_word (lit ''anon_reply_'') rest) of
        None \<Rightarrow> (w, AnonBad)
      | Some target \<Rightarrow> (write_anonymous tg target w, AnonAsk))"

definition start_registration_flow :: "int \<Rightarrow> dworld \<Rightarrow> dworld" where
  "start_registration_flow tg = show_terms tg"

section \<open>All that a user does with private messages\<close>

type_synonym inbox_world = "dworld \<times> (int \<times> int) set"

datatype inbox_event = DmRequest ustr | DmText ustr | DmReply "ustr list" | DmView ustr | DmDelete ustr
  | AnonText anon_message | AnonInbox "int \<Rightarrow> bool" | AnonBlock ustr | AnonReply ustr

definition inbox_event ::
  "(nat \<Rightarrow> bool) \<Rightarrow> int \<Rightarrow> (rat \<Rightarrow> rat) \<Rightarrow> rat option \<Rightarrow> int \<Rightarrow> inbox_event \<Rightarrow> inbox_world \<Rightarrow> inbox_world" where
  "inbox_event word now fl event tg e = (\<lambda>(w, r). case e of
     DmRequest rest \<Rightarrow> (fst (req_direct_message now fl event tg rest w), r)
   | DmText t \<Rightarrow> if fsm_state (dw_fsm w tg) = Some TYPING_DM
       then (fst (send_direct_message word now fl event tg t w), r) else (w, r)
   | DmReply ps \<Rightarrow> (fst (dm_reply tg ps w), r)
   | DmView rest \<Rightarrow> (fst (dm_view_message now tg rest w), r)
   | DmDelete rest \<Rightarrow> (fst (dm_delete tg rest w), r)
   | AnonText m \<Rightarrow> if fsm_state (dw_fsm w tg) = Some ANON_MESSAGE
       then fst (receive_anonymous_message word now fl event tg m (w, r)) else (w, r)
   | AnonInbox accepts \<Rightarrow> (fst (open_anonymous_inbox accepts tg w), r)
   | AnonBlock rest \<Rightarrow> (fst (process_anon_block now tg rest w), r)
   | AnonReply rest \<Rightarrow> (fst (process_anon_reply tg rest w), r))"

definition inbox_run ::
  "(nat \<Rightarrow> bool) \<Rightarrow> (rat \<Rightarrow> rat) \<Rightarrow> rat option \<Rightarrow> (int \<times> int \<times> inbox_event) list \<Rightarrow> inbox_world \<Rightarrow> inbox_world" where
  "inbox_run word fl event es s = fold (\<lambda>(now, tg, e). inbox_event word now fl event tg e) es s"

lemma inbox_run_induct:
  assumes "P s" and "\<And>now tg e s. (now, tg, e) \<in> set es \<Longrightarrow> P s \<Longrightarrow> P (inbox_event word now fl event tg e s)"
  shows "P (inbox_run word fl event es s)"
  using assms unfolding inbox_run_def
proof (induction es arbitrary: s)
  case (Cons ne es)
  obtain now tg e where ne: "ne = (now, tg, e)" by (metis surj_pair)
  have "P (inbox_event word now fl event tg e s)" using Cons.prems ne by simp
  with Cons.IH [OF this] Cons.prems(2) ne show ?case by simp
qed simp

text \<open>The coin handling touches accounts and the log only.\<close>

definition accounts_only :: "db \<Rightarrow> db \<Rightarrow> bool" where
  "accounts_only d d' \<longleftrightarrow> direct_messages d' = direct_messages d \<and> matches d' = matches d \<and> blocks d' = blocks d \<and>
     anonymous_messages d' = anonymous_messages d"

lemma process_accounts: "accounts_only d (fst (process_coin_transaction now fl event u n t im ref d))"
  by (simp add: accounts_only_def process_coin_transaction_def Let_def add_coin_tx_def upd_user_def)

lemma refund_accounts: "accounts_only d (refund_dm now fl event tg c d)"
  using process_accounts by (simp add: refund_dm_def accounts_only_def split: option.split)

lemma req_accounts: "accounts_only (dw_db w) (dw_db (fst (req_direct_message now fl event tg rest w)))"
proof -
  have r: "accounts_only d d" for d by (simp add: accounts_only_def)
  show ?thesis
    using process_accounts [of "dw_db w" now fl event]
    by (auto simp: req_direct_message_def Let_def split_def r split: option.split sum.split bool.split)
qed

section \<open>A direct message is its receiver's\<close>

text \<open>What a step of \<open>tg\<close> may do to the table: change or delete a message to \<open>tg\<close>, or add one from \<open>tg\<close>.\<close>

inductive dm_change :: "int \<Rightarrow> direct_message tbl \<Rightarrow> direct_message tbl \<Rightarrow> bool" for tg where
  same: "dm_change tg t t"
| sent: "dm_change tg t (insert_row (new_dm now tg r body) t)"
| seen: "m \<in> set (rows t) \<Longrightarrow> dm_receiver_tg_id m = tg \<Longrightarrow> dm_id m = i \<Longrightarrow>
    dm_change tg t (upd_where (\<lambda>m. dm_id m = i) (\<lambda>m. m\<lparr>dm_is_read := True, dm_read_at := stamp\<rparr>) t)"
| gone: "m \<in> set (rows t) \<Longrightarrow> dm_receiver_tg_id m = tg \<Longrightarrow> dm_id m = i \<Longrightarrow>
    dm_change tg t (del_where (\<lambda>m. dm_id m = i) t)"

lemma anon_dms [simp]:
  "direct_messages (dw_db (fst (fst (receive_anonymous_message word now fl event tg m (w, r))))) = direct_messages (dw_db w)"
  using process_accounts [of _ now fl event]
  by (simp add: receive_anonymous_message_def Let_def split_def accounts_only_def leave_def save_anonymous_message_def)

lemma fold_read_dms [simp]: "direct_messages (fold mark_anonymous_message_as_read ids d) = direct_messages d"
  by (induction ids arbitrary: d) (simp_all add: mark_anonymous_message_as_read_def)

lemma dm_row_in: "dm_row i d = Some m \<Longrightarrow> m \<in> set (rows (direct_messages d)) \<and> dm_id m = i"
  by (auto simp: dm_row_def first_where_def dest: find_SomeD)

lemma dm_change_event:
  "dm_change tg (direct_messages (dw_db w)) (direct_messages (dw_db (fst (inbox_event word now fl event tg e (w, r)))))"
proof (cases e)
  case (DmRequest rest)
  then show ?thesis using req_accounts [of w now fl event tg rest]
    by (simp add: inbox_event_def accounts_only_def dm_change.same)
next
  case (DmText t)
  then show ?thesis using refund_accounts [of "dw_db w" now fl event tg "dw_fsm w tg"]
    by (auto simp: inbox_event_def accounts_only_def send_direct_message_def on_dms_def Let_def intro: dm_change.intros)
next
  case (DmView rest)
  then show ?thesis
    by (auto simp: inbox_event_def dm_view_message_def on_dms_def dest!: dm_row_in intro: dm_change.intros split: option.split)
next
  case (DmDelete rest)
  then show ?thesis
    by (auto simp: inbox_event_def dm_delete_def on_dms_def dest!: dm_row_in intro: dm_change.intros split: option.split)
qed (simp_all add: inbox_event_def dm_change.same dm_reply_def open_anonymous_inbox_def process_anon_block_def
  process_anon_reply_def write_anonymous_def Let_def split: list.split option.split)

definition dm_tbl_ok :: "direct_message tbl \<Rightarrow> bool" where
  "dm_tbl_ok t \<longleftrightarrow> distinct (map dm_id (rows t)) \<and> (\<forall>m\<in>set (rows t). dm_id m < next_id t)"

lemma dm_change_ok: "dm_change tg t t' \<Longrightarrow> dm_tbl_ok t \<Longrightarrow> dm_tbl_ok t'"
proof (induction rule: dm_change.induct)
  case (sent t now r body)
  then show ?case by (auto simp: dm_tbl_ok_def insert_row_def new_dm_def)
next
  case (seen m t i stamp)
  have "map dm_id (upd_list (\<lambda>m. dm_id m = i) (\<lambda>m. m\<lparr>dm_is_read := True, dm_read_at := stamp\<rparr>) (rows t)) = map dm_id (rows t)"
    by (simp add: upd_list_keys)
  then show ?case using seen by (auto simp: dm_tbl_ok_def upd_where_def set_upd_list)
next
  case (gone m t i)
  then show ?case by (auto simp: dm_tbl_ok_def del_where_def distinct_map intro: inj_on_subset)
qed simp

lemma dm_change_keeps:
  assumes "dm_change tg t t'" and "m \<in> set (rows t)" and "dm_receiver_tg_id m \<noteq> tg" and "dm_tbl_ok t"
  shows "m \<in> set (rows t')"
  using assms
  by (induction rule: dm_change.induct)
    (auto simp: insert_row_def upd_where_def upd_list_def del_where_def dm_tbl_ok_def distinct_map inj_on_def)

text \<open>C23: A direct message stays in the table as it was written until its receiver reads or deletes it,
  whatever everybody else does with their messages, the sender included.\<close>

theorem direct_message_kept:
  fixes s :: inbox_world
  assumes "dm_tbl_ok (direct_messages (dw_db (fst s)))" and "m \<in> set (rows (direct_messages (dw_db (fst s))))"
    and others: "\<forall>(now, tg, e)\<in>set es. tg \<noteq> dm_receiver_tg_id m"
  shows "m \<in> set (rows (direct_messages (dw_db (fst (inbox_run word fl event es s)))))"
proof -
  let ?P = "\<lambda>s :: inbox_world. dm_tbl_ok (direct_messages (dw_db (fst s))) \<and> m \<in> set (rows (direct_messages (dw_db (fst s))))"
  have "?P (inbox_event word now fl event tg e s')" if "(now, tg, e) \<in> set es" "?P s'" for now tg e s'
  proof -
    have "dm_change tg (direct_messages (dw_db (fst s'))) (direct_messages (dw_db (fst (inbox_event word now fl event tg e s'))))"
      using dm_change_event [of tg "fst s'" word now fl event e "snd s'"] by simp
    moreover have "tg \<noteq> dm_receiver_tg_id m" using others that(1) by blast
    ultimately show ?thesis using that(2) dm_change_ok dm_change_keeps by metis
  qed
  then have "?P (inbox_run word fl event es s)" using assms(1,2) by (intro inbox_run_induct [of ?P]) auto
  then show ?thesis by blast
qed

section \<open>Only filtered text is kept\<close>

lemma image_upd_list: "(\<And>r. P r \<Longrightarrow> key (f r) = key r) \<Longrightarrow> key ` set (upd_list P f xs) = key ` set xs"
  by (metis upd_list_keys list.set_map)

definition clean_text :: "string \<Rightarrow> bool" where
  "clean_text b \<longleftrightarrow> (\<exists>t. b = utf8 t \<and> \<not> has_run 64 ascii_word 5 t \<and> \<not> has_run 57 decimal 9 t)"

definition inbox_texts :: "db \<Rightarrow> string set" where
  "inbox_texts d = dm_body ` set (rows (direct_messages d)) \<union>
     {t. Some t \<in> am_text ` set (rows (anonymous_messages d))}"

lemma filtered_clean: "clean_text (utf8 (fst (apply_security_filters word t)))"
  unfolding clean_text_def using filter_view by blast

lemma texts_cong: "direct_messages d' = direct_messages d \<Longrightarrow> anonymous_messages d' = anonymous_messages d \<Longrightarrow>
    inbox_texts d' = inbox_texts d"
  by (simp add: inbox_texts_def)

lemma texts_process [simp]: "inbox_texts (fst (process_coin_transaction now fl event u n t im ref d)) = inbox_texts d"
  using process_accounts [of d now fl event u n t im ref] by (simp add: accounts_only_def inbox_texts_def)

lemma texts_read: "inbox_texts (fold mark_anonymous_message_as_read ids d) = inbox_texts d"
proof (induction ids arbitrary: d)
  case (Cons i ids)
  have "am_text ` set (rows (anonymous_messages (mark_anonymous_message_as_read i d))) = am_text ` set (rows (anonymous_messages d))"
    by (simp add: mark_anonymous_message_as_read_def upd_where_def image_upd_list)
  then have "inbox_texts (mark_anonymous_message_as_read i d) = inbox_texts d"
    unfolding inbox_texts_def by (simp add: mark_anonymous_message_as_read_def)
  with Cons.IH show ?case by simp
qed simp

lemma texts_saved: "inbox_texts (save_anonymous_message now a b (Some t) im mt f d) = insert t (inbox_texts d)"
  by (auto simp: inbox_texts_def save_anonymous_message_def insert_row_def)

lemma bodies [simp]:
  "dm_body ` set (rows (insert_row (new_dm now a b t) tb)) = insert (utf8 t) (dm_body ` set (rows tb))"
  "dm_body ` set (rows (upd_where P (\<lambda>m. m\<lparr>dm_is_read := x, dm_read_at := y\<rparr>) tb)) = dm_body ` set (rows tb)"
  by (simp_all add: insert_row_def new_dm_def upd_where_def image_upd_list)

lemma texts_on_dms:
  "inbox_texts (dw_db (on_dms f w)) = dm_body ` set (rows (f (direct_messages (dw_db w)))) \<union>
     {t. Some t \<in> am_text ` set (rows (anonymous_messages (dw_db w)))}"
  by (simp add: inbox_texts_def on_dms_def)

lemma texts_dm_text:
  "inbox_texts (dw_db (fst (send_direct_message word now fl event tg t w))) \<subseteq> inbox_texts (dw_db w) \<union> Collect clean_text"
proof -
  have "inbox_texts (refund_dm now fl event tg c (dw_db w)) = inbox_texts (dw_db w)" for c
    using refund_accounts [of "dw_db w" now fl event tg c] by (intro texts_cong) (simp_all add: accounts_only_def)
  moreover have "inbox_texts (dw_db (on_dms (insert_row (new_dm now tg k (fst (apply_security_filters word b)))) w)) \<subseteq>
      inbox_texts (dw_db w) \<union> Collect clean_text" for k b
    unfolding texts_on_dms bodies using filtered_clean by (auto simp: inbox_texts_def)
  ultimately show ?thesis by (simp add: send_direct_message_def Let_def le_supI1)
qed

lemma texts_dm_buttons:
  "inbox_texts (dw_db (fst (dm_view_message now tg rest w))) \<subseteq> inbox_texts (dw_db w)"
  "inbox_texts (dw_db (fst (dm_delete tg rest w))) \<subseteq> inbox_texts (dw_db w)"
  "inbox_texts (dw_db (fst (req_direct_message now fl event tg rest w))) = inbox_texts (dw_db w)"
  "inbox_texts (dw_db (fst (dm_reply tg ps w))) = inbox_texts (dw_db w)"
proof -
  have "inbox_texts (dw_db (on_dms (upd_where P (\<lambda>m. m\<lparr>dm_is_read := x, dm_read_at := y\<rparr>)) w)) = inbox_texts (dw_db w)" for P x y
    unfolding texts_on_dms bodies by (simp add: inbox_texts_def)
  then show "inbox_texts (dw_db (fst (dm_view_message now tg rest w))) \<subseteq> inbox_texts (dw_db w)"
    by (simp add: dm_view_message_def split: option.split)
  show "inbox_texts (dw_db (fst (dm_delete tg rest w))) \<subseteq> inbox_texts (dw_db w)"
    by (simp add: dm_delete_def texts_on_dms del_where_def split: option.split) (auto simp: inbox_texts_def)
  show "inbox_texts (dw_db (fst (req_direct_message now fl event tg rest w))) = inbox_texts (dw_db w)"
    using req_accounts [of w now fl event tg rest] by (intro texts_cong) (simp_all add: accounts_only_def)
  show "inbox_texts (dw_db (fst (dm_reply tg ps w))) = inbox_texts (dw_db w)"
    by (simp add: dm_reply_def split: list.split option.split)
qed

lemma texts_anon:
  "inbox_texts (dw_db (fst (fst (receive_anonymous_message word now fl event tg m (w, r))))) \<subseteq>
     inbox_texts (dw_db w) \<union> Collect clean_text"
  "inbox_texts (dw_db (fst (open_anonymous_inbox accepts tg w))) = inbox_texts (dw_db w)"
  "inbox_texts (dw_db (fst (process_anon_block now tg rest w))) = inbox_texts (dw_db w)"
  "inbox_texts (dw_db (fst (process_anon_reply tg rest w))) = inbox_texts (dw_db w)"
proof -
  show "inbox_texts (dw_db (fst (fst (receive_anonymous_message word now fl event tg m (w, r))))) \<subseteq>
     inbox_texts (dw_db w) \<union> Collect clean_text"
    using filtered_clean by (auto simp: receive_anonymous_message_def Let_def split_def leave_def texts_saved)
  show "inbox_texts (dw_db (fst (open_anonymous_inbox accepts tg w))) = inbox_texts (dw_db w)"
    by (simp add: open_anonymous_inbox_def Let_def texts_read)
  show "inbox_texts (dw_db (fst (process_anon_block now tg rest w))) = inbox_texts (dw_db w)"
    by (simp add: process_anon_block_def inbox_texts_def split: option.split)
  show "inbox_texts (dw_db (fst (process_anon_reply tg rest w))) = inbox_texts (dw_db w)"
    by (simp add: process_anon_reply_def write_anonymous_def split: option.split)
qed

lemma texts_event:
  "inbox_texts (dw_db (fst (inbox_event word now fl event tg e (w, r)))) \<subseteq> inbox_texts (dw_db w) \<union> Collect clean_text"
  using texts_dm_text texts_dm_buttons texts_anon
  by (cases e) (simp_all add: inbox_event_def le_supI1)


section \<open>What messages cost and earn\<close>

lemma credit_balance:
  assumes "get_user d (u_tg_id u) \<noteq> None" and "0 \<le> n"
  shows "coin_balance (fst (process_coin_transaction now fl event u n t im ref d)) k =
    coin_balance d k + (if k = u_tg_id u then event_amount fl event im n else 0)"
  using assms by (auto simp: process_credit coin_balance_def get_upd_user earn_def)

lemma refund_balance:
  assumes "nonzero (fsm_int DM_TO c)" and "\<not> nonzero (fsm_int DM_FREE c)" and "get_user d tg \<noteq> None"
  shows "coin_balance (refund_dm now fl event tg c d) k =
    coin_balance d k + (if k = tg then event_amount fl event False 1 else 0)"
proof -
  obtain u where u: "get_user d tg = Some u" using assms(3) by auto
  with get_user_tg [OF u] show ?thesis
    using assms(1,2) credit_balance [of d u 1] by (simp add: refund_dm_def)
qed

lemma reserve_balance:
  assumes "users_unique d" and "get_user d tg = Some u"
    and "process_coin_transaction now fl event u (-1) t False None d = (d1, u1, True)"
  shows "coin_balance d1 k = coin_balance d k - (if k = tg then 1 else 0)" and "get_user d1 tg \<noteq> None"
proof -
  have tg: "u_tg_id u = tg" using assms(2) by (rule get_user_tg)
  have d1: "d1 = add_coin_tx now tg (- 1) t None ''generic'' (upd_user tg (spend 1) d)"
    using assms(3) process_debit [OF assms(1), of u u "-1" now fl event t False None] assms(2) tg by (simp split: if_splits)
  show "coin_balance d1 k = coin_balance d k - (if k = tg then 1 else 0)"
    using assms(2) by (auto simp: d1 coin_balance_def get_upd_user spend_def)
  show "get_user d1 tg \<noteq> None" using assms(2) by (simp add: d1 get_upd_user spend_def)
qed

text \<open>A direct message that is opened and given up: the reserved coin is paid back as a gain of one coin, which
  a running event multiplies; the dialogue is as before.\<close>

theorem dm_cancel_refunds:
  assumes opened: "req_direct_message now fl event tg rest w = (w1, AskDm False)"
    and fresh: "\<forall>k\<in>{DM_TO, DM_PREV, DM_REPLY_TO, DM_FREE}. fsm_data (dw_fsm w tg) k = None" "fsm_state (dw_fsm w tg) \<noteq> Some []"
    and there: "fsm_int DM_TO (dw_fsm w1 tg) \<noteq> Some 0" and unique: "users_unique (dw_db w)"
  shows "let w2 = fst (send_direct_message word now' fl event' tg (btn ''CANCEL'') w1) in dw_fsm w2 tg = dw_fsm w tg \<and>
    (\<forall>k. coin_balance (dw_db w2) k = coin_balance (dw_db w) k + (if k = tg then event_amount fl event' False 1 - 1 else 0))"
proof -
  obtain target u d1 u1 where u: "get_user (dw_db w) tg = Some u"
    and p: "process_coin_transaction now fl event u (-1) TxDirectReserve False None (dw_db w) = (d1, u1, True)"
    and w1: "w1 = on_fsm tg (open_dm target False) (w\<lparr>dw_db := d1\<rparr>)"
    using opened by (auto simp: req_direct_message_def Let_def split: option.splits if_splits sum.splits bool.splits prod.splits)
  note b = reserve_balance [OF unique u p]
  have keys: "DM_TO \<noteq> DM_PREV" "DM_TO \<noteq> DM_FREE" "DM_PREV \<noteq> DM_FREE"
    by (simp_all add: DM_TO_def DM_PREV_def DM_FREE_def)
  have c: "fsm_int DM_TO (dw_fsm w1 tg) = Some target" "fsm_int DM_FREE (dw_fsm w1 tg) = Some 0"
    "fsm_str DM_PREV (dw_fsm w1 tg) = fsm_state (dw_fsm w tg)"
    using keys by (simp_all add: w1 open_dm_def fsm_int_def fsm_str_def split: option.split)
  have data: "drop_keys [DM_TO, DM_PREV, DM_REPLY_TO, DM_FREE] (fsm_data (dw_fsm w1 tg)) = fsm_data (dw_fsm w tg)"
    using fresh(1) by (auto simp: w1 open_dm_def drop_keys_apply fun_eq_iff)
  then have "close_dm (dw_fsm w1 tg) = dw_fsm w tg"
    using fresh(2) by (cases "fsm_state (dw_fsm w tg)") (simp_all add: close_dm_def c(3))
  moreover have "dw_db w1 = d1" by (simp add: w1)
  moreover have "nonzero (fsm_int DM_TO (dw_fsm w1 tg))" "\<not> nonzero (fsm_int DM_FREE (dw_fsm w1 tg))"
    using there by (simp_all add: c(1,2) nonzero_def)
  ultimately show ?thesis
    using b refund_balance [of "dw_fsm w1 tg" d1 tg now' fl event'] by (simp add: send_direct_message_def Let_def)
qed

text \<open>Giving up a reply pays back a coin that was never taken.\<close>

theorem reply_cancel_mints:
  assumes opened: "dm_reply tg ps w = (w1, AskReply)" and "\<not> nonzero (fsm_int DM_FREE (dw_fsm w tg))"
    and there: "fsm_int DM_TO (dw_fsm w1 tg) \<noteq> Some 0" and known: "get_user (dw_db w) tg \<noteq> None"
  shows "coin_balance (dw_db (fst (send_direct_message word now fl event tg (btn ''CANCEL'') w1))) tg =
    coin_balance (dw_db w) tg + event_amount fl event False 1"
proof -
  have keys: "DM_FREE \<noteq> DM_TO" "DM_FREE \<noteq> DM_REPLY_TO" "DM_FREE \<noteq> DM_PREV" "DM_TO \<noteq> DM_PREV" "DM_TO \<noteq> DM_REPLY_TO"
    by (simp_all add: DM_TO_def DM_PREV_def DM_FREE_def DM_REPLY_TO_def)
  have "fsm_int DM_FREE (dw_fsm w1 tg) = fsm_int DM_FREE (dw_fsm w tg)" "fsm_int DM_TO (dw_fsm w1 tg) \<noteq> None" "dw_db w1 = dw_db w"
    using opened keys by (auto simp: dm_reply_def fsm_int_def split: if_splits list.splits option.splits)
  then show ?thesis
    using assms refund_balance [of "dw_fsm w1 tg" "dw_db w" tg now fl event]
    by (simp add: send_direct_message_def nonzero_def)
qed

section \<open>One reward per sender\<close>

definition reward_text :: "tx_text \<Rightarrow> bool" where
  "reward_text t \<longleftrightarrow> (case t of TxAnonReward \<Rightarrow> True | TxEvent TxAnonReward m \<Rightarrow> True | _ \<Rightarrow> False)"

definition anon_rewards :: "int \<Rightarrow> db \<Rightarrow> coin_transaction list" where
  "anon_rewards k d = filter (\<lambda>t. ct_user_id t = k \<and> reward_text (ct_description t)) (rows (coin_txs d))"

lemma rewards_add [simp]:
  "anon_rewards k (add_coin_tx now u n t r x d) =
     anon_rewards k d @ (if u = k \<and> reward_text t then [new_coin_tx now u n t r x (next_id (coin_txs d))] else [])"
  by (simp add: anon_rewards_def add_coin_tx_def insert_row_def new_coin_tx_def)

lemma rewards_upd_user [simp]: "anon_rewards k (upd_user j f d) = anon_rewards k d"
  by (simp add: anon_rewards_def upd_user_def)

lemma rewards_cong: "coin_txs d' = coin_txs d \<Longrightarrow> anon_rewards k d' = anon_rewards k d"
  by (simp add: anon_rewards_def)

lemma rewards_process:
  "length (anon_rewards k (fst (process_coin_transaction now fl event u n t False ref d))) = length (anon_rewards k d) +
     (if snd (snd (process_coin_transaction now fl event u n t False ref d)) \<and> u_tg_id u = k \<and>
         reward_text (if n < 0 then t else event_text event False t) then 1 else 0)"
proof -
  have "anon_rewards k (d\<lparr>users := x\<rparr>) = anon_rewards k d" for x by (simp add: anon_rewards_def)
  then show ?thesis by (simp add: process_coin_transaction_def Let_def)
qed

lemma rewards_other:
  assumes "t \<in> {TxDirectReserve, TxDirectRefund}"
  shows "length (anon_rewards k (fst (process_coin_transaction now fl event u n t False ref d))) = length (anon_rewards k d)"
  using assms by (auto simp: rewards_process event_text_def reward_text_def split: option.split)

lemma rewards_anon:
  "length (anon_rewards k (fst (process_coin_transaction now fl event u 3 TxAnonReward False ref d))) = length (anon_rewards k d) +
     (if u_tg_id u = k then 1 else 0)"
  by (auto simp: rewards_process process_credit event_text_def reward_text_def split: option.split)

definition rewards_grow :: "int \<Rightarrow> inbox_world \<Rightarrow> inbox_world \<Rightarrow> bool" where
  "rewards_grow tg s s' \<longleftrightarrow>
     snd s' = snd s \<and> (\<forall>k. length (anon_rewards k (dw_db (fst s'))) = length (anon_rewards k (dw_db (fst s)))) \<or>
     (\<exists>j. (j, tg) \<notin> snd s \<and> snd s' = insert (j, tg) (snd s) \<and>
       (\<forall>k. length (anon_rewards k (dw_db (fst s'))) = length (anon_rewards k (dw_db (fst s))) + (if k = j then 1 else 0)))"

lemma rewards_receive: "rewards_grow tg (w, r) (fst (receive_anonymous_message word now fl event tg m (w, r)))"
proof -
  have "anon_rewards k (save_anonymous_message n a b t im mt f d) = anon_rewards k d" for k n a b t im mt f d
    by (simp add: anon_rewards_def save_anonymous_message_def)
  moreover have "get_user (save_anonymous_message n a b t im mt f d) k = get_user d k" for k n a b t im mt f d
    by (simp add: get_user_def save_anonymous_message_def)
  ultimately show ?thesis
    using get_user_tg [of "dw_db w"]
    by (auto simp: receive_anonymous_message_def Let_def split_def rewards_grow_def leave_def rewards_anon)
qed

lemma rewards_event: "rewards_grow tg s (inbox_event word now fl event tg e s)"
proof -
  obtain w r where s: "s = (w, r)" by (metis surj_pair)
  have same: "rewards_grow tg (w, r) (w', r)" if "\<And>k. length (anon_rewards k (dw_db w')) = length (anon_rewards k (dw_db w))" for w'
    using that by (simp add: rewards_grow_def)
  have eq: "rewards_grow j (w, r) (w', r)" if "coin_txs (dw_db w') = coin_txs (dw_db w)" for w' j
    using that rewards_cong [of "dw_db w'" "dw_db w"] by (simp add: rewards_grow_def)
  have mark: "coin_txs (fold mark_anonymous_message_as_read ids d) = coin_txs d" for ids d
    by (induction ids arbitrary: d) (simp_all add: mark_anonymous_message_as_read_def)
  show ?thesis
  proof (cases e)
    case (DmRequest rest)
    have "length (anon_rewards k (dw_db (fst (req_direct_message now fl event tg rest w)))) = length (anon_rewards k (dw_db w))" for k
      using rewards_other [of TxDirectReserve k now fl event _ "-1" None "dw_db w"]
      by (simp add: req_direct_message_def Let_def split_def split: option.split sum.split bool.split)
    then show ?thesis using same by (simp add: DmRequest s inbox_event_def)
  next
    case (DmText t)
    have "length (anon_rewards k (dw_db (fst (send_direct_message word now fl event tg t w)))) = length (anon_rewards k (dw_db w))" for k
      using rewards_other [of TxDirectRefund k now fl event _ 1 None "dw_db w"]
      by (simp add: send_direct_message_def refund_dm_def on_dms_def anon_rewards_def Let_def split: option.split)
    then show ?thesis using same by (simp add: DmText s inbox_event_def)
  next
    case (AnonText m)
    have "rewards_grow tg (w, r) (w, r)" by (rule eq) simp
    then show ?thesis using rewards_receive by (simp add: AnonText s inbox_event_def)
  qed (auto simp: s inbox_event_def dm_reply_def dm_view_message_def on_dms_def dm_delete_def open_anonymous_inbox_def mark
    process_anon_block_def process_anon_reply_def write_anonymous_def Let_def intro!: eq split: list.split option.split)
qed

definition new_senders :: "int \<Rightarrow> inbox_world \<Rightarrow> inbox_world \<Rightarrow> int set" where
  "new_senders k s s' = {a. (k, a) \<in> snd s' \<and> (k, a) \<notin> snd s}"

text \<open>A user is rewarded for anonymous messages once per sender, however many messages they send and whatever
  else they do: the rewards booked for a user rise by the number of senders who are new to the user.\<close>

theorem anon_reward_per_sender:
  fixes s :: inbox_world
  shows "let s' = inbox_run word fl event es s in new_senders k s s' \<subseteq> (\<lambda>(now, tg, e). tg) ` set es \<and>
    length (anon_rewards k (dw_db (fst s'))) = length (anon_rewards k (dw_db (fst s))) + card (new_senders k s s')"
proof -
  let ?new = "\<lambda>s'. new_senders k s s'"
  let ?P = "\<lambda>s'. ?new s' \<subseteq> (\<lambda>(now, tg, e). tg) ` set es \<and> snd s \<subseteq> snd s' \<and>
    length (anon_rewards k (dw_db (fst s'))) = length (anon_rewards k (dw_db (fst s))) + card (?new s')"
  have "?P (inbox_event word now fl event tg e s')" if e: "(now, tg, e) \<in> set es" and p: "?P s'" for now tg e s'
  proof -
    let ?s = "inbox_event word now fl event tg e s'"
    have fin: "finite (?new s')" using p finite_subset by blast
    from rewards_event [of tg s' word now fl event e] show ?thesis
      unfolding rewards_grow_def
    proof (elim disjE exE conjE)
      assume "snd ?s = snd s'" "\<forall>k. length (anon_rewards k (dw_db (fst ?s))) = length (anon_rewards k (dw_db (fst s')))"
      with p show ?thesis by (simp add: new_senders_def)
    next
      fix j
      assume j: "(j, tg) \<notin> snd s'" "snd ?s = insert (j, tg) (snd s')"
        "\<forall>k. length (anon_rewards k (dw_db (fst ?s))) = length (anon_rewards k (dw_db (fst s'))) + (if k = j then 1 else 0)"
      have "?new ?s = (if k = j then insert tg (?new s') else ?new s')" "tg \<notin> ?new s' \<or> k \<noteq> j"
        using p j(1,2) by (auto simp: new_senders_def)
      moreover have "tg \<in> (\<lambda>(now, tg, e). tg) ` set es" using e by force
      ultimately show ?thesis using p j fin by auto
    qed
  qed
  moreover have "?P s" by (simp add: new_senders_def)
  ultimately have "?P (inbox_run word fl event es s)" by (rule inbox_run_induct [of ?P, rotated])
  then show ?thesis by (simp add: Let_def)
qed

section \<open>Witnesses\<close>

definition one_dm :: inbox_world where
  "one_dm = (on_dms (insert_row (new_dm 0 1 2 [104, 105])) quiet_world, {})"

lemma one_dm_rows [simp]:
  "rows (direct_messages (dw_db (fst one_dm))) = [new_dm 0 1 2 [104, 105] 1]" "next_id (direct_messages (dw_db (fst one_dm))) = 2"
  "rows (anonymous_messages (dw_db (fst one_dm))) = []"
  by (simp_all add: one_dm_def on_dms_def insert_row_def demo_db_def empty_db_def empty_tbl_def)

theorem direct_message_kept_witness:
  "\<forall>word fl event. new_dm 0 1 2 [104, 105] 1 \<in> set (rows (direct_messages (dw_db (fst
     (inbox_run word fl event [(5, 1, DmDelete (py_str 1)), (6, 3, DmView (py_str 1))] one_dm)))))"
proof -
  have "dm_tbl_ok (direct_messages (dw_db (fst one_dm)))" by (simp add: dm_tbl_ok_def new_dm_def)
  moreover have "new_dm 0 1 2 [104, 105] 1 \<in> set (rows (direct_messages (dw_db (fst one_dm))))" by simp
  moreover have "\<forall>(now, tg, e)\<in>set [(5, 1, DmDelete (py_str 1)), (6, 3, DmView (py_str 1))]. tg \<noteq> dm_receiver_tg_id (new_dm 0 1 2 [104, 105] 1)"
    by (simp add: new_dm_def)
  ultimately show ?thesis using direct_message_kept by blast
qed


definition dm_opened :: dworld where
  "dm_opened = fst (req_direct_message 0 id None 1 (py_str 2) quiet_world)"

lemma id_text [simp]: "remove_word (lit s) (py_str 2) = py_str 2" if "lit s \<noteq> []" "hd (lit s) \<notin> {45, 50}" for s
proof -
  have "py_str 2 = [50]" by (simp add: py_str_def nat_str.simps)
  then show ?thesis using that by (cases "lit s") (auto simp: starts_with_def)
qed

lemma quiet_db: "get_active_match k demo_db = None" "blocked_either a b demo_db = Inr False"
  by (simp_all add: get_active_match_def first_where_def demo_db_def empty_db_def empty_tbl_def blocked_either_def sel_where_def)

lemma dm_opened_view: "req_direct_message 0 id None 1 (py_str 2) quiet_world = (dm_opened, AskDm False)"
  "fsm_int DM_TO (dw_fsm dm_opened 1) = Some 2"
proof -
  have "u_silent_until alice = None" by (simp add: alice_def new_user_def)
  moreover have "remove_word (lit ''req_direct_'') (py_str 2) = py_str 2" by (rule id_text) (simp_all add: lit_def)
  moreover have "DM_TO \<noteq> DM_PREV" "DM_TO \<noteq> DM_FREE" by (simp_all add: DM_TO_def DM_PREV_def DM_FREE_def)
  ultimately show "req_direct_message 0 id None 1 (py_str 2) quiet_world = (dm_opened, AskDm False)"
    "fsm_int DM_TO (dw_fsm dm_opened 1) = Some 2"
    unfolding dm_opened_def
    by (simp_all add: req_direct_message_def py_int_str quiet_db dm_silent_def dm_vip_def process_debit [of demo_db alice alice]
        users_unique_def open_dm_def fsm_int_def)
qed

theorem dm_cancel_refunds_witness:
  "\<forall>word. coin_balance (dw_db (fst (send_direct_message word 9 id (Some 2) 1 (btn ''CANCEL'') dm_opened))) 1 = 4"
proof -
  have u: "users_unique (dw_db quiet_world)" by (simp add: users_unique_def)
  have "event_amount id (Some 2) False 1 = 2" by (simp add: event_amount_def py_trunc_def)
  then show ?thesis
    using dm_cancel_refunds [OF dm_opened_view(1) _ _ _ u] dm_opened_view(2) by (simp add: Let_def coin_balance_def)
qed

theorem reply_cancel_mints_witness:
  "\<forall>word. coin_balance (dw_db (fst (send_direct_message word 9 id None 1 (btn ''CANCEL'')
     (fst (dm_reply 1 [py_str 7, py_str 2] quiet_world))))) 1 = 4"
proof -
  let ?w = "fst (dm_reply 1 [py_str 7, py_str 2] quiet_world)"
  have k: "DM_TO \<noteq> DM_PREV" "DM_TO \<noteq> DM_REPLY_TO" by (simp_all add: DM_TO_def DM_PREV_def DM_REPLY_TO_def)
  have "dm_reply 1 [py_str 7, py_str 2] quiet_world = (?w, AskReply)" by (simp add: dm_reply_def quiet_db py_int_str)
  moreover have "fsm_int DM_TO (dw_fsm ?w 1) = Some 2" using k by (simp add: dm_reply_def quiet_db py_int_str fsm_int_def)
  moreover have "\<not> nonzero (fsm_int DM_FREE (dw_fsm quiet_world 1))" by (simp add: fsm_int_def nonzero_def)
  ultimately show ?thesis
    using reply_cancel_mints [of 1 "[py_str 7, py_str 2]" quiet_world ?w]
    by (simp add: coin_balance_def event_amount_def)
qed

end
