(* ===== verification/Comments.thy ===== *)
theory Comments
  imports TransferDialog Interactions
begin

text \<open>
  The comments on a profile (\<open>bot/handlers/comments.py\<close>): pages of three, one comment per author, written in
  a dialogue that remembers what it interrupts, deleted by the author or the owner, and the owner's buttons to
  block an author and to close the comments.  How a comment and its time look is not modelled.
\<close>

section \<open>The dialogue's frame\<close>

definition WAITING_COMMENT :: string where "WAITING_COMMENT = ''ProfileCommentStates:waiting_for_comment_text''"
definition COMMENT_TARGET :: string where "COMMENT_TARGET = ''target_tg_id''"
definition COMMENT_PREV :: string where "COMMENT_PREV = ''__comment_prev_state__''"
definition COMMENT_META :: string where "COMMENT_META = ''__comment_chat_meta_snapshot__''"

definition COMMENT_TEMP_KEYS :: "string list" where
  "COMMENT_TEMP_KEYS = [COMMENT_TARGET, COMMENT_PREV, COMMENT_META]"

text \<open>Without an active match, a dialogue or an engine state that speaks of one is cleared.  The status \<open>dating\<close>
  is written nowhere.\<close>

definition zombie_status :: "int \<Rightarrow> dworld \<Rightarrow> bool" where
  "zombie_status tg w = (case ms_state (dw_store w) tg of
     None \<Rightarrow> False | Some u \<Rightarrow> us_status u \<in> {Some Chatting, Some InChat, Some InDate})"

definition is_in_active_session :: "int \<Rightarrow> dworld \<Rightarrow> dworld \<times> bool" where
  "is_in_active_session tg w =
     (if get_active_match tg (dw_db w) \<noteq> None then (w, True)
      else if pipeline_state (fsm_state (dw_fsm w tg)) \<or> zombie_status tg w then (drop_state tg (leave tg w), False)
      else (w, False))"

definition preserve_comment :: "fsm \<Rightarrow> fsm" where
  "preserve_comment c = c\<lparr>fsm_data := (fsm_data c)(COMMENT_PREV := map_option FStr (fsm_state c),
     COMMENT_META \<mapsto> FDict (chat_meta (fsm_data c)))\<rparr>"

definition comment_snapshot :: "fsm \<Rightarrow> (string \<times> fval) list" where
  "comment_snapshot c = (case fsm_data c COMMENT_META of Some (FDict kvs) \<Rightarrow> kvs | _ \<Rightarrow> [])"

definition restore_comment :: "int \<Rightarrow> dworld \<Rightarrow> dworld" where
  "restore_comment tg w =
     (let c = dw_fsm w tg;
          prev = fsm_str COMMENT_PREV c;
          data = fill_missing (comment_snapshot c) (drop_keys COMMENT_TEMP_KEYS (fsm_data c));
          am = get_active_match tg (dw_db w)
      in if pipeline_state prev \<and> am = None then leave tg w
         else let p = (if prev = Some WAITING_COMMENT then None else prev) in
         if truthy p then on_fsm tg (\<lambda>_. \<lparr>fsm_state = p, fsm_data = data\<rparr>) w
         else (case am of
             None \<Rightarrow> leave tg w
           | Some m \<Rightarrow> on_fsm tg (\<lambda>_. \<lparr>fsm_state = Some (if mh_questionnaire_completed m then CHAT_ACTIVE else ANSWERING),
                                     fsm_data = data\<rparr>) w))"

section \<open>Pages\<close>

definition PER_PAGE :: nat where
  "PER_PAGE = 3"

record comments_page =
  cp_comments :: "profile_comment list"
  cp_total :: nat
  cp_deletable :: "int list"
  cp_blockable :: "int list"
  cp_prev :: "nat option"
  cp_next :: "nat option"
  cp_toggle :: "bool option"
  cp_may_write :: bool

definition comments_page :: "int \<Rightarrow> int \<Rightarrow> nat \<Rightarrow> db \<Rightarrow> comments_page" where
  "comments_page viewer target page d =
     (let (cs, total) = get_profile_comments PER_PAGE target page d;
          own = (viewer = target); off = are_comments_disabled target d
      in \<lparr>cp_comments = cs, cp_total = total,
          cp_deletable = map pc_id (filter (\<lambda>c. own \<or> pc_author_tg_id c = viewer) cs),
          cp_blockable = map pc_author_tg_id (filter (\<lambda>c. own \<and> pc_author_tg_id c \<noteq> viewer) cs),
          cp_prev = (if page > 0 then Some (page - 1) else None),
          cp_next = (if (page + 1) * PER_PAGE < total then Some (page + 1) else None),
          cp_toggle = (if own then Some off else None),
          cp_may_write = (\<not> own \<and> \<not> off)\<rparr>)"

definition show_comments :: "int \<Rightarrow> ustr list \<Rightarrow> db \<Rightarrow> comments_page option" where
  "show_comments viewer ps d =
     (case ps of
        [] \<Rightarrow> None
      | p # qs \<Rightarrow> (case (py_int p, case qs of [] \<Rightarrow> Some 0 | q # _ \<Rightarrow> py_int q) of
          (Some target, Some page) \<Rightarrow> if page < 0 then None else Some (comments_page viewer target (nat page) d)
        | _ \<Rightarrow> None))"

text \<open>After a deletion or a block: the page before when the page is empty.\<close>

definition page_after :: "int \<Rightarrow> int \<Rightarrow> nat \<Rightarrow> db \<Rightarrow> comments_page" where
  "page_after viewer target page d =
     comments_page viewer target (if fst (get_profile_comments PER_PAGE target page d) = [] then page - 1 else page) d"

section \<open>Writing\<close>

datatype comment_step = CommentBad | CommentOwn | CommentInSession | CommentsClosed | BlockedByOwner | BlockedOwner
  | AskComment "string option" | CommentRaised | CommentEmpty | CommentLong nat | CommentExpired | CommentFailed
  | CommentSaved bool | CommentNotFound | CommentDeleted comments_page | CommentForbidden | AuthorBlocked comments_page
  | BlockRefused block_reply | NoSuchOwner | Toggled bool comments_page | NotCommenting

text \<open>Who may write: the checks on entry and, again, on submission.\<close>

definition comment_refused :: "int \<Rightarrow> int \<Rightarrow> db \<Rightarrow> comment_step option" where
  "comment_refused author target d =
     (if are_comments_disabled target d then Some CommentsClosed
      else if is_blocked target author d then Some BlockedByOwner
      else if is_blocked author target d then Some BlockedOwner
      else None)"

definition start_add_comment :: "int \<Rightarrow> ustr list \<Rightarrow> dworld \<Rightarrow> dworld \<times> comment_step" where
  "start_add_comment tg ps w =
     (case ps of
        [] \<Rightarrow> (w, CommentBad)
      | p # _ \<Rightarrow> (case py_int p of
          None \<Rightarrow> (w, CommentBad)
        | Some target \<Rightarrow>
            if target = tg then (w, CommentOwn)
            else (case is_in_active_session tg w of
              (w1, True) \<Rightarrow> (w1, CommentInSession)
            | (w1, False) \<Rightarrow>
                (case comment_refused tg target (dw_db w1) of
                   Some r \<Rightarrow> (w1, r)
                 | None \<Rightarrow> (on_fsm tg (\<lambda>c. update_data COMMENT_TARGET (FInt target)
                              (set_state (Some WAITING_COMMENT) (preserve_comment c))) w1,
                            AskComment (map_option pc_text (get_my_comment_on_profile tg target (dw_db w1))))))))"

definition lower_text :: "ustr \<Rightarrow> ustr" where
  "lower_text = map (\<lambda>c. if 65 \<le> c \<and> c \<le> 90 then c + 32 else c)"

text \<open>On \<open>/cancel\<close> the code reads \<open>author_tg_id\<close> before it is assigned and raises \<open>UnboundLocalError\<close>.\<close>

definition process_comment_text :: "int \<Rightarrow> int \<Rightarrow> ustr option \<Rightarrow> dworld \<Rightarrow> dworld \<times> comment_step" where
  "process_comment_text now tg t w =
     (let text_in = strip (case t of None \<Rightarrow> [] | Some s \<Rightarrow> s) in
      if lower_text text_in = lit ''/cancel'' then (w, CommentRaised)
      else if text_in = [] then (w, CommentEmpty)
      else if length text_in > 300 then (w, CommentLong (length text_in))
      else let target0 = fsm_int COMMENT_TARGET (dw_fsm w tg) in
      if \<not> nonzero target0 then (restore_comment tg w, CommentExpired)
      else let target = the target0 in
      if target = tg then (restore_comment tg w, CommentOwn)
      else (case is_in_active_session tg w of
        (w1, True) \<Rightarrow> (restore_comment tg w1, CommentInSession)
      | (w1, False) \<Rightarrow>
          (case comment_refused tg target (dw_db w1) of
             Some r \<Rightarrow> (restore_comment tg w1, r)
           | None \<Rightarrow>
               if get_user (dw_db w1) tg = None \<or> get_user (dw_db w1) target = None then (restore_comment tg w1, CommentFailed)
               else (restore_comment tg (on_db (upsert_profile_comment now tg target (utf8 (escape_text text_in))) w1),
                     CommentSaved (get_my_comment_on_profile tg target (dw_db w1) \<noteq> None)))))"

section \<open>Deleting, blocking, closing\<close>

definition delete_comment :: "int \<Rightarrow> ustr list \<Rightarrow> dworld \<Rightarrow> dworld \<times> comment_step" where
  "delete_comment tg ps w =
     (case map py_int ps of
        Some cid # Some target # Some page # _ \<Rightarrow>
          (case delete_profile_comment cid tg (dw_db w) of
             (d, False) \<Rightarrow> (w, CommentNotFound)
           | (d, True) \<Rightarrow> if page < 0 then (w\<lparr>dw_db := d\<rparr>, CommentRaised)
                          else (w\<lparr>dw_db := d\<rparr>, CommentDeleted (page_after tg target (nat page) d)))
      | _ \<Rightarrow> (w, CommentBad))"

definition block_comment_author ::
  "int list \<Rightarrow> int \<Rightarrow> string \<Rightarrow> int \<Rightarrow> ustr list \<Rightarrow> dworld \<Rightarrow> dworld \<times> comment_step" where
  "block_comment_author tries now token tg ps w =
     (case map py_int ps of
        Some author # Some target # Some page # _ \<Rightarrow>
          if tg \<noteq> target then (w, CommentForbidden)
          else (case execute_user_blocking tries now token target author w of
            (w1, Blocked) \<Rightarrow> if page < 0 then (w1, CommentRaised)
                            else (w1, AuthorBlocked (page_after tg target (nat page) (dw_db w1)))
          | (w1, r) \<Rightarrow> (w1, BlockRefused r))
      | _ \<Rightarrow> (w, CommentRaised))"

definition toggle_comments :: "int \<Rightarrow> ustr list \<Rightarrow> dworld \<Rightarrow> dworld \<times> comment_step" where
  "toggle_comments tg ps w =
     (case ps of
        [] \<Rightarrow> (w, CommentRaised)
      | p # qs \<Rightarrow> (case (py_int p, case qs of [] \<Rightarrow> Some 0 | q # _ \<Rightarrow> py_int q) of
          (Some target, Some page) \<Rightarrow>
            if tg \<noteq> target then (w, CommentForbidden)
            else (case toggle_comments_disabled target (dw_db w) of
              (d, None) \<Rightarrow> (w, NoSuchOwner)
            | (d, Some off) \<Rightarrow> if page < 0 then (w\<lparr>dw_db := d\<rparr>, CommentRaised)
                              else (w\<lparr>dw_db := d\<rparr>, Toggled off (comments_page tg target (nat page) d)))
        | _ \<Rightarrow> (w, CommentRaised)))"

section \<open>The events\<close>

datatype comment_event = PressWrite "ustr list" | SendComment "ustr option" | PressDelete "ustr list"
  | PressBlock "int list" string "ustr list" | PressToggle "ustr list"

definition comment_event :: "int \<Rightarrow> int \<Rightarrow> comment_event \<Rightarrow> dworld \<Rightarrow> dworld \<times> comment_step" where
  "comment_event now tg e w = (case e of
     PressWrite ps \<Rightarrow> start_add_comment tg ps w
   | SendComment t \<Rightarrow> if fsm_state (dw_fsm w tg) = Some WAITING_COMMENT then process_comment_text now tg t w else (w, NotCommenting)
   | PressDelete ps \<Rightarrow> delete_comment tg ps w
   | PressBlock tries token ps \<Rightarrow> block_comment_author tries now token tg ps w
   | PressToggle ps \<Rightarrow> toggle_comments tg ps w)"

definition comment_run :: "(int \<times> int \<times> comment_event) list \<Rightarrow> dworld \<Rightarrow> dworld" where
  "comment_run es w = fold (\<lambda>(now, tg, e) w. fst (comment_event now tg e w)) es w"

section \<open>Who changes which comments\<close>

lemma restore_comment_db [simp]: "dw_db (restore_comment tg w) = dw_db w"
  by (simp add: restore_comment_def Let_def leave_def split: option.split)

lemma session_db [simp]: "dw_db (fst (is_in_active_session tg w)) = dw_db w"
  by (simp add: is_in_active_session_def drop_state_def leave_def)

lemma not_in_session:
  "is_in_active_session tg w = (w1, False) \<Longrightarrow> get_active_match tg (dw_db w) = None \<and> dw_db w1 = dw_db w"
  using session_db [of tg w] by (auto simp: is_in_active_session_def split: if_splits)

lemma termination_comments: "comments (dw_db (fst (execute_chat_termination tries now token mid w))) = comments (dw_db w)"
  by (auto simp: execute_chat_termination_def terminate_match_unified_def atomic_deactivate_match_def Let_def
      split: prod.split bool.split option.split)

lemma blocking_comments: "comments (dw_db (fst (execute_user_blocking tries now token a b w))) = comments (dw_db w)"
  by (auto simp: execute_user_blocking_def add_block_def part_def drop_state_def leave_def redis_block_def Let_def
      termination_comments split: option.split list.split)

definition may_comment :: "int \<Rightarrow> int \<Rightarrow> db \<Rightarrow> bool" where
  "may_comment author target d \<longleftrightarrow> author \<noteq> target \<and> get_active_match author d = None \<and> \<not> are_comments_disabled target d \<and>
     \<not> is_blocked target author d \<and> \<not> is_blocked author target d \<and> get_user d author \<noteq> None \<and> get_user d target \<noteq> None"

inductive comment_change :: "int \<Rightarrow> int \<Rightarrow> db \<Rightarrow> db \<Rightarrow> bool" for now tg where
  kept: "comments d' = comments d \<Longrightarrow> comment_change now tg d d'"
| written: "may_comment tg target d \<Longrightarrow> t \<noteq> [] \<Longrightarrow> length t \<le> 300 \<Longrightarrow>
    comments d' = comments (upsert_profile_comment now tg target (utf8 (escape_text t)) d) \<Longrightarrow> comment_change now tg d d'"
| removed: "c \<in> set (rows (comments d)) \<Longrightarrow> tg \<in> {pc_author_tg_id c, pc_target_tg_id c} \<Longrightarrow>
    comments d' = del_where (\<lambda>x. pc_id x = pc_id c) (comments d) \<Longrightarrow> comment_change now tg d d'"

lemma delete_comment_change:
  "delete_profile_comment cid tg d = (d', True) \<Longrightarrow> comment_change now tg d d'"
  by (auto simp: delete_profile_comment_def by_key_def dest!: find_key_SomeD split: option.splits if_splits
      intro!: comment_change.removed)

lemma process_comment_change: "comment_change now tg (dw_db w) (dw_db (fst (process_comment_text now tg t w)))"
proof (cases "comments (dw_db (fst (process_comment_text now tg t w))) = comments (dw_db w)")
  case True
  then show ?thesis by (rule comment_change.kept)
next
  case False
  define s where "s = strip (case t of None \<Rightarrow> [] | Some s \<Rightarrow> s)"
  define target where "target = the (fsm_int COMMENT_TARGET (dw_fsm w tg))"
  obtain w1 b where ses: "is_in_active_session tg w = (w1, b)" by (metis surj_pair)
  have d1: "dw_db w1 = dw_db w" using session_db [of tg w] ses by simp
  have eq: "dw_db (fst (process_comment_text now tg t w)) =
      (if lower_text s = lit ''/cancel'' \<or> s = [] \<or> 300 < length s \<or> \<not> nonzero (fsm_int COMMENT_TARGET (dw_fsm w tg)) \<or> target = tg \<or> b \<or>
          comment_refused tg target (dw_db w) \<noteq> None \<or> get_user (dw_db w) tg = None \<or> get_user (dw_db w) target = None
       then dw_db w else upsert_profile_comment now tg target (utf8 (escape_text s)) (dw_db w))"
    unfolding process_comment_text_def s_def [symmetric] target_def [symmetric] Let_def ses
    by (cases b) (simp_all add: d1 split: option.split)
  then have ok: "s \<noteq> []" "length s \<le> 300" "tg \<noteq> target" "\<not> b" "comment_refused tg target (dw_db w) = None"
    "get_user (dw_db w) tg \<noteq> None" "get_user (dw_db w) target \<noteq> None"
    and d: "dw_db (fst (process_comment_text now tg t w)) = upsert_profile_comment now tg target (utf8 (escape_text s)) (dw_db w)"
    using False by (auto split: if_splits)
  have "get_active_match tg (dw_db w) = None" using ses ok(4) not_in_session [of tg w w1] by simp
  then have "may_comment tg target (dw_db w)"
    using ok(3,5-7) by (auto simp: may_comment_def comment_refused_def split: if_splits)
  then show ?thesis using ok(1,2) d by (intro comment_change.written) simp_all
qed

lemma start_comment_db [simp]: "dw_db (fst (start_add_comment tg ps w)) = dw_db w"
proof -
  obtain w1 b where ses: "is_in_active_session tg w = (w1, b)" by (metis surj_pair)
  have "dw_db w1 = dw_db w" using session_db [of tg w] ses by simp
  then show ?thesis by (simp add: start_add_comment_def ses split: list.split option.split bool.split)
qed

lemma block_comment_db: "comments (dw_db (fst (block_comment_author tries now token tg ps w))) = comments (dw_db w)"
proof -
  have "comments (dw_db (fst (case execute_user_blocking tries now token a b w of
      (w1, Blocked) \<Rightarrow> if page < 0 then (w1, CommentRaised) else (w1, AuthorBlocked (page_after tg a (nat page) (dw_db w1)))
    | (w1, r) \<Rightarrow> (w1, BlockRefused r)))) = comments (dw_db w)" for a b page
    using blocking_comments [of tries now token a b w]
    by (cases "execute_user_blocking tries now token a b w") (simp split: block_reply.split)
  then show ?thesis by (simp add: block_comment_author_def split: list.split option.split)
qed

lemma comment_event_change: "comment_change now tg (dw_db w) (dw_db (fst (comment_event now tg e w)))"
proof (cases e)
  case (PressDelete ps)
  then show ?thesis
    by (auto simp: comment_event_def delete_comment_def intro: comment_change.kept dest: delete_comment_change
        split: list.split option.split prod.split bool.split)
next
  case (PressToggle ps)
  then show ?thesis
    by (auto simp: comment_event_def toggle_comments_def toggle_comments_disabled_def upd_user_def intro!: comment_change.kept
        split: list.split option.split prod.split bool.split)
qed (simp_all add: comment_event_def comment_change.kept process_comment_change block_comment_db)


section \<open>One comment per author and profile\<close>

definition comments_ok :: "profile_comment tbl \<Rightarrow> bool" where
  "comments_ok t \<longleftrightarrow> distinct (map comment_key (rows t))"

lemma upsert_ok:
  assumes "comments_ok (comments d)"
  shows "comments_ok (comments (upsert_profile_comment now a b t d))"
proof (cases "by_key comment_key (a, b) (comments d)")
  case None
  then have "(a, b) \<notin> comment_key ` set (rows (comments d))" by (simp add: by_key_def find_key_None_iff)
  with None assms show ?thesis by (simp add: upsert_profile_comment_def comments_ok_def insert_row_def comment_key_def)
next
  case (Some c)
  have "map comment_key (upd_list (\<lambda>c. comment_key c = (a, b)) (\<lambda>c. c\<lparr>pc_text := t, pc_updated_at := x\<rparr>) (rows (comments d))) =
      map comment_key (rows (comments d))" for x
    by (simp add: upd_list_keys comment_key_def)
  with Some assms show ?thesis by (simp add: upsert_profile_comment_def comments_ok_def upd_where_def)
qed

lemma del_ok: "comments_ok t \<Longrightarrow> comments_ok (del_where P t)"
  by (auto simp: comments_ok_def del_where_def distinct_map intro: inj_on_subset)

lemma comment_change_ok: "comment_change now tg d d' \<Longrightarrow> comments_ok (comments d) \<Longrightarrow> comments_ok (comments d')"
proof (induction rule: comment_change.induct)
  case (written target d t d')
  then show ?case using upsert_ok by metis
qed (simp_all add: del_ok)

text \<open>C26: Whatever users do, nobody has two comments on one profile.\<close>

theorem one_comment_each:
  assumes "comments_ok (comments (dw_db w))"
  shows "comments_ok (comments (dw_db (comment_run es w)))"
  using assms unfolding comment_run_def
proof (induction es arbitrary: w)
  case (Cons x es)
  obtain now tg e where x: "x = (now, tg, e)" by (metis surj_pair)
  have "comments_ok (comments (dw_db (fst (comment_event now tg e w))))"
    by (rule comment_change_ok [OF comment_event_change Cons.prems])
  from Cons.IH [OF this] show ?case by (simp add: x)
qed simp

section \<open>No way out but a comment\<close>

text \<open>A user who has opened the dialogue for a profile on which they may comment cannot leave it by a message: each
  message, the command to cancel included, leaves them in the dialogue or is put on the profile.\<close>

theorem no_way_out_but_comment:
  assumes "fsm_int COMMENT_TARGET (dw_fsm w tg) = Some target" and "target \<noteq> 0" and "may_comment tg target (dw_db w)"
    and "fsm_state (dw_fsm w tg) = Some WAITING_COMMENT"
  shows "fst (comment_event now tg (SendComment t) w) = w \<or>
    (\<exists>s edited. snd (comment_event now tg (SendComment t) w) = CommentSaved edited \<and>
       comments (dw_db (fst (comment_event now tg (SendComment t) w))) = comments (upsert_profile_comment now tg target s (dw_db w)))"
proof -
  obtain w1 b where ses: "is_in_active_session tg w = (w1, b)" by (metis surj_pair)
  have d1: "dw_db w1 = dw_db w" using session_db [of tg w] ses by simp
  have "\<not> b" using ses assms(3) by (auto simp: is_in_active_session_def may_comment_def split: if_splits)
  moreover have "comment_refused tg target (dw_db w) = None" using assms(3) by (simp add: comment_refused_def may_comment_def)
  moreover have "nonzero (Some target)" using assms(2) by (simp add: nonzero_def)
  moreover obtain ua ub where "get_user (dw_db w) tg = Some ua" "get_user (dw_db w) target = Some ub" "target \<noteq> tg"
    using assms(3) by (auto simp: may_comment_def)
  ultimately have "comment_event now tg (SendComment t) w =
      (if lower_text s = lit ''/cancel'' then (w, CommentRaised) else if s = [] then (w, CommentEmpty)
       else if 300 < length s then (w, CommentLong (length s))
       else (restore_comment tg (on_db (upsert_profile_comment now tg target (utf8 (escape_text s))) w1),
             CommentSaved (get_my_comment_on_profile tg target (dw_db w) \<noteq> None)))"
    if "s = strip (case t of None \<Rightarrow> [] | Some x \<Rightarrow> x)" for s
    using assms(1,4) ses d1 that by (simp add: comment_event_def process_comment_text_def Let_def)
  note r = this [OF refl]
  show ?thesis unfolding r using d1 by (simp split: if_split) blast
qed

section \<open>Back to where one was\<close>

definition comment_returnable :: "fsm \<Rightarrow> bool" where
  "comment_returnable c \<longleftrightarrow> (\<forall>k\<in>set COMMENT_TEMP_KEYS. fsm_data c k = None) \<and> fsm_state c \<notin> {Some [], Some WAITING_COMMENT} \<and>
     \<not> pipeline_state (fsm_state c)"

text \<open>After a comment is saved the user is in the state they were in before, with the same data; who was in no state
  has no data any more.\<close>

theorem comment_restores:
  assumes "start_add_comment tg ps w = (w1, AskComment old)" and "process_comment_text now tg t w1 = (w2, CommentSaved edited)"
    and "comment_returnable (dw_fsm w tg)" and "\<not> zombie_status tg w"
  shows "dw_fsm w2 tg = (if fsm_state (dw_fsm w tg) = None then clear_fsm (dw_fsm w tg) else dw_fsm w tg)"
proof -
  let ?c = "dw_fsm w tg"
  have ses: "is_in_active_session tg w = (w, get_active_match tg (dw_db w) \<noteq> None)"
    using assms(3,4) by (auto simp: is_in_active_session_def comment_returnable_def)
  have none: "get_active_match tg (dw_db w) = None"
    using assms(1) ses by (cases "get_active_match tg (dw_db w)") (auto simp: start_add_comment_def split: list.splits option.splits if_splits)
  obtain target where
    w1: "w1 = on_fsm tg (\<lambda>c. update_data COMMENT_TARGET (FInt target) (set_state (Some WAITING_COMMENT) (preserve_comment c))) w"
    using assms(1) ses none by (auto simp: start_add_comment_def comment_refused_def split: list.splits option.splits if_splits)
  have keys: "COMMENT_TARGET \<noteq> COMMENT_PREV" "COMMENT_TARGET \<noteq> COMMENT_META" "COMMENT_PREV \<noteq> COMMENT_META"
    by (simp_all add: COMMENT_TARGET_def COMMENT_PREV_def COMMENT_META_def)
  have c1: "fsm_state (dw_fsm w1 tg) = Some WAITING_COMMENT" "fsm_data (dw_fsm w1 tg) COMMENT_PREV = map_option FStr (fsm_state ?c)"
    "fsm_data (dw_fsm w1 tg) COMMENT_META = Some (FDict (chat_meta (fsm_data ?c)))"
    using keys by (simp_all add: w1 preserve_comment_def)
  have data: "drop_keys COMMENT_TEMP_KEYS (fsm_data (dw_fsm w1 tg)) = fsm_data ?c"
    using assms(3) by (auto simp: w1 preserve_comment_def drop_keys_apply comment_returnable_def COMMENT_TEMP_KEYS_def fun_eq_iff)
  then have fill: "fill_missing (comment_snapshot (dw_fsm w1 tg)) (drop_keys COMMENT_TEMP_KEYS (fsm_data (dw_fsm w1 tg))) = fsm_data ?c"
    using c1(3) by (auto simp: comment_snapshot_def dest: chat_meta_of intro: fill_missing_id)
  have prev: "fsm_str COMMENT_PREV (dw_fsm w1 tg) = fsm_state ?c"
    using c1(2) by (cases "fsm_state ?c") (simp_all add: fsm_str_def)
  have "\<not> pipeline_state (Some WAITING_COMMENT)" by code_simp
  moreover have "zombie_status tg w1 = zombie_status tg w" by (simp add: zombie_status_def w1 on_fsm_def)
  ultimately have ses1: "is_in_active_session tg w1 = (w1, False)"
    using none c1(1) assms(4) by (simp add: is_in_active_session_def w1)
  obtain d where w2: "w2 = restore_comment tg (on_db (\<lambda>_. d) w1)" and d: "matches d = matches (dw_db w)"
  proof -
    have "matches (upsert_profile_comment n a b x y) = matches y" for n a b x y by (simp add: upsert_profile_comment_def)
    then show thesis
      using assms(2) ses1 that by (auto simp: process_comment_text_def Let_def on_db_def w1 comment_refused_def split: if_splits)
  qed
  have "get_active_match tg d = None" using none d by (simp add: get_active_match_def)
  then show ?thesis
    using assms(3) prev fill by (cases "fsm_state ?c") (auto simp: w2 restore_comment_def Let_def comment_returnable_def leave_def clear_fsm_def)
qed

section \<open>The pages\<close>

text \<open>Read in order, the pages of a profile are all its comments, newest first, each once; a page leads to the next
  exactly when there is one.\<close>

theorem comment_pages_complete:
  "let all = sort_key (\<lambda>c. - instant (pc_created_at c)) (sel_where (\<lambda>c. pc_target_tg_id c = target) (comments d));
       n = (length all + PER_PAGE - 1) div PER_PAGE
   in concat (map (\<lambda>p. cp_comments (comments_page viewer target p d)) [0..<n]) = all \<and>
      (\<forall>p. cp_next (comments_page viewer target p d) = (if p + 1 < n then Some (p + 1) else None))"
proof -
  define all where "all = sort_key (\<lambda>c. - instant (pc_created_at c)) (sel_where (\<lambda>c. pc_target_tg_id c = target) (comments d))"
  let ?n = "(length all + PER_PAGE - 1) div PER_PAGE"
  have k: "concat (map (\<lambda>p. take k (drop (p * k) all)) [0..<j]) = take (j * k) all" for j k
  proof (induction j)
    case (Suc j)
    have "take (j * k) all @ take k (drop (j * k) all) = take (j * k + k) all" by (simp add: take_add)
    with Suc show ?case by (simp add: add.commute)
  qed simp
  have "length all \<le> ?n * PER_PAGE" by (simp add: PER_PAGE_def)
  moreover have "length all = rowcount (\<lambda>c. pc_target_tg_id c = target) (comments d)"
    by (simp add: all_def rowcount_def sel_where_def)
  moreover have "(p + 1) * PER_PAGE < length all \<longleftrightarrow> p + 1 < ?n" for p unfolding PER_PAGE_def by presburger
  ultimately show ?thesis
    by (simp add: comments_page_def get_profile_comments_def Let_def split_def k flip: all_def)
qed

section \<open>Witnesses\<close>

definition commenting :: dworld where
  "commenting = fst (start_add_comment 1 [py_str 2] quiet_world)"

definition commented :: dworld where
  "commented = fst (process_comment_text 0 1 (Some [104, 105]) commenting)"

lemma quiet_session: "is_in_active_session 1 quiet_world = (quiet_world, False)" "\<not> zombie_status 1 quiet_world"
proof -
  show z: "\<not> zombie_status 1 quiet_world" by (simp add: zombie_status_def quiet_world_def free_date_def demo_date_def empty_store_def)
  have "get_active_match 1 demo_db = None" by (simp add: get_active_match_def first_where_def demo_db_def empty_db_def empty_tbl_def)
  with z show "is_in_active_session 1 quiet_world = (quiet_world, False)"
    by (simp add: is_in_active_session_def pipeline_state_def)
qed

lemma demo_may_comment: "may_comment 1 2 demo_db" "comments demo_db = empty_tbl" "get_my_comment_on_profile 1 2 demo_db = None"
proof -
  have c: "comments demo_db = empty_tbl" "blocks demo_db = empty_tbl" "matches demo_db = empty_tbl"
    by (simp_all add: demo_db_def empty_db_def)
  have "\<not> u_comments_disabled bob" by (simp add: bob_def new_user_def)
  with c show "may_comment 1 2 demo_db"
    by (simp add: may_comment_def get_active_match_def first_where_def are_comments_disabled_def is_blocked_def empty_tbl_def)
  show "comments demo_db = empty_tbl" "get_my_comment_on_profile 1 2 demo_db = None"
    using c by (simp_all add: get_my_comment_on_profile_def by_key_def empty_tbl_def)
qed

lemma commenting_view: "start_add_comment 1 [py_str 2] quiet_world = (commenting, AskComment None)" "dw_db commenting = demo_db"
  "fsm_state (dw_fsm commenting 1) = Some WAITING_COMMENT" "fsm_int COMMENT_TARGET (dw_fsm commenting 1) = Some 2"
  "is_in_active_session 1 commenting = (commenting, False)"
proof -
  have "comment_refused 1 2 demo_db = None" using demo_may_comment(1) by (simp add: comment_refused_def may_comment_def)
  then have e: "start_add_comment 1 [py_str 2] quiet_world = (on_fsm 1 (\<lambda>c. update_data COMMENT_TARGET (FInt 2)
      (set_state (Some WAITING_COMMENT) (preserve_comment c))) quiet_world, AskComment None)"
    by (simp add: start_add_comment_def py_int_str quiet_session demo_may_comment)
  then show "start_add_comment 1 [py_str 2] quiet_world = (commenting, AskComment None)" "dw_db commenting = demo_db"
    "fsm_state (dw_fsm commenting 1) = Some WAITING_COMMENT" "fsm_int COMMENT_TARGET (dw_fsm commenting 1) = Some 2"
    by (simp_all add: commenting_def fsm_int_def)
  have "zombie_status 1 commenting = zombie_status 1 quiet_world" by (simp add: commenting_def e zombie_status_def on_fsm_def)
  moreover have "\<not> pipeline_state (Some WAITING_COMMENT)" by code_simp
  moreover have "get_active_match 1 demo_db = None" using demo_may_comment(1) by (simp add: may_comment_def)
  moreover have "fsm_state (dw_fsm commenting 1) = Some WAITING_COMMENT" "dw_db commenting = demo_db" by (simp_all add: commenting_def e)
  ultimately show "is_in_active_session 1 commenting = (commenting, False)"
    using quiet_session(2) by (simp add: is_in_active_session_def)
qed

lemma commented_view: "process_comment_text 0 1 (Some [104, 105]) commenting = (commented, CommentSaved False)"
  "comments (dw_db commented) \<noteq> comments demo_db"
proof -
  have "strip [104, 105] = [104, 105]" by (simp add: strip_def is_space_def)
  moreover have "lower_text [104, 105] \<noteq> lit ''/cancel''" by (simp add: lower_text_def lit_def)
  moreover have "comment_refused 1 2 demo_db = None" using demo_may_comment(1) by (simp add: comment_refused_def may_comment_def)
  ultimately have e: "process_comment_text 0 1 (Some [104, 105]) commenting =
      (restore_comment 1 (on_db (upsert_profile_comment 0 1 2 (utf8 (escape_text [104, 105]))) commenting), CommentSaved False)"
    using commenting_view(4) demo_may_comment(3)
    by (simp add: process_comment_text_def commenting_view(2,5) nonzero_def)
  then show "process_comment_text 0 1 (Some [104, 105]) commenting = (commented, CommentSaved False)" by (simp add: commented_def)
  show "comments (dw_db commented) \<noteq> comments demo_db"
    using demo_may_comment(2) by (simp add: commented_def e commenting_view(2) upsert_profile_comment_def by_key_def empty_tbl_def insert_row_def)
qed


theorem one_comment_each_witness:
  "\<forall>es. comments_ok (comments (dw_db (comment_run es commented)))"
proof -
  have "comments_ok (comments (upsert_profile_comment 0 1 2 s demo_db))" for s
    by (rule upsert_ok) (simp add: comments_ok_def demo_may_comment(2) empty_tbl_def)
  then have "comments_ok (comments (dw_db commented))"
    using comment_event_change [of 0 1 commenting "SendComment (Some [104, 105])"] commenting_view(2,3)
    by (auto simp: comment_event_def commented_view(1) comments_ok_def demo_may_comment(2) empty_tbl_def
        dest!: comment_change_ok)
  then show ?thesis using one_comment_each by blast
qed

theorem no_way_out_but_comment_witness:
  "fst (comment_event 0 1 (SendComment (Some (lit ''/cancel''))) commenting) = commenting \<or>
   (\<exists>edited. snd (comment_event 0 1 (SendComment (Some (lit ''/cancel''))) commenting) = CommentSaved edited)"
  using no_way_out_but_comment [of commenting 1 2 0 "Some (lit ''/cancel'')"] demo_may_comment(1) commenting_view(2-4) by auto

theorem comment_restores_witness:
  "dw_fsm commented 1 = clear_fsm (dw_fsm quiet_world 1)"
proof -
  have "comment_returnable (dw_fsm quiet_world 1)" by (simp add: comment_returnable_def pipeline_state_def)
  from comment_restores [OF commenting_view(1) commented_view(1) this quiet_session(2)] show ?thesis by simp
qed

end
