(* ===== verification/QuestionBank.thy ===== *)
theory QuestionBank
  imports Dates Utf8
begin

text \<open>
  How administrators fill the question bank (\<open>bot/handlers/admin.py\<close>): the dialogue of
  \<open>/addquestion\<close> and the import of an Excel sheet.  A sheet is what \<open>openpyxl\<close> reads from the
  file, its rows of cells.  The questions an upload leaves to be confirmed are a key of the dialogue's
  data, which the model keeps beside it.  Several administrators may fill the bank at once.
  MySQL refuses a text longer than its column.
\<close>

section \<open>Questions and states\<close>

record question_data =
  qd_text :: ustr
  qd_a :: ustr
  qd_b :: ustr
  qd_c :: "ustr option"
  qd_d :: "ustr option"
  qd_category :: ustr

record bank_world =
  bk_world :: dworld
  bk_pending :: "int \<Rightarrow> question_data list"

definition MAX_QUESTIONS :: int where "MAX_QUESTIONS = 80"

definition Q_TYPE :: string where "Q_TYPE = ''QuestionAddStates:choosing_type''"
definition Q_TEXT :: string where "Q_TEXT = ''QuestionAddStates:entering_text''"
definition Q_A :: string where "Q_A = ''QuestionAddStates:entering_option_a''"
definition Q_B :: string where "Q_B = ''QuestionAddStates:entering_option_b''"
definition Q_C :: string where "Q_C = ''QuestionAddStates:entering_option_c''"
definition Q_D :: string where "Q_D = ''QuestionAddStates:entering_option_d''"
definition Q_CATEGORY :: string where "Q_CATEGORY = ''QuestionAddStates:entering_category''"
definition Q_CONFIRM :: string where "Q_CONFIRM = ''QuestionAddStates:confirming''"
definition Q_EXCEL :: string where "Q_EXCEL = ''QuestionAddStates:waiting_for_excel''"
definition Q_BULK :: string where "Q_BULK = ''QuestionAddStates:confirming_bulk''"

lemmas question_states = Q_TYPE_def Q_TEXT_def Q_A_def Q_B_def Q_C_def Q_D_def Q_CATEGORY_def
  Q_CONFIRM_def Q_EXCEL_def Q_BULK_def

datatype bank_reply = BankFull | AskType | AskText | AskA | AskB | AskC | AskD | AskCategory | AskSave
  | Cancelled | TextMissing | TextTooLong | SavedQuestion int | BankRaised | AskSheet | NotASheet | SheetTooBig
  | DownloadFailed | NothingValid | SheetPreview nat nat | NothingPending | Imported nat nat | NotHandled

definition bank_count :: "bank_world \<Rightarrow> int" where
  "bank_count s = int (get_question_count (dw_db (bk_world s)))"

definition on_bank :: "(dworld \<Rightarrow> dworld) \<Rightarrow> bank_world \<Rightarrow> bank_world" where
  "on_bank f s = s\<lparr>bk_world := f (bk_world s)\<rparr>"

definition bank_clear :: "int \<Rightarrow> bank_world \<Rightarrow> bank_world" where
  "bank_clear tg s = s\<lparr>bk_world := leave tg (bk_world s), bk_pending := (bk_pending s)(tg := [])\<rparr>"

definition goto :: "string \<Rightarrow> int \<Rightarrow> bank_world \<Rightarrow> bank_world" where
  "goto st tg = on_bank (on_fsm tg (set_state (Some st)))"

definition keep :: "string \<Rightarrow> fval \<Rightarrow> int \<Rightarrow> bank_world \<Rightarrow> bank_world" where
  "keep k v tg = on_bank (on_fsm tg (update_data k v))"

text \<open>\<open>(message.text or "").strip()\<close>.\<close>

definition typed :: "ustr option \<Rightarrow> ustr" where
  "typed t = strip (case t of None \<Rightarrow> [] | Some x \<Rightarrow> x)"

definition fsm_text :: "string \<Rightarrow> fsm \<Rightarrow> ustr option" where
  "fsm_text k c = (case fsm_data c k of Some (FText t) \<Rightarrow> Some t | _ \<Rightarrow> None)"

section \<open>The dialogue\<close>

definition cmd_addquestion :: "int \<Rightarrow> bank_world \<Rightarrow> bank_world \<times> bank_reply" where
  "cmd_addquestion tg s =
     (if bank_count s \<ge> MAX_QUESTIONS then (s, BankFull) else (goto Q_TYPE tg s, AskType))"

text \<open>\<open>action\<close>: what follows the colon of the button.\<close>

definition handle_question_type :: "int \<Rightarrow> ustr \<Rightarrow> bank_world \<Rightarrow> bank_world \<times> bank_reply" where
  "handle_question_type tg action s =
     (if action = lit ''cancel'' then (bank_clear tg s, Cancelled)
      else case py_int action of
        None \<Rightarrow> (s, BankRaised)
      | Some n \<Rightarrow> (goto Q_TEXT tg (keep ''q_type'' (FInt n) tg s), AskText))"

definition handle_question_text :: "int \<Rightarrow> ustr option \<Rightarrow> bank_world \<Rightarrow> bank_world \<times> bank_reply" where
  "handle_question_text tg m s =
     (let t = typed m in
      if t = [] then (s, TextMissing)
      else if length t > 300 then (s, TextTooLong)
      else (goto Q_A tg (keep ''q_text'' (FText t) tg s), AskA))"

definition handle_option_a :: "int \<Rightarrow> ustr option \<Rightarrow> bank_world \<Rightarrow> bank_world \<times> bank_reply" where
  "handle_option_a tg m s =
     (let t = typed m in
      if t = [] then (s, TextMissing) else (goto Q_B tg (keep ''opt_a'' (FText t) tg s), AskB))"

definition handle_option_b :: "int \<Rightarrow> ustr option \<Rightarrow> bank_world \<Rightarrow> bank_world \<times> bank_reply" where
  "handle_option_b tg m s =
     (let t = typed m in
      if t = [] then (s, TextMissing)
      else let s1 = keep ''opt_b'' (FText t) tg s in
        (case fsm_int ''q_type'' (dw_fsm (bk_world s1) tg) of
           None \<Rightarrow> (s1, BankRaised)
         | Some n \<Rightarrow> if n = 4 then (goto Q_C tg s1, AskC) else (goto Q_CATEGORY tg s1, AskCategory)))"

definition handle_option_c :: "int \<Rightarrow> ustr option \<Rightarrow> bank_world \<Rightarrow> bank_world \<times> bank_reply" where
  "handle_option_c tg m s =
     (let t = typed m in
      if t = [] then (s, TextMissing) else (goto Q_D tg (keep ''opt_c'' (FText t) tg s), AskD))"

definition handle_option_d :: "int \<Rightarrow> ustr option \<Rightarrow> bank_world \<Rightarrow> bank_world \<times> bank_reply" where
  "handle_option_d tg m s =
     (let t = typed m in
      if t = [] then (s, TextMissing) else (goto Q_CATEGORY tg (keep ''opt_d'' (FText t) tg s), AskCategory))"

definition handle_category :: "int \<Rightarrow> ustr option \<Rightarrow> bank_world \<Rightarrow> bank_world \<times> bank_reply" where
  "handle_category tg m s =
     (let t = typed m in
      if t = [] then (s, TextMissing) else (goto Q_CONFIRM tg (keep ''category'' (FText t) tg s), AskSave))"

section \<open>Saving\<close>

text \<open>The columns of \<open>questions\<close>: two options of 200 characters, two of 300, a category of 50.\<close>

definition opt_within :: "nat \<Rightarrow> ustr option \<Rightarrow> bool" where
  "opt_within n t = (case t of None \<Rightarrow> True | Some x \<Rightarrow> length x \<le> n)"

definition question_fits :: "question_data \<Rightarrow> bool" where
  "question_fits q \<longleftrightarrow> length (qd_a q) \<le> 200 \<and> length (qd_b q) \<le> 200 \<and> opt_within 300 (qd_c q) \<and>
     opt_within 300 (qd_d q) \<and> length (qd_category q) \<le> 50"

definition store_question :: "question_data \<Rightarrow> db \<Rightarrow> db" where
  "store_question q = add_question (utf8 (qd_text q)) (utf8 (qd_a q)) (utf8 (qd_b q)) (utf8 (qd_category q))
     (map_option utf8 (qd_c q)) (map_option utf8 (qd_d q))"

definition question_of :: "fsm \<Rightarrow> question_data option" where
  "question_of c = (case (fsm_text ''q_text'' c, fsm_text ''opt_a'' c, fsm_text ''opt_b'' c, fsm_text ''category'' c) of
     (Some t, Some a, Some b, Some k) \<Rightarrow> Some \<lparr>qd_text = t, qd_a = a, qd_b = b,
        qd_c = fsm_text ''opt_c'' c, qd_d = fsm_text ''opt_d'' c, qd_category = k\<rparr>
   | _ \<Rightarrow> None)"

definition redo_data :: "fsm \<Rightarrow> fsm" where
  "redo_data c = \<lparr>fsm_state = Some Q_TEXT, fsm_data = [''q_type'' \<mapsto> (case fsm_data c ''q_type'' of None \<Rightarrow> FInt 2 | Some v \<Rightarrow> v)]\<rparr>"

definition handle_question_confirm :: "int \<Rightarrow> ustr \<Rightarrow> bank_world \<Rightarrow> bank_world \<times> bank_reply" where
  "handle_question_confirm tg action s =
     (let c = dw_fsm (bk_world s) tg in
      if action = lit ''cancel'' then (bank_clear tg s, Cancelled)
      else if action = lit ''redo''
      then ((on_bank (on_fsm tg redo_data) s)\<lparr>bk_pending := (bk_pending s)(tg := [])\<rparr>, AskText)
      else if bank_count s \<ge> MAX_QUESTIONS then (bank_clear tg s, BankFull)
      else case question_of c of
        None \<Rightarrow> (s, BankRaised)
      | Some q \<Rightarrow>
          if \<not> question_fits q then (s, BankRaised)
          else let s1 = bank_clear tg (on_bank (on_db (store_question q)) s) in
            (s1, if fsm_data c ''q_type'' = None then BankRaised
                 else SavedQuestion (next_id (questions (dw_db (bk_world s))))))"

section \<open>The sheet\<close>

text \<open>A cell's value: nothing, a text, a whole number, or another object with its truth and its \<open>str()\<close>.\<close>

datatype xcell = XEmpty | XText ustr | XInt int | XOther bool ustr

fun cell_true :: "xcell \<Rightarrow> bool" where
  "cell_true XEmpty = False"
| "cell_true (XText t) = (t \<noteq> [])"
| "cell_true (XInt i) = (i \<noteq> 0)"
| "cell_true (XOther b t) = b"

fun cell_str :: "xcell \<Rightarrow> ustr option" where
  "cell_str XEmpty = None"
| "cell_str (XText t) = Some t"
| "cell_str (XInt i) = Some (py_str i)"
| "cell_str (XOther b t) = Some t"

definition cell :: "nat \<Rightarrow> xcell list \<Rightarrow> ustr option" where
  "cell i row = (case (if i < length row then cell_str (row ! i) else None) of
     None \<Rightarrow> None
   | Some t \<Rightarrow> if strip t \<noteq> [] then Some (strip t) else None)"

datatype row_error = NoText | LongText | NoA | NoB | NoD | NoC | NoCategory

definition row_errors :: "xcell list \<Rightarrow> row_error list" where
  "row_errors r =
     (case cell 0 r of None \<Rightarrow> [NoText] | Some t \<Rightarrow> if length t > 300 then [LongText] else []) @
     (if cell 1 r = None then [NoA] else []) @
     (if cell 2 r = None then [NoB] else []) @
     (if cell 3 r \<noteq> None \<and> cell 4 r = None then [NoD] else []) @
     (if cell 4 r \<noteq> None \<and> cell 3 r = None then [NoC] else []) @
     (if cell 5 r = None then [NoCategory] else [])"

definition row_question :: "xcell list \<Rightarrow> question_data" where
  "row_question r = \<lparr>qd_text = the (cell 0 r), qd_a = the (cell 1 r), qd_b = the (cell 2 r),
     qd_c = cell 3 r, qd_d = cell 4 r, qd_category = the (cell 5 r)\<rparr>"

fun parse_rows :: "nat \<Rightarrow> xcell list list \<Rightarrow> question_data list \<times> (nat \<times> row_error list) list" where
  "parse_rows n [] = ([], [])"
| "parse_rows n (r # rs) =
     (let (qs, es) = parse_rows (n + 1) rs in
      if \<not> list_ex cell_true r then (qs, es)
      else if row_errors r \<noteq> [] then (qs, (n, row_errors r) # es)
      else (row_question r # qs, es))"

text \<open>\<open>None\<close>: the file cannot be read.  The first two rows are the head and the guide.\<close>

definition parse_question_excel :: "xcell list list option \<Rightarrow> question_data list \<times> (nat \<times> row_error list) list" where
  "parse_question_excel f = (case f of None \<Rightarrow> ([], [(0, [])]) | Some rs \<Rightarrow> parse_rows 3 (drop 2 rs))"

text \<open>\<open>xs[:n]\<close>.\<close>

definition py_take :: "int \<Rightarrow> 'a list \<Rightarrow> 'a list" where
  "py_take n xs = (if 0 \<le> n then take (nat n) xs else take (length xs - nat (- n)) xs)"

definition ascii_lower :: "ustr \<Rightarrow> ustr" where
  "ascii_lower = map (\<lambda>c. if 65 \<le> c \<and> c \<le> 90 then c + 32 else c)"

definition is_xlsx :: "ustr option \<Rightarrow> bool" where
  "is_xlsx name = (case name of None \<Rightarrow> False | Some n \<Rightarrow> starts_with (rev (lit ''.xlsx'')) (rev (ascii_lower n)))"

definition cmd_importquestions :: "int \<Rightarrow> bank_world \<Rightarrow> bank_world \<times> bank_reply" where
  "cmd_importquestions tg s =
     (if MAX_QUESTIONS - bank_count s \<le> 0 then (s, BankFull) else (goto Q_EXCEL tg s, AskSheet))"

text \<open>\<open>file\<close>: \<open>None\<close> when the download fails.\<close>

definition handle_question_excel_upload ::
  "int \<Rightarrow> ustr option \<Rightarrow> int option \<Rightarrow> xcell list list option option \<Rightarrow> bank_world \<Rightarrow> bank_world \<times> bank_reply" where
  "handle_question_excel_upload tg name bytes file s =
     (if \<not> is_xlsx name then (s, NotASheet)
      else if bytes \<noteq> None \<and> the bytes > 5 * 1024 * 1024 then (s, SheetTooBig)
      else case file of
        None \<Rightarrow> (s, DownloadFailed)
      | Some f \<Rightarrow>
          let qs = fst (parse_question_excel f) in
          if qs = [] then (bank_clear tg s, NothingValid)
          else let importable = py_take (MAX_QUESTIONS - bank_count s) qs in
            (goto Q_BULK tg (s\<lparr>bk_pending := (bk_pending s)(tg := importable)\<rparr>),
             SheetPreview (length importable) (length qs - length importable)))"

definition bulk_import_cancel :: "int \<Rightarrow> bank_world \<Rightarrow> bank_world \<times> bank_reply" where
  "bulk_import_cancel tg s = (bank_clear tg s, Cancelled)"

text \<open>
  A row that MySQL refuses ends the transaction: the rows after it fail too, and the commit raises.
\<close>

definition bulk_import_confirm :: "int \<Rightarrow> bank_world \<Rightarrow> bank_world \<times> bank_reply" where
  "bulk_import_confirm tg s =
     (let qs = bk_pending s tg in
      if qs = [] then (bank_clear tg s, NothingPending)
      else let ins = py_take (MAX_QUESTIONS - bank_count s) qs in
        if \<not> list_all question_fits ins then (s, BankRaised)
        else (bank_clear tg (on_bank (on_db (fold store_question ins)) s),
              Imported (length ins) (length qs - length ins)))"

section \<open>Steps\<close>

datatype bank_event = AddQuestion | TypePressed ustr | QuestionTyped "ustr option" | SavePressed ustr
  | ImportQuestions | SheetSent "ustr option" "int option" "xcell list list option option"
  | ImportCancelled | ImportConfirmed

text \<open>A message, a file included, goes to the handler of the dialogue's state; a button of another state to none of these.\<close>

definition question_message :: "int \<Rightarrow> ustr option \<Rightarrow> bank_world \<Rightarrow> bank_world \<times> bank_reply" where
  "question_message tg m s =
     (let st = fsm_state (dw_fsm (bk_world s) tg) in
      if st = Some Q_TEXT then handle_question_text tg m s
      else if st = Some Q_A then handle_option_a tg m s
      else if st = Some Q_B then handle_option_b tg m s
      else if st = Some Q_C then handle_option_c tg m s
      else if st = Some Q_D then handle_option_d tg m s
      else if st = Some Q_CATEGORY then handle_category tg m s
      else if st = Some Q_EXCEL then (s, NotASheet)
      else (s, NotHandled))"

fun bank_step :: "int \<Rightarrow> bank_event \<Rightarrow> bank_world \<Rightarrow> bank_world \<times> bank_reply" where
  "bank_step tg AddQuestion s = cmd_addquestion tg s"
| "bank_step tg (TypePressed a) s =
     (if fsm_state (dw_fsm (bk_world s) tg) = Some Q_TYPE then handle_question_type tg a s else (s, NotHandled))"
| "bank_step tg (QuestionTyped m) s = question_message tg m s"
| "bank_step tg (SavePressed a) s =
     (if fsm_state (dw_fsm (bk_world s) tg) = Some Q_CONFIRM then handle_question_confirm tg a s else (s, NotHandled))"
| "bank_step tg ImportQuestions s = cmd_importquestions tg s"
| "bank_step tg (SheetSent n z f) s =
     (if fsm_state (dw_fsm (bk_world s) tg) = Some Q_EXCEL then handle_question_excel_upload tg n z f s
      else question_message tg None s)"
| "bank_step tg ImportCancelled s =
     (if fsm_state (dw_fsm (bk_world s) tg) = Some Q_BULK then bulk_import_cancel tg s else (s, NotHandled))"
| "bank_step tg ImportConfirmed s =
     (if fsm_state (dw_fsm (bk_world s) tg) = Some Q_BULK then bulk_import_confirm tg s else (s, NotHandled))"

fun bank_run :: "(int \<times> bank_event) list \<Rightarrow> bank_world \<Rightarrow> bank_world" where
  "bank_run [] s = s"
| "bank_run ((tg, e) # es) s = bank_run es (fst (bank_step tg e s))"

section \<open>Dialogues that only add\<close>

text \<open>
  An interface for what administrators fill step by step: every step keeps what the dialogues hold in order
  and changes what is stored only by adding sound items.  A run of steps then does the same.
\<close>

locale growing =
  fixes step :: "'e \<Rightarrow> 's \<Rightarrow> 's" and view :: "'s \<Rightarrow> 'd" and store :: "'i \<Rightarrow> 'd \<Rightarrow> 'd"
    and ok :: "'s \<Rightarrow> bool" and sound :: "'i \<Rightarrow> bool"
  assumes step_ok: "ok s \<Longrightarrow> ok (step e s)"
    and step_adds: "ok s \<Longrightarrow> \<exists>xs. list_all sound xs \<and> view (step e s) = fold store xs (view s)"
begin

lemma run_ok: "ok s \<Longrightarrow> ok (fold step es s)"
  by (induction es arbitrary: s) (simp_all add: step_ok)

lemma run_adds:
  assumes "ok s"
  shows "\<exists>xs. list_all sound xs \<and> view (fold step es s) = fold store xs (view s)"
  using assms
proof (induction es arbitrary: s)
  case Nil
  then show ?case by (auto intro: exI [of _ "[]"])
next
  case (Cons e es)
  obtain xs where xs: "list_all sound xs" "view (step e s) = fold store xs (view s)" using step_adds Cons.prems by blast
  obtain ys where ys: "list_all sound ys" "view (fold step es (step e s)) = fold store ys (view (step e s))"
    using Cons.IH step_ok Cons.prems by blast
  have "list_all sound (xs @ ys)" "view (fold step (e # es) s) = fold store (xs @ ys) (view s)" using xs ys by simp_all
  then show ?case by blast
qed

end

section \<open>Lemmas\<close>

lemma on_bank_simps [simp]:
  "bk_world (on_bank f s) = f (bk_world s)" "bk_pending (on_bank f s) = bk_pending s"
  by (simp_all add: on_bank_def)

lemma bank_clear_simps [simp]:
  "bk_world (bank_clear tg s) = leave tg (bk_world s)" "bk_pending (bank_clear tg s) = (bk_pending s)(tg := [])"
  by (simp_all add: bank_clear_def)

lemma goto_keep_simps [simp]:
  "dw_db (bk_world (goto st tg s)) = dw_db (bk_world s)" "dw_db (bk_world (keep k v tg s)) = dw_db (bk_world s)"
  "bk_pending (goto st tg s) = bk_pending s" "bk_pending (keep k v tg s) = bk_pending s"
  "dw_fsm (bk_world (goto st tg s)) = (dw_fsm (bk_world s))(tg := set_state (Some st) (dw_fsm (bk_world s) tg))"
  "dw_fsm (bk_world (keep k v tg s)) = (dw_fsm (bk_world s))(tg := update_data k v (dw_fsm (bk_world s) tg))"
  by (simp_all add: goto_def keep_def on_fsm_def)

text \<open>A text as the dialogue and the sheet keep it.\<close>

definition trimmed :: "ustr \<Rightarrow> bool" where
  "trimmed t \<longleftrightarrow> t \<noteq> [] \<and> strip t = t"

definition opt_trimmed :: "ustr option \<Rightarrow> bool" where
  "opt_trimmed t = (case t of None \<Rightarrow> True | Some x \<Rightarrow> trimmed x)"

definition question_sound :: "question_data \<Rightarrow> bool" where
  "question_sound q \<longleftrightarrow> trimmed (qd_text q) \<and> length (qd_text q) \<le> 300 \<and> trimmed (qd_a q) \<and> trimmed (qd_b q) \<and>
     opt_trimmed (qd_c q) \<and> opt_trimmed (qd_d q) \<and> trimmed (qd_category q)"

definition keys_sound :: "fsm \<Rightarrow> bool" where
  "keys_sound c \<longleftrightarrow> list_all (\<lambda>k. opt_trimmed (fsm_text k c)) [''q_text'', ''opt_a'', ''opt_b'', ''opt_c'', ''opt_d'', ''category'']
     \<and> opt_within 300 (fsm_text ''q_text'' c)"

text \<open>What the dialogues hold is sound.\<close>

definition bank_ok :: "bank_world \<Rightarrow> bool" where
  "bank_ok s \<longleftrightarrow> (\<forall>tg. keys_sound (dw_fsm (bk_world s) tg) \<and> list_all question_sound (bk_pending s tg))"

lemma strip_strip: "strip (strip t) = strip t"
proof -
  have d: "dropWhile is_space (dropWhile is_space xs) = dropWhile is_space xs" for xs :: ustr
    by (induction xs) auto
  define u where "u = dropWhile is_space t"
  define v where "v = rev (dropWhile is_space (rev u))"
  have "dropWhile is_space v = v"
  proof (cases v)
    case (Cons a b)
    have "u = v @ rev (takeWhile is_space (rev u))"
      unfolding v_def by (metis rev_append rev_rev_ident takeWhile_dropWhile_id)
    then obtain c where "u = a # c" using Cons by auto
    then have "u \<noteq> []" "hd u = a" by simp_all
    then have "\<not> is_space a" unfolding u_def using hd_dropWhile by blast
    then show ?thesis by (simp add: Cons)
  qed simp
  then have "strip (strip t) = rev (dropWhile is_space (rev v))" by (simp add: strip_def u_def [symmetric] v_def)
  also have "\<dots> = v" by (simp add: v_def d)
  finally show ?thesis by (simp add: strip_def u_def [symmetric] v_def)
qed

lemma trimmed_strip: "strip t \<noteq> [] \<Longrightarrow> trimmed (strip t)"
  by (simp add: trimmed_def strip_strip)

lemma trimmed_typed: "typed m \<noteq> [] \<Longrightarrow> trimmed (typed m)"
  unfolding typed_def by (rule trimmed_strip)

lemma cell_trimmed: "opt_trimmed (cell i r)"
  by (auto simp: cell_def opt_trimmed_def split: option.splits intro: trimmed_strip)

lemma row_sound:
  assumes "row_errors r = []"
  shows "question_sound (row_question r)"
proof -
  obtain t a b k where c: "cell 0 r = Some t" "cell 1 r = Some a" "cell 2 r = Some b" "cell 5 r = Some k" "length t \<le> 300"
    using assms by (auto simp: row_errors_def split: option.splits if_splits)
  then have "trimmed t" "trimmed a" "trimmed b" "trimmed k"
    using cell_trimmed [of 0 r] cell_trimmed [of 1 r] cell_trimmed [of 2 r] cell_trimmed [of 5 r]
    by (simp_all add: opt_trimmed_def)
  with c show ?thesis by (simp add: question_sound_def row_question_def cell_trimmed)
qed

lemma parse_rows_sound: "list_all question_sound (fst (parse_rows n rs))"
  by (induction n rs rule: parse_rows.induct) (auto simp: Let_def row_sound split: prod.splits)

lemma parse_excel_sound: "list_all question_sound (fst (parse_question_excel f))"
  by (auto simp: parse_question_excel_def parse_rows_sound split: option.splits)

lemma py_take_sound: "list_all P xs \<Longrightarrow> list_all P (py_take n xs)"
  by (auto simp: py_take_def list_all_iff dest: in_set_takeD)

lemma keys_sound_set_state [simp]: "keys_sound (set_state st c) = keys_sound c"
  by (simp add: keys_sound_def fsm_text_def set_state_def)

lemma fsm_text_update: "fsm_text k (update_data k' v c) = (if k = k' then (case v of FText t \<Rightarrow> Some t | _ \<Rightarrow> None) else fsm_text k c)"
  by (simp add: fsm_text_def)

lemma keys_sound_text:
  assumes "keys_sound c" and "trimmed t" and "k = ''q_text'' \<Longrightarrow> length t \<le> 300"
  shows "keys_sound (update_data k (FText t) c)"
  using assms by (simp add: keys_sound_def fsm_text_update opt_trimmed_def opt_within_def)

lemma keys_sound_int: "keys_sound c \<Longrightarrow> keys_sound (update_data k (FInt n) c)"
  by (simp add: keys_sound_def fsm_text_update opt_trimmed_def opt_within_def)

lemma keys_sound_clear [simp]: "keys_sound (clear_fsm c)"
  by (simp add: keys_sound_def fsm_text_def opt_trimmed_def opt_within_def)

lemma keys_sound_redo [simp]: "keys_sound (redo_data c)"
  by (simp add: keys_sound_def fsm_text_def opt_trimmed_def opt_within_def redo_data_def)

lemma question_of_sound: "keys_sound c \<Longrightarrow> question_of c = Some q \<Longrightarrow> question_sound q"
  by (auto simp: keys_sound_def question_of_def question_sound_def opt_trimmed_def opt_within_def split: option.splits)

lemma bank_ok_goto: "bank_ok s \<Longrightarrow> bank_ok (goto st tg s)"
  by (simp add: bank_ok_def)

lemma bank_ok_text:
  "bank_ok s \<Longrightarrow> trimmed t \<Longrightarrow> (k = ''q_text'' \<Longrightarrow> length t \<le> 300) \<Longrightarrow> bank_ok (goto st tg (keep k (FText t) tg s))"
  "bank_ok s \<Longrightarrow> trimmed t \<Longrightarrow> (k = ''q_text'' \<Longrightarrow> length t \<le> 300) \<Longrightarrow> bank_ok (keep k (FText t) tg s)"
  by (simp_all add: bank_ok_def keys_sound_text)

lemma bank_ok_clear: "bank_ok s \<Longrightarrow> bank_ok (bank_clear tg s)"
  by (simp add: bank_ok_def leave_def on_fsm_def)

lemma bank_ok_db: "bank_ok (on_bank (on_db f) s) = bank_ok s"
  by (simp add: bank_ok_def on_db_def)

lemma store_count: "get_question_count (fold store_question qs d) = get_question_count d + length qs"
  by (induction qs arbitrary: d) (simp_all add: store_question_def add_question_def get_question_count_def insert_row_def)

text \<open>A step stores a list of sound questions, none in most cases, and never more than there is room for.\<close>

definition grows :: "bank_world \<Rightarrow> bank_world \<Rightarrow> bool" where
  "grows s s' \<longleftrightarrow> bank_ok s' \<and> (\<exists>qs. list_all (\<lambda>q. question_sound q \<and> question_fits q) qs \<and>
     dw_db (bk_world s') = fold store_question qs (dw_db (bk_world s)) \<and> (qs = [] \<or> bank_count s + int (length qs) \<le> MAX_QUESTIONS))"

lemma grows_none: "bank_ok s' \<Longrightarrow> dw_db (bk_world s') = dw_db (bk_world s) \<Longrightarrow> grows s s'"
  unfolding grows_def by (rule conjI, assumption, rule exI [of _ "[]"]) simp

lemma grows_text:
  assumes "bank_ok s" and "typed m \<noteq> []" and "k = ''q_text'' \<Longrightarrow> length (typed m) \<le> 300"
  shows "grows s (goto st tg (keep k (FText (typed m)) tg s))" "grows s (keep k (FText (typed m)) tg s)"
    "grows s (goto st tg (keep k (FText (typed m)) tg s))"
  using assms by (simp_all add: grows_none bank_ok_text trimmed_typed)

lemma grows_option:
  assumes "bank_ok s" and "typed m \<noteq> []" and "k \<noteq> ''q_text''"
  shows "grows s (goto st tg (keep k (FText (typed m)) tg s))" "grows s (keep k (FText (typed m)) tg s)"
  using grows_text [of s m k] assms by simp_all

lemma typed_grows:
  assumes "bank_ok s"
  shows "grows s (fst (handle_question_text tg m s))" "grows s (fst (handle_option_a tg m s))"
    "grows s (fst (handle_option_b tg m s))" "grows s (fst (handle_option_c tg m s))"
    "grows s (fst (handle_option_d tg m s))" "grows s (fst (handle_category tg m s))"
proof -
  show "grows s (fst (handle_question_text tg m s))"
    using assms grows_text [of s m "''q_text''"] by (simp add: handle_question_text_def Let_def grows_none)
  show "grows s (fst (handle_option_b tg m s))"
    using assms by (simp add: handle_option_b_def Let_def grows_none grows_option split: option.split)
qed (use assms in \<open>simp_all add: handle_option_a_def handle_option_c_def handle_option_d_def handle_category_def
       Let_def grows_none grows_option\<close>)

lemma message_grows: "bank_ok s \<Longrightarrow> grows s (fst (question_message tg m s))"
  by (simp add: question_message_def Let_def typed_grows grows_none)

lemma cleared_grows: "bank_ok s \<Longrightarrow> grows s (bank_clear tg s)"
  by (simp add: grows_none bank_ok_clear leave_def on_fsm_def)

lemma moved_grows: "bank_ok s \<Longrightarrow> grows s (goto st tg s)"
  by (simp add: grows_none bank_ok_goto)

lemma confirm_grows:
  assumes "bank_ok s"
  shows "grows s (fst (handle_question_confirm tg action s))"
proof -
  have redo: "grows s ((on_bank (on_fsm tg redo_data) s)\<lparr>bk_pending := (bk_pending s)(tg := [])\<rparr>)"
    using assms by (intro grows_none) (simp_all add: bank_ok_def on_fsm_def)
  have save: "grows s (bank_clear tg (on_bank (on_db (store_question q)) s))"
    if q: "question_of (dw_fsm (bk_world s) tg) = Some q" "question_fits q" "bank_count s < MAX_QUESTIONS" for q
    unfolding grows_def
  proof (intro conjI exI [of _ "[q]"])
    show "bank_ok (bank_clear tg (on_bank (on_db (store_question q)) s))" using assms by (simp add: bank_ok_clear bank_ok_db)
    show "list_all (\<lambda>q. question_sound q \<and> question_fits q) [q]"
      using q assms question_of_sound [of "dw_fsm (bk_world s) tg" q] by (simp add: bank_ok_def)
    show "dw_db (bk_world (bank_clear tg (on_bank (on_db (store_question q)) s))) = fold store_question [q] (dw_db (bk_world s))"
      by (simp add: leave_def on_fsm_def on_db_def)
    show "[q] = [] \<or> bank_count s + int (length [q]) \<le> MAX_QUESTIONS" using q(3) by simp
  qed
  show ?thesis
    using assms by (simp add: handle_question_confirm_def Let_def redo save cleared_grows grows_none split: option.split)
qed

lemma upload_grows:
  assumes "bank_ok s"
  shows "grows s (fst (handle_question_excel_upload tg n z f s))"
proof -
  have "grows s (goto Q_BULK tg (s\<lparr>bk_pending := (bk_pending s)(tg := py_take k (fst (parse_question_excel x)))\<rparr>))" for k x
    using assms by (intro grows_none bank_ok_goto) (simp_all add: bank_ok_def py_take_sound parse_excel_sound)
  then show ?thesis
    using assms by (simp add: handle_question_excel_upload_def Let_def cleared_grows grows_none split: option.split)
qed

lemma import_grows:
  assumes "bank_ok s" and "bank_count s \<le> MAX_QUESTIONS"
  shows "grows s (fst (bulk_import_confirm tg s))"
proof -
  define ins where "ins = py_take (MAX_QUESTIONS - bank_count s) (bk_pending s tg)"
  have len: "int (length ins) \<le> MAX_QUESTIONS - bank_count s" using assms(2) by (simp add: ins_def py_take_def)
  have sound: "list_all question_sound ins" unfolding ins_def using assms(1) by (simp add: bank_ok_def py_take_sound)
  have "grows s (bank_clear tg (on_bank (on_db (fold store_question ins)) s))" if "list_all question_fits ins"
    unfolding grows_def
  proof (intro conjI exI [of _ ins])
    show "bank_ok (bank_clear tg (on_bank (on_db (fold store_question ins)) s))" using assms by (simp add: bank_ok_clear bank_ok_db)
    show "list_all (\<lambda>q. question_sound q \<and> question_fits q) ins" using sound that by (simp add: list_all_iff)
    show "dw_db (bk_world (bank_clear tg (on_bank (on_db (fold store_question ins)) s))) = fold store_question ins (dw_db (bk_world s))"
      by (simp add: leave_def on_fsm_def on_db_def)
    show "ins = [] \<or> bank_count s + int (length ins) \<le> MAX_QUESTIONS" using len by simp
  qed
  then show ?thesis
    using assms by (simp add: bulk_import_confirm_def Let_def cleared_grows grows_none ins_def)
qed

lemma type_grows:
  assumes "bank_ok s"
  shows "grows s (fst (handle_question_type tg a s))"
proof -
  have "grows s (goto Q_TEXT tg (keep ''q_type'' (FInt n) tg s))" for n
    using assms by (intro grows_none) (simp_all add: bank_ok_def keys_sound_int)
  then show ?thesis
    using assms by (simp add: handle_question_type_def cleared_grows grows_none split: option.split)
qed

lemma step_grows:
  assumes "bank_ok s" and "bank_count s \<le> MAX_QUESTIONS"
  shows "grows s (fst (bank_step tg e s))"
  using assms
  by (cases e) (simp_all add: cmd_addquestion_def cmd_importquestions_def bulk_import_cancel_def moved_grows type_grows
      message_grows confirm_grows upload_grows import_grows cleared_grows grows_none)

lemma grows_count:
  assumes "grows s s'" and "bank_count s \<le> MAX_QUESTIONS"
  shows "bank_count s' \<le> MAX_QUESTIONS"
  using assms by (auto simp: grows_def bank_count_def store_count)

text \<open>A step as a function of who takes it and what they do.\<close>

definition bank_move :: "int \<times> bank_event \<Rightarrow> bank_world \<Rightarrow> bank_world" where
  "bank_move p s = fst (bank_step (fst p) (snd p) s)"

lemma bank_run_fold: "bank_run es s = fold bank_move es s"
  by (induction es s rule: bank_run.induct) (simp_all add: bank_move_def)

interpretation bank: growing bank_move "\<lambda>s. dw_db (bk_world s)" store_question
    "\<lambda>s. bank_ok s \<and> bank_count s \<le> MAX_QUESTIONS" "\<lambda>q. question_sound q \<and> question_fits q"
proof
  fix s e
  assume a: "bank_ok s \<and> bank_count s \<le> MAX_QUESTIONS"
  have g: "grows s (bank_move e s)" unfolding bank_move_def using a by (simp add: step_grows)
  then show "bank_ok (bank_move e s) \<and> bank_count (bank_move e s) \<le> MAX_QUESTIONS"
    using a grows_count by (auto simp: grows_def)
  from g show "\<exists>qs. list_all (\<lambda>q. question_sound q \<and> question_fits q) qs \<and>
      dw_db (bk_world (bank_move e s)) = fold store_question qs (dw_db (bk_world s))"
    by (auto simp: grows_def)
qed

section \<open>Properties\<close>

text \<open>C14: However administrators mix their dialogues and imports, from a bank of at most eighty questions the bank
  never holds more than eighty, no question in it changes, and every new one has a text of at most 300 characters,
  two options and a category, all trimmed, not empty and within their columns.\<close>

theorem bank_grows_well:
  assumes "bank_ok s" and "bank_count s \<le> MAX_QUESTIONS"
  shows "bank_count (bank_run es s) \<le> MAX_QUESTIONS \<and>
    (\<exists>qs. list_all (\<lambda>q. question_sound q \<and> question_fits q) qs \<and>
       dw_db (bk_world (bank_run es s)) = fold store_question qs (dw_db (bk_world s)))"
  unfolding bank_run_fold using bank.run_ok bank.run_adds assms by simp

text \<open>A question of two options, entered without interruption, is stored as it was typed, and the dialogue ends;
  but its third and fourth option are whatever the dialogue's data held before, since neither the command nor the
  choice of a type clears them: an abandoned question of four options lends its third option to the next one.\<close>

theorem two_options_stored:
  assumes "bank_count s < MAX_QUESTIONS"
    and "list_all trimmed [t, a, b, k]" and "length t \<le> 300"
    and "q = \<lparr>qd_text = t, qd_a = a, qd_b = b, qd_c = fsm_text ''opt_c'' (dw_fsm (bk_world s) tg),
           qd_d = fsm_text ''opt_d'' (dw_fsm (bk_world s) tg), qd_category = k\<rparr>"
    and "question_fits q"
  shows "let s' = bank_run (map (Pair tg) [AddQuestion, TypePressed (lit ''2''), QuestionTyped (Some t), QuestionTyped (Some a),
      QuestionTyped (Some b), QuestionTyped (Some k), SavePressed (lit ''save'')]) s in
    dw_db (bk_world s') = store_question q (dw_db (bk_world s)) \<and> dw_fsm (bk_world s') tg = clear_fsm (dw_fsm (bk_world s) tg)"
proof -
  let ?c = "dw_fsm (bk_world s) tg"
  have ty: "typed (Some t) = t" "typed (Some a) = a" "typed (Some b) = b" "typed (Some k) = k"
    and ne: "t \<noteq> []" "a \<noteq> []" "b \<noteq> []" "k \<noteq> []"
    using assms(2) by (simp_all add: trimmed_def typed_def)
  have "lit ''2'' = py_str 2" by code_simp
  then have two: "py_int (lit ''2'') = Some 2" by (simp add: py_int_str)
  have nc: "lit ''2'' \<noteq> lit ''cancel''" by (simp add: lit_def)
  have sv: "lit ''save'' \<noteq> lit ''cancel''" "lit ''save'' \<noteq> lit ''redo''" by (simp_all add: lit_def)
  have st: "Q_TYPE \<noteq> Q_TEXT" "Q_A \<noteq> Q_TEXT" "Q_B \<noteq> Q_TEXT" "Q_B \<noteq> Q_A" "Q_CATEGORY \<noteq> Q_TEXT" "Q_CATEGORY \<noteq> Q_A"
      "Q_CATEGORY \<noteq> Q_B" "Q_CATEGORY \<noteq> Q_C" "Q_CATEGORY \<noteq> Q_D"
    by (simp_all add: question_states)
  define s1 where "s1 = goto Q_TEXT tg (keep ''q_type'' (FInt 2) tg (goto Q_TYPE tg s))"
  define s2 where "s2 = goto Q_A tg (keep ''q_text'' (FText t) tg s1)"
  define s3 where "s3 = goto Q_B tg (keep ''opt_a'' (FText a) tg s2)"
  define s4 where "s4 = goto Q_CATEGORY tg (keep ''opt_b'' (FText b) tg s3)"
  define s5 where "s5 = goto Q_CONFIRM tg (keep ''category'' (FText k) tg s4)"
  note defs = s1_def s2_def s3_def s4_def s5_def
  have fs: "fsm_state (dw_fsm (bk_world s1) tg) = Some Q_TEXT" "fsm_state (dw_fsm (bk_world s2) tg) = Some Q_A"
      "fsm_state (dw_fsm (bk_world s3) tg) = Some Q_B" "fsm_state (dw_fsm (bk_world s4) tg) = Some Q_CATEGORY"
      "fsm_state (dw_fsm (bk_world s5) tg) = Some Q_CONFIRM"
    by (simp_all add: defs set_state_def)
  have db: "dw_db (bk_world s5) = dw_db (bk_world s)" by (simp add: defs)
  have data: "fsm_data (dw_fsm (bk_world s5) tg) = (fsm_data ?c)(''q_type'' \<mapsto> FInt 2, ''q_text'' \<mapsto> FText t,
      ''opt_a'' \<mapsto> FText a, ''opt_b'' \<mapsto> FText b, ''category'' \<mapsto> FText k)"
    by (simp add: defs set_state_def)
  have q: "question_of (dw_fsm (bk_world s5) tg) = Some q"
    by (simp add: question_of_def fsm_text_def data assms(4))
  have ty4: "fsm_int ''q_type'' (dw_fsm (bk_world (keep ''opt_b'' (FText b) tg s3)) tg) = Some 2"
    by (simp add: fsm_int_def defs set_state_def)
  have "fst (bank_step tg AddQuestion s) = goto Q_TYPE tg s" using assms(1) by (simp add: cmd_addquestion_def)
  moreover have "fst (bank_step tg (TypePressed (lit ''2'')) (goto Q_TYPE tg s)) = s1"
    by (simp add: handle_question_type_def two nc s1_def set_state_def)
  moreover have "fst (bank_step tg (QuestionTyped (Some t)) s1) = s2"
    using assms(3) by (simp add: question_message_def fs handle_question_text_def ty ne s2_def)
  moreover have "fst (bank_step tg (QuestionTyped (Some a)) s2) = s3"
    by (simp add: question_message_def fs st handle_option_a_def ty ne s3_def)
  moreover have "fst (bank_step tg (QuestionTyped (Some b)) s3) = s4"
    by (simp add: question_message_def fs st handle_option_b_def ty ne s4_def Let_def ty4 del: goto_keep_simps)
  moreover have "fst (bank_step tg (QuestionTyped (Some k)) s4) = s5"
    by (simp add: question_message_def fs st handle_category_def ty ne s5_def)
  moreover have "fst (bank_step tg (SavePressed (lit ''save'')) s5) = bank_clear tg (on_bank (on_db (store_question q)) s5)"
    using assms(1,5) by (simp add: handle_question_confirm_def fs sv q Let_def bank_count_def db)
  moreover have "dw_db (bk_world (bank_clear tg (on_bank (on_db (store_question q)) s5))) = store_question q (dw_db (bk_world s))"
    by (simp add: leave_def on_fsm_def on_db_def db)
  moreover have "dw_fsm (bk_world (bank_clear tg (on_bank (on_db (store_question q)) s5))) tg = clear_fsm ?c"
    by (simp add: leave_def on_fsm_def on_db_def clear_fsm_def)
  ultimately show ?thesis by (simp add: Let_def del: bank_step.simps)
qed

text \<open>One option longer than its column loses the whole import: nothing is stored, however good the other questions
  are, and the dialogue stays where it was, so that confirming again fails again.\<close>

theorem one_long_option_stops_import:
  assumes "fsm_state (dw_fsm (bk_world s) tg) = Some Q_BULK" and "q \<in> set (bk_pending s tg)" and "\<not> question_fits q"
    and "bank_count s + int (length (bk_pending s tg)) \<le> MAX_QUESTIONS"
  shows "bank_step tg ImportConfirmed s = (s, BankRaised)"
proof -
  have "py_take (MAX_QUESTIONS - bank_count s) (bk_pending s tg) = bk_pending s tg" using assms(4) by (simp add: py_take_def)
  moreover have "\<not> list_all question_fits (bk_pending s tg)" using assms(2,3) by (auto simp: list_all_iff)
  ultimately show ?thesis using assms(1,2) by (auto simp: bulk_import_confirm_def Let_def)
qed

section \<open>Witnesses\<close>

definition no_dialogue :: fsm where
  "no_dialogue = \<lparr>fsm_state = None, fsm_data = Map.empty\<rparr>"

definition empty_bank :: bank_world where
  "empty_bank = \<lparr>bk_world = \<lparr>dw_db = empty_db, dw_sched = idle_sched, dw_store = empty_store, dw_fsm = \<lambda>_. no_dialogue,
     dw_pool = Map.empty, dw_sync = Map.empty, dw_skip = Map.empty, dw_cooldown = Map.empty, dw_last = Map.empty\<rparr>,
     bk_pending = \<lambda>_. []\<rparr>"

lemma empty_bank_simps [simp]:
  "dw_db (bk_world empty_bank) = empty_db" "dw_fsm (bk_world empty_bank) tg = no_dialogue" "bk_pending empty_bank tg = []"
  by (simp_all add: empty_bank_def)

lemma empty_bank_ok: "bank_ok empty_bank" "bank_count empty_bank = 0"
  by (simp_all add: bank_ok_def keys_sound_def fsm_text_def no_dialogue_def opt_trimmed_def opt_within_def bank_count_def
      get_question_count_def empty_db_def empty_tbl_def)

theorem bank_grows_well_witness:
  "bank_count (bank_run [(1, AddQuestion), (2, ImportQuestions)] empty_bank) \<le> 80"
  using bank_grows_well [OF empty_bank_ok(1), of "[(1, AddQuestion), (2, ImportQuestions)]"] empty_bank_ok(2)
  by (simp add: MAX_QUESTIONS_def del: bank_run.simps)

text \<open>Someone left a question of four options after its third option, the letter D.\<close>

definition abandoned :: bank_world where
  "abandoned = on_bank (on_fsm 1 (\<lambda>c. update_data ''opt_c'' (FText [68]) (set_state (Some Q_D) c))) empty_bank"

theorem two_options_stored_witness:
  "\<exists>es. dw_db (bk_world (bank_run es abandoned)) =
     store_question \<lparr>qd_text = [65], qd_a = [66], qd_b = [67], qd_c = Some [68], qd_d = None, qd_category = [69]\<rparr> empty_db"
proof -
  let ?q = "\<lparr>qd_text = [65], qd_a = [66], qd_b = [67], qd_c = Some [68], qd_d = None, qd_category = [69]\<rparr>"
  have c: "fsm_text ''opt_c'' (dw_fsm (bk_world abandoned) 1) = Some [68]" "fsm_text ''opt_d'' (dw_fsm (bk_world abandoned) 1) = None"
    "dw_db (bk_world abandoned) = empty_db" "bank_count abandoned < MAX_QUESTIONS"
    by (simp_all add: abandoned_def on_fsm_def fsm_text_def no_dialogue_def set_state_def bank_count_def MAX_QUESTIONS_def
        get_question_count_def empty_db_def empty_tbl_def)
  have t: "list_all trimmed [[65], [66], [67], [69]]" by (simp add: trimmed_def strip_def is_space_def)
  have q: "?q = \<lparr>qd_text = [65], qd_a = [66], qd_b = [67], qd_c = fsm_text ''opt_c'' (dw_fsm (bk_world abandoned) 1),
      qd_d = fsm_text ''opt_d'' (dw_fsm (bk_world abandoned) 1), qd_category = [69]\<rparr>" by (simp add: c)
  have f: "question_fits ?q" by (simp add: question_fits_def opt_within_def)
  show ?thesis using two_options_stored [OF c(4) t _ q f] c(3) by (auto simp: Let_def simp del: bank_run.simps)
qed

text \<open>An import of one question whose first option has 201 characters.\<close>

definition long_import :: bank_world where
  "long_import = (on_bank (on_fsm 1 (set_state (Some Q_BULK))) empty_bank)
     \<lparr>bk_pending := \<lambda>_. [\<lparr>qd_text = [65], qd_a = replicate 201 66, qd_b = [67], qd_c = None, qd_d = None, qd_category = [69]\<rparr>]\<rparr>"

theorem one_long_option_stops_import_witness:
  "bank_step 1 ImportConfirmed long_import = (long_import, BankRaised)"
proof (rule one_long_option_stops_import)
  show "fsm_state (dw_fsm (bk_world long_import) 1) = Some Q_BULK" by (simp add: long_import_def on_fsm_def set_state_def)
  show "\<lparr>qd_text = [65], qd_a = replicate 201 66, qd_b = [67], qd_c = None, qd_d = None, qd_category = [69]\<rparr> \<in> set (bk_pending long_import 1)"
    by (simp add: long_import_def)
  show "\<not> question_fits \<lparr>qd_text = [65], qd_a = replicate 201 66, qd_b = [67], qd_c = None, qd_d = None, qd_category = [69]\<rparr>"
    by (simp add: question_fits_def)
  show "bank_count long_import + int (length (bk_pending long_import 1)) \<le> MAX_QUESTIONS"
    by (simp add: long_import_def bank_count_def on_fsm_def get_question_count_def empty_db_def empty_tbl_def MAX_QUESTIONS_def)
qed

end
