(* ===== verification/AdminContent.thy ===== *)
theory AdminContent
  imports QuestionBank Gifts Banners ForceJoin Vip "HOL-Library.AList"
begin

text \<open>
  What administrators put before the users (\<open>bot/handlers/admin.py\<close>): the dialogues that add a gift to the
  catalogue, open a campaign of banners, announce an event and change the card, and the commands on the
  sponsors.  The card's and the event's Redis keys are records of their own.  \<open>uc\<close> is Python's table of
  upper-case letters, \<open>py_float\<close> its \<open>float()\<close>; MySQL refuses what does not fit a column.
\<close>

definition put :: "string \<Rightarrow> string \<Rightarrow> fval \<Rightarrow> fsm \<Rightarrow> fsm" where
  "put st k v c = set_state (Some st) (update_data k v c)"

definition in_state :: "string \<Rightarrow> int \<Rightarrow> dworld \<Rightarrow> bool" where
  "in_state st tg w \<longleftrightarrow> fsm_state (dw_fsm w tg) = Some st"

definition INT_MAX :: int where "INT_MAX = 2147483647"

datatype content_reply = Next | Refused | HRaised | HExpired | HCancelled | Created int | NotCreated | Stale

section \<open>A gift for the catalogue\<close>

definition GA_CODE :: string where "GA_CODE = ''GiftAddStates:waiting_for_code''"
definition GA_NAME :: string where "GA_NAME = ''GiftAddStates:waiting_for_name''"
definition GA_EMOJI :: string where "GA_EMOJI = ''GiftAddStates:waiting_for_emoji''"
definition GA_PRICE :: string where "GA_PRICE = ''GiftAddStates:waiting_for_price''"
definition GA_DESCRIPTION :: string where "GA_DESCRIPTION = ''GiftAddStates:waiting_for_description''"
definition GA_CONFIRM :: string where "GA_CONFIRM = ''GiftAddStates:confirming''"

lemmas gift_add_states = GA_CODE_def GA_NAME_def GA_EMOJI_def GA_PRICE_def GA_DESCRIPTION_def GA_CONFIRM_def

definition upper :: "(nat \<Rightarrow> ustr) \<Rightarrow> ustr \<Rightarrow> ustr" where
  "upper uc t = concat (map uc t)"

definition cmd_add_gift :: "int \<Rightarrow> dworld \<Rightarrow> dworld" where
  "cmd_add_gift tg = on_fsm tg (set_state (Some GA_CODE))"

definition cancel_add_gift :: "int \<Rightarrow> dworld \<Rightarrow> dworld" where
  "cancel_add_gift tg = leave tg"

definition process_gift_code :: "(nat \<Rightarrow> ustr) \<Rightarrow> int \<Rightarrow> ustr option \<Rightarrow> dworld \<Rightarrow> dworld \<times> content_reply" where
  "process_gift_code uc tg m w =
     (let code = upper uc (typed m) in
      if code = [] \<or> 32 \<in> set code then (w, Refused)
      else if check_gift_code_exists (utf8 code) (dw_db w) then (w, Refused)
      else (on_fsm tg (put GA_NAME ''gift_code'' (FText code)) w, Next))"

definition process_gift_name :: "int \<Rightarrow> ustr option \<Rightarrow> dworld \<Rightarrow> dworld \<times> content_reply" where
  "process_gift_name tg m w =
     (if typed m = [] then (w, Refused) else (on_fsm tg (put GA_EMOJI ''gift_name'' (FText (typed m))) w, Next))"

definition process_gift_emoji :: "int \<Rightarrow> ustr option \<Rightarrow> dworld \<Rightarrow> dworld \<times> content_reply" where
  "process_gift_emoji tg m w =
     (if typed m = [] then (w, Refused) else (on_fsm tg (put GA_PRICE ''gift_emoji'' (FText (typed m))) w, Next))"

text \<open>\<open>message.text.strip()\<close> raises on a message without text.\<close>

definition process_gift_price :: "int \<Rightarrow> ustr option \<Rightarrow> dworld \<Rightarrow> dworld \<times> content_reply" where
  "process_gift_price tg m w = (case m of None \<Rightarrow> (w, HRaised)
     | Some t \<Rightarrow> (case py_int (strip t) of
          None \<Rightarrow> (w, Refused)
        | Some n \<Rightarrow> if n \<le> 0 then (w, Refused)
            else (on_fsm tg (put GA_DESCRIPTION ''gift_price'' (FInt n)) w, Next)))"

record gift_data =
  gd_code :: ustr
  gd_name :: ustr
  gd_emoji :: ustr
  gd_price :: int
  gd_desc :: ustr

definition gift_data_of :: "fsm \<Rightarrow> gift_data option" where
  "gift_data_of c = (case (fsm_text ''gift_code'' c, fsm_text ''gift_name'' c, fsm_text ''gift_emoji'' c,
       fsm_int ''gift_price'' c, fsm_text ''gift_desc'' c) of
     (Some a, Some b, Some e, Some p, Some t) \<Rightarrow>
        Some \<lparr>gd_code = a, gd_name = b, gd_emoji = e, gd_price = p, gd_desc = t\<rparr>
   | _ \<Rightarrow> None)"

definition process_gift_description :: "int \<Rightarrow> ustr option \<Rightarrow> dworld \<Rightarrow> dworld \<times> content_reply" where
  "process_gift_description tg m w =
     (let w1 = on_fsm tg (put GA_CONFIRM ''gift_desc'' (FText (typed m))) w in
      (w1, if gift_data_of (dw_fsm w1 tg) = None then HRaised else Next))"

text \<open>The columns of \<open>gift_types\<close>.\<close>

definition gift_fits :: "gift_data \<Rightarrow> bool" where
  "gift_fits g \<longleftrightarrow> length (gd_code g) \<le> 30 \<and> length (gd_name g) \<le> 50 \<and> length (gd_emoji g) \<le> 20 \<and>
     gd_price g \<le> INT_MAX \<and> length (gd_desc g) \<le> 200"

definition store_gift :: "gift_data \<Rightarrow> db \<Rightarrow> db" where
  "store_gift g = add_gift_type (utf8 (gd_code g)) (utf8 (gd_name g)) (utf8 (gd_emoji g)) (gd_price g) (Some (utf8 (gd_desc g)))"

text \<open>A missing key, a code taken in the meantime and a text too long are all caught and rolled back.\<close>

definition confirm_add_gift :: "int \<Rightarrow> dworld \<Rightarrow> dworld \<times> content_reply" where
  "confirm_add_gift tg w =
     (let c = dw_fsm w tg in
      if fsm_data c = Map.empty then (w, HExpired)
      else case gift_data_of c of
        None \<Rightarrow> (leave tg w, NotCreated)
      | Some g \<Rightarrow>
          if check_gift_code_exists (utf8 (gd_code g)) (dw_db w) \<or> \<not> gift_fits g then (leave tg w, NotCreated)
          else (leave tg (on_db (store_gift g) w), Created (next_id (gift_types (dw_db w)))))"

section \<open>A campaign of banners\<close>

definition BA_PHOTO :: string where "BA_PHOTO = ''BannerAddStates:waiting_for_photo''"
definition BA_CAPTION :: string where "BA_CAPTION = ''BannerAddStates:waiting_for_caption''"
definition BA_REWARD :: string where "BA_REWARD = ''BannerAddStates:waiting_for_reward''"
definition BA_CONFIRM :: string where "BA_CONFIRM = ''BannerAddStates:confirming''"

lemmas banner_add_states = BA_PHOTO_def BA_CAPTION_def BA_REWARD_def BA_CONFIRM_def

definition cmd_newbanner :: "int \<Rightarrow> dworld \<Rightarrow> dworld" where
  "cmd_newbanner tg = on_fsm tg (set_state (Some BA_PHOTO))"

definition cancel_banner_creation :: "int \<Rightarrow> dworld \<Rightarrow> dworld" where
  "cancel_banner_creation tg = leave tg"

text \<open>\<open>photo\<close>: the largest photo of the message, if it has one.\<close>

definition process_banner_photo :: "int \<Rightarrow> string option \<Rightarrow> dworld \<Rightarrow> dworld \<times> content_reply" where
  "process_banner_photo tg photo w = (case photo of
     None \<Rightarrow> (w, Refused)
   | Some p \<Rightarrow> (on_fsm tg (put BA_CAPTION ''banner_photo'' (FStr p)) w, Next))"

text \<open>\<open>caption\<close>: the message's text as HTML.\<close>

definition process_banner_caption :: "int \<Rightarrow> ustr \<Rightarrow> dworld \<Rightarrow> dworld \<times> content_reply" where
  "process_banner_caption tg caption w =
     (if strip caption = [] then (w, Refused)
      else (on_fsm tg (put BA_REWARD ''banner_caption'' (FText caption)) w, Next))"

text \<open>Which buttons are offered is part of the reply: \<open>Created\<close> the active campaign that would be replaced.\<close>

definition process_banner_reward :: "int \<Rightarrow> ustr option \<Rightarrow> dworld \<Rightarrow> dworld \<times> content_reply" where
  "process_banner_reward tg m w = (case py_int (typed m) of
     None \<Rightarrow> (w, Refused)
   | Some n \<Rightarrow> if n \<le> 0 then (w, Refused)
       else (on_fsm tg (put BA_CONFIRM ''banner_reward'' (FInt n)) w,
         case get_active_campaign (dw_db w) of None \<Rightarrow> Next | Some b \<Rightarrow> Created (bc_id b)))"

definition replace_campaign :: "db \<Rightarrow> db" where
  "replace_campaign d = (case get_active_campaign d of
     None \<Rightarrow> d
   | Some b \<Rightarrow> d\<lparr>campaigns := upd_where (\<lambda>r. bc_id r = bc_id b) (\<lambda>r. r\<lparr>bc_is_active := False\<rparr>) (campaigns d)\<rparr>)"

definition confirm_banner_creation :: "int \<Rightarrow> bool \<Rightarrow> int \<Rightarrow> dworld \<Rightarrow> dworld \<times> content_reply" where
  "confirm_banner_creation now replaces tg w =
     (let c = dw_fsm w tg; w1 = (if replaces then on_db replace_campaign w else w) in
      if fsm_data c = Map.empty then (w, HExpired)
      else case (fsm_str ''banner_photo'' c, fsm_text ''banner_caption'' c, fsm_int ''banner_reward'' c) of
        (Some p, Some t, Some n) \<Rightarrow>
          if n > INT_MAX then (w1, HRaised)
          else (leave tg (on_db (create_campaign now p (utf8 t) n) w1), Created (next_id (campaigns (dw_db w))))
      | _ \<Rightarrow> (w1, HRaised))"

text \<open>The last fifteen campaigns with the number of their forwards.\<close>

definition cmd_banners :: "db \<Rightarrow> (banner_campaign \<times> nat) list" where
  "cmd_banners d = map (\<lambda>b. (b, length (filter (\<lambda>f. bf_campaign_id f = bc_id b) (rows (forwards d)))))
     (take 15 (sort_key (\<lambda>b. - bc_id b) (rows (campaigns d))))"

section \<open>The payment card\<close>

record card_store =
  cd_number :: "ustr option"
  cd_holder :: "ustr option"

definition C_NUMBER :: string where "C_NUMBER = ''AdminStates:waiting_for_card_number''"
definition C_HOLDER :: string where "C_HOLDER = ''AdminStates:waiting_for_card_holder''"
definition C_CONFIRM :: string where "C_CONFIRM = ''AdminStates:confirming_card_change''"

lemmas card_states = C_NUMBER_def C_HOLDER_def C_CONFIRM_def

definition or_default :: "ustr option \<Rightarrow> ustr \<Rightarrow> ustr" where
  "or_default x std = (case x of None \<Rightarrow> std | Some t \<Rightarrow> if t = [] then std else t)"

definition get_card_info :: "ustr \<times> ustr \<Rightarrow> card_store \<Rightarrow> ustr \<times> ustr" where
  "get_card_info std s = (or_default (cd_number s) (fst std), or_default (cd_holder s) (snd std))"

text \<open>Sixteen Persian or Latin digits; \<open>$\<close> allows a line feed at the end.\<close>

definition card_digit :: "nat \<Rightarrow> bool" where
  "card_digit c \<longleftrightarrow> 48 \<le> c \<and> c \<le> 57 \<or> 1776 \<le> c \<and> c \<le> 1785"

definition card_number_re :: "ustr \<Rightarrow> bool" where
  "card_number_re t = (let u = (if t \<noteq> [] \<and> last t = 10 then butlast t else t) in length u = 16 \<and> list_all card_digit u)"

text \<open>\<open>None\<close>: \<open>ValueError\<close>.\<close>

definition set_card_info :: "ustr \<Rightarrow> ustr \<Rightarrow> card_store \<Rightarrow> card_store option" where
  "set_card_info number holder s =
     (let n = normalize_digits number in
      if card_number_re n then Some \<lparr>cd_number = Some n, cd_holder = Some holder\<rparr> else None)"

definition reset_card_info :: "card_store \<Rightarrow> card_store" where
  "reset_card_info s = \<lparr>cd_number = None, cd_holder = None\<rparr>"

definition is_overridden :: "card_store \<Rightarrow> bool" where
  "is_overridden s \<longleftrightarrow> cd_number s \<noteq> None \<or> cd_holder s \<noteq> None"

definition cmd_set_card_start :: "fsm \<Rightarrow> fsm" where
  "cmd_set_card_start = set_state (Some C_NUMBER)"

definition is_command :: "ustr option \<Rightarrow> bool" where
  "is_command m \<longleftrightarrow> (case m of None \<Rightarrow> False | Some t \<Rightarrow> starts_with (lit ''/'') t)"

definition process_new_card_number :: "ustr option \<Rightarrow> fsm \<Rightarrow> fsm \<times> content_reply" where
  "process_new_card_number m c =
     (if is_command m then (c, Refused)
      else let ds = filter (\<lambda>x. x \<noteq> 45 \<and> x \<noteq> 32) (typed m) in
        if \<not> isdigit ds \<or> length ds \<noteq> 16 then (c, Refused)
        else (put C_HOLDER ''new_card_number'' (FText ds) c, Next))"

definition process_new_card_holder :: "ustr option \<Rightarrow> fsm \<Rightarrow> fsm \<times> content_reply" where
  "process_new_card_holder m c =
     (if is_command m then (c, Refused)
      else if typed m = [] \<or> length (typed m) > 60 then (c, Refused)
      else if fsm_text ''new_card_number'' c \<in> {None, Some []} then (clear_fsm c, HExpired)
      else (put C_CONFIRM ''new_card_holder'' (FText (typed m)) c, Next))"

definition confirm_set_card :: "fsm \<times> card_store \<Rightarrow> (fsm \<times> card_store) \<times> content_reply" where
  "confirm_set_card s =
     (let (c, k) = s in
      case (fsm_text ''new_card_number'' c, fsm_text ''new_card_holder'' c) of
        (Some n, Some h) \<Rightarrow>
          if n = [] \<or> h = [] then ((clear_fsm c, k), HExpired)
          else (case set_card_info n h k of
             None \<Rightarrow> ((clear_fsm c, k), NotCreated)
           | Some k1 \<Rightarrow> ((clear_fsm c, k1), Next))
      | _ \<Rightarrow> ((clear_fsm c, k), HExpired))"

definition cmd_reset_card :: "card_store \<Rightarrow> card_store \<times> content_reply" where
  "cmd_reset_card k = (if \<not> is_overridden k then (k, Refused) else (reset_card_info k, Next))"

section \<open>An event\<close>

text \<open>A float; \<open>float()\<close> also reads infinities and nan.\<close>

datatype pyfloat = Finite rat | Infinite bool | NotANumber

definition above_one :: "pyfloat \<Rightarrow> bool" where
  "above_one x = (case x of Finite r \<Rightarrow> 1 < r | Infinite positive \<Rightarrow> positive | NotANumber \<Rightarrow> True)"

record event_data =
  ed_name :: ustr
  ed_description :: ustr
  ed_multiplier :: pyfloat
  ed_ends_at :: int

text \<open>The two keys with their expiry, both set for the same time.\<close>

record event_store =
  ev_data :: "(event_data \<times> int) option"
  ev_multiplier :: "(pyfloat \<times> int) option"

definition EV_NAME :: string where "EV_NAME = ''EventStates:waiting_for_name''"
definition EV_DESCRIPTION :: string where "EV_DESCRIPTION = ''EventStates:waiting_for_description''"
definition EV_DURATION :: string where "EV_DURATION = ''EventStates:waiting_for_duration''"
definition EV_MULTIPLIER :: string where "EV_MULTIPLIER = ''EventStates:waiting_for_multiplier''"
definition EV_CONFIRM :: string where "EV_CONFIRM = ''EventStates:confirming''"

lemmas event_states = EV_NAME_def EV_DESCRIPTION_def EV_DURATION_def EV_MULTIPLIER_def EV_CONFIRM_def

definition cmd_event_create :: "fsm \<Rightarrow> fsm" where
  "cmd_event_create = set_state (Some EV_NAME)"

definition event_get_name :: "ustr option \<Rightarrow> fsm \<Rightarrow> fsm \<times> content_reply" where
  "event_get_name m c = (case m of None \<Rightarrow> (c, HRaised)
     | Some t \<Rightarrow> if strip t = [] then (c, Refused) else (put EV_DESCRIPTION ''event_name'' (FText (strip t)) c, Next))"

definition event_get_description :: "ustr option \<Rightarrow> fsm \<Rightarrow> fsm \<times> content_reply" where
  "event_get_description m c = (case m of None \<Rightarrow> (c, HRaised)
     | Some t \<Rightarrow> (put EV_DURATION ''event_description'' (FText (strip t)) c, Next))"

definition event_get_duration :: "ustr option \<Rightarrow> fsm \<Rightarrow> fsm \<times> content_reply" where
  "event_get_duration m c = (case m of None \<Rightarrow> (c, HRaised)
     | Some t \<Rightarrow> (case py_int (strip t) of None \<Rightarrow> (c, Refused)
        | Some n \<Rightarrow> if n \<le> 0 then (c, Refused)
            else (put EV_MULTIPLIER ''event_duration_minutes'' (FInt n) c, Next)))"

text \<open>The multiplier is kept as the text it is read from: JSON writes a float so that reading it gives it back.\<close>

definition with_points :: "ustr \<Rightarrow> ustr" where
  "with_points t = map (\<lambda>c. if c = 44 then 46 else c) (strip t)"

definition event_get_multiplier :: "(ustr \<Rightarrow> pyfloat option) \<Rightarrow> ustr option \<Rightarrow> fsm \<Rightarrow> fsm \<times> content_reply" where
  "event_get_multiplier py_float m c = (case m of None \<Rightarrow> (c, HRaised)
     | Some t \<Rightarrow> (case py_float (with_points t) of
          None \<Rightarrow> (c, Refused)
        | Some x \<Rightarrow> if \<not> above_one x then (c, Refused)
            else (put EV_CONFIRM ''event_multiplier'' (FText (with_points t)) c,
              if fsm_int ''event_duration_minutes'' c = None \<or> fsm_text ''event_name'' c = None \<or>
                 fsm_text ''event_description'' c = None then HRaised else Next)))"

text \<open>The last instant of the year 9999: \<open>datetime\<close> raises beyond it.\<close>

definition MAX_INSTANT :: int where "MAX_INSTANT = 253402300799999999"

definition minute_us :: int where "minute_us = 60 * second_us"

text \<open>The name of a missing key is the word for an event; whom the announcement goes to is part of the reply.\<close>

datatype event_reply = EventExpired | EventRaised | EventStarted "int list"

definition event_confirm ::
  "(ustr \<Rightarrow> pyfloat option) \<Rightarrow> ustr \<Rightarrow> int \<Rightarrow> db \<Rightarrow> fsm \<times> event_store \<Rightarrow> (fsm \<times> event_store) \<times> event_reply" where
  "event_confirm py_float word now d s =
     (let c = fst s; c1 = clear_fsm c; name = fsm_text ''event_name'' c; descr = fsm_text ''event_description'' c in
      case (fsm_int ''event_duration_minutes'' c, Option.bind (fsm_text ''event_multiplier'' c) py_float) of
        (Some n, Some x) \<Rightarrow>
          let ends = now + n * minute_us in
          if ends > MAX_INSTANT then ((c1, snd s), EventRaised)
          else ((c1, \<lparr>ev_data = Some (\<lparr>ed_name = (case name of None \<Rightarrow> word | Some t \<Rightarrow> t),
                        ed_description = (case descr of None \<Rightarrow> [] | Some t \<Rightarrow> t),
                        ed_multiplier = x, ed_ends_at = ends\<rparr>, ends), ev_multiplier = Some (x, ends)\<rparr>),
                if name = None \<or> descr = None then EventRaised else EventStarted (map u_tg_id (rows (users d))))
      | _ \<Rightarrow> ((c1, snd s), EventExpired))"

definition event_cancel :: "fsm \<Rightarrow> fsm" where
  "event_cancel = clear_fsm"

definition live_key :: "int \<Rightarrow> ('a \<times> int) option \<Rightarrow> 'a option" where
  "live_key now k = (case k of None \<Rightarrow> None | Some (x, e) \<Rightarrow> if now < e then Some x else None)"

text \<open>The event in force and its remaining whole minutes.\<close>

definition cmd_event_list :: "int \<Rightarrow> event_store \<Rightarrow> (event_data \<times> int) option" where
  "cmd_event_list now s = map_option (\<lambda>e. (e, max 0 ((ed_ends_at e - now) div minute_us))) (live_key now (ev_data s))"

definition cmd_event_end :: "int \<Rightarrow> event_store \<Rightarrow> event_store \<times> bool" where
  "cmd_event_end now s = (\<lparr>ev_data = None, ev_multiplier = None\<rparr>, live_key now (ev_multiplier s) \<noteq> None)"

text \<open>
  What \<open>process_coin_transaction\<close> makes of the key: with nan or an infinity \<open>int()\<close> raises, which it
  catches, so that the amount stays what it was.
\<close>

definition event_in_force :: "int \<Rightarrow> event_store \<Rightarrow> rat option" where
  "event_in_force now s = (case live_key now (ev_multiplier s) of Some (Finite r) \<Rightarrow> Some r | _ \<Rightarrow> None)"

section \<open>Sponsors\<close>

text \<open>\<open>status\<close>: the bot's status in a chat, \<open>None\<close> when Telegram answers with an error.\<close>

definition cmd_addsponsor ::
  "(int + ustr \<Rightarrow> string option) \<Rightarrow> ustr option \<Rightarrow> fj_store \<Rightarrow> fj_store \<times> content_reply" where
  "cmd_addsponsor status m s = (case m of None \<Rightarrow> (s, HRaised)
     | Some t \<Rightarrow> (case split_ws [] t of
         [_, ch, link] \<Rightarrow>
           if length (fj_sponsors s) \<ge> 5 then (s, Refused)
           else if \<not> (starts_with (lit ''http://'') link \<or> starts_with (lit ''https://'') link) then (s, Refused)
           else (case status (case py_int ch of Some i \<Rightarrow> Inl i | None \<Rightarrow> Inr ch) of
                None \<Rightarrow> (s, Refused)
              | Some st \<Rightarrow> if st \<notin> {''administrator'', ''creator''} then (s, Refused)
                  else (s\<lparr>fj_sponsors := AList.update ch link (fj_sponsors s)\<rparr>, Next))
       | _ \<Rightarrow> (s, Refused)))"

definition cmd_removesponsor :: "ustr option \<Rightarrow> fj_store \<Rightarrow> fj_store \<times> content_reply" where
  "cmd_removesponsor m s = (case m of None \<Rightarrow> (s, HRaised)
     | Some t \<Rightarrow> (case split_ws [] t of
         [_, ch] \<Rightarrow> (s\<lparr>fj_sponsors := AList.delete ch (fj_sponsors s)\<rparr>,
           if map_of (fj_sponsors s) ch = None then Refused else Next)
       | _ \<Rightarrow> (s, Refused)))"

definition cmd_sponsors :: "fj_store \<Rightarrow> (ustr \<times> ustr) list" where
  "cmd_sponsors s = fj_sponsors s"

section \<open>The price of a plan\<close>

text \<open>The command rewrites the plan file and forgets the cache.\<close>

definition set_vip_price_command ::
  "int list \<Rightarrow> int \<Rightarrow> ustr option \<Rightarrow> plan_file \<times> plan_cache \<Rightarrow> (plan_file \<times> plan_cache) \<times> content_reply" where
  "set_vip_price_command admins me m s =
     (if me \<notin> set admins then (s, Stale)
      else case m of None \<Rightarrow> (s, HRaised)
      | Some t \<Rightarrow> (case split_ws [] t of
          [_, code, price] \<Rightarrow>
            (case (py_int price, fst s) of
               (Some p, PlanFile ps) \<Rightarrow>
                 (case filter (\<lambda>x. utf8 code = fst x) ps of [] \<Rightarrow> (s, Refused)
                  | _ \<Rightarrow> ((PlanFile (map (\<lambda>(k, v). if k = utf8 code then (k, v\<lparr>vp_price_toman := p\<rparr>) else (k, v)) ps),
                      \<lparr>pc_plans = [], pc_loaded_at = None\<rparr>), Next))
             | _ \<Rightarrow> (s, Refused))
        | _ \<Rightarrow> (s, Refused)))"

section \<open>Steps\<close>

datatype gift_add_event = GiftAddStart | GiftAddCancel | GiftAddMessage "ustr option" | GiftAddConfirm

definition gift_add_message :: "(nat \<Rightarrow> ustr) \<Rightarrow> int \<Rightarrow> ustr option \<Rightarrow> dworld \<Rightarrow> dworld \<times> content_reply" where
  "gift_add_message uc tg m w =
     (if in_state GA_CODE tg w then process_gift_code uc tg m w
      else if in_state GA_NAME tg w then process_gift_name tg m w
      else if in_state GA_EMOJI tg w then process_gift_emoji tg m w
      else if in_state GA_PRICE tg w then process_gift_price tg m w
      else if in_state GA_DESCRIPTION tg w then process_gift_description tg m w
      else (w, Stale))"

fun gift_add_step :: "(nat \<Rightarrow> ustr) \<Rightarrow> int \<times> gift_add_event \<Rightarrow> dworld \<Rightarrow> dworld" where
  "gift_add_step uc (tg, GiftAddStart) w = cmd_add_gift tg w"
| "gift_add_step uc (tg, GiftAddCancel) w = cancel_add_gift tg w"
| "gift_add_step uc (tg, GiftAddMessage m) w = fst (gift_add_message uc tg m w)"
| "gift_add_step uc (tg, GiftAddConfirm) w = (if in_state GA_CONFIRM tg w then fst (confirm_add_gift tg w) else w)"

datatype card_event = CardStart | CardCancel | CardMessage "ustr option" | CardConfirm | CardReset

fun card_step :: "card_event \<Rightarrow> fsm \<times> card_store \<Rightarrow> fsm \<times> card_store" where
  "card_step CardStart (c, k) = (cmd_set_card_start c, k)"
| "card_step CardCancel (c, k) = (clear_fsm c, k)"
| "card_step (CardMessage m) (c, k) =
     (if fsm_state c = Some C_NUMBER then (fst (process_new_card_number m c), k)
      else if fsm_state c = Some C_HOLDER then (fst (process_new_card_holder m c), k) else (c, k))"
| "card_step CardConfirm (c, k) = (if fsm_state c = Some C_CONFIRM then fst (confirm_set_card (c, k)) else (c, k))"
| "card_step CardReset (c, k) = (c, fst (cmd_reset_card k))"

datatype sponsor_event = SponsorAdd "int + ustr \<Rightarrow> string option" "ustr option" | SponsorRemove "ustr option"

fun sponsor_step :: "sponsor_event \<Rightarrow> fj_store \<Rightarrow> fj_store" where
  "sponsor_step (SponsorAdd status m) s = fst (cmd_addsponsor status m s)"
| "sponsor_step (SponsorRemove m) s = fst (cmd_removesponsor m s)"

section \<open>The catalogue\<close>

definition gift_sound :: "gift_data \<Rightarrow> bool" where
  "gift_sound g \<longleftrightarrow> gd_code g \<noteq> [] \<and> 32 \<notin> set (gd_code g) \<and> trimmed (gd_name g) \<and> trimmed (gd_emoji g) \<and>
     0 < gd_price g \<and> gift_fits g"

definition gift_keys :: "fsm \<Rightarrow> bool" where
  "gift_keys c \<longleftrightarrow> (case fsm_text ''gift_code'' c of None \<Rightarrow> True | Some t \<Rightarrow> t \<noteq> [] \<and> 32 \<notin> set t) \<and>
     opt_trimmed (fsm_text ''gift_name'' c) \<and> opt_trimmed (fsm_text ''gift_emoji'' c) \<and>
     (case fsm_int ''gift_price'' c of None \<Rightarrow> True | Some n \<Rightarrow> 0 < n)"

definition catalogue_ok :: "dworld \<Rightarrow> bool" where
  "catalogue_ok w \<longleftrightarrow> (\<forall>tg. gift_keys (dw_fsm w tg)) \<and> distinct (map gt_code (rows (gift_types (dw_db w))))"

lemma put_simps [simp]:
  "fsm_data (put st k v c) = (fsm_data c)(k \<mapsto> v)" "fsm_state (put st k v c) = Some st"
  by (simp_all add: put_def set_state_def)

lemma fsm_text_put: "fsm_text k (put st k' v c) = (if k = k' then (case v of FText t \<Rightarrow> Some t | _ \<Rightarrow> None) else fsm_text k c)"
  by (simp add: fsm_text_def)

lemma fsm_int_put: "fsm_int k (put st k' v c) = (if k = k' then (case v of FInt t \<Rightarrow> Some t | _ \<Rightarrow> None) else fsm_int k c)"
  by (simp add: fsm_int_def)

lemma gift_keys_put:
  assumes "gift_keys c"
  shows "t \<noteq> [] \<Longrightarrow> 32 \<notin> set t \<Longrightarrow> gift_keys (put st ''gift_code'' (FText t) c)"
    "trimmed t \<Longrightarrow> gift_keys (put st ''gift_name'' (FText t) c)"
    "trimmed t \<Longrightarrow> gift_keys (put st ''gift_emoji'' (FText t) c)"
    "0 < n \<Longrightarrow> gift_keys (put st ''gift_price'' (FInt n) c)"
    "gift_keys (put st ''gift_desc'' (FText t) c)"
  using assms by (simp_all add: gift_keys_def fsm_text_put fsm_int_put opt_trimmed_def)

lemma gift_keys_simps [simp]: "gift_keys (set_state st c) = gift_keys c" "gift_keys (clear_fsm c)"
  by (simp_all add: gift_keys_def fsm_text_def fsm_int_def set_state_def opt_trimmed_def)

lemma gift_data_sound: "gift_keys c \<Longrightarrow> gift_data_of c = Some g \<Longrightarrow> gift_fits g \<Longrightarrow> gift_sound g"
  by (auto simp: gift_keys_def gift_data_of_def gift_sound_def opt_trimmed_def split: option.splits)

lemma catalogue_fsm:
  assumes "catalogue_ok w" and "\<And>c. gift_keys c \<Longrightarrow> gift_keys (f c)"
  shows "catalogue_ok (on_fsm tg f w)"
  using assms by (simp add: catalogue_ok_def on_fsm_def)

lemma catalogue_message: "catalogue_ok w \<Longrightarrow> catalogue_ok (fst (gift_add_message uc tg m w))"
  by (auto simp: gift_add_message_def process_gift_code_def process_gift_name_def process_gift_emoji_def
      process_gift_price_def process_gift_description_def Let_def intro!: catalogue_fsm gift_keys_put trimmed_typed
      split: option.split)

lemma message_db: "dw_db (fst (gift_add_message uc tg m w)) = dw_db w"
  by (auto simp: gift_add_message_def process_gift_code_def process_gift_name_def process_gift_emoji_def
      process_gift_price_def process_gift_description_def Let_def on_fsm_def split: option.split)

lemma store_gift_codes:
  assumes "\<not> check_gift_code_exists (utf8 (gd_code g)) d" and "distinct (map gt_code (rows (gift_types d)))"
  shows "distinct (map gt_code (rows (gift_types (store_gift g d))))"
proof -
  have "to_upper (utf8 (gd_code g)) \<notin> gt_code ` set (rows (gift_types d))"
    using assms(1) by (simp add: check_gift_code_exists_def by_key_def find_key_None_iff)
  then show ?thesis using assms(2) by (simp add: store_gift_def add_gift_type_def)
qed

lemma confirm_gift:
  assumes "catalogue_ok w"
  shows "catalogue_ok (fst (confirm_add_gift tg w))"
    "\<exists>gs. list_all gift_sound gs \<and> dw_db (fst (confirm_add_gift tg w)) = fold store_gift gs (dw_db w)"
proof -
  have l: "catalogue_ok (leave tg w)" "dw_db (leave tg w) = dw_db w"
    using assms by (simp_all add: leave_def catalogue_fsm) (simp add: on_fsm_def)
  consider "fst (confirm_add_gift tg w) \<in> {w, leave tg w}"
    | g where "gift_data_of (dw_fsm w tg) = Some g" "gift_fits g" "\<not> check_gift_code_exists (utf8 (gd_code g)) (dw_db w)"
      "fst (confirm_add_gift tg w) = leave tg (on_db (store_gift g) w)"
  proof (cases "fsm_data (dw_fsm w tg) = Map.empty \<or> gift_data_of (dw_fsm w tg) = None")
    case True
    then have "fst (confirm_add_gift tg w) \<in> {w, leave tg w}" by (auto simp: confirm_add_gift_def Let_def)
    then show ?thesis by (rule that(1))
  next
    case False
    then obtain g where g: "gift_data_of (dw_fsm w tg) = Some g" "fsm_data (dw_fsm w tg) \<noteq> Map.empty" by blast
    show ?thesis
    proof (cases "check_gift_code_exists (utf8 (gd_code g)) (dw_db w) \<or> \<not> gift_fits g")
      case True
      then have "fst (confirm_add_gift tg w) = leave tg w" using g by (simp add: confirm_add_gift_def)
      then show ?thesis by (simp add: that(1))
    next
      case ok: False
      then have "fst (confirm_add_gift tg w) = leave tg (on_db (store_gift g) w)" using g by (simp add: confirm_add_gift_def)
      then show ?thesis using g ok by (intro that(2)) auto
    qed
  qed
  then have "catalogue_ok (fst (confirm_add_gift tg w)) \<and>
    (\<exists>gs. list_all gift_sound gs \<and> dw_db (fst (confirm_add_gift tg w)) = fold store_gift gs (dw_db w))"
  proof cases
    case 1
    with assms l have "catalogue_ok (fst (confirm_add_gift tg w))" "dw_db (fst (confirm_add_gift tg w)) = fold store_gift [] (dw_db w)"
      by auto
    then show ?thesis by (auto intro: exI [of _ "[]"])
  next
    case (2 g)
    have "catalogue_ok (on_db (store_gift g) w)"
      using assms 2(3) by (simp add: catalogue_ok_def on_db_def store_gift_codes)
    then have "catalogue_ok (leave tg (on_db (store_gift g) w))" by (simp add: leave_def catalogue_fsm)
    moreover have "gift_sound g" using gift_data_sound [of "dw_fsm w tg" g] assms 2(1,2) by (simp add: catalogue_ok_def)
    then have "list_all gift_sound [g]" by simp
    moreover have "dw_db (leave tg (on_db (store_gift g) w)) = fold store_gift [g] (dw_db w)"
      by (simp add: leave_def on_fsm_def on_db_def)
    ultimately show ?thesis using 2(4) by metis
  qed
  then show "catalogue_ok (fst (confirm_add_gift tg w))"
    "\<exists>gs. list_all gift_sound gs \<and> dw_db (fst (confirm_add_gift tg w)) = fold store_gift gs (dw_db w)"
    by blast+
qed

text \<open>The interface of the question bank once more: a step adds sound gifts or nothing.\<close>

lemma gift_step:
  assumes "catalogue_ok w"
  shows "catalogue_ok (gift_add_step uc e w) \<and>
    (\<exists>gs. list_all gift_sound gs \<and> dw_db (gift_add_step uc e w) = fold store_gift gs (dw_db w))"
proof -
  obtain tg k where e: "e = (tg, k)" by (cases e)
  have same: "catalogue_ok w1 \<and> (\<exists>gs. list_all gift_sound gs \<and> dw_db w1 = fold store_gift gs (dw_db w))"
    if "catalogue_ok w1" "dw_db w1 = dw_db w" for w1
    using that by (auto intro: exI [of _ "[]"])
  show ?thesis
  proof (cases k)
    case GiftAddStart
    have "catalogue_ok (cmd_add_gift tg w)" "dw_db (cmd_add_gift tg w) = dw_db w"
      unfolding cmd_add_gift_def using assms by (simp_all add: catalogue_fsm) (simp add: on_fsm_def)
    from same [OF this] show ?thesis by (simp add: e GiftAddStart)
  next
    case GiftAddCancel
    have "catalogue_ok (cancel_add_gift tg w)" "dw_db (cancel_add_gift tg w) = dw_db w"
      unfolding cancel_add_gift_def leave_def using assms by (simp_all add: catalogue_fsm) (simp add: on_fsm_def)
    from same [OF this] show ?thesis by (simp add: e GiftAddCancel)
  next
    case (GiftAddMessage m)
    show ?thesis using same [OF catalogue_message [OF assms] message_db] by (simp add: e GiftAddMessage)
  next
    case GiftAddConfirm
    show ?thesis using confirm_gift [OF assms] same [OF assms] by (simp add: e GiftAddConfirm)
  qed
qed

interpretation catalogue: growing "gift_add_step uc" dw_db store_gift catalogue_ok gift_sound for uc
  using gift_step by unfold_locales blast+

section \<open>The card\<close>

definition sixteen_digits :: "ustr \<Rightarrow> bool" where
  "sixteen_digits t \<longleftrightarrow> length t = 16 \<and> list_all (\<lambda>d. 48 \<le> d \<and> d \<le> 57) t"

definition card_ok :: "fsm \<times> card_store \<Rightarrow> bool" where
  "card_ok s \<longleftrightarrow> (case fsm_text ''new_card_number'' (fst s) of None \<Rightarrow> True | Some t \<Rightarrow> isdigit t) \<and>
     (case cd_number (snd s) of None \<Rightarrow> True | Some n \<Rightarrow> sixteen_digits n)"

lemma normalize_no_persian: "c \<in> set (normalize_digits t) \<Longrightarrow> \<not> (1776 \<le> c \<and> c \<le> 1785)"
  by (auto simp: normalize_digits_def normalize_char_def split: if_splits)

lemma set_card_valid:
  assumes "set_card_info n h k = Some k1" and "isdigit n"
  shows "cd_number k1 = Some (normalize_digits n) \<and> cd_holder k1 = Some h \<and> sixteen_digits (normalize_digits n)"
proof -
  let ?m = "normalize_digits n"
  have re: "card_number_re ?m" and k1: "k1 = \<lparr>cd_number = Some ?m, cd_holder = Some h\<rparr>"
    using assms(1) by (simp_all add: set_card_info_def Let_def split: if_splits)
  have "10 \<notin> set ?m"
  proof
    assume "10 \<in> set ?m"
    then obtain c where "c \<in> set n" "normalize_char c = 10" by (auto simp: normalize_digits_def split: if_splits)
    then have "10 \<in> set n" by (auto simp: normalize_char_def split: if_splits)
    then show False using assms(2) by (auto simp: isdigit_def list_all_iff is_digit_char_def digit_val_def nd_zeros_def other_digits_def)
  qed
  then have "\<not> (?m \<noteq> [] \<and> last ?m = 10)" using last_in_set by metis
  then have "length ?m = 16" "list_all card_digit ?m" using re by (auto simp: card_number_re_def Let_def split: if_splits)
  then have "sixteen_digits ?m" using normalize_no_persian by (auto simp: sixteen_digits_def list_all_iff card_digit_def)
  with k1 show ?thesis by simp
qed

lemma card_confirm_ok:
  assumes "card_ok (c, k)"
  shows "card_ok (fst (confirm_set_card (c, k)))"
proof -
  have cleared: "card_ok (clear_fsm c, k)" using assms by (simp add: card_ok_def fsm_text_def)
  have "card_ok (clear_fsm c, k1)" if "fsm_text ''new_card_number'' c = Some n" "set_card_info n h k = Some k1" for n h k1
    using set_card_valid [OF that(2)] assms that(1) by (simp add: card_ok_def fsm_text_def)
  then show ?thesis
    using cleared by (auto simp: confirm_set_card_def split: option.split)
qed

lemma card_step_ok:
  assumes "card_ok s"
  shows "card_ok (card_step e s)"
proof -
  obtain c k where s: "s = (c, k)" by (cases s)
  have same: "card_ok (c', k)" if "fsm_text ''new_card_number'' c' \<in> {None, fsm_text ''new_card_number'' c}" for c'
    using assms that by (auto simp: card_ok_def s)
  have number: "card_ok (fst (process_new_card_number m c), k)" for m
    using assms by (auto simp: process_new_card_number_def Let_def card_ok_def s fsm_text_put)
  have holder: "card_ok (fst (process_new_card_holder m c), k)" for m
    by (rule same) (auto simp: process_new_card_holder_def fsm_text_put fsm_text_def)
  show ?thesis
  proof (cases e)
    case CardStart
    then show ?thesis by (simp add: s same cmd_set_card_start_def fsm_text_def set_state_def)
  next
    case CardCancel
    then show ?thesis by (simp add: s same fsm_text_def)
  next
    case (CardMessage m)
    then show ?thesis using assms number holder by (simp add: s)
  next
    case CardConfirm
    then show ?thesis using assms card_confirm_ok by (simp add: s)
  next
    case CardReset
    then show ?thesis using assms by (simp add: s card_ok_def cmd_reset_card_def reset_card_info_def)
  qed
qed

lemma card_run_ok: "card_ok s \<Longrightarrow> card_ok (fold card_step es s)"
  by (induction es arbitrary: s) (simp_all add: card_step_ok)

section \<open>The sponsors\<close>

definition web_link :: "ustr \<Rightarrow> bool" where
  "web_link t \<longleftrightarrow> starts_with (lit ''http://'') t \<or> starts_with (lit ''https://'') t"

definition sponsors_ok :: "fj_store \<Rightarrow> bool" where
  "sponsors_ok s \<longleftrightarrow> length (fj_sponsors s) \<le> 5 \<and> distinct (map fst (fj_sponsors s)) \<and> (\<forall>(ch, l)\<in>set (fj_sponsors s). web_link l)"

lemma update_length: "length (AList.update k v xs) \<le> length xs + 1"
  by (induction xs) auto

lemma update_links: "(\<forall>(ch, l)\<in>set xs. P l) \<Longrightarrow> P v \<Longrightarrow> \<forall>(ch, l)\<in>set (AList.update k v xs). P l"
  by (induction xs) auto

lemma addsponsor_ok:
  assumes "sponsors_ok s"
  shows "sponsors_ok (fst (cmd_addsponsor status m s))"
proof -
  have "sponsors_ok (s\<lparr>fj_sponsors := AList.update ch l (fj_sponsors s)\<rparr>)"
    if "web_link l" "\<not> length (fj_sponsors s) \<ge> 5" for ch l
    using assms that update_length [of ch l "fj_sponsors s"] update_links [of "fj_sponsors s" web_link l ch]
    by (simp add: sponsors_ok_def distinct_update)
  then show ?thesis
    using assms by (auto simp: cmd_addsponsor_def web_link_def split: option.split list.split)
qed

lemma removesponsor_ok:
  assumes "sponsors_ok s"
  shows "sponsors_ok (fst (cmd_removesponsor m s))"
proof -
  have "length (AList.delete ch xs) \<le> length xs" for ch and xs :: "(ustr \<times> ustr) list"
    by (simp add: AList.delete_eq)
  then have "length (AList.delete ch (fj_sponsors s)) \<le> 5" for ch
    using assms order_trans unfolding sponsors_ok_def by blast
  moreover have "set (AList.delete ch xs) \<subseteq> set xs" for ch and xs :: "(ustr \<times> ustr) list"
    by (auto simp: AList.delete_eq)
  ultimately have "sponsors_ok (s\<lparr>fj_sponsors := AList.delete ch (fj_sponsors s)\<rparr>)" for ch
    using assms unfolding sponsors_ok_def by (simp add: distinct_delete) blast
  then show ?thesis
    using assms by (auto simp: cmd_removesponsor_def split: option.split list.split)
qed

lemma sponsor_run_ok: "sponsors_ok s \<Longrightarrow> sponsors_ok (fold sponsor_step es s)"
proof (induction es arbitrary: s)
  case (Cons e es)
  have "sponsors_ok (sponsor_step e s)" using Cons.prems by (cases e) (simp_all add: addsponsor_ok removesponsor_ok)
  then show ?case using Cons.IH by simp
qed simp

section \<open>Campaigns and events\<close>

definition active_campaigns :: "db \<Rightarrow> nat" where
  "active_campaigns d = length (filter bc_is_active (rows (campaigns d)))"

lemma get_active_in: "get_active_campaign d = Some b \<Longrightarrow> b \<in> set (rows (campaigns d)) \<and> bc_is_active b"
proof -
  assume a: "get_active_campaign d = Some b"
  let ?xs = "sort_key (\<lambda>c. - instant (bc_created_at c)) (filter bc_is_active (rows (campaigns d)))"
  obtain ys where "?xs = b # ys" using a by (auto simp: get_active_campaign_def sel_where_def split: list.splits)
  then have "b \<in> set ?xs" by (metis list.set_intros(1))
  then show ?thesis by simp
qed

lemma filter_retire:
  assumes "distinct (map bc_id xs)" and "b \<in> set xs" and "bc_is_active b"
  shows "length (filter bc_is_active (map (\<lambda>r. if bc_id r = bc_id b then r\<lparr>bc_is_active := False\<rparr> else r) xs)) + 1 =
    length (filter bc_is_active xs)"
  using assms
proof (induction xs)
  case (Cons x xs)
  show ?case
  proof (cases "x = b")
    case True
    then have "\<forall>r\<in>set xs. bc_id r \<noteq> bc_id b" using Cons.prems(1) by (metis distinct.simps(2) image_eqI image_set list.simps(9))
    then have "map (\<lambda>r. if bc_id r = bc_id b then r\<lparr>bc_is_active := False\<rparr> else r) xs = xs" by (simp add: map_idI)
    then show ?thesis using True Cons.prems(3) by simp
  next
    case False
    then have "b \<in> set xs" "bc_id x \<noteq> bc_id b" using Cons.prems(1,2) by auto
    then show ?thesis using Cons.IH Cons.prems by simp
  qed
qed simp

lemma replace_active:
  assumes "distinct (map bc_id (rows (campaigns d)))" and "get_active_campaign d = Some b"
  shows "active_campaigns (replace_campaign d) + 1 = active_campaigns d"
  using filter_retire [OF assms(1)] get_active_in [OF assms(2)]
  by (simp add: active_campaigns_def replace_campaign_def assms(2) upd_where_def upd_list_def)

section \<open>Properties\<close>

text \<open>C9: However administrators mix their dialogues, the catalogue only gains gifts, each with a code that no other
  gift has and that has no space, a name, an emoji and a price from one to the largest integer of the column.\<close>

theorem catalogue_grows_well:
  assumes "catalogue_ok w" and "w' = fold (gift_add_step uc) es w"
  shows "distinct (map gt_code (rows (gift_types (dw_db w')))) \<and>
    (\<exists>gs. list_all gift_sound gs \<and> dw_db w' = fold store_gift gs (dw_db w))"
proof -
  have "catalogue_ok w'" unfolding assms(2) by (rule catalogue.run_ok [OF assms(1)])
  then show ?thesis using catalogue.run_adds [OF assms(1)] unfolding assms(2) catalogue_ok_def by blast
qed

text \<open>Whatever an administrator types while changing the card, the number the users are shown is the one of the
  settings or sixteen Latin digits.\<close>

theorem card_always_sixteen:
  assumes "card_ok s" and "number = fst (get_card_info std (snd (fold card_step es s)))"
  shows "number = fst std \<or> sixteen_digits number"
  using card_run_ok [OF assms(1), of es]
  by (auto simp: card_ok_def assms(2) get_card_info_def or_default_def split: option.splits)

text \<open>However the sponsors are added and removed, they are at most five, no channel is twice among them, and every
  link leads to the web.\<close>

theorem sponsors_bounded:
  assumes "sponsors_ok s" and "sps = fj_sponsors (fold sponsor_step es s)"
  shows "length sps \<le> 5 \<and> distinct (map fst sps) \<and> list_all (\<lambda>(ch, l). web_link l) sps"
  using sponsor_run_ok [OF assms(1), of es] by (auto simp: sponsors_ok_def assms(2) list_all_iff)

text \<open>A confirmed campaign is stored active with the photo, the caption and the reward of its dialogue; there is one
  more active campaign than before, or as many as before when it replaces one.\<close>

theorem campaign_confirmed:
  assumes "distinct (map bc_id (rows (campaigns (dw_db w))))"
    and "fsm_str ''banner_photo'' (dw_fsm w tg) = Some p" and "fsm_text ''banner_caption'' (dw_fsm w tg) = Some t"
    and "fsm_int ''banner_reward'' (dw_fsm w tg) = Some n" and "n \<le> INT_MAX"
    and "w' = fst (confirm_banner_creation now replaces tg w)"
  shows "let b = last (rows (campaigns (dw_db w'))) in bc_is_active b \<and> bc_banner_photo_file_id b = p \<and>
      bc_caption_text b = utf8 t \<and> bc_reward_coins b = n \<and> bc_id b = next_id (campaigns (dw_db w)) \<and>
    active_campaigns (dw_db w') = (if replaces \<and> get_active_campaign (dw_db w) \<noteq> None
      then active_campaigns (dw_db w) else active_campaigns (dw_db w) + 1)"
proof -
  let ?d = "if replaces then replace_campaign (dw_db w) else dw_db w"
  have "fsm_data (dw_fsm w tg) \<noteq> Map.empty" using assms(4) by (auto simp: fsm_int_def)
  then have d: "dw_db w' = create_campaign now p (utf8 t) n ?d"
    using assms(2-6) by (simp add: confirm_banner_creation_def Let_def leave_def on_fsm_def on_db_def)
  have nx: "next_id (campaigns ?d) = next_id (campaigns (dw_db w))"
    by (simp add: replace_campaign_def upd_where_def split: option.split)
  have count: "active_campaigns (create_campaign now p (utf8 t) n ?d) = active_campaigns ?d + 1"
    by (simp add: active_campaigns_def create_campaign_def)
  have "active_campaigns ?d + 1 = (if replaces \<and> get_active_campaign (dw_db w) \<noteq> None
      then active_campaigns (dw_db w) else active_campaigns (dw_db w) + 1)"
    using replace_active [OF assms(1)] by (auto simp: replace_campaign_def split: option.split)
  then show ?thesis using nx count by (simp add: d create_campaign_def Let_def)
qed

text \<open>From its confirmation to its end an event multiplies what \<open>process_coin_transaction\<close> credits; an event whose
  multiplier is nan, which the dialogue accepts, is announced to every user all the same and multiplies nothing.\<close>

theorem event_takes_effect:
  assumes "fsm_int ''event_duration_minutes'' c = Some n" and "fsm_text ''event_multiplier'' c = Some t" and "py_float t = Some x"
    and "fsm_text ''event_name'' c = Some name" and "fsm_text ''event_description'' c = Some descr"
    and "now + n * minute_us \<le> MAX_INSTANT" and "event_confirm py_float word now d (c, s) = (s', r)"
  shows "r = EventStarted (map u_tg_id (rows (users d))) \<and>
    event_in_force at_time (snd s') = (case x of Finite m \<Rightarrow> if at_time < now + n * minute_us then Some m else None | _ \<Rightarrow> None)"
  using assms by (auto simp: event_confirm_def Let_def event_in_force_def live_key_def split: pyfloat.split)

section \<open>Witnesses\<close>

theorem catalogue_grows_well_witness:
  "distinct (map gt_code (rows (gift_types (dw_db (gift_add_step (\<lambda>c. [c]) (1, GiftAddStart) (bk_world empty_bank))))))"
proof -
  have "catalogue_ok (bk_world empty_bank)"
    by (simp add: catalogue_ok_def gift_keys_def fsm_text_def fsm_int_def no_dialogue_def opt_trimmed_def empty_db_def empty_tbl_def)
  from catalogue_grows_well [OF this, of _ "\<lambda>c. [c]" "[(1, GiftAddStart)]"] show ?thesis by simp
qed

theorem card_always_sixteen_witness:
  "let number = fst (get_card_info ([49], [65]) (snd (fold card_step [CardStart, CardMessage None, CardReset]
     (no_dialogue, \<lparr>cd_number = None, cd_holder = None\<rparr>)))) in number = [49] \<or> sixteen_digits number"
proof -
  have "card_ok (no_dialogue, \<lparr>cd_number = None, cd_holder = None\<rparr>)" by (simp add: card_ok_def fsm_text_def no_dialogue_def)
  from card_always_sixteen [OF this refl, of "([49], [65])" "[CardStart, CardMessage None, CardReset]"] show ?thesis by (simp add: Let_def del: card_step.simps)
qed

theorem sponsors_bounded_witness:
  "length (fj_sponsors (fold sponsor_step [SponsorRemove (Some [64])] (one_sponsor\<lparr>fj_sponsors := []\<rparr>))) \<le> 5"
proof -
  have "sponsors_ok (one_sponsor\<lparr>fj_sponsors := []\<rparr>)" by (simp add: sponsors_ok_def)
  from sponsors_bounded [OF this refl, of "[SponsorRemove (Some [64])]"] show ?thesis by simp
qed

definition banner_world :: dworld where
  "banner_world = on_fsm 1 (\<lambda>c. c\<lparr>fsm_data := [''banner_photo'' \<mapsto> FStr ''p'', ''banner_caption'' \<mapsto> FText [65], ''banner_reward'' \<mapsto> FInt 2]\<rparr>)
     (bk_world empty_bank)"

theorem campaign_confirmed_witness:
  "active_campaigns (dw_db (fst (confirm_banner_creation 0 True 1 banner_world))) = 1"
proof -
  have "get_active_campaign (dw_db banner_world) = None" "active_campaigns (dw_db banner_world) = 0"
    by (simp_all add: banner_world_def on_fsm_def empty_db_def empty_tbl_def get_active_campaign_def sel_where_def active_campaigns_def)
  then show ?thesis
    using campaign_confirmed [OF _ _ _ _ _ refl, of banner_world 1 "''p''" "[65]" 2 0 True]
    by (simp add: banner_world_def on_fsm_def fsm_str_def fsm_text_def fsm_int_def INT_MAX_def Let_def empty_db_def empty_tbl_def)
qed

definition nan_event :: fsm where
  "nan_event = \<lparr>fsm_state = Some EV_CONFIRM, fsm_data = [''event_name'' \<mapsto> FText [65], ''event_description'' \<mapsto> FText [66],
     ''event_duration_minutes'' \<mapsto> FInt 60, ''event_multiplier'' \<mapsto> FText [110]]\<rparr>"

theorem event_takes_effect_witness:
  "\<exists>s'. event_confirm (\<lambda>t. Some NotANumber) [82] 0 demo_db (nan_event, \<lparr>ev_data = None, ev_multiplier = None\<rparr>) =
     (s', EventStarted [1, 2]) \<and> event_in_force 0 (snd s') = None"
proof -
  obtain s' r where e: "event_confirm (\<lambda>t. Some NotANumber) [82] 0 demo_db (nan_event, \<lparr>ev_data = None, ev_multiplier = None\<rparr>) = (s', r)"
    by (cases "event_confirm (\<lambda>t. Some NotANumber) [82] 0 demo_db (nan_event, \<lparr>ev_data = None, ev_multiplier = None\<rparr>)")
  have "r = EventStarted (map u_tg_id (rows (users demo_db))) \<and> event_in_force 0 (snd s') = None"
    using event_takes_effect [OF _ _ _ _ _ _ e, of 60 "[110]" NotANumber "[65]" "[66]" 0]
    by (simp add: nan_event_def fsm_int_def fsm_text_def minute_us_def second_us_def MAX_INSTANT_def)
  then show ?thesis using e by (simp add: demo_db_def)
qed

end
