(* ===== verification/ProfileEdit.thy ===== *)
theory ProfileEdit
  imports Onboarding ProfileCompletion QuestionBank
begin

text \<open>
  How users edit their profile (\<open>bot/handlers/profile_edit.py\<close>): name, biography, interests, photo,
  age, place, voice, marital status and position.  The interests picked so far are a list under a key of
  the dialogue's data, which the model keeps beside it.  A message is a text or one of the contents a
  handler filters for; what the re-upload of a photo yields is a parameter, \<open>None\<close> when it raises; the
  provinces are read from a file.  MySQL refuses a text longer than its column.
\<close>

section \<open>States and messages\<close>

record edit_world =
  ew_world :: dworld
  ew_selected :: "int \<Rightarrow> ustr list"

definition E_BIO :: string where "E_BIO = ''ProfileEditStates:editing_bio''"
definition E_INTERESTS :: string where "E_INTERESTS = ''ProfileEditStates:selecting_interests''"
definition E_PHOTO :: string where "E_PHOTO = ''ProfileEditStates:waiting_for_photo''"
definition E_NAME :: string where "E_NAME = ''ProfileEditStates:editing_name''"
definition E_AGE :: string where "E_AGE = ''ProfileEditStates:updating_age''"
definition E_PROVINCE :: string where "E_PROVINCE = ''ProfileEditStates:updating_province''"
definition E_CITY :: string where "E_CITY = ''ProfileEditStates:updating_city''"
definition E_VOICE :: string where "E_VOICE = ''ProfileEditStates:waiting_for_voice''"
definition E_GPS :: string where "E_GPS = ''ProfileEditStates:waiting_for_gps''"

lemmas edit_states = E_BIO_def E_INTERESTS_def E_PHOTO_def E_NAME_def E_AGE_def E_PROVINCE_def
  E_CITY_def E_VOICE_def E_GPS_def

text \<open>An audio comes with its size and duration, 0 when Telegram does not tell.\<close>

datatype edit_content = SText ustr | SPhoto string | SDocument | SAudio string int int | SLocation rat rat | SOther

fun sent_text :: "edit_content \<Rightarrow> ustr" where
  "sent_text (SText t) = t"
| "sent_text _ = []"

datatype edit_reply = EditMenu | EditAsked | EditCancelled | EditRaised | EditSilent | EditSaved "int option"
  | BioTooLong | NameInvalid | AgeInvalid | ProvinceInvalid | PhotoAsDocument | PhotoOnly | AudioTooBig
  | AudioTooLong | AudioOnly | GpsOnly | TooManyInterests bool | Picked "ustr list" | UserMissing | EditNotHandled

definition edit_db :: "edit_world \<Rightarrow> db" where
  "edit_db s = dw_db (ew_world s)"

definition edit_fsm :: "int \<Rightarrow> edit_world \<Rightarrow> fsm" where
  "edit_fsm tg s = dw_fsm (ew_world s) tg"

definition on_edit :: "(dworld \<Rightarrow> dworld) \<Rightarrow> edit_world \<Rightarrow> edit_world" where
  "on_edit f s = s\<lparr>ew_world := f (ew_world s)\<rparr>"

definition edit_clear :: "int \<Rightarrow> edit_world \<Rightarrow> edit_world" where
  "edit_clear tg s = s\<lparr>ew_world := leave tg (ew_world s), ew_selected := (ew_selected s)(tg := [])\<rparr>"

definition edit_goto :: "string \<Rightarrow> int \<Rightarrow> edit_world \<Rightarrow> edit_world" where
  "edit_goto st tg = on_edit (on_fsm tg (set_state (Some st)))"

definition cancel_profile_editing :: "int \<Rightarrow> edit_world \<Rightarrow> edit_world \<times> edit_reply" where
  "cancel_profile_editing tg s = (edit_clear tg s, EditCancelled)"

definition show_edit_menu :: "int \<Rightarrow> edit_world \<Rightarrow> edit_world \<times> edit_reply" where
  "show_edit_menu tg s = (edit_clear tg s, EditMenu)"

section \<open>Steps of the profile\<close>

text \<open>\<open>mark_step_done\<close> and then \<open>try_award_completion_reward\<close>; the log refers to the user.\<close>

definition step_taken :: "int \<Rightarrow> int \<Rightarrow> string \<Rightarrow> int \<Rightarrow> db \<Rightarrow> (db \<times> int option) option" where
  "step_taken now n step tg d =
     (if get_user d tg = None then None
      else Some (try_award_completion_reward now n tg (mark_step_done now tg step d)))"

text \<open>A change that is stored, the step it completes, the end of the dialogue.\<close>

definition save_step ::
  "int \<Rightarrow> int \<Rightarrow> string \<Rightarrow> int \<Rightarrow> db \<Rightarrow> edit_world \<Rightarrow> edit_world \<times> edit_reply" where
  "save_step now n step tg d s =
     (case step_taken now n step tg d of
        None \<Rightarrow> (on_edit (on_db (\<lambda>_. d)) s, EditRaised)
      | Some (d1, r) \<Rightarrow> (edit_clear tg (on_edit (on_db (\<lambda>_. d1)) s), EditSaved r))"

section \<open>Biography and name\<close>

definition start_bio_edit :: "int \<Rightarrow> edit_world \<Rightarrow> edit_world \<times> edit_reply" where
  "start_bio_edit tg s = (edit_goto E_BIO tg s, EditAsked)"

text \<open>\<open>replace\<close> of the one-character ellipsis, and \<open>s[:s.rfind(c)]\<close> of a text that has c.\<close>

definition plain_dots :: "ustr \<Rightarrow> ustr" where
  "plain_dots t = concat (map (\<lambda>c. if c = 8230 then [46, 46, 46] else [c]) t)"

definition before_last :: "nat \<Rightarrow> ustr \<Rightarrow> ustr" where
  "before_last c t = rev (tl (dropWhile (\<lambda>x. x \<noteq> c) (rev t)))"

definition cut_bio :: "ustr \<Rightarrow> ustr" where
  "cut_bio b =
     (if length b \<le> 150 then b
      else let t = take 150 b in if 38 \<in> set (drop 145 t) then before_last 38 t else t)"

definition process_bio_input :: "int \<Rightarrow> int \<Rightarrow> int \<Rightarrow> edit_content \<Rightarrow> edit_world \<Rightarrow> edit_world \<times> edit_reply" where
  "process_bio_input now n tg m s =
     (if sent_text m = btn ''BACK_TO_MENU'' then (edit_clear tg s, EditCancelled)
      else let bio = strip (plain_dots (sent_text m)) in
      if length bio > 150 then (s, BioTooLong)
      else case update_user_profile tg None (Some (utf8 (cut_bio (escape_text bio)))) None None None None None (edit_db s) of
             (d, False) \<Rightarrow> (edit_clear tg s, EditSilent)
           | (d, True) \<Rightarrow> save_step now n ''bio'' tg d s)"

definition start_name_edit :: "int \<Rightarrow> edit_world \<Rightarrow> edit_world \<times> edit_reply" where
  "start_name_edit tg s = (edit_goto E_NAME tg s, EditAsked)"

definition process_name_input :: "int \<Rightarrow> edit_content \<Rightarrow> edit_world \<Rightarrow> edit_world \<times> edit_reply" where
  "process_name_input tg m s =
     (if sent_text m = btn ''BACK_TO_MENU'' then (edit_clear tg s, EditCancelled)
      else let name = strip (sent_text m) in
      if name = [] \<or> length name < 2 \<or> length name > 50 then (s, NameInvalid)
      else if length (escape_text name) > 150 then (s, EditRaised)
      else case update_user_profile tg (Some (utf8 (escape_text name))) None None None None None None (edit_db s) of
             (d, False) \<Rightarrow> (edit_clear tg s, EditSilent)
           | (d, True) \<Rightarrow> (edit_clear tg (on_edit (on_db (\<lambda>_. d)) s), EditSaved None))"

section \<open>Interests\<close>

definition start_interests_edit :: "int \<Rightarrow> edit_world \<Rightarrow> edit_world \<times> edit_reply" where
  "start_interests_edit tg s =
     ((edit_goto E_INTERESTS tg s)\<lparr>ew_selected := (ew_selected s)(tg := [])\<rparr>, EditAsked)"

definition interest_limit :: "bool \<Rightarrow> nat" where
  "interest_limit vip = (if vip then 10 else 3)"

text \<open>\<open>key\<close>: what follows \<open>interest_\<close> in the button.\<close>

definition toggle_interest :: "int \<Rightarrow> int \<Rightarrow> ustr \<Rightarrow> edit_world \<Rightarrow> edit_world \<times> edit_reply" where
  "toggle_interest now tg key s =
     (let sel = ew_selected s tg;
          pick = (\<lambda>xs. (s\<lparr>ew_selected := (ew_selected s)(tg := xs)\<rparr>, Picked xs)) in
      if key \<in> set sel then pick (remove1 key sel)
      else case get_user (edit_db s) tg of
             None \<Rightarrow> (s, UserMissing)
           | Some u \<Rightarrow>
               (case vip_flag_active (Naive now) u of
                  Inl e \<Rightarrow> (s, EditRaised)
                | Inr vip \<Rightarrow>
                    if length sel \<ge> interest_limit vip then (s, TooManyInterests vip)
                    else pick (sel @ [key])))"

definition save_profile_changes :: "int \<Rightarrow> int \<Rightarrow> int \<Rightarrow> edit_world \<Rightarrow> edit_world \<times> edit_reply" where
  "save_profile_changes now n tg s =
     (case get_user (edit_db s) tg of
        None \<Rightarrow> (edit_clear tg s, EditSilent)
      | Some u \<Rightarrow>
          (case vip_flag_active (Naive now) u of
             Inl e \<Rightarrow> (s, EditRaised)
           | Inr vip \<Rightarrow>
               let sel = take (interest_limit vip) (ew_selected s tg) in
               if length (join_comma sel) > 255 then (s, EditRaised)
               else save_step now n ''tags'' tg
                      (fst (update_user_profile tg None None (Some (utf8 (join_comma sel))) None None None None (edit_db s))) s))"

section \<open>Photo and voice\<close>

definition start_photo_edit :: "int \<Rightarrow> edit_world \<Rightarrow> edit_world \<times> edit_reply" where
  "start_photo_edit tg s = (edit_goto E_PHOTO tg s, EditAsked)"

definition process_new_photo ::
  "(string \<Rightarrow> string option) \<Rightarrow> int \<Rightarrow> int \<Rightarrow> int \<Rightarrow> string \<Rightarrow> edit_world \<Rightarrow> edit_world \<times> edit_reply" where
  "process_new_photo reupload now n tg f s =
     (let clean = (case reupload f of None \<Rightarrow> f | Some g \<Rightarrow> g) in
      if length clean > 255 then (s, EditRaised)
      else save_step now n ''photo'' tg (upd_user tg (\<lambda>u. u\<lparr>u_profile_photo_file_id := Some clean\<rparr>) (edit_db s)) s)"

definition start_voice_edit :: "int \<Rightarrow> edit_world \<Rightarrow> edit_world \<times> edit_reply" where
  "start_voice_edit tg s = (edit_goto E_VOICE tg s, EditAsked)"

definition process_new_voice ::
  "int \<Rightarrow> int \<Rightarrow> int \<Rightarrow> string \<Rightarrow> int \<Rightarrow> int \<Rightarrow> edit_world \<Rightarrow> edit_world \<times> edit_reply" where
  "process_new_voice now n tg f size_bytes duration s =
     (if size_bytes \<noteq> 0 \<and> size_bytes > 5 * 1024 * 1024 then (s, AudioTooBig)
      else if duration \<noteq> 0 \<and> duration > 60 then (s, AudioTooLong)
      else if length f > 255 then (s, EditRaised)
      else save_step now n ''voice'' tg (upd_user tg (\<lambda>u. u\<lparr>u_profile_voice_file_id := Some f\<rparr>) (edit_db s)) s)"

section \<open>Age, place, marital status, position\<close>

definition start_age_edit :: "int \<Rightarrow> edit_world \<Rightarrow> edit_world \<times> edit_reply" where
  "start_age_edit tg s = (edit_goto E_AGE tg s, EditAsked)"

text \<open>\<open>int()\<close> refuses some of what \<open>isdigit\<close> accepts.\<close>

definition process_new_age :: "int \<Rightarrow> edit_content \<Rightarrow> edit_world \<Rightarrow> edit_world \<times> edit_reply" where
  "process_new_age tg m s =
     (if sent_text m = btn ''BACK_TO_MENU'' then (edit_clear tg s, EditCancelled)
      else let t = strip (normalize_digits (sent_text m)) in
      if \<not> isdigit t then (s, AgeInvalid)
      else case py_int t of
             None \<Rightarrow> (s, EditRaised)
           | Some a \<Rightarrow>
               if \<not> (18 \<le> a \<and> a \<le> 75) then (s, AgeInvalid)
               else if get_user (edit_db s) tg = None then (edit_clear tg s, EditSilent)
               else (edit_clear tg (on_edit (on_db (upd_user tg (\<lambda>u. u\<lparr>u_age := Some a\<rparr>))) s), EditSaved None))"

definition start_location_edit :: "int \<Rightarrow> edit_world \<Rightarrow> edit_world \<times> edit_reply" where
  "start_location_edit tg s = (edit_goto E_PROVINCE tg s, EditAsked)"

definition process_edit_province :: "ustr list \<Rightarrow> int \<Rightarrow> edit_content \<Rightarrow> edit_world \<Rightarrow> edit_world \<times> edit_reply" where
  "process_edit_province provinces tg m s =
     (let t = sent_text m in
      if t = btn ''BACK_TO_MENU'' then (edit_clear tg s, EditCancelled)
      else if t \<notin> set provinces then (s, ProvinceInvalid)
      else (edit_goto E_CITY tg (on_edit (on_fsm tg (update_data ''province'' (FText t))) s), EditAsked))"

definition process_edit_city :: "int \<Rightarrow> edit_content \<Rightarrow> edit_world \<Rightarrow> edit_world \<times> edit_reply" where
  "process_edit_city tg m s =
     (let t = sent_text m in
      if t = btn ''BACK_TO_MENU'' then (edit_clear tg s, EditCancelled)
      else let p = Onboarding.fsm_text ''province'' (edit_fsm tg s); city = escape_text (strip t) in
      if get_user (edit_db s) tg = None then (edit_clear tg s, EditSilent)
      else if length city > 100 \<or> \<not> opt_within 100 p then (s, EditRaised)
      else (edit_clear tg (on_edit (on_db (upd_user tg
              (\<lambda>u. u\<lparr>u_province := map_option utf8 p, u_city := Some (utf8 city)\<rparr>))) s), EditSaved None))"

text \<open>\<open>rest\<close>: what follows \<open>set_marital_\<close>; the status ends at the next underscore.\<close>

definition process_marital_edit :: "int \<Rightarrow> ustr \<Rightarrow> edit_world \<Rightarrow> edit_world \<times> edit_reply" where
  "process_marital_edit tg rest s =
     (let status = takeWhile (\<lambda>c. c \<noteq> 95) rest in
      if get_user (edit_db s) tg = None then (s, UserMissing)
      else if length status > 20 then (s, EditRaised)
      else show_edit_menu tg (on_edit (on_db (upd_user tg (\<lambda>u. u\<lparr>u_marital_status := Some (utf8 status)\<rparr>))) s))"

definition start_gps_edit :: "int \<Rightarrow> edit_world \<Rightarrow> edit_world \<times> edit_reply" where
  "start_gps_edit tg s = (edit_goto E_GPS tg s, EditAsked)"

definition process_gps_location :: "int \<Rightarrow> int \<Rightarrow> int \<Rightarrow> rat \<Rightarrow> rat \<Rightarrow> edit_world \<Rightarrow> edit_world \<times> edit_reply" where
  "process_gps_location now n tg lat lng s =
     (case update_user_location tg lat lng (edit_db s) of
        (d, False) \<Rightarrow> (edit_clear tg s, EditSilent)
      | (d, True) \<Rightarrow> save_step now n ''gps'' tg d s)"

section \<open>The dialogue\<close>

text \<open>The states \<open>cancel_profile_editing\<close> listens in.\<close>

definition cancellable :: "string option \<Rightarrow> bool" where
  "cancellable st \<longleftrightarrow> st \<in> Some ` {E_BIO, E_INTERESTS, E_PHOTO, E_VOICE, E_PROVINCE, E_CITY, E_AGE, E_GPS}"

definition edit_message ::
  "ustr list \<Rightarrow> (string \<Rightarrow> string option) \<Rightarrow> int \<Rightarrow> int \<Rightarrow> int \<Rightarrow> edit_content \<Rightarrow> edit_world \<Rightarrow> edit_world \<times> edit_reply" where
  "edit_message provinces reupload now n tg m s =
     (let st = fsm_state (edit_fsm tg s); is = (\<lambda>x. st = Some x) in
      if cancellable st \<and> m = SText (btn ''BACK_TO_MENU'') then cancel_profile_editing tg s
      else if is E_BIO then process_bio_input now n tg m s
      else if is E_PHOTO then (case m of SPhoto f \<Rightarrow> process_new_photo reupload now n tg f s
             | SDocument \<Rightarrow> (s, PhotoAsDocument) | _ \<Rightarrow> (s, PhotoOnly))
      else if is E_AGE then process_new_age tg m s
      else if is E_PROVINCE then process_edit_province provinces tg m s
      else if is E_CITY then process_edit_city tg m s
      else if is E_VOICE then (case m of SAudio f z dur \<Rightarrow> process_new_voice now n tg f z dur s | _ \<Rightarrow> (s, AudioOnly))
      else if is E_GPS then (case m of SLocation lat lng \<Rightarrow> process_gps_location now n tg lat lng s | _ \<Rightarrow> (s, GpsOnly))
      else if is E_NAME then process_name_input tg m s
      else (s, EditNotHandled))"

datatype edit_event = PressMenu | PressBio | PressName | PressInterests | PressInterest ustr | PressSave
  | PressPhoto | PressVoice | PressAge | PressLocation | PressMarital ustr | PressGps | Wrote edit_content

definition edit_step ::
  "ustr list \<Rightarrow> (string \<Rightarrow> string option) \<Rightarrow> int \<Rightarrow> int \<Rightarrow> int \<Rightarrow> edit_event \<Rightarrow> edit_world \<Rightarrow> edit_world \<times> edit_reply" where
  "edit_step provinces reupload n now tg e s =
     (let picking = (\<lambda>r. if fsm_state (edit_fsm tg s) = Some E_INTERESTS then r else (s, EditNotHandled)) in
      case e of
        PressMenu \<Rightarrow> show_edit_menu tg s
      | PressBio \<Rightarrow> start_bio_edit tg s
      | PressName \<Rightarrow> start_name_edit tg s
      | PressInterests \<Rightarrow> start_interests_edit tg s
      | PressInterest key \<Rightarrow> picking (toggle_interest now tg key s)
      | PressSave \<Rightarrow> picking (save_profile_changes now n tg s)
      | PressPhoto \<Rightarrow> start_photo_edit tg s
      | PressVoice \<Rightarrow> start_voice_edit tg s
      | PressAge \<Rightarrow> start_age_edit tg s
      | PressLocation \<Rightarrow> start_location_edit tg s
      | PressMarital rest \<Rightarrow> process_marital_edit tg rest s
      | PressGps \<Rightarrow> start_gps_edit tg s
      | Wrote m \<Rightarrow> edit_message provinces reupload now n tg m s)"

section \<open>No entity is cut in half\<close>

lemma escape_char_cases:
  "escape_char c = [c] \<and> c \<noteq> 38 \<or>
   (\<exists>r. escape_char c = 38 # r \<and> 38 \<notin> set r \<and> length r \<le> 5)"
  by (auto simp: escape_char_def)

lemma escape_text_simps [simp]:
  "escape_text [] = []" "escape_text (c # t) = escape_char c @ escape_text t"
  "escape_text (s @ t) = escape_text s @ escape_text t"
  by (simp_all add: escape_text_def)

lemma before_last_split: "38 \<notin> set r \<Longrightarrow> before_last 38 (x @ 38 # r) = x"
proof -
  assume "38 \<notin> set r"
  then have "dropWhile (\<lambda>x. x \<noteq> 38) (rev r @ 38 # rev x) = 38 # rev x" by (induction r rule: rev_induct) auto
  then show ?thesis by (simp add: before_last_def)
qed

text \<open>A text cut anywhere is an escaped text and the start of one more entity.\<close>

lemma take_escape:
  "\<exists>k p. take n (escape_text t) = escape_text (take k t) @ p \<and>
     (p = [] \<or> (\<exists>r. p = 38 # r \<and> 38 \<notin> set r \<and> length r \<le> 4))"
proof (induction t arbitrary: n)
  case (Cons c t)
  show ?case
  proof (cases "length (escape_char c) \<le> n")
    case True
    obtain k p where "take (n - length (escape_char c)) (escape_text t) = escape_text (take k t) @ p"
      and p: "p = [] \<or> (\<exists>r. p = 38 # r \<and> 38 \<notin> set r \<and> length r \<le> 4)" using Cons.IH by blast
    then have "take n (escape_text (c # t)) = escape_text (take (Suc k) (c # t)) @ p" using True by simp
    with p show ?thesis by blast
  next
    case False
    let ?p = "take n (escape_char c)"
    have "take n (escape_text (c # t)) = escape_text (take 0 (c # t)) @ ?p" using False by simp
    moreover have "?p = [] \<or> (\<exists>r. ?p = 38 # r \<and> 38 \<notin> set r \<and> length r \<le> 4)"
    proof (cases n)
      case (Suc m)
      from escape_char_cases [of c] show ?thesis
      proof
        assume "\<exists>r. escape_char c = 38 # r \<and> 38 \<notin> set r \<and> length r \<le> 5"
        then obtain r where r: "escape_char c = 38 # r" "38 \<notin> set r" "length r \<le> 5" by blast
        then have "?p = 38 # take m r" "38 \<notin> set (take m r)" "length (take m r) \<le> 4"
          using False Suc by (auto dest: in_set_takeD)
        then show ?thesis by blast
      qed (use False Suc in simp)
    qed simp
    ultimately show ?thesis by blast
  qed
qed simp

lemma before_last_escape: "\<exists>k. before_last 38 (escape_text t) = escape_text (take k t)"
proof (induction t rule: rev_induct)
  case (snoc c t)
  from escape_char_cases [of c] show ?case
  proof
    assume c: "escape_char c = [c] \<and> c \<noteq> 38"
    then have "before_last 38 (escape_text (t @ [c])) = before_last 38 (escape_text t)" by (simp add: before_last_def)
    also obtain k where "\<dots> = escape_text (take k t)" using snoc.IH by blast
    also have "take k t = take (min k (length t)) (t @ [c])" by (simp add: min_def)
    finally show ?thesis by blast
  next
    assume "\<exists>r. escape_char c = 38 # r \<and> 38 \<notin> set r \<and> length r \<le> 5"
    then have "before_last 38 (escape_text (t @ [c])) = escape_text (take (length t) (t @ [c]))"
      by (auto simp: before_last_split)
    then show ?thesis by blast
  qed
qed (simp add: before_last_def)

lemma before_last_length: "length (before_last c t) \<le> length t"
proof -
  have "length (tl (dropWhile (\<lambda>x. x \<noteq> c) (rev t))) \<le> length (rev t)"
    using length_dropWhile_le [of "\<lambda>x. x \<noteq> c" "rev t"] by simp
  then show ?thesis by (simp add: before_last_def)
qed

lemma cut_bio_length: "length (cut_bio b) \<le> 150"
  using before_last_length [of 38 "take 150 b"] by (simp add: cut_bio_def Let_def)

lemma cut_bio_clean: "\<exists>k. cut_bio (escape_text t) = escape_text (take k t)"
proof (cases "length (escape_text t) \<le> 150")
  case True
  then show ?thesis by (metis cut_bio_def take_all_iff order_refl)
next
  case False
  obtain k p where tk: "take 150 (escape_text t) = escape_text (take k t) @ p"
    and p: "p = [] \<or> (\<exists>r. p = 38 # r \<and> 38 \<notin> set r \<and> length r \<le> 4)" using take_escape by blast
  from p show ?thesis
  proof
    assume "p = []"
    then show ?thesis using False tk before_last_escape [of "take k t"] by (auto simp: cut_bio_def Let_def)
  next
    assume "\<exists>r. p = 38 # r \<and> 38 \<notin> set r \<and> length r \<le> 4"
    then obtain r where r: "p = 38 # r" "38 \<notin> set r" "length r \<le> 4" by blast
    let ?e = "escape_text (take k t)"
    have "length ?e + length p = 150" using arg_cong [OF tk, of length] False by simp
    then have "length ?e \<ge> 145" using r by simp
    then have "38 \<in> set (drop 145 (?e @ p))" using r(1) by (simp add: drop_append)
    then have "cut_bio (escape_text t) = ?e"
      using False tk before_last_split [OF r(2), of ?e] r(1) by (simp add: cut_bio_def Let_def)
    then show ?thesis by blast
  qed
qed

section \<open>What an edit may change\<close>

text \<open>A stored text is an escaped one that fits its column.\<close>

definition clean :: "nat \<Rightarrow> string \<Rightarrow> bool" where
  "clean n v \<longleftrightarrow> (\<exists>t. v = utf8 (escape_text t) \<and> length (escape_text t) \<le> n)"

text \<open>A user's row without the columns the dialogue writes.\<close>

definition settled :: "user \<Rightarrow> user" where
  "settled u = u\<lparr>u_first_name := [], u_age := None, u_province := None, u_city := None,
     u_profile_photo_file_id := None, u_profile_voice_file_id := None, u_coin_balance := 0,
     u_total_earned_coins := 0, u_bio := None, u_interests := None, u_marital_status := None,
     u_location_lat := None, u_location_lng := None, u_location_point := None,
     u_profile_completion_pct := 0, u_profile_completion_rewarded := False\<rparr>"

definition interest_list_ok :: "string \<Rightarrow> bool" where
  "interest_list_ok v \<longleftrightarrow> (\<exists>ks. v = utf8 (join_comma ks) \<and> distinct ks \<and> length ks \<le> 10 \<and> length (join_comma ks) \<le> 255)"

definition kept_or :: "('a \<Rightarrow> bool) \<Rightarrow> 'a \<Rightarrow> 'a \<Rightarrow> bool" where
  "kept_or P old new \<longleftrightarrow> new = old \<or> P new"

lemma kept_or_refl [simp]: "kept_or P x x"
  by (simp add: kept_or_def)

lemma kept_or_trans: "kept_or P a b \<Longrightarrow> kept_or P b c \<Longrightarrow> kept_or P a c"
  by (auto simp: kept_or_def)

definition edited :: "int \<Rightarrow> user \<Rightarrow> user \<Rightarrow> bool" where
  "edited n u u' \<longleftrightarrow> settled u' = settled u \<and>
     kept_or (clean 150) (u_first_name u) (u_first_name u') \<and>
     kept_or (\<lambda>v. v \<in> Some ` Collect (clean 150)) (u_bio u) (u_bio u') \<and>
     kept_or (\<lambda>v. v \<in> Some ` Collect (clean 100)) (u_city u) (u_city u') \<and>
     kept_or (\<lambda>v. v \<in> Some ` Collect interest_list_ok) (u_interests u) (u_interests u') \<and>
     kept_or (\<lambda>v. v \<in> Some ` {18..75}) (u_age u) (u_age u') \<and>
     (u_profile_completion_rewarded u \<longrightarrow> u_profile_completion_rewarded u') \<and>
     u_coin_balance u' = u_coin_balance u +
       (if u_profile_completion_rewarded u' \<and> \<not> u_profile_completion_rewarded u then n else 0)"

lemma edited_refl [simp]: "edited n u u"
  by (simp add: edited_def)

lemma edited_trans:
  assumes "edited n a b" and "edited n b c"
  shows "edited n a c"
proof -
  note a = assms(1) [unfolded edited_def] and b = assms(2) [unfolded edited_def]
  have "settled c = settled a" using a b by simp
  moreover have "kept_or (clean 150) (u_first_name a) (u_first_name c)"
    using a b by (blast intro: kept_or_trans)
  moreover have "kept_or (\<lambda>v. v \<in> Some ` Collect (clean 150)) (u_bio a) (u_bio c)"
    using a b by (blast intro: kept_or_trans)
  moreover have "kept_or (\<lambda>v. v \<in> Some ` Collect (clean 100)) (u_city a) (u_city c)"
    using a b by (blast intro: kept_or_trans)
  moreover have "kept_or (\<lambda>v. v \<in> Some ` Collect interest_list_ok) (u_interests a) (u_interests c)"
    using a b by (blast intro: kept_or_trans)
  moreover have "kept_or (\<lambda>v. v \<in> Some ` {18..75}) (u_age a) (u_age c)"
    using a b by (blast intro: kept_or_trans)
  moreover
  have ab: "u_profile_completion_rewarded a \<longrightarrow> u_profile_completion_rewarded b" "u_coin_balance b = u_coin_balance a +
      (if u_profile_completion_rewarded b \<and> \<not> u_profile_completion_rewarded a then n else 0)" using a by blast+
  have bc: "u_profile_completion_rewarded b \<longrightarrow> u_profile_completion_rewarded c" "u_coin_balance c = u_coin_balance b +
      (if u_profile_completion_rewarded c \<and> \<not> u_profile_completion_rewarded b then n else 0)" using b by blast+
  have "(u_profile_completion_rewarded a \<longrightarrow> u_profile_completion_rewarded c) \<and> u_coin_balance c = u_coin_balance a +
      (if u_profile_completion_rewarded c \<and> \<not> u_profile_completion_rewarded a then n else 0)"
    using ab bc by (cases "u_profile_completion_rewarded a"; cases "u_profile_completion_rewarded b"; simp)
  ultimately show ?thesis unfolding edited_def by blast
qed

definition edits :: "int \<Rightarrow> int \<Rightarrow> db \<Rightarrow> db \<Rightarrow> bool" where
  "edits n tg d d' \<longleftrightarrow> (\<forall>k. rel_option (edited n) (get_user d k) (get_user d' k) \<and>
     (k \<noteq> tg \<longrightarrow> get_user d' k = get_user d k))"

lemma edits_refl [simp]: "edits n tg d d"
  by (simp add: edits_def option.rel_refl)

lemma edits_trans:
  assumes "edits n tg a b" and "edits n tg b c"
  shows "edits n tg a c"
proof -
  have "rel_option (edited n) (get_user a k) (get_user c k)" for k
  proof (cases "get_user a k")
    case None
    then show ?thesis using assms unfolding edits_def by (metis option.rel_sel)
  next
    case (Some u)
    then obtain v w where "get_user b k = Some v" "edited n u v" "get_user c k = Some w" "edited n v w"
      using assms unfolding edits_def by (metis option_rel_Some1)
    with Some show ?thesis using edited_trans by auto
  qed
  then show ?thesis using assms by (simp add: edits_def)
qed

lemma edits_upd:
  assumes "\<And>u. u_tg_id (f u) = u_tg_id u" and "\<And>u. edited n u (f u)"
  shows "edits n tg d (upd_user tg f d)"
  using assms by (simp add: edits_def get_upd_user option.rel_refl rel_option_iff split: option.split)

lemma edits_award: "edits n tg d (fst (try_award_completion_reward now n tg (mark_step_done now tg step d)))"
proof -
  have g: "get_user (mark_step_done now tg step d) = get_user d" by (rule ext) (simp add: get_user_def)
  have "edited n u (earn_completion n u)" if "\<not> u_profile_completion_rewarded u" for u
    using that by (simp add: edited_def settled_def earn_completion_def earn_def)
  then have "rel_option (edited n) (get_user d tg) (map_option (earn_completion n) (get_user d tg))"
    if "snd (try_award_completion_reward now n tg (mark_step_done now tg step d)) \<noteq> None"
    using that by (auto simp: try_award_completion_reward_def g split: option.splits if_splits)
  then show ?thesis unfolding edits_def award_frame g by (auto simp: option.rel_refl)
qed

section \<open>Runs of edits\<close>

lemma edit_sel [simp]:
  "edit_db (on_edit f s) = dw_db (f (ew_world s))" "edit_db (edit_clear tg s) = edit_db s"
  "edit_db (edit_goto st tg s) = edit_db s" "edit_db (s\<lparr>ew_selected := x\<rparr>) = edit_db s"
  "ew_selected (on_edit f s) = ew_selected s" "ew_selected (edit_goto st tg s) = ew_selected s"
  "ew_selected (edit_clear tg s) = (ew_selected s)(tg := [])"
  by (simp_all add: edit_db_def on_edit_def edit_clear_def edit_goto_def on_fsm_def leave_def)

lemma dw_db_on_db [simp]: "dw_db (on_db f w) = f (dw_db w)" "dw_db (on_fsm tg g w) = dw_db w"
  by (simp_all add: on_db_def on_fsm_def)

definition picks_ok :: "edit_world \<Rightarrow> bool" where
  "picks_ok s \<longleftrightarrow> (\<forall>k. distinct (ew_selected s k) \<and> length (ew_selected s k) \<le> 10)"

lemma edits_save_step:
  assumes "edits n tg d d1"
  shows "edits n tg d (edit_db (fst (save_step now n step tg d1 s)))"
proof (cases "get_user d1 tg")
  case None
  then show ?thesis using assms by (simp add: save_step_def step_taken_def)
next
  case (Some u)
  then show ?thesis
    using edits_trans [OF assms edits_award] by (simp add: save_step_def step_taken_def case_prod_beta)
qed

lemma picks_save_step: "picks_ok s \<Longrightarrow> picks_ok (fst (save_step now n step tg d s))"
  by (simp add: save_step_def picks_ok_def split: option.split)

lemma edits_flush:
  assumes "get_user d (u_tg_id v) = Some u" and "edited n u v"
  shows "edits n (u_tg_id v) d (flush_user v d)"
proof -
  have "get_user (flush_user v d) k = map_option (\<lambda>r. if u_tg_id r = u_tg_id v then v else r) (get_user d k)" for k
    unfolding get_user_def flush_user_def upd_user_def
    by (simp add: by_key_def upd_where_def find_key_upd_other [of "\<lambda>r. u_tg_id r = u_tg_id v" u_tg_id "\<lambda>_. v"])
  then show ?thesis
    using assms by (auto simp: edits_def rel_option_iff split: option.split) (metis get_user_tg option.inject)+
qed

lemma edits_profile:
  assumes "\<And>v. name = Some v \<Longrightarrow> clean 150 v" and "\<And>v. bio = Some v \<Longrightarrow> clean 150 v"
    and "\<And>v. ints = Some v \<Longrightarrow> interest_list_ok v"
  shows "edits n tg d (fst (update_user_profile tg name bio ints None None None None d))"
proof (cases "get_user d tg")
  case (Some u)
  define v where "v = set_opt (\<lambda>v u. u\<lparr>u_interests := Some v\<rparr>) ints
    (set_opt (\<lambda>v u. u\<lparr>u_bio := Some v\<rparr>) bio (set_opt (\<lambda>v u. u\<lparr>u_first_name := v\<rparr>) name u))"
  have tg: "u_tg_id v = tg"
    using get_user_tg [OF Some] by (simp add: v_def set_opt_def split: option.split)
  have "settled v = settled u" "u_first_name v = (case name of None \<Rightarrow> u_first_name u | Some x \<Rightarrow> x)"
    "u_bio v = (case bio of None \<Rightarrow> u_bio u | x \<Rightarrow> x)" "u_interests v = (case ints of None \<Rightarrow> u_interests u | x \<Rightarrow> x)"
    "u_city v = u_city u" "u_age v = u_age u" "u_coin_balance v = u_coin_balance u"
    "u_profile_completion_rewarded v = u_profile_completion_rewarded u"
    by (simp_all add: v_def set_opt_def settled_def split: option.split)
  then have "edited n u v"
    using assms by (simp add: edited_def kept_or_def split: option.split)
  with Some tg have "edits n tg d (flush_user v d)" using edits_flush [of d v u n] by simp
  moreover have "fst (update_user_profile tg name bio ints None None None None d) = flush_user v d"
    using Some by (simp add: update_user_profile_def v_def Let_def) (simp add: set_opt_def)
  ultimately show ?thesis by simp
qed (simp add: update_user_profile_def)

definition edit_good :: "int \<Rightarrow> int \<Rightarrow> edit_world \<Rightarrow> edit_world \<Rightarrow> bool" where
  "edit_good n tg s s' \<longleftrightarrow> edits n tg (edit_db s) (edit_db s') \<and> (picks_ok s \<longrightarrow> picks_ok s')"

named_theorems edit_good

lemma edit_good_same [edit_good]:
  "edit_good n tg s s" "edit_good n tg s (edit_clear tg s)" "edit_good n tg s (edit_goto st tg s)"
  "edit_good n tg s (edit_goto st tg (on_edit (on_fsm tg g) s))"
  by (simp_all add: edit_good_def picks_ok_def edit_db_def [symmetric])

lemma edit_good_db [edit_good]:
  "edits n tg (edit_db s) d \<Longrightarrow> edit_good n tg s (edit_clear tg (on_edit (on_db (\<lambda>_. d)) s))"
  "edits n tg (edit_db s) d \<Longrightarrow> edit_good n tg s (fst (save_step now n step tg d s))"
  "edits n tg (edit_db s) (f (edit_db s)) \<Longrightarrow> edit_good n tg s (edit_clear tg (on_edit (on_db f) s))"
  using edits_save_step picks_save_step by (simp_all add: edit_good_def picks_ok_def edit_db_def [symmetric])

lemma clean_cut: "clean 150 (utf8 (cut_bio (escape_text t)))"
  using cut_bio_clean [of t] cut_bio_length [of "escape_text t"] unfolding clean_def by metis

lemma good_bio [edit_good]: "edit_good n tg s (fst (process_bio_input now n tg m s))"
proof -
  have "edits n tg (edit_db s) (fst (update_user_profile tg None (Some (utf8 (cut_bio (escape_text b)))) None None None None None (edit_db s)))" for b
    by (rule edits_profile) (auto simp: clean_cut)
  then show ?thesis
    by (auto simp: process_bio_input_def Let_def case_prod_beta intro!: edit_good split: bool.split)
qed

lemma good_name [edit_good]: "edit_good n tg s (fst (process_name_input tg m s))"
proof -
  have "edits n tg (edit_db s) (fst (update_user_profile tg (Some (utf8 (escape_text b))) None None None None None None (edit_db s)))"
    if "length (escape_text b) \<le> 150" for b
    by (rule edits_profile) (use that in \<open>auto simp: clean_def\<close>)
  then show ?thesis
    by (auto simp: process_name_input_def Let_def case_prod_beta intro!: edit_good split: bool.split)
qed

lemma good_toggle [edit_good]: "edit_good n tg s (fst (toggle_interest now tg key s))"
proof -
  have "picks_ok (s\<lparr>ew_selected := (ew_selected s)(tg := remove1 key (ew_selected s tg))\<rparr>)" if "picks_ok s"
    using that by (auto simp: picks_ok_def length_remove1 intro: diff_le_self [THEN order_trans])
  moreover have "picks_ok (s\<lparr>ew_selected := (ew_selected s)(tg := ew_selected s tg @ [key])\<rparr>)"
    if "picks_ok s" "key \<notin> set (ew_selected s tg)" "\<not> interest_limit vip \<le> length (ew_selected s tg)" for vip
    using that by (auto simp: picks_ok_def interest_limit_def split: if_splits)
  ultimately show ?thesis
    by (auto simp: toggle_interest_def Let_def edit_good_def split: option.split sum.split)
qed

lemma good_save:
  assumes "picks_ok s"
  shows "edit_good n tg s (fst (save_profile_changes now n tg s))"
proof -
  have "edits n tg (edit_db s) (fst (update_user_profile tg None None (Some (utf8 (join_comma (take k (ew_selected s tg))))) None None None None (edit_db s)))"
    if "\<not> 255 < length (join_comma (take k (ew_selected s tg)))" for k
    by (rule edits_profile) (use that assms in \<open>auto simp: interest_list_ok_def picks_ok_def min_le_iff_disj intro!: exI [of _ "take k (ew_selected s tg)"]\<close>)
  then show ?thesis
    by (auto simp: save_profile_changes_def Let_def intro!: edit_good split: option.split sum.split)
qed

lemma good_files [edit_good]:
  "edit_good n tg s (fst (process_new_photo reupload now n tg f s))"
  "edit_good n tg s (fst (process_new_voice now n tg f z dur s))"
  by (auto simp: process_new_photo_def process_new_voice_def Let_def edited_def settled_def intro!: edit_good edits_upd)

lemma good_place [edit_good]:
  "edit_good n tg s (fst (process_new_age tg m s))" "edit_good n tg s (fst (process_edit_province provinces tg m s))"
  "edit_good n tg s (fst (process_edit_city tg m s))" "edit_good n tg s (fst (process_marital_edit tg rest s))"
  "edit_good n tg s (fst (process_gps_location now n tg lat lng s))"
proof -
  show "edit_good n tg s (fst (process_new_age tg m s))"
    by (auto simp: process_new_age_def Let_def edited_def settled_def kept_or_def intro!: edit_good edits_upd split: option.split)
  show "edit_good n tg s (fst (process_edit_province provinces tg m s))"
    by (auto simp: process_edit_province_def Let_def intro!: edit_good)
  have place: "clean 100 (utf8 (escape_text t))" if "\<not> 100 < length (escape_text t)" for t
    using that by (auto simp: clean_def)
  show "edit_good n tg s (fst (process_edit_city tg m s))"
    by (auto simp: process_edit_city_def Let_def edited_def settled_def kept_or_def place intro!: edit_good edits_upd)
  show "edit_good n tg s (fst (process_marital_edit tg rest s))"
    by (auto simp: process_marital_edit_def show_edit_menu_def Let_def edited_def settled_def intro!: edit_good edits_upd)
  show "edit_good n tg s (fst (process_gps_location now n tg lat lng s))"
    by (auto simp: process_gps_location_def update_user_location_def edited_def settled_def intro!: edit_good edits_upd split: bool.split)
qed

lemma edit_step_good:
  assumes "picks_ok s"
  shows "edit_good n tg s (fst (edit_step provinces reupload n now tg e s))"
proof -
  have "edit_good n tg s (fst (edit_message provinces reupload now n tg m s))" for m
    by (simp add: edit_message_def Let_def cancel_profile_editing_def edit_good split: edit_content.split)
  moreover have "edit_good n tg s ((edit_goto E_INTERESTS tg s)\<lparr>ew_selected := (ew_selected s)(tg := [])\<rparr>)"
    by (simp add: edit_good_def picks_ok_def)
  ultimately show ?thesis
    using good_save [OF assms]
    by (simp add: edit_step_def Let_def show_edit_menu_def start_bio_edit_def start_name_edit_def start_interests_edit_def
        start_photo_edit_def start_voice_edit_def start_age_edit_def start_location_edit_def start_gps_edit_def edit_good split: edit_event.split)
qed

definition edit_run ::
  "ustr list \<Rightarrow> (string \<Rightarrow> string option) \<Rightarrow> int \<Rightarrow> (int \<times> int \<times> edit_event) list \<Rightarrow> edit_world \<Rightarrow> edit_world" where
  "edit_run provinces reupload n evs s =
     fold (\<lambda>(now, tg, e) s. fst (edit_step provinces reupload n now tg e s)) evs s"

text \<open>C16: a stored name, biography and city is an escaped text that fits its column, with no entity cut; interests are at
  most ten, each once; an age is between 18 and 75.  Whoever edits what in whatever order, only the rows of those who
  acted change, in these columns and the files, place, position and status; nobody is paid but the once-only reward.\<close>

theorem profile_edits_bounded:
  assumes "picks_ok s"
  shows "rel_option (edited n) (get_user (edit_db s) k) (get_user (edit_db (edit_run provinces reupload n evs s)) k) \<and>
    (k \<notin> (fst \<circ> snd) ` set evs \<longrightarrow>
      get_user (edit_db (edit_run provinces reupload n evs s)) k = get_user (edit_db s) k) \<and>
    picks_ok (edit_run provinces reupload n evs s)"
  using assms
proof (induction evs arbitrary: s)
  case Nil
  then show ?case by (simp add: edit_run_def option.rel_refl)
next
  case (Cons ev evs)
  obtain now tg e where ev: "ev = (now, tg, e)" by (cases ev)
  let ?s = "fst (edit_step provinces reupload n now tg e s)"
  have g: "edits n tg (edit_db s) (edit_db ?s)" "picks_ok ?s"
    using edit_step_good [OF Cons.prems] Cons.prems by (auto simp: edit_good_def)
  have r: "edit_run provinces reupload n (ev # evs) s = edit_run provinces reupload n evs ?s" by (simp add: edit_run_def ev)
  have "rel_option (edited n) (get_user (edit_db s) k) (get_user (edit_db ?s) k)" using g(1) by (simp add: edits_def)
  then have "rel_option (edited n) (get_user (edit_db s) k) (get_user (edit_db (edit_run provinces reupload n evs ?s)) k)"
    using Cons.IH [OF g(2)] edited_trans by (auto simp: rel_option_iff split: option.splits)
  then show ?case using Cons.IH [OF g(2)] g(1) unfolding r edits_def by (auto simp: ev)
qed

section \<open>Steps without content\<close>

lemma save_step_user:
  assumes "get_user d tg = Some v"
  shows "get_user (edit_db (fst (save_step now n step tg d s))) tg =
      Some (if \<not> u_profile_completion_rewarded v \<and> cs_is_complete (get_completion_state tg (mark_step_done now tg step d))
        then earn_completion n v else v)"
    and "is_step_done tg step (edit_db (fst (save_step now n step tg d s)))"
proof -
  have g: "get_user (mark_step_done now tg step d) tg = Some v" using assms by (simp add: get_user_def)
  let ?a = "try_award_completion_reward now n tg (mark_step_done now tg step d)"
  have e: "edit_db (fst (save_step now n step tg d s)) = fst ?a"
    using assms by (simp add: save_step_def step_taken_def case_prod_beta)
  show "get_user (edit_db (fst (save_step now n step tg d s))) tg =
      Some (if \<not> u_profile_completion_rewarded v \<and> cs_is_complete (get_completion_state tg (mark_step_done now tg step d))
        then earn_completion n v else v)"
    unfolding e award_frame by (simp add: g) (simp add: try_award_completion_reward_def g)
  have "completion_logs (fst ?a) = completion_logs (mark_step_done now tg step d)"
    by (simp add: try_award_completion_reward_def upd_user_def add_coin_tx_def split: option.split)
  then show "is_step_done tg step (edit_db (fst (save_step now n step tg d s)))"
    unfolding e using is_step_done_mark [of tg step now tg step d] by (simp add: is_step_done_def)
qed

lemma update_own:
  assumes "get_user d tg = Some u"
  shows "snd (update_user_profile tg None bio ints None None None None d)"
    and "get_user (fst (update_user_profile tg None bio ints None None None None d)) tg =
      Some (u\<lparr>u_bio := (case bio of None \<Rightarrow> u_bio u | x \<Rightarrow> x), u_interests := (case ints of None \<Rightarrow> u_interests u | x \<Rightarrow> x)\<rparr>)"
    and "completion_logs (fst (update_user_profile tg None bio ints None None None None d)) = completion_logs d"
proof -
  have "u_tg_id u = tg" using get_user_tg [OF assms] .
  then have "get_user (flush_user v d) tg = Some v" if "u_tg_id v = tg" for v
    unfolding get_user_def flush_user_def upd_user_def using assms that
    by (simp add: by_key_def get_user_def upd_where_def find_key_upd_other [of "\<lambda>r. u_tg_id r = tg" u_tg_id "\<lambda>_. v"])
  then show "get_user (fst (update_user_profile tg None bio ints None None None None d)) tg =
      Some (u\<lparr>u_bio := (case bio of None \<Rightarrow> u_bio u | x \<Rightarrow> x), u_interests := (case ints of None \<Rightarrow> u_interests u | x \<Rightarrow> x)\<rparr>)"
    using assms \<open>u_tg_id u = tg\<close> by (cases bio; cases ints) (simp_all add: update_user_profile_def Let_def set_opt_def)
qed (use assms in \<open>simp_all add: update_user_profile_def Let_def flush_user_def upd_user_def\<close>)

text \<open>C40: a sticker counts as a biography and an empty choice as interests: whoever has a city, a photo and a position
  is paid for completing the profile with neither.\<close>

theorem empty_profile_rewarded:
  assumes "get_user (edit_db s) tg = Some u" and "\<not> u_profile_completion_rewarded u" and "\<not> u_is_vip u"
    and "{''city'', ''photo'', ''gps''} \<subseteq> derived_steps u"
  shows "\<exists>u'. get_user (edit_db (edit_run provinces reupload n
      [(t1, tg, PressBio), (t2, tg, Wrote SOther), (t3, tg, PressInterests), (t4, tg, PressSave)] s)) tg = Some u' \<and>
    u_bio u' = Some [] \<and> u_interests u' = Some [] \<and> u_profile_completion_rewarded u' \<and>
    u_coin_balance u' = u_coin_balance u + n"
proof -
  let ?v = "u\<lparr>u_bio := Some []\<rparr>"
  let ?d1 = "fst (update_user_profile tg None (Some []) None None None None None (edit_db s))"
  define s1 where "s1 = edit_goto E_BIO tg s"
  define s2 where "s2 = fst (save_step t2 n ''bio'' tg ?d1 s1)"
  define w where "w = (if cs_is_complete (get_completion_state tg (mark_step_done t2 tg ''bio'' ?d1)) then earn_completion n ?v else ?v)"
  have st: "fsm_state (edit_fsm tg (edit_goto x tg s0)) = Some x" for x s0
    by (simp add: edit_fsm_def edit_goto_def on_edit_def on_fsm_def set_state_def)
  have btn: "btn ''BACK_TO_MENU'' \<noteq> []" by (simp add: btn_def ReplyBtn_def)
  have e: "strip (plain_dots []) = []" "cut_bio [] = []" "utf8 [] = []"
    by (simp_all add: strip_def plain_dots_def cut_bio_def utf8_def)
  have "fst (edit_step provinces reupload n t2 tg (Wrote SOther) s1) = s2"
    using update_own(1) [OF assms(1), of "Some []" None] btn [symmetric]
    by (auto simp: edit_step_def edit_message_def s1_def st process_bio_input_def e s2_def split: prod.split)
  moreover have w: "get_user (edit_db s2) tg = Some w" "is_step_done tg ''bio'' (edit_db s2)"
    using save_step_user [where d = ?d1 and tg = tg and v = ?v and now = t2 and n = n and step = "''bio''" and s = s1] update_own(2) [OF assms(1), of "Some []" None] assms(2)
    by (simp_all add: s2_def w_def)
  define s3 where "s3 = (edit_goto E_INTERESTS tg s2)\<lparr>ew_selected := (ew_selected s2)(tg := [])\<rparr>"
  have s3: "edit_db s3 = edit_db s2" "fsm_state (edit_fsm tg s3) = Some E_INTERESTS" "ew_selected s3 tg = []"
    using st [of E_INTERESTS s2] by (simp_all add: s3_def edit_fsm_def)
  let ?d3 = "fst (update_user_profile tg None None (Some []) None None None None (edit_db s3))"
  define s4 where "s4 = fst (save_step t4 n ''tags'' tg ?d3 s3)"
  have "vip_flag_active (Naive t4) w = Inr False" using assms(3) by (simp add: vip_flag_active_def w_def earn_completion_def earn_def)
  then have "fst (edit_step provinces reupload n t4 tg PressSave s3) = s4"
    using w(1) by (simp add: edit_step_def s3 save_profile_changes_def e s4_def)
  ultimately have run: "edit_run provinces reupload n
      [(t1, tg, PressBio), (t2, tg, Wrote SOther), (t3, tg, PressInterests), (t4, tg, PressSave)] s = s4"
    by (simp add: edit_run_def edit_step_def start_bio_edit_def s1_def start_interests_edit_def s3_def)
  let ?w = "w\<lparr>u_interests := Some []\<rparr>"
  let ?m = "mark_step_done t4 tg ''tags'' ?d3"
  have g: "get_user ?d3 tg = Some ?w" using update_own(2) [of "edit_db s3" tg w None "Some []"] w(1) by (simp add: s3)
  then have "get_user ?m tg = Some ?w" by (simp add: get_user_def)
  moreover have "is_step_done tg ''bio'' ?m"
    using w update_own(3) [of "edit_db s3" tg w None "Some []"] by (simp add: is_step_done_mark s3) (simp add: is_step_done_def)
  moreover have "is_step_done tg ''tags'' ?m" by (simp add: is_step_done_mark)
  moreover have "{''city'', ''photo'', ''gps''} \<subseteq> derived_steps ?w"
    using assms(4) by (auto simp: w_def derived_steps_def earn_completion_def earn_def split: if_splits)
  ultimately have c: "cs_is_complete (get_completion_state tg ?m)"
    by (auto simp: completion_state_user REQUIRED_STEPS_def)
  have "get_user (edit_db s4) tg = Some (if \<not> u_profile_completion_rewarded ?w then earn_completion n ?w else ?w)"
    using save_step_user(1) [OF g] c by (simp add: s4_def)
  moreover have "u_profile_completion_rewarded w \<longrightarrow> w = earn_completion n ?v" "\<not> u_profile_completion_rewarded w \<longrightarrow> w = ?v"
    using assms(2) by (simp_all add: w_def)
  ultimately show ?thesis unfolding run by (cases "u_profile_completion_rewarded w") (auto simp: earn_completion_def earn_def)
qed

definition half_profile :: edit_world where
  "half_profile = \<lparr>ew_world = (bk_world empty_bank)\<lparr>dw_db := demo_db\<lparr>users := \<lparr>rows = [alice\<lparr>u_city := Some ''Rasht'',
     u_profile_photo_file_id := Some ''p'', u_location_lat := Some 37, u_location_lng := Some 49\<rparr>, bob], next_id = 3\<rparr>\<rparr>\<rparr>,
     ew_selected = (\<lambda>_. [])\<rparr>"

lemma half_profile_user:
  "get_user (edit_db half_profile) 1 = Some (alice\<lparr>u_city := Some ''Rasht'',
     u_profile_photo_file_id := Some ''p'', u_location_lat := Some 37, u_location_lng := Some 49\<rparr>)"
  by (simp add: half_profile_def edit_db_def get_user_def by_key_def)

theorem profile_edits_bounded_witness:
  "picks_ok (edit_run [] Some 10 [(0, 1, PressInterests), (0, 1, PressInterest [65])] half_profile)"
  using profile_edits_bounded [of half_profile 10 1 "[]" Some "[(0, 1, PressInterests), (0, 1, PressInterest [65])]"]
  by (simp add: picks_ok_def half_profile_def)

theorem empty_profile_rewarded_witness:
  "\<exists>u'. get_user (edit_db (edit_run [] Some 10
      [(0, 1, PressBio), (0, 1, Wrote SOther), (0, 1, PressInterests), (0, 1, PressSave)] half_profile)) 1 = Some u' \<and>
    u_bio u' = Some [] \<and> u_interests u' = Some [] \<and> u_profile_completion_rewarded u' \<and> u_coin_balance u' = 13"
  using empty_profile_rewarded [OF half_profile_user, of "[]" Some 10 0 0 0 0] by (simp add: derived_steps_def)



text \<open>A name of fifty quotes passes the dialogue and does not fit its column: the handler raises and the dialogue stays.\<close>

theorem quoted_name_raises:
  assumes "strip t = replicate k 39" and "26 \<le> k" and "k \<le> 50" and "fsm_state (edit_fsm tg s) = Some E_NAME"
  shows "edit_step provinces reupload n now tg (Wrote (SText t)) s = (s, EditRaised)"
proof -
  have "length (escape_text (replicate k 39)) = 6 * k" by (induction k) (simp_all add: escape_char_def)
  moreover have "t \<noteq> btn ''BACK_TO_MENU''"
  proof
    assume "t = btn ''BACK_TO_MENU''"
    then have "hd (strip t) \<noteq> 39" by (simp add: btn_def ReplyBtn_def strip_def is_space_def)
    then show False using assms by (cases k) auto
  qed
  moreover have "\<not> cancellable (Some E_NAME)" by (simp add: cancellable_def edit_states)
  ultimately show ?thesis
    using assms by (simp add: edit_step_def edit_message_def process_name_input_def Let_def edit_states)
qed

theorem quoted_name_raises_witness:
  "snd (edit_step [] Some 10 0 1 (Wrote (SText (replicate 30 39))) (fst (start_name_edit 1 half_profile))) = EditRaised"
proof -
  have "strip (replicate 30 39) = replicate 30 39" by (simp add: strip_def is_space_def dropWhile_eq_self_iff [THEN iffD2])
  moreover have "fsm_state (edit_fsm 1 (fst (start_name_edit 1 half_profile))) = Some E_NAME"
    by (simp add: start_name_edit_def edit_goto_def edit_fsm_def on_edit_def on_fsm_def set_state_def)
  ultimately show ?thesis using quoted_name_raises [of "replicate 30 39" 30] by simp
qed

end
