(* ===== verification/Explore.thy ===== *)
theory Explore
  imports Discovery Scheduler Guards
begin

text \<open>
  The explore buttons (\<open>bot/handlers/explore.py\<close>): one user per press, found by the filtered search of
  theory Discovery, with the users of the last six hours left out and a fresh start when nobody is left.
  Redis keeps the set of the viewed; \<open>listing\<close> is the order in which it gives a set's members.
\<close>

section \<open>The viewed\<close>

definition EXPLORE_VIEWED_SET_TTL :: int where
  "EXPLORE_VIEWED_SET_TTL = 60 * 60 * 6 * 1000000"

type_synonym viewed = "int \<rightharpoonup> int set \<times> int"

definition viewed_set :: "int \<Rightarrow> viewed \<Rightarrow> int \<Rightarrow> int set" where
  "viewed_set now s tg = (case live now s tg of None \<Rightarrow> {} | Some ids \<Rightarrow> ids)"

definition get_explore_viewed_ids :: "(int set \<Rightarrow> int list) \<Rightarrow> int \<Rightarrow> int \<Rightarrow> viewed \<Rightarrow> nat \<Rightarrow> int list" where
  "get_explore_viewed_ids listing now tg s limit = take limit (listing (viewed_set now s tg))"

definition add_explore_viewed_id :: "int \<Rightarrow> int \<Rightarrow> int \<Rightarrow> viewed \<Rightarrow> viewed" where
  "add_explore_viewed_id now tg candidate s = s(tg \<mapsto> (insert candidate (viewed_set now s tg), now + EXPLORE_VIEWED_SET_TTL))"

definition clear_explore_viewed_ids :: "int \<Rightarrow> viewed \<Rightarrow> viewed" where
  "clear_explore_viewed_ids tg s = s(tg := None)"

section \<open>The search\<close>

datatype explore_step = NoCaller | NeedProvince | NeedLocation | Found int "real option" | Restarted | NoResult

definition nearby_button :: "ustr \<Rightarrow> bool" where
  "nearby_button data = starts_with (lit ''nearby_'') data"

definition button_tokens :: "ustr \<Rightarrow> ustr set" where
  "button_tokens data =
     (let suffix = remove_word (lit ''search_'') (remove_word (lit ''nearby_'') data)
      in if suffix = [] then {} else set (split_on 95 [] suffix))"

definition falsy_coord :: "rat option \<Rightarrow> bool" where
  "falsy_coord x = (x = None \<or> x = Some 0)"

definition explore_filters :: "ustr \<Rightarrow> user \<Rightarrow> int list \<Rightarrow> filters" where
  "explore_filters data caller viewed_ids =
     (let tokens = button_tokens data in
      \<lparr>df_province = (if lit ''province'' \<in> tokens then u_province caller else None), df_interests = [],
       df_min_age = 0, df_max_age = 99, df_distance = (if nearby_button data then Some ''0_50'' else None),
       df_exclude = viewed_ids,
       df_gender = (if lit ''female'' \<in> tokens then Some ''female'' else if lit ''male'' \<in> tokens then Some ''male'' else None),
       df_online_only = (lit ''online'' \<in> tokens), df_discovery = None\<rparr>)"

definition distance_to :: "user \<Rightarrow> user \<Rightarrow> real option" where
  "distance_to c v =
     (if falsy_coord (u_location_lat c) \<or> falsy_coord (u_location_lng c) \<or> falsy_coord (u_location_lat v) \<or> falsy_coord (u_location_lng v)
      then None
      else Some (calculate_distance_km (of_rat (the (u_location_lat c))) (of_rat (the (u_location_lng c)))
             (of_rat (the (u_location_lat v))) (of_rat (the (u_location_lng v)))))"

definition execute_search ::
  "(int set \<Rightarrow> int list) \<Rightarrow> int \<Rightarrow> int \<Rightarrow> ustr \<Rightarrow> db \<Rightarrow> viewed \<Rightarrow> viewed \<times> explore_step" where
  "execute_search listing now tg data d s =
     (case get_user d tg of
        None \<Rightarrow> (s, NoCaller)
      | Some caller \<Rightarrow>
          if lit ''province'' \<in> button_tokens data \<and> \<not> truthy (u_province caller) then (s, NeedProvince)
          else if nearby_button data \<and> (falsy_coord (u_location_lat caller) \<or> falsy_coord (u_location_lng caller))
          then (s, NeedLocation)
          else let viewed_ids = get_explore_viewed_ids listing now tg s 500 in
          (case get_filtered_discovery_candidates now tg (explore_filters data caller viewed_ids) 1 100 d of
             v # _ \<Rightarrow> (add_explore_viewed_id now tg (u_tg_id v) s, Found (u_tg_id v) (distance_to caller v))
           | [] \<Rightarrow> if viewed_ids \<noteq> [] then (clear_explore_viewed_ids tg s, Restarted) else (s, NoResult)))"

definition search_buttons :: "ustr list" where
  "search_buttons = map lit [''nearby_female'', ''nearby_male'', ''nearby_both'', ''search_online_male'', ''search_online_female'',
     ''search_same_province'', ''search_same_city'', ''search_no_chat'']"

section \<open>A round of presses\<close>

text \<open>The presses of one button at the times \<open>ts\<close> and what they show.\<close>

fun press_explore ::
  "(int set \<Rightarrow> int list) \<Rightarrow> int \<Rightarrow> ustr \<Rightarrow> db \<Rightarrow> int list \<Rightarrow> viewed \<Rightarrow> viewed \<times> explore_step list" where
  "press_explore listing tg data d [] s = (s, [])"
| "press_explore listing tg data d (t # ts) s =
     (let (s1, r) = execute_search listing t tg data d s; (s2, rs) = press_explore listing tg data d ts s1 in (s2, r # rs))"

definition found_ids :: "explore_step list \<Rightarrow> int list" where
  "found_ids rs = concat (map (\<lambda>r. case r of Found i x \<Rightarrow> [i] | _ \<Rightarrow> []) rs)"

text \<open>Who a button is for, apart from the viewed.\<close>

definition audience :: "int \<Rightarrow> ustr \<Rightarrow> user \<Rightarrow> db \<Rightarrow> int set" where
  "audience now data c d = u_tg_id ` {v \<in> set (rows (users d)). eligible now (explore_filters data c []) c d v}"

definition may_search :: "ustr \<Rightarrow> user \<Rightarrow> bool" where
  "may_search data c \<longleftrightarrow> (lit ''province'' \<in> button_tokens data \<longrightarrow> truthy (u_province c)) \<and>
     (nearby_button data \<longrightarrow> \<not> falsy_coord (u_location_lat c) \<and> \<not> falsy_coord (u_location_lng c))"

lemma eligible_exclude:
  "df_exclude q = [] \<Longrightarrow> eligible now (q\<lparr>df_exclude := ids\<rparr>) c d v \<longleftrightarrow> eligible now q c d v \<and> u_tg_id v \<notin> set ids"
  by (cases "u_age v"; cases "u_location_lat v"; cases "u_location_lng v") (simp_all add: eligible_def matches_filters_def conj_ac)

lemma eligible_viewed:
  "eligible now (explore_filters data c ids) c d v \<longleftrightarrow>
     eligible now (explore_filters data c []) c d v \<and> u_tg_id v \<notin> set ids"
proof -
  have "explore_filters data c ids = (explore_filters data c [])\<lparr>df_exclude := ids\<rparr>" "df_exclude (explore_filters data c []) = []"
    by (simp_all add: explore_filters_def Let_def)
  then show ?thesis using eligible_exclude by metis
qed

lemma no_interests: "shares_filter (explore_filters data c ids) v"
  by (simp add: shares_filter_def interest_filter_def explore_filters_def Let_def)

lemma search_finds:
  assumes "get_user d tg = Some c" and "may_search data c"
  shows "(case get_filtered_discovery_candidates now tg (explore_filters data c ids) 1 100 d of
     [] \<Rightarrow> audience now data c d \<subseteq> set ids
   | v # vs \<Rightarrow> u_tg_id v \<in> audience now data c d - set ids)"
proof -
  let ?q = "explore_filters data c ids"
  let ?e = "sel_where (eligible now ?q c d) (users d)"
  have n: "\<not> (has_bucket (df_distance ?q) \<and> (u_location_lat c = None \<or> u_location_lng c = None))"
    using assms(2) by (auto simp: may_search_def explore_filters_def Let_def falsy_coord_def has_bucket_def)
  let ?us = "take 1 (sort_key (\<lambda>v. - score_of now ?q c v) (filter (shares_filter ?q) (search_pool now ?q c 100 d)))"
  have us: "get_filtered_discovery_candidates now tg ?q 1 100 d = ?us" by (rule search_view [OF assms(1) n])
  have "set ?us \<subseteq> set ?e" by (auto simp: search_pool_def dest!: in_set_takeD)
  moreover have "?us = [] \<longleftrightarrow> ?e = []"
  proof -
    have "filter (shares_filter ?q) (search_pool now ?q c 100 d) = search_pool now ?q c 100 d"
      by (rule filter_True) (simp add: no_interests)
    then have "length ?us = min 1 (min 100 (length ?e))" by (simp add: search_pool_def)
    moreover have "min 1 (min 100 n) = 0 \<longleftrightarrow> n = 0" for n :: nat by auto
    ultimately show ?thesis by (metis length_0_conv)
  qed
  moreover have "u_tg_id ` set ?e = audience now data c d - set ids"
    by (auto simp: sel_where_def audience_def eligible_viewed [of now data c ids])
  ultimately show ?thesis unfolding us
    by (cases ?us) auto
qed

definition lists_sets :: "(int set \<Rightarrow> int list) \<Rightarrow> bool" where
  "lists_sets listing \<longleftrightarrow> (\<forall>S. finite S \<longrightarrow> set (listing S) = S \<and> distinct (listing S))"

lemma viewed_all:
  assumes "lists_sets listing" and "finite (viewed_set now s tg)" and "card (viewed_set now s tg) \<le> 500"
  shows "set (get_explore_viewed_ids listing now tg s 500) = viewed_set now s tg"
proof -
  let ?V = "viewed_set now s tg"
  have l: "set (listing ?V) = ?V" "distinct (listing ?V)" using assms by (auto simp: lists_sets_def)
  then have "length (listing ?V) \<le> 500" using assms(3) by (metis distinct_card)
  then show ?thesis using l by (simp add: get_explore_viewed_ids_def)
qed

text \<open>One press: a user of the audience who was not viewed, or the end of the round.\<close>

lemma one_press:
  assumes "get_user d tg = Some c" and "may_search data c" and "lists_sets listing"
    and V: "viewed_set now s tg = V" "finite V" "card V \<le> 500" and A: "audience now data c d = A"
  obtains i x where "i \<in> A - V" "execute_search listing now tg data d s = (add_explore_viewed_id now tg i s, Found i x)"
  | "A \<subseteq> V" "execute_search listing now tg data d s =
       (if V \<noteq> {} then (clear_explore_viewed_ids tg s, Restarted) else (s, NoResult))"
proof -
  let ?ids = "get_explore_viewed_ids listing now tg s 500"
  have ids: "set ?ids = V" using viewed_all [OF assms(3)] V by blast
  then have ne: "?ids \<noteq> [] \<longleftrightarrow> V \<noteq> {}" by (metis set_empty)
  have ex: "execute_search listing now tg data d s =
      (case get_filtered_discovery_candidates now tg (explore_filters data c ?ids) 1 100 d of
         v # vs \<Rightarrow> (add_explore_viewed_id now tg (u_tg_id v) s, Found (u_tg_id v) (distance_to c v))
       | [] \<Rightarrow> if V \<noteq> {} then (clear_explore_viewed_ids tg s, Restarted) else (s, NoResult))"
    using assms(1,2) ne by (auto simp: execute_search_def may_search_def Let_def split: list.split)
  note f = search_finds [OF assms(1,2), of now ?ids, unfolded ids A]
  show thesis
  proof (cases "get_filtered_discovery_candidates now tg (explore_filters data c ?ids) 1 100 d")
    case Nil
    then show ?thesis using f ex that(2) by simp
  next
    case (Cons v vs)
    then show ?thesis using f ex that(1) [of "u_tg_id v" "distance_to c v"] by simp
  qed
qed

definition within_hours :: "int list \<Rightarrow> bool" where
  "within_hours ts \<longleftrightarrow> successively (\<lambda>t t'. t' < t + EXPLORE_VIEWED_SET_TTL) ts"

lemma viewed_after: "t' < t + EXPLORE_VIEWED_SET_TTL \<Longrightarrow> viewed_set t' (add_explore_viewed_id t tg i s) tg = insert i (viewed_set t s tg)"
  by (simp add: viewed_set_def add_explore_viewed_id_def live_def)

lemma round_of_presses:
  assumes "get_user d tg = Some c" and "may_search data c" and "lists_sets listing"
    and "\<forall>t\<in>set (ts @ [z]). audience t data c d = A" and "finite A" and "card A \<le> 500"
    and "within_hours (ts @ [z])" and "viewed_set (hd (ts @ [z])) s tg = V" and "V \<subseteq> A" and "length ts = card (A - V)"
  shows "\<exists>s' rs. press_explore listing tg data d ts s = (s', rs) \<and> distinct (found_ids rs) \<and> set (found_ids rs) = A - V \<and>
    length (found_ids rs) = length rs \<and> viewed_set z s' tg = A"
  using assms(4,7-10)
proof (induction ts arbitrary: s V)
  case Nil
  then have "A - V = {}" using \<open>finite A\<close> by simp
  with Nil show ?case by (auto simp: found_ids_def)
next
  case (Cons t ts)
  have fin: "finite V" "card V \<le> 500"
    using Cons.prems(4) \<open>finite A\<close> \<open>card A \<le> 500\<close> finite_subset card_mono by (blast, meson card_mono le_trans)
  have v: "viewed_set t s tg = V" "audience t data c d = A" using Cons.prems(1,3) by simp_all
  from one_press [OF assms(1-3) v(1) fin v(2)] show ?case
  proof cases
    case (1 i x)
    let ?s = "add_explore_viewed_id t tg i s"
    have "hd (ts @ [z]) < t + EXPLORE_VIEWED_SET_TTL" "within_hours (ts @ [z])"
      using Cons.prems(2) by (cases ts; simp add: within_hours_def)+
    moreover have "viewed_set (hd (ts @ [z])) ?s tg = insert i V" using viewed_after calculation(1) v(1) by metis
    moreover have "length ts = card (A - insert i V)"
    proof -
      have "A - insert i V = (A - V) - {i}" by blast
      then show ?thesis using Cons.prems(5) 1(1) \<open>finite A\<close> by simp
    qed
    ultimately obtain s' rs where r: "press_explore listing tg data d ts ?s = (s', rs)" "distinct (found_ids rs)"
      "set (found_ids rs) = A - insert i V" "length (found_ids rs) = length rs" "viewed_set z s' tg = A"
      using Cons.IH [of ?s "insert i V"] Cons.prems(1,4) 1(1) by auto
    have "press_explore listing tg data d (t # ts) s = (s', Found i x # rs)" by (simp add: 1(2) r(1))
    moreover have "found_ids (Found i x # rs) = i # found_ids rs" by (simp add: found_ids_def)
    ultimately show ?thesis using r 1(1) by auto
  next
    case 2
    then have "A - V = {}" by blast
    with Cons.prems(5) show ?thesis by simp
  qed
qed

lemma press_append:
  "press_explore listing tg data d (ts @ us) s =
     (let (s1, rs) = press_explore listing tg data d ts s; (s2, rs') = press_explore listing tg data d us s1 in (s2, rs @ rs'))"
  by (induction ts arbitrary: s) (simp_all add: split_def Let_def)


section \<open>What the buttons filter by\<close>

definition everybody :: filters where
  "everybody = plain\<lparr>df_min_age := 0\<rparr>"

text \<open>The buttons for users of one's own city and for users without a chat are in the menu, but the search they
  start has neither filter: both look through everybody.\<close>

theorem city_and_chat_unfiltered:
  "{lit ''search_same_city'', lit ''search_no_chat''} \<subseteq> set search_buttons \<and>
   explore_filters (lit ''search_same_city'') c ids = everybody\<lparr>df_exclude := ids\<rparr> \<and>
   explore_filters (lit ''search_no_chat'') c ids = everybody\<lparr>df_exclude := ids\<rparr>"
proof -
  have t: "button_tokens (lit ''search_same_city'') = {lit ''same'', lit ''city''}"
    "button_tokens (lit ''search_no_chat'') = {lit ''no'', lit ''chat''}"
    "\<not> nearby_button (lit ''search_same_city'')" "\<not> nearby_button (lit ''search_no_chat'')"
    by (simp_all add: button_tokens_def nearby_button_def lit_def starts_with_def Let_def)
  have w: "lit w \<noteq> lit v" if "w \<in> {''province'', ''female'', ''male'', ''online''}" "v \<in> {''same'', ''city'', ''no'', ''chat''}" for v w
    using that by (auto simp: lit_def)
  have "explore_filters (lit ''search_same_city'') c ids = everybody\<lparr>df_exclude := ids\<rparr>"
    "explore_filters (lit ''search_no_chat'') c ids = everybody\<lparr>df_exclude := ids\<rparr>"
    by (simp_all add: explore_filters_def t w everybody_def plain_def Let_def)
  then show ?thesis by (simp add: search_buttons_def)
qed

section \<open>A witness\<close>


end
