(* ===== verification/Wizard.thy ===== *)
theory Wizard
  imports ProfileEdit Explore Interactions
begin

text \<open>
  The search for users (\<open>bot/handlers/discovery.py\<close>): the three-step wizard, the search by distance, the
  quick filters and the pages of results, over the filtered search of theory Discovery.  The interests
  picked are kept under the key \<open>selected_interests\<close> that the profile dialogue uses too.  The session of an
  update is closed without a commit, so what a handler only flushes is lost; the replica that reads is the
  database itself.
\<close>

section \<open>The form\<close>

definition D_PROVINCE :: string where "D_PROVINCE = ''DiscoveryStates:choosing_province''"
definition D_INTERESTS :: string where "D_INTERESTS = ''DiscoveryStates:choosing_interests''"
definition D_AGE :: string where "D_AGE = ''DiscoveryStates:choosing_age_range''"
definition D_RESULTS :: string where "D_RESULTS = ''DiscoveryStates:showing_results''"
definition D_DISTANCE :: string where "D_DISTANCE = ''DiscoveryStates:choosing_distance''"

lemmas wizard_states = D_PROVINCE_def D_INTERESTS_def D_AGE_def D_RESULTS_def D_DISTANCE_def

definition USERS_PER_PAGE :: nat where "USERS_PER_PAGE = 5"

datatype wizard_reply = DiscoveryMenu | AskedProvince | AskedInterests | AskedAge | AskedDistance | PickedInterests
  | WizardLeft | BackToMain | InDate | BadChoice | WizardRaised | NeedGps | NeedCity | NeedOwnProvince | NoCaller
  | NoFunds | Nobody | ResultPage nat nat "int list" | BlockedList "int list" nat | BadUnblock | NotListening

text \<open>\<open>update_data\<close> with \<open>None\<close> reads as a missing key.\<close>

definition put_data :: "string \<Rightarrow> fval option \<Rightarrow> fsm \<Rightarrow> fsm" where
  "put_data k v c = c\<lparr>fsm_data := (fsm_data c)(k := v)\<rparr>"

definition form_put :: "string \<Rightarrow> fval option \<Rightarrow> int \<Rightarrow> edit_world \<Rightarrow> edit_world" where
  "form_put k v tg = on_edit (on_fsm tg (put_data k v))"

definition pick :: "ustr list \<Rightarrow> int \<Rightarrow> edit_world \<Rightarrow> edit_world" where
  "pick xs tg s = s\<lparr>ew_selected := (ew_selected s)(tg := xs)\<rparr>"

definition with_default :: "'a \<Rightarrow> 'a option \<Rightarrow> 'a" where
  "with_default x y = (case y of None \<Rightarrow> x | Some z \<Rightarrow> z)"

definition form_min :: "fsm \<Rightarrow> int" where "form_min c = with_default 0 (fsm_int ''min_age'' c)"
definition form_max :: "fsm \<Rightarrow> int" where "form_max c = with_default 99 (fsm_int ''max_age'' c)"

definition full :: "ustr option \<Rightarrow> bool" where
  "full t \<longleftrightarrow> t \<noteq> None \<and> t \<noteq> Some []"

definition target_gender :: "user \<Rightarrow> string option" where
  "target_gender u = (if \<not> truthy (u_gender u) then None
     else map_of [(''male'', ''female''), (''female'', ''male''), (''boy'', ''girl''), (''girl'', ''boy'')]
            (map lower_char (the (u_gender u))))"

definition wizard_filters :: "user \<Rightarrow> fsm \<Rightarrow> ustr list \<Rightarrow> filters" where
  "wizard_filters u c sel =
     \<lparr>df_province = map_option utf8 (Onboarding.fsm_text ''province'' c), df_interests = map utf8 sel,
      df_min_age = form_min c, df_max_age = form_max c,
      df_distance = map_option utf8 (Onboarding.fsm_text ''distance_filter'' c), df_exclude = [],
      df_gender = target_gender u, df_online_only = False, df_discovery = fsm_str ''discovery_filter'' c\<rparr>"

definition is_advanced_search :: "fsm \<Rightarrow> ustr list \<Rightarrow> bool" where
  "is_advanced_search c sel \<longleftrightarrow> full (Onboarding.fsm_text ''province'' c) \<or> sel \<noteq> [] \<or> form_min c > 0 \<or> form_max c < 99"

section \<open>A page of results\<close>

definition total_pages :: "user list \<Rightarrow> nat" where
  "total_pages us = (length us + USERS_PER_PAGE - 1) div USERS_PER_PAGE"

definition page_of :: "int \<Rightarrow> user list \<Rightarrow> nat" where
  "page_of page us = (let p = (if page \<ge> int (total_pages us) then int (total_pages us) - 1 else page) in nat (if p < 0 then 0 else p))"

definition page_slice :: "nat \<Rightarrow> user list \<Rightarrow> user list" where
  "page_slice p us = take USERS_PER_PAGE (drop (p * USERS_PER_PAGE) us)"

definition result_page :: "int \<Rightarrow> user list \<Rightarrow> wizard_reply" where
  "result_page page us = (if us = [] then Nobody
     else ResultPage (page_of page us) (total_pages us) (map u_tg_id (page_slice (page_of page us) us)))"

text \<open>The charge of an advanced search is flushed, not committed: the search sees it, the database does not.\<close>

definition show_discovery_list_page :: "int \<Rightarrow> int \<Rightarrow> int \<Rightarrow> edit_world \<Rightarrow> edit_world \<times> wizard_reply" where
  "show_discovery_list_page now tg page s =
     (case get_user (edit_db s) tg of
        None \<Rightarrow> (s, NoCaller)
      | Some u \<Rightarrow>
          let c = edit_fsm tg s; sel = ew_selected s tg;
              listed_in = (\<lambda>d. result_page page (get_filtered_discovery_candidates now tg (wizard_filters u c sel) 50 100 d)) in
          if is_advanced_search c sel \<and> \<not> nonzero (fsm_int ''advanced_search_paid'' c) then
            (case consume_vip_quota_or_coin now tg 1 TxSearch None (edit_db s) of
               Inl e \<Rightarrow> (s, WizardRaised)
             | Inr (d, paid) \<Rightarrow>
                 if \<not> paid then (s, NoFunds)
                 else (form_put ''advanced_search_paid'' (Some (FInt 1)) tg s, listed_in d))
          else (s, listed_in (edit_db s)))"

section \<open>The wizard\<close>

definition date_running :: "int \<Rightarrow> edit_world \<Rightarrow> bool" where
  "date_running tg s \<longleftrightarrow> get_active_match tg (edit_db s) \<noteq> None"

definition cancel_discovery_wizard :: "int \<Rightarrow> edit_world \<Rightarrow> edit_world \<times> wizard_reply" where
  "cancel_discovery_wizard tg s = (edit_clear tg s, WizardLeft)"

definition disc_main_menu :: "int \<Rightarrow> edit_world \<Rightarrow> edit_world \<times> wizard_reply" where
  "disc_main_menu tg s = (edit_clear tg s, BackToMain)"

text \<open>\<open>n\<close>: what follows \<open>disc_page_\<close>.\<close>

definition handle_discovery_pagination :: "int \<Rightarrow> int \<Rightarrow> ustr \<Rightarrow> edit_world \<Rightarrow> edit_world \<times> wizard_reply" where
  "handle_discovery_pagination now tg n s =
     (case py_int n of
        None \<Rightarrow> (s, WizardRaised)
      | Some page \<Rightarrow> if date_running tg s then (s, InDate) else show_discovery_list_page now tg page s)"

definition start_discovery :: "int \<Rightarrow> edit_world \<Rightarrow> edit_world \<times> wizard_reply" where
  "start_discovery tg s = (form_put ''distance_filter'' None tg s, DiscoveryMenu)"

definition in_discovery :: "fsm \<Rightarrow> bool" where
  "in_discovery c = (case fsm_state c of None \<Rightarrow> False | Some st \<Rightarrow> starts_with ''DiscoveryStates:'' st)"

definition cancel_wizard :: "int \<Rightarrow> edit_world \<Rightarrow> edit_world \<times> wizard_reply" where
  "cancel_wizard tg s =
     (if date_running tg s then (s, InDate)
      else if in_discovery (edit_fsm tg s) then (edit_clear tg s, BackToMain) else (s, NotListening))"

definition start_wizard :: "int \<Rightarrow> edit_world \<Rightarrow> edit_world \<times> wizard_reply" where
  "start_wizard tg s =
     (if date_running tg s then (s, InDate) else (edit_goto D_PROVINCE tg (edit_clear tg s), AskedProvince))"

text \<open>\<open>None\<close>: the button for all provinces.\<close>

definition receive_province :: "ustr list \<Rightarrow> int \<Rightarrow> ustr option \<Rightarrow> edit_world \<Rightarrow> edit_world \<times> wizard_reply" where
  "receive_province provinces tg choice s =
     (case choice of
        Some t \<Rightarrow> if t \<notin> set provinces then (s, BadChoice)
          else (edit_goto D_INTERESTS tg (pick [] tg (form_put ''province'' (Some (FText t)) tg s)), AskedInterests)
      | None \<Rightarrow> (edit_goto D_INTERESTS tg (pick [] tg (form_put ''province'' None tg s)), AskedInterests))"

definition toggle_discovery_interest :: "int \<Rightarrow> ustr \<Rightarrow> edit_world \<Rightarrow> edit_world \<times> wizard_reply" where
  "toggle_discovery_interest tg key s =
     (let sel = ew_selected s tg in
      (pick (if key \<in> set sel then remove1 key sel else sel @ [key]) tg s, PickedInterests))"

definition confirm_interests :: "int \<Rightarrow> edit_world \<Rightarrow> edit_world \<times> wizard_reply" where
  "confirm_interests tg s = (edit_goto D_AGE tg s, AskedAge)"

text \<open>\<open>Inl\<close>: an answer without a search.\<close>

definition parse_age_range :: "ustr \<Rightarrow> wizard_reply + (int \<times> int)" where
  "parse_age_range t =
     (if t = lit ''all'' then Inr (0, 99)
      else case split_on 95 [] t of
        [a, b] \<Rightarrow>
          (if \<not> isdigit a \<or> \<not> isdigit b then Inl BadChoice
           else case (py_int a, py_int b) of (Some x, Some y) \<Rightarrow> Inr (x, y) | _ \<Rightarrow> Inl WizardRaised)
      | _ \<Rightarrow> Inl BadChoice)"

definition receive_age_range :: "int \<Rightarrow> int \<Rightarrow> ustr \<Rightarrow> edit_world \<Rightarrow> edit_world \<times> wizard_reply" where
  "receive_age_range now tg t s =
     (case parse_age_range t of
        Inl r \<Rightarrow> (s, r)
      | Inr (lo, hi) \<Rightarrow> show_discovery_list_page now tg 0
          (edit_goto D_RESULTS tg (form_put ''min_age'' (Some (FInt lo)) tg (form_put ''max_age'' (Some (FInt hi)) tg s))))"

section \<open>Distance and quick filters\<close>

definition disc_nearby :: "int \<Rightarrow> edit_world \<Rightarrow> edit_world \<times> wizard_reply" where
  "disc_nearby tg s =
     (case get_user (edit_db s) tg of
        None \<Rightarrow> (s, NeedGps)
      | Some u \<Rightarrow> if u_location_lat u = None \<or> u_location_lng u = None then (s, NeedGps)
          else (edit_goto D_DISTANCE tg s, AskedDistance))"

text \<open>The whole of the button's data comes in; every \<open>dist_\<close> in it is removed.\<close>

definition receive_distance :: "int \<Rightarrow> int \<Rightarrow> ustr \<Rightarrow> edit_world \<Rightarrow> edit_world \<times> wizard_reply" where
  "receive_distance now tg data s =
     show_discovery_list_page now tg 0 (edit_goto D_RESULTS tg (pick [] tg
       (form_put ''distance_filter'' (Some (FText (remove_word (lit ''dist_'') data))) tg
       (form_put ''province'' None tg (form_put ''min_age'' (Some (FInt 0)) tg (form_put ''max_age'' (Some (FInt 99)) tg
       (form_put ''discovery_filter'' None tg s)))))))"

definition quick_filter :: "string \<Rightarrow> int \<Rightarrow> int \<Rightarrow> edit_world \<Rightarrow> edit_world \<times> wizard_reply" where
  "quick_filter flt now tg s =
     show_discovery_list_page now tg 0 (edit_goto D_RESULTS tg (form_put ''discovery_filter'' (Some (FStr flt)) tg s))"

definition disc_same_interests :: "int \<Rightarrow> int \<Rightarrow> edit_world \<Rightarrow> edit_world \<times> wizard_reply" where
  "disc_same_interests = quick_filter ''same_interests''"

definition disc_no_chat :: "int \<Rightarrow> int \<Rightarrow> edit_world \<Rightarrow> edit_world \<times> wizard_reply" where
  "disc_no_chat = quick_filter ''no_chat''"

definition disc_same_city :: "int \<Rightarrow> int \<Rightarrow> edit_world \<Rightarrow> edit_world \<times> wizard_reply" where
  "disc_same_city now tg s =
     (case get_user (edit_db s) tg of
        None \<Rightarrow> (s, NeedCity)
      | Some u \<Rightarrow> if \<not> truthy (u_city u) then (s, NeedCity) else quick_filter ''same_city'' now tg s)"

definition disc_same_province :: "int \<Rightarrow> int \<Rightarrow> edit_world \<Rightarrow> edit_world \<times> wizard_reply" where
  "disc_same_province now tg s =
     (case get_user (edit_db s) tg of
        None \<Rightarrow> (s, NeedOwnProvince)
      | Some u \<Rightarrow> if \<not> truthy (u_province u) then (s, NeedOwnProvince) else quick_filter ''same_province'' now tg s)"

definition disc_restart :: "int \<Rightarrow> int \<Rightarrow> edit_world \<Rightarrow> edit_world \<times> wizard_reply" where
  "disc_restart now tg s =
     (let c = edit_fsm tg s; s1 = edit_clear tg s in
      if truthy (fsm_str ''discovery_filter'' c)
      then show_discovery_list_page now tg 0 (edit_goto D_RESULTS tg
             (form_put ''discovery_filter'' (Some (FStr (the (fsm_str ''discovery_filter'' c)))) tg s1))
      else if full (Onboarding.fsm_text ''distance_filter'' c) then (edit_goto D_DISTANCE tg s1, AskedDistance)
      else (edit_goto D_PROVINCE tg s1, AskedProvince))"

definition open_discovery_menu_callback :: "int \<Rightarrow> edit_world \<Rightarrow> edit_world \<times> wizard_reply" where
  "open_discovery_menu_callback tg s =
     (if date_running tg s then (s, InDate) else (edit_clear tg s, DiscoveryMenu))"

section \<open>Lists of people\<close>

text \<open>\<open>_is_vip_active\<close>: both times are made aware.\<close>

record likers_page =
  lk_ids :: "int list"
  lk_total :: nat
  lk_locked :: bool

definition disc_liked_me :: "int \<Rightarrow> int \<Rightarrow> db \<Rightarrow> likers_page option" where
  "disc_liked_me now tg d =
     (case get_user d tg of
        None \<Rightarrow> None
      | Some u \<Rightarrow>
          let us = get_users_who_liked_me tg 20 d in
          Some (if vip_row_active now u \<or> us = [] then \<lparr>lk_ids = map u_tg_id us, lk_total = length us, lk_locked = False\<rparr>
                else \<lparr>lk_ids = map u_tg_id (take 1 us), lk_total = length us, lk_locked = True\<rparr>))"

definition disc_blocked :: "int \<Rightarrow> edit_world \<Rightarrow> edit_world \<times> wizard_reply" where
  "disc_blocked tg s = (let (us, n) = get_blocked_users tg 50 0 (edit_db s) in (s, BlockedList (map u_tg_id us) n))"

definition unblock_from_disc :: "int \<Rightarrow> ustr \<Rightarrow> edit_world \<Rightarrow> edit_world \<times> wizard_reply" where
  "unblock_from_disc tg t s =
     (if \<not> isdigit t then (s, BadUnblock)
      else case py_int t of
        None \<Rightarrow> (s, WizardRaised)
      | Some target \<Rightarrow> disc_blocked tg (on_edit (unblock_user tg target) s))"

definition disc_friends :: "int \<Rightarrow> db \<Rightarrow> (int \<times> string option) list" where
  "disc_friends tg d = map (\<lambda>u. (u_tg_id u, u_public_id u)) (get_friends tg d)"

section \<open>The dialogue\<close>

datatype wizard_event = WCancel | WMain | WPage ustr | WDiscover | WBack | WSearch | WProvince "ustr option"
  | WInterest ustr | WConfirm | WAge ustr | WNearby | WDistance ustr | WSameInterests | WNoChat | WSameCity
  | WSameProvince | WRestart | WMenu | WBlocked | WUnblock ustr

definition wizard_step :: "ustr list \<Rightarrow> int \<Rightarrow> int \<Rightarrow> wizard_event \<Rightarrow> edit_world \<Rightarrow> edit_world \<times> wizard_reply" where
  "wizard_step provinces now tg e s =
     (let inside = (\<lambda>st r. if fsm_state (edit_fsm tg s) = Some st then r else (s, NotListening)) in
      case e of
        WCancel \<Rightarrow> cancel_discovery_wizard tg s
      | WMain \<Rightarrow> disc_main_menu tg s
      | WPage n \<Rightarrow> inside D_RESULTS (handle_discovery_pagination now tg n s)
      | WDiscover \<Rightarrow> start_discovery tg s
      | WBack \<Rightarrow> cancel_wizard tg s
      | WSearch \<Rightarrow> start_wizard tg s
      | WProvince t \<Rightarrow> inside D_PROVINCE (receive_province provinces tg t s)
      | WInterest key \<Rightarrow> inside D_INTERESTS (toggle_discovery_interest tg key s)
      | WConfirm \<Rightarrow> inside D_INTERESTS (confirm_interests tg s)
      | WAge t \<Rightarrow> inside D_AGE (receive_age_range now tg t s)
      | WNearby \<Rightarrow> disc_nearby tg s
      | WDistance data \<Rightarrow> inside D_DISTANCE (receive_distance now tg data s)
      | WSameInterests \<Rightarrow> disc_same_interests now tg s
      | WNoChat \<Rightarrow> disc_no_chat now tg s
      | WSameCity \<Rightarrow> disc_same_city now tg s
      | WSameProvince \<Rightarrow> disc_same_province now tg s
      | WRestart \<Rightarrow> disc_restart now tg s
      | WMenu \<Rightarrow> open_discovery_menu_callback tg s
      | WBlocked \<Rightarrow> disc_blocked tg s
      | WUnblock t \<Rightarrow> unblock_from_disc tg t s)"

definition wizard_run :: "ustr list \<Rightarrow> (int \<times> int \<times> wizard_event) list \<Rightarrow> edit_world \<Rightarrow> edit_world" where
  "wizard_run provinces evs s = fold (\<lambda>(now, tg, e) s. fst (wizard_step provinces now tg e s)) evs s"

section \<open>Nobody is charged for a search\<close>

lemma wizard_sel [simp]:
  "edit_db (form_put k v tg s) = edit_db s" "edit_db (pick xs tg s) = edit_db s"
  by (simp_all add: form_put_def pick_def edit_db_def [symmetric])

lemma page_db [simp]: "edit_db (fst (show_discovery_list_page now tg page s)) = edit_db s"
  by (simp add: show_discovery_list_page_def Let_def split: option.split sum.split)

lemma quick_filter_db [simp]: "edit_db (fst (quick_filter flt now tg s)) = edit_db s"
  by (simp add: quick_filter_def)

text \<open>Only the blocks of the one who presses may go.\<close>

definition unblocks :: "int set \<Rightarrow> db \<Rightarrow> db \<Rightarrow> bool" where
  "unblocks who d d' \<longleftrightarrow> (\<exists>P. (\<forall>b. bl_blocker_id b \<notin> who \<longrightarrow> P b) \<and>
     d' = d\<lparr>blocks := \<lparr>rows = filter P (rows (blocks d)), next_id = next_id (blocks d)\<rparr>\<rparr>)"

lemma unblocks_refl [simp]: "unblocks who d d"
  unfolding unblocks_def by (rule exI [of _ "\<lambda>_. True"]) simp

lemma unblocks_trans:
  assumes "unblocks A a b" and "unblocks B b c"
  shows "unblocks (A \<union> B) a c"
proof -
  obtain P where P: "\<forall>x. bl_blocker_id x \<notin> A \<longrightarrow> P x"
    "b = a\<lparr>blocks := \<lparr>rows = filter P (rows (blocks a)), next_id = next_id (blocks a)\<rparr>\<rparr>" using assms(1) unfolding unblocks_def by blast
  obtain Q where Q: "\<forall>x. bl_blocker_id x \<notin> B \<longrightarrow> Q x"
    "c = b\<lparr>blocks := \<lparr>rows = filter Q (rows (blocks b)), next_id = next_id (blocks b)\<rparr>\<rparr>" using assms(2) unfolding unblocks_def by blast
  have "c = a\<lparr>blocks := \<lparr>rows = filter (\<lambda>x. P x \<and> Q x) (rows (blocks a)), next_id = next_id (blocks a)\<rparr>\<rparr>"
    unfolding Q(2) P(2) by simp
  moreover have "\<forall>x. bl_blocker_id x \<notin> A \<union> B \<longrightarrow> P x \<and> Q x" using P(1) Q(1) by simp
  ultimately show ?thesis unfolding unblocks_def by (intro exI [of _ "\<lambda>x. P x \<and> Q x"] conjI)
qed

lemma unblocks_users: "unblocks A d d' \<Longrightarrow> users d' = users d"
  by (auto simp: unblocks_def)

lemma unblocks_step: "unblocks {tg} (edit_db s) (edit_db (fst (wizard_step provinces now tg e s)))"
proof (cases e)
  case (WUnblock t)
  have "unblocks {tg} d (d\<lparr>blocks := del_where (\<lambda>b. block_key b = (tg, target)) (blocks d)\<rparr>)" for target d
    unfolding unblocks_def by (rule exI [of _ "\<lambda>b. block_key b \<noteq> (tg, target)"]) (simp add: del_where_def block_key_def)
  then show ?thesis
    by (simp add: WUnblock wizard_step_def unblock_from_disc_def disc_blocked_def unblock_user_def redis_unblock_def
        case_prod_beta edit_db_def on_edit_def on_db_def split: option.split)
qed (simp_all add: wizard_step_def Let_def cancel_discovery_wizard_def disc_main_menu_def handle_discovery_pagination_def
    start_discovery_def cancel_wizard_def start_wizard_def receive_province_def toggle_discovery_interest_def confirm_interests_def
    receive_age_range_def disc_nearby_def receive_distance_def disc_same_interests_def disc_no_chat_def disc_same_city_def
    disc_same_province_def disc_restart_def open_discovery_menu_callback_def disc_blocked_def case_prod_beta
    split: option.split sum.split)

text \<open>An advanced search asks for a coin or the quota and refuses who has neither, but its charge is never committed:
  after any run of the search's buttons by any users, every table is what it was, but for the blocks that their owners lifted.\<close>

theorem searches_are_free:
  "unblocks ((fst \<circ> snd) ` set evs) (edit_db s) (edit_db (wizard_run provinces evs s)) \<and>
    coin_balance (edit_db (wizard_run provinces evs s)) k = coin_balance (edit_db s) k"
proof -
  have "unblocks ((fst \<circ> snd) ` set evs) (edit_db s) (edit_db (wizard_run provinces evs s))"
  proof (induction evs arbitrary: s)
    case (Cons ev evs)
    obtain now tg e where ev: "ev = (now, tg, e)" by (cases ev)
    from unblocks_trans [OF unblocks_step [of tg s provinces now e] Cons.IH]
    show ?case by (simp add: wizard_run_def ev)
  qed (simp add: wizard_run_def)
  then show ?thesis using coin_balance_cong [OF unblocks_users] by blast
qed

section \<open>Pages\<close>

lemma slices_cover:
  assumes "0 < k" and "length xs \<le> n * k"
  shows "concat (map (\<lambda>p. take k (drop (p * k) xs)) [0..<n]) = xs"
  using assms(2)
proof (induction n arbitrary: xs)
  case (Suc n)
  have "concat (map (\<lambda>p. take k (drop (p * k) (drop k xs))) [0..<n]) = drop k xs" by (rule Suc.IH) (use Suc.prems in simp)
  moreover have "map (\<lambda>p. take k (drop (p * k) xs)) [0..<Suc n] =
      take k xs # map (\<lambda>p. take k (drop (p * k) (drop k xs))) [0..<n]"
    by (simp add: upt_conv_Cons map_Suc_upt [symmetric] del: upt_Suc) (simp add: add.commute)
  ultimately show ?case by simp
qed simp

fun shown_ids :: "wizard_reply \<Rightarrow> int list" where
  "shown_ids (ResultPage p n ids) = ids"
| "shown_ids _ = []"

text \<open>C15: the pages of a search that is free or paid show everyone it found exactly once, in its order, at most five on a page and no page
  empty; a page number out of range shows the first or the last page.\<close>

theorem result_pages_cover:
  assumes "get_user (edit_db s) tg = Some u" and "is_advanced_search (edit_fsm tg s) (ew_selected s tg) \<longrightarrow> nonzero (fsm_int ''advanced_search_paid'' (edit_fsm tg s))"
    and "us = get_filtered_discovery_candidates now tg (wizard_filters u (edit_fsm tg s) (ew_selected s tg)) 50 100 (edit_db s)"
    and "us \<noteq> []" and "p < total_pages us"
  shows "concat (map (\<lambda>p. shown_ids (snd (show_discovery_list_page now tg (int p) s))) [0..<total_pages us]) = map u_tg_id us \<and>
    length (shown_ids (snd (show_discovery_list_page now tg (int p) s))) \<in> {1..5} \<and>
    show_discovery_list_page now tg (int (total_pages us) + int q) s = show_discovery_list_page now tg (int (total_pages us) - 1) s \<and>
    show_discovery_list_page now tg (- int q) s = show_discovery_list_page now tg 0 s \<and> total_pages us \<le> 10"
proof -
  have show_page: "show_discovery_list_page now tg page s = (s, result_page page us)" for page
    using assms(1,2) by (auto simp: show_discovery_list_page_def Let_def assms(3))
  have len: "length us \<le> total_pages us * 5" "5 * total_pages us < length us + 5"
    by (simp_all add: total_pages_def USERS_PER_PAGE_def) presburger?
  have pos: "0 < total_pages us" using assms(5) by simp
  have inr: "page_of (int r) us = r" if "r < total_pages us" for r using that by (simp add: page_of_def Let_def)
  have "map (\<lambda>p. shown_ids (snd (show_discovery_list_page now tg (int p) s))) [0..<total_pages us] =
      map (map u_tg_id \<circ> (\<lambda>p. take 5 (drop (p * 5) us))) [0..<total_pages us]"
    by (rule map_cong) (auto simp: show_page result_page_def assms(4) inr page_slice_def USERS_PER_PAGE_def)
  then have "concat (map (\<lambda>p. shown_ids (snd (show_discovery_list_page now tg (int p) s))) [0..<total_pages us]) =
      map u_tg_id (concat (map (\<lambda>p. take 5 (drop (p * 5) us)) [0..<total_pages us]))"
    by (simp only: map_concat map_map)
  also have "\<dots> = map u_tg_id us" using slices_cover [of 5 us, OF _ len(1)] by simp
  finally have "concat (map (\<lambda>p. shown_ids (snd (show_discovery_list_page now tg (int p) s))) [0..<total_pages us]) = map u_tg_id us" .
  moreover have "p * 5 < length us" using assms(5) len(2) by linarith
  then have "length (shown_ids (snd (show_discovery_list_page now tg (int p) s))) \<in> {1..5}"
    by (simp add: show_page result_page_def assms(4) inr [OF assms(5)] page_slice_def USERS_PER_PAGE_def)
  moreover have "page_of (int (total_pages us) + int q) us = page_of (int (total_pages us) - 1) us" "page_of (- int q) us = page_of 0 us"
    using pos by (simp_all add: page_of_def Let_def)
  moreover have "length us \<le> 50"
    by (simp add: assms(3) get_filtered_discovery_candidates_def split: option.split)
  then have "total_pages us \<le> 10" using len(2) by linarith
  ultimately show ?thesis by (simp add: show_page result_page_def assms(4))
qed

definition searching :: edit_world where
  "searching = \<lparr>ew_world = (bk_world empty_bank)\<lparr>dw_db := search_db, dw_fsm := (\<lambda>_. \<lparr>fsm_state = Some D_RESULTS,
     fsm_data = [''min_age'' \<mapsto> FInt 18, ''advanced_search_paid'' \<mapsto> FInt 1]\<rparr>)\<rparr>, ew_selected = (\<lambda>_. [])\<rparr>"

lemma searching_view:
  "edit_db searching = search_db" "ew_selected searching 1 = []" "get_user (edit_db searching) 1 = Some seeker"
  "fsm_int ''advanced_search_paid'' (edit_fsm 1 searching) = Some 1"
  "wizard_filters seeker (edit_fsm 1 searching) [] = plain"
  by (simp_all add: searching_def edit_db_def edit_fsm_def fsm_int_def wizard_filters_def plain_def form_min_def form_max_def
      with_default_def Onboarding.fsm_text_def fsm_str_def target_gender_def seeker_def alice_def new_user_def)

lemma searching_finds:
  "set (get_filtered_discovery_candidates 5 1 plain 50 100 search_db) = {shown, idle}"
  "length (get_filtered_discovery_candidates 5 1 plain 50 100 search_db) = 2"
proof -
  have v: "get_filtered_discovery_candidates 5 1 plain 50 100 search_db =
      take 50 (sort_key (\<lambda>v. - score_of 5 plain seeker v) (filter (shares_filter plain) (search_pool 5 plain seeker 100 search_db)))"
    by (rule search_view) (simp_all add: plain_def has_bucket_def)
  have p: "filter (shares_filter plain) (search_pool 5 plain seeker 100 search_db) = [shown, idle]"
    using search_listed [of "[]"] by (simp add: search_pool_def plain_same search_order) (simp add: shares_filter_def interest_filter_def plain_def)
  show "set (get_filtered_discovery_candidates 5 1 plain 50 100 search_db) = {shown, idle}"
    "length (get_filtered_discovery_candidates 5 1 plain 50 100 search_db) = 2"
    unfolding v p by auto
qed

theorem result_pages_cover_witness:
  "set (shown_ids (snd (show_discovery_list_page 5 1 0 searching))) = {2, 3}"
proof -
  let ?us = "get_filtered_discovery_candidates 5 1 plain 50 100 search_db"
  have n: "total_pages ?us = 1" "?us \<noteq> []" using searching_finds(2) by (auto simp: total_pages_def USERS_PER_PAGE_def)
  have "concat (map (\<lambda>p. shown_ids (snd (show_discovery_list_page 5 1 (int p) searching))) [0..<total_pages ?us]) = map u_tg_id ?us"
    using result_pages_cover [of searching 1 seeker ?us 5 0 0] n(2) searching_view by (simp add: nonzero_def n)
  then have "shown_ids (snd (show_discovery_list_page 5 1 0 searching)) = map u_tg_id ?us" by (simp add: n)
  moreover have "u_tg_id ` {shown, idle} = {2, 3}" by (simp add: shown_def idle_def bob_def new_user_def)
  ultimately show ?thesis using searching_finds(1) by simp
qed

section \<open>Who may not\<close>

text \<open>Who has neither a coin nor quota nor VIP is refused an advanced search, and nothing is stored.\<close>

theorem poor_refused:
  assumes "get_user (edit_db s) tg = Some u" and "is_advanced_search (edit_fsm tg s) (ew_selected s tg)"
    and "\<not> nonzero (fsm_int ''advanced_search_paid'' (edit_fsm tg s))"
    and "\<not> u_is_vip u" and "u_vip_quota u < 1" and "u_coin_balance u < 1"
  shows "show_discovery_list_page now tg page s = (s, NoFunds)"
  using assms by (simp add: show_discovery_list_page_def consume_vip_quota_or_coin_def vip_flag_active_def)

text \<open>During a date four buttons refuse; two others end the dialogue and leave the date running.\<close>

theorem wizard_drops_date:
  assumes "date_running tg s"
  shows "wizard_step provinces now tg WBack s = (s, InDate)" and "wizard_step provinces now tg WSearch s = (s, InDate)"
    and "wizard_step provinces now tg WMenu s = (s, InDate)"
    and "date_running tg (fst (wizard_step provinces now tg WMain s)) \<and> fsm_state (edit_fsm tg (fst (wizard_step provinces now tg WMain s))) = None"
    and "date_running tg (fst (wizard_step provinces now tg WCancel s)) \<and> fsm_state (edit_fsm tg (fst (wizard_step provinces now tg WCancel s))) = None"
proof -
  have "fsm_state (edit_fsm tg (edit_clear tg s)) = None"
    by (simp add: edit_fsm_def edit_clear_def leave_def on_fsm_def clear_fsm_def)
  then show "wizard_step provinces now tg WBack s = (s, InDate)" "wizard_step provinces now tg WSearch s = (s, InDate)"
    "wizard_step provinces now tg WMenu s = (s, InDate)"
    "date_running tg (fst (wizard_step provinces now tg WMain s)) \<and> fsm_state (edit_fsm tg (fst (wizard_step provinces now tg WMain s))) = None"
    "date_running tg (fst (wizard_step provinces now tg WCancel s)) \<and> fsm_state (edit_fsm tg (fst (wizard_step provinces now tg WCancel s))) = None"
    using assms by (simp_all add: wizard_step_def cancel_wizard_def start_wizard_def open_discovery_menu_callback_def
        disc_main_menu_def cancel_discovery_wizard_def date_running_def)
qed

end
