(* ===== verification/Shop.thy ===== *)
theory Shop
  imports Payments Interactions QuestionBank
begin

text \<open>
  The shop: packages of coins (\<open>bot/handlers/payments.py\<close>), VIP plans and the VIP panel
  (\<open>bot/handlers/vip.py\<close>), and the proof of a forwarded banner (\<open>bot/handlers/coins_menu.py\<close>).  The
  dialogues create the orders that the gateway's callback and the administrators of theory Payments
  settle.  The plans are read from a file; what the gateway answers is \<open>post\<close>, whom a message reaches is
  \<open>reaches\<close>.  An order refers to its user.
\<close>

section \<open>States and answers\<close>

definition P_PACKAGE :: string where "P_PACKAGE = ''PaymentStates:choosing_package''"
definition P_METHOD :: string where "P_METHOD = ''PaymentStates:choosing_method''"
definition P_RECEIPT :: string where "P_RECEIPT = ''PaymentStates:waiting_for_receipt_photo''"
definition V_RECEIPT :: string where "V_RECEIPT = ''VIPStates:waiting_for_receipt''"
definition B_PROOF :: string where "B_PROOF = ''BannerProofStates:waiting_for_proof''"

lemmas shop_states = P_PACKAGE_def P_METHOD_def P_RECEIPT_def V_RECEIPT_def B_PROOF_def

datatype shop_reply = NoPackages | PackagesShown "int list" | ShopBroken | PackageGone | AskMethod | SessionExpired
  | AskReceipt | ReceiptSent int nat | PhotoPlease | GatewayOff | LinkReady int string | GatewayFailed int
  | ShopRaised | ShopLeft | BadPlan | VipReceiptSent int nat
  | NoCampaign | AlreadySent | BannerShown int | AskProof | ProofRefused forward_reply | ProofSent int nat

text \<open>Whom of the administrators a message reached.\<close>

definition reached :: "(int \<Rightarrow> bool) \<Rightarrow> int list \<Rightarrow> nat" where
  "reached reaches admins = length (filter reaches admins)"

definition shop_goto :: "string \<Rightarrow> int \<Rightarrow> dworld \<Rightarrow> dworld" where
  "shop_goto st tg = on_fsm tg (set_state (Some st))"

definition selected_package :: "int \<Rightarrow> dworld \<Rightarrow> coin_package option" where
  "selected_package tg w = get_package (fsm_int ''selected_package_id'' (dw_fsm w tg)) (dw_db w)"

section \<open>Packages\<close>

definition show_store :: "int \<Rightarrow> dworld \<Rightarrow> dworld \<times> shop_reply" where
  "show_store tg w =
     (let ps = get_active_coin_packages (dw_db w) in
      if ps = [] then (w, NoPackages) else (shop_goto P_PACKAGE tg w, PackagesShown (map cp_id ps)))"

text \<open>\<open>n\<close>: what follows \<open>buy_package_\<close>.\<close>

definition choose_payment_method :: "int \<Rightarrow> ustr \<Rightarrow> dworld \<Rightarrow> dworld \<times> shop_reply" where
  "choose_payment_method tg n w =
     (case py_int n of
        None \<Rightarrow> (w, ShopBroken)
      | Some pid \<Rightarrow>
          (case get_package (Some pid) (dw_db w) of
             None \<Rightarrow> (w, PackageGone)
           | Some c \<Rightarrow>
               if \<not> cp_is_active c then (w, PackageGone)
               else (shop_goto P_METHOD tg (on_fsm tg (update_data ''selected_package_id'' (FInt (cp_id c))) w), AskMethod)))"

definition process_card_payment :: "int \<Rightarrow> dworld \<Rightarrow> dworld \<times> shop_reply" where
  "process_card_payment tg w =
     (case selected_package tg w of
        None \<Rightarrow> (leave tg w, SessionExpired)
      | Some c \<Rightarrow> (shop_goto P_RECEIPT tg w, AskReceipt))"

definition receive_receipt_photo ::
  "(int \<Rightarrow> bool) \<Rightarrow> int list \<Rightarrow> int \<Rightarrow> int \<Rightarrow> string \<Rightarrow> dworld \<Rightarrow> dworld \<times> shop_reply" where
  "receive_receipt_photo reaches admins now tg photo w =
     (case selected_package tg w of
        None \<Rightarrow> (leave tg w, SessionExpired)
      | Some c \<Rightarrow>
          if get_user (dw_db w) tg = None \<or> length photo > 255 then (w, ShopRaised)
          else let (d, p) = create_purchase_order now tg (fsm_int ''selected_package_id'' (dw_fsm w tg)) ''card_to_card'' (Some photo) (dw_db w) in
            (leave tg (on_db (\<lambda>_. d) w), ReceiptSent (po_id p) (reached reaches admins)))"

text \<open>The order is committed before the gateway is asked; its answer is stored in a second transaction.\<close>

definition gateway_answer :: "int \<Rightarrow> string + string \<Rightarrow> dworld \<Rightarrow> dworld \<times> shop_reply" where
  "gateway_answer oid answer w =
     (case answer of
        Inl e \<Rightarrow> (on_db (settle oid Failed) w, GatewayFailed oid)
      | Inr a \<Rightarrow>
          if length a > 100 then (w, ShopRaised)
          else (on_db (set_order oid (\<lambda>p. p\<lparr>po_gateway_authority := Some a\<rparr>)) w, LinkReady oid a))"

definition price_snapshot :: "coin_package \<Rightarrow> payload_text" where
  "price_snapshot c = Json (empty_payload\<lparr>pl_price_toman_snapshot := Some (cp_price_toman c)\<rparr>)"

definition process_gateway_payment ::
  "bool \<Rightarrow> (int \<Rightarrow> gateway_reply) \<Rightarrow> int \<Rightarrow> int \<Rightarrow> dworld \<Rightarrow> dworld \<times> shop_reply" where
  "process_gateway_payment enabled post now tg w =
     (if \<not> enabled then (w, GatewayOff)
      else case selected_package tg w of
        None \<Rightarrow> (w, PackageGone)
      | Some c \<Rightarrow>
          if \<not> cp_is_active c then (w, PackageGone)
          else if get_user (dw_db w) tg = None then (w, ShopRaised)
          else let (d, p) = create_purchase_order now tg (Some (cp_id c)) ''gateway'' None (dw_db w);
                   w1 = on_db (\<lambda>_. set_order (po_id p) (\<lambda>p. p\<lparr>po_order_payload := Some (price_snapshot c)\<rparr>) d) w;
                   (w2, r) = gateway_answer (po_id p) (request_payment post (cp_price_toman c)) w1
            in (if r = ShopRaised then w2 else leave tg w2, r))"

definition cancel_payment_flow :: "int \<Rightarrow> dworld \<Rightarrow> dworld \<times> shop_reply" where
  "cancel_payment_flow tg w = (leave tg w, ShopLeft)"

section \<open>VIP plans\<close>

text \<open>\<open>code\<close>: the plan's code in the button.\<close>

definition vip_buy_plan :: "plans \<Rightarrow> int \<Rightarrow> string \<Rightarrow> dworld \<Rightarrow> dworld \<times> shop_reply" where
  "vip_buy_plan plans tg code w =
     (if map_of plans code = None then (w, BadPlan)
      else (on_fsm tg (update_data ''vip_plan_code'' (FStr code)) w, AskMethod))"

definition vip_pay_card :: "plans \<Rightarrow> int \<Rightarrow> string \<Rightarrow> dworld \<Rightarrow> dworld \<times> shop_reply" where
  "vip_pay_card plans tg code w =
     (if map_of plans code = None then (w, BadPlan)
      else (shop_goto V_RECEIPT tg (on_fsm tg (update_data ''vip_payment_method'' (FStr ''card''))
             (on_fsm tg (update_data ''vip_plan_code'' (FStr code)) w)), AskReceipt))"

definition plan_order :: "int \<Rightarrow> int \<Rightarrow> string \<Rightarrow> status \<Rightarrow> string \<Rightarrow> vip_plan \<Rightarrow> int \<Rightarrow> purchase_order" where
  "plan_order now tg payment_method st code plan i = \<lparr>po_id = i, po_user_tg_id = tg, po_package_id = None,
     po_payment_method = payment_method, po_order_type = ''vip_subscription'',
     po_order_payload = Some (Json (empty_payload\<lparr>pl_plan_code := Some code, pl_price_toman := Some (vp_price_toman plan)\<rparr>)),
     po_status = st, po_receipt_photo_file_id = None, po_gateway_authority = None, po_created_at = Aware now,
     po_resolved_at = None\<rparr>"

definition add_order :: "(int \<Rightarrow> purchase_order) \<Rightarrow> db \<Rightarrow> db" where
  "add_order row d = d\<lparr>orders := insert_row row (orders d)\<rparr>"

definition vip_pay_gateway ::
  "plans \<Rightarrow> bool \<Rightarrow> (int \<Rightarrow> gateway_reply) \<Rightarrow> int \<Rightarrow> int \<Rightarrow> string \<Rightarrow> dworld \<Rightarrow> dworld \<times> shop_reply" where
  "vip_pay_gateway plans enabled post now tg code w =
     (if \<not> enabled then (w, GatewayOff)
      else case map_of plans code of
        None \<Rightarrow> (w, BadPlan)
      | Some plan \<Rightarrow>
          if get_user (dw_db w) tg = None then (w, ShopRaised)
          else gateway_answer (next_id (orders (dw_db w))) (request_payment post (vp_price_toman plan))
                 (on_db (add_order (plan_order now tg ''gateway'' status.Pending code plan)) w))"

definition vip_receipt_uploaded ::
  "plans \<Rightarrow> (int \<Rightarrow> bool) \<Rightarrow> int list \<Rightarrow> int \<Rightarrow> int \<Rightarrow> dworld \<Rightarrow> dworld \<times> shop_reply" where
  "vip_receipt_uploaded plans reaches admins now tg w =
     (case fsm_str ''vip_plan_code'' (dw_fsm w tg) of
        None \<Rightarrow> (leave tg w, SessionExpired)
      | Some code \<Rightarrow>
          if code = [] then (leave tg w, SessionExpired)
          else (case map_of plans code of
             None \<Rightarrow> (leave tg w, BadPlan)
           | Some plan \<Rightarrow>
               if get_user (dw_db w) tg = None then (w, ShopRaised)
               else (leave tg (on_db (add_order (plan_order now tg ''card'' PendingReceipt code plan)) w),
                     VipReceiptSent (next_id (orders (dw_db w))) (reached reaches admins))))"

definition vip_buy_cancel_handler :: "int \<Rightarrow> dworld \<Rightarrow> dworld \<times> shop_reply" where
  "vip_buy_cancel_handler tg w = (leave tg w, ShopLeft)"

definition close_vip_panel_handler :: "int \<Rightarrow> dworld \<Rightarrow> dworld \<times> shop_reply" where
  "close_vip_panel_handler tg w = (leave tg w, ShopLeft)"

section \<open>A forwarded banner\<close>

definition coins_free_menu :: "int \<Rightarrow> dworld \<Rightarrow> dworld \<times> shop_reply" where
  "coins_free_menu tg w =
     (let w1 = leave tg w in
      case get_active_campaign (dw_db w) of
        None \<Rightarrow> (w1, NoCampaign)
      | Some c \<Rightarrow> if has_user_forwarded tg (bc_id c) (dw_db w) then (w1, AlreadySent) else (w1, BannerShown (bc_id c)))"

text \<open>\<open>n\<close>: the button's data without \<open>banner_fwd_\<close>.\<close>

definition ask_for_banner_proof :: "int \<Rightarrow> ustr \<Rightarrow> dworld \<Rightarrow> dworld \<times> shop_reply" where
  "ask_for_banner_proof tg n w =
     (case py_int n of
        None \<Rightarrow> (w, NoCampaign)
      | Some cid \<Rightarrow> (shop_goto B_PROOF tg (on_fsm tg (update_data ''campaign_id'' (FInt cid)) w), AskProof))"

text \<open>Any message is a proof; its number and its chat are recorded.\<close>

definition receive_banner_proof ::
  "(int \<Rightarrow> bool) \<Rightarrow> int list \<Rightarrow> int \<Rightarrow> int \<Rightarrow> int \<Rightarrow> dworld \<Rightarrow> dworld \<times> shop_reply" where
  "receive_banner_proof reaches admins now tg msg w =
     (if \<not> nonzero (fsm_int ''campaign_id'' (dw_fsm w tg)) then (leave tg w, SessionExpired)
      else case record_forward now tg (the (fsm_int ''campaign_id'' (dw_fsm w tg))) (Some msg) (Some tg) (dw_db w) of
        (d, ok, why, fid) \<Rightarrow>
          (leave tg (on_db (\<lambda>_. d) w),
           if \<not> ok then ProofRefused why else ProofSent (case fid of None \<Rightarrow> 0 | Some i \<Rightarrow> i) (reached reaches admins)))"

definition banner_close :: "int \<Rightarrow> dworld \<Rightarrow> dworld \<times> shop_reply" where
  "banner_close tg w = (leave tg w, ShopLeft)"

section \<open>The VIP panel\<close>

datatype vip_panel_reply = PanelInDate | NotVip | PanelShown bool | InvisibleNow bool | NoPartner | PartnerGone
  | SilentSelf | SilentPartner | PartnerInDate | PartnerBlocked | RematchSent int | RematchFailed | PanelRaised

definition vip_now :: "int \<Rightarrow> user option \<Rightarrow> bool" where
  "vip_now now u = (case u of None \<Rightarrow> False | Some v \<Rightarrow> vip_row_active now v)"

definition open_vip_panel :: "int \<Rightarrow> int \<Rightarrow> db \<Rightarrow> vip_panel_reply" where
  "open_vip_panel now tg d =
     (if get_active_match tg d \<noteq> None then PanelInDate
      else case get_user d tg of
        None \<Rightarrow> NotVip
      | Some u \<Rightarrow> if vip_row_active now u then PanelShown (u_invisible_mode u) else NotVip)"

definition toggle_invisible_mode :: "int \<Rightarrow> int \<Rightarrow> db \<Rightarrow> db \<times> vip_panel_reply" where
  "toggle_invisible_mode now tg d =
     (case get_user d tg of
        None \<Rightarrow> (d, NotVip)
      | Some u \<Rightarrow> if \<not> vip_row_active now u then (d, NotVip)
          else (upd_user tg (\<lambda>v. v\<lparr>u_invisible_mode := \<not> u_invisible_mode u\<rparr>) d, InvisibleNow (\<not> u_invisible_mode u)))"

definition silent_now :: "int \<Rightarrow> user \<Rightarrow> py_error + bool" where
  "silent_now now u = (case u_silent_until u of None \<Rightarrow> Inr False | Some t \<Rightarrow> dt_gt t (Naive now))"

text \<open>A pair that has blocked each other has two rows, which \<open>scalar_one_or_none\<close> refuses.\<close>

definition rematch_previous_partner :: "(int \<Rightarrow> bool) \<Rightarrow> int \<Rightarrow> int \<Rightarrow> dworld \<Rightarrow> dworld \<times> vip_panel_reply" where
  "rematch_previous_partner reaches now tg w =
     (case get_user (dw_db w) tg of
        None \<Rightarrow> (w, NotVip)
      | Some u \<Rightarrow>
          if \<not> vip_row_active now u then (w, NotVip)
          else if get_active_match tg (dw_db w) \<noteq> None then (w, PanelInDate)
          else (case live now (dw_last w) tg of
            None \<Rightarrow> (w, NoPartner)
          | Some pid \<Rightarrow>
              (case get_user (dw_db w) pid of
                 None \<Rightarrow> (w, PartnerGone)
               | Some v \<Rightarrow>
                   if u_is_banned v then (w, PartnerGone)
                   else (case (silent_now now u, silent_now now v) of
                     (Inl e, _) \<Rightarrow> (w, PanelRaised)
                   | (Inr True, _) \<Rightarrow> (w, SilentSelf)
                   | (Inr False, Inl e) \<Rightarrow> (w, PanelRaised)
                   | (Inr False, Inr True) \<Rightarrow> (w, SilentPartner)
                   | (Inr False, Inr False) \<Rightarrow>
                       if get_active_match pid (dw_db w) \<noteq> None then (w, PartnerInDate)
                       else let w1 = (if (case ms_state (dw_store w) pid of None \<Rightarrow> False | Some s \<Rightarrow> us_status s \<in> Some ` {Matched, Chatting})
                                      then drop_state pid w else w) in
                         (case block_rows tg pid (dw_db w) of
                            [] \<Rightarrow> (w1, if reaches pid then RematchSent pid else RematchFailed)
                          | [b] \<Rightarrow> (w1, PartnerBlocked)
                          | _ \<Rightarrow> (w1, PanelRaised))))))"

section \<open>The dialogue of the shop\<close>

datatype shop_press = OpenStore | ChoosePackage ustr | PayByCard | SendReceipt string | PayOnline | WriteText
  | CancelPayment | BuyPlan string | PlanByCard string | PlanOnline string | SendVipReceipt | CancelPlan

record shop_env =
  se_plans :: plans
  se_gateway :: bool
  se_reaches :: "int \<Rightarrow> bool"
  se_admins :: "int list"

type_synonym shop_event = "int \<times> int \<times> (int \<Rightarrow> gateway_reply) \<times> shop_press"

definition shop_move :: "shop_env \<Rightarrow> shop_event \<Rightarrow> dworld \<Rightarrow> dworld" where
  "shop_move env = (\<lambda>(now, tg, post, e) w.
     let inside = (\<lambda>st r. if fsm_state (dw_fsm w tg) = Some st then fst r else w) in
     case e of
       OpenStore \<Rightarrow> fst (show_store tg w)
     | ChoosePackage n \<Rightarrow> inside P_PACKAGE (choose_payment_method tg n w)
     | PayByCard \<Rightarrow> inside P_METHOD (process_card_payment tg w)
     | SendReceipt f \<Rightarrow> inside P_RECEIPT (receive_receipt_photo (se_reaches env) (se_admins env) now tg f w)
     | PayOnline \<Rightarrow> inside P_METHOD (process_gateway_payment (se_gateway env) post now tg w)
     | WriteText \<Rightarrow> w
     | CancelPayment \<Rightarrow> fst (cancel_payment_flow tg w)
     | BuyPlan code \<Rightarrow> fst (vip_buy_plan (se_plans env) tg code w)
     | PlanByCard code \<Rightarrow> fst (vip_pay_card (se_plans env) tg code w)
     | PlanOnline code \<Rightarrow> fst (vip_pay_gateway (se_plans env) (se_gateway env) post now tg code w)
     | SendVipReceipt \<Rightarrow> inside V_RECEIPT (vip_receipt_uploaded (se_plans env) (se_reaches env) (se_admins env) now tg w)
     | CancelPlan \<Rightarrow> fst (vip_buy_cancel_handler tg w))"

section \<open>Orders come in and stay\<close>

definition orders_fresh :: "db \<Rightarrow> bool" where
  "orders_fresh d \<longleftrightarrow> (\<forall>p\<in>set (rows (orders d)). po_id p < next_id (orders d))"

definition store_order :: "purchase_order \<Rightarrow> db \<Rightarrow> db" where
  "store_order p = add_order (\<lambda>i. p\<lparr>po_id := i\<rparr>)"

text \<open>An order of the shop: its buyer exists; coins are bought as an existing package, by card with a receipt or online
  at the package's price; a plan is bought at the plan's price.\<close>

definition order_sound :: "plans \<Rightarrow> user tbl \<Rightarrow> coin_package tbl \<Rightarrow> purchase_order \<Rightarrow> bool" where
  "order_sound plans us pk p \<longleftrightarrow> by_key u_tg_id (po_user_tg_id p) us \<noteq> None \<and> po_resolved_at p = None \<and>
     (po_order_type p = ''coins'' \<and> (\<exists>c. by_key cp_id (cp_id c) pk = Some c \<and> po_package_id p = Some (cp_id c) \<and>
        (po_payment_method p = ''card_to_card'' \<and> po_status p = status.Pending \<and> po_receipt_photo_file_id p \<noteq> None \<and> po_order_payload p = None \<or>
         po_payment_method p = ''gateway'' \<and> po_status p \<in> {status.Pending, Failed} \<and> po_order_payload p = Some (price_snapshot c))) \<or>
      po_order_type p = ''vip_subscription'' \<and> po_status p \<in> {status.Pending, Failed, PendingReceipt} \<and> (\<exists>code plan. map_of plans code = Some plan \<and>
        pl_plan_code (order_payload_of p) = Some code \<and> pl_price_toman (order_payload_of p) = Some (vp_price_toman plan)))"

definition shop_ok :: "user tbl \<Rightarrow> coin_package tbl \<Rightarrow> dworld \<Rightarrow> bool" where
  "shop_ok us pk w \<longleftrightarrow> users (dw_db w) = us \<and> packages (dw_db w) = pk \<and> orders_fresh (dw_db w)"

lemma shop_frames [simp]:
  "dw_db (shop_goto st tg w) = dw_db w" "dw_db (leave tg w) = dw_db w" "dw_db (on_fsm tg f w) = dw_db w"
  "dw_db (on_db g w) = g (dw_db w)"
  by (simp_all add: shop_goto_def leave_def on_fsm_def on_db_def)

lemma add_order_frames [simp]:
  "users (add_order r d) = users d" "packages (add_order r d) = packages d" "coin_txs (add_order r d) = coin_txs d"
  by (simp_all add: add_order_def)

lemma fresh_add: "orders_fresh d \<Longrightarrow> orders_fresh (add_order (\<lambda>i. p\<lparr>po_id := i\<rparr>) d)"
  by (auto simp: orders_fresh_def add_order_def insert_row_def)

text \<open>A change of the order just added is a change of what is added.\<close>

lemma set_added:
  assumes "orders_fresh d" and "\<And>i. po_id (r i) = i" and "oid = next_id (orders d)"
  shows "set_order oid f (add_order r d) = add_order (\<lambda>i. f (r i)) d"
proof -
  have "upd_list (\<lambda>p. po_id p = oid) f (rows (orders d)) = rows (orders d)"
    using assms(1,3) by (auto simp: orders_fresh_def upd_list_def intro!: map_idI)
  then show ?thesis
    using assms(2,3) by (simp add: set_order_def add_order_def insert_row_def upd_where_def upd_list_def)
qed

lemma created_order:
  "create_purchase_order now tg pid how receipt d =
    (add_order (\<lambda>i. \<lparr>po_id = i, po_user_tg_id = tg, po_package_id = pid, po_payment_method = how, po_order_type = ''coins'',
       po_order_payload = None, po_status = status.Pending, po_receipt_photo_file_id = receipt, po_gateway_authority = None,
       po_created_at = Aware now, po_resolved_at = None\<rparr>) d,
     \<lparr>po_id = next_id (orders d), po_user_tg_id = tg, po_package_id = pid, po_payment_method = how, po_order_type = ''coins'',
       po_order_payload = None, po_status = status.Pending, po_receipt_photo_file_id = receipt, po_gateway_authority = None,
       po_created_at = Aware now, po_resolved_at = None\<rparr>)"
  by (simp add: create_purchase_order_def add_order_def)

text \<open>What one press adds: nothing or one sound order.\<close>

definition adds :: "plans \<Rightarrow> user tbl \<Rightarrow> coin_package tbl \<Rightarrow> dworld \<Rightarrow> dworld \<Rightarrow> bool" where
  "adds plans us pk w w' \<longleftrightarrow> dw_db w' = dw_db w \<or> (\<exists>p. order_sound plans us pk p \<and> dw_db w' = store_order p (dw_db w))"

named_theorems adds

lemma adds_same [adds]: "dw_db w' = dw_db w \<Longrightarrow> adds plans us pk w w'"
  by (simp add: adds_def)

lemma adds_order:
  assumes "dw_db w' = add_order r (dw_db w)" and "\<And>i. r i = p\<lparr>po_id := i\<rparr>" and "order_sound plans us pk p"
  shows "adds plans us pk w w'"
proof -
  have "add_order r (dw_db w) = store_order p (dw_db w)" unfolding store_order_def using assms(2) by (metis ext)
  then show ?thesis using assms(1,3) by (auto simp: adds_def)
qed

lemma answered_adds:
  assumes "shop_ok us pk w" and "\<And>i. r i = p\<lparr>po_id := i\<rparr>"
    and "order_sound plans us pk p" and "order_sound plans us pk (p\<lparr>po_status := Failed\<rparr>)"
    and "\<And>a. order_sound plans us pk (p\<lparr>po_gateway_authority := Some a\<rparr>)"
    and "dw_db w1 = add_order r (dw_db w)"
  shows "adds plans us pk w (fst (gateway_answer (next_id (orders (dw_db w))) answer w1))"
proof -
  have o: "orders_fresh (dw_db w)" using assms(1) by (simp add: shop_ok_def)
  have i: "po_id (r i) = i" for i by (simp add: assms(2))
  note sa = set_added [OF o i refl]
  show ?thesis
  proof (cases answer)
    case (Inl e)
    have "dw_db (fst (gateway_answer (next_id (orders (dw_db w))) answer w1)) = add_order (\<lambda>i. (r i)\<lparr>po_status := Failed\<rparr>) (dw_db w)"
      by (simp add: gateway_answer_def Inl assms(6) settle_def sa)
    then show ?thesis by (rule adds_order [OF _ _ assms(4)]) (simp add: assms(2))
  next
    case (Inr a)
    show ?thesis
    proof (cases "length a > 100")
      case True
      then show ?thesis by (simp add: gateway_answer_def Inr adds_order [OF assms(6,2,3)])
    next
      case False
      then have "dw_db (fst (gateway_answer (next_id (orders (dw_db w))) answer w1)) = add_order (\<lambda>i. (r i)\<lparr>po_gateway_authority := Some a\<rparr>) (dw_db w)"
        by (simp add: gateway_answer_def Inr assms(6) sa)
      then show ?thesis by (rule adds_order [OF _ _ assms(5) [of a]]) (simp add: assms(2))
    qed
  qed
qed

lemma selected_known:
  assumes "selected_package tg w = Some c" and "shop_ok us pk w"
  shows "by_key cp_id (cp_id c) pk = Some c" and "fsm_int ''selected_package_id'' (dw_fsm w tg) = Some (cp_id c)"
  using assms by (auto simp: selected_package_def get_package_def shop_ok_def dest: by_key_SomeD split: option.splits)

lemma user_known: "shop_ok us pk w \<Longrightarrow> get_user (dw_db w) tg = by_key u_tg_id tg us"
  by (simp add: shop_ok_def get_user_def)

lemma adds_receipt:
  assumes ok: "shop_ok us pk w"
  shows "adds plans us pk w (fst (receive_receipt_photo reaches admins now tg photo w))"
proof (cases "selected_package tg w")
  case (Some c)
  note k = selected_known [OF Some ok]
  show ?thesis
  proof (cases "get_user (dw_db w) tg = None \<or> length photo > 255")
    case False
    let ?p = "\<lparr>po_id = 0, po_user_tg_id = tg, po_package_id = Some (cp_id c), po_payment_method = ''card_to_card'', po_order_type = ''coins'',
       po_order_payload = None, po_status = status.Pending, po_receipt_photo_file_id = Some photo, po_gateway_authority = None,
       po_created_at = Aware now, po_resolved_at = None\<rparr>"
    have "dw_db (fst (receive_receipt_photo reaches admins now tg photo w)) = add_order (\<lambda>i. ?p\<lparr>po_id := i\<rparr>) (dw_db w)"
      using False by (auto simp: receive_receipt_photo_def Some k(2) created_order)
    moreover have "order_sound plans us pk ?p" using False k(1) user_known [OF ok] by (auto simp: order_sound_def)
    ultimately show ?thesis by (rule adds_order [OF _ refl])
  qed (auto simp: receive_receipt_photo_def Some intro!: adds)
qed (simp add: receive_receipt_photo_def adds)

lemma adds_gateway:
  assumes ok: "shop_ok us pk w"
  shows "adds plans us pk w (fst (process_gateway_payment enabled post now tg w))"
proof (cases "selected_package tg w")
  case (Some c)
  note k = selected_known [OF Some ok]
  show ?thesis
  proof (cases "enabled \<and> cp_is_active c \<and> get_user (dw_db w) tg \<noteq> None")
    case True
    let ?p = "\<lparr>po_id = 0, po_user_tg_id = tg, po_package_id = Some (cp_id c), po_payment_method = ''gateway'', po_order_type = ''coins'',
       po_order_payload = Some (price_snapshot c), po_status = status.Pending, po_receipt_photo_file_id = None, po_gateway_authority = None,
       po_created_at = Aware now, po_resolved_at = None\<rparr>"
    define w1 where "w1 = on_db (\<lambda>_. set_order (next_id (orders (dw_db w))) (\<lambda>p. p\<lparr>po_order_payload := Some (price_snapshot c)\<rparr>)
       (fst (create_purchase_order now tg (Some (cp_id c)) ''gateway'' None (dw_db w)))) w"
    have o: "orders_fresh (dw_db w)" using ok by (simp add: shop_ok_def)
    have w1: "dw_db w1 = add_order (\<lambda>i. ?p\<lparr>po_id := i\<rparr>) (dw_db w)" by (simp add: w1_def created_order set_added [OF o])
    have s: "order_sound plans us pk ?p" "order_sound plans us pk (?p\<lparr>po_status := Failed\<rparr>)"
      "order_sound plans us pk (?p\<lparr>po_gateway_authority := Some a\<rparr>)" for a
      using True k(1) user_known [OF ok] by (auto simp: order_sound_def)
    have "adds plans us pk w (fst (gateway_answer (next_id (orders (dw_db w))) (request_payment post (cp_price_toman c)) w1))"
      by (rule answered_adds [OF ok _ s w1]) simp
    moreover have "dw_db (fst (process_gateway_payment enabled post now tg w)) =
        dw_db (fst (gateway_answer (next_id (orders (dw_db w))) (request_payment post (cp_price_toman c)) w1))"
      using True by (auto simp: process_gateway_payment_def Some created_order w1_def Let_def split: prod.split)
    ultimately show ?thesis by (simp add: adds_def)
  qed (auto simp: process_gateway_payment_def Some intro!: adds)
qed (simp add: process_gateway_payment_def adds)

lemma adds_vip:
  assumes ok: "shop_ok us pk w"
  shows "adds plans us pk w (fst (vip_pay_gateway plans enabled post now tg code w))"
    and "adds plans us pk w (fst (vip_receipt_uploaded plans reaches admins now tg w))"
proof -
  have v: "plan_order now tg how st code plan i = (plan_order now tg how st code plan 0)\<lparr>po_id := i\<rparr>" for how st code plan i
    by (simp add: plan_order_def)
  have s: "order_sound plans us pk (plan_order now tg how st code plan 0)"
    "order_sound plans us pk ((plan_order now tg how st code plan 0)\<lparr>po_status := Failed\<rparr>)"
    "order_sound plans us pk ((plan_order now tg how st code plan 0)\<lparr>po_gateway_authority := Some a\<rparr>)"
    if "map_of plans code = Some plan" "get_user (dw_db w) tg \<noteq> None" "st \<in> {status.Pending, Failed, PendingReceipt}" for how st code plan a
    using that user_known [OF ok] by (auto simp: order_sound_def plan_order_def order_payload_of_def)
  show "adds plans us pk w (fst (vip_pay_gateway plans enabled post now tg code w))"
  proof (cases "enabled \<and> map_of plans code \<noteq> None \<and> get_user (dw_db w) tg \<noteq> None")
    case True
    then obtain plan where p: "map_of plans code = Some plan" by auto
    note sp = s [where st = "status.Pending" and how = "''gateway''", OF p]
    have "adds plans us pk w (fst (gateway_answer (next_id (orders (dw_db w))) (request_payment post (vp_price_toman plan))
        (on_db (add_order (plan_order now tg ''gateway'' status.Pending code plan)) w)))"
      by (rule answered_adds [OF ok v sp]) (use True in simp_all)
    then show ?thesis using True p by (auto simp: vip_pay_gateway_def)
  qed (auto simp: vip_pay_gateway_def intro!: adds split: option.split)
  show "adds plans us pk w (fst (vip_receipt_uploaded plans reaches admins now tg w))"
  proof (cases "\<exists>code plan. fsm_str ''vip_plan_code'' (dw_fsm w tg) = Some code \<and> code \<noteq> [] \<and> map_of plans code = Some plan \<and> get_user (dw_db w) tg \<noteq> None")
    case True
    then obtain code plan where p: "fsm_str ''vip_plan_code'' (dw_fsm w tg) = Some code" "code \<noteq> []" "map_of plans code = Some plan"
      "get_user (dw_db w) tg \<noteq> None" by blast
    show ?thesis
      by (rule adds_order [OF _ v s(1) [where st = PendingReceipt and how = "''card''", OF p(3,4)]]) (use p in \<open>auto simp: vip_receipt_uploaded_def\<close>)
  qed (auto simp: vip_receipt_uploaded_def intro!: adds split: option.split)
qed

lemma shop_move_adds:
  assumes "shop_ok us pk w"
  shows "adds (se_plans env) us pk w (shop_move env e w)"
proof -
  obtain now tg post k where e: "e = (now, tg, post, k)" by (cases e)
  show ?thesis
    using adds_receipt [OF assms] adds_gateway [OF assms] adds_vip [OF assms]
    by (cases k) (auto simp: e shop_move_def show_store_def choose_payment_method_def process_card_payment_def cancel_payment_flow_def
        vip_buy_plan_def vip_pay_card_def vip_buy_cancel_handler_def Let_def intro!: adds split: option.split)
qed

lemma shop_ok_adds: "shop_ok us pk w \<Longrightarrow> adds plans us pk w w' \<Longrightarrow> shop_ok us pk w'"
  by (auto simp: adds_def shop_ok_def store_order_def fresh_add)

interpretation buying: growing "shop_move env" dw_db store_order "shop_ok us pk" "order_sound (se_plans env) us pk" for env us pk
proof
  fix w e
  assume ok: "shop_ok us pk w"
  note a = shop_move_adds [OF ok, of env e]
  show "shop_ok us pk (shop_move env e w)" by (rule shop_ok_adds [OF ok a])
  from a show "\<exists>ps. list_all (order_sound (se_plans env) us pk) ps \<and> dw_db (shop_move env e w) = fold store_order ps (dw_db w)"
    unfolding adds_def
  proof
    assume "dw_db (shop_move env e w) = dw_db w"
    then show ?thesis by (intro exI [of _ "[]"]) simp
  next
    assume "\<exists>p. order_sound (se_plans env) us pk p \<and> dw_db (shop_move env e w) = store_order p (dw_db w)"
    then obtain p where "order_sound (se_plans env) us pk p" "dw_db (shop_move env e w) = store_order p (dw_db w)" by blast
    then show ?thesis by (intro exI [of _ "[p]"]) simp
  qed
qed

section \<open>Properties\<close>

definition shop_run :: "shop_env \<Rightarrow> shop_event list \<Rightarrow> dworld \<Rightarrow> dworld" where
  "shop_run env es w = fold (shop_move env) es w"

lemma store_orders:
  "dw = fold store_order ps d \<Longrightarrow> orders_fresh d \<Longrightarrow> rows (orders d) = take (length (rows (orders d))) (rows (orders dw)) \<and>
     length (rows (orders dw)) = length (rows (orders d)) + length ps \<and> users dw = users d \<and> coin_txs dw = coin_txs d"
proof (induction ps arbitrary: d)
  case (Cons p ps)
  have f: "orders_fresh (store_order p d)" using Cons.prems(2) by (simp add: store_order_def fresh_add)
  have r: "rows (orders (store_order p d)) = rows (orders d) @ [p\<lparr>po_id := next_id (orders d)\<rparr>]"
    by (simp add: store_order_def add_order_def insert_row_def)
  note ih = Cons.IH [OF _ f]
  have "dw = fold store_order ps (store_order p d)" using Cons.prems(1) by simp
  note ih = ih [OF this]
  have "rows (orders d) = take (length (rows (orders d))) (rows (orders (store_order p d)))" by (simp add: r)
  also have "\<dots> = take (length (rows (orders d))) (rows (orders dw))" using ih r by (metis append_eq_conv_conj append_take_drop_id length_append take_append take_take min.absorb1 le_add1)
  finally show ?case using ih by (simp add: r) (simp add: store_order_def)
qed simp

text \<open>C8: however users press through the shop, no balance moves and no order that exists changes; every order that comes in has
  a buyer who exists and is for a package at its price, for a package with a receipt, or for a plan at the plan's price.\<close>

theorem shop_only_orders:
  assumes "orders_fresh (dw_db w)"
  shows "\<exists>ps. list_all (order_sound (se_plans env) (users (dw_db w)) (packages (dw_db w))) ps \<and>
    dw_db (shop_run env es w) = fold store_order ps (dw_db w) \<and>
    (\<forall>k. coin_balance (dw_db (shop_run env es w)) k = coin_balance (dw_db w) k) \<and>
    take (length (rows (orders (dw_db w)))) (rows (orders (dw_db (shop_run env es w)))) = rows (orders (dw_db w))"
proof -
  have "shop_ok (users (dw_db w)) (packages (dw_db w)) w" using assms by (simp add: shop_ok_def)
  from buying.run_adds [OF this, of env es]
  obtain ps where ps: "list_all (order_sound (se_plans env) (users (dw_db w)) (packages (dw_db w))) ps"
    "dw_db (shop_run env es w) = fold store_order ps (dw_db w)" unfolding shop_run_def by blast
  note o = store_orders [OF ps(2) assms]
  have "coin_balance (dw_db (shop_run env es w)) k = coin_balance (dw_db w) k" for k using o coin_balance_cong by blast
  with ps o show ?thesis by (intro exI [of _ ps]) simp
qed

lemma get_added:
  assumes "orders_fresh d" and "\<And>i. po_id (r i) = i"
  shows "get_purchase_order (next_id (orders d)) (add_order r d) = Some (r (next_id (orders d)))"
proof -
  have "find_key po_id (next_id (orders d)) (rows (orders d)) = None"
    using assms(1) by (auto simp: find_key_None_iff orders_fresh_def)
  then show ?thesis using assms(2) by (simp add: get_purchase_order_def by_key_def add_order_def insert_row_def find_key_append)
qed

text \<open>C3: the price a user is shown is the price the gateway is asked to confirm, even when an administrator changes the
  package's price in between: the goods are delivered on the gateway's word about the old price.\<close>

theorem gateway_price_frozen:
  assumes "orders_fresh (dw_db w)" and "selected_package tg w = Some c" and "cp_is_active c" and "0 < cp_price_toman c"
    and "get_user (dw_db w) tg = Some u" and "authority_ok a"
    and "post (cp_price_toman c * 10) = Reply (Some 100) (Some a) ref err"
    and "verify (cp_price_toman c * 10) a = Reply (Some 100) x (Some y) z"
    and "d' = fst (update_coin_package_price (cp_id c) new_price (dw_db (fst (process_gateway_payment True post now tg w))))"
    and "oid = next_id (orders (dw_db w))"
  shows "snd (process_gateway_payment True post now tg w) = LinkReady oid a \<and>
    snd (callback_deliver st later verify oid a ''OK'' d') = Inr \<lparr>dl_order = oid, dl_user = tg, dl_ref = y\<rparr> \<and>
    (\<exists>p. po_id p = oid \<and> fst (callback_deliver st later verify oid a ''OK'' d') =
      deliver_coins later (st_round st) (st_event st) (st_commission_pct st) p u (c\<lparr>cp_price_toman := new_price\<rparr>) d')"
proof -
  let ?p = "\<lparr>po_id = oid, po_user_tg_id = tg, po_package_id = Some (cp_id c), po_payment_method = ''gateway'', po_order_type = ''coins'',
       po_order_payload = Some (price_snapshot c), po_status = status.Pending, po_receipt_photo_file_id = None, po_gateway_authority = Some a,
       po_created_at = Aware now, po_resolved_at = None\<rparr>"
  let ?r = "\<lambda>i. ?p\<lparr>po_id := i\<rparr>"
  have pkg: "get_package (Some (cp_id c)) (dw_db w) = Some c"
    using assms(2) by (auto simp: selected_package_def get_package_def dest: by_key_SomeD split: option.splits)
  have al: "length a \<le> 100" "a \<noteq> []" using assms(6) by (auto simp: authority_ok_def)
  have rp: "request_payment post (cp_price_toman c) = Inr a"
    using assms(7) al(2) by (simp add: request_payment_def truthy_def)
  note sa = set_added [OF assms(1) _ refl]
  have run: "snd (process_gateway_payment True post now tg w) = LinkReady oid a"
    "dw_db (fst (process_gateway_payment True post now tg w)) = add_order ?r (dw_db w)"
    using al by (simp_all add: process_gateway_payment_def assms(2,3,5) created_order rp gateway_answer_def sa assms(10))
  have d': "users d' = users (dw_db w)" "orders d' = orders (add_order ?r (dw_db w))"
    "get_package (Some (cp_id c)) d' = Some (c\<lparr>cp_price_toman := new_price\<rparr>)"
    using pkg by (auto simp: assms(9) run(2) update_coin_package_price_def get_package_def by_key_upd split: option.split)
  have o: "get_purchase_order oid d' = Some ?p"
    using get_added [OF assms(1), of ?r] d'(2) by (simp add: get_purchase_order_def assms(10))
  have v: "verify_amount_of ?p d' = Inr (cp_price_toman c)"
    using assms(4) by (simp add: verify_amount_of_def order_type_of_def d'(3) order_payload_of_def price_snapshot_def falsy_amount_def)
  have vp: "verify_payment verify (cp_price_toman c) a = Verified y 100"
    using assms(4,6,8) by (simp add: verify_payment_def)
  have u: "get_user d' tg = Some u" using assms(5) d'(1) by (simp add: get_user_def)
  have "u_tg_id u = tg" by (rule get_user_tg [OF assms(5)])
  then have "callback_deliver st later verify oid a ''OK'' d' =
      (deliver_coins later (st_round st) (st_event st) (st_commission_pct st) ?p u (c\<lparr>cp_price_toman := new_price\<rparr>) d',
       Inr \<lparr>dl_order = oid, dl_user = tg, dl_ref = y\<rparr>)"
    using al(2) by (simp add: callback_deliver_def o v vp u deliver_goods_def order_type_of_def d'(3))
  then show ?thesis using run(1) by (intro conjI exI [of _ ?p]) simp_all
qed


section \<open>Concrete instances\<close>

definition ten_coins :: coin_package where
  "ten_coins = \<lparr>cp_id = 1, cp_coin_amount = 10, cp_price_toman = 5000, cp_is_active = True, cp_created_at = Aware 0\<rparr>"

definition shop_world :: dworld where
  "shop_world = (bk_world empty_bank)\<lparr>dw_db := demo_db\<lparr>packages := \<lparr>rows = [ten_coins], next_id = 2\<rparr>\<rparr>,
     dw_fsm := (\<lambda>_. \<lparr>fsm_state = Some P_METHOD, fsm_data = [''selected_package_id'' \<mapsto> FInt 1]\<rparr>)\<rparr>"

definition demo_authority :: string where
  "demo_authority = replicate 36 (CHR ''A'')"

lemma shop_world_view:
  "orders_fresh (dw_db shop_world)" "selected_package 1 shop_world = Some ten_coins" "get_user (dw_db shop_world) 1 = Some alice"
  "orders (dw_db shop_world) = empty_tbl" "authority_ok demo_authority" "cp_is_active ten_coins" "cp_price_toman ten_coins = 5000"
  by (simp_all add: orders_fresh_def shop_world_def demo_db_def empty_db_def empty_tbl_def selected_package_def get_package_def by_key_def
      ten_coins_def fsm_int_def get_user_def authority_ok_def demo_authority_def)

theorem shop_only_orders_witness:
  "coin_balance (dw_db (shop_run \<lparr>se_plans = default_plans, se_gateway = True, se_reaches = (\<lambda>_. True), se_admins = [9]\<rparr>
      [(0, 1, \<lambda>_. NetworkError, PayOnline), (0, 1, \<lambda>_. NetworkError, PlanOnline ''1w'')] shop_world)) 1 = coin_balance (dw_db shop_world) 1"
  using shop_only_orders [OF shop_world_view(1), of "\<lparr>se_plans = default_plans, se_gateway = True, se_reaches = (\<lambda>_. True), se_admins = [9]\<rparr>"
      "[(0, 1, \<lambda>_. NetworkError, PayOnline), (0, 1, \<lambda>_. NetworkError, PlanOnline ''1w'')]"] by blast

theorem gateway_price_frozen_witness:
  "snd (callback_deliver \<lparr>st_round = id, st_event = None, st_commission_pct = 0, st_plans = default_plans\<rparr> 7
      (\<lambda>n a. if n = 50000 then Reply (Some 100) None (Some ''5'') [] else Reply (Some (- 50)) None None [])
      1 demo_authority ''OK'' (fst (update_coin_package_price 1 9000 (dw_db (fst (process_gateway_payment True
        (\<lambda>n. Reply (Some 100) (Some demo_authority) None []) 0 1 shop_world)))))) =
    Inr \<lparr>dl_order = 1, dl_user = 1, dl_ref = ''5''\<rparr>"
proof -
  have i: "cp_id ten_coins = 1" "next_id (orders (dw_db shop_world)) = 1" by (simp_all add: ten_coins_def shop_world_view(4) empty_tbl_def)
  show ?thesis
    using gateway_price_frozen [OF shop_world_view(1,2,6) _ shop_world_view(3,5), of "\<lambda>n. Reply (Some 100) (Some demo_authority) None []" None "[]"
        "\<lambda>n a. if n = 50000 then Reply (Some 100) None (Some ''5'') [] else Reply (Some (- 50)) None None []" None "''5''" "[]" _ 9000 0 1
        "\<lparr>st_round = id, st_event = None, st_commission_pct = 0, st_plans = default_plans\<rparr>" 7] shop_world_view(7) i by simp
qed


end
