(* ===== verification/Ingress.thy ===== *)
theory Ingress
  imports Dates
begin

text \<open>
  How an update of Telegram reaches the handlers (\<open>api/routes/webhook.py\<close>) and which bot serves a user
  (\<open>bot/core/bot_shard_manager.py\<close>).  A bot is its id.  The dispatcher with every handler behind it is
  the parameter \<open>feed\<close>: what it does to the rest of the world, and whether it raises.  Redis works; times
  are microseconds.  Metrics are left out.
\<close>

section \<open>The shards\<close>

text \<open>\<open>bots\<close>: one for each token, none without sharding; \<open>legacy\<close>: the bot of \<open>BOT_TOKEN\<close>.\<close>

record fleet =
  fl_bots :: "int list"
  fl_legacy :: int

definition num_bot_shards :: "fleet \<Rightarrow> nat" where
  "num_bot_shards f = (if fl_bots f = [] then 1 else length (fl_bots f))"

definition get_shard_index_for_user :: "fleet \<Rightarrow> int \<Rightarrow> int" where
  "get_shard_index_for_user f tg = (let n = int (num_bot_shards f) in if n \<le> 1 then 0 else tg mod n)"

text \<open>\<open>xs[i]\<close> of a Python list: a negative index counts from the end.\<close>

definition py_index :: "'a list \<Rightarrow> int \<Rightarrow> 'a option" where
  "py_index xs i = (let j = (if i < 0 then i + int (length xs) else i) in
     if 0 \<le> j \<and> j < int (length xs) then Some (xs ! nat j) else None)"

text \<open>A missing index is computed and stored; of an unknown user nothing is stored.  \<open>None\<close>: \<open>IndexError\<close>.\<close>

definition get_bot_for_user :: "fleet \<Rightarrow> int \<Rightarrow> db \<Rightarrow> db \<times> int option" where
  "get_bot_for_user f tg d =
     (if fl_bots f = [] then (d, Some (fl_legacy f))
      else let stored = (case get_user d tg of None \<Rightarrow> None | Some u \<Rightarrow> u_shard_index u);
               i = (case stored of None \<Rightarrow> get_shard_index_for_user f tg | Some j \<Rightarrow> j);
               d1 = (if stored = None then upd_user tg (\<lambda>u. u\<lparr>u_shard_index := Some i\<rparr>) d else d);
               n = int (length (fl_bots f))
           in (d1, py_index (fl_bots f) (if i \<ge> n then i mod n else i)))"

definition get_bot_by_shard_index :: "fleet \<Rightarrow> int \<Rightarrow> int option" where
  "get_bot_by_shard_index f i =
     (if fl_bots f = [] then Some (fl_legacy f)
      else if 0 \<le> i \<and> i < int (length (fl_bots f)) then Some (fl_bots f ! nat i) else None)"

section \<open>The gate\<close>

definition WEBHOOK_BRUTE_THRESHOLD :: nat where "WEBHOOK_BRUTE_THRESHOLD = 10"
definition WEBHOOK_BRUTE_WINDOW :: int where "WEBHOOK_BRUTE_WINDOW = 60 * second_us"
definition WEBHOOK_BLOCK_TTL :: int where "WEBHOOK_BLOCK_TTL = 1800 * second_us"
definition WEBHOOK_DEDUP_TTL :: int where "WEBHOOK_DEDUP_TTL = 86400 * second_us"

lemmas webhook_limits = WEBHOOK_BRUTE_THRESHOLD_def WEBHOOK_BRUTE_WINDOW_def WEBHOOK_BLOCK_TTL_def WEBHOOK_DEDUP_TTL_def
  second_us_def

text \<open>\<open>gt_seen\<close>: the updates of a bot whose mark is alive.\<close>

record ingress =
  gt_blocked :: "string \<rightharpoonup> unit \<times> int"
  gt_fails :: "string \<rightharpoonup> nat \<times> int"
  gt_seen :: "int \<times> int \<rightharpoonup> unit \<times> int"

definition check_webhook_brute_force :: "int \<Rightarrow> string \<Rightarrow> ingress \<Rightarrow> bool" where
  "check_webhook_brute_force now ip g \<longleftrightarrow> live now (gt_blocked g) ip \<noteq> None"

text \<open>The window starts with the first failure and is not moved by later ones.\<close>

definition record_webhook_auth_failure :: "int \<Rightarrow> string \<Rightarrow> ingress \<Rightarrow> ingress" where
  "record_webhook_auth_failure now ip g =
     (let (n, e) = (case live now (gt_fails g) ip of
            None \<Rightarrow> (1, now + WEBHOOK_BRUTE_WINDOW) | Some k \<Rightarrow> (Suc k, snd (the (gt_fails g ip))));
          g1 = g\<lparr>gt_fails := (gt_fails g)(ip \<mapsto> (n, e))\<rparr>
      in if n > WEBHOOK_BRUTE_THRESHOLD then g1\<lparr>gt_blocked := (gt_blocked g1)(ip \<mapsto> ((), now + WEBHOOK_BLOCK_TTL))\<rparr> else g1)"

text \<open>The body of a request: no update, or one with its number.  What the handlers raise.\<close>

datatype update_body = NotAnUpdate | Update int

datatype handled = HandlerDone | HandlerValue | HandlerOther

datatype hook_reply = TooMany | BadShard | NoSecretSet | ForbiddenToken | TokenRaised | Fed | Duplicate | Malformed | InternalError

record hook_request =
  rq_at :: int
  rq_ip :: string
  rq_shard :: int
  rq_token :: "string option"
  rq_body :: update_body

text \<open>\<open>compare_digest\<close> accepts only ASCII strings; its error leaves the endpoint.\<close>

definition ascii :: "string \<Rightarrow> bool" where
  "ascii s \<longleftrightarrow> list_all (\<lambda>c. of_char c < (128 :: nat)) s"

definition feed_update ::
  "(int \<Rightarrow> int \<Rightarrow> 'w \<Rightarrow> 'w \<times> handled) \<Rightarrow> int \<Rightarrow> int \<Rightarrow> update_body \<Rightarrow> ingress \<times> 'w \<Rightarrow> (ingress \<times> 'w) \<times> hook_reply" where
  "feed_update feed now wb body = (\<lambda>(g, w). case body of
     NotAnUpdate \<Rightarrow> ((g, w), Malformed)
   | Update i \<Rightarrow>
       if live now (gt_seen g) (wb, i) \<noteq> None then ((g, w), Duplicate)
       else let g1 = g\<lparr>gt_seen := (gt_seen g)((wb, i) \<mapsto> ((), now + WEBHOOK_DEDUP_TTL))\<rparr>;
                (w1, h) = feed wb i w
            in ((g1, w1), case h of HandlerDone \<Rightarrow> Fed | HandlerValue \<Rightarrow> Malformed | HandlerOther \<Rightarrow> InternalError))"

definition telegram_webhook_endpoint ::
  "fleet \<Rightarrow> string \<Rightarrow> (int \<Rightarrow> int \<Rightarrow> 'w \<Rightarrow> 'w \<times> handled) \<Rightarrow> hook_request \<Rightarrow> ingress \<times> 'w \<Rightarrow> (ingress \<times> 'w) \<times> hook_reply" where
  "telegram_webhook_endpoint f secret feed r = (\<lambda>(g, w).
     let received = (case rq_token r of None \<Rightarrow> [] | Some t \<Rightarrow> t) in
     if check_webhook_brute_force (rq_at r) (rq_ip r) g then ((g, w), TooMany)
     else case get_bot_by_shard_index f (rq_shard r) of
       None \<Rightarrow> ((g, w), BadShard)
     | Some wb \<Rightarrow>
         if secret = [] then ((g, w), NoSecretSet)
         else if \<not> (ascii received \<and> ascii secret) then ((g, w), TokenRaised)
         else if received \<noteq> secret then ((record_webhook_auth_failure (rq_at r) (rq_ip r) g, w), ForbiddenToken)
         else feed_update feed (rq_at r) wb (rq_body r) (g, w))"

fun webhook_run ::
  "fleet \<Rightarrow> string \<Rightarrow> (int \<Rightarrow> int \<Rightarrow> 'w \<Rightarrow> 'w \<times> handled) \<Rightarrow> hook_request list \<Rightarrow> ingress \<times> 'w \<Rightarrow> (ingress \<times> 'w) \<times> hook_reply list" where
  "webhook_run f secret feed [] s = (s, [])"
| "webhook_run f secret feed (r # rs) s =
     (let (s1, a) = telegram_webhook_endpoint f secret feed r s; (s2, as) = webhook_run f secret feed rs s1 in (s2, a # as))"

section \<open>Lemmas\<close>

text \<open>The updates that reach the handlers: who is asked, with which number, and when.\<close>

definition handlers_ran :: "hook_reply \<Rightarrow> update_body \<Rightarrow> bool" where
  "handlers_ran a body \<longleftrightarrow> a \<in> {Fed, InternalError} \<or> a = Malformed \<and> body \<noteq> NotAnUpdate"

definition ran :: "fleet \<Rightarrow> hook_request \<times> hook_reply \<Rightarrow> (int \<times> int \<times> int) option" where
  "ran f = (\<lambda>(r, a). case (rq_body r, get_bot_by_shard_index f (rq_shard r)) of
     (Update i, Some b) \<Rightarrow> if handlers_ran a (rq_body r) then Some (rq_at r, b, i) else None | _ \<Rightarrow> None)"

definition runs_of :: "fleet \<Rightarrow> hook_request list \<Rightarrow> hook_reply list \<Rightarrow> (int \<times> int \<times> int) list" where
  "runs_of f rs as = List.map_filter (ran f) (zip rs as)"

definition feed_all :: "(int \<Rightarrow> int \<Rightarrow> 'w \<Rightarrow> 'w \<times> handled) \<Rightarrow> (int \<times> int \<times> int) list \<Rightarrow> 'w \<Rightarrow> 'w" where
  "feed_all feed ks w = fold (\<lambda>(t, b, i) w. fst (feed b i w)) ks w"

lemma runs_of_simps [simp]:
  "runs_of f [] [] = []"
  "runs_of f (r # rs) (a # as) = (case ran f (r, a) of None \<Rightarrow> [] | Some k \<Rightarrow> [k]) @ runs_of f rs as"
  by (simp_all add: runs_of_def List.map_filter_def split: option.split)

lemma endpoint_cases:
  obtains (kept) g' a where "telegram_webhook_endpoint f secret feed r (g, w) = ((g', w), a)" "gt_seen g' = gt_seen g" "ran f (r, a) = None"
  | (fed) b i a where "rq_body r = Update i" "get_bot_by_shard_index f (rq_shard r) = Some b"
      "live (rq_at r) (gt_seen g) (b, i) = None" "rq_token r = Some secret" "secret \<noteq> []"
      "\<not> check_webhook_brute_force (rq_at r) (rq_ip r) g"
      "telegram_webhook_endpoint f secret feed r (g, w) =
         ((g\<lparr>gt_seen := (gt_seen g)((b, i) \<mapsto> ((), rq_at r + WEBHOOK_DEDUP_TTL))\<rparr>, fst (feed b i w)), a)"
      "ran f (r, a) = Some (rq_at r, b, i)"
      "a = (case snd (feed b i w) of HandlerDone \<Rightarrow> Fed | HandlerValue \<Rightarrow> Malformed | HandlerOther \<Rightarrow> InternalError)"
proof -
  let ?e = "telegram_webhook_endpoint f secret feed r (g, w)"
  let ?t = "case rq_token r of None \<Rightarrow> [] | Some t \<Rightarrow> t"
  note d2 = Let_def ran_def handlers_ran_def
  note d = telegram_webhook_endpoint_def d2
  show thesis
  proof (cases "check_webhook_brute_force (rq_at r) (rq_ip r) g \<or> secret = [] \<or> \<not> (ascii ?t \<and> ascii secret) \<or> ?t \<noteq> secret")
    case True
    show thesis
    proof (cases "check_webhook_brute_force (rq_at r) (rq_ip r) g")
      case True
      then show thesis by (intro kept [of g TooMany]) (auto simp: d split: update_body.split option.split)
    next
      case False
      show thesis
      proof (cases "get_bot_by_shard_index f (rq_shard r)")
        case None
        with False show thesis by (intro kept [of g BadShard]) (auto simp: d split: update_body.split)
      next
        case (Some b)
        consider "secret = []" | "secret \<noteq> []" "\<not> (ascii ?t \<and> ascii secret)" | "secret \<noteq> []" "ascii ?t \<and> ascii secret" "?t \<noteq> secret"
          using True False by blast
        then show thesis
        proof cases
          case 1
          with False Some show thesis by (intro kept [of g NoSecretSet]) (auto simp: d split: update_body.split)
        next
          case 2
          with False Some show thesis by (intro kept [of g TokenRaised]) (simp_all add: d split: update_body.split)
        next
          case 3
          with False Some show thesis
            by (intro kept [of "record_webhook_auth_failure (rq_at r) (rq_ip r) g" ForbiddenToken])
              (simp_all add: d record_webhook_auth_failure_def split: update_body.split prod.split)
        qed
      qed
    qed
  next
    case False
    then have s: "rq_token r = Some secret" "secret \<noteq> []" by (auto split: option.splits)
    show thesis
    proof (cases "get_bot_by_shard_index f (rq_shard r)")
      case None
      with False show thesis by (intro kept [of g BadShard]) (auto simp: d split: update_body.split)
    next
      case (Some b)
      with False have e: "?e = feed_update feed (rq_at r) b (rq_body r) (g, w)" by (simp add: d)
      show thesis
      proof (cases "rq_body r")
        case NotAnUpdate
        then show thesis by (intro kept [of g Malformed]) (simp_all add: e feed_update_def d2)
      next
        case (Update i)
        show thesis
        proof (cases "live (rq_at r) (gt_seen g) (b, i)")
          case None
          obtain w1 h where fd: "feed b i w = (w1, h)" by (cases "feed b i w")
          show thesis
            by (rule fed [OF Update Some None s]) (use False Update Some None in \<open>simp_all add: e feed_update_def fd d2 split: handled.split\<close>)
        next
          case (Some y)
          with Update show thesis by (intro kept [of g Duplicate]) (simp_all add: e feed_update_def d2 split: option.split)
        qed
      qed
    qed
  qed
qed

lemma webhook_run_length: "length (snd (webhook_run f secret feed rs s)) = length rs"
proof (induction rs arbitrary: s)
  case (Cons r rs)
  obtain s1 a where "telegram_webhook_endpoint f secret feed r s = (s1, a)" by fastforce
  with Cons.IH [of s1] show ?case by (cases "webhook_run f secret feed rs s1") simp
qed simp

text \<open>No number that a live mark names runs again before the mark ends.\<close>

definition apart :: "(int \<times> int \<times> int) list \<Rightarrow> bool" where
  "apart ks \<longleftrightarrow> sorted_wrt (\<lambda>(t, k) (t', k'). k = k' \<longrightarrow> t' \<ge> t + WEBHOOK_DEDUP_TTL) ks"

lemma run_marks:
  assumes "sorted (map rq_at rs)" and "webhook_run f secret feed rs (g, w) = ((g', w'), as)"
  shows "w' = feed_all feed (runs_of f rs as) w \<and> apart (runs_of f rs as) \<and>
    (\<forall>(t, k) \<in> set (runs_of f rs as). (\<exists>r \<in> set rs. rq_at r = t \<and> rq_token r = Some secret) \<and> secret \<noteq> [] \<and>
       (\<forall>e. gt_seen g k = Some ((), e) \<longrightarrow> e \<le> t))"
  using assms
proof (induction rs arbitrary: g w as)
  case Nil
  then show ?case by (simp add: feed_all_def apart_def)
next
  case (Cons r rs)
  obtain s1 a where e: "telegram_webhook_endpoint f secret feed r (g, w) = (s1, a)" by (cases "telegram_webhook_endpoint f secret feed r (g, w)")
  obtain as' where as: "as = a # as'" and run: "webhook_run f secret feed rs s1 = ((g', w'), as')"
    using Cons.prems(2) by (auto simp: e split: prod.splits)
  have s: "sorted (map rq_at rs)" "\<And>q. q \<in> set rs \<Longrightarrow> rq_at r \<le> rq_at q" using Cons.prems(1) by auto
  show ?case
  proof (cases rule: endpoint_cases [of f secret feed r g w])
    case (kept g1 a1)
    with e have s1: "s1 = (g1, w)" "a1 = a" by simp_all
    from Cons.IH [OF s(1) run [unfolded s1(1)]] kept show ?thesis by (fastforce simp: as s1(2))
  next
    case (fed b i a1)
    let ?g1 = "g\<lparr>gt_seen := (gt_seen g)((b, i) \<mapsto> ((), rq_at r + WEBHOOK_DEDUP_TTL))\<rparr>"
    from fed(7) e have s1: "s1 = (?g1, fst (feed b i w))" "a1 = a" by simp_all
    from Cons.IH [OF s(1) run [unfolded s1(1)]]
    have w': "w' = feed_all feed (runs_of f rs as') (fst (feed b i w))" and ap: "apart (runs_of f rs as')"
      and m: "\<And>t k. (t, k) \<in> set (runs_of f rs as') \<Longrightarrow> (\<exists>r \<in> set rs. rq_at r = t \<and> rq_token r = Some secret) \<and> secret \<noteq> [] \<and>
         (\<forall>e. gt_seen ?g1 k = Some ((), e) \<longrightarrow> e \<le> t)" by auto
    have r: "runs_of f (r # rs) as = (rq_at r, b, i) # runs_of f rs as'" using fed(8) by (simp add: as s1(2))
    have seen: "e \<le> t" if "(t, k) \<in> set (runs_of f rs as')" "gt_seen g k = Some ((), e)" for t k e
    proof (cases "k = (b, i)")
      case True
      then have "e \<le> rq_at r" using fed(3) that(2) by (simp add: live_def split: if_splits)
      moreover have "rq_at r \<le> t" using m [OF that(1)] s(2) by auto
      ultimately show ?thesis by simp
    next
      case False
      then show ?thesis using m [OF that(1)] that(2) by simp
    qed
    have own: "e \<le> rq_at r" if "gt_seen g (b, i) = Some ((), e)" for e
      using fed(3) that by (simp add: live_def split: if_splits)
    have "rq_at r + WEBHOOK_DEDUP_TTL \<le> t" if "(t, b, i) \<in> set (runs_of f rs as')" for t
      using m [OF that] by simp
    then have "apart (runs_of f (r # rs) as)" using ap by (auto simp: r apart_def)
    moreover have "w' = feed_all feed (runs_of f (r # rs) as) w" by (simp add: r w' feed_all_def)
    moreover have "\<forall>(t, k) \<in> set (runs_of f (r # rs) as). (\<exists>r \<in> set (r # rs). rq_at r = t \<and> rq_token r = Some secret) \<and> secret \<noteq> [] \<and>
       (\<forall>e. gt_seen g k = Some ((), e) \<longrightarrow> e \<le> t)"
      using m seen own fed(4,5) by (fastforce simp: r)
    ultimately show ?thesis by blast
  qed
qed


text \<open>The guesses of one address: the counter and the block, while one window is open.\<close>

definition guess :: "string \<Rightarrow> hook_request \<times> hook_reply \<Rightarrow> bool" where
  "guess ip = (\<lambda>(r, a). rq_ip r = ip \<and> a = ForbiddenToken)"

definition counted :: "string \<Rightarrow> nat \<Rightarrow> hook_request list \<Rightarrow> ingress \<Rightarrow> bool" where
  "counted ip n rs g \<longleftrightarrow> n = 0 \<and> (\<forall>r \<in> set rs. live (rq_at r) (gt_fails g) ip = None) \<or>
     (\<exists>e. gt_fails g ip = Some (n, e) \<and> (\<forall>r \<in> set rs. rq_at r < e) \<and>
        (n > WEBHOOK_BRUTE_THRESHOLD \<longrightarrow> (\<forall>r \<in> set rs. check_webhook_brute_force (rq_at r) ip g)))"

lemma endpoint_gate:
  "telegram_webhook_endpoint f secret feed r (g, w) = ((g', w'), a) \<Longrightarrow>
     (if a = ForbiddenToken then g' = record_webhook_auth_failure (rq_at r) (rq_ip r) g \<and> \<not> check_webhook_brute_force (rq_at r) (rq_ip r) g
      else gt_fails g' = gt_fails g \<and> gt_blocked g' = gt_blocked g)"
  by (auto simp: telegram_webhook_endpoint_def feed_update_def Let_def split: if_splits option.splits update_body.splits prod.splits handled.splits)

lemma counted_same:
  "gt_fails g' ip = gt_fails g ip \<Longrightarrow> gt_blocked g' ip = gt_blocked g ip \<Longrightarrow> counted ip n (r # rs) g \<Longrightarrow> counted ip n rs g'"
  by (auto simp: counted_def check_webhook_brute_force_def live_def)

lemma counted_guess:
  assumes "counted ip n (r # rs) g" and "rq_ip r = ip" and "\<not> check_webhook_brute_force (rq_at r) ip g"
    and "\<And>q. q \<in> set rs \<Longrightarrow> rq_at q < rq_at r + WEBHOOK_BRUTE_WINDOW"
  shows "n \<le> WEBHOOK_BRUTE_THRESHOLD \<and> counted ip (Suc n) rs (record_webhook_auth_failure (rq_at r) ip g)"
proof -
  have block: "rq_at q < rq_at r + WEBHOOK_BLOCK_TTL" if "q \<in> set rs" for q
    using assms(4) [OF that] by (simp add: webhook_limits)
  show ?thesis
  proof (cases "live (rq_at r) (gt_fails g) ip")
    case None
    with assms(1) have "n = 0" by (auto simp: counted_def live_def)
    then show ?thesis
      using None assms(4) by (auto simp: counted_def record_webhook_auth_failure_def webhook_limits)
  next
    case (Some k)
    with assms(1) obtain e where e: "gt_fails g ip = Some (n, e)" "\<And>q. q \<in> set rs \<Longrightarrow> rq_at q < e" "k = n"
      "n > WEBHOOK_BRUTE_THRESHOLD \<longrightarrow> check_webhook_brute_force (rq_at r) ip g"
      by (auto simp: counted_def live_def split: if_splits)
    have n: "n \<le> WEBHOOK_BRUTE_THRESHOLD" using e(4) assms(3) by auto
    have "counted ip (Suc n) rs (record_webhook_auth_failure (rq_at r) ip g)"
      unfolding counted_def using Some e block
      by (intro disjI2 exI [of _ e]) (auto simp: record_webhook_auth_failure_def check_webhook_brute_force_def live_def Let_def)
    with n show ?thesis by blast
  qed
qed

lemma guesses_left:
  assumes "sorted (map rq_at rs)" and "\<And>r q. r \<in> set rs \<Longrightarrow> q \<in> set rs \<Longrightarrow> rq_at q < rq_at r + WEBHOOK_BRUTE_WINDOW"
    and "counted ip n rs g"
  shows "length (filter (guess ip) (zip rs (snd (webhook_run f secret feed rs (g, w))))) \<le> Suc WEBHOOK_BRUTE_THRESHOLD - n"
  using assms
proof (induction rs arbitrary: g w n)
  case (Cons r rs)
  obtain g1 w1 a where e: "telegram_webhook_endpoint f secret feed r (g, w) = ((g1, w1), a)"
    by (metis prod.collapse)
  let ?n = "\<lambda>g w. length (filter (guess ip) (zip rs (snd (webhook_run f secret feed rs (g, w)))))"
  have ih: "counted ip m rs g1 \<Longrightarrow> ?n g1 w1 \<le> Suc WEBHOOK_BRUTE_THRESHOLD - m" for m
    by (rule Cons.IH) (use Cons.prems in auto)
  have run: "length (filter (guess ip) (zip (r # rs) (snd (webhook_run f secret feed (r # rs) (g, w))))) =
    (if guess ip (r, a) then 1 else 0) + ?n g1 w1" by (simp add: e split: prod.split)
  note ga = endpoint_gate [OF e]
  show ?case
  proof (cases "guess ip (r, a)")
    case True
    then have r: "rq_ip r = ip" "g1 = record_webhook_auth_failure (rq_at r) ip g" "\<not> check_webhook_brute_force (rq_at r) ip g"
      using ga by (auto simp: guess_def)
    have "n \<le> WEBHOOK_BRUTE_THRESHOLD \<and> counted ip (Suc n) rs g1"
      unfolding r(2) by (rule counted_guess [OF Cons.prems(3) r(1,3)]) (use Cons.prems(2) in simp)
    with ih [of "Suc n"] True show ?thesis unfolding run by (simp add: Suc_diff_le)
  next
    case False
    have "gt_fails g1 ip = gt_fails g ip \<and> gt_blocked g1 ip = gt_blocked g ip"
    proof (cases "a = ForbiddenToken")
      case True
      with False have "rq_ip r \<noteq> ip" by (simp add: guess_def)
      with True ga show ?thesis by (simp add: record_webhook_auth_failure_def Let_def split: prod.split)
    next
      case False
      with ga show ?thesis by simp
    qed
    then have "counted ip n rs g1" using counted_same [OF _ _ Cons.prems(3)] by blast
    with ih False show ?thesis unfolding run by simp
  qed
qed simp

section \<open>Properties\<close>


text \<open>From one address at most eleven wrong tokens are looked at in a minute, whatever else arrives in between.\<close>

theorem guesses_are_cut:
  assumes "sorted (map rq_at rs)" and "\<forall>r \<in> set rs. \<forall>q \<in> set rs. rq_at q < rq_at r + WEBHOOK_BRUTE_WINDOW"
    and "gt_fails g ip = None" and "webhook_run f secret feed rs (g, w) = (s, as)"
  shows "length (filter (guess ip) (zip rs as)) \<le> 11"
  using guesses_left [OF assms(1) _, of ip 0 g f secret feed w] assms(2-4)
  by (simp add: counted_def live_def WEBHOOK_BRUTE_THRESHOLD_def)


text \<open>A user who has been served keeps their bot when tokens are added at the end of the list, although the formula moves.\<close>

lemma user_keeps_bot:
  assumes "get_bot_for_user f tg d = (d1, Some b)" and "get_user d tg = Some u" and "fl_bots f \<noteq> []"
    and "\<And>i. u_shard_index u = Some i \<Longrightarrow> 0 \<le> i \<and> i < int (length (fl_bots f))"
  shows "get_bot_for_user (f\<lparr>fl_bots := fl_bots f @ new\<rparr>) tg d1 = (d1, Some b)"
proof -
  let ?i = "case u_shard_index u of None \<Rightarrow> get_shard_index_for_user f tg | Some j \<Rightarrow> j"
  have i: "0 \<le> ?i" "?i < int (length (fl_bots f))"
    using assms(3,4) by (auto simp: get_shard_index_for_user_def num_bot_shards_def Let_def not_le split: option.splits)
  have "get_user d1 tg = Some (u\<lparr>u_shard_index := Some ?i\<rparr>) \<and> b = fl_bots f ! nat ?i"
    using assms(1-3) i by (auto simp: get_bot_for_user_def get_upd_user py_index_def Let_def split: option.splits if_splits)
  then show ?thesis using i assms(3) by (auto simp: get_bot_for_user_def py_index_def nth_append Let_def)
qed

section \<open>Concrete instances\<close>

definition one_bot :: fleet where
  "one_bot = \<lparr>fl_bots = [], fl_legacy = 5\<rparr>"

definition open_gate :: ingress where
  "open_gate = \<lparr>gt_blocked = Map.empty, gt_fails = Map.empty, gt_seen = Map.empty\<rparr>"

definition asked :: "int \<Rightarrow> string \<Rightarrow> int \<Rightarrow> hook_request" where
  "asked t token i = \<lparr>rq_at = t, rq_ip = ''h'', rq_shard = 0, rq_token = Some token, rq_body = Update i\<rparr>"

lemmas asked_here = telegram_webhook_endpoint_def feed_update_def check_webhook_brute_force_def record_webhook_auth_failure_def
  get_bot_by_shard_index_def asked_def one_bot_def open_gate_def live_def ascii_def webhook_limits


theorem guesses_are_cut_witness:
  "length (filter (guess ''h'') (zip (replicate 20 (asked 0 ''x'' 1)) (snd (webhook_run one_bot ''s'' (\<lambda>b i n. (n, HandlerDone))
     (replicate 20 (asked 0 ''x'' 1)) (open_gate, 0 :: int))))) \<le> 11"
  by (rule guesses_are_cut [OF _ _ _ prod.collapse [symmetric]])
    (auto simp: sorted_replicate asked_def open_gate_def webhook_limits)


end
