(* ===== verification/Jobs.thy ===== *)
theory Jobs
  imports Dates "HOL-Library.Multiset"
begin

text \<open>
  The jobs that write to users unasked: the worker that calls back inactive users
  (\<open>services/reengagement.py\<close>), the reminders (\<open>services/cron_reminders.py\<close>) and the broadcasts with their
  rate limiter (\<open>services/broadcast_worker.py\<close>).  What Telegram says to a message is a parameter; Redis
  works; times are microseconds.  SQL compares instants.  The limiter counts in rationals, the code in
  floats.
\<close>

section \<open>Calling back inactive users\<close>

definition INACTIVE_US :: int where "INACTIVE_US = 3 * day_us"
definition COOLDOWN_US :: int where "COOLDOWN_US = 3 * day_us"
definition RETRY_US :: int where "RETRY_US = day_us"
definition CHECK_INTERVAL_US :: int where "CHECK_INTERVAL_US = 6 * 3600 * second_us"

lemmas callback_times = INACTIVE_US_def COOLDOWN_US_def RETRY_US_def CHECK_INTERVAL_US_def second_us_def day_us_def

definition inactive :: "int \<Rightarrow> user \<Rightarrow> bool" where
  "inactive now u \<longleftrightarrow> u_completed_registration u \<and> \<not> u_re_engage_blocked u \<and>
     (case u_silent_until u of None \<Rightarrow> True | Some t \<Rightarrow> instant t < now) \<and>
     instant (u_last_active u) < now - INACTIVE_US \<and>
     (case u_re_engaged_at u of None \<Rightarrow> True | Some t \<Rightarrow> instant t < now - COOLDOWN_US)"

definition fetch_inactive_users :: "int \<Rightarrow> db \<Rightarrow> int list" where
  "fetch_inactive_users now d = take 50 (map u_tg_id
     (sort_key (\<lambda>u. instant (u_last_active u)) (sel_where (inactive now) (users d))))"

datatype call_result = SentOk | SentBlocked | SentError

text \<open>The mark a message leaves.  After an error the user is due again a day later.\<close>

definition mark_called :: "int \<Rightarrow> call_result \<Rightarrow> user \<Rightarrow> user" where
  "mark_called now r u = (case r of
     SentOk \<Rightarrow> u\<lparr>u_re_engaged_at := Some (Aware now)\<rparr>
   | SentBlocked \<Rightarrow> u\<lparr>u_re_engage_blocked := True\<rparr>
   | SentError \<Rightarrow> u\<lparr>u_re_engaged_at := Some (Aware (now - COOLDOWN_US + RETRY_US))\<rparr>)"

definition penniless :: "user \<Rightarrow> bool" where
  "penniless u \<longleftrightarrow> u_coin_balance u + u_vip_quota u \<le> 0"

text \<open>\<open>send tg gift\<close>: the text says whether coins come with it.\<close>

definition call_back ::
  "(int \<Rightarrow> bool \<Rightarrow> call_result) \<Rightarrow> (rat \<Rightarrow> rat) \<Rightarrow> rat option \<Rightarrow> int \<Rightarrow> int \<Rightarrow> db \<Rightarrow> db" where
  "call_back send fl event now tg d =
     (case get_user d tg of
        None \<Rightarrow> d
      | Some u \<Rightarrow>
          upd_user tg (mark_called now (send tg (penniless u)))
            (if penniless u then fst (process_coin_transaction now fl event u 5 TxReengaged False None d) else d))"

text \<open>The lock of the cycle is not released: it runs out a minute before the next one.\<close>

definition reengage_run_once ::
  "(int \<Rightarrow> bool \<Rightarrow> call_result) \<Rightarrow> (rat \<Rightarrow> rat) \<Rightarrow> rat option \<Rightarrow> int \<Rightarrow> (unit \<times> int) option \<times> db \<Rightarrow> (unit \<times> int) option \<times> db" where
  "reengage_run_once send fl event now = (\<lambda>(lock, d).
     if live now (\<lambda>_ :: unit. lock) () \<noteq> None then (lock, d)
     else (Some ((), now + CHECK_INTERVAL_US - 60 * second_us),
           fold (call_back send fl event now) (fetch_inactive_users now d) d))"

section \<open>Reminders\<close>

text \<open>The names the module binds at the top level; a name that is not among them raises \<open>NameError\<close>.\<close>

definition cron_names :: "string list" where
  "cron_names = [''logging'', ''asyncio'', ''datetime'', ''timezone'', ''timedelta'', ''Optional'', ''select'', ''and_'', ''update'',
     ''or_'', ''SystemMsg'', ''settings'', ''logger'', ''CronRemindersService'']"

definition profile_reminder_due :: "int \<Rightarrow> user \<Rightarrow> bool" where
  "profile_reminder_due now u \<longleftrightarrow> u_completed_registration u \<and> \<not> u_is_banned u \<and> \<not> u_profile_completion_rewarded u \<and>
     instant (u_created_at u) < now - 120 * second_us \<and>
     (case u_last_profile_reminder_at u of None \<Rightarrow> True | Some t \<Rightarrow> instant t < now - day_us)"

text \<open>The text is taken from \<open>Messages\<close> before anything is sent; every error is logged and the next user is tried.\<close>

definition remind_profile :: "(int \<Rightarrow> bool) \<Rightarrow> int \<Rightarrow> user \<Rightarrow> db \<times> int list \<Rightarrow> db \<times> int list" where
  "remind_profile delivered now u = (\<lambda>(d, out).
     if ''Messages'' \<notin> set cron_names \<or> \<not> delivered (u_tg_id u) then (d, out)
     else (upd_user (u_tg_id u) (\<lambda>v. v\<lparr>u_last_profile_reminder_at := Some (Aware now)\<rparr>) d, out @ [u_tg_id u]))"

definition send_profile_reminders :: "(int \<Rightarrow> bool) \<Rightarrow> int \<Rightarrow> db \<Rightarrow> db \<times> int list" where
  "send_profile_reminders delivered now d = fold (remind_profile delivered now)
     (take 50 (sort_key (\<lambda>u. - instant (u_created_at u)) (sel_where (profile_reminder_due now) (users d)))) (d, [])"

text \<open>The keys of the end of a subscription: the user and its second.\<close>

type_synonym vip_marks = "int \<times> int \<rightharpoonup> unit \<times> int"

definition vip_ends_soon :: "int \<Rightarrow> user \<Rightarrow> bool" where
  "vip_ends_soon now u \<longleftrightarrow> u_is_vip u \<and> \<not> u_is_banned u \<and>
     (case u_vip_expires_at u of None \<Rightarrow> False | Some e \<Rightarrow> now < instant e \<and> instant e < now + 3 * day_us)"

text \<open>\<open>int(timestamp())\<close> of an instant after 1970.  The key is set before the message is sent, and stays when
  that fails.\<close>

definition remind_vip :: "int \<Rightarrow> user \<Rightarrow> vip_marks \<times> (int \<times> int \<times> int) list \<Rightarrow> vip_marks \<times> (int \<times> int \<times> int) list" where
  "remind_vip now u = (\<lambda>(ks, out). case u_vip_expires_at u of
     None \<Rightarrow> (ks, out)
   | Some e \<Rightarrow>
       let k = (u_tg_id u, instant e div second_us) in
       if live now ks k \<noteq> None then (ks, out)
       else (ks(k \<mapsto> ((), now + 3 * day_us)), out @ [(u_tg_id u, instant e, (instant e - now) div day_us)]))"

definition send_vip_expiry_reminders :: "int \<Rightarrow> db \<Rightarrow> vip_marks \<Rightarrow> vip_marks \<times> (int \<times> int \<times> int) list" where
  "send_vip_expiry_reminders now d ks =
     fold (remind_vip now) (take 100 (sel_where (vip_ends_soon now) (users d))) (ks, [])"

text \<open>The loop, over the databases it finds: whatever happens between two cycles.\<close>

fun vip_cycles :: "(int \<times> db) list \<Rightarrow> vip_marks \<Rightarrow> (int \<times> int \<times> int) list" where
  "vip_cycles [] ks = []"
| "vip_cycles ((now, d) # cs) ks = (let (ks1, out) = send_vip_expiry_reminders now d ks in out @ vip_cycles cs ks1)"

section \<open>The rate limiter\<close>

text \<open>Seconds and messages.\<close>

record bucket =
  bk_rate :: rat
  bk_capacity :: rat
  bk_tokens :: rat
  bk_last_refill :: rat

definition new_bucket :: "rat \<Rightarrow> rat option \<Rightarrow> rat \<Rightarrow> bucket" where
  "new_bucket rate capacity now = (let c = (case capacity of None \<Rightarrow> rate | Some x \<Rightarrow> x)
     in \<lparr>bk_rate = rate, bk_capacity = c, bk_tokens = c, bk_last_refill = now\<rparr>)"

definition refill :: "rat \<Rightarrow> bucket \<Rightarrow> bucket" where
  "refill now b = b\<lparr>bk_tokens := min (bk_capacity b) (bk_tokens b + (now - bk_last_refill b) * bk_rate b), bk_last_refill := now\<rparr>"

text \<open>Callers hold the lock one after the other.  At each of the listed instants the one who holds it reads the clock: it
  takes a token, or sleeps for what is missing and reads again.\<close>

definition sleep_time :: "bucket \<Rightarrow> rat" where
  "sleep_time b = (1 - bk_tokens b) / bk_rate b"

fun acquired :: "rat list \<Rightarrow> bucket \<Rightarrow> rat list" where
  "acquired [] b = []"
| "acquired (now # ts) b = (let b1 = refill now b in
     if bk_tokens b1 \<ge> 1 then now # acquired ts (b1\<lparr>bk_tokens := bk_tokens b1 - 1\<rparr>) else acquired ts b1)"

section \<open>Broadcasts\<close>

datatype send_result = WasSent | WasForbidden | RetryAfter | WasError

record broadcast_result =
  br_success :: nat
  br_blocked :: nat
  br_failed :: nat
  br_total_scope :: nat
  br_invalid :: bool

definition mark_user_blocked :: "int \<Rightarrow> db \<Rightarrow> db" where
  "mark_user_blocked tg = upd_user tg (\<lambda>u. u\<lparr>u_re_engage_blocked := True\<rparr>)"

text \<open>\<open>first\<close>, \<open>again\<close>: the answers to the message and to its one repetition, in which every error is the same.\<close>

definition send_to_user ::
  "(int \<Rightarrow> send_result) \<Rightarrow> (int \<Rightarrow> send_result) \<Rightarrow> (int \<Rightarrow> db \<Rightarrow> db) \<Rightarrow> int \<Rightarrow> broadcast_result \<times> db \<Rightarrow> broadcast_result \<times> db" where
  "send_to_user first again on_blocked tg = (\<lambda>(n, d).
     case first tg of
       WasSent \<Rightarrow> (n\<lparr>br_success := Suc (br_success n)\<rparr>, d)
     | WasForbidden \<Rightarrow> (n\<lparr>br_blocked := Suc (br_blocked n)\<rparr>, on_blocked tg d)
     | RetryAfter \<Rightarrow>
         (if again tg = WasSent then n\<lparr>br_success := Suc (br_success n)\<rparr> else n\<lparr>br_failed := Suc (br_failed n)\<rparr>, d)
     | WasError \<Rightarrow> (n\<lparr>br_failed := Suc (br_failed n)\<rparr>, d))"

text \<open>\<open>source\<close>: whether there is a text or a message to copy.  The tasks of a batch end in any order.\<close>

definition broadcast_message ::
  "(int list \<Rightarrow> int list) \<Rightarrow> (int \<Rightarrow> send_result) \<Rightarrow> (int \<Rightarrow> send_result) \<Rightarrow> (int \<Rightarrow> db \<Rightarrow> db) \<Rightarrow> bool \<Rightarrow> int list \<Rightarrow> db \<Rightarrow>
     broadcast_result \<times> db" where
  "broadcast_message order first again on_blocked source ids d =
     (let r = \<lparr>br_success = 0, br_blocked = 0, br_failed = 0, br_total_scope = length ids, br_invalid = \<not> source\<rparr> in
      if \<not> source then (r, d)
      else fold (\<lambda>batch. fold (send_to_user first again on_blocked) (order batch)) (chunks 1000 ids) (r, d))"

section \<open>Lemmas\<close>

lemma mark_called_sel [simp]:
  "u_tg_id (mark_called now r u) = u_tg_id u" "u_coin_balance (mark_called now r u) = u_coin_balance u"
  "u_vip_quota (mark_called now r u) = u_vip_quota u" "u_referrer_id (mark_called now r u) = u_referrer_id u"
  by (simp_all add: mark_called_def split: call_result.split)

text \<open>One call: the log moves with the balance, nobody else changes, and the user is due again only after the mark.\<close>

definition called :: "(rat \<Rightarrow> rat) \<Rightarrow> rat option \<Rightarrow> user \<Rightarrow> int" where
  "called fl event u = (if penniless u then event_amount fl event False 5 else 0)"

definition stays_away :: "int \<Rightarrow> call_result \<Rightarrow> user \<Rightarrow> bool" where
  "stays_away now r v \<longleftrightarrow> (case r of
     SentOk \<Rightarrow> u_re_engaged_at v = Some (Aware now)
   | SentBlocked \<Rightarrow> u_re_engage_blocked v
   | SentError \<Rightarrow> u_re_engaged_at v = Some (Aware (now - COOLDOWN_US + RETRY_US)))"

lemma stays_away_inactive:
  "stays_away now r v \<Longrightarrow> inactive later v \<Longrightarrow> r \<noteq> SentBlocked \<and> later > now + (if r = SentOk then COOLDOWN_US else RETRY_US)"
  by (auto simp: stays_away_def inactive_def split: call_result.splits)

lemma call_back_effect:
  assumes "users_unique d" and "ledger_ok d" and "get_user d tg = Some u" and "d' = call_back send fl event now tg d"
  shows "users_unique d'" "ledger_ok d'" "coin_balance d' tg = coin_balance d tg + called fl event u"
    "\<And>k. k \<noteq> tg \<Longrightarrow> get_user d' k = get_user d k" "account_ids d' = account_ids d"
    "\<exists>v. get_user d' tg = Some v \<and> stays_away now (send tg (penniless u)) v"
proof -
  define d1 where "d1 = (if penniless u then fst (process_coin_transaction now fl event u 5 TxReengaged False None d) else d)"
  have d': "d' = upd_user tg (mark_called now (send tg (penniless u))) d1" using assms(3,4) by (simp add: call_back_def d1_def)
  have tg: "u_tg_id u = tg" by (rule get_user_tg [OF assms(3)])
  have p: "d1 = (if penniless u then add_coin_tx now tg (event_amount fl event False 5) (event_text event False TxReengaged) None ''generic''
      (upd_user tg (earn (event_amount fl event False 5)) d) else d)"
    by (simp add: d1_def process_coin_transaction_def Let_def tg)
  have one: "users_unique d1 \<and> ledger_ok d1 \<and> account_ids d1 = account_ids d"
  proof (cases "penniless u")
    case True
    have "u_tg_id u \<in> account_ids d" using assms(3) tg by (simp add: account_ids_iff)
    from process_keeps_ledger [OF assms(1,2) this, of now fl event 5 TxReengaged False None] show ?thesis
      using True by (metis d1_def prod.collapse)
  qed (use assms(1,2) in \<open>simp add: d1_def\<close>)
  have g: "get_user d1 k = (if k = tg then Some (if penniless u then earn (event_amount fl event False 5) u else u) else get_user d k)" for k
    using assms(3) by (simp add: p get_upd_user)
  show "users_unique d'" using one by (simp add: d' users_unique_upd_user)
  show "account_ids d' = account_ids d" using one by (simp add: d' account_ids_upd_user)
  show "get_user d' k = get_user d k" if "k \<noteq> tg" for k using that by (simp add: d' get_upd_user g)
  show "coin_balance d' tg = coin_balance d tg + called fl event u"
    using assms(3) by (simp add: d' coin_balance_def get_upd_user g called_def)
  show "\<exists>v. get_user d' tg = Some v \<and> stays_away now (send tg (penniless u)) v"
    by (simp add: d' get_upd_user g stays_away_def mark_called_def split: call_result.split)
  have "coin_balance d' k = coin_balance d1 k" "logged_coins d' k = logged_coins d1 k" for k
    by (simp_all add: d' coin_balance_def get_upd_user logged_coins_def split: option.split)
  moreover have "account_ids d' = account_ids d1" by (simp add: d' account_ids_upd_user)
  ultimately show "ledger_ok d'" using one by (simp add: ledger_ok_def)
qed

lemma calls_effect:
  assumes "distinct ids" and "users_unique d" and "ledger_ok d" and "\<And>k. k \<in> set ids \<Longrightarrow> get_user d k \<noteq> None"
    and "d' = fold (call_back send fl event now) ids d"
  shows "users_unique d' \<and> ledger_ok d' \<and> (\<forall>k. k \<notin> set ids \<longrightarrow> get_user d' k = get_user d k) \<and>
    (\<forall>k \<in> set ids. coin_balance d' k = coin_balance d k + called fl event (the (get_user d k)) \<and>
       (\<exists>v. get_user d' k = Some v \<and> stays_away now (send k (penniless (the (get_user d k)))) v))"
  using assms
proof (induction ids arbitrary: d)
  case (Cons tg ids)
  obtain u where u: "get_user d tg = Some u" using Cons.prems(4) [of tg] by auto
  let ?d1 = "call_back send fl event now tg d"
  note e = call_back_effect [OF Cons.prems(2,3) u refl, where send = send and fl = fl and event = event and now = now]
  have other: "get_user ?d1 k = get_user d k" if "k \<in> set ids" for k using that Cons.prems(1) e(4) by (metis distinct.simps(2))
  have bal: "coin_balance ?d1 k = coin_balance d k" if "k \<in> set ids" for k using other [OF that] by (simp add: coin_balance_def)
  have ih: "users_unique d' \<and> ledger_ok d' \<and> (\<forall>k. k \<notin> set ids \<longrightarrow> get_user d' k = get_user ?d1 k) \<and>
    (\<forall>k \<in> set ids. coin_balance d' k = coin_balance ?d1 k + called fl event (the (get_user ?d1 k)) \<and>
       (\<exists>v. get_user d' k = Some v \<and> stays_away now (send k (penniless (the (get_user ?d1 k)))) v))"
    by (rule Cons.IH) (use Cons.prems other e(1,2) in auto)
  have tg: "tg \<notin> set ids" using Cons.prems(1) by simp
  then have gtg: "get_user d' tg = get_user ?d1 tg" using ih by blast
  then have "coin_balance d' tg = coin_balance ?d1 tg" by (simp add: coin_balance_def)
  with ih e u gtg other bal tg show ?case by auto
qed simp

lemma fetched:
  assumes "users_unique d"
  shows "distinct (fetch_inactive_users now d)" "length (fetch_inactive_users now d) \<le> 50"
    "k \<in> set (fetch_inactive_users now d) \<Longrightarrow> \<exists>u. get_user d k = Some u \<and> inactive now u"
proof -
  let ?us = "sort_key (\<lambda>u. instant (u_last_active u)) (sel_where (inactive now) (users d))"
  have "distinct (map u_tg_id (sel_where (inactive now) (users d)))"
    using assms by (simp add: users_unique_def sel_where_def distinct_map_filter)
  then have "distinct (map u_tg_id ?us)" by (simp add: distinct_map)
  then show "distinct (fetch_inactive_users now d)" by (simp add: fetch_inactive_users_def distinct_take)
  show "length (fetch_inactive_users now d) \<le> 50" by (simp add: fetch_inactive_users_def)
  assume "k \<in> set (fetch_inactive_users now d)"
  then obtain u where "u \<in> set ?us" "u_tg_id u = k" by (auto simp: fetch_inactive_users_def dest!: in_set_takeD)
  then show "\<exists>u. get_user d k = Some u \<and> inactive now u" using get_user_unique [OF assms] by (auto simp: sel_where_def)
qed


text \<open>The reminders of one cycle.\<close>

definition vip_key :: "int \<times> int \<times> int \<Rightarrow> int \<times> int" where
  "vip_key = (\<lambda>(tg, e, n). (tg, e div second_us))"

definition reminder_at :: "int \<Rightarrow> int \<times> int \<times> int \<Rightarrow> bool" where
  "reminder_at now = (\<lambda>(tg, e, n). now < e \<and> e < now + 3 * day_us \<and> n = (e - now) div day_us)"

lemma remind_fold:
  assumes "list_all (vip_ends_soon now) us" and "fold (remind_vip now) us (ks, out) = (ks', out')"
  shows "\<exists>fresh. out' = out @ fresh \<and> distinct (map vip_key fresh) \<and>
    (\<forall>x \<in> set fresh. reminder_at now x \<and> live now ks (vip_key x) = None \<and> ks' (vip_key x) = Some ((), now + 3 * day_us)) \<and>
    (\<forall>k. k \<notin> vip_key ` set fresh \<longrightarrow> ks' k = ks k)"
  using assms
proof (induction us arbitrary: ks out)
  case (Cons u us)
  obtain e where e: "u_vip_expires_at u = Some e" "now < instant e" "instant e < now + 3 * day_us"
    using Cons.prems(1) by (auto simp: vip_ends_soon_def split: option.splits)
  let ?k = "(u_tg_id u, instant e div second_us)"
  have us: "list_all (vip_ends_soon now) us" using Cons.prems(1) by simp
  show ?case
  proof (cases "live now ks ?k")
    case (Some x)
    then have "remind_vip now u (ks, out) = (ks, out)" by (simp add: remind_vip_def e(1))
    with Cons.IH [OF us, of ks out] Cons.prems(2) show ?thesis by simp
  next
    case None
    let ?x = "(u_tg_id u, instant e, (instant e - now) div day_us)"
    let ?ks = "ks(?k \<mapsto> ((), now + 3 * day_us))"
    have "remind_vip now u (ks, out) = (?ks, out @ [?x])" using None by (simp add: remind_vip_def e(1))
    with Cons.prems(2) have "fold (remind_vip now) us (?ks, out @ [?x]) = (ks', out')" by simp
    from Cons.IH [OF us this] obtain fresh where f: "out' = (out @ [?x]) @ fresh" "distinct (map vip_key fresh)"
      "\<forall>x \<in> set fresh. reminder_at now x \<and> live now ?ks (vip_key x) = None \<and> ks' (vip_key x) = Some ((), now + 3 * day_us)"
      "\<forall>k. k \<notin> vip_key ` set fresh \<longrightarrow> ks' k = ?ks k" by blast
    have "live now ?ks ?k \<noteq> None" by (simp add: live_def day_us_def)
    then have new: "?k \<notin> vip_key ` set fresh" using f(3) by fastforce
    have kx: "vip_key ?x = ?k" by (simp add: vip_key_def)
    have old: "live now ks k = None" if "k \<noteq> ?k" "live now ?ks k = None" for k using that by (simp add: live_def)
    show ?thesis
    proof (intro exI [of _ "?x # fresh"] conjI)
      show "out' = out @ (?x # fresh)" by (simp add: f(1))
      show "distinct (map vip_key (?x # fresh))" using f(2) new kx by simp
      show "\<forall>x \<in> set (?x # fresh). reminder_at now x \<and> live now ks (vip_key x) = None \<and> ks' (vip_key x) = Some ((), now + 3 * day_us)"
      proof
        fix x assume x: "x \<in> set (?x # fresh)"
        show "reminder_at now x \<and> live now ks (vip_key x) = None \<and> ks' (vip_key x) = Some ((), now + 3 * day_us)"
        proof (cases "x = ?x")
          case True
          have "ks' ?k = ?ks ?k" using f(4) new by blast
          with True None e(2,3) show ?thesis by (simp add: kx reminder_at_def)
        next
          case False
          with x have x: "x \<in> set fresh" by simp
          then have "vip_key x \<noteq> ?k" using new by force
          from old [OF this] bspec [OF f(3) x] show ?thesis by simp
        qed
      qed
      show "\<forall>k. k \<notin> vip_key ` set (?x # fresh) \<longrightarrow> ks' k = ks k" using f(4) kx by auto
    qed
  qed
qed simp

lemma cycle_reminders:
  assumes "send_vip_expiry_reminders now d ks = (ks', out)"
  shows "distinct (map vip_key out)"
    "\<And>x. x \<in> set out \<Longrightarrow> reminder_at now x \<and> live now ks (vip_key x) = None \<and> ks' (vip_key x) = Some ((), now + 3 * day_us)"
    "\<And>k. k \<notin> vip_key ` set out \<Longrightarrow> ks' k = ks k"
proof -
  have "list_all (vip_ends_soon now) (take 100 (sel_where (vip_ends_soon now) (users d)))"
    by (auto simp: list_all_iff sel_where_def dest: in_set_takeD)
  from remind_fold [OF this assms [unfolded send_vip_expiry_reminders_def]]
  show "distinct (map vip_key out)"
    "\<And>x. x \<in> set out \<Longrightarrow> reminder_at now x \<and> live now ks (vip_key x) = None \<and> ks' (vip_key x) = Some ((), now + 3 * day_us)"
    "\<And>k. k \<notin> vip_key ` set out \<Longrightarrow> ks' k = ks k" by auto
qed

definition ended :: "int \<times> int \<times> int \<Rightarrow> int \<times> int" where
  "ended = (\<lambda>(tg, e, n). (tg, e))"

lemma ended_key: "ended x = ended y \<Longrightarrow> vip_key x = vip_key y"
  by (auto simp: ended_def vip_key_def split: prod.splits)

lemma cycles_reminders:
  assumes "sorted (map fst cs)"
  shows "distinct (map ended (vip_cycles cs ks)) \<and>
    (\<forall>x \<in> set (vip_cycles cs ks). \<exists>(now, d) \<in> set cs. reminder_at now x \<and> (\<forall>e. ks (vip_key x) = Some ((), e) \<longrightarrow> e \<le> now))"
  using assms
proof (induction cs arbitrary: ks)
  case (Cons c cs)
  obtain now d where c: "c = (now, d)" by (cases c)
  obtain ks1 out where s: "send_vip_expiry_reminders now d ks = (ks1, out)" by fastforce
  note r = cycle_reminders [OF s]
  have ih: "distinct (map ended (vip_cycles cs ks1))"
    "\<And>x. x \<in> set (vip_cycles cs ks1) \<Longrightarrow> \<exists>(now', d') \<in> set cs. reminder_at now' x \<and> (\<forall>e. ks1 (vip_key x) = Some ((), e) \<longrightarrow> e \<le> now')"
    using Cons.IH [of ks1] Cons.prems by auto
  have later: "now \<le> now'" if "(now', d') \<in> set cs" for now' d' using Cons.prems that by (force simp: c)
  have dead: "e \<le> now" if "live now ks k = None" "ks k = Some ((), e)" for k e using that by (simp add: live_def split: if_splits)
  have apart: "ended x \<noteq> ended y" if x: "x \<in> set out" and y: "y \<in> set (vip_cycles cs ks1)" for x y
  proof
    assume eq: "ended x = ended y"
    obtain now' d' where n: "reminder_at now' y" "\<forall>e. ks1 (vip_key y) = Some ((), e) \<longrightarrow> e \<le> now'" using ih(2) [OF y] by blast
    have "now + 3 * day_us \<le> now'" using n(2) r(2) [OF x] ended_key [OF eq] by simp
    moreover have "fst (snd x) < now + 3 * day_us" "now' < fst (snd y)" using r(2) [OF x] n(1) by (auto simp: reminder_at_def split: prod.splits)
    moreover have "fst (snd x) = fst (snd y)" using eq by (auto simp: ended_def split: prod.splits)
    ultimately show False by simp
  qed
  have "distinct (map ended out)"
    using r(1) by (auto simp: distinct_map inj_on_def dest: ended_key)
  then have "distinct (map ended (out @ vip_cycles cs ks1))" using ih(1) apart
    by (simp add: disjoint_iff) (metis imageE)
  moreover have "\<exists>(now', d') \<in> set (c # cs). reminder_at now' x \<and> (\<forall>e. ks (vip_key x) = Some ((), e) \<longrightarrow> e \<le> now')"
    if "x \<in> set (out @ vip_cycles cs ks1)" for x
  proof (cases "x \<in> set out")
    case True
    have "\<forall>e. ks (vip_key x) = Some ((), e) \<longrightarrow> e \<le> now" using r(2) [OF True] dead [of "vip_key x"] by blast
    with r(2) [OF True] show ?thesis by (auto simp: c)
  next
    case False
    with that have "x \<in> set (vip_cycles cs ks1)" by simp
    from ih(2) [OF this] obtain now' d' where n: "(now', d') \<in> set cs" "reminder_at now' x"
      "\<forall>e. ks1 (vip_key x) = Some ((), e) \<longrightarrow> e \<le> now'" by blast
    have "e \<le> now'" if k: "ks (vip_key x) = Some ((), e)" for e
    proof (cases "vip_key x \<in> vip_key ` set out")
      case True
      then obtain y where "y \<in> set out" "vip_key y = vip_key x" by force
      then have "e \<le> now" using r(2) [of y] k dead by metis
      with later [OF n(1)] show ?thesis by simp
    next
      case False
      then show ?thesis using r(3) [OF False] n(3) k by simp
    qed
    with n(1,2) show ?thesis by auto
  qed
  ultimately show ?case by (simp add: c s)
qed simp

text \<open>The limiter: what a window can still let through.\<close>

definition budget :: "rat \<Rightarrow> rat \<Rightarrow> bucket \<Rightarrow> rat" where
  "budget s e b = (if bk_last_refill b < s then bk_capacity b + bk_rate b * (e - s)
     else if bk_last_refill b \<le> e then bk_tokens b + bk_rate b * (e - bk_last_refill b) else 0)"

definition bucket_sound :: "bucket \<Rightarrow> bool" where
  "bucket_sound b \<longleftrightarrow> 0 \<le> bk_rate b \<and> 0 \<le> bk_tokens b \<and> bk_tokens b \<le> bk_capacity b"

lemma bucket_sound_refill: "bucket_sound b \<Longrightarrow> bk_last_refill b \<le> now \<Longrightarrow> bucket_sound (refill now b)"
  by (simp add: bucket_sound_def refill_def)

lemma budget_refill:
  assumes "bucket_sound b" and "bk_last_refill b \<le> now" and "s \<le> e" and "now \<le> e"
  shows "budget s e (refill now b) \<le> budget s e b"
proof (cases "bk_last_refill b < s")
  case True
  have "bk_rate b * (e - now) \<le> bk_rate b * (e - s)" if "s \<le> now" using assms(1) that by (intro mult_left_mono) (simp_all add: bucket_sound_def)
  with True assms show ?thesis by (auto simp: budget_def refill_def)
next
  case False
  with assms show ?thesis by (auto simp: budget_def refill_def algebra_simps min_def)
qed

lemma acquired_in: "x \<in> set (acquired ts b) \<Longrightarrow> x \<in> set ts"
  by (induction ts arbitrary: b) (auto simp: Let_def split: if_splits)

lemma window_budget:
  assumes "sorted ts" and "bucket_sound b" and "\<And>t. t \<in> set ts \<Longrightarrow> bk_last_refill b \<le> t" and "s \<le> e"
  shows "of_nat (length (filter (\<lambda>t. s \<le> t \<and> t \<le> e) (acquired ts b))) \<le> budget s e b"
  using assms
proof (induction ts arbitrary: b)
  case Nil
  then show ?case by (auto simp: budget_def bucket_sound_def intro!: add_nonneg_nonneg mult_nonneg_nonneg)
next
  case (Cons now ts)
  let ?b = "refill now b"
  let ?n = "\<lambda>b. of_nat (length (filter (\<lambda>t. s \<le> t \<and> t \<le> e) (acquired ts b))) :: rat"
  have b: "bk_last_refill b \<le> now" "bucket_sound ?b" "bk_last_refill ?b = now" using Cons.prems(2,3) by (simp_all add: bucket_sound_refill) (simp add: refill_def)
  have srt: "sorted ts" "\<And>t. t \<in> set ts \<Longrightarrow> now \<le> t" using Cons.prems(1) by auto
  have ih: "?n c \<le> budget s e c" if "bucket_sound c" "bk_last_refill c = now" for c
    by (rule Cons.IH [OF srt(1) that(1) _ Cons.prems(4)]) (simp add: that(2) srt(2))
  show ?case
  proof (cases "now \<le> e")
    case False
    then have "filter (\<lambda>t. s \<le> t \<and> t \<le> e) (acquired (now # ts) b) = []"
      using srt(2) by (fastforce simp: filter_empty_conv Let_def dest: acquired_in split: if_splits)
    moreover have "0 \<le> budget s e b"
      using Cons.prems(2,4) by (auto simp: budget_def bucket_sound_def intro!: add_nonneg_nonneg mult_nonneg_nonneg)
    ultimately show ?thesis by simp
  next
    case True
    note less = budget_refill [OF Cons.prems(2) b(1) Cons.prems(4) True]
    show ?thesis
    proof (cases "bk_tokens ?b \<ge> 1")
      case False
      with ih [OF b(2,3)] less show ?thesis by (simp add: Let_def)
    next
      case granted: True
      let ?c = "?b\<lparr>bk_tokens := bk_tokens ?b - 1\<rparr>"
      have c: "bucket_sound ?c" "bk_last_refill ?c = now" using b(2,3) granted by (auto simp: bucket_sound_def)
      have "budget s e ?c + (if s \<le> now then 1 else 0) \<le> budget s e ?b"
        using True by (auto simp: budget_def b(3))
      with ih [OF c] less granted True show ?thesis by (auto simp: Let_def)
    qed
  qed
qed

text \<open>Who has slept long enough is served.\<close>

lemma woken_is_served:
  assumes "bucket_sound b" and "0 < bk_rate b" and "1 \<le> bk_capacity b" and "bk_last_refill b + sleep_time b \<le> now"
  shows "acquired (now # ts) b = now # acquired ts ((refill now b)\<lparr>bk_tokens := bk_tokens (refill now b) - 1\<rparr>)"
proof -
  have "(1 - bk_tokens b) \<le> (now - bk_last_refill b) * bk_rate b"
    using assms(2,4) by (simp add: sleep_time_def field_simps)
  then have "1 \<le> bk_tokens (refill now b)" using assms(3) by (simp add: refill_def)
  then show ?thesis by (simp add: Let_def)
qed

text \<open>A bucket that holds less than one message serves nobody, however long they wait.\<close>

lemma small_bucket_starves:
  assumes "bk_capacity b < 1"
  shows "acquired ts b = []"
  using assms by (induction ts arbitrary: b) (simp_all add: refill_def Let_def)

text \<open>A broadcast in batches is one pass over all receivers, in some order.\<close>

lemma fold_orders: "fold (\<lambda>b. fold f (order b)) bs x = fold f (concat (map order bs)) x"
  by (induction bs arbitrary: x) simp_all

lemma mset_orders:
  assumes "\<And>xs. mset (order xs) = mset xs" and "0 < n"
  shows "mset (concat (map order (chunks n xs))) = mset xs"
  using assms(2)
proof (induction n xs rule: chunks.induct)
  case (1 n xs)
  have "mset (take n xs) + mset (drop n xs) = mset xs" by (metis append_take_drop_id mset_append)
  with 1 show ?case by (simp add: chunks.simps [of n xs] assms(1))
qed

definition sending_outcome :: "(int \<Rightarrow> send_result) \<Rightarrow> (int \<Rightarrow> send_result) \<Rightarrow> int \<Rightarrow> call_result" where
  "sending_outcome first again k = (case first k of WasSent \<Rightarrow> SentOk | WasForbidden \<Rightarrow> SentBlocked | WasError \<Rightarrow> SentError
     | RetryAfter \<Rightarrow> if again k = WasSent then SentOk else SentError)"

lemma send_all:
  "fold (send_to_user first again mark_user_blocked) ks (n, d) = (r, d') \<Longrightarrow>
     br_success r = br_success n + length (filter (\<lambda>k. sending_outcome first again k = SentOk) ks) \<and>
     br_blocked r = br_blocked n + length (filter (\<lambda>k. sending_outcome first again k = SentBlocked) ks) \<and>
     br_failed r = br_failed n + length (filter (\<lambda>k. sending_outcome first again k = SentError) ks) \<and>
     br_total_scope r = br_total_scope n \<and>
     get_user d' j = map_option (\<lambda>u. if j \<in> set ks \<and> first j = WasForbidden then u\<lparr>u_re_engage_blocked := True\<rparr> else u) (get_user d j)"
proof (induction ks arbitrary: n d)
  case (Cons k ks)
  obtain n1 d1 where s: "send_to_user first again mark_user_blocked k (n, d) = (n1, d1)" by fastforce
  with Cons.prems have "fold (send_to_user first again mark_user_blocked) ks (n1, d1) = (r, d')" by simp
  note ih = Cons.IH [OF this]
  let ?o = "sending_outcome first again k"
  have n1: "br_success n1 = br_success n + (if ?o = SentOk then 1 else 0)" "br_blocked n1 = br_blocked n + (if ?o = SentBlocked then 1 else 0)"
    "br_failed n1 = br_failed n + (if ?o = SentError then 1 else 0)" "br_total_scope n1 = br_total_scope n"
    "d1 = (if first k = WasForbidden then mark_user_blocked k d else d)"
    using s by (simp_all add: send_to_user_def sending_outcome_def split: send_result.splits if_splits) auto
  have "get_user d1 j = map_option (\<lambda>u. if j = k \<and> first j = WasForbidden then u\<lparr>u_re_engage_blocked := True\<rparr> else u) (get_user d j)"
    by (simp add: n1(5) mark_user_blocked_def get_upd_user option.map_ident cong: map_option_cong)
  then have "get_user d' j = map_option (\<lambda>u. if j \<in> set (k # ks) \<and> first j = WasForbidden then u\<lparr>u_re_engage_blocked := True\<rparr> else u) (get_user d j)"
    using ih by (cases "get_user d j"; cases "j = k"; cases "j \<in> set ks"; cases "first j = WasForbidden") simp_all
  with ih n1(1-4) show ?case by (cases ?o) simp_all
qed (simp add: option.map_ident)

section \<open>Properties\<close>


text \<open>C34: whatever happens between the cycles, nobody is reminded twice of the same end of a subscription, every reminder
  comes before the end, and it names zero, one or two days.\<close>

theorem vip_reminded_once:
  assumes "sorted (map fst cs)"
  shows "distinct (map (\<lambda>(tg, e, n). (tg, e)) (vip_cycles cs ks)) \<and>
    (\<forall>(tg, e, n) \<in> set (vip_cycles cs ks). n \<in> {0, 1, 2} \<and> (\<exists>(now, d) \<in> set cs. now < e \<and> e < now + 3 * day_us))"
proof -
  have n: "n \<in> {0, 1, 2}" if "reminder_at now (tg, e, n)" for now tg e n
  proof -
    have "0 < e - now" "e - now < 3 * day_us" "n = (e - now) div day_us" using that by (simp_all add: reminder_at_def)
    moreover have "day_us * n + (e - now) mod day_us = e - now" "0 \<le> (e - now) mod day_us" "(e - now) mod day_us < day_us"
      by (simp_all add: \<open>n = _\<close>, simp_all add: day_us_def)
    ultimately have "0 \<le> n" "n < 3" unfolding day_us_def by linarith+
    then show ?thesis by auto
  qed
  from cycles_reminders [OF assms, of ks] show ?thesis
    using n unfolding ended_def by (fastforce simp: reminder_at_def)
qed

text \<open>C17: however many callers wait and however long they sleep, in any window of time the limiter lets through at most its
  capacity and what the rate makes up for in that window.\<close>

theorem outbound_rate_bounded:
  assumes "sorted ts" and "0 \<le> bk_rate b" and "0 \<le> bk_tokens b" and "bk_tokens b \<le> bk_capacity b"
    and "\<forall>t \<in> set ts. bk_last_refill b \<le> t" and "s \<le> e"
  shows "of_nat (length (filter (\<lambda>t. s \<le> t \<and> t \<le> e) (acquired ts b))) \<le> bk_capacity b + bk_rate b * (e - s)"
proof -
  have ok: "bucket_sound b" using assms(2-4) by (simp add: bucket_sound_def)
  have "bk_rate b * (e - bk_last_refill b) \<le> bk_rate b * (e - s)" if "s \<le> bk_last_refill b"
    using assms(2) that by (intro mult_left_mono) simp_all
  then have "budget s e b \<le> bk_capacity b + bk_rate b * (e - s)"
    using ok assms(6) by (auto simp: budget_def bucket_sound_def intro: add_mono add_nonneg_nonneg mult_nonneg_nonneg)
  moreover have "of_nat (length (filter (\<lambda>t. s \<le> t \<and> t \<le> e) (acquired ts b))) \<le> budget s e b"
    by (rule window_budget [OF assms(1) ok _ assms(6)]) (use assms(5) in blast)
  ultimately show ?thesis by (rule order_trans [rotated])
qed

text \<open>No reminder of an unfinished profile is ever sent: the module binds the texts under another name.\<close>

lemma no_profile_reminder: "send_profile_reminders delivered now d = (d, [])"
proof -
  have "''Messages'' \<notin> set cron_names" by (simp add: cron_names_def)
  then have "fold (remind_profile delivered now) us (d, []) = (d, [])" for us
    by (induction us) (simp_all add: remind_profile_def)
  then show ?thesis by (simp add: send_profile_reminders_def)
qed

text \<open>A hundred users who have been reminded hide everybody behind them.\<close>

lemma reminded_hide_the_rest:
  assumes "\<forall>u \<in> set (take 100 (sel_where (vip_ends_soon now) (users d))).
    live now ks (u_tg_id u, instant (the (u_vip_expires_at u)) div second_us) \<noteq> None"
  shows "send_vip_expiry_reminders now d ks = (ks, [])"
proof -
  have "fold (remind_vip now) us (ks, []) = (ks, [])"
    if "\<forall>u \<in> set us. live now ks (u_tg_id u, instant (the (u_vip_expires_at u)) div second_us) \<noteq> None" for us
    using that by (induction us) (auto simp: remind_vip_def split: option.split)
  then show ?thesis using assms by (simp add: send_vip_expiry_reminders_def)
qed


text \<open>A broadcast counts every receiver once, as sent, blocked or failed, in whatever order the tasks of a batch end, and it
  flags exactly those whose first answer says that they have blocked the bot.\<close>

theorem broadcast_counts:
  assumes "\<And>xs. mset (order xs) = mset xs" and "broadcast_message order first again mark_user_blocked True ids d = (r, d')"
  shows "br_success r + br_blocked r + br_failed r = br_total_scope r \<and> br_total_scope r = length ids \<and>
    br_success r = length (filter (\<lambda>k. first k = WasSent \<or> first k = RetryAfter \<and> again k = WasSent) ids) \<and>
    (\<forall>k. get_user d' k = map_option (\<lambda>u. if k \<in> set ids \<and> first k = WasForbidden then u\<lparr>u_re_engage_blocked := True\<rparr> else u) (get_user d k))"
proof -
  let ?ks = "concat (map order (chunks 1000 ids))" and ?o = "sending_outcome first again"
  have m: "mset ?ks = mset ids" by (rule mset_orders) (simp_all add: assms(1))
  have len: "length (filter P ?ks) = length (filter P ids)" for P by (metis m mset_filter size_mset)
  have st: "set ?ks = set ids" by (rule mset_eq_setD [OF m])
  from assms(2) have "fold (send_to_user first again mark_user_blocked) ?ks
      (\<lparr>br_success = 0, br_blocked = 0, br_failed = 0, br_total_scope = length ids, br_invalid = False\<rparr>, d) = (r, d')"
    by (simp add: broadcast_message_def fold_orders)
  note a = send_all [OF this, unfolded len st, simplified]
  have "length (filter (\<lambda>k. ?o k = SentOk) xs) + length (filter (\<lambda>k. ?o k = SentBlocked) xs) + length (filter (\<lambda>k. ?o k = SentError) xs) = length xs" for xs
  proof (induction xs)
    case (Cons x xs)
    then show ?case by (cases "?o x") simp_all
  qed simp
  moreover have "(?o k = SentOk) = (first k = WasSent \<or> first k = RetryAfter \<and> again k = WasSent)" for k
    by (simp add: sending_outcome_def split: send_result.split)
  ultimately show ?thesis using a by simp
qed

section \<open>Concrete instances\<close>

definition sleeper :: user where
  "sleeper = alice\<lparr>u_completed_registration := True, u_coin_balance := 0\<rparr>"

definition sleepy_db :: db where
  "sleepy_db = empty_db\<lparr>users := \<lparr>rows = [sleeper], next_id = 2\<rparr>\<rparr>"

lemma sleepy_view: "users_unique sleepy_db" "ledger_ok sleepy_db" "get_user sleepy_db 1 = Some sleeper"
  "fetch_inactive_users (4 * day_us) sleepy_db = [1]"
  by (simp_all add: users_unique_def ledger_ok_def coin_balance_def get_user_def by_key_def logged_coins_def account_ids_def sleepy_db_def
      empty_db_def empty_tbl_def sleeper_def fetch_inactive_users_def sel_where_def inactive_def callback_times alice_def new_user_def)


definition ending_db :: db where
  "ending_db = empty_db\<lparr>users := \<lparr>rows = [alice\<lparr>u_is_vip := True, u_vip_expires_at := Some (Naive (2 * day_us))\<rparr>], next_id = 2\<rparr>\<rparr>"

theorem vip_reminded_once_witness:
  "vip_cycles [(0, ending_db), (day_us, ending_db)] Map.empty = [(1, 2 * day_us, 2)] \<and>
   distinct (map (\<lambda>(tg, e, n). (tg, e)) (vip_cycles [(0, ending_db), (day_us, ending_db)] Map.empty))"
proof
  show "vip_cycles [(0, ending_db), (day_us, ending_db)] Map.empty = [(1, 2 * day_us, 2)]"
    by (simp add: send_vip_expiry_reminders_def sel_where_def ending_db_def empty_db_def vip_ends_soon_def remind_vip_def live_def day_us_def second_us_def)
  show "distinct (map (\<lambda>(tg, e, n). (tg, e)) (vip_cycles [(0, ending_db), (day_us, ending_db)] Map.empty))"
    using vip_reminded_once [of "[(0, ending_db), (day_us, ending_db)]" Map.empty] by (simp add: day_us_def)
qed

theorem outbound_rate_bounded_witness:
  "of_nat (length (filter (\<lambda>t. 0 \<le> t \<and> t \<le> 1) (acquired [0, 0, 1 / 2, 1, 2] (new_bucket 2 None 0)))) \<le> (4 :: rat)"
  using outbound_rate_bounded [of "[0, 0, 1 / 2, 1, 2]" "new_bucket 2 None 0" 0 1] by (simp add: new_bucket_def)

theorem broadcast_counts_witness:
  "br_total_scope (fst (broadcast_message id (\<lambda>k. if k = 1 then WasForbidden else WasSent) (\<lambda>_. WasSent) mark_user_blocked True [1, 2] demo_db)) = 2"
  using broadcast_counts [OF _ prod.collapse [symmetric], where order = id and first = "\<lambda>k. if k = 1 then WasForbidden else WasSent" and
      again = "\<lambda>_. WasSent" and ids = "[1, 2]" and d = demo_db] by simp

end
