(* ===== verification/World.thy ===== *)
theory World
  imports Soundness Admin GiftDialog Gacha Inbox Comments AdminContent Wizard Shop Ingress Jobs
begin

text \<open>
  The bot as one transition system: every update a user, an administrator or the scheduler causes is one step
  on the shared state, the handlers run to their end, one after the other.  The theory states what holds in
  every state the bot can reach, whoever presses what in whatever order.
\<close>

section \<open>Tables that are no part of it\<close>

lemma honest_frame:
  assumes "honest d d1" and "users d2 = users d1" and "coin_txs d2 = coin_txs d1" and "matches d2 = matches d1" and "blocks d2 = blocks d1"
  shows "honest d d2"
  using assms drift_cong [of d2 d1] users_unique_cong [of d2 d1] no_self_cong [of d2 d1] by (simp add: honest_def)

lemmas honest_same = honest_frame [OF honest_refl]

lemma gentle_same:
  assumes "users (dw_db w') = users (dw_db w)" and "coin_txs (dw_db w') = coin_txs (dw_db w)" and "matches (dw_db w') = matches (dw_db w)"
    and "blocks (dw_db w') = blocks (dw_db w)" and "ms_blocks (dw_store w') = ms_blocks (dw_store w)"
  shows "gentle w w'"
  using assms by (simp add: gentle_def closes_same)

lemma gentle_frame_db:
  assumes "users (f (dw_db w1)) = users (dw_db w1)" and "coin_txs (f (dw_db w1)) = coin_txs (dw_db w1)"
    and "matches (f (dw_db w1)) = matches (dw_db w1)" and "blocks (f (dw_db w1)) = blocks (dw_db w1)" and "gentle w w1"
  shows "gentle w (on_db f w1)"
  by (rule gentle_db [OF assms(5)]) (simp_all add: assms closes_same)

section \<open>The administrators\<close>

lemma sound_banned: "sound w (set_banned b tg w)"
  unfolding set_banned_def by (intro sound_on_db honest_upd) simp_all

lemma sound_ban: "sound (aw_world s) (aw_world (ban_user now tg s))"
proof -
  have "gentle w (end_date_of now tg w)" for w
    by (auto simp: end_date_of_def marks_def intro!: gentle split: option.split)
  then have "gentle w (Healing.leave_queue tg (leave tg (end_date_of now tg w)))" for w by (intro gentle)
  from sound_gentle [OF sound_banned this] show ?thesis by (simp add: ban_user_def Let_def)
qed

lemma sound_bans:
  "sound (aw_world s) (aw_world (fst (cmd_banuser admins now me t s)))"
  "sound (aw_world s) (aw_world (fst (admin_quick_ban admins now me rest s)))"
  "sound (aw_world s) (aw_world (fst (admin_quick_unban rest s)))"
  "sound (aw_world s) (aw_world (fst (api_ban_user tg b s)))"
  by (auto simp: cmd_banuser_def admin_quick_ban_def admin_quick_unban_def api_ban_user_def on_aw_def sound_refl sound_ban
      sound_banned split: list.split option.split)

lemma honest_reward [honest]: "honest d (reward_user now n descr tg d)"
  by (auto simp: reward_user_def honest_refl dest: get_user_tg intro!: honest_process split: option.split)

lemma honest_fold:
  assumes "\<And>x d. honest d (f x d)"
  shows "honest d (fold f xs d)"
  by (induction xs arbitrary: d) (auto intro: honest_refl honest_trans assms)

lemma honest_rewards: "honest d (fst (reward_those P now descr t d))"
  by (auto simp: reward_those_def reward_batches_def Let_def honest_refl intro!: honest_fold honest_reward split: list.split option.split)

lemma honest_commands:
  "honest d (fst (cmd_addcoins now t d))" "honest d (fst (cmd_removecoins now t d))"
  "honest d (fst (cmd_addcoinsall now t d))" "honest d (fst (cmd_addcoinsvip now t d))"
  "honest d (fst (cmd_setvip now t d))" "honest d (fst (cmd_resetprofile t d))"
  by (auto simp: cmd_addcoins_def cmd_removecoins_def cmd_addcoinsall_def cmd_addcoinsvip_def cmd_setvip_def cmd_resetprofile_def
      honest_rewards Let_def intro!: honest_upd honest_reward honest_refl split: list.split option.split)

lemma honest_packages:
  "honest d (fst (cmd_add_package now t d))" "honest d (fst (cmd_edit_package t d))" "honest d (fst (cmd_toggle_package t d))"
  by (auto simp: cmd_add_package_def cmd_edit_package_def cmd_toggle_package_def create_coin_package_def
      update_coin_package_price_def toggle_coin_package_def honest_refl intro!: honest_same split: list.split option.split prod.split bool.split if_splits)

lemma sync_blocks [simp]: "ms_blocks (sync_state d tg s) = ms_blocks s"
  by (simp add: sync_state_def split: option.split)

lemma gentle_sync: "gentle w (cmd_sync_states keys locks w)"
proof (rule gentle_same)
  have "ms_blocks (fold (sync_state d) ks s) = ms_blocks s" for d ks s by (induction ks arbitrary: s) simp_all
  then show "ms_blocks (dw_store (cmd_sync_states keys locks w)) = ms_blocks (dw_store w)" by (simp add: cmd_sync_states_def)
qed (simp_all add: cmd_sync_states_def)

text \<open>What they fill in touches no account.\<close>

lemma store_question_frames [simp]:
  "users (fold store_question qs d) = users d" "coin_txs (fold store_question qs d) = coin_txs d"
  "matches (fold store_question qs d) = matches d" "blocks (fold store_question qs d) = blocks d"
  by (induction qs arbitrary: d) (simp_all add: store_question_def add_question_def)

lemma gentle_store_questions [gentle]: "gentle w w1 \<Longrightarrow> gentle w (on_db (fold store_question qs) w1)"
  by (rule gentle_frame_db) simp_all

lemma gentle_bank_moves [gentle]:
  "gentle w (bk_world s) \<Longrightarrow> gentle w (bk_world (goto st tg s))"
  "gentle w (bk_world s) \<Longrightarrow> gentle w (bk_world (keep k v tg s))"
  "gentle w (bk_world s) \<Longrightarrow> gentle w (bk_world (bank_clear tg s))"
  "gentle w (f (bk_world s)) \<Longrightarrow> gentle w (bk_world (on_bank f s))"
  by (simp_all add: goto_def keep_def gentle)

lemma gentle_question_message: "gentle (bk_world s) (bk_world (fst (question_message tg m s)))"
proof -
  have "gentle (bk_world s) (bk_world (fst (handle_question_text tg m s)))" "gentle (bk_world s) (bk_world (fst (handle_option_a tg m s)))"
    "gentle (bk_world s) (bk_world (fst (handle_option_b tg m s)))" "gentle (bk_world s) (bk_world (fst (handle_option_c tg m s)))"
    "gentle (bk_world s) (bk_world (fst (handle_option_d tg m s)))" "gentle (bk_world s) (bk_world (fst (handle_category tg m s)))"
    by (simp_all add: handle_question_text_def handle_option_a_def handle_option_b_def handle_option_c_def handle_option_d_def
        handle_category_def Let_def gentle split: option.split)
  then show ?thesis by (simp add: question_message_def Let_def gentle)
qed

lemma gentle_bank: "gentle (bk_world s) (bk_world (fst (bank_step tg e s)))"
proof (cases e)
  case (SavePressed a)
  have q: "gentle w w1 \<Longrightarrow> gentle w (on_db (store_question q) w1)" for w w1 q using gentle_store_questions [of w w1 "[q]"] by simp
  show ?thesis by (simp add: SavePressed handle_question_confirm_def Let_def gentle q split: option.split)
next
  case (SheetSent n z f)
  have "gentle w (bk_world s) \<Longrightarrow> gentle w (bk_world (s\<lparr>bk_pending := p\<rparr>))" for w s p by simp
  then show ?thesis by (simp add: SheetSent handle_question_excel_upload_def Let_def gentle gentle_question_message split: option.split)
qed (simp_all add: cmd_addquestion_def handle_question_type_def cmd_importquestions_def bulk_import_cancel_def bulk_import_confirm_def
    Let_def gentle gentle_question_message split: option.split)

lemma gentle_store_gift [gentle]: "gentle w w1 \<Longrightarrow> gentle w (on_db (store_gift g) w1)"
  by (rule gentle_frame_db) (simp_all add: store_gift_def add_gift_type_def)

lemma gentle_gift_add: "gentle w (gift_add_step uc e w)"
proof -
  obtain tg k where e: "e = (tg, k)" by (cases e)
  have "gentle w (fst (confirm_add_gift tg w))"
    by (simp add: confirm_add_gift_def Let_def gentle split: option.split)
  moreover have "gentle w (fst (gift_add_message uc tg m w))" for m
    by (auto simp: gift_add_message_def process_gift_code_def process_gift_name_def process_gift_emoji_def process_gift_price_def
        process_gift_description_def Let_def intro!: gentle split: option.split)
  ultimately show ?thesis by (cases k) (simp_all add: e cmd_add_gift_def cancel_add_gift_def gentle)
qed

lemma gentle_campaign: "gentle w (fst (confirm_banner_creation now r tg w))"
proof -
  have f: "users (replace_campaign d) = users d" "coin_txs (replace_campaign d) = coin_txs d"
    "matches (replace_campaign d) = matches d" "blocks (replace_campaign d) = blocks d" for d
    by (simp_all add: replace_campaign_def split: option.split)
  have a: "gentle w (on_db replace_campaign w)" by (simp add: gentle_frame_db f gentle_refl)
  have "gentle w w1 \<Longrightarrow> gentle w (on_db (create_campaign now p c n) w1)" for w w1 p c n
    by (rule gentle_frame_db) (simp_all add: create_campaign_def)
  with a show ?thesis by (simp add: confirm_banner_creation_def Let_def gentle split: option.split)
qed

section \<open>Gifts and boxes\<close>

lemma honest_booked:
  assumes "get_user d tg \<noteq> None" and "\<And>u. u_coin_balance (f u) = u_coin_balance u + n"
    and "\<And>u. u_tg_id (f u) = u_tg_id u" and "\<And>u. u_referrer_id (f u) = u_referrer_id u"
    and "users d3 = users (upd_user tg f d)" and "coin_txs d3 = coin_txs d" and "matches d3 = matches d" and "blocks d3 = blocks d"
  shows "honest d (add_coin_tx now tg n t i x d3)"
proof -
  have "honest d (add_coin_tx now tg n t i x (upd_user tg f d))" by (rule honest_coin) (simp_all add: assms)
  then show ?thesis by (rule honest_frame) (simp_all add: assms(5-8) add_coin_tx_def upd_user_def)
qed

lemma bag_frames [simp]:
  "users (set_quantity b g q s d) = users d" "coin_txs (set_quantity b g q s d) = coin_txs d"
  "matches (set_quantity b g q s d) = matches d" "blocks (set_quantity b g q s d) = blocks d"
  "users (add_to_inventory now b g q s d) = users d" "coin_txs (add_to_inventory now b g q s d) = coin_txs d"
  "matches (add_to_inventory now b g q s d) = matches d" "blocks (add_to_inventory now b g q s d) = blocks d"
  "users (log_gift now a b g q k c d) = users d" "coin_txs (log_gift now a b g q k c d) = coin_txs d"
  "matches (log_gift now a b g q k c d) = matches d" "blocks (log_gift now a b g q k c d) = blocks d"
  by (simp_all add: set_quantity_def add_to_inventory_def log_gift_def split: option.split)

lemma honest_gift: "gift_change tg d d' \<Longrightarrow> honest d d'"
proof (induction rule: gift_change.induct)
  case (kept d)
  show ?case by (rule honest_refl)
next
  case (bought now code q d d' r)
  have "honest d (add_coin_tx now tg (- c) t i ''gift_purchase''
      (log_gift now tg tg g q k c' (add_to_inventory now tg g q s (upd_user tg (spend c) d))))"
    if "get_user d tg \<noteq> None" for c c' t i g s k
    by (rule honest_booked [OF that, where f = "spend c"]) (simp_all add: spend_def upd_user_def)
  then show ?case using bought by (auto simp: purchase_gift_def Let_def honest_refl split: if_splits option.splits)
next
  case (sent now b code q d d' r)
  then show ?case
    by (auto simp: transfer_gift_def Let_def honest_refl intro!: honest_same split: if_splits option.splits)
next
  case (sold now code q d d' r)
  have "honest d (add_coin_tx now tg n t i ''gift_sell''
      (log_gift now tg tg g q k c (upd_user tg (\<lambda>v. v\<lparr>u_coin_balance := u_coin_balance v + n\<rparr>) (set_quantity tg g q' s d))))"
    if "get_user d tg \<noteq> None" for n c t i g q' s k
    by (rule honest_booked [OF that, where f = "\<lambda>v. v\<lparr>u_coin_balance := u_coin_balance v + n\<rparr>"]) (simp_all add: upd_user_def)
  then show ?case using sold by (auto simp: sell_gift_def Let_def honest_refl split: if_splits option.splits)
qed

lemma restore_gift_gentle [gentle]: "gentle w w1 \<Longrightarrow> gentle w (fst (restore_gift tg w1))"
  by (simp add: restore_gift_def Let_def gentle)

lemma gentle_finish [gentle]: "gentle w w1 \<Longrightarrow> gentle w (fst (finish_gift tg r w1))"
  using restore_gift_gentle [of w w1 tg] by (auto simp: finish_gift_def split: prod.split)

lemma gentle_aim [gentle]: "gentle w w1 \<Longrightarrow> gentle w (fst (aim_gift items tg b w1))"
  by (simp add: aim_gift_def gentle split: sum.split bool.split)

lemma sound_bought:
  assumes "gift_change tg (dw_db w) d" and "gentle (w\<lparr>dw_db := d\<rparr>) w'"
  shows "sound w w'"
  using sound_gentle [OF honest_sound [OF honest_gift [OF assms(1)]] assms(2)] .

lemma sound_gift: "sound w (fst (gift_event items now tg e w))"
proof -
  have buy: "sound w (fst (gift_buy_confirm now tg ps w))" for ps
  proof -
    have "sound w (fst (finish_gift tg r (w\<lparr>dw_db := d\<rparr>)))" if "purchase_gift now tg c q (dw_db w) = (d, r)" for c q d r
      by (rule sound_bought [OF gift_change.bought [OF that]]) (intro gentle)
    then show ?thesis by (simp add: gift_buy_confirm_def sound_refl split: list.split option.split prod.split)
  qed
  have sell: "sound w (fst (gift_sell_execute now tg ps w))" for ps
  proof -
    have "sound w (fst (finish_gift tg r (w\<lparr>dw_db := d\<rparr>)))" if "sell_gift now tg c q (dw_db w) = (d, r)" for c q d r
      by (rule sound_bought [OF gift_change.sold [OF that]]) (intro gentle)
    then show ?thesis by (simp add: gift_sell_execute_def sound_refl split: list.split option.split prod.split)
  qed
  have send: "sound w (fst (gift_send_qty_execute now tg rest w))" for rest
  proof -
    have "sound w (fst (restore_gift tg (w\<lparr>dw_db := d\<rparr>)))" if "transfer_gift now tg b c q (dw_db w) = (d, r)" for b c q d r
      by (rule sound_bought [OF gift_change.sent [OF that]]) (intro gentle)
    moreover have "sound w (fst (restore_gift tg w))" by (intro gentle_sound gentle)
    ultimately show ?thesis by (simp add: gift_send_qty_execute_def Let_def sound_refl split: option.split prod.split)
  qed
  have choose: "gentle w (fst (gift_send_choose_gift tg t w))" for t
    by (simp add: gift_send_choose_gift_def Let_def gentle split: option.split)
  have from_chat: "gentle w (fst (gift_send_from_chat_or_date items tg w))"
    by (simp add: gift_send_from_chat_or_date_def gentle split: option.split)
  have pick: "gentle w (fst (gift_pick_quantity items tg c w))" "gentle w (fst (gift_sell_pick_quantity tg c w))" for c
    by (simp_all add: gift_pick_quantity_def gift_sell_pick_quantity_def Let_def gentle split: option.split prod.split)
  have cancel: "gentle w (fst (gift_cancel tg w))"
    using restore_gift_gentle [OF gentle_refl, of w tg] by (auto simp: gift_cancel_def split: prod.split)
  show ?thesis
  proof (cases e)
    case (GiftTo rest)
    show ?thesis by (simp add: gift_event_def GiftTo gift_send_direct_def gentle_sound gentle split: option.split)
  next
    case (GiftText t)
    then show ?thesis using choose from_chat by (simp add: gift_event_def gentle_sound gentle)
  next
    case (GiftSendPick ps)
    show ?thesis by (simp add: gift_event_def GiftSendPick gift_send_execute_def gentle_sound gentle split: list.split option.split)
  qed (simp_all add: gift_event_def buy sell send gift_send_prompt_def gift_sell_start_flow_def gentle_sound gentle pick cancel)
qed

lemma honest_where:
  assumes f: "\<And>u. u_tg_id (f u) = u_tg_id u \<and> u_referrer_id (f u) = u_referrer_id u \<and> u_coin_balance (f u) = u_coin_balance u"
  shows "honest d (d\<lparr>users := upd_where P f (users d)\<rparr>)"
proof -
  let ?d = "d\<lparr>users := upd_where P f (users d)\<rparr>"
  have "find_key u_tg_id k (upd_list P f xs) = map_option (\<lambda>u. if P u then f u else u) (find_key u_tg_id k xs)" for k xs
    using f by (induction xs) auto
  then have "coin_balance ?d k = coin_balance d k" for k
    using f by (simp add: coin_balance_def get_user_def by_key_def split: option.split)
  moreover have "map u_tg_id (upd_list P f xs) = map u_tg_id xs" for xs using f by (simp add: upd_list_keys)
  moreover have "no_self_referral d \<longrightarrow> no_self_referral ?d" using f by (auto simp: no_self_referral_def set_upd_list)
  ultimately show ?thesis by (simp add: honest_def drift_def users_unique_def logged_coins_def)
qed

lemma honest_xp: "honest d (fst (add_xp_to_user tg n d))"
  by (auto simp: add_xp_to_user_def Let_def honest_refl intro!: honest_upd split: option.split prod.split)

lemma honest_box: "honest d (fst (fst (process_open_lootbox now fl event draw rewards tg (d, cd))))"
proof -
  have t: "honest d (take_box tg d)" unfolding take_box_def by (rule honest_where) simp
  have "honest d1 (grant_reward now fl event tg r d1)" for r d1
    by (auto simp: grant_reward_def Let_def honest_refl honest_xp dest: get_user_tg intro!: honest_process honest_upd split: option.split)
  with t show ?thesis
    by (auto simp: process_open_lootbox_def Let_def honest_refl intro: honest_trans split: option.split)
qed

section \<open>Private messages and comments\<close>

lemma gentle_dms [gentle]: "gentle w w1 \<Longrightarrow> gentle w (on_dms f w1)"
  unfolding on_dms_def by (rule gentle_frame_db) simp_all

lemma honest_refund: "honest d (refund_dm now fl event tg c d)"
  by (auto simp: refund_dm_def honest_refl dest: get_user_tg intro!: honest_process split: option.split)

lemma sound_request_dm: "sound w (fst (req_direct_message now fl event tg rest w))"
proof -
  have "sound w (on_fsm tg f (w\<lparr>dw_db := d\<rparr>))"
    if "get_user (dw_db w) tg = Some u" "process_coin_transaction now fl event u n t ig r (dw_db w) = (d, x)" for u n t ig r d x f
  proof -
    have "honest (dw_db w) d"
      using honest_process [of "dw_db w" u now fl event n t ig r] that get_user_tg [OF that(1)] by simp
    then show ?thesis by (rule sound_gentle [OF honest_sound]) (intro gentle)
  qed
  then show ?thesis
    by (simp add: req_direct_message_def Let_def sound_refl gentle_sound gentle split: option.split sum.split bool.split prod.split)
qed

lemma sound_send_dm: "sound w (fst (send_direct_message word now fl event tg t w))"
proof -
  have "sound w (on_fsm tg f (on_db (refund_dm now fl event tg c) w))" for f c
  proof (rule sound_gentle)
    show "sound w (on_db (refund_dm now fl event tg c) w)" by (rule sound_on_db) (rule honest_refund)
  qed (intro gentle)
  then show ?thesis by (simp add: send_direct_message_def Let_def sound_refl gentle_sound gentle)
qed

lemma gentle_read_dm: "gentle w (fst (dm_reply tg ps w))" "gentle w (fst (dm_view_message now tg rest w))" "gentle w (fst (dm_delete tg rest w))"
  by (simp_all add: dm_reply_def dm_view_message_def dm_delete_def gentle split: list.split option.split prod.split)

lemma sound_anonymous: "sound w (fst (fst (receive_anonymous_message word now fl event tg m (w, r))))"
proof -
  have one: "sound w (leave tg (w\<lparr>dw_db := save_anonymous_message now tg t x b y z (dw_db w)\<rparr>))" for t x b y z
  proof (rule sound_gentle [OF honest_sound])
    show "honest (dw_db w) (save_anonymous_message now tg t x b y z (dw_db w))" by (rule honest_same) (simp_all add: save_anonymous_message_def)
  qed (intro gentle)
  have two: "sound w (leave tg (w\<lparr>dw_db := fst (process_coin_transaction now fl event
      (the (get_user (save_anonymous_message now tg t x b y z (dw_db w)) t)) 3 TxAnonReward False None
      (save_anonymous_message now tg t x b y z (dw_db w)))\<rparr>))" if "get_user (dw_db w) t \<noteq> None" for t x b y z
  proof (rule sound_gentle [OF honest_sound])
    let ?d = "save_anonymous_message now tg t x b y z (dw_db w)"
    have "honest (dw_db w) ?d" by (rule honest_same) (simp_all add: save_anonymous_message_def)
    moreover have "get_user ?d t = get_user (dw_db w) t" by (simp add: save_anonymous_message_def get_user_def)
    then have "honest ?d (fst (process_coin_transaction now fl event (the (get_user ?d t)) 3 TxAnonReward False None ?d))"
      using that get_user_tg by (intro honest_process) fastforce
    ultimately show "honest (dw_db w) (fst (process_coin_transaction now fl event (the (get_user ?d t)) 3 TxAnonReward False None ?d))"
      by (rule honest_trans)
  qed (intro gentle)
  show ?thesis
    by (simp add: receive_anonymous_message_def Let_def case_prod_beta sound_refl gentle_sound gentle one two)
qed

lemma gentle_inbox: "gentle w (fst (open_anonymous_inbox accepts tg w))" "gentle w (fst (process_anon_reply tg rest w))"
proof -
  have "users (fold mark_anonymous_message_as_read ids d) = users d \<and> coin_txs (fold mark_anonymous_message_as_read ids d) = coin_txs d \<and>
    matches (fold mark_anonymous_message_as_read ids d) = matches d \<and> blocks (fold mark_anonymous_message_as_read ids d) = blocks d" for ids d
    by (induction ids arbitrary: d) (simp_all add: mark_anonymous_message_as_read_def)
  then have "gentle w (on_db (fold mark_anonymous_message_as_read ids) w)" for ids
    by (intro gentle_frame_db) (simp_all add: gentle_refl)
  then show "gentle w (fst (open_anonymous_inbox accepts tg w))" by (simp add: open_anonymous_inbox_def Let_def gentle)
  show "gentle w (fst (process_anon_reply tg rest w))" by (simp add: process_anon_reply_def gentle split: option.split)
qed

lemma sound_anon_block: "sound w (fst (process_anon_block now tg rest w))"
proof -
  have "sound w (on_db (\<lambda>d. d\<lparr>blocks := insert_row mk (blocks d)\<rparr>) w)" for mk
  proof -
    let ?d = "(dw_db w)\<lparr>blocks := insert_row mk (blocks (dw_db w))\<rparr>"
    have "by_key block_key k (blocks ?d) \<noteq> None" if "by_key block_key k (blocks (dw_db w)) \<noteq> None" for k
      using that by (auto simp: by_key_def find_key_append split: option.split)
    moreover have "drift ?d k = drift (dw_db w) k" for k by (rule drift_cong) simp_all
    moreover have "users_unique ?d = users_unique (dw_db w)" by (rule users_unique_cong) simp
    moreover have "no_self_referral ?d = no_self_referral (dw_db w)" by (rule no_self_cong) simp
    moreover have "matches_ok ?d = matches_ok (dw_db w)" by (simp add: matches_ok_def)
    ultimately show ?thesis by (simp add: sound_def world_ok_def on_db_def)
  qed
  then show ?thesis by (simp add: process_anon_block_def sound_refl split: option.split)
qed

lemma sound_inbox: "sound (fst s) (fst (inbox_event word now fl event tg e s))"
  by (cases s; cases e) (auto simp: inbox_event_def sound_request_dm sound_send_dm sound_anonymous sound_anon_block sound_refl
      gentle_read_dm [THEN gentle_sound] gentle_inbox [THEN gentle_sound])

lemma gentle_restore_comment [gentle]: "gentle w w1 \<Longrightarrow> gentle w (restore_comment tg w1)"
  by (simp add: restore_comment_def Let_def gentle split: option.split)

lemma gentle_session: "is_in_active_session tg w = (w1, b) \<Longrightarrow> gentle w w1"
  by (auto simp: is_in_active_session_def gentle split: if_splits)

lemma sound_comment: "sound w (fst (comment_event now tg e w))"
proof -
  have d: "gentle w w1 \<Longrightarrow> gentle w (on_db (upsert_profile_comment now a b t) w1)" for w w1 a b t
    by (rule gentle_frame_db) (simp_all add: upsert_profile_comment_def)
  have start: "gentle w (fst (start_add_comment tg ps w))" for ps
    by (auto simp: start_add_comment_def intro: gentle gentle_session dest: gentle_session split: list.split option.split prod.split bool.split)
  have posted: "gentle w (fst (process_comment_text now tg t w))" for t
    by (auto simp: process_comment_text_def Let_def intro!: gentle d dest: gentle_session split: option.split prod.split bool.split)
  have del: "gentle w (fst (delete_comment tg ps w))" for ps
  proof -
    have "gentle w (w\<lparr>dw_db := d\<rparr>)" if "delete_profile_comment i a (dw_db w) = (d, b)" for i a d b
      using that by (intro gentle_same) (auto simp: delete_profile_comment_def split: option.splits if_splits)
    then show ?thesis by (auto simp: delete_comment_def gentle split: list.split option.split prod.split bool.split)
  qed
  have block: "sound w (fst (block_comment_author tries now token tg ps w))" for tries token ps
  proof -
    have "sound w w1" if "execute_user_blocking tries now token a b w = (w1, r)" for a b w1 r
      using sound_execute_block [of w tries now token a b] that by simp
    then show ?thesis by (auto simp: block_comment_author_def sound_refl split: list.split option.split prod.split block_reply.split)
  qed
  have toggle: "sound w (fst (toggle_comments tg ps w))" for ps
  proof -
    have "sound w (w\<lparr>dw_db := d\<rparr>)" if "toggle_comments_disabled a (dw_db w) = (d, r)" for a d r
      by (rule honest_sound) (use that in \<open>auto simp: toggle_comments_disabled_def honest_refl intro!: honest_upd split: option.splits\<close>)
    then show ?thesis by (auto simp: toggle_comments_def sound_refl split: list.split option.split prod.split)
  qed
  show ?thesis
    by (cases e) (simp_all add: comment_event_def start posted del block toggle gentle_sound gentle)
qed

section \<open>Reviews and purchases\<close>

lemma sound_issue: "sound w (on_db (\<lambda>d. fst (issue_warning now m tg r by_whom i a d)) w)"
proof (cases "get_user (dw_db w) tg")
  case None
  then show ?thesis by (simp add: issue_warning_def on_db_def sound_refl)
next
  case (Some u)
  let ?f = "\<lambda>v. if u_warning_count u + 1 \<ge> m then v\<lparr>u_warning_count := u_warning_count u + 1, u_is_banned := True\<rparr>
      else v\<lparr>u_warning_count := u_warning_count u + 1\<rparr>"
  let ?d = "upd_user tg ?f ((dw_db w)\<lparr>warnings := insert_row (\<lambda>k. \<lparr>uw_id = k, uw_user_tg_id = tg, uw_reason = r,
      uw_issued_by = by_whom, uw_report_id = i, uw_issued_by_admin_tg_id = a, uw_issued_at = Aware now\<rparr>) (warnings (dw_db w))\<rparr>)"
  have "honest (dw_db w) ?d"
    by (rule honest_trans [OF honest_same honest_upd]) simp_all
  then have s: "sound w (w\<lparr>dw_db := ?d\<rparr>)" by (rule honest_sound)
  have "gentle (w\<lparr>dw_db := d\<rparr>) (w\<lparr>dw_db := fst (terminate_active_match now b d)\<rparr>)" for d b
    by (auto simp: gentle_def terminate_active_match_def closes_same end_match_def marks_def intro!: closes_upd split: option.split)
  from s sound_gentle [OF s this] show ?thesis
    by (cases "u_warning_count u + 1 \<ge> m") (simp_all add: issue_warning_def Some on_db_def Let_def)
qed

lemma honest_reporter: "honest d (reward_reporter now reward rid reporter d)"
  by (auto simp: reward_reporter_def honest_refl earn_def intro!: honest_coin split: option.split)

lemma sound_decide_report: "sound w (on_db (decide_report m reward dec rid) w)"
proof -
  have set: "sound w (on_db (set_report rid st nt now) w)" for st nt now w
    by (intro sound_on_db honest_same) (simp_all add: set_report_def)
  have rw: "sound w (on_db (reward_reporter now n i k) w)" for w now n i k by (rule sound_on_db) (rule honest_reporter)
  have "sound w (on_db (\<lambda>d. fst (approve_report now m reward admin rid d)) w)" for now admin
  proof (cases "by_key ur_id rid (reports (dw_db w))")
    case (Some r)
    let ?w1 = "on_db (set_report rid Approved NoteApproved now) w"
    let ?w2 = "on_db (\<lambda>d. fst (issue_warning now m (ur_reported_id r) (WarnReportApproved (ur_reason r)) ''admin_action'' (Some rid) (Some admin) d)) ?w1"
    have "sound w (on_db (reward_reporter now reward rid (ur_reporter_id r)) ?w2)"
      by (rule sound_trans [OF sound_trans [OF set sound_issue] rw])
    then show ?thesis by (simp add: approve_report_def Some on_db_def sound_refl case_prod_beta Let_def)
  qed (simp add: approve_report_def on_db_def sound_refl)
  moreover have "sound w (on_db (\<lambda>d. fst (reject_report now m admin rid d)) w)" for now admin
  proof (cases "by_key ur_id rid (reports (dw_db w))")
    case (Some r)
    let ?w1 = "on_db (set_report rid Rejected NoteFalseReport now) w"
    have "sound w (on_db (\<lambda>d. fst (issue_warning now m (ur_reporter_id r) WarnFalseReport ''false_report'' (Some rid) (Some admin) d)) ?w1)"
      by (rule sound_trans [OF set sound_issue])
    then show ?thesis by (simp add: reject_report_def Some on_db_def sound_refl case_prod_beta Let_def)
  qed (simp add: reject_report_def on_db_def sound_refl)
  ultimately show ?thesis by (cases dec) (simp_all add: decide_report_def on_db_def)
qed

lemma set_forward_frames [simp]:
  "users (set_forward i f d) = users d" "coin_txs (set_forward i f d) = coin_txs d"
  "matches (set_forward i f d) = matches d" "blocks (set_forward i f d) = blocks d"
  by (simp_all add: set_forward_def)

lemma honest_decide_forward: "honest d (decide_forward a fid d)"
proof -
  have "honest d (add_coin_tx now (u_tg_id u) n t i x (set_forward fid g (upd_user (u_tg_id u) (earn n) d)))"
    if "get_user d k = Some u" for now u n t i x g k
    by (rule honest_booked [where f = "earn n"]) (use that get_user_tg [OF that] in \<open>simp_all add: earn_def upd_user_def\<close>)
  then have "honest d (fst (approve_forward now admin fid d))" for now admin
    by (simp add: approve_forward_def Let_def honest_refl split: option.split)
  moreover have "honest d (fst (reject_forward now admin nt fid d))" for now admin nt
    by (simp add: reject_forward_def honest_refl honest_same split: option.split)
  ultimately show ?thesis by (simp add: decide_forward_def split: decision.split)
qed

lemma honest_completion: "honest d (fst (try_award_completion_reward now n tg d))"
  by (auto simp: try_award_completion_reward_def honest_refl intro!: honest_coin split: option.split) (simp_all add: earn_completion_def earn_def)

lemma honest_commission: "honest d (fst (process_commission_on_purchase now pct oid b n d))"
proof -
  have "honest d (add_coin_tx now rid c t i x (upd_user rid (earn_commission c) d\<lparr>commissions := cs\<rparr>))" if "get_user d rid \<noteq> None" for rid c t i x cs
    by (rule honest_booked [OF that, where f = "earn_commission c"]) (simp_all add: earn_commission_def earn_def upd_user_def)
  then show ?thesis by (simp add: process_commission_on_purchase_def Let_def honest_refl split: option.split)
qed

lemma honest_activate:
  assumes "activate_subscription now plans tg code oid d = Inr (d1, s)"
  shows "honest d d1"
proof -
  have "honest d (upd_user tg (\<lambda>v. v\<lparr>u_is_vip := True, u_vip_expires_at := e, u_vip_quota := 5\<rparr>) (d\<lparr>vip_subs := t\<rparr>))" for e t
    by (rule honest_trans [OF honest_same honest_upd]) simp_all
  then show ?thesis using assms by (auto simp: activate_subscription_def Let_def split: option.splits sum.splits)
qed

lemma honest_zero: "honest d (add_coin_tx now tg 0 t i x d)"
proof -
  have "coin_balance (add_coin_tx now tg 0 t i x d) k = coin_balance d k" for k by (simp add: coin_balance_def)
  then show ?thesis
    by (simp add: honest_def drift_def users_unique_add_coin_tx no_self_cong [of "add_coin_tx now tg 0 t i x d" d]) (simp add: add_coin_tx_def)
qed

lemma honest_credit: "honest d (fst (credit_gift now b code q oid d))"
proof -
  have f: "honest d (log_gift now b b g q k c (add_to_inventory now b g q s d))" for g k c s
    by (rule honest_same) simp_all
  then show ?thesis
    using honest_trans [OF f honest_zero] by (simp add: credit_gift_def Let_def honest_refl split: option.split)
qed

lemma honest_settle: "honest d (settle i st d)" "honest d (settle_at now i st d)"
  by (rule honest_same; simp add: settle_def settle_at_def set_order_def)+

lemma honest_bought_coins:
  assumes "get_user d k = Some u"
  shows "honest d (fst (process_commission_on_purchase now pct oid b n (fst (process_coin_transaction now fl event u m t ig r d))))"
  by (rule honest_trans [OF honest_process honest_commission]) (use assms get_user_tg [OF assms] in simp)

lemma honest_goods: "get_user d k = Some u \<Longrightarrow> honest d (deliver_goods st now p u d)"
  by (auto simp: deliver_goods_def deliver_coins_def deliver_vip_def deliver_gift_def case_prod_beta honest_bought_coins honest_credit
      honest_refl intro: honest_activate split: option.split sum.split)

lemma honest_callback: "honest d (fst (fst (zarinpal_callback st now post rq oid au sta (d, l))))"
proof -
  obtain d1 r where c: "callback_deliver st now post oid au sta d = (d1, r)" by (metis surj_pair)
  have "honest d (fst (callback_deliver st now post oid au sta d))"
    by (auto simp: callback_deliver_def Let_def honest_refl honest_settle honest_goods split: option.split sum.split verify_result.split)
  then have "honest d d1" by (simp add: c)
  then show ?thesis
    using honest_trans [OF _ honest_settle(2)]
    by (auto simp: zarinpal_callback_def Let_def c callback_finish_def honest_refl split: sum.split)
qed

lemma honest_receipt: "honest d (fst (admin_verify_receipt st now oid d))" "honest d (fst (admin_reject_receipt now oid d))"
proof -
  have "honest d (fst (apply_receipt st now p d))" for p
    by (auto simp: apply_receipt_def Let_def case_prod_beta honest_refl split: option.split sum.split payload_text.split
        intro: honest_trans [OF honest_activate honest_settle(2)] honest_trans [OF honest_bought_coins honest_settle(2)])
  then show "honest d (fst (admin_verify_receipt st now oid d))" by (simp add: admin_verify_receipt_def honest_refl split: option.split)
  show "honest d (fst (admin_reject_receipt now oid d))" by (simp add: admin_reject_receipt_def honest_refl honest_settle split: option.split)
qed

text \<open>Editing a profile.\<close>

lemma honest_profile: "honest d (fst (update_user_profile tg name bio ints None None None None d))"
proof (cases "get_user d tg")
  case (Some u)
  define f where "f = (\<lambda>u. set_opt (\<lambda>v u. u\<lparr>u_interests := Some v\<rparr>) ints
    (set_opt (\<lambda>v u. u\<lparr>u_bio := Some v\<rparr>) bio (set_opt (\<lambda>v u. u\<lparr>u_first_name := v\<rparr>) name u)))"
  have f: "u_referrer_id (f v) = u_referrer_id v" "u_tg_id (f v) = u_tg_id v" "u_coin_balance (f v) = u_coin_balance v" for v
    by (simp_all add: f_def set_opt_def split: option.split)
  have e: "fst (update_user_profile tg name bio ints None None None None d) = flush_user (f u) d"
    using Some by (simp add: update_user_profile_def f_def Let_def) (simp add: set_opt_def)
  have "flush_user (f u) d = upd_user tg f d" if "users_unique d"
    by (rule flush_user_eq [OF that Some]) (use f(2) get_user_tg [OF Some] in simp)
  moreover have "honest d (upd_user tg f d)" by (rule honest_upd) (simp_all add: f)
  ultimately show ?thesis unfolding e by (auto simp: honest_def flush_user_def upd_user_def)
qed (simp add: update_user_profile_def honest_refl)

lemma honest_award:
  assumes "honest d d1"
  shows "honest d (fst (try_award_completion_reward now n tg (mark_step_done t tg step d1)))"
proof -
  have "honest d (mark_step_done t tg step d1)"
    by (rule honest_frame [OF assms]) (simp_all add: mark_step_done_def split: option.split)
  then show ?thesis by (rule honest_trans [OF _ honest_completion])
qed

definition edit_sound :: "edit_world \<Rightarrow> edit_world \<Rightarrow> bool" where
  "edit_sound s s' \<longleftrightarrow> sound (ew_world s) (ew_world s')"

named_theorems edit_sound

lemma edit_sound_moves [edit_sound]:
  "edit_sound s s" "edit_sound s (edit_clear tg s)" "edit_sound s (edit_goto st tg s)"
  "edit_sound s (edit_goto st tg (on_edit (on_fsm tg g) s))" "edit_sound s (s\<lparr>ew_selected := x\<rparr>)"
  "edit_sound s ((edit_goto st tg s)\<lparr>ew_selected := x\<rparr>)"
  by (simp_all add: edit_sound_def edit_clear_def edit_goto_def on_edit_def gentle gentle_sound)

lemma edit_sound_db [edit_sound]:
  assumes "honest (edit_db s) (f (edit_db s))"
  shows "edit_sound s (on_edit (on_db f) s)" "edit_sound s (edit_clear tg (on_edit (on_db f) s))"
proof -
  have o: "sound (ew_world s) (on_db f (ew_world s))" by (rule sound_on_db) (use assms in \<open>simp add: edit_db_def\<close>)
  then show "edit_sound s (on_edit (on_db f) s)" by (simp add: edit_sound_def on_edit_def)
  from sound_gentle [OF o gentle_leave [OF gentle_refl]]
  show "edit_sound s (edit_clear tg (on_edit (on_db f) s))" by (simp add: edit_sound_def edit_clear_def on_edit_def)
qed

lemma edit_sound_save [edit_sound]: "honest (edit_db s) d \<Longrightarrow> edit_sound s (fst (save_step now n step tg d s))"
  using honest_award by (auto simp: save_step_def step_taken_def case_prod_beta intro!: edit_sound split: option.split)

lemma edit_sound_texts:
  "edit_sound s (fst (process_bio_input now n tg m s))" "edit_sound s (fst (process_name_input tg m s))"
  "edit_sound s (fst (toggle_interest now tg key s))" "edit_sound s (fst (save_profile_changes now n tg s))"
  by (auto simp: process_bio_input_def process_name_input_def toggle_interest_def save_profile_changes_def Let_def case_prod_beta
      honest_profile intro!: edit_sound split: bool.split option.split sum.split)

lemma edit_sound_fields:
  "edit_sound s (fst (process_new_photo reupload now n tg f s))" "edit_sound s (fst (process_new_voice now n tg f z dur s))"
  "edit_sound s (fst (process_new_age tg m s))" "edit_sound s (fst (process_edit_province provinces tg m s))"
  "edit_sound s (fst (process_edit_city tg m s))" "edit_sound s (fst (process_marital_edit tg rest s))"
  "edit_sound s (fst (process_gps_location now n tg lat lng s))"
  by (auto simp: process_new_photo_def process_new_voice_def process_new_age_def process_edit_province_def process_edit_city_def
      process_marital_edit_def show_edit_menu_def process_gps_location_def update_user_location_def Let_def
      intro!: edit_sound honest_upd split: bool.split option.split)

lemma sound_edit: "sound (ew_world s) (ew_world (fst (edit_step provinces reupload n now tg e s)))"
proof -
  have "edit_sound s (fst (edit_message provinces reupload now n tg m s))" for m
    by (simp add: edit_message_def Let_def cancel_profile_editing_def edit_sound edit_sound_texts edit_sound_fields split: edit_content.split)
  then have "edit_sound s (fst (edit_step provinces reupload n now tg e s))"
    by (simp add: edit_step_def Let_def show_edit_menu_def start_bio_edit_def start_name_edit_def start_interests_edit_def
        start_photo_edit_def start_voice_edit_def start_age_edit_def start_location_edit_def start_gps_edit_def edit_sound
        edit_sound_texts edit_sound_fields split: edit_event.split)
  then show ?thesis by (simp add: edit_sound_def)
qed

text \<open>Searching for users.\<close>

lemma gentle_wizard_moves [gentle]:
  "gentle w (ew_world s) \<Longrightarrow> gentle w (ew_world (form_put k v tg s))" "gentle w (ew_world s) \<Longrightarrow> gentle w (ew_world (pick xs tg s))"
  "gentle w (ew_world s) \<Longrightarrow> gentle w (ew_world (edit_goto st tg s))" "gentle w (ew_world s) \<Longrightarrow> gentle w (ew_world (edit_clear tg s))"
  by (simp_all add: form_put_def pick_def edit_goto_def edit_clear_def on_edit_def gentle)

lemma gentle_result_page [gentle]:
  "gentle w (ew_world s) \<Longrightarrow> gentle w (ew_world (fst (show_discovery_list_page now tg page s)))"
  by (simp add: show_discovery_list_page_def Let_def gentle split: option.split sum.split)

lemma sound_wizard: "sound (ew_world s) (ew_world (fst (wizard_step provinces now tg e s)))"
proof (cases e)
  case (WUnblock t)
  then show ?thesis
    by (simp add: wizard_step_def unblock_from_disc_def disc_blocked_def case_prod_beta on_edit_def sound_unblock sound_refl split: option.split)
qed (simp_all add: wizard_step_def Let_def cancel_discovery_wizard_def disc_main_menu_def handle_discovery_pagination_def
    start_discovery_def cancel_wizard_def start_wizard_def receive_province_def toggle_discovery_interest_def confirm_interests_def
    receive_age_range_def disc_nearby_def receive_distance_def disc_same_interests_def disc_no_chat_def disc_same_city_def quick_filter_def
    disc_same_province_def disc_restart_def open_discovery_menu_callback_def disc_blocked_def case_prod_beta gentle gentle_sound
    split: option.split sum.split)

text \<open>The shop and the VIP panel.\<close>

lemma set_order_frames [simp]:
  "users (set_order i f d) = users d" "coin_txs (set_order i f d) = coin_txs d" "matches (set_order i f d) = matches d"
  "blocks (set_order i f d) = blocks d"
  by (simp_all add: set_order_def)

lemma new_order_frames [simp]: "matches (add_order r d) = matches d" "blocks (add_order r d) = blocks d"
  by (simp_all add: add_order_def)

lemma gentle_orders [gentle]:
  "gentle w w1 \<Longrightarrow> gentle w (on_db (add_order r) w1)" "gentle w w1 \<Longrightarrow> gentle w (on_db (set_order i f) w1)"
  "gentle w w1 \<Longrightarrow> gentle w (on_db (settle i ps) w1)" "gentle w w1 \<Longrightarrow> gentle w (shop_goto st tg w1)"
  by (auto simp: settle_def shop_goto_def intro: gentle gentle_frame_db)

lemma gentle_gateway [gentle]: "gentle w w1 \<Longrightarrow> gentle w (fst (gateway_answer i a w1))"
  by (simp add: gateway_answer_def gentle split: sum.split)

lemma gentle_created: "gentle w (on_db (\<lambda>_. add_order r (dw_db w)) w)" "gentle w (on_db (\<lambda>_. set_order i f (add_order r (dw_db w))) w)"
  by (rule gentle_same; simp add: on_db_def)+

lemma gentle_buying:
  "gentle w (fst (process_gateway_payment enabled post now tg w))" "gentle w (fst (receive_receipt_photo reaches admins now tg photo w))"
  "gentle w (fst (vip_pay_gateway plans enabled post now tg code w))" "gentle w (fst (vip_receipt_uploaded plans reaches admins now tg w))"
  by (auto simp: process_gateway_payment_def receive_receipt_photo_def vip_pay_gateway_def vip_receipt_uploaded_def created_order Let_def
      case_prod_beta intro!: gentle gentle_created split: option.split)

lemma sound_shop: "sound w (shop_move env e w)"
proof -
  obtain now tg post k where e: "e = (now, tg, post, k)" by (cases e)
  have "gentle w (shop_move env e w)"
    by (cases k) (auto simp: e shop_move_def gentle_buying show_store_def choose_payment_method_def process_card_payment_def cancel_payment_flow_def
        vip_buy_plan_def vip_pay_card_def vip_buy_cancel_handler_def Let_def intro!: gentle split: option.split)
  then show ?thesis by (rule gentle_sound)
qed

lemma record_forward_frames:
  assumes "record_forward now tg cid msg chat d = (d1, r)"
  shows "users d1 = users d" "coin_txs d1 = coin_txs d" "matches d1 = matches d" "blocks d1 = blocks d"
  using assms by (auto simp: record_forward_def split: option.splits if_splits)

lemma sound_panel:
  "sound w (fst (receive_banner_proof reaches admins now tg msg w))" "sound w (fst (rematch_previous_partner reaches now tg w))"
proof -
  have "gentle w (on_db (\<lambda>_. d1) w)" if "record_forward now tg cid msg' chat (dw_db w) = (d1, r)" for d1 r cid msg' chat
    by (rule gentle_same) (simp_all add: on_db_def record_forward_frames [OF that])
  then show "sound w (fst (receive_banner_proof reaches admins now tg msg w))"
    by (auto simp: receive_banner_proof_def intro!: gentle_sound gentle split: prod.split)
  show "sound w (fst (rematch_previous_partner reaches now tg w))"
    by (auto simp: rematch_previous_partner_def Let_def intro!: gentle_sound gentle split: option.split sum.split bool.split list.split)
qed

lemma honest_invisible: "honest d (fst (toggle_invisible_mode now tg d))"
  by (auto simp: toggle_invisible_mode_def honest_refl intro!: honest_upd split: option.split)

section \<open>The transition system\<close>

text \<open>One rule per handler or job.  What the surroundings decide (the clock, Telegram's answers, a
  shuffle, the lock's token, the texts) is free in every rule.\<close>

text \<open>The date and the chat, from the search to the end.\<close>

inductive date_step :: "dworld \<Rightarrow> dworld \<Rightarrow> bool" where
  search: "date_step w (fst (enter_match_queue shuffle deliver now tg ty w))"
| vip_search: "date_step w (fst (process_vip_age_filter shuffle deliver now tg data w))"
| countdown: "date_step w (finish_search now tg r w)"
| cancel_search: "date_step w (cancel_queue_operations tg w)"
| answer: "date_step w (answer_pressed deliver now tg data w)"
| stale_answer: "date_step w (fst (stale_questionnaire_button tg w))"
| consent: "date_step w (consent_pressed now tg yes w)"
| relay: "date_step w (fst (fst (route_anonymous_chat_message word send now tg m (w, ids))))"
| end_chat: "date_step w (end_active_anonymous_chat now tg w)"
| end_asked: "date_step w (request_end tg w)"
| end_confirmed: "date_step w (confirm_end tries now token tg w)"
| end_chat_confirmed: "date_step w (confirm_end_chat tries now token tg w)"
| end_button: "date_step w (end_date_early tries now token tg mid w)"

text \<open>What users do to each other.\<close>

inductive social_step :: "dworld \<Rightarrow> dworld \<Rightarrow> bool" where
  block: "social_step (iw_world s) (iw_world (fst (block_user tries now token a b s)))"
| unblock: "social_step w (unblock_user a b w)"
| like: "social_step w (on_db (\<lambda>d. fst (handle_like_user now fl event a b d)) w)"
| request: "social_step w (fst (handle_requests_to_users deliver now a b w))"
| accept: "social_step w (fst (accept_user_request shuffle deliver now fl event is_chat a b w))"
| report: "social_step w (on_fsm tg (process_report_reason reported reason) w)"
| evidence: "social_step w (fst (handle_report_evidence tries now token sent reasons tg w))"
| report_left: "social_step w (cancel_report_from_profile tg w)"

text \<open>Menus, repairs and registration.\<close>

inductive menu_step :: "dworld \<Rightarrow> dworld \<Rightarrow> bool" where
  start: "menu_step (sw_world s) (sw_world (fst (handle_start_command mentions now nc tg args s)))"
| membership: "menu_step (sw_world s) (sw_world (fst (process_check_membership cfg member_of mentions now nc tg s)))"
| terms: "menu_step w (on_fsm tg (\<lambda>c. fst (accept_terms c)) w)"
| onboarding: "onboarding_message provinces now fl event tg txt (dw_fsm w tg, dw_db w) = ((c, d), r) \<Longrightarrow>
    menu_step w (on_fsm tg (\<lambda>_. c) (w\<lparr>dw_db := d\<rparr>))"
| reset: "menu_step w (execute_emergency_reset now tg w)"
| heal: "menu_step w (fst (auto_heal_ghost_state now tg w))"
| menu: "menu_step w (fst (start_anonymous_dating now tg w))"
| rules: "menu_step w (fst (accept_rules_and_start now tg w))"

lemma honest_call_back: "honest d (call_back send fl event now tg d)"
proof (cases "get_user d tg")
  case (Some u)
  have "honest d (fst (process_coin_transaction now fl event u 5 TxReengaged False None d))"
    by (rule honest_process) (use Some get_user_tg [OF Some] in simp)
  then have "honest d (if penniless u then fst (process_coin_transaction now fl event u 5 TxReengaged False None d) else d)"
    by (simp add: honest_refl)
  then show ?thesis unfolding call_back_def Some option.case by (rule honest_trans) (rule honest_upd; simp)
qed (simp add: call_back_def honest_refl)

lemma honest_calls: "honest d (snd (reengage_run_once send fl event now (lock, d)))"
  by (auto simp: reengage_run_once_def honest_refl intro!: honest_fold honest_call_back)

lemma honest_sent: "honest d (snd (fold (send_to_user first again mark_user_blocked) ks (n, d)))"
proof (induction ks arbitrary: n d)
  case (Cons k ks)
  obtain n1 d1 where s: "send_to_user first again mark_user_blocked k (n, d) = (n1, d1)" by fastforce
  then have "honest d d1" by (auto simp: send_to_user_def mark_user_blocked_def split: send_result.splits intro!: honest_refl honest_upd)
  from honest_trans [OF this Cons.IH [of d1 n1]] s show ?case by simp
qed (simp add: honest_refl)

lemma honest_broadcast: "honest d (snd (broadcast_message order first again mark_user_blocked source ids d))"
  by (simp add: broadcast_message_def Let_def fold_orders honest_sent honest_refl)

lemma honest_routed: "honest d (fst (get_bot_for_user fleet tg d))"
  by (auto simp: get_bot_for_user_def Let_def intro!: honest_refl honest_upd)

text \<open>The scheduler's jobs.\<close>

inductive job_step :: "dworld \<Rightarrow> dworld \<Rightarrow> bool" where
  poll: "poll_key up now token mid (dw_db w, dw_sched w) = (d, sc) \<Longrightarrow> job_step w (w\<lparr>dw_db := d, dw_sched := sc\<rparr>)"
| zombies: "job_step w (w\<lparr>dw_store := fst (clean_zombie_states (dw_db w) batches (dw_store w))\<rparr>)"
| queue_timeouts: "job_step w (w\<lparr>dw_store := fst (process_timeouts now order (dw_store w))\<rparr>)"
| online: "job_step w (on_db (batch_flush_last_active updates) w)"
| offline: "job_step w (on_db (sync_offline_users now mins) w)"
| calls: "job_step w (on_db (\<lambda>d. snd (reengage_run_once send fl event now (lock, d))) w)"
| flagged: "job_step w (on_db (\<lambda>d. snd (broadcast_message order first again mark_user_blocked source ids d)) w)"
| routed: "job_step w (on_db (\<lambda>d. fst (get_bot_for_user fleet tg d)) w)"

text \<open>Private messages, comments, gifts and boxes.\<close>

inductive private_step :: "dworld \<Rightarrow> dworld \<Rightarrow> bool" where
  inbox: "private_step (fst s) (fst (inbox_event word now fl event tg e s))"
| comment: "private_step w (fst (comment_event now tg c w))"
| gift: "private_step w (fst (gift_event items now tg g w))"
| box: "private_step w (on_db (\<lambda>d. fst (fst (process_open_lootbox now fl event draw rewards tg (d, cd)))) w)"
| edit: "private_step (ew_world s) (ew_world (fst (edit_step provinces reupload n now tg ed s)))"
| search: "private_step (ew_world s) (ew_world (fst (wizard_step provinces now tg wz s)))"
| buy: "private_step w (shop_move env b w)"
| proof_sent: "private_step w (fst (receive_banner_proof reaches admins now tg msg w))"
| rematch: "private_step w (fst (rematch_previous_partner reaches now tg w))"
| invisible: "private_step w (on_db (\<lambda>d. fst (toggle_invisible_mode now tg d)) w)"
| completion: "private_step w (on_db (\<lambda>d. fst (try_award_completion_reward now n tg d)) w)"

text \<open>The gateway's callback and what administrators do.\<close>

inductive office_step :: "dworld \<Rightarrow> dworld \<Rightarrow> bool" where
  callback: "office_step w (on_db (\<lambda>d. fst (fst (zarinpal_callback st now post rq oid au sta (d, l)))) w)"
| receipt: "office_step w (on_db (\<lambda>d. fst (admin_verify_receipt st now oid d)) w)"
| receipt_refused: "office_step w (on_db (\<lambda>d. fst (admin_reject_receipt now oid d)) w)"
| report_decided: "office_step w (on_db (decide_report m reward dec rid) w)"
| banner_decided: "office_step w (on_db (decide_forward a fid) w)"
| ban: "office_step (aw_world s) (aw_world (fst (cmd_banuser admins now me t s)))"
| quick_ban: "office_step (aw_world s) (aw_world (fst (admin_quick_ban admins now me rest s)))"
| quick_unban: "office_step (aw_world s) (aw_world (fst (admin_quick_unban rest s)))"
| panel_ban: "office_step (aw_world s) (aw_world (fst (api_ban_user tg b s)))"
| addcoins: "office_step w (on_db (\<lambda>d. fst (cmd_addcoins now t d)) w)"
| removecoins: "office_step w (on_db (\<lambda>d. fst (cmd_removecoins now t d)) w)"
| addcoinsall: "office_step w (on_db (\<lambda>d. fst (cmd_addcoinsall now t d)) w)"
| addcoinsvip: "office_step w (on_db (\<lambda>d. fst (cmd_addcoinsvip now t d)) w)"
| setvip: "office_step w (on_db (\<lambda>d. fst (cmd_setvip now t d)) w)"
| resetprofile: "office_step w (on_db (\<lambda>d. fst (cmd_resetprofile t d)) w)"
| add_package: "office_step w (on_db (\<lambda>d. fst (cmd_add_package now t d)) w)"
| edit_package: "office_step w (on_db (\<lambda>d. fst (cmd_edit_package t d)) w)"
| toggle_package: "office_step w (on_db (\<lambda>d. fst (cmd_toggle_package t d)) w)"
| sync: "office_step w (cmd_sync_states keys locks w)"
| questions: "office_step (bk_world s) (bk_world (fst (bank_step tg q s)))"
| catalogue: "office_step w (gift_add_step uc p w)"
| campaign: "office_step w (fst (confirm_banner_creation now r tg w))"

definition step :: "dworld \<Rightarrow> dworld \<Rightarrow> bool" where
  "step w w' \<longleftrightarrow> date_step w w' \<or> social_step w w' \<or> menu_step w w' \<or> job_step w w' \<or>
     private_step w w' \<or> office_step w w'"

inductive runs :: "dworld \<Rightarrow> dworld \<Rightarrow> bool" where
  here: "runs w w"
| more: "runs w w1 \<Longrightarrow> step w1 w2 \<Longrightarrow> runs w w2"

lemma fold_blocks:
  assumes "\<And>x s. ms_blocks (f x s) = ms_blocks s"
  shows "ms_blocks (fold f xs s) = ms_blocks s"
  by (induction xs arbitrary: s) (simp_all add: assms)

lemma zombies_blocks: "ms_blocks (fst (fold (clean_batch d) batches (s, n))) = ms_blocks s"
proof (induction batches arbitrary: s n)
  case (Cons b bs)
  obtain s1 n1 where c: "clean_batch d b (s, n) = (s1, n1)" by (metis surj_pair)
  then have "s1 = fold del_state (filter (\<lambda>tg. tg \<notin> valid_users (pending_users b s) d) (pending_users b s))
      (remove_all (filter (\<lambda>tg. tg \<notin> valid_users (pending_users b s) d) (pending_users b s)) s)"
    by (simp add: clean_batch_def Let_def)
  then have "ms_blocks s1 = ms_blocks s" by (simp add: fold_blocks)
  with Cons c show ?case by simp
qed simp

lemma honest_last_active: "honest d (batch_flush_last_active updates d)" "honest d (sync_offline_users now mins d)"
proof -
  have "honest d (flush_chunk c d)" for c d unfolding flush_chunk_def by (rule honest_where) simp
  then show "honest d (batch_flush_last_active updates d)" by (simp add: batch_flush_last_active_def honest_fold)
  show "honest d (sync_offline_users now mins d)" unfolding sync_offline_users_def by (rule honest_where) simp
qed

lemma date_step_sound: "date_step w w' \<Longrightarrow> sound w w'"
proof (induction rule: date_step.induct)
  case (stale_answer w tg)
  show ?case by (auto simp: stale_questionnaire_button_def Let_def intro!: gentle_sound gentle split: option.split)
qed (rule sound_search sound_vip_search sound_countdown gentle_cancel [THEN gentle_sound] gentle_answer [THEN gentle_sound]
    gentle_consent [THEN gentle_sound] gentle_relay [THEN gentle_sound] gentle_end_chat [THEN gentle_sound]
    gentle_end_buttons [THEN gentle_sound])+

lemma social_step_sound: "social_step w w' \<Longrightarrow> sound w w'"
proof (induction rule: social_step.induct)
  case (like w now fl event a b)
  show ?case by (intro sound_on_db honest_like)
next
  case (report w tg reported reason)
  show ?case by (intro gentle_sound gentle)
next
  case (report_left w tg)
  show ?case unfolding cancel_report_from_profile_def by (intro gentle_sound gentle_restore gentle_refl)
qed (rule sound_block_user sound_unblock sound_accept sound_evidence gentle_request [THEN gentle_sound])+

lemma menu_step_sound: "menu_step w w' \<Longrightarrow> sound w w'"
proof (induction rule: menu_step.induct)
  case (terms w tg)
  show ?case by (intro gentle_sound gentle)
next
  case (heal w now tg)
  show ?case by (intro gentle_sound gentle)
qed (rule sound_start_command sound_membership sound_onboarding gentle_reset [THEN gentle_sound] sound_menu; assumption?)+

lemma job_step_sound: "job_step w w' \<Longrightarrow> sound w w'"
proof (induction rule: job_step.induct)
  case (poll up now token mid w d sc)
  then show ?case by (rule gentle_poll [THEN gentle_sound])
next
  case (zombies w batches)
  show ?case by (intro gentle_sound gentle gentle_refl) (simp add: clean_zombie_states_def zombies_blocks)
next
  case (queue_timeouts w now order)
  show ?case by (intro gentle_sound gentle gentle_refl) (simp add: process_timeouts_def Let_def fold_blocks)
qed (intro sound_on_db honest_last_active honest_calls honest_broadcast honest_routed)+

lemma private_step_sound: "private_step w w' \<Longrightarrow> sound w w'"
  by (induction rule: private_step.induct) (rule sound_inbox sound_comment sound_gift sound_edit sound_wizard sound_shop sound_panel sound_on_db honest_invisible honest_box honest_completion)+

lemma office_step_sound: "office_step w w' \<Longrightarrow> sound w w'"
  by (induction rule: office_step.induct)
    (rule sound_bans sound_decide_report gentle_sync [THEN gentle_sound] gentle_bank [THEN gentle_sound]
      gentle_gift_add [THEN gentle_sound] gentle_campaign [THEN gentle_sound] sound_on_db honest_callback honest_receipt
      honest_decide_forward honest_commands honest_packages)+

lemma step_sound: "step w w' \<Longrightarrow> sound w w'"
  unfolding step_def using date_step_sound social_step_sound menu_step_sound job_step_sound private_step_sound office_step_sound by blast



end
