(* ===== verification/Spec2Isabelle.thy ===== *)
theory Spec2Isabelle
  imports Payments StateLock ForceJoin World TransferDialog Inbox Explore Gacha Comments GiftDialog Admin QuestionBank AdminContent Wizard Shop Ingress Jobs
begin

text \<open>
  This is the root of a library that models a Telegram dating bot: its relational state, its
  economy, its payments, its matching engine, and the dialogues that drive them.

  \<^bold>\<open>Parts and how they interact.\<close>  Handlers (\<open>bot/handlers\<close>), the payment web route
  (\<open>api/routes/payment.py\<close>), the services (\<open>services\<close>) and the scheduler's jobs share one database,
  whose tables are \<open>database/models/models.py\<close>, mostly through the operations of
  \<open>database/queries/crud.py\<close>, one Redis (the matching engine's queues, the timers, the
  questionnaire's answers) and the dialogue state of every user (aiogram's FSM).  A database is the
  record \<open>db\<close> of theory Database: one table per model class, a table being its rows in insertion
  order and the next key; a model instance is a record with the columns' names.  The FSM of a user is
  the record \<open>fsm\<close> of theory States: a state and the data, a map from keys to
  values.  Theory Dates puts database, queues, timers and dialogues together in the record
  \<open>dworld\<close>, which the handlers of the later theories transform.  An operation is a function
  from a state to a state and its reply; a transaction is one such function, and an operation that
  commits in the middle (the payment callback) is split at its commit.  A raised error and an early
  return are values of the reply.

  \<^bold>\<open>Theories of the economy.\<close>
  Prelude: tables, their lookups and updates; Python's naive and aware times; truthiness.
  Database: the schema and the three updates everything uses.
  Ledger: what makes the economy consistent: \<open>ledger_ok\<close> (every balance is the sum of the
  user's logged transactions), \<open>totals_ok\<close> (balance = earned - spent), and the locale
  \<open>ledger\<close> of operations that book what they pay.
  Economy: \<open>process_coin_transaction\<close> and the flush of the session object.
  Accounts: creation, registration, deletion, VIP quota, XP.
  Transfers: \<open>transfer_coins\<close> and the handler's atomic transfer.
  Gifts, Vip, Referral, Banners, ProfileCompletion: one service each.
  Matches, Social, Orders: the rest of \<open>crud.py\<close>, match records, likes, friends, blocks,
  comments, tags, messages, channels, reports, packages and orders.
  Warnings: \<open>services/warning_engine.py\<close> and the locale \<open>review\<close>: a record that is decided at
  most once, and what its decision emits; Warnings and Banners interpret it.
  Payments: \<open>services/zarinpal.py\<close>, the callback and the admin's receipt buttons.
  Discovery: the four searches of \<open>crud.py\<close>, their filters, score and ranking.

  \<^bold>\<open>Theories of the dates.\<close>
  Texts, Utf8: texts as lists of code points (\<open>ustr\<close>), the normalisers, Python's \<open>int\<close>, the
  encoding in which names are stored.
  States: the dialogue states and their groups (\<open>bot/states\<close>).
  Matching: \<open>services/matching_engine.py\<close> over its Redis keys.
  Scheduler: \<open>services/scheduler.py\<close>: timers, the termination pipeline with its lock, the polling
  loop, the cleaning jobs.
  Dates: \<open>bot/handlers/matching.py\<close>, from the search to the start of a date, and the world.
  Questionnaire: the twenty answers in step and the compatibility score.
  ChatFilter, Chat: consent, the relay and its filters, the end of a chat.
  Interactions: blocks, likes, requests, reports, the buttons that end a date.
  Healing, Onboarding: the reset and the healer of stale dialogues, \<open>/start\<close>, registration.
  Guards, StateLock, ForceJoin: the middlewares and filters that run before a handler.
  Soundness: which of these handlers move no account, or only with its log.
  World: these handlers, the payment callback, the reviews, the other dialogues (but transfers, which
  the code does not log) and the jobs as one transition system, and what holds in every state it reaches.

  \<^bold>\<open>Theories of the other dialogues.\<close>
  TransferDialog: \<open>bot/handlers/transfer.py\<close>, with the dialogue a transfer interrupts and restores.
  Inbox: direct messages and the anonymous link.  Comments: the comment dialogue.
  Explore: the explore menu and its memory of viewed users.  Gacha: the lootboxes.
  GiftDialog: \<open>bot/handlers/gifts.py\<close>, with the dialogue a gift interrupts and restores.
  Admin: the administrators' commands of \<open>bot/handlers/admin.py\<close> on users, coins, bans, packages,
  orders and states, and the session middleware's gates for the banned.
  QuestionBank, AdminContent: the administrators' dialogues that fill the question bank and the
  catalogue of gifts, open campaigns and events, change the card and the sponsors; the locale
  \<open>growing\<close> says that a run of such dialogues only adds sound items.
  ProfileEdit: \<open>bot/handlers/profile_edit.py\<close>, the columns users fill in themselves and the
  steps of the profile they complete.  Wizard: \<open>bot/handlers/discovery.py\<close>, the search for users
  and its pages.  Shop: the dialogues of \<open>payments.py\<close>, \<open>vip.py\<close> and \<open>coins_menu.py\<close> that create
  orders, a third interpretation of the locale \<open>growing\<close>.

  \<^bold>\<open>Theories of what surrounds the handlers.\<close>
  Ingress: \<open>api/routes/webhook.py\<close>, the way of an update to the handlers, which are the parameter
  \<open>feed\<close>, and \<open>bot/core/bot_shard_manager.py\<close>.
  Jobs: the worker that calls back inactive users, the reminders, the broadcasts and their rate
  limiter (\<open>services/reengagement.py\<close>, \<open>cron_reminders.py\<close>, \<open>broadcast_worker.py\<close>).

  \<^bold>\<open>What the lemmas show.\<close>  For the operations that pay: which balances move, that the log
  moves with them, that nothing else changes, and on which inputs they refuse.  For what may
  be paid once (reports, registration, profile completion, orders): that no sequence
  of calls pays twice, or the sequence that does.  For the callback: that goods are delivered
  only on a pending order whose authority matches and whose amount the gateway confirms.  For
  the matching engine: that a match is mutual and acceptable to both, that nobody who waits is
  lost, and who sees whom.  For the dialogues: what a run of any length, in any order of the
  users' presses and messages, can change (theories World, TransferDialog, GiftDialog,
  Inbox, Comments), that an
  interrupted dialogue is restored, that a chat needs both consents and relays only filtered
  texts, that a questionnaire refines a plain exchange of answers and ends.  For the webhook and the
  jobs: what runs at most once, and how often.  The theorems named after
  a fault state, on every input of the shape they describe, what the code does where that is not what
  it means to do.

  \<^bold>\<open>Parameters.\<close>  The payment gateway (\<open>post\<close>, from the order of the request to its reply), the
  float rounding of the event multiplier and of chances (\<open>fl\<close>), the draws of random codes and
  numbers, the shuffle of \<open>ORDER BY RAND()\<close>, the visiting order of \<open>SCAN\<close> and of sets, the clock
  (\<open>now\<close>, in microseconds; in the rate limiter rational seconds) and what Telegram answers to a message (\<open>deliver\<close>, \<open>send\<close>) are
  arguments; so are the settings an administrator edits.  No loop needs fuel: retries recurse
  over the list of draws, scans over the batch, the offsets and the queue keys, the wait for a lock
  over \<open>tries\<close>, the instants at which it is tried.

  \<^bold>\<open>Not modelled.\<close>  Telegram messages, keyboards and texts (what a text depends on is kept as
  a datatype, as in \<open>tx_text\<close>); caches, but for those a decision reads; \<open>updated_at\<close>
  stamps; overflow of integer columns; MySQL's collation (equality of texts is exact); failures of
  Redis and of the network, but for the gateway's and for delivery to a user; interleaving inside a
  handler (handlers run one after the other to their end), but for the callback's early commit.  The
  administrators' statistics, reports and dialogues of a broadcast, the menus that only show texts,
  the job queue, the metrics and the cache are left out; so is \<open>bot/handlers/safety.py\<close>, whose router
  is not included, and the reminder of a silent chat, whose keys nothing writes.
\<close>

end
